(* ===== verification/Prelude.thy ===== *)
theory Prelude
  imports Main "HOL-Library.Word" "HOL-Library.List_Lexorder" "HOL-Library.Product_Lexorder"
begin

text \<open>
  Shared vocabulary of the development: the machine integers and strings of the Rust
  code, the functions of Rust's standard library that the components use, and the
  generic lemmas and collections their proofs share.

  A Rust \<open>char\<close> is its Unicode code point, a \<open>String\<close> the list of its chars; Rust
  compares strings by their UTF-8 bytes, which is the lexicographic order of the code
  points.  A \<open>u32\<close> or \<open>u64\<close> is a word of that width (arithmetic wraps, as in the release
  build); a \<open>usize\<close> index or length is a \<open>nat\<close>.
\<close>

section \<open>Types\<close>

type_synonym u32 = "32 word"
type_synonym u64 = "64 word"
type_synonym uchar = nat
type_synonym str = "uchar list"

named_theorems str_simps \<open>evaluation of the string functions\<close>

text \<open>A string literal of the source.\<close>

definition lit :: "string \<Rightarrow> str" where
  "lit s = map of_char s"

lemma lit_inject [simp]: "lit a = lit b \<longleftrightarrow> a = b"
  by (simp add: lit_def inj_map_eq_map inj_def)

lemma lit_Nil [simp]: "lit [] = []" "lit s = [] \<longleftrightarrow> s = []" "[] = lit s \<longleftrightarrow> s = []"
  by (simp_all add: lit_def)

lemma lit_append: "lit (a @ b) = lit a @ lit b"
  by (simp add: lit_def)

text \<open>A literal that starts with a backslash, such as an IMAP system flag.\<close>

definition blit :: "string \<Rightarrow> str" where
  "blit s = 92 # lit s"

lemma blit_inject [simp]: "blit a = blit b \<longleftrightarrow> a = b" "blit a \<noteq> []"
  by (simp_all add: blit_def)

section \<open>Characters\<close>

text \<open>\<open>char::is_whitespace\<close> (the Unicode property \<open>White_Space\<close>) and \<open>char::is_control\<close>
  (the category Cc).\<close>

definition is_whitespace :: "uchar \<Rightarrow> bool" where
  "is_whitespace c \<longleftrightarrow>
     (9 \<le> c \<and> c \<le> 13) \<or> c = 32 \<or> c = 133 \<or> c = 160 \<or> c = 5760 \<or> (8192 \<le> c \<and> c \<le> 8202) \<or>
     c = 8232 \<or> c = 8233 \<or> c = 8239 \<or> c = 8287 \<or> c = 12288"

definition is_control :: "uchar \<Rightarrow> bool" where
  "is_control c \<longleftrightarrow> c < 32 \<or> (127 \<le> c \<and> c < 160)"

definition lower_char :: "uchar \<Rightarrow> uchar" where
  "lower_char c = (if 65 \<le> c \<and> c \<le> 90 then c + 32 else c)"

definition upper_char :: "uchar \<Rightarrow> uchar" where
  "upper_char c = (if 97 \<le> c \<and> c \<le> 122 then c - 32 else c)"

definition to_ascii_lowercase :: "str \<Rightarrow> str" where
  "to_ascii_lowercase = map lower_char"

definition to_ascii_uppercase :: "str \<Rightarrow> str" where
  "to_ascii_uppercase = map upper_char"

definition eq_ignore_ascii_case :: "str \<Rightarrow> str \<Rightarrow> bool" where
  "eq_ignore_ascii_case a b \<longleftrightarrow> to_ascii_lowercase a = to_ascii_lowercase b"

lemma lower_char_idem [simp]: "lower_char (lower_char c) = lower_char c"
  by (simp add: lower_char_def)

lemma eq_ignore_ascii_case_refl [simp]: "eq_ignore_ascii_case a a"
  by (simp add: eq_ignore_ascii_case_def)

lemma eq_ignore_ascii_case_sym: "eq_ignore_ascii_case a b \<longleftrightarrow> eq_ignore_ascii_case b a"
  by (auto simp: eq_ignore_ascii_case_def)

lemma eq_ignore_ascii_case_trans:
  "eq_ignore_ascii_case a b \<Longrightarrow> eq_ignore_ascii_case b c \<Longrightarrow> eq_ignore_ascii_case a c"
  by (auto simp: eq_ignore_ascii_case_def)

section \<open>Strings\<close>

fun strip_prefix :: "str \<Rightarrow> str \<Rightarrow> str option" where
  "strip_prefix [] s = Some s"
| "strip_prefix (p # ps) [] = None"
| "strip_prefix (p # ps) (c # cs) = (if p = c then strip_prefix ps cs else None)"

definition starts_with :: "str \<Rightarrow> str \<Rightarrow> bool" where
  "starts_with p s \<longleftrightarrow> strip_prefix p s \<noteq> None"

definition strip_suffix :: "str \<Rightarrow> str \<Rightarrow> str option" where
  "strip_suffix p s = map_option rev (strip_prefix (rev p) (rev s))"

definition ends_with :: "str \<Rightarrow> str \<Rightarrow> bool" where
  "ends_with p s \<longleftrightarrow> strip_suffix p s \<noteq> None"

lemma strip_prefix_Some [simp]: "strip_prefix p s = Some r \<longleftrightarrow> s = p @ r"
  by (induction p s rule: strip_prefix.induct) auto

lemma strip_prefix_None: "strip_prefix p s = None \<longleftrightarrow> (\<forall>r. s \<noteq> p @ r)"
  by (metis not_None_eq strip_prefix_Some)

lemma strip_prefix_append [simp]: "strip_prefix p (p @ r) = Some r"
  by simp

lemma starts_with_iff: "starts_with p s \<longleftrightarrow> (\<exists>r. s = p @ r)"
  by (auto simp: starts_with_def)

lemma strip_suffix_Some [simp]: "strip_suffix p s = Some r \<longleftrightarrow> s = r @ p"
  by (auto simp: strip_suffix_def) (metis rev_append rev_rev_ident)+

text \<open>\<open>str::contains\<close> of a string.\<close>

fun contains :: "str \<Rightarrow> str \<Rightarrow> bool" where
  "contains p [] = (p = [])"
| "contains p (c # cs) = (starts_with p (c # cs) \<or> contains p cs)"

text \<open>\<open>str::split\<close> on the chars a predicate accepts: always at least one piece.\<close>

fun split_on :: "(uchar \<Rightarrow> bool) \<Rightarrow> str \<Rightarrow> str list" where
  "split_on P [] = [[]]"
| "split_on P (c # cs) =
     (if P c then [] # split_on P cs
      else (case split_on P cs of [] \<Rightarrow> [[c]] | s # ss \<Rightarrow> (c # s) # ss))"

definition split_whitespace :: "str \<Rightarrow> str list" where
  "split_whitespace s = filter (\<lambda>w. w \<noteq> []) (split_on is_whitespace s)"

fun split_once :: "uchar \<Rightarrow> str \<Rightarrow> (str \<times> str) option" where
  "split_once d [] = None"
| "split_once d (c # cs) =
     (if c = d then Some ([], cs) else map_option (\<lambda>(a, b). (c # a, b)) (split_once d cs))"

fun join :: "str \<Rightarrow> str list \<Rightarrow> str" where
  "join sep [] = []"
| "join sep [s] = s"
| "join sep (s # t # ss) = s @ sep @ join sep (t # ss)"

definition trim_start :: "(uchar \<Rightarrow> bool) \<Rightarrow> str \<Rightarrow> str" where
  "trim_start P s = dropWhile P s"

definition trim_end :: "(uchar \<Rightarrow> bool) \<Rightarrow> str \<Rightarrow> str" where
  "trim_end P s = rev (dropWhile P (rev s))"

definition trim_matches :: "(uchar \<Rightarrow> bool) \<Rightarrow> str \<Rightarrow> str" where
  "trim_matches P s = trim_end P (trim_start P s)"

definition trim :: "str \<Rightarrow> str" where
  "trim = trim_matches is_whitespace"

lemma trim_no_blank: "(\<And>c. c \<in> set s \<Longrightarrow> \<not> is_whitespace c) \<Longrightarrow> trim s = s"
  by (cases "s = []")
    (simp_all add: trim_def trim_matches_def trim_start_def trim_end_def dropWhile_eq_self_iff hd_rev rev_swap)

lemma split_on_not_Nil [simp]: "split_on P s \<noteq> []" "[] \<noteq> split_on P s"
  by (induction P s rule: split_on.induct) (auto split: list.splits)

lemma split_on_no_delim: "p \<in> set (split_on P s) \<Longrightarrow> c \<in> set p \<Longrightarrow> \<not> P c"
proof (induction P s arbitrary: p rule: split_on.induct)
  case (2 P d cs)
  then show ?case
    by (cases "split_on P cs") (fastforce split: if_splits)+
qed simp

lemma split_on_id: "(\<And>c. c \<in> set s \<Longrightarrow> \<not> P c) \<Longrightarrow> split_on P s = [s]"
  by (induction s) auto

lemma split_once_Some:
  "split_once d s = Some (a, b) \<longleftrightarrow> s = a @ d # b \<and> d \<notin> set a"
proof (induction s arbitrary: a)
  case (Cons c s)
  then show ?case by (cases a) auto
qed simp

lemma split_once_None: "split_once d s = None \<longleftrightarrow> d \<notin> set s"
  by (induction s) auto

lemma set_trim_end: "c \<in> set (trim_end P s) \<Longrightarrow> c \<in> set s"
  by (auto simp: trim_end_def dest: set_dropWhileD)

lemma set_trim_matches: "c \<in> set (trim_matches P s) \<Longrightarrow> c \<in> set s"
  by (auto simp: trim_matches_def trim_start_def dest: set_trim_end set_dropWhileD)

lemma trim_end_idem [simp]: "trim_end P (trim_end P s) = trim_end P s"
  by (simp add: trim_end_def dropWhile_idem)

text \<open>\<open>str::split\<close> on a string: the pieces between non-overlapping matches from the left.\<close>

function split_str :: "str \<Rightarrow> str \<Rightarrow> str list" where
  "split_str d s =
     (if d = [] then [s]
      else (case strip_prefix d s of
        Some rest \<Rightarrow> [] # split_str d rest
      | None \<Rightarrow> (case s of [] \<Rightarrow> [[]]
          | c # cs \<Rightarrow> (case split_str d cs of [] \<Rightarrow> [[c]] | p # ps \<Rightarrow> (c # p) # ps))))"
  by pat_completeness auto
termination
  by (relation "measure (\<lambda>(d, s). length s)") (auto simp: neq_Nil_conv)

declare split_str.simps [simp del]

text \<open>\<open>str::lines\<close>: split at line feeds, a carriage return before one dropped, and no empty line
  after the last line feed.\<close>

definition strip_cr :: "str \<Rightarrow> str" where
  "strip_cr l = (if l \<noteq> [] \<and> last l = 13 then butlast l else l)"

definition str_lines :: "str \<Rightarrow> str list" where
  "str_lines s =
     (let parts = split_on (\<lambda>c. c = 10) s;
          full = map strip_cr (butlast parts)
      in if last parts = [] then full else full @ [last parts])"

text \<open>\<open>str::find\<close> and \<open>str::rfind\<close> of a char.\<close>

fun find_char :: "uchar \<Rightarrow> str \<Rightarrow> nat option" where
  "find_char c [] = None"
| "find_char c (d # s) = (if d = c then Some 0 else map_option Suc (find_char c s))"

definition rfind_char :: "uchar \<Rightarrow> str \<Rightarrow> nat option" where
  "rfind_char c s = map_option (\<lambda>i. length s - Suc i) (find_char c (rev s))"

lemma find_char_None [simp]: "find_char c s = None \<longleftrightarrow> c \<notin> set s"
  by (induction s) auto

lemma find_char_append [simp]: "c \<notin> set a \<Longrightarrow> find_char c (a @ c # b) = Some (length a)"
  by (induction a) auto

lemma find_char_Some: "find_char c s = Some i \<longleftrightarrow> (\<exists>a b. s = a @ c # b \<and> c \<notin> set a \<and> i = length a)"
proof
  assume "find_char c s = Some i"
  then have "c \<in> set s" by (metis find_char_None option.distinct(1))
  then obtain a b where s: "s = a @ c # b" "c \<notin> set a" by (meson split_list_first)
  with \<open>find_char c s = Some i\<close> show "\<exists>a b. s = a @ c # b \<and> c \<notin> set a \<and> i = length a" by auto
qed auto

lemma rfind_char_None [simp]: "rfind_char c s = None \<longleftrightarrow> c \<notin> set s"
  by (simp add: rfind_char_def)

lemma rfind_char_append [simp]: "c \<notin> set b \<Longrightarrow> rfind_char c (a @ c # b) = Some (length a)"
  by (simp add: rfind_char_def)

lemma rfind_char_Some: "rfind_char c s = Some i \<longleftrightarrow> (\<exists>a b. s = a @ c # b \<and> c \<notin> set b \<and> i = length a)"
proof
  assume r: "rfind_char c s = Some i"
  then have "c \<in> set s" by (metis rfind_char_None option.distinct(1))
  then obtain a b where s: "s = a @ c # b" "c \<notin> set b" by (meson split_list_last)
  with r show "\<exists>a b. s = a @ c # b \<and> c \<notin> set b \<and> i = length a" by auto
qed auto

text \<open>Decimal rendering of a number (\<open>format!("{n}")\<close>).\<close>

fun dec_digits :: "nat \<Rightarrow> str" where
  "dec_digits n = (if n < 10 then [48 + n] else dec_digits (n div 10) @ [48 + n mod 10])"

declare dec_digits.simps [simp del]

definition dec_u32 :: "u32 \<Rightarrow> str" where
  "dec_u32 w = dec_digits (unat w)"

text \<open>\<open>str::parse\<close> for an unsigned integer below a bound: an optional \<open>+\<close> sign, then only
  digits, at least one, and a value in range.\<close>

definition is_digit :: "uchar \<Rightarrow> bool" where
  "is_digit c \<longleftrightarrow> 48 \<le> c \<and> c \<le> 57"

definition digits_value :: "str \<Rightarrow> nat" where
  "digits_value = foldl (\<lambda>n c. 10 * n + (c - 48)) 0"

definition parse_nat :: "nat \<Rightarrow> str \<Rightarrow> nat option" where
  "parse_nat bound s =
     (let d = (case s of c # cs \<Rightarrow> if c = 43 then cs else s | [] \<Rightarrow> [])
      in if d \<noteq> [] \<and> list_all is_digit d \<and> digits_value d < bound
         then Some (digits_value d) else None)"

definition parse_u32 :: "str \<Rightarrow> u32 option" where
  "parse_u32 s = map_option of_nat (parse_nat (2 ^ 32) s)"

lemma dec_digits_Nil [simp]: "dec_digits n \<noteq> []"
  by (subst dec_digits.simps) simp

lemma dec_digits_is_digit: "list_all is_digit (dec_digits n)"
proof (induction n rule: dec_digits.induct)
  case (1 n)
  then show ?case
    by (subst dec_digits.simps) (auto simp: is_digit_def list_all_iff)
qed

lemma digits_value_snoc [simp]: "digits_value (s @ [c]) = 10 * digits_value s + (c - 48)"
  by (simp add: digits_value_def)

lemma digits_value_dec: "digits_value (dec_digits n) = n"
proof (induction n rule: dec_digits.induct)
  case (1 n)
  show ?case
  proof (cases "n < 10")
    case True
    then show ?thesis by (subst dec_digits.simps) (simp add: digits_value_def)
  next
    case False
    with 1 show ?thesis by (subst dec_digits.simps) simp
  qed
qed

lemma parse_nat_dec: "n < bound \<Longrightarrow> parse_nat bound (dec_digits n) = Some n"
proof -
  assume n: "n < bound"
  have "hd (dec_digits n) \<noteq> 43"
    using dec_digits_is_digit [of n] by (cases "dec_digits n") (auto simp: is_digit_def)
  then have "(case dec_digits n of c # cs \<Rightarrow> if c = 43 then cs else dec_digits n | [] \<Rightarrow> []) = dec_digits n"
    by (cases "dec_digits n") auto
  with n show ?thesis
    by (simp add: parse_nat_def dec_digits_is_digit digits_value_dec)
qed

lemma parse_u32_dec [simp]: "parse_u32 (dec_u32 w) = Some w"
proof -
  have "unat w < 2 ^ 32" using unsigned_less [of w] by simp
  then show ?thesis by (simp add: parse_u32_def dec_u32_def parse_nat_dec)
qed

section \<open>Bytes\<close>

text \<open>A byte is a number below 256.  \<open>str::as_bytes\<close> is the UTF-8 encoding of the chars and
  \<open>std::str::from_utf8\<close> its checked inverse: no overlong form, no surrogate, nothing above
  U+10FFFF.\<close>

type_synonym byte = nat

definition utf8_char :: "uchar \<Rightarrow> byte list" where
  "utf8_char c =
     (if c < 128 then [c]
      else if c < 2048 then [192 + c div 64, 128 + c mod 64]
      else if c < 65536 then [224 + c div 4096, 128 + c div 64 mod 64, 128 + c mod 64]
      else [240 + c div 262144, 128 + c div 4096 mod 64, 128 + c div 64 mod 64, 128 + c mod 64])"

definition utf8 :: "str \<Rightarrow> byte list" where
  "utf8 s = concat (map utf8_char s)"

definition is_scalar :: "uchar \<Rightarrow> bool" where
  "is_scalar c \<longleftrightarrow> c < 55296 \<or> (57344 \<le> c \<and> c < 1114112)"

text \<open>The number a lead byte and its continuation bytes stand for.\<close>

definition is_cont :: "byte \<Rightarrow> bool" where
  "is_cont b \<longleftrightarrow> 128 \<le> b \<and> b < 192"

definition decode_head :: "byte list \<Rightarrow> (uchar \<times> nat) option" where
  "decode_head bs =
     (case bs of
        b0 # b1 # b2 # b3 # _ \<Rightarrow>
          if b0 < 128 then Some (b0, 1)
          else if 192 \<le> b0 \<and> b0 < 224 \<and> is_cont b1 then Some ((b0 - 192) * 64 + (b1 - 128), 2)
          else if 224 \<le> b0 \<and> b0 < 240 \<and> is_cont b1 \<and> is_cont b2
          then Some ((b0 - 224) * 4096 + (b1 - 128) * 64 + (b2 - 128), 3)
          else if 240 \<le> b0 \<and> b0 < 248 \<and> is_cont b1 \<and> is_cont b2 \<and> is_cont b3
          then Some ((b0 - 240) * 262144 + (b1 - 128) * 4096 + (b2 - 128) * 64 + (b3 - 128), 4)
          else None
      | _ \<Rightarrow> None)"

text \<open>Padding with a byte that is no continuation lets one test cover the end of the input; a
  decoded char counts when it is a scalar value and encoding it gives the bytes read.\<close>

function from_utf8 :: "byte list \<Rightarrow> str option" where
  "from_utf8 bs =
     (if bs = [] then Some []
      else (case decode_head (bs @ [0, 0, 0]) of
        None \<Rightarrow> None
      | Some (c, n) \<Rightarrow>
          if 0 < n \<and> is_scalar c \<and> utf8_char c = take n bs
          then map_option (Cons c) (from_utf8 (drop n bs)) else None))"
  by pat_completeness auto
termination
  by (relation "measure length") auto

declare from_utf8.simps [simp del]

lemma utf8_Nil [simp]: "utf8 [] = []"
  by (simp add: utf8_def)

lemma utf8_Cons: "utf8 (c # s) = utf8_char c @ utf8 s"
  by (simp add: utf8_def)

lemma utf8_append [simp]: "utf8 (a @ b) = utf8 a @ utf8 b"
  by (simp add: utf8_def)

lemma base64_digits:
  fixes c :: nat
  shows "(c div 64) * 64 + c mod 64 = c"
    and "(c div 4096) * 4096 + (c div 64 mod 64) * 64 + c mod 64 = c"
    and "(c div 262144) * 262144 + (c div 4096 mod 64) * 4096 + (c div 64 mod 64) * 64 + c mod 64 = c"
proof -
  have d: "c div 4096 = c div 64 div 64" "c div 262144 = c div 64 div 64 div 64"
    by (simp_all add: div_mult2_eq [symmetric])
  have e: "c div 64 * 64 + c mod 64 = c" "c div 64 div 64 * 64 + c div 64 mod 64 = c div 64"
    "c div 64 div 64 div 64 * 64 + c div 64 div 64 mod 64 = c div 64 div 64"
    by simp_all
  show "(c div 64) * 64 + c mod 64 = c" by (fact e(1))
  show "(c div 4096) * 4096 + (c div 64 mod 64) * 64 + c mod 64 = c"
    unfolding d using e(1,2) by linarith
  show "(c div 262144) * 262144 + (c div 4096 mod 64) * 4096 + (c div 64 mod 64) * 64 + c mod 64 = c"
    unfolding d using e by linarith
qed

lemma decode_head_utf8_char:
  assumes "is_scalar c"
  shows "decode_head ((utf8_char c @ rest) @ [0, 0, 0]) = Some (c, length (utf8_char c))"
proof -
  have c: "c < 1114112" using assms by (auto simp: is_scalar_def)
  obtain x y z zs where r: "rest @ [0, 0, 0] = x # y # z # zs"
    by (cases rest; cases "tl rest"; cases "tl (tl rest)") auto
  have lt: "c div 64 mod 64 < 64" "c mod 64 < 64" "c div 4096 mod 64 < 64" by simp_all
  consider "c < 128" | "128 \<le> c" "c < 2048" | "2048 \<le> c" "c < 65536" | "65536 \<le> c" by linarith
  then show ?thesis
  proof cases
    case 1
    then have "utf8_char c = [c]" by (simp add: utf8_char_def)
    then show ?thesis using 1 r by (simp add: decode_head_def)
  next
    case 2
    then have u: "utf8_char c = [192 + c div 64, 128 + c mod 64]" and "c div 64 < 32"
      by (simp_all add: utf8_char_def)
    with lt base64_digits(1) [of c] show ?thesis
      by (simp add: r u decode_head_def is_cont_def)
  next
    case 3
    then have u: "utf8_char c = [224 + c div 4096, 128 + c div 64 mod 64, 128 + c mod 64]"
      and "c div 4096 < 16"
      by (simp_all add: utf8_char_def)
    with lt base64_digits(2) [of c] show ?thesis
      by (simp add: r u decode_head_def is_cont_def)
  next
    case 4
    then have u: "utf8_char c = [240 + c div 262144, 128 + c div 4096 mod 64,
        128 + c div 64 mod 64, 128 + c mod 64]" and "c div 262144 < 8"
      using c by (simp_all add: utf8_char_def)
    with lt base64_digits(3) [of c] show ?thesis
      by (simp add: r u decode_head_def is_cont_def)
  qed
qed

lemma from_utf8_utf8: "list_all is_scalar s \<Longrightarrow> from_utf8 (utf8 s) = Some s"
proof (induction s)
  case Nil
  then show ?case by (subst from_utf8.simps) simp
next
  case (Cons c s)
  then have c: "is_scalar c" by simp
  have ne: "utf8_char c \<noteq> []" by (simp add: utf8_char_def)
  show ?case
    using Cons decode_head_utf8_char [OF c, of "utf8 s"] ne
    by (subst from_utf8.simps) (simp add: utf8_Cons c)
qed

section \<open>Lists, options and maps\<close>

text \<open>\<open>iter().position\<close>, \<open>iter().enumerate\<close> and \<open>iter_mut().find\<close> (update the first match).\<close>

fun position :: "('a \<Rightarrow> bool) \<Rightarrow> 'a list \<Rightarrow> nat option" where
  "position P [] = None"
| "position P (x # xs) = (if P x then Some 0 else map_option Suc (position P xs))"

text \<open>\<open>iter().filter_map\<close> and \<open>iter().last\<close>.\<close>

fun filter_map :: "('a \<Rightarrow> 'b option) \<Rightarrow> 'a list \<Rightarrow> 'b list" where
  "filter_map f [] = []"
| "filter_map f (x # xs) = (case f x of Some y \<Rightarrow> y # filter_map f xs | None \<Rightarrow> filter_map f xs)"

definition last_opt :: "'a list \<Rightarrow> 'a option" where
  "last_opt xs = (if xs = [] then None else Some (last xs))"

lemma filter_map_append [simp]: "filter_map f (xs @ ys) = filter_map f xs @ filter_map f ys"
  by (induction xs) (auto split: option.splits)

lemma set_filter_map: "y \<in> set (filter_map f xs) \<longleftrightarrow> (\<exists>x\<in>set xs. f x = Some y)"
  by (induction xs) (auto split: option.splits)

lemma last_opt_snoc [simp]: "last_opt [] = None" "last_opt (xs @ [x]) = Some x"
  by (simp_all add: last_opt_def)

definition list_enum :: "'a list \<Rightarrow> (nat \<times> 'a) list" where
  "list_enum xs = zip [0..<length xs] xs"

fun update_first :: "('a \<Rightarrow> bool) \<Rightarrow> ('a \<Rightarrow> 'a) \<Rightarrow> 'a list \<Rightarrow> 'a list" where
  "update_first P f [] = []"
| "update_first P f (x # xs) = (if P x then f x # xs else x # update_first P f xs)"

lemma position_Some:
  "position P xs = Some i \<longleftrightarrow> i < length xs \<and> P (xs ! i) \<and> (\<forall>j<i. \<not> P (xs ! j))"
proof (induction xs arbitrary: i)
  case (Cons x xs)
  show ?case
    by (cases i) (auto simp: Cons.IH nth_Cons' less_Suc_eq_0_disj split: if_splits)
qed simp

lemma position_None: "position P xs = None \<longleftrightarrow> (\<forall>x\<in>set xs. \<not> P x)"
  by (induction xs) auto

lemma find_cong_set: "(\<And>x. x \<in> set xs \<Longrightarrow> P x = Q x) \<Longrightarrow> find P xs = find Q xs"
  by (induction xs) auto

lemma find_SomeD: "find P xs = Some x \<Longrightarrow> x \<in> set xs \<and> P x"
  by (induction xs) (auto split: if_splits)

lemma find_append: "find P (xs @ ys) = (case find P xs of Some x \<Rightarrow> Some x | None \<Rightarrow> find P ys)"
  by (induction xs) auto

lemma length_update_first [simp]: "length (update_first P f xs) = length xs"
  by (induction xs) auto

lemma map_update_first: "(\<And>x. x \<in> set xs \<Longrightarrow> P x \<Longrightarrow> g (f x) = g x) \<Longrightarrow> map g (update_first P f xs) = map g xs"
  by (induction xs) auto

lemma set_update_first: "y \<in> set (update_first P f xs) \<Longrightarrow> y \<in> set xs \<or> (\<exists>x\<in>set xs. P x \<and> y = f x)"
  by (induction xs) (auto split: if_splits)

lemma find_update_first:
  "(\<And>x. P x \<Longrightarrow> P (f x)) \<Longrightarrow> find P (update_first P f xs) = map_option f (find P xs)"
  by (induction xs) auto

lemma filter_update_first:
  "(\<And>x. P x \<Longrightarrow> \<not> Q x \<and> \<not> Q (f x)) \<Longrightarrow> filter Q (update_first P f xs) = filter Q xs"
  by (induction xs) auto

section \<open>Machine integers\<close>

definition sat_sub :: "'a::len word \<Rightarrow> 'a word \<Rightarrow> 'a word" where
  "sat_sub a b = (if b \<le> a then a - b else 0)"

lemma sat_sub_le: "sat_sub a b \<le> a"
  by (simp add: sat_sub_def word_sub_le)

lemma unat_sat_sub: "unat (sat_sub a b) = unat a - unat b"
  by (simp add: sat_sub_def unat_sub_if' word_le_nat_alt)

lemma unat_Suc_word:
  fixes u :: "'a::len word"
  assumes "unat u + 1 < 2 ^ LENGTH('a)"
  shows "unat (u + 1) = Suc (unat u)" and "u < u + 1"
proof -
  have "unat (u + 1) = (unat u + 1) mod 2 ^ LENGTH('a)" by (simp add: unat_word_ariths)
  with assms show "unat (u + 1) = Suc (unat u)" by simp
  then show "u < u + 1" by (simp add: word_less_nat_alt)
qed

end
