(* ===== verification/SearchQuery.thy ===== *)
theory SearchQuery
  imports Prelude
begin

text \<open>
  The search query grammar of \<open>crates/esmail/src/search_query.rs\<close>: the tokenizer, the
  parser into a \<open>ParsedQuery\<close>, the FTS5 \<open>MATCH\<close> expression built from it and the date and
  flag filters.  The date parsers of \<open>chrono\<close> and \<open>mailparse\<close> are arguments.
  The lemmas give the parser's result field by field as a filter over the tokens, show
  that quoting and tokenizing are inverse, and say what the filters let through.
\<close>

section \<open>Data\<close>

record parsed_query =
  pq_text :: "str list"
  pq_from :: "str list"
  pq_to :: "str list"
  pq_subject :: "str list"
  pq_body :: "str list"
  pq_since :: "str option"
  pq_before :: "str option"
  pq_is_unread :: bool
  pq_has_attachment :: bool

definition query_default :: parsed_query where
  "query_default = \<lparr>pq_text = [], pq_from = [], pq_to = [], pq_subject = [], pq_body = [],
     pq_since = None, pq_before = None, pq_is_unread = False, pq_has_attachment = False\<rparr>"

record message_filters =
  mf_since :: "int option"
  mf_before :: "int option"
  mf_unread_only :: bool

section \<open>Tokenizer\<close>

definition quote_char :: uchar where
  "quote_char = 34"

function tokenize_loop :: "str \<Rightarrow> bool \<Rightarrow> str \<Rightarrow> str list \<Rightarrow> str list" where
  "tokenize_loop [] in_quotes current tokens =
     (if current \<noteq> [] then tokens @ [current] else tokens)"
| "tokenize_loop (c # chars) in_quotes current tokens =
     (if c = quote_char \<and> in_quotes \<and> chars \<noteq> [] \<and> hd chars = quote_char
      then tokenize_loop (tl chars) in_quotes (current @ [quote_char]) tokens
      else if c = quote_char then tokenize_loop chars (\<not> in_quotes) current tokens
      else if is_whitespace c \<and> \<not> in_quotes then
        (if current \<noteq> [] then tokenize_loop chars in_quotes [] (tokens @ [current])
         else tokenize_loop chars in_quotes current tokens)
      else tokenize_loop chars in_quotes (current @ [c]) tokens)"
  by pat_completeness auto
termination
  by (relation "measure (\<lambda>(cs, _). length cs)") auto

definition tokenize :: "str \<Rightarrow> str list" where
  "tokenize input = tokenize_loop input False [] []"

definition non_empty_suffix :: "str \<Rightarrow> str \<Rightarrow> str option" where
  "non_empty_suffix token p =
     (case strip_prefix p token of
        Some rest \<Rightarrow> if rest \<noteq> [] then Some rest else None
      | None \<Rightarrow> None)"

definition fts_quote :: "str \<Rightarrow> str" where
  "fts_quote term =
     [quote_char] @ concat (map (\<lambda>c. if c = quote_char then [quote_char, quote_char] else [c]) term)
     @ [quote_char]"

section \<open>Parser\<close>

definition parse_token :: "parsed_query \<Rightarrow> str \<Rightarrow> parsed_query" where
  "parse_token q token =
     (case non_empty_suffix token (lit ''from:'') of
        Some rest \<Rightarrow> q\<lparr>pq_from := pq_from q @ [rest]\<rparr>
      | None \<Rightarrow> (case non_empty_suffix token (lit ''to:'') of
        Some rest \<Rightarrow> q\<lparr>pq_to := pq_to q @ [rest]\<rparr>
      | None \<Rightarrow> (case non_empty_suffix token (lit ''subject:'') of
        Some rest \<Rightarrow> q\<lparr>pq_subject := pq_subject q @ [rest]\<rparr>
      | None \<Rightarrow> (case non_empty_suffix token (lit ''body:'') of
        Some rest \<Rightarrow> q\<lparr>pq_body := pq_body q @ [rest]\<rparr>
      | None \<Rightarrow> (case non_empty_suffix token (lit ''since:'') of
        Some rest \<Rightarrow> q\<lparr>pq_since := Some rest\<rparr>
      | None \<Rightarrow> (case non_empty_suffix token (lit ''before:'') of
        Some rest \<Rightarrow> q\<lparr>pq_before := Some rest\<rparr>
      | None \<Rightarrow>
         (if token = lit ''is:unread'' then q\<lparr>pq_is_unread := True\<rparr>
          else if token = lit ''has:attachment'' then q\<lparr>pq_has_attachment := True\<rparr>
          else if token \<noteq> [] then q\<lparr>pq_text := pq_text q @ [token]\<rparr>
          else q)))))))"

definition parse_query :: "str \<Rightarrow> parsed_query" where
  "parse_query input = foldl parse_token query_default (tokenize input)"

definition is_fts_empty :: "parsed_query \<Rightarrow> bool" where
  "is_fts_empty q \<longleftrightarrow> pq_text q = [] \<and> pq_from q = [] \<and> pq_to q = [] \<and> pq_subject q = [] \<and> pq_body q = []"

definition query_is_empty :: "parsed_query \<Rightarrow> bool" where
  "query_is_empty q \<longleftrightarrow>
     is_fts_empty q \<and> pq_since q = None \<and> pq_before q = None \<and> \<not> pq_is_unread q"

definition to_fts_match :: "parsed_query \<Rightarrow> str option" where
  "to_fts_match q =
     (if is_fts_empty q then None
      else Some (join (lit '' AND '')
        (map (\<lambda>t. lit ''from_addr:'' @ fts_quote t) (pq_from q) @
         map (\<lambda>t. lit ''to_addr:'' @ fts_quote t) (pq_to q) @
         map (\<lambda>t. lit ''subject:'' @ fts_quote t) (pq_subject q) @
         map (\<lambda>t. lit ''body:'' @ fts_quote t) (pq_body q) @
         map (\<lambda>t. lit ''(subject:'' @ fts_quote t @ lit '' OR from_addr:'' @ fts_quote t @
                   lit '' OR body:'' @ fts_quote t @ lit '')'') (pq_text q))))"

section \<open>Filters\<close>

text \<open>\<open>naive_date\<close> stands for \<open>chrono::NaiveDate::parse_from_str\<close> with \<open>%Y-%m-%d\<close>, as the
  Unix time of its midnight in UTC; \<open>dateparse\<close> for \<open>mailparse::dateparse\<close>.\<close>

definition parse_date :: "(str \<Rightarrow> int option) \<Rightarrow> str \<Rightarrow> int option" where
  "parse_date naive_date s = naive_date s"

definition message_timestamp :: "(str \<Rightarrow> int option) \<Rightarrow> str \<Rightarrow> int option" where
  "message_timestamp dateparse s =
     (case dateparse s of Some t \<Rightarrow> if t > 0 then Some t else None | None \<Rightarrow> None)"

definition message_filters_of :: "(str \<Rightarrow> int option) \<Rightarrow> parsed_query \<Rightarrow> message_filters" where
  "message_filters_of naive_date q =
     \<lparr>mf_since = Option.bind (pq_since q) (parse_date naive_date),
      mf_before = Option.bind (pq_before q) (parse_date naive_date),
      mf_unread_only = pq_is_unread q\<rparr>"

definition filters_match :: "(str \<Rightarrow> int option) \<Rightarrow> message_filters \<Rightarrow> str \<Rightarrow> bool \<Rightarrow> bool" where
  "filters_match dateparse f date is_seen =
     (if mf_unread_only f \<and> is_seen then False
      else if mf_since f \<noteq> None \<or> mf_before f \<noteq> None then
        (case message_timestamp dateparse date of
           None \<Rightarrow> False
         | Some message_ts \<Rightarrow>
             if (case mf_since f of Some since \<Rightarrow> message_ts < since | None \<Rightarrow> False) then False
             else if (case mf_before f of Some before \<Rightarrow> message_ts \<ge> before | None \<Rightarrow> False) then False
             else True)
      else True)"

section \<open>Tokenizer lemmas\<close>

lemma tokenize_loop_nonempty:
  "[] \<notin> set tokens \<Longrightarrow> [] \<notin> set (tokenize_loop cs in_quotes current tokens)"
  by (induction cs in_quotes current tokens rule: tokenize_loop.induct) auto

lemma tokenize_nonempty: "[] \<notin> set (tokenize input)"
  by (simp add: tokenize_def tokenize_loop_nonempty)

definition fts_body :: "str \<Rightarrow> str" where
  "fts_body t = concat (map (\<lambda>c. if c = quote_char then [quote_char, quote_char] else [c]) t)"

lemma fts_quote_body: "fts_quote t = quote_char # fts_body t @ [quote_char]"
  by (simp add: fts_quote_def fts_body_def)

lemma fts_body_Cons [simp]:
  "fts_body [] = []"
  "fts_body (c # t) = (if c = quote_char then quote_char # quote_char # fts_body t else c # fts_body t)"
  by (simp_all add: fts_body_def)

text \<open>Inside quotes the escaped body of a term is consumed and unescaped; what follows
  the closing quote must not be a quote.\<close>

lemma tokenize_loop_quoted_body:
  assumes "rest = [] \<or> hd rest \<noteq> quote_char"
  shows "tokenize_loop (fts_body t @ quote_char # rest) True current tokens =
         tokenize_loop rest False (current @ t) tokens"
  using assms by (induction t arbitrary: current) auto

lemma tokenize_loop_fts_quote:
  assumes "rest = [] \<or> hd rest \<noteq> quote_char"
  shows "tokenize_loop (fts_quote t @ rest) False current tokens =
         tokenize_loop rest False (current @ t) tokens"
  using tokenize_loop_quoted_body [OF assms, of t current tokens]
  by (cases "fts_body t @ quote_char # rest") (auto simp: fts_quote_body)

lemma tokenize_loop_join:
  assumes "[] \<notin> set ts"
  shows "tokenize_loop (join [32] (map fts_quote ts)) False [] tokens = tokens @ ts"
  using assms
proof (induction ts arbitrary: tokens)
  case Nil
  then show ?case by simp
next
  case (Cons t ts)
  show ?case
  proof (cases ts)
    case Nil
    with Cons.prems show ?thesis
      using tokenize_loop_fts_quote [of "[]" t "[]" tokens] by simp
  next
    case (Cons u us)
    have "join [32] (map fts_quote (t # ts)) = fts_quote t @ 32 # join [32] (map fts_quote ts)"
      using Cons by simp
    moreover have "tokenize_loop (fts_quote t @ 32 # join [32] (map fts_quote ts)) False [] tokens
        = tokenize_loop (join [32] (map fts_quote ts)) False [] (tokens @ [t])"
      using Cons.prems
      by (subst tokenize_loop_fts_quote) (auto simp: quote_char_def is_whitespace_def)
    ultimately show ?thesis using Cons.IH Cons.prems by simp
  qed
qed

text \<open>Tokenizing is the inverse of quoting: terms quoted with \<open>fts_quote\<close> and separated
  by a space come back exactly, whatever quotes and blanks they contain.\<close>

theorem tokenize_quoted_roundtrip:
  assumes "[] \<notin> set ts"
  shows "tokenize (join [32] (map fts_quote ts)) = ts"
  using tokenize_loop_join [OF assms] by (simp add: tokenize_def)

theorem tokenize_quoted_roundtrip_witness:
  "tokenize (join [32] (map fts_quote [lit ''a b'', [34, 99]])) = [lit ''a b'', [34, 99]]"
  by (rule tokenize_quoted_roundtrip) simp

section \<open>Parser lemmas\<close>

definition field_of :: "string \<Rightarrow> str \<Rightarrow> str option" where
  "field_of key token = non_empty_suffix token (lit key)"

lemma field_of_Some: "field_of k t = Some r \<longleftrightarrow> t = lit k @ r \<and> r \<noteq> []"
  by (auto simp: field_of_def non_empty_suffix_def split: option.splits)

text \<open>Two keys, neither a prefix of the other, never both accept a token.\<close>

lemma field_of_disjoint:
  assumes k: "field_of k t = Some r" and distinct_keys: "take (length k') k \<noteq> take (length k) k'"
  shows "field_of k' t = None"
proof (rule ccontr)
  assume "field_of k' t \<noteq> None"
  then obtain r' where "field_of k' t = Some r'" by blast
  with k have eq: "lit k @ r = lit k' @ r'" by (simp add: field_of_Some)
  let ?n = "min (length k) (length k')"
  have "take ?n (lit k @ r) = take ?n (lit k' @ r')" by (simp only: eq)
  then have "lit (take ?n k) = lit (take ?n k')"
    by (simp add: lit_def take_map)
  then have "take ?n k = take ?n k'" by simp
  with distinct_keys show False by (simp add: min_def split: if_splits)
qed

lemma field_of_lit_None:
  "take (length k) s \<noteq> k \<Longrightarrow> field_of k (lit s) = None"
proof (rule ccontr)
  assume no: "take (length k) s \<noteq> k" and "field_of k (lit s) \<noteq> None"
  then obtain r where "lit s = lit k @ r" by (auto simp: field_of_Some)
  then have "take (length (lit k)) (lit s) = lit k" by simp
  then have "lit (take (length k) s) = lit k" by (simp add: lit_def take_map)
  with no show False by simp
qed

definition token_keys :: "string list" where
  "token_keys = [''from:'', ''to:'', ''subject:'', ''body:'', ''since:'', ''before:'']"

lemma token_keys_no_prefix:
  "\<forall>k\<in>set token_keys. \<forall>k'\<in>set token_keys. k \<noteq> k' \<longrightarrow> take (length k') k \<noteq> take (length k) k'"
  by code_simp

lemma token_keys_no_flag:
  "\<forall>k\<in>set token_keys. take (length k) ''is:unread'' \<noteq> k \<and> take (length k) ''has:attachment'' \<noteq> k"
  by code_simp

lemma token_keys_all:
  "(\<forall>k\<in>set token_keys. P k) \<longleftrightarrow>
     P ''from:'' \<and> P ''to:'' \<and> P ''subject:'' \<and> P ''body:'' \<and> P ''since:'' \<and> P ''before:''"
  by (simp add: token_keys_def)

lemma token_keys_exclusive:
  assumes "field_of k t = Some r" and "k \<in> set token_keys" "k' \<in> set token_keys" "k \<noteq> k'"
  shows "field_of k' t = None"
proof (rule field_of_disjoint [OF assms(1)])
  show "take (length k') k \<noteq> take (length k) k'"
    using assms(2-4) token_keys_no_prefix by blast
qed

definition bare_term :: "str \<Rightarrow> bool" where
  "bare_term t \<longleftrightarrow> (\<forall>k\<in>set token_keys. field_of k t = None) \<and>
     t \<noteq> lit ''is:unread'' \<and> t \<noteq> lit ''has:attachment'' \<and> t \<noteq> []"

lemma flag_token_no_key:
  "t = lit ''is:unread'' \<or> t = lit ''has:attachment'' \<Longrightarrow> k \<in> set token_keys \<Longrightarrow> field_of k t = None"
  using token_keys_no_flag by (metis field_of_lit_None)

text \<open>The nine outcomes of a token, with what every other test says.\<close>

lemma parse_token_key:
  assumes r: "field_of k t = Some r" and k: "k \<in> set token_keys"
  shows "\<And>k'. k' \<in> set token_keys \<Longrightarrow> field_of k' t = (if k' = k then Some r else None)"
    and "t \<noteq> lit ''is:unread''" and "t \<noteq> lit ''has:attachment''" and "\<not> bare_term t"
proof -
  show "\<And>k'. k' \<in> set token_keys \<Longrightarrow> field_of k' t = (if k' = k then Some r else None)"
    using token_keys_exclusive [OF r k] r by (metis (full_types))
  show "t \<noteq> lit ''is:unread''" and "t \<noteq> lit ''has:attachment''"
    using flag_token_no_key [of t k] r k by auto
  show "\<not> bare_term t" using r k by (auto simp: bare_term_def)
qed

definition query_merge :: "parsed_query \<Rightarrow> str \<Rightarrow> parsed_query" where
  "query_merge q t = \<lparr>pq_text = pq_text q @ filter bare_term [t],
     pq_from = pq_from q @ filter_map (field_of ''from:'') [t],
     pq_to = pq_to q @ filter_map (field_of ''to:'') [t],
     pq_subject = pq_subject q @ filter_map (field_of ''subject:'') [t],
     pq_body = pq_body q @ filter_map (field_of ''body:'') [t],
     pq_since = (case field_of ''since:'' t of Some r \<Rightarrow> Some r | None \<Rightarrow> pq_since q),
     pq_before = (case field_of ''before:'' t of Some r \<Rightarrow> Some r | None \<Rightarrow> pq_before q),
     pq_is_unread = (pq_is_unread q \<or> t = lit ''is:unread''),
     pq_has_attachment = (pq_has_attachment q \<or> t = lit ''has:attachment'')\<rparr>"

lemma parse_token_merge: "parse_token q t = query_merge q t"
proof (cases "\<exists>k\<in>set token_keys. \<exists>r. field_of k t = Some r")
  case True
  then obtain k r where k: "k \<in> set token_keys" and r: "field_of k t = Some r" by blast
  note f = parse_token_key(1) [OF r k]
  have all: "field_of ''from:'' t = (if ''from:'' = k then Some r else None)"
    "field_of ''to:'' t = (if ''to:'' = k then Some r else None)"
    "field_of ''subject:'' t = (if ''subject:'' = k then Some r else None)"
    "field_of ''body:'' t = (if ''body:'' = k then Some r else None)"
    "field_of ''since:'' t = (if ''since:'' = k then Some r else None)"
    "field_of ''before:'' t = (if ''before:'' = k then Some r else None)"
    by (rule f, simp add: token_keys_def)+
  have "k = ''from:'' \<or> k = ''to:'' \<or> k = ''subject:'' \<or> k = ''body:'' \<or> k = ''since:'' \<or> k = ''before:''"
    using k by (simp add: token_keys_def)
  then show ?thesis
    by (elim disjE; simp add: parse_token_def field_of_def [symmetric] query_merge_def all
        parse_token_key(2-4) [OF r k])
next
  case False
  then have none: "field_of ''from:'' t = None" "field_of ''to:'' t = None"
    "field_of ''subject:'' t = None" "field_of ''body:'' t = None"
    "field_of ''since:'' t = None" "field_of ''before:'' t = None"
    by (auto simp: token_keys_def)
  show ?thesis
    by (simp add: parse_token_def field_of_def [symmetric] query_merge_def none bare_term_def
        token_keys_all)
qed

lemma last_opt_filter_map_snoc:
  "last_opt (filter_map f (ts @ [t])) =
     (case f t of Some r \<Rightarrow> Some r | None \<Rightarrow> last_opt (filter_map f ts))"
  by (simp add: last_opt_def split: option.splits)

text \<open>The reference definition: each field as a function of all the tokens.\<close>

definition query_spec :: "str list \<Rightarrow> parsed_query" where
  "query_spec ts = \<lparr>pq_text = filter bare_term ts,
     pq_from = filter_map (field_of ''from:'') ts,
     pq_to = filter_map (field_of ''to:'') ts,
     pq_subject = filter_map (field_of ''subject:'') ts,
     pq_body = filter_map (field_of ''body:'') ts,
     pq_since = last_opt (filter_map (field_of ''since:'') ts),
     pq_before = last_opt (filter_map (field_of ''before:'') ts),
     pq_is_unread = (lit ''is:unread'' \<in> set ts),
     pq_has_attachment = (lit ''has:attachment'' \<in> set ts)\<rparr>"

lemma query_spec_snoc: "query_spec (ts @ [t]) = query_merge (query_spec ts) t"
  by (auto simp: query_spec_def query_merge_def last_opt_filter_map_snoc split: option.splits)

lemma foldl_parse_token: "foldl parse_token query_default ts = query_spec ts"
proof (induction ts rule: rev_induct)
  case Nil
  then show ?case by (simp add: query_default_def query_spec_def)
next
  case (snoc t ts)
  then show ?case by (simp add: parse_token_merge query_spec_snoc)
qed

text \<open>C31. The parser, field by field: each list holds the values of its key in token order,
  the dates are the last ones given, the flags say whether their token occurs, and every
  token that matches no key is kept as a bare term.\<close>

theorem parse_query_spec: "parse_query input = query_spec (tokenize input)"
  by (simp add: parse_query_def foldl_parse_token)

text \<open>Every token of the input is a value of some key, a flag or a bare term.\<close>

lemma token_classified:
  assumes "t \<in> set (tokenize input)"
  shows "bare_term t \<or> t = lit ''is:unread'' \<or> t = lit ''has:attachment'' \<or>
    (\<exists>k\<in>set token_keys. field_of k t \<noteq> None)"
  using assms tokenize_nonempty [of input] by (auto simp: bare_term_def)

text \<open>A later \<open>since:\<close> or \<open>before:\<close> replaces an earlier one, whose value then appears
  nowhere in the parsed query, although the parser's comment says no input is dropped.\<close>

theorem later_date_replaces:
  assumes "r \<noteq> []" and "r' \<noteq> []"
  shows "parse_token (parse_token q (lit ''since:'' @ r')) (lit ''since:'' @ r) =
    parse_token q (lit ''since:'' @ r)"
proof -
  have k: "''since:'' \<in> set token_keys" by (simp add: token_keys_def)
  have f: "field_of ''since:'' (lit ''since:'' @ x) = Some x" if "x \<noteq> []" for x
    using that by (simp add: field_of_Some)
  have m: "query_merge p (lit ''since:'' @ x) = p\<lparr>pq_since := Some x\<rparr>" if "x \<noteq> []" for p x
    using parse_token_key [OF f [OF that] k] that
    by (simp add: query_merge_def f token_keys_def)
  show ?thesis by (simp add: parse_token_merge m assms)
qed

theorem later_date_replaces_witness:
  "parse_token (parse_token query_default (lit ''since:'' @ lit ''2026-01-01''))
     (lit ''since:'' @ lit ''2026-02-01'') =
   parse_token query_default (lit ''since:'' @ lit ''2026-02-01'')"
  by (rule later_date_replaces) simp_all

section \<open>Full-text expression and filters\<close>

lemma to_fts_match_None: "to_fts_match q = None \<longleftrightarrow> is_fts_empty q"
  by (simp add: to_fts_match_def)

text \<open>The filters let a message through exactly when it satisfies each filter set: unread
  if asked for, and with a readable date at or after \<open>since\<close> and strictly before
  \<open>before\<close> when a date is given.\<close>

theorem filters_match_iff:
  "filters_match dp f date seen =
     (\<not> (mf_unread_only f \<and> seen) \<and>
      ((mf_since f = None \<and> mf_before f = None) \<or>
       (\<exists>ts. message_timestamp dp date = Some ts \<and> ts > 0 \<and>
          case_option True (\<lambda>s. s \<le> ts) (mf_since f) \<and>
          case_option True (\<lambda>b. ts < b) (mf_before f))))"
  by (auto simp: filters_match_def message_timestamp_def split: option.splits if_splits)

text \<open>A query the code calls empty has no full-text expression and filters out nothing,
  so a caller that returns early on it hides no narrowing of the query.\<close>

theorem query_empty_no_narrowing:
  assumes "query_is_empty q"
  shows "to_fts_match q = None \<and> filters_match dp (message_filters_of nd q) date seen"
  using assms
  by (auto simp: query_is_empty_def to_fts_match_None filters_match_def message_filters_of_def)

lemma query_empty_has_attachment:
  "query_is_empty (query_default\<lparr>pq_has_attachment := True\<rparr>)"
  by (simp add: query_is_empty_def is_fts_empty_def query_default_def)

theorem query_empty_no_narrowing_witness:
  "to_fts_match (query_default\<lparr>pq_has_attachment := True\<rparr>) = None \<and>
   filters_match (\<lambda>_. None)
     (message_filters_of (\<lambda>_. None) (query_default\<lparr>pq_has_attachment := True\<rparr>)) [] True"
  by (rule query_empty_no_narrowing) (rule query_empty_has_attachment)

end
