(* ===== verification/RowSelection.thy ===== *)
theory RowSelection
  imports Prelude
begin

text \<open>
  The message list's selection, \<open>crates/esmail-win32/src/selection.rs\<close>: which rows are
  selected, the anchor and the focus, what clicks, keys and row insertions and removals do
  to them, and where a navigation key moves.  The lemmas show that the list of selected rows
  stays strictly ascending and, unless everything is selected in an empty list, in bounds, give each operation as an operation on the set of
  selected rows, and show that the same messages stay selected when rows come and go.
\<close>

section \<open>Data and operations\<close>

record selection =
  sel_rows :: "nat list"
  sel_anchor :: "nat option"
  sel_focus :: "nat option"

definition sel_new :: selection where
  "sel_new = \<lparr>sel_rows = [], sel_anchor = None, sel_focus = None\<rparr>"

definition row_range :: "nat \<Rightarrow> nat \<Rightarrow> nat list" where
  "row_range a b = (let (lo, hi) = (if a \<le> b then (a, b) else (b, a)) in [lo..<Suc hi])"

text \<open>\<open>slice::binary_search\<close> on an ascending list without duplicates: \<open>Inr\<close> the index of the
  value, or \<open>Inl\<close> the index at which inserting it keeps the order.\<close>

definition binary_search :: "nat list \<Rightarrow> nat \<Rightarrow> nat + nat" where
  "binary_search xs x =
     (case position (\<lambda>y. y = x) xs of
        Some i \<Rightarrow> Inr i
      | None \<Rightarrow> Inl (length (takeWhile (\<lambda>y. y < x) xs)))"

definition list_insert_at :: "nat \<Rightarrow> 'a \<Rightarrow> 'a list \<Rightarrow> 'a list" where
  "list_insert_at i x xs = take i xs @ x # drop i xs"

definition list_remove_at :: "nat \<Rightarrow> 'a list \<Rightarrow> 'a list" where
  "list_remove_at i xs = take i xs @ drop (Suc i) xs"

definition click :: "nat \<Rightarrow> selection \<Rightarrow> selection" where
  "click index s = \<lparr>sel_rows = [index], sel_anchor = Some index, sel_focus = Some index\<rparr>"

definition ctrl_click :: "nat \<Rightarrow> selection \<Rightarrow> selection" where
  "ctrl_click index s =
     (case binary_search (sel_rows s) index of
        Inr pos \<Rightarrow> s\<lparr>sel_rows := list_remove_at pos (sel_rows s)\<rparr>
      | Inl pos \<Rightarrow> s\<lparr>sel_rows := list_insert_at pos index (sel_rows s)\<rparr>)
     \<lparr>sel_anchor := Some index, sel_focus := Some index\<rparr>"

definition anchor_or :: "selection \<Rightarrow> nat \<Rightarrow> nat" where
  "anchor_or s index =
     (case sel_anchor s of Some a \<Rightarrow> a
      | None \<Rightarrow> (case sel_focus s of Some f \<Rightarrow> f | None \<Rightarrow> index))"

definition shift_click :: "nat \<Rightarrow> selection \<Rightarrow> selection" where
  "shift_click index s =
     s\<lparr>sel_rows := row_range (anchor_or s index) index, sel_focus := Some index\<rparr>"

definition move_focus :: "nat \<Rightarrow> bool \<Rightarrow> bool \<Rightarrow> selection \<Rightarrow> selection" where
  "move_focus index ctrl shift s =
     (if ctrl then s\<lparr>sel_focus := Some index\<rparr>
      else if shift then
        s\<lparr>sel_rows := row_range (anchor_or s index) index, sel_focus := Some index\<rparr>
      else click index s)"

definition shift_inserted :: "nat \<Rightarrow> nat \<Rightarrow> nat \<Rightarrow> nat" where
  "shift_inserted at count row = (if row \<ge> at then row + count else row)"

definition sel_insert :: "nat \<Rightarrow> nat \<Rightarrow> selection \<Rightarrow> selection" where
  "sel_insert at count s =
     \<lparr>sel_rows = map (shift_inserted at count) (sel_rows s),
      sel_anchor = map_option (shift_inserted at count) (sel_anchor s),
      sel_focus = map_option (shift_inserted at count) (sel_focus s)\<rparr>"

definition shift_removed :: "nat \<Rightarrow> nat \<Rightarrow> nat \<Rightarrow> nat option" where
  "shift_removed at count row =
     (if row \<ge> at + count then Some (row - count) else if row < at then Some row else None)"

definition sel_remove :: "nat \<Rightarrow> nat \<Rightarrow> selection \<Rightarrow> selection" where
  "sel_remove at count s =
     \<lparr>sel_rows = filter_map (shift_removed at count) (sel_rows s),
      sel_anchor = Option.bind (sel_anchor s) (shift_removed at count),
      sel_focus = Option.bind (sel_focus s) (shift_removed at count)\<rparr>"

definition select_all :: "nat \<Rightarrow> selection \<Rightarrow> selection" where
  "select_all len s =
     \<lparr>sel_rows = (if len = 0 then [] else [0..<len]), sel_anchor = Some 0, sel_focus = Some 0\<rparr>"

definition first_opt :: "'a list \<Rightarrow> 'a option" where
  "first_opt xs = (case xs of [] \<Rightarrow> None | x # _ \<Rightarrow> Some x)"

definition sel_replace :: "nat list \<Rightarrow> nat \<Rightarrow> selection \<Rightarrow> selection" where
  "sel_replace rows len s =
     (let next = remdups_adj (sort (filter (\<lambda>row. row < len) rows))
      in \<lparr>sel_rows = next, sel_anchor = first_opt next, sel_focus = first_opt next\<rparr>)"

definition sel_clear :: "selection \<Rightarrow> selection" where
  "sel_clear s = s\<lparr>sel_rows := [], sel_anchor := None, sel_focus := None\<rparr>"

definition sel_contains :: "nat \<Rightarrow> selection \<Rightarrow> bool" where
  "sel_contains index s = (case binary_search (sel_rows s) index of Inr _ \<Rightarrow> True | Inl _ \<Rightarrow> False)"

text \<open>Navigation keys (the constants of \<open>win32ui::Key\<close> the code matches on).\<close>

datatype nav_key = KeyHome | KeyEnd | KeyUp | KeyDown | KeyPageUp | KeyPageDown | KeyOther nat

definition nav_target :: "nav_key \<Rightarrow> nat option \<Rightarrow> nat \<Rightarrow> nat \<Rightarrow> nat option" where
  "nav_target key focus len page =
     (if len = 0 then None
      else let last = len - 1 in
        map_option (\<lambda>target. min target last)
          (case key of
             KeyHome \<Rightarrow> Some 0
           | KeyEnd \<Rightarrow> Some last
           | KeyUp \<Rightarrow> Some (case focus of None \<Rightarrow> last | Some row \<Rightarrow> row - 1)
           | KeyDown \<Rightarrow> Some (case focus of None \<Rightarrow> 0 | Some row \<Rightarrow> row + 1)
           | KeyPageUp \<Rightarrow> Some (case focus of None \<Rightarrow> last | Some row \<Rightarrow> row - page)
           | KeyPageDown \<Rightarrow> Some (case focus of None \<Rightarrow> 0 | Some row \<Rightarrow> row + page)
           | KeyOther _ \<Rightarrow> None))"

record moved =
  mv_focus :: nat
  mv_selection_changed :: bool

definition navigate :: "nav_key \<Rightarrow> bool \<Rightarrow> bool \<Rightarrow> nat \<Rightarrow> nat \<Rightarrow> selection \<Rightarrow> moved option \<times> selection" where
  "navigate key ctrl shift len page s =
     (case nav_target key (sel_focus s) len page of
        None \<Rightarrow> (None, s)
      | Some focus \<Rightarrow>
          (Some \<lparr>mv_focus = focus, mv_selection_changed = \<not> ctrl\<rparr>, move_focus focus ctrl shift s))"

section \<open>The selected rows as an ordered set\<close>

definition ascending :: "nat list \<Rightarrow> bool" where
  "ascending xs \<longleftrightarrow> sorted_wrt (<) xs"

definition sel_ok :: "selection \<Rightarrow> bool" where
  "sel_ok s \<longleftrightarrow> ascending (sel_rows s)"

text \<open>Every row the selection mentions is a row of a \<open>len\<close>-row model.\<close>

definition sel_within :: "nat \<Rightarrow> selection \<Rightarrow> bool" where
  "sel_within len s \<longleftrightarrow>
     (\<forall>row\<in>set (sel_rows s). row < len) \<and>
     pred_option (\<lambda>row. row < len) (sel_anchor s) \<and> pred_option (\<lambda>row. row < len) (sel_focus s)"

lemma ascending_distinct: "ascending xs \<Longrightarrow> distinct xs"
  by (simp add: ascending_def strict_sorted_iff)

lemma ascending_append:
  "ascending (xs @ ys) \<longleftrightarrow> ascending xs \<and> ascending ys \<and> (\<forall>x\<in>set xs. \<forall>y\<in>set ys. x < y)"
  by (simp add: ascending_def sorted_wrt_append)

lemma takeWhile_less_ascending:
  assumes "ascending xs" and "x \<notin> set xs"
  shows "\<forall>y\<in>set (dropWhile (\<lambda>y. y < x) xs). x < y"
  using assms by (induction xs) (auto simp: ascending_def less_le_trans not_less order.strict_iff_order)

lemma ascending_Cons: "ascending (x # xs) \<longleftrightarrow> (\<forall>y\<in>set xs. x < y) \<and> ascending xs"
  by (simp add: ascending_def)

lemma ascending_between:
  "ascending A \<Longrightarrow> ascending B \<Longrightarrow> \<forall>y\<in>set A. y < x \<Longrightarrow> \<forall>y\<in>set B. x < y \<Longrightarrow> ascending (A @ x # B)"
  by (auto simp: ascending_append ascending_Cons dest: less_trans)

lemma ascending_without:
  "ascending (A @ x # B) \<Longrightarrow> ascending (A @ B) \<and> set (A @ B) = set (A @ x # B) - {x}"
  by (auto simp: ascending_append ascending_Cons)

lemma binary_search_Inl:
  assumes "ascending xs" and "binary_search xs x = Inl i"
  shows "x \<notin> set xs \<and> ascending (list_insert_at i x xs) \<and> set (list_insert_at i x xs) = insert x (set xs)"
proof -
  from assms(2) have x: "x \<notin> set xs" and i: "i = length (takeWhile (\<lambda>y. y < x) xs)"
    by (auto simp: binary_search_def position_None split: option.splits)
  obtain A B where A: "A = takeWhile (\<lambda>y. y < x) xs" and B: "B = dropWhile (\<lambda>y. y < x) xs" by blast
  then have xs: "xs = A @ B" and "\<forall>y\<in>set A. y < x" and "\<forall>y\<in>set B. x < y"
    using takeWhile_less_ascending [OF assms(1) x] by (auto dest: set_takeWhileD)
  moreover have "list_insert_at i x xs = A @ x # B"
    using i unfolding A [symmetric] by (simp add: list_insert_at_def xs)
  ultimately show ?thesis
    using x assms(1) ascending_between [of A B x] by (auto simp: ascending_append)
qed

lemma binary_search_Inr:
  assumes "ascending xs" and "binary_search xs x = Inr i"
  shows "x \<in> set xs \<and> ascending (list_remove_at i xs) \<and> set (list_remove_at i xs) = set xs - {x}"
proof -
  from assms(2) have i: "i < length xs" "xs ! i = x"
    by (auto simp: binary_search_def position_Some split: option.splits)
  then obtain A B where xs: "xs = A @ x # B" and A: "length A = i"
    by (metis id_take_nth_drop length_take min.absorb4)
  then have "list_remove_at i xs = A @ B" by (simp add: list_remove_at_def)
  with assms(1) xs ascending_without [of A x B] show ?thesis by simp
qed

lemma ascending_upt [simp]: "ascending [a..<b]"
  by (simp add: ascending_def)

lemma row_range_props [simp]:
  "ascending (row_range a b)" "set (row_range a b) = {min a b..max a b}"
  by (auto simp: row_range_def simp del: upt_Suc)

lemma ascending_map:
  "ascending xs \<Longrightarrow> (\<And>x y. x < y \<Longrightarrow> f x < f y) \<Longrightarrow> ascending (map f xs)"
  by (auto simp: ascending_def sorted_wrt_map intro: sorted_wrt_mono_rel)

lemma ascending_filter_map:
  assumes "ascending xs" and "\<And>x y a b. x < y \<Longrightarrow> f x = Some a \<Longrightarrow> f y = Some b \<Longrightarrow> a < b"
  shows "ascending (filter_map f xs)"
  using assms(1)
proof (induction xs)
  case (Cons x xs)
  then have "ascending (filter_map f xs)" and "\<forall>y\<in>set xs. x < y"
    by (simp_all add: ascending_def)
  moreover have "a < b" if "f x = Some a" "y \<in> set xs" "f y = Some b" for a b y
    using assms(2) that \<open>\<forall>y\<in>set xs. x < y\<close> by blast
  ultimately show ?case
    by (auto simp: ascending_def set_filter_map split: option.splits)
qed (simp add: ascending_def)

lemma ascending_remdups_adj: "sorted xs \<Longrightarrow> ascending (remdups_adj xs)"
proof (induction xs rule: remdups_adj.induct)
  case (3 x y xs)
  then show ?case by (auto simp: ascending_def order.strict_iff_order)
qed (simp_all add: ascending_def)

section \<open>Operations keep the rows ascending\<close>

lemma shift_inserted_strict: "x < y \<Longrightarrow> shift_inserted at c x < shift_inserted at c y"
  by (auto simp: shift_inserted_def)

lemma shift_removed_strict:
  "x < y \<Longrightarrow> shift_removed at c x = Some a \<Longrightarrow> shift_removed at c y = Some b \<Longrightarrow> a < b"
  by (auto simp: shift_removed_def split: if_splits)

lemma ctrl_click_rows:
  assumes "sel_ok s"
  shows "sel_ok (ctrl_click i s)"
    and "set (sel_rows (ctrl_click i s)) =
      (if i \<in> set (sel_rows s) then set (sel_rows s) - {i} else insert i (set (sel_rows s)))"
  using assms binary_search_Inl [of "sel_rows s" i] binary_search_Inr [of "sel_rows s" i]
  by (cases "binary_search (sel_rows s) i"; auto simp: sel_ok_def ctrl_click_def)+

lemma sel_ok_ops [simp, intro]:
  "sel_ok sel_new"
  "sel_ok (click i s)"
  "sel_ok (shift_click i s)"
  "sel_ok s \<Longrightarrow> sel_ok (move_focus i ctrl shift s)"
  "sel_ok s \<Longrightarrow> sel_ok (sel_insert at c s)"
  "sel_ok s \<Longrightarrow> sel_ok (sel_remove at c s)"
  "sel_ok (select_all len s)"
  "sel_ok (sel_replace rows len s)"
  "sel_ok (sel_clear s)"
  by (auto simp: sel_ok_def sel_new_def click_def shift_click_def move_focus_def sel_insert_def
      sel_remove_def select_all_def sel_replace_def sel_clear_def Let_def ascending_remdups_adj
      intro!: ascending_map shift_inserted_strict ascending_filter_map dest: shift_removed_strict)
    (simp_all add: ascending_def)

lemma navigate_ok: "sel_ok s \<Longrightarrow> sel_ok (snd (navigate key ctrl shift len page s))"
  by (auto simp: navigate_def split: option.splits)

lemma sel_contains_iff: "sel_contains i s \<longleftrightarrow> i \<in> set (sel_rows s)"
  by (force simp: sel_contains_def binary_search_def position_None position_Some
      split: option.splits)

text \<open>The user's input, as the widget calls it on a \<open>len\<close>-row list.\<close>

datatype sel_input =
    Click nat | CtrlClick nat | ShiftClick nat
  | NavKey nav_key bool bool nat
  | RowsInserted nat nat | RowsRemoved nat nat
  | SelectAll | ReplaceSel "nat list" | ClearSel

fun sel_step :: "selection \<times> nat \<Rightarrow> sel_input \<Rightarrow> selection \<times> nat" where
  "sel_step (s, len) (Click i) = (if i < len then click i s else s, len)"
| "sel_step (s, len) (CtrlClick i) = (if i < len then ctrl_click i s else s, len)"
| "sel_step (s, len) (ShiftClick i) = (if i < len then shift_click i s else s, len)"
| "sel_step (s, len) (NavKey key ctrl shift page) = (snd (navigate key ctrl shift len page s), len)"
| "sel_step (s, len) (RowsInserted at count) =
     (if at \<le> len then (sel_insert at count s, len + count) else (s, len))"
| "sel_step (s, len) (RowsRemoved at count) =
     (if at + count \<le> len then (sel_remove at count s, len - count) else (s, len))"
| "sel_step (s, len) SelectAll = (select_all len s, len)"
| "sel_step (s, len) (ReplaceSel rows) = (sel_replace rows len s, len)"
| "sel_step (s, len) ClearSel = (sel_clear s, len)"

lemma nav_target_less: "nav_target key f len page = Some i \<Longrightarrow> i < len"
  by (auto simp: nav_target_def Let_def split: if_splits nav_key.splits)

lemma anchor_or_less: "sel_within len s \<Longrightarrow> i < len \<Longrightarrow> anchor_or s i < len"
  by (auto simp: anchor_or_def sel_within_def split: option.splits)

lemma sel_within_remove:
  assumes "at + c \<le> len" and "sel_within len s"
  shows "sel_within (len - c) (sel_remove at c s)"
proof -
  have *: "r < len - c" if "shift_removed at c row = Some r" "row < len" for row r
    using that assms(1) by (auto simp: shift_removed_def split: if_splits)
  from assms(2) show ?thesis
    using * by (auto simp: sel_within_def sel_remove_def set_filter_map pred_option_def
        bind_eq_Some_conv)
qed

lemma sel_within_ops:
  "sel_within len sel_new"
  "i < len \<Longrightarrow> sel_within len (click i s)"
  "i < len \<Longrightarrow> sel_within len s \<Longrightarrow> sel_within len (shift_click i s)"
  "i < len \<Longrightarrow> sel_within len s \<Longrightarrow> sel_within len (move_focus i ctrl shift s)"
  "sel_within len s \<Longrightarrow> sel_within (len + c) (sel_insert at c s)"
  "0 < len \<Longrightarrow> sel_within len (select_all len s)"
  "sel_within len (sel_clear s)"
  using anchor_or_less [of len s i]
  by (auto simp: sel_within_def sel_new_def click_def shift_click_def move_focus_def sel_insert_def
      select_all_def sel_clear_def shift_inserted_def pred_option_def split: if_splits)

lemma sel_within_ctrl_click: "i < len \<Longrightarrow> sel_ok s \<Longrightarrow> sel_within len s \<Longrightarrow> sel_within len (ctrl_click i s)"
  using ctrl_click_rows(2) [of s i]
  by (auto simp: sel_within_def ctrl_click_def split: if_splits)

lemma sel_within_replace: "sel_within len (sel_replace rows len s)"
proof -
  let ?n = "remdups_adj (sort (filter (\<lambda>row. row < len) rows))"
  have "\<forall>row\<in>set ?n. row < len" by simp
  moreover from this have "pred_option (\<lambda>row. row < len) (first_opt ?n)"
    by (cases ?n) (auto simp: first_opt_def)
  ultimately show ?thesis by (simp add: sel_within_def sel_replace_def Let_def)
qed

text \<open>Selecting everything in an empty list leaves the anchor and the focus on row 0, which is no row of the
  list; that is the only way out of range, and it is never further out than by one row.\<close>

definition sel_near :: "nat \<Rightarrow> selection \<Rightarrow> bool" where
  "sel_near len s \<longleftrightarrow> sel_ok s \<and> sel_within (Suc len) s"

lemma sel_step_near:
  assumes "sel_near len s" and "sel_step (s, len) e = (s', len')"
  shows "sel_near len' s'"
proof -
  have "sel_within (Suc len) (select_all len s)" by (auto simp: sel_within_def select_all_def)
  moreover have "sel_within (Suc len) (sel_replace rows len s)" for rows
    using sel_within_replace [of len rows s] by (auto simp: sel_within_def pred_option_def)
  moreover have "sel_within (Suc (len - c)) (sel_remove at c s)" if "at + c \<le> len" for at c
    using sel_within_remove [of at c "Suc len" s] that assms(1) by (simp add: sel_near_def Suc_diff_le)
  moreover have "sel_within (Suc (len + c)) (sel_insert at c s)" for at c
    using sel_within_ops(5) [of "Suc len" s c at] assms(1) by (simp add: sel_near_def)
  ultimately show ?thesis
    using assms ctrl_click_rows(1) [of s] unfolding sel_near_def
    by (cases e)
       (auto simp: sel_within_ops sel_within_ctrl_click navigate_ok navigate_def dest: nav_target_less
         split: if_splits option.splits)
qed

lemma sel_step_inv:
  assumes "sel_ok s" and "sel_within len s" and "sel_step (s, len) e = (s', len')" and "e = SelectAll \<longrightarrow> 0 < len"
  shows "sel_ok s' \<and> sel_within len' s'"
  using assms ctrl_click_rows(1) [of s]
  by (cases e)
     (auto simp: sel_within_ops sel_within_remove sel_within_ctrl_click sel_within_replace navigate_ok navigate_def
       dest: nav_target_less split: if_splits option.splits)

text \<open>No \<open>SelectAll\<close> of the run comes at an empty list.\<close>

fun select_all_finds_rows :: "selection \<times> nat \<Rightarrow> sel_input list \<Rightarrow> bool" where
  "select_all_finds_rows st [] = True"
| "select_all_finds_rows st (e # es) = ((e = SelectAll \<longrightarrow> 0 < snd st) \<and> select_all_finds_rows (sel_step st e) es)"

text \<open>C18. Whatever the user and the model do, the selected rows stay strictly ascending, and the
  selection, the anchor and the focus are at most one row beyond the end of the list; they are rows of
  the list throughout when no key selects everything while the list is empty.\<close>

theorem selection_invariant:
  assumes "foldl sel_step (sel_new, len) es = (s, len')"
  shows "sel_ok s \<and> sel_within (Suc len') s \<and> (select_all_finds_rows (sel_new, len) es \<longrightarrow> sel_within len' s)"
proof -
  have near: "sel_near (snd (foldl sel_step st es)) (fst (foldl sel_step st es))" if "sel_near (snd st) (fst st)" for st
    using that
  proof (induction es arbitrary: st)
    case (Cons e es)
    have "sel_near (snd (sel_step st e)) (fst (sel_step st e))"
      by (rule sel_step_near [of "snd st" "fst st" e]) (use Cons.prems in simp_all)
    from Cons.IH [OF this] show ?case by simp
  qed simp
  have within: "sel_within (snd (foldl sel_step st es)) (fst (foldl sel_step st es))"
    if "sel_ok (fst st)" "sel_within (snd st) (fst st)" "select_all_finds_rows st es" for st
    using that
  proof (induction es arbitrary: st)
    case (Cons e es)
    have "sel_ok (fst (sel_step st e)) \<and> sel_within (snd (sel_step st e)) (fst (sel_step st e))"
      by (rule sel_step_inv [of "fst st" "snd st" e]) (use Cons.prems in simp_all)
    with Cons show ?case by simp
  qed simp
  show ?thesis
    using near [of "(sel_new, len)"] within [of "(sel_new, len)"] assms
    by (simp add: sel_near_def sel_within_ops(1))
qed

theorem selection_invariant_witness:
  "foldl sel_step (sel_new, 5) [Click 1, ShiftClick 3, CtrlClick 2, RowsInserted 0 2] =
     (\<lparr>sel_rows = [3, 5], sel_anchor = Some 4, sel_focus = Some 4\<rparr>, 7) \<and>
   sel_ok \<lparr>sel_rows = [3, 5], sel_anchor = Some 4, sel_focus = Some 4\<rparr> \<and>
   sel_within 7 \<lparr>sel_rows = [3, 5], sel_anchor = Some 4, sel_focus = Some 4\<rparr>"
proof -
  have run: "foldl sel_step (sel_new, 5) [Click 1, ShiftClick 3, CtrlClick 2, RowsInserted 0 2] =
     (\<lparr>sel_rows = [3, 5], sel_anchor = Some 4, sel_focus = Some 4\<rparr>, 7)"
    by code_simp
  moreover have "select_all_finds_rows (sel_new, 5) [Click 1, ShiftClick 3, CtrlClick 2, RowsInserted 0 2]" by simp
  ultimately show ?thesis using selection_invariant [OF run] by blast
qed

text \<open>After \<open>SelectAll\<close> in an empty list the next messages move the anchor past the end: a click with the
  shift key then selects a row that does not exist.\<close>

lemma select_all_of_nothing_escapes:
  "foldl sel_step (sel_new, 0) [SelectAll, RowsInserted 0 3, ShiftClick 1] =
   (\<lparr>sel_rows = [1, 2, 3], sel_anchor = Some 3, sel_focus = Some 1\<rparr>, 3)"
  by code_simp

section \<open>The same messages stay selected\<close>

definition insert_rows :: "nat \<Rightarrow> 'a list \<Rightarrow> 'a list \<Rightarrow> 'a list" where
  "insert_rows at new xs = take at xs @ new @ drop at xs"

definition remove_rows :: "nat \<Rightarrow> nat \<Rightarrow> 'a list \<Rightarrow> 'a list" where
  "remove_rows at count xs = take at xs @ drop (at + count) xs"

lemma nth_insert_rows:
  assumes "row < length xs" and "at \<le> length xs"
  shows "insert_rows at new xs ! shift_inserted at (length new) row = xs ! row"
  using assms by (auto simp: insert_rows_def shift_inserted_def nth_append)

text \<open>When rows are inserted, the selection names the same messages as before, in the same
  order, and so do the anchor and the focus.\<close>

lemma insert_keeps_messages:
  assumes "sel_within (length xs) s" and "at \<le> length xs"
  shows "map (nth (insert_rows at new xs)) (sel_rows (sel_insert at (length new) s)) =
      map (nth xs) (sel_rows s) \<and>
    map_option (nth (insert_rows at new xs)) (sel_anchor (sel_insert at (length new) s)) =
      map_option (nth xs) (sel_anchor s) \<and>
    map_option (nth (insert_rows at new xs)) (sel_focus (sel_insert at (length new) s)) =
      map_option (nth xs) (sel_focus s)"
  using assms nth_insert_rows [OF _ assms(2), of _ new]
  by (auto simp: sel_insert_def sel_within_def option.map_comp comp_def pred_option_def
      intro!: option.map_cong0)

lemma nth_remove_rows:
  assumes "row < length xs" and "shift_removed at c row = Some r"
  shows "remove_rows at c xs ! r = xs ! row"
  using assms by (auto simp: remove_rows_def shift_removed_def nth_append split: if_splits)

text \<open>When rows are removed, exactly the selected messages that were not removed stay
  selected, in the same order.\<close>

lemma remove_keeps_messages:
  assumes "sel_within (length xs) s"
  shows "map (nth (remove_rows at c xs)) (sel_rows (sel_remove at c s)) =
    map (nth xs) (filter (\<lambda>row. \<not> (at \<le> row \<and> row < at + c)) (sel_rows s))"
proof -
  have "map (nth (remove_rows at c xs)) (filter_map (shift_removed at c) rows) =
      map (nth xs) (filter (\<lambda>row. \<not> (at \<le> row \<and> row < at + c)) rows)"
    if "\<forall>row\<in>set rows. row < length xs" for rows
    using that
  proof (induction rows)
    case (Cons row rows)
    then show ?case
      using nth_remove_rows [of row xs at c]
      by (cases "shift_removed at c row") (auto simp: shift_removed_def split: if_splits)
  qed simp
  with assms show ?thesis by (simp add: sel_within_def sel_remove_def)
qed

text \<open>Inserting rows and removing them again gives the selection back.\<close>

lemma remove_insert: "sel_remove at c (sel_insert at c s) = s"
proof -
  have 1: "shift_removed at c (shift_inserted at c row) = Some row" for row
    by (auto simp: shift_removed_def shift_inserted_def)
  have 2: "filter_map (shift_removed at c) (map (shift_inserted at c) rows) = rows" for rows
    by (induction rows) (simp_all add: 1)
  show ?thesis
    by (cases s; cases "sel_anchor s"; cases "sel_focus s")
       (auto simp: sel_remove_def sel_insert_def 1 2)
qed

section \<open>The selection implements a set of rows\<close>

text \<open>What a client of a selection relies on: a set of rows that can be asked, toggled and
  replaced by one row or by a range.\<close>

locale row_set =
  fixes rows :: "'s \<Rightarrow> nat set"
    and valid :: "'s \<Rightarrow> bool"
    and has :: "nat \<Rightarrow> 's \<Rightarrow> bool"
    and toggle :: "nat \<Rightarrow> 's \<Rightarrow> 's"
    and only :: "nat \<Rightarrow> 's \<Rightarrow> 's"
  assumes has_iff: "valid s \<Longrightarrow> has i s \<longleftrightarrow> i \<in> rows s"
    and toggle_valid: "valid s \<Longrightarrow> valid (toggle i s)"
    and toggle_rows: "valid s \<Longrightarrow> rows (toggle i s) = (if i \<in> rows s then rows s - {i} else insert i (rows s))"
    and only_valid: "valid (only i s)"
    and only_rows: "rows (only i s) = {i}"
begin

lemma has_toggle: "valid s \<Longrightarrow> has j (toggle i s) \<longleftrightarrow> (if j = i then \<not> has i s else has j s)"
  by (auto simp: has_iff toggle_valid toggle_rows)

lemma toggle_twice: "valid s \<Longrightarrow> rows (toggle i (toggle i s)) = rows s"
  by (auto simp: toggle_valid toggle_rows)

lemma toggle_all_valid: "valid s \<Longrightarrow> valid (foldr toggle is s)"
  by (induction "is") (auto simp: toggle_valid)

lemma toggle_all:
  "valid s \<Longrightarrow> distinct is \<Longrightarrow>
   has j (foldr toggle is s) \<longleftrightarrow> (if j \<in> set is then \<not> has j s else has j s)"
  by (induction "is") (auto simp: has_toggle toggle_all_valid)

end

interpretation selset: row_set "\<lambda>s. set (sel_rows s)" sel_ok sel_contains ctrl_click click
  by unfold_locales (auto simp: sel_contains_iff ctrl_click_rows, simp_all add: click_def)

text \<open>Ctrl+clicking distinct rows one after the other flips exactly those rows and no
  other.\<close>

theorem ctrl_clicks_flip:
  assumes "sel_ok s" and "distinct is"
  shows "sel_contains j (foldr ctrl_click is s) = (if j \<in> set is then \<not> sel_contains j s else sel_contains j s)"
  by (rule selset.toggle_all [OF assms])

theorem ctrl_clicks_flip_witness:
  "sel_contains 2 (foldr ctrl_click [2, 0] \<lparr>sel_rows = [0, 1], sel_anchor = None, sel_focus = None\<rparr>)"
  using ctrl_clicks_flip [of "\<lparr>sel_rows = [0, 1], sel_anchor = None, sel_focus = None\<rparr>" "[2, 0]" 2]
  by (simp add: sel_ok_def ascending_def sel_contains_iff)

end
