(* ===== verification/MailHeaders.thy ===== *)
theory MailHeaders
  imports Prelude
begin

text \<open>
  Message headers as \<open>crates/esmail/src/imap.rs\<close> keeps them: the \<open>MailHeader\<close> struct, the
  flag tests, and the functions that take the sender's address and display name out of the
  \<open>Name <user@host>\<close> string the module formats from an envelope.  The lemmas show what a
  trusted address always looks like and that formatting and extracting are inverse.
\<close>

section \<open>Headers and flags\<close>

record mail_header =
  mh_uid :: u32
  mh_subject :: str
  mh_from :: str
  mh_to :: str
  mh_date :: str
  mh_message_id :: str
  mh_flags :: "str list"

definition FLAG_SEEN :: str where "FLAG_SEEN = blit ''Seen''"
definition FLAG_FLAGGED :: str where "FLAG_FLAGGED = blit ''Flagged''"
definition FLAG_DELETED :: str where "FLAG_DELETED = blit ''Deleted''"

definition has_flag :: "str \<Rightarrow> str list \<Rightarrow> bool" where
  "has_flag flag flags \<longleftrightarrow> list_ex (\<lambda>f. eq_ignore_ascii_case f flag) flags"

definition is_seen :: "mail_header \<Rightarrow> bool" where
  "is_seen h \<longleftrightarrow> has_flag FLAG_SEEN (mh_flags h)"

definition is_flagged :: "mail_header \<Rightarrow> bool" where
  "is_flagged h \<longleftrightarrow> has_flag FLAG_FLAGGED (mh_flags h)"

section \<open>Addresses\<close>

definition lt_char :: uchar where "lt_char = 60"
definition gt_char :: uchar where "gt_char = 62"
definition at_char :: uchar where "at_char = 64"

definition angle_part :: "str \<Rightarrow> str" where
  "angle_part s =
     (case rfind_char lt_char s of
        None \<Rightarrow> s
      | Some open \<Rightarrow>
          (case rfind_char gt_char s of
             None \<Rightarrow> s
           | Some close \<Rightarrow>
               if open < close then take (close - Suc open) (drop (Suc open) s) else s))"

definition address_of :: "str \<Rightarrow> str option" where
  "address_of from_field =
     (let addr = trim (angle_part (trim from_field)) in
      case split_once at_char addr of
        None \<Rightarrow> None
      | Some (local, domain) \<Rightarrow>
          if local \<noteq> [] \<and> domain \<noteq> [] then Some (to_ascii_lowercase addr) else None)"

definition display_name_of :: "str \<Rightarrow> str" where
  "display_name_of from_field =
     (let from' = trim from_field in
      case rfind_char lt_char from' of
        None \<Rightarrow> from'
      | Some open \<Rightarrow>
          (let name = trim (trim_matches (\<lambda>c. c = 34) (trim (take open from'))) in
           if name \<noteq> [] then name
           else let inner = trim (trim_end (\<lambda>c. c = gt_char) (drop (Suc open) from')) in
             if inner \<noteq> [] then inner else from'))"

definition sender_address :: "mail_header \<Rightarrow> str option" where
  "sender_address h = address_of (mh_from h)"

definition sender_name :: "mail_header \<Rightarrow> str" where
  "sender_name h = display_name_of (mh_from h)"

text \<open>One address of an envelope field, as \<open>parse_envelope_header\<close> formats it: the decoded
  display name, the mailbox and the host.\<close>

definition format_one_address :: "str option \<Rightarrow> str \<Rightarrow> str \<Rightarrow> str" where
  "format_one_address name mailbox host =
     (case name of
        Some n \<Rightarrow> n @ lit '' <'' @ mailbox @ [at_char] @ host @ [gt_char]
      | None \<Rightarrow> mailbox @ [at_char] @ host)"

definition format_addresses :: "(str option \<times> str \<times> str) list option \<Rightarrow> str" where
  "format_addresses addrs =
     (case addrs of
        None \<Rightarrow> []
      | Some list \<Rightarrow> join (lit '', '') (map (\<lambda>(n, m, h). format_one_address n m h) list))"

section \<open>Lemmas\<close>

lemma dropWhile_hd: "s = [] \<or> \<not> P (hd s) \<Longrightarrow> dropWhile P s = s"
  by (cases s) auto

lemma trim_no_ws:
  assumes "s \<noteq> []" and "\<not> is_whitespace (hd s)" and "\<not> is_whitespace (last s)"
  shows "trim s = s"
  using assms by (simp add: trim_def trim_matches_def trim_start_def trim_end_def dropWhile_hd hd_rev)

lemma trim_Nil [simp]: "trim [] = []"
  by (simp add: trim_def trim_matches_def trim_start_def trim_end_def)

lemma trim_append_ws_start: "(\<And>c. c \<in> set a \<Longrightarrow> is_whitespace c) \<Longrightarrow> trim (a @ s) = trim s"
  by (simp add: trim_def trim_matches_def trim_start_def dropWhile_append2)

text \<open>An address taken from a \<open>From\<close> field is lowercase, has an \<open>@\<close> and something on both
  sides of it; so the key senders are trusted under can never be \<open>@\<close> alone.\<close>

theorem address_of_shape:
  assumes "address_of s = Some a"
  shows "to_ascii_lowercase a = a \<and>
    (\<exists>local domain. a = local @ at_char # domain \<and> local \<noteq> [] \<and> domain \<noteq> [])"
proof -
  obtain addr l d where d: "split_once at_char addr = Some (l, d)" "l \<noteq> []" "d \<noteq> []"
    and a: "a = to_ascii_lowercase addr"
    using assms by (auto simp: address_of_def Let_def split: option.splits if_splits)
  from d(1) have "addr = l @ at_char # d" by (simp add: split_once_Some)
  moreover have "lower_char at_char = at_char" by (simp add: lower_char_def at_char_def)
  ultimately have "a = to_ascii_lowercase l @ at_char # to_ascii_lowercase d"
    by (simp add: a to_ascii_lowercase_def)
  moreover have "to_ascii_lowercase l \<noteq> []" "to_ascii_lowercase d \<noteq> []"
    using d(2,3) by (simp_all add: to_ascii_lowercase_def)
  moreover have "to_ascii_lowercase a = a" by (simp add: a to_ascii_lowercase_def)
  ultimately show ?thesis by blast
qed

theorem address_of_shape_witness:
  "address_of (lit ''Bob <Bob@Example.com>'') = Some (lit ''bob@example.com'') \<and>
   to_ascii_lowercase (lit ''bob@example.com'') = lit ''bob@example.com''"
proof -
  have a: "address_of (lit ''Bob <Bob@Example.com>'') = Some (lit ''bob@example.com'')"
    by (simp add: address_of_def angle_part_def lit_def trim_def trim_matches_def trim_start_def
        trim_end_def rfind_char_def lt_char_def gt_char_def at_char_def is_whitespace_def
        to_ascii_lowercase_def lower_char_def)
  from a address_of_shape [OF a] show ?thesis by blast
qed

lemma rfind_last: "gt_char \<notin> set b \<Longrightarrow> rfind_char gt_char (a @ gt_char # b) = Some (length a)"
  by simp

text \<open>Formatting an envelope address and taking the address out again gives the lowercased
  \<open>mailbox@host\<close>, whatever the display name contains.\<close>

theorem format_address_roundtrip:
  assumes "mailbox \<noteq> []" and "host \<noteq> []"
    and plain: "\<forall>c\<in>set (mailbox @ host). \<not> is_whitespace c \<and> c \<noteq> lt_char \<and> c \<noteq> gt_char"
    and no_at: "at_char \<notin> set mailbox"
    and name: "case name of Some n \<Rightarrow> n \<noteq> [] \<and> \<not> is_whitespace (hd n) | None \<Rightarrow> True"
  shows "address_of (format_one_address name mailbox host) =
    Some (to_ascii_lowercase (mailbox @ at_char # host))"
proof -
  let ?a = "mailbox @ at_char # host"
  have ws: "\<not> is_whitespace at_char" "\<not> is_whitespace gt_char" "lt_char \<noteq> gt_char"
    "at_char \<noteq> lt_char" "at_char \<noteq> gt_char"
    by (simp_all add: is_whitespace_def at_char_def gt_char_def lt_char_def)
  have trim_a: "trim ?a = ?a"
    using assms(1,2) plain by (intro trim_no_ws) (auto simp: hd_append)
  have a_chars: "lt_char \<notin> set ?a" "gt_char \<notin> set ?a" using plain ws by auto
  have split_a: "split_once at_char ?a = Some (mailbox, host)"
    using no_at by (simp add: split_once_Some)
  show ?thesis
  proof (cases name)
    case None
    have "rfind_char lt_char ?a = None" using a_chars by simp
    then have "address_of ?a = Some (to_ascii_lowercase ?a)"
      using trim_a split_a assms(1,2) by (simp only: address_of_def angle_part_def Let_def) simp
    with None show ?thesis by (simp add: format_one_address_def)
  next
    case (Some n)
    let ?pre = "n @ [32]"
    let ?s = "?pre @ lt_char # ?a @ [gt_char]"
    have s: "format_one_address name mailbox host = ?s"
      by (simp add: Some format_one_address_def lit_def lt_char_def)
    have trim_s: "trim ?s = ?s"
      using name Some ws by (intro trim_no_ws) (auto simp: hd_append)
    have lt: "rfind_char lt_char ?s = Some (length ?pre)"
      using a_chars ws by (intro rfind_char_append) auto
    have gt: "rfind_char gt_char ?s = Some (length ?pre + Suc (length ?a))"
      using rfind_last [of "[]" "?pre @ lt_char # ?a"] by simp
    have sub: "take (length ?pre + Suc (length ?a) - Suc (length ?pre)) (drop (Suc (length ?pre)) ?s) = ?a"
      by simp
    have "address_of ?s = Some (to_ascii_lowercase ?a)"
      unfolding address_of_def Let_def trim_s angle_part_def lt gt
      using sub trim_a split_a assms(1,2) by simp
    with s show ?thesis by simp
  qed
qed

theorem format_address_roundtrip_witness:
  "address_of (format_one_address (Some (lit ''A <x@y> B'')) (lit ''Me'') (lit ''h.org'')) =
   Some (lit ''me@h.org'')"
proof -
  have "address_of (format_one_address (Some (lit ''A <x@y> B'')) (lit ''Me'') (lit ''h.org'')) =
      Some (to_ascii_lowercase (lit ''Me'' @ at_char # lit ''h.org''))"
    by (rule format_address_roundtrip)
      (simp_all add: lit_def lt_char_def gt_char_def at_char_def is_whitespace_def)
  also have "to_ascii_lowercase (lit ''Me'' @ at_char # lit ''h.org'') = lit ''me@h.org''"
    by (simp add: lit_def at_char_def to_ascii_lowercase_def lower_char_def)
  finally show ?thesis .
qed

end
