(* ===== verification/MailboxTree.thy ===== *)
theory MailboxTree
  imports MailHeaders "HOL-Library.Multiset" "HOL-Library.Sublist"
begin

text \<open>
  The folder tree of \<open>crates/esmail/src/imap.rs\<close>: how \<open>LIST\<close>'s flat mailbox names are
  classified, split on the server's delimiter and inserted into a tree, how the tree is
  sorted, flattened into rows and folded.  The lemmas treat the tree as a map from paths to
  mailboxes and show that inserting, sorting, flattening and folding respect it.
\<close>

section \<open>Mailboxes and their roles\<close>

datatype special_use = SuInbox | SuSent | SuDrafts | SuTrash | SuArchive | SuJunk

text \<open>The name attributes of \<open>imap_proto\<close> the code matches on; any other is \<open>AttrOther\<close>.\<close>

datatype name_attribute =
  AttrSent | AttrDrafts | AttrTrash | AttrArchive | AttrJunk | AttrNoSelect | AttrOther str

fun from_attribute :: "name_attribute \<Rightarrow> special_use option" where
  "from_attribute AttrSent = Some SuSent"
| "from_attribute AttrDrafts = Some SuDrafts"
| "from_attribute AttrTrash = Some SuTrash"
| "from_attribute AttrArchive = Some SuArchive"
| "from_attribute AttrJunk = Some SuJunk"
| "from_attribute _ = None"

definition from_name :: "str \<Rightarrow> special_use option" where
  "from_name name =
     (let n = to_ascii_lowercase name in
      if n = lit ''inbox'' then Some SuInbox
      else if n = lit ''sent'' \<or> n = lit ''sent items'' \<or> n = lit ''sent mail'' then Some SuSent
      else if n = lit ''drafts'' then Some SuDrafts
      else if n = lit ''trash'' \<or> n = lit ''deleted items'' then Some SuTrash
      else if n = lit ''archive'' then Some SuArchive
      else if n = lit ''junk'' \<or> n = lit ''spam'' \<or> n = lit ''junk e-mail'' then Some SuJunk
      else None)"

record mailbox_info =
  mi_name :: str
  mi_delimiter :: "str option"
  mi_special_use :: "special_use option"
  mi_noselect :: bool

text \<open>One entry of a \<open>LIST\<close> reply, as \<open>fetch_mailboxes\<close> turns it into a \<open>MailboxInfo\<close>.\<close>

definition mailbox_info_of :: "str \<Rightarrow> str option \<Rightarrow> name_attribute list \<Rightarrow> mailbox_info" where
  "mailbox_info_of name delimiter attributes =
     \<lparr>mi_name = name, mi_delimiter = delimiter,
      mi_special_use =
        (case filter_map from_attribute attributes of
           u # _ \<Rightarrow> Some u
         | [] \<Rightarrow> from_name name),
      mi_noselect = (AttrNoSelect \<in> set attributes)\<rparr>"

section \<open>The tree\<close>

datatype mailbox_node =
  MailboxNode (node_label: str) (node_full_name: "str option")
    (node_special_use: "special_use option") (node_children: "mailbox_node list")

definition set_leaf :: "str \<Rightarrow> special_use option \<Rightarrow> bool \<Rightarrow> mailbox_node \<Rightarrow> mailbox_node" where
  "set_leaf full_name special_use noselect n =
     MailboxNode (node_label n) (if noselect then node_full_name n else Some full_name)
       special_use (node_children n)"

definition set_children :: "mailbox_node list \<Rightarrow> mailbox_node \<Rightarrow> mailbox_node" where
  "set_children ch n = MailboxNode (node_label n) (node_full_name n) (node_special_use n) ch"

definition ensure_node :: "str \<Rightarrow> mailbox_node list \<Rightarrow> mailbox_node list" where
  "ensure_node label nodes =
     (if list_ex (\<lambda>n. node_label n = label) nodes then nodes
      else nodes @ [MailboxNode label None None []])"

fun insert_path :: "str list \<Rightarrow> str \<Rightarrow> special_use option \<Rightarrow> bool \<Rightarrow> mailbox_node list \<Rightarrow> mailbox_node list" where
  "insert_path [] full_name special_use noselect nodes = nodes"
| "insert_path (first # rest) full_name special_use noselect nodes =
     update_first (\<lambda>n. node_label n = first)
       (\<lambda>n. if rest = [] then set_leaf full_name special_use noselect n
            else set_children (insert_path rest full_name special_use noselect (node_children n)) n)
       (ensure_node first nodes)"

declare insert_path.simps(2) [simp del]

definition use_rank :: "special_use option \<Rightarrow> nat" where
  "use_rank u =
     (case u of
        Some SuInbox \<Rightarrow> 0 | Some SuSent \<Rightarrow> 1 | Some SuDrafts \<Rightarrow> 2
      | Some SuArchive \<Rightarrow> 3 | Some SuJunk \<Rightarrow> 4 | Some SuTrash \<Rightarrow> 5 | None \<Rightarrow> 6)"

definition node_sort_key :: "mailbox_node \<Rightarrow> nat \<times> str" where
  "node_sort_key n = (use_rank (node_special_use n), to_ascii_lowercase (node_label n))"

function sort_tree :: "mailbox_node list \<Rightarrow> mailbox_node list" where
  "sort_tree nodes =
     map (\<lambda>n. set_children (sort_tree (node_children n)) n) (sort_key node_sort_key nodes)"
  by pat_completeness auto
termination
proof (relation "measure (size_list size)")
  fix nodes :: "mailbox_node list" and n
  assume "n \<in> set (sort_key node_sort_key nodes)"
  then have "n \<in> set nodes" by simp
  then have "size n \<le> size_list size nodes" by (rule size_list_estimation') simp
  moreover have "size_list size (node_children n) < size n" by (cases n) simp
  ultimately show "(node_children n, nodes) \<in> measure (size_list size)" by simp
qed simp

declare sort_tree.simps [simp del]

text \<open>Unfolding only at a constructor, so that evaluation stops under the binder.\<close>

lemma sort_tree_eval:
  "sort_tree [] = []"
  "sort_tree (m # ms) =
     map (\<lambda>n. set_children (sort_tree (node_children n)) n) (sort_key node_sort_key (m # ms))"
  by (simp_all add: sort_tree.simps [of "[]"] sort_tree.simps [of "m # ms"])

definition mailbox_segments :: "mailbox_info \<Rightarrow> str list" where
  "mailbox_segments mb =
     (case mi_delimiter mb of
        Some d \<Rightarrow> if d \<noteq> [] then filter (\<lambda>s. s \<noteq> []) (split_str d (mi_name mb)) else [mi_name mb]
      | None \<Rightarrow> [mi_name mb])"

definition insert_mailbox :: "mailbox_node list \<Rightarrow> mailbox_info \<Rightarrow> mailbox_node list" where
  "insert_mailbox roots mb =
     insert_path (mailbox_segments mb) (mi_name mb) (mi_special_use mb) (mi_noselect mb) roots"

definition mailbox_tree :: "mailbox_info list \<Rightarrow> mailbox_node list" where
  "mailbox_tree mailboxes = sort_tree (foldl insert_mailbox [] mailboxes)"

section \<open>Rows\<close>

record mailbox_row =
  mr_depth :: nat
  mr_label :: str
  mr_full_name :: "str option"
  mr_special_use :: "special_use option"
  mr_key :: str
  mr_has_children :: bool

definition child_key :: "str \<Rightarrow> str \<Rightarrow> str" where
  "child_key parent_key label = (if parent_key = [] then label else parent_key @ lit ''/'' @ label)"

fun flatten_into :: "mailbox_node list \<Rightarrow> nat \<Rightarrow> str \<Rightarrow> mailbox_row list" where
  "flatten_into [] depth parent_key = []"
| "flatten_into (MailboxNode label full_name special_use children # nodes) depth parent_key =
     \<lparr>mr_depth = depth, mr_label = label, mr_full_name = full_name, mr_special_use = special_use,
      mr_key = child_key parent_key label, mr_has_children = (children \<noteq> [])\<rparr>
     # flatten_into children (Suc depth) (child_key parent_key label)
     @ flatten_into nodes depth parent_key"

definition flatten_tree :: "mailbox_node list \<Rightarrow> mailbox_row list" where
  "flatten_tree nodes = flatten_into nodes 0 []"

definition collapsed_row :: "str set \<Rightarrow> mailbox_row \<Rightarrow> bool" where
  "collapsed_row collapsed row \<longleftrightarrow> mr_has_children row \<and> mr_key row \<in> collapsed"

fun visible_loop :: "mailbox_row list \<Rightarrow> nat \<Rightarrow> nat option \<Rightarrow> str set \<Rightarrow> nat list" where
  "visible_loop [] index hidden_below collapsed = []"
| "visible_loop (row # rows) index hidden_below collapsed =
     (if case hidden_below of Some depth \<Rightarrow> mr_depth row > depth | None \<Rightarrow> False
      then visible_loop rows (Suc index) hidden_below collapsed
      else index # visible_loop rows (Suc index)
        (if collapsed_row collapsed row then Some (mr_depth row) else None) collapsed)"

definition visible_rows :: "mailbox_row list \<Rightarrow> str set \<Rightarrow> nat list" where
  "visible_rows rows collapsed = visible_loop rows 0 None collapsed"

text \<open>\<open>descendants\<close> indexes the slice, so an index out of range panics: \<open>None\<close>.\<close>

definition descendants :: "mailbox_row list \<Rightarrow> nat \<Rightarrow> mailbox_row list option" where
  "descendants rows index =
     (if index < length rows then
        (let depth = mr_depth (rows ! index);
             rest = drop (Suc index) rows;
             len = (case position (\<lambda>r. mr_depth r \<le> depth) rest of Some i \<Rightarrow> i | None \<Rightarrow> length rest)
         in Some (take len rest))
      else None)"

definition find_special_use_mailbox :: "mailbox_row list \<Rightarrow> special_use \<Rightarrow> str \<Rightarrow> str" where
  "find_special_use_mailbox rows want fallback =
     (case find (\<lambda>row. mr_special_use row = Some want) rows of
        Some row \<Rightarrow> (case mr_full_name row of Some n \<Rightarrow> n | None \<Rightarrow> fallback)
      | None \<Rightarrow> fallback)"

section \<open>The tree as a map from paths\<close>

fun node_at :: "str list \<Rightarrow> mailbox_node list \<Rightarrow> mailbox_node option" where
  "node_at [] nodes = None"
| "node_at (label # path) nodes =
     (case find (\<lambda>n. node_label n = label) nodes of
        None \<Rightarrow> None
      | Some n \<Rightarrow> if path = [] then Some n else node_at path (node_children n))"

definition name_at :: "str list \<Rightarrow> mailbox_node list \<Rightarrow> str option" where
  "name_at path nodes = Option.bind (node_at path nodes) node_full_name"

definition use_at :: "str list \<Rightarrow> mailbox_node list \<Rightarrow> special_use option" where
  "use_at path nodes = Option.bind (node_at path nodes) node_special_use"

lemma find_ensure_node:
  "find (\<lambda>n. node_label n = l) (ensure_node first nodes) =
     (case find (\<lambda>n. node_label n = l) nodes of Some n \<Rightarrow> Some n
      | None \<Rightarrow> if l = first then Some (MailboxNode first None None []) else None)"
proof (cases "list_ex (\<lambda>n. node_label n = first) nodes")
  case True
  then have "find (\<lambda>n. node_label n = first) nodes \<noteq> None"
    by (auto simp: find_None_iff list_ex_iff)
  with True show ?thesis by (auto simp: ensure_node_def split: option.splits)
next
  case False
  then show ?thesis by (auto simp: ensure_node_def find_append split: option.splits)
qed

lemma find_update_first_label:
  assumes "\<And>n. node_label (f n) = node_label n"
  shows "find (\<lambda>n. node_label n = l) (update_first (\<lambda>n. node_label n = first) f nodes) =
    (if l = first then map_option f (find (\<lambda>n. node_label n = l) nodes)
     else find (\<lambda>n. node_label n = l) nodes)"
  using assms by (induction nodes) auto

lemma node_label_set [simp]:
  "node_label (set_leaf f u ns n) = node_label n" "node_label (set_children ch n) = node_label n"
  "node_children (set_leaf f u ns n) = node_children n" "node_children (set_children ch n) = ch"
  "node_full_name (set_children ch n) = node_full_name n"
  "node_special_use (set_children ch n) = node_special_use n"
  "node_full_name (set_leaf f u ns n) = (if ns then node_full_name n else Some f)"
  "node_special_use (set_leaf f u ns n) = u"
  by (simp_all add: set_leaf_def set_children_def)

lemma find_insert_path:
  "find (\<lambda>n. node_label n = l) (insert_path (first # rest) fn u ns nodes) =
    (if l = first then
       Some (let n = (case find (\<lambda>n. node_label n = l) nodes of Some n \<Rightarrow> n | None \<Rightarrow> MailboxNode first None None [])
             in if rest = [] then set_leaf fn u ns n
                else set_children (insert_path rest fn u ns (node_children n)) n)
     else find (\<lambda>n. node_label n = l) nodes)"
  by (subst insert_path.simps, subst find_update_first_label)
     (auto simp: find_ensure_node Let_def split: option.splits)

lemma node_at_empty [simp]: "node_at path [] = None"
  by (cases path) auto

lemma name_at_Cons:
  "name_at (l # path) nodes =
     Option.bind (find (\<lambda>n. node_label n = l) nodes)
       (\<lambda>n. if path = [] then node_full_name n else name_at path (node_children n))"
  by (auto simp: name_at_def split: option.splits)

lemma use_at_Cons:
  "use_at (l # path) nodes =
     Option.bind (find (\<lambda>n. node_label n = l) nodes)
       (\<lambda>n. if path = [] then node_special_use n else use_at path (node_children n))"
  by (auto simp: use_at_def split: option.splits)

lemma name_at_empty [simp]: "name_at path [] = None" "name_at [] nodes = None"
  by (simp_all add: name_at_def)

lemma use_at_empty [simp]: "use_at path [] = None" "use_at [] nodes = None"
  by (simp_all add: use_at_def)

lemma name_at_insert_path:
  "p \<noteq> [] \<Longrightarrow> name_at q (insert_path p fn u ns nodes) =
     (if q = p \<and> \<not> ns then Some fn else name_at q nodes)"
proof (induction p fn u ns nodes arbitrary: q rule: insert_path.induct)
  case (2 first rest fn u ns nodes)
  show ?case
  proof (cases q)
    case (Cons l path)
    then show ?thesis
      using "2.IH" [where q = path] "2.IH" [of path "MailboxNode first None None []"]
      by (cases "rest = []") (auto simp: name_at_Cons find_insert_path Let_def split: option.splits)
  qed simp
qed simp

lemma use_at_insert_path:
  "p \<noteq> [] \<Longrightarrow> use_at q (insert_path p fn u ns nodes) =
     (if q = p then u else use_at q nodes)"
proof (induction p fn u ns nodes arbitrary: q rule: insert_path.induct)
  case (2 first rest fn u ns nodes)
  show ?case
  proof (cases q)
    case (Cons l path)
    then show ?thesis
      using "2.IH" [where q = path] "2.IH" [of path "MailboxNode first None None []"]
      by (cases "rest = []") (auto simp: use_at_Cons find_insert_path Let_def split: option.splits)
  qed simp
qed simp

section \<open>Distinct labels and sorting\<close>

text \<open>No level of the tree has two nodes with the same label.\<close>

fun labels_distinct :: "mailbox_node list \<Rightarrow> bool" where
  "labels_distinct [] = True"
| "labels_distinct (MailboxNode l f u ch # nodes) =
     (l \<notin> node_label ` set nodes \<and> labels_distinct ch \<and> labels_distinct nodes)"

lemma labels_distinct_iff:
  "labels_distinct nodes \<longleftrightarrow>
     distinct (map node_label nodes) \<and> (\<forall>n\<in>set nodes. labels_distinct (node_children n))"
proof (induction nodes)
  case (Cons n nodes)
  then show ?case by (cases n) auto
qed simp

lemma labels_distinctI:
  "distinct (map node_label nodes) \<Longrightarrow> (\<And>n. n \<in> set nodes \<Longrightarrow> labels_distinct (node_children n)) \<Longrightarrow>
   labels_distinct nodes"
  using labels_distinct_iff [of nodes] by blast

lemma labels_distinctD:
  assumes "labels_distinct nodes"
  shows "distinct (map node_label nodes)" and "n \<in> set nodes \<Longrightarrow> labels_distinct (node_children n)"
  using assms labels_distinct_iff [of nodes] by blast+

lemma labels_ensure_node:
  assumes "labels_distinct nodes"
  shows "labels_distinct (ensure_node l nodes)"
proof (rule labels_distinctI)
  show "distinct (map node_label (ensure_node l nodes))"
    using labels_distinctD(1) [OF assms] by (auto simp: ensure_node_def list_ex_iff)
  show "labels_distinct (node_children n)" if "n \<in> set (ensure_node l nodes)" for n
    using that labels_distinctD(2) [OF assms, of n] by (auto simp: ensure_node_def split: if_splits)
qed

lemma labels_insert_path: "labels_distinct nodes \<Longrightarrow> labels_distinct (insert_path p fn u ns nodes)"
proof (induction p fn u ns nodes rule: insert_path.induct)
  case (2 first rest fn u ns nodes)
  let ?f = "\<lambda>n. if rest = [] then set_leaf fn u ns n
      else set_children (insert_path rest fn u ns (node_children n)) n"
  have e: "labels_distinct (ensure_node first nodes)" using "2.prems" by (rule labels_ensure_node)
  have m: "map node_label (update_first (\<lambda>n. node_label n = first) ?f (ensure_node first nodes)) =
      map node_label (ensure_node first nodes)"
    by (rule map_update_first) simp
  have c: "labels_distinct (node_children n)"
    if "n \<in> set (update_first (\<lambda>n. node_label n = first) ?f (ensure_node first nodes))" for n
    using set_update_first [OF that] labels_distinctD(2) [OF e] "2.IH" by auto
  show ?case
    unfolding insert_path.simps(2)
    by (rule labels_distinctI) (simp only: m labels_distinctD(1) [OF e], rule c)
qed simp

lemma find_label_iff:
  "distinct (map node_label nodes) \<Longrightarrow>
   find (\<lambda>n. node_label n = l) nodes = Some n \<longleftrightarrow> n \<in> set nodes \<and> node_label n = l"
  by (induction nodes) auto

lemma find_sort_key_label:
  assumes "distinct (map node_label nodes)"
  shows "find (\<lambda>n. node_label n = l) (sort_key k nodes) = find (\<lambda>n. node_label n = l) nodes"
proof -
  have "mset (map node_label (sort_key k nodes)) = mset (map node_label nodes)" by simp
  then have d: "distinct (map node_label (sort_key k nodes))"
    using assms by (metis mset_eq_imp_distinct_iff)
  have "find (\<lambda>n. node_label n = l) (sort_key k nodes) = Some n \<longleftrightarrow>
      find (\<lambda>n. node_label n = l) nodes = Some n" for n
    by (simp add: find_label_iff [OF d] find_label_iff [OF assms])
  then show ?thesis by (metis not_None_eq)
qed

lemma find_map_label:
  "(\<And>n. node_label (f n) = node_label n) \<Longrightarrow>
   find (\<lambda>n. node_label n = l) (map f nodes) = map_option f (find (\<lambda>n. node_label n = l) nodes)"
  by (induction nodes) auto

lemma find_sort_tree:
  assumes "labels_distinct nodes"
  shows "find (\<lambda>n. node_label n = l) (sort_tree nodes) =
    map_option (\<lambda>n. set_children (sort_tree (node_children n)) n) (find (\<lambda>n. node_label n = l) nodes)"
  by (subst sort_tree.simps, subst find_map_label)
     (simp_all add: find_sort_key_label labels_distinctD(1) [OF assms])

lemma at_sort_tree:
  assumes "labels_distinct nodes"
  shows "name_at p (sort_tree nodes) = name_at p nodes \<and> use_at p (sort_tree nodes) = use_at p nodes"
  using assms
proof (induction p arbitrary: nodes)
  case (Cons l path)
  show ?case
  proof (cases "find (\<lambda>n. node_label n = l) nodes")
    case None
    then show ?thesis by (simp add: name_at_Cons use_at_Cons find_sort_tree [OF Cons.prems])
  next
    case (Some n)
    then have "labels_distinct (node_children n)"
      using labels_distinctD(2) [OF Cons.prems] find_SomeD [OF Some] by blast
    with Some Cons.IH show ?thesis
      by (simp add: name_at_Cons use_at_Cons find_sort_tree [OF Cons.prems])
  qed
qed simp

lemma labels_insert_mailbox:
  "labels_distinct nodes \<Longrightarrow> labels_distinct (foldl insert_mailbox nodes mbs)"
  by (induction mbs arbitrary: nodes) (simp_all add: insert_mailbox_def labels_insert_path)

text \<open>C17. The folder tree holds exactly the selectable mailboxes of the listing: the name to
  send back to the server at a path is that of the last mailbox listed there that can be
  selected, and the role at a path is that of the last mailbox listed there.\<close>

theorem mailbox_tree_lookup:
  assumes "p \<noteq> []"
  shows "name_at p (mailbox_tree mbs) =
      last_opt (map mi_name (filter (\<lambda>m. mailbox_segments m = p \<and> \<not> mi_noselect m) mbs)) \<and>
    use_at p (mailbox_tree mbs) =
      Option.bind (last_opt (filter (\<lambda>m. mailbox_segments m = p) mbs)) mi_special_use"
proof -
  have n: "name_at p (foldl insert_mailbox [] mbs) =
      last_opt (map mi_name (filter (\<lambda>m. mailbox_segments m = p \<and> \<not> mi_noselect m) mbs))"
  proof (induction mbs rule: rev_induct)
    case (snoc m mbs)
    with assms show ?case
      by (cases "mailbox_segments m") (auto simp: insert_mailbox_def name_at_insert_path)
  qed simp
  have u: "use_at p (foldl insert_mailbox [] mbs) =
      Option.bind (last_opt (filter (\<lambda>m. mailbox_segments m = p) mbs)) mi_special_use"
  proof (induction mbs rule: rev_induct)
    case (snoc m mbs)
    with assms show ?case
      by (cases "mailbox_segments m") (auto simp: insert_mailbox_def use_at_insert_path)
  qed simp
  have "labels_distinct (foldl insert_mailbox [] mbs)" by (simp add: labels_insert_mailbox)
  from at_sort_tree [OF this] n u show ?thesis by (simp add: mailbox_tree_def)
qed

theorem mailbox_tree_lookup_witness:
  "name_at [lit ''Work'', lit ''A''] (mailbox_tree
     [\<lparr>mi_name = lit ''Work.A'', mi_delimiter = Some (lit ''.''), mi_special_use = None, mi_noselect = False\<rparr>])
   = Some (lit ''Work.A'')"
  using mailbox_tree_lookup [of "[lit ''Work'', lit ''A'']"
     "[\<lparr>mi_name = lit ''Work.A'', mi_delimiter = Some (lit ''.''), mi_special_use = None, mi_noselect = False\<rparr>]"]
  by (simp add: mailbox_segments_def lit_def split_str.simps last_opt_def)

section \<open>Sorting and flattening\<close>

lemma sorted_sort_tree: "sorted (map node_sort_key (sort_tree nodes))"
proof -
  have "map node_sort_key (sort_tree nodes) = map node_sort_key (sort_key node_sort_key nodes)"
    by (subst sort_tree.simps) (simp add: node_sort_key_def comp_def)
  then show ?thesis by simp
qed

fun all_nodes :: "mailbox_node list \<Rightarrow> mailbox_node list" where
  "all_nodes [] = []"
| "all_nodes (MailboxNode l f u ch # nodes) = MailboxNode l f u ch # all_nodes ch @ all_nodes nodes"

lemma flatten_names: "map mr_full_name (flatten_into nodes d k) = map node_full_name (all_nodes nodes)"
  by (induction nodes d k rule: flatten_into.induct) auto

lemma flatten_depth: "row \<in> set (flatten_into nodes d k) \<Longrightarrow> d \<le> mr_depth row"
  by (induction nodes d k rule: flatten_into.induct) auto

lemma position_all_false: "\<forall>x\<in>set xs. \<not> P x \<Longrightarrow> position P (xs @ ys) = map_option ((+) (length xs)) (position P ys)"
  by (induction xs) (cases "position P ys"; auto)+

text \<open>The descendants of a node's row are the rows its children flatten to.\<close>

lemma descendants_flatten:
  fixes ch d k pre row rest
  defines "rows \<equiv> pre @ row # flatten_into ch (Suc d) k @ rest"
  assumes "mr_depth row = d" and "rest = [] \<or> mr_depth (hd rest) \<le> d"
  shows "descendants rows (length pre) = Some (flatten_into ch (Suc d) k)"
proof -
  have "\<forall>r\<in>set (flatten_into ch (Suc d) k). \<not> mr_depth r \<le> d"
    using flatten_depth by fastforce
  then have "position (\<lambda>r. mr_depth r \<le> d) (flatten_into ch (Suc d) k @ rest) =
      map_option ((+) (length (flatten_into ch (Suc d) k))) (position (\<lambda>r. mr_depth r \<le> d) rest)"
    by (rule position_all_false)
  then show ?thesis
    using assms(2,3) unfolding rows_def
    by (cases rest) (auto simp: descendants_def Let_def)
qed

section \<open>Folding\<close>

text \<open>Row \<open>a\<close> is collapsed and row \<open>j\<close> lies below it.\<close>

definition covers :: "str set \<Rightarrow> mailbox_row list \<Rightarrow> nat \<Rightarrow> nat \<Rightarrow> bool" where
  "covers collapsed rows a j \<longleftrightarrow>
     a < j \<and> collapsed_row collapsed (rows ! a) \<and>
     (\<forall>k. a < k \<and> k \<le> j \<longrightarrow> mr_depth (rows ! a) < mr_depth (rows ! k))"

text \<open>Row \<open>a\<close> is collapsed and every row after it, up to but not including \<open>i\<close>, lies below it.\<close>

definition open_cover :: "str set \<Rightarrow> mailbox_row list \<Rightarrow> nat \<Rightarrow> nat \<Rightarrow> bool" where
  "open_cover collapsed rows a i \<longleftrightarrow>
     a < i \<and> collapsed_row collapsed (rows ! a) \<and>
     (\<forall>k. a < k \<and> k < i \<longrightarrow> mr_depth (rows ! a) < mr_depth (rows ! k))"

definition hidden_inv :: "str set \<Rightarrow> mailbox_row list \<Rightarrow> nat \<Rightarrow> nat option \<Rightarrow> bool" where
  "hidden_inv collapsed rows i h \<longleftrightarrow>
     (case h of
        None \<Rightarrow> \<forall>a. \<not> open_cover collapsed rows a i
      | Some d \<Rightarrow> (\<exists>a. open_cover collapsed rows a i \<and> mr_depth (rows ! a) = d) \<and>
          (\<forall>a. open_cover collapsed rows a i \<longrightarrow> d \<le> mr_depth (rows ! a)))"

lemma covers_open:
  "covers col rows a i \<longleftrightarrow> open_cover col rows a i \<and> mr_depth (rows ! a) < mr_depth (rows ! i)"
  by (auto simp: covers_def open_cover_def le_less)

lemma open_cover_Suc:
  "open_cover col rows a (Suc i) \<longleftrightarrow> covers col rows a i \<or> (a = i \<and> collapsed_row col (rows ! i))"
  by (auto simp: covers_def open_cover_def less_Suc_eq_le)

lemma hidden_inv_hidden:
  assumes "hidden_inv col rows i h"
  shows "(\<exists>a. covers col rows a i) \<longleftrightarrow>
    (case h of Some d \<Rightarrow> d < mr_depth (rows ! i) | None \<Rightarrow> False)"
  using assms by (auto simp: hidden_inv_def covers_open split: option.splits)

lemma hidden_inv_step:
  assumes "hidden_inv col rows i h"
  shows "hidden_inv col rows (Suc i)
    (if case h of Some d \<Rightarrow> mr_depth (rows ! i) > d | None \<Rightarrow> False then h
     else if collapsed_row col (rows ! i) then Some (mr_depth (rows ! i)) else None)"
proof (cases "case h of Some d \<Rightarrow> mr_depth (rows ! i) > d | None \<Rightarrow> False")
  case True
  then obtain d where h: "h = Some d" and d: "d < mr_depth (rows ! i)"
    by (auto split: option.splits)
  with assms obtain a where "open_cover col rows a i" "mr_depth (rows ! a) = d"
    and least: "\<And>a. open_cover col rows a i \<Longrightarrow> d \<le> mr_depth (rows ! a)"
    by (auto simp: hidden_inv_def)
  with d have "open_cover col rows a (Suc i)" by (simp add: open_cover_Suc covers_open)
  with True h d least \<open>mr_depth (rows ! a) = d\<close> show ?thesis
    by (auto simp: hidden_inv_def open_cover_Suc covers_open intro!: less_imp_le)
next
  case False
  then have "\<nexists>a. covers col rows a i" using hidden_inv_hidden [OF assms] by simp
  with False show ?thesis
    by (auto simp: hidden_inv_def open_cover_Suc)
qed

lemma visible_loop_spec:
  "hidden_inv col (pre @ rows) (length pre) h \<Longrightarrow>
   j \<in> set (visible_loop rows (length pre) h col) \<longleftrightarrow>
     length pre \<le> j \<and> j < length (pre @ rows) \<and> \<not> (\<exists>a. covers col (pre @ rows) a j)"
proof (induction rows arbitrary: pre h)
  case (Cons row rows)
  let ?all = "pre @ row # rows"
  have nth: "?all ! length pre = row" by simp
  let ?hid = "case h of Some d \<Rightarrow> mr_depth row > d | None \<Rightarrow> False"
  let ?h' = "if ?hid then h else if collapsed_row col row then Some (mr_depth row) else None"
  have "hidden_inv col ((pre @ [row]) @ rows) (length (pre @ [row])) ?h'"
    using hidden_inv_step [OF Cons.prems, unfolded nth] by simp
  from Cons.IH [OF this] have ih: "j \<in> set (visible_loop rows (Suc (length pre)) ?h' col) \<longleftrightarrow>
     Suc (length pre) \<le> j \<and> j < length ?all \<and> \<not> (\<exists>a. covers col ?all a j)"
    by simp
  have hid: "(\<exists>a. covers col ?all a (length pre)) \<longleftrightarrow> ?hid"
    using hidden_inv_hidden [OF Cons.prems, unfolded nth] by simp
  show ?case
    using ih hid by (cases ?hid) (auto simp: Suc_le_eq le_less)
qed simp

text \<open>A row is drawn exactly when none of its ancestors is collapsed: no collapsed row
  before it has only deeper rows between itself and this one.\<close>

theorem visible_rows_iff:
  "j \<in> set (visible_rows rows collapsed) \<longleftrightarrow>
     j < length rows \<and> \<not> (\<exists>a. covers collapsed rows a j)"
proof -
  have "hidden_inv collapsed ([] @ rows) (length []) None"
    by (simp add: hidden_inv_def open_cover_def)
  from visible_loop_spec [OF this] show ?thesis by (simp add: visible_rows_def)
qed

lemma visible_loop_sorted:
  "sorted_wrt (<) (visible_loop rows i h col) \<and> (\<forall>j\<in>set (visible_loop rows i h col). i \<le> j)"
proof (induction rows arbitrary: i h)
  case (Cons row rows)
  have "sorted_wrt (<) (visible_loop rows (Suc i) h' col)"
    and "j \<in> set (visible_loop rows (Suc i) h' col) \<Longrightarrow> i < j" for h' j
    using Cons.IH [of "Suc i" h'] by (auto simp: Suc_le_eq)
  then show ?case by (auto intro: less_imp_le)
qed simp

text \<open>The rows to draw come out in order and without repetition, and with nothing
  collapsed all of them do.\<close>

theorem visible_rows_order:
  "sorted_wrt (<) (visible_rows rows collapsed) \<and> visible_rows rows {} = [0..<length rows]"
proof
  show "sorted_wrt (<) (visible_rows rows collapsed)"
    using visible_loop_sorted [of rows 0 None collapsed] by (simp add: visible_rows_def)
  have "visible_loop rows i None {} = [i..<i + length rows]" for i
    by (induction rows arbitrary: i) (simp_all add: collapsed_row_def upt_conv_Cons del: upt_Suc)
  then show "visible_rows rows {} = [0..<length rows]" by (simp add: visible_rows_def)
qed

definition slash_mailboxes :: "mailbox_info list" where
  "slash_mailboxes = map (\<lambda>n. \<lparr>mi_name = n, mi_delimiter = Some (lit ''.''), mi_special_use = None,
     mi_noselect = False\<rparr>) [lit ''a/b'', lit ''a/b.c'', lit ''a'', lit ''a.b'', lit ''a.b.c'']"

text \<open>Two different folders can have the same row key, which the set of folded folders is
  kept by: with the delimiter \<open>.\<close>, the folder \<open>a/b\<close> and the folder \<open>b\<close> inside \<open>a\<close>.\<close>

theorem row_keys_collide:
  "map (\<lambda>r. (mr_full_name r, mr_key r)) (filter mr_has_children (flatten_tree (mailbox_tree slash_mailboxes))) =
     [(Some (lit ''a''), lit ''a''), (Some (lit ''a.b''), lit ''a/b''), (Some (lit ''a/b''), lit ''a/b'')]"
  by (simp add: slash_mailboxes_def mailbox_tree_def insert_mailbox_def mailbox_segments_def lit_def
     split_str.simps insert_path.simps ensure_node_def set_leaf_def set_children_def sort_tree_eval
     node_sort_key_def use_rank_def flatten_tree_def child_key_def to_ascii_lowercase_def lower_char_def)

end
