(* ===== verification/MailStore.thy ===== *)
theory MailStore
  imports MailHeaders "HOL-Library.AList"
begin

text \<open>
  The mailbox state of the in-process test server, \<open>crates/mail-mock-server/src/store.rs\<close>:
  mailboxes with their UIDs and flags, deliveries, copies, flag changes, expunging and the
  two kinds of sign-in.  The hash maps are association lists (the code never depends on
  their order), the broadcast channel is the list of names sent on it, and the MIME parser
  is an argument.  The lemmas show that UIDs stay distinct, ascending and below \<open>UIDNEXT\<close>,
  what each operation does to the messages, and what a sign-in requires.
\<close>

section \<open>Data\<close>

record envelope =
  env_date :: str
  env_subject :: str
  env_from :: "(str \<times> str \<times> str) option"
  env_to :: "(str \<times> str \<times> str) option"
  env_message_id :: str

definition envelope_default :: envelope where
  "envelope_default =
     \<lparr>env_date = [], env_subject = [], env_from = None, env_to = None, env_message_id = []\<rparr>"

record stored_message =
  sm_uid :: u32
  sm_raw :: "byte list"
  sm_envelope :: envelope
  sm_flags :: "str list"

record mailbox =
  mb_name :: str
  mb_messages :: "stored_message list"
  mb_uid_validity :: u32
  mb_uid_next :: u32

record store =
  st_users :: "(str \<times> str) list"
  st_oauth_tokens :: "(str \<times> str) list"
  st_mailboxes :: "(str \<times> mailbox) list"
  st_notify :: "str list"
  st_drop_next :: bool

section \<open>Mailbox operations\<close>

definition mailbox_new :: "str \<Rightarrow> u32 \<Rightarrow> mailbox" where
  "mailbox_new name uid_validity =
     \<lparr>mb_name = name, mb_messages = [], mb_uid_validity = uid_validity, mb_uid_next = 1\<rparr>"

definition mb_append :: "byte list \<Rightarrow> envelope \<Rightarrow> mailbox \<Rightarrow> u32 \<times> mailbox" where
  "mb_append raw envelope mb =
     (let uid = mb_uid_next mb in
      (uid, mb\<lparr>mb_uid_next := mb_uid_next mb + 1,
               mb_messages := mb_messages mb @
                 [\<lparr>sm_uid = uid, sm_raw = raw, sm_envelope = envelope, sm_flags = []\<rparr>]\<rparr>))"

definition unseen_count :: "mailbox \<Rightarrow> u32" where
  "unseen_count mb =
     of_nat (length (filter (\<lambda>m. \<not> list_ex (\<lambda>f. f = blit ''Seen'') (sm_flags m)) (mb_messages mb)))"

definition apply_flags :: "str list \<Rightarrow> str list \<Rightarrow> str list \<Rightarrow> str list" where
  "apply_flags add remove flags =
     (let kept = filter (\<lambda>f. \<not> list_ex (\<lambda>r. eq_ignore_ascii_case r f) remove) flags
      in foldl (\<lambda>fs flag. if \<not> list_ex (\<lambda>f. eq_ignore_ascii_case f flag) fs then fs @ [flag] else fs)
           kept add)"

definition mb_store_flags :: "u32 \<Rightarrow> str list \<Rightarrow> str list \<Rightarrow> mailbox \<Rightarrow> str list option \<times> mailbox" where
  "mb_store_flags uid add remove mb =
     (case find (\<lambda>m. sm_uid m = uid) (mb_messages mb) of
        None \<Rightarrow> (None, mb)
      | Some msg \<Rightarrow>
          (Some (apply_flags add remove (sm_flags msg)),
           mb\<lparr>mb_messages := update_first (\<lambda>m. sm_uid m = uid)
                (\<lambda>m. m\<lparr>sm_flags := apply_flags add remove (sm_flags m)\<rparr>) (mb_messages mb)\<rparr>))"

definition is_deleted :: "stored_message \<Rightarrow> bool" where
  "is_deleted m \<longleftrightarrow> list_ex (\<lambda>f. f = blit ''Deleted'') (sm_flags m)"

definition mb_expunge :: "mailbox \<Rightarrow> u32 list \<times> mailbox" where
  "mb_expunge mb =
     (map sm_uid (filter is_deleted (mb_messages mb)),
      mb\<lparr>mb_messages := filter (\<lambda>m. \<not> is_deleted m) (mb_messages mb)\<rparr>)"

section \<open>Store operations\<close>

definition store_new :: store where
  "store_new = \<lparr>st_users = [], st_oauth_tokens = [], st_mailboxes = [], st_notify = [],
     st_drop_next = False\<rparr>"

definition store_mailbox :: "str \<Rightarrow> store \<Rightarrow> mailbox option" where
  "store_mailbox name s = map_of (st_mailboxes s) name"

definition put_mailbox :: "str \<Rightarrow> mailbox \<Rightarrow> store \<Rightarrow> store" where
  "put_mailbox name mb s = s\<lparr>st_mailboxes := AList.update name mb (st_mailboxes s)\<rparr>"

text \<open>\<open>entry(name).or_insert_with(|| Mailbox::new(name, 1))\<close>\<close>

definition mailbox_entry :: "str \<Rightarrow> store \<Rightarrow> mailbox" where
  "mailbox_entry name s = (case store_mailbox name s of Some mb \<Rightarrow> mb | None \<Rightarrow> mailbox_new name 1)"

definition add_user :: "str \<Rightarrow> str \<Rightarrow> store \<Rightarrow> store" where
  "add_user username password s =
     foldl (\<lambda>s name. put_mailbox name (mailbox_entry name s) s)
       (s\<lparr>st_users := AList.update username password (st_users s)\<rparr>)
       [lit ''INBOX'', lit ''Sent'', lit ''Drafts'', lit ''Trash'']"

definition check_login :: "str \<Rightarrow> str \<Rightarrow> store \<Rightarrow> bool" where
  "check_login username password s = (map_of (st_users s) username = Some password)"

definition add_oauth_token :: "str \<Rightarrow> str \<Rightarrow> store \<Rightarrow> store" where
  "add_oauth_token username token s =
     s\<lparr>st_oauth_tokens := AList.update username token (st_oauth_tokens s)\<rparr>"

definition xoauth2_field :: "str option \<times> str option \<Rightarrow> str \<Rightarrow> str option \<times> str option" where
  "xoauth2_field acc field =
     (case strip_prefix (lit ''user='') field of
        Some v \<Rightarrow> (Some v, snd acc)
      | None \<Rightarrow> (case strip_prefix (lit ''auth=Bearer '') field of
          Some v \<Rightarrow> (fst acc, Some v)
        | None \<Rightarrow> acc))"

definition check_xoauth2 :: "byte list \<Rightarrow> store \<Rightarrow> str option" where
  "check_xoauth2 payload s =
     (case from_utf8 payload of
        None \<Rightarrow> None
      | Some text \<Rightarrow>
          (case foldl xoauth2_field (None, None) (split_on (\<lambda>c. c = 1) text) of
             (Some user, Some token) \<Rightarrow>
               if map_of (st_oauth_tokens s) user = Some token then Some user else None
           | _ \<Rightarrow> None))"

definition mailbox_names :: "store \<Rightarrow> str list" where
  "mailbox_names s = sort (map fst (st_mailboxes s))"

section \<open>Envelopes\<close>

text \<open>What \<open>mailparse\<close> returns: the headers as name and value, and the addresses of a field.\<close>

datatype mail_addr = SingleAddr "str option" str | GroupAddr

definition env_header :: "(str \<times> str) list \<Rightarrow> str \<Rightarrow> str" where
  "env_header headers name =
     (case find (\<lambda>h. eq_ignore_ascii_case (fst h) name) headers of Some h \<Rightarrow> snd h | None \<Rightarrow> [])"

definition env_address ::
  "(str \<Rightarrow> mail_addr list option) \<Rightarrow> (str \<times> str) list \<Rightarrow> str \<Rightarrow> (str \<times> str \<times> str) option" where
  "env_address addrparse headers name =
     (let raw = env_header headers name in
      if raw = [] then None
      else case addrparse raw of
        Some (SingleAddr display addr # _) \<Rightarrow>
          (let (m, h) = (case split_once 64 addr of Some p \<Rightarrow> p | None \<Rightarrow> (addr, []))
           in Some ((case display of Some d \<Rightarrow> d | None \<Rightarrow> []), m, h))
      | _ \<Rightarrow> None)"

definition parse_envelope ::
  "(byte list \<Rightarrow> (str \<times> str) list option) \<Rightarrow> (str \<Rightarrow> mail_addr list option) \<Rightarrow> byte list \<Rightarrow> envelope" where
  "parse_envelope parse_mail addrparse raw =
     (case parse_mail raw of
        None \<Rightarrow> envelope_default
      | Some headers \<Rightarrow>
          \<lparr>env_date = env_header headers (lit ''Date''),
           env_subject = env_header headers (lit ''Subject''),
           env_from = env_address addrparse headers (lit ''From''),
           env_to = env_address addrparse headers (lit ''To''),
           env_message_id = env_header headers (lit ''Message-ID'')\<rparr>)"

text \<open>\<open>penv\<close> is \<open>parse_envelope\<close> with its parsers given.\<close>

definition deliver :: "(byte list \<Rightarrow> envelope) \<Rightarrow> str \<Rightarrow> byte list \<Rightarrow> store \<Rightarrow> u32 \<times> store" where
  "deliver penv recipient raw s =
     (let envelope = penv raw;
          (uid, mb) = mb_append raw envelope (mailbox_entry recipient s);
          s' = put_mailbox recipient mb s
      in (uid, s'\<lparr>st_notify := st_notify s' @ [recipient]\<rparr>))"

definition copy_message :: "str \<Rightarrow> u32 \<Rightarrow> str \<Rightarrow> store \<Rightarrow> u32 option \<times> store" where
  "copy_message src uid dest s =
     (case store_mailbox src s of
        None \<Rightarrow> (None, s)
      | Some mb \<Rightarrow>
          (case find (\<lambda>m. sm_uid m = uid) (mb_messages mb) of
             None \<Rightarrow> (None, s)
           | Some msg \<Rightarrow>
               (let d = mailbox_entry dest s;
                    new_uid = mb_uid_next d;
                    d' = d\<lparr>mb_uid_next := mb_uid_next d + 1,
                           mb_messages := mb_messages d @ [msg\<lparr>sm_uid := new_uid\<rparr>]\<rparr>;
                    s' = put_mailbox dest d' s
                in (Some new_uid, s'\<lparr>st_notify := st_notify s' @ [dest]\<rparr>))))"

section \<open>Lookup after update\<close>

lemma store_mailbox_put [simp]:
  "store_mailbox n (put_mailbox n' mb s) = (if n = n' then Some mb else store_mailbox n s)"
  by (simp add: store_mailbox_def put_mailbox_def update_conv')

lemma store_mailbox_notify [simp]:
  "store_mailbox n (s\<lparr>st_notify := x\<rparr>) = store_mailbox n s"
  "store_mailbox n (s\<lparr>st_drop_next := b\<rparr>) = store_mailbox n s"
  "store_mailbox n (s\<lparr>st_users := us\<rparr>) = store_mailbox n s"
  "store_mailbox n (s\<lparr>st_oauth_tokens := ts\<rparr>) = store_mailbox n s"
  by (simp_all add: store_mailbox_def)

section \<open>UIDs\<close>

text \<open>A mailbox is well formed with room for \<open>k\<close> more messages: its UIDs are strictly
  ascending, so distinct, all below \<open>UIDNEXT\<close>, and \<open>k\<close> increments of \<open>UIDNEXT\<close> do not wrap.\<close>

definition mailbox_ok :: "nat \<Rightarrow> mailbox \<Rightarrow> bool" where
  "mailbox_ok k mb \<longleftrightarrow>
     sorted_wrt (<) (map sm_uid (mb_messages mb)) \<and>
     (\<forall>m\<in>set (mb_messages mb). sm_uid m < mb_uid_next mb) \<and>
     unat (mb_uid_next mb) + k < 2 ^ 32"

definition store_ok :: "nat \<Rightarrow> store \<Rightarrow> bool" where
  "store_ok k s \<longleftrightarrow> k + 1 < 2 ^ 32 \<and> (\<forall>n mb. store_mailbox n s = Some mb \<longrightarrow> mailbox_ok k mb)"

lemma mailbox_ok_mono: "mailbox_ok k mb \<Longrightarrow> j \<le> k \<Longrightarrow> mailbox_ok j mb"
  by (auto simp: mailbox_ok_def)

lemma store_ok_mono: "store_ok k s \<Longrightarrow> j \<le> k \<Longrightarrow> store_ok j s"
  by (auto simp: store_ok_def intro: mailbox_ok_mono)

lemma mailbox_ok_new: "k + 1 < 2 ^ 32 \<Longrightarrow> mailbox_ok k (mailbox_new n v)"
  by (simp add: mailbox_ok_def mailbox_new_def)

lemma mailbox_ok_entry: "store_ok k s \<Longrightarrow> mailbox_ok k (mailbox_entry n s)"
  by (auto simp: mailbox_entry_def store_ok_def mailbox_ok_new split: option.splits)

lemma store_ok_put: "store_ok k s \<Longrightarrow> mailbox_ok k mb \<Longrightarrow> store_ok k (put_mailbox n mb s)"
  by (auto simp: store_ok_def)

lemma uid_next_less:
  fixes u :: u32
  assumes "unat u + Suc k < 2 ^ 32"
  shows "u < u + 1" and "unat (u + 1) = Suc (unat u)"
proof -
  have "unat (u + 1) = (unat u + 1) mod 2 ^ 32" by (simp add: unat_word_ariths)
  with assms show "unat (u + 1) = Suc (unat u)" by simp
  then show "u < u + 1" by (simp add: word_less_nat_alt)
qed

lemma mailbox_ok_push:
  assumes "mailbox_ok (Suc k) mb" and "sm_uid m = mb_uid_next mb"
  shows "mailbox_ok k (mb\<lparr>mb_uid_next := mb_uid_next mb + 1, mb_messages := mb_messages mb @ [m]\<rparr>)"
  using assms uid_next_less [of "mb_uid_next mb" k]
  by (auto simp: mailbox_ok_def sorted_wrt_append dest: less_trans)

lemma mailbox_ok_same_uids:
  assumes "mailbox_ok k mb" and "map sm_uid ms = map sm_uid (mb_messages mb)"
  shows "mailbox_ok k (mb\<lparr>mb_messages := ms\<rparr>)"
proof -
  from assms(2) have eq: "sm_uid ` set ms = sm_uid ` set (mb_messages mb)" by (metis list.set_map)
  from assms(1) have "\<forall>u\<in>sm_uid ` set (mb_messages mb). u < mb_uid_next mb"
    by (simp add: mailbox_ok_def)
  then have "\<forall>m\<in>set ms. sm_uid m < mb_uid_next mb" unfolding eq [symmetric] by simp
  with assms show ?thesis by (simp add: mailbox_ok_def)
qed

lemma mailbox_ok_filter: "mailbox_ok k mb \<Longrightarrow> mailbox_ok k (mb\<lparr>mb_messages := filter P (mb_messages mb)\<rparr>)"
  by (auto simp: mailbox_ok_def sorted_wrt_map intro: sorted_wrt_filter)

lemma mailbox_ok_append: "mailbox_ok (Suc k) mb \<Longrightarrow> mailbox_ok k (snd (mb_append raw e mb))"
  using mailbox_ok_push [of k mb "\<lparr>sm_uid = mb_uid_next mb, sm_raw = raw, sm_envelope = e, sm_flags = []\<rparr>"]
  by (simp add: mb_append_def Let_def)

lemma mailbox_ok_store_flags: "mailbox_ok k mb \<Longrightarrow> mailbox_ok k (snd (mb_store_flags uid a r mb))"
  by (auto simp: mb_store_flags_def map_update_first intro!: mailbox_ok_same_uids split: option.splits)

lemma mailbox_ok_expunge: "mailbox_ok k mb \<Longrightarrow> mailbox_ok k (snd (mb_expunge mb))"
  by (simp add: mb_expunge_def mailbox_ok_filter)

lemma store_ok_notify [simp]:
  "store_ok k (s\<lparr>st_notify := x\<rparr>) = store_ok k s"
  "store_ok k (s\<lparr>st_drop_next := b\<rparr>) = store_ok k s"
  "store_ok k (s\<lparr>st_users := us\<rparr>) = store_ok k s"
  "store_ok k (s\<lparr>st_oauth_tokens := ts\<rparr>) = store_ok k s"
  by (simp_all add: store_ok_def)

text \<open>Every operation of the store keeps it well formed; a delivery and a copy use up room for
  one message.\<close>

lemma store_ok_deliver:
  assumes "store_ok (Suc k) s"
  shows "store_ok k (snd (deliver penv n raw s))"
proof -
  have "mailbox_ok k (snd (mb_append raw (penv raw) (mailbox_entry n s)))"
    by (intro mailbox_ok_append mailbox_ok_entry assms)
  with store_ok_mono [OF assms] show ?thesis
    by (auto simp: deliver_def Let_def store_ok_put split: prod.splits)
qed

lemma store_ok_copy:
  assumes "store_ok (Suc k) s"
  shows "store_ok k (snd (copy_message src uid dest s))"
  using store_ok_mono [OF assms, of k] mailbox_ok_push [OF mailbox_ok_entry [OF assms, of dest]]
  by (auto simp: copy_message_def Let_def store_ok_put split: option.splits)

lemma store_ok_update:
  assumes "store_ok k s" and "store_mailbox n s = Some mb" and "mailbox_ok k mb \<Longrightarrow> mailbox_ok k mb'"
  shows "store_ok k (put_mailbox n mb' s)"
  using assms by (auto simp: store_ok_def)

lemma store_ok_add_user: "store_ok k s \<Longrightarrow> store_ok k (add_user u p s)"
  by (auto simp: add_user_def intro!: store_ok_put mailbox_ok_entry)

lemma store_ok_new: "k + 1 < 2 ^ 32 \<Longrightarrow> store_ok k store_new"
  by (simp add: store_ok_def store_new_def store_mailbox_def)

section \<open>What the operations do\<close>

lemma has_flag_append [simp]: "has_flag f (xs @ ys) \<longleftrightarrow> has_flag f xs \<or> has_flag f ys"
  by (simp add: has_flag_def)

lemma has_flag_Nil [simp]: "\<not> has_flag f []" "has_flag f (x # xs) \<longleftrightarrow> eq_ignore_ascii_case x f \<or> has_flag f xs"
  by (simp_all add: has_flag_def)

lemma has_flag_cong: "eq_ignore_ascii_case f g \<Longrightarrow> has_flag f fs = has_flag g fs"
  by (induction fs) (auto simp: eq_ignore_ascii_case_def)

lemma has_flag_add_all:
  "has_flag f (foldl (\<lambda>fs flag. if \<not> list_ex (\<lambda>f. eq_ignore_ascii_case f flag) fs then fs @ [flag] else fs) fs add)
     \<longleftrightarrow> has_flag f fs \<or> has_flag f add"
proof (induction add arbitrary: fs)
  case (Cons a add)
  have "eq_ignore_ascii_case a f \<Longrightarrow> has_flag a fs \<Longrightarrow> has_flag f fs"
    using has_flag_cong by blast
  then show ?case by (auto simp: Cons.IH has_flag_def [of a fs, symmetric])
qed simp

lemma has_flag_filter_out:
  "has_flag f (filter (\<lambda>g. \<not> list_ex (\<lambda>r. eq_ignore_ascii_case r g) remove) fs) \<longleftrightarrow>
     has_flag f fs \<and> \<not> has_flag f remove"
proof (induction fs)
  case (Cons g fs)
  have "list_ex (\<lambda>r. eq_ignore_ascii_case r g) remove \<longleftrightarrow> has_flag g remove"
    by (simp add: has_flag_def)
  moreover have "eq_ignore_ascii_case g f \<Longrightarrow> has_flag g remove = has_flag f remove"
    by (rule has_flag_cong)
  ultimately show ?case using Cons.IH by auto
qed simp

text \<open>A flag is on a message after a \<open>STORE\<close> exactly when it was added, or was there and was
  not removed: adding wins over removing, which is what makes the replacing form of \<open>STORE\<close>
  (remove every system flag, add the new set) end up with the new set.\<close>

theorem apply_flags_iff:
  "has_flag f (apply_flags add remove flags) \<longleftrightarrow>
     has_flag f add \<or> (has_flag f flags \<and> \<not> has_flag f remove)"
  by (auto simp: apply_flags_def Let_def has_flag_add_all has_flag_filter_out)

lemma find_uid_push:
  assumes "mailbox_ok (Suc k) mb" and "sm_uid m = mb_uid_next mb"
  shows "find (\<lambda>x. sm_uid x = mb_uid_next mb) (mb_messages mb @ [m]) = Some m"
proof -
  have "find (\<lambda>x. sm_uid x = mb_uid_next mb) (mb_messages mb) = None"
    using assms(1) by (auto simp: mailbox_ok_def find_None_iff)
  then show ?thesis by (simp add: find_append assms(2))
qed

text \<open>A delivered message can be fetched by the UID the delivery reported, with the bytes that
  were delivered and no flags; no earlier message had that UID, and no other mailbox
  changed.\<close>

theorem deliver_then_fetch:
  assumes "store_ok (Suc k) s" and "deliver penv box raw s = (uid, s')"
  shows "(\<exists>mb. store_mailbox box s' = Some mb \<and>
      find (\<lambda>m. sm_uid m = uid) (mb_messages mb) =
        Some \<lparr>sm_uid = uid, sm_raw = raw, sm_envelope = penv raw, sm_flags = []\<rparr> \<and>
      mb_messages mb = mb_messages (mailbox_entry box s) @
        [\<lparr>sm_uid = uid, sm_raw = raw, sm_envelope = penv raw, sm_flags = []\<rparr>]) \<and>
    (\<forall>m\<in>set (mb_messages (mailbox_entry box s)). sm_uid m < uid) \<and>
    (\<forall>n. n \<noteq> box \<longrightarrow> store_mailbox n s' = store_mailbox n s)"
proof (intro conjI)
  let ?e = "mailbox_entry box s"
  let ?m = "\<lparr>sm_uid = mb_uid_next ?e, sm_raw = raw, sm_envelope = penv raw, sm_flags = []\<rparr>"
  from assms(2) have uid: "uid = mb_uid_next ?e" and
    s': "s' = (put_mailbox box (?e\<lparr>mb_uid_next := mb_uid_next ?e + 1, mb_messages := mb_messages ?e @ [?m]\<rparr>) s)
      \<lparr>st_notify := st_notify s @ [box]\<rparr>"
    by (auto simp: deliver_def mb_append_def Let_def put_mailbox_def)
  have ok: "mailbox_ok (Suc k) ?e" by (rule mailbox_ok_entry [OF assms(1)])
  from find_uid_push [OF ok, of ?m]
  show "\<exists>mb. store_mailbox box s' = Some mb \<and>
      find (\<lambda>m. sm_uid m = uid) (mb_messages mb) =
        Some \<lparr>sm_uid = uid, sm_raw = raw, sm_envelope = penv raw, sm_flags = []\<rparr> \<and>
      mb_messages mb = mb_messages ?e @
        [\<lparr>sm_uid = uid, sm_raw = raw, sm_envelope = penv raw, sm_flags = []\<rparr>]"
    by (simp add: s' uid)
  show "\<forall>m\<in>set (mb_messages ?e). sm_uid m < uid"
    using ok by (simp add: mailbox_ok_def uid)
  show "\<forall>n. n \<noteq> box \<longrightarrow> store_mailbox n s' = store_mailbox n s" by (simp add: s')
qed

theorem deliver_then_fetch_witness:
  "\<exists>mb. store_mailbox [1] (snd (deliver (\<lambda>_. envelope_default) [1] [65, 66] store_new)) = Some mb \<and>
     mb_messages mb = [\<lparr>sm_uid = 1, sm_raw = [65, 66], sm_envelope = envelope_default, sm_flags = []\<rparr>]"
proof -
  have ok: "store_ok (Suc 3) store_new" by (rule store_ok_new) simp
  have d: "deliver (\<lambda>_. envelope_default) [1] [65, 66] store_new =
      (1, snd (deliver (\<lambda>_. envelope_default) [1] [65, 66] store_new))"
    by (simp add: deliver_def mb_append_def Let_def mailbox_entry_def store_new_def
        store_mailbox_def mailbox_new_def)
  have e: "mb_messages (mailbox_entry [1] store_new) = []"
    by (simp add: mailbox_entry_def store_new_def store_mailbox_def mailbox_new_def)
  from deliver_then_fetch [OF ok d] e show ?thesis by auto
qed

lemma xoauth2_field_token:
  "foldl xoauth2_field acc flds = (Some u, Some t) \<Longrightarrow>
   (snd acc = Some t \<or> lit ''auth=Bearer '' @ t \<in> set flds) \<and>
   (fst acc = Some u \<or> lit ''user='' @ u \<in> set flds)"
proof (induction flds arbitrary: acc)
  case (Cons f fs)
  then have "foldl xoauth2_field (xoauth2_field acc f) fs = (Some u, Some t)" by simp
  from Cons.IH [OF this] show ?case
    by (auto simp: xoauth2_field_def split: option.splits)
qed simp

text \<open>\<open>XOAUTH2\<close> signs a user in only with a token registered for that very user, both taken
  from fields of the decoded response.\<close>

theorem check_xoauth2_sound:
  assumes "check_xoauth2 payload s = Some user"
  shows "\<exists>text token. from_utf8 payload = Some text \<and> map_of (st_oauth_tokens s) user = Some token \<and>
    lit ''user='' @ user \<in> set (split_on (\<lambda>c. c = 1) text) \<and>
    lit ''auth=Bearer '' @ token \<in> set (split_on (\<lambda>c. c = 1) text)"
proof -
  from assms obtain decoded u t where p: "from_utf8 payload = Some decoded"
    and f: "foldl xoauth2_field (None, None) (split_on (\<lambda>c. c = 1) decoded) = (Some u, Some t)"
    and tok: "map_of (st_oauth_tokens s) u = Some t" and u: "u = user"
    by (auto simp: check_xoauth2_def split: option.splits prod.splits if_splits)
  from xoauth2_field_token [OF f] p tok u show ?thesis by auto
qed

text \<open>The bytes of \<open>user=u^Aauth=Bearer t^A^A\<close>.\<close>

definition xoauth2_payload :: "str \<Rightarrow> str \<Rightarrow> byte list" where
  "xoauth2_payload user token = utf8 (lit ''user='' @ user @ [1] @ lit ''auth=Bearer '' @ token @ [1, 1])"

lemma split_on_append:
  "(\<And>c. c \<in> set a \<Longrightarrow> \<not> P c) \<Longrightarrow> P d \<Longrightarrow> split_on P (a @ d # b) = a # split_on P b"
  by (induction a) auto

lemma check_xoauth2_complete:
  assumes "list_all is_scalar (user @ token)" and "1 \<notin> set (user @ token)"
    and "map_of (st_oauth_tokens s) user = Some token"
  shows "check_xoauth2 (xoauth2_payload user token) s = Some user"
proof -
  let ?text = "(lit ''user='' @ user) @ 1 # (lit ''auth=Bearer '' @ token) @ 1 # [1]"
  have sc: "list_all is_scalar ?text"
    using assms(1) by (simp add: lit_def is_scalar_def)
  have no: "1 \<notin> set (lit ''user='' @ user)" "1 \<notin> set (lit ''auth=Bearer '' @ token)"
    using assms(2) by (simp_all add: lit_def)
  have sp: "split_on (\<lambda>c. c = 1) ?text = [lit ''user='' @ user, lit ''auth=Bearer '' @ token, [], []]"
    using no by (subst split_on_append, fastforce, simp, subst split_on_append, fastforce, simp) simp
  have "strip_prefix (lit ''user='') (lit ''auth=Bearer '' @ token) = None"
    "strip_prefix (lit ''user='') [] = None" "strip_prefix (lit ''auth=Bearer '') [] = None"
    by (simp_all add: lit_def)
  then have f: "foldl xoauth2_field (None, None) (split_on (\<lambda>c. c = 1) ?text) = (Some user, Some token)"
    unfolding sp by (simp add: xoauth2_field_def)
  have "from_utf8 (xoauth2_payload user token) = Some ?text"
    using from_utf8_utf8 [OF sc] by (simp add: xoauth2_payload_def)
  with f assms(3) show ?thesis by (simp add: check_xoauth2_def)
qed

theorem check_xoauth2_sound_witness:
  "check_xoauth2 (xoauth2_payload (lit ''me'') (lit ''tok'')) (add_oauth_token (lit ''me'') (lit ''tok'') store_new)
     = Some (lit ''me'') \<and>
   map_of (st_oauth_tokens (add_oauth_token (lit ''me'') (lit ''tok'') store_new)) (lit ''me'') = Some (lit ''tok'')"
proof -
  let ?s = "add_oauth_token (lit ''me'') (lit ''tok'') store_new"
  have c: "check_xoauth2 (xoauth2_payload (lit ''me'') (lit ''tok'')) ?s = Some (lit ''me'')"
    by (rule check_xoauth2_complete)
       (simp_all add: lit_def is_scalar_def add_oauth_token_def store_new_def)
  from check_xoauth2_sound [OF c] c show ?thesis
    by (auto simp: add_oauth_token_def store_new_def)
qed

end
