(* ===== verification/ImapServer.thy ===== *)
theory ImapServer
  imports MailStore
begin

text \<open>
  The test server's IMAP half, \<open>crates/mail-mock-server/src/imap_server.rs\<close>: the command
  tokenizer, the response builders, one definition per command and the session loop.  A
  session reads a list of inputs (a line, the bytes of a literal, or a delivery another
  connection makes meanwhile) and appends the byte strings it writes to an output list; an
  input list that has run out is a closed connection.  The base64 codec and the MIME parser are arguments.  The
  lemmas show that nothing is read or changed before signing in, that the mailboxes stay well
  formed, and what the commands answer.
\<close>

section \<open>Tokenizing a command line\<close>

fun take_quoted :: "str \<Rightarrow> str \<times> str" where
  "take_quoted [] = ([], [])"
| "take_quoted (c # cs) =
     (if c = 34 then ([], cs)
      else if c = 92 then
        (case cs of
           [] \<Rightarrow> ([], [])
         | d # ds \<Rightarrow> (let (s, rest) = take_quoted ds in (d # s, rest)))
      else (let (s, rest) = take_quoted cs in (c # s, rest)))"

lemma take_quoted_length [termination_simp]: "take_quoted cs = (s, rest) \<Longrightarrow> length rest \<le> length cs"
  by (induction cs arbitrary: s rest rule: take_quoted.induct)
     (auto split: if_splits list.splits prod.splits intro: le_SucI)

function imap_tokenize :: "str \<Rightarrow> str list" where
  "imap_tokenize line =
     (case line of
        [] \<Rightarrow> []
      | c # cs \<Rightarrow>
          if c = 32 then imap_tokenize cs
          else if c = 34 then (let (s, rest) = take_quoted cs in s # imap_tokenize rest)
          else takeWhile (\<lambda>c. c \<noteq> 32) line # imap_tokenize (dropWhile (\<lambda>c. c \<noteq> 32) line))"
  by pat_completeness auto
termination
proof (relation "measure length")
  fix line c cs s rest x
  assume "line = c # cs" "x = take_quoted cs" "(s, rest) = x"
  then show "(rest, line) \<in> measure length"
    using take_quoted_length [of cs s rest] by simp
next
  fix line :: str and c cs
  assume "line = c # cs" "c \<noteq> 32"
  then show "(dropWhile (\<lambda>c. c \<noteq> 32) line, line) \<in> measure length"
    using length_dropWhile_le [of "\<lambda>c. c \<noteq> 32" cs] by simp
qed auto

declare imap_tokenize.simps [simp del]

definition parse_range :: "str \<Rightarrow> u32 \<times> u32" where
  "parse_range spec =
     (case split_once 58 spec of
        Some (a, b) \<Rightarrow>
          (let a' = (case parse_u32 a of Some n \<Rightarrow> n | None \<Rightarrow> 1);
               b' = (case parse_u32 b of Some n \<Rightarrow> n | None \<Rightarrow> a')
           in (a', b'))
      | None \<Rightarrow> (let n = (case parse_u32 spec of Some n \<Rightarrow> n | None \<Rightarrow> 1) in (n, n)))"

section \<open>Responses\<close>

definition literal :: "byte list \<Rightarrow> byte list" where
  "literal bytes = utf8 (lit ''{'' @ dec_digits (length bytes) @ lit ''}'' @ [13, 10]) @ bytes"

definition nstring :: "str \<Rightarrow> byte list" where
  "nstring s = (if s = [] then utf8 (lit ''NIL'') else literal (utf8 s))"

definition address :: "(str \<times> str \<times> str) option \<Rightarrow> byte list" where
  "address addr =
     (case addr of
        None \<Rightarrow> utf8 (lit ''NIL'')
      | Some (name, mailbox, host) \<Rightarrow>
          utf8 (lit ''(('') @ nstring name @ [32] @ utf8 (lit ''NIL '') @ nstring mailbox @ [32] @
          nstring host @ utf8 (lit ''))''))"

definition envelope_fetch_response :: "u32 \<Rightarrow> stored_message \<Rightarrow> byte list" where
  "envelope_fetch_response seq msg =
     utf8 (lit ''* '' @ dec_u32 seq @ lit '' FETCH (UID '' @ dec_u32 (sm_uid msg) @ lit '' ENVELOPE ('') @
     nstring (env_date (sm_envelope msg)) @ [32] @
     nstring (env_subject (sm_envelope msg)) @ [32] @
     address (env_from (sm_envelope msg)) @ [32] @
     address (env_from (sm_envelope msg)) @ [32] @
     address (env_from (sm_envelope msg)) @ [32] @
     address (env_to (sm_envelope msg)) @
     utf8 (lit '' NIL NIL NIL '') @
     nstring (env_message_id (sm_envelope msg)) @
     utf8 (lit '') FLAGS ('') @
     utf8 (join [32] (sm_flags msg)) @
     utf8 (lit ''))'' @ [13, 10])"

definition flags_fetch_response :: "u32 \<Rightarrow> stored_message \<Rightarrow> byte list" where
  "flags_fetch_response seq msg =
     utf8 (lit ''* '' @ dec_u32 seq @ lit '' FETCH (FLAGS ('' @ join [32] (sm_flags msg) @ lit ''))'' @ [13, 10])"

section \<open>The session\<close>

text \<open>What happens to a connection: the client sends a line, or the bytes of a literal with their
  trailing \<open>CRLF\<close>, or another connection delivers a message to the shared store.\<close>

datatype net_input = InLine str | InBytes "byte list" | InDelivered str "byte list"

record session =
  ss_user :: "str option"
  ss_selected :: "str option"
  ss_store :: store
  ss_out :: "byte list list"
  ss_in :: "net_input list"
  ss_open :: bool

definition write_all :: "byte list \<Rightarrow> session \<Rightarrow> session" where
  "write_all bytes s = s\<lparr>ss_out := ss_out s @ [bytes]\<rparr>"

text \<open>A line of text with its \<open>CRLF\<close>.\<close>

definition write_line :: "str \<Rightarrow> session \<Rightarrow> session" where
  "write_line l s = write_all (utf8 (l @ [13, 10])) s"

definition close_conn :: "session \<Rightarrow> session" where
  "close_conn s = s\<lparr>ss_open := False\<rparr>"

definition strip_eol :: "str \<Rightarrow> str" where
  "strip_eol = trim_end (\<lambda>c. c = 13 \<or> c = 10)"

definition token :: "str list \<Rightarrow> nat \<Rightarrow> str option" where
  "token tokens i = (if i < length tokens then Some (tokens ! i) else None)"

definition is_token :: "str list \<Rightarrow> nat \<Rightarrow> string \<Rightarrow> bool" where
  "is_token tokens i w = (case token tokens i of Some t \<Rightarrow> eq_ignore_ascii_case t (lit w) | None \<Rightarrow> False)"

text \<open>The next line the client sends; deliveries by others happen meanwhile.  \<open>None\<close> is a closed
  connection.\<close>

fun await_line :: "(byte list \<Rightarrow> envelope) \<Rightarrow> store \<Rightarrow> net_input list \<Rightarrow> str option \<times> store \<times> net_input list" where
  "await_line penv st [] = (None, st, [])"
| "await_line penv st (InLine l # ins) = (Some l, st, ins)"
| "await_line penv st (InBytes b # ins) = (None, st, ins)"
| "await_line penv st (InDelivered box raw # ins) = await_line penv (snd (deliver penv box raw st)) ins"

fun await_bytes :: "(byte list \<Rightarrow> envelope) \<Rightarrow> store \<Rightarrow> net_input list \<Rightarrow>
  byte list option \<times> store \<times> net_input list" where
  "await_bytes penv st [] = (None, st, [])"
| "await_bytes penv st (InLine l # ins) = (None, st, ins)"
| "await_bytes penv st (InBytes b # ins) = (Some b, st, ins)"
| "await_bytes penv st (InDelivered box raw # ins) = await_bytes penv (snd (deliver penv box raw st)) ins"

definition read_line :: "(byte list \<Rightarrow> envelope) \<Rightarrow> session \<Rightarrow> str option \<times> session" where
  "read_line penv s =
     (let (l, st, ins) = await_line penv (ss_store s) (ss_in s)
      in (l, s\<lparr>ss_store := st, ss_in := ins\<rparr>))"

definition read_exact :: "(byte list \<Rightarrow> envelope) \<Rightarrow> session \<Rightarrow> byte list option \<times> session" where
  "read_exact penv s =
     (let (b, st, ins) = await_bytes penv (ss_store s) (ss_in s)
      in (b, s\<lparr>ss_store := st, ss_in := ins\<rparr>))"

subsection \<open>Signing in\<close>

definition do_login :: "str \<Rightarrow> str list \<Rightarrow> session \<Rightarrow> session" where
  "do_login tag tokens s =
     (case (token tokens 2, token tokens 3) of
        (Some user, Some pass) \<Rightarrow>
          if check_login user pass (ss_store s)
          then write_line (tag @ lit '' OK LOGIN completed'') (s\<lparr>ss_user := Some user\<rparr>)
          else write_line (tag @ lit '' NO LOGIN failed'') s
      | _ \<Rightarrow> write_line (tag @ lit '' BAD LOGIN needs two arguments'') s)"

text \<open>The initial response rides on the command line, or is the next line after a
  continuation.\<close>

definition read_initial ::
  "(byte list \<Rightarrow> envelope) \<Rightarrow> str list \<Rightarrow> session \<Rightarrow> str option \<times> session" where
  "read_initial penv tokens s =
     (case token tokens 3 of
        Some inline \<Rightarrow> (Some inline, s)
      | None \<Rightarrow>
          (let (l, s') = read_line penv (write_line (lit ''+ '') s)
           in (map_option strip_eol l, s')))"

definition xoauth2_error :: str where
  "xoauth2_error = lit ''{\"status\":\"401\",\"schemes\":\"Bearer\",\"scope\":\"https://mail.google.com/\"}''"

definition do_authenticate ::
  "(str \<Rightarrow> byte list option) \<Rightarrow> (byte list \<Rightarrow> str) \<Rightarrow> (byte list \<Rightarrow> envelope) \<Rightarrow> str \<Rightarrow> str list \<Rightarrow> session \<Rightarrow> session" where
  "do_authenticate b64dec b64enc penv tag tokens s =
     (if \<not> is_token tokens 2 ''XOAUTH2''
      then write_line (tag @ lit '' NO unsupported authentication mechanism'') s
      else case read_initial penv tokens s of
        (None, s') \<Rightarrow> close_conn s'
      | (Some initial, s') \<Rightarrow>
          (case Option.bind (b64dec initial) (\<lambda>payload. check_xoauth2 payload (ss_store s')) of
             Some user \<Rightarrow> write_line (tag @ lit '' OK AUTHENTICATE completed'') (s'\<lparr>ss_user := Some user\<rparr>)
           | None \<Rightarrow>
               (let (ack, s'') = read_line penv (write_line (lit ''+ '' @ b64enc (utf8 xoauth2_error)) s')
                in write_line (tag @ lit '' NO AUTHENTICATE failed'') s'')))"

definition not_authenticated :: "str \<Rightarrow> session \<Rightarrow> session" where
  "not_authenticated tag s = write_line (tag @ lit '' NO not authenticated'') s"

definition no_mailbox_selected :: "str \<Rightarrow> session \<Rightarrow> session" where
  "no_mailbox_selected tag s = write_line (tag @ lit '' NO no mailbox selected'') s"

subsection \<open>Mailboxes\<close>

definition list_attr :: "str \<Rightarrow> str" where
  "list_attr name =
     (let n = to_ascii_lowercase name in
      if n = lit ''sent'' then 32 # blit ''Sent''
      else if n = lit ''drafts'' then 32 # blit ''Drafts''
      else if n = lit ''trash'' then 32 # blit ''Trash''
      else if n = lit ''archive'' then 32 # blit ''Archive''
      else if n = lit ''junk'' \<or> n = lit ''spam'' then 32 # blit ''Junk''
      else [])"

definition list_response :: "str \<Rightarrow> byte list" where
  "list_response name =
     utf8 (lit ''* LIST ('' @ blit ''HasNoChildren'' @ list_attr name @ lit '') \"/\" '') @
     literal (utf8 name) @ [13, 10]"

definition do_list :: "str \<Rightarrow> session \<Rightarrow> session" where
  "do_list tag s =
     (if ss_user s = None then not_authenticated tag s
      else write_line (tag @ lit '' OK LIST completed'')
        (foldl (\<lambda>s name. write_all (list_response name) s) s (mailbox_names (ss_store s))))"

definition flags_line :: str where
  "flags_line = lit ''* FLAGS ('' @ join [32] (map blit [''Answered'', ''Flagged'', ''Deleted'', ''Seen'', ''Draft'']) @ lit '')''"

definition do_select :: "str \<Rightarrow> str \<Rightarrow> str list \<Rightarrow> session \<Rightarrow> session" where
  "do_select tag verb tokens s =
     (if ss_user s = None then not_authenticated tag s
      else case token tokens 2 of
        None \<Rightarrow> write_line (tag @ lit '' BAD '' @ verb @ lit '' needs a mailbox'') s
      | Some name \<Rightarrow>
          (case store_mailbox name (ss_store s) of
             None \<Rightarrow> write_line (tag @ lit '' NO mailbox does not exist'') s
           | Some mb \<Rightarrow>
               foldl (\<lambda>s l. write_line l s) (s\<lparr>ss_selected := Some name\<rparr>)
                 [flags_line,
                  lit ''* OK [PERMANENTFLAGS ()] Flags permitted.'',
                  lit ''* '' @ dec_digits (length (mb_messages mb)) @ lit '' EXISTS'',
                  lit ''* 0 RECENT'',
                  lit ''* OK [UIDVALIDITY '' @ dec_u32 (mb_uid_validity mb) @ lit ''] UIDs valid'',
                  lit ''* OK [UIDNEXT '' @ dec_u32 (mb_uid_next mb) @ lit ''] Predicted next UID'',
                  tag @ lit '' OK'' @ (if verb = lit ''EXAMINE'' then lit '' [READ-ONLY]'' else []) @
                    [32] @ verb @ lit '' completed'']))"

definition do_status :: "str \<Rightarrow> str list \<Rightarrow> session \<Rightarrow> session" where
  "do_status tag tokens s =
     (if ss_user s = None then not_authenticated tag s
      else case token tokens 2 of
        None \<Rightarrow> write_line (tag @ lit '' BAD STATUS needs a mailbox'') s
      | Some name \<Rightarrow>
          (case store_mailbox name (ss_store s) of
             None \<Rightarrow> write_line (tag @ lit '' NO mailbox does not exist'') s
           | Some mb \<Rightarrow>
               write_line (tag @ lit '' OK STATUS completed'')
                 (write_all (utf8 (lit ''* STATUS '') @ literal (utf8 name) @
                    utf8 (lit '' (MESSAGES '' @ dec_u32 (of_nat (length (mb_messages mb))) @ lit '' UNSEEN '' @
                      dec_u32 (unseen_count mb) @ lit '')'' @ [13, 10])) s)))"

subsection \<open>Fetching\<close>

definition fetch_responses :: "u32 \<Rightarrow> u32 \<Rightarrow> mailbox \<Rightarrow> byte list list" where
  "fetch_responses start stop mb =
     (let total = of_nat (length (mb_messages mb)) :: u32;
          bound = min stop total
      in map (\<lambda>i. envelope_fetch_response (of_nat i) (mb_messages mb ! (i - 1)))
           (filter (\<lambda>i. i - 1 < length (mb_messages mb)) [unat (max start 1) ..< Suc (unat bound)]))"

definition do_fetch :: "str \<Rightarrow> str list \<Rightarrow> session \<Rightarrow> session" where
  "do_fetch tag tokens s =
     (case ss_selected s of
        None \<Rightarrow> no_mailbox_selected tag s
      | Some name \<Rightarrow>
          (case token tokens 2 of
             None \<Rightarrow> write_line (tag @ lit '' BAD FETCH needs a sequence set'') s
           | Some seq_set \<Rightarrow>
               (let (start, stop) = parse_range seq_set in
                case store_mailbox name (ss_store s) of
                  None \<Rightarrow> write_line (tag @ lit '' NO mailbox gone'') s
                | Some mb \<Rightarrow>
                    write_line (tag @ lit '' OK FETCH completed'')
                      (foldl (\<lambda>s r. write_all r s) s (fetch_responses start stop mb)))))"

text \<open>The UIDs asked for; \<open>None\<close> is an argument that is no number.\<close>

definition uid_range :: "str \<Rightarrow> (u32 \<times> u32) option" where
  "uid_range spec =
     (case split_once 58 spec of
        Some (a, b) \<Rightarrow>
          (let a' = (case parse_u32 a of Some n \<Rightarrow> n | None \<Rightarrow> 1);
               b' = (if b = lit ''*'' then - 1 else case parse_u32 b of Some n \<Rightarrow> n | None \<Rightarrow> a')
           in Some (a', b'))
      | None \<Rightarrow> map_option (\<lambda>n. (n, n)) (parse_u32 spec))"

definition uid_matches :: "u32 \<Rightarrow> u32 \<Rightarrow> str \<Rightarrow> store \<Rightarrow> (u32 \<times> stored_message) list" where
  "uid_matches start stop name st =
     (case store_mailbox name st of
        None \<Rightarrow> []
      | Some mb \<Rightarrow> map (\<lambda>(i, m). (of_nat (i + 1), m))
          (filter (\<lambda>(i, m). start \<le> sm_uid m \<and> sm_uid m \<le> stop) (list_enum (mb_messages mb))))"

definition rfc822_fetch_response :: "u32 \<Rightarrow> stored_message \<Rightarrow> byte list" where
  "rfc822_fetch_response seq msg =
     utf8 (lit ''* '' @ dec_u32 seq @ lit '' FETCH (UID '' @ dec_u32 (sm_uid msg) @ lit '' RFC822 '') @
     literal (sm_raw msg) @ utf8 (lit '')'' @ [13, 10])"

definition do_uid_fetch :: "str \<Rightarrow> str list \<Rightarrow> session \<Rightarrow> session" where
  "do_uid_fetch tag tokens s =
     (case ss_selected s of
        None \<Rightarrow> no_mailbox_selected tag s
      | Some name \<Rightarrow>
          (case token tokens 3 of
             None \<Rightarrow> write_line (tag @ lit '' BAD UID FETCH needs a UID'') s
           | Some uid_spec \<Rightarrow>
               (let items = to_ascii_uppercase (join [32] (drop 4 tokens));
                    wants_envelope = contains (lit ''ENVELOPE'') items;
                    wants_rfc822 = contains (lit ''RFC822'') items
                in if wants_rfc822 \<and> st_drop_next (ss_store s)
                   then close_conn (s\<lparr>ss_store := (ss_store s)\<lparr>st_drop_next := False\<rparr>\<rparr>)
                   else case uid_range uid_spec of
                     None \<Rightarrow> write_line (tag @ lit '' BAD invalid UID'') s
                   | Some (start, stop) \<Rightarrow>
                       write_line (tag @ lit '' OK UID FETCH completed'')
                         (foldl (\<lambda>s (seq, msg).
                              if wants_envelope then write_all (envelope_fetch_response seq msg) s
                              else if wants_rfc822 then write_all (rfc822_fetch_response seq msg) s
                              else s)
                            s (uid_matches start stop name (ss_store s))))))"

subsection \<open>Changing mailboxes\<close>

definition literal_size :: "str \<Rightarrow> nat option" where
  "literal_size tok =
     Option.bind (strip_prefix (lit ''{'') tok) (\<lambda>a.
     Option.bind (strip_suffix (lit ''}'') a) (parse_nat (2 ^ 64)))"

definition do_append :: "(byte list \<Rightarrow> envelope) \<Rightarrow> str \<Rightarrow> str list \<Rightarrow> session \<Rightarrow> session" where
  "do_append penv tag tokens s =
     (if ss_user s = None then not_authenticated tag s
      else case token tokens 2 of
        None \<Rightarrow> write_line (tag @ lit '' BAD APPEND needs a mailbox'') s
      | Some name \<Rightarrow>
          (case token tokens 3 of
             None \<Rightarrow> write_line (tag @ lit '' BAD APPEND needs a literal'') s
           | Some size_tok \<Rightarrow>
               (case literal_size size_tok of
                  None \<Rightarrow> write_line (tag @ lit '' BAD invalid literal size'') s
                | Some len \<Rightarrow>
                    (case read_exact penv (write_line (lit ''+ send literal data'') s) of
                       (None, s') \<Rightarrow> close_conn s'
                     | (Some bytes, s') \<Rightarrow>
                         if length bytes \<noteq> len + 2 then close_conn s'
                         else (let (uid, st) = deliver penv name (take len bytes) (ss_store s') in
                           write_line (tag @ lit '' OK [APPENDUID 1 '' @ dec_u32 uid @ lit ''] APPEND completed'')
                             (s'\<lparr>ss_store := st\<rparr>))))))"

text \<open>The sequence numbers and UIDs a \<open>STORE\<close> is about.\<close>

definition store_candidates :: "u32 option \<Rightarrow> u32 \<Rightarrow> u32 \<Rightarrow> mailbox \<Rightarrow> (u32 \<times> u32) list" where
  "store_candidates target start stop mb =
     map (\<lambda>(i, m). (of_nat (i + 1), sm_uid m))
       (filter (\<lambda>(i, m). case target of
            Some uid \<Rightarrow> sm_uid m = uid
          | None \<Rightarrow> (let seq = of_nat (i + 1) :: u32 in max start 1 \<le> seq \<and> seq \<le> stop))
          (list_enum (mb_messages mb)))"

definition flag_changes :: "str \<Rightarrow> str list \<Rightarrow> str list \<times> str list" where
  "flag_changes mode flags =
     (if mode = lit ''+FLAGS'' \<or> mode = lit ''+FLAGS.SILENT'' then (flags, [])
      else if mode = lit ''-FLAGS'' \<or> mode = lit ''-FLAGS.SILENT'' then ([], flags)
      else (flags, map blit [''Seen'', ''Flagged'', ''Deleted'', ''Answered'', ''Draft'']))"

definition parse_flags :: "str list \<Rightarrow> str list" where
  "parse_flags toks =
     split_whitespace (trim_end (\<lambda>c. c = 41) (trim_start (\<lambda>c. c = 40) (join [32] toks)))"

fun store_each :: "str list \<Rightarrow> str list \<Rightarrow> bool \<Rightarrow> (u32 \<times> u32) list \<Rightarrow> mailbox \<Rightarrow> byte list list \<times> mailbox" where
  "store_each add remove silent [] mb = ([], mb)"
| "store_each add remove silent ((seq, uid) # cs) mb =
     (let (r, mb') = mb_store_flags uid add remove mb;
          resp = (if r \<noteq> None \<and> \<not> silent
            then (case find (\<lambda>m. sm_uid m = uid) (mb_messages mb') of
                    Some msg \<Rightarrow> [flags_fetch_response seq msg] | None \<Rightarrow> [])
            else []);
          (rest, mb'') = store_each add remove silent cs mb'
      in (resp @ rest, mb''))"

definition do_store :: "str \<Rightarrow> str \<Rightarrow> str list \<Rightarrow> session \<Rightarrow> session" where
  "do_store tag verb tokens s =
     (let is_uid = (verb = lit ''UID'') in
      case ss_selected s of
        None \<Rightarrow> no_mailbox_selected tag s
      | Some name \<Rightarrow>
          (let base = (if is_uid then 3 else 2) in
           case (token tokens base, token tokens (base + 1)) of
             (Some set_tok, Some mode_tok) \<Rightarrow>
               (let mode = to_ascii_uppercase mode_tok;
                    flags = parse_flags (drop (base + 2) tokens);
                    (start, stop) = parse_range set_tok
                in case store_mailbox name (ss_store s) of
                  None \<Rightarrow> write_line (tag @ lit '' NO mailbox gone'') s
                | Some mb \<Rightarrow>
                    (let (add, remove) = flag_changes mode flags;
                         (responses, mb') = store_each add remove (ends_with (lit ''.SILENT'') mode)
                           (store_candidates (if is_uid then Some start else None) start stop mb) mb
                     in write_line (tag @ lit '' OK STORE completed'')
                          (foldl (\<lambda>s r. write_all r s)
                             (s\<lparr>ss_store := put_mailbox name mb' (ss_store s)\<rparr>) responses)))
           | _ \<Rightarrow> write_line (tag @ lit '' BAD STORE needs a set and mode'') s))"

definition do_copy :: "str \<Rightarrow> str \<Rightarrow> str list \<Rightarrow> session \<Rightarrow> session" where
  "do_copy tag verb tokens s =
     (let is_uid = (verb = lit ''UID'') in
      case ss_selected s of
        None \<Rightarrow> no_mailbox_selected tag s
      | Some name \<Rightarrow>
          (let base = (if is_uid then 3 else 2) in
           case (token tokens base, token tokens (base + 1)) of
             (Some set_tok, Some dest) \<Rightarrow>
               (let (start, _) = parse_range set_tok;
                    resolved = (if is_uid then Some start
                      else Option.bind (store_mailbox name (ss_store s)) (\<lambda>mb.
                        let i = unat (sat_sub start 1) in
                        if i < length (mb_messages mb) then Some (sm_uid (mb_messages mb ! i)) else None))
                in case resolved of
                  None \<Rightarrow> write_line (tag @ lit '' NO no such message'') s
                | Some uid \<Rightarrow>
                    (case copy_message name uid dest (ss_store s) of
                       (Some new_uid, st) \<Rightarrow>
                         write_line (tag @ lit '' OK [COPYUID 1 '' @ dec_u32 uid @ [32] @ dec_u32 new_uid @
                           lit ''] COPY completed'') (s\<lparr>ss_store := st\<rparr>)
                     | (None, st) \<Rightarrow>
                         write_line (tag @ lit '' NO no such message'') (s\<lparr>ss_store := st\<rparr>)))
           | _ \<Rightarrow> write_line (tag @ lit '' BAD COPY needs a set and destination'') s))"

definition do_expunge :: "str \<Rightarrow> session \<Rightarrow> session" where
  "do_expunge tag s =
     (case ss_selected s of
        None \<Rightarrow> no_mailbox_selected tag s
      | Some name \<Rightarrow>
          (case store_mailbox name (ss_store s) of
             None \<Rightarrow> write_line (tag @ lit '' NO mailbox gone'') s
           | Some mb \<Rightarrow>
               (let (removed, mb') = mb_expunge mb
                in write_line (tag @ lit '' OK EXPUNGE completed'')
                     (foldl (\<lambda>s _. write_line (lit ''* 1 EXPUNGE'') s)
                        (s\<lparr>ss_store := put_mailbox name mb' (ss_store s)\<rparr>) removed))))"

subsection \<open>Idling and the session loop\<close>

text \<open>The loop of \<open>IDLE\<close> over what happens to the connection, until \<open>DONE\<close>.\<close>

fun idle_loop ::
  "(byte list \<Rightarrow> envelope) \<Rightarrow> str \<Rightarrow> str \<Rightarrow> store \<Rightarrow> byte list list \<Rightarrow> net_input list \<Rightarrow>
   bool \<times> store \<times> byte list list \<times> net_input list" where
  "idle_loop penv tag name st out [] = (False, st, out, [])"
| "idle_loop penv tag name st out (InBytes b # ins) = (False, st, out, ins)"
| "idle_loop penv tag name st out (InLine l # ins) =
     (if eq_ignore_ascii_case (strip_eol l) (lit ''DONE'')
      then (True, st, out @ [utf8 (tag @ lit '' OK IDLE terminated'' @ [13, 10])], ins)
      else idle_loop penv tag name st out ins)"
| "idle_loop penv tag name st out (InDelivered box raw # ins) =
     (let st' = snd (deliver penv box raw st);
          notice = (if box = name then (case store_mailbox name st' of
              Some mb \<Rightarrow> [utf8 (lit ''* '' @ dec_digits (length (mb_messages mb)) @ lit '' EXISTS'' @ [13, 10])]
            | None \<Rightarrow> []) else [])
      in idle_loop penv tag name st' (out @ notice) ins)"

definition do_idle :: "(byte list \<Rightarrow> envelope) \<Rightarrow> str \<Rightarrow> session \<Rightarrow> session" where
  "do_idle penv tag s =
     (if ss_user s = None then not_authenticated tag s
      else case ss_selected s of
        None \<Rightarrow> no_mailbox_selected tag s
      | Some name \<Rightarrow>
          (let s' = write_line (lit ''+ idling'') s;
               (finished, st, out, ins) = idle_loop penv tag name (ss_store s') (ss_out s') (ss_in s')
           in s'\<lparr>ss_store := st, ss_out := out, ss_in := ins, ss_open := finished\<rparr>))"

definition do_logout :: "str \<Rightarrow> session \<Rightarrow> session" where
  "do_logout tag s =
     close_conn (write_line (tag @ lit '' OK LOGOUT completed'') (write_line (lit ''* BYE logging out'') s))"

definition do_capability :: "str \<Rightarrow> session \<Rightarrow> session" where
  "do_capability tag s =
     write_line (tag @ lit '' OK CAPABILITY completed'')
       (write_line (lit ''* CAPABILITY IMAP4rev1 IDLE'') s)"

text \<open>The \<open>match\<close> over the command, its arms in the code's order.\<close>

definition imap_dispatch ::
  "(str \<Rightarrow> byte list option) \<Rightarrow> (byte list \<Rightarrow> str) \<Rightarrow> (byte list \<Rightarrow> envelope) \<Rightarrow>
   str \<Rightarrow> str \<Rightarrow> str list \<Rightarrow> session \<Rightarrow> session" where
  "imap_dispatch b64dec b64enc penv tag verb tokens s =
     (if verb = lit ''LOGIN'' then do_login tag tokens s
      else if verb = lit ''AUTHENTICATE'' then do_authenticate b64dec b64enc penv tag tokens s
      else if verb = lit ''LIST'' then do_list tag s
      else if verb = lit ''EXAMINE'' \<or> verb = lit ''SELECT'' then do_select tag verb tokens s
      else if verb = lit ''FETCH'' then do_fetch tag tokens s
      else if verb = lit ''UID'' \<and> is_token tokens 2 ''FETCH'' then do_uid_fetch tag tokens s
      else if verb = lit ''APPEND'' then do_append penv tag tokens s
      else if verb = lit ''STORE'' \<or> verb = lit ''UID'' \<and> is_token tokens 2 ''STORE'' then do_store tag verb tokens s
      else if verb = lit ''COPY'' \<or> verb = lit ''UID'' \<and> is_token tokens 2 ''COPY'' then do_copy tag verb tokens s
      else if verb = lit ''EXPUNGE'' \<or> verb = lit ''UID'' \<and> is_token tokens 2 ''EXPUNGE'' then do_expunge tag s
      else if verb = lit ''STATUS'' then do_status tag tokens s
      else if verb = lit ''LOGOUT'' then do_logout tag s
      else if verb = lit ''CAPABILITY'' then do_capability tag s
      else if verb = lit ''IDLE'' then do_idle penv tag s
      else if verb = lit ''NOOP'' then write_line (tag @ lit '' OK NOOP completed'') s
      else write_line (tag @ lit '' BAD unknown or unsupported command'') s)"

text \<open>One line from the client.\<close>

definition imap_line ::
  "(str \<Rightarrow> byte list option) \<Rightarrow> (byte list \<Rightarrow> str) \<Rightarrow> (byte list \<Rightarrow> envelope) \<Rightarrow> str \<Rightarrow> session \<Rightarrow> session" where
  "imap_line b64dec b64enc penv l s =
     (let line = strip_eol l in
      if line = [] then s
      else (let tokens = imap_tokenize line in
        case tokens of
          [] \<Rightarrow> s
        | tag # _ \<Rightarrow>
            (let verb = (case token tokens 1 of Some t \<Rightarrow> to_ascii_uppercase t | None \<Rightarrow> [])
             in imap_dispatch b64dec b64enc penv tag verb tokens s)))"

text \<open>The loop of \<open>handle_connection\<close>, for at most \<open>n\<close> turns.\<close>

fun imap_loop ::
  "(str \<Rightarrow> byte list option) \<Rightarrow> (byte list \<Rightarrow> str) \<Rightarrow> (byte list \<Rightarrow> envelope) \<Rightarrow> nat \<Rightarrow> session \<Rightarrow> session" where
  "imap_loop b64dec b64enc penv 0 s = s"
| "imap_loop b64dec b64enc penv (Suc n) s =
     (if \<not> ss_open s then s
      else case read_line penv s of
        (None, s') \<Rightarrow> close_conn s'
      | (Some l, s') \<Rightarrow> imap_loop b64dec b64enc penv n (imap_line b64dec b64enc penv l s'))"

text \<open>A connection with everything the client will send: each turn takes at least one input, so
  that many turns and one more end the session.\<close>

definition handle_imap ::
  "(str \<Rightarrow> byte list option) \<Rightarrow> (byte list \<Rightarrow> str) \<Rightarrow> (byte list \<Rightarrow> envelope) \<Rightarrow> store \<Rightarrow> net_input list \<Rightarrow> session" where
  "handle_imap b64dec b64enc penv st ins =
     imap_loop b64dec b64enc penv (Suc (length ins))
       (write_line (lit ''* OK esmail mail-mock-server ready'')
          \<lparr>ss_user = None, ss_selected = None, ss_store = st, ss_out = [], ss_in = ins, ss_open = True\<rparr>)"

section \<open>Arguments\<close>

text \<open>An argument as the client writes it: a bare word, or a quoted string with \<open>"\<close> and the
  backslash escaped (what \<open>async_imap\<close> does).\<close>

datatype argument = Bare str | Quoted str

definition quote_string :: "str \<Rightarrow> str" where
  "quote_string s = 34 # concat (map (\<lambda>c. if c = 34 \<or> c = 92 then [92, c] else [c]) s) @ [34]"

fun render_arg :: "argument \<Rightarrow> str" where
  "render_arg (Bare w) = w"
| "render_arg (Quoted s) = quote_string s"

fun arg_value :: "argument \<Rightarrow> str" where
  "arg_value (Bare w) = w"
| "arg_value (Quoted s) = s"

fun bare_ok :: "argument \<Rightarrow> bool" where
  "bare_ok (Bare w) = (w \<noteq> [] \<and> hd w \<noteq> 34 \<and> 32 \<notin> set w)"
| "bare_ok (Quoted s) = True"

lemma take_quoted_quote:
  "take_quoted (concat (map (\<lambda>c. if c = 34 \<or> c = 92 then [92, c] else [c]) s) @ 34 # rest) = (s, rest)"
  by (induction s) auto

lemma imap_tokenize_eval:
  "imap_tokenize [] = []"
  "imap_tokenize (32 # cs) = imap_tokenize cs"
  "imap_tokenize (quote_string s @ rest) = s # imap_tokenize rest"
  "w \<noteq> [] \<Longrightarrow> hd w \<noteq> 34 \<Longrightarrow> 32 \<notin> set w \<Longrightarrow> imap_tokenize w = [w]"
  "w \<noteq> [] \<Longrightarrow> hd w \<noteq> 34 \<Longrightarrow> 32 \<notin> set w \<Longrightarrow> imap_tokenize (w @ 32 # rest) = w # imap_tokenize (32 # rest)"
proof -
  show nil: "imap_tokenize [] = []" by (subst imap_tokenize.simps) simp
  show "imap_tokenize (32 # cs) = imap_tokenize cs" by (subst imap_tokenize.simps) simp
  show "imap_tokenize (quote_string s @ rest) = s # imap_tokenize rest"
    using take_quoted_quote [of s rest]
    by (subst imap_tokenize.simps) (simp add: quote_string_def)
  assume w: "w \<noteq> []" "hd w \<noteq> 34" "32 \<notin> set w"
  then obtain c cs where cs: "w = c # cs" "c \<noteq> 34" "c \<noteq> 32" "32 \<notin> set cs" by (cases w) auto
  then have all: "\<forall>x\<in>set cs. x \<noteq> 32" by auto
  have t: "takeWhile (\<lambda>c. c \<noteq> 32) cs = cs" and d: "dropWhile (\<lambda>c. c \<noteq> 32) cs = []"
    using all by (simp_all add: takeWhile_eq_all_conv dropWhile_eq_Nil_conv)
  show "imap_tokenize w = [w]"
    using cs by (subst imap_tokenize.simps) (simp add: nil t d)
  have "takeWhile (\<lambda>c. c \<noteq> 32) (w @ 32 # rest) = w" "dropWhile (\<lambda>c. c \<noteq> 32) (w @ 32 # rest) = 32 # rest"
    using cs all by simp_all
  then show "imap_tokenize (w @ 32 # rest) = w # imap_tokenize (32 # rest)"
    using cs by (subst imap_tokenize.simps) simp
qed

lemma imap_tokenize_arg:
  assumes "bare_ok a" shows "imap_tokenize (render_arg a) = [arg_value a]"
    and "imap_tokenize (render_arg a @ 32 # rest) = arg_value a # imap_tokenize rest"
  using assms imap_tokenize_eval(1,2) imap_tokenize_eval(3) [of _ "[]"]
  by (cases a; auto simp: imap_tokenize_eval)+

text \<open>The server reads a command line back into exactly the arguments the client wrote: bare
  words, and quoted strings with any content.\<close>

theorem imap_tokenize_render:
  assumes "list_all bare_ok args"
  shows "imap_tokenize (join [32] (map render_arg args)) = map arg_value args"
  using assms
proof (induction args)
  case (Cons a args)
  then show ?case
    by (cases args) (auto simp: imap_tokenize_arg)
qed (simp add: imap_tokenize_eval)

theorem imap_tokenize_render_witness:
  "imap_tokenize (join [32] (map render_arg [Bare (lit ''a1''), Bare (lit ''LOGIN''), Quoted (lit ''me''), Quoted [34, 92, 32]]))
     = [lit ''a1'', lit ''LOGIN'', lit ''me'', [34, 92, 32]]"
  by (subst imap_tokenize_render) (simp_all add: lit_def)

section \<open>What one command can do\<close>

lemma session_write [simp]:
  "ss_user (write_all b s) = ss_user s" "ss_selected (write_all b s) = ss_selected s"
  "ss_store (write_all b s) = ss_store s" "ss_in (write_all b s) = ss_in s"
  "ss_open (write_all b s) = ss_open s" "ss_out (write_all b s) = ss_out s @ [b]"
  "ss_user (write_line l s) = ss_user s" "ss_selected (write_line l s) = ss_selected s"
  "ss_store (write_line l s) = ss_store s" "ss_in (write_line l s) = ss_in s"
  "ss_open (write_line l s) = ss_open s" "ss_out (write_line l s) = ss_out s @ [utf8 (l @ [13, 10])]"
  "ss_user (close_conn s) = ss_user s" "ss_selected (close_conn s) = ss_selected s"
  "ss_store (close_conn s) = ss_store s" "ss_in (close_conn s) = ss_in s"
  "\<not> ss_open (close_conn s)" "ss_out (close_conn s) = ss_out s"
  "ss_user (not_authenticated l s) = ss_user s" "ss_selected (not_authenticated l s) = ss_selected s"
  "ss_store (not_authenticated l s) = ss_store s" "ss_in (not_authenticated l s) = ss_in s"
  "ss_user (no_mailbox_selected l s) = ss_user s" "ss_selected (no_mailbox_selected l s) = ss_selected s"
  "ss_store (no_mailbox_selected l s) = ss_store s" "ss_in (no_mailbox_selected l s) = ss_in s"
  by (simp_all add: write_line_def write_all_def close_conn_def not_authenticated_def no_mailbox_selected_def)

lemma session_foldl:
  assumes "\<And>s x. ss_user (f s x) = ss_user s \<and> ss_selected (f s x) = ss_selected s \<and>
    ss_store (f s x) = ss_store s \<and> ss_in (f s x) = ss_in s"
  shows "ss_user (foldl f s xs) = ss_user s \<and> ss_selected (foldl f s xs) = ss_selected s \<and>
    ss_store (foldl f s xs) = ss_store s \<and> ss_in (foldl f s xs) = ss_in s"
  using assms by (induction xs arbitrary: s) simp_all

lemma session_foldl_write [simp]:
  "ss_user (foldl (\<lambda>s r. write_all (g r) s) s rs) = ss_user s"
  "ss_selected (foldl (\<lambda>s r. write_all (g r) s) s rs) = ss_selected s"
  "ss_store (foldl (\<lambda>s r. write_all (g r) s) s rs) = ss_store s"
  "ss_in (foldl (\<lambda>s r. write_all (g r) s) s rs) = ss_in s"
  "ss_user (foldl (\<lambda>s r. write_line (h r) s) s ls) = ss_user s"
  "ss_selected (foldl (\<lambda>s r. write_line (h r) s) s ls) = ss_selected s"
  "ss_store (foldl (\<lambda>s r. write_line (h r) s) s ls) = ss_store s"
  "ss_in (foldl (\<lambda>s r. write_line (h r) s) s ls) = ss_in s"
  using session_foldl [of "\<lambda>s r. write_all (g r) s"] session_foldl [of "\<lambda>s r. write_line (h r) s"]
  by simp_all

lemma session_foldl_uid_fetch [simp]:
  "ss_user (foldl (\<lambda>s (seq, msg). if e then write_all (f1 seq msg) s else if r then write_all (f2 seq msg) s else s) s ms) = ss_user s"
  "ss_selected (foldl (\<lambda>s (seq, msg). if e then write_all (f1 seq msg) s else if r then write_all (f2 seq msg) s else s) s ms) = ss_selected s"
  "ss_store (foldl (\<lambda>s (seq, msg). if e then write_all (f1 seq msg) s else if r then write_all (f2 seq msg) s else s) s ms) = ss_store s"
  "ss_in (foldl (\<lambda>s (seq, msg). if e then write_all (f1 seq msg) s else if r then write_all (f2 seq msg) s else s) s ms) = ss_in s"
  using session_foldl [of "\<lambda>s (seq, msg). if e then write_all (f1 seq msg) s else if r then write_all (f2 seq msg) s else s"]
  by (simp_all split: prod.splits)

definition selected_ok :: "session \<Rightarrow> bool" where
  "selected_ok s \<longleftrightarrow> (ss_selected s \<noteq> None \<longrightarrow> ss_user s \<noteq> None)"

definition quiet :: "net_input list \<Rightarrow> bool" where
  "quiet ins \<longleftrightarrow> list_all (\<lambda>i. case i of InDelivered _ _ \<Rightarrow> False | _ \<Rightarrow> True) ins"

text \<open>What a command may do to a session: use up inputs, sign in but not out, select only when
  signed in, keep the store well formed with at most one new message besides the deliveries by
  others, and leave the store alone before signing in.\<close>

definition conn_rel :: "nat \<Rightarrow> session \<Rightarrow> session \<Rightarrow> bool" where
  "conn_rel j s s' \<longleftrightarrow>
     length (ss_in s') \<le> length (ss_in s) \<and> (quiet (ss_in s) \<longrightarrow> quiet (ss_in s')) \<and>
     (ss_user s \<noteq> None \<longrightarrow> ss_user s' \<noteq> None) \<and>
     (selected_ok s \<longrightarrow> selected_ok s') \<and>
     (\<forall>k. store_ok (j + k + length (ss_in s)) (ss_store s) \<longrightarrow> store_ok (k + length (ss_in s')) (ss_store s')) \<and>
     (quiet (ss_in s) \<and> ss_user s = None \<and> selected_ok s \<and> ss_user s' = None \<longrightarrow> ss_store s' = ss_store s)"

lemma conn_rel_same:
  assumes "ss_in s' = ss_in s" "ss_user s' = ss_user s" "ss_selected s' = ss_selected s" "ss_store s' = ss_store s"
  shows "conn_rel j s s'"
proof -
  have "store_ok (j + k + n) x \<Longrightarrow> store_ok (k + n) x" for k n x by (erule store_ok_mono) simp
  with assms show ?thesis by (auto simp: conn_rel_def selected_ok_def)
qed

lemma conn_rel_trans: "conn_rel i s t \<Longrightarrow> conn_rel j t u \<Longrightarrow> conn_rel (i + j) s u"
  unfolding conn_rel_def
  by (metis (no_types, lifting) add.assoc order_trans)

lemma await_line_step:
  "await_line penv st ins = (l, st', ins') \<Longrightarrow>
     length ins' \<le> length ins \<and> (l \<noteq> None \<longrightarrow> length ins' < length ins) \<and> (quiet ins \<longrightarrow> quiet ins' \<and> st' = st) \<and>
     (store_ok (k + length ins) st \<longrightarrow> store_ok (k + length ins' + (if l = None then 0 else 1)) st')"
proof (induction penv st ins rule: await_line.induct)
  case (4 penv st box raw ins)
  then show ?case
    using store_ok_deliver [of "k + length ins" st penv box raw] by (auto simp: quiet_def)
qed (auto simp: quiet_def elim: store_ok_mono)

lemma await_bytes_step:
  "await_bytes penv st ins = (l, st', ins') \<Longrightarrow>
     length ins' \<le> length ins \<and> (l \<noteq> None \<longrightarrow> length ins' < length ins) \<and> (quiet ins \<longrightarrow> quiet ins' \<and> st' = st) \<and>
     (store_ok (k + length ins) st \<longrightarrow> store_ok (k + length ins' + (if l = None then 0 else 1)) st')"
proof (induction penv st ins rule: await_bytes.induct)
  case (4 penv st box raw ins)
  then show ?case
    using store_ok_deliver [of "k + length ins" st penv box raw] by (auto simp: quiet_def)
qed (auto simp: quiet_def elim: store_ok_mono)

lemma conn_rel_read_line:
  assumes "read_line penv s = (l, s')"
  shows "conn_rel 0 s s'" and "l \<noteq> None \<Longrightarrow> length (ss_in s') < length (ss_in s)"
    and "l \<noteq> None \<Longrightarrow> store_ok (k + length (ss_in s)) (ss_store s) \<Longrightarrow> store_ok (Suc k + length (ss_in s')) (ss_store s')"
    and "quiet (ss_in s) \<Longrightarrow> quiet (ss_in s') \<and> ss_store s' = ss_store s"
    and "ss_user s' = ss_user s" and "ss_selected s' = ss_selected s"
    and "ss_open s' = ss_open s" and "ss_out s' = ss_out s"
proof -
  obtain st ins where a: "await_line penv (ss_store s) (ss_in s) = (l, st, ins)" and
    s': "s' = s\<lparr>ss_store := st, ss_in := ins\<rparr>"
    using assms by (auto simp: read_line_def split: prod.splits)
  have step: "length ins \<le> length (ss_in s) \<and> (l \<noteq> None \<longrightarrow> length ins < length (ss_in s)) \<and>
     (quiet (ss_in s) \<longrightarrow> quiet ins \<and> st = ss_store s) \<and>
     (store_ok (k + length (ss_in s)) (ss_store s) \<longrightarrow> store_ok (k + length ins + (if l = None then 0 else 1)) st)" for k
    by (rule await_line_step [OF a])
  have "store_ok (k + length (ss_in s)) (ss_store s) \<Longrightarrow> store_ok (k + length ins) st" for k
    using step [of k] by (auto elim: store_ok_mono)
  with step show "conn_rel 0 s s'" by (auto simp: conn_rel_def s' selected_ok_def)
  show "l \<noteq> None \<Longrightarrow> length (ss_in s') < length (ss_in s)" using step [of 0] by (simp add: s')
  show "l \<noteq> None \<Longrightarrow> store_ok (k + length (ss_in s)) (ss_store s) \<Longrightarrow> store_ok (Suc k + length (ss_in s')) (ss_store s')"
    using step [of k] by (cases l) (simp_all add: s')
  show "quiet (ss_in s) \<Longrightarrow> quiet (ss_in s') \<and> ss_store s' = ss_store s" using step [of 0] by (simp add: s')
qed (use assms in \<open>auto simp: read_line_def split: prod.splits\<close>)

lemma conn_rel_login: "conn_rel 0 s (do_login tag tokens s)"
  by (auto simp: do_login_def conn_rel_def selected_ok_def split: option.splits)

lemma conn_rel_set_user: "conn_rel 0 s (s\<lparr>ss_user := Some u\<rparr>)"
  by (auto simp: conn_rel_def selected_ok_def)

lemma conn_rel_write [intro]: "conn_rel 0 s (write_line l s)" "conn_rel 0 s (close_conn s)"
  by (rule conn_rel_same; simp)+

lemma conn_rel_then: "conn_rel j s t \<Longrightarrow> conn_rel 0 t u \<Longrightarrow> conn_rel j s u"
  using conn_rel_trans [of j s t 0 u] by simp

lemma conn_rel_authenticate: "conn_rel 0 s (do_authenticate b64dec b64enc penv tag tokens s)"
proof -
  have init: "conn_rel 0 s s'" if "read_initial penv tokens s = (i, s')" for i s'
    using that conn_rel_read_line(1) [of penv "write_line (lit ''+ '') s"] conn_rel_then [OF conn_rel_write(1)]
    by (auto simp: read_initial_def conn_rel_same split: option.splits prod.splits)
  have ack: "conn_rel 0 t (write_line l (snd (read_line penv (write_line k t))))" for k l t
    using conn_rel_then [OF conn_rel_then [OF conn_rel_write(1) conn_rel_read_line(1)] conn_rel_write(1)]
    by (metis prod.collapse)
  show ?thesis
    using init conn_rel_then [OF _ ack] conn_rel_then [OF _ conn_rel_then [OF conn_rel_set_user conn_rel_write(1)]]
      conn_rel_then [OF _ conn_rel_write(2)]
    by (auto simp: do_authenticate_def split: prod.splits option.splits) (metis snd_conv)+
qed

lemma conn_rel_list: "conn_rel 0 s (do_list tag s)"
  by (rule conn_rel_same) (auto simp: do_list_def)

lemma conn_rel_select: "conn_rel 0 s (do_select tag verb tokens s)"
proof (cases "ss_user s = None \<or> token tokens 2 = None")
  case True
  then show ?thesis by (intro conn_rel_same) (auto simp: do_select_def)
next
  case False
  then show ?thesis
    by (auto simp: do_select_def conn_rel_def selected_ok_def simp del: foldl_Cons foldl_Nil split: option.splits)
qed

lemma conn_rel_status: "conn_rel 0 s (do_status tag tokens s)"
  by (rule conn_rel_same) (auto simp: do_status_def split: option.splits)

lemma conn_rel_fetch: "conn_rel 0 s (do_fetch tag tokens s)"
  by (rule conn_rel_same) (auto simp: do_fetch_def split: option.splits prod.splits)

text \<open>A command that only replaces the store, and needs a selected mailbox to do so.\<close>

lemma conn_rel_store:
  assumes "ss_in s' = ss_in s" "ss_user s' = ss_user s" "ss_selected s' = ss_selected s"
    and "ss_selected s = None \<and> ss_user s = None \<Longrightarrow> ss_store s' = ss_store s"
    and "\<And>k. store_ok (j + k) (ss_store s) \<Longrightarrow> store_ok k (ss_store s')"
  shows "conn_rel j s s'"
  using assms by (auto simp: conn_rel_def selected_ok_def ac_simps)

lemma conn_rel_uid_fetch: "conn_rel 0 s (do_uid_fetch tag tokens s)"
  by (rule conn_rel_store) (auto simp: do_uid_fetch_def Let_def split: option.splits prod.splits)

lemma mailbox_ok_store_each: "mailbox_ok k mb \<Longrightarrow> mailbox_ok k (snd (store_each add remove silent cs mb))"
proof (induction cs arbitrary: mb)
  case (Cons c cs)
  obtain seq uid where c: "c = (seq, uid)" by (cases c)
  from Cons.IH [OF mailbox_ok_store_flags [OF Cons.prems]] show ?case
    by (simp add: c split: prod.splits) (metis snd_conv)
qed simp

lemma conn_rel_do_store: "conn_rel 0 s (do_store tag verb tokens s)"
proof (rule conn_rel_store)
  fix k
  assume ok: "store_ok (0 + k) (ss_store s)"
  have "store_ok k (put_mailbox name mb' (ss_store s))"
    if "store_mailbox name (ss_store s) = Some mb" "store_each a r sl cs mb = (resp, mb')" for name mb a r sl cs resp mb'
    using ok store_ok_update [OF _ that(1)] mailbox_ok_store_each [of k mb a r sl cs] that(2) by simp
  with ok show "store_ok k (ss_store (do_store tag verb tokens s))"
    by (auto simp: do_store_def Let_def split: option.splits prod.splits)
qed (auto simp: do_store_def Let_def split: option.splits prod.splits)

lemma conn_rel_copy: "conn_rel 1 s (do_copy tag verb tokens s)"
proof (rule conn_rel_store)
  fix k
  assume ok: "store_ok (1 + k) (ss_store s)"
  then have "store_ok k (ss_store s)" by (rule store_ok_mono) simp
  moreover have "store_ok k st" if "copy_message name uid dest (ss_store s) = (u, st)" for name uid dest u st
    using store_ok_copy [of k "ss_store s" name uid dest] ok that by simp
  ultimately show "store_ok k (ss_store (do_copy tag verb tokens s))"
    by (auto simp: do_copy_def Let_def split: option.splits prod.splits)
qed (auto simp: do_copy_def Let_def split: option.splits prod.splits)

lemma conn_rel_expunge: "conn_rel 0 s (do_expunge tag s)"
proof (rule conn_rel_store)
  fix k
  assume ok: "store_ok (0 + k) (ss_store s)"
  have "store_ok k (put_mailbox name mb' (ss_store s))"
    if "store_mailbox name (ss_store s) = Some mb" "mb_expunge mb = (rem, mb')" for name mb rem mb'
    using ok store_ok_update [OF _ that(1)] mailbox_ok_expunge [of k mb] that(2) by simp
  with ok show "store_ok k (ss_store (do_expunge tag s))"
    by (auto simp: do_expunge_def split: option.splits prod.splits)
qed (auto simp: do_expunge_def split: option.splits prod.splits)

lemma conn_rel_append: "conn_rel 0 s (do_append penv tag tokens s)"
proof -
  have main: "conn_rel 0 s (write_line l (s'\<lparr>ss_store := snd (deliver penv name raw (ss_store s'))\<rparr>))"
    if u: "ss_user s \<noteq> None" and r: "read_exact penv (write_line m s) = (Some bytes, s')" for l m name raw bytes s'
  proof -
    obtain st ins where a: "await_bytes penv (ss_store s) (ss_in s) = (Some bytes, st, ins)" and
      s': "s' = (write_line m s)\<lparr>ss_store := st, ss_in := ins\<rparr>"
      using r by (auto simp: read_exact_def split: prod.splits)
    have step: "length ins \<le> length (ss_in s) \<and> (quiet (ss_in s) \<longrightarrow> quiet ins \<and> st = ss_store s) \<and>
       (store_ok (k + length (ss_in s)) (ss_store s) \<longrightarrow> store_ok (Suc (k + length ins)) st)" for k
      using await_bytes_step [OF a, of k] by simp
    then have "store_ok (k + length (ss_in s)) (ss_store s) \<Longrightarrow>
        store_ok (k + length ins) (snd (deliver penv name raw st))" for k
      using store_ok_deliver by blast
    with u step [of 0] show ?thesis by (auto simp: conn_rel_def selected_ok_def s')
  qed
  have closed: "conn_rel 0 s (close_conn s')" if "read_exact penv (write_line m s) = (b, s')" for m b s'
  proof -
    obtain b' st ins where a': "await_bytes penv (ss_store s) (ss_in s) = (b', st, ins)"
      by (metis prod_cases3)
    with that have a: "await_bytes penv (ss_store s) (ss_in s) = (b, st, ins)" and
      s': "s' = (write_line m s)\<lparr>ss_store := st, ss_in := ins\<rparr>"
      by (auto simp: read_exact_def)
    have "store_ok (k + length (ss_in s)) (ss_store s) \<Longrightarrow> store_ok (k + length ins) st" for k
      using await_bytes_step [OF a, of k] by (auto elim: store_ok_mono split: if_splits)
    with await_bytes_step [OF a, of 0] show ?thesis by (auto simp: conn_rel_def selected_ok_def s')
  qed
  show ?thesis
    using main closed conn_rel_write(1)
    by (auto simp: do_append_def Let_def not_authenticated_def split: option.splits prod.splits)
       (metis snd_conv)+
qed

lemma idle_loop_step:
  "idle_loop penv tag name st out ins = (d, st', out', ins') \<Longrightarrow>
     length ins' \<le> length ins \<and> (quiet ins \<longrightarrow> quiet ins' \<and> st' = st) \<and>
     (store_ok (k + length ins) st \<longrightarrow> store_ok (k + length ins') st')"
proof (induction penv tag name st out ins rule: idle_loop.induct)
  case (3 penv tag name st out l ins)
  have less: "store_ok (k + length (InLine l # ins)) st \<Longrightarrow> store_ok (k + length ins) st"
    by (erule store_ok_mono) simp
  show ?case
  proof (cases "eq_ignore_ascii_case (strip_eol l) (lit ''DONE'')")
    case True
    with 3(2) less show ?thesis by (auto simp: quiet_def)
  next
    case False
    with 3 less show ?thesis by (auto simp: quiet_def)
  qed
next
  case (4 penv tag name st out box raw ins)
  then show ?case
    using store_ok_deliver [of "k + length ins" st penv box raw] by (fastforce simp: quiet_def Let_def)
qed (auto simp: quiet_def elim: store_ok_mono)

lemma conn_rel_idle: "conn_rel 0 s (do_idle penv tag s)"
proof (cases "ss_user s = None \<or> ss_selected s = None")
  case True
  then show ?thesis by (intro conn_rel_same) (auto simp: do_idle_def split: option.splits)
next
  case False
  then obtain name user where n: "ss_selected s = Some name" and u: "ss_user s = Some user" by auto
  let ?s = "write_line (lit ''+ idling'') s"
  obtain d st out ins where i: "idle_loop penv tag name (ss_store ?s) (ss_out ?s) (ss_in ?s) = (d, st, out, ins)"
    by (metis prod_cases4)
  have "do_idle penv tag s = ?s\<lparr>ss_store := st, ss_out := out, ss_in := ins, ss_open := d\<rparr>"
    using i n u by (simp add: do_idle_def Let_def)
  with idle_loop_step [OF i] u show ?thesis by (auto simp: conn_rel_def selected_ok_def)
qed

lemma conn_rel_others: "conn_rel 0 s (do_logout tag s)" "conn_rel 0 s (do_capability tag s)"
  by (rule conn_rel_same; simp add: do_logout_def do_capability_def)+

lemma conn_rel_mono: "conn_rel i s t \<Longrightarrow> i \<le> j \<Longrightarrow> conn_rel j s t"
  unfolding conn_rel_def by (metis (no_types, lifting) store_ok_mono add_le_mono1 add_right_mono)

lemmas conn_rel_commands =
  conn_rel_login conn_rel_authenticate conn_rel_list conn_rel_select conn_rel_status conn_rel_fetch
  conn_rel_uid_fetch conn_rel_append conn_rel_do_store conn_rel_expunge conn_rel_idle conn_rel_others
  conn_rel_write(1)

lemma conn_rel_dispatch: "conn_rel 1 s (imap_dispatch b64dec b64enc penv tag verb tokens s)"
  unfolding imap_dispatch_def
  using conn_rel_commands [THEN conn_rel_mono [of 0 _ _ 1]] conn_rel_copy by simp

lemma conn_rel_line: "conn_rel 1 s (imap_line b64dec b64enc penv l s)"
  using conn_rel_dispatch conn_rel_same [of s s 1] by (simp add: imap_line_def Let_def split: list.splits)

section \<open>Sessions\<close>

lemma imap_turn:
  assumes "read_line penv s = (Some l, t)"
  shows "conn_rel 0 s (imap_line b64dec b64enc penv l t)"
    and "length (ss_in (imap_line b64dec b64enc penv l t)) < length (ss_in s)"
proof -
  note rd = conn_rel_read_line [OF assms]
  note ln = conn_rel_line [of t b64dec b64enc penv l]
  show len: "length (ss_in (imap_line b64dec b64enc penv l t)) < length (ss_in s)"
    using rd(2) ln by (simp add: conn_rel_def)
  have "store_ok (k + length (ss_in s)) (ss_store s) \<Longrightarrow>
      store_ok (k + length (ss_in (imap_line b64dec b64enc penv l t))) (ss_store (imap_line b64dec b64enc penv l t))" for k
    using rd(3) [of k] ln by (simp add: conn_rel_def)
  with conn_rel_trans [OF rd(1) ln] len show "conn_rel 0 s (imap_line b64dec b64enc penv l t)"
    by (simp add: conn_rel_def)
qed

lemma imap_loop_rel: "conn_rel 0 s (imap_loop b64dec b64enc penv n s)"
proof (induction n arbitrary: s)
  case (Suc n)
  show ?case
    using conn_rel_same [of s s] conn_rel_then [OF imap_turn(1) Suc]
      conn_rel_then [OF conn_rel_read_line(1) conn_rel_write(2)]
    by (auto split: prod.splits option.splits)
qed (simp add: conn_rel_same)

lemma imap_loop_ends: "length (ss_in s) < n \<Longrightarrow> \<not> ss_open (imap_loop b64dec b64enc penv n s)"
proof (induction n arbitrary: s)
  case (Suc n)
  show ?case
  proof (cases "read_line penv s")
    case (Pair l t)
    show ?thesis
    proof (cases l)
      case (Some a)
      with Pair have "read_line penv s = (Some a, t)" by simp
      from imap_turn(2) [OF this] Suc.prems
      have "length (ss_in (imap_line b64dec b64enc penv a t)) < n" by (meson less_Suc_eq_le less_le_trans)
      with Suc.IH Pair Some show ?thesis by simp
    qed (simp add: Pair)
  qed
qed simp

text \<open>A session always ends with what the client sends, with every mailbox still well
  formed (UIDs distinct, ascending, below \<open>UIDNEXT\<close>) as long as \<open>UIDNEXT\<close> has room for one
  message per input, and with a mailbox selected only if a user signed in.\<close>

theorem handle_imap_ok:
  assumes "store_ok (k + length ins) st"
  shows "store_ok k (ss_store (handle_imap b64dec b64enc penv st ins)) \<and>
    \<not> ss_open (handle_imap b64dec b64enc penv st ins) \<and>
    (ss_selected (handle_imap b64dec b64enc penv st ins) \<noteq> None \<longrightarrow>
       ss_user (handle_imap b64dec b64enc penv st ins) \<noteq> None)"
proof -
  let ?s = "write_line (lit ''* OK esmail mail-mock-server ready'')
      \<lparr>ss_user = None, ss_selected = None, ss_store = st, ss_out = [], ss_in = ins, ss_open = True\<rparr>"
  have rel: "conn_rel 0 ?s (handle_imap b64dec b64enc penv st ins)"
    unfolding handle_imap_def by (rule imap_loop_rel)
  have sel: "selected_ok ?s" by (simp add: selected_ok_def)
  have ends: "\<not> ss_open (handle_imap b64dec b64enc penv st ins)"
    unfolding handle_imap_def by (rule imap_loop_ends) simp
  have "store_ok (k + length (ss_in (handle_imap b64dec b64enc penv st ins))) (ss_store (handle_imap b64dec b64enc penv st ins))"
    using rel assms by (auto simp: conn_rel_def)
  then have "store_ok k (ss_store (handle_imap b64dec b64enc penv st ins))" by (rule store_ok_mono) simp
  with rel sel ends show ?thesis by (auto simp: conn_rel_def selected_ok_def)
qed

theorem handle_imap_ok_witness:
  "store_ok 5 (ss_store (handle_imap (\<lambda>_. None) (\<lambda>_. []) (\<lambda>_. envelope_default)
     (add_user (lit ''me'') (lit ''pw'') store_new) [InLine (lit ''a LOGIN me pw''), InDelivered (lit ''INBOX'') [65]]))"
proof -
  have "store_ok (5 + length [InLine (lit ''a LOGIN me pw''), InDelivered (lit ''INBOX'') [65]])
      (add_user (lit ''me'') (lit ''pw'') store_new)"
    by (intro store_ok_add_user store_ok_new) simp
  from handle_imap_ok [OF this] show ?thesis by blast
qed

text \<open>A session that never signs in changes no mailbox, no flag and no account.\<close>

theorem no_sign_in_no_change:
  assumes "quiet ins" and "ss_user (handle_imap b64dec b64enc penv st ins) = None"
  shows "ss_store (handle_imap b64dec b64enc penv st ins) = st"
proof -
  let ?s = "write_line (lit ''* OK esmail mail-mock-server ready'')
      \<lparr>ss_user = None, ss_selected = None, ss_store = st, ss_out = [], ss_in = ins, ss_open = True\<rparr>"
  have "conn_rel 0 ?s (handle_imap b64dec b64enc penv st ins)"
    unfolding handle_imap_def by (rule imap_loop_rel)
  with assms show ?thesis by (simp add: conn_rel_def selected_ok_def)
qed

theorem no_sign_in_no_change_witness:
  "ss_store (handle_imap (\<lambda>_. None) (\<lambda>_. []) (\<lambda>_. envelope_default) store_new
     [InLine (lit ''a APPEND x {1}''), InBytes [65, 13, 10]]) = store_new"
  by (rule no_sign_in_no_change) (simp add: quiet_def, code_simp)

section \<open>Fetching a message\<close>

lemma filter_zip_unique:
  assumes "distinct (map f xs)" and "i < length xs"
  shows "filter (\<lambda>(j, x). f x = f (xs ! i)) (zip [n..<n + length xs] xs) = [(n + i, xs ! i)]"
  using assms
proof (induction xs arbitrary: n i)
  case (Cons x xs)
  have z: "zip [n..<n + length (x # xs)] (x # xs) = (n, x) # zip [Suc n..<Suc n + length xs] xs"
    by (simp add: upt_rec)
  show ?case
  proof (cases i)
    case 0
    have "filter (\<lambda>(j, y). f y = f x) (zip [Suc n..<Suc n + length xs] xs) = []"
    proof -
      have "f y \<noteq> f x" if "(j, y) \<in> set (zip [Suc n..<Suc n + length xs] xs)" for j y
        using set_zip_rightD [OF that] Cons.prems(1) by (metis distinct.simps(2) image_eqI list.map(2) list.set_map)
      then show ?thesis by (auto simp: filter_empty_conv)
    qed
    then show ?thesis unfolding z using 0 by simp
  next
    case (Suc i')
    then have "f x \<noteq> f (xs ! i')" using Cons.prems by auto
    with Cons.IH [of i' "Suc n"] Suc Cons.prems show ?thesis unfolding z by simp
  qed
qed simp

text \<open>Fetching a message of the selected mailbox by its UID answers with exactly that message,
  its raw bytes as a literal under its sequence number, and changes nothing else.\<close>

theorem uid_fetch_exact:
  assumes "ss_selected s = Some box" and "store_mailbox box (ss_store s) = Some mb"
    and "mailbox_ok k mb" and "i < length (mb_messages mb)" and "\<not> st_drop_next (ss_store s)"
  shows "do_uid_fetch tag [tag, lit ''UID'', lit ''FETCH'', dec_u32 (sm_uid (mb_messages mb ! i)), lit ''RFC822''] s =
    s\<lparr>ss_out := ss_out s @ [rfc822_fetch_response (of_nat (i + 1)) (mb_messages mb ! i),
                          utf8 (tag @ lit '' OK UID FETCH completed'' @ [13, 10])]\<rparr>"
proof -
  let ?m = "mb_messages mb ! i"
  let ?u = "dec_u32 (sm_uid ?m)"
  have "distinct (map sm_uid (mb_messages mb))"
    using assms(3) by (simp add: mailbox_ok_def strict_sorted_iff)
  from filter_zip_unique [OF this assms(4), of 0]
  have one: "filter (\<lambda>(j, m). sm_uid m = sm_uid ?m) (list_enum (mb_messages mb)) = [(i, ?m)]"
    by (simp add: list_enum_def)
  have "58 \<notin> set ?u"
    using dec_digits_is_digit [of "unat (sm_uid ?m)"] by (auto simp: dec_u32_def list_all_iff is_digit_def)
  then have range: "uid_range ?u = Some (sm_uid ?m, sm_uid ?m)"
    by (simp add: uid_range_def split_once_None [THEN iffD2])
  have "filter (\<lambda>(i :: nat, m). sm_uid ?m \<le> sm_uid m \<and> sm_uid m \<le> sm_uid ?m) (list_enum (mb_messages mb)) =
      filter (\<lambda>(i, m). sm_uid m = sm_uid ?m) (list_enum (mb_messages mb))"
    by (rule filter_cong) auto
  with one assms(2) have matches: "uid_matches (sm_uid ?m) (sm_uid ?m) box (ss_store s) = [(of_nat (i + 1), ?m)]"
    by (simp add: uid_matches_def)
  have items: "\<not> contains (lit ''ENVELOPE'') (to_ascii_uppercase (lit ''RFC822''))"
    "contains (lit ''RFC822'') (to_ascii_uppercase (lit ''RFC822''))"
    by (simp_all add: lit_def to_ascii_uppercase_def upper_char_def starts_with_def)
  have tok: "token [tag, lit ''UID'', lit ''FETCH'', ?u, lit ''RFC822''] 3 = Some ?u"
    by (simp add: token_def)
  show ?thesis
    using assms(1,5) tok items range matches
    by (simp add: do_uid_fetch_def write_line_def write_all_def)
qed

definition demo_mailbox :: mailbox where
  "demo_mailbox = snd (mb_append [66] envelope_default (snd (mb_append [65] envelope_default (mailbox_new (lit ''INBOX'') 1))))"

definition demo_session :: session where
  "demo_session = \<lparr>ss_user = Some (lit ''me''), ss_selected = Some (lit ''INBOX''),
     ss_store = put_mailbox (lit ''INBOX'') demo_mailbox store_new, ss_out = [], ss_in = [], ss_open = True\<rparr>"

theorem uid_fetch_exact_witness:
  "ss_out (do_uid_fetch (lit ''a'') [lit ''a'', lit ''UID'', lit ''FETCH'', dec_u32 2, lit ''RFC822''] demo_session) =
     [rfc822_fetch_response 2 \<lparr>sm_uid = 2, sm_raw = [66], sm_envelope = envelope_default, sm_flags = []\<rparr>,
      utf8 (lit ''a'' @ lit '' OK UID FETCH completed'' @ [13, 10])]"
proof -
  have ms: "mb_messages demo_mailbox = [\<lparr>sm_uid = 1, sm_raw = [65], sm_envelope = envelope_default, sm_flags = []\<rparr>,
      \<lparr>sm_uid = 2, sm_raw = [66], sm_envelope = envelope_default, sm_flags = []\<rparr>]"
    by (simp add: demo_mailbox_def mb_append_def mailbox_new_def Let_def)
  have ok: "mailbox_ok 3 demo_mailbox"
    unfolding demo_mailbox_def by (intro mailbox_ok_append mailbox_ok_new) simp
  show ?thesis
    using uid_fetch_exact [of demo_session "lit ''INBOX''" demo_mailbox 3 1 "lit ''a''"] ok
    by (simp add: ms demo_session_def store_new_def put_mailbox_def store_mailbox_def)
qed

end
