(* ===== verification/SmtpServer.thy ===== *)
theory SmtpServer
  imports ImapServer
begin

text \<open>
  The test server's SMTP half, \<open>crates/mail-mock-server/src/smtp_server.rs\<close>: the session
  (\<open>EHLO\<close>, \<open>AUTH\<close>, \<open>MAIL\<close>, \<open>RCPT\<close>, \<open>DATA\<close>, \<open>RSET\<close>, \<open>NOOP\<close>, \<open>QUIT\<close>), the sign-ins and the
  dot-terminated body.  The input is the list of lines with their line ends; the base64
  decoder and the envelope parser are arguments.  The lemmas show that the body of a message
  arrives as it was sent, that nothing is delivered without an accepted sign-in, and that
  \<open>DATA\<close> delivers one copy per recipient.
\<close>

section \<open>Pieces of a command\<close>

text \<open>\<open>splitn(3, 0)\<close> has at most three pieces, the last with everything left.\<close>

definition split3 :: "byte list \<Rightarrow> byte list list" where
  "split3 bs =
     (case split_once 0 bs of
        None \<Rightarrow> [bs]
      | Some (a, r) \<Rightarrow> (case split_once 0 r of None \<Rightarrow> [a, r] | Some (b, c) \<Rightarrow> [a, b, c]))"

definition authenticate_plain :: "(str \<Rightarrow> byte list option) \<Rightarrow> store \<Rightarrow> str \<Rightarrow> bool" where
  "authenticate_plain b64dec st arg =
     (case b64dec arg of
        None \<Rightarrow> False
      | Some decoded \<Rightarrow>
          (case split3 decoded of
             [_, authcid, password] \<Rightarrow>
               (case (from_utf8 authcid, from_utf8 password) of
                  (Some user, Some pass) \<Rightarrow> check_login user pass st
                | _ \<Rightarrow> False)
           | _ \<Rightarrow> False))"

definition authenticate_xoauth2 :: "(str \<Rightarrow> byte list option) \<Rightarrow> store \<Rightarrow> str \<Rightarrow> bool" where
  "authenticate_xoauth2 b64dec st arg =
     (case b64dec arg of None \<Rightarrow> False | Some payload \<Rightarrow> check_xoauth2 payload st \<noteq> None)"

definition extract_angle_address :: "str \<Rightarrow> str option" where
  "extract_angle_address line =
     Option.bind (find_char 60 line) (\<lambda>start.
     map_option (\<lambda>len. take (len - 1) (drop (start + 1) line)) (find_char 62 (drop start line)))"

definition mailbox_for_recipient :: "str \<Rightarrow> str" where
  "mailbox_for_recipient _ = lit ''INBOX''"

text \<open>The lines of the body up to the lone dot; \<open>None\<close> when the connection closes first.\<close>

fun read_dot_terminated_body :: "str list \<Rightarrow> (byte list \<times> str list) option" where
  "read_dot_terminated_body [] = None"
| "read_dot_terminated_body (line # ls) =
     (if line = [46, 13, 10] \<or> line = [46, 10] then Some ([], ls)
      else map_option (\<lambda>(raw, rest).
          (utf8 (case strip_prefix [46, 46] line of Some stripped \<Rightarrow> 46 # stripped | None \<Rightarrow> line) @ raw, rest))
        (read_dot_terminated_body ls))"

section \<open>The session\<close>

record smtp_session =
  smtp_authenticated :: bool
  smtp_recipients :: "str list"
  smtp_store :: store
  smtp_out :: "str list"
  smtp_in :: "str list"
  smtp_open :: bool

definition reply :: "str \<Rightarrow> smtp_session \<Rightarrow> smtp_session" where
  "reply l s = s\<lparr>smtp_out := smtp_out s @ [l @ [13, 10]]\<rparr>"

definition set_authenticated :: "bool \<Rightarrow> smtp_session \<Rightarrow> smtp_session" where
  "set_authenticated ok s =
     reply (if ok then lit ''235 Authentication successful'' else lit ''535 Authentication failed'')
       (s\<lparr>smtp_authenticated := ok\<rparr>)"

definition smtp_data :: "(byte list \<Rightarrow> envelope) \<Rightarrow> smtp_session \<Rightarrow> smtp_session" where
  "smtp_data penv s =
     (if \<not> smtp_authenticated s \<or> smtp_recipients s = []
      then reply (lit ''503 bad sequence of commands'') s
      else (let s' = reply (lit ''354 Start mail input; end with <CRLF>.<CRLF>'') s in
        case read_dot_terminated_body (smtp_in s') of
          None \<Rightarrow> s'\<lparr>smtp_in := [], smtp_open := False\<rparr>
        | Some (raw, rest) \<Rightarrow>
            reply (lit ''250 OK Message accepted'')
              (s'\<lparr>smtp_in := rest,
                  smtp_store := foldl (\<lambda>st r. snd (deliver penv (mailbox_for_recipient r) raw st))
                    (smtp_store s') (smtp_recipients s')\<rparr>)))"

definition smtp_line ::
  "(str \<Rightarrow> byte list option) \<Rightarrow> (byte list \<Rightarrow> envelope) \<Rightarrow> str \<Rightarrow> smtp_session \<Rightarrow> smtp_session" where
  "smtp_line b64dec penv line s =
     (let trimmed = strip_eol line; upper = to_ascii_uppercase trimmed in
      if starts_with (lit ''EHLO'') upper \<or> starts_with (lit ''HELO'') upper
      then reply (lit ''250 AUTH PLAIN XOAUTH2'') (reply (lit ''250-esmail mock server'') s)
      else if starts_with (lit ''AUTH XOAUTH2'') upper
      then set_authenticated (authenticate_xoauth2 b64dec (smtp_store s) (trim (drop 12 trimmed))) s
      else if starts_with (lit ''AUTH PLAIN'') upper
      then set_authenticated (authenticate_plain b64dec (smtp_store s) (trim (drop 10 trimmed))) s
      else if starts_with (lit ''MAIL FROM'') upper
      then (if \<not> smtp_authenticated s then reply (lit ''530 Authentication required'') s
            else reply (lit ''250 OK'') (s\<lparr>smtp_recipients := []\<rparr>))
      else if starts_with (lit ''RCPT TO'') upper
      then (if \<not> smtp_authenticated s then reply (lit ''530 Authentication required'') s
            else reply (lit ''250 OK'')
              (case extract_angle_address trimmed of
                 Some addr \<Rightarrow> s\<lparr>smtp_recipients := smtp_recipients s @ [addr]\<rparr> | None \<Rightarrow> s))
      else if starts_with (lit ''DATA'') upper then smtp_data penv s
      else if starts_with (lit ''RSET'') upper then reply (lit ''250 OK'') (s\<lparr>smtp_recipients := []\<rparr>)
      else if starts_with (lit ''NOOP'') upper then reply (lit ''250 OK'') s
      else if starts_with (lit ''QUIT'') upper then (reply (lit ''221 Bye'') s)\<lparr>smtp_open := False\<rparr>
      else reply (lit ''500 unrecognized command'') s)"

fun smtp_loop :: "(str \<Rightarrow> byte list option) \<Rightarrow> (byte list \<Rightarrow> envelope) \<Rightarrow> nat \<Rightarrow> smtp_session \<Rightarrow> smtp_session" where
  "smtp_loop b64dec penv 0 s = s"
| "smtp_loop b64dec penv (Suc n) s =
     (if \<not> smtp_open s then s
      else case smtp_in s of
        [] \<Rightarrow> s\<lparr>smtp_open := False\<rparr>
      | l # ls \<Rightarrow> smtp_loop b64dec penv n (smtp_line b64dec penv l (s\<lparr>smtp_in := ls\<rparr>)))"

text \<open>A connection with every line the client will send: each turn takes a line.\<close>

definition handle_smtp ::
  "(str \<Rightarrow> byte list option) \<Rightarrow> (byte list \<Rightarrow> envelope) \<Rightarrow> store \<Rightarrow> str list \<Rightarrow> smtp_session" where
  "handle_smtp b64dec penv st ls =
     smtp_loop b64dec penv (Suc (length ls))
       (reply (lit ''220 esmail mail-mock-server ready'')
          \<lparr>smtp_authenticated = False, smtp_recipients = [], smtp_store = st, smtp_out = [],
           smtp_in = ls, smtp_open = True\<rparr>)"

section \<open>The body\<close>

text \<open>How a client sends a line: one more dot in front of a line that starts with one.\<close>

fun dot_stuff :: "str \<Rightarrow> str" where
  "dot_stuff [] = []"
| "dot_stuff (c # cs) = (if c = 46 then 46 # c # cs else c # cs)"

lemma read_stuffed_line:
  "read_dot_terminated_body (dot_stuff l # ls) =
     map_option (\<lambda>(raw, rest). (utf8 l @ raw, rest)) (read_dot_terminated_body ls)"
  by (cases l) auto

lemma read_stuffed_body:
  "read_dot_terminated_body (map dot_stuff ls @ [46, 13, 10] # rest) = Some (utf8 (concat ls), rest)"
  by (induction ls) (simp_all add: read_stuffed_line del: read_dot_terminated_body.simps(2), simp)

text \<open>Whatever lines a message has, also ones that are a lone dot, the body the server reads is
  the message the client sent, and the lines after the terminating dot are left for the next
  command.\<close>

theorem body_roundtrip:
  "read_dot_terminated_body (map dot_stuff ls @ [46, 13, 10] # rest) = Some (utf8 (concat ls), rest)"
  by (fact read_stuffed_body)

lemma read_body_rest: "read_dot_terminated_body ls = Some (raw, rest) \<Longrightarrow> length rest < length ls \<and> set rest \<subseteq> set ls"
proof (induction ls arbitrary: raw)
  case (Cons l ls)
  then show ?case by (fastforce split: if_splits)
qed simp

section \<open>Sign-in before delivery\<close>

text \<open>A line that signs in: the command with an argument the store accepts.\<close>

definition signs_in :: "(str \<Rightarrow> byte list option) \<Rightarrow> store \<Rightarrow> str \<Rightarrow> bool" where
  "signs_in b64dec st line =
     (let trimmed = strip_eol line; upper = to_ascii_uppercase trimmed in
      starts_with (lit ''AUTH XOAUTH2'') upper \<and> authenticate_xoauth2 b64dec st (trim (drop 12 trimmed)) \<or>
      starts_with (lit ''AUTH PLAIN'') upper \<and> authenticate_plain b64dec st (trim (drop 10 trimmed)))"

lemma reply_simps [simp]:
  "smtp_authenticated (reply l s) = smtp_authenticated s" "smtp_store (reply l s) = smtp_store s"
  "smtp_in (reply l s) = smtp_in s" "smtp_recipients (reply l s) = smtp_recipients s"
  "smtp_open (reply l s) = smtp_open s" "smtp_out (reply l s) = smtp_out s @ [l @ [13, 10]]"
  by (simp_all add: reply_def)

lemma set_authenticated_simps [simp]:
  "smtp_authenticated (set_authenticated b s) = b" "smtp_store (set_authenticated b s) = smtp_store s"
  "smtp_in (set_authenticated b s) = smtp_in s" "smtp_recipients (set_authenticated b s) = smtp_recipients s"
  by (simp_all add: set_authenticated_def)

lemma smtp_data_simps:
  "smtp_authenticated (smtp_data penv s) = smtp_authenticated s"
  "set (smtp_in (smtp_data penv s)) \<subseteq> set (smtp_in s)" "length (smtp_in (smtp_data penv s)) \<le> length (smtp_in s)"
  "\<not> smtp_authenticated s \<Longrightarrow> smtp_store (smtp_data penv s) = smtp_store s"
  using read_body_rest [of "smtp_in s"]
  by (auto simp: smtp_data_def Let_def less_imp_le split: option.splits)

lemma smtp_line_in:
  "set (smtp_in (smtp_line b64dec penv l s)) \<subseteq> set (smtp_in s) \<and>
   length (smtp_in (smtp_line b64dec penv l s)) \<le> length (smtp_in s)"
  using smtp_data_simps(2,3) [of penv s]
  by (simp add: smtp_line_def Let_def split: option.splits)

lemma smtp_line_unauthenticated:
  assumes "\<not> smtp_authenticated s" and "\<not> signs_in b64dec (smtp_store s) l"
  shows "\<not> smtp_authenticated (smtp_line b64dec penv l s) \<and> smtp_store (smtp_line b64dec penv l s) = smtp_store s"
  using assms by (simp add: smtp_line_def signs_in_def Let_def smtp_data_simps)

lemma smtp_loop_unauthenticated:
  "\<not> smtp_authenticated s \<Longrightarrow> \<forall>l\<in>set (smtp_in s). \<not> signs_in b64dec (smtp_store s) l \<Longrightarrow>
     smtp_store (smtp_loop b64dec penv n s) = smtp_store s"
proof (induction n arbitrary: s)
  case (Suc n)
  show ?case
  proof (cases "smtp_in s")
    case (Cons l ls)
    let ?t = "smtp_line b64dec penv l (s\<lparr>smtp_in := ls\<rparr>)"
    have "\<not> smtp_authenticated ?t \<and> smtp_store ?t = smtp_store s"
      using smtp_line_unauthenticated [of "s\<lparr>smtp_in := ls\<rparr>" b64dec l penv] Suc.prems Cons by simp
    moreover have "set (smtp_in ?t) \<subseteq> set (smtp_in s)"
      using smtp_line_in [of b64dec penv l "s\<lparr>smtp_in := ls\<rparr>"] Cons by auto
    ultimately show ?thesis using Suc.IH [of ?t] Suc.prems Cons by (auto dest: subsetD)
  qed simp
qed simp

text \<open>A session in which no line carries credentials that the store accepts delivers nothing.\<close>

theorem no_credentials_no_mail:
  assumes "\<forall>l\<in>set ls. \<not> signs_in b64dec st l"
  shows "smtp_store (handle_smtp b64dec penv st ls) = st"
  unfolding handle_smtp_def using assms by (subst smtp_loop_unauthenticated) simp_all

lemma empty_store_no_sign_in: "\<not> signs_in b64dec store_new l"
proof -
  have "check_xoauth2 p store_new = None" for p
    by (auto simp: check_xoauth2_def store_new_def split: option.splits prod.splits)
  moreover have "\<not> check_login u p store_new" for u p
    by (simp add: check_login_def store_new_def)
  ultimately have "\<not> authenticate_xoauth2 b64dec store_new a" "\<not> authenticate_plain b64dec store_new a" for a
    by (auto simp: authenticate_xoauth2_def authenticate_plain_def split: option.split list.split prod.split) (metis not_None_eq)
  then show ?thesis by (simp add: signs_in_def Let_def)
qed

theorem no_credentials_no_mail_witness:
  "smtp_store (handle_smtp (\<lambda>_. Some [0, 109, 101, 0, 112]) (\<lambda>_. envelope_default) store_new
     (map lit [''AUTH PLAIN x'', ''MAIL FROM:<a>'', ''RCPT TO:<b>'', ''DATA''])) = store_new"
  by (rule no_credentials_no_mail) (simp add: empty_store_no_sign_in)

lemma smtp_loop_ends: "length (smtp_in s) < n \<Longrightarrow> \<not> smtp_open (smtp_loop b64dec penv n s)"
proof (induction n arbitrary: s)
  case (Suc n)
  show ?case
  proof (cases "smtp_in s")
    case (Cons l ls)
    have "length (smtp_in (smtp_line b64dec penv l (s\<lparr>smtp_in := ls\<rparr>))) \<le> length ls"
      using smtp_line_in [of b64dec penv l "s\<lparr>smtp_in := ls\<rparr>"] by simp
    with Suc.IH [of "smtp_line b64dec penv l (s\<lparr>smtp_in := ls\<rparr>)"] Suc.prems Cons show ?thesis by simp
  qed simp
qed simp

lemma handle_smtp_ends: "\<not> smtp_open (handle_smtp b64dec penv st ls)"
  unfolding handle_smtp_def by (rule smtp_loop_ends) simp

section \<open>Delivery\<close>

lemma deliver_entry:
  "mb_messages (mailbox_entry n (snd (deliver penv n' raw st))) =
     mb_messages (mailbox_entry n st) @
       (if n = n' then [\<lparr>sm_uid = mb_uid_next (mailbox_entry n st), sm_raw = raw, sm_envelope = penv raw, sm_flags = []\<rparr>]
        else [])"
  by (simp add: deliver_def mb_append_def Let_def) (simp add: mailbox_entry_def)

lemma deliver_all_raw:
  "map sm_raw (mb_messages (mailbox_entry n (foldl (\<lambda>st r. snd (deliver penv (mailbox_for_recipient r) raw st)) st rs))) =
     map sm_raw (mb_messages (mailbox_entry n st)) @ (if n = lit ''INBOX'' then replicate (length rs) raw else [])"
proof (induction rs arbitrary: st)
  case (Cons r rs)
  then show ?case by (simp add: deliver_entry mailbox_for_recipient_def)
qed simp

text \<open>After a sign-in and at least one recipient, \<open>DATA\<close> adds to the inbox one copy of the message
  per recipient, behind the messages that were there, and no other mailbox gets one.\<close>

theorem data_delivers:
  assumes "smtp_authenticated s" and "smtp_recipients s \<noteq> []"
    and "smtp_in s = map dot_stuff ls @ [46, 13, 10] # rest"
  shows "(\<forall>n. map sm_raw (mb_messages (mailbox_entry n (smtp_store (smtp_data penv s)))) =
      map sm_raw (mb_messages (mailbox_entry n (smtp_store s))) @
      (if n = lit ''INBOX'' then replicate (length (smtp_recipients s)) (utf8 (concat ls)) else [])) \<and>
    smtp_in (smtp_data penv s) = rest"
proof -
  have "read_dot_terminated_body (smtp_in s) = Some (utf8 (concat ls), rest)"
    unfolding assms(3) by (fact read_stuffed_body)
  with assms(1,2) show ?thesis
    by (simp add: smtp_data_def Let_def deliver_all_raw)
qed

theorem data_delivers_witness:
  "map sm_raw (mb_messages (mailbox_entry (lit ''INBOX'') (smtp_store (smtp_data (\<lambda>_. envelope_default)
     \<lparr>smtp_authenticated = True, smtp_recipients = [[97], [98]], smtp_store = store_new, smtp_out = [],
      smtp_in = map dot_stuff [[104, 105, 13, 10], [46, 13, 10]] @ [46, 13, 10] # [], smtp_open = True\<rparr>))))
     = [[104, 105, 13, 10, 46, 13, 10], [104, 105, 13, 10, 46, 13, 10]]"
proof -
  let ?s = "\<lparr>smtp_authenticated = True, smtp_recipients = [[97], [98]], smtp_store = store_new, smtp_out = [],
      smtp_in = map dot_stuff [[104, 105, 13, 10], [46, 13, 10]] @ [46, 13, 10] # [], smtp_open = True\<rparr>"
  have "smtp_authenticated ?s" "smtp_recipients ?s \<noteq> []"
    "smtp_in ?s = map dot_stuff [[104, 105, 13, 10], [46, 13, 10]] @ [46, 13, 10] # []" by simp_all
  from data_delivers [OF this, of "\<lambda>_. envelope_default"] show ?thesis
    by (simp add: store_new_def mailbox_entry_def store_mailbox_def mailbox_new_def utf8_def utf8_char_def
        numeral_2_eq_2)
qed

end
