(* ===== verification/Notify.thy ===== *)
theory Notify
  imports MailHeaders
begin

text \<open>
  New-mail detection and the text of notifications, \<open>crates/esmail/src/notify.rs\<close>.  The
  URL-encoding crate is an argument (an encoder of one pair and a parser of a query).  The
  lemmas show that a series of polls announces every new UID once, that a header field cannot
  break out of the toast's markup, and the shape of a sanitised field.
\<close>

section \<open>The watermark\<close>

record mail_watermark =
  mw_uid_validity :: u32
  mw_uid_next :: u32

datatype watermark_update = Baseline | NewMail (first_new_uid: u32) (new_count: u32) | Unchanged

definition update_watermark ::
  "mail_watermark option \<Rightarrow> mail_watermark \<Rightarrow> mail_watermark \<times> watermark_update" where
  "update_watermark previous current =
     (current,
      case previous of
        None \<Rightarrow> Baseline
      | Some p \<Rightarrow>
          if mw_uid_validity p \<noteq> mw_uid_validity current then Baseline
          else if mw_uid_next p < mw_uid_next current
          then NewMail (mw_uid_next p) (mw_uid_next current - mw_uid_next p)
          else Unchanged)"

section \<open>Text\<close>

definition MAX_FIELD_LEN :: nat where
  "MAX_FIELD_LEN = 120"

definition ellipsis :: uchar where
  "ellipsis = 8230"

definition truncate_chars :: "str \<Rightarrow> nat \<Rightarrow> str" where
  "truncate_chars s max_chars =
     (if length s \<le> max_chars then s else take (max_chars - 1) s @ [ellipsis])"

definition sanitize_toast_field :: "str \<Rightarrow> str" where
  "sanitize_toast_field input =
     truncate_chars (join [32] (split_whitespace (map (\<lambda>c. if is_control c then 32 else c) input))) MAX_FIELD_LEN"

definition build_notification :: "mail_header list \<Rightarrow> (str \<times> str) option" where
  "build_notification headers =
     (case headers of
        [] \<Rightarrow> None
      | [h] \<Rightarrow>
          (let sender = sanitize_toast_field (mh_from h);
               sender = (if sender = [] then lit ''someone'' else sender);
               subject = sanitize_toast_field (mh_subject h);
               subject = (if subject = [] then lit ''(no subject)'' else subject)
           in Some (lit ''New mail from '' @ sender, subject))
      | _ \<Rightarrow> Some (lit ''New mail'', dec_digits (length headers) @ lit '' new messages in INBOX''))"

definition build_account_notification :: "str \<Rightarrow> mail_header list \<Rightarrow> (str \<times> str) option" where
  "build_account_notification label headers =
     (case build_notification headers of
        None \<Rightarrow> None
      | Some (title, body) \<Rightarrow>
          (let label' = sanitize_toast_field label in
           if label' = [] then Some (title, body) else Some (label' @ lit '': '' @ title, body)))"

text \<open>\<open>append_pair\<close> is the encoder of one name and value, \<open>form_parse\<close> the parser of a query.\<close>

definition launch_arguments :: "(str \<Rightarrow> str \<Rightarrow> str) \<Rightarrow> str \<Rightarrow> str" where
  "launch_arguments append_pair account_id = append_pair (lit ''account'') account_id"

definition account_from_launch_arguments :: "(str \<Rightarrow> (str \<times> str) list) \<Rightarrow> str \<Rightarrow> str option" where
  "account_from_launch_arguments form_parse arguments =
     (case find (\<lambda>(key, _). key = lit ''account'') (form_parse arguments) of
        Some (_, v) \<Rightarrow> if v \<noteq> [] then Some v else None
      | None \<Rightarrow> None)"

definition xml_escape_char :: "uchar \<Rightarrow> str" where
  "xml_escape_char c =
     (if c = 38 then lit ''&amp;''
      else if c = 60 then lit ''&lt;''
      else if c = 62 then lit ''&gt;''
      else if c = 34 then lit ''&quot;''
      else if c = 39 then lit ''&apos;''
      else [c])"

definition xml_escape :: "str \<Rightarrow> str" where
  "xml_escape s = concat (map xml_escape_char s)"

definition toast_xml :: "(str \<Rightarrow> str \<Rightarrow> str) \<Rightarrow> str \<Rightarrow> str \<Rightarrow> str \<Rightarrow> str" where
  "toast_xml append_pair title body account_id =
     lit ''<toast launch=\"'' @ xml_escape (launch_arguments append_pair account_id) @
     lit ''\"><visual><binding template=\"ToastGeneric\"><text>'' @ xml_escape title @
     lit ''</text><text>'' @ xml_escape body @
     lit ''</text></binding></visual><audio src=\"ms-winsoundevent:Notification.Mail\"/></toast>''"

section \<open>Polling\<close>

text \<open>A series of polls, and the UIDs each new-mail decision is about.\<close>

fun poll_all :: "mail_watermark option \<Rightarrow> mail_watermark list \<Rightarrow> watermark_update list" where
  "poll_all wm [] = []"
| "poll_all wm (obs # rest) =
     (let (wm', u) = update_watermark wm obs in u # poll_all (Some wm') rest)"

definition announced :: "watermark_update \<Rightarrow> nat list" where
  "announced u = (case u of NewMail first n \<Rightarrow> [unat first ..< unat first + unat n] | _ \<Rightarrow> [])"

lemma upt_append: "i \<le> j \<Longrightarrow> j \<le> k \<Longrightarrow> [i..<j] @ [j..<k] = [i..<k]"
  by (metis le_iff_add upt_add_eq_append)

lemma announced_update:
  assumes "mw_uid_validity p = mw_uid_validity c" and "mw_uid_next p \<le> mw_uid_next c"
  shows "announced (snd (update_watermark (Some p) c)) = [unat (mw_uid_next p) ..< unat (mw_uid_next c)]"
proof (cases "mw_uid_next p < mw_uid_next c")
  case True
  then have "unat (mw_uid_next p) < unat (mw_uid_next c)" by (simp add: word_less_nat_alt)
  with True assms(1) show ?thesis
    by (simp add: update_watermark_def announced_def unat_sub_if')
next
  case False
  with assms(2) have "mw_uid_next p = mw_uid_next c" by simp
  with assms(1) show ?thesis by (simp add: update_watermark_def announced_def)
qed

text \<open>While the server keeps its UIDVALIDITY and only ever raises UIDNEXT, the polls after
  the first announce every UID handed out since then exactly once and in order, whatever the
  rhythm of the polls; the first one announces nothing.\<close>

theorem polls_announce_once:
  assumes "\<forall>o1\<in>set (first # obs). mw_uid_validity o1 = v"
    and "sorted (map mw_uid_next (first # obs))"
  shows "concat (map announced (poll_all None (first # obs))) =
    [unat (mw_uid_next first) ..< unat (mw_uid_next (last (first # obs)))]"
proof -
  have "concat (map announced (poll_all (Some p) os)) =
      [unat (mw_uid_next p) ..< unat (mw_uid_next (last (p # os)))]"
    if "\<forall>x\<in>set (p # os). mw_uid_validity x = v" and "sorted (map mw_uid_next (p # os))" for p os
    using that
  proof (induction os arbitrary: p)
    case (Cons x os)
    have le: "mw_uid_next p \<le> mw_uid_next x" and le': "mw_uid_next x \<le> mw_uid_next (last (x # os))"
      using Cons.prems(2) by auto
    have split: "poll_all (Some p) (x # os) = snd (update_watermark (Some p) x) # poll_all (Some x) os"
      by (simp add: update_watermark_def)
    have "announced (snd (update_watermark (Some p) x)) = [unat (mw_uid_next p) ..< unat (mw_uid_next x)]"
      using Cons.prems(1) le by (intro announced_update) simp_all
    moreover have "concat (map announced (poll_all (Some x) os)) =
        [unat (mw_uid_next x) ..< unat (mw_uid_next (last (x # os)))]"
      using Cons.prems by (intro Cons.IH) simp_all
    ultimately have "concat (map announced (poll_all (Some p) (x # os))) =
        [unat (mw_uid_next p) ..< unat (mw_uid_next x)] @ [unat (mw_uid_next x) ..< unat (mw_uid_next (last (x # os)))]"
      unfolding split by simp
    also have "\<dots> = [unat (mw_uid_next p) ..< unat (mw_uid_next (last (x # os)))]"
      using le le' by (intro upt_append) (simp_all add: word_le_nat_alt)
    finally show ?case by simp
  qed simp
  from this [OF assms] show ?thesis by (simp add: update_watermark_def announced_def)
qed

theorem polls_announce_once_witness:
  "concat (map announced (poll_all None
     [\<lparr>mw_uid_validity = 1, mw_uid_next = 5\<rparr>, \<lparr>mw_uid_validity = 1, mw_uid_next = 5\<rparr>,
      \<lparr>mw_uid_validity = 1, mw_uid_next = 8\<rparr>])) = [5, 6, 7]"
  by (subst polls_announce_once [where v = 1]) (simp_all add: upt_rec)

section \<open>The toast\<close>

text \<open>What an XML parser reads back from text: the five entities the code uses.\<close>

function (sequential) xml_unescape :: "str \<Rightarrow> str" where
  "xml_unescape [] = []"
| "xml_unescape (c # cs) =
     (case strip_prefix (lit ''&amp;'') (c # cs) of Some r \<Rightarrow> 38 # xml_unescape (drop 4 cs)
      | None \<Rightarrow> (case strip_prefix (lit ''&lt;'') (c # cs) of Some r \<Rightarrow> 60 # xml_unescape (drop 3 cs)
      | None \<Rightarrow> (case strip_prefix (lit ''&gt;'') (c # cs) of Some r \<Rightarrow> 62 # xml_unescape (drop 3 cs)
      | None \<Rightarrow> (case strip_prefix (lit ''&quot;'') (c # cs) of Some r \<Rightarrow> 34 # xml_unescape (drop 5 cs)
      | None \<Rightarrow> (case strip_prefix (lit ''&apos;'') (c # cs) of Some r \<Rightarrow> 39 # xml_unescape (drop 5 cs)
      | None \<Rightarrow> c # xml_unescape cs)))))"
  by pat_completeness auto
termination
  by (relation "measure length") (simp_all del: strip_prefix_Some)

declare xml_unescape.simps(2) [simp del]

lemma xml_escape_Cons: "xml_escape (c # s) = xml_escape_char c @ xml_escape s"
  by (simp add: xml_escape_def)

lemma xml_unescape_escape_char: "xml_unescape (xml_escape_char c @ s) = c # xml_unescape s"
proof -
  have e: "xml_unescape (lit ''&amp;'' @ s) = 38 # xml_unescape s" "xml_unescape (lit ''&lt;'' @ s) = 60 # xml_unescape s"
    "xml_unescape (lit ''&gt;'' @ s) = 62 # xml_unescape s" "xml_unescape (lit ''&quot;'' @ s) = 34 # xml_unescape s"
    "xml_unescape (lit ''&apos;'' @ s) = 39 # xml_unescape s"
    by (simp add: lit_def, subst xml_unescape.simps(2), simp add: lit_def del: strip_prefix_Some)+
  have "xml_unescape (c # s) = c # xml_unescape s" if "c \<noteq> 38"
    using that by (subst xml_unescape.simps(2)) (simp add: lit_def del: strip_prefix_Some)
  with e show ?thesis by (simp add: xml_escape_char_def)
qed

lemma xml_escape_no_markup: "c \<in> set (xml_escape s) \<Longrightarrow> c \<noteq> 60 \<and> c \<noteq> 62 \<and> c \<noteq> 34 \<and> c \<noteq> 39"
proof (induction s)
  case (Cons d s)
  have chars: "list_all (\<lambda>c. c \<noteq> 60 \<and> c \<noteq> 62 \<and> c \<noteq> 34 \<and> c \<noteq> 39) (xml_escape_char d)"
    by (simp add: xml_escape_char_def lit_def)
  then have "c \<in> set (xml_escape_char d) \<Longrightarrow> c \<noteq> 60 \<and> c \<noteq> 62 \<and> c \<noteq> 34 \<and> c \<noteq> 39"
    unfolding list_all_iff by blast
  with Cons show ?case by (auto simp only: xml_escape_Cons set_append Un_iff)
qed (simp add: xml_escape_def)

text \<open>Text taken from a message cannot break out of the toast: escaped, it holds no \<open><\<close>,
  \<open>></\<close> or quote, so it neither opens nor closes an element nor ends an attribute, and a reader
  of the XML gets back exactly the text.\<close>

theorem xml_escape_safe:
  "xml_unescape (xml_escape s) = s \<and> {60, 62, 34, 39} \<inter> set (xml_escape s) = {}"
proof
  show "xml_unescape (xml_escape s) = s"
    by (induction s) (simp_all add: xml_escape_Cons xml_unescape_escape_char,
        simp add: xml_escape_def)
  show "{60, 62, 34, 39} \<inter> set (xml_escape s) = {}" using xml_escape_no_markup [of _ s] by blast
qed

lemma set_join: "c \<in> set (join sep ws) \<Longrightarrow> c \<in> set sep \<or> (\<exists>w\<in>set ws. c \<in> set w)"
  by (induction sep ws rule: join.induct) auto

lemma split_whitespace_parts:
  "w \<in> set (split_whitespace s) \<Longrightarrow> w \<noteq> [] \<and> (\<forall>c\<in>set w. \<not> is_whitespace c \<and> c \<in> set s)"
proof -
  have sub: "p \<in> set (split_on P s) \<Longrightarrow> c \<in> set p \<Longrightarrow> c \<in> set s" for P p c
  proof (induction P s arbitrary: p rule: split_on.induct)
    case (2 P d cs)
    then show ?case by (cases "split_on P cs") (fastforce split: if_splits)+
  qed simp
  show "w \<in> set (split_whitespace s) \<Longrightarrow> w \<noteq> [] \<and> (\<forall>c\<in>set w. \<not> is_whitespace c \<and> c \<in> set s)"
    using split_on_no_delim [of w is_whitespace s] sub by (auto simp: split_whitespace_def)
qed

text \<open>A sanitised field is one line of at most 120 characters: no control character is left,
  and the only whitespace is single spaces.\<close>

theorem sanitize_one_line:
  "length (sanitize_toast_field s) \<le> 120 \<and>
   (\<forall>c\<in>set (sanitize_toast_field s). \<not> is_control c \<and> (is_whitespace c \<longleftrightarrow> c = 32))"
proof
  let ?m = "map (\<lambda>c. if is_control c then 32 else c) s"
  let ?j = "join [32] (split_whitespace ?m)"
  show "length (sanitize_toast_field s) \<le> 120"
    by (simp add: sanitize_toast_field_def truncate_chars_def MAX_FIELD_LEN_def)
  have "\<not> is_control c \<and> (is_whitespace c \<longleftrightarrow> c = 32)" if "c \<in> set ?j" for c
  proof -
    from set_join [OF that] consider "c = 32" | w where "w \<in> set (split_whitespace ?m)" "c \<in> set w" by auto
    then show ?thesis
    proof cases
      case 1
      then show ?thesis by (simp add: is_whitespace_def is_control_def)
    next
      case 2
      with split_whitespace_parts have c: "\<not> is_whitespace c" "c \<in> set ?m" by blast+
      from c(2) have "\<not> is_control c" by (auto simp: is_control_def split: if_splits)
      moreover have "c \<noteq> 32" using c(1) by (auto simp: is_whitespace_def)
      ultimately show ?thesis using c(1) by blast
    qed
  qed
  moreover have "\<not> is_control ellipsis" "\<not> is_whitespace ellipsis" "ellipsis \<noteq> 32"
    by (simp_all add: ellipsis_def is_control_def is_whitespace_def)
  ultimately show "\<forall>c\<in>set (sanitize_toast_field s). \<not> is_control c \<and> (is_whitespace c \<longleftrightarrow> c = 32)"
    by (auto simp: sanitize_toast_field_def truncate_chars_def dest: in_set_takeD)
qed

lemma launch_roundtrip:
  assumes "\<And>k v. form_parse (append_pair k v) = [(k, v)]" and "account \<noteq> []"
  shows "account_from_launch_arguments form_parse (launch_arguments append_pair account) = Some account"
  using assms by (simp add: account_from_launch_arguments_def launch_arguments_def)

lemma build_notification_None [simp]: "build_notification hs = None \<longleftrightarrow> hs = []"
  by (auto simp: build_notification_def Let_def split: list.splits)

end
