(* ===== verification/ViewModel.thy ===== *)
theory ViewModel
  imports MailboxTree
begin

text \<open>
  The frontend-independent view helpers of \<open>crates/esmail/src/view_model.rs\<close> and the progress
  kinds of \<open>progress.rs\<close>: labels, file names for attachments and exports, the range of a
  shift-click and the text of a message row.  Unicode's alphanumeric property and the date
  formatter are arguments.
\<close>

section \<open>Progress\<close>

datatype progress_kind = PIndex | PFlags | PMove | PAppend | PExport | PAttachment | PSend

datatype progress = Counted (prog_current: u32) (prog_total: u32) | Indeterminate

definition is_bulk :: "progress_kind \<Rightarrow> bool" where
  "is_bulk k \<longleftrightarrow> k = PIndex \<or> k = PFlags \<or> k = PMove"

definition progress_label :: "progress_kind \<Rightarrow> str \<Rightarrow> str" where
  "progress_label kind mailbox =
     (case kind of
        PIndex \<Rightarrow> lit ''Indexing '' @ mailbox @ lit ''...''
      | PFlags \<Rightarrow> lit ''Updating flags...''
      | PMove \<Rightarrow> lit ''Moving messages...''
      | PAppend \<Rightarrow> lit ''Saving to Sent...''
      | PExport \<Rightarrow> lit ''Exporting message...''
      | PAttachment \<Rightarrow> lit ''Saving attachment...''
      | PSend \<Rightarrow> lit ''Sending message...'')"

section \<open>File names\<close>

definition safe_attachment_filename :: "str \<Rightarrow> str" where
  "safe_attachment_filename filename =
     (let name = last (split_on (\<lambda>c. c = 47 \<or> c = 92) filename) in
      if name \<noteq> [] \<and> name \<noteq> lit ''.'' \<and> name \<noteq> lit ''..'' then name else lit ''attachment'')"

definition export_clean_char :: "(uchar \<Rightarrow> bool) \<Rightarrow> uchar \<Rightarrow> uchar" where
  "export_clean_char is_alphanumeric c =
     (if is_alphanumeric c \<or> c = 32 \<or> c = 45 \<or> c = 95 \<or> c = 46 then c else 95)"

definition export_file_name :: "(uchar \<Rightarrow> bool) \<Rightarrow> str \<Rightarrow> u32 \<Rightarrow> str" where
  "export_file_name is_alphanumeric subject uid =
     (let cleaned = map (export_clean_char is_alphanumeric) subject;
          cleaned = take 60 (trim_matches (\<lambda>c. c = 46 \<or> c = 95 \<or> is_whitespace c) cleaned)
      in if cleaned = [] then lit ''message-'' @ dec_u32 uid @ lit ''.eml''
         else trim_end is_whitespace cleaned @ lit ''.eml'')"

section \<open>Rows\<close>

definition select_range :: "mail_header list \<Rightarrow> u32 \<Rightarrow> u32 \<Rightarrow> u32 set" where
  "select_range hs anchor uid =
     (case (position (\<lambda>h. mh_uid h = anchor) hs, position (\<lambda>h. mh_uid h = uid) hs) of
        (Some a, Some b) \<Rightarrow>
          (let (lo, hi) = (if a \<le> b then (a, b) else (b, a))
           in set (map mh_uid (take (Suc hi - lo) (drop lo hs))))
      | _ \<Rightarrow> {uid})"

record row_model =
  rm_sender :: str
  rm_subject :: str
  rm_from :: str
  rm_raw_subject :: str
  rm_raw_date :: str
  rm_local_date_time :: "(str \<times> str) option"
  rm_seen :: bool
  rm_flagged :: bool

definition row_model_of :: "(str \<Rightarrow> (str \<times> str) option) \<Rightarrow> mail_header \<Rightarrow> row_model" where
  "row_model_of format_date header =
     (let sender = sender_name header in
      \<lparr>rm_sender = (if sender = [] then lit ''(unknown sender)'' else sender),
       rm_subject = (if mh_subject header = [] then lit ''(no subject)'' else mh_subject header),
       rm_from = mh_from header, rm_raw_subject = mh_subject header, rm_raw_date = mh_date header,
       rm_local_date_time = format_date (mh_date header),
       rm_seen = is_seen header, rm_flagged = is_flagged header\<rparr>)"

section \<open>Lemmas\<close>

text \<open>Whatever name a sender gives an attachment, the file name has no path separator and is
  neither empty, \<open>.\<close> nor \<open>..\<close>; a name that is already such is kept.\<close>

theorem safe_attachment_filename_safe:
  "(let n = safe_attachment_filename f in n \<noteq> [] \<and> n \<noteq> lit ''.'' \<and> n \<noteq> lit ''..'' \<and> 47 \<notin> set n \<and> 92 \<notin> set n) \<and>
   (f \<noteq> [] \<and> f \<noteq> lit ''.'' \<and> f \<noteq> lit ''..'' \<and> 47 \<notin> set f \<and> 92 \<notin> set f \<longrightarrow> safe_attachment_filename f = f)"
proof
  let ?l = "last (split_on (\<lambda>c. c = 47 \<or> c = 92) f)"
  have "c \<noteq> 47 \<and> c \<noteq> 92" if "c \<in> set ?l" for c
    using split_on_no_delim [OF last_in_set that] by auto
  then have l: "47 \<notin> set ?l" "92 \<notin> set ?l" by blast+
  have "47 \<notin> set (lit ''attachment'')" "92 \<notin> set (lit ''attachment'')" by (simp_all add: lit_def)
  moreover have "lit ''attachment'' \<noteq> []" "lit ''attachment'' \<noteq> lit ''.''" "lit ''attachment'' \<noteq> lit ''..''"
    by simp_all
  moreover have "safe_attachment_filename f = ?l \<and> ?l \<noteq> [] \<and> ?l \<noteq> lit ''.'' \<and> ?l \<noteq> lit ''..'' \<or>
      safe_attachment_filename f = lit ''attachment''"
    by (auto simp add: safe_attachment_filename_def Let_def simp del: lit_inject)
  ultimately show "let n = safe_attachment_filename f in n \<noteq> [] \<and> n \<noteq> lit ''.'' \<and> n \<noteq> lit ''..'' \<and> 47 \<notin> set n \<and> 92 \<notin> set n"
    unfolding Let_def by (elim disjE conjE) (simp_all only: l not_False_eq_True simp_thms)
  have "split_on (\<lambda>c. c = 47 \<or> c = 92) f = [f]" if "47 \<notin> set f" "92 \<notin> set f"
    using that by (intro split_on_id) auto
  then show "f \<noteq> [] \<and> f \<noteq> lit ''.'' \<and> f \<noteq> lit ''..'' \<and> 47 \<notin> set f \<and> 92 \<notin> set f \<longrightarrow> safe_attachment_filename f = f"
    by (simp add: safe_attachment_filename_def)
qed

theorem safe_attachment_filename_safe_witness:
  "safe_attachment_filename (lit ''../x.pdf'') = lit ''x.pdf'' \<and> safe_attachment_filename (lit ''x.pdf'') = lit ''x.pdf''"
proof -
  have "safe_attachment_filename (lit ''x.pdf'') = lit ''x.pdf''"
    using safe_attachment_filename_safe [of "lit ''x.pdf''"] by (simp add: lit_def)
  then show ?thesis by (simp add: safe_attachment_filename_def lit_def)
qed

text \<open>A drive prefix is kept: a sender can name an attachment \<open>C:evil.exe\<close>, which Windows
  reads as a path on drive C, not as a name inside the folder it is joined to.\<close>

theorem drive_prefix_kept: "safe_attachment_filename (lit ''C:evil.exe'') = lit ''C:evil.exe''"
  by (simp add: safe_attachment_filename_def lit_def)

lemma trim_end_prefix: "\<exists>a. s = trim_end P s @ a"
proof -
  have "rev s = takeWhile P (rev s) @ dropWhile P (rev s)" by simp
  then have "s = rev (dropWhile P (rev s)) @ rev (takeWhile P (rev s))" by (metis rev_append rev_rev_ident)
  then show ?thesis by (auto simp: trim_end_def)
qed

lemma trim_matches_hd:
  assumes "trim_matches P s \<noteq> []" shows "\<not> P (hd (trim_matches P s))" and "\<not> P (last (trim_matches P s))"
proof -
  let ?t = "dropWhile P s"
  have e: "trim_matches P s = rev (dropWhile P (rev ?t))" by (simp add: trim_matches_def trim_end_def trim_start_def)
  have ne: "dropWhile P (rev ?t) \<noteq> []" using assms e by simp
  then show "\<not> P (last (trim_matches P s))" unfolding e by (simp add: last_rev hd_dropWhile)
  obtain a where a: "?t = trim_matches P s @ a"
    using trim_end_prefix [of ?t P] by (auto simp: trim_matches_def trim_start_def)
  then have "hd (trim_matches P s) = hd ?t" using assms by simp
  moreover have "?t \<noteq> []" using a assms by auto
  ultimately show "\<not> P (hd (trim_matches P s))" by (simp add: hd_dropWhile)
qed

text \<open>The default name of an exported message ends in \<open>.eml\<close>, does not start with a dot, and
  holds only letters, digits, spaces and \<open>-\<close>, \<open>_\<close>, \<open>.\<close>; its stem has between 1 and 60
  characters, or is made from the UID.\<close>

theorem export_file_name_shape:
  "\<exists>stem. export_file_name an subject uid = stem @ lit ''.eml'' \<and> stem \<noteq> [] \<and> hd stem \<noteq> 46 \<and>
     (stem = lit ''message-'' @ dec_u32 uid \<or>
      length stem \<le> 60 \<and> (\<forall>c\<in>set stem. an c \<or> c = 32 \<or> c = 45 \<or> c = 95 \<or> c = 46))"
proof -
  let ?P = "\<lambda>c. c = 46 \<or> c = 95 \<or> is_whitespace c"
  let ?m = "map (export_clean_char an) subject"
  let ?t = "take 60 (trim_matches ?P ?m)"
  show ?thesis
  proof (cases "?t = []")
    case True
    have "hd (lit ''message-'' @ dec_u32 uid) \<noteq> 46" by (simp add: lit_def)
    with True show ?thesis
      by (intro exI [of _ "lit ''message-'' @ dec_u32 uid"]) (auto simp: export_file_name_def)
  next
    case False
    then have ne: "trim_matches ?P ?m \<noteq> []" by auto
    let ?stem = "trim_end is_whitespace ?t"
    have hd: "\<not> ?P (hd ?t)" using trim_matches_hd(1) [OF ne] False by (simp add: hd_take)
    have "\<exists>c\<in>set ?t. \<not> is_whitespace c" using hd False by (metis hd_in_set)
    then have sne: "?stem \<noteq> []" by (auto simp: trim_end_def)
    obtain a where a: "?t = ?stem @ a" using trim_end_prefix by blast
    have hds: "hd ?stem = hd ?t" by (subst (2) a) (simp add: sne)
    have len: "length ?stem \<le> length ?t" using arg_cong [OF a, of length] by simp
    have "length ?stem \<le> 60" by (rule le_trans [OF len]) simp
    moreover have "an c \<or> c = 32 \<or> c = 45 \<or> c = 95 \<or> c = 46" if "c \<in> set ?stem" for c
    proof -
      have "c \<in> set ?m" using that set_trim_end in_set_takeD set_trim_matches by metis
      then show ?thesis by (auto simp: export_clean_char_def split: if_splits)
    qed
    moreover have "export_file_name an subject uid = ?stem @ lit ''.eml''"
      using False by (simp add: export_file_name_def Let_def)
    moreover have "hd ?stem \<noteq> 46" using hd hds by simp
    ultimately show ?thesis using sne by (intro exI [of _ ?stem]) simp
  qed
qed

lemma select_range_contains:
  assumes "position (\<lambda>h. mh_uid h = uid) hs = Some b"
  shows "uid \<in> select_range hs anchor uid"
proof (cases "position (\<lambda>h. mh_uid h = anchor) hs")
  case (Some a)
  have b: "b < length hs" "mh_uid (hs ! b) = uid" using assms by (simp_all add: position_Some)
  have a: "a < length hs" using Some by (simp add: position_Some)
  have mem: "hs ! b \<in> set (take (Suc hi - lo) (drop lo hs))" if "lo \<le> b" "b \<le> hi" "hi < length hs" for lo hi
  proof -
    have "take (Suc hi - lo) (drop lo hs) ! (b - lo) = hs ! b" "b - lo < length (take (Suc hi - lo) (drop lo hs))"
      using that by auto
    then show ?thesis by (metis nth_mem)
  qed
  show ?thesis
    using mem [of "min a b" "max a b"] a b Some assms
    by (auto simp: select_range_def min_def max_def intro: rev_image_eqI)
qed (simp add: select_range_def)

lemma select_range_sym:
  "position (\<lambda>h. mh_uid h = a) hs \<noteq> None \<Longrightarrow> position (\<lambda>h. mh_uid h = b) hs \<noteq> None \<Longrightarrow>
     select_range hs a b = select_range hs b a"
  by (auto simp: select_range_def Let_def split: if_splits)

end
