(* ===== verification/Compose.thy ===== *)
theory Compose
  imports MailHeaders
begin

text \<open>
  Compose windows, \<open>crates/esmail/src/compose.rs\<close>: the state of a message being written and
  what a reply, a reply to all and a forward start from.  Stripping HTML to text (the
  \<open>ammonia\<close> crate) is an argument.  The lemmas show that prefixes do not pile up, which
  addresses a reply to all keeps, and where taking a recipient list apart is not the inverse
  of putting it together.
\<close>

section \<open>State\<close>

record compose_state =
  cs_to :: str
  cs_cc :: str
  cs_bcc :: str
  cs_subject :: str
  cs_body :: str
  cs_in_reply_to :: "str option"
  cs_references :: "str option"
  cs_attachments :: "(str \<times> byte list) list"
  cs_account_id :: "str option"
  cs_draft_id :: "int option"

definition compose_default :: compose_state where
  "compose_default =
     \<lparr>cs_to = [], cs_cc = [], cs_bcc = [], cs_subject = [], cs_body = [], cs_in_reply_to = None,
      cs_references = None, cs_attachments = [], cs_account_id = None, cs_draft_id = None\<rparr>"

section \<open>Deriving a message from another\<close>

definition with_account :: "str option \<Rightarrow> compose_state \<Rightarrow> compose_state" where
  "with_account account_id s = s\<lparr>cs_account_id := account_id\<rparr>"

definition add_prefix :: "str \<Rightarrow> str \<Rightarrow> str" where
  "add_prefix subject prefix =
     (if eq_ignore_ascii_case (take (length prefix) (trim_start is_whitespace subject)) prefix
      then subject else prefix @ [32] @ subject)"

definition split_addresses :: "str \<Rightarrow> str list" where
  "split_addresses field = filter (\<lambda>a. a \<noteq> []) (map trim (split_on (\<lambda>c. c = 44) field))"

definition addresses_match :: "str \<Rightarrow> str \<Rightarrow> bool" where
  "addresses_match addr my_address \<longleftrightarrow> my_address \<noteq> [] \<and> contains my_address addr"

definition compose_non_empty :: "str \<Rightarrow> str option" where
  "compose_non_empty s = (if s = [] then None else Some s)"

definition quote_original :: "(str \<Rightarrow> str) \<Rightarrow> mail_header \<Rightarrow> str \<Rightarrow> str" where
  "quote_original strip_html original html =
     [10, 10] @ lit ''On '' @ mh_date original @ lit '', '' @ mh_from original @ lit '' wrote:'' @ [10] @
     join [10] (map (\<lambda>line. lit ''> '' @ line) (str_lines (strip_html html)))"

definition from_original :: "(str \<Rightarrow> str) \<Rightarrow> mail_header \<Rightarrow> str \<Rightarrow> str \<Rightarrow> compose_state" where
  "from_original strip_html original html cc =
     \<lparr>cs_to = mh_from original, cs_cc = cc, cs_bcc = [], cs_subject = add_prefix (mh_subject original) (lit ''Re:''),
      cs_body = quote_original strip_html original html,
      cs_in_reply_to = compose_non_empty (mh_message_id original),
      cs_references = compose_non_empty (mh_message_id original),
      cs_attachments = [], cs_account_id = None, cs_draft_id = None\<rparr>"

definition compose_reply :: "(str \<Rightarrow> str) \<Rightarrow> mail_header \<Rightarrow> str \<Rightarrow> compose_state" where
  "compose_reply strip_html original html = from_original strip_html original html []"

definition reply_all :: "(str \<Rightarrow> str) \<Rightarrow> mail_header \<Rightarrow> str \<Rightarrow> str \<Rightarrow> compose_state" where
  "reply_all strip_html original html my_address =
     from_original strip_html original html
       (join (lit '', '') (filter (\<lambda>a. \<not> addresses_match a my_address) (split_addresses (mh_to original))))"

definition compose_forward :: "(str \<Rightarrow> str) \<Rightarrow> mail_header \<Rightarrow> str \<Rightarrow> compose_state" where
  "compose_forward strip_html original html =
     \<lparr>cs_to = [], cs_cc = [], cs_bcc = [], cs_subject = add_prefix (mh_subject original) (lit ''Fwd:''),
      cs_body = quote_original strip_html original html, cs_in_reply_to = None, cs_references = None,
      cs_attachments = [], cs_account_id = None, cs_draft_id = None\<rparr>"

section \<open>Prefixes\<close>

text \<open>However often a message is answered, its subject carries the prefix once.\<close>

theorem add_prefix_once:
  assumes "p \<noteq> []" and "\<not> is_whitespace (hd p)"
  shows "add_prefix (add_prefix s p) p = add_prefix s p"
proof -
  have "trim_start is_whitespace (p @ [32] @ s) = p @ [32] @ s"
    using assms by (cases p) (simp_all add: trim_start_def)
  then show ?thesis by (simp add: add_prefix_def)
qed

theorem add_prefix_once_witness:
  "add_prefix (add_prefix (lit ''Hello'') (lit ''Re:'')) (lit ''Re:'') = add_prefix (lit ''Hello'') (lit ''Re:'')"
  by (rule add_prefix_once) (simp_all add: lit_def is_whitespace_def)

section \<open>Recipients\<close>

lemma split_on_join:
  assumes "ws \<noteq> []" and "\<forall>w\<in>set ws. 44 \<notin> set w"
  shows "split_on (\<lambda>c. c = 44) (join (lit '', '') ws) = hd ws # map ((#) 32) (tl ws)"
  using assms
proof (induction ws rule: induct_list012)
  case (2 w)
  then show ?case by (auto intro!: split_on_id)
next
  case (3 a b ws)
  have s: "split_on (\<lambda>c. c = 44) (x @ 44 # y) = x # split_on (\<lambda>c. c = 44) y" if "44 \<notin> set x" for x y
    using that by (induction x) auto
  have "join (lit '', '') (a # b # ws) = a @ 44 # 32 # join (lit '', '') (b # ws)" by (simp add: lit_def)
  moreover have "split_on (\<lambda>c. c = 44) (32 # r) = (32 # hd (split_on (\<lambda>c. c = 44) r)) # tl (split_on (\<lambda>c. c = 44) r)" for r
    by (cases "split_on (\<lambda>c. c = 44) r") auto
  ultimately show ?case using 3 by (simp add: s)
qed simp

lemma trim_Cons_space: "trim (32 # s) = trim s"
  by (simp add: trim_def trim_matches_def trim_start_def is_whitespace_def)

text \<open>Taking apart a recipient field the client formatted gives back its entries, as long as no
  entry has a comma in it or white space at its ends.\<close>

theorem split_addresses_join:
  assumes "\<forall>w\<in>set ws. w \<noteq> [] \<and> 44 \<notin> set w \<and> trim w = w"
  shows "split_addresses (join (lit '', '') ws) = ws"
proof (cases "ws = []")
  case False
  have "map trim (hd ws # map ((#) 32) (tl ws)) = ws"
    using assms False by (cases ws) (auto simp: trim_Cons_space intro: map_idI)
  moreover have "filter (\<lambda>a. a \<noteq> []) ws = ws" using assms by simp
  ultimately show ?thesis
    using assms False by (simp add: split_addresses_def split_on_join)
qed (simp add: split_addresses_def)

theorem split_addresses_join_witness:
  "split_addresses (join (lit '', '') [lit ''Bob <b@x>'', lit ''a@y'']) = [lit ''Bob <b@x>'', lit ''a@y'']"
  by (rule split_addresses_join) (simp add: lit_def trim_def trim_matches_def trim_start_def trim_end_def is_whitespace_def)

text \<open>A display name with a comma is not taken apart correctly: the recipient
  \<open>Doe, Jane <j@x>\<close> becomes two entries, the first no address at all, and a reply to all
  carries both.\<close>

theorem comma_name_splits:
  "split_addresses (format_addresses (Some [(Some (lit ''Doe, Jane''), lit ''j'', lit ''x'')])) =
     [lit ''Doe'', lit ''Jane <j@x>'']"
  by (simp add: split_addresses_def format_addresses_def format_one_address_def lit_def at_char_def gt_char_def
     trim_def trim_matches_def trim_start_def trim_end_def is_whitespace_def)

text \<open>A reply to all drops every recipient whose entry has my address inside it, so also other
  people: with the address \<open>an@x\<close> it drops \<open>joan@x\<close>.\<close>

theorem reply_all_drops_longer_address:
  "cs_cc (reply_all strip_html \<lparr>mh_uid = 1, mh_subject = [], mh_from = lit ''bob@x'',
      mh_to = lit ''an@x, joan@x, kim@x'', mh_date = [], mh_message_id = [], mh_flags = []\<rparr> html (lit ''an@x'')) = lit ''kim@x''"
  by (simp add: reply_all_def from_original_def split_addresses_def addresses_match_def lit_def starts_with_def
     trim_def trim_matches_def trim_start_def trim_end_def is_whitespace_def)

lemma reply_all_others:
  assumes "\<forall>w\<in>set ws. w \<noteq> [] \<and> 44 \<notin> set w \<and> trim w = w" and "mh_to original = join (lit '', '') ws"
  shows "cs_cc (reply_all strip_html original html me) =
    join (lit '', '') (filter (\<lambda>a. \<not> addresses_match a me) ws)"
  using split_addresses_join [OF assms(1)] assms(2) by (simp add: reply_all_def from_original_def)

end
