(* ===== verification/Config.thy ===== *)
theory Config
  imports Prelude
begin

text \<open>
  The account configuration, \<open>crates/esmail/src/config.rs\<close>: accounts and their defaults, the
  provider table, the theme, the sets of trusted senders and folded folders, and the migration
  of the old plain-text file.  Reading and writing the TOML file is not modelled.  The lemmas
  show that account ids stay distinct, what an update keeps, and that trust does not depend on
  letter case.
\<close>

section \<open>Data\<close>

type_synonym u16 = "16 word"

datatype tls_mode = Ssl | StartTls | NoTls
datatype auth_kind = PasswordAuth | GoogleOAuth

record oauth_client_config =
  oc_client_id :: str
  oc_client_secret :: "str option"

record account_config =
  ac_id :: str
  ac_display_name :: str
  ac_imap_host :: str
  ac_imap_port :: u16
  ac_imap_tls :: tls_mode
  ac_smtp_host :: str
  ac_smtp_port :: u16
  ac_smtp_tls :: tls_mode
  ac_username :: str
  ac_auth :: auth_kind
  ac_watch_mailbox :: "str option"
  ac_oauth_token_issued_at :: "int option"

datatype theme_mode = Dark | Light | System

text \<open>The four \<open>f32\<close> of the saved window, by their bits.\<close>

record window_geometry =
  wg_x :: u32
  wg_y :: u32
  wg_width :: u32
  wg_height :: u32

record config =
  cfg_accounts :: "account_config list"
  cfg_theme :: theme_mode
  cfg_window :: "window_geometry option"
  cfg_google_oauth :: "oauth_client_config option"
  cfg_image_trusted_senders :: "str set"
  cfg_collapsed_folders :: "str set"

definition config_default :: config where
  "config_default = \<lparr>cfg_accounts = [], cfg_theme = System, cfg_window = None, cfg_google_oauth = None,
     cfg_image_trusted_senders = {}, cfg_collapsed_folders = {}\<rparr>"

section \<open>Operations\<close>

definition derive_smtp_host :: "str \<Rightarrow> str" where
  "derive_smtp_host imap_host =
     (case strip_prefix (lit ''imap.'') imap_host of
        Some rest \<Rightarrow> lit ''smtp.'' @ rest
      | None \<Rightarrow> lit ''smtp.'' @ imap_host)"

definition account_config_new :: "str \<Rightarrow> str \<Rightarrow> u16 \<Rightarrow> str \<Rightarrow> account_config" where
  "account_config_new display_name imap_host imap_port username =
     \<lparr>ac_id = username @ [64] @ imap_host, ac_display_name = display_name, ac_imap_host = imap_host,
      ac_imap_port = imap_port, ac_imap_tls = Ssl, ac_smtp_host = derive_smtp_host imap_host,
      ac_smtp_port = 465, ac_smtp_tls = Ssl, ac_username = username, ac_auth = PasswordAuth,
      ac_watch_mailbox = None, ac_oauth_token_issued_at = None\<rparr>"

record provider_settings =
  ps_imap_host :: str
  ps_imap_port :: u16
  ps_smtp_host :: str
  ps_smtp_port :: u16

definition provider :: "string \<Rightarrow> string \<Rightarrow> string \<Rightarrow> u16 \<Rightarrow> str \<times> provider_settings" where
  "provider domain imap smtp smtp_port =
     (lit domain, \<lparr>ps_imap_host = lit imap, ps_imap_port = 993, ps_smtp_host = lit smtp, ps_smtp_port = smtp_port\<rparr>)"

definition PROVIDERS :: "(str \<times> provider_settings) list" where
  "PROVIDERS =
     [provider ''gmail.com'' ''imap.gmail.com'' ''smtp.gmail.com'' 465,
      provider ''googlemail.com'' ''imap.gmail.com'' ''smtp.gmail.com'' 465,
      provider ''outlook.com'' ''outlook.office365.com'' ''smtp.office365.com'' 587,
      provider ''hotmail.com'' ''outlook.office365.com'' ''smtp.office365.com'' 587,
      provider ''live.com'' ''outlook.office365.com'' ''smtp.office365.com'' 587,
      provider ''yahoo.com'' ''imap.mail.yahoo.com'' ''smtp.mail.yahoo.com'' 465,
      provider ''icloud.com'' ''imap.mail.me.com'' ''smtp.mail.me.com'' 587,
      provider ''me.com'' ''imap.mail.me.com'' ''smtp.mail.me.com'' 587,
      provider ''fastmail.com'' ''imap.fastmail.com'' ''smtp.fastmail.com'' 465,
      provider ''gmx.com'' ''imap.gmx.com'' ''smtp.gmx.com'' 465,
      provider ''zoho.com'' ''imap.zoho.com'' ''smtp.zoho.com'' 465]"

definition provider_for_email :: "str \<Rightarrow> provider_settings option" where
  "provider_for_email email =
     (case rfind_char 64 email of
        None \<Rightarrow> None
      | Some at \<Rightarrow>
          (let domain = to_ascii_lowercase (trim (drop (Suc at) email)) in
           if domain = [] then None else map_of PROVIDERS domain))"

fun theme_next :: "theme_mode \<Rightarrow> theme_mode" where
  "theme_next Dark = Light"
| "theme_next Light = System"
| "theme_next System = Dark"

fun theme_label :: "theme_mode \<Rightarrow> str" where
  "theme_label Dark = lit ''Dark''"
| "theme_label Light = lit ''Light''"
| "theme_label System = lit ''System''"

definition collapsed_folder_key :: "str \<Rightarrow> str \<Rightarrow> str" where
  "collapsed_folder_key account_id folder_key = account_id @ [9] @ folder_key"

definition migrate_legacy_content :: "str \<Rightarrow> config \<Rightarrow> bool \<times> config" where
  "migrate_legacy_content content cfg =
     (if cfg_accounts cfg \<noteq> [] then (False, cfg)
      else (let ls = str_lines content in
        if length ls < 3 then (False, cfg)
        else (let host = trim (ls ! 0);
                  port = (case parse_nat (2 ^ 16) (trim (ls ! 1)) of Some p \<Rightarrow> of_nat p | None \<Rightarrow> 993);
                  username = trim (ls ! 2)
              in if host = [] \<or> username = [] then (False, cfg)
                 else (True, cfg\<lparr>cfg_accounts := cfg_accounts cfg @
                   [account_config_new username host port username]\<rparr>))))"

definition upsert_account :: "account_config \<Rightarrow> config \<Rightarrow> config" where
  "upsert_account account cfg =
     (if list_ex (\<lambda>a. ac_id a = ac_id account) (cfg_accounts cfg)
      then cfg\<lparr>cfg_accounts := update_first (\<lambda>a. ac_id a = ac_id account)
             (\<lambda>existing. if ac_watch_mailbox account = None
                then account\<lparr>ac_watch_mailbox := ac_watch_mailbox existing\<rparr> else account)
             (cfg_accounts cfg)\<rparr>
      else cfg\<lparr>cfg_accounts := cfg_accounts cfg @ [account]\<rparr>)"

definition remove_account :: "str \<Rightarrow> config \<Rightarrow> config" where
  "remove_account id' cfg = cfg\<lparr>cfg_accounts := filter (\<lambda>a. ac_id a \<noteq> id') (cfg_accounts cfg)\<rparr>"

definition is_image_trusted :: "str \<Rightarrow> config \<Rightarrow> bool" where
  "is_image_trusted addr cfg \<longleftrightarrow> to_ascii_lowercase addr \<in> cfg_image_trusted_senders cfg"

definition set_image_trusted :: "str \<Rightarrow> bool \<Rightarrow> config \<Rightarrow> bool \<times> config" where
  "set_image_trusted addr trusted cfg =
     (let a = to_ascii_lowercase addr in
      if trusted then (a \<notin> cfg_image_trusted_senders cfg,
        cfg\<lparr>cfg_image_trusted_senders := insert a (cfg_image_trusted_senders cfg)\<rparr>)
      else (a \<in> cfg_image_trusted_senders cfg,
        cfg\<lparr>cfg_image_trusted_senders := cfg_image_trusted_senders cfg - {a}\<rparr>))"

definition set_folder_collapsed :: "str \<Rightarrow> str \<Rightarrow> bool \<Rightarrow> config \<Rightarrow> bool \<times> config" where
  "set_folder_collapsed account_id folder_key collapsed cfg =
     (let key = collapsed_folder_key account_id folder_key in
      if collapsed then (key \<notin> cfg_collapsed_folders cfg,
        cfg\<lparr>cfg_collapsed_folders := insert key (cfg_collapsed_folders cfg)\<rparr>)
      else (key \<in> cfg_collapsed_folders cfg,
        cfg\<lparr>cfg_collapsed_folders := cfg_collapsed_folders cfg - {key}\<rparr>))"

section \<open>Lemmas\<close>

lemma theme_next_cycle: "theme_next (theme_next (theme_next t)) = t"
  by (cases t) simp_all

text \<open>Trusting a sender, whatever the case the address is written in.\<close>

lemma set_image_trusted_iff:
  "is_image_trusted b (snd (set_image_trusted a t cfg)) \<longleftrightarrow>
     (if eq_ignore_ascii_case a b then t else is_image_trusted b cfg)"
  by (auto simp: is_image_trusted_def set_image_trusted_def Let_def eq_ignore_ascii_case_def)

lemma set_image_trusted_changed:
  "fst (set_image_trusted a t cfg) \<longleftrightarrow> is_image_trusted a cfg \<noteq> t"
  by (auto simp: is_image_trusted_def set_image_trusted_def Let_def)

lemma collapsed_folder_key_inject:
  assumes "9 \<notin> set a" and "9 \<notin> set a'"
  shows "collapsed_folder_key a k = collapsed_folder_key a' k' \<longleftrightarrow> a = a' \<and> k = k'"
proof
  assume e: "collapsed_folder_key a k = collapsed_folder_key a' k'"
  have "Some (a, k) = split_once 9 (a @ 9 # k)" by (rule sym) (simp only: split_once_Some assms simp_thms)
  also have "a @ 9 # k = a' @ 9 # k'" using e by (simp only: collapsed_folder_key_def append.simps)
  also have "split_once 9 (a' @ 9 # k') = Some (a', k')" by (simp only: split_once_Some assms simp_thms)
  finally show "a = a' \<and> k = k'" by simp
qed simp

lemma map_id_upsert:
  "map ac_id (cfg_accounts (upsert_account account cfg)) =
     (if ac_id account \<in> set (map ac_id (cfg_accounts cfg)) then map ac_id (cfg_accounts cfg)
      else map ac_id (cfg_accounts cfg) @ [ac_id account])"
  by (auto simp: upsert_account_def list_ex_iff map_update_first intro: rev_image_eqI)

definition account_of :: "str \<Rightarrow> config \<Rightarrow> account_config option" where
  "account_of id' cfg = find (\<lambda>a. ac_id a = id') (cfg_accounts cfg)"

lemma find_update_other:
  "i \<noteq> j \<Longrightarrow> (\<And>x. f x = i \<Longrightarrow> f (g x) = i) \<Longrightarrow>
     find (\<lambda>x. f x = j) (update_first (\<lambda>x. f x = i) g xs) = find (\<lambda>x. f x = j) xs"
  by (induction xs) auto

text \<open>Saving an account keeps the ids distinct and every other account as it is; the account
  is stored with what was given, except that a watched mailbox set before survives when none
  is given.\<close>

theorem upsert_account_spec:
  assumes "distinct (map ac_id (cfg_accounts cfg))"
  shows "distinct (map ac_id (cfg_accounts (upsert_account a cfg))) \<and>
    (\<forall>i. i \<noteq> ac_id a \<longrightarrow> account_of i (upsert_account a cfg) = account_of i cfg) \<and>
    account_of (ac_id a) (upsert_account a cfg) =
      Some (a\<lparr>ac_watch_mailbox :=
        (case ac_watch_mailbox a of
           Some w \<Rightarrow> Some w
         | None \<Rightarrow> (case account_of (ac_id a) cfg of Some old \<Rightarrow> ac_watch_mailbox old | None \<Rightarrow> None))\<rparr>)"
proof (intro conjI allI impI)
  show "distinct (map ac_id (cfg_accounts (upsert_account a cfg)))"
    unfolding map_id_upsert using assms by auto
  have other: "find (\<lambda>x. ac_id x = i) (cfg_accounts cfg @ [a]) = find (\<lambda>x. ac_id x = i) (cfg_accounts cfg)"
    if "i \<noteq> ac_id a" for i
    using that by (simp add: find_append split: option.splits)
  then show "account_of i (upsert_account a cfg) = account_of i cfg" if "i \<noteq> ac_id a" for i
    using that by (auto simp: account_of_def upsert_account_def find_update_other)
  have same: "a\<lparr>ac_watch_mailbox := ac_watch_mailbox a\<rparr> = a" by simp
  show "account_of (ac_id a) (upsert_account a cfg) =
      Some (a\<lparr>ac_watch_mailbox :=
        (case ac_watch_mailbox a of
           Some w \<Rightarrow> Some w
         | None \<Rightarrow> (case account_of (ac_id a) cfg of Some old \<Rightarrow> ac_watch_mailbox old | None \<Rightarrow> None))\<rparr>)"
  proof (cases "list_ex (\<lambda>x. ac_id x = ac_id a) (cfg_accounts cfg)")
    case True
    then have "find (\<lambda>x. ac_id x = ac_id a) (cfg_accounts cfg) \<noteq> None" by (auto simp: find_None_iff list_ex_iff)
    with True same show ?thesis
      by (cases "ac_watch_mailbox a")
         (auto simp: account_of_def upsert_account_def find_update_first)
  next
    case False
    then have "find (\<lambda>x. ac_id x = ac_id a) (cfg_accounts cfg) = None" by (auto simp: find_None_iff list_ex_iff)
    with False same show ?thesis
      by (cases "ac_watch_mailbox a") (simp_all add: account_of_def upsert_account_def find_append)
  qed
qed

definition demo_account :: account_config where
  "demo_account = (account_config_new [97] [98] 993 [99])\<lparr>ac_watch_mailbox := Some [87]\<rparr>"

theorem upsert_account_spec_witness:
  "account_of (ac_id demo_account) (upsert_account (demo_account\<lparr>ac_watch_mailbox := None\<rparr>)
     (config_default\<lparr>cfg_accounts := [demo_account]\<rparr>)) = Some demo_account"
proof -
  have d: "distinct (map ac_id (cfg_accounts (config_default\<lparr>cfg_accounts := [demo_account]\<rparr>)))" by simp
  from upsert_account_spec [OF d, of "demo_account\<lparr>ac_watch_mailbox := None\<rparr>"] show ?thesis
    by (simp add: account_of_def demo_account_def)
qed

text \<open>Migration happens only into an empty configuration.\<close>

lemma migrate_legacy_keeps:
  "cfg_accounts cfg \<noteq> [] \<Longrightarrow> migrate_legacy_content content cfg = (False, cfg)"
  by (simp add: migrate_legacy_content_def)

lemma migrate_legacy_adds:
  "migrate_legacy_content content cfg = (True, cfg') \<Longrightarrow>
     \<exists>a. cfg' = cfg\<lparr>cfg_accounts := [a]\<rparr> \<and> ac_username a \<noteq> [] \<and> ac_imap_host a \<noteq> [] \<and>
         ac_id a = ac_username a @ [64] @ ac_imap_host a"
  by (auto simp: migrate_legacy_content_def Let_def account_config_new_def split: if_splits)

end
