(* ===== verification/Protocol.thy ===== *)
theory Protocol
  imports ViewModel Compose SearchQuery Config
begin

text \<open>
  The messages the parts of the client exchange: the commands and events of an account's IMAP
  actor (\<open>crates/esmail/src/imap.rs\<close>) and those of the cache's actor
  (\<open>crates/esmail/src/db.rs\<close>).  The type argument is what an account signs in with.
\<close>

record attachment =
  at_filename :: str
  at_mime_type :: str
  at_data :: "byte list"

record mailbox_state =
  mst_uid_validity :: u32
  mst_uid_next :: u32

section \<open>The IMAP actor\<close>

datatype 'a imap_command =
    Connect str u16 str 'a
  | FetchMailboxes
  | FetchHeaders str u32 u64
  | FetchBody str u32 u64
  | BulkDownload str
  | ExportMessage str u32 str
  | PollMailbox str
  | FetchNewHeaders str u32
  | FetchHeadersFrom str u32
  | Append str "byte list"
  | StoreFlags str u32 "str list" "str list" u64
  | MoveMessage str u32 str u64
  | FetchUnreadCounts "str list"

text \<open>The arguments are in the order of the source's fields; \<open>EvHeaders\<close> has the mailbox, the
  headers, the page, the number of pages, the request and the mailbox state.\<close>

datatype imap_event =
    EvConnected
  | EvDisconnected
  | EvError str
  | EvMailboxes "mailbox_info list"
  | EvHeaders str "mail_header list" u32 u32 u64 mailbox_state
  | EvBody u32 str "attachment list" u64
  | EvBodyFailed u32 u64 str
  | EvProgress progress_kind progress
  | EvExported str
  | EvExportFailed str
  | EvMailData str mail_header str "attachment list"
  | EvMailboxPolled str mailbox_state
  | EvNewHeaders str "mail_header list"
  | EvHeadersFrom str "mail_header list"
  | EvAppended str
  | EvAppendFailed str str
  | EvPollFailed str
  | EvFlagsUpdated str u32 "str list" u64
  | EvFlagsUpdateFailed str u32 str u64
  | EvMoved str u32 str u64
  | EvMoveFailed str u32 str u64
  | EvUnreadCounts "str \<rightharpoonup> u32"

section \<open>The cache\<close>

type_synonym compose_id = u64

datatype db_command =
    IndexMail str str mail_header str "attachment list"
  | IndexHeaders str str "mail_header list"
  | IndexHeadersSearchable str str "mail_header list"
  | Search "str option" parsed_query "str option"
  | FetchMail str str u32
  | ReportMailboxState str str u32 u32
  | UpdateFlags str str u32 "str list"
  | RemoveMessage str str u32
  | RemoveAccount str
  | EnqueueOutbox "int option" compose_id str compose_state
  | DueOutbox
  | MarkOutboxSent int
  | MarkOutboxFailed int str
  | DeleteOutbox int
  | ListOutbox
  | SaveDraft "int option" compose_id "str option" compose_state
  | ListDrafts
  | LoadDraft int
  | DeleteDraft int

record search_hit =
  sh_account_id :: str
  sh_mailbox :: str
  sh_header :: mail_header

record outbox_item =
  oi_id :: int
  oi_account_id :: str
  oi_compose :: compose_state
  oi_attempts :: int
  oi_last_error :: "str option"

record draft_summary =
  ds_id :: int
  ds_subject :: str
  ds_to :: str
  ds_updated_at :: int

datatype sync_plan = UpToDate | FetchFrom u32 | Resync

datatype db_event =
    SearchResult "search_hit list"
  | MailFetched mail_header str "attachment list"
  | MailFetchFailed u32 str
  | SyncPlan str str sync_plan
  | OutboxEnqueued int compose_id
  | OutboxDue "outbox_item list"
  | OutboxList "outbox_item list"
  | DraftSaved int compose_id
  | DraftList "draft_summary list"
  | DraftLoaded int compose_state
  | DbError str

end
