(* ===== verification/AppCore.thy ===== *)
theory AppCore
  imports Protocol
begin

text \<open>
  The application core, \<open>crates/esmail/src/app\<close>: the state behind the folder pane, the message
  list and the reading pane, its actions, and how it takes in what the accounts' sessions
  report (\<open>app/pump.rs\<close>).  A command sent to an account's actor or to the cache is appended to
  a log (the queues are taken to have room); the session object is its id and label; escaping
  text for HTML is an argument.  Times are not modelled.
\<close>

section \<open>State\<close>

datatype conn_state = Connecting | Connected | Disconnected | Failed str

record banner =
  bn_id :: u64
  bn_message :: str

record progress_view =
  pv_kind :: progress_kind
  pv_progress :: progress

record bulk_action =
  ba_kind :: progress_kind
  ba_total :: u32
  ba_pending :: "u32 set"

record 'a account_view =
  av_id :: str
  av_label :: str
  av_state :: conn_state
  av_mailbox_rows :: "mailbox_row list"
  av_unread_counts :: "str \<rightharpoonup> u32"
  av_auth :: 'a
  av_pending_persist :: "(account_config \<times> 'a) option"

record changes =
  ch_reading_pane :: "str option"
  ch_persist_accounts :: "str list"

record 'a app_core =
  core_changes :: changes
  core_sent :: "(str \<times> 'a imap_command) list"
  core_db_sent :: "db_command list"
  core_accounts :: "'a account_view list"
  core_active :: "str option"
  core_status :: str
  core_banners :: "banner list"
  core_next_banner_id :: u64
  core_selected_mailbox :: str
  core_headers :: "mail_header list"
  core_selected_uid :: "u32 option"
  core_selected_uids :: "u32 set"
  core_select_anchor :: "u32 option"
  core_pending_mark_seen :: "u32 option"
  core_current_page :: u32
  core_total_pages :: u32
  core_current_attachments :: "attachment list"
  core_current_message_html :: str
  core_next_req_id :: u64
  core_current_headers_req :: u64
  core_current_body_req :: u64
  core_search_query :: str
  core_search_results :: "mail_header list option"
  core_search_origins :: "(str \<times> str) list"
  core_search_all_accounts :: bool
  core_headers_stale :: bool
  core_progress :: "progress_view option"
  core_bulk_action :: "bulk_action option"

definition changes_default :: changes where
  "changes_default = \<lparr>ch_reading_pane = None, ch_persist_accounts = []\<rparr>"

definition app_core_new :: "'a app_core" where
  "app_core_new =
     \<lparr>core_changes = changes_default, core_sent = [], core_db_sent = [], core_accounts = [], core_active = None,
      core_status = lit ''Ready'', core_banners = [], core_next_banner_id = 0,
      core_selected_mailbox = lit ''INBOX'', core_headers = [], core_selected_uid = None,
      core_selected_uids = {}, core_select_anchor = None, core_pending_mark_seen = None,
      core_current_page = 1, core_total_pages = 1, core_current_attachments = [],
      core_current_message_html = [], core_next_req_id = 0, core_current_headers_req = 0,
      core_current_body_req = 0, core_search_query = [], core_search_results = None,
      core_search_origins = [], core_search_all_accounts = False, core_headers_stale = False,
      core_progress = None, core_bulk_action = None\<rparr>"

definition total_unread :: "'a account_view \<Rightarrow> u32" where
  "total_unread v =
     sum_list (filter_map (av_unread_counts v)
       (filter (\<lambda>n. eq_ignore_ascii_case n (lit ''INBOX'')) (filter_map mr_full_name (av_mailbox_rows v))))"

section \<open>Accounts\<close>

definition view :: "str \<Rightarrow> 'a app_core \<Rightarrow> 'a account_view option" where
  "view account core = find (\<lambda>v. av_id v = account) (core_accounts core)"

text \<open>A change through \<open>view_mut\<close>.\<close>

definition modify_view :: "str \<Rightarrow> ('a account_view \<Rightarrow> 'a account_view) \<Rightarrow> 'a app_core \<Rightarrow> 'a app_core" where
  "modify_view account f core =
     core\<lparr>core_accounts := update_first (\<lambda>v. av_id v = account) f (core_accounts core)\<rparr>"

definition account_label :: "str \<Rightarrow> 'a app_core \<Rightarrow> str" where
  "account_label account core = (case view account core of None \<Rightarrow> account | Some v \<Rightarrow> av_label v)"

definition account_mailbox_names :: "str \<Rightarrow> 'a app_core \<Rightarrow> str list" where
  "account_mailbox_names account core =
     (case view account core of None \<Rightarrow> [] | Some v \<Rightarrow> filter_map mr_full_name (av_mailbox_rows v))"

text \<open>\<open>core_sent\<close> and \<open>core_db_sent\<close> are the commands handed to \<open>try_send\<close>, in order.  The code ignores its
  result: a queue that is full loses the command, and nothing below depends on its being carried out.\<close>

definition send_imap_to :: "str \<Rightarrow> 'a imap_command \<Rightarrow> 'a app_core \<Rightarrow> 'a app_core" where
  "send_imap_to account cmd core =
     (case view account core of
        None \<Rightarrow> core
      | Some v \<Rightarrow> core\<lparr>core_sent := core_sent core @ [(account, cmd)]\<rparr>)"

definition send_imap :: "'a imap_command \<Rightarrow> 'a app_core \<Rightarrow> 'a app_core" where
  "send_imap cmd core =
     (case core_active core of None \<Rightarrow> core | Some account \<Rightarrow> send_imap_to account cmd core)"

definition send_db :: "db_command \<Rightarrow> 'a app_core \<Rightarrow> 'a app_core" where
  "send_db cmd core = core\<lparr>core_db_sent := core_db_sent core @ [cmd]\<rparr>"

definition open_session ::
  "account_config \<Rightarrow> 'a \<Rightarrow> (account_config \<times> 'a) option \<Rightarrow> 'a app_core \<Rightarrow> 'a app_core" where
  "open_session account auth pending_persist core =
     core\<lparr>core_accounts := filter (\<lambda>v. av_id v \<noteq> ac_id account) (core_accounts core) @
       [\<lparr>av_id = ac_id account, av_label = ac_display_name account, av_state = Connecting,
         av_mailbox_rows = [], av_unread_counts = Map.empty, av_auth = auth,
         av_pending_persist = pending_persist\<rparr>],
       core_sent := core_sent core @
         [(ac_id account, Connect (ac_imap_host account) (ac_imap_port account) (ac_username account) auth)]\<rparr>"

definition take_pending_persist :: "str \<Rightarrow> 'a app_core \<Rightarrow> (account_config \<times> 'a) option \<times> 'a app_core" where
  "take_pending_persist account core =
     (case view account core of
        None \<Rightarrow> (None, core)
      | Some v \<Rightarrow> (av_pending_persist v, modify_view account (\<lambda>v. v\<lparr>av_pending_persist := None\<rparr>) core))"

definition take_changes :: "'a app_core \<Rightarrow> changes \<times> 'a app_core" where
  "take_changes core = (core_changes core, core\<lparr>core_changes := changes_default\<rparr>)"

definition show_in_reading_pane :: "str \<Rightarrow> 'a app_core \<Rightarrow> 'a app_core" where
  "show_in_reading_pane html core = core\<lparr>core_changes := (core_changes core)\<lparr>ch_reading_pane := Some html\<rparr>\<rparr>"

definition push_banner :: "str \<Rightarrow> 'a app_core \<Rightarrow> 'a app_core" where
  "push_banner message core =
     (let n = core_next_banner_id core + 1 in
      core\<lparr>core_next_banner_id := n, core_banners := core_banners core @ [\<lparr>bn_id = n, bn_message = message\<rparr>]\<rparr>)"

definition push_account_banner :: "str \<Rightarrow> str \<Rightarrow> 'a app_core \<Rightarrow> 'a app_core" where
  "push_account_banner account message core =
     (if 1 < length (core_accounts core)
      then push_banner (account_label account core @ lit '': '' @ message) core
      else push_banner message core)"

section \<open>Progress\<close>

definition set_progress :: "progress_kind \<Rightarrow> progress \<Rightarrow> 'a app_core \<Rightarrow> 'a app_core" where
  "set_progress kind progress core = core\<lparr>core_progress := Some \<lparr>pv_kind = kind, pv_progress = progress\<rparr>\<rparr>"

definition clear_progress :: "progress_kind \<Rightarrow> 'a app_core \<Rightarrow> 'a app_core" where
  "clear_progress kind core =
     (case core_progress core of
        Some v \<Rightarrow> if pv_kind v = kind then core\<lparr>core_progress := None\<rparr> else core
      | None \<Rightarrow> core)"

definition bulk_action_in_flight :: "'a app_core \<Rightarrow> bool" where
  "bulk_action_in_flight core \<longleftrightarrow>
     core_bulk_action core \<noteq> None \<or>
     (case core_progress core of Some v \<Rightarrow> is_bulk (pv_kind v) | None \<Rightarrow> False)"

definition begin_bulk_action :: "progress_kind \<Rightarrow> u32 list \<Rightarrow> 'a app_core \<Rightarrow> 'a app_core" where
  "begin_bulk_action kind targets core =
     (let total = of_nat (length targets) :: u32 in
      if total < 2 then core
      else set_progress kind (Counted 0 total)
        (core\<lparr>core_bulk_action := Some \<lparr>ba_kind = kind, ba_total = total, ba_pending = set targets\<rparr>\<rparr>))"

definition advance_bulk_action :: "progress_kind \<Rightarrow> u32 \<Rightarrow> 'a app_core \<Rightarrow> 'a app_core" where
  "advance_bulk_action kind uid core =
     (case core_bulk_action core of
        None \<Rightarrow> core
      | Some action \<Rightarrow>
          if ba_kind action \<noteq> kind \<or> uid \<notin> ba_pending action then core
          else (let pending = ba_pending action - {uid};
                    done_ct = ba_total action - of_nat (card pending)
                in if pending = {} then clear_progress kind (core\<lparr>core_bulk_action := None\<rparr>)
                   else set_progress kind (Counted done_ct (ba_total action))
                     (core\<lparr>core_bulk_action := Some (action\<lparr>ba_pending := pending\<rparr>)\<rparr>)))"

section \<open>Requests\<close>

definition next_req_id :: "'a app_core \<Rightarrow> u64 \<times> 'a app_core" where
  "next_req_id core = (let n = core_next_req_id core + 1 in (n, core\<lparr>core_next_req_id := n\<rparr>))"

definition fetch_headers :: "str \<Rightarrow> u32 \<Rightarrow> 'a app_core \<Rightarrow> 'a app_core" where
  "fetch_headers mailbox page core =
     (let (req_id, core) = next_req_id core
      in send_imap (FetchHeaders mailbox page req_id) (core\<lparr>core_current_headers_req := req_id\<rparr>))"

definition fetch_body :: "str \<Rightarrow> u32 \<Rightarrow> 'a app_core \<Rightarrow> 'a app_core" where
  "fetch_body mailbox uid core =
     (let (req_id, core) = next_req_id core
      in send_imap (FetchBody mailbox uid req_id) (core\<lparr>core_current_body_req := req_id\<rparr>))"

text \<open>What \<open>activate\<close> drops when another account was shown.\<close>

definition drop_list :: "'a app_core \<Rightarrow> 'a app_core" where
  "drop_list core =
     (show_in_reading_pane []
       (core\<lparr>core_search_query := [], core_search_results := None, core_search_origins := [],
             core_headers := []\<rparr>))
     \<lparr>core_current_message_html := [], core_current_attachments := []\<rparr>"

definition activate :: "str \<Rightarrow> str \<Rightarrow> 'a app_core \<Rightarrow> 'a app_core" where
  "activate account mailbox core =
     (let switching = core_active core \<noteq> Some account;
          core = core\<lparr>core_active := Some account, core_headers_stale := False\<rparr>;
          core = (if switching then drop_list core else core)
      in fetch_headers mailbox 1
        (core\<lparr>core_selected_mailbox := mailbox, core_selected_uid := None, core_selected_uids := {},
              core_select_anchor := None, core_pending_mark_seen := None,
              core_current_page := 1, core_total_pages := 1\<rparr>))"

text \<open>What \<open>disconnect_account\<close> drops with the active account.\<close>

definition drop_active :: "'a app_core \<Rightarrow> 'a app_core" where
  "drop_active core =
     show_in_reading_pane []
       ((clear_progress PIndex (clear_progress PMove (clear_progress PFlags
          (core\<lparr>core_active := None, core_bulk_action := None\<rparr>))))
        \<lparr>core_headers := [], core_search_results := None, core_search_origins := [],
         core_headers_stale := False, core_selected_uid := None, core_selected_uids := {},
         core_select_anchor := None, core_pending_mark_seen := None,
         core_current_message_html := [], core_current_attachments := []\<rparr>)"

definition disconnect_account :: "str \<Rightarrow> 'a app_core \<Rightarrow> 'a app_core" where
  "disconnect_account account core =
     (let label = account_label account core;
          core = core\<lparr>core_accounts := filter (\<lambda>v. av_id v \<noteq> account) (core_accounts core)\<rparr>;
          core = (if length (core_accounts core) < 2 then core\<lparr>core_search_all_accounts := False\<rparr> else core);
          core = (if core_active core = Some account
            then (let core = drop_active core in
              case find (\<lambda>v. av_state v = Connected) (core_accounts core) of
                Some v \<Rightarrow> activate (av_id v) (lit ''INBOX'') core
              | None \<Rightarrow> core)
            else core)
      in core\<lparr>core_status := lit ''Logged out of '' @ label\<rparr>)"

end
