(* ===== verification/AppPump.thy ===== *)
theory AppPump
  imports AppCore
begin

text \<open>
  How the core takes in what the accounts' sessions report: \<open>handle_imap_event\<close> and
  \<open>pump\<close> of \<open>crates/esmail/src/app/pump.rs\<close>, one definition per event that changes the state.
  The lemmas show which state an event can touch, that replies to superseded requests are
  dropped, that a bulk action counts every answer once and ends, and that the unread counts
  follow the flags.
\<close>

section \<open>The events\<close>

definition is_active :: "str \<Rightarrow> 'a app_core \<Rightarrow> bool" where
  "is_active account core \<longleftrightarrow> core_active core = Some account"

definition on_connected :: "str \<Rightarrow> 'a app_core \<Rightarrow> 'a app_core" where
  "on_connected account core =
     (let active = is_active account core;
          from_form = (case view account core of Some v \<Rightarrow> av_pending_persist v \<noteq> None | None \<Rightarrow> False);
          core = modify_view account (\<lambda>v. v\<lparr>av_state := Connected\<rparr>) core;
          core = (if from_form
            then core\<lparr>core_changes := (core_changes core)
              \<lparr>ch_persist_accounts := ch_persist_accounts (core_changes core) @ [account]\<rparr>\<rparr>
            else core);
          core = core\<lparr>core_status := lit ''Connected: '' @ account_label account core\<rparr>;
          core = send_imap_to account FetchMailboxes core
      in if core_active core = None then activate account (lit ''INBOX'') core
         else if active then fetch_headers (core_selected_mailbox core) 1 core
         else core)"

definition on_disconnected :: "str \<Rightarrow> 'a app_core \<Rightarrow> 'a app_core" where
  "on_disconnected account core =
     (let active = is_active account core;
          core = modify_view account (\<lambda>v. v\<lparr>av_state := Disconnected\<rparr>) core
      in if active then core\<lparr>core_status := lit ''Connection lost, reconnecting...''\<rparr> else core)"

definition on_error :: "str \<Rightarrow> str \<Rightarrow> 'a app_core \<Rightarrow> 'a app_core" where
  "on_error account e core =
     push_account_banner account (lit ''IMAP error: '' @ e)
       (modify_view account
          (\<lambda>v. if av_state v = Connecting \<or> av_state v = Disconnected then v\<lparr>av_state := Failed e\<rparr> else v)
          (clear_progress PIndex core))"

definition on_mailboxes :: "str \<Rightarrow> mailbox_info list \<Rightarrow> 'a app_core \<Rightarrow> 'a app_core" where
  "on_mailboxes account mbs core =
     send_imap_to account (FetchUnreadCounts (map mi_name mbs))
       (modify_view account (\<lambda>v. v\<lparr>av_mailbox_rows := flatten_tree (mailbox_tree mbs)\<rparr>) core)"

definition on_headers ::
  "str \<Rightarrow> str \<Rightarrow> mail_header list \<Rightarrow> u32 \<Rightarrow> u32 \<Rightarrow> u64 \<Rightarrow> mailbox_state \<Rightarrow> 'a app_core \<Rightarrow> 'a app_core" where
  "on_headers account mailbox headers page total_pages req_id state core =
     send_db (ReportMailboxState account mailbox (mst_uid_validity state) (mst_uid_next state))
       (if is_active account core \<and> req_id = core_current_headers_req core \<and>
           mailbox = core_selected_mailbox core
        then core\<lparr>core_headers := headers, core_current_page := page, core_total_pages := total_pages,
               core_status := lit ''Page '' @ dec_u32 page @ lit '' of '' @ dec_u32 total_pages\<rparr>
        else core)"

definition on_body :: "str \<Rightarrow> u32 \<Rightarrow> str \<Rightarrow> attachment list \<Rightarrow> u64 \<Rightarrow> 'a app_core \<Rightarrow> 'a app_core" where
  "on_body account uid html attachments req_id core =
     (if is_active account core \<and> req_id = core_current_body_req core \<and> core_selected_uid core = Some uid
      then (show_in_reading_pane html (core\<lparr>core_current_message_html := html\<rparr>))
             \<lparr>core_current_attachments := attachments\<rparr>
      else core)"

definition on_body_failed :: "(str \<Rightarrow> str) \<Rightarrow> str \<Rightarrow> u32 \<Rightarrow> u64 \<Rightarrow> str \<Rightarrow> 'a app_core \<Rightarrow> 'a app_core" where
  "on_body_failed clean_text account uid req_id error core =
     push_account_banner account (lit ''Could not load message: '' @ error)
       (if is_active account core \<and> req_id = core_current_body_req core \<and> core_selected_uid core = Some uid
        then (let msg = lit ''<i>Could not load message: '' @ clean_text error @ lit ''</i>''
              in show_in_reading_pane msg (core\<lparr>core_current_message_html := msg\<rparr>))
        else core)"

definition on_progress :: "str \<Rightarrow> progress_kind \<Rightarrow> progress \<Rightarrow> 'a app_core \<Rightarrow> 'a app_core" where
  "on_progress account kind update core =
     (let indexing_done = (kind = PIndex \<and> (case update of Counted c t \<Rightarrow> c = t | Indeterminate \<Rightarrow> False))
      in if kind \<noteq> PIndex \<or> is_active account core
         then if indexing_done
              then (clear_progress PIndex core)\<lparr>core_status := lit ''Download complete''\<rparr>
              else set_progress kind update core
         else core)"

definition on_new_headers :: "str \<Rightarrow> 'a app_core \<Rightarrow> 'a app_core" where
  "on_new_headers account core =
     (let names = account_mailbox_names account core
      in if names \<noteq> [] then send_imap_to account (FetchUnreadCounts names) core else core)"

definition set_flags :: "str list \<Rightarrow> mail_header \<Rightarrow> mail_header" where
  "set_flags flags h = h\<lparr>mh_flags := flags\<rparr>"

text \<open>The search hits with the new flags: those with the UID that come from the mailbox.\<close>

definition patch_results ::
  "str \<Rightarrow> str \<Rightarrow> u32 \<Rightarrow> str list \<Rightarrow> (str \<times> str) list \<Rightarrow> mail_header list \<Rightarrow> mail_header list" where
  "patch_results account mailbox uid flags origins results =
     map (\<lambda>(i, h). if mh_uid h = uid \<and> i < length origins \<and> origins ! i = (account, mailbox)
                   then set_flags flags h else h)
       (list_enum results)"

definition adjust_unread :: "bool option \<Rightarrow> bool \<Rightarrow> u32 \<Rightarrow> u32" where
  "adjust_unread was_seen now_seen n =
     (case was_seen of
        None \<Rightarrow> n
      | Some s \<Rightarrow> if s \<and> \<not> now_seen then n + 1 else if \<not> s \<and> now_seen then sat_sub n 1 else n)"

definition modify_count :: "str \<Rightarrow> (u32 \<Rightarrow> u32) \<Rightarrow> 'a account_view \<Rightarrow> 'a account_view" where
  "modify_count mailbox f v =
     (case av_unread_counts v mailbox of
        Some n \<Rightarrow> v\<lparr>av_unread_counts := (av_unread_counts v)(mailbox \<mapsto> f n)\<rparr>
      | None \<Rightarrow> v)"

definition on_flags_updated :: "str \<Rightarrow> str \<Rightarrow> u32 \<Rightarrow> str list \<Rightarrow> 'a app_core \<Rightarrow> 'a app_core" where
  "on_flags_updated account mailbox uid flags core =
     (let core = advance_bulk_action PFlags uid core;
          on_screen = (is_active account core \<and> mailbox = core_selected_mailbox core);
          was_seen = (if on_screen then map_option is_seen (find (\<lambda>h. mh_uid h = uid) (core_headers core)) else None);
          core = (if on_screen
            then core\<lparr>core_headers := update_first (\<lambda>h. mh_uid h = uid) (set_flags flags) (core_headers core)\<rparr>
            else core);
          core = core\<lparr>core_search_results := map_option
            (patch_results account mailbox uid flags (core_search_origins core)) (core_search_results core)\<rparr>;
          core = modify_view account (modify_count mailbox (adjust_unread was_seen (has_flag FLAG_SEEN flags))) core
      in send_db (UpdateFlags account mailbox uid flags) core)"

definition on_flags_update_failed :: "str \<Rightarrow> u32 \<Rightarrow> str \<Rightarrow> 'a app_core \<Rightarrow> 'a app_core" where
  "on_flags_update_failed account uid error core =
     push_account_banner account (lit ''Could not update flags on message '' @ dec_u32 uid @ lit '': '' @ error)
       (advance_bulk_action PFlags uid core)"

text \<open>The hits that stay, each with its origin.\<close>

definition kept_results ::
  "str \<Rightarrow> str \<Rightarrow> u32 \<Rightarrow> mail_header list \<Rightarrow> (str \<times> str) list \<Rightarrow> (mail_header \<times> str \<times> str) list" where
  "kept_results account mailbox uid results origins =
     filter (\<lambda>(h, a, m). \<not> (mh_uid h = uid \<and> a = account \<and> m = mailbox)) (zip results origins)"

definition drop_selected :: "u32 \<Rightarrow> str \<Rightarrow> 'a app_core \<Rightarrow> 'a app_core" where
  "drop_selected uid dest core =
     (let core = core\<lparr>core_selected_uids := core_selected_uids core - {uid}\<rparr>;
          core = (if core_selected_uid core = Some uid
            then show_in_reading_pane (lit ''<i>Message moved.</i>'') (core\<lparr>core_selected_uid := None\<rparr>)
            else core)
      in core\<lparr>core_status := lit ''Moved to '' @ dest\<rparr>)"

definition on_moved :: "str \<Rightarrow> str \<Rightarrow> u32 \<Rightarrow> str \<Rightarrow> 'a app_core \<Rightarrow> 'a app_core" where
  "on_moved account mailbox uid dest core =
     (let core = advance_bulk_action PMove uid core;
          active = is_active account core;
          on_screen = (active \<and> mailbox = core_selected_mailbox core);
          was_unread = (on_screen \<and> (case find (\<lambda>h. mh_uid h = uid) (core_headers core) of
              Some h \<Rightarrow> \<not> is_seen h | None \<Rightarrow> False));
          core = (if on_screen
            then core\<lparr>core_headers := filter (\<lambda>h. mh_uid h \<noteq> uid) (core_headers core)\<rparr> else core);
          core = (case core_search_results core of
              None \<Rightarrow> core
            | Some results \<Rightarrow>
                (let kept = kept_results account mailbox uid results (core_search_origins core)
                 in core\<lparr>core_search_results := Some (map fst kept), core_search_origins := map snd kept\<rparr>));
          core = (if active then drop_selected uid dest core else core);
          core = (if was_unread
            then modify_view account
              (\<lambda>v. modify_count dest (\<lambda>n. n + 1) (modify_count mailbox (\<lambda>n. sat_sub n 1) v)) core
            else core)
      in send_db (RemoveMessage account mailbox uid) core)"

definition on_move_failed :: "str \<Rightarrow> u32 \<Rightarrow> str \<Rightarrow> 'a app_core \<Rightarrow> 'a app_core" where
  "on_move_failed account uid error core =
     push_account_banner account (lit ''Could not move message '' @ dec_u32 uid @ lit '': '' @ error)
       (advance_bulk_action PMove uid core)"

definition handle_imap_event :: "(str \<Rightarrow> str) \<Rightarrow> str \<Rightarrow> imap_event \<Rightarrow> 'a app_core \<Rightarrow> 'a app_core" where
  "handle_imap_event clean_text account evt core =
     (if view account core = None then core
      else case evt of
        EvConnected \<Rightarrow> on_connected account core
      | EvDisconnected \<Rightarrow> on_disconnected account core
      | EvError e \<Rightarrow> on_error account e core
      | EvMailboxes mbs \<Rightarrow> on_mailboxes account mbs core
      | EvHeaders mailbox headers page total_pages req_id state \<Rightarrow>
          on_headers account mailbox headers page total_pages req_id state core
      | EvBody uid html attachments req_id \<Rightarrow> on_body account uid html attachments req_id core
      | EvBodyFailed uid req_id error \<Rightarrow> on_body_failed clean_text account uid req_id error core
      | EvExported path \<Rightarrow>
          (clear_progress PExport core)\<lparr>core_status := lit ''Exported message to '' @ path\<rparr>
      | EvExportFailed error \<Rightarrow>
          push_account_banner account (lit ''Could not export message: '' @ error) (clear_progress PExport core)
      | EvProgress kind update \<Rightarrow> on_progress account kind update core
      | EvMailData mailbox header body attachments \<Rightarrow>
          send_db (IndexMail account mailbox header body attachments) core
      | EvMailboxPolled _ _ \<Rightarrow> core
      | EvNewHeaders _ _ \<Rightarrow> on_new_headers account core
      | EvAppended _ \<Rightarrow> clear_progress PAppend core
      | EvAppendFailed mailbox error \<Rightarrow>
          push_account_banner account (lit ''Sent, but could not save a copy to '' @ mailbox @ lit '': '' @ error)
            (clear_progress PAppend core)
      | EvHeadersFrom mailbox headers \<Rightarrow> send_db (IndexHeaders account mailbox headers) core
      | EvPollFailed _ \<Rightarrow> core
      | EvFlagsUpdated mailbox uid flags _ \<Rightarrow> on_flags_updated account mailbox uid flags core
      | EvFlagsUpdateFailed _ uid error _ \<Rightarrow> on_flags_update_failed account uid error core
      | EvMoved mailbox uid dest _ \<Rightarrow> on_moved account mailbox uid dest core
      | EvMoveFailed _ uid error _ \<Rightarrow> on_move_failed account uid error core
      | EvUnreadCounts counts \<Rightarrow> modify_view account (\<lambda>v. v\<lparr>av_unread_counts := counts\<rparr>) core)"

text \<open>Everything queued is handled, then the changes are taken.\<close>

definition pump :: "(str \<Rightarrow> str) \<Rightarrow> (str \<times> imap_event) list \<Rightarrow> 'a app_core \<Rightarrow> changes \<times> 'a app_core" where
  "pump clean_text events core =
     take_changes (foldl (\<lambda>core (account, evt). handle_imap_event clean_text account evt core) core events)"

section \<open>What the primitives leave alone\<close>

lemma modify_view_fields [simp]:
  "core_changes (modify_view a f core) = core_changes core" "core_sent (modify_view a f core) = core_sent core"
  "core_db_sent (modify_view a f core) = core_db_sent core" "core_active (modify_view a f core) = core_active core"
  "core_status (modify_view a f core) = core_status core" "core_banners (modify_view a f core) = core_banners core"
  "core_next_banner_id (modify_view a f core) = core_next_banner_id core" "core_selected_mailbox (modify_view a f core) = core_selected_mailbox core"
  "core_headers (modify_view a f core) = core_headers core" "core_selected_uid (modify_view a f core) = core_selected_uid core"
  "core_selected_uids (modify_view a f core) = core_selected_uids core" "core_select_anchor (modify_view a f core) = core_select_anchor core"
  "core_pending_mark_seen (modify_view a f core) = core_pending_mark_seen core" "core_current_page (modify_view a f core) = core_current_page core"
  "core_total_pages (modify_view a f core) = core_total_pages core" "core_current_attachments (modify_view a f core) = core_current_attachments core"
  "core_current_message_html (modify_view a f core) = core_current_message_html core" "core_next_req_id (modify_view a f core) = core_next_req_id core"
  "core_current_headers_req (modify_view a f core) = core_current_headers_req core" "core_current_body_req (modify_view a f core) = core_current_body_req core"
  "core_search_query (modify_view a f core) = core_search_query core" "core_search_results (modify_view a f core) = core_search_results core"
  "core_search_origins (modify_view a f core) = core_search_origins core" "core_search_all_accounts (modify_view a f core) = core_search_all_accounts core"
  "core_headers_stale (modify_view a f core) = core_headers_stale core" "core_progress (modify_view a f core) = core_progress core"
  "core_bulk_action (modify_view a f core) = core_bulk_action core"
  by (simp_all add: modify_view_def)

lemma send_imap_to_fields [simp]:
  "core_changes (send_imap_to a cmd core) = core_changes core" "core_db_sent (send_imap_to a cmd core) = core_db_sent core"
  "core_accounts (send_imap_to a cmd core) = core_accounts core" "core_active (send_imap_to a cmd core) = core_active core"
  "core_status (send_imap_to a cmd core) = core_status core" "core_banners (send_imap_to a cmd core) = core_banners core"
  "core_next_banner_id (send_imap_to a cmd core) = core_next_banner_id core" "core_selected_mailbox (send_imap_to a cmd core) = core_selected_mailbox core"
  "core_headers (send_imap_to a cmd core) = core_headers core" "core_selected_uid (send_imap_to a cmd core) = core_selected_uid core"
  "core_selected_uids (send_imap_to a cmd core) = core_selected_uids core" "core_select_anchor (send_imap_to a cmd core) = core_select_anchor core"
  "core_pending_mark_seen (send_imap_to a cmd core) = core_pending_mark_seen core" "core_current_page (send_imap_to a cmd core) = core_current_page core"
  "core_total_pages (send_imap_to a cmd core) = core_total_pages core" "core_current_attachments (send_imap_to a cmd core) = core_current_attachments core"
  "core_current_message_html (send_imap_to a cmd core) = core_current_message_html core" "core_next_req_id (send_imap_to a cmd core) = core_next_req_id core"
  "core_current_headers_req (send_imap_to a cmd core) = core_current_headers_req core" "core_current_body_req (send_imap_to a cmd core) = core_current_body_req core"
  "core_search_query (send_imap_to a cmd core) = core_search_query core" "core_search_results (send_imap_to a cmd core) = core_search_results core"
  "core_search_origins (send_imap_to a cmd core) = core_search_origins core" "core_search_all_accounts (send_imap_to a cmd core) = core_search_all_accounts core"
  "core_headers_stale (send_imap_to a cmd core) = core_headers_stale core" "core_progress (send_imap_to a cmd core) = core_progress core"
  "core_bulk_action (send_imap_to a cmd core) = core_bulk_action core"
  by (simp_all add: send_imap_to_def split: option.splits)

lemma send_imap_fields [simp]:
  "core_changes (send_imap cmd core) = core_changes core" "core_db_sent (send_imap cmd core) = core_db_sent core"
  "core_accounts (send_imap cmd core) = core_accounts core" "core_active (send_imap cmd core) = core_active core"
  "core_status (send_imap cmd core) = core_status core" "core_banners (send_imap cmd core) = core_banners core"
  "core_next_banner_id (send_imap cmd core) = core_next_banner_id core" "core_selected_mailbox (send_imap cmd core) = core_selected_mailbox core"
  "core_headers (send_imap cmd core) = core_headers core" "core_selected_uid (send_imap cmd core) = core_selected_uid core"
  "core_selected_uids (send_imap cmd core) = core_selected_uids core" "core_select_anchor (send_imap cmd core) = core_select_anchor core"
  "core_pending_mark_seen (send_imap cmd core) = core_pending_mark_seen core" "core_current_page (send_imap cmd core) = core_current_page core"
  "core_total_pages (send_imap cmd core) = core_total_pages core" "core_current_attachments (send_imap cmd core) = core_current_attachments core"
  "core_current_message_html (send_imap cmd core) = core_current_message_html core" "core_next_req_id (send_imap cmd core) = core_next_req_id core"
  "core_current_headers_req (send_imap cmd core) = core_current_headers_req core" "core_current_body_req (send_imap cmd core) = core_current_body_req core"
  "core_search_query (send_imap cmd core) = core_search_query core" "core_search_results (send_imap cmd core) = core_search_results core"
  "core_search_origins (send_imap cmd core) = core_search_origins core" "core_search_all_accounts (send_imap cmd core) = core_search_all_accounts core"
  "core_headers_stale (send_imap cmd core) = core_headers_stale core" "core_progress (send_imap cmd core) = core_progress core"
  "core_bulk_action (send_imap cmd core) = core_bulk_action core"
  by (simp_all add: send_imap_def send_imap_to_def split: option.splits)

lemma send_db_fields [simp]:
  "core_changes (send_db cmd core) = core_changes core" "core_sent (send_db cmd core) = core_sent core"
  "core_accounts (send_db cmd core) = core_accounts core" "core_active (send_db cmd core) = core_active core"
  "core_status (send_db cmd core) = core_status core" "core_banners (send_db cmd core) = core_banners core"
  "core_next_banner_id (send_db cmd core) = core_next_banner_id core" "core_selected_mailbox (send_db cmd core) = core_selected_mailbox core"
  "core_headers (send_db cmd core) = core_headers core" "core_selected_uid (send_db cmd core) = core_selected_uid core"
  "core_selected_uids (send_db cmd core) = core_selected_uids core" "core_select_anchor (send_db cmd core) = core_select_anchor core"
  "core_pending_mark_seen (send_db cmd core) = core_pending_mark_seen core" "core_current_page (send_db cmd core) = core_current_page core"
  "core_total_pages (send_db cmd core) = core_total_pages core" "core_current_attachments (send_db cmd core) = core_current_attachments core"
  "core_current_message_html (send_db cmd core) = core_current_message_html core" "core_next_req_id (send_db cmd core) = core_next_req_id core"
  "core_current_headers_req (send_db cmd core) = core_current_headers_req core" "core_current_body_req (send_db cmd core) = core_current_body_req core"
  "core_search_query (send_db cmd core) = core_search_query core" "core_search_results (send_db cmd core) = core_search_results core"
  "core_search_origins (send_db cmd core) = core_search_origins core" "core_search_all_accounts (send_db cmd core) = core_search_all_accounts core"
  "core_headers_stale (send_db cmd core) = core_headers_stale core" "core_progress (send_db cmd core) = core_progress core"
  "core_bulk_action (send_db cmd core) = core_bulk_action core"
  by (simp_all add: send_db_def)

lemma show_in_reading_pane_fields [simp]:
  "core_sent (show_in_reading_pane html core) = core_sent core" "core_db_sent (show_in_reading_pane html core) = core_db_sent core"
  "core_accounts (show_in_reading_pane html core) = core_accounts core" "core_active (show_in_reading_pane html core) = core_active core"
  "core_status (show_in_reading_pane html core) = core_status core" "core_banners (show_in_reading_pane html core) = core_banners core"
  "core_next_banner_id (show_in_reading_pane html core) = core_next_banner_id core" "core_selected_mailbox (show_in_reading_pane html core) = core_selected_mailbox core"
  "core_headers (show_in_reading_pane html core) = core_headers core" "core_selected_uid (show_in_reading_pane html core) = core_selected_uid core"
  "core_selected_uids (show_in_reading_pane html core) = core_selected_uids core" "core_select_anchor (show_in_reading_pane html core) = core_select_anchor core"
  "core_pending_mark_seen (show_in_reading_pane html core) = core_pending_mark_seen core" "core_current_page (show_in_reading_pane html core) = core_current_page core"
  "core_total_pages (show_in_reading_pane html core) = core_total_pages core" "core_current_attachments (show_in_reading_pane html core) = core_current_attachments core"
  "core_current_message_html (show_in_reading_pane html core) = core_current_message_html core" "core_next_req_id (show_in_reading_pane html core) = core_next_req_id core"
  "core_current_headers_req (show_in_reading_pane html core) = core_current_headers_req core" "core_current_body_req (show_in_reading_pane html core) = core_current_body_req core"
  "core_search_query (show_in_reading_pane html core) = core_search_query core" "core_search_results (show_in_reading_pane html core) = core_search_results core"
  "core_search_origins (show_in_reading_pane html core) = core_search_origins core" "core_search_all_accounts (show_in_reading_pane html core) = core_search_all_accounts core"
  "core_headers_stale (show_in_reading_pane html core) = core_headers_stale core" "core_progress (show_in_reading_pane html core) = core_progress core"
  "core_bulk_action (show_in_reading_pane html core) = core_bulk_action core"
  by (simp_all add: show_in_reading_pane_def)

lemma push_banner_fields [simp]:
  "core_changes (push_banner m core) = core_changes core" "core_sent (push_banner m core) = core_sent core"
  "core_db_sent (push_banner m core) = core_db_sent core" "core_accounts (push_banner m core) = core_accounts core"
  "core_active (push_banner m core) = core_active core" "core_status (push_banner m core) = core_status core"
  "core_selected_mailbox (push_banner m core) = core_selected_mailbox core" "core_headers (push_banner m core) = core_headers core"
  "core_selected_uid (push_banner m core) = core_selected_uid core" "core_selected_uids (push_banner m core) = core_selected_uids core"
  "core_select_anchor (push_banner m core) = core_select_anchor core" "core_pending_mark_seen (push_banner m core) = core_pending_mark_seen core"
  "core_current_page (push_banner m core) = core_current_page core" "core_total_pages (push_banner m core) = core_total_pages core"
  "core_current_attachments (push_banner m core) = core_current_attachments core" "core_current_message_html (push_banner m core) = core_current_message_html core"
  "core_next_req_id (push_banner m core) = core_next_req_id core" "core_current_headers_req (push_banner m core) = core_current_headers_req core"
  "core_current_body_req (push_banner m core) = core_current_body_req core" "core_search_query (push_banner m core) = core_search_query core"
  "core_search_results (push_banner m core) = core_search_results core" "core_search_origins (push_banner m core) = core_search_origins core"
  "core_search_all_accounts (push_banner m core) = core_search_all_accounts core" "core_headers_stale (push_banner m core) = core_headers_stale core"
  "core_progress (push_banner m core) = core_progress core" "core_bulk_action (push_banner m core) = core_bulk_action core"
  by (simp_all add: push_banner_def Let_def)

lemma push_account_banner_fields [simp]:
  "core_changes (push_account_banner a m core) = core_changes core" "core_sent (push_account_banner a m core) = core_sent core"
  "core_db_sent (push_account_banner a m core) = core_db_sent core" "core_accounts (push_account_banner a m core) = core_accounts core"
  "core_active (push_account_banner a m core) = core_active core" "core_status (push_account_banner a m core) = core_status core"
  "core_selected_mailbox (push_account_banner a m core) = core_selected_mailbox core" "core_headers (push_account_banner a m core) = core_headers core"
  "core_selected_uid (push_account_banner a m core) = core_selected_uid core" "core_selected_uids (push_account_banner a m core) = core_selected_uids core"
  "core_select_anchor (push_account_banner a m core) = core_select_anchor core" "core_pending_mark_seen (push_account_banner a m core) = core_pending_mark_seen core"
  "core_current_page (push_account_banner a m core) = core_current_page core" "core_total_pages (push_account_banner a m core) = core_total_pages core"
  "core_current_attachments (push_account_banner a m core) = core_current_attachments core" "core_current_message_html (push_account_banner a m core) = core_current_message_html core"
  "core_next_req_id (push_account_banner a m core) = core_next_req_id core" "core_current_headers_req (push_account_banner a m core) = core_current_headers_req core"
  "core_current_body_req (push_account_banner a m core) = core_current_body_req core" "core_search_query (push_account_banner a m core) = core_search_query core"
  "core_search_results (push_account_banner a m core) = core_search_results core" "core_search_origins (push_account_banner a m core) = core_search_origins core"
  "core_search_all_accounts (push_account_banner a m core) = core_search_all_accounts core" "core_headers_stale (push_account_banner a m core) = core_headers_stale core"
  "core_progress (push_account_banner a m core) = core_progress core" "core_bulk_action (push_account_banner a m core) = core_bulk_action core"
  by (simp_all add: push_account_banner_def push_banner_def Let_def)

lemma set_progress_fields [simp]:
  "core_changes (set_progress k p core) = core_changes core" "core_sent (set_progress k p core) = core_sent core"
  "core_db_sent (set_progress k p core) = core_db_sent core" "core_accounts (set_progress k p core) = core_accounts core"
  "core_active (set_progress k p core) = core_active core" "core_status (set_progress k p core) = core_status core"
  "core_banners (set_progress k p core) = core_banners core" "core_next_banner_id (set_progress k p core) = core_next_banner_id core"
  "core_selected_mailbox (set_progress k p core) = core_selected_mailbox core" "core_headers (set_progress k p core) = core_headers core"
  "core_selected_uid (set_progress k p core) = core_selected_uid core" "core_selected_uids (set_progress k p core) = core_selected_uids core"
  "core_select_anchor (set_progress k p core) = core_select_anchor core" "core_pending_mark_seen (set_progress k p core) = core_pending_mark_seen core"
  "core_current_page (set_progress k p core) = core_current_page core" "core_total_pages (set_progress k p core) = core_total_pages core"
  "core_current_attachments (set_progress k p core) = core_current_attachments core" "core_current_message_html (set_progress k p core) = core_current_message_html core"
  "core_next_req_id (set_progress k p core) = core_next_req_id core" "core_current_headers_req (set_progress k p core) = core_current_headers_req core"
  "core_current_body_req (set_progress k p core) = core_current_body_req core" "core_search_query (set_progress k p core) = core_search_query core"
  "core_search_results (set_progress k p core) = core_search_results core" "core_search_origins (set_progress k p core) = core_search_origins core"
  "core_search_all_accounts (set_progress k p core) = core_search_all_accounts core" "core_headers_stale (set_progress k p core) = core_headers_stale core"
  "core_bulk_action (set_progress k p core) = core_bulk_action core"
  by (simp_all add: set_progress_def)

lemma clear_progress_fields [simp]:
  "core_changes (clear_progress k core) = core_changes core" "core_sent (clear_progress k core) = core_sent core"
  "core_db_sent (clear_progress k core) = core_db_sent core" "core_accounts (clear_progress k core) = core_accounts core"
  "core_active (clear_progress k core) = core_active core" "core_status (clear_progress k core) = core_status core"
  "core_banners (clear_progress k core) = core_banners core" "core_next_banner_id (clear_progress k core) = core_next_banner_id core"
  "core_selected_mailbox (clear_progress k core) = core_selected_mailbox core" "core_headers (clear_progress k core) = core_headers core"
  "core_selected_uid (clear_progress k core) = core_selected_uid core" "core_selected_uids (clear_progress k core) = core_selected_uids core"
  "core_select_anchor (clear_progress k core) = core_select_anchor core" "core_pending_mark_seen (clear_progress k core) = core_pending_mark_seen core"
  "core_current_page (clear_progress k core) = core_current_page core" "core_total_pages (clear_progress k core) = core_total_pages core"
  "core_current_attachments (clear_progress k core) = core_current_attachments core" "core_current_message_html (clear_progress k core) = core_current_message_html core"
  "core_next_req_id (clear_progress k core) = core_next_req_id core" "core_current_headers_req (clear_progress k core) = core_current_headers_req core"
  "core_current_body_req (clear_progress k core) = core_current_body_req core" "core_search_query (clear_progress k core) = core_search_query core"
  "core_search_results (clear_progress k core) = core_search_results core" "core_search_origins (clear_progress k core) = core_search_origins core"
  "core_search_all_accounts (clear_progress k core) = core_search_all_accounts core" "core_headers_stale (clear_progress k core) = core_headers_stale core"
  "core_bulk_action (clear_progress k core) = core_bulk_action core"
  by (simp_all add: clear_progress_def split: option.splits)

lemma advance_bulk_action_fields [simp]:
  "core_changes (advance_bulk_action k u core) = core_changes core" "core_sent (advance_bulk_action k u core) = core_sent core"
  "core_db_sent (advance_bulk_action k u core) = core_db_sent core" "core_accounts (advance_bulk_action k u core) = core_accounts core"
  "core_active (advance_bulk_action k u core) = core_active core" "core_status (advance_bulk_action k u core) = core_status core"
  "core_banners (advance_bulk_action k u core) = core_banners core" "core_next_banner_id (advance_bulk_action k u core) = core_next_banner_id core"
  "core_selected_mailbox (advance_bulk_action k u core) = core_selected_mailbox core" "core_headers (advance_bulk_action k u core) = core_headers core"
  "core_selected_uid (advance_bulk_action k u core) = core_selected_uid core" "core_selected_uids (advance_bulk_action k u core) = core_selected_uids core"
  "core_select_anchor (advance_bulk_action k u core) = core_select_anchor core" "core_pending_mark_seen (advance_bulk_action k u core) = core_pending_mark_seen core"
  "core_current_page (advance_bulk_action k u core) = core_current_page core" "core_total_pages (advance_bulk_action k u core) = core_total_pages core"
  "core_current_attachments (advance_bulk_action k u core) = core_current_attachments core" "core_current_message_html (advance_bulk_action k u core) = core_current_message_html core"
  "core_next_req_id (advance_bulk_action k u core) = core_next_req_id core" "core_current_headers_req (advance_bulk_action k u core) = core_current_headers_req core"
  "core_current_body_req (advance_bulk_action k u core) = core_current_body_req core" "core_search_query (advance_bulk_action k u core) = core_search_query core"
  "core_search_results (advance_bulk_action k u core) = core_search_results core" "core_search_origins (advance_bulk_action k u core) = core_search_origins core"
  "core_search_all_accounts (advance_bulk_action k u core) = core_search_all_accounts core" "core_headers_stale (advance_bulk_action k u core) = core_headers_stale core"
  by (simp_all add: advance_bulk_action_def Let_def set_progress_def clear_progress_def split: option.splits)

lemma fetch_headers_fields [simp]:
  "core_changes (fetch_headers m pg core) = core_changes core" "core_db_sent (fetch_headers m pg core) = core_db_sent core"
  "core_accounts (fetch_headers m pg core) = core_accounts core" "core_active (fetch_headers m pg core) = core_active core"
  "core_status (fetch_headers m pg core) = core_status core" "core_banners (fetch_headers m pg core) = core_banners core"
  "core_next_banner_id (fetch_headers m pg core) = core_next_banner_id core" "core_selected_mailbox (fetch_headers m pg core) = core_selected_mailbox core"
  "core_headers (fetch_headers m pg core) = core_headers core" "core_selected_uid (fetch_headers m pg core) = core_selected_uid core"
  "core_selected_uids (fetch_headers m pg core) = core_selected_uids core" "core_select_anchor (fetch_headers m pg core) = core_select_anchor core"
  "core_pending_mark_seen (fetch_headers m pg core) = core_pending_mark_seen core" "core_current_page (fetch_headers m pg core) = core_current_page core"
  "core_total_pages (fetch_headers m pg core) = core_total_pages core" "core_current_attachments (fetch_headers m pg core) = core_current_attachments core"
  "core_current_message_html (fetch_headers m pg core) = core_current_message_html core" "core_current_body_req (fetch_headers m pg core) = core_current_body_req core"
  "core_search_query (fetch_headers m pg core) = core_search_query core" "core_search_results (fetch_headers m pg core) = core_search_results core"
  "core_search_origins (fetch_headers m pg core) = core_search_origins core" "core_search_all_accounts (fetch_headers m pg core) = core_search_all_accounts core"
  "core_headers_stale (fetch_headers m pg core) = core_headers_stale core" "core_progress (fetch_headers m pg core) = core_progress core"
  "core_bulk_action (fetch_headers m pg core) = core_bulk_action core"
  by (simp_all add: fetch_headers_def next_req_id_def Let_def send_imap_def send_imap_to_def split: option.splits)

lemma drop_selected_fields [simp]:
  "core_sent (drop_selected u d core) = core_sent core" "core_db_sent (drop_selected u d core) = core_db_sent core"
  "core_accounts (drop_selected u d core) = core_accounts core" "core_active (drop_selected u d core) = core_active core"
  "core_banners (drop_selected u d core) = core_banners core" "core_next_banner_id (drop_selected u d core) = core_next_banner_id core"
  "core_selected_mailbox (drop_selected u d core) = core_selected_mailbox core" "core_headers (drop_selected u d core) = core_headers core"
  "core_select_anchor (drop_selected u d core) = core_select_anchor core" "core_pending_mark_seen (drop_selected u d core) = core_pending_mark_seen core"
  "core_current_page (drop_selected u d core) = core_current_page core" "core_total_pages (drop_selected u d core) = core_total_pages core"
  "core_current_attachments (drop_selected u d core) = core_current_attachments core" "core_current_message_html (drop_selected u d core) = core_current_message_html core"
  "core_next_req_id (drop_selected u d core) = core_next_req_id core" "core_current_headers_req (drop_selected u d core) = core_current_headers_req core"
  "core_current_body_req (drop_selected u d core) = core_current_body_req core" "core_search_query (drop_selected u d core) = core_search_query core"
  "core_search_results (drop_selected u d core) = core_search_results core" "core_search_origins (drop_selected u d core) = core_search_origins core"
  "core_search_all_accounts (drop_selected u d core) = core_search_all_accounts core" "core_headers_stale (drop_selected u d core) = core_headers_stale core"
  "core_progress (drop_selected u d core) = core_progress core" "core_bulk_action (drop_selected u d core) = core_bulk_action core"
  by (simp_all add: drop_selected_def show_in_reading_pane_def Let_def)

lemma modify_view_accounts:
  "core_accounts (modify_view a f core) = update_first (\<lambda>v. av_id v = a) f (core_accounts core)"
  by (simp add: modify_view_def)

lemma map_id_modify_view:
  assumes "\<And>v. av_id (f v) = av_id v"
  shows "map av_id (core_accounts (modify_view a f core)) = map av_id (core_accounts core)"
  unfolding modify_view_accounts using assms by (intro map_update_first) simp

lemma view_modify_view:
  assumes "\<And>v. av_id (f v) = av_id v"
  shows "view b (modify_view a f core) = (if a = b then map_option f (view b core) else view b core)"
proof -
  have "find (\<lambda>v. av_id v = b) (update_first (\<lambda>v. av_id v = a) f vs) =
      (if a = b then map_option f (find (\<lambda>v. av_id v = b) vs) else find (\<lambda>v. av_id v = b) vs)" for vs
    using assms by (induction vs) auto
  then show ?thesis by (simp add: view_def modify_view_accounts)
qed

lemma modify_count_id [simp]: "av_id (modify_count m f v) = av_id v"
  by (simp add: modify_count_def split: option.splits)

lemma view_Some_mem: "view a core = Some v \<Longrightarrow> av_id v = a \<and> a \<in> set (map av_id (core_accounts core))"
  unfolding view_def by (auto dest: find_SomeD)

lemma view_None_iff: "view a core = None \<longleftrightarrow> a \<notin> set (map av_id (core_accounts core))"
  by (auto simp: view_def find_None_iff)

lemma activate_fields [simp]:
  "core_accounts (activate a m core) = core_accounts core" "core_db_sent (activate a m core) = core_db_sent core"
  "core_active (activate a m core) = Some a" "core_banners (activate a m core) = core_banners core"
  "core_next_banner_id (activate a m core) = core_next_banner_id core"
  "core_bulk_action (activate a m core) = core_bulk_action core" "core_progress (activate a m core) = core_progress core"
  "core_next_req_id (activate a m core) = core_next_req_id core + 1"
  "core_current_headers_req (activate a m core) = core_next_req_id core + 1"
  "core_current_body_req (activate a m core) = core_current_body_req core"
  "core_selected_mailbox (activate a m core) = m" "core_selected_uid (activate a m core) = None"
  "core_search_results (activate a m core) = (if core_active core = Some a then core_search_results core else None)"
  "core_search_origins (activate a m core) = (if core_active core = Some a then core_search_origins core else [])"
  by (simp_all add: activate_def drop_list_def Let_def fetch_headers_def next_req_id_def show_in_reading_pane_def
      send_imap_def send_imap_to_def split: option.splits)

lemma fetch_headers_req [simp]:
  "core_next_req_id (fetch_headers m p core) = core_next_req_id core + 1"
  "core_current_headers_req (fetch_headers m p core) = core_next_req_id core + 1"
  by (simp_all add: fetch_headers_def next_req_id_def Let_def send_imap_def send_imap_to_def split: option.splits)

lemmas event_defs =
  on_connected_def on_disconnected_def on_error_def on_mailboxes_def on_headers_def on_body_def
  on_body_failed_def on_progress_def on_new_headers_def on_flags_updated_def on_flags_update_failed_def
  on_moved_def on_move_failed_def

section \<open>One account at a time\<close>

lemma update_first_id: "update_first P (\<lambda>v. v) xs = xs"
  by (induction xs) auto

lemma update_first_none: "\<forall>x\<in>set xs. \<not> P x \<Longrightarrow> update_first P f xs = xs"
  by (induction xs) auto

lemma modify_view_id: "core_accounts (modify_view a (\<lambda>v. v) core) = core_accounts core"
  by (simp add: modify_view_accounts update_first_id)

text \<open>How an event changes the view of its account.\<close>

definition moved_unread :: "str \<Rightarrow> str \<Rightarrow> u32 \<Rightarrow> 'a app_core \<Rightarrow> bool" where
  "moved_unread account mailbox uid core \<longleftrightarrow>
     is_active account core \<and> mailbox = core_selected_mailbox core \<and>
     (case find (\<lambda>h. mh_uid h = uid) (core_headers core) of Some h \<Rightarrow> \<not> is_seen h | None \<Rightarrow> False)"

definition seen_before :: "str \<Rightarrow> str \<Rightarrow> u32 \<Rightarrow> 'a app_core \<Rightarrow> bool option" where
  "seen_before account mailbox uid core =
     (if is_active account core \<and> mailbox = core_selected_mailbox core
      then map_option is_seen (find (\<lambda>h. mh_uid h = uid) (core_headers core)) else None)"

definition view_change :: "str \<Rightarrow> imap_event \<Rightarrow> 'a app_core \<Rightarrow> 'a account_view \<Rightarrow> 'a account_view" where
  "view_change account evt core =
     (case evt of
        EvConnected \<Rightarrow> (\<lambda>v. v\<lparr>av_state := Connected\<rparr>)
      | EvDisconnected \<Rightarrow> (\<lambda>v. v\<lparr>av_state := Disconnected\<rparr>)
      | EvError e \<Rightarrow> (\<lambda>v. if av_state v = Connecting \<or> av_state v = Disconnected then v\<lparr>av_state := Failed e\<rparr> else v)
      | EvMailboxes mbs \<Rightarrow> (\<lambda>v. v\<lparr>av_mailbox_rows := flatten_tree (mailbox_tree mbs)\<rparr>)
      | EvFlagsUpdated mailbox uid flags _ \<Rightarrow>
          modify_count mailbox (adjust_unread (seen_before account mailbox uid core) (has_flag FLAG_SEEN flags))
      | EvMoved mailbox uid dest _ \<Rightarrow>
          (if moved_unread account mailbox uid core
           then (\<lambda>v. modify_count dest (\<lambda>n. n + 1) (modify_count mailbox (\<lambda>n. sat_sub n 1) v)) else (\<lambda>v. v))
      | EvUnreadCounts counts \<Rightarrow> (\<lambda>v. v\<lparr>av_unread_counts := counts\<rparr>)
      | _ \<Rightarrow> (\<lambda>v. v))"

lemma view_change_id: "av_id (view_change a evt core v) = av_id v"
  by (cases evt) (simp_all add: view_change_def)

lemma is_active_cong:
  "is_active a (advance_bulk_action k u core) = is_active a core"
  by (simp add: is_active_def)

lemma handle_accounts:
  "core_accounts (handle_imap_event ct a evt core) = core_accounts (modify_view a (view_change a evt core) core)"
proof (cases "view a core")
  case None
  then have "update_first (\<lambda>v. av_id v = a) f (core_accounts core) = core_accounts core" for f
    unfolding view_None_iff by (intro update_first_none) auto
  with None show ?thesis by (simp add: handle_imap_event_def modify_view_accounts)
next
  case (Some v)
  then show ?thesis
    by (cases evt)
       (simp_all add: handle_imap_event_def view_change_def event_defs Let_def modify_view_id modify_view_accounts
         update_first_id is_active_cong moved_unread_def seen_before_def split: option.splits)
qed

lemma view_same_accounts: "core_accounts c = core_accounts d \<Longrightarrow> view b c = view b d"
  by (simp add: view_def)

lemma view_handle:
  "view b (handle_imap_event ct a evt core) =
     (if a = b then map_option (view_change a evt core) (view b core) else view b core)"
  using view_same_accounts [OF handle_accounts, of b ct a evt core] view_modify_view [of "view_change a evt core"]
  by (simp add: view_change_id)

text \<open>C20. What an account's session reports changes the connection state, the folders and the unread
  counts of that account only: every other account stays as it is, and no account is added,
  removed or reordered.\<close>

theorem events_stay_in_their_account:
  "map av_id (core_accounts (handle_imap_event ct a evt core)) = map av_id (core_accounts core) \<and>
   (\<forall>b. b \<noteq> a \<longrightarrow> view b (handle_imap_event ct a evt core) = view b core)"
  using view_handle [of _ ct a evt core]
  by (simp add: handle_accounts map_id_modify_view view_change_id)

definition demo_view :: "str \<Rightarrow> unit account_view" where
  "demo_view a = \<lparr>av_id = a, av_label = a, av_state = Connected, av_mailbox_rows = [],
     av_unread_counts = [lit ''INBOX'' \<mapsto> 3], av_auth = (), av_pending_persist = None\<rparr>"

definition demo_header :: "u32 \<Rightarrow> mail_header" where
  "demo_header u = \<lparr>mh_uid = u, mh_subject = [], mh_from = [], mh_to = [], mh_date = [], mh_message_id = [], mh_flags = []\<rparr>"

text \<open>Two accounts, the first one shown.\<close>

definition demo_core :: "unit app_core" where
  "demo_core = app_core_new\<lparr>core_accounts := [demo_view [1], demo_view [2]], core_active := Some [1],
     core_headers := [demo_header 5, demo_header 6], core_selected_uid := Some 5\<rparr>"

theorem events_stay_in_their_account_witness:
  "view [2] (handle_imap_event (\<lambda>s. s) [1] EvDisconnected demo_core) = Some (demo_view [2])"
  using events_stay_in_their_account [of "\<lambda>s. s" "[1]" EvDisconnected demo_core]
  by (simp add: demo_core_def demo_view_def view_def)

text \<open>Once an account is signed out, nothing its session still reports has any effect.\<close>

theorem removed_account_is_silent:
  "handle_imap_event ct a evt (disconnect_account a core) = disconnect_account a core"
proof -
  have acc: "core_accounts (disconnect_account a core) = filter (\<lambda>v. av_id v \<noteq> a) (core_accounts core)"
    by (simp add: disconnect_account_def drop_active_def Let_def split: option.splits)
  have "view a (disconnect_account a core) = None"
    unfolding view_None_iff acc by auto
  then show ?thesis by (simp add: handle_imap_event_def)
qed

section \<open>Superseded requests\<close>

text \<open>After a page of headers was requested, the answer to any earlier request leaves the message
  list, its page and the status as they are; only the cache hears of the mailbox state.\<close>

theorem earlier_headers_reply_dropped:
  assumes "req \<le> core_next_req_id core" and "unat (core_next_req_id core) + 1 < 2 ^ 64"
  shows "handle_imap_event ct a (EvHeaders mb hs pg tot req st) (fetch_headers mailbox page core) =
    (if view a core = None then fetch_headers mailbox page core
     else send_db (ReportMailboxState a mb (mst_uid_validity st) (mst_uid_next st)) (fetch_headers mailbox page core))"
proof -
  have "req < core_next_req_id core + 1"
    using assms unat_Suc_word(2) [of "core_next_req_id core"] by simp
  then have "req \<noteq> core_current_headers_req (fetch_headers mailbox page core)" by simp
  moreover have "view a (fetch_headers mailbox page core) = view a core"
    by (rule view_same_accounts) simp
  ultimately show ?thesis by (simp add: handle_imap_event_def on_headers_def)
qed

theorem earlier_headers_reply_dropped_witness:
  "core_headers (handle_imap_event (\<lambda>s. s) [1] (EvHeaders (lit ''INBOX'') [] 1 1 0 \<lparr>mst_uid_validity = 1, mst_uid_next = 1\<rparr>)
     (fetch_headers (lit ''INBOX'') 2 demo_core)) = [demo_header 5, demo_header 6]"
proof -
  have "0 \<le> core_next_req_id demo_core" "unat (core_next_req_id demo_core) + 1 < 2 ^ 64"
    by (simp_all add: demo_core_def app_core_new_def)
  from earlier_headers_reply_dropped [OF this, of "\<lambda>s. s" "[1]"] show ?thesis
    by (simp add: demo_core_def)
qed

text \<open>A message body that was not asked for last, or is for a message no longer selected or an
  account no longer shown, changes nothing at all.\<close>

theorem stale_body_dropped:
  assumes "\<not> is_active a core \<or> req \<noteq> core_current_body_req core \<or> core_selected_uid core \<noteq> Some uid"
  shows "handle_imap_event ct a (EvBody uid html atts req) core = core"
  using assms by (auto simp: handle_imap_event_def on_body_def)

theorem stale_body_dropped_witness:
  "handle_imap_event (\<lambda>s. s) [1] (EvBody 6 [60] [] 0) demo_core = demo_core"
  by (rule stale_body_dropped) (simp add: demo_core_def)

section \<open>Bulk actions\<close>

definition answer_all :: "progress_kind \<Rightarrow> u32 list \<Rightarrow> 'a app_core \<Rightarrow> 'a app_core" where
  "answer_all kind uids core = foldl (\<lambda>c u. advance_bulk_action kind u c) core uids"

lemma answer_all_snoc: "answer_all k (us @ [u]) core = advance_bulk_action k u (answer_all k us core)"
  by (simp add: answer_all_def)

lemma answer_all_step:
  assumes "distinct ts" and "length ts < 2 ^ 32" and "2 \<le> length ts"
    and "distinct us" and "set us \<subset> set ts"
  shows "core_bulk_action (answer_all k us (begin_bulk_action k ts core)) =
      Some \<lparr>ba_kind = k, ba_total = of_nat (length ts), ba_pending = set ts - set us\<rparr> \<and>
    core_progress (answer_all k us (begin_bulk_action k ts core)) =
      Some \<lparr>pv_kind = k, pv_progress = Counted (of_nat (length us)) (of_nat (length ts))\<rparr>"
  using assms(4,5)
proof (induction us rule: rev_induct)
  case Nil
  have "\<not> (of_nat (length ts) :: u32) < 2"
    using assms(2,3) by (simp add: word_less_nat_alt unat_of_nat take_bit_nat_eq_self)
  then show ?case
    by (simp add: answer_all_def begin_bulk_action_def Let_def set_progress_def)
next
  case (snoc u us)
  then have d: "distinct us" "u \<notin> set us" "u \<in> set ts" "set us \<subset> set ts" "set us \<union> {u} \<subset> set ts" by auto
  let ?c = "answer_all k us (begin_bulk_action k ts core)"
  from snoc.IH [OF d(1,4)] have b: "core_bulk_action ?c =
      Some \<lparr>ba_kind = k, ba_total = of_nat (length ts), ba_pending = set ts - set us\<rparr>" by blast
  let ?p = "set ts - set us - {u}"
  have eq: "?p = set ts - set (us @ [u])" by auto
  have ne: "?p \<noteq> {}" unfolding eq using d(5) by auto
  have sub: "set (us @ [u]) \<subseteq> set ts" using snoc.prems(2) by auto
  have "card ?p = card (set ts) - card (set (us @ [u]))"
    unfolding eq by (rule card_Diff_subset [OF _ sub]) simp
  also have "card (set (us @ [u])) = Suc (length us)" using distinct_card [OF snoc.prems(1)] by simp
  finally have card: "card ?p = length ts - Suc (length us)"
    using distinct_card [OF assms(1)] by simp
  have "card (set (us @ [u])) \<le> card (set ts)" by (rule card_mono [OF _ sub]) simp
  then have le: "Suc (length us) \<le> length ts"
    using distinct_card [OF snoc.prems(1)] distinct_card [OF assms(1)] by simp
  have n: "(of_nat (length ts) :: u32) - of_nat (length ts - Suc (length us)) = of_nat (Suc (length us))"
    using of_nat_diff [OF le, where 'a = u32] by simp
  have "advance_bulk_action k u ?c = set_progress k (Counted (of_nat (Suc (length us))) (of_nat (length ts)))
      (?c\<lparr>core_bulk_action := Some \<lparr>ba_kind = k, ba_total = of_nat (length ts), ba_pending = ?p\<rparr>\<rparr>)"
    unfolding advance_bulk_action_def b using d(2,3) ne
    by (simp only: option.case bulk_action.simps Let_def card n) simp
  then show ?case by (simp only: answer_all_snoc eq) (simp add: set_progress_def)
qed

text \<open>C21. A bulk action over distinct messages shows how many of them have been answered, whatever the
  order of the answers, and once every one has been answered, the action and its bar are
  gone.\<close>

theorem bulk_action_counts_and_ends:
  assumes "distinct ts" and "length ts < 2 ^ 32" and "2 \<le> length ts" and "distinct us" and "set us \<subseteq> set ts"
  shows "(set us \<noteq> set ts \<longrightarrow>
      core_progress (answer_all k us (begin_bulk_action k ts core)) =
        Some \<lparr>pv_kind = k, pv_progress = Counted (of_nat (length us)) (of_nat (length ts))\<rparr> \<and>
      core_bulk_action (answer_all k us (begin_bulk_action k ts core)) \<noteq> None) \<and>
    (set us = set ts \<longrightarrow>
      core_progress (answer_all k us (begin_bulk_action k ts core)) = None \<and>
      core_bulk_action (answer_all k us (begin_bulk_action k ts core)) = None)"
proof (intro conjI impI)
  assume "set us \<noteq> set ts"
  with assms(5) have "set us \<subset> set ts" by auto
  from answer_all_step [OF assms(1-4) this, of k core]
  show "core_progress (answer_all k us (begin_bulk_action k ts core)) =
      Some \<lparr>pv_kind = k, pv_progress = Counted (of_nat (length us)) (of_nat (length ts))\<rparr>"
    and "core_bulk_action (answer_all k us (begin_bulk_action k ts core)) \<noteq> None" by simp_all
next
  assume eq: "set us = set ts"
  with assms(3) have "us \<noteq> []" by auto
  then obtain vs u where us: "us = vs @ [u]" by (meson rev_exhaust)
  let ?c = "answer_all k vs (begin_bulk_action k ts core)"
  have "set vs \<subset> set ts" "distinct vs" "set ts - set vs - {u} = {}" "u \<in> set ts - set vs"
    using assms(4) us eq by auto
  with answer_all_step [OF assms(1-3), of vs k core]
  have "core_progress (advance_bulk_action k u ?c) = None \<and> core_bulk_action (advance_bulk_action k u ?c) = None"
    by (simp add: advance_bulk_action_def Let_def clear_progress_def)
  then show "core_progress (answer_all k us (begin_bulk_action k ts core)) = None"
    and "core_bulk_action (answer_all k us (begin_bulk_action k ts core)) = None"
    by (simp_all add: us answer_all_snoc)
qed

theorem bulk_action_counts_and_ends_witness:
  "core_progress (answer_all PMove [6, 5] (begin_bulk_action PMove [5, 6] demo_core)) = None"
  using bulk_action_counts_and_ends [of "[5, 6]" "[6, 5]" PMove demo_core] by (simp add: insert_commute)

section \<open>The invariant of the core\<close>

definition search_ok :: "'a app_core \<Rightarrow> bool" where
  "search_ok core \<longleftrightarrow>
     (case core_search_results core of None \<Rightarrow> core_search_origins core = []
      | Some rs \<Rightarrow> length (core_search_origins core) = length rs)"

definition bulk_ok :: "'a app_core \<Rightarrow> bool" where
  "bulk_ok core \<longleftrightarrow> (case core_bulk_action core of None \<Rightarrow> True | Some b \<Rightarrow> ba_pending b \<noteq> {})"

definition accounts_ok :: "'a app_core \<Rightarrow> bool" where
  "accounts_ok core \<longleftrightarrow> distinct (map av_id (core_accounts core)) \<and>
     (case core_active core of None \<Rightarrow> True | Some a \<Rightarrow> a \<in> set (map av_id (core_accounts core)))"

text \<open>The ids handed out, with room for \<open>k\<close> more of each.\<close>

definition ids_ok :: "nat \<Rightarrow> 'a app_core \<Rightarrow> bool" where
  "ids_ok k core \<longleftrightarrow>
     sorted_wrt (<) (map bn_id (core_banners core)) \<and>
     (\<forall>b\<in>set (core_banners core). bn_id b \<le> core_next_banner_id core) \<and>
     unat (core_next_banner_id core) + k < 2 ^ 64 \<and>
     core_current_headers_req core \<le> core_next_req_id core \<and>
     core_current_body_req core \<le> core_next_req_id core \<and>
     unat (core_next_req_id core) + k < 2 ^ 64"

lemma length_patch_results [simp]: "length (patch_results a m u fl os rs) = length rs"
  by (simp add: patch_results_def list_enum_def)

lemma search_ok_handle:
  assumes "search_ok core" shows "search_ok (handle_imap_event ct a evt core)"
proof (cases "view a core")
  case (Some v)
  then show ?thesis using assms
    by (cases evt)
       (auto simp: handle_imap_event_def event_defs Let_def search_ok_def kept_results_def split: option.splits)
qed (use assms in \<open>simp add: handle_imap_event_def\<close>)

lemma bulk_ok_advance: "bulk_ok core \<Longrightarrow> bulk_ok (advance_bulk_action k u core)"
  by (auto simp: bulk_ok_def advance_bulk_action_def Let_def split: option.splits)

lemma handle_bulk_action:
  "core_bulk_action (handle_imap_event ct a evt core) =
     (if view a core = None then core_bulk_action core
      else case evt of
        EvFlagsUpdated _ u _ _ \<Rightarrow> core_bulk_action (advance_bulk_action PFlags u core)
      | EvFlagsUpdateFailed _ u _ _ \<Rightarrow> core_bulk_action (advance_bulk_action PFlags u core)
      | EvMoved _ u _ _ \<Rightarrow> core_bulk_action (advance_bulk_action PMove u core)
      | EvMoveFailed _ u _ _ \<Rightarrow> core_bulk_action (advance_bulk_action PMove u core)
      | _ \<Rightarrow> core_bulk_action core)"
  by (cases evt) (simp_all add: handle_imap_event_def event_defs Let_def split: option.splits)

lemma bulk_ok_handle: "bulk_ok core \<Longrightarrow> bulk_ok (handle_imap_event ct a evt core)"
  using bulk_ok_advance [of core]
  by (cases evt) (auto simp: bulk_ok_def handle_bulk_action)

lemma handle_active:
  "core_active (handle_imap_event ct a evt core) =
     (if view a core \<noteq> None \<and> evt = EvConnected \<and> core_active core = None then Some a else core_active core)"
  by (cases evt) (simp_all add: handle_imap_event_def event_defs Let_def is_active_def split: option.splits)

lemma accounts_ok_handle: "accounts_ok core \<Longrightarrow> accounts_ok (handle_imap_event ct a evt core)"
  using view_Some_mem [of a core]
  by (auto simp: accounts_ok_def handle_active handle_accounts map_id_modify_view view_change_id
      simp del: set_map list.set_map split: option.splits)

text \<open>The ids are the only thing an event can use up: at most one banner and one request.\<close>

definition ids_step :: "'a app_core \<Rightarrow> 'a app_core \<Rightarrow> bool" where
  "ids_step core core' \<longleftrightarrow>
     (core_banners core' = core_banners core \<and> core_next_banner_id core' = core_next_banner_id core \<or>
      (\<exists>m. core_banners core' = core_banners core @ [\<lparr>bn_id = core_next_banner_id core + 1, bn_message = m\<rparr>] \<and>
           core_next_banner_id core' = core_next_banner_id core + 1)) \<and>
     (core_next_req_id core' = core_next_req_id core \<and>
        core_current_headers_req core' = core_current_headers_req core \<and>
        core_current_body_req core' = core_current_body_req core \<or>
      core_next_req_id core' = core_next_req_id core + 1 \<and>
        core_current_headers_req core' \<in> {core_current_headers_req core, core_next_req_id core + 1} \<and>
        core_current_body_req core' \<in> {core_current_body_req core, core_next_req_id core + 1})"

lemma push_account_banner_ids:
  "\<exists>m'. core_banners (push_account_banner a m core) =
        core_banners core @ [\<lparr>bn_id = core_next_banner_id core + 1, bn_message = m'\<rparr>] \<and>
     core_next_banner_id (push_account_banner a m core) = core_next_banner_id core + 1"
  by (simp add: push_account_banner_def push_banner_def Let_def)

lemma ids_step_banner:
  assumes "core_banners c = core_banners core" "core_next_banner_id c = core_next_banner_id core"
    "core_next_req_id c = core_next_req_id core" "core_current_headers_req c = core_current_headers_req core"
    "core_current_body_req c = core_current_body_req core"
  shows "ids_step core (push_account_banner a m c)"
  using push_account_banner_ids [of a m c] assms by (auto simp: ids_step_def)

lemma ids_step_handle: "ids_step core (handle_imap_event ct a evt core)"
  by (cases evt)
     (auto simp: handle_imap_event_def event_defs Let_def intro!: ids_step_banner;
      auto simp: ids_step_def split: option.splits)+

lemma ids_ok_step:
  assumes "ids_ok (Suc k) core" and "ids_step core core'" shows "ids_ok k core'"
proof -
  have b: "unat (core_next_banner_id core) + 1 < 2 ^ LENGTH(64)"
    and r: "unat (core_next_req_id core) + 1 < 2 ^ LENGTH(64)"
    using assms(1) by (simp_all add: ids_ok_def)
  note ub = unat_Suc_word [OF b] and ur = unat_Suc_word [OF r]
  have req: "core_current_headers_req core' \<le> core_next_req_id core' \<and>
      core_current_body_req core' \<le> core_next_req_id core' \<and> unat (core_next_req_id core') + k < 2 ^ 64"
    using assms ur by (auto simp: ids_ok_def ids_step_def intro: order_trans less_imp_le)
  have "sorted_wrt (<) (map bn_id (core_banners core')) \<and>
     (\<forall>b\<in>set (core_banners core'). bn_id b \<le> core_next_banner_id core') \<and>
     unat (core_next_banner_id core') + k < 2 ^ 64"
  proof (cases "core_banners core' = core_banners core \<and> core_next_banner_id core' = core_next_banner_id core")
    case True
    then show ?thesis using assms(1) by (simp add: ids_ok_def)
  next
    case False
    with assms(2) obtain m where
      "core_banners core' = core_banners core @ [\<lparr>bn_id = core_next_banner_id core + 1, bn_message = m\<rparr>]"
      "core_next_banner_id core' = core_next_banner_id core + 1" by (auto simp: ids_step_def)
    then show ?thesis using assms(1) ub
      by (auto simp: ids_ok_def sorted_wrt_append intro: le_less_trans order_trans less_imp_le)
  qed
  with req show ?thesis by (simp add: ids_ok_def)
qed

definition core_ok :: "nat \<Rightarrow> 'a app_core \<Rightarrow> bool" where
  "core_ok k core \<longleftrightarrow> search_ok core \<and> bulk_ok core \<and> accounts_ok core \<and> ids_ok k core"

lemma core_ok_handle: "core_ok (Suc k) core \<Longrightarrow> core_ok k (handle_imap_event ct a evt core)"
  using ids_ok_step [OF _ ids_step_handle]
  by (auto simp: core_ok_def search_ok_handle bulk_ok_handle accounts_ok_handle)

lemma core_ok_changes [simp]: "core_ok k (core\<lparr>core_changes := ch\<rparr>) = core_ok k core"
  by (simp add: core_ok_def search_ok_def bulk_ok_def accounts_ok_def ids_ok_def split: option.split)

text \<open>C19. The core stays consistent whatever the sessions report: every search hit keeps its origin,
  the shown account is one of the open ones, account ids are distinct, banner ids ascend, no
  request waits for an id that was never handed out, and a bulk action in flight still waits
  for something; with room for one id per event.\<close>

theorem pump_keeps_core_ok:
  assumes "core_ok (k + length events) core"
  shows "core_ok k (snd (pump ct events core)) \<and> core_changes (snd (pump ct events core)) = changes_default"
proof -
  have "core_ok (k + length events) core \<Longrightarrow>
      core_ok k (foldl (\<lambda>core (account, evt). handle_imap_event ct account evt core) core events)" for core :: "'a app_core"
    by (induction events arbitrary: core) (auto intro: core_ok_handle split: prod.splits)
  with assms have "core_ok k (foldl (\<lambda>core (account, evt). handle_imap_event ct account evt core) core events)" by blast
  then show ?thesis by (simp add: pump_def take_changes_def)
qed

lemma core_ok_demo: "core_ok 10 demo_core"
  by (simp add: core_ok_def search_ok_def bulk_ok_def accounts_ok_def ids_ok_def demo_core_def app_core_new_def
      demo_view_def)

theorem pump_keeps_core_ok_witness:
  "core_ok 8 (snd (pump (\<lambda>s. s) [([1], EvError [69]), ([2], EvMoved (lit ''INBOX'') 5 (lit ''Trash'') 0)] demo_core))"
  using pump_keeps_core_ok [of 8 "[([1], EvError [69]), ([2], EvMoved (lit ''INBOX'') 5 (lit ''Trash'') 0)]" demo_core]
    core_ok_demo by simp

section \<open>Unread counts\<close>

definition unread_in :: "mail_header list \<Rightarrow> nat" where
  "unread_in hs = length (filter (\<lambda>h. \<not> is_seen h) hs)"

lemma unread_in_simps [simp]:
  "unread_in [] = 0" "unread_in (h # hs) = (if is_seen h then 0 else 1) + unread_in hs"
  by (simp_all add: unread_in_def)

lemma is_seen_set_flags [simp]: "is_seen (set_flags fl h) = has_flag FLAG_SEEN fl" "mh_uid (set_flags fl h) = mh_uid h"
  by (simp_all add: set_flags_def is_seen_def)

lemma unread_in_update:
  assumes "find P hs = Some h"
  shows "unread_in (update_first P (set_flags fl) hs) + (if is_seen h then 0 else 1) =
    unread_in hs + (if has_flag FLAG_SEEN fl then 0 else 1)"
  using assms by (induction hs) (auto split: if_splits)

lemma unread_in_find: "find P hs = Some h \<Longrightarrow> \<not> is_seen h \<Longrightarrow> 0 < unread_in hs"
  by (induction hs) (auto split: if_splits)

text \<open>When the server confirms new flags for a message of the open mailbox, the mailbox's unread
  count moves with the list: the number of unread messages beyond those listed stays the
  same.\<close>

theorem flags_keep_unread_count:
  assumes "view a core = Some v" and "is_active a core" and "av_unread_counts v (core_selected_mailbox core) = Some n"
    and "unread_in (core_headers core) \<le> unat n" and "unat n + 1 < 2 ^ 32"
  shows "\<exists>v' n'. view a (handle_imap_event ct a (EvFlagsUpdated (core_selected_mailbox core) uid flags req) core) = Some v' \<and>
    av_unread_counts v' (core_selected_mailbox core) = Some n' \<and>
    unat n' - unread_in (core_headers (handle_imap_event ct a (EvFlagsUpdated (core_selected_mailbox core) uid flags req) core)) =
      unat n - unread_in (core_headers core) \<and>
    unread_in (core_headers (handle_imap_event ct a (EvFlagsUpdated (core_selected_mailbox core) uid flags req) core)) \<le> unat n'"
proof -
  let ?m = "core_selected_mailbox core"
  let ?e = "EvFlagsUpdated ?m uid flags req"
  let ?f = "find (\<lambda>h. mh_uid h = uid) (core_headers core)"
  let ?n = "adjust_unread (map_option is_seen ?f) (has_flag FLAG_SEEN flags) n"
  have hs: "core_headers (handle_imap_event ct a ?e core) =
      update_first (\<lambda>h. mh_uid h = uid) (set_flags flags) (core_headers core)"
    using assms(1,2) by (simp add: handle_imap_event_def on_flags_updated_def Let_def is_active_def)
  have v': "view a (handle_imap_event ct a ?e core) = Some (modify_count ?m (\<lambda>_. ?n) v)"
    using assms(1,2,3) by (simp add: view_handle view_change_def seen_before_def modify_count_def)
  have n': "av_unread_counts (modify_count ?m (\<lambda>_. ?n) v) ?m = Some ?n"
    using assms(3) by (simp add: modify_count_def)
  have u1: "unat (n + 1) = Suc (unat n)" using assms(5) by (intro unat_Suc_word(1)) simp
  have count: "unat ?n + unread_in (core_headers core) =
      unat n + unread_in (update_first (\<lambda>h. mh_uid h = uid) (set_flags flags) (core_headers core))"
  proof (cases ?f)
    case None
    then have "update_first (\<lambda>h. mh_uid h = uid) (set_flags flags) (core_headers core) = core_headers core"
      by (intro update_first_none) (simp add: find_None_iff)
    with None show ?thesis by (simp add: adjust_unread_def)
  next
    case (Some h)
    have pos: "\<not> is_seen h \<Longrightarrow> 0 < unat n" using unread_in_find [OF Some] assms(4) by auto
    have "unat (sat_sub n 1) = unat n - 1" by (simp add: unat_sat_sub)
    with unread_in_update [OF Some, of flags] Some u1 pos show ?thesis
      by (auto simp: adjust_unread_def)
  qed
  then show ?thesis using v' n' assms(4) unfolding hs by auto
qed

theorem flags_keep_unread_count_witness:
  "\<exists>v. view [1] (handle_imap_event (\<lambda>s. s) [1] (EvFlagsUpdated (lit ''INBOX'') 5 [blit ''Seen''] 0) demo_core) = Some v \<and>
     av_unread_counts v (lit ''INBOX'') = Some 2"
proof -
  have v: "view [1] demo_core = Some (demo_view [1])" by (simp add: demo_core_def view_def demo_view_def)
  have a: "is_active [1] demo_core" by (simp add: demo_core_def is_active_def)
  have m: "core_selected_mailbox demo_core = lit ''INBOX''" by (simp add: demo_core_def app_core_new_def)
  have n: "av_unread_counts (demo_view [1]) (core_selected_mailbox demo_core) = Some 3" by (simp add: m demo_view_def)
  have h: "core_headers demo_core = [demo_header 5, demo_header 6]" by (simp add: demo_core_def)
  have s: "\<not> is_seen (demo_header u)" for u by (simp add: demo_header_def is_seen_def has_flag_def)
  have u: "unread_in (core_headers demo_core) \<le> unat (3 :: u32)" by (simp add: h s)
  let ?c = "handle_imap_event (\<lambda>s. s) [1] (EvFlagsUpdated (lit ''INBOX'') 5 [blit ''Seen''] 0) demo_core"
  have hs: "core_headers ?c = update_first (\<lambda>h. mh_uid h = 5) (set_flags [blit ''Seen'']) (core_headers demo_core)"
    using v a by (simp add: handle_imap_event_def on_flags_updated_def Let_def is_active_def m)
  have "unread_in (core_headers ?c) = 1"
    unfolding hs h by (simp add: demo_header_def set_flags_def is_seen_def has_flag_def FLAG_SEEN_def)
  with flags_keep_unread_count [OF v a n u, of "\<lambda>s. s" 5 "[blit ''Seen'']" 0] m
  obtain v' n' where "view [1] ?c = Some v'" "av_unread_counts v' (lit ''INBOX'') = Some n'" "unat n' - 1 = 1"
    by (auto simp: h s)
  moreover from this(3) have "n' = 2" by (simp add: word_unat_eq_iff)
  ultimately show ?thesis by simp
qed

section \<open>Events for another mailbox\<close>

text \<open>A message moved out of a mailbox that is no longer open can close the open one: while
  message 5 of the inbox is shown, the report that message 5 of another mailbox was moved
  deselects it and says that it was moved.\<close>

theorem moved_elsewhere_closes_open_message:
  "core_selected_mailbox demo_core = lit ''INBOX'' \<and> core_selected_uid demo_core = Some 5 \<and>
   core_selected_uid (handle_imap_event (\<lambda>s. s) [1] (EvMoved (lit ''Sent'') 5 (lit ''Trash'') 0) demo_core) = None \<and>
   ch_reading_pane (core_changes (handle_imap_event (\<lambda>s. s) [1] (EvMoved (lit ''Sent'') 5 (lit ''Trash'') 0) demo_core)) =
     Some (lit ''<i>Message moved.</i>'')"
  by (simp add: demo_core_def app_core_new_def handle_imap_event_def view_def demo_view_def on_moved_def Let_def
      advance_bulk_action_def is_active_def drop_selected_def show_in_reading_pane_def send_db_def)

text \<open>A bulk action counts an answer to another account's message when the UID is the same.\<close>

theorem bulk_action_counts_other_account:
  "core_progress (handle_imap_event (\<lambda>s. s) [2] (EvFlagsUpdated (lit ''Sent'') 5 [] 0) (begin_bulk_action PFlags [5, 6] demo_core)) =
     Some \<lparr>pv_kind = PFlags, pv_progress = Counted 1 2\<rparr>"
  by (simp add: demo_core_def app_core_new_def handle_imap_event_def view_def demo_view_def on_flags_updated_def Let_def
      begin_bulk_action_def advance_bulk_action_def is_active_def set_progress_def send_db_def)

end
