(* ===== verification/Loads.thy ===== *)
theory Loads
  imports Prelude
begin

text \<open>
  Which asynchronous replies still matter, \<open>crates/esmail-win32/src/core_glue/loads.rs\<close>:
  the counter \<open>Latest\<close> that tags list fetches, and \<open>BodyLoads\<close>, which keeps at most one
  body fetch in flight while the selection moves on.  The lemmas give the states the tracker
  can be in, and show that the message the user stopped on is the one that is shown.
\<close>

section \<open>Data and operations\<close>

record latest =
  lt_current :: u64

definition latest_default :: latest where
  "latest_default = \<lparr>lt_current = 0\<rparr>"

definition latest_begin :: "latest \<Rightarrow> u64 \<times> latest" where
  "latest_begin l = (let n = lt_current l + 1 in (n, l\<lparr>lt_current := n\<rparr>))"

definition is_current :: "u64 \<Rightarrow> latest \<Rightarrow> bool" where
  "is_current i l \<longleftrightarrow> i = lt_current l"

record 'k finished =
  fin_show :: bool
  fin_next :: "('k \<times> u64) option"

record 'k body_loads =
  bl_ids :: latest
  bl_in_flight :: "('k \<times> u64) option"
  bl_wanted :: "'k option"

definition body_loads_default :: "'k body_loads" where
  "body_loads_default = \<lparr>bl_ids = latest_default, bl_in_flight = None, bl_wanted = None\<rparr>"

definition start_wanted :: "'k body_loads \<Rightarrow> ('k \<times> u64) option \<times> 'k body_loads" where
  "start_wanted b =
     (if bl_in_flight b \<noteq> None then (None, b)
      else case bl_wanted b of
        None \<Rightarrow> (None, b)
      | Some key \<Rightarrow>
          (let (i, ids) = latest_begin (bl_ids b)
           in (Some (key, i), b\<lparr>bl_ids := ids, bl_in_flight := Some (key, i)\<rparr>)))"

definition want :: "'k \<Rightarrow> 'k body_loads \<Rightarrow> ('k \<times> u64) option \<times> 'k body_loads" where
  "want key b =
     (if bl_wanted b = Some key then (None, b)
      else start_wanted (b\<lparr>bl_wanted := Some key\<rparr>))"

definition cancel :: "'k body_loads \<Rightarrow> 'k body_loads" where
  "cancel b = b\<lparr>bl_wanted := None\<rparr>"

definition body_finished :: "'k \<Rightarrow> u64 \<Rightarrow> 'k body_loads \<Rightarrow> 'k finished \<times> 'k body_loads" where
  "body_finished key i b =
     (if bl_in_flight b \<noteq> Some (key, i) then (\<lparr>fin_show = False, fin_next = None\<rparr>, b)
      else
        let b = b\<lparr>bl_in_flight := None\<rparr>;
            show = (bl_wanted b = Some key);
            (next, b) = (if show then (None, b) else start_wanted b)
        in (\<lparr>fin_show = show, fin_next = next\<rparr>, b))"

section \<open>What the tracker has sent and shown\<close>

lemmas body_loads_defs = want_def cancel_def body_finished_def start_wanted_def latest_begin_def

text \<open>The states the tracker reaches, with the requests it has handed out and the messages it
  has said to show; a reply may carry any key and any id.\<close>

inductive body_run :: "'k body_loads \<Rightarrow> ('k \<times> u64) list \<Rightarrow> 'k list \<Rightarrow> bool" where
  run_start: "body_run body_loads_default [] []"
| run_want: "body_run b sent shown \<Longrightarrow> want key b = (request, b') \<Longrightarrow>
    body_run b' (sent @ (case request of None \<Rightarrow> [] | Some r \<Rightarrow> [r])) shown"
| run_cancel: "body_run b sent shown \<Longrightarrow> body_run (cancel b) sent shown"
| run_reply: "body_run b sent shown \<Longrightarrow> body_finished key i b = (f, b') \<Longrightarrow>
    body_run b' (sent @ (case fin_next f of None \<Rightarrow> [] | Some r \<Rightarrow> [r]))
      (shown @ (if fin_show f then [key] else []))"

definition body_inv :: "'k body_loads \<Rightarrow> ('k \<times> u64) list \<Rightarrow> 'k list \<Rightarrow> bool" where
  "body_inv b sent shown \<longleftrightarrow>
     (\<forall>r. bl_in_flight b = Some r \<longrightarrow> sent \<noteq> [] \<and> last sent = r) \<and>
     (\<forall>key. bl_in_flight b = None \<and> bl_wanted b = Some key \<longrightarrow> shown \<noteq> [] \<and> last shown = key) \<and>
     map snd sent = map of_nat [1..<Suc (length sent)] \<and> lt_current (bl_ids b) = of_nat (length sent) \<and>
     length shown + (if bl_in_flight b = None then 0 else 1) \<le> length sent \<and> set shown \<subseteq> fst ` set sent"

lemma body_inv_want:
  "body_inv b sent shown \<Longrightarrow> want key b = (request, b') \<Longrightarrow>
   body_inv b' (sent @ (case request of None \<Rightarrow> [] | Some r \<Rightarrow> [r])) shown"
  by (auto simp: body_inv_def body_loads_defs Let_def split: if_splits option.splits prod.splits)

lemma body_inv_reply:
  "body_inv b sent shown \<Longrightarrow> body_finished key i b = (f, b') \<Longrightarrow>
   body_inv b' (sent @ (case fin_next f of None \<Rightarrow> [] | Some r \<Rightarrow> [r]))
     (shown @ (if fin_show f then [key] else []))"
  by (auto simp: body_inv_def body_loads_defs Let_def rev_image_eqI dest: last_in_set
      split: if_splits option.splits prod.splits)

lemma body_run_inv: "body_run b sent shown \<Longrightarrow> body_inv b sent shown"
proof (induction rule: body_run.induct)
  case run_start
  show ?case by (simp add: body_inv_def body_loads_default_def latest_default_def)
next
  case (run_cancel b sent shown)
  then show ?case by (auto simp: body_inv_def cancel_def)
qed (simp_all add: body_inv_want body_inv_reply)

text \<open>Whatever the user selects and whatever replies arrive, at most one body fetch is
  outstanding, it is the last one sent, and whenever none is outstanding the message the user
  wants is the one shown last; only fetched messages are shown, each fetch at most once.\<close>

theorem body_loads_settle:
  assumes "body_run b sent shown"
  shows "case bl_in_flight b of
      Some request \<Rightarrow> sent \<noteq> [] \<and> last sent = request \<and> length shown < length sent
    | None \<Rightarrow> (\<forall>key. bl_wanted b = Some key \<longrightarrow> shown \<noteq> [] \<and> last shown = key) \<and>
        length shown \<le> length sent"
  using body_run_inv [OF assms] by (auto simp: body_inv_def split: option.split)

theorem body_loads_settle_witness:
  "\<exists>b. body_run b [(1 :: nat, 1), (3, 2)] [3] \<and> bl_in_flight b = None \<and> bl_wanted b = Some 3"
proof -
  let ?b1 = "\<lparr>bl_ids = \<lparr>lt_current = 1\<rparr>, bl_in_flight = Some (1 :: nat, 1), bl_wanted = Some 1\<rparr>"
  let ?b2 = "?b1\<lparr>bl_wanted := Some 2\<rparr>" and ?b3 = "?b1\<lparr>bl_wanted := Some 3\<rparr>"
  let ?b4 = "\<lparr>bl_ids = \<lparr>lt_current = 2\<rparr>, bl_in_flight = Some (3 :: nat, 2), bl_wanted = Some 3\<rparr>"
  let ?b5 = "?b4\<lparr>bl_in_flight := None\<rparr>"
  have 1: "body_run ?b1 [(1, 1)] []"
    using run_want [OF run_start, of 1 "Some (1, 1)" ?b1]
    by (simp add: body_loads_defs body_loads_default_def latest_default_def)
  have 2: "body_run ?b3 [(1, 1)] []"
    using run_want [OF run_want [OF 1, of 2 None ?b2], of 3 None ?b3] by (simp add: body_loads_defs)
  have 3: "body_run ?b4 [(1, 1), (3, 2)] []"
    using run_reply [OF 2, of 1 1 "\<lparr>fin_show = False, fin_next = Some (3, 2)\<rparr>" ?b4]
    by (simp add: body_loads_defs)
  have "body_run ?b5 [(1, 1), (3, 2)] [3]"
    using run_reply [OF 3, of 3 2 "\<lparr>fin_show = True, fin_next = None\<rparr>" ?b5]
    by (simp add: body_loads_defs)
  with body_loads_settle [OF this] show ?thesis by (intro exI [of _ ?b5]) simp
qed

definition answer :: "'k body_loads \<Rightarrow> 'k option \<times> 'k body_loads" where
  "answer b =
     (case bl_in_flight b of
        None \<Rightarrow> (None, b)
      | Some (key, i) \<Rightarrow> (let (f, b') = body_finished key i b in (if fin_show f then Some key else None, b')))"

text \<open>Once the user stops on a message, at most two replies later it is shown, however
  many messages were passed over on the way, and no other message is shown before it.\<close>

theorem stopped_on_is_shown:
  assumes "bl_wanted b \<noteq> Some key"
  shows "(let (_, b1) = want key b; (shown1, b2) = answer b1; (shown2, _) = answer b2
    in shown1 = Some key \<or> (shown1 = None \<and> shown2 = Some key))"
  using assms
  by (auto simp: answer_def body_loads_defs Let_def split: option.splits prod.splits)

theorem stopped_on_is_shown_witness:
  "(let (_, b1) = want (2 :: nat) \<lparr>bl_ids = \<lparr>lt_current = 1\<rparr>, bl_in_flight = Some (1, 1), bl_wanted = Some 1\<rparr>;
      (shown1, b2) = answer b1; (shown2, _) = answer b2
    in shown1 = Some 2 \<or> (shown1 = None \<and> shown2 = Some 2))"
  by (rule stopped_on_is_shown) simp

end
