(* ===== verification/OpenFolder.thy ===== *)
theory OpenFolder
  imports Loads RowSelection ViewModel
begin

text \<open>
  The folder whose messages the list shows, \<open>crates/esmail-win32/src/core_glue/mailbox.rs\<close>:
  the loaded headers and their rows, the page cursor, the requests in flight, and what page
  replies, refreshes, flag changes and removals do to them.  The date formatter that a row
  model uses is the parameter \<open>fmt\<close>.  The lemmas show that rows always mirror headers, that
  uids stay strictly descending, what a refresh leaves in the list, and that the edits it
  reports keep the list widget's selection on its messages.
\<close>

section \<open>Data\<close>

record folder_ref =
  fr_account :: nat
  fr_mailbox :: str

definition PAGE_SIZE :: nat where "PAGE_SIZE = 50"

record page_request =
  pr_page :: u32
  pr_id :: u64

datatype edit = Removed nat | Inserted nat

datatype applied = Page nat | Refreshed "edit list"

record open_folder =
  of_folder :: folder_ref
  of_headers :: "mail_header list"
  of_rows :: "row_model list"
  of_next_page :: u32
  of_first_page_arrived :: bool
  of_total_pages :: "u32 option"
  of_ids :: latest
  of_page_request :: "u64 option"
  of_refresh_request :: "u64 option"

definition open_folder_new :: "folder_ref \<Rightarrow> open_folder" where
  "open_folder_new folder =
     \<lparr>of_folder = folder, of_headers = [], of_rows = [], of_next_page = 1, of_first_page_arrived = False,
      of_total_pages = None, of_ids = latest_default, of_page_request = None, of_refresh_request = None\<rparr>"

type_synonym date_fmt = "str \<Rightarrow> (str \<times> str) option"

section \<open>Requests\<close>

definition is_complete :: "open_folder \<Rightarrow> bool" where
  "is_complete o1 = (case of_total_pages o1 of None \<Rightarrow> False | Some pages \<Rightarrow> of_next_page o1 > pages)"

definition is_cached_only :: "open_folder \<Rightarrow> bool" where
  "is_cached_only o1 \<longleftrightarrow> \<not> of_first_page_arrived o1 \<and> of_headers o1 \<noteq> []"

definition next_request :: "open_folder \<Rightarrow> page_request option \<times> open_folder" where
  "next_request o1 =
     (if of_page_request o1 \<noteq> None \<or> is_complete o1 then (None, o1)
      else let (i, ids) = latest_begin (of_ids o1)
        in (Some \<lparr>pr_page = of_next_page o1, pr_id = i\<rparr>, o1\<lparr>of_ids := ids, of_page_request := Some i\<rparr>))"

definition refresh_request :: "open_folder \<Rightarrow> u64 option \<times> open_folder" where
  "refresh_request o1 =
     (if \<not> of_first_page_arrived o1 then (None, o1)
      else let (i, ids) = latest_begin (of_ids o1)
        in (Some i, o1\<lparr>of_ids := ids, of_refresh_request := Some i\<rparr>))"

definition page_failed :: "open_folder \<Rightarrow> open_folder" where
  "page_failed o1 = o1\<lparr>of_page_request := None\<rparr>"

section \<open>Rows\<close>

definition row_of :: "u32 \<Rightarrow> mail_header list \<Rightarrow> nat option" where
  "row_of uid hs = position (\<lambda>h. mh_uid h = uid) hs"

definition append_page :: "date_fmt \<Rightarrow> mail_header list \<Rightarrow> open_folder \<Rightarrow> nat \<times> open_folder" where
  "append_page fmt hs o1 =
     (let oldest = (case last_opt (of_headers o1) of None \<Rightarrow> - 1 | Some h \<Rightarrow> mh_uid h);
          fresh = filter (\<lambda>h. mh_uid h < oldest) hs
      in (length fresh,
          o1\<lparr>of_rows := of_rows o1 @ map (row_model_of fmt) fresh, of_headers := of_headers o1 @ fresh\<rparr>))"

text \<open>The rows a refresh drops, and \<open>retain\<close> with the closure that looks its index up in
  them.\<close>

definition gone_rows :: "u32 \<Rightarrow> u32 set \<Rightarrow> mail_header list \<Rightarrow> nat list" where
  "gone_rows floor_uid fresh_uids hs =
     filter (\<lambda>at. mh_uid (hs ! at) \<ge> floor_uid \<and> mh_uid (hs ! at) \<notin> fresh_uids) [0..<length hs]"

definition retain_rows :: "nat list \<Rightarrow> 'a list \<Rightarrow> 'a list" where
  "retain_rows gone xs =
     map snd (filter (\<lambda>(i, _). case binary_search gone i of Inl _ \<Rightarrow> True | Inr _ \<Rightarrow> False) (list_enum xs))"

text \<open>One message of the newest page: put in its row, or inserted before the first older one.\<close>

definition merge_header ::
  "date_fmt \<Rightarrow> mail_header list \<times> row_model list \<times> edit list \<Rightarrow> mail_header \<Rightarrow>
   mail_header list \<times> row_model list \<times> edit list" where
  "merge_header fmt = (\<lambda>(hs, rows, edits) header.
     case row_of (mh_uid header) hs of
       Some at \<Rightarrow> (hs[at := header], rows[at := row_model_of fmt header], edits)
     | None \<Rightarrow>
         (let at = (case position (\<lambda>old. mh_uid old < mh_uid header) hs of Some i \<Rightarrow> i | None \<Rightarrow> length hs)
          in (list_insert_at at header hs, list_insert_at at (row_model_of fmt header) rows,
              edits @ [Inserted at])))"

definition merge_newest :: "date_fmt \<Rightarrow> mail_header list \<Rightarrow> open_folder \<Rightarrow> edit list \<times> open_folder" where
  "merge_newest fmt fresh o1 =
     (let floor_uid = (case last_opt fresh of None \<Rightarrow> 0 | Some h \<Rightarrow> mh_uid h);
          gone = gone_rows floor_uid (mh_uid ` set fresh) (of_headers o1);
          edits = map Removed (rev gone);
          hs = (if gone = [] then of_headers o1 else retain_rows gone (of_headers o1));
          rows = (if gone = [] then of_rows o1 else retain_rows gone (of_rows o1));
          (hs, rows, edits) = foldl (merge_header fmt) (hs, rows, edits) fresh
      in (edits, o1\<lparr>of_headers := hs, of_rows := rows\<rparr>))"

definition apply_reply ::
  "date_fmt \<Rightarrow> u64 \<Rightarrow> u32 \<Rightarrow> u32 \<Rightarrow> mail_header list \<Rightarrow> open_folder \<Rightarrow> applied option \<times> open_folder" where
  "apply_reply fmt i page total_pages headers o1 =
     (if of_page_request o1 = Some i then
        (let o1 = o1\<lparr>of_page_request := None, of_total_pages := Some total_pages\<rparr>;
             seeded = is_cached_only o1;
             o1 = o1\<lparr>of_first_page_arrived := True\<rparr>
         in if seeded then
              (let o1 = o1\<lparr>of_next_page := max (of_next_page o1) (page + 1)\<rparr>;
                   (edits, o1) = merge_newest fmt headers o1
               in (Some (Refreshed edits), o1))
            else
              (let o1 = o1\<lparr>of_next_page := page + 1\<rparr>;
                   (added, o1) = append_page fmt headers o1
               in (Some (Page added), o1)))
      else if of_refresh_request o1 = Some i then
        (let o1 = o1\<lparr>of_refresh_request := None, of_total_pages := Some total_pages\<rparr>;
             (edits, o1) = merge_newest fmt headers o1
         in (Some (Refreshed edits), o1))
      else (None, o1))"

definition seed :: "date_fmt \<Rightarrow> mail_header list \<Rightarrow> open_folder \<Rightarrow> bool \<times> open_folder" where
  "seed fmt headers o1 =
     (if of_first_page_arrived o1 \<or> of_headers o1 \<noteq> [] \<or> headers = [] then (False, o1)
      else (True, o1\<lparr>of_next_page := of_nat (max (length headers div PAGE_SIZE) 1),
        of_rows := map (row_model_of fmt) headers, of_headers := headers\<rparr>))"

definition folder_set_flags :: "date_fmt \<Rightarrow> u32 \<Rightarrow> str list \<Rightarrow> open_folder \<Rightarrow> nat option \<times> open_folder" where
  "folder_set_flags fmt uid flags o1 =
     (case row_of uid (of_headers o1) of
        None \<Rightarrow> (None, o1)
      | Some at \<Rightarrow>
          (let h = (of_headers o1 ! at)\<lparr>mh_flags := flags\<rparr>
           in (Some at, o1\<lparr>of_headers := (of_headers o1)[at := h],
                 of_rows := (of_rows o1)[at := row_model_of fmt h]\<rparr>)))"

definition folder_remove :: "u32 \<Rightarrow> open_folder \<Rightarrow> nat option \<times> open_folder" where
  "folder_remove uid o1 =
     (case row_of uid (of_headers o1) of
        None \<Rightarrow> (None, o1)
      | Some at \<Rightarrow> (Some at, o1\<lparr>of_headers := list_remove_at at (of_headers o1),
            of_rows := list_remove_at at (of_rows o1)\<rparr>))"

section \<open>Lists in descending uid order\<close>

definition newest_first :: "mail_header list \<Rightarrow> bool" where
  "newest_first hs \<longleftrightarrow> sorted_wrt (\<lambda>a b. mh_uid b < mh_uid a) hs"

lemma newest_first_Cons [simp]:
  "newest_first (h # hs) \<longleftrightarrow> (\<forall>x\<in>set hs. mh_uid x < mh_uid h) \<and> newest_first hs" "newest_first []"
  by (simp_all add: newest_first_def)

lemma newest_first_append:
  "newest_first (a @ b) \<longleftrightarrow> newest_first a \<and> newest_first b \<and> (\<forall>x\<in>set a. \<forall>y\<in>set b. mh_uid y < mh_uid x)"
  by (simp add: newest_first_def sorted_wrt_append)

lemma newest_first_filter: "newest_first hs \<Longrightarrow> newest_first (filter P hs)"
  by (induction hs) auto

lemma newest_first_distinct: "newest_first hs \<Longrightarrow> distinct (map mh_uid hs)"
  by (induction hs) auto

lemma newest_first_unique: "newest_first a \<Longrightarrow> newest_first b \<Longrightarrow> set a = set b \<Longrightarrow> a = b"
proof (induction a arbitrary: b)
  case (Cons x a)
  then obtain y b' where b: "b = y # b'" by (cases b) auto
  have eq: "insert x (set a) = insert y (set b')" using Cons.prems(3) b by simp
  have below: "\<forall>z\<in>set a. mh_uid z < mh_uid x" "\<forall>z\<in>set b'. mh_uid z < mh_uid y"
    using Cons.prems b by simp_all
  have xy: "x = y"
  proof (rule ccontr)
    assume "x \<noteq> y"
    with eq have "x \<in> set b'" "y \<in> set a" by auto
    with below have "mh_uid x < mh_uid y" "mh_uid y < mh_uid x" by auto
    then show False by simp
  qed
  have "x \<notin> set a" "x \<notin> set b'" using below xy by auto
  with eq xy have "set a = set b'" by auto
  with Cons b xy show ?case by simp
qed simp

lemma newest_first_last: "newest_first hs \<Longrightarrow> x \<in> set hs \<Longrightarrow> last_opt hs = Some h \<Longrightarrow> mh_uid h \<le> mh_uid x"
  by (induction hs rule: rev_induct) (auto simp: newest_first_append intro: less_imp_le)

lemma last_opt_None: "last_opt xs = None \<longleftrightarrow> xs = []"
  by (cases xs rule: rev_cases) simp_all

section \<open>Merging one header\<close>

text \<open>Where \<open>merge_header\<close> leaves a header, stated on lists.\<close>

definition place :: "mail_header \<Rightarrow> mail_header list \<Rightarrow> mail_header list" where
  "place h hs = filter (\<lambda>x. mh_uid h < mh_uid x) hs @ h # filter (\<lambda>x. mh_uid x < mh_uid h) hs"

lemma set_place: "set (place h hs) = {x \<in> set hs. mh_uid x \<noteq> mh_uid h} \<union> {h}"
  by (auto simp: place_def neq_iff)

lemma newest_first_place: "newest_first hs \<Longrightarrow> newest_first (place h hs)"
  by (auto simp: place_def newest_first_append newest_first_filter)

lemma list_insert_at_simps [simp]:
  "list_insert_at 0 y xs = y # xs" "list_insert_at (Suc n) y (x # xs) = x # list_insert_at n y xs"
  by (simp_all add: list_insert_at_def)

lemma list_remove_at_simps [simp]:
  "list_remove_at 0 (x # xs) = xs" "list_remove_at (Suc n) (x # xs) = x # list_remove_at n xs"
  by (simp_all add: list_remove_at_def)

lemma map_list_insert_at: "map f (list_insert_at n y xs) = list_insert_at n (f y) (map f xs)"
  by (simp add: list_insert_at_def take_map drop_map)

lemma map_list_remove_at: "map f (list_remove_at n xs) = list_remove_at n (map f xs)"
  by (simp add: list_remove_at_def take_map drop_map)

lemma merge_header_place:
  "newest_first hs \<Longrightarrow> fst (merge_header fmt (hs, rows, edits) header) = place header hs"
proof (induction hs)
  case Nil
  show ?case by (simp add: merge_header_def row_of_def place_def list_insert_at_def)
next
  case (Cons x hs)
  then have IH: "fst (merge_header fmt (hs, rows, edits) header) = place header hs" by simp
  consider (same) "mh_uid x = mh_uid header" | (below) "mh_uid x < mh_uid header"
    | (above) "mh_uid header < mh_uid x"
    by (meson neq_iff)
  then show ?case
  proof cases
    case same
    with Cons.prems show ?thesis
      by (auto simp: merge_header_def row_of_def place_def filter_empty_conv intro!: filter_True [symmetric])
  next
    case below
    with Cons.prems have less: "\<forall>h\<in>set hs. mh_uid h < mh_uid header"
      by (auto dest: order.strict_trans)
    then have "position (\<lambda>h. mh_uid h = mh_uid header) hs = None" "filter (\<lambda>h. mh_uid header < mh_uid h) hs = []"
      by (auto simp: position_None filter_empty_conv)
    with below less show ?thesis
      by (auto simp: merge_header_def row_of_def place_def)
  next
    case above
    with IH show ?thesis
      by (auto simp: merge_header_def row_of_def place_def Let_def split: option.splits)
  qed
qed

lemma merge_header_rows:
  "rows = map (row_model_of fmt) hs \<Longrightarrow> merge_header fmt (hs, rows, edits) header = (hs', rows', edits') \<Longrightarrow>
   rows' = map (row_model_of fmt) hs'"
  by (auto simp: merge_header_def Let_def map_list_insert_at map_update split: option.splits)

section \<open>A refresh\<close>

lemma list_remove_at_append: "a < length xs \<Longrightarrow> list_remove_at a (xs @ ys) = list_remove_at a xs @ ys"
  by (simp add: list_remove_at_def)

lemma length_list_remove_at: "a < length xs \<Longrightarrow> length (list_remove_at a xs) = length xs - 1"
  by (simp add: list_remove_at_def)

lemma foldr_remove_snoc:
  assumes "ascending g" "\<forall>i\<in>set g. i < length xs"
  shows "foldr list_remove_at g (xs @ [x]) = foldr list_remove_at g xs @ [x] \<and>
    (\<forall>i < length xs. (\<forall>j\<in>set g. i < j) \<longrightarrow> i < length (foldr list_remove_at g xs))"
  using assms
proof (induction g)
  case (Cons a g)
  then have IH: "foldr list_remove_at g (xs @ [x]) = foldr list_remove_at g xs @ [x]"
      "\<forall>i < length xs. (\<forall>j\<in>set g. i < j) \<longrightarrow> i < length (foldr list_remove_at g xs)"
    by (simp_all add: ascending_Cons)
  with Cons.prems have "a < length (foldr list_remove_at g xs)" by (simp add: ascending_Cons)
  with IH show ?case by (auto simp: list_remove_at_append length_list_remove_at)
qed simp

lemma ascending_filter: "ascending xs \<Longrightarrow> ascending (filter P xs)"
  by (simp add: ascending_def sorted_wrt_filter)

lemma foldr_remove_filter:
  "foldr list_remove_at (filter (\<lambda>i. P (xs ! i)) [0..<length xs]) xs = filter (\<lambda>x. \<not> P x) xs"
proof (induction xs rule: rev_induct)
  case (snoc x xs)
  let ?g = "filter (\<lambda>i. P (xs ! i)) [0..<length xs]"
  have g: "filter (\<lambda>i. P ((xs @ [x]) ! i)) [0..<length xs] = ?g"
    by (rule filter_cong) (simp_all add: nth_append)
  have "foldr list_remove_at ?g (xs @ [x]) = foldr list_remove_at ?g xs @ [x]"
    by (rule foldr_remove_snoc [THEN conjunct1]) (simp_all add: ascending_filter)
  moreover have "list_remove_at (length xs) (xs @ [x]) = xs" by (simp add: list_remove_at_def)
  ultimately show ?case using snoc.IH by (simp add: g)
qed simp

lemma binary_search_misses: "(case binary_search xs i of Inl _ \<Rightarrow> True | Inr _ \<Rightarrow> False) \<longleftrightarrow> i \<notin> set xs"
proof (cases "position (\<lambda>y. y = i) xs")
  case None
  then have "i \<notin> set xs" by (auto simp: position_None)
  with None show ?thesis by (simp add: binary_search_def)
next
  case (Some k)
  then have "i \<in> set xs" by (auto simp: position_Some)
  with Some show ?thesis by (simp add: binary_search_def)
qed

lemma retain_rows_filter:
  "retain_rows (filter (\<lambda>i. P (xs ! i)) [0..<length xs]) (map f xs) = map f (filter (\<lambda>x. \<not> P x) xs)"
proof -
  have 1: "(case binary_search (filter (\<lambda>i. P (xs ! i)) [0..<length xs]) i of Inl _ \<Rightarrow> True | Inr _ \<Rightarrow> False) \<longleftrightarrow>
      \<not> P (xs ! i)" if "i < length xs" for i
    using that by (simp add: binary_search_misses)
  have 2: "list_enum (map f xs) = map (\<lambda>i. (i, f (xs ! i))) [0..<length xs]"
    unfolding list_enum_def by (rule nth_equalityI) simp_all
  have "filter (\<lambda>x. \<not> P x) xs = map (nth xs) (filter (\<lambda>i. \<not> P (xs ! i)) [0..<length xs])"
    using filter_map [of "\<lambda>x. \<not> P x" "nth xs" "[0..<length xs]"] by (simp add: map_nth comp_def)
  then have 3: "map f (filter (\<lambda>x. \<not> P x) xs) = map (\<lambda>i. f (xs ! i)) (filter (\<lambda>i. \<not> P (xs ! i)) [0..<length xs])"
    by (simp add: comp_def)
  show ?thesis
    unfolding retain_rows_def 2 3
    by (simp add: filter_map comp_def) (rule arg_cong [of _ _ "map _"], rule filter_cong, simp_all add: 1)
qed

definition kept_after :: "mail_header list \<Rightarrow> mail_header \<Rightarrow> bool" where
  "kept_after fresh x \<longleftrightarrow>
     \<not> (mh_uid x \<ge> (case last_opt fresh of None \<Rightarrow> 0 | Some h \<Rightarrow> mh_uid h) \<and> mh_uid x \<notin> mh_uid ` set fresh)"

lemma merge_fold:
  assumes "newest_first hs" "rows = map (row_model_of fmt) hs"
    and "foldl (merge_header fmt) (hs, rows, edits) fresh = (hs', rows', edits')"
    and "distinct (map mh_uid fresh)"
  shows "newest_first hs' \<and> rows' = map (row_model_of fmt) hs' \<and>
    set hs' = {x \<in> set hs. mh_uid x \<notin> mh_uid ` set fresh} \<union> set fresh"
  using assms
proof (induction fresh arbitrary: hs rows edits)
  case (Cons h fresh)
  obtain hs1 rows1 edits1 where m: "merge_header fmt (hs, rows, edits) h = (hs1, rows1, edits1)"
    by (metis prod_cases3)
  then have hs1: "hs1 = place h hs" using merge_header_place [OF Cons.prems(1), of fmt rows edits h] by simp
  have "rows1 = map (row_model_of fmt) hs1" by (rule merge_header_rows [OF Cons.prems(2) m])
  with Cons.IH [OF _ this, of edits1] Cons.prems m hs1 newest_first_place [OF Cons.prems(1)]
  show ?case by (auto simp: set_place)
qed auto

lemma merge_newest_result:
  assumes "newest_first (of_headers o1)" "of_rows o1 = map (row_model_of fmt) (of_headers o1)"
    and "newest_first fresh"
  shows "of_headers (snd (merge_newest fmt fresh o1)) =
      fresh @ filter (\<lambda>x. mh_uid x < (case last_opt fresh of None \<Rightarrow> 0 | Some h \<Rightarrow> mh_uid h)) (of_headers o1) \<and>
    of_rows (snd (merge_newest fmt fresh o1)) = map (row_model_of fmt) (of_headers (snd (merge_newest fmt fresh o1)))"
proof -
  let ?floor = "case last_opt fresh of None \<Rightarrow> 0 | Some h \<Rightarrow> mh_uid h"
  let ?gone = "gone_rows ?floor (mh_uid ` set fresh) (of_headers o1)"
  let ?hs = "filter (kept_after fresh) (of_headers o1)"
  have gone: "?gone = filter (\<lambda>i. \<not> kept_after fresh (of_headers o1 ! i)) [0..<length (of_headers o1)]"
    by (simp add: gone_rows_def kept_after_def)
  have retain: "retain_rows ?gone (map f (of_headers o1)) = map f ?hs" for f :: "mail_header \<Rightarrow> 'x"
    unfolding gone retain_rows_filter [where P = "\<lambda>x. \<not> kept_after fresh x"] by simp
  have none: "?hs = of_headers o1" if "?gone = []"
    using that unfolding gone by (auto simp: filter_empty_conv filter_id_conv in_set_conv_nth)
  obtain hs' rows' edits' where f: "foldl (merge_header fmt)
      (?hs, map (row_model_of fmt) ?hs, map Removed (rev ?gone)) fresh = (hs', rows', edits')"
    by (metis prod_cases3)
  have m: "snd (merge_newest fmt fresh o1) = o1\<lparr>of_headers := hs', of_rows := rows'\<rparr>"
    using f none retain [of id] retain [of "row_model_of fmt"] assms(2)
    by (cases "?gone = []") (simp_all add: merge_newest_def Let_def)
  have res: "newest_first hs'" "rows' = map (row_model_of fmt) hs'"
      "set hs' = {x \<in> set ?hs. mh_uid x \<notin> mh_uid ` set fresh} \<union> set fresh"
    using merge_fold [OF newest_first_filter [OF assms(1)] refl f newest_first_distinct [OF assms(3)]]
    by simp_all
  have "hs' = fresh @ filter (\<lambda>x. mh_uid x < ?floor) (of_headers o1)"
  proof (rule newest_first_unique [OF res(1)])
    show "newest_first (fresh @ filter (\<lambda>x. mh_uid x < ?floor) (of_headers o1))"
      using assms(1,3) newest_first_last [OF assms(3)]
      by (auto simp: newest_first_append newest_first_filter last_opt_None split: option.splits)
        (meson order.strict_trans1 order.strict_trans2)
    show "set hs' = set (fresh @ filter (\<lambda>x. mh_uid x < ?floor) (of_headers o1))"
      using newest_first_last [OF assms(3)] unfolding res(3)
      by (fastforce simp: kept_after_def last_opt_None split: option.splits)
  qed
  with m res(2) show ?thesis by simp
qed

section \<open>The list widget follows a refresh\<close>

text \<open>The selection after one edit, as \<open>show_applied\<close> in \<open>app/folder.rs\<close> applies it through
  \<open>ViewState::insert\<close> and \<open>ViewState::remove\<close>.\<close>

definition apply_edit :: "selection \<Rightarrow> edit \<Rightarrow> selection" where
  "apply_edit s e = (case e of Removed at \<Rightarrow> sel_remove at 1 s | Inserted at \<Rightarrow> sel_insert at 1 s)"

definition selected_of :: "'a list \<Rightarrow> selection \<Rightarrow> 'a list" where
  "selected_of xs s = map (nth xs) (sel_rows s)"

lemma selected_remove:
  assumes "sel_within (length xs) s" "a < length xs" "distinct xs"
  shows "selected_of (list_remove_at a xs) (sel_remove a 1 s) = filter (\<lambda>u. u \<noteq> xs ! a) (selected_of xs s) \<and>
    sel_within (length (list_remove_at a xs)) (sel_remove a 1 s)"
proof -
  have "remove_rows a 1 xs = list_remove_at a xs" by (simp add: remove_rows_def list_remove_at_def)
  moreover have "filter (\<lambda>row. \<not> (a \<le> row \<and> row < a + 1)) (sel_rows s) = filter (\<lambda>row. xs ! row \<noteq> xs ! a) (sel_rows s)"
    using assms by (intro filter_cong) (auto simp: sel_within_def nth_eq_iff_index_eq)
  ultimately have "selected_of (list_remove_at a xs) (sel_remove a 1 s) = filter (\<lambda>u. u \<noteq> xs ! a) (selected_of xs s)"
    using remove_keeps_messages [OF assms(1), of a 1] by (simp add: selected_of_def filter_map comp_def)
  moreover have "sel_within (length xs - 1) (sel_remove a 1 s)"
    using assms by (intro sel_within_remove) simp_all
  ultimately show ?thesis using assms by (simp add: length_list_remove_at)
qed

lemma selected_insert:
  assumes "sel_within (length xs) s" "a \<le> length xs"
  shows "selected_of (list_insert_at a y xs) (sel_insert a 1 s) = selected_of xs s \<and>
    sel_within (length (list_insert_at a y xs)) (sel_insert a 1 s)"
proof -
  have "insert_rows a [y] xs = list_insert_at a y xs" by (simp add: insert_rows_def list_insert_at_def)
  with insert_keeps_messages [OF assms, of "[y]"]
  have "selected_of (list_insert_at a y xs) (sel_insert a 1 s) = selected_of xs s"
    by (simp add: selected_of_def)
  moreover have "sel_within (length (list_insert_at a y xs)) (sel_insert a 1 s)"
    using assms by (auto simp: sel_within_def sel_insert_def shift_inserted_def list_insert_at_def
        pred_option_def)
  ultimately show ?thesis by simp
qed

lemma selected_removes:
  assumes "ascending g" "\<forall>i\<in>set g. i < length xs" "distinct xs" "sel_within (length xs) s"
  shows "selected_of (foldr list_remove_at g xs) (foldr (\<lambda>a. sel_remove a 1) g s) =
      filter (\<lambda>u. u \<notin> nth xs ` set g) (selected_of xs s) \<and>
    sel_within (length (foldr list_remove_at g xs)) (foldr (\<lambda>a. sel_remove a 1) g s) \<and>
    distinct (foldr list_remove_at g xs) \<and>
    (\<forall>i < length xs. (\<forall>j\<in>set g. i < j) \<longrightarrow>
      i < length (foldr list_remove_at g xs) \<and> foldr list_remove_at g xs ! i = xs ! i)"
  using assms
proof (induction g)
  case (Cons a g)
  let ?xs = "foldr list_remove_at g xs" and ?s = "foldr (\<lambda>a. sel_remove a 1) g s"
  have IH: "selected_of ?xs ?s = filter (\<lambda>u. u \<notin> nth xs ` set g) (selected_of xs s)"
      "sel_within (length ?xs) ?s" "distinct ?xs"
      "\<forall>i < length xs. (\<forall>j\<in>set g. i < j) \<longrightarrow> i < length ?xs \<and> ?xs ! i = xs ! i"
    using Cons by (auto simp: ascending_Cons)
  have a: "a < length ?xs" "?xs ! a = xs ! a" using IH(4) Cons.prems by (auto simp: ascending_Cons)
  have d: "distinct (list_remove_at a ?xs)"
    using IH(3) a by (auto simp: list_remove_at_def distinct_append dest: set_take_disj_set_drop_if_distinct [of ?xs a "Suc a"])
  have n: "i < length (list_remove_at a ?xs) \<and> list_remove_at a ?xs ! i = xs ! i"
    if "i < length xs" "\<forall>j\<in>set (a # g). i < j" for i
    using that a IH(4) by (auto simp: list_remove_at_def nth_append)
  from selected_remove [OF IH(2) a(1) IH(3)] IH(1) a d n
  show ?case by (simp add: conj_commute)
qed simp

lemma foldl_removed: "foldl apply_edit s (map Removed (rev g)) = foldr (\<lambda>a. sel_remove a 1) g s"
  by (induction g) (simp_all add: apply_edit_def)

lemma selected_merge_header:
  assumes "merge_header fmt (hs, rows, edits) header = (hs', rows', edits')" "sel_within (length hs) s"
  obtains new where "edits' = edits @ new"
    and "selected_of (map mh_uid hs') (foldl apply_edit s new) = selected_of (map mh_uid hs) s"
    and "sel_within (length hs') (foldl apply_edit s new)"
proof (cases "row_of (mh_uid header) hs")
  case (Some at)
  then have "map mh_uid (hs[at := header]) = map mh_uid hs"
    by (auto simp: row_of_def position_Some map_update intro!: list_update_same_conv [THEN iffD2])
  with Some assms show ?thesis by (intro that [of "[]"]) (auto simp: merge_header_def)
next
  case None
  define at where "at = (case position (\<lambda>old. mh_uid old < mh_uid header) hs of Some i \<Rightarrow> i | None \<Rightarrow> length hs)"
  have "at \<le> length hs" by (auto simp: at_def position_Some split: option.split)
  moreover from assms None have "hs' = list_insert_at at header hs" "edits' = edits @ [Inserted at]"
    by (auto simp: merge_header_def Let_def at_def)
  ultimately show ?thesis
    using selected_insert [of "map mh_uid hs" s at "mh_uid header"] assms(2)
    by (intro that [of "[Inserted at]"]) (simp_all add: apply_edit_def map_list_insert_at [symmetric])
qed

lemma selected_merge_fold:
  assumes "foldl (merge_header fmt) (hs, rows, edits) fresh = (hs', rows', edits')" "sel_within (length hs) s"
  shows "\<exists>new. edits' = edits @ new \<and>
    selected_of (map mh_uid hs') (foldl apply_edit s new) = selected_of (map mh_uid hs) s"
  using assms
proof (induction fresh arbitrary: hs rows edits s)
  case (Cons h fresh)
  obtain hs1 rows1 edits1 where m: "merge_header fmt (hs, rows, edits) h = (hs1, rows1, edits1)"
    by (metis prod_cases3)
  from selected_merge_header [OF m Cons.prems(2)] obtain n1 where n1: "edits1 = edits @ n1"
      "selected_of (map mh_uid hs1) (foldl apply_edit s n1) = selected_of (map mh_uid hs) s"
      "sel_within (length hs1) (foldl apply_edit s n1)" by blast
  from Cons.IH [OF _ n1(3), of rows1 edits1] Cons.prems(1) m obtain n2 where "edits' = edits1 @ n2"
      "selected_of (map mh_uid hs') (foldl apply_edit (foldl apply_edit s n1) n2) =
       selected_of (map mh_uid hs1) (foldl apply_edit s n1)" by auto
  with n1 show ?case by (intro exI [of _ "n1 @ n2"]) simp
qed auto

lemma foldr_remove_gone:
  "foldr list_remove_at (gone_rows floor_uid fresh_uids hs) (map mh_uid hs) =
   map mh_uid (filter (\<lambda>x. \<not> (mh_uid x \<ge> floor_uid \<and> mh_uid x \<notin> fresh_uids)) hs)"
proof -
  have "gone_rows floor_uid fresh_uids hs =
      filter (\<lambda>i. map mh_uid hs ! i \<ge> floor_uid \<and> map mh_uid hs ! i \<notin> fresh_uids) [0..<length (map mh_uid hs)]"
    by (auto simp: gone_rows_def intro!: filter_cong)
  then show ?thesis
    using foldr_remove_filter [of "\<lambda>u. u \<ge> floor_uid \<and> u \<notin> fresh_uids" "map mh_uid hs"]
    by (simp add: filter_map comp_def)
qed

lemma gone_uids:
  "u \<in> nth (map mh_uid hs) ` set (gone_rows floor_uid fresh_uids hs) \<longleftrightarrow>
   u \<in> mh_uid ` set hs \<and> floor_uid \<le> u \<and> u \<notin> fresh_uids"
  by (force simp: gone_rows_def in_set_conv_nth image_iff)

text \<open>C1. A refresh leaves exactly the newest page as the server has it followed by the loaded
  messages older than it, rows included, and the edits it reports keep the widget's selection on
  its messages: applied one after the other, exactly the selected messages that are still in
  the folder stay selected, in the same order.\<close>

theorem refresh_keeps_selection:
  assumes "newest_first (of_headers o1)" and "of_rows o1 = map (row_model_of fmt) (of_headers o1)"
    and "newest_first fresh" and "sel_within (length (of_headers o1)) s"
    and "merge_newest fmt fresh o1 = (edits, o2)"
  shows "of_headers o2 =
      fresh @ filter (\<lambda>x. mh_uid x < (case last_opt fresh of None \<Rightarrow> 0 | Some h \<Rightarrow> mh_uid h)) (of_headers o1) \<and>
    of_rows o2 = map (row_model_of fmt) (of_headers o2) \<and>
    selected_of (map mh_uid (of_headers o2)) (foldl apply_edit s edits) =
      filter (\<lambda>u. u \<in> set (map mh_uid (of_headers o2))) (selected_of (map mh_uid (of_headers o1)) s)"
proof -
  let ?floor = "case last_opt fresh of None \<Rightarrow> 0 | Some h \<Rightarrow> mh_uid h"
  let ?gone = "gone_rows ?floor (mh_uid ` set fresh) (of_headers o1)"
  let ?us = "map mh_uid (of_headers o1)" and ?s1 = "foldr (\<lambda>a. sel_remove a 1) ?gone s"
  let ?hs = "filter (\<lambda>x. \<not> (mh_uid x \<ge> ?floor \<and> mh_uid x \<notin> mh_uid ` set fresh)) (of_headers o1)"
  have res: "of_headers o2 = fresh @ filter (\<lambda>x. mh_uid x < ?floor) (of_headers o1)"
      "of_rows o2 = map (row_model_of fmt) (of_headers o2)"
    using merge_newest_result [OF assms(1-3)] assms(5) by simp_all
  have g: "ascending ?gone" "\<forall>i\<in>set ?gone. i < length ?us"
    by (auto simp: gone_rows_def ascending_filter)
  have rem: "selected_of (map mh_uid ?hs) ?s1 = filter (\<lambda>u. u \<notin> nth ?us ` set ?gone) (selected_of ?us s)"
      "sel_within (length ?hs) ?s1"
    using selected_removes [OF g newest_first_distinct [OF assms(1)], of s] assms(4)
    unfolding foldr_remove_gone by simp_all
  have ret: "retain_rows ?gone (map f (of_headers o1)) = map f ?hs" for f :: "mail_header \<Rightarrow> 'x"
    unfolding gone_rows_def retain_rows_filter
      [where P = "\<lambda>x. mh_uid x \<ge> ?floor \<and> mh_uid x \<notin> mh_uid ` set fresh"] by simp
  have none: "?hs = of_headers o1" if "?gone = []"
    using that by (auto simp: gone_rows_def filter_empty_conv filter_id_conv in_set_conv_nth)
  obtain rows where "foldl (merge_header fmt) (?hs, rows, map Removed (rev ?gone)) fresh =
      (of_headers o2, of_rows o2, edits)"
    using assms(5) ret [of id] none by (cases "?gone = []") (auto simp: merge_newest_def Let_def split: prod.splits)
  from selected_merge_fold [OF this rem(2)] obtain new where new: "edits = map Removed (rev ?gone) @ new"
      "selected_of (map mh_uid (of_headers o2)) (foldl apply_edit ?s1 new) = selected_of (map mh_uid ?hs) ?s1"
    by blast
  have "u \<notin> nth ?us ` set ?gone \<longleftrightarrow> u \<in> set (map mh_uid (of_headers o2))" if "u \<in> set ?us" for u
    using that unfolding res(1) gone_uids by auto
  moreover have "u \<in> set ?us" if "u \<in> set (selected_of ?us s)" for u
    using that assms(4) by (auto simp: selected_of_def sel_within_def)
  ultimately have "filter (\<lambda>u. u \<notin> nth ?us ` set ?gone) (selected_of ?us s) =
      filter (\<lambda>u. u \<in> set (map mh_uid (of_headers o2))) (selected_of ?us s)"
    by (intro filter_cong refl) blast
  with res new rem(1) show ?thesis by (simp add: foldl_removed)
qed

definition demo_mail :: "u32 \<Rightarrow> mail_header" where
  "demo_mail uid = \<lparr>mh_uid = uid, mh_subject = [], mh_from = [], mh_to = [], mh_date = [],
     mh_message_id = [], mh_flags = []\<rparr>"

definition demo_folder :: "u32 list \<Rightarrow> open_folder" where
  "demo_folder uids = (open_folder_new \<lparr>fr_account = 0, fr_mailbox = []\<rparr>)
     \<lparr>of_headers := map demo_mail uids, of_rows := map (row_model_of Map.empty) (map demo_mail uids),
      of_first_page_arrived := True\<rparr>"

lemma demo_mail_uid [simp]: "mh_uid (demo_mail uid) = uid"
  by (simp add: demo_mail_def)

theorem refresh_keeps_selection_witness:
  "(let (edits, o2) = merge_newest Map.empty (map demo_mail [9, 7, 5]) (demo_folder [7, 6, 5, 2])
    in map mh_uid (of_headers o2) = [9, 7, 5, 2] \<and>
      selected_of [9, 7, 5, 2 :: u32] (foldl apply_edit \<lparr>sel_rows = [1, 2], sel_anchor = None, sel_focus = Some 2\<rparr> edits) = [5])"
proof -
  obtain edits o2 where m: "merge_newest Map.empty (map demo_mail [9, 7, 5]) (demo_folder [7, 6, 5, 2]) = (edits, o2)"
    by fastforce
  let ?s = "\<lparr>sel_rows = [1, 2], sel_anchor = None, sel_focus = Some 2\<rparr>"
  have pre: "newest_first (of_headers (demo_folder [7, 6, 5, 2]))"
      "of_rows (demo_folder [7, 6, 5, 2]) = map (row_model_of Map.empty) (of_headers (demo_folder [7, 6, 5, 2]))"
      "newest_first (map demo_mail [9, 7, 5])" "sel_within (length (of_headers (demo_folder [7, 6, 5, 2]))) ?s"
    by (simp_all add: demo_folder_def open_folder_new_def sel_within_def)
  note r = refresh_keeps_selection [OF pre m]
  from r have h: "of_headers o2 = map demo_mail [9, 7, 5, 2]"
    by (simp add: demo_folder_def open_folder_new_def last_opt_def)
  have s: "selected_of (map mh_uid (of_headers o2)) (foldl apply_edit ?s edits) =
      filter (\<lambda>u. u \<in> set (map mh_uid (of_headers o2))) (selected_of (map mh_uid (of_headers (demo_folder [7, 6, 5, 2]))) ?s)"
    using r by blast
  from s have "selected_of [9, 7, 5, 2 :: u32] (foldl apply_edit ?s edits) = [5]"
    unfolding h by (simp add: selected_of_def demo_folder_def)
  with h show ?thesis unfolding m by simp
qed

section \<open>Every state the folder reaches\<close>

datatype folder_input = NextRequest | RefreshRequest | PageFailed
  | Reply u64 u32 u32 "mail_header list" | Seeded "mail_header list"
  | FlagsSet u32 "str list" | MovedOut u32

fun folder_step :: "date_fmt \<Rightarrow> open_folder \<Rightarrow> folder_input \<Rightarrow> open_folder" where
  "folder_step fmt o1 NextRequest = snd (next_request o1)"
| "folder_step fmt o1 RefreshRequest = snd (refresh_request o1)"
| "folder_step fmt o1 PageFailed = page_failed o1"
| "folder_step fmt o1 (Reply i page n hs) = snd (apply_reply fmt i page n hs o1)"
| "folder_step fmt o1 (Seeded hs) = snd (seed fmt hs o1)"
| "folder_step fmt o1 (FlagsSet uid flags) = snd (folder_set_flags fmt uid flags o1)"
| "folder_step fmt o1 (MovedOut uid) = snd (folder_remove uid o1)"

text \<open>The server and the cache list a page newest first.\<close>

fun input_sorted :: "folder_input \<Rightarrow> bool" where
  "input_sorted (Reply _ _ _ hs) = newest_first hs"
| "input_sorted (Seeded hs) = newest_first hs"
| "input_sorted _ = True"

definition folder_ok :: "date_fmt \<Rightarrow> open_folder \<Rightarrow> bool" where
  "folder_ok fmt o1 \<longleftrightarrow> newest_first (of_headers o1) \<and> of_rows o1 = map (row_model_of fmt) (of_headers o1)"

lemma newest_first_map_uid: "newest_first hs \<longleftrightarrow> sorted_wrt (>) (map mh_uid hs)"
  by (simp add: newest_first_def sorted_wrt_map)

lemma newest_first_update:
  "newest_first hs \<Longrightarrow> at < length hs \<Longrightarrow> mh_uid h = mh_uid (hs ! at) \<Longrightarrow> newest_first (hs[at := h])"
  by (simp add: newest_first_map_uid map_update list_update_same_conv [THEN iffD2])

lemma list_remove_at_Nil [simp]: "list_remove_at n [] = []"
  by (simp add: list_remove_at_def)

lemma set_list_remove_at: "set (list_remove_at n xs) \<subseteq> set xs"
  by (auto simp: list_remove_at_def dest: in_set_takeD in_set_dropD)

lemma newest_first_remove: "newest_first hs \<Longrightarrow> newest_first (list_remove_at at hs)"
proof (induction hs arbitrary: at)
  case (Cons h hs)
  then show ?case using set_list_remove_at [of "at - 1" hs] by (cases at) auto
qed simp

lemma append_page_ok: "folder_ok fmt o1 \<Longrightarrow> newest_first hs \<Longrightarrow> folder_ok fmt (snd (append_page fmt hs o1))"
  using newest_first_last [of "of_headers o1"]
  by (auto simp: folder_ok_def append_page_def Let_def newest_first_append newest_first_filter last_opt_None
      intro: order.strict_trans2 split: option.splits)

lemma merge_newest_ok: "folder_ok fmt o1 \<Longrightarrow> newest_first hs \<Longrightarrow> folder_ok fmt (snd (merge_newest fmt hs o1))"
  using merge_newest_result [of o1 fmt hs] newest_first_last [of hs]
  by (auto simp: folder_ok_def newest_first_append newest_first_filter last_opt_None
      intro: order.strict_trans2 split: option.splits)

lemma folder_ok_fields [simp]:
  "folder_ok fmt (o1\<lparr>of_page_request := x1\<rparr>) = folder_ok fmt o1"
  "folder_ok fmt (o1\<lparr>of_refresh_request := x1\<rparr>) = folder_ok fmt o1"
  "folder_ok fmt (o1\<lparr>of_total_pages := x2\<rparr>) = folder_ok fmt o1"
  "folder_ok fmt (o1\<lparr>of_first_page_arrived := x3\<rparr>) = folder_ok fmt o1"
  "folder_ok fmt (o1\<lparr>of_next_page := x4\<rparr>) = folder_ok fmt o1"
  "folder_ok fmt (o1\<lparr>of_ids := x5\<rparr>) = folder_ok fmt o1"
  by (simp_all add: folder_ok_def)

lemma apply_reply_ok:
  assumes "folder_ok fmt o1" "newest_first hs"
  shows "folder_ok fmt (snd (apply_reply fmt i page n hs o1))"
  using assms by (auto simp: apply_reply_def Let_def split_beta intro: append_page_ok merge_newest_ok)

lemma folder_step_ok: "folder_ok fmt o1 \<Longrightarrow> input_sorted inp \<Longrightarrow> folder_ok fmt (folder_step fmt o1 inp)"
proof (cases inp)
  case (FlagsSet uid flags)
  assume "folder_ok fmt o1"
  with FlagsSet show ?thesis
    by (auto simp: folder_set_flags_def folder_ok_def row_of_def position_Some Let_def map_update
        newest_first_update split: option.split)
next
  case (MovedOut uid)
  assume "folder_ok fmt o1"
  with MovedOut show ?thesis
    by (auto simp: folder_remove_def folder_ok_def map_list_remove_at newest_first_remove split: option.split)
next
  case (Seeded hs)
  assume "folder_ok fmt o1" "input_sorted inp"
  with Seeded show ?thesis by (auto simp: seed_def folder_ok_def)
qed (auto simp: next_request_def refresh_request_def page_failed_def latest_begin_def Let_def apply_reply_ok)

text \<open>C5. Whatever order requests, replies (late ones too), cache answers, flag changes and
  removals come in, the rows drawn are those of the loaded headers, the uids are strictly
  descending (no message appears twice), and removing or flagging a message touches the row it
  is in.\<close>

theorem open_folder_invariant:
  assumes "list_all input_sorted inputs"
  shows "(let o1 = foldl (folder_step fmt) (open_folder_new folder) inputs in
    of_rows o1 = map (row_model_of fmt) (of_headers o1) \<and>
    sorted_wrt (>) (map mh_uid (of_headers o1)) \<and> of_folder o1 = folder)"
proof -
  have fold: "folder_ok fmt o1 \<Longrightarrow> folder_ok fmt (foldl (folder_step fmt) o1 inputs)" for o1
    using assms by (induction inputs arbitrary: o1) (auto simp: folder_step_ok)
  have folder: "of_folder (folder_step fmt o1 inp) = of_folder o1" for o1 inp
    by (cases inp) (auto simp: next_request_def refresh_request_def page_failed_def apply_reply_def seed_def
        folder_set_flags_def folder_remove_def merge_newest_def append_page_def Let_def split_beta split: option.split)
  have "of_folder (foldl (folder_step fmt) o1 inputs) = of_folder o1" for o1
    by (induction inputs arbitrary: o1) (simp_all add: folder)
  with fold [of "open_folder_new folder"] show ?thesis
    by (simp add: Let_def folder_ok_def newest_first_map_uid open_folder_new_def)
qed

theorem open_folder_invariant_witness:
  "(let o1 = foldl (folder_step Map.empty) (open_folder_new \<lparr>fr_account = 0, fr_mailbox = lit ''INBOX''\<rparr>)
      [NextRequest, Seeded (map demo_mail [8, 7]), Reply 1 1 1 (map demo_mail [9, 8]), MovedOut 8, FlagsSet 9 [FLAG_SEEN]]
    in of_rows o1 = map (row_model_of Map.empty) (of_headers o1) \<and> sorted_wrt (>) (map mh_uid (of_headers o1)) \<and>
      of_folder o1 = \<lparr>fr_account = 0, fr_mailbox = lit ''INBOX''\<rparr>)"
  by (rule open_folder_invariant) simp

section \<open>Loading page by page\<close>

text \<open>One round of the paging: ask for the next page and apply the reply, given what the server
  answers for each page (its headers and the page count).\<close>

definition load_page :: "date_fmt \<Rightarrow> (u32 \<Rightarrow> mail_header list \<times> u32) \<Rightarrow> open_folder \<Rightarrow> open_folder" where
  "load_page fmt server o1 =
     (case next_request o1 of
        (None, o2) \<Rightarrow> o2
      | (Some request, o2) \<Rightarrow>
          (let (hs, n) = server (pr_page request)
           in snd (apply_reply fmt (pr_id request) (pr_page request) n hs o2)))"

text \<open>A folder of which the server has \<open>all\<close>, newest first.\<close>

definition pages_of :: "mail_header list \<Rightarrow> u32 \<Rightarrow> mail_header list \<times> u32" where
  "pages_of all page =
     (take PAGE_SIZE (drop ((unat page - 1) * PAGE_SIZE) all), of_nat ((length all + 49) div PAGE_SIZE))"

lemma load_page_appends:
  assumes "of_page_request o1 = None" "\<not> is_complete o1" "\<not> is_cached_only o1"
    and "server (of_next_page o1) = (hs, n)"
  shows "of_headers (load_page fmt server o1) = of_headers o1 @
      filter (\<lambda>h. mh_uid h < (case last_opt (of_headers o1) of None \<Rightarrow> - 1 | Some h \<Rightarrow> mh_uid h)) hs \<and>
    of_page_request (load_page fmt server o1) = None \<and> of_next_page (load_page fmt server o1) = of_next_page o1 + 1 \<and>
    of_total_pages (load_page fmt server o1) = Some n \<and> of_first_page_arrived (load_page fmt server o1)"
  using assms
  by (auto simp: load_page_def next_request_def latest_begin_def apply_reply_def append_page_def
      is_cached_only_def Let_def)

lemma last_take: "0 < k \<Longrightarrow> k \<le> length xs \<Longrightarrow> last_opt (take k xs) = Some (xs ! (k - 1))"
  by (cases k) (simp_all add: take_Suc_conv_app_nth)

lemma small_u32: "n < 2 ^ 32 \<Longrightarrow> unat (of_nat n :: u32) = n"
  by (simp add: unat_of_nat take_bit_nat_eq_self)

lemma load_pages:
  assumes "newest_first all" and "\<forall>h\<in>set all. mh_uid h \<noteq> - 1" and "length all + 100 < 2 ^ 32"
    and "k \<le> (length all + 49) div 50"
  shows "(let o1 = (load_page fmt (pages_of all) ^^ k) (open_folder_new folder) in
    of_headers o1 = take (50 * k) all \<and> of_page_request o1 = None \<and> of_next_page o1 = of_nat k + 1 \<and>
    (if k = 0 then of_total_pages o1 = None \<and> \<not> of_first_page_arrived o1
     else of_total_pages o1 = Some (of_nat ((length all + 49) div 50)) \<and> of_first_page_arrived o1))"
  using assms(4)
proof (induction k)
  case 0
  show ?case by (simp add: open_folder_new_def)
next
  case (Suc k)
  let ?o = "(load_page fmt (pages_of all) ^^ k) (open_folder_new folder)"
  let ?total = "of_nat ((length all + 49) div 50) :: u32"
  have IH: "of_headers ?o = take (50 * k) all" "of_page_request ?o = None" "of_next_page ?o = of_nat k + 1"
      "if k = 0 then of_total_pages ?o = None \<and> \<not> of_first_page_arrived ?o
       else of_total_pages ?o = Some ?total \<and> of_first_page_arrived ?o"
    using Suc by (simp_all add: Let_def split: if_splits)
  have len: "50 * k < length all" using Suc.prems by simp
  have page: "unat (of_nat k + 1 :: u32) = k + 1" and small: "unat ?total = (length all + 49) div 50"
    using Suc.prems assms(3) small_u32 [of "k + 1"] by (simp_all add: small_u32 add.commute)
  have notc: "\<not> is_complete ?o"
    using IH(3,4) page small Suc.prems by (auto simp: is_complete_def word_less_nat_alt split: if_splits)
  have cached: "\<not> is_cached_only ?o" using IH(1,4) by (auto simp: is_cached_only_def split: if_splits)
  have srv: "pages_of all (of_next_page ?o) = (take 50 (drop (50 * k) all), ?total)"
    unfolding pages_of_def IH(3) page by (simp add: PAGE_SIZE_def mult.commute)
  have "newest_first (take (50 * k) all @ take 50 (drop (50 * k) all))"
    by (simp add: take_add [symmetric]) (metis append_take_drop_id assms(1) newest_first_append)
  then have below: "mh_uid h < mh_uid (last (take (50 * k) all))"
    if "h \<in> set (take 50 (drop (50 * k) all))" "0 < k" for h
  proof -
    have "take (50 * k) all \<noteq> []" using that len by auto
    then have "last (take (50 * k) all) \<in> set (take (50 * k) all)" by (rule last_in_set)
    with \<open>newest_first (take (50 * k) all @ take 50 (drop (50 * k) all))\<close> that(1) show ?thesis
      unfolding newest_first_append by blast
  qed
  have "filter (\<lambda>h. mh_uid h < (case last_opt (take (50 * k) all) of None \<Rightarrow> - 1 | Some h \<Rightarrow> mh_uid h))
      (take 50 (drop (50 * k) all)) = take 50 (drop (50 * k) all)"
  proof (cases "k = 0")
    case True
    then show ?thesis
      using assms(2) by (intro filter_True) (auto simp: word_order.not_eq_extremum dest: in_set_takeD)
  next
    case False
    then show ?thesis using below len by (intro filter_True) (auto simp: last_opt_def)
  qed
  with load_page_appends [where server = "pages_of all" and ?o1.0 = ?o and fmt = fmt, OF IH(2) notc cached srv] IH(1,3)
  show ?case by (simp add: take_add [symmetric] add.commute)
qed

text \<open>C6. Against a server whose folder does not change, asking for the next page until nothing
  is left shows the whole folder: every message once, newest first, and the folder then asks
  for no more pages.\<close>

theorem whole_folder_loads:
  assumes "newest_first all" and "\<forall>h\<in>set all. mh_uid h \<noteq> - 1" and "length all + 100 < 2 ^ 32"
  shows "(let o1 = (load_page fmt (pages_of all) ^^ ((length all + 49) div 50)) (open_folder_new folder) in
    of_headers o1 = all \<and> (all \<noteq> [] \<longrightarrow> is_complete o1 \<and> fst (next_request o1) = None))"
proof -
  let ?k = "(length all + 49) div 50"
  have "unat (of_nat ?k :: u32) = ?k" "unat (of_nat ?k + 1 :: u32) = ?k + 1"
    using assms(3) small_u32 [of "?k + 1"] by (simp_all add: small_u32 add.commute)
  then have "(of_nat ?k :: u32) < of_nat ?k + 1" by (simp add: word_less_nat_alt)
  with load_pages [OF assms le_refl, of fmt folder] show ?thesis
    by (auto simp: Let_def is_complete_def next_request_def open_folder_new_def split: if_splits)
qed

theorem whole_folder_loads_witness:
  "of_headers ((load_page Map.empty (pages_of (map demo_mail [9, 4])) ^^ 1) (open_folder_new \<lparr>fr_account = 0, fr_mailbox = []\<rparr>))
     = map demo_mail [9, 4]"
  using whole_folder_loads [of "map demo_mail [9, 4]" Map.empty "\<lparr>fr_account = 0, fr_mailbox = []\<rparr>"]
  by (simp add: Let_def)

lemma last_append_filter: "mh_uid (last (xs @ filter (\<lambda>h. mh_uid h < mh_uid (last xs)) hs)) \<le> mh_uid (last xs)"
proof (cases "filter (\<lambda>h. mh_uid h < mh_uid (last xs)) hs = []")
  case False
  then have "last (filter (\<lambda>h. mh_uid h < mh_uid (last xs)) hs) \<in> set (filter (\<lambda>h. mh_uid h < mh_uid (last xs)) hs)"
    by (rule last_in_set)
  with False show ?thesis by (simp only: last_append if_False) (simp add: less_imp_le)
qed simp

text \<open>When more than a page of new mail arrived since the last look, the messages between the
  newest page and what was loaded before never reach the list: the refresh adds only the newest
  page, and every later page is cut at the oldest loaded message.\<close>

theorem refresh_leaves_gap:
  assumes "newest_first (of_headers o1)" and "of_rows o1 = map (row_model_of fmt) (of_headers o1)"
    and "of_headers o1 \<noteq> []" and "of_first_page_arrived o1" and "of_page_request o1 = None"
    and "newest_first (fresh @ of_headers o1)" and "fresh \<noteq> []"
  shows "\<forall>h \<in> set (of_headers ((load_page fmt server ^^ k) (snd (merge_newest fmt fresh o1)))).
    h \<in> set fresh \<or> h \<in> set (of_headers o1) \<or> (\<forall>old \<in> set (of_headers o1). mh_uid h < mh_uid old)"
proof -
  let ?oldest = "last (of_headers o1)"
  define good :: "open_folder \<Rightarrow> bool" where "good o2 \<longleftrightarrow> of_first_page_arrived o2 \<and> of_page_request o2 = None \<and>
    of_headers o2 \<noteq> [] \<and> mh_uid (last (of_headers o2)) \<le> mh_uid ?oldest \<and>
    (\<forall>h \<in> set (of_headers o2). h \<in> set fresh \<or> h \<in> set (of_headers o1) \<or> mh_uid h < mh_uid ?oldest)" for o2
  have "filter (\<lambda>x. mh_uid x < mh_uid (last fresh)) (of_headers o1) = of_headers o1"
    using assms(6,7) by (intro filter_True) (auto simp: newest_first_append)
  then have "of_headers (snd (merge_newest fmt fresh o1)) = fresh @ of_headers o1"
    using merge_newest_result [of o1 fmt fresh] assms by (simp add: newest_first_append last_opt_def)
  then have start: "good (snd (merge_newest fmt fresh o1))"
    using assms unfolding good_def by (auto simp: merge_newest_def Let_def split_beta)
  have step: "good (load_page fmt server o2)" if g: "good o2" for o2
  proof (cases "is_complete o2")
    case True
    with g show ?thesis by (simp add: load_page_def next_request_def)
  next
    case False
    obtain hs n where srv: "server (of_next_page o2) = (hs, n)" by fastforce
    let ?new = "filter (\<lambda>h. mh_uid h < mh_uid (last (of_headers o2))) hs"
    have page: "of_headers (load_page fmt server o2) = of_headers o2 @ ?new"
        "of_page_request (load_page fmt server o2) = None" "of_first_page_arrived (load_page fmt server o2)"
      using load_page_appends [where ?o1.0 = o2 and fmt = fmt and server = server and hs = hs and n = n] srv False g
      by (simp_all add: good_def is_cached_only_def last_opt_def)
    have "mh_uid (last (of_headers o2 @ ?new)) \<le> mh_uid (last (of_headers o2))"
      by (rule last_append_filter)
    with g page show ?thesis by (auto simp: good_def intro: order.trans)
  qed
  have "good ((load_page fmt server ^^ k) (snd (merge_newest fmt fresh o1)))"
    by (induction k) (simp_all add: start step)
  then have new: "\<forall>h \<in> set (of_headers ((load_page fmt server ^^ k) (snd (merge_newest fmt fresh o1)))).
      h \<in> set fresh \<or> h \<in> set (of_headers o1) \<or> mh_uid h < mh_uid ?oldest"
    unfolding good_def by simp
  have "mh_uid ?oldest \<le> mh_uid old" if "old \<in> set (of_headers o1)" for old
    using newest_first_last [OF assms(1) that] assms(3) by (simp add: last_opt_def)
  then have "\<forall>old \<in> set (of_headers o1). mh_uid h < mh_uid old" if "mh_uid h < mh_uid ?oldest" for h :: mail_header
    using that by (auto intro: order.strict_trans2)
  with new show ?thesis by blast
qed

theorem refresh_leaves_gap_witness:
  "2 \<notin> mh_uid ` set (of_headers ((load_page Map.empty (pages_of (map demo_mail [4, 3, 2, 1])) ^^ 3)
     (snd (merge_newest Map.empty (map demo_mail [4, 3]) (demo_folder [1])))))"
proof -
  have "\<forall>h \<in> set (of_headers ((load_page Map.empty (pages_of (map demo_mail [4, 3, 2, 1])) ^^ 3)
      (snd (merge_newest Map.empty (map demo_mail [4, 3]) (demo_folder [1]))))).
    h \<in> set (map demo_mail [4, 3]) \<or> h \<in> set (of_headers (demo_folder [1])) \<or>
    (\<forall>old \<in> set (of_headers (demo_folder [1])). mh_uid h < mh_uid old)"
    by (rule refresh_leaves_gap) (simp_all add: demo_folder_def open_folder_new_def)
  then have all: "\<forall>h \<in> set (of_headers ((load_page Map.empty (pages_of (map demo_mail [4, 3, 2, 1])) ^^ 3)
      (snd (merge_newest Map.empty (map demo_mail [4, 3]) (demo_folder [1]))))). mh_uid h \<noteq> 2"
    by (auto simp: demo_folder_def)
  then show ?thesis by force
qed

text \<open>When the first page of a folder that shows cached messages fails and is asked for again,
  the page asked for is the one near the end of the cache, and its reply is merged as if it were
  the newest page: every cached message newer than it leaves the list.\<close>

theorem failed_page_drops_cached_rows:
  assumes "newest_first cached" and "cached \<noteq> []" and "newest_first hs" and "hs \<noteq> []"
  shows "(let o1 = snd (seed fmt cached (snd (next_request (open_folder_new folder))));
      (request, o2) = next_request (page_failed o1)
    in (case request of
        None \<Rightarrow> False
      | Some r \<Rightarrow> pr_page r = of_nat (max (length cached div PAGE_SIZE) 1) \<and>
          of_headers (snd (apply_reply fmt (pr_id r) (pr_page r) n hs o2)) =
            hs @ filter (\<lambda>h. mh_uid h < mh_uid (last hs)) cached))"
proof -
  let ?o = "(snd (seed fmt cached (snd (next_request (open_folder_new folder)))))"
  have o: "of_headers ?o = cached" "of_rows ?o = map (row_model_of fmt) cached" "\<not> of_first_page_arrived ?o"
      "of_total_pages ?o = None" "of_next_page ?o = of_nat (max (length cached div PAGE_SIZE) 1)"
    using assms(2) by (simp_all add: seed_def next_request_def open_folder_new_def latest_begin_def
        latest_default_def is_complete_def)
  then show ?thesis
    using merge_newest_result [where fmt = fmt and fresh = hs] assms
    by (auto simp: next_request_def page_failed_def is_complete_def latest_begin_def Let_def apply_reply_def
        is_cached_only_def split_beta last_opt_def)
qed

theorem failed_page_drops_cached_rows_witness:
  "(let o1 = snd (seed Map.empty (map demo_mail [3, 2, 1]) (snd (next_request (open_folder_new \<lparr>fr_account = 0, fr_mailbox = []\<rparr>))));
      (request, o2) = next_request (page_failed o1)
    in (case request of
        None \<Rightarrow> False
      | Some r \<Rightarrow> pr_page r = of_nat (max (length (map demo_mail [3, 2, 1]) div PAGE_SIZE) 1) \<and>
          of_headers (snd (apply_reply Map.empty (pr_id r) (pr_page r) 1 (map demo_mail [2]) o2)) =
            map demo_mail [2] @ filter (\<lambda>h. mh_uid h < mh_uid (last (map demo_mail [2]))) (map demo_mail [3, 2, 1])))"
  by (rule failed_page_drops_cached_rows) simp_all

end
