(* ===== verification/Deliveries.thy ===== *)
theory Deliveries
  imports Protocol "HOL-Library.AList"
begin

text \<open>
  Which messages are on their way out, \<open>crates/esmail-win32/src/core_glue/deliveries.rs\<close>: the
  sends in flight, the outbox row each compose id owns, and what a send's outcome asks the
  outbox to do.  The sends in flight are only looked up and are a map; the rows are
  iterated over and are an association list (the order of a hash map's entries matters to no
  operation).  The lemmas show that no two sends of one outbox row are ever in flight: the
  locale \<open>owner_table\<close> derives it from what a table of owners promises.
\<close>

section \<open>Data\<close>

record flight =
  fl_account :: nat
  fl_state :: compose_state

record delivered =
  dv_account :: nat
  dv_outbox_row :: "int option"

datatype failure = Backoff int | Enqueue nat compose_state

record retry =
  rt_id :: compose_id
  rt_account :: nat
  rt_state :: compose_state

record deliveries =
  dl_last_id :: compose_id
  dl_in_flight :: "compose_id \<rightharpoonup> flight"
  dl_outbox_rows :: "(compose_id \<times> int) list"

definition deliveries_default :: deliveries where
  "deliveries_default = \<lparr>dl_last_id = 0, dl_in_flight = Map.empty, dl_outbox_rows = []\<rparr>"

section \<open>Operations\<close>

definition next_id :: "deliveries \<Rightarrow> compose_id \<times> deliveries" where
  "next_id d = (let n = dl_last_id d + 1 in (n, d\<lparr>dl_last_id := n\<rparr>))"

definition begin_send :: "compose_id \<Rightarrow> nat \<Rightarrow> compose_state \<Rightarrow> deliveries \<Rightarrow> deliveries" where
  "begin_send i account state d =
     d\<lparr>dl_in_flight := (dl_in_flight d)(i \<mapsto> \<lparr>fl_account = account, fl_state = state\<rparr>)\<rparr>"

definition cancel_send :: "compose_id \<Rightarrow> deliveries \<Rightarrow> deliveries" where
  "cancel_send i d = d\<lparr>dl_in_flight := (dl_in_flight d)(i := None)\<rparr>"

definition is_sending :: "compose_id \<Rightarrow> deliveries \<Rightarrow> bool" where
  "is_sending i d \<longleftrightarrow> dl_in_flight d i \<noteq> None"

definition outbox_enqueued :: "compose_id \<Rightarrow> int \<Rightarrow> deliveries \<Rightarrow> deliveries" where
  "outbox_enqueued i row d = d\<lparr>dl_outbox_rows := AList.update i row (dl_outbox_rows d)\<rparr>"

definition owned_outbox_row :: "compose_id \<Rightarrow> deliveries \<Rightarrow> int option" where
  "owned_outbox_row i d = map_of (dl_outbox_rows d) i"

definition forget :: "compose_id \<Rightarrow> deliveries \<Rightarrow> int option \<times> deliveries" where
  "forget i d =
     (map_of (dl_outbox_rows d) i,
      d\<lparr>dl_in_flight := (dl_in_flight d)(i := None), dl_outbox_rows := AList.delete i (dl_outbox_rows d)\<rparr>)"

definition delivered_send :: "compose_id \<Rightarrow> deliveries \<Rightarrow> delivered option \<times> deliveries" where
  "delivered_send i d =
     (case dl_in_flight d i of
        None \<Rightarrow> (None, d)
      | Some flight \<Rightarrow>
          (Some \<lparr>dv_account = fl_account flight, dv_outbox_row = map_of (dl_outbox_rows d) i\<rparr>,
           d\<lparr>dl_in_flight := (dl_in_flight d)(i := None), dl_outbox_rows := AList.delete i (dl_outbox_rows d)\<rparr>))"

definition failed_send :: "compose_id \<Rightarrow> deliveries \<Rightarrow> failure option \<times> deliveries" where
  "failed_send i d =
     (case dl_in_flight d i of
        None \<Rightarrow> (None, d)
      | Some flight \<Rightarrow>
          (Some (case map_of (dl_outbox_rows d) i of
             Some row \<Rightarrow> Backoff row
           | None \<Rightarrow> Enqueue (fl_account flight) (fl_state flight)),
           d\<lparr>dl_in_flight := (dl_in_flight d)(i := None)\<rparr>))"

text \<open>\<open>retries\<close>: the rows owned by an open window or a send in flight (the set
  \<open>owned\<close>), computed before the loop, and the loop over the rows that are due.\<close>

definition owned_rows :: "(compose_id \<Rightarrow> bool) \<Rightarrow> deliveries \<Rightarrow> int set" where
  "owned_rows window_open d =
     set (map snd (filter (\<lambda>(i, _). window_open i \<or> dl_in_flight d i \<noteq> None) (dl_outbox_rows d)))"

fun retry_due ::
  "(str \<Rightarrow> nat option) \<Rightarrow> outbox_item list \<Rightarrow> deliveries \<Rightarrow> retry list \<times> outbox_item list \<times> deliveries" where
  "retry_due account_index [] d = ([], [], d)"
| "retry_due account_index (item # due) d =
     (case account_index (oi_account_id item) of
        None \<Rightarrow>
          (let (retries, unsendable, d) = retry_due account_index due d in (retries, item # unsendable, d))
      | Some account \<Rightarrow>
          (let (i, d) = next_id d;
               d = d\<lparr>dl_outbox_rows := AList.update i (oi_id item) (dl_outbox_rows d),
                     dl_in_flight := (dl_in_flight d)(i \<mapsto> \<lparr>fl_account = account, fl_state = oi_compose item\<rparr>)\<rparr>;
               (retries, unsendable, d) = retry_due account_index due d
           in (\<lparr>rt_id = i, rt_account = account, rt_state = oi_compose item\<rparr> # retries, unsendable, d)))"

definition retries ::
  "outbox_item list \<Rightarrow> (compose_id \<Rightarrow> bool) \<Rightarrow> (str \<Rightarrow> nat option) \<Rightarrow> deliveries \<Rightarrow>
   retry list \<times> outbox_item list \<times> deliveries" where
  "retries due window_open account_index d =
     (let owned = owned_rows window_open d
      in retry_due account_index (filter (\<lambda>item. oi_id item \<notin> owned) due) d)"

section \<open>Tables of owners\<close>

text \<open>What the deliveries rely on: a table that gives each key at most one value.\<close>

locale owner_table =
  fixes look :: "'t \<Rightarrow> 'k \<Rightarrow> 'v option"
    and put :: "'k \<Rightarrow> 'v \<Rightarrow> 't \<Rightarrow> 't"
    and del :: "'k \<Rightarrow> 't \<Rightarrow> 't"
    and entries :: "'t \<Rightarrow> ('k \<times> 'v) list"
    and valid :: "'t \<Rightarrow> bool"
  assumes look_put: "look (put k v t) k' = (if k' = k then Some v else look t k')"
    and look_del: "valid t \<Longrightarrow> look (del k t) k' = (if k' = k then None else look t k')"
    and entries_look: "valid t \<Longrightarrow> (k, v) \<in> set (entries t) \<longleftrightarrow> look t k = Some v"
    and valid_put: "valid t \<Longrightarrow> valid (put k v t)"
    and valid_del: "valid t \<Longrightarrow> valid (del k t)"
begin

text \<open>Within the keys \<open>A\<close>, no two keys own the same value.\<close>

definition exclusive :: "'k set \<Rightarrow> 't \<Rightarrow> bool" where
  "exclusive A t \<longleftrightarrow> (\<forall>i\<in>A. \<forall>j\<in>A. \<forall>v. look t i = Some v \<and> look t j = Some v \<longrightarrow> i = j)"

lemma exclusive_subset: "exclusive A t \<Longrightarrow> B \<subseteq> A \<Longrightarrow> exclusive B t"
  by (auto simp: exclusive_def)

lemma exclusive_unowned: "exclusive A t \<Longrightarrow> look t k = None \<Longrightarrow> exclusive (insert k A) t"
  by (auto simp: exclusive_def)

lemma exclusive_put:
  "exclusive A t \<Longrightarrow> (\<And>i. i \<in> A \<Longrightarrow> i \<noteq> k \<Longrightarrow> look t i \<noteq> Some v) \<Longrightarrow> exclusive (insert k A) (put k v t)"
  by (auto simp: exclusive_def look_put)

lemma exclusive_del: "valid t \<Longrightarrow> exclusive A t \<Longrightarrow> exclusive A (del k t)"
  by (auto simp: exclusive_def look_del split: if_splits)

end

interpretation rows: owner_table map_of AList.update AList.delete "\<lambda>t. t" "\<lambda>t. distinct (map fst t)"
  by unfold_locales (simp_all add: update_conv' delete_conv' distinct_update distinct_delete)

section \<open>No outbox row is sent twice at a time\<close>

text \<open>What happens to the deliveries while the program runs: compose windows open and close, an
  open window sends, the outbox reports the row a failed message got, it reports the rows that
  are due, and a send is delivered, fails, or is discarded.\<close>

datatype delivery_input = WindowOpened | WindowClosed compose_id
  | WindowSends compose_id nat compose_state | RowEnqueued compose_id int
  | RowsDue "outbox_item list" | SendDelivered compose_id | SendFailed compose_id | Discarded compose_id

record delivery_world =
  dw_open :: "compose_id set"
  dw_deliveries :: deliveries

fun delivery_step :: "(str \<Rightarrow> nat option) \<Rightarrow> delivery_world \<Rightarrow> delivery_input \<Rightarrow> delivery_world" where
  "delivery_step index w WindowOpened =
     (let (i, d) = next_id (dw_deliveries w) in \<lparr>dw_open = insert i (dw_open w), dw_deliveries = d\<rparr>)"
| "delivery_step index w (WindowClosed i) = w\<lparr>dw_open := dw_open w - {i}\<rparr>"
| "delivery_step index w (WindowSends i account state) =
     w\<lparr>dw_deliveries := begin_send i account state (dw_deliveries w)\<rparr>"
| "delivery_step index w (RowEnqueued i row) = w\<lparr>dw_deliveries := outbox_enqueued i row (dw_deliveries w)\<rparr>"
| "delivery_step index w (RowsDue due) =
     w\<lparr>dw_deliveries := snd (snd (retries due (\<lambda>i. i \<in> dw_open w) index (dw_deliveries w)))\<rparr>"
| "delivery_step index w (SendDelivered i) = w\<lparr>dw_deliveries := snd (delivered_send i (dw_deliveries w))\<rparr>"
| "delivery_step index w (SendFailed i) = w\<lparr>dw_deliveries := snd (failed_send i (dw_deliveries w))\<rparr>"
| "delivery_step index w (Discarded i) = w\<lparr>dw_deliveries := snd (forget i (dw_deliveries w))\<rparr>"

text \<open>Only an open window sends; the row the outbox reports is a row no id owns; the due rows are
  distinct rows of the table; and the id counter does not wrap.\<close>

fun delivery_enabled :: "delivery_world \<Rightarrow> delivery_input \<Rightarrow> bool" where
  "delivery_enabled w WindowOpened = (unat (dl_last_id (dw_deliveries w)) + 1 < 2 ^ 64)"
| "delivery_enabled w (WindowSends i _ _) = (i \<in> dw_open w)"
| "delivery_enabled w (RowEnqueued i row) =
     (row \<notin> snd ` set (dl_outbox_rows (dw_deliveries w)) \<and> unat i \<le> unat (dl_last_id (dw_deliveries w)))"
| "delivery_enabled w (RowsDue due) =
     (distinct (map oi_id due) \<and> unat (dl_last_id (dw_deliveries w)) + length due < 2 ^ 64)"
| "delivery_enabled w _ = True"

fun delivery_run :: "(str \<Rightarrow> nat option) \<Rightarrow> delivery_world \<Rightarrow> delivery_input list \<Rightarrow> delivery_world option" where
  "delivery_run index w [] = Some w"
| "delivery_run index w (inp # rest) =
     (if delivery_enabled w inp then delivery_run index (delivery_step index w inp) rest else None)"

definition active :: "delivery_world \<Rightarrow> compose_id set" where
  "active w = dw_open w \<union> dom (dl_in_flight (dw_deliveries w))"

definition used :: "delivery_world \<Rightarrow> compose_id set" where
  "used w = active w \<union> dom (map_of (dl_outbox_rows (dw_deliveries w)))"

definition delivery_ok :: "delivery_world \<Rightarrow> bool" where
  "delivery_ok w \<longleftrightarrow>
     distinct (map fst (dl_outbox_rows (dw_deliveries w))) \<and>
     rows.exclusive (active w) (dl_outbox_rows (dw_deliveries w)) \<and>
     (\<forall>i \<in> used w. unat i \<le> unat (dl_last_id (dw_deliveries w)))"

lemma dom_map_of_update [simp]: "dom (map_of (AList.update k v t)) = insert k (dom (map_of t))"
  by (auto simp: update_conv')

lemma dom_map_of_delete [simp]: "dom (map_of (AList.delete k t)) = dom (map_of t) - {k}"
  by (auto simp: delete_conv' split: if_splits)

lemma next_id_fresh:
  assumes "unat (dl_last_id d) + 1 < 2 ^ 64"
  shows "unat (dl_last_id d + 1) = unat (dl_last_id d) + 1"
  using assms by (simp add: unat_Suc_word)

lemma retry_due_ok:
  assumes "delivery_ok \<lparr>dw_open = opened, dw_deliveries = d\<rparr>" "distinct (map oi_id due)"
    and "\<forall>i \<in> active \<lparr>dw_open = opened, dw_deliveries = d\<rparr>. \<forall>item \<in> set due. map_of (dl_outbox_rows d) i \<noteq> Some (oi_id item)"
    and "unat (dl_last_id d) + length due < 2 ^ 64"
  shows "delivery_ok \<lparr>dw_open = opened, dw_deliveries = snd (snd (retry_due index due d))\<rparr>"
  using assms
proof (induction due arbitrary: d)
  case (Cons item due)
  show ?case
  proof (cases "index (oi_account_id item)")
    case None
    with Cons show ?thesis by (simp add: split_beta)
  next
    case (Some account)
    let ?i = "dl_last_id d + 1"
    let ?d = "d\<lparr>dl_last_id := ?i, dl_outbox_rows := AList.update ?i (oi_id item) (dl_outbox_rows d),
      dl_in_flight := (dl_in_flight d)(?i \<mapsto> \<lparr>fl_account = account, fl_state = oi_compose item\<rparr>)\<rparr>"
    let ?w = "\<lparr>dw_open = opened, dw_deliveries = d\<rparr>" and ?w' = "\<lparr>dw_open = opened, dw_deliveries = ?d\<rparr>"
    have id: "unat ?i = unat (dl_last_id d) + 1" using Cons.prems(4) by (simp add: next_id_fresh)
    have active: "active ?w' = insert ?i (active ?w)" by (auto simp: active_def)
    have used: "used ?w' = insert ?i (used ?w)" by (auto simp: used_def active_def)
    have fresh: "?i \<notin> used ?w" using Cons.prems(1) id by (auto simp: delivery_ok_def)
    have "rows.exclusive (active ?w') (dl_outbox_rows ?d)"
      unfolding active using Cons.prems(1,3) by (auto simp: delivery_ok_def intro: rows.exclusive_put)
    then have ok: "delivery_ok ?w'"
      using Cons.prems(1) id unfolding delivery_ok_def used by (auto simp: distinct_update)
    have "map_of (dl_outbox_rows ?d) j \<noteq> Some (oi_id other)" if "j \<in> active ?w'" "other \<in> set due" for j other
      using that Cons.prems(2,3) fresh by (auto simp: active update_conv' image_iff split: if_splits)
    with Cons.IH [OF ok] Cons.prems(2,4) id Some show ?thesis by (simp add: split_beta next_id_def Let_def)
  qed
qed simp

lemma active_remove:
  "active (w\<lparr>dw_deliveries := d\<rparr>) \<subseteq> active w \<Longrightarrow> used (w\<lparr>dw_deliveries := d\<rparr>) \<subseteq> used w \<Longrightarrow>
   dl_last_id d = dl_last_id (dw_deliveries w) \<Longrightarrow> distinct (map fst (dl_outbox_rows d)) \<Longrightarrow>
   rows.exclusive (active w) (dl_outbox_rows d) \<Longrightarrow> delivery_ok w \<Longrightarrow> delivery_ok (w\<lparr>dw_deliveries := d\<rparr>)"
  by (auto simp: delivery_ok_def intro: rows.exclusive_subset)

lemma delivery_step_ok: "delivery_ok w \<Longrightarrow> delivery_enabled w inp \<Longrightarrow> delivery_ok (delivery_step index w inp)"
proof (cases inp)
  case WindowOpened
  assume w: "delivery_ok w" "delivery_enabled w inp"
  let ?i = "dl_last_id (dw_deliveries w) + 1"
  let ?w = "\<lparr>dw_open = insert ?i (dw_open w), dw_deliveries = (dw_deliveries w)\<lparr>dl_last_id := ?i\<rparr>\<rparr>"
  have id: "unat ?i = unat (dl_last_id (dw_deliveries w)) + 1"
    using w(2) WindowOpened by (simp add: next_id_fresh)
  have active: "active ?w = insert ?i (active w)" by (auto simp: active_def)
  have used: "used ?w = insert ?i (used w)" by (auto simp: used_def active_def)
  have "?i \<notin> used w" using w(1) id by (auto simp: delivery_ok_def)
  then have "map_of (dl_outbox_rows (dw_deliveries w)) ?i = None" by (auto simp: used_def)
  with w(1) have "rows.exclusive (active ?w) (dl_outbox_rows (dw_deliveries w))"
    unfolding active by (intro rows.exclusive_unowned) (simp_all add: delivery_ok_def)
  with w(1) id have "delivery_ok ?w" unfolding delivery_ok_def used by auto
  with WindowOpened show ?thesis by (simp add: next_id_def Let_def)
next
  case (WindowClosed i)
  assume "delivery_ok w"
  with WindowClosed show ?thesis
    by (auto simp: delivery_ok_def active_def used_def elim: rows.exclusive_subset)
next
  case (WindowSends i account state)
  assume w: "delivery_ok w" "delivery_enabled w inp"
  then have "active (delivery_step index w inp) = active w"
    using WindowSends by (auto simp: active_def begin_send_def)
  with w WindowSends show ?thesis by (auto simp: delivery_ok_def used_def begin_send_def)
next
  case (RowEnqueued i row)
  assume w: "delivery_ok w" "delivery_enabled w inp"
  let ?rows = "dl_outbox_rows (dw_deliveries w)"
  have "map_of ?rows j \<noteq> Some row" for j
    using w(2) RowEnqueued by (auto dest!: map_of_SomeD simp: rev_image_eqI)
  then have "rows.exclusive (insert i (active w)) (AList.update i row ?rows)"
    using w(1) by (auto simp: delivery_ok_def intro: rows.exclusive_put)
  then have "rows.exclusive (active w) (AList.update i row ?rows)" by (rule rows.exclusive_subset) auto
  with w RowEnqueued show ?thesis
    by (auto simp: delivery_ok_def outbox_enqueued_def active_def used_def distinct_update)
next
  case (RowsDue due)
  assume w: "delivery_ok w" "delivery_enabled w inp"
  let ?d = "dw_deliveries w"
  let ?due = "filter (\<lambda>item. oi_id item \<notin> owned_rows (\<lambda>i. i \<in> dw_open w) ?d) due"
  have "map_of (dl_outbox_rows ?d) i \<noteq> Some (oi_id item)" if "i \<in> active w" "item \<in> set ?due" for i item
    using that w(1) rows.entries_look [of "dl_outbox_rows ?d" i "oi_id item"]
    by (force simp: active_def owned_rows_def delivery_ok_def)
  moreover have "unat (dl_last_id ?d) + length ?due < 2 ^ 64"
    using w(2) RowsDue by (simp add: le_less_trans [OF add_left_mono [OF length_filter_le]])
  moreover have "distinct (map oi_id ?due)" using w(2) RowsDue by (simp add: distinct_map_filter)
  ultimately have "delivery_ok \<lparr>dw_open = dw_open w, dw_deliveries = snd (snd (retry_due index ?due ?d))\<rparr>"
    using w(1) by (intro retry_due_ok) (auto simp: active_def delivery_ok_def used_def)
  with RowsDue show ?thesis by (simp add: retries_def delivery_ok_def active_def used_def)
next
  case (SendDelivered i)
  assume "delivery_ok w"
  with SendDelivered show ?thesis
    by (auto simp: delivered_send_def delivery_ok_def active_def used_def distinct_delete
        intro!: rows.exclusive_del elim!: rows.exclusive_subset split: option.split)
next
  case (SendFailed i)
  assume "delivery_ok w"
  with SendFailed show ?thesis
    by (auto simp: failed_send_def delivery_ok_def active_def used_def elim!: rows.exclusive_subset split: option.split)
next
  case (Discarded i)
  assume "delivery_ok w"
  with Discarded show ?thesis
    by (auto simp: forget_def delivery_ok_def active_def used_def distinct_delete
        intro!: rows.exclusive_del elim!: rows.exclusive_subset)
qed

text \<open>C10. However windows, retries, outcomes and outbox reports interleave, two sends in flight
  never carry the same outbox row, so a queued message is not sent twice at a time.\<close>

theorem no_row_sent_twice_at_a_time:
  assumes "delivery_run index \<lparr>dw_open = {}, dw_deliveries = deliveries_default\<rparr> inputs = Some w"
    and "is_sending i (dw_deliveries w)" and "is_sending j (dw_deliveries w)"
    and "owned_outbox_row i (dw_deliveries w) = Some row" and "owned_outbox_row j (dw_deliveries w) = Some row"
  shows "i = j"
proof -
  have "delivery_run index w0 inputs = Some w \<Longrightarrow> delivery_ok w0 \<Longrightarrow> delivery_ok w" for w0
    by (induction inputs arbitrary: w0) (auto simp: delivery_step_ok split: if_splits)
  moreover have "delivery_ok \<lparr>dw_open = {}, dw_deliveries = deliveries_default\<rparr>"
    by (simp add: delivery_ok_def deliveries_default_def active_def used_def rows.exclusive_def)
  ultimately have "delivery_ok w" using assms(1) by blast
  then have "rows.exclusive (active w) (dl_outbox_rows (dw_deliveries w))" by (simp add: delivery_ok_def)
  moreover have "i \<in> active w" "j \<in> active w" using assms(2,3) by (auto simp: active_def is_sending_def)
  ultimately show ?thesis using assms(4,5) unfolding rows.exclusive_def owned_outbox_row_def by blast
qed

definition demo_item :: outbox_item where
  "demo_item = \<lparr>oi_id = 7, oi_account_id = [], oi_compose = compose_default, oi_attempts = 1, oi_last_error = None\<rparr>"

theorem no_row_sent_twice_at_a_time_witness:
  "\<exists>w. delivery_run (\<lambda>_. Some 0) \<lparr>dw_open = {}, dw_deliveries = deliveries_default\<rparr>
      [WindowOpened, WindowSends 1 0 compose_default, SendFailed 1, RowEnqueued 1 7, WindowClosed 1,
       RowsDue [demo_item], RowsDue [demo_item]] = Some w \<and>
    {i. is_sending i (dw_deliveries w) \<and> owned_outbox_row i (dw_deliveries w) = Some 7} = {2}"
proof -
  let ?run = "delivery_run (\<lambda>_. Some 0) \<lparr>dw_open = {}, dw_deliveries = deliveries_default\<rparr>
      [WindowOpened, WindowSends 1 0 compose_default, SendFailed 1, RowEnqueued 1 7, WindowClosed 1,
       RowsDue [demo_item], RowsDue [demo_item]]"
  obtain w where run: "?run = Some w" and two: "is_sending 2 (dw_deliveries w)" "owned_outbox_row 2 (dw_deliveries w) = Some 7"
    by (simp add: deliveries_default_def next_id_def begin_send_def failed_send_def outbox_enqueued_def retries_def
        owned_rows_def demo_item_def is_sending_def owned_outbox_row_def)
  have "i = 2" if "is_sending i (dw_deliveries w)" "owned_outbox_row i (dw_deliveries w) = Some 7" for i
    using no_row_sent_twice_at_a_time [OF run that(1) two(1) that(2) two(2)] .
  with run two show ?thesis by blast
qed

end
