(* ===== verification/Composes.thy ===== *)
theory Composes
  imports Deliveries
begin

text \<open>
  The main window's side of composing, \<open>crates/esmail-win32/src/app/composes.rs\<close>, with the
  requests of the Drafts and Outbox windows (\<open>app/queue/mod.rs\<close>), the cache commands they are
  turned into (\<open>core_glue/outbox.rs\<close>) and the message a window starts with
  (\<open>core_glue/compose.rs\<close>).  What reaches the cache, the SMTP and the IMAP actors, and the
  compose windows is kept in lists, in order.  The accounts, whether an actor accepts a command
  and which folder takes sent mail are the argument \<open>env\<close>.
\<close>

section \<open>The message a window starts with\<close>

datatype compose_kind = KindNew | KindReply | KindReplyAll | KindForward

definition needs_original :: "compose_kind \<Rightarrow> bool" where
  "needs_original kind \<longleftrightarrow> kind \<noteq> KindNew"

definition initial_state ::
  "(str \<Rightarrow> str) \<Rightarrow> compose_kind \<Rightarrow> (mail_header \<times> str) option \<Rightarrow> account_config \<Rightarrow> compose_state" where
  "initial_state html_to_text kind original account =
     with_account (Some (ac_id account))
       (case (kind, original) of
          (KindReply, Some (header, body)) \<Rightarrow> compose_reply html_to_text header body
        | (KindReplyAll, Some (header, body)) \<Rightarrow> reply_all html_to_text header body (ac_username account)
        | (KindForward, Some (header, body)) \<Rightarrow> compose_forward html_to_text header body
        | _ \<Rightarrow> compose_default)"

definition has_content :: "compose_state \<Rightarrow> bool" where
  "has_content state \<longleftrightarrow>
     list_ex (\<lambda>field. field \<noteq> []) [cs_to state, cs_cc state, cs_bcc state, cs_subject state, cs_body state] \<or>
     cs_attachments state \<noteq> []"

section \<open>State\<close>

record compose_entry =
  en_window :: bool
  en_draft :: "int option"
  en_saves_pending :: u32
  en_announce_save :: bool
  en_settled :: bool

datatype compose_msg = TellSending | TellFailed str | TellSent | TellDraftSaved

record outgoing =
  og_entries :: "compose_id \<rightharpoonup> compose_entry"
  og_deliveries :: deliveries
  og_outbox_items :: "outbox_item list"
  og_outbox_window :: bool
  og_drafts_window :: bool
  og_opened :: "(compose_id \<times> compose_state) list"
  og_db :: "db_command list"
  og_smtp :: "(compose_id \<times> nat \<times> compose_state) list"
  og_imap :: "(nat \<times> unit imap_command) list"
  og_told :: "(compose_id \<times> compose_msg) list"
  og_banners :: "str list"
  og_status :: str

definition outgoing_empty :: outgoing where
  "outgoing_empty =
     \<lparr>og_entries = Map.empty, og_deliveries = deliveries_default, og_outbox_items = [], og_outbox_window = False,
      og_drafts_window = False, og_opened = [], og_db = [], og_smtp = [], og_imap = [], og_told = [],
      og_banners = [], og_status = []\<rparr>"

text \<open>\<open>Core::send_mail\<close> answers with an error or queues the message; \<open>Core::send\<close> says whether
  the command was queued.\<close>

record outgoing_env =
  oe_accounts :: "account_config list"
  oe_send_mail :: "compose_id \<Rightarrow> nat \<Rightarrow> compose_state \<Rightarrow> str option"
  oe_send_imap :: "nat \<Rightarrow> bool"
  oe_sent_folder :: "nat \<Rightarrow> str"

definition account_position :: "account_config list \<Rightarrow> str \<Rightarrow> nat option" where
  "account_position accounts wanted = position (\<lambda>a. ac_id a = wanted) accounts"

section \<open>Helpers\<close>

definition COMMAND_QUEUE :: nat where "COMMAND_QUEUE = 256"

text \<open>\<open>og_db\<close> is the queue of the cache: \<open>try_send\<close> drops the command when it is full.\<close>

definition cache_command :: "db_command \<Rightarrow> outgoing \<Rightarrow> outgoing" where
  "cache_command cmd g = (if length (og_db g) < COMMAND_QUEUE then g\<lparr>og_db := og_db g @ [cmd]\<rparr> else g)"

text \<open>The methods of \<open>Cache\<close> for drafts and the outbox.\<close>

definition cache_save_draft :: "compose_id \<Rightarrow> compose_state \<Rightarrow> outgoing \<Rightarrow> outgoing" where
  "cache_save_draft i state = cache_command (SaveDraft (cs_draft_id state) i (cs_account_id state) state)"

definition cache_delete_draft :: "int \<Rightarrow> outgoing \<Rightarrow> outgoing" where
  "cache_delete_draft row = cache_command (DeleteDraft row)"

definition cache_list_drafts :: "outgoing \<Rightarrow> outgoing" where
  "cache_list_drafts = cache_command ListDrafts"

definition cache_load_draft :: "int \<Rightarrow> outgoing \<Rightarrow> outgoing" where
  "cache_load_draft row = cache_command (LoadDraft row)"

definition cache_list_outbox :: "outgoing \<Rightarrow> outgoing" where
  "cache_list_outbox = cache_command ListOutbox"

definition cache_enqueue_outbox :: "compose_id \<Rightarrow> str \<Rightarrow> compose_state \<Rightarrow> outgoing \<Rightarrow> outgoing" where
  "cache_enqueue_outbox i account state = cache_command (EnqueueOutbox None i account state)"

definition cache_due_outbox :: "outgoing \<Rightarrow> outgoing" where
  "cache_due_outbox = cache_command DueOutbox"

definition cache_mark_outbox_sent :: "int \<Rightarrow> outgoing \<Rightarrow> outgoing" where
  "cache_mark_outbox_sent row = cache_command (MarkOutboxSent row)"

definition cache_mark_outbox_failed :: "int \<Rightarrow> str \<Rightarrow> outgoing \<Rightarrow> outgoing" where
  "cache_mark_outbox_failed row error = cache_command (MarkOutboxFailed row error)"

definition cache_delete_outbox :: "int \<Rightarrow> outgoing \<Rightarrow> outgoing" where
  "cache_delete_outbox row = cache_command (DeleteOutbox row)"

lemmas cache_methods [simp] = cache_save_draft_def cache_delete_draft_def cache_list_drafts_def cache_load_draft_def
  cache_list_outbox_def cache_enqueue_outbox_def cache_due_outbox_def cache_mark_outbox_sent_def
  cache_mark_outbox_failed_def cache_delete_outbox_def

definition tell :: "compose_id \<Rightarrow> compose_msg \<Rightarrow> outgoing \<Rightarrow> outgoing" where
  "tell i msg g =
     (case og_entries g i of
        None \<Rightarrow> g
      | Some entry \<Rightarrow> if en_window entry then g\<lparr>og_told := og_told g @ [(i, msg)]\<rparr> else g)"

definition compose_banner :: "str \<Rightarrow> outgoing \<Rightarrow> outgoing" where
  "compose_banner message g = g\<lparr>og_banners := og_banners g @ [message]\<rparr>"

definition forget_if_done :: "compose_id \<Rightarrow> outgoing \<Rightarrow> outgoing" where
  "forget_if_done i g =
     (case og_entries g i of
        None \<Rightarrow> g
      | Some entry \<Rightarrow>
          if \<not> en_window entry \<and> en_saves_pending entry = 0 then g\<lparr>og_entries := (og_entries g)(i := None)\<rparr> else g)"

definition window_open :: "outgoing \<Rightarrow> compose_id \<Rightarrow> bool" where
  "window_open g i = (case og_entries g i of None \<Rightarrow> False | Some entry \<Rightarrow> en_window entry)"

definition refresh_outbox :: "outgoing \<Rightarrow> outgoing" where
  "refresh_outbox g = (if og_outbox_window g then cache_list_outbox g else g)"

definition set_entry :: "compose_id \<Rightarrow> compose_entry \<Rightarrow> outgoing \<Rightarrow> outgoing" where
  "set_entry i entry g = g\<lparr>og_entries := (og_entries g)(i \<mapsto> entry)\<rparr>"

section \<open>Windows and drafts\<close>

text \<open>Opening a window for a message; \<open>problem\<close> is the error when the window could not be
  created.\<close>

definition start_compose :: "str option \<Rightarrow> compose_state \<Rightarrow> outgoing \<Rightarrow> outgoing" where
  "start_compose problem state g =
     (let (i, d) = next_id (og_deliveries g); g = g\<lparr>og_deliveries := d\<rparr>
      in case problem of
           None \<Rightarrow>
             set_entry i \<lparr>en_window = True, en_draft = None, en_saves_pending = 0, en_announce_save = False,
               en_settled = False\<rparr> (g\<lparr>og_opened := og_opened g @ [(i, state)]\<rparr>)
         | Some error \<Rightarrow> compose_banner (lit ''Could not open a compose window: '' @ error) g)"

definition save_draft :: "compose_id \<Rightarrow> compose_state \<Rightarrow> bool \<Rightarrow> outgoing \<Rightarrow> outgoing" where
  "save_draft i state explicit g =
     (case og_entries g i of
        None \<Rightarrow> g
      | Some entry \<Rightarrow>
          if \<not> has_content state then g
          else
            let state = state\<lparr>cs_draft_id := en_draft entry\<rparr>;
                g = set_entry i (entry\<lparr>en_saves_pending := en_saves_pending entry + 1, en_announce_save := explicit\<rparr>) g
            in cache_save_draft i state g)"

definition settle :: "compose_id \<Rightarrow> outgoing \<Rightarrow> outgoing" where
  "settle i g =
     (case og_entries g i of
        None \<Rightarrow> g
      | Some entry \<Rightarrow>
          (let g = set_entry i (entry\<lparr>en_settled := True, en_draft := None\<rparr>) g
           in case en_draft entry of None \<Rightarrow> g | Some draft \<Rightarrow> cache_delete_draft draft g))"

definition discard_message :: "compose_id \<Rightarrow> outgoing \<Rightarrow> outgoing" where
  "discard_message i g =
     (let (row, d) = forget i (og_deliveries g);
          g = g\<lparr>og_deliveries := d\<rparr>;
          g = (case row of None \<Rightarrow> g | Some row \<Rightarrow> cache_delete_outbox row g)
      in settle i g)"

definition draft_saved :: "int \<Rightarrow> compose_id \<Rightarrow> outgoing \<Rightarrow> outgoing" where
  "draft_saved row i g =
     (case og_entries g i of
        None \<Rightarrow> g
      | Some entry \<Rightarrow>
          (let entry = entry\<lparr>en_saves_pending := sat_sub (en_saves_pending entry) 1\<rparr>;
               g = (if en_settled entry then cache_delete_draft row (set_entry i entry g)
                 else
                   let entry = entry\<lparr>en_draft := Some row\<rparr>
                   in if en_saves_pending entry = 0 \<and> en_announce_save entry
                      then tell i TellDraftSaved (set_entry i (entry\<lparr>en_announce_save := False\<rparr>) g)
                      else set_entry i entry g)
           in forget_if_done i g))"

definition compose_closed :: "compose_id \<Rightarrow> outgoing \<Rightarrow> outgoing" where
  "compose_closed i g =
     forget_if_done i
       (case og_entries g i of None \<Rightarrow> g | Some entry \<Rightarrow> set_entry i (entry\<lparr>en_window := False\<rparr>) g)"

section \<open>Sending\<close>

definition send_message :: "outgoing_env \<Rightarrow> compose_id \<Rightarrow> compose_state \<Rightarrow> outgoing \<Rightarrow> outgoing" where
  "send_message env i state g =
     (case Option.bind (cs_account_id state) (account_position (oe_accounts env)) of
        None \<Rightarrow> tell i (TellFailed (lit ''Choose an account to send from.'')) g
      | Some account \<Rightarrow>
          (case oe_send_mail env i account state of
             Some error \<Rightarrow> tell i (TellFailed error) g
           | None \<Rightarrow>
               (let g = g\<lparr>og_smtp := og_smtp g @ [(i, account, state)],
                      og_deliveries := begin_send i account state (og_deliveries g)\<rparr>
                in (tell i TellSending g)\<lparr>og_status := lit ''Sending...''\<rparr>)))"

definition compose_outbox_enqueued :: "int \<Rightarrow> compose_id \<Rightarrow> outgoing \<Rightarrow> outgoing" where
  "compose_outbox_enqueued row i g = g\<lparr>og_deliveries := outbox_enqueued i row (og_deliveries g)\<rparr>"

definition outcome_sent :: "outgoing_env \<Rightarrow> compose_id \<Rightarrow> byte list \<Rightarrow> outgoing \<Rightarrow> outgoing" where
  "outcome_sent env i raw g =
     (case delivered_send i (og_deliveries g) of
        (None, _) \<Rightarrow> g
      | (Some done1, d) \<Rightarrow>
          (let g = g\<lparr>og_deliveries := d\<rparr>;
               g = (case dv_outbox_row done1 of None \<Rightarrow> g | Some row \<Rightarrow> cache_mark_outbox_sent row g);
               mailbox = oe_sent_folder env (dv_account done1);
               g = (if oe_send_imap env (dv_account done1)
                 then g\<lparr>og_imap := og_imap g @ [(dv_account done1, Append mailbox raw)]\<rparr>
                 else compose_banner (lit ''The message was sent but could not be copied to the Sent folder.'') g);
               g = (tell i TellSent (settle i g))\<lparr>og_status := lit ''Message sent''\<rparr>
           in refresh_outbox g))"

definition outcome_failed :: "outgoing_env \<Rightarrow> compose_id \<Rightarrow> str \<Rightarrow> outgoing \<Rightarrow> outgoing" where
  "outcome_failed env i error g =
     (case failed_send i (og_deliveries g) of
        (None, _) \<Rightarrow> g
      | (Some failure, d) \<Rightarrow>
          (let g = g\<lparr>og_deliveries := d\<rparr>;
               g = (case failure of
                   Backoff row \<Rightarrow> cache_mark_outbox_failed row error g
                 | Enqueue account state \<Rightarrow>
                     if account < length (oe_accounts env)
                     then cache_enqueue_outbox i (ac_id (oe_accounts env ! account)) state g
                     else g);
               g = (if window_open g i then tell i (TellFailed error) g
                 else compose_banner (lit ''A message could not be sent and stays in the outbox for another try: '' @ error) g)
           in refresh_outbox g))"

definition outbox_due :: "outgoing_env \<Rightarrow> outbox_item list \<Rightarrow> outgoing \<Rightarrow> outgoing" where
  "outbox_due env due g =
     (let (retrying, unsendable, d) = retries due (window_open g) (account_position (oe_accounts env)) (og_deliveries g);
          g = foldl (\<lambda>g item. cache_mark_outbox_failed (oi_id item) (lit ''This account is no longer configured.'') g)
                (g\<lparr>og_deliveries := d\<rparr>) unsendable
      in foldl (\<lambda>g r. case oe_send_mail env (rt_id r) (rt_account r) (rt_state r) of
             Some error \<Rightarrow> outcome_failed env (rt_id r) error g
           | None \<Rightarrow> g\<lparr>og_smtp := og_smtp g @ [(rt_id r, rt_account r, rt_state r)]\<rparr>) g retrying)"

section \<open>The Drafts and Outbox windows\<close>

definition outbox_listed :: "outbox_item list \<Rightarrow> outgoing \<Rightarrow> outgoing" where
  "outbox_listed items g = g\<lparr>og_outbox_items := items\<rparr>"

definition draft_loaded :: "str option \<Rightarrow> int \<Rightarrow> compose_state \<Rightarrow> outgoing \<Rightarrow> outgoing" where
  "draft_loaded problem i state g =
     (start_compose problem (state\<lparr>cs_draft_id := Some i\<rparr>) g)\<lparr>og_drafts_window := False\<rparr>"

definition edit_queued :: "str option \<Rightarrow> int \<Rightarrow> outgoing \<Rightarrow> outgoing" where
  "edit_queued problem i g =
     (case position (\<lambda>item. oi_id item = i) (og_outbox_items g) of
        None \<Rightarrow> g
      | Some at \<Rightarrow>
          (let item = og_outbox_items g ! at;
               g = g\<lparr>og_outbox_items := take at (og_outbox_items g) @ drop (Suc at) (og_outbox_items g)\<rparr>;
               g = cache_delete_outbox i g
           in refresh_outbox (start_compose problem (with_account (Some (oi_account_id item)) (oi_compose item)) g)))"

definition retry_queued :: "outgoing_env \<Rightarrow> int \<Rightarrow> outgoing \<Rightarrow> outgoing" where
  "retry_queued env i g =
     (case find (\<lambda>item. oi_id item = i) (og_outbox_items g) of
        None \<Rightarrow> g
      | Some item \<Rightarrow> outbox_due env [item] (g\<lparr>og_status := lit ''Sending...''\<rparr>))"

datatype queue_kind = QueueDrafts | QueueOutbox

datatype queue_request = QOpen int | QRetry int | QDelete int | QClosed

definition refresh_queue :: "queue_kind \<Rightarrow> outgoing \<Rightarrow> outgoing" where
  "refresh_queue kind g =
     (case kind of
        QueueDrafts \<Rightarrow> if og_drafts_window g then cache_list_drafts g else g
      | QueueOutbox \<Rightarrow> refresh_outbox g)"

fun handle_queue_request :: "outgoing_env \<Rightarrow> str option \<Rightarrow> queue_kind \<Rightarrow> queue_request \<Rightarrow> outgoing \<Rightarrow> outgoing" where
  "handle_queue_request env problem QueueDrafts (QOpen i) g = cache_load_draft i g"
| "handle_queue_request env problem QueueDrafts (QDelete i) g = refresh_queue QueueDrafts (cache_delete_draft i g)"
| "handle_queue_request env problem QueueOutbox (QOpen i) g = edit_queued problem i g"
| "handle_queue_request env problem QueueOutbox (QRetry i) g = retry_queued env i g"
| "handle_queue_request env problem QueueOutbox (QDelete i) g = refresh_queue QueueOutbox (cache_delete_outbox i g)"
| "handle_queue_request env problem QueueDrafts (QRetry i) g = g"
| "handle_queue_request env problem QueueDrafts QClosed g = g\<lparr>og_drafts_window := False\<rparr>"
| "handle_queue_request env problem QueueOutbox QClosed g = g\<lparr>og_outbox_window := False\<rparr>"

section \<open>Requests of a compose window\<close>

datatype compose_request = RequestSend compose_state | RequestSaveDraft compose_state bool
  | RequestDiscard | RequestClosed

definition handle_compose_request :: "outgoing_env \<Rightarrow> compose_id \<Rightarrow> compose_request \<Rightarrow> outgoing \<Rightarrow> outgoing" where
  "handle_compose_request env i request g =
     (case request of
        RequestSend state \<Rightarrow> send_message env i state g
      | RequestSaveDraft state explicit \<Rightarrow> save_draft i state explicit g
      | RequestDiscard \<Rightarrow> discard_message i g
      | RequestClosed \<Rightarrow> compose_closed i g)"

end
