(* ===== verification/Db.thy ===== *)
theory Db
  imports Protocol "HOL-Library.AList"
begin

text \<open>
  The local mail cache, \<open>crates/esmail/src/db.rs\<close> and its reader \<open>db/cached.rs\<close>: the tables of
  the SQLite file, what each statement does to them, and the actor that runs one command after
  the other.  A table with a primary key is an association list in row order (an upsert keeps
  the row's place); \<open>messages_fts\<close>, which has no key, is a list of rows.  SQLite itself, its FTS5
  matching and ranking, serde's JSON and base64 are the argument \<open>env\<close>; storage failures (a full
  disk) are not modelled, the errors the statements themselves give are.
\<close>

section \<open>Tables\<close>

type_synonym mailbox_key = "str \<times> str"
type_synonym message_key = "str \<times> str \<times> u32"

record message_row =
  ms_subject :: str
  ms_from :: str
  ms_to :: str
  ms_date :: str
  ms_message_id :: str
  ms_size :: int
  ms_flags :: str

record body_row =
  bd_body :: str
  bd_attachments :: str
  bd_cached_at :: int

record fts_row =
  ft_key :: message_key
  ft_subject :: str
  ft_from :: str
  ft_to :: str
  ft_body :: str

record outbox_row =
  ob_id :: int
  ob_account_id :: str
  ob_compose_json :: str
  ob_created_at :: int
  ob_attempts :: int
  ob_next_attempt_at :: int
  ob_last_error :: "str option"

record draft_row =
  dr_id :: int
  dr_account_id :: "str option"
  dr_compose_json :: str
  dr_updated_at :: int

record db =
  db_mailboxes :: "(mailbox_key \<times> (u32 \<times> u32)) list"
  db_messages :: "(message_key \<times> message_row) list"
  db_bodies :: "(message_key \<times> body_row) list"
  db_fts :: "fts_row list"
  db_outbox :: "outbox_row list"
  db_outbox_seq :: int
  db_drafts :: "draft_row list"
  db_drafts_seq :: int

definition db_empty :: db where
  "db_empty = \<lparr>db_mailboxes = [], db_messages = [], db_bodies = [], db_fts = [], db_outbox = [],
     db_outbox_seq = 0, db_drafts = [], db_drafts_seq = 0\<rparr>"

text \<open>What the code calls: serde's JSON of a message and of cached attachments, base64, the rows of
  an FTS5 table that match an expression (best rank first), date parsing, and the text of
  rusqlite's error for a query without a row.\<close>

record db_env =
  de_json :: "compose_state \<Rightarrow> str"
  de_of_json :: "str \<Rightarrow> str + compose_state"
  de_attachments_json :: "(str \<times> str \<times> str) list \<Rightarrow> str"
  de_of_attachments_json :: "str \<Rightarrow> (str \<times> str \<times> str) list option"
  de_base64 :: "byte list \<Rightarrow> str"
  de_of_base64 :: "str \<Rightarrow> byte list option"
  de_fts_match :: "str \<Rightarrow> fts_row list \<Rightarrow> fts_row list"
  de_naive_date :: "str \<Rightarrow> int option"
  de_dateparse :: "str \<Rightarrow> int option"
  de_no_rows :: str

definition MAX_CACHED_BODIES :: nat where "MAX_CACHED_BODIES = 2000"

section \<open>Columns\<close>

definition parse_flags_column :: "str \<Rightarrow> str list" where
  "parse_flags_column s = split_whitespace s"

definition flags_column :: "mail_header \<Rightarrow> str" where
  "flags_column header = join (lit '' '') (mh_flags header)"

definition attachments_column :: "db_env \<Rightarrow> attachment list \<Rightarrow> str" where
  "attachments_column env attachments =
     de_attachments_json env (map (\<lambda>a. (at_filename a, at_mime_type a, de_base64 env (at_data a))) attachments)"

definition parse_attachments_column :: "db_env \<Rightarrow> str \<Rightarrow> attachment list" where
  "parse_attachments_column env s =
     (case de_of_attachments_json env s of
        None \<Rightarrow> []
      | Some cached \<Rightarrow>
          filter_map (\<lambda>(filename, mime_type, content). case de_of_base64 env content of
             None \<Rightarrow> None
           | Some d \<Rightarrow> Some \<lparr>at_filename = filename, at_mime_type = mime_type, at_data = d\<rparr>) cached)"

section \<open>Messages\<close>

definition message_row_of :: "int \<Rightarrow> mail_header \<Rightarrow> message_row" where
  "message_row_of size1 header =
     \<lparr>ms_subject = mh_subject header, ms_from = mh_from header, ms_to = mh_to header, ms_date = mh_date header,
      ms_message_id = mh_message_id header, ms_size = size1, ms_flags = flags_column header\<rparr>"

definition header_of_row :: "u32 \<Rightarrow> message_row \<Rightarrow> mail_header" where
  "header_of_row uid row =
     \<lparr>mh_uid = uid, mh_subject = ms_subject row, mh_from = ms_from row, mh_to = ms_to row, mh_date = ms_date row,
      mh_message_id = ms_message_id row, mh_flags = parse_flags_column (ms_flags row)\<rparr>"

definition index_header :: "str \<Rightarrow> str \<Rightarrow> db \<Rightarrow> mail_header \<Rightarrow> db" where
  "index_header account mailbox d header =
     (let key = (account, mailbox, mh_uid header);
          size1 = (case map_of (db_messages d) key of None \<Rightarrow> 0 | Some row \<Rightarrow> ms_size row)
      in d\<lparr>db_messages := AList.update key (message_row_of size1 header) (db_messages d)\<rparr>)"

definition index_headers :: "str \<Rightarrow> str \<Rightarrow> mail_header list \<Rightarrow> db \<Rightarrow> db" where
  "index_headers account mailbox headers d = foldl (index_header account mailbox) d headers"

definition fts_row_of :: "str \<Rightarrow> str \<Rightarrow> mail_header \<Rightarrow> str \<Rightarrow> fts_row" where
  "fts_row_of account mailbox header body =
     \<lparr>ft_key = (account, mailbox, mh_uid header), ft_subject = mh_subject header, ft_from = mh_from header,
      ft_to = mh_to header, ft_body = body\<rparr>"

definition evict_lru_bodies :: "nat \<Rightarrow> db \<Rightarrow> db" where
  "evict_lru_bodies max_rows d =
     (let victims = take (length (db_bodies d) - max_rows) (sort_key (\<lambda>(_, row). bd_cached_at row) (db_bodies d))
      in d\<lparr>db_bodies := filter (\<lambda>(key, _). key \<notin> fst ` set victims) (db_bodies d)\<rparr>)"

definition index_mail ::
  "db_env \<Rightarrow> int \<Rightarrow> str \<Rightarrow> str \<Rightarrow> mail_header \<Rightarrow> str \<Rightarrow> attachment list \<Rightarrow> db \<Rightarrow> db" where
  "index_mail env now account mailbox header body attachments d =
     (let key = (account, mailbox, mh_uid header);
          d = d\<lparr>db_messages :=
                AList.update key (message_row_of (int (length (utf8 body))) header) (db_messages d)\<rparr>;
          d = d\<lparr>db_bodies := AList.update key
                \<lparr>bd_body = body, bd_attachments = attachments_column env attachments, bd_cached_at = now\<rparr> (db_bodies d)\<rparr>;
          d = d\<lparr>db_fts := filter (\<lambda>row. ft_key row \<noteq> key) (db_fts d)\<rparr>;
          d = d\<lparr>db_fts := db_fts d @ [fts_row_of account mailbox header body]\<rparr>
      in evict_lru_bodies MAX_CACHED_BODIES d)"

definition index_header_searchable :: "str \<Rightarrow> str \<Rightarrow> db \<Rightarrow> mail_header \<Rightarrow> db" where
  "index_header_searchable account mailbox d header =
     (let known = map_of (db_messages d) (account, mailbox, mh_uid header) \<noteq> None;
          d = index_headers account mailbox [header] d
      in if known then d else d\<lparr>db_fts := db_fts d @ [fts_row_of account mailbox header []]\<rparr>)"

definition index_headers_searchable :: "str \<Rightarrow> str \<Rightarrow> mail_header list \<Rightarrow> db \<Rightarrow> db" where
  "index_headers_searchable account mailbox headers d = foldl (index_header_searchable account mailbox) d headers"

definition update_flags :: "str \<Rightarrow> str \<Rightarrow> u32 \<Rightarrow> str list \<Rightarrow> db \<Rightarrow> db" where
  "update_flags account mailbox uid flags d =
     d\<lparr>db_messages := map (\<lambda>(key, row).
        if key = (account, mailbox, uid) then (key, row\<lparr>ms_flags := join (lit '' '') flags\<rparr>) else (key, row)) (db_messages d)\<rparr>"

definition remove_cached_account :: "str \<Rightarrow> db \<Rightarrow> db" where
  "remove_cached_account account d =
     d\<lparr>db_messages := filter (\<lambda>((a, _, _), _). a \<noteq> account) (db_messages d),
       db_bodies := filter (\<lambda>((a, _, _), _). a \<noteq> account) (db_bodies d),
       db_fts := filter (\<lambda>row. fst (ft_key row) \<noteq> account) (db_fts d),
       db_mailboxes := filter (\<lambda>((a, _), _). a \<noteq> account) (db_mailboxes d)\<rparr>"

definition remove_message :: "str \<Rightarrow> str \<Rightarrow> u32 \<Rightarrow> db \<Rightarrow> db" where
  "remove_message account mailbox uid d =
     (let key = (account, mailbox, uid)
      in d\<lparr>db_messages := AList.delete key (db_messages d), db_bodies := AList.delete key (db_bodies d),
           db_fts := filter (\<lambda>row. ft_key row \<noteq> key) (db_fts d)\<rparr>)"

definition fetch_mail :: "db_env \<Rightarrow> str \<Rightarrow> str \<Rightarrow> u32 \<Rightarrow> db \<Rightarrow> str + mail_header \<times> str \<times> attachment list" where
  "fetch_mail env account mailbox uid d =
     (case (map_of (db_messages d) (account, mailbox, uid), map_of (db_bodies d) (account, mailbox, uid)) of
        (Some row, Some body) \<Rightarrow>
          Inr (header_of_row uid row, bd_body body, parse_attachments_column env (bd_attachments body))
      | _ \<Rightarrow> Inl (de_no_rows env))"

section \<open>Search\<close>

definition in_scope :: "str option \<Rightarrow> str option \<Rightarrow> message_key \<Rightarrow> bool" where
  "in_scope account mailbox = (\<lambda>(a, m, _).
     (account = None \<or> account = Some a) \<and> (mailbox = None \<or> mailbox = Some m))"

definition hit_of :: "message_key \<Rightarrow> message_row \<Rightarrow> search_hit" where
  "hit_of key row =
     \<lparr>sh_account_id = fst key, sh_mailbox = fst (snd key), sh_header = header_of_row (snd (snd key)) row\<rparr>"

text \<open>\<open>sort_by_key\<close> with \<open>Reverse\<close> of an optional timestamp: newest first, no timestamp last.\<close>

definition newest_key :: "int option \<Rightarrow> int \<times> int" where
  "newest_key ts = (case ts of Some t \<Rightarrow> (0, - t) | None \<Rightarrow> (1, 0))"

definition search_cache :: "db_env \<Rightarrow> str option \<Rightarrow> parsed_query \<Rightarrow> str option \<Rightarrow> db \<Rightarrow> search_hit list" where
  "search_cache env account query mailbox d =
     (let fts_match = to_fts_match query;
          filters = message_filters_of (de_naive_date env) query;
          matching = (\<lambda>hit. filters_match (de_dateparse env) filters (mh_date (sh_header hit)) (is_seen (sh_header hit)))
      in case fts_match of
           Some expr \<Rightarrow>
             filter matching
               (filter_map (\<lambda>f. map_option (hit_of (ft_key f)) (map_of (db_messages d) (ft_key f)))
                 (filter (\<lambda>f. in_scope account mailbox (ft_key f)) (de_fts_match env expr (db_fts d))))
         | None \<Rightarrow>
             if query_is_empty query then []
             else sort_key (\<lambda>hit. newest_key (message_timestamp (de_dateparse env) (mh_date (sh_header hit))))
               (filter matching (map (\<lambda>(key, row). hit_of key row)
                 (filter (\<lambda>(key, _). in_scope account mailbox key) (db_messages d)))))"

section \<open>Incremental sync\<close>

definition sync_decision :: "(u32 \<times> u32) option \<Rightarrow> u32 \<Rightarrow> u32 \<Rightarrow> sync_plan" where
  "sync_decision previous server_uid_validity server_uid_next =
     (case previous of
        None \<Rightarrow> if server_uid_next \<le> 1 then UpToDate else FetchFrom 1
      | Some (prev_validity, prev_uid_next) \<Rightarrow>
          if prev_validity \<noteq> server_uid_validity then Resync
          else if server_uid_next > prev_uid_next then FetchFrom prev_uid_next
          else UpToDate)"

definition report_mailbox_state :: "str \<Rightarrow> str \<Rightarrow> u32 \<Rightarrow> u32 \<Rightarrow> db \<Rightarrow> sync_plan \<times> db" where
  "report_mailbox_state account mailbox uid_validity uid_next d =
     (let previous = map_of (db_mailboxes d) (account, mailbox);
          plan = sync_decision previous uid_validity uid_next;
          d = (if plan = Resync
            then d\<lparr>db_messages := filter (\<lambda>((a, m, _), _). \<not> (a = account \<and> m = mailbox)) (db_messages d),
                   db_bodies := filter (\<lambda>((a, m, _), _). \<not> (a = account \<and> m = mailbox)) (db_bodies d),
                   db_fts := filter (\<lambda>row. \<not> (fst (ft_key row) = account \<and> fst (snd (ft_key row)) = mailbox)) (db_fts d)\<rparr>
            else d)
      in (plan, d\<lparr>db_mailboxes := AList.update (account, mailbox) (uid_validity, uid_next) (db_mailboxes d)\<rparr>))"

section \<open>The outbox\<close>

definition enqueue_outbox ::
  "db_env \<Rightarrow> int \<Rightarrow> int option \<Rightarrow> str \<Rightarrow> compose_state \<Rightarrow> db \<Rightarrow> int \<times> db" where
  "enqueue_outbox env now row_id account compose d =
     (case row_id of
        Some i \<Rightarrow>
          (i, d\<lparr>db_outbox := map (\<lambda>row. if ob_id row = i
             then row\<lparr>ob_account_id := account, ob_compose_json := de_json env compose, ob_attempts := 0,
                    ob_next_attempt_at := now, ob_last_error := None\<rparr> else row) (db_outbox d)\<rparr>)
      | None \<Rightarrow>
          (let i = db_outbox_seq d + 1
           in (i, d\<lparr>db_outbox_seq := i, db_outbox := db_outbox d @
                [\<lparr>ob_id = i, ob_account_id = account, ob_compose_json = de_json env compose, ob_created_at = now,
                  ob_attempts = 0, ob_next_attempt_at = now, ob_last_error = None\<rparr>]\<rparr>)))"

definition row_to_outbox_item :: "db_env \<Rightarrow> outbox_row \<Rightarrow> str + outbox_item" where
  "row_to_outbox_item env row =
     (case de_of_json env (ob_compose_json row) of
        Inl e \<Rightarrow> Inl e
      | Inr compose \<Rightarrow> Inr \<lparr>oi_id = ob_id row, oi_account_id = ob_account_id row, oi_compose = compose,
            oi_attempts = ob_attempts row, oi_last_error = ob_last_error row\<rparr>)"

text \<open>\<open>collect\<close> of fallible rows: the first error, or all of them.\<close>

fun collect_rows :: "('a \<Rightarrow> 'e + 'b) \<Rightarrow> 'a list \<Rightarrow> 'e + 'b list" where
  "collect_rows f [] = Inr []"
| "collect_rows f (x # xs) =
     (case f x of
        Inl e \<Rightarrow> Inl e
      | Inr y \<Rightarrow> (case collect_rows f xs of Inl e \<Rightarrow> Inl e | Inr ys \<Rightarrow> Inr (y # ys)))"

definition due_outbox :: "db_env \<Rightarrow> int \<Rightarrow> db \<Rightarrow> str + outbox_item list" where
  "due_outbox env now d =
     collect_rows (row_to_outbox_item env)
       (sort_key ob_id (filter (\<lambda>row. ob_next_attempt_at row \<le> now) (db_outbox d)))"

definition list_outbox :: "db_env \<Rightarrow> db \<Rightarrow> str + outbox_item list" where
  "list_outbox env d = collect_rows (row_to_outbox_item env) (sort_key ob_id (db_outbox d))"

definition delete_outbox :: "int \<Rightarrow> db \<Rightarrow> db" where
  "delete_outbox i d = d\<lparr>db_outbox := filter (\<lambda>row. ob_id row \<noteq> i) (db_outbox d)\<rparr>"

definition backoff_seconds :: "int \<Rightarrow> int" where
  "backoff_seconds attempts = (let e = nat (min 7 (max 0 (attempts - 1))) in min (30 * 2 ^ e) 3600)"

definition mark_outbox_failed :: "db_env \<Rightarrow> int \<Rightarrow> str \<Rightarrow> int \<Rightarrow> db \<Rightarrow> str + db" where
  "mark_outbox_failed env i error now d =
     (case find (\<lambda>row. ob_id row = i) (db_outbox d) of
        None \<Rightarrow> Inl (de_no_rows env)
      | Some found \<Rightarrow>
          (let attempts = ob_attempts found + 1
           in Inr (d\<lparr>db_outbox := map (\<lambda>row. if ob_id row = i
             then row\<lparr>ob_attempts := attempts, ob_last_error := Some error,
                    ob_next_attempt_at := now + backoff_seconds attempts\<rparr> else row) (db_outbox d)\<rparr>)))"

section \<open>Drafts\<close>

definition save_draft_row ::
  "db_env \<Rightarrow> int \<Rightarrow> int option \<Rightarrow> str option \<Rightarrow> compose_state \<Rightarrow> db \<Rightarrow> int \<times> db" where
  "save_draft_row env now row_id account compose d =
     (case row_id of
        Some i \<Rightarrow>
          (i, d\<lparr>db_drafts := map (\<lambda>row. if dr_id row = i
             then row\<lparr>dr_account_id := account, dr_compose_json := de_json env compose, dr_updated_at := now\<rparr>
             else row) (db_drafts d)\<rparr>)
      | None \<Rightarrow>
          (let i = db_drafts_seq d + 1
           in (i, d\<lparr>db_drafts_seq := i, db_drafts := db_drafts d @
                [\<lparr>dr_id = i, dr_account_id = account, dr_compose_json = de_json env compose, dr_updated_at = now\<rparr>]\<rparr>)))"

definition list_drafts :: "db_env \<Rightarrow> db \<Rightarrow> str + draft_summary list" where
  "list_drafts env d =
     collect_rows (\<lambda>row. case de_of_json env (dr_compose_json row) of
         Inl e \<Rightarrow> Inl e
       | Inr compose \<Rightarrow> Inr \<lparr>ds_id = dr_id row, ds_subject = cs_subject compose, ds_to = cs_to compose,
             ds_updated_at = dr_updated_at row\<rparr>)
       (sort_key (\<lambda>row. - dr_updated_at row) (db_drafts d))"

definition load_draft :: "db_env \<Rightarrow> int \<Rightarrow> db \<Rightarrow> str + compose_state" where
  "load_draft env i d =
     (case find (\<lambda>row. dr_id row = i) (db_drafts d) of
        None \<Rightarrow> Inl (de_no_rows env)
      | Some row \<Rightarrow> de_of_json env (dr_compose_json row))"

definition delete_draft :: "int \<Rightarrow> db \<Rightarrow> db" where
  "delete_draft i d = d\<lparr>db_drafts := filter (\<lambda>row. dr_id row \<noteq> i) (db_drafts d)\<rparr>"

section \<open>The actor\<close>

text \<open>One command, at the time \<open>now\<close>: the events it answers with, and the cache after it.\<close>

fun db_step :: "db_env \<Rightarrow> int \<Rightarrow> db_command \<Rightarrow> db \<Rightarrow> db_event list \<times> db" where
  "db_step env now (IndexMail account mailbox header body attachments) d =
     ([], index_mail env now account mailbox header body attachments d)"
| "db_step env now (IndexHeaders account mailbox headers) d = ([], index_headers account mailbox headers d)"
| "db_step env now (IndexHeadersSearchable account mailbox headers) d =
     ([], index_headers_searchable account mailbox headers d)"
| "db_step env now (Search account query mailbox) d =
     ([SearchResult (search_cache env account query mailbox d)], d)"
| "db_step env now (FetchMail account mailbox uid) d =
     ([case fetch_mail env account mailbox uid d of
         Inr (header, body, attachments) \<Rightarrow> MailFetched header body attachments
       | Inl e \<Rightarrow> MailFetchFailed uid e], d)"
| "db_step env now (ReportMailboxState account mailbox uid_validity uid_next) d =
     (let (plan, d) = report_mailbox_state account mailbox uid_validity uid_next d
      in ([SyncPlan account mailbox plan], d))"
| "db_step env now (UpdateFlags account mailbox uid flags) d = ([], update_flags account mailbox uid flags d)"
| "db_step env now (RemoveMessage account mailbox uid) d = ([], remove_message account mailbox uid d)"
| "db_step env now (RemoveAccount account) d = ([], remove_cached_account account d)"
| "db_step env now (EnqueueOutbox row_id compose_id account compose) d =
     (let (i, d) = enqueue_outbox env now row_id account compose d in ([OutboxEnqueued i compose_id], d))"
| "db_step env now DueOutbox d =
     ([case due_outbox env now d of Inr items \<Rightarrow> OutboxDue items | Inl e \<Rightarrow> DbError e], d)"
| "db_step env now ListOutbox d =
     ([case list_outbox env d of Inr items \<Rightarrow> OutboxList items | Inl e \<Rightarrow> DbError e], d)"
| "db_step env now (MarkOutboxSent i) d = ([], delete_outbox i d)"
| "db_step env now (MarkOutboxFailed i error) d =
     (case mark_outbox_failed env i error now d of Inr d \<Rightarrow> ([], d) | Inl e \<Rightarrow> ([DbError e], d))"
| "db_step env now (DeleteOutbox i) d = ([], delete_outbox i d)"
| "db_step env now (SaveDraft row_id compose_id account compose) d =
     (let (i, d) = save_draft_row env now row_id account compose d in ([DraftSaved i compose_id], d))"
| "db_step env now ListDrafts d =
     ([case list_drafts env d of Inr items \<Rightarrow> DraftList items | Inl e \<Rightarrow> DbError e], d)"
| "db_step env now (LoadDraft i) d =
     ([case load_draft env i d of Inr compose \<Rightarrow> DraftLoaded i compose | Inl e \<Rightarrow> DbError e], d)"
| "db_step env now (DeleteDraft i) d = ([], delete_draft i d)"

text \<open>The commands of a queue, each with the time it is run at.\<close>

fun db_run :: "db_env \<Rightarrow> (int \<times> db_command) list \<Rightarrow> db \<Rightarrow> db_event list \<times> db" where
  "db_run env [] d = ([], d)"
| "db_run env ((now, cmd) # cmds) d =
     (let (events, d) = db_step env now cmd d; (later, d) = db_run env cmds d in (events @ later, d))"

section \<open>The reader\<close>

definition cached_mailboxes :: "str \<Rightarrow> db \<Rightarrow> str list" where
  "cached_mailboxes account d =
     sort (remdups (map (\<lambda>((_, m, _), _). m) (filter (\<lambda>((a, _, _), _). a = account) (db_messages d))))"

definition newest_cached :: "str \<Rightarrow> str \<Rightarrow> nat \<Rightarrow> db \<Rightarrow> mail_header list" where
  "newest_cached account mailbox limit d =
     take limit (map (\<lambda>((_, _, uid), row). header_of_row uid row)
       (sort_key (\<lambda>((_, _, uid), _). - uint uid)
         (filter (\<lambda>((a, m, _), _). a = account \<and> m = mailbox) (db_messages d))))"

end
