(* ===== verification/DbFacts.thy ===== *)
theory DbFacts
  imports Db "HOL-Library.Multiset"
begin

text \<open>
  What the cache of \<open>Db\<close> guarantees: the invariant every command keeps, what a fetch, a search
  and the reader find after messages were indexed, which plans the incremental sync makes, and
  when a queued message becomes due again.
\<close>

section \<open>The invariant of the tables\<close>

definition db_ok :: "db \<Rightarrow> bool" where
  "db_ok d \<longleftrightarrow>
     distinct (map fst (db_mailboxes d)) \<and> distinct (map fst (db_messages d)) \<and>
     distinct (map fst (db_bodies d)) \<and> distinct (map ft_key (db_fts d)) \<and>
     fst ` set (db_bodies d) \<subseteq> fst ` set (db_messages d) \<and> ft_key ` set (db_fts d) \<subseteq> fst ` set (db_messages d) \<and>
     length (db_bodies d) \<le> MAX_CACHED_BODIES \<and>
     distinct (map ob_id (db_outbox d)) \<and> (\<forall>row\<in>set (db_outbox d). 0 < ob_id row \<and> ob_id row \<le> db_outbox_seq d) \<and>
     distinct (map dr_id (db_drafts d)) \<and> (\<forall>row\<in>set (db_drafts d). 0 < dr_id row \<and> dr_id row \<le> db_drafts_seq d) \<and>
     0 \<le> db_outbox_seq d \<and> 0 \<le> db_drafts_seq d"

named_theorems table_simps \<open>keys and lookups of the tables\<close>

lemma fst_set_update [table_simps]: "fst ` set (AList.update k v t) = insert k (fst ` set t)"
  by (simp add: dom_update [unfolded dom_map_of_conv_image_fst])

lemma fst_set_delete [table_simps]: "fst ` set (AList.delete k t) = fst ` set t - {k}"
  by (induction t) auto

lemma distinct_keys [table_simps]:
  "distinct (map fst t) \<Longrightarrow> distinct (map fst (AList.update k v t))"
  "distinct (map fst t) \<Longrightarrow> distinct (map fst (AList.delete k t))"
  by (simp_all add: distinct_update distinct_delete)

lemma distinct_map_fst_filter [table_simps]: "distinct (map f t) \<Longrightarrow> distinct (map f (filter P t))"
  by (simp add: distinct_map_filter)

lemma length_update_le: "length (AList.update k v t) \<le> Suc (length t)"
  by (induction t) auto

text \<open>Eviction drops exactly the rows it picked, and no more than are in excess.\<close>

definition victims :: "nat \<Rightarrow> db \<Rightarrow> (message_key \<times> body_row) list" where
  "victims n d = take (length (db_bodies d) - n) (sort_key (\<lambda>(_, row). bd_cached_at row) (db_bodies d))"

lemma evict_bodies:
  assumes "distinct (map fst (db_bodies d))"
  shows "set (victims n d) \<subseteq> set (db_bodies d)" "distinct (victims n d)"
    and "set (db_bodies (evict_lru_bodies n d)) = set (db_bodies d) - set (victims n d)"
    and "length (db_bodies (evict_lru_bodies n d)) = min n (length (db_bodies d))"
proof -
  let ?t = "db_bodies d" and ?v = "victims n d"
  from assms have dist: "distinct ?t" and inj: "inj_on fst (set ?t)" by (simp_all add: distinct_map)
  show sub: "set ?v \<subseteq> set ?t" using set_take_subset by (fastforce simp: victims_def)
  show dv: "distinct ?v" using dist by (simp add: victims_def distinct_sort)
  have "fst row \<in> fst ` set ?v \<longleftrightarrow> row \<in> set ?v" if "row \<in> set ?t" for row
    using inj that sub by (auto dest: inj_onD)
  then have "filter (\<lambda>row. fst row \<notin> fst ` set ?v) ?t = filter (\<lambda>row. row \<notin> set ?v) ?t"
    by (intro filter_cong) simp_all
  then have same: "db_bodies (evict_lru_bodies n d) = filter (\<lambda>row. row \<notin> set ?v) ?t"
    by (simp add: evict_lru_bodies_def Let_def victims_def split_beta')
  then show set: "set (db_bodies (evict_lru_bodies n d)) = set ?t - set ?v" by auto
  have "length (db_bodies (evict_lru_bodies n d)) = card (set ?t - set ?v)"
    unfolding set [symmetric] same using dist by (simp only: distinct_card distinct_filter)
  also have "\<dots> = length ?t - length ?v"
    using sub dist dv by (simp add: card_Diff_subset distinct_card)
  finally show "length (db_bodies (evict_lru_bodies n d)) = min n (length ?t)"
    by (simp add: victims_def)
qed

lemma distinct_evict: "distinct (map fst (db_bodies d)) \<Longrightarrow> distinct (map fst (db_bodies (evict_lru_bodies n d)))"
  by (simp add: evict_lru_bodies_def Let_def distinct_map_filter)

lemma evict_fields [simp]:
  "db_mailboxes (evict_lru_bodies n d) = db_mailboxes d" "db_messages (evict_lru_bodies n d) = db_messages d"
  "db_fts (evict_lru_bodies n d) = db_fts d" "db_outbox (evict_lru_bodies n d) = db_outbox d"
  "db_outbox_seq (evict_lru_bodies n d) = db_outbox_seq d" "db_drafts (evict_lru_bodies n d) = db_drafts d"
  "db_drafts_seq (evict_lru_bodies n d) = db_drafts_seq d"
  by (simp_all add: evict_lru_bodies_def Let_def)

section \<open>Every command keeps the invariant\<close>

lemma ok_index_header: "db_ok d \<Longrightarrow> db_ok (index_header a m d h)"
  by (auto simp: db_ok_def index_header_def Let_def table_simps)

lemma ok_index_headers: "db_ok d \<Longrightarrow> db_ok (index_headers a m hs d)"
  by (induction hs arbitrary: d) (simp_all add: index_headers_def ok_index_header)

lemma map_of_None_keys: "map_of t k = None \<longleftrightarrow> k \<notin> fst ` set t"
  by (simp add: map_of_eq_None_iff)

lemma ok_index_header_searchable: "db_ok d \<Longrightarrow> db_ok (index_header_searchable a m d h)"
  by (auto simp: db_ok_def index_header_searchable_def index_headers_def index_header_def Let_def table_simps
      fts_row_of_def map_of_None_keys)

lemma ok_index_headers_searchable: "db_ok d \<Longrightarrow> db_ok (index_headers_searchable a m hs d)"
  by (induction hs arbitrary: d) (simp_all add: index_headers_searchable_def ok_index_header_searchable)

lemma ok_index_mail: "db_ok d \<Longrightarrow> db_ok (index_mail env now a m h body atts d)"
proof -
  assume ok: "db_ok d"
  let ?key = "(a, m, mh_uid h)"
  let ?d = "d\<lparr>db_messages := AList.update ?key (message_row_of (int (length (utf8 body))) h) (db_messages d),
    db_bodies := AList.update ?key \<lparr>bd_body = body, bd_attachments = attachments_column env atts, bd_cached_at = now\<rparr> (db_bodies d),
    db_fts := filter (\<lambda>row. ft_key row \<noteq> ?key) (db_fts d) @ [fts_row_of a m h body]\<rparr>"
  have dist: "distinct (map fst (db_bodies ?d))" using ok by (simp add: db_ok_def table_simps)
  have "fst ` set (db_bodies (evict_lru_bodies MAX_CACHED_BODIES ?d)) \<subseteq> fst ` set (db_bodies ?d)"
    using evict_bodies(3) [OF dist, of MAX_CACHED_BODIES] by auto
  moreover have "fst ` set (db_bodies ?d) \<subseteq> fst ` set (db_messages ?d)" "ft_key ` set (db_fts ?d) \<subseteq> fst ` set (db_messages ?d)"
    using ok by (auto simp: db_ok_def table_simps fts_row_of_def)
  ultimately have "db_ok (evict_lru_bodies MAX_CACHED_BODIES ?d)"
    using ok evict_bodies(4) [OF dist, of MAX_CACHED_BODIES] distinct_evict [OF dist, of MAX_CACHED_BODIES]
    by (auto simp: db_ok_def table_simps fts_row_of_def)
  then show ?thesis by (simp add: index_mail_def Let_def)
qed

lemma fst_map_filter_subset: "fst ` set (filter P t) \<subseteq> fst ` set t"
  by auto

lemma map_case_fst: "map fst (map (\<lambda>(key, row). if Q key then (key, f row) else (key, row)) t) = map fst t"
  by (induction t) auto

lemma ok_update_flags: "db_ok d \<Longrightarrow> db_ok (update_flags a m uid flags d)"
proof -
  assume ok: "db_ok d"
  have 1: "map fst (db_messages (update_flags a m uid flags d)) = map fst (db_messages d)"
    by (simp add: update_flags_def map_case_fst del: map_map)
  then have "fst ` set (db_messages (update_flags a m uid flags d)) = fst ` set (db_messages d)"
    by (metis set_map)
  with ok 1 show ?thesis unfolding db_ok_def by (simp add: update_flags_def del: map_map)
qed

lemma keys_filter: "f ` set (filter (\<lambda>row. P (f row)) t) = {k \<in> f ` set t. P k}"
  by auto

text \<open>A filter on keys of the cached tables keeps the invariant.\<close>

lemma ok_filter_keys:
  assumes "db_ok d"
  shows "db_ok (d\<lparr>db_messages := filter (\<lambda>row. P (fst row)) (db_messages d),
    db_bodies := filter (\<lambda>row. P (fst row)) (db_bodies d), db_fts := filter (\<lambda>row. P (ft_key row)) (db_fts d)\<rparr>)"
proof -
  have "fst ` set (filter (\<lambda>row. P (fst row)) (db_bodies d)) \<subseteq> fst ` set (filter (\<lambda>row. P (fst row)) (db_messages d))"
    "ft_key ` set (filter (\<lambda>row. P (ft_key row)) (db_fts d)) \<subseteq> fst ` set (filter (\<lambda>row. P (fst row)) (db_messages d))"
    using assms unfolding keys_filter db_ok_def by blast+
  moreover have "length (filter (\<lambda>row. P (fst row)) (db_bodies d)) \<le> MAX_CACHED_BODIES"
    using assms by (intro order.trans [OF length_filter_le]) (simp add: db_ok_def)
  ultimately show ?thesis using assms by (simp add: db_ok_def table_simps)
qed

lemma ok_mailboxes: "db_ok d \<Longrightarrow> distinct (map fst t) \<Longrightarrow> db_ok (d\<lparr>db_mailboxes := t\<rparr>)"
  by (simp add: db_ok_def)

lemma ok_remove_account: "db_ok d \<Longrightarrow> db_ok (remove_cached_account a d)"
  using ok_mailboxes [OF ok_filter_keys [of d "\<lambda>key. fst key \<noteq> a"], of "filter (\<lambda>((a', _), _). a' \<noteq> a) (db_mailboxes d)"]
  by (simp add: remove_cached_account_def split_beta' table_simps db_ok_def)

lemma delete_filter: "AList.delete k t = filter (\<lambda>row. fst row \<noteq> k) t"
  by (induction t) auto

lemma ok_remove_message: "db_ok d \<Longrightarrow> db_ok (remove_message a m uid d)"
  using ok_filter_keys [of d "\<lambda>key. key \<noteq> (a, m, uid)"]
  by (simp add: remove_message_def Let_def delete_filter)

lemma ok_report: "db_ok d \<Longrightarrow> db_ok (snd (report_mailbox_state a m v n d))"
proof -
  assume ok: "db_ok d"
  let ?boxes = "AList.update (a, m) (v, n) (db_mailboxes d)"
  have boxes: "distinct (map fst ?boxes)" using ok by (simp add: db_ok_def table_simps)
  note filtered = ok_mailboxes [OF ok_filter_keys [OF ok, of "\<lambda>(a', m', _). \<not> (a' = a \<and> m' = m)"] boxes]
  show ?thesis
    using ok_mailboxes [OF ok boxes] filtered
    by (simp add: report_mailbox_state_def Let_def split_beta')
qed

lemma ok_outbox_map:
  assumes "db_ok d" "\<And>row. ob_id (f row) = ob_id row"
  shows "db_ok (d\<lparr>db_outbox := map f (db_outbox d)\<rparr>)"
  using assms by (simp add: db_ok_def comp_def)

lemma ok_drafts_map:
  assumes "db_ok d" "\<And>row. dr_id (f row) = dr_id row"
  shows "db_ok (d\<lparr>db_drafts := map f (db_drafts d)\<rparr>)"
  using assms by (simp add: db_ok_def comp_def)

lemma ok_enqueue: "db_ok d \<Longrightarrow> db_ok (snd (enqueue_outbox env now i a c d))"
proof (cases i)
  case None
  assume "db_ok d"
  with None show ?thesis by (auto simp: enqueue_outbox_def Let_def db_ok_def)
next
  case (Some k)
  assume "db_ok d"
  with Some show ?thesis unfolding enqueue_outbox_def by (auto intro: ok_outbox_map)
qed

lemma ok_save_draft: "db_ok d \<Longrightarrow> db_ok (snd (save_draft_row env now i a c d))"
proof (cases i)
  case None
  assume "db_ok d"
  with None show ?thesis by (auto simp: save_draft_row_def Let_def db_ok_def)
next
  case (Some k)
  assume "db_ok d"
  with Some show ?thesis unfolding save_draft_row_def by (auto intro: ok_drafts_map)
qed

lemma ok_step: "db_ok d \<Longrightarrow> db_ok (snd (db_step env now cmd d))"
proof (cases cmd)
  case (ReportMailboxState a m v n)
  assume "db_ok d"
  then have "db_ok (snd (report_mailbox_state a m v n d))" by (rule ok_report)
  with ReportMailboxState show ?thesis by (simp add: split_beta)
next
  case (EnqueueOutbox i c a s)
  assume "db_ok d"
  then have "db_ok (snd (enqueue_outbox env now i a s d))" by (rule ok_enqueue)
  with EnqueueOutbox show ?thesis by (simp add: split_beta)
next
  case (SaveDraft i c a s)
  assume "db_ok d"
  then have "db_ok (snd (save_draft_row env now i a s d))" by (rule ok_save_draft)
  with SaveDraft show ?thesis by (simp add: split_beta)
next
  case (MarkOutboxFailed i e)
  assume "db_ok d"
  with MarkOutboxFailed show ?thesis
    by (auto simp: mark_outbox_failed_def Let_def intro!: ok_outbox_map split: option.split)
next
  case (MarkOutboxSent i)
  assume "db_ok d"
  with MarkOutboxSent show ?thesis by (simp add: delete_outbox_def db_ok_def table_simps)
next
  case (DeleteOutbox i)
  assume "db_ok d"
  with DeleteOutbox show ?thesis by (simp add: delete_outbox_def db_ok_def table_simps)
next
  case (DeleteDraft i)
  assume "db_ok d"
  with DeleteDraft show ?thesis by (simp add: delete_draft_def db_ok_def table_simps)
qed (simp_all add: ok_index_headers ok_index_headers_searchable ok_index_mail ok_update_flags ok_remove_message ok_remove_account)

text \<open>C7. Whatever commands the cache is given, in every table a key occurs once, a cached body or
  a search row belongs to a cached message (so a message turns up at most once in a search), no
  more than \<open>MAX_CACHED_BODIES\<close> bodies are kept, and outbox and draft rows have distinct ids that
  were handed out before.\<close>

theorem cache_invariant:
  "(let d = snd (db_run env cmds db_empty) in
     distinct (map fst (db_messages d)) \<and> distinct (map fst (db_bodies d)) \<and> distinct (map ft_key (db_fts d)) \<and>
     fst ` set (db_bodies d) \<subseteq> fst ` set (db_messages d) \<and> ft_key ` set (db_fts d) \<subseteq> fst ` set (db_messages d) \<and>
     length (db_bodies d) \<le> MAX_CACHED_BODIES \<and>
     distinct (map ob_id (db_outbox d)) \<and> distinct (map dr_id (db_drafts d)) \<and>
     ob_id ` set (db_outbox d) \<subseteq> {..db_outbox_seq d} \<and> dr_id ` set (db_drafts d) \<subseteq> {..db_drafts_seq d})"
proof -
  have "db_ok d \<Longrightarrow> db_ok (snd (db_run env cmds d))" for d
  proof (induction cmds arbitrary: d)
    case (Cons c cmds)
    obtain now cmd where "c = (now, cmd)" by fastforce
    with Cons ok_step [OF Cons.prems, of env now cmd] show ?case by (simp add: split_beta)
  qed simp
  moreover have "db_ok db_empty" by (simp add: db_ok_def db_empty_def)
  ultimately have "db_ok (snd (db_run env cmds db_empty))" .
  then show ?thesis by (simp add: db_ok_def Let_def image_subset_iff)
qed

section \<open>What is fetched is what was indexed\<close>

lemma split_on_piece: "(\<And>c. c \<in> set a \<Longrightarrow> \<not> P c) \<Longrightarrow> P d \<Longrightarrow> split_on P (a @ d # b) = a # split_on P b"
  by (induction a) (auto split: list.split)

lemma split_whitespace_join:
  "(\<And>f. f \<in> set fs \<Longrightarrow> f \<noteq> [] \<and> (\<forall>c\<in>set f. \<not> is_whitespace c)) \<Longrightarrow>
   split_whitespace (join (lit '' '') fs) = fs"
proof (induction "lit '' ''" fs rule: join.induct)
  case 1
  show ?case by (simp add: split_whitespace_def)
next
  case (2 f)
  then show ?case by (simp add: split_whitespace_def split_on_id)
next
  case (3 f g fs)
  have "split_on is_whitespace (f @ 32 # join (lit '' '') (g # fs)) = f # split_on is_whitespace (join (lit '' '') (g # fs))"
    using 3(2) [of f] by (intro split_on_piece) (simp_all add: is_whitespace_def)
  moreover have "split_whitespace (join (lit '' '') (g # fs)) = g # fs" using 3(2) by (intro 3(1)) auto
  moreover have "f \<noteq> []" using 3(2) by simp
  ultimately show ?case by (simp add: split_whitespace_def lit_def)
qed

lemma distinct_sub_mset: "mset xs \<subseteq># mset ys \<Longrightarrow> distinct ys \<Longrightarrow> distinct xs"
proof -
  assume "mset xs \<subseteq># mset ys" "distinct ys"
  moreover from this obtain zs where "mset ys = mset (xs @ zs)" by (metis mset_append ex_mset subset_mset.add_diff_inverse)
  ultimately have "distinct (xs @ zs)" by (metis mset_eq_imp_distinct_iff)
  then show "distinct xs" by simp
qed

lemma map_of_evict:
  assumes "distinct (map fst (db_bodies d))" "map_of (db_bodies d) key = Some row" "(key, row) \<notin> set (victims n d)"
  shows "map_of (db_bodies (evict_lru_bodies n d)) key = Some row"
  using assms evict_bodies(3) [OF assms(1), of n] distinct_evict [OF assms(1), of n]
  by (auto simp: map_of_eq_Some_iff)

lemma newest_not_victim:
  assumes "distinct (db_bodies d)" "r \<in> set (db_bodies d)" "0 < n"
    and "\<And>r'. r' \<in> set (db_bodies d) \<Longrightarrow> r' \<noteq> r \<Longrightarrow> bd_cached_at (snd r') < bd_cached_at (snd r)"
  shows "r \<notin> set (victims n d)"
proof
  let ?s = "sort_key (\<lambda>(_, row). bd_cached_at row) (db_bodies d)"
  assume "r \<in> set (victims n d)"
  then obtain i where i: "i < length (db_bodies d) - n" "r = ?s ! i"
    by (auto simp: victims_def in_set_conv_nth)
  let ?l = "?s ! (length (db_bodies d) - 1)"
  have l: "length (db_bodies d) - 1 < length ?s" "i < length (db_bodies d) - 1" using i(1) assms(3) by auto
  have "?l \<in> set ?s" using l(1) by (rule nth_mem)
  moreover have "?l \<noteq> r" using i l assms(1) by (simp add: nth_eq_iff_index_eq distinct_sort)
  ultimately have "bd_cached_at (snd ?l) < bd_cached_at (snd r)" using assms(4) by simp
  moreover have "sorted (map (\<lambda>(_, row). bd_cached_at row) ?s)" by simp
  then have "bd_cached_at (snd r) \<le> bd_cached_at (snd ?l)"
    using sorted_nth_mono [of "map (\<lambda>(_, row). bd_cached_at row) ?s" i "length (db_bodies d) - 1"] i l
    by (simp add: split_beta)
  ultimately show False by simp
qed

text \<open>C8. A message indexed with its body is fetched from the cache exactly as it was: header,
  flags, body and attachments, provided it is the most recent body.\<close>

theorem fetch_after_index:
  assumes "db_ok d" and "\<And>row. row \<in> set (db_bodies d) \<Longrightarrow> bd_cached_at (snd row) < now"
    and "\<And>f. f \<in> set (mh_flags header) \<Longrightarrow> f \<noteq> [] \<and> (\<forall>c\<in>set f. \<not> is_whitespace c)"
    and "\<And>cached. de_of_attachments_json env (de_attachments_json env cached) = Some cached"
    and "\<And>content. de_of_base64 env (de_base64 env content) = Some content"
  shows "fst (db_run env [(now, IndexMail account mailbox header body attachments),
      (later, FetchMail account mailbox (mh_uid header))] d) = [MailFetched header body attachments]"
proof -
  let ?key = "(account, mailbox, mh_uid header)"
  let ?row = "\<lparr>bd_body = body, bd_attachments = attachments_column env attachments, bd_cached_at = now\<rparr>"
  let ?d = "d\<lparr>db_messages := AList.update ?key (message_row_of (int (length (utf8 body))) header) (db_messages d),
    db_bodies := AList.update ?key ?row (db_bodies d),
    db_fts := filter (\<lambda>row. ft_key row \<noteq> ?key) (db_fts d) @ [fts_row_of account mailbox header body]\<rparr>"
  have dist: "distinct (map fst (db_bodies ?d))" using assms(1) by (simp add: db_ok_def table_simps)
  have mem: "(?key, ?row) \<in> set (db_bodies ?d)"
    using dist by (simp add: map_of_eq_Some_iff [symmetric] update_conv' del: map_of_eq_Some_iff)
  have older: "bd_cached_at (snd r) < now" if "r \<in> set (db_bodies ?d)" "r \<noteq> (?key, ?row)" for r
  proof -
    obtain k v where r: "r = (k, v)" by fastforce
    with that(1) dist have "map_of (db_bodies ?d) k = Some v" by (simp add: map_of_eq_Some_iff)
    with that(2) r have "map_of (db_bodies d) k = Some v" by (auto simp: update_conv' split: if_splits)
    then have "(k, v) \<in> set (db_bodies d)" by (rule map_of_SomeD)
    with assms(2) r show ?thesis by fastforce
  qed
  have "(?key, ?row) \<notin> set (victims MAX_CACHED_BODIES ?d)"
    using newest_not_victim [OF _ mem, of MAX_CACHED_BODIES] dist older
    by (auto simp: MAX_CACHED_BODIES_def distinct_map)
  then have body: "map_of (db_bodies (evict_lru_bodies MAX_CACHED_BODIES ?d)) ?key = Some ?row"
    using map_of_evict [OF dist] by (simp add: update_conv')
  have flags: "parse_flags_column (flags_column header) = mh_flags header"
    using split_whitespace_join [of "mh_flags header"] assms(3) by (auto simp: parse_flags_column_def flags_column_def)
  have atts: "parse_attachments_column env (attachments_column env attachments) = attachments"
    unfolding parse_attachments_column_def attachments_column_def
    by (simp add: assms(4)) (induction attachments; simp add: assms(5))
  have "index_mail env now account mailbox header body attachments d = evict_lru_bodies MAX_CACHED_BODIES ?d"
    by (simp add: index_mail_def Let_def)
  with body flags atts show ?thesis
    by (simp add: fetch_mail_def update_conv' header_of_row_def message_row_of_def)
qed

text \<open>A simple encoding that stands in for JSON in the examples: each string shifted by one and
  closed by a zero.\<close>

definition demo_encode :: "(str \<times> str \<times> str) list \<Rightarrow> str" where
  "demo_encode cached = concat (map (\<lambda>(f, m, c). map Suc f @ [0] @ map Suc m @ [0] @ map Suc c @ [0]) cached)"

fun demo_triples :: "str list \<Rightarrow> (str \<times> str \<times> str) list option" where
  "demo_triples [f, m] = None"
| "demo_triples (f # m # c # rest) =
     map_option (\<lambda>ts. (map (\<lambda>n. n - 1) f, map (\<lambda>n. n - 1) m, map (\<lambda>n. n - 1) c) # ts) (demo_triples rest)"
| "demo_triples [f] = (if f = [] then Some [] else None)"
| "demo_triples [] = None"

definition demo_env :: db_env where
  "demo_env = \<lparr>de_json = (\<lambda>_. []), de_of_json = (\<lambda>_. Inr compose_default),
     de_attachments_json = demo_encode, de_of_attachments_json = (\<lambda>s. demo_triples (split_on (\<lambda>c. c = 0) s)),
     de_base64 = (\<lambda>c. c), de_of_base64 = Some, de_fts_match = (\<lambda>_ rows. rows), de_naive_date = (\<lambda>_. None),
     de_dateparse = (\<lambda>_. None), de_no_rows = lit ''Query returned no rows''\<rparr>"

lemma demo_decode: "demo_triples (split_on (\<lambda>c. c = 0) (demo_encode cached)) = Some cached"
proof (induction cached)
  case Nil
  show ?case by (simp add: demo_encode_def)
next
  case (Cons t cached)
  obtain f m c where t: "t = (f, m, c)" by (metis prod_cases3)
  have split: "split_on (\<lambda>c. c = 0) (map Suc s @ 0 # r) = map Suc s # split_on (\<lambda>c. c = 0) r" for s r
    by (rule split_on_piece) auto
  have "split_on (\<lambda>c. c = 0) (demo_encode (t # cached)) =
      map Suc f # map Suc m # map Suc c # split_on (\<lambda>c. c = 0) (demo_encode cached)"
    unfolding t by (simp add: demo_encode_def split)
  with Cons t show ?case by (simp add: comp_def)
qed

theorem fetch_after_index_witness:
  "(let header = \<lparr>mh_uid = 7, mh_subject = lit ''Hi'', mh_from = [], mh_to = [], mh_date = [], mh_message_id = [],
        mh_flags = [FLAG_SEEN, FLAG_FLAGGED]\<rparr>; attachments = [\<lparr>at_filename = lit ''a.txt'', at_mime_type = [], at_data = [1, 2]\<rparr>]
    in fst (db_run demo_env [(5, IndexMail (lit ''me'') (lit ''INBOX'') header (lit ''body'') attachments),
         (6, FetchMail (lit ''me'') (lit ''INBOX'') 7)] db_empty) = [MailFetched header (lit ''body'') attachments])"
proof -
  let ?h = "\<lparr>mh_uid = 7 :: u32, mh_subject = lit ''Hi'', mh_from = [], mh_to = [], mh_date = [], mh_message_id = [],
    mh_flags = [FLAG_SEEN, FLAG_FLAGGED]\<rparr>"
  have "fst (db_run demo_env [(5, IndexMail (lit ''me'') (lit ''INBOX'') ?h (lit ''body'') atts),
      (6, FetchMail (lit ''me'') (lit ''INBOX'') (mh_uid ?h))] db_empty) = [MailFetched ?h (lit ''body'') atts]" for atts
    by (rule fetch_after_index)
       (auto simp: db_ok_def db_empty_def demo_env_def demo_decode FLAG_SEEN_def FLAG_FLAGGED_def
          blit_def lit_def is_whitespace_def)
  then show ?thesis by simp
qed

section \<open>Searching\<close>

lemma hit_of_inject: "hit_of k r = hit_of k' r' \<Longrightarrow> k = k'"
  by (cases k; cases k') (auto simp: hit_of_def header_of_row_def)

lemma hit_header [simp]: "sh_header (hit_of key row) = header_of_row (snd (snd key)) row"
  by (simp add: hit_of_def)

lemma header_date [simp]: "mh_date (header_of_row uid row) = ms_date row" "mh_uid (header_of_row uid row) = uid"
  by (simp_all add: header_of_row_def)

lemma distinct_hits: "distinct (map fst t) \<Longrightarrow> distinct (map (\<lambda>(key, row). hit_of key row) t)"
  by (induction t) (force dest: hit_of_inject)+

text \<open>C32. A query of filters only finds exactly the cached messages in scope that pass the filters,
  each once, newest first with undated messages last.\<close>

theorem filter_search_exact:
  assumes "db_ok d" and "is_fts_empty q" and "\<not> query_is_empty q"
  shows "(let hits = search_cache env account q mailbox d in
    (\<forall>hit. hit \<in> set hits \<longleftrightarrow>
      (\<exists>a m uid row. ((a, m, uid), row) \<in> set (db_messages d) \<and> hit = hit_of (a, m, uid) row \<and>
        (account = None \<or> account = Some a) \<and> (mailbox = None \<or> mailbox = Some m) \<and>
        filters_match (de_dateparse env) (message_filters_of (de_naive_date env) q)
          (ms_date row) (is_seen (header_of_row uid row)))) \<and>
    distinct hits \<and>
    sorted (map (\<lambda>hit. newest_key (message_timestamp (de_dateparse env) (mh_date (sh_header hit)))) hits))"
proof -
  let ?P = "\<lambda>hit. filters_match (de_dateparse env) (message_filters_of (de_naive_date env) q)
    (mh_date (sh_header hit)) (is_seen (sh_header hit))"
  let ?all = "map (\<lambda>(key, row). hit_of key row) (filter (\<lambda>(key, _). in_scope account mailbox key) (db_messages d))"
  have hits: "search_cache env account q mailbox d = sort_key (\<lambda>hit. newest_key (message_timestamp (de_dateparse env) (mh_date (sh_header hit))))
      (filter ?P ?all)"
    using assms(2,3) unfolding search_cache_def by (simp add: to_fts_match_def Let_def)
  have "distinct (map fst (filter (\<lambda>(key, _). in_scope account mailbox key) (db_messages d)))"
    using assms(1) by (simp add: db_ok_def distinct_map_filter)
  then have "distinct ?all" by (rule distinct_hits)
  then show ?thesis
    unfolding hits Let_def
    by (auto simp: in_scope_def distinct_sort image_iff split_beta) force+
qed

definition demo_db :: db where
  "demo_db = snd (db_run demo_env
     [(1, IndexHeadersSearchable (lit ''me'') (lit ''INBOX'')
        [\<lparr>mh_uid = 4, mh_subject = lit ''A'', mh_from = [], mh_to = [], mh_date = [], mh_message_id = [], mh_flags = []\<rparr>,
         \<lparr>mh_uid = 5, mh_subject = lit ''B'', mh_from = [], mh_to = [], mh_date = [], mh_message_id = [], mh_flags = [FLAG_SEEN]\<rparr>])]
     db_empty)"

lemma ok_run: "db_ok d \<Longrightarrow> db_ok (snd (db_run env cmds d))"
proof (induction cmds arbitrary: d)
  case (Cons c cmds)
  obtain now cmd where "c = (now, cmd)" by fastforce
  with Cons ok_step [OF Cons.prems, of env now cmd] show ?case by (simp add: split_beta)
qed simp

lemma ok_empty: "db_ok db_empty"
  by (simp add: db_ok_def db_empty_def)

lemma demo_db_ok: "db_ok demo_db"
  unfolding demo_db_def by (rule ok_run [OF ok_empty])

lemma demo_db_eq:
  "db_messages demo_db =
     [((lit ''me'', lit ''INBOX'', 4), \<lparr>ms_subject = lit ''A'', ms_from = [], ms_to = [], ms_date = [], ms_message_id = [],
        ms_size = 0, ms_flags = []\<rparr>),
      ((lit ''me'', lit ''INBOX'', 5), \<lparr>ms_subject = lit ''B'', ms_from = [], ms_to = [], ms_date = [], ms_message_id = [],
        ms_size = 0, ms_flags = FLAG_SEEN\<rparr>)]"
  "map ft_key (db_fts demo_db) = [(lit ''me'', lit ''INBOX'', 4), (lit ''me'', lit ''INBOX'', 5)]"
  by (simp_all add: demo_db_def db_empty_def index_headers_searchable_def index_header_searchable_def index_headers_def
      index_header_def message_row_of_def flags_column_def fts_row_of_def)

theorem filter_search_exact_witness:
  "hit_of (lit ''me'', lit ''INBOX'', 4) (snd (hd (db_messages demo_db)))
     \<in> set (search_cache demo_env None (query_default\<lparr>pq_is_unread := True\<rparr>) (Some (lit ''INBOX'')) demo_db)"
proof -
  have seen: "\<not> is_seen (header_of_row 4 (snd (hd (db_messages demo_db))))"
    by (simp add: demo_db_eq header_of_row_def parse_flags_column_def split_whitespace_def is_seen_def has_flag_def)
  have "is_fts_empty (query_default\<lparr>pq_is_unread := True\<rparr>)" "\<not> query_is_empty (query_default\<lparr>pq_is_unread := True\<rparr>)"
    by (simp_all add: is_fts_empty_def query_is_empty_def query_default_def)
  from filter_search_exact [OF demo_db_ok this, of demo_env None "Some (lit ''INBOX'')"] seen
  show ?thesis
    unfolding Let_def
    by (auto simp: demo_db_eq filters_match_def message_filters_of_def query_default_def simp del: lit_inject)
qed

text \<open>A text query finds only cached messages in scope whose search row matches and which pass
  the filters, none of them twice.\<close>

theorem text_search_sound:
  assumes "db_ok d" and "to_fts_match q = Some expr"
    and "\<And>e rows. mset (de_fts_match env e rows) \<subseteq># mset rows"
  shows "(let hits = search_cache env account q mailbox d in
    (\<forall>hit. hit \<in> set hits \<longrightarrow> (\<exists>f row. f \<in> set (de_fts_match env expr (db_fts d)) \<and> f \<in> set (db_fts d) \<and>
      (ft_key f, row) \<in> set (db_messages d) \<and> hit = hit_of (ft_key f) row \<and> in_scope account mailbox (ft_key f) \<and>
      filters_match (de_dateparse env) (message_filters_of (de_naive_date env) q)
        (mh_date (sh_header hit)) (is_seen (sh_header hit)))) \<and>
    distinct hits)"
proof -
  let ?rows = "de_fts_match env expr (db_fts d)"
  let ?scoped = "filter (\<lambda>f. in_scope account mailbox (ft_key f)) ?rows"
  let ?hit = "\<lambda>f. map_option (hit_of (ft_key f)) (map_of (db_messages d) (ft_key f))"
  have sub: "set ?rows \<subseteq> set (db_fts d)" using assms(3) [of expr "db_fts d"] by (metis set_mset_mono set_mset_mset)
  have "mset (map ft_key ?rows) \<subseteq># mset (map ft_key (db_fts d))"
    using assms(3) [of expr "db_fts d"] by (simp add: image_mset_subseteq_mono)
  moreover have "distinct (map ft_key (db_fts d))" using assms(1) by (simp add: db_ok_def)
  ultimately have "distinct (map ft_key ?rows)" by (rule distinct_sub_mset)
  then have dist: "distinct (map ft_key ?scoped)" by (rule distinct_map_filter)
  have "distinct (filter_map ?hit fs)" if "distinct (map ft_key fs)" for fs
    using that by (induction fs) (auto simp: set_filter_map image_iff dest!: hit_of_inject split: option.split)
  with dist show ?thesis
    using assms(2) sub unfolding search_cache_def
    by (fastforce simp: Let_def set_filter_map dest: map_of_SomeD)
qed

lemma demo_db_mine: "(key, row) \<in> set (db_messages demo_db) \<Longrightarrow> fst key = lit ''me''"
  by (auto simp: demo_db_eq)

lemma hit_account: "sh_account_id (hit_of key row) = fst key"
  by (simp add: hit_of_def)

theorem text_search_sound_witness:
  "sh_account_id ` set (search_cache demo_env None (parse_query (lit ''A'')) None demo_db) \<subseteq> {lit ''me''}"
proof -
  have "to_fts_match (query_default\<lparr>pq_text := [lit ''A'']\<rparr>) \<noteq> None"
    by (simp add: to_fts_match_def is_fts_empty_def query_default_def)
  moreover have "parse_query (lit ''A'') = query_default\<lparr>pq_text := [lit ''A'']\<rparr>" by code_simp
  ultimately obtain expr where q: "to_fts_match (parse_query (lit ''A'')) = Some expr" by auto
  have "mset (de_fts_match demo_env e rows) \<subseteq># mset rows" for e rows by (simp add: demo_env_def)
  from text_search_sound [OF demo_db_ok q this, of None None]
  have "\<forall>hit. hit \<in> set (search_cache demo_env None (parse_query (lit ''A'')) None demo_db) \<longrightarrow>
     sh_account_id hit = lit ''me''"
    unfolding Let_def
    by (metis (no_types, lifting) demo_db_mine hit_account)
  then show ?thesis by (simp add: image_subset_iff)
qed

section \<open>Forgetting\<close>

lemma map_of_filter_key: "map_of (filter (\<lambda>row. P (fst row)) t) k = (if P k then map_of t k else None)"
  by (induction t) auto

text \<open>Once an account is removed, nothing of it is found or fetched any more, and what the other
  accounts have cached is untouched.\<close>

theorem removed_account_is_forgotten:
  assumes "\<And>e rows. set (de_fts_match env e rows) \<subseteq> set rows"
  shows "(let d' = remove_cached_account account d in
    (\<forall>scope q mailbox. \<forall>hit. hit \<in> set (search_cache env scope q mailbox d') \<longrightarrow> sh_account_id hit \<noteq> account) \<and>
    (\<forall>mailbox uid. fetch_mail env account mailbox uid d' = Inl (de_no_rows env)) \<and>
    cached_mailboxes account d' = [] \<and>
    (\<forall>other mailbox uid limit. other \<noteq> account \<longrightarrow>
       fetch_mail env other mailbox uid d' = fetch_mail env other mailbox uid d \<and>
       newest_cached other mailbox limit d' = newest_cached other mailbox limit d \<and>
       map_of (db_mailboxes d') (other, mailbox) = map_of (db_mailboxes d) (other, mailbox)))"
proof -
  let ?d = "remove_cached_account account d"
  have msgs: "db_messages ?d = filter (\<lambda>row. fst (fst row) \<noteq> account) (db_messages d)"
    and bodies: "db_bodies ?d = filter (\<lambda>row. fst (fst row) \<noteq> account) (db_bodies d)"
    and boxes: "db_mailboxes ?d = filter (\<lambda>row. fst (fst row) \<noteq> account) (db_mailboxes d)"
    by (simp_all add: remove_cached_account_def split_beta')
  have "sh_account_id hit \<noteq> account" if "hit \<in> set (search_cache env scope q mailbox ?d)" for scope q mailbox hit
    using that unfolding search_cache_def msgs
    by (auto simp: Let_def set_filter_map hit_of_def dest!: map_of_SomeD split: option.splits if_splits)
  moreover have "fetch_mail env account mailbox uid ?d = Inl (de_no_rows env)" for mailbox uid
    by (simp add: fetch_mail_def msgs map_of_filter_key [where P = "\<lambda>k. fst k \<noteq> account"])
  moreover have "filter (\<lambda>((a, _, _), _). a = account) (db_messages ?d) = []"
    unfolding msgs by (auto simp: filter_empty_conv)
  then have "cached_mailboxes account ?d = []" by (simp add: cached_mailboxes_def)
  moreover have "fetch_mail env other mailbox uid ?d = fetch_mail env other mailbox uid d"
    "map_of (db_mailboxes ?d) (other, mailbox) = map_of (db_mailboxes d) (other, mailbox)"
    if "other \<noteq> account" for other mailbox uid
    using that by (simp_all add: fetch_mail_def msgs bodies boxes map_of_filter_key [where P = "\<lambda>k. fst k \<noteq> account"])
  moreover have "newest_cached other mailbox limit ?d = newest_cached other mailbox limit d"
    if "other \<noteq> account" for other mailbox limit
  proof -
    have "filter (\<lambda>((a, m, _), _). a = other \<and> m = mailbox) (db_messages ?d) =
        filter (\<lambda>((a, m, _), _). a = other \<and> m = mailbox) (db_messages d)"
      unfolding msgs using that by (auto intro!: filter_cong)
    then show ?thesis unfolding newest_cached_def by simp
  qed
  ultimately show ?thesis by (simp add: Let_def)
qed

theorem removed_account_is_forgotten_witness:
  "cached_mailboxes (lit ''me'') (remove_cached_account (lit ''me'') demo_db) = []"
proof -
  have "set (de_fts_match demo_env e rows) \<subseteq> set rows" for e rows by (simp add: demo_env_def)
  from removed_account_is_forgotten [OF this, of "lit ''me''" demo_db] show ?thesis by (simp add: Let_def)
qed

section \<open>Reading the newest messages\<close>

lemma strictly_descending: "sorted_wrt (\<ge>) us \<Longrightarrow> distinct us \<Longrightarrow> sorted_wrt (>) (us :: 'a::linorder list)"
  by (induction us) (auto simp: order.strict_iff_order)

text \<open>The reader returns the newest cached messages of a folder and no others: strictly
  descending uids (which is what the open folder asks of a cache answer), and every cached
  message that is left out is older than all that are returned.\<close>

theorem newest_cached_spec:
  assumes "db_ok d"
  shows "(let hs = newest_cached account mailbox limit d in
    sorted_wrt (>) (map mh_uid hs) \<and> length hs \<le> limit \<and>
    (\<forall>h. h \<in> set hs \<longrightarrow> (\<exists>row. ((account, mailbox, mh_uid h), row) \<in> set (db_messages d) \<and> h = header_of_row (mh_uid h) row)) \<and>
    (\<forall>uid row. ((account, mailbox, uid), row) \<in> set (db_messages d) \<longrightarrow>
       header_of_row uid row \<in> set hs \<or> (length hs = limit \<and> (\<forall>h. h \<in> set hs \<longrightarrow> uid < mh_uid h))))"
proof -
  let ?t = "filter (\<lambda>((a, m, _), _). a = account \<and> m = mailbox) (db_messages d)"
  let ?s = "sort_key (\<lambda>((_, _, uid), _). - uint uid) ?t"
  let ?hs = "map (\<lambda>((_, _, uid), row). header_of_row uid row) ?s"
  have uid: "mh_uid (case r of ((_, _, uid), row) \<Rightarrow> header_of_row uid row) = snd (snd (fst r))" for r
    by (auto simp: split_beta)
  have dist: "distinct (map (\<lambda>r. snd (snd (fst r))) ?s)"
  proof -
    have "distinct (map fst ?t)" using assms by (simp add: db_ok_def distinct_map_filter)
    then have "inj_on fst (set ?t)" "distinct ?t" by (simp_all add: distinct_map)
    then have "inj_on (\<lambda>r. snd (snd (fst r))) (set ?t)" by (fastforce simp: inj_on_def)
    with \<open>distinct ?t\<close> show ?thesis by (simp add: distinct_map distinct_sort)
  qed
  have "sorted (map (\<lambda>((_, _, uid), _). - uint uid) ?s)" by simp
  then have "sorted_wrt (\<ge>) (map (\<lambda>r. snd (snd (fst r))) ?s)"
    by (simp add: sorted_wrt_map split_beta' word_le_def)
  moreover have us: "map mh_uid ?hs = map (\<lambda>r. snd (snd (fst r))) ?s" by (simp add: comp_def uid)
  ultimately have desc: "sorted_wrt (>) (map mh_uid ?hs)" using dist by (simp only: strictly_descending)
  have hs: "newest_cached account mailbox limit d = take limit ?hs" by (simp add: newest_cached_def)
  have taken: "sorted_wrt (>) (map mh_uid (take limit ?hs))"
    using sorted_wrt_take [OF desc, of limit] by (simp only: take_map)
  have row: "\<exists>row. ((account, mailbox, mh_uid h), row) \<in> set (db_messages d) \<and> h = header_of_row (mh_uid h) row"
    if "h \<in> set ?hs" for h
    using that by auto
  have rest: "h \<in> set (take limit ?hs) \<or>
      (length (take limit ?hs) = limit \<and> (\<forall>h'. h' \<in> set (take limit ?hs) \<longrightarrow> mh_uid h < mh_uid h'))"
    if "h \<in> set ?hs" for h
  proof (cases "h \<in> set (take limit ?hs)")
    case False
    with that have h: "h \<in> set (drop limit ?hs)" by (metis Un_iff append_take_drop_id set_append)
    then have "length (take limit ?hs) = limit" by (cases "length ?hs \<le> limit") auto
    moreover have "sorted_wrt (>) (map mh_uid (take limit ?hs) @ map mh_uid (drop limit ?hs))"
      using desc by (simp only: map_append [symmetric] append_take_drop_id)
    then have "mh_uid h < mh_uid h'" if "h' \<in> set (take limit ?hs)" for h'
      using that h unfolding sorted_wrt_append by auto
    ultimately show ?thesis by blast
  qed simp
  have mem: "header_of_row uid row \<in> set ?hs" if "((account, mailbox, uid), row) \<in> set (db_messages d)" for uid row
    using that by force
  have "\<forall>h. h \<in> set (take limit ?hs) \<longrightarrow> (\<exists>row. ((account, mailbox, mh_uid h), row) \<in> set (db_messages d) \<and> h = header_of_row (mh_uid h) row)"
    using row by (blast dest: in_set_takeD)
  moreover have "\<forall>uid row. ((account, mailbox, uid), row) \<in> set (db_messages d) \<longrightarrow>
      header_of_row uid row \<in> set (take limit ?hs) \<or>
      (length (take limit ?hs) = limit \<and> (\<forall>h. h \<in> set (take limit ?hs) \<longrightarrow> uid < mh_uid h))"
    using rest [OF mem] by simp
  ultimately show ?thesis unfolding hs Let_def using taken by simp
qed

theorem newest_cached_spec_witness:
  "sorted_wrt (>) (map mh_uid (newest_cached (lit ''me'') (lit ''INBOX'') 1 demo_db)) \<and>
   length (newest_cached (lit ''me'') (lit ''INBOX'') 1 demo_db) \<le> 1"
  using newest_cached_spec [OF demo_db_ok, of "lit ''me''" "lit ''INBOX''" 1] by (simp add: Let_def)

section \<open>Incremental sync\<close>

text \<open>What a series of polls of one folder makes the cache ask for.\<close>

fun sync_plans :: "(u32 \<times> u32) option \<Rightarrow> (u32 \<times> u32) list \<Rightarrow> sync_plan list" where
  "sync_plans previous [] = []"
| "sync_plans previous ((validity, uid_next) # polls) =
     sync_decision previous validity uid_next # sync_plans (Some (validity, uid_next)) polls"

lemma sync_plans_reports:
  "fst (db_run env (map (\<lambda>(v, n). (now, ReportMailboxState account mailbox v n)) polls) d) =
   map (SyncPlan account mailbox) (sync_plans (map_of (db_mailboxes d) (account, mailbox)) polls)"
proof (induction polls arbitrary: d)
  case (Cons p polls)
  obtain v n where p: "p = (v, n)" by fastforce
  let ?d = "snd (report_mailbox_state account mailbox v n d)"
  have "map_of (db_mailboxes ?d) (account, mailbox) = Some (v, n)"
    by (simp add: report_mailbox_state_def Let_def update_conv')
  with Cons [of ?d] show ?case
    by (simp add: p split_beta) (simp add: report_mailbox_state_def Let_def)
qed simp

definition plan_covers :: "u32 \<Rightarrow> sync_plan \<times> (u32 \<times> u32) \<Rightarrow> bool" where
  "plan_covers uid = (\<lambda>(plan, (_, uid_next)). case plan of
     FetchFrom first \<Rightarrow> first \<le> uid \<and> uid < uid_next | _ \<Rightarrow> False)"

lemma no_later_plan_covers:
  "sorted (n # map snd polls) \<Longrightarrow> uid < n \<Longrightarrow> (\<And>p. p \<in> set polls \<Longrightarrow> fst p = v) \<Longrightarrow>
   filter (plan_covers uid) (zip (sync_plans (Some (v, n)) polls) polls) = []"
proof (induction polls arbitrary: n)
  case (Cons p polls)
  obtain n' where p: "p = (v, n')" using Cons.prems(3) [of p] by (cases p) simp
  have "sorted (n' # map snd polls)" "uid < n'" using Cons.prems(1,2) p by auto
  from Cons.IH [OF this] Cons.prems p show ?case
    by (auto simp: sync_decision_def plan_covers_def)
qed simp

lemma one_plan_covers:
  assumes "sorted (n0 # map snd polls)" "\<And>p. p \<in> set polls \<Longrightarrow> fst p = v" "n0 \<le> uid" "polls \<noteq> []"
    and "uid < snd (last polls)"
  shows "length (filter (plan_covers uid) (zip (sync_plans (Some (v, n0)) polls) polls)) = 1"
  using assms
proof (induction polls arbitrary: n0)
  case (Cons p polls)
  obtain n where p: "p = (v, n)" using Cons.prems(2) [of p] by (cases p) simp
  have sorted: "sorted (n # map snd polls)" "n0 \<le> n" using Cons.prems(1) p by auto
  show ?case
  proof (cases "uid < n")
    case True
    with no_later_plan_covers [OF sorted(1) True, of v] Cons.prems p show ?thesis
      by (auto simp: sync_decision_def plan_covers_def)
  next
    case False
    then have "polls \<noteq> []" "n \<le> uid" "\<not> plan_covers uid (sync_decision (Some (v, n0)) v n, (v, n))"
      using Cons.prems p by (auto simp: plan_covers_def split: sync_plan.split)
    with Cons.IH [OF sorted(1)] Cons.prems p show ?thesis by simp
  qed
qed simp

text \<open>C9. While a folder keeps its \<open>UIDVALIDITY\<close>, the plans the cache reports miss no message and
  ask for none twice: every uid handed out since the first report is in the range of exactly
  one plan, the one of the first poll that saw it.\<close>

theorem sync_plans_cover:
  assumes "sorted (n0 # map snd polls)" and "\<And>p. p \<in> set polls \<Longrightarrow> fst p = validity"
    and "n0 \<le> uid" and "polls \<noteq> []" and "uid < snd (last polls)"
    and "map_of (db_mailboxes d) (account, mailbox) = Some (validity, n0)"
  shows "\<exists>plans. fst (db_run env (map (\<lambda>(v, n). (now, ReportMailboxState account mailbox v n)) polls) d) =
      map (SyncPlan account mailbox) plans \<and> length plans = length polls \<and>
    length (filter (plan_covers uid) (zip plans polls)) = 1"
proof -
  have "length (sync_plans s polls) = length polls" for s by (induction s polls rule: sync_plans.induct) simp_all
  with sync_plans_reports [of env now account mailbox polls d] one_plan_covers [OF assms(1-5)] assms(6)
  show ?thesis by (intro exI [of _ "sync_plans (Some (validity, n0)) polls"]) simp
qed

theorem sync_plans_cover_witness:
  "\<exists>plans. length plans = 3 \<and> length (filter (plan_covers 6) (zip plans [(9, 5), (9, 8), (9, 8)])) = 1"
proof -
  let ?polls = "[(9, 5), (9, 8), (9, 8)] :: (u32 \<times> u32) list"
  have "\<exists>plans. fst (db_run demo_env (map (\<lambda>(v, n). (0, ReportMailboxState [] [] v n)) ?polls)
        (db_empty\<lparr>db_mailboxes := [(([], []), (9, 3))]\<rparr>)) = map (SyncPlan [] []) plans \<and>
      length plans = length ?polls \<and> length (filter (plan_covers 6) (zip plans ?polls)) = 1"
    by (rule sync_plans_cover [of 3 ?polls 9]) auto
  then show ?thesis by (elim exE conjE) (intro exI conjI, simp_all)
qed

text \<open>The server's state is stored when it is reported, not when the plan it gave has been
  carried out: if the fetch a plan asks for is lost, the next report finds the cache up to date
  and the messages are never asked for.\<close>

theorem lost_fetch_is_not_planned_again:
  "(let (plan, d1) = report_mailbox_state account mailbox v n2
        (d\<lparr>db_mailboxes := [((account, mailbox), (v, n1))]\<rparr>);
      (plan2, d2) = report_mailbox_state account mailbox v n2 d1
    in db_messages d2 = db_messages d \<and> plan2 = UpToDate \<and> (if n1 < n2 then plan = FetchFrom n1 else plan = UpToDate))"
  by (simp add: report_mailbox_state_def sync_decision_def Let_def)

text \<open>A message whose header reached the cache without a search row (\<open>IndexHeaders\<close>) never
  gets one from later listings: \<open>IndexHeadersSearchable\<close> takes it as known, and no text query can
  find it until its body is cached.\<close>

theorem plain_header_stays_unsearchable:
  assumes "db_ok d" and "map_of (db_messages d) (account, mailbox, mh_uid header) = None"
  shows "(let d1 = index_headers_searchable account mailbox [header] (index_headers account mailbox [header] d)
    in map_of (db_messages d1) (account, mailbox, mh_uid header) \<noteq> None \<and>
      (account, mailbox, mh_uid header) \<notin> ft_key ` set (db_fts d1))"
proof -
  have "(account, mailbox, mh_uid header) \<notin> ft_key ` set (db_fts d)"
    using assms by (auto simp: db_ok_def map_of_None_keys)
  then show ?thesis
    by (simp add: index_headers_searchable_def index_header_searchable_def index_headers_def index_header_def Let_def
        update_conv')
qed

theorem plain_header_stays_unsearchable_witness:
  "(let header = \<lparr>mh_uid = 9, mh_subject = lit ''A'', mh_from = [], mh_to = [], mh_date = [], mh_message_id = [], mh_flags = []\<rparr>;
      d1 = index_headers_searchable [] [] [header] (index_headers [] [] [header] db_empty)
    in map_of (db_messages d1) ([], [], mh_uid header) \<noteq> None \<and> ([], [], mh_uid header) \<notin> ft_key ` set (db_fts d1))"
  using plain_header_stays_unsearchable [OF ok_empty, of "[]" "[]"] by (simp add: db_empty_def Let_def)

section \<open>The outbox\<close>

lemma backoff_bounds: "1 \<le> a \<Longrightarrow> 30 \<le> backoff_seconds a \<and> backoff_seconds a \<le> 3600"
  by (auto simp: backoff_seconds_def Let_def min_def self_le_power one_le_power)

lemma backoff_mono: "a \<le> b \<Longrightarrow> backoff_seconds a \<le> backoff_seconds b"
proof -
  assume "a \<le> b"
  then have "nat (min 7 (max 0 (a - 1))) \<le> nat (min 7 (max 0 (b - 1)))" by (intro nat_mono) auto
  then have "(2 :: int) ^ nat (min 7 (max 0 (a - 1))) \<le> 2 ^ nat (min 7 (max 0 (b - 1)))"
    by (rule power_increasing) simp
  then show ?thesis unfolding backoff_seconds_def Let_def by linarith
qed

lemma collect_rows_all:
  "(\<And>x. x \<in> set xs \<Longrightarrow> \<exists>y. f x = Inr y \<and> g y = h x) \<Longrightarrow> \<exists>ys. collect_rows f xs = Inr ys \<and> map g ys = map h xs"
proof (induction xs)
  case (Cons x xs)
  from Cons.IH Cons.prems obtain ys where "collect_rows f xs = Inr ys" "map g ys = map h xs" by auto
  moreover from Cons.prems [of x] obtain y where "f x = Inr y" "g y = h x" by auto
  ultimately show ?case by auto
qed simp

lemma image_filter_map: "(\<And>r. k (f r) = k r) \<Longrightarrow> k ` {r \<in> set (map f xs). P r} = k ` {r \<in> set xs. P (f r)}"
  by (auto simp: image_iff) metis

lemma find_unique: "x \<in> set xs \<Longrightarrow> P x \<Longrightarrow> (\<And>y. y \<in> set xs \<Longrightarrow> P y \<Longrightarrow> y = x) \<Longrightarrow> find P xs = Some x"
proof (induction xs)
  case (Cons a xs)
  show ?case
  proof (cases "P a")
    case True
    with Cons.prems(3) [of a] show ?thesis by simp
  next
    case False
    then have "x \<noteq> a" using Cons.prems(2) by blast
    with Cons.prems(1) have "x \<in> set xs" by simp
    then have "find P xs = Some x" by (rule Cons.IH) (use Cons.prems(2) in assumption, rule Cons.prems(3), simp_all)
    with False show ?thesis by simp
  qed
qed simp

text \<open>Every row of the outbox holds a message that can be read back.\<close>

definition outbox_readable :: "db_env \<Rightarrow> db \<Rightarrow> bool" where
  "outbox_readable env d \<longleftrightarrow> list_all (\<lambda>row. \<not> isl (de_of_json env (ob_compose_json row))) (db_outbox d)"

lemma due_ids:
  assumes "outbox_readable env d"
  obtains items where "due_outbox env t d = Inr items"
    and "oi_id ` set items = ob_id ` {row \<in> set (db_outbox d). ob_next_attempt_at row \<le> t}"
proof -
  have "\<exists>y. row_to_outbox_item env row = Inr y \<and> oi_id y = ob_id row" if "row \<in> set (db_outbox d)" for row
    using that assms by (cases "de_of_json env (ob_compose_json row)")
      (auto simp: outbox_readable_def list_all_iff row_to_outbox_item_def)
  then obtain items where items: "due_outbox env t d = Inr items"
      "map oi_id items = map ob_id (sort_key ob_id (filter (\<lambda>row. ob_next_attempt_at row \<le> t) (db_outbox d)))"
    using collect_rows_all [of "sort_key ob_id (filter (\<lambda>row. ob_next_attempt_at row \<le> t) (db_outbox d))"
        "row_to_outbox_item env" oi_id ob_id] by (auto simp: due_outbox_def)
  from arg_cong [OF items(2), of set] have "oi_id ` set items = ob_id ` {row \<in> set (db_outbox d). ob_next_attempt_at row \<le> t}"
    by simp
  with items(1) that show thesis by blast
qed

text \<open>A queued message that failed again waits: it is due neither before the back-off of its
  attempts is over (at least thirty seconds, at most an hour, and never less than after an
  earlier attempt) nor kept back after it, and no other message's turn changes.\<close>

theorem failed_message_waits:
  assumes "db_ok d" and "outbox_readable env d" and "row \<in> set (db_outbox d)" and "0 \<le> ob_attempts row"
  shows "(case mark_outbox_failed env (ob_id row) error now d of
      Inl _ \<Rightarrow> False
    | Inr d' \<Rightarrow>
        (\<forall>t. \<exists>items before. due_outbox env t d' = Inr items \<and> due_outbox env t d = Inr before \<and>
          (ob_id row \<in> oi_id ` set items \<longleftrightarrow> now + backoff_seconds (ob_attempts row + 1) \<le> t) \<and>
          oi_id ` set items - {ob_id row} = oi_id ` set before - {ob_id row})) \<and>
    30 \<le> backoff_seconds (ob_attempts row + 1) \<and> backoff_seconds (ob_attempts row + 1) \<le> 3600 \<and>
    backoff_seconds (ob_attempts row) \<le> backoff_seconds (ob_attempts row + 1)"
proof -
  let ?f = "\<lambda>r. if ob_id r = ob_id row then r\<lparr>ob_attempts := ob_attempts row + 1, ob_last_error := Some error,
    ob_next_attempt_at := now + backoff_seconds (ob_attempts row + 1)\<rparr> else r"
  let ?d = "d\<lparr>db_outbox := map ?f (db_outbox d)\<rparr>"
  have inj: "r = row" if "r \<in> set (db_outbox d)" "ob_id r = ob_id row" for r
    using that assms(1,3) by (auto simp: db_ok_def distinct_map dest: inj_onD)
  have "find (\<lambda>r. ob_id r = ob_id row) (db_outbox d) = Some row"
    using assms(3) inj by (intro find_unique) auto
  then have mark: "mark_outbox_failed env (ob_id row) error now d = Inr ?d"
    by (simp add: mark_outbox_failed_def Let_def)
  have "outbox_readable env ?d" using assms(2) by (auto simp: outbox_readable_def list_all_iff)
  then have "\<exists>items before. due_outbox env t ?d = Inr items \<and> due_outbox env t d = Inr before \<and>
      (ob_id row \<in> oi_id ` set items \<longleftrightarrow> now + backoff_seconds (ob_attempts row + 1) \<le> t) \<and>
      oi_id ` set items - {ob_id row} = oi_id ` set before - {ob_id row}" for t
  proof -
    obtain items where items: "due_outbox env t ?d = Inr items"
      "oi_id ` set items = ob_id ` {r \<in> set (db_outbox ?d). ob_next_attempt_at r \<le> t}"
      by (rule due_ids [OF \<open>outbox_readable env ?d\<close>])
    obtain before where before: "due_outbox env t d = Inr before"
      "oi_id ` set before = ob_id ` {r \<in> set (db_outbox d). ob_next_attempt_at r \<le> t}"
      by (rule due_ids [OF assms(2)])
    have ids: "oi_id ` set items = ob_id ` {r \<in> set (db_outbox d). ob_next_attempt_at (?f r) \<le> t}"
      using image_filter_map [of ob_id ?f "db_outbox d" "\<lambda>r. ob_next_attempt_at r \<le> t"] unfolding items(2) by simp
    have "ob_id row \<in> oi_id ` set items \<longleftrightarrow> now + backoff_seconds (ob_attempts row + 1) \<le> t"
    proof
      assume "ob_id row \<in> oi_id ` set items"
      then obtain r :: outbox_row where "ob_id r = ob_id row" "ob_next_attempt_at (?f r) \<le> t" unfolding ids by auto
      then show "now + backoff_seconds (ob_attempts row + 1) \<le> t" by simp
    next
      assume "now + backoff_seconds (ob_attempts row + 1) \<le> t"
      then have "row \<in> {r \<in> set (db_outbox d). ob_next_attempt_at (?f r) \<le> t}" using assms(3) by simp
      then show "ob_id row \<in> oi_id ` set items" unfolding ids by (rule imageI)
    qed
    moreover have "i \<in> oi_id ` set items \<longleftrightarrow> i \<in> oi_id ` set before" if "i \<noteq> ob_id row" for i
    proof -
      have "{r \<in> set (db_outbox d). ob_id r = i \<and> ob_next_attempt_at (?f r) \<le> t} =
          {r \<in> set (db_outbox d). ob_id r = i \<and> ob_next_attempt_at r \<le> t}"
        using that by auto
      then show ?thesis unfolding ids before(2) by blast
    qed
    ultimately show ?thesis using items(1) before(1) by auto
  qed
  with mark backoff_bounds [of "ob_attempts row + 1"] backoff_mono [of "ob_attempts row" "ob_attempts row + 1"] assms(4)
  show ?thesis by simp
qed

theorem failed_message_waits_witness:
  "(let row = \<lparr>ob_id = 3, ob_account_id = [], ob_compose_json = [], ob_created_at = 0, ob_attempts = 2,
        ob_next_attempt_at = 5, ob_last_error = None\<rparr>
    in 30 \<le> backoff_seconds (ob_attempts row + 1) \<and>
      (case mark_outbox_failed demo_env 3 [] 100 (db_empty\<lparr>db_outbox := [row], db_outbox_seq := 3\<rparr>) of
         Inl _ \<Rightarrow> False
       | Inr d' \<Rightarrow> \<exists>items. due_outbox demo_env 219 d' = Inr items \<and> 3 \<notin> oi_id ` set items))"
proof -
  let ?row = "\<lparr>ob_id = 3, ob_account_id = [], ob_compose_json = [], ob_created_at = 0, ob_attempts = 2,
    ob_next_attempt_at = 5, ob_last_error = None\<rparr>"
  let ?d = "db_empty\<lparr>db_outbox := [?row], db_outbox_seq := 3\<rparr>"
  have "db_ok ?d" "outbox_readable demo_env ?d" "?row \<in> set (db_outbox ?d)" "0 \<le> ob_attempts ?row"
    by (simp_all add: db_ok_def db_empty_def outbox_readable_def demo_env_def)
  from failed_message_waits [OF this, where error = "[]" and now = 100]
  show ?thesis
    by (auto simp: Let_def backoff_seconds_def split: sum.splits) (drule spec [of _ 219], force)
qed

end
