(* ===== verification/OutboxFlow.thy ===== *)
theory OutboxFlow
  imports Composes DbFacts
begin

text \<open>
  Composing and the cache together: the cache's answers as \<open>app/events.rs\<close> hands them to the
  compose windows, and what a message goes through between its first failed send and its
  delivery, when the cache's queue has room for its commands and when it has not.
\<close>

section \<open>Rounds through the cache\<close>

text \<open>\<open>handle_cache\<close> for the events that concern composing; \<open>problem\<close> is the error of opening a
  window, should one be needed.\<close>

fun handle_cache_event :: "outgoing_env \<Rightarrow> str option \<Rightarrow> outgoing \<Rightarrow> db_event \<Rightarrow> outgoing" where
  "handle_cache_event env problem g (DraftSaved row i) = draft_saved row i g"
| "handle_cache_event env problem g (OutboxEnqueued row i) = refresh_outbox (compose_outbox_enqueued row i g)"
| "handle_cache_event env problem g (OutboxDue items) = outbox_due env items g"
| "handle_cache_event env problem g (OutboxList items) = outbox_listed items g"
| "handle_cache_event env problem g (DraftLoaded row state) = draft_loaded problem row state g"
| "handle_cache_event env problem g (DbError message) = compose_banner (lit ''Cache: '' @ message) g"
| "handle_cache_event env problem g _ = g"

text \<open>The cache runs every command queued so far, at the time \<open>now\<close>, and its answers are
  applied.\<close>

definition cache_round ::
  "outgoing_env \<Rightarrow> db_env \<Rightarrow> str option \<Rightarrow> int \<Rightarrow> outgoing \<times> db \<Rightarrow> outgoing \<times> db" where
  "cache_round env denv problem now = (\<lambda>(g, d).
     let (events, d) = db_run denv (map (Pair now) (og_db g)) d
     in (foldl (handle_cache_event env problem) (g\<lparr>og_db := []\<rparr>) events, d))"

lemmas compose_defs = outcome_failed_def failed_send_def cache_command_def tell_def window_open_def
  refresh_outbox_def compose_outbox_enqueued_def outbox_enqueued_def settle_def set_entry_def compose_banner_def
  forget_if_done_def Let_def

section \<open>What else is queued\<close>

text \<open>The commands that cache and look up mail: they leave the outbox and the drafts alone, and their
  answers do not concern composing.\<close>

fun mail_command :: "db_command \<Rightarrow> bool" where
  "mail_command (IndexMail _ _ _ _ _) = True"
| "mail_command (IndexHeaders _ _ _) = True"
| "mail_command (IndexHeadersSearchable _ _ _) = True"
| "mail_command (Search _ _ _) = True"
| "mail_command (FetchMail _ _ _) = True"
| "mail_command (ReportMailboxState _ _ _ _) = True"
| "mail_command (UpdateFlags _ _ _ _) = True"
| "mail_command (RemoveMessage _ _ _) = True"
| "mail_command _ = False"

definition same_outgoing :: "db \<Rightarrow> db \<Rightarrow> bool" where
  "same_outgoing d d' \<longleftrightarrow> db_outbox d' = db_outbox d \<and> db_outbox_seq d' = db_outbox_seq d \<and>
     db_drafts d' = db_drafts d \<and> db_drafts_seq d' = db_drafts_seq d"

lemma same_outgoing_refl [simp]: "same_outgoing d d"
  by (simp add: same_outgoing_def)

lemma same_outgoing_trans: "same_outgoing a b \<Longrightarrow> same_outgoing b c \<Longrightarrow> same_outgoing a c"
  by (simp add: same_outgoing_def)

lemma same_outgoing_fold: "(\<And>d x. same_outgoing d (f d x)) \<Longrightarrow> same_outgoing d (foldl f d xs)"
  by (induction xs arbitrary: d) (auto intro: same_outgoing_trans)

lemmas mail_defs = index_mail_def index_headers_def index_header_def index_headers_searchable_def
  index_header_searchable_def update_flags_def remove_message_def report_mailbox_state_def

lemma mail_step:
  assumes "mail_command cmd" and "db_step denv now cmd d = (events, d')"
  shows "same_outgoing d d' \<and> foldl (handle_cache_event env problem) g events = g"
  using assms
  by (cases cmd)
    (auto simp: mail_defs same_outgoing_def Let_def split_beta intro!: same_outgoing_fold [unfolded same_outgoing_def]
      split: option.splits sum.splits)

lemma mail_run:
  assumes "list_all mail_command cmds" and "db_run denv (map (Pair now) cmds) d = (events, d')"
  shows "same_outgoing d d' \<and> foldl (handle_cache_event env problem) g events = g"
  using assms
proof (induction cmds arbitrary: d events)
  case (Cons cmd cmds)
  obtain e1 d1 where 1: "db_step denv now cmd d = (e1, d1)" by fastforce
  obtain e2 d2 where 2: "db_run denv (map (Pair now) cmds) d1 = (e2, d2)" by fastforce
  from Cons.prems 1 2 have "events = e1 @ e2" "d' = d2" by simp_all
  with mail_step [OF _ 1, of env problem g] Cons.IH [of d1 e2] Cons.prems 2 show ?case
    by (auto intro: same_outgoing_trans)
qed simp

lemma db_run_append:
  "db_run denv (a @ b) d =
     (let (e1, d1) = db_run denv a d; (e2, d2) = db_run denv b d1 in (e1 @ e2, d2))"
  by (induction a arbitrary: d) (auto simp: Let_def split_beta)

text \<open>A round with mail commands at the front of the queue is a round without them.\<close>

lemma cache_round_mail:
  assumes "list_all mail_command mail" and "og_db g = mail @ cmds"
  obtains d1 where "same_outgoing d d1"
    and "cache_round env denv problem now (g, d) = cache_round env denv problem now (g\<lparr>og_db := cmds\<rparr>, d1)"
proof -
  obtain e1 d1 where 1: "db_run denv (map (Pair now) mail) d = (e1, d1)" by fastforce
  note mail = mail_run [OF assms(1) 1, of env problem]
  have "cache_round env denv problem now (g, d) = cache_round env denv problem now (g\<lparr>og_db := cmds\<rparr>, d1)"
    using mail [of "g\<lparr>og_db := []\<rparr>"] by (simp add: cache_round_def assms(2) db_run_append 1 Let_def split_beta)
  with mail show thesis by (intro that) blast+
qed

section \<open>A failed message is kept until it is delivered\<close>

lemma outbox_fields [simp]:
  "og_deliveries (tell i m g) = og_deliveries g" "og_db (tell i m g) = og_db g"
  "og_deliveries (compose_banner b g) = og_deliveries g" "og_db (compose_banner b g) = og_db g"
  "og_entries (tell i m g) = og_entries g" "og_entries (compose_banner b g) = og_entries g"
  "og_outbox_window (tell i m g) = og_outbox_window g" "og_outbox_window (compose_banner b g) = og_outbox_window g"
  by (simp_all add: tell_def compose_banner_def split: option.split)

lemma failed_message_queued:
  assumes "dl_in_flight (og_deliveries g) i = Some \<lparr>fl_account = account, fl_state = state\<rparr>"
    and "owned_outbox_row i (og_deliveries g) = None" and "account < length (oe_accounts env)"
    and "length (og_db g) < COMMAND_QUEUE"
  obtains rest where "rest = [] \<or> rest = [ListOutbox]"
    and "og_db (outcome_failed env i error g) =
      og_db g @ EnqueueOutbox None i (ac_id (oe_accounts env ! account)) state # rest"
    and "og_deliveries (outcome_failed env i error g) = (og_deliveries g)\<lparr>dl_in_flight := (dl_in_flight (og_deliveries g))(i := None)\<rparr>"
proof -
  let ?cmd = "EnqueueOutbox None i (ac_id (oe_accounts env ! account)) state"
  define rest where "rest = (if og_outbox_window g \<and> Suc (length (og_db g)) < COMMAND_QUEUE then [ListOutbox] else [])"
  have "og_db (outcome_failed env i error g) = og_db g @ ?cmd # rest \<and>
      og_deliveries (outcome_failed env i error g) = (og_deliveries g)\<lparr>dl_in_flight := (dl_in_flight (og_deliveries g))(i := None)\<rparr>"
    using assms
    by (simp add: rest_def outcome_failed_def failed_send_def refresh_outbox_def cache_command_def owned_outbox_row_def
        Let_def split: option.split)
  then show thesis by (intro that [of rest]) (auto simp: rest_def)
qed

text \<open>C11. When the first attempt to send a message from a configured account fails while the cache's
  queue has room, one round through the cache later the outbox has a new row with exactly that
  message and account, due at once, and the message's id owns the row, whatever mail was queued to be
  cached or looked up before.  A database that refuses the row is not modelled.\<close>

theorem failed_message_is_kept:
  assumes "dl_in_flight (og_deliveries g) i = Some \<lparr>fl_account = account, fl_state = state\<rparr>"
    and "owned_outbox_row i (og_deliveries g) = None" and "account < length (oe_accounts env)"
    and "list_all mail_command (og_db g)" and "length (og_db g) < COMMAND_QUEUE"
  shows "(let (g', d') = cache_round env denv problem now (outcome_failed env i error g, d);
      row = db_outbox_seq d + 1
    in db_outbox d' = db_outbox d @
         [\<lparr>ob_id = row, ob_account_id = ac_id (oe_accounts env ! account),
           ob_compose_json = de_json denv state,
           ob_created_at = now, ob_attempts = 0, ob_next_attempt_at = now, ob_last_error = None\<rparr>] \<and>
       owned_outbox_row i (og_deliveries g') = Some row \<and> \<not> is_sending i (og_deliveries g'))"
proof -
  let ?g = "outcome_failed env i error g" and ?cmd = "EnqueueOutbox None i (ac_id (oe_accounts env ! account)) state"
  obtain rest where rest: "rest = [] \<or> rest = [ListOutbox]" and queued: "og_db ?g = og_db g @ ?cmd # rest"
    and dl: "og_deliveries ?g = (og_deliveries g)\<lparr>dl_in_flight := (dl_in_flight (og_deliveries g))(i := None)\<rparr>"
    by (rule failed_message_queued [OF assms(1-3,5)])
  obtain d1 where same: "same_outgoing d d1" and
    round: "cache_round env denv problem now (?g, d) = cache_round env denv problem now (?g\<lparr>og_db := ?cmd # rest\<rparr>, d1)"
    by (rule cache_round_mail [OF assms(4) queued])
  show ?thesis
    unfolding round using rest same assms(2)
    by (auto simp: cache_round_def dl same_outgoing_def refresh_outbox_def cache_command_def
        compose_outbox_enqueued_def outbox_enqueued_def owned_outbox_row_def enqueue_outbox_def is_sending_def
        outbox_listed_def Let_def split_beta update_conv' split: option.split sum.split)
qed

text \<open>When the queue is full the command is dropped without a word: the message is in no outbox, is not
  being sent, and no later event brings it back.\<close>

lemma full_queue_loses_the_message:
  assumes "dl_in_flight (og_deliveries g) i = Some \<lparr>fl_account = account, fl_state = state\<rparr>"
    and "owned_outbox_row i (og_deliveries g) = None" and "\<not> length (og_db g) < COMMAND_QUEUE"
  shows "og_db (outcome_failed env i error g) = og_db g \<and> \<not> is_sending i (og_deliveries (outcome_failed env i error g)) \<and>
    owned_outbox_row i (og_deliveries (outcome_failed env i error g)) = None"
  using assms
  by (auto simp: outcome_failed_def failed_send_def refresh_outbox_def cache_command_def owned_outbox_row_def
      is_sending_def Let_def)

definition demo_out_env :: outgoing_env where
  "demo_out_env = \<lparr>oe_accounts = [demo_account], oe_send_mail = (\<lambda>_ _ _. None), oe_send_imap = (\<lambda>_. True),
     oe_sent_folder = (\<lambda>_. lit ''Sent'')\<rparr>"

definition demo_message :: compose_state where
  "demo_message = compose_default\<lparr>cs_body := lit ''Hello'', cs_account_id := Some (ac_id demo_account)\<rparr>"

text \<open>A window that has just sent its message.\<close>

definition demo_sending :: outgoing where
  "demo_sending = send_message demo_out_env 1 demo_message (start_compose None demo_message outgoing_empty)"

lemma demo_sending_fields:
  "dl_in_flight (og_deliveries demo_sending) 1 = Some \<lparr>fl_account = 0, fl_state = demo_message\<rparr>"
  "owned_outbox_row 1 (og_deliveries demo_sending) = None" "og_db demo_sending = []"
  "og_entries demo_sending 1 = Some \<lparr>en_window = True, en_draft = None, en_saves_pending = 0,
     en_announce_save = False, en_settled = False\<rparr>"
  by (simp_all add: demo_sending_def send_message_def start_compose_def outgoing_empty_def deliveries_default_def
      next_id_def set_entry_def demo_message_def demo_out_env_def account_position_def
      begin_send_def owned_outbox_row_def tell_def)

lemma demo_sending_maps:
  "dl_in_flight (og_deliveries demo_sending) = [1 \<mapsto> \<lparr>fl_account = 0, fl_state = demo_message\<rparr>]"
  "dl_outbox_rows (og_deliveries demo_sending) = []"
  by (simp_all add: demo_sending_def send_message_def start_compose_def outgoing_empty_def deliveries_default_def
      next_id_def set_entry_def demo_message_def demo_out_env_def account_position_def begin_send_def tell_def)

lemma demo_sending_window: "\<not> og_outbox_window demo_sending"
  by (simp add: demo_sending_def send_message_def start_compose_def outgoing_empty_def
      next_id_def set_entry_def demo_message_def demo_out_env_def account_position_def tell_def Let_def)

theorem failed_message_is_kept_witness:
  "owned_outbox_row 1 (og_deliveries (fst (cache_round demo_out_env demo_env None 9
     (outcome_failed demo_out_env 1 (lit ''offline'') demo_sending, db_empty)))) = Some 1"
proof -
  have "0 < length (oe_accounts demo_out_env)" by (simp add: demo_out_env_def)
  moreover have "list_all mail_command (og_db demo_sending)" "length (og_db demo_sending) < COMMAND_QUEUE"
    by (simp_all add: demo_sending_fields(3) COMMAND_QUEUE_def)
  ultimately show ?thesis
    using failed_message_is_kept [OF demo_sending_fields(1,2), of demo_out_env demo_env None 9 "lit ''offline''" db_empty]
    by (simp add: Let_def split_beta db_empty_def)
qed




section \<open>Where the flow goes wrong\<close>

text \<open>When a message that already has an outbox row is edited in its window, sent again and
  fails again, the row keeps the old text: the outbox will send the message as it was before
  the edit.\<close>

theorem resent_text_is_lost:
  assumes "dl_in_flight (og_deliveries g) i = Some \<lparr>fl_account = account, fl_state = edited\<rparr>"
    and "owned_outbox_row i (og_deliveries g) = Some row" and "og_db g = []"
    and "row \<in> ob_id ` set (db_outbox d)"
  shows "(let (g', d') = cache_round env denv problem now (outcome_failed env i error g, d) in
    map (\<lambda>r. (ob_id r, ob_account_id r, ob_compose_json r)) (db_outbox d') =
      map (\<lambda>r. (ob_id r, ob_account_id r, ob_compose_json r)) (db_outbox d) \<and>
    \<not> is_sending i (og_deliveries g') \<and> owned_outbox_row i (og_deliveries g') = Some row)"
proof -
  obtain found where "find (\<lambda>r. ob_id r = row) (db_outbox d) = Some found"
    using assms(4) by (cases "find (\<lambda>r. ob_id r = row) (db_outbox d)") (auto simp: find_None_iff)
  with assms(1-3) show ?thesis
    by (auto simp: cache_round_def outcome_failed_def failed_send_def refresh_outbox_def cache_command_def COMMAND_QUEUE_def
        mark_outbox_failed_def owned_outbox_row_def is_sending_def outbox_listed_def Let_def split_beta
        split: option.split sum.split)
qed

theorem resent_text_is_lost_witness:
  "(let g = demo_sending\<lparr>og_deliveries := outbox_enqueued 1 4 (og_deliveries demo_sending)\<rparr>;
      d = db_empty\<lparr>db_outbox := [\<lparr>ob_id = 4, ob_account_id = [], ob_compose_json = lit ''old'', ob_created_at = 0,
        ob_attempts = 0, ob_next_attempt_at = 0, ob_last_error = None\<rparr>], db_outbox_seq := 4\<rparr>;
      (_, d') = cache_round demo_out_env demo_env None 9 (outcome_failed demo_out_env 1 [] g, d)
    in map ob_compose_json (db_outbox d') = [lit ''old''])"
proof -
  let ?g = "demo_sending\<lparr>og_deliveries := outbox_enqueued 1 4 (og_deliveries demo_sending)\<rparr>"
  let ?d = "db_empty\<lparr>db_outbox := [\<lparr>ob_id = 4, ob_account_id = [], ob_compose_json = lit ''old'', ob_created_at = 0,
    ob_attempts = 0, ob_next_attempt_at = 0, ob_last_error = None\<rparr>], db_outbox_seq := 4\<rparr>"
  have "dl_in_flight (og_deliveries ?g) 1 = Some \<lparr>fl_account = 0, fl_state = demo_message\<rparr>"
    "owned_outbox_row 1 (og_deliveries ?g) = Some 4" "og_db ?g = []" "4 \<in> ob_id ` set (db_outbox ?d)"
    using demo_sending_fields by (simp_all add: outbox_enqueued_def owned_outbox_row_def update_conv')
  from resent_text_is_lost [OF this, of demo_out_env demo_env None 9 "[]"] show ?thesis
    by (auto simp: Let_def split_beta)
qed

text \<open>A message that is discarded after its send failed, before the cache has answered with its
  outbox row, stays in the outbox: discarding queues no deletion, and once the row is due it is
  sent.\<close>

theorem discarded_message_is_sent:
  assumes "dl_in_flight (og_deliveries g) = [i \<mapsto> \<lparr>fl_account = account, fl_state = state\<rparr>]"
    and "dl_outbox_rows (og_deliveries g) = []" and "account < length (oe_accounts env)" and "og_db g = []"
    and "og_entries g i = Some \<lparr>en_window = True, en_draft = None, en_saves_pending = 0, en_announce_save = False, en_settled = False\<rparr>"
    and "\<not> og_outbox_window g" and "db_outbox d = []"
    and "de_of_json denv (de_json denv state) = Inr state"
    and "account_position (oe_accounts env) (ac_id (oe_accounts env ! account)) = Some account"
    and "oe_send_mail env (dl_last_id (og_deliveries g) + 1) account state = None"
  shows "(let g1 = compose_closed i (discard_message i (outcome_failed env i error g));
      (g2, d2) = cache_round env denv problem now (g1, d);
      (g3, d3) = cache_round env denv problem now (g2\<lparr>og_db := [DueOutbox]\<rparr>, d2)
    in og_smtp g3 = og_smtp g @ [(dl_last_id (og_deliveries g) + 1, account, state)])"
proof -
  let ?cmd = "EnqueueOutbox None i (ac_id (oe_accounts env ! account)) state" and ?row = "db_outbox_seq d + 1"
  define g1 where "g1 = compose_closed i (discard_message i (outcome_failed env i error g))"
  have g1: "og_db g1 = [?cmd]" "og_entries g1 i = None" "dl_in_flight (og_deliveries g1) = Map.empty"
      "dl_outbox_rows (og_deliveries g1) = []" "og_smtp g1 = og_smtp g" "\<not> og_outbox_window g1"
      "dl_last_id (og_deliveries g1) = dl_last_id (og_deliveries g)"
    using assms(1-6)
    by (simp_all add: g1_def compose_closed_def discard_message_def forget_def outcome_failed_def failed_send_def
        window_open_def tell_def refresh_outbox_def cache_command_def COMMAND_QUEUE_def settle_def set_entry_def forget_if_done_def)
  obtain g2 d2 where r2: "cache_round env denv problem now (g1, d) = (g2, d2)" by fastforce
  have g2: "og_entries g2 i = None" "dl_in_flight (og_deliveries g2) = Map.empty"
      "dl_outbox_rows (og_deliveries g2) = [(i, ?row)]" "og_smtp g2 = og_smtp g"
      "dl_last_id (og_deliveries g2) = dl_last_id (og_deliveries g)"
      "db_outbox d2 = [\<lparr>ob_id = ?row, ob_account_id = ac_id (oe_accounts env ! account),
         ob_compose_json = de_json denv state, ob_created_at = now, ob_attempts = 0, ob_next_attempt_at = now,
         ob_last_error = None\<rparr>]"
    using r2 g1 assms(7)
    by (auto simp: cache_round_def enqueue_outbox_def Let_def refresh_outbox_def compose_outbox_enqueued_def
        outbox_enqueued_def)
  have "og_smtp (fst (cache_round env denv problem now (g2\<lparr>og_db := [DueOutbox]\<rparr>, d2))) =
      og_smtp g @ [(dl_last_id (og_deliveries g) + 1, account, state)]"
    using g2 assms(8-10)
    by (simp add: cache_round_def due_outbox_def row_to_outbox_item_def outbox_due_def retries_def owned_rows_def
        window_open_def next_id_def Let_def)
  with r2 show ?thesis by (simp add: g1_def Let_def split_beta)
qed

theorem discarded_message_is_sent_witness:
  "(let g1 = compose_closed 1 (discard_message 1 (outcome_failed demo_out_env 1 [] demo_sending));
      denv = demo_env\<lparr>de_of_json := (\<lambda>_. Inr demo_message)\<rparr>;
      (g2, d2) = cache_round demo_out_env denv None 9 (g1, db_empty);
      (g3, d3) = cache_round demo_out_env denv None 9 (g2\<lparr>og_db := [DueOutbox]\<rparr>, d2)
    in og_smtp g3 = og_smtp demo_sending @ [(dl_last_id (og_deliveries demo_sending) + 1, 0, demo_message)])"
proof -
  show ?thesis
    using demo_sending_window demo_sending_maps
      discarded_message_is_sent [of demo_sending 1 0 demo_message demo_out_env db_empty
        "demo_env\<lparr>de_of_json := (\<lambda>_. Inr demo_message)\<rparr>" "[]" None 9] demo_sending_fields
    by (simp add: Let_def demo_out_env_def db_empty_def account_position_def)
qed

text \<open>A draft that is opened again is not saved back into its row: the first save of the
  reopened window adds a second row and leaves the first as it was.\<close>

theorem reopened_draft_gets_a_second_row:
  assumes "has_content state'" and "og_db g = []"
  shows "(let g1 = draft_loaded None row state g; i = dl_last_id (og_deliveries g1);
      (g2, d2) = cache_round env denv problem now (save_draft i state' explicit g1, d)
    in og_opened g1 = og_opened g @ [(i, state\<lparr>cs_draft_id := Some row\<rparr>)] \<and>
      map dr_id (db_drafts d2) = map dr_id (db_drafts d) @ [db_drafts_seq d + 1] \<and>
      take (length (db_drafts d)) (db_drafts d2) = db_drafts d)"
  using assms
  by (simp add: draft_loaded_def start_compose_def next_id_def set_entry_def save_draft_def cache_command_def COMMAND_QUEUE_def
      cache_round_def save_draft_row_def Let_def split_beta)

theorem reopened_draft_gets_a_second_row_witness:
  "(let g1 = draft_loaded None 3 demo_message outgoing_empty; i = dl_last_id (og_deliveries g1);
      (g2, d2) = cache_round demo_out_env demo_env None 9 (save_draft i demo_message False g1, db_empty\<lparr>db_drafts_seq := 3\<rparr>)
    in map dr_id (db_drafts d2) = [4])"
  using reopened_draft_gets_a_second_row [of demo_message outgoing_empty 3 demo_message demo_out_env demo_env None 9 False
      "db_empty\<lparr>db_drafts_seq := 3\<rparr>"]
  by (simp add: Let_def split_beta has_content_def demo_message_def outgoing_empty_def db_empty_def)

text \<open>Two saves that overlap (an automatic one and the user's, before the cache has answered)
  make two draft rows, and sending the message deletes only one of them.\<close>

theorem overlapping_saves_leave_a_draft:
  assumes "has_content s1" and "has_content s2" and "og_db g = []" and "is_sending i (og_deliveries g)"
    and "owned_outbox_row i (og_deliveries g) = None" and "\<not> og_outbox_window g"
    and "og_entries g i = Some \<lparr>en_window = True, en_draft = None, en_saves_pending = 0, en_announce_save = False, en_settled = False\<rparr>"
    and "db_drafts d = []"
  shows "(let (g1, d1) = cache_round env denv problem now (save_draft i s2 True (save_draft i s1 False g), d);
      (g2, d2) = cache_round env denv problem now (outcome_sent env i raw g1, d1)
    in map (\<lambda>r. (dr_id r, dr_compose_json r)) (db_drafts d2) = [(db_drafts_seq d + 1, de_json denv (s1\<lparr>cs_draft_id := None\<rparr>))])"
proof -
  let ?open = "\<lparr>en_window = True, en_draft = None, en_saves_pending = 0, en_announce_save = False, en_settled = False\<rparr>"
  let ?r = "db_drafts_seq d + 1"
  let ?gs = "save_draft i s2 True (save_draft i s1 False g)"
  have gs: "og_db ?gs = [SaveDraft None i (cs_account_id s1) (s1\<lparr>cs_draft_id := None\<rparr>),
        SaveDraft None i (cs_account_id s2) (s2\<lparr>cs_draft_id := None\<rparr>)]"
      "og_entries ?gs i = Some (?open\<lparr>en_saves_pending := 2, en_announce_save := True\<rparr>)"
      "og_deliveries ?gs = og_deliveries g" "og_outbox_window ?gs = og_outbox_window g"
    using assms(1-3,7) by (simp_all add: save_draft_def set_entry_def cache_command_def COMMAND_QUEUE_def Let_def)
  obtain g1 d1 where r1: "cache_round env denv problem now (?gs, d) = (g1, d1)" by fastforce
  have one: "sat_sub (2 :: u32) 1 = 1" "sat_sub (1 :: u32) 1 = 0" by (simp_all add: sat_sub_def)
  have g1: "og_db g1 = []" "og_entries g1 i = Some (?open\<lparr>en_draft := Some (?r + 1)\<rparr>)"
      "og_deliveries g1 = og_deliveries g" "\<not> og_outbox_window g1"
      "map (\<lambda>r. (dr_id r, dr_compose_json r)) (db_drafts d1) =
        [(?r, de_json denv (s1\<lparr>cs_draft_id := None\<rparr>)), (?r + 1, de_json denv (s2\<lparr>cs_draft_id := None\<rparr>))]"
    using r1 gs assms(6,8)
    by (auto simp: cache_round_def save_draft_row_def draft_saved_def set_entry_def tell_def forget_if_done_def
        one Let_def)
  have "map (\<lambda>r. (dr_id r, dr_compose_json r)) (db_drafts (snd (cache_round env denv problem now (outcome_sent env i raw g1, d1)))) =
      filter (\<lambda>r. fst r \<noteq> ?r + 1) (map (\<lambda>r. (dr_id r, dr_compose_json r)) (db_drafts d1))"
    using g1(1-4) assms(4,5)
    by (auto simp: is_sending_def owned_outbox_row_def cache_round_def outcome_sent_def delivered_send_def refresh_outbox_def
        settle_def set_entry_def cache_command_def COMMAND_QUEUE_def delete_draft_def filter_map comp_def Let_def split: option.splits)
  with g1(5) r1 show ?thesis by (simp add: Let_def split_beta)
qed

theorem overlapping_saves_leave_a_draft_witness:
  "(let (g1, d1) = cache_round demo_out_env demo_env None 9
        (save_draft 1 demo_message True (save_draft 1 demo_message False demo_sending), db_empty);
      (g2, d2) = cache_round demo_out_env demo_env None 9 (outcome_sent demo_out_env 1 [] g1, d1)
    in map dr_id (db_drafts d2) = [1])"
proof -
  have "has_content demo_message" "db_drafts db_empty = []"
    by (simp_all add: has_content_def demo_message_def db_empty_def)
  moreover have "is_sending 1 (og_deliveries demo_sending)"
    using demo_sending_fields(1) by (simp add: is_sending_def)
  moreover note demo_sending_window
  ultimately have this: "has_content demo_message" "is_sending 1 (og_deliveries demo_sending)"
    "\<not> og_outbox_window demo_sending" "db_drafts db_empty = []" by simp_all
  from overlapping_saves_leave_a_draft [OF this(1,1) demo_sending_fields(3) this(2) demo_sending_fields(2) this(3)
      demo_sending_fields(4) this(4), of demo_out_env demo_env None 9 "[]"]
  show ?thesis by (auto simp: Let_def split_beta db_empty_def)
qed

end
