(* ===== verification/Auth.thy ===== *)
theory Auth
  imports Config MailStore
begin

text \<open>
  How a connection proves who it is: \<open>crates/esmail/src/auth.rs\<close>, \<open>oauth.rs\<close> and
  \<open>secrets.rs\<close>.  The keyring is a map, the token endpoint, the JSON and URL parsers, SHA-256 and
  the random bytes are arguments; a sign-in's connections are the list of what each of them sent.
  A token source is shared by the connections of an account, so it lives in a table and \<open>Auth\<close>
  holds its address.  The lemmas show which request ends a browser sign-in, when an access token
  is handed out again, and that the server of \<open>MailStore\<close> understands the \<open>XOAUTH2\<close> response.
\<close>

section \<open>Lossy decoding\<close>

text \<open>\<open>String::from_utf8_lossy\<close>: a char and the bytes it takes, or the replacement char for the
  longest prefix of a char that the next byte breaks off.  Past the end a byte reads as zero.\<close>

definition lossy_head :: "byte \<Rightarrow> byte list \<Rightarrow> uchar \<times> nat" where
  "lossy_head b0 rest =
     (let b1 = (case rest of [] \<Rightarrow> 0 | b # _ \<Rightarrow> b);
          b2 = (case rest of _ # b # _ \<Rightarrow> b | _ \<Rightarrow> 0);
          b3 = (case rest of _ # _ # b # _ \<Rightarrow> b | _ \<Rightarrow> 0)
      in if b0 < 128 then (b0, 1)
      else if 194 \<le> b0 \<and> b0 < 224
      then (if is_cont b1 then ((b0 - 192) * 64 + (b1 - 128), 2) else (65533, 1))
      else if 224 \<le> b0 \<and> b0 < 240
      then (if \<not> (is_cont b1 \<and> (b0 = 224 \<longrightarrow> 160 \<le> b1) \<and> (b0 = 237 \<longrightarrow> b1 < 160)) then (65533, 1)
            else if is_cont b2 then ((b0 - 224) * 4096 + (b1 - 128) * 64 + (b2 - 128), 3) else (65533, 2))
      else if 240 \<le> b0 \<and> b0 < 245
      then (if \<not> (is_cont b1 \<and> (b0 = 240 \<longrightarrow> 144 \<le> b1) \<and> (b0 = 244 \<longrightarrow> b1 < 144)) then (65533, 1)
            else if \<not> is_cont b2 then (65533, 2)
            else if is_cont b3
            then ((b0 - 240) * 262144 + (b1 - 128) * 4096 + (b2 - 128) * 64 + (b3 - 128), 4) else (65533, 3))
      else (65533, 1))"

lemma lossy_head_pos: "0 < snd (lossy_head b rest)"
  by (simp add: lossy_head_def Let_def)

function from_utf8_lossy :: "byte list \<Rightarrow> str" where
  "from_utf8_lossy [] = []"
| "from_utf8_lossy (b # bs) =
     fst (lossy_head b bs) # from_utf8_lossy (drop (snd (lossy_head b bs)) (b # bs))"
  by pat_completeness auto
termination
  by (relation "measure length") (use lossy_head_pos in auto)

lemma lossy_head_3:
  assumes "x < 16" and "y < 64" and "z < 64" and "x = 0 \<Longrightarrow> 32 \<le> y" and "x = 13 \<Longrightarrow> y < 32"
  shows "lossy_head (224 + x) ((128 + y) # (128 + z) # rest) = (x * 4096 + y * 64 + z, 3)"
  using assms by (auto simp: lossy_head_def is_cont_def Let_def)

lemma lossy_head_4:
  assumes "x < 5" and "y < 64" and "z < 64" and "w < 64" and "x = 0 \<Longrightarrow> 16 \<le> y" and "x = 4 \<Longrightarrow> y < 16"
  shows "lossy_head (240 + x) ((128 + y) # (128 + z) # (128 + w) # rest) = (x * 262144 + y * 4096 + z * 64 + w, 4)"
  using assms by (auto simp: lossy_head_def is_cont_def Let_def)

lemma second_byte_bounds:
  fixes q :: nat
  shows "\<not> (864 \<le> q \<and> q < 896) \<Longrightarrow> q div 64 = 13 \<Longrightarrow> q mod 64 < 32"
    and "q < 272 \<Longrightarrow> q div 64 = 4 \<Longrightarrow> q mod 64 < 16"
  using div_mult_mod_eq [of q 64] mod_less_divisor [of 64 q] by (linarith | simp)+

lemma lossy_head_utf8:
  assumes "is_scalar c" and "utf8_char c = b # bs"
  shows "lossy_head b (bs @ rest) = (c, length (utf8_char c))"
proof -
  have c: "c < 1114112" "\<not> (55296 \<le> c \<and> c < 57344)" using assms(1) by (auto simp: is_scalar_def)
  have lt: "c div 64 mod 64 < 64" "c mod 64 < 64" "c div 4096 mod 64 < 64" by simp_all
  consider "c < 128" | "128 \<le> c" "c < 2048" | "2048 \<le> c" "c < 65536" | "65536 \<le> c" by linarith
  then show ?thesis
  proof cases
    case 1
    with assms(2) show ?thesis by (auto simp: utf8_char_def lossy_head_def)
  next
    case 2
    then have u: "b = 192 + c div 64" "bs = [128 + c mod 64]"
      using assms(2) by (simp_all add: utf8_char_def)
    have "2 \<le> c div 64" "c div 64 < 32" using 2 by auto
    with lt base64_digits(1) [of c] show ?thesis
      unfolding assms(2) by (simp add: u lossy_head_def is_cont_def)
  next
    case 3
    then have u: "b = 224 + c div 4096" "bs = [128 + c div 64 mod 64, 128 + c mod 64]"
      using assms(2) by (simp_all add: utf8_char_def)
    let ?q = "c div 64"
    have d: "c div 4096 = ?q div 64" by (simp add: div_mult2_eq [symmetric])
    have q: "32 \<le> ?q" "?q < 1024" "\<not> (864 \<le> ?q \<and> ?q < 896)" using 3 c(2) by auto
    have "lossy_head (224 + ?q div 64) ((128 + ?q mod 64) # (128 + c mod 64) # rest) =
        (?q div 64 * 4096 + ?q mod 64 * 64 + c mod 64, 3)"
    proof (rule lossy_head_3)
      show "?q div 64 < 16" using q(2) by auto
      show "?q div 64 = 0 \<Longrightarrow> 32 \<le> ?q mod 64" using q(1) div_mult_mod_eq [of ?q 64] by linarith
      show "?q div 64 = 13 \<Longrightarrow> ?q mod 64 < 32" by (rule second_byte_bounds(1) [OF q(3)])
    qed (rule lt)+
    with base64_digits(2) [of c] show ?thesis by (simp only: u assms(2) d list.size append_Cons append_Nil) simp
  next
    case 4
    then have u: "b = 240 + c div 262144"
      "bs = [128 + c div 4096 mod 64, 128 + c div 64 mod 64, 128 + c mod 64]"
      using assms(2) by (simp_all add: utf8_char_def)
    let ?q = "c div 4096"
    have d: "c div 262144 = ?q div 64" by (simp add: div_mult2_eq [symmetric])
    have q: "16 \<le> ?q" "?q < 272" using 4 c(1) by auto
    have "lossy_head (240 + ?q div 64) ((128 + ?q mod 64) # (128 + c div 64 mod 64) # (128 + c mod 64) # rest) =
        (?q div 64 * 262144 + ?q mod 64 * 4096 + c div 64 mod 64 * 64 + c mod 64, 4)"
    proof (rule lossy_head_4)
      show "?q div 64 < 5" using q(2) by auto
      show "?q div 64 = 0 \<Longrightarrow> 16 \<le> ?q mod 64" using q(1) div_mult_mod_eq [of ?q 64] by linarith
      show "?q div 64 = 4 \<Longrightarrow> ?q mod 64 < 16" by (rule second_byte_bounds(2) [OF q(2)])
    qed (rule lt)+
    with base64_digits(3) [of c] show ?thesis by (simp only: u assms(2) d list.size append_Cons append_Nil) simp
  qed
qed

lemma from_utf8_lossy_utf8: "list_all is_scalar s \<Longrightarrow> from_utf8_lossy (utf8 s) = s"
proof (induction s)
  case (Cons c s)
  then have c: "is_scalar c" by simp
  obtain b bs where u: "utf8_char c = b # bs" by (cases "utf8_char c") (simp_all add: utf8_char_def split: if_splits)
  from lossy_head_utf8 [OF c u] Cons show ?case by (simp add: utf8_Cons u)
qed simp

lemma from_utf8_lossy_ascii: "list_all (\<lambda>b. b < 128) bs \<Longrightarrow> from_utf8_lossy bs = bs"
  by (induction bs) (simp_all add: lossy_head_def)

lemma utf8_ascii: "list_all (\<lambda>b. b < 128) bs \<Longrightarrow> utf8 bs = bs"
  by (induction bs) (simp_all add: utf8_Cons utf8_char_def)

section \<open>Errors and time\<close>

text \<open>What \<open>anyhow::Error\<close> carries here: its text, and whether it is a \<open>SignInExpired\<close>.\<close>

datatype anyhow = Anyhow (err_text: str) | SignInExpired (err_text: str)

definition is_sign_in_expired :: "anyhow \<Rightarrow> bool" where
  "is_sign_in_expired e \<longleftrightarrow> (case e of SignInExpired _ \<Rightarrow> True | Anyhow _ \<Rightarrow> False)"

text \<open>An \<open>Instant\<close> in nanoseconds, a \<open>Duration\<close> too; \<open>i64::saturating_add\<close>.\<close>

type_synonym instant = nat

definition from_secs :: "nat \<Rightarrow> nat" where
  "from_secs n = n * 1000000000"

definition i64_saturating_add :: "int \<Rightarrow> int \<Rightarrow> int" where
  "i64_saturating_add a b = max (- (2 ^ 63)) (min (2 ^ 63 - 1) (a + b))"

definition EXPIRY_MARGIN :: nat where "EXPIRY_MARGIN = from_secs 60"
definition MAX_TOKEN_LIFETIME_SECS :: u64 where "MAX_TOKEN_LIFETIME_SECS = 24 * 60 * 60"
definition TESTING_MODE_REFRESH_TOKEN_LIFETIME :: nat where
  "TESTING_MODE_REFRESH_TOKEN_LIFETIME = from_secs (7 * 24 * 60 * 60)"
definition REFRESH_TOKEN_WARNING_MARGIN :: nat where
  "REFRESH_TOKEN_WARNING_MARGIN = from_secs (2 * 24 * 60 * 60)"

definition as_secs :: "nat \<Rightarrow> int" where
  "as_secs d = int (d div 1000000000)"

definition refresh_token_expiring_soon :: "int option \<Rightarrow> int \<Rightarrow> bool" where
  "refresh_token_expiring_soon issued_at now =
     (case issued_at of
        None \<Rightarrow> False
      | Some issued_at \<Rightarrow>
          i64_saturating_add now (as_secs REFRESH_TOKEN_WARNING_MARGIN)
            \<ge> i64_saturating_add issued_at (as_secs TESTING_MODE_REFRESH_TOKEN_LIFETIME))"

section \<open>The registered client\<close>

record oauth_client =
  oa_client_id :: str
  oa_client_secret :: "str option"
  oa_auth_url :: str
  oa_token_url :: str
  oa_scope :: str

definition GOOGLE_AUTH_URL :: str where
  "GOOGLE_AUTH_URL = lit ''https://accounts.google.com/o/oauth2/v2/auth''"
definition GOOGLE_TOKEN_URL :: str where
  "GOOGLE_TOKEN_URL = lit ''https://oauth2.googleapis.com/token''"
definition GOOGLE_MAIL_SCOPE :: str where
  "GOOGLE_MAIL_SCOPE = lit ''https://mail.google.com/''"

definition oauth_client_google :: "str \<Rightarrow> str option \<Rightarrow> oauth_client" where
  "oauth_client_google client_id client_secret =
     \<lparr>oa_client_id = client_id, oa_client_secret = client_secret, oa_auth_url = GOOGLE_AUTH_URL,
      oa_token_url = GOOGLE_TOKEN_URL, oa_scope = GOOGLE_MAIL_SCOPE\<rparr>"

datatype client_source = Environment | ConfigFile | Build

definition client_source_label :: "client_source \<Rightarrow> str" where
  "client_source_label s = (case s of
     Environment \<Rightarrow> lit ''environment variables''
   | ConfigFile \<Rightarrow> lit ''saved settings''
   | Build \<Rightarrow> lit ''the build'')"

definition non_empty :: "str option \<Rightarrow> str option" where
  "non_empty v = (case v of None \<Rightarrow> None | Some v \<Rightarrow> if trim v = [] then None else Some (trim v))"

definition client_candidates ::
  "str option \<times> str option \<Rightarrow> oauth_client_config option \<Rightarrow> str option \<times> str option \<Rightarrow>
   (client_source \<times> str option \<times> str option) list" where
  "client_candidates environment configured build =
     [(Environment, non_empty (fst environment), non_empty (snd environment)),
      (ConfigFile, Option.bind configured (\<lambda>c. non_empty (Some (oc_client_id c))),
         Option.bind configured (\<lambda>c. non_empty (oc_client_secret c))),
      (Build, non_empty (fst build), non_empty (snd build))]"

fun find_client :: "(client_source \<times> str option \<times> str option) list \<Rightarrow> (oauth_client \<times> client_source) option" where
  "find_client [] = None"
| "find_client ((source, Some i, secret) # rest) = Some (oauth_client_google i secret, source)"
| "find_client ((source, None, secret) # rest) = find_client rest"

definition resolve_google_client ::
  "str option \<times> str option \<Rightarrow> oauth_client_config option \<Rightarrow> str option \<times> str option \<Rightarrow>
   (oauth_client \<times> client_source) option" where
  "resolve_google_client environment configured build =
     find_client (client_candidates environment configured build)"

section \<open>The browser round trip\<close>

record pending_authorization =
  pa_params :: "(str \<times> str) list"
  pa_redirect_uri :: str
  pa_state :: str
  pa_verifier :: str

text \<open>\<open>b64\<close> is the unpadded URL-safe base64 encoder and \<open>sha256\<close> the digest; the two byte lists
  are the random ones the system gave.  \<open>Url::parse_with_params\<close> appends the parameters to the
  client's \<open>auth_url\<close>.\<close>

definition pkce_challenge :: "(byte list \<Rightarrow> str) \<Rightarrow> (byte list \<Rightarrow> byte list) \<Rightarrow> str \<Rightarrow> str" where
  "pkce_challenge b64 sha256 verifier = b64 (sha256 (utf8 verifier))"

definition begin_authorization ::
  "(byte list \<Rightarrow> str) \<Rightarrow> (byte list \<Rightarrow> byte list) \<Rightarrow> oauth_client \<Rightarrow> str \<Rightarrow> u16 \<Rightarrow> byte list \<Rightarrow> byte list \<Rightarrow>
   pending_authorization" where
  "begin_authorization b64 sha256 client login_hint port random32 random16 =
     (let redirect_uri = lit ''http://127.0.0.1:'' @ dec_digits (unat port);
          verifier = b64 random32;
          state = b64 random16;
          params = [(lit ''client_id'', oa_client_id client), (lit ''redirect_uri'', redirect_uri),
            (lit ''response_type'', lit ''code''), (lit ''scope'', oa_scope client), (lit ''state'', state),
            (lit ''code_challenge_method'', lit ''S256''),
            (lit ''code_challenge'', pkce_challenge b64 sha256 verifier),
            (lit ''access_type'', lit ''offline''), (lit ''prompt'', lit ''consent'')] @
            (if trim login_hint \<noteq> [] then [(lit ''login_hint'', trim login_hint)] else [])
      in \<lparr>pa_params = params, pa_redirect_uri = redirect_uri, pa_state = state, pa_verifier = verifier\<rparr>)"

text \<open>A connection is what each read of it gives: \<open>None\<close> an I/O error, no bytes the end of the
  stream.  When there is nothing more to read the peer is silent, and the read times out.\<close>

type_synonym connection = "byte list option list"

fun read_request :: "byte list \<Rightarrow> connection \<Rightarrow> byte list option" where
  "read_request buf reads =
     (if \<not> (length buf < 8192 \<and> 10 \<notin> set buf) then Some buf
      else case reads of
        [] \<Rightarrow> None
      | None # _ \<Rightarrow> None
      | Some chunk # rest \<Rightarrow> if chunk = [] then Some buf else read_request (buf @ chunk) rest)"

declare read_request.simps [simp del]

definition read_request_line :: "connection \<Rightarrow> str option" where
  "read_request_line reads =
     map_option (\<lambda>buf. trim_end (\<lambda>c. c = 13) (from_utf8_lossy (takeWhile (\<lambda>b. b \<noteq> 10) buf)))
       (read_request [] reads)"

definition respond :: "str \<Rightarrow> str \<Rightarrow> byte list" where
  "respond status message =
     (let body = lit ''<!doctype html><html><head><meta charset='' @ [34] @ lit ''utf-8'' @ [34] @
            lit ''><title>esmail</title></head><body style='' @ [34] @ lit ''font-family:sans-serif;margin:3em'' @ [34] @
            lit ''><p>'' @ message @ lit ''</p></body></html>''
      in utf8 (lit ''HTTP/1.1 '' @ status @ [13, 10] @ lit ''Content-Type: text/html; charset=utf-8'' @ [13, 10] @
           lit ''Content-Length: '' @ dec_digits (length (utf8 body)) @ [13, 10] @
           lit ''Connection: close'' @ [13, 10, 13, 10] @ body))"

datatype redirect_reply = Malformed | NotFound | WrongState | NotCompleted | MissingCode | SignedIn

definition reply_bytes :: "redirect_reply \<Rightarrow> byte list" where
  "reply_bytes r = (case r of
     Malformed \<Rightarrow> respond (lit ''400 Bad Request'') (lit ''Bad request.'')
   | NotFound \<Rightarrow> respond (lit ''404 Not Found'') (lit ''Not found.'')
   | WrongState \<Rightarrow> respond (lit ''400 Bad Request'') (lit ''This sign-in link does not match the request esmail made.'')
   | NotCompleted \<Rightarrow> respond (lit ''200 OK'')
       (lit ''Sign-in was not completed. You can close this tab and return to esmail.'')
   | MissingCode \<Rightarrow> respond (lit ''400 Bad Request'') (lit ''Missing authorization code.'')
   | SignedIn \<Rightarrow> respond (lit ''200 OK'') (lit ''Signed in. You can close this tab and return to esmail.''))"

definition query_param :: "(str \<times> str) list \<Rightarrow> str \<Rightarrow> str option" where
  "query_param pairs name = map_option snd (find (\<lambda>p. fst p = name) pairs)"

text \<open>What one connection does to the wait: nothing, or end it.  \<open>url\<close> parses a URL to its path
  and its query pairs.\<close>

definition redirect_request ::
  "(str \<Rightarrow> (str \<times> (str \<times> str) list) option) \<Rightarrow> str \<Rightarrow> connection \<Rightarrow>
   (anyhow + str) option \<times> redirect_reply option" where
  "redirect_request url expected_state conn =
     (case read_request_line conn of
        None \<Rightarrow> (None, None)
      | Some request_line \<Rightarrow>
          (case split_whitespace request_line of
             _ # target # _ \<Rightarrow>
               (case url (lit ''http://127.0.0.1'' @ target) of
                  None \<Rightarrow> (None, Some Malformed)
                | Some (path, pairs) \<Rightarrow>
                    if path \<noteq> lit ''/'' then (None, Some NotFound)
                    else if query_param pairs (lit ''state'') \<noteq> Some expected_state then (None, Some WrongState)
                    else case query_param pairs (lit ''error'') of
                      Some error \<Rightarrow> (Some (Inl (Anyhow (lit ''Google sign-in was not completed ('' @ error @ lit '')''))),
                          Some NotCompleted)
                    | None \<Rightarrow>
                        (case query_param pairs (lit ''code'') of
                           None \<Rightarrow> (None, Some MissingCode)
                         | Some code \<Rightarrow> (Some (Inr code), Some SignedIn)))
           | _ \<Rightarrow> (None, Some Malformed)))"

text \<open>\<open>Inl\<close> in the list is an \<open>accept\<close> that failed, with its error; the result \<open>None\<close> is still
  waiting.\<close>

fun await_redirect ::
  "(str \<Rightarrow> (str \<times> (str \<times> str) list) option) \<Rightarrow> str \<Rightarrow> (str + connection) list \<Rightarrow>
   (anyhow + str) option \<times> redirect_reply option list" where
  "await_redirect url st [] = (None, [])"
| "await_redirect url st (Inl e # rest) = (Some (Inl (Anyhow e)), [])"
| "await_redirect url st (Inr conn # rest) =
     (case redirect_request url st conn of
        (Some outcome, r) \<Rightarrow> (Some outcome, [r])
      | (None, r) \<Rightarrow> (case await_redirect url st rest of (outcome, rs) \<Rightarrow> (outcome, r # rs)))"

section \<open>The token endpoint\<close>

record token_grant =
  tg_access_token :: str
  tg_expires_at :: instant
  tg_refresh_token :: "str option"

record token_response =
  tr_access_token :: "str option"
  tr_expires_in :: "u64 option"
  tr_refresh_token :: "str option"
  tr_error :: "str option"
  tr_error_description :: "str option"

definition client_form :: "oauth_client \<Rightarrow> (str \<times> str) list" where
  "client_form client =
     (lit ''client_id'', oa_client_id client) #
     (case oa_client_secret client of Some secret \<Rightarrow> [(lit ''client_secret'', secret)] | None \<Rightarrow> [])"

definition parse_token_response ::
  "(str \<Rightarrow> token_response option) \<Rightarrow> u16 \<Rightarrow> str \<Rightarrow> instant \<Rightarrow> anyhow + token_grant" where
  "parse_token_response json status body now =
     (case json body of
        None \<Rightarrow> Inl (Anyhow (lit ''the OAuth token endpoint answered HTTP '' @ dec_digits (unat status) @
            lit '' with something that is not JSON''))
      | Some parsed \<Rightarrow>
          (case tr_error parsed of
             Some error \<Rightarrow>
               (let detail = (case tr_error_description parsed of Some d \<Rightarrow> lit '': '' @ d | None \<Rightarrow> []) in
                if error = lit ''invalid_grant'' \<or> error = lit ''unauthorized_client''
                then Inl (SignInExpired (lit ''Google no longer accepts the saved sign-in'' @ detail @
                    lit ''. Sign in with Google again.''))
                else if error = lit ''invalid_client''
                then Inl (Anyhow (lit ''Google rejected the OAuth client ID or secret'' @ detail @
                    lit ''. Check them under Settings.''))
                else Inl (Anyhow (lit ''Google sign-in failed ('' @ error @ detail @ lit '')'')))
           | None \<Rightarrow>
               (case tr_access_token parsed of
                  None \<Rightarrow> Inl (Anyhow (lit ''the OAuth token response had no access_token (HTTP '' @
                      dec_digits (unat status) @ lit '')''))
                | Some access_token \<Rightarrow>
                    (let lifetime = from_secs (unat (min (case tr_expires_in parsed of Some n \<Rightarrow> n | None \<Rightarrow> 3600)
                           MAX_TOKEN_LIFETIME_SECS))
                     in Inr \<lparr>tg_access_token = access_token, tg_expires_at = now + lifetime,
                          tg_refresh_token = tr_refresh_token parsed\<rparr>))))"

datatype http_result = Unreachable | Unreadable | Answer u16 str

text \<open>The world of a token request: what posting a form gives and leaves, the clock, and the JSON
  parser.\<close>

record 'w token_env =
  te_post :: "str \<Rightarrow> (str \<times> str) list \<Rightarrow> 'w \<Rightarrow> http_result \<times> 'w"
  te_now :: "'w \<Rightarrow> instant"
  te_json :: "str \<Rightarrow> token_response option"

definition token_request ::
  "'w token_env \<Rightarrow> oauth_client \<Rightarrow> (str \<times> str) list \<Rightarrow> 'w \<Rightarrow> (anyhow + token_grant) \<times> 'w" where
  "token_request env client form w =
     (case te_post env (oa_token_url client) form w of
        (Unreachable, w) \<Rightarrow> (Inl (Anyhow (lit ''could not reach the OAuth token endpoint'')), w)
      | (Unreadable, w) \<Rightarrow> (Inl (Anyhow (lit ''could not read the OAuth token response'')), w)
      | (Answer status body, w) \<Rightarrow> (parse_token_response (te_json env) status body (te_now env w), w))"

definition finish_authorization ::
  "'w token_env \<Rightarrow> (str \<Rightarrow> (str \<times> (str \<times> str) list) option) \<Rightarrow> oauth_client \<Rightarrow> pending_authorization \<Rightarrow>
   (str + connection) list \<Rightarrow> 'w \<Rightarrow> (anyhow + token_grant) \<times> 'w" where
  "finish_authorization env url client pending incoming w =
     (case fst (await_redirect url (pa_state pending) incoming) of
        None \<Rightarrow> (Inl (Anyhow (lit ''timed out waiting for the Google sign-in to finish in the browser'')), w)
      | Some (Inl e) \<Rightarrow> (Inl e, w)
      | Some (Inr code) \<Rightarrow>
          token_request env client
            (client_form client @ [(lit ''grant_type'', lit ''authorization_code''), (lit ''code'', code),
               (lit ''redirect_uri'', pa_redirect_uri pending), (lit ''code_verifier'', pa_verifier pending)]) w)"

section \<open>Access tokens over time\<close>

text \<open>\<open>ts_rotation\<close>: a callback is registered; \<open>ts_notified\<close> the tokens it was called with.\<close>

record token_source =
  ts_client :: oauth_client
  ts_refresh_token :: str
  ts_issued_at :: "int option"
  ts_access :: "(str \<times> instant) option"
  ts_rotation :: bool
  ts_notified :: "str list"

definition from_refresh_token :: "oauth_client \<Rightarrow> str \<Rightarrow> token_source" where
  "from_refresh_token client refresh_token =
     \<lparr>ts_client = client, ts_refresh_token = refresh_token, ts_issued_at = None, ts_access = None,
      ts_rotation = False, ts_notified = []\<rparr>"

definition from_grant :: "oauth_client \<Rightarrow> token_grant \<Rightarrow> int \<Rightarrow> anyhow + token_source" where
  "from_grant client grant now_unix =
     (case tg_refresh_token grant of
        None \<Rightarrow> Inl (Anyhow (lit ''Google did not return a refresh token, so the sign-in cannot be kept. Remove esmail under Google Account > Security > Third-party access and sign in again.''))
      | Some refresh_token \<Rightarrow>
          Inr \<lparr>ts_client = client, ts_refresh_token = refresh_token, ts_issued_at = Some now_unix,
               ts_access = Some (tg_access_token grant, tg_expires_at grant),
               ts_rotation = False, ts_notified = []\<rparr>)"

definition on_rotation :: "token_source \<Rightarrow> token_source" where
  "on_rotation s = s\<lparr>ts_rotation := True\<rparr>"

definition rotate_token :: "str \<Rightarrow> token_source \<Rightarrow> token_source" where
  "rotate_token rotated s =
     (let s = s\<lparr>ts_refresh_token := rotated\<rparr>
      in if ts_rotation s then s\<lparr>ts_notified := ts_notified s @ [rotated]\<rparr> else s)"

definition refresh_form :: "token_source \<Rightarrow> (str \<times> str) list" where
  "refresh_form s =
     client_form (ts_client s) @
     [(lit ''grant_type'', lit ''refresh_token''), (lit ''refresh_token'', ts_refresh_token s)]"

definition usable_token :: "instant \<Rightarrow> token_source \<Rightarrow> str option" where
  "usable_token now s =
     (case ts_access s of
        Some (token, expires_at) \<Rightarrow> if expires_at > now + EXPIRY_MARGIN then Some token else None
      | None \<Rightarrow> None)"

definition access_token :: "'w token_env \<Rightarrow> token_source \<Rightarrow> 'w \<Rightarrow> (anyhow + str) \<times> token_source \<times> 'w" where
  "access_token env s w =
     (case usable_token (te_now env w) s of
        Some token \<Rightarrow> (Inr token, s, w)
      | None \<Rightarrow>
          (case token_request env (ts_client s) (refresh_form s) w of
             (Inl e, w) \<Rightarrow> (Inl e, s, w)
           | (Inr grant, w) \<Rightarrow>
               (let s = (case tg_refresh_token grant of Some rotated \<Rightarrow> rotate_token rotated s | None \<Rightarrow> s);
                    s = s\<lparr>ts_access := Some (tg_access_token grant, tg_expires_at grant)\<rparr>
                in (Inr (tg_access_token grant), s, w))))"

section \<open>The keyring\<close>

text \<open>\<open>secrets.rs\<close>: entries of the operating system's keyring are named by a service and a user.\<close>

type_synonym keyring = "str \<times> str \<rightharpoonup> str"

definition SERVICE :: str where "SERVICE = lit ''esmail''"

text \<open>\<open>service_var\<close> is the environment variable that names another service.\<close>

definition keyring_entry :: "str option \<Rightarrow> str \<Rightarrow> str \<Rightarrow> str \<times> str" where
  "keyring_entry service_var account_id kind =
     (case service_var of Some s \<Rightarrow> s | None \<Rightarrow> SERVICE, account_id @ lit '':'' @ kind)"

definition set_password :: "str option \<Rightarrow> str \<Rightarrow> str \<Rightarrow> str \<Rightarrow> keyring \<Rightarrow> keyring" where
  "set_password sv account_id kind password kr = kr(keyring_entry sv account_id kind \<mapsto> password)"

definition get_password :: "str option \<Rightarrow> str \<Rightarrow> str \<Rightarrow> keyring \<Rightarrow> str option" where
  "get_password sv account_id kind kr = kr (keyring_entry sv account_id kind)"

text \<open>\<open>kept\<close> are the entries that the system does not delete (a locked keyring, an entry that is refused):
  the error is dropped and the entry stays.\<close>

definition delete_password :: "(str \<times> str) set \<Rightarrow> str option \<Rightarrow> str \<Rightarrow> str \<Rightarrow> keyring \<Rightarrow> keyring" where
  "delete_password kept sv account_id kind kr =
     (if keyring_entry sv account_id kind \<in> kept then kr else kr(keyring_entry sv account_id kind := None))"

section \<open>What an account signs in with\<close>

text \<open>\<open>AuthOAuth\<close> is the address of a token source, shared by every connection of the account.\<close>

datatype auth = AuthPassword str | AuthOAuth nat

definition is_oauth :: "auth \<Rightarrow> bool" where
  "is_oauth a = (case a of AuthOAuth _ \<Rightarrow> True | AuthPassword _ \<Rightarrow> False)"

type_synonym sources = "token_source list"

definition auth_secret ::
  "'w token_env \<Rightarrow> auth \<Rightarrow> sources \<Rightarrow> 'w \<Rightarrow> (anyhow + str) \<times> sources \<times> 'w" where
  "auth_secret env a sources w =
     (case a of
        AuthPassword password \<Rightarrow> (Inr password, sources, w)
      | AuthOAuth i \<Rightarrow>
          (case access_token env (sources ! i) w of
             (r, s, w) \<Rightarrow> (r, sources[i := s], w)))"

text \<open>The ambient configuration of the sign-in: the two environment variables and their values at
  build time, and the variable that names the keyring service.\<close>

record sign_in_env =
  si_environment :: "str option \<times> str option"
  si_build :: "str option \<times> str option"
  si_service_var :: "str option"

definition saved_auth ::
  "sign_in_env \<Rightarrow> config \<Rightarrow> account_config \<Rightarrow> keyring \<Rightarrow> sources \<Rightarrow> (str + auth) \<times> sources" where
  "saved_auth env config account kr sources =
     (case ac_auth account of
        PasswordAuth \<Rightarrow>
          (case get_password (si_service_var env) (ac_id account) (lit ''imap'') kr of
             Some p \<Rightarrow> (Inr (AuthPassword p), sources)
           | None \<Rightarrow> (Inl (lit ''no saved password''), sources))
      | GoogleOAuth \<Rightarrow>
          (case resolve_google_client (si_environment env) (cfg_google_oauth config) (si_build env) of
             None \<Rightarrow> (Inl (lit ''Google sign-in needs an OAuth client id (Settings > Google)''), sources)
           | Some (client, _) \<Rightarrow>
               (case get_password (si_service_var env) (ac_id account) (lit ''oauth'') kr of
                  None \<Rightarrow> (Inl (lit ''not signed in with Google yet (Settings > Accounts > Sign in)''), sources)
                | Some refresh_token \<Rightarrow>
                    (Inr (AuthOAuth (length sources)), sources @ [from_refresh_token client refresh_token]))))"

definition oauth_expiry_warning :: "account_config \<Rightarrow> int \<Rightarrow> str option" where
  "oauth_expiry_warning account now =
     (if ac_auth account \<noteq> GoogleOAuth \<or>
         \<not> refresh_token_expiring_soon (ac_oauth_token_issued_at account) now then None
      else Some (ac_display_name account @
        lit '': Google sign-in expires soon. Sign in with Google again under Settings > Accounts to stay connected.''))"

definition xoauth2_initial_response :: "str \<Rightarrow> str \<Rightarrow> str" where
  "xoauth2_initial_response user token = lit ''user='' @ user @ [1] @ lit ''auth=Bearer '' @ token @ [1, 1]"

text \<open>The authenticator: the response is taken by the first challenge.\<close>

type_synonym xoauth2 = "str option"

definition xoauth2_new :: "str \<Rightarrow> str \<Rightarrow> xoauth2" where
  "xoauth2_new user token = Some (xoauth2_initial_response user token)"

definition xoauth2_process :: "xoauth2 \<Rightarrow> str \<times> xoauth2" where
  "xoauth2_process a = (case a of Some r \<Rightarrow> (r, None) | None \<Rightarrow> ([], None))"

section \<open>The response and the server that reads it\<close>

lemma xoauth2_payload_eq: "utf8 (xoauth2_initial_response user token) = xoauth2_payload user token"
  by (simp add: xoauth2_initial_response_def xoauth2_payload_def)

lemma check_xoauth2_payload:
  assumes "list_all is_scalar (user @ token)" and "1 \<notin> set (user @ token)"
  shows "check_xoauth2 (xoauth2_payload user token) s =
    (if map_of (st_oauth_tokens s) user = Some token then Some user else None)"
proof -
  let ?s = "s\<lparr>st_oauth_tokens := [(user, token)]\<rparr>"
  have "check_xoauth2 (xoauth2_payload user token) ?s = Some user"
    using assms by (rule check_xoauth2_complete) simp
  then obtain decoded where d: "from_utf8 (xoauth2_payload user token) = Some decoded"
    and f: "foldl xoauth2_field (None, None) (split_on (\<lambda>c. c = 1) decoded) = (Some user, Some token)"
    by (auto simp: check_xoauth2_def split: option.splits prod.splits if_splits)
  then show ?thesis by (simp add: check_xoauth2_def)
qed

text \<open>The \<open>XOAUTH2\<close> response the client sends signs in on the server exactly when the server
  knows this token for this user, and as that user; a challenge after the first is answered with
  nothing, which is what ends a rejected sign-in.\<close>

theorem xoauth2_signs_in:
  assumes "list_all is_scalar (user @ token)" and "1 \<notin> set (user @ token)"
  shows "(let (response, a) = xoauth2_process (xoauth2_new user token) in
      check_xoauth2 (utf8 response) s = (if map_of (st_oauth_tokens s) user = Some token then Some user else None) \<and>
      xoauth2_process a = ([], a))"
  by (simp add: xoauth2_process_def xoauth2_new_def xoauth2_payload_eq check_xoauth2_payload [OF assms])

theorem xoauth2_signs_in_witness:
  "check_xoauth2 (utf8 (fst (xoauth2_process (xoauth2_new (lit ''me'') (lit ''tok'')))))
     (add_oauth_token (lit ''me'') (lit ''tok'') store_new) = Some (lit ''me'')"
proof -
  have "list_all is_scalar (lit ''me'' @ lit ''tok'')" "1 \<notin> set (lit ''me'' @ lit ''tok'')"
    by (simp_all add: lit_def is_scalar_def)
  from xoauth2_signs_in [OF this, of "add_oauth_token (lit ''me'') (lit ''tok'') store_new"]
  show ?thesis by (simp add: split_beta add_oauth_token_def store_new_def)
qed

section \<open>Which request ends a sign-in\<close>

text \<open>The query pairs of a request for the redirect.\<close>

definition redirect_pairs ::
  "(str \<Rightarrow> (str \<times> (str \<times> str) list) option) \<Rightarrow> connection \<Rightarrow> (str \<times> str) list option" where
  "redirect_pairs url conn =
     Option.bind (read_request_line conn) (\<lambda>line.
       case split_whitespace line of
         _ # target # _ \<Rightarrow>
           (case url (lit ''http://127.0.0.1'' @ target) of
              Some (path, pairs) \<Rightarrow> if path = lit ''/'' then Some pairs else None
            | None \<Rightarrow> None)
       | _ \<Rightarrow> None)"

lemma redirect_request_pairs:
  "fst (redirect_request url st conn) =
     (case redirect_pairs url conn of
        None \<Rightarrow> None
      | Some pairs \<Rightarrow>
          if query_param pairs (lit ''state'') \<noteq> Some st then None
          else case query_param pairs (lit ''error'') of
            Some error \<Rightarrow> Some (Inl (Anyhow (lit ''Google sign-in was not completed ('' @ error @ lit '')'')))
          | None \<Rightarrow> map_option Inr (query_param pairs (lit ''code'')))"
  by (simp add: redirect_request_def redirect_pairs_def split: option.split list.split)

lemma await_skips:
  "(\<And>c. c \<in> set noise \<Longrightarrow> fst (redirect_request url st c) = None) \<Longrightarrow>
   fst (await_redirect url st (map Inr noise @ rest)) = fst (await_redirect url st rest)"
  by (induction noise) (simp_all add: split_beta split: prod.split)

lemma await_ends:
  "fst (await_redirect url st incoming) = Some outcome \<Longrightarrow>
   \<exists>noise last rest. incoming = map Inr noise @ last # rest \<and>
     (\<forall>c\<in>set noise. fst (redirect_request url st c) = None) \<and>
     (case last of Inl e \<Rightarrow> outcome = Inl (Anyhow e) | Inr c \<Rightarrow> fst (redirect_request url st c) = Some outcome)"
proof (induction url st incoming rule: await_redirect.induct)
  case (2 url st e rest)
  then show ?case by (intro exI [of _ "[]"]) auto
next
  case (3 url st conn rest)
  show ?case
  proof (cases "fst (redirect_request url st conn)")
    case None
    with 3 obtain noise last rest' where "rest = map Inr noise @ last # rest'"
      "\<forall>c\<in>set noise. fst (redirect_request url st c) = None"
      "case last of Inl e \<Rightarrow> outcome = Inl (Anyhow e) | Inr c \<Rightarrow> fst (redirect_request url st c) = Some outcome"
      by (cases "redirect_request url st conn") (auto simp: split_beta)
    with None show ?thesis by (intro exI [of _ "conn # noise"] exI [of _ last] exI [of _ rest']) auto
  next
    case (Some o1)
    with 3 show ?thesis
      by (cases "redirect_request url st conn") (intro exI [of _ "[]"], auto)
  qed
qed simp

text \<open>C30. A sign-in takes its code only from a request for the redirect that carries the state
  esmail made up, names no error, and is the first such request; whatever arrived before it, a
  silent connection, another path, another state, a request without a code, was passed over.\<close>

theorem code_comes_with_our_state:
  assumes "fst (await_redirect url st incoming) = Some (Inr code)"
  shows "\<exists>noise conn rest pairs. incoming = map Inr noise @ Inr conn # rest \<and>
    redirect_pairs url conn = Some pairs \<and> query_param pairs (lit ''state'') = Some st \<and>
    query_param pairs (lit ''error'') = None \<and> query_param pairs (lit ''code'') = Some code \<and>
    (\<forall>c\<in>set noise. \<forall>ps. redirect_pairs url c = Some ps \<longrightarrow> query_param ps (lit ''state'') = Some st \<longrightarrow>
       query_param ps (lit ''error'') = None \<and> query_param ps (lit ''code'') = None)"
proof -
  from await_ends [OF assms] obtain noise last rest where i: "incoming = map Inr noise @ last # rest"
    and n: "\<forall>c\<in>set noise. fst (redirect_request url st c) = None"
    and l: "case last of Inl e \<Rightarrow> Inr code = (Inl (Anyhow e) :: anyhow + str)
      | Inr c \<Rightarrow> fst (redirect_request url st c) = Some (Inr code)"
    by blast
  from l obtain conn where c: "last = Inr conn" "fst (redirect_request url st conn) = Some (Inr code)"
    by (cases last) auto
  then obtain pairs where "redirect_pairs url conn = Some pairs" "query_param pairs (lit ''state'') = Some st"
    "query_param pairs (lit ''error'') = None" "query_param pairs (lit ''code'') = Some code"
    by (auto simp: redirect_request_pairs split: option.splits if_splits)
  moreover have "\<forall>c\<in>set noise. \<forall>ps. redirect_pairs url c = Some ps \<longrightarrow> query_param ps (lit ''state'') = Some st \<longrightarrow>
       query_param ps (lit ''error'') = None \<and> query_param ps (lit ''code'') = None"
    using n by (fastforce simp: redirect_request_pairs split: option.splits if_splits)
  ultimately show ?thesis using i c by blast
qed

definition demo_url :: "str \<Rightarrow> (str \<times> (str \<times> str) list) option" where
  "demo_url u =
     map_option (\<lambda>target. case split_once 63 target of
         None \<Rightarrow> (target, [])
       | Some (path, query) \<Rightarrow> (path, filter_map (split_once 61) (split_on (\<lambda>c. c = 38) query)))
       (strip_prefix (lit ''http://127.0.0.1'') u)"

definition demo_request :: "string \<Rightarrow> connection" where
  "demo_request l = [Some (utf8 (lit l @ [13, 10]))]"

definition demo_requests :: "(str + connection) list" where
  "demo_requests = map (\<lambda>l. Inr (demo_request l))
     [''GET /favicon.ico HTTP/1.1'', ''GET /?state=x&code=evil HTTP/1.1'', ''HELO'',
      ''GET /?state=s&code=c HTTP/1.1'', ''GET /?state=s&code=d HTTP/1.1'']"

lemma demo_request_line:
  assumes "list_all (\<lambda>c. c < 128 \<and> c \<noteq> 10 \<and> c \<noteq> 13) (lit s)"
  shows "read_request_line (demo_request s) = Some (lit s)"
proof -
  let ?l = "lit s"
  have u: "utf8 (?l @ [13, 10]) = ?l @ [13, 10]" using assms(1) by (simp add: utf8_ascii list_all_iff)
  have n: "10 \<notin> set ?l" "13 \<notin> set ?l" using assms(1) by (auto simp: list_all_iff)
  have "takeWhile (\<lambda>b. b \<noteq> 10) (?l @ [13, 10]) = ?l @ [13]"
    using n(1) by (subst takeWhile_append2) auto
  moreover have "from_utf8_lossy (?l @ [13]) = ?l @ [13]"
    using assms(1) by (intro from_utf8_lossy_ascii) (auto simp: list_all_iff)
  moreover have "trim_end (\<lambda>c. c = 13) (?l @ [13]) = ?l"
    using n(2) by (simp add: trim_end_def) (metis (mono_tags, lifting) dropWhile_eq_self_iff hd_in_set rev_rev_ident set_rev)
  moreover have "read_request [] [Some (?l @ [13, 10])] = Some (?l @ [13, 10])"
    by (simp add: read_request.simps)
  ultimately show ?thesis by (simp only: demo_request_def read_request_line_def u option.map)
qed

lemma demo_sign_in: "fst (await_redirect demo_url (lit ''s'') demo_requests) = Some (Inr (lit ''c''))"
  by (simp add: demo_requests_def demo_request_line redirect_request_def demo_url_def lit_def
      split_whitespace_def is_whitespace_def query_param_def)

theorem code_comes_with_our_state_witness:
  "\<exists>noise conn rest pairs. demo_requests = map Inr noise @ Inr conn # rest \<and>
     redirect_pairs demo_url conn = Some pairs \<and> query_param pairs (lit ''state'') = Some (lit ''s'') \<and>
     query_param pairs (lit ''code'') = Some (lit ''c'')"
  using code_comes_with_our_state [OF demo_sign_in] by blast

section \<open>How long an access token is used\<close>

lemma usable_token_Some:
  "usable_token now s = Some t \<longleftrightarrow> (\<exists>e. ts_access s = Some (t, e) \<and> now + EXPIRY_MARGIN < e)"
  by (auto simp: usable_token_def split: option.split)

lemma token_request_bounds:
  assumes "token_request env client form w = (Inr grant, w')"
  shows "te_now env w' \<le> tg_expires_at grant \<and> tg_expires_at grant \<le> te_now env w' + from_secs 86400"
proof -
  have m: "unat (min n MAX_TOKEN_LIFETIME_SECS) \<le> 86400" for n
    using min.cobounded2 [of n MAX_TOKEN_LIFETIME_SECS]
    by (simp add: MAX_TOKEN_LIFETIME_SECS_def word_le_nat_alt)
  from assms obtain status body where
    "parse_token_response (te_json env) status body (te_now env w') = Inr grant"
    by (auto simp: token_request_def split: prod.splits http_result.splits)
  then obtain n where "tg_expires_at grant = te_now env w' + from_secs (unat (min n MAX_TOKEN_LIFETIME_SECS))"
    by (auto simp: parse_token_response_def Let_def split: option.splits if_splits)
  with m [of n] show ?thesis by (simp add: from_secs_def)
qed

text \<open>A token that is handed out is the one kept afterwards; either it was in the cache with
  more than a minute to live, and nothing was asked of the network, or it was just granted, for at
  most a day.  When the token endpoint refuses or cannot be reached, what was kept stays as it
  was.\<close>

theorem access_token_lifetime:
  assumes "access_token env s w = (r, s', w')"
  shows "case r of
      Inl e \<Rightarrow> s' = s \<and> usable_token (te_now env w) s = None
    | Inr token \<Rightarrow> (\<exists>expiry. ts_access s' = Some (token, expiry) \<and>
        (te_now env w + from_secs 60 < expiry \<and> s' = s \<and> w' = w \<or>
         usable_token (te_now env w) s = None \<and>
         te_now env w' \<le> expiry \<and> expiry \<le> te_now env w' + from_secs 86400))"
proof (cases "usable_token (te_now env w) s")
  case (Some t)
  with assms show ?thesis
    by (auto simp: access_token_def usable_token_Some EXPIRY_MARGIN_def)
next
  case None
  show ?thesis
  proof (cases "token_request env (ts_client s) (refresh_form s) w")
    case (Pair outcome w1)
    with assms None token_request_bounds [of env "ts_client s" "refresh_form s" w _ w1] show ?thesis
      by (cases outcome) (auto simp: access_token_def Let_def)
  qed
qed

text \<open>A world of one endpoint that grants a token for an hour.\<close>

definition demo_tokens :: "nat token_env" where
  "demo_tokens = \<lparr>te_post = (\<lambda>_ _ n. (Answer 200 [], n + from_secs 1)), te_now = (\<lambda>n. n),
     te_json = (\<lambda>_. Some \<lparr>tr_access_token = Some (lit ''a''), tr_expires_in = None, tr_refresh_token = Some (lit ''r2''),
       tr_error = None, tr_error_description = None\<rparr>)\<rparr>"

definition demo_source :: token_source where
  "demo_source = on_rotation (from_refresh_token (oauth_client_google (lit ''id'') None) (lit ''r1''))"

theorem access_token_lifetime_witness:
  "\<exists>s'. access_token demo_tokens demo_source 0 = (Inr (lit ''a''), s', from_secs 1) \<and>
     ts_notified s' = [lit ''r2''] \<and> (\<exists>e. ts_access s' = Some (lit ''a'', e) \<and> e \<le> from_secs 86401)"
proof -
  let ?s = "fst (snd (access_token demo_tokens demo_source 0))"
  have a: "access_token demo_tokens demo_source 0 = (Inr (lit ''a''), ?s, from_secs 1)"
    and n: "ts_notified ?s = [lit ''r2'']"
    by (simp_all add: access_token_def demo_tokens_def demo_source_def usable_token_def token_request_def
        parse_token_response_def from_refresh_token_def on_rotation_def rotate_token_def Let_def)
  have "from_secs 1 + from_secs 86400 = from_secs 86401" by (simp add: from_secs_def)
  with access_token_lifetime [OF a] a n show ?thesis
    by (auto simp: demo_tokens_def from_secs_def intro!: exI [of _ ?s])
qed

text \<open>A connection that asks while the token lasts gets the same token and posts nothing.\<close>

lemma access_token_reused:
  assumes "access_token env s w = (Inr token, s', w')" and "ts_access s' = Some (token, expiry)"
    and "te_now env later + EXPIRY_MARGIN < expiry"
  shows "access_token env s' later = (Inr token, s', later)"
  using assms by (simp add: access_token_def usable_token_def)

section \<open>The client and the warning\<close>

text \<open>An id is never paired with another source's secret, and a source that comes earlier has no id.\<close>

lemma resolve_google_client_source:
  assumes "resolve_google_client environment configured build = Some (client, source)"
  shows "\<exists>secret. (source, Some (oa_client_id client), secret) \<in> set (client_candidates environment configured build) \<and>
    oa_client_secret client = secret \<and> oa_client_id client \<noteq> []"
proof -
  have "find_client cs = Some (client, source) \<Longrightarrow>
      \<exists>i secret. (source, Some i, secret) \<in> set cs \<and> client = oauth_client_google i secret" for cs
    by (induction cs rule: find_client.induct) auto
  from this [OF assms [unfolded resolve_google_client_def]] obtain i secret
    where c: "(source, Some i, secret) \<in> set (client_candidates environment configured build)"
      and g: "client = oauth_client_google i secret" by blast
  have "non_empty v \<noteq> Some []" for v by (auto simp: non_empty_def split: option.split)
  moreover from this have "Some [] \<noteq> non_empty v" for v by metis
  ultimately have "i \<noteq> []" using c by (cases configured) (auto simp: client_candidates_def)
  with c g show ?thesis by (auto simp: oauth_client_google_def)
qed

lemma expiring_soon_after_five_days:
  assumes "\<bar>issued\<bar> < 2 ^ 62" and "\<bar>now\<bar> < 2 ^ 62"
  shows "refresh_token_expiring_soon (Some issued) now \<longleftrightarrow> issued + 5 * 24 * 60 * 60 \<le> now"
  using assms
  by (auto simp: refresh_token_expiring_soon_def i64_saturating_add_def as_secs_def from_secs_def
      REFRESH_TOKEN_WARNING_MARGIN_def TESTING_MODE_REFRESH_TOKEN_LIFETIME_def)

text \<open>The keyring keeps the entries of accounts and kinds apart.\<close>

lemma keyring_entry_inject:
  assumes "58 \<notin> set kind" and "58 \<notin> set kind'"
  shows "keyring_entry sv a kind = keyring_entry sv a' kind' \<longleftrightarrow> a = a' \<and> kind = kind'"
proof -
  have "rfind_char 58 (a @ 58 # kind) = Some (length a)" "rfind_char 58 (a' @ 58 # kind') = Some (length a')"
    using assms by simp_all
  then show ?thesis by (auto simp: keyring_entry_def lit_def)
qed

lemma get_set_password:
  assumes "58 \<notin> set kind" and "58 \<notin> set kind'"
  shows "get_password sv a' kind' (set_password sv a kind p kr) =
    (if a = a' \<and> kind = kind' then Some p else get_password sv a' kind' kr)"
  using keyring_entry_inject [OF assms, of sv a a'] by (auto simp: get_password_def set_password_def)

end
