(* ===== verification/ImapActor.thy ===== *)
theory ImapActor
  imports Auth MailboxTree Protocol
begin

text \<open>
  The IMAP actor of an account and its body worker, \<open>crates/esmail/src/imap.rs\<close>.  The
  \<open>async_imap\<close> session is an interface: a record of the calls the code makes, each of which
  changes the session \<open>'c\<close> and the outside world \<open>'w\<close> and may fail.  The MIME decoder, the
  renderer and the file system are arguments as well.  Sending on the event channel and sleeping
  are recorded in the world in their order, so that the lemmas can say what the user interface
  receives for each command.
\<close>

section \<open>The session\<close>

datatype imap_flag = FlSeen | FlAnswered | FlFlagged | FlDeleted | FlDraft | FlRecent | FlMayCreate | FlCustom str

fun flag_to_str :: "imap_flag \<Rightarrow> str" where
  "flag_to_str FlSeen = blit ''Seen''"
| "flag_to_str FlAnswered = blit ''Answered''"
| "flag_to_str FlFlagged = blit ''Flagged''"
| "flag_to_str FlDeleted = blit ''Deleted''"
| "flag_to_str FlDraft = blit ''Draft''"
| "flag_to_str FlRecent = blit ''Recent''"
| "flag_to_str FlMayCreate = blit ''*''"
| "flag_to_str (FlCustom s) = s"

record imap_address =
  ia_name :: "byte list option"
  ia_mailbox :: "byte list option"
  ia_host :: "byte list option"

record imap_envelope =
  ie_subject :: "byte list option"
  ie_from :: "imap_address list option"
  ie_to :: "imap_address list option"
  ie_date :: "byte list option"
  ie_message_id :: "byte list option"

record fetch_item =
  fi_uid :: "u32 option"
  fi_envelope :: "imap_envelope option"
  fi_flags :: "imap_flag list"
  fi_body :: "byte list option"

record selected =
  sl_exists :: u32
  sl_uid_validity :: "u32 option"
  sl_uid_next :: "u32 option"

record list_name =
  ln_name :: str
  ln_delimiter :: "str option"
  ln_attributes :: "name_attribute list"

text \<open>A stream gives a result for each of its elements.  The arguments are those of the calls: the
  mailbox, the sequence or UID set, the items or the \<open>STORE\<close> query.\<close>

type_synonym ('r, 'c, 'w) imap_call = "'c \<Rightarrow> 'w \<Rightarrow> (str + 'r) \<times> 'c \<times> 'w"

record ('c, 'w) imap_api =
  api_tls :: "str \<Rightarrow> u16 \<Rightarrow> 'w \<Rightarrow> (str + 'c) \<times> 'w"
  api_login :: "str \<Rightarrow> str \<Rightarrow> 'c \<Rightarrow> 'w \<Rightarrow> (str + 'c) \<times> 'w"
  api_authenticate :: "xoauth2 \<Rightarrow> 'c \<Rightarrow> 'w \<Rightarrow> (str + 'c) \<times> 'w"
  api_logout :: "'c \<Rightarrow> 'w \<Rightarrow> 'w"
  api_list :: "((str + list_name) list, 'c, 'w) imap_call"
  api_examine :: "str \<Rightarrow> (selected, 'c, 'w) imap_call"
  api_select :: "str \<Rightarrow> (selected, 'c, 'w) imap_call"
  api_fetch :: "str \<Rightarrow> str \<Rightarrow> ((str + fetch_item) list, 'c, 'w) imap_call"
  api_uid_fetch :: "str \<Rightarrow> str \<Rightarrow> ((str + fetch_item) list, 'c, 'w) imap_call"
  api_uid_store :: "str \<Rightarrow> str \<Rightarrow> ((str + fetch_item) list, 'c, 'w) imap_call"
  api_uid_mv :: "str \<Rightarrow> str \<Rightarrow> (unit, 'c, 'w) imap_call"
  api_uid_copy :: "str \<Rightarrow> str \<Rightarrow> (unit, 'c, 'w) imap_call"
  api_expunge :: "(unit, 'c, 'w) imap_call"
  api_append :: "str \<Rightarrow> byte list \<Rightarrow> (unit, 'c, 'w) imap_call"
  api_status :: "str \<Rightarrow> str \<Rightarrow> (u32 option, 'c, 'w) imap_call"

text \<open>\<open>ae_header\<close> is \<open>mailparse::parse_header\<close> and \<open>get_value\<close>, \<open>ae_write\<close> writes a file.\<close>

record ('c, 'w) actor_env =
  ae_api :: "('c, 'w) imap_api"
  ae_tokens :: "'w token_env"
  ae_header :: "byte list \<Rightarrow> str option"
  ae_render :: "byte list \<Rightarrow> str"
  ae_attachments :: "byte list \<Rightarrow> attachment list"
  ae_write :: "str \<Rightarrow> byte list \<Rightarrow> 'w \<Rightarrow> (str + unit) \<times> 'w"

section \<open>The world\<close>

datatype trace_item = Sent imap_event | Slept nat

record 'w imap_world =
  iw_sources :: sources
  iw_net :: 'w
  iw_trace :: "trace_item list"

definition send_event :: "imap_event \<Rightarrow> 'w imap_world \<Rightarrow> 'w imap_world" where
  "send_event e w = w\<lparr>iw_trace := iw_trace w @ [Sent e]\<rparr>"

definition sleep :: "nat \<Rightarrow> 'w imap_world \<Rightarrow> 'w imap_world" where
  "sleep d w = w\<lparr>iw_trace := iw_trace w @ [Slept d]\<rparr>"

text \<open>A call of the session, with its error as an \<open>anyhow\<close> error, and \<open>?\<close> after it.\<close>

type_synonym ('r, 'c, 'w) session_op = "'c \<Rightarrow> 'w imap_world \<Rightarrow> (anyhow + 'r) \<times> 'c \<times> 'w imap_world"

definition call :: "('r, 'c, 'w) imap_call \<Rightarrow> ('r, 'c, 'w) session_op" where
  "call f c w =
     (case f c (iw_net w) of
        (Inl e, c, n) \<Rightarrow> (Inl (Anyhow e), c, w\<lparr>iw_net := n\<rparr>)
      | (Inr r, c, n) \<Rightarrow> (Inr r, c, w\<lparr>iw_net := n\<rparr>))"

definition and_then ::
  "('a, 'c, 'w) session_op \<Rightarrow> ('a \<Rightarrow> ('b, 'c, 'w) session_op) \<Rightarrow> ('b, 'c, 'w) session_op" where
  "and_then m f c w = (case m c w of (Inl e, c, w) \<Rightarrow> (Inl e, c, w) | (Inr r, c, w) \<Rightarrow> f r c w)"

definition give :: "'r \<Rightarrow> ('r, 'c, 'w) session_op" where
  "give r c w = (Inr r, c, w)"

definition fail_with :: "str \<Rightarrow> ('r, 'c, 'w) session_op" where
  "fail_with e c w = (Inl (Anyhow e), c, w)"

definition from_result :: "anyhow + 'r \<Rightarrow> ('r, 'c, 'w) session_op" where
  "from_result r c w = (r, c, w)"

definition emit :: "imap_event \<Rightarrow> (unit, 'c, 'w) session_op" where
  "emit e c w = (Inr (), c, send_event e w)"

section \<open>Connecting\<close>

record credentials =
  cr_host :: str
  cr_port :: u16
  cr_username :: str
  cr_auth :: auth

definition MAX_RECONNECT_ATTEMPTS :: nat where "MAX_RECONNECT_ATTEMPTS = 5"
definition MAX_RECONNECT_DELAY :: nat where "MAX_RECONNECT_DELAY = from_secs 16"

definition connect_session ::
  "('c, 'w) actor_env \<Rightarrow> credentials \<Rightarrow> 'w imap_world \<Rightarrow> (anyhow + 'c) \<times> 'w imap_world" where
  "connect_session env cr w =
     (case auth_secret (ae_tokens env) (cr_auth cr) (iw_sources w) (iw_net w) of
        (Inl e, src, n) \<Rightarrow> (Inl e, w\<lparr>iw_sources := src, iw_net := n\<rparr>)
      | (Inr secret, src, n) \<Rightarrow>
          (let w = w\<lparr>iw_sources := src\<rparr> in
           case api_tls (ae_api env) (cr_host cr) (cr_port cr) n of
             (Inl e, n) \<Rightarrow> (Inl (Anyhow e), w\<lparr>iw_net := n\<rparr>)
           | (Inr client, n) \<Rightarrow>
               (case (case cr_auth cr of
                        AuthPassword _ \<Rightarrow> api_login (ae_api env) (cr_username cr) secret client n
                      | AuthOAuth _ \<Rightarrow> api_authenticate (ae_api env) (xoauth2_new (cr_username cr) secret) client n) of
                  (Inl e, n) \<Rightarrow> (Inl (Anyhow e), w\<lparr>iw_net := n\<rparr>)
                | (Inr session, n) \<Rightarrow> (Inr session, w\<lparr>iw_net := n\<rparr>))))"

text \<open>The connection test of the account form.\<close>

definition check_account_login ::
  "('c, 'w) actor_env \<Rightarrow> credentials \<Rightarrow> 'w imap_world \<Rightarrow> (anyhow + unit) \<times> 'w imap_world" where
  "check_account_login env cr w =
     (case connect_session env cr w of
        (Inl e, w) \<Rightarrow> (Inl e, w)
      | (Inr session, w) \<Rightarrow> (Inr (), w\<lparr>iw_net := api_logout (ae_api env) session (iw_net w)\<rparr>))"

text \<open>The attempts of a reconnect that are left, with the delay after a failed one.\<close>

fun connect_attempts ::
  "('c, 'w) actor_env \<Rightarrow> credentials \<Rightarrow> nat list \<Rightarrow> nat \<Rightarrow> anyhow option \<Rightarrow> 'w imap_world \<Rightarrow>
   (anyhow + 'c) \<times> 'w imap_world" where
  "connect_attempts env cr [] delay last_err w =
     (Inl (case last_err of Some e \<Rightarrow> e | None \<Rightarrow> Anyhow (lit ''reconnect failed'')), w)"
| "connect_attempts env cr (attempt # attempts) delay last_err w =
     (case connect_session env cr w of
        (Inr session, w) \<Rightarrow> (Inr session, w)
      | (Inl e, w) \<Rightarrow>
          if is_sign_in_expired e then (Inl e, w)
          else if attempt < MAX_RECONNECT_ATTEMPTS
          then connect_attempts env cr attempts (min (delay * 2) MAX_RECONNECT_DELAY) (Some e) (sleep delay w)
          else connect_attempts env cr attempts delay (Some e) w)"

definition ensure_worker_connected ::
  "('c, 'w) actor_env \<Rightarrow> credentials \<Rightarrow> 'w imap_world \<Rightarrow> (anyhow + 'c) \<times> 'w imap_world" where
  "ensure_worker_connected env cr w =
     connect_attempts env cr [1..<Suc MAX_RECONNECT_ATTEMPTS] (from_secs 1) None w"

section \<open>Mailboxes and headers\<close>

definition fetch_mailboxes :: "('c, 'w) actor_env \<Rightarrow> (mailbox_info list, 'c, 'w) session_op" where
  "fetch_mailboxes env =
     and_then (call (api_list (ae_api env))) (\<lambda>names.
       give (filter_map (\<lambda>n. case n of
           Inl _ \<Rightarrow> None
         | Inr n \<Rightarrow> Some (mailbox_info_of (ln_name n) (ln_delimiter n) (ln_attributes n))) names))"

definition decode_rfc2047 :: "('c, 'w) actor_env \<Rightarrow> byte list \<Rightarrow> str" where
  "decode_rfc2047 env bytes =
     (case ae_header env (utf8 (lit ''X: '') @ bytes @ [10]) of
        Some value \<Rightarrow> value
      | None \<Rightarrow> from_utf8_lossy bytes)"

definition lossy_or_empty :: "byte list option \<Rightarrow> str" where
  "lossy_or_empty b = (case b of Some b \<Rightarrow> from_utf8_lossy b | None \<Rightarrow> [])"

definition address_parts :: "('c, 'w) actor_env \<Rightarrow> imap_address \<Rightarrow> str option \<times> str \<times> str" where
  "address_parts env addr =
     (map_option (decode_rfc2047 env) (ia_name addr), lossy_or_empty (ia_mailbox addr), lossy_or_empty (ia_host addr))"

definition parse_envelope_header :: "('c, 'w) actor_env \<Rightarrow> u32 \<Rightarrow> imap_envelope \<Rightarrow> str list \<Rightarrow> mail_header" where
  "parse_envelope_header env uid envelope flags =
     \<lparr>mh_uid = uid,
      mh_subject = (case ie_subject envelope of Some s \<Rightarrow> decode_rfc2047 env s | None \<Rightarrow> []),
      mh_from = format_addresses (map_option (map (address_parts env)) (ie_from envelope)),
      mh_to = format_addresses (map_option (map (address_parts env)) (ie_to envelope)),
      mh_date = lossy_or_empty (ie_date envelope),
      mh_message_id = lossy_or_empty (ie_message_id envelope),
      mh_flags = flags\<rparr>"

definition fetch_flags :: "fetch_item \<Rightarrow> str list" where
  "fetch_flags msg = map flag_to_str (fi_flags msg)"

text \<open>The loop over the fetched messages: the first that is broken ends it.\<close>

definition header_of_item :: "('c, 'w) actor_env \<Rightarrow> str + fetch_item \<Rightarrow> anyhow + mail_header" where
  "header_of_item env msg =
     (case msg of
        Inl e \<Rightarrow> Inl (Anyhow e)
      | Inr msg \<Rightarrow>
          (case fi_uid msg of
             None \<Rightarrow> Inl (Anyhow (lit ''No UID''))
           | Some uid \<Rightarrow>
               (case fi_envelope msg of
                  None \<Rightarrow> Inl (Anyhow (lit ''No envelope''))
                | Some envelope \<Rightarrow> Inr (parse_envelope_header env uid envelope (fetch_flags msg)))))"

fun headers_of_items :: "('c, 'w) actor_env \<Rightarrow> (str + fetch_item) list \<Rightarrow> anyhow + mail_header list" where
  "headers_of_items env [] = Inr []"
| "headers_of_items env (msg # msgs) =
     (case header_of_item env msg of
        Inl e \<Rightarrow> Inl e
      | Inr h \<Rightarrow> (case headers_of_items env msgs of Inl e \<Rightarrow> Inl e | Inr hs \<Rightarrow> Inr (h # hs)))"

definition state_of_selected :: "selected \<Rightarrow> mailbox_state" where
  "state_of_selected s =
     \<lparr>mst_uid_validity = (case sl_uid_validity s of Some v \<Rightarrow> v | None \<Rightarrow> 0),
      mst_uid_next = (case sl_uid_next s of Some v \<Rightarrow> v | None \<Rightarrow> 0)\<rparr>"

text \<open>The pages of a mailbox of \<open>total\<close> messages: how many there are, and the first and last
  sequence number of one.\<close>

definition page_range :: "u32 \<Rightarrow> u32 \<Rightarrow> u32 \<times> u32 \<times> u32" where
  "page_range n page =
     (let per_page = 50;
          total_pages = (n + per_page - 1) div per_page;
          page = max (min page total_pages) 1;
          stop = sat_sub n ((page - 1) * per_page);
          start = max (sat_sub stop (per_page - 1)) 1
      in (total_pages, start, stop))"

definition fetch_page_headers ::
  "('c, 'w) actor_env \<Rightarrow> str \<Rightarrow> u32 \<Rightarrow> (mail_header list \<times> u32 \<times> mailbox_state, 'c, 'w) session_op" where
  "fetch_page_headers env mailbox_name page =
     and_then (call (api_examine (ae_api env) mailbox_name)) (\<lambda>mailbox.
       if sl_exists mailbox = 0 then give ([], 0, state_of_selected mailbox)
       else
         (let (total_pages, start, stop) = page_range (sl_exists mailbox) page in
          and_then (call (api_fetch (ae_api env) (dec_u32 start @ lit '':'' @ dec_u32 stop) (lit ''(UID ENVELOPE FLAGS)'')))
            (\<lambda>messages.
               and_then (from_result (headers_of_items env messages))
                 (\<lambda>hs. give (rev hs, total_pages, state_of_selected mailbox)))))"

definition fetch_raw :: "('c, 'w) actor_env \<Rightarrow> str \<Rightarrow> u32 \<Rightarrow> (byte list, 'c, 'w) session_op" where
  "fetch_raw env mailbox_name uid =
     and_then (call (api_examine (ae_api env) mailbox_name)) (\<lambda>_.
     and_then (call (api_uid_fetch (ae_api env) (dec_u32 uid) (lit ''RFC822''))) (\<lambda>fetches.
       case fetches of
         Inl e # _ \<Rightarrow> fail_with e
       | Inr msg # _ \<Rightarrow> (case fi_body msg of Some body \<Rightarrow> give body | None \<Rightarrow> fail_with (lit ''No body''))
       | [] \<Rightarrow> fail_with (lit ''Message not found or no body'')))"

definition fetch_message_body :: "('c, 'w) actor_env \<Rightarrow> str \<Rightarrow> u32 \<Rightarrow> (str \<times> attachment list, 'c, 'w) session_op" where
  "fetch_message_body env mailbox_name uid =
     and_then (fetch_raw env mailbox_name uid) (\<lambda>raw. give (ae_render env raw, ae_attachments env raw))"

definition fetch_new_headers :: "('c, 'w) actor_env \<Rightarrow> str \<Rightarrow> u32 \<Rightarrow> (mail_header list, 'c, 'w) session_op" where
  "fetch_new_headers env mailbox_name first_uid =
     and_then (call (api_examine (ae_api env) mailbox_name)) (\<lambda>_.
     and_then (call (api_uid_fetch (ae_api env) (dec_u32 first_uid @ lit '':*'') (lit ''(UID ENVELOPE FLAGS)'')))
       (\<lambda>messages. from_result (headers_of_items env messages)))"

section \<open>Downloading, flags, moves and counts\<close>

text \<open>One message of a bulk download, \<open>current\<close> the count it is reported with.\<close>

definition download_one ::
  "('c, 'w) actor_env \<Rightarrow> str \<Rightarrow> u32 \<Rightarrow> u32 \<Rightarrow> str + fetch_item \<Rightarrow> (unit, 'c, 'w) session_op" where
  "download_one env mailbox_name n current msg =
     and_then (from_result (header_of_item env msg)) (\<lambda>header.
     and_then (call (api_uid_fetch (ae_api env) (dec_u32 (mh_uid header)) (lit ''RFC822''))) (\<lambda>body_fetches.
     and_then
       (case body_fetches of
          [] \<Rightarrow> give ([], [])
        | Inl e # _ \<Rightarrow> fail_with e
        | Inr body_msg # _ \<Rightarrow>
            (case fi_body body_msg of
               Some bytes \<Rightarrow> give (ae_render env bytes, ae_attachments env bytes)
             | None \<Rightarrow> give ([], [])))
       (\<lambda>(body, attachments).
         and_then (emit (EvMailData mailbox_name header body attachments)) (\<lambda>_.
         emit (EvProgress PIndex (Counted current n))))))"

fun download_all ::
  "('c, 'w) actor_env \<Rightarrow> str \<Rightarrow> u32 \<Rightarrow> nat \<Rightarrow> (str + fetch_item) list \<Rightarrow> (unit, 'c, 'w) session_op" where
  "download_all env mailbox_name n i [] = give ()"
| "download_all env mailbox_name n i (msg # msgs) =
     and_then (download_one env mailbox_name n (of_nat (i + 1)) msg)
       (\<lambda>_. download_all env mailbox_name n (i + 1) msgs)"

definition bulk_download :: "('c, 'w) actor_env \<Rightarrow> str \<Rightarrow> (unit, 'c, 'w) session_op" where
  "bulk_download env mailbox_name =
     and_then (call (api_examine (ae_api env) mailbox_name)) (\<lambda>mailbox.
       let n = sl_exists mailbox in
       if n = 0 then give ()
       else
         and_then (emit (EvProgress PIndex (Counted 0 n))) (\<lambda>_.
         and_then (call (api_fetch (ae_api env) (lit ''1:'' @ dec_u32 n) (lit ''(UID ENVELOPE FLAGS)''))) (\<lambda>messages.
           download_all env mailbox_name n 0 messages)))"

text \<open>The flags of the last message a \<open>STORE\<close> reported.\<close>

fun last_flags_of :: "(str + fetch_item) list \<Rightarrow> str list option \<Rightarrow> anyhow + str list option" where
  "last_flags_of [] prev = Inr prev"
| "last_flags_of (Inl e # msgs) prev = Inl (Anyhow e)"
| "last_flags_of (Inr msg # msgs) prev = last_flags_of msgs (Some (fetch_flags msg))"

definition store_side ::
  "('c, 'w) actor_env \<Rightarrow> u32 \<Rightarrow> string \<Rightarrow> str list \<Rightarrow> str list option \<Rightarrow> (str list option, 'c, 'w) session_op" where
  "store_side env uid verb flags prev =
     (if flags = [] then give prev
      else and_then (call (api_uid_store (ae_api env) (dec_u32 uid)
          (lit verb @ lit '' ('' @ join (lit '' '') flags @ lit '')''))) (\<lambda>stream.
        from_result (last_flags_of stream prev)))"

definition store_flags ::
  "('c, 'w) actor_env \<Rightarrow> str \<Rightarrow> u32 \<Rightarrow> str list \<Rightarrow> str list \<Rightarrow> (str list, 'c, 'w) session_op" where
  "store_flags env mailbox_name uid add remove =
     and_then (call (api_select (ae_api env) mailbox_name)) (\<lambda>_.
     and_then (store_side env uid ''+FLAGS'' add None) (\<lambda>prev.
     and_then (store_side env uid ''-FLAGS'' remove prev) (\<lambda>prev.
       case prev of
         Some flags \<Rightarrow> give flags
       | None \<Rightarrow> fail_with (lit ''STORE completed but the server reported no resulting flags for UID '' @ dec_u32 uid))))"

text \<open>The fallback's stream is read to its end; an error in it ends the move, one of the expunged
  sequence numbers does not.\<close>

definition copy_and_expunge :: "('c, 'w) actor_env \<Rightarrow> u32 \<Rightarrow> str \<Rightarrow> (unit, 'c, 'w) session_op" where
  "copy_and_expunge env uid dest =
     and_then (call (api_uid_copy (ae_api env) (dec_u32 uid) dest)) (\<lambda>_.
     and_then (call (api_uid_store (ae_api env) (dec_u32 uid) (lit ''+FLAGS.SILENT ('' @ blit ''Deleted'' @ lit '')'')))
       (\<lambda>stream.
         and_then (from_result (last_flags_of stream None)) (\<lambda>_.
           call (api_expunge (ae_api env)))))"

definition move_message :: "('c, 'w) actor_env \<Rightarrow> str \<Rightarrow> u32 \<Rightarrow> str \<Rightarrow> (unit, 'c, 'w) session_op" where
  "move_message env mailbox_name uid dest =
     and_then (call (api_select (ae_api env) mailbox_name)) (\<lambda>_ c w.
       case call (api_uid_mv (ae_api env) (dec_u32 uid) dest) c w of
         (Inr _, c, w) \<Rightarrow> (Inr (), c, w)
       | (Inl _, c, w) \<Rightarrow> copy_and_expunge env uid dest c w)"

fun fetch_unread_counts ::
  "('c, 'w) actor_env \<Rightarrow> str list \<Rightarrow> (str \<rightharpoonup> u32) \<Rightarrow> 'c \<Rightarrow> 'w imap_world \<Rightarrow> (str \<rightharpoonup> u32) \<times> 'c \<times> 'w imap_world" where
  "fetch_unread_counts env [] counts c w = (counts, c, w)"
| "fetch_unread_counts env (mailbox # mailboxes) counts c w =
     (case call (api_status (ae_api env) mailbox (lit ''(UNSEEN)'')) c w of
        (Inl _, c, w) \<Rightarrow> fetch_unread_counts env mailboxes counts c w
      | (Inr unseen, c, w) \<Rightarrow>
          fetch_unread_counts env mailboxes
            (counts(mailbox \<mapsto> (case unseen of Some n \<Rightarrow> n | None \<Rightarrow> 0))) c w)"

section \<open>The body worker\<close>

datatype worker_command =
    WFetchBody str u32 u64
  | WBulkDownload str
  | WExportMessage str u32 str

definition run_worker_command :: "('c, 'w) actor_env \<Rightarrow> worker_command \<Rightarrow> (unit, 'c, 'w) session_op" where
  "run_worker_command env cmd =
     (case cmd of
        WFetchBody mailbox uid req_id \<Rightarrow>
          and_then (fetch_message_body env mailbox uid) (\<lambda>(html, attachments). emit (EvBody uid html attachments req_id))
      | WExportMessage mailbox uid path \<Rightarrow>
          and_then (fetch_raw env mailbox uid) (\<lambda>raw c w.
            case ae_write env path raw (iw_net w) of
              (Inr _, n) \<Rightarrow> emit (EvExported path) c (w\<lparr>iw_net := n\<rparr>)
            | (Inl e, n) \<Rightarrow>
                emit (EvExportFailed (lit ''could not write '' @ path @ lit '': '' @ e)) c (w\<lparr>iw_net := n\<rparr>))
      | WBulkDownload mailbox \<Rightarrow> bulk_download env mailbox)"

text \<open>An error is its text; the chain of causes an export failure prints after it is not modelled.\<close>

definition report_worker_failure :: "worker_command \<Rightarrow> anyhow \<Rightarrow> 'w imap_world \<Rightarrow> 'w imap_world" where
  "report_worker_failure cmd error w =
     (case cmd of
        WFetchBody _ uid req_id \<Rightarrow> send_event (EvBodyFailed uid req_id (err_text error)) w
      | WBulkDownload _ \<Rightarrow> send_event (EvError (err_text error)) w
      | WExportMessage _ _ _ \<Rightarrow> send_event (EvExportFailed (err_text error)) w)"

text \<open>One command of the worker: \<open>retries\<close> is how many times it may still run it again.\<close>

fun worker_attempt ::
  "('c, 'w) actor_env \<Rightarrow> credentials \<Rightarrow> worker_command \<Rightarrow> nat \<Rightarrow> 'c option \<Rightarrow> 'w imap_world \<Rightarrow>
   'c option \<times> 'w imap_world" where
  "worker_attempt env cr cmd retries session w =
     (case (case session of
              Some c \<Rightarrow> (Inr c, w)
            | None \<Rightarrow> ensure_worker_connected env cr w) of
        (Inl e, w) \<Rightarrow>
          (None, report_worker_failure cmd
             (Anyhow (lit ''could not open a connection for this request: '' @ err_text e)) w)
      | (Inr c, w) \<Rightarrow>
          (case run_worker_command env cmd c w of
             (Inr _, c, w) \<Rightarrow> (Some c, w)
           | (Inl e, c, w) \<Rightarrow>
               (case retries of
                  0 \<Rightarrow> (None, report_worker_failure cmd e w)
                | Suc n \<Rightarrow> worker_attempt env cr cmd n None w)))"

declare worker_attempt.simps [simp del]

record 'c worker =
  wk_credentials :: credentials
  wk_queue :: "worker_command list"
  wk_session :: "'c option"

definition worker_step :: "('c, 'w) actor_env \<Rightarrow> 'c worker \<Rightarrow> 'w imap_world \<Rightarrow> 'c worker \<times> 'w imap_world" where
  "worker_step env k w =
     (case wk_queue k of
        [] \<Rightarrow> (k, w)
      | cmd # rest \<Rightarrow>
          (case worker_attempt env (wk_credentials k) cmd 1 (wk_session k) w of
             (session, w) \<Rightarrow> (k\<lparr>wk_queue := rest, wk_session := session\<rparr>, w)))"

section \<open>The actor\<close>

text \<open>The worker of the last successful \<open>Connect\<close>; the ones before it finish their queues.\<close>

record 'c imap_actor =
  ia_session :: "'c option"
  ia_credentials :: "credentials option"
  ia_worker :: "'c worker option"
  ia_old_workers :: "'c worker list"

definition actor_new :: "'c imap_actor" where
  "actor_new = \<lparr>ia_session = None, ia_credentials = None, ia_worker = None, ia_old_workers = []\<rparr>"

definition ensure_connected ::
  "('c, 'w) actor_env \<Rightarrow> 'c imap_actor \<Rightarrow> 'w imap_world \<Rightarrow> (anyhow + 'c) \<times> 'c imap_actor \<times> 'w imap_world" where
  "ensure_connected env a w =
     (case ia_session a of
        Some c \<Rightarrow> (Inr c, a, w)
      | None \<Rightarrow>
          (case ia_credentials a of
             None \<Rightarrow> (Inl (Anyhow (lit ''not connected yet'')), a, w)
           | Some creds \<Rightarrow>
               (case connect_attempts env creds [1..<Suc MAX_RECONNECT_ATTEMPTS] (from_secs 1) None
                       (send_event EvDisconnected w) of
                  (Inr c, w) \<Rightarrow> (Inr c, a\<lparr>ia_session := Some c\<rparr>, send_event EvConnected w)
                | (Inl e, w) \<Rightarrow> (Inl e, a, w))))"

text \<open>A command that needs a session: \<open>failed\<close> is the event for an error, and the session that
  had one is dropped.\<close>

definition with_session ::
  "('c, 'w) actor_env \<Rightarrow> (str \<Rightarrow> imap_event) \<Rightarrow> ('r \<Rightarrow> imap_event) \<Rightarrow> ('r, 'c, 'w) session_op \<Rightarrow>
   'c imap_actor \<Rightarrow> 'w imap_world \<Rightarrow> 'c imap_actor \<times> 'w imap_world" where
  "with_session env failed done_event run a w =
     (case ensure_connected env a w of
        (Inl e, a, w) \<Rightarrow> (a, send_event (failed (err_text e)) w)
      | (Inr c, a, w) \<Rightarrow>
          (case run c w of
             (Inr r, c, w) \<Rightarrow> (a\<lparr>ia_session := Some c\<rparr>, send_event (done_event r) w)
           | (Inl e, c, w) \<Rightarrow> (a\<lparr>ia_session := None\<rparr>, send_event (failed (err_text e)) w)))"

text \<open>The same for a poll, which never connects.\<close>

definition poll_session ::
  "('r \<Rightarrow> imap_event) \<Rightarrow> ('r, 'c, 'w) session_op \<Rightarrow> 'c imap_actor \<Rightarrow> 'w imap_world \<Rightarrow> 'c imap_actor \<times> 'w imap_world" where
  "poll_session done_event run a w =
     (case ia_session a of
        None \<Rightarrow> (a, w)
      | Some c \<Rightarrow>
          (case run c w of
             (Inr r, c, w) \<Rightarrow> (a\<lparr>ia_session := Some c\<rparr>, send_event (done_event r) w)
           | (Inl e, c, w) \<Rightarrow> (a\<lparr>ia_session := None\<rparr>, send_event (EvPollFailed (err_text e)) w)))"

definition to_worker ::
  "worker_command \<Rightarrow> imap_event \<Rightarrow> 'c imap_actor \<Rightarrow> 'w imap_world \<Rightarrow> 'c imap_actor \<times> 'w imap_world" where
  "to_worker cmd failed a w =
     (case ia_worker a of
        None \<Rightarrow> (a, send_event failed w)
      | Some k \<Rightarrow> (a\<lparr>ia_worker := Some (k\<lparr>wk_queue := wk_queue k @ [cmd]\<rparr>)\<rparr>, w))"

definition on_connect ::
  "('c, 'w) actor_env \<Rightarrow> credentials \<Rightarrow> 'c imap_actor \<Rightarrow> 'w imap_world \<Rightarrow> 'c imap_actor \<times> 'w imap_world" where
  "on_connect env creds a w =
     (case connect_session env creds w of
        (Inr c, w) \<Rightarrow>
          (a\<lparr>ia_session := Some c, ia_credentials := Some creds,
             ia_old_workers := (case ia_worker a of Some k \<Rightarrow> ia_old_workers a @ [k] | None \<Rightarrow> ia_old_workers a),
             ia_worker := Some \<lparr>wk_credentials = creds, wk_queue = [], wk_session = None\<rparr>\<rparr>,
           send_event EvConnected w)
      | (Inl e, w) \<Rightarrow> (a, send_event (EvError (err_text e)) w))"

text \<open>\<open>Append\<close> says that it is uploading before it does.\<close>

definition append_message :: "('c, 'w) actor_env \<Rightarrow> str \<Rightarrow> byte list \<Rightarrow> (unit, 'c, 'w) session_op" where
  "append_message env mailbox raw =
     and_then (emit (EvProgress PAppend Indeterminate)) (\<lambda>_. call (api_append (ae_api env) mailbox raw))"

definition actor_command ::
  "('c, 'w) actor_env \<Rightarrow> auth imap_command \<Rightarrow> 'c imap_actor \<Rightarrow> 'w imap_world \<Rightarrow> 'c imap_actor \<times> 'w imap_world" where
  "actor_command env cmd a w =
     (case cmd of
        Connect host port username auth \<Rightarrow>
          on_connect env \<lparr>cr_host = host, cr_port = port, cr_username = username, cr_auth = auth\<rparr> a w
      | FetchMailboxes \<Rightarrow> with_session env EvError EvMailboxes (fetch_mailboxes env) a w
      | FetchHeaders mailbox page req_id \<Rightarrow>
          with_session env EvError (\<lambda>(hs, total_pages, state). EvHeaders mailbox hs page total_pages req_id state)
            (fetch_page_headers env mailbox page) a w
      | FetchBody mailbox uid req_id \<Rightarrow>
          to_worker (WFetchBody mailbox uid req_id) (EvBodyFailed uid req_id (lit ''not connected'')) a w
      | BulkDownload mailbox \<Rightarrow> to_worker (WBulkDownload mailbox) (EvError (lit ''not connected'')) a w
      | ExportMessage mailbox uid path \<Rightarrow>
          to_worker (WExportMessage mailbox uid path) (EvExportFailed (lit ''not connected'')) a w
      | PollMailbox mailbox \<Rightarrow>
          poll_session (\<lambda>mb. EvMailboxPolled mailbox (state_of_selected mb))
            (call (api_examine (ae_api env) mailbox)) a w
      | FetchNewHeaders mailbox first_uid \<Rightarrow>
          poll_session (EvNewHeaders mailbox) (fetch_new_headers env mailbox first_uid) a w
      | FetchHeadersFrom mailbox first_uid \<Rightarrow>
          with_session env EvError (EvHeadersFrom mailbox) (fetch_new_headers env mailbox first_uid) a w
      | Append mailbox raw \<Rightarrow>
          with_session env (EvAppendFailed mailbox) (\<lambda>_. EvAppended mailbox) (append_message env mailbox raw) a w
      | StoreFlags mailbox uid add remove req_id \<Rightarrow>
          with_session env (\<lambda>e. EvFlagsUpdateFailed mailbox uid e req_id) (\<lambda>flags. EvFlagsUpdated mailbox uid flags req_id)
            (store_flags env mailbox uid add remove) a w
      | MoveMessage mailbox uid dest req_id \<Rightarrow>
          with_session env (\<lambda>e. EvMoveFailed mailbox uid e req_id) (\<lambda>_. EvMoved mailbox uid dest req_id)
            (move_message env mailbox uid dest) a w
      | FetchUnreadCounts mailboxes \<Rightarrow>
          (case ensure_connected env a w of
             (Inl _, a, w) \<Rightarrow> (a, w)
           | (Inr c, a, w) \<Rightarrow>
               (case fetch_unread_counts env mailboxes Map.empty c w of
                  (counts, c, w) \<Rightarrow> (a\<lparr>ia_session := Some c\<rparr>, send_event (EvUnreadCounts counts) w))))"

text \<open>The tasks of an account take turns: the actor its next command, a worker its next one.\<close>

datatype actor_input = ActorCommand "auth imap_command" | WorkerTurn | OldWorkerTurn nat

definition actor_step ::
  "('c, 'w) actor_env \<Rightarrow> actor_input \<Rightarrow> 'c imap_actor \<times> 'w imap_world \<Rightarrow> 'c imap_actor \<times> 'w imap_world" where
  "actor_step env inp = (\<lambda>(a, w).
     case inp of
       ActorCommand cmd \<Rightarrow> actor_command env cmd a w
     | WorkerTurn \<Rightarrow>
         (case ia_worker a of
            None \<Rightarrow> (a, w)
          | Some k \<Rightarrow> (case worker_step env k w of (k, w) \<Rightarrow> (a\<lparr>ia_worker := Some k\<rparr>, w)))
     | OldWorkerTurn i \<Rightarrow>
         (if i < length (ia_old_workers a)
          then (case worker_step env (ia_old_workers a ! i) w of
                  (k, w) \<Rightarrow> (a\<lparr>ia_old_workers := (ia_old_workers a)[i := k]\<rparr>, w))
          else (a, w)))"

definition actor_run ::
  "('c, 'w) actor_env \<Rightarrow> actor_input list \<Rightarrow> 'c imap_actor \<times> 'w imap_world \<Rightarrow> 'c imap_actor \<times> 'w imap_world" where
  "actor_run env inputs s = foldl (\<lambda>s inp. actor_step env inp s) s inputs"

end
