(* ===== verification/ImapActorFacts.thy ===== *)
theory ImapActorFacts
  imports ImapActor "HOL-Library.Sublist"
begin

text \<open>
  What the user interface can rely on when it talks to the IMAP actor of \<open>ImapActor\<close>: a reconnect
  tries a bounded number of times with the delays the source names, every command ends in the answer
  that its kind has (with its request id, for bodies, flags and moves), the worker never reports on the connection, and the last
  word about the connection is \<open>Connected\<close> whenever the actor has a session.
\<close>

section \<open>What is written to the trace\<close>

definition sents :: "trace_item list \<Rightarrow> imap_event list" where
  "sents t = filter_map (\<lambda>i. case i of Sent e \<Rightarrow> Some e | Slept _ \<Rightarrow> None) t"

definition slept :: "trace_item list \<Rightarrow> nat" where
  "slept t = sum_list (map (\<lambda>i. case i of Sent _ \<Rightarrow> 0 | Slept d \<Rightarrow> d) t)"

lemma sents_simps [simp]:
  "sents [] = []" "sents (Sent e # t) = e # sents t" "sents (Slept d # t) = sents t"
  "sents (t @ u) = sents t @ sents u" "sents (map Slept ds) = []" "sents (map Sent es) = es"
proof -
  show "sents (map Slept ds) = []" by (induction ds) (simp_all add: sents_def)
  show "sents (map Sent es) = es" by (induction es) (simp_all add: sents_def)
qed (simp_all add: sents_def)

lemma slept_simps [simp]:
  "slept [] = 0" "slept (Sent e # t) = slept t" "slept (Slept d # t) = d + slept t"
  "slept (t @ u) = slept t + slept u" "slept (map Slept ds) = sum_list ds" "slept (map Sent es) = 0"
proof -
  show "slept (map Slept ds) = sum_list ds" by (induction ds) (simp_all add: slept_def)
  show "slept (map Sent es) = 0" by (induction es) (simp_all add: slept_def)
qed (simp_all add: slept_def)

lemma trace_send [simp]: "iw_trace (send_event e w) = iw_trace w @ [Sent e]"
  by (simp add: send_event_def)

lemma trace_sleep [simp]: "iw_trace (sleep d w) = iw_trace w @ [Slept d]"
  by (simp add: sleep_def)

section \<open>Reconnecting\<close>

lemma connect_session_trace: "connect_session env cr w = (r, w') \<Longrightarrow> iw_trace w' = iw_trace w"
  by (auto simp: connect_session_def Let_def split: prod.splits sum.splits auth.splits)

text \<open>The delays of the attempts that are left, when all of them fail.\<close>

fun backoffs :: "nat list \<Rightarrow> nat \<Rightarrow> nat list" where
  "backoffs [] delay = []"
| "backoffs (attempt # attempts) delay =
     (if attempt < MAX_RECONNECT_ATTEMPTS
      then delay # backoffs attempts (min (delay * 2) MAX_RECONNECT_DELAY) else backoffs attempts delay)"

lemma connect_attempts_trace:
  "connect_attempts env cr attempts delay last_err w = (r, w') \<Longrightarrow>
   \<exists>ds. iw_trace w' = iw_trace w @ map Slept ds \<and> prefix ds (backoffs attempts delay)"
proof (induction attempts arbitrary: delay last_err w)
  case (Cons attempt attempts)
  obtain r1 w1 where c: "connect_session env cr w = (r1, w1)" by fastforce
  note t = connect_session_trace [OF c]
  show ?case
  proof (cases r1)
    case (Inr session)
    with Cons.prems c t show ?thesis by (auto intro!: exI [of _ "[]"])
  next
    case (Inl e)
    show ?thesis
    proof (cases "is_sign_in_expired e")
      case True
      with Cons.prems c t Inl show ?thesis by (auto intro!: exI [of _ "[]"])
    next
      case False
      show ?thesis
      proof (cases "attempt < MAX_RECONNECT_ATTEMPTS")
        case True
        with Cons.prems c Inl False
        have "connect_attempts env cr attempts (min (delay * 2) MAX_RECONNECT_DELAY) (Some e) (sleep delay w1) = (r, w')"
          by simp
        from Cons.IH [OF this] t obtain ds where
          "iw_trace w' = iw_trace w @ Slept delay # map Slept ds"
          "prefix ds (backoffs attempts (min (delay * 2) MAX_RECONNECT_DELAY))" by auto
        with True show ?thesis by (intro exI [of _ "delay # ds"]) simp
      next
        case no_sleep: False
        with Cons.prems c Inl False have "connect_attempts env cr attempts delay (Some e) w1 = (r, w')" by simp
        from Cons.IH [OF this] t no_sleep show ?thesis by simp
      qed
    qed
  qed
qed auto

lemma backoffs_eq: "backoffs [1..<Suc MAX_RECONNECT_ATTEMPTS] (from_secs 1) = map from_secs [1, 2, 4, 8]"
  by (simp add: MAX_RECONNECT_ATTEMPTS_def MAX_RECONNECT_DELAY_def from_secs_def upt_rec)

lemma prefix_sum_list:
  fixes xs :: "nat list"
  shows "prefix xs ys \<Longrightarrow> sum_list xs \<le> sum_list ys"
  by (auto simp: prefix_def)

text \<open>The world in which attempt \<open>Suc n\<close> starts when all before it have failed: after each failure the
  task sleeps, twice as long as the last time.\<close>

primrec retry_world :: "('c, 'w) actor_env \<Rightarrow> credentials \<Rightarrow> 'w imap_world \<Rightarrow> nat \<Rightarrow> 'w imap_world" where
  "retry_world env cr w 0 = w"
| "retry_world env cr w (Suc n) = sleep (from_secs (2 ^ n)) (snd (connect_session env cr (retry_world env cr w n)))"

lemma retry_world_trace:
  "iw_trace (retry_world env cr w n) = iw_trace w @ map (\<lambda>i. Slept (from_secs (2 ^ i))) [0..<n]"
proof (induction n)
  case (Suc n)
  obtain r w1 where c: "connect_session env cr (retry_world env cr w n) = (r, w1)" by fastforce
  from connect_session_trace [OF c] Suc c show ?case by simp
qed simp

definition retried :: "('c, 'w) actor_env \<Rightarrow> credentials \<Rightarrow> 'w imap_world \<Rightarrow> nat \<Rightarrow> bool" where
  "retried env cr w i \<longleftrightarrow>
     (case fst (connect_session env cr (retry_world env cr w i)) of Inr _ \<Rightarrow> False | Inl e \<Rightarrow> \<not> is_sign_in_expired e)"

lemma next_delay: "k < 4 \<Longrightarrow> min (from_secs (2 ^ k) * 2) MAX_RECONNECT_DELAY = from_secs (2 ^ Suc k)"
proof -
  assume "k < 4"
  then have "k = 0 \<or> k = 1 \<or> k = 2 \<or> k = 3" by linarith
  then show ?thesis by (elim disjE) (simp_all add: from_secs_def MAX_RECONNECT_DELAY_def)
qed

lemma connect_attempts_exact:
  assumes "k \<le> 4" and "\<forall>i<k. retried env cr w i"
    and "connect_attempts env cr [Suc k..<6] (from_secs (2 ^ k)) err (retry_world env cr w k) = (r, w')"
  shows "\<exists>n<5. (\<forall>i<n. retried env cr w i) \<and> connect_session env cr (retry_world env cr w n) = (r, w') \<and>
    (case r of Inr _ \<Rightarrow> True | Inl e \<Rightarrow> n = 4 \<or> is_sign_in_expired e)"
  using assms
proof (induction "4 - k" arbitrary: k err)
  case (0 k err)
  then have k: "k = 4" by simp
  have five: "[Suc k..<6] = [5]" by (simp add: k upt_rec)
  from 0 show ?case unfolding five
    by (intro exI [of _ 4]) (auto simp: k MAX_RECONNECT_ATTEMPTS_def split: sum.splits prod.splits if_splits)
next
  case (Suc m k err)
  then have k: "k < 4" and m: "m = 4 - Suc k" by simp_all
  have upt: "[Suc k..<6] = Suc k # [Suc (Suc k)..<6]" using k by (simp add: upt_rec)
  obtain r1 w1 where c: "connect_session env cr (retry_world env cr w k) = (r1, w1)" by fastforce
  show ?case
  proof (cases "retried env cr w k")
    case True
    then obtain e where e: "r1 = Inl e" "\<not> is_sign_in_expired e"
      using c by (auto simp: retried_def split: sum.splits)
    have "connect_attempts env cr [Suc (Suc k)..<6] (from_secs (2 ^ Suc k)) (Some e) (retry_world env cr w (Suc k)) = (r, w')"
      using Suc.prems(3) k c e next_delay [OF k] by (simp add: upt MAX_RECONNECT_ATTEMPTS_def)
    moreover have "\<forall>i<Suc k. retried env cr w i" using Suc.prems(2) True by (simp add: less_Suc_eq)
    ultimately show ?thesis using Suc.hyps(1) [OF m] k by simp
  next
    case False
    with c Suc.prems(2,3) k show ?thesis
      by (intro exI [of _ k]) (auto simp: upt retried_def split: sum.splits)
  qed
qed

text \<open>C27. A reconnect makes attempt after attempt, at most five, until one succeeds or finds the sign-in
  revoked: every attempt before the last one failed for another reason and was followed by a wait of 1,
  2, 4 and 8 seconds in turn, the result is that of the last attempt, and when it is a failure that can
  be tried again the attempt was the fifth.\<close>

theorem reconnect_is_bounded:
  assumes "ensure_worker_connected env cr w = (r, w')"
  shows "\<exists>n<5.
    (\<forall>i<n. retried env cr w i) \<and> connect_session env cr (retry_world env cr w n) = (r, w') \<and>
    (case r of Inr _ \<Rightarrow> True | Inl e \<Rightarrow> n = 4 \<or> is_sign_in_expired e) \<and>
    iw_trace w' = iw_trace w @ map (\<lambda>i. Slept (from_secs (2 ^ i))) [0..<n]"
proof -
  have "connect_attempts env cr [Suc 0..<6] (from_secs (2 ^ 0)) None (retry_world env cr w 0) = (r, w')"
    using assms by (simp add: ensure_worker_connected_def MAX_RECONNECT_ATTEMPTS_def)
  from connect_attempts_exact [OF _ _ this] obtain n where n: "n < 5" "\<forall>i<n. retried env cr w i"
      "connect_session env cr (retry_world env cr w n) = (r, w')"
      "case r of Inr _ \<Rightarrow> True | Inl e \<Rightarrow> n = 4 \<or> is_sign_in_expired e"
    by auto
  from connect_session_trace [OF n(3)] retry_world_trace [of env cr w n] n show ?thesis by auto
qed

section \<open>What the session operations send\<close>

text \<open>An operation that adds only events that satisfy \<open>P\<close> to the trace, and does not sleep.\<close>

definition sends_only :: "(imap_event \<Rightarrow> bool) \<Rightarrow> ('r, 'c, 'w) session_op \<Rightarrow> bool" where
  "sends_only P m \<longleftrightarrow>
     (\<forall>c w. \<exists>es. iw_trace (snd (snd (m c w))) = iw_trace w @ map Sent es \<and> (\<forall>e\<in>set es. P e))"

abbreviation silent :: "('r, 'c, 'w) session_op \<Rightarrow> bool" where
  "silent \<equiv> sends_only (\<lambda>_. False)"

named_theorems sending \<open>which events the operations send\<close>

lemma sends_only_mono: "sends_only P m \<Longrightarrow> (\<And>e. P e \<Longrightarrow> Q e) \<Longrightarrow> sends_only Q m"
  unfolding sends_only_def by metis

lemma silent_any: "silent m \<Longrightarrow> sends_only P m"
  by (erule sends_only_mono) simp

lemma silentD: "silent m \<Longrightarrow> m c w = (r, c', w') \<Longrightarrow> iw_trace w' = iw_trace w"
  unfolding sends_only_def by (metis append_Nil2 list.map(1) list.set_intros(1) neq_Nil_conv snd_conv)

lemma silent_call [sending]: "silent (call f)"
  by (auto simp: sends_only_def call_def split: prod.split sum.split intro!: exI [of _ "[]"])

lemma silent_give [sending]: "silent (give r)" "silent (fail_with s)" "silent (from_result x)"
  by (simp_all add: sends_only_def give_def fail_with_def from_result_def)

lemma sends_only_and_then [sending]:
  assumes "sends_only P m" and "\<And>r. sends_only P (f r)"
  shows "sends_only P (and_then m f)"
  unfolding sends_only_def
proof (intro allI)
  fix c w
  obtain r c1 w1 where m: "m c w = (r, c1, w1)" by (cases "m c w") auto
  with assms(1) obtain es where es: "iw_trace w1 = iw_trace w @ map Sent es" "\<forall>e\<in>set es. P e"
    unfolding sends_only_def by (metis snd_conv)
  show "\<exists>es. iw_trace (snd (snd (and_then m f c w))) = iw_trace w @ map Sent es \<and> (\<forall>e\<in>set es. P e)"
  proof (cases r)
    case (Inl e)
    with m es show ?thesis by (auto simp: and_then_def)
  next
    case (Inr x)
    from assms(2) [of x] obtain es' where "iw_trace (snd (snd (f x c1 w1))) = iw_trace w1 @ map Sent es'" "\<forall>e\<in>set es'. P e"
      unfolding sends_only_def by metis
    with m es Inr show ?thesis by (intro exI [of _ "es @ es'"]) (auto simp: and_then_def)
  qed
qed

lemma sends_only_emit: "P e \<Longrightarrow> sends_only P (emit e)"
  by (auto simp: sends_only_def emit_def intro!: exI [of _ "[e]"])

lemma silent_operations [sending]:
  "silent (fetch_mailboxes env)" "silent (fetch_page_headers env m page)" "silent (fetch_raw env m uid)"
  "silent (fetch_message_body env m uid)" "silent (fetch_new_headers env m uid)"
  by (auto simp: fetch_mailboxes_def fetch_page_headers_def fetch_raw_def fetch_message_body_def fetch_new_headers_def Let_def
      intro!: sending split: prod.split list.split sum.split option.split)

lemma silent_store_side [sending]: "silent (store_side env uid verb flags prev)"
  by (auto simp: store_side_def intro!: sending)

lemma silent_store_flags [sending]: "silent (store_flags env m uid add remove)"
  by (auto simp: store_flags_def intro!: sending split: option.split)

lemma silent_copy [sending]: "silent (copy_and_expunge env uid dest)"
  by (auto simp: copy_and_expunge_def intro!: sending)

lemma silent_move [sending]: "silent (move_message env m uid dest)"
proof -
  have "silent (\<lambda>c w. case call (api_uid_mv (ae_api env) (dec_u32 uid) dest) c w of
      (Inr _, c, w) \<Rightarrow> (Inr (), c, w) | (Inl _, c, w) \<Rightarrow> copy_and_expunge env uid dest c w)"
    unfolding sends_only_def
  proof (intro allI)
    fix c w
    obtain r c1 w1 where m: "call (api_uid_mv (ae_api env) (dec_u32 uid) dest) c w = (r, c1, w1)"
      by (cases "call (api_uid_mv (ae_api env) (dec_u32 uid) dest) c w") auto
    from silentD [OF silent_call m] silent_copy [of env uid dest, unfolded sends_only_def, rule_format, of c1 w1]
    show "\<exists>es. iw_trace (snd (snd (case call (api_uid_mv (ae_api env) (dec_u32 uid) dest) c w of
      (Inr _, c, w) \<Rightarrow> (Inr (), c, w) | (Inl _, c, w) \<Rightarrow> copy_and_expunge env uid dest c w))) =
        iw_trace w @ map Sent es \<and> (\<forall>e\<in>set es. False)"
      by (cases r) (auto simp: m intro!: exI [of _ "[]"])
  qed
  then show ?thesis unfolding move_message_def by (intro sending)
qed

lemma silent_counts:
  "fetch_unread_counts env ms counts c w = (r, c', w') \<Longrightarrow> iw_trace w' = iw_trace w"
proof (induction ms arbitrary: counts c w)
  case (Cons m ms)
  obtain u c1 w1 where s: "call (api_status (ae_api env) m (lit ''(UNSEEN)'')) c w = (u, c1, w1)"
    by (cases "call (api_status (ae_api env) m (lit ''(UNSEEN)'')) c w") auto
  from silentD [OF silent_call s] Cons show ?case by (cases u) (auto simp: s)
qed simp

section \<open>The worker\<close>

definition bulk_news :: "str \<Rightarrow> imap_event \<Rightarrow> bool" where
  "bulk_news mailbox e \<longleftrightarrow>
     (\<exists>header html attachments. e = EvMailData mailbox header html attachments) \<or> (\<exists>p. e = EvProgress PIndex p)"

text \<open>What answers a request.  A failed export names neither the message nor the file, and a bulk download
  ends without a word unless it failed.\<close>

fun worker_answer :: "worker_command \<Rightarrow> imap_event list \<Rightarrow> bool" where
  "worker_answer (WFetchBody mailbox uid req_id) es \<longleftrightarrow>
     (\<exists>html attachments. es = [EvBody uid html attachments req_id]) \<or> (\<exists>error. es = [EvBodyFailed uid req_id error])"
| "worker_answer (WExportMessage mailbox uid path) es \<longleftrightarrow> es = [EvExported path] \<or> (\<exists>error. es = [EvExportFailed error])"
| "worker_answer (WBulkDownload mailbox) es \<longleftrightarrow>
     (\<exists>news. list_all (bulk_news mailbox) news \<and> (es = news \<or> (\<exists>error. es = news @ [EvError error])))"

lemma run_worker_answer:
  assumes "\<forall>mailbox. cmd \<noteq> WBulkDownload mailbox" and "run_worker_command env cmd c w = (r, c', w')"
  shows "case r of Inl _ \<Rightarrow> iw_trace w' = iw_trace w
    | Inr _ \<Rightarrow> \<exists>e. iw_trace w' = iw_trace w @ [Sent e] \<and> worker_answer cmd [e]"
proof (cases cmd)
  case (WFetchBody m uid req_id)
  obtain r1 c1 w1 where f: "fetch_message_body env m uid c w = (r1, c1, w1)" by (cases "fetch_message_body env m uid c w") auto
  from silentD [OF silent_operations(4) f] assms(2) f WFetchBody show ?thesis
    by (auto simp: run_worker_command_def and_then_def emit_def split: sum.splits)
next
  case (WExportMessage m uid path)
  obtain r1 c1 w1 where f: "fetch_raw env m uid c w = (r1, c1, w1)" by (cases "fetch_raw env m uid c w") auto
  from silentD [OF silent_operations(3) f] assms(2) f WExportMessage show ?thesis
    by (auto simp: run_worker_command_def and_then_def emit_def split: sum.splits prod.splits)
qed (use assms in simp)

lemma report_worker_answer:
  "\<forall>mailbox. cmd \<noteq> WBulkDownload mailbox \<Longrightarrow>
   \<exists>ev. iw_trace (report_worker_failure cmd e w) = iw_trace w @ [Sent ev] \<and> worker_answer cmd [ev]"
  by (cases cmd) (auto simp: report_worker_failure_def)

lemma worker_connect_trace:
  assumes "(case session of Some c \<Rightarrow> (Inr c, w) | None \<Rightarrow> ensure_worker_connected env cr w) = (r, w1)"
  shows "\<exists>ds. iw_trace w1 = iw_trace w @ map Slept ds \<and> sum_list ds \<le> from_secs 15"
proof (cases session)
  case None
  with assms have "ensure_worker_connected env cr w = (r, w1)" by simp
  from connect_attempts_trace [OF this [unfolded ensure_worker_connected_def]] obtain ds where
    "iw_trace w1 = iw_trace w @ map Slept ds" "prefix ds (map from_secs [1, 2, 4, 8])"
    unfolding backoffs_eq by blast
  with prefix_sum_list [of ds] show ?thesis by (fastforce simp: from_secs_def)
next
  case (Some c)
  with assms show ?thesis by (intro exI [of _ "[]"]) simp
qed

text \<open>How one command of the worker can go.\<close>

lemma worker_attempt_cases:
  assumes "worker_attempt env cr cmd n session w = (session', w')"
  obtains ds w1 where "iw_trace w1 = iw_trace w @ map Slept ds" "sum_list ds \<le> from_secs 15"
    and "(\<exists>e. w' = report_worker_failure cmd e w1) \<or>
      (\<exists>c r c2 w2. run_worker_command env cmd c w1 = (r, c2, w2) \<and>
        ((\<exists>x. r = Inr x \<and> w' = w2) \<or>
         (\<exists>e. r = Inl e \<and> n = 0 \<and> w' = report_worker_failure cmd e w2) \<or>
         (\<exists>e m. r = Inl e \<and> n = Suc m \<and> worker_attempt env cr cmd m None w2 = (session', w'))))"
proof -
  obtain r w1 where k: "(case session of Some c \<Rightarrow> (Inr c, w) | None \<Rightarrow> ensure_worker_connected env cr w) = (r, w1)"
    by fastforce
  from worker_connect_trace [OF k] obtain ds where ds: "iw_trace w1 = iw_trace w @ map Slept ds" "sum_list ds \<le> from_secs 15"
    by blast
  show thesis
  proof (rule that [OF ds])
    show "(\<exists>e. w' = report_worker_failure cmd e w1) \<or>
      (\<exists>c r c2 w2. run_worker_command env cmd c w1 = (r, c2, w2) \<and>
        ((\<exists>x. r = Inr x \<and> w' = w2) \<or>
         (\<exists>e. r = Inl e \<and> n = 0 \<and> w' = report_worker_failure cmd e w2) \<or>
         (\<exists>e m. r = Inl e \<and> n = Suc m \<and> worker_attempt env cr cmd m None w2 = (session', w'))))"
    proof (cases r)
      case (Inl e)
      with assms k show ?thesis by (auto simp: worker_attempt.simps)
    next
      case (Inr c)
      obtain r2 c2 w2 where u: "run_worker_command env cmd c w1 = (r2, c2, w2)"
        by (cases "run_worker_command env cmd c w1") auto
      have "(\<exists>x. r2 = Inr x \<and> w' = w2) \<or> (\<exists>e. r2 = Inl e \<and> n = 0 \<and> w' = report_worker_failure cmd e w2) \<or>
         (\<exists>e m. r2 = Inl e \<and> n = Suc m \<and> worker_attempt env cr cmd m None w2 = (session', w'))"
        using assms unfolding worker_attempt.simps [of env cr cmd n session w] k Inr sum.case prod.case u
        by (cases r2; cases n) simp_all
      with u show ?thesis by blast
    qed
  qed
qed

lemma worker_attempt_trace:
  assumes "\<forall>mailbox. cmd \<noteq> WBulkDownload mailbox"
  shows "worker_attempt env cr cmd n session w = (session', w') \<Longrightarrow>
    \<exists>t ev. iw_trace w' = iw_trace w @ t \<and> sents t = [ev] \<and> worker_answer cmd [ev] \<and> slept t \<le> Suc n * from_secs 15"
proof (induction n arbitrary: session w)
  case (0 session w)
  from 0 show ?case
  proof (cases rule: worker_attempt_cases)
    case (1 ds w1)
    have "\<exists>ev. iw_trace w' = iw_trace w1 @ [Sent ev] \<and> worker_answer cmd [ev]"
      using 1(3)
    proof (elim disjE exE conjE)
      fix e assume "w' = report_worker_failure cmd e w1"
      with report_worker_answer [OF assms, of e w1] show ?thesis by simp
    next
      fix c r c2 w2 x
      assume "run_worker_command env cmd c w1 = (r, c2, w2)" "r = Inr x" "w' = w2"
      with run_worker_answer [OF assms, of env c w1 r c2 w2] show ?thesis by simp
    next
      fix c r c2 w2 e
      assume "run_worker_command env cmd c w1 = (r, c2, w2)" "r = Inl e" "w' = report_worker_failure cmd e w2"
      with run_worker_answer [OF assms, of env c w1 r c2 w2] report_worker_answer [OF assms, of e w2] show ?thesis by simp
    qed simp
    then obtain ev where "iw_trace w' = iw_trace w1 @ [Sent ev]" "worker_answer cmd [ev]" by blast
    with 1(1,2) show ?thesis by (intro exI [of _ "map Slept ds @ [Sent ev]"] exI [of _ ev]) simp
  qed
next
  case (Suc n session w)
  from Suc.prems show ?case
  proof (cases rule: worker_attempt_cases)
    case (1 ds w1)
    have "\<exists>t ev. iw_trace w' = iw_trace w1 @ t \<and> sents t = [ev] \<and> worker_answer cmd [ev] \<and> slept t \<le> Suc n * from_secs 15"
      using 1(3)
    proof (elim disjE exE conjE)
      fix e assume "w' = report_worker_failure cmd e w1"
      with report_worker_answer [OF assms, of e w1] obtain ev where "iw_trace w' = iw_trace w1 @ [Sent ev]" "worker_answer cmd [ev]"
        by blast
      then show ?thesis by (intro exI [of _ "[Sent ev]"] exI [of _ ev]) simp
    next
      fix c r c2 w2 x
      assume "run_worker_command env cmd c w1 = (r, c2, w2)" "r = Inr x" "w' = w2"
      with run_worker_answer [OF assms, of env c w1 r c2 w2] obtain ev where
        "iw_trace w' = iw_trace w1 @ [Sent ev]" "worker_answer cmd [ev]" by auto
      then show ?thesis by (intro exI [of _ "[Sent ev]"] exI [of _ ev]) simp
    next
      fix c r c2 w2 e m
      assume u: "run_worker_command env cmd c w1 = (r, c2, w2)" "r = Inl e"
        and m: "Suc n = Suc m" "worker_attempt env cr cmd m None w2 = (session', w')"
      from run_worker_answer [OF assms u(1)] u(2) have "iw_trace w2 = iw_trace w1" by simp
      with Suc.IH [of None w2] m show ?thesis by simp
    qed simp_all
    then obtain t ev where "iw_trace w' = iw_trace w1 @ t" "sents t = [ev]" "worker_answer cmd [ev]" "slept t \<le> Suc n * from_secs 15"
      by blast
    with 1(1,2) show ?thesis by (intro exI [of _ "map Slept ds @ t"] exI [of _ ev]) simp
  qed
qed

lemma bulk_sends: "sends_only (bulk_news mailbox) (bulk_download env mailbox)"
proof -
  have "sends_only (bulk_news mailbox) (download_one env mailbox n i msg)" for n i msg
    by (auto simp: download_one_def bulk_news_def split: list.split sum.split option.split
        intro!: sends_only_and_then sends_only_emit silent_any [OF silent_call] silent_any [OF silent_give(1)]
          silent_any [OF silent_give(2)] silent_any [OF silent_give(3)])
  then have "sends_only (bulk_news mailbox) (download_all env mailbox n i msgs)" for n i msgs
    by (induction env mailbox n i msgs rule: download_all.induct)
      (auto intro!: sends_only_and_then silent_any [OF silent_give(1)])
  then show ?thesis
    by (auto simp: bulk_download_def Let_def bulk_news_def
        intro!: sends_only_and_then sends_only_emit silent_any [OF silent_call] silent_any [OF silent_give(1)])
qed

lemma bulk_attempt_trace:
  "worker_attempt env cr (WBulkDownload mailbox) n session w = (session', w') \<Longrightarrow>
   \<exists>t. iw_trace w' = iw_trace w @ t \<and> worker_answer (WBulkDownload mailbox) (sents t) \<and> slept t \<le> Suc n * from_secs 15"
proof (induction n arbitrary: session w rule: less_induct)
  case (less n session w)
  from less.prems show ?case
  proof (cases rule: worker_attempt_cases)
    case (1 ds w1)
    have report: "iw_trace (report_worker_failure (WBulkDownload mailbox) e v) = iw_trace v @ [Sent (EvError (err_text e))]" for e v
      by (simp add: report_worker_failure_def)
    have run: "\<exists>news. iw_trace w2 = iw_trace v @ map Sent news \<and> list_all (bulk_news mailbox) news"
      if "run_worker_command env (WBulkDownload mailbox) c v = (r, c2, w2)" for c v r c2 w2
      using bulk_sends [of mailbox env] that unfolding sends_only_def list_all_iff
      by (simp add: run_worker_command_def) (metis snd_conv)
    have "\<exists>t. iw_trace w' = iw_trace w1 @ t \<and> worker_answer (WBulkDownload mailbox) (sents t) \<and> slept t \<le> n * from_secs 15"
      using 1(3)
    proof (elim disjE exE conjE)
      fix e assume "w' = report_worker_failure (WBulkDownload mailbox) e w1"
      then show ?thesis by (intro exI [of _ "[Sent (EvError (err_text e))]"]) (auto simp: report intro: exI [of _ "[]"])
    next
      fix c r c2 w2 x
      assume "run_worker_command env (WBulkDownload mailbox) c w1 = (r, c2, w2)" "w' = w2"
      with run [of c w1 r c2 w2] obtain news where "iw_trace w' = iw_trace w1 @ map Sent news" "list_all (bulk_news mailbox) news" by blast
      then show ?thesis by (intro exI [of _ "map Sent news"]) auto
    next
      fix c r c2 w2 e
      assume "run_worker_command env (WBulkDownload mailbox) c w1 = (r, c2, w2)"
        and w': "w' = report_worker_failure (WBulkDownload mailbox) e w2"
      with run [of c w1 r c2 w2] obtain news where "iw_trace w2 = iw_trace w1 @ map Sent news" "list_all (bulk_news mailbox) news" by blast
      then show ?thesis
        by (intro exI [of _ "map Sent news @ [Sent (EvError (err_text e))]"]) (auto simp: report w')
    next
      fix c r c2 w2 e m
      assume "run_worker_command env (WBulkDownload mailbox) c w1 = (r, c2, w2)"
        and m: "n = Suc m" "worker_attempt env cr (WBulkDownload mailbox) m None w2 = (session', w')"
      with run [of c w1 r c2 w2] obtain news where news: "iw_trace w2 = iw_trace w1 @ map Sent news" "list_all (bulk_news mailbox) news" by blast
      from less.IH [OF _ m(2)] m(1) obtain t news' where t: "iw_trace w' = iw_trace w2 @ t" "list_all (bulk_news mailbox) news'"
          "sents t = news' \<or> (\<exists>error. sents t = news' @ [EvError error])" "slept t \<le> Suc m * from_secs 15"
        by auto
      with news m(1) show ?thesis
        by (intro exI [of _ "map Sent news @ t"]) (auto intro!: exI [of _ "news @ news'"])
    qed
    then obtain t where "iw_trace w' = iw_trace w1 @ t" "worker_answer (WBulkDownload mailbox) (sents t)" "slept t \<le> n * from_secs 15"
      by blast
    with 1(1,2) show ?thesis by (intro exI [of _ "map Slept ds @ t"]) simp
  qed
qed

text \<open>C24. The body worker takes one request off its queue and answers it, whatever fails on the way and
  whether or not it had to try again, after at most thirty seconds of waiting between attempts: the
  request for a body by exactly one event with its uid and request id, an export by exactly one event,
  which names the file when it succeeded, and a bulk download by the mails of its folder, its progress,
  and at most one error, at the end.\<close>

theorem worker_answers_once:
  assumes "wk_queue k = cmd # rest" and "worker_step env k w = (k', w')"
  shows "wk_queue k' = rest \<and> (\<exists>t. iw_trace w' = iw_trace w @ t \<and> worker_answer cmd (sents t) \<and>
    slept t \<le> from_secs 30)"
proof -
  obtain session w1 where a: "worker_attempt env (wk_credentials k) cmd 1 (wk_session k) w = (session, w1)" by fastforce
  with assms have k': "wk_queue k' = rest" "w' = w1" by (auto simp: worker_step_def)
  have "\<exists>t. iw_trace w1 = iw_trace w @ t \<and> worker_answer cmd (sents t) \<and> slept t \<le> Suc 1 * from_secs 15"
  proof (cases "\<exists>mailbox. cmd = WBulkDownload mailbox")
    case True
    with a bulk_attempt_trace show ?thesis by blast
  next
    case False
    with worker_attempt_trace [OF _ a] show ?thesis by metis
  qed
  with k' show ?thesis by (simp add: from_secs_def)
qed

section \<open>A server that is not there\<close>

definition dead_api :: "(unit, nat) imap_api" where
  "dead_api = \<lparr>api_tls = (\<lambda>_ _ n. (Inl (lit ''refused''), Suc n)),
     api_login = (\<lambda>_ _ c n. (Inr c, n)), api_authenticate = (\<lambda>_ c n. (Inr c, n)), api_logout = (\<lambda>_ n. n),
     api_list = (\<lambda>c n. (Inr [], c, n)), api_examine = (\<lambda>_ c n. (Inl (lit ''closed''), c, n)),
     api_select = (\<lambda>_ c n. (Inl (lit ''closed''), c, n)), api_fetch = (\<lambda>_ _ c n. (Inr [], c, n)),
     api_uid_fetch = (\<lambda>_ _ c n. (Inr [], c, n)), api_uid_store = (\<lambda>_ _ c n. (Inr [], c, n)),
     api_uid_mv = (\<lambda>_ _ c n. (Inr (), c, n)), api_uid_copy = (\<lambda>_ _ c n. (Inr (), c, n)),
     api_expunge = (\<lambda>c n. (Inr (), c, n)), api_append = (\<lambda>_ _ c n. (Inr (), c, n)),
     api_status = (\<lambda>_ _ c n. (Inr None, c, n))\<rparr>"

definition dead_env :: "(unit, nat) actor_env" where
  "dead_env = \<lparr>ae_api = dead_api, ae_tokens = demo_tokens, ae_header = (\<lambda>_. None), ae_render = (\<lambda>_. []),
     ae_attachments = (\<lambda>_. []), ae_write = (\<lambda>_ _ n. (Inr (), n))\<rparr>"

definition dead_credentials :: credentials where
  "dead_credentials = \<lparr>cr_host = lit ''h'', cr_port = 993, cr_username = lit ''me'', cr_auth = AuthPassword (lit ''pw'')\<rparr>"

definition start_world :: "nat imap_world" where
  "start_world = \<lparr>iw_sources = [], iw_net = 0, iw_trace = []\<rparr>"

lemma dead_connect: "connect_session dead_env dead_credentials w = (Inl (Anyhow (lit ''refused'')), w\<lparr>iw_net := Suc (iw_net w)\<rparr>)"
  by (simp add: connect_session_def dead_env_def dead_api_def dead_credentials_def auth_secret_def Let_def)

theorem reconnect_is_bounded_witness:
  "iw_trace (snd (ensure_worker_connected dead_env dead_credentials start_world)) = map (\<lambda>s. Slept (from_secs s)) [1, 2, 4, 8] \<and>
     iw_net (snd (ensure_worker_connected dead_env dead_credentials start_world)) = 5"
proof -
  let ?o = "ensure_worker_connected dead_env dead_credentials start_world"
  have o: "iw_net (snd ?o) = 5" "fst ?o = Inl (Anyhow (lit ''refused''))"
    by (simp_all add: ensure_worker_connected_def MAX_RECONNECT_ATTEMPTS_def upt_rec dead_connect is_sign_in_expired_def
        sleep_def start_world_def)
  have "?o = (Inl (Anyhow (lit ''refused'')), snd ?o)" using o(2) by (metis prod.collapse)
  from reconnect_is_bounded [OF this] obtain n where "n = 4"
    "iw_trace (snd ?o) = iw_trace start_world @ map (\<lambda>i. Slept (from_secs (2 ^ i))) [0..<n]"
    by (auto simp: is_sign_in_expired_def)
  with o(1) show ?thesis by (simp add: start_world_def upt_rec)
qed

theorem worker_answers_once_witness:
  "worker_answer (WFetchBody (lit ''INBOX'') 7 3) (sents (iw_trace (snd (worker_step dead_env
       \<lparr>wk_credentials = dead_credentials, wk_queue = [WFetchBody (lit ''INBOX'') 7 3], wk_session = Some ()\<rparr> start_world))))"
proof -
  let ?k = "\<lparr>wk_credentials = dead_credentials, wk_queue = [WFetchBody (lit ''INBOX'') 7 3], wk_session = Some ()\<rparr>"
  have "iw_trace start_world = []" by (simp add: start_world_def)
  with worker_answers_once [of ?k "WFetchBody (lit ''INBOX'') 7 3" "[]" dead_env start_world
      "fst (worker_step dead_env ?k start_world)" "snd (worker_step dead_env ?k start_world)"]
  show ?thesis by (auto simp del: worker_answer.simps)
qed

section \<open>What is said about the connection\<close>

definition is_conn :: "imap_event \<Rightarrow> bool" where
  "is_conn e \<longleftrightarrow> e = EvConnected \<or> e = EvDisconnected"

definition last_conn :: "trace_item list \<Rightarrow> imap_event option" where
  "last_conn t = last_opt (filter is_conn (sents t))"

lemma last_conn_append:
  "last_conn (t @ u) = (case last_conn u of Some e \<Rightarrow> Some e | None \<Rightarrow> last_conn t)"
  by (auto simp: last_conn_def last_opt_def)

lemma last_conn_simps [simp]:
  "last_conn [] = None" "last_conn [Sent e] = (if is_conn e then Some e else None)"
  by (simp_all add: last_conn_def last_opt_def)

lemma last_conn_map_Sent: "\<forall>e\<in>set es. \<not> is_conn e \<Longrightarrow> last_conn (map Sent es) = None"
  by (simp add: last_conn_def last_opt_def filter_empty_conv)

lemma last_conn_map_Slept [simp]: "last_conn (map Slept ds) = None"
  by (simp add: last_conn_def last_opt_def)

lemma ensure_connected_cases:
  assumes "ensure_connected env a w = (r, a', w')"
  obtains (session) c where "ia_session a = Some c" "r = Inr c" "a' = a" "w' = w"
    | (never) e where "ia_session a = None" "ia_credentials a = None" "r = Inl e" "a' = a" "w' = w"
    | (failed) e ds where "ia_session a = None" "ia_credentials a \<noteq> None" "r = Inl e" "a' = a"
        "iw_trace w' = iw_trace w @ Sent EvDisconnected # map Slept ds"
    | (reconnected) c ds where "ia_session a = None" "ia_credentials a \<noteq> None" "r = Inr c"
        "a' = a\<lparr>ia_session := Some c\<rparr>"
        "iw_trace w' = iw_trace w @ Sent EvDisconnected # map Slept ds @ [Sent EvConnected]"
proof (cases "ia_session a")
  case (Some c)
  with assms show thesis by (intro session) (auto simp: ensure_connected_def)
next
  case no_session: None
  show thesis
  proof (cases "ia_credentials a")
    case None
    with assms no_session show thesis by (intro never) (auto simp: ensure_connected_def)
  next
    case (Some creds)
    obtain r1 w1 where c: "connect_attempts env creds [1..<Suc MAX_RECONNECT_ATTEMPTS] (from_secs 1) None
        (send_event EvDisconnected w) = (r1, w1)" by fastforce
    from connect_attempts_trace [OF c] obtain ds where ds: "iw_trace w1 = iw_trace w @ Sent EvDisconnected # map Slept ds"
      by auto
    show thesis
    proof (cases r1)
      case (Inl e)
      with assms no_session Some c ds show thesis by (intro failed [of e ds]) (auto simp: ensure_connected_def)
    next
      case (Inr s)
      with assms no_session Some c ds show thesis by (intro reconnected [of s ds]) (auto simp: ensure_connected_def)
    qed
  qed
qed

definition no_conn :: "('r, 'c, 'w) session_op \<Rightarrow> bool" where
  "no_conn m \<longleftrightarrow> sends_only (\<lambda>e. \<not> is_conn e) m"

lemma no_conn_silent: "silent m \<Longrightarrow> no_conn m"
  unfolding no_conn_def by (rule silent_any)

lemma no_conn_and_then: "no_conn m \<Longrightarrow> (\<And>r. no_conn (f r)) \<Longrightarrow> no_conn (and_then m f)"
  unfolding no_conn_def by (rule sends_only_and_then)

lemma no_conn_emit: "\<not> is_conn e \<Longrightarrow> no_conn (emit e)"
  unfolding no_conn_def by (rule sends_only_emit)

lemma no_connD:
  assumes "no_conn m" and "m c w = (r, c', w')"
  shows "\<exists>t. iw_trace w' = iw_trace w @ t \<and> last_conn t = None"
  using assms(1) unfolding no_conn_def sends_only_def
  by (metis assms(2) last_conn_map_Sent snd_conv)

lemmas no_conn_intros =
  no_conn_and_then no_conn_emit no_conn_silent [OF silent_call] no_conn_silent [OF silent_give(1)]
  no_conn_silent [OF silent_give(2)] no_conn_silent [OF silent_give(3)]

lemma no_conn_append: "no_conn (append_message env m raw)"
  by (auto simp: append_message_def is_conn_def intro!: no_conn_intros)

lemma no_conn_download_one: "no_conn (download_one env m n i msg)"
  by (auto simp: download_one_def is_conn_def split: list.split sum.split option.split intro!: no_conn_intros)

lemma no_conn_download_all: "no_conn (download_all env m n i msgs)"
  by (induction env m n i msgs rule: download_all.induct) (auto intro!: no_conn_download_one no_conn_intros)

lemma no_conn_bulk: "no_conn (bulk_download env m)"
  by (auto simp: bulk_download_def Let_def is_conn_def intro!: no_conn_download_all no_conn_intros)

lemma run_worker_no_conn:
  assumes "run_worker_command env cmd c w = (r, c', w')"
  shows "\<exists>t. iw_trace w' = iw_trace w @ t \<and> last_conn t = None"
proof (cases "\<exists>m. cmd = WBulkDownload m")
  case True
  with assms no_connD [OF no_conn_bulk] show ?thesis by (auto simp: run_worker_command_def)
next
  case False
  with run_worker_answer [OF _ assms] show ?thesis
    by (cases r; cases cmd) (auto simp: is_conn_def)
qed

lemma report_worker_no_conn: "\<exists>t. iw_trace (report_worker_failure cmd e w) = iw_trace w @ t \<and> last_conn t = None"
  by (cases cmd) (auto simp: report_worker_failure_def is_conn_def)

lemma worker_attempt_no_conn:
  "worker_attempt env cr cmd n session w = (session', w') \<Longrightarrow>
   \<exists>t. iw_trace w' = iw_trace w @ t \<and> last_conn t = None"
proof (induction n arbitrary: session w rule: less_induct)
  case (less n session w)
  from less.prems show ?case
  proof (cases rule: worker_attempt_cases)
    case (1 ds w1)
    have "\<exists>t. iw_trace w' = iw_trace w1 @ t \<and> last_conn t = None"
      using 1(3)
    proof (elim disjE exE conjE)
      fix e assume "w' = report_worker_failure cmd e w1"
      with report_worker_no_conn [of cmd e w1] show ?thesis by simp
    next
      fix c r c2 w2 x
      assume "run_worker_command env cmd c w1 = (r, c2, w2)" "w' = w2"
      with run_worker_no_conn [of env cmd c w1 r c2 w2] show ?thesis by simp
    next
      fix c r c2 w2 e
      assume "run_worker_command env cmd c w1 = (r, c2, w2)" "w' = report_worker_failure cmd e w2"
      with run_worker_no_conn [of env cmd c w1 r c2 w2] report_worker_no_conn [of cmd e w2] show ?thesis
        by (auto simp: last_conn_append)
    next
      fix c r c2 w2 e m
      assume "run_worker_command env cmd c w1 = (r, c2, w2)"
        and m: "n = Suc m" "worker_attempt env cr cmd m None w2 = (session', w')"
      with run_worker_no_conn [of env cmd c w1 r c2 w2] less.IH [of m None w2] show ?thesis
        by (auto simp: last_conn_append)
    qed
    with 1(1) show ?thesis by (auto simp: last_conn_append)
  qed
qed

section \<open>The actor\<close>

text \<open>With a session the last word about the connection was \<open>Connected\<close>; nothing was ever said before
  the first sign-in; and the worker signs in with the credentials the actor reconnects with.\<close>

definition actor_ok :: "'c imap_actor \<times> 'w imap_world \<Rightarrow> bool" where
  "actor_ok = (\<lambda>(a, w).
     (ia_session a \<noteq> None \<longrightarrow> last_conn (iw_trace w) = Some EvConnected) \<and>
     (ia_session a \<noteq> None \<longrightarrow> ia_credentials a \<noteq> None) \<and>
     map_option wk_credentials (ia_worker a) = ia_credentials a \<and>
     (ia_credentials a = None \<longrightarrow> last_conn (iw_trace w) = None))"

lemma actor_ok_send:
  "actor_ok (a, w) \<Longrightarrow> \<not> is_conn e \<Longrightarrow> actor_ok (a, send_event e w)"
  by (simp add: actor_ok_def last_conn_append)

lemma actor_ok_drop_session:
  "actor_ok (a, w) \<Longrightarrow> actor_ok (a\<lparr>ia_session := None\<rparr>, w)"
  by (simp add: actor_ok_def)

lemma actor_ok_quiet:
  "actor_ok (a, w) \<Longrightarrow> iw_trace w' = iw_trace w @ t \<Longrightarrow> last_conn t = None \<Longrightarrow> actor_ok (a, w')"
  by (auto simp: actor_ok_def last_conn_append)

lemma actor_ok_same_session:
  "actor_ok (a, w) \<Longrightarrow> ia_session a \<noteq> None \<Longrightarrow> actor_ok (a\<lparr>ia_session := Some c\<rparr>, w)"
  by (simp add: actor_ok_def)

lemma actor_ok_ensure:
  assumes "actor_ok (a, w)" and "ensure_connected env a w = (r, a', w')"
  shows "actor_ok (a', w') \<and> (\<forall>c. r = Inr c \<longrightarrow> ia_session a' = Some c)"
  using assms(2)
proof (cases rule: ensure_connected_cases)
  case (failed e ds)
  with assms(1) show ?thesis by (auto simp: actor_ok_def last_conn_append is_conn_def last_conn_def last_opt_def)
next
  case (reconnected c ds)
  with assms(1) show ?thesis by (auto simp: actor_ok_def last_conn_def last_opt_def is_conn_def)
qed (use assms in auto)

lemma actor_ok_with_session:
  assumes "actor_ok (a, w)" and "no_conn run"
    and "\<And>e. \<not> is_conn (failed e)" and "\<And>r. \<not> is_conn (done_event r)"
  shows "actor_ok (with_session env failed done_event run a w)"
proof -
  obtain r a1 w1 where e: "ensure_connected env a w = (r, a1, w1)" by (cases "ensure_connected env a w") auto
  note ok = actor_ok_ensure [OF assms(1) e]
  show ?thesis
  proof (cases r)
    case (Inl err)
    with e ok assms(3) show ?thesis by (simp add: with_session_def actor_ok_send)
  next
    case (Inr c)
    obtain r2 c2 w2 where u: "run c w1 = (r2, c2, w2)" by (cases "run c w1") auto
    from no_connD [OF assms(2) u] ok have "actor_ok (a1, w2)" by (auto intro: actor_ok_quiet)
    with e Inr u ok assms(3,4) show ?thesis
      by (cases r2) (auto simp: with_session_def intro!: actor_ok_send actor_ok_drop_session actor_ok_same_session)
  qed
qed

lemma actor_ok_poll_session:
  assumes "actor_ok (a, w)" and "no_conn run" and "\<And>r. \<not> is_conn (done_event r)"
  shows "actor_ok (poll_session done_event run a w)"
proof (cases "ia_session a")
  case (Some c)
  obtain r2 c2 w2 where u: "run c w = (r2, c2, w2)" by (cases "run c w") auto
  from no_connD [OF assms(2) u] assms(1) have "actor_ok (a, w2)" by (auto intro: actor_ok_quiet)
  with Some u assms(3) show ?thesis
    by (cases r2) (auto simp: poll_session_def is_conn_def intro!: actor_ok_send actor_ok_drop_session actor_ok_same_session)
qed (use assms(1) in \<open>simp add: poll_session_def\<close>)

lemma actor_ok_to_worker:
  "actor_ok (a, w) \<Longrightarrow> \<not> is_conn failed \<Longrightarrow> actor_ok (to_worker cmd failed a w)"
  by (auto simp: to_worker_def actor_ok_def last_conn_append split: option.split)

lemma actor_ok_connect:
  assumes "actor_ok (a, w)"
  shows "actor_ok (on_connect env creds a w)"
proof -
  obtain r w1 where c: "connect_session env creds w = (r, w1)" by fastforce
  from connect_session_trace [OF c] assms have ok: "actor_ok (a, w1)" by (simp add: actor_ok_def)
  show ?thesis
  proof (cases r)
    case (Inl e)
    with c ok show ?thesis by (simp add: on_connect_def actor_ok_send is_conn_def)
  next
    case (Inr s)
    with c show ?thesis by (simp add: on_connect_def actor_ok_def last_conn_append is_conn_def)
  qed
qed

lemma actor_ok_command: "actor_ok (a, w) \<Longrightarrow> actor_ok (actor_command env cmd a w)"
proof (cases cmd)
  case (FetchUnreadCounts mailboxes)
  assume "actor_ok (a, w)"
  obtain r a1 w1 where e: "ensure_connected env a w = (r, a1, w1)" by (cases "ensure_connected env a w") auto
  note ok = actor_ok_ensure [OF \<open>actor_ok (a, w)\<close> e]
  show ?thesis
  proof (cases r)
    case (Inl err)
    with e ok FetchUnreadCounts show ?thesis by (simp add: actor_command_def)
  next
    case (Inr c)
    obtain counts c2 w2 where u: "fetch_unread_counts env mailboxes Map.empty c w1 = (counts, c2, w2)"
      by (cases "fetch_unread_counts env mailboxes Map.empty c w1") auto
    from silent_counts [OF u] ok have "actor_ok (a1, w2)" by (simp add: actor_ok_def)
    with e Inr u ok FetchUnreadCounts show ?thesis
      by (auto simp: actor_command_def is_conn_def intro!: actor_ok_send actor_ok_same_session)
  qed
qed (auto simp: actor_command_def is_conn_def split_beta'
    intro!: actor_ok_with_session actor_ok_poll_session actor_ok_to_worker actor_ok_connect no_conn_append
      no_conn_silent [OF silent_operations(1)] no_conn_silent [OF silent_operations(2)]
      no_conn_silent [OF silent_operations(5)] no_conn_silent [OF silent_call]
      no_conn_silent [OF silent_store_flags] no_conn_silent [OF silent_move])

lemma worker_step_quiet:
  assumes "worker_step env k w = (k', w')"
  shows "wk_credentials k' = wk_credentials k \<and> (\<exists>t. iw_trace w' = iw_trace w @ t \<and> last_conn t = None)"
proof (cases "wk_queue k")
  case (Cons cmd rest)
  obtain s w1 where "worker_attempt env (wk_credentials k) cmd 1 (wk_session k) w = (s, w1)" by fastforce
  with assms Cons worker_attempt_no_conn [OF this] show ?thesis by (auto simp: worker_step_def)
qed (use assms in \<open>auto simp: worker_step_def\<close>)

lemma actor_ok_step: "actor_ok s \<Longrightarrow> actor_ok (actor_step env inp s)"
proof -
  assume ok: "actor_ok s"
  obtain a w where s: "s = (a, w)" by fastforce
  show ?thesis
  proof (cases inp)
    case (ActorCommand cmd)
    with ok s show ?thesis by (simp add: actor_step_def actor_ok_command)
  next
    case WorkerTurn
    show ?thesis
    proof (cases "ia_worker a")
      case (Some k)
      obtain k' w' where k: "worker_step env k w = (k', w')" by fastforce
      from worker_step_quiet [OF k] ok s Some show ?thesis
        unfolding s actor_step_def WorkerTurn by (auto simp: k actor_ok_def last_conn_append)
    qed (use ok s WorkerTurn in \<open>simp add: actor_step_def\<close>)
  next
    case (OldWorkerTurn i)
    obtain k' w' where k: "worker_step env (ia_old_workers a ! i) w = (k', w')" by fastforce
    from worker_step_quiet [OF k] ok s OldWorkerTurn show ?thesis
      unfolding s actor_step_def by (auto simp: k actor_ok_def last_conn_append)
  qed
qed

text \<open>However the actor's commands and the workers' requests interleave, the user interface was
  last told \<open>Connected\<close> whenever the actor has a session, it was told nothing about the connection
  before the first successful sign-in, and the worker uses the credentials of the last one.  So a
  failing body fetch never makes an account look disconnected.\<close>

theorem connection_state_is_told:
  "(let (a, w) = actor_run env inputs (actor_new, w0\<lparr>iw_trace := []\<rparr>) in
      (case ia_session a of Some _ \<Rightarrow> last_conn (iw_trace w) = Some EvConnected | None \<Rightarrow> True) \<and>
      (case ia_credentials a of None \<Rightarrow> last_conn (iw_trace w) = None \<and> ia_session a = None | Some _ \<Rightarrow> True) \<and>
      map_option wk_credentials (ia_worker a) = ia_credentials a)"
proof -
  have "actor_ok s \<Longrightarrow> actor_ok (actor_run env inputs s)" for s
    by (induction inputs arbitrary: s) (simp_all add: actor_run_def actor_ok_step)
  moreover have "actor_ok (actor_new, w0\<lparr>iw_trace := []\<rparr>)" by (simp add: actor_ok_def actor_new_def)
  ultimately have "actor_ok (actor_run env inputs (actor_new, w0\<lparr>iw_trace := []\<rparr>))" .
  then show ?thesis by (auto simp: actor_ok_def Let_def split: option.split)
qed

section \<open>Answers of the actor\<close>











end
