(* ===== verification/ImapClient.thy ===== *)
theory ImapClient
  imports ImapActorFacts ImapServer OpenFolder
begin

text \<open>
  The client of \<open>ImapActor\<close> against a server: what a session must do for the actor's operations to
  mean what they say is stated as the locales \<open>mail_service\<close> (reading) and \<open>mail_mover\<close> (moving),
  over the messages the server holds.  They are interpreted on the store and the command handlers
  of the repository's own test server.  The lemmas show that the pages the actor fetches are the
  pages \<open>OpenFolder\<close> counts on, and when the fallback of a move is a move.
\<close>

section \<open>Which messages a page holds\<close>

lemma u32_eqI: "unat (a :: u32) = n \<Longrightarrow> a = of_nat n"
  by auto

lemma page_range_eq:
  fixes page :: u32
  assumes "0 < n" and "n + 50 \<le> 2 ^ 32" and "1 \<le> unat page" and "unat page \<le> (n + 49) div 50"
  defines "b \<equiv> n - (unat page - 1) * 50"
  shows "page_range (of_nat n) page = (of_nat ((n + 49) div 50), of_nat (max (b - 49) 1), of_nat b)"
    and "1 \<le> b" and "b \<le> n"
proof -
  let ?P = "(n + 49) div 50" and ?p = "unat page"
  have "?P * 50 \<le> n + 49" using div_times_less_eq_dividend [of "n + 49" 50] by simp
  with assms(4) have "?p * 50 \<le> n + 49" using mult_le_mono1 [OF assms(4), of 50] by linarith
  moreover have "(?p - 1) * 50 = ?p * 50 - 50" by (simp add: algebra_simps)
  ultimately have off: "(?p - 1) * 50 < n" using assms(1,3) by linarith
  then show b: "1 \<le> b" "b \<le> n" by (simp_all add: b_def)
  have nP: "unat ((of_nat n + 50 - 1 :: u32) div 50) = ?P"
  proof -
    have "(of_nat n + 50 - 1 :: u32) = of_nat (n + 49)" by simp
    then have "unat (of_nat n + 50 - 1 :: u32) = n + 49"
      using assms(2) by (simp only: small_u32)
    then show ?thesis by (simp only: unat_div) simp
  qed
  have page1: "max (min page ((of_nat n + 50 - 1 :: u32) div 50)) 1 = page"
  proof -
    have "page \<le> (of_nat n + 50 - 1 :: u32) div 50"
      unfolding word_le_nat_alt nP by (rule assms(4))
    moreover have "1 \<le> page" using assms(3) by (simp add: word_le_nat_alt)
    ultimately show ?thesis by (simp add: min_absorb1 max_absorb1)
  qed
  have unat_off: "unat ((page - 1) * 50 :: u32) = (?p - 1) * 50"
  proof -
    have "unat (page - 1) = ?p - 1" using assms(3) by (simp add: unat_sub word_le_nat_alt)
    with unat_word_ariths(2) [of "page - 1" "50 :: u32"]
    have "unat ((page - 1) * 50 :: u32) = (?p - 1) * 50 mod 2 ^ 32" by (simp only:) simp
    with off assms(2) show ?thesis by simp
  qed
  have stop: "sat_sub (of_nat n) ((page - 1) * 50) = (of_nat b :: u32)"
  proof -
    have "unat (sat_sub (of_nat n) ((page - 1) * 50) :: u32) = b"
      using assms(2) unfolding unat_sat_sub unat_off b_def by (simp add: small_u32)
    then show ?thesis by (rule u32_eqI)
  qed
  have start: "max (sat_sub (of_nat b) (50 - 1)) 1 = (of_nat (max (b - 49) 1) :: u32)"
  proof -
    have bb: "b < 2 ^ 32" using b(2) assms(2) by linarith
    have "unat (max (sat_sub (of_nat b) (50 - 1)) 1 :: u32) = max (b - 49) 1"
      using bb by (simp add: max_def word_le_nat_alt unat_sat_sub small_u32)
    then show ?thesis by (rule u32_eqI)
  qed
  have "(of_nat n + 50 - 1 :: u32) div 50 = of_nat ?P" by (rule u32_eqI [OF nP])
  then show "page_range (of_nat n) page = (of_nat ?P, of_nat (max (b - 49) 1), of_nat b)"
    using page1 stop start by (simp only: page_range_def Let_def)
qed

text \<open>The messages from the first to the last sequence number of a page, newest first.\<close>

lemma rev_slice:
  fixes p :: nat
  assumes "1 \<le> p" and "(p - 1) * 50 < length xs"
  defines "b \<equiv> length xs - (p - 1) * 50"
  shows "rev (take (Suc b - max (b - 49) 1) (drop (max (b - 49) 1 - 1) xs)) = take 50 (drop ((p - 1) * 50) (rev xs))"
proof -
  let ?o = "(p - 1) * 50"
  have b: "1 \<le> b" "b \<le> length xs" using assms(2) by (simp_all add: b_def)
  have "drop ?o (rev xs) = rev (take b xs)" by (simp add: drop_rev b_def)
  then have "take 50 (drop ?o (rev xs)) = rev (drop (b - 50) (take b xs))"
    using b by (simp add: take_rev min_def)
  moreover have "take (Suc b - max (b - 49) 1) (drop (max (b - 49) 1 - 1) xs) = drop (b - 50) (take b xs)"
  proof (cases "50 \<le> b")
    case True
    then have "max (b - 49) 1 = b - 49" by simp
    with True show ?thesis by (simp add: drop_take)
  next
    case False
    then have "max (b - 49) 1 = 1" by simp
    with False show ?thesis by simp
  qed
  ultimately show ?thesis by simp
qed

section \<open>A server that answers\<close>

definition complete_item :: "fetch_item \<Rightarrow> bool" where
  "complete_item it \<longleftrightarrow> fi_uid it \<noteq> None \<and> fi_envelope it \<noteq> None"

definition item_header :: "('c, 'w) actor_env \<Rightarrow> fetch_item \<Rightarrow> mail_header" where
  "item_header env it = parse_envelope_header env (the (fi_uid it)) (the (fi_envelope it)) (fetch_flags it)"

definition head_only :: "fetch_item \<Rightarrow> fetch_item" where
  "head_only it = it\<lparr>fi_body := None\<rparr>"

lemma headers_of_complete:
  "list_all complete_item its \<Longrightarrow>
   headers_of_items env (map (\<lambda>it. Inr (head_only it)) its) = Inr (map (item_header env) its)"
  by (induction its)
     (auto simp: header_of_item_def complete_item_def item_header_def head_only_def fetch_flags_def)

text \<open>\<open>msgs\<close> is what the server's mailboxes hold, in sequence order, \<open>sel\<close> the mailbox a session has
  selected.\<close>

locale mail_service =
  fixes api :: "('c, 'w) imap_api"
    and msgs :: "'w \<Rightarrow> str \<rightharpoonup> fetch_item list"
    and sel :: "'c \<Rightarrow> str option"
  assumes examine: "msgs n m = Some ms \<Longrightarrow> length ms < 2 ^ 32 \<Longrightarrow>
      \<exists>s c'. api_examine api m c n = (Inr s, c', n) \<and> sl_exists s = of_nat (length ms) \<and> sel c' = Some m"
    and fetch: "sel c = Some m \<Longrightarrow> msgs n m = Some ms \<Longrightarrow> length ms < 2 ^ 32 \<Longrightarrow>
      1 \<le> i \<Longrightarrow> i \<le> j \<Longrightarrow> j \<le> length ms \<Longrightarrow>
      api_fetch api (dec_u32 (of_nat i) @ lit '':'' @ dec_u32 (of_nat j)) (lit ''(UID ENVELOPE FLAGS)'') c n =
        (Inr (map (\<lambda>it. Inr (head_only it)) (take (Suc j - i) (drop (i - 1) ms))), c, n)"
begin

lemma fetch_page:
  assumes "ae_api env = api" and "msgs (iw_net w) m = Some ms" and "list_all complete_item ms"
    and "ms \<noteq> []" and "length ms + 50 \<le> 2 ^ 32" and "1 \<le> unat page" and "unat page \<le> (length ms + 49) div 50"
  shows "\<exists>st c'. fetch_page_headers env m page c w =
    (Inr (fst (pages_of (rev (map (item_header env) ms)) page),
          snd (pages_of (rev (map (item_header env) ms)) page), st), c', w)"
proof -
  let ?n = "length ms"
  have "?n < 2 ^ 32" using assms(5) by simp
  from examine [OF assms(2) this, of c] obtain s c' where
    ex: "api_examine api m c (iw_net w) = (Inr s, c', iw_net w)" "sl_exists s = of_nat ?n" "sel c' = Some m" by blast
  define b where "b = ?n - (unat page - 1) * 50"
  define a where "a = max (b - 49) 1"
  have n: "0 < ?n" using assms(4) by simp
  note pr = page_range_eq [OF n assms(5-7), folded b_def, folded a_def]
  have off: "(unat page - 1) * 50 < ?n" using pr(2) by (simp add: b_def)
  have "unat (sl_exists s) = ?n" using assms(5) by (simp add: ex(2) small_u32)
  with n have nz: "sl_exists s \<noteq> 0" by auto
  have "api_fetch api (dec_u32 (of_nat a) @ lit '':'' @ dec_u32 (of_nat b)) (lit ''(UID ENVELOPE FLAGS)'') c' (iw_net w) =
      (Inr (map (\<lambda>it. Inr (head_only it)) (take (Suc b - a) (drop (a - 1) ms))), c', iw_net w)"
    using pr(2,3) assms(5) by (intro fetch [OF ex(3) assms(2)]) (auto simp: a_def)
  moreover have "headers_of_items env (map (\<lambda>it. Inr (head_only it)) (take (Suc b - a) (drop (a - 1) ms))) =
      Inr (map (item_header env) (take (Suc b - a) (drop (a - 1) ms)))"
    using assms(3) by (intro headers_of_complete) (auto simp: list_all_iff dest: in_set_takeD in_set_dropD)
  moreover have "rev (map (item_header env) (take (Suc b - a) (drop (a - 1) ms))) =
      take 50 (drop ((unat page - 1) * 50) (rev (map (item_header env) ms)))"
    using rev_slice [OF assms(6) off, folded b_def, folded a_def]
    by (metis drop_map rev_map take_map)
  ultimately show ?thesis
    using ex nz pr(1) assms(1)
    by (simp add: fetch_page_headers_def and_then_def call_def from_result_def give_def pages_of_def PAGE_SIZE_def)
qed

end

text \<open>C22. Against a server that answers, page \<open>p\<close> of a mailbox is the \<open>p\<close>-th block of fifty of its
  messages counted from the newest, and the number of pages is what fifty to a page needs; so the
  actor is the server that \<open>whole_folder_loads\<close> pages through.\<close>

theorem pages_are_blocks:
  assumes "mail_service api msgs sel" and "ae_api env = api"
    and "msgs (iw_net w) m = Some ms" and "list_all complete_item ms" and "ms \<noteq> []" and "length ms + 50 \<le> 2 ^ 32"
    and "1 \<le> unat page" and "unat page \<le> (length ms + 49) div 50"
  shows "\<exists>st c'. fetch_page_headers env m page c w =
    (Inr (fst (pages_of (rev (map (item_header env) ms)) page),
          snd (pages_of (rev (map (item_header env) ms)) page), st), c', w)"
  by (rule mail_service.fetch_page [OF assms])

section \<open>Moving\<close>

definition mark_deleted :: "u32 \<Rightarrow> fetch_item \<Rightarrow> fetch_item" where
  "mark_deleted uid it =
     (if fi_uid it = Some uid \<and> FlDeleted \<notin> set (fi_flags it) then it\<lparr>fi_flags := fi_flags it @ [FlDeleted]\<rparr> else it)"

definition is_marked :: "fetch_item \<Rightarrow> bool" where
  "is_marked it \<longleftrightarrow> FlDeleted \<in> set (fi_flags it)"

text \<open>What a move is: the message is at the end of \<open>dest\<close> under its new uid, and gone from \<open>m\<close>.\<close>

definition moved_boxes ::
  "str \<Rightarrow> fetch_item \<Rightarrow> str \<Rightarrow> u32 \<Rightarrow> (str \<rightharpoonup> fetch_item list) \<Rightarrow> (str \<rightharpoonup> fetch_item list)" where
  "moved_boxes m it dest new boxes =
     boxes(dest \<mapsto> (case boxes dest of Some ds \<Rightarrow> ds | None \<Rightarrow> []) @ [it\<lparr>fi_uid := Some new\<rparr>],
           m \<mapsto> filter (\<lambda>j. fi_uid j \<noteq> fi_uid it) (case boxes m of Some ms \<Rightarrow> ms | None \<Rightarrow> []))"

text \<open>\<open>room k\<close>: the server's uids are distinct, and there is room for \<open>k\<close> more messages.\<close>

locale mail_mover = mail_service api msgs sel
  for api :: "('c, 'w) imap_api" and msgs :: "'w \<Rightarrow> str \<rightharpoonup> fetch_item list" and sel :: "'c \<Rightarrow> str option" +
  fixes room :: "nat \<Rightarrow> 'w \<Rightarrow> bool"
  assumes room_uids: "room k n \<Longrightarrow> msgs n m = Some ms \<Longrightarrow> distinct (map fi_uid ms)"
    and select: "msgs n m = Some ms \<Longrightarrow> \<exists>s c'. api_select api m c n = (Inr s, c', n) \<and> sel c' = Some m"
    and copy: "room (Suc k) n \<Longrightarrow> sel c = Some m \<Longrightarrow> msgs n m = Some ms \<Longrightarrow> it \<in> set ms \<Longrightarrow> fi_uid it = Some uid \<Longrightarrow>
      \<exists>n' new. api_uid_copy api (dec_u32 uid) dest c n = (Inr (), c, n') \<and> room k n' \<and>
        msgs n' = (msgs n)(dest \<mapsto> (case msgs n dest of Some ds \<Rightarrow> ds | None \<Rightarrow> []) @ [it\<lparr>fi_uid := Some new\<rparr>])"
    and mark: "room k n \<Longrightarrow> sel c = Some m \<Longrightarrow> msgs n m = Some ms \<Longrightarrow>
      \<exists>n'. api_uid_store api (dec_u32 uid) (lit ''+FLAGS.SILENT ('' @ blit ''Deleted'' @ lit '')'') c n = (Inr [], c, n') \<and>
        room k n' \<and> msgs n' = (msgs n)(m \<mapsto> map (mark_deleted uid) ms)"
    and expunge: "room k n \<Longrightarrow> sel c = Some m \<Longrightarrow> msgs n m = Some ms \<Longrightarrow>
      \<exists>n'. api_expunge api c n = (Inr (), c, n') \<and> msgs n' = (msgs n)(m \<mapsto> filter (\<lambda>j. \<not> is_marked j) ms)"
begin

lemma fallback:
  assumes api: "ae_api env = api" and room: "room (Suc k) (iw_net w)"
    and ms: "msgs (iw_net w) m = Some ms" and it: "it \<in> set ms" "fi_uid it = Some uid" and neq: "m \<noteq> dest"
    and no_mv: "\<And>c. \<exists>e. api_uid_mv api (dec_u32 uid) dest c (iw_net w) = (Inl e, c, iw_net w)"
  shows "\<exists>c' n' new. move_message env m uid dest c w = (Inr (), c', w\<lparr>iw_net := n'\<rparr>) \<and>
    msgs n' = (msgs (iw_net w))(
      dest \<mapsto> (case msgs (iw_net w) dest of Some ds \<Rightarrow> ds | None \<Rightarrow> []) @ [it\<lparr>fi_uid := Some new\<rparr>],
      m \<mapsto> filter (\<lambda>j. fi_uid j \<noteq> Some uid \<and> \<not> is_marked j) ms)"
proof -
  let ?n = "iw_net w"
  from select [OF ms] obtain s c1 where s: "api_select api m c ?n = (Inr s, c1, ?n)" "sel c1 = Some m" by blast
  from no_mv obtain e where e: "api_uid_mv api (dec_u32 uid) dest c1 ?n = (Inl e, c1, ?n)" by blast
  from copy [OF room s(2) ms it] obtain n1 new where
    n1: "api_uid_copy api (dec_u32 uid) dest c1 ?n = (Inr (), c1, n1)" "room k n1"
      "msgs n1 = (msgs ?n)(dest \<mapsto> (case msgs ?n dest of Some ds \<Rightarrow> ds | None \<Rightarrow> []) @ [it\<lparr>fi_uid := Some new\<rparr>])"
    by blast
  have "msgs n1 m = Some ms" using ms neq by (simp add: n1(3))
  from mark [OF n1(2) s(2) this] obtain n2 where
    n2: "api_uid_store api (dec_u32 uid) (lit ''+FLAGS.SILENT ('' @ blit ''Deleted'' @ lit '')'') c1 n1 = (Inr [], c1, n2)"
      "room k n2" "msgs n2 = (msgs n1)(m \<mapsto> map (mark_deleted uid) ms)"
    by blast
  have "msgs n2 m = Some (map (mark_deleted uid) ms)" by (simp add: n2(3))
  from expunge [OF n2(2) s(2) this] obtain n3 where
    n3: "api_expunge api c1 n2 = (Inr (), c1, n3)"
      "msgs n3 = (msgs n2)(m \<mapsto> filter (\<lambda>j. \<not> is_marked j) (map (mark_deleted uid) ms))"
    by blast
  have "filter (\<lambda>j. \<not> is_marked j) (map (mark_deleted uid) ms) = filter (\<lambda>j. fi_uid j \<noteq> Some uid \<and> \<not> is_marked j) ms"
    by (induction ms) (auto simp: mark_deleted_def is_marked_def)
  with n3(2) have m3: "msgs n3 = (msgs ?n)(
      dest \<mapsto> (case msgs ?n dest of Some ds \<Rightarrow> ds | None \<Rightarrow> []) @ [it\<lparr>fi_uid := Some new\<rparr>],
      m \<mapsto> filter (\<lambda>j. fi_uid j \<noteq> Some uid \<and> \<not> is_marked j) ms)"
    by (simp add: n2(3) n1(3))
  have "move_message env m uid dest c w = (Inr (), c1, w\<lparr>iw_net := n3\<rparr>)"
    using s(1) e n1(1) n2(1) n3(1)
    by (simp add: move_message_def copy_and_expunge_def and_then_def call_def from_result_def api)
  with m3 show ?thesis by blast
qed

lemma fallback_is_move_iff:
  assumes api: "ae_api env = api" and room: "room (Suc k) (iw_net w)"
    and ms: "msgs (iw_net w) m = Some ms" and it: "it \<in> set ms" "fi_uid it = Some uid" and neq: "m \<noteq> dest"
    and no_mv: "\<And>c. \<exists>e. api_uid_mv api (dec_u32 uid) dest c (iw_net w) = (Inl e, c, iw_net w)"
  shows "\<exists>c' n' new. move_message env m uid dest c w = (Inr (), c', w\<lparr>iw_net := n'\<rparr>) \<and>
    (msgs n' = moved_boxes m it dest new (msgs (iw_net w)) \<longleftrightarrow>
      filter (\<lambda>j. is_marked j \<and> fi_uid j \<noteq> Some uid) ms = [])"
proof -
  from fallback [OF assms] obtain c' n' new where
    f: "move_message env m uid dest c w = (Inr (), c', w\<lparr>iw_net := n'\<rparr>)"
    "msgs n' = (msgs (iw_net w))(
      dest \<mapsto> (case msgs (iw_net w) dest of Some ds \<Rightarrow> ds | None \<Rightarrow> []) @ [it\<lparr>fi_uid := Some new\<rparr>],
      m \<mapsto> filter (\<lambda>j. fi_uid j \<noteq> Some uid \<and> \<not> is_marked j) ms)" by blast
  have "filter (\<lambda>j. fi_uid j \<noteq> Some uid \<and> \<not> is_marked j) ms = filter (\<lambda>j. fi_uid j \<noteq> Some uid) ms \<longleftrightarrow>
      filter (\<lambda>j. is_marked j \<and> fi_uid j \<noteq> Some uid) ms = []" (is "?l = ?r \<longleftrightarrow> _")
  proof
    assume eq: "?l = ?r"
    have "\<not> (is_marked j \<and> fi_uid j \<noteq> Some uid)" if "j \<in> set ms" for j
    proof
      assume "is_marked j \<and> fi_uid j \<noteq> Some uid"
      with that have "j \<in> set ?r" by simp
      with eq have "j \<in> set ?l" by simp
      with \<open>is_marked j \<and> _\<close> show False by simp
    qed
    then show "filter (\<lambda>j. is_marked j \<and> fi_uid j \<noteq> Some uid) ms = []" by (simp add: filter_empty_conv)
  next
    assume "filter (\<lambda>j. is_marked j \<and> fi_uid j \<noteq> Some uid) ms = []"
    then show "?l = ?r" by (intro filter_cong) (auto simp: filter_empty_conv)
  qed
  then have "msgs n' = moved_boxes m it dest new (msgs (iw_net w)) \<longleftrightarrow>
      filter (\<lambda>j. is_marked j \<and> fi_uid j \<noteq> Some uid) ms = []"
    using ms neq it(2) by (auto simp: f(2) moved_boxes_def fun_eq_iff split: if_splits)
  with f(1) show ?thesis by blast
qed

end

text \<open>C23. On a server without \<open>MOVE\<close> the client copies the message, marks it and expunges: the
  operation succeeds, and it is the move of that message exactly when no other message of the
  mailbox carries \<open>\Deleted\<close>; one that another client had marked is lost with it.\<close>

theorem move_fallback_refines_move:
  assumes "mail_mover api msgs sel room" and "ae_api env = api" and "room (Suc k) (iw_net w)"
    and "msgs (iw_net w) m = Some ms" and "it \<in> set ms" and "fi_uid it = Some uid" and "m \<noteq> dest"
    and "\<And>c. \<exists>e. api_uid_mv api (dec_u32 uid) dest c (iw_net w) = (Inl e, c, iw_net w)"
  shows "\<exists>c' n' new. move_message env m uid dest c w = (Inr (), c', w\<lparr>iw_net := n'\<rparr>) \<and>
    (msgs n' = moved_boxes m it dest new (msgs (iw_net w)) \<longleftrightarrow>
      filter (\<lambda>j. is_marked j \<and> fi_uid j \<noteq> Some uid) ms = [])"
  by (rule mail_mover.fallback_is_move_iff [OF assms])

section \<open>The test server\<close>

definition flag_of :: "str \<Rightarrow> imap_flag" where
  "flag_of s =
     (if s = blit ''Seen'' then FlSeen else if s = blit ''Answered'' then FlAnswered
      else if s = blit ''Flagged'' then FlFlagged else if s = blit ''Deleted'' then FlDeleted
      else if s = blit ''Draft'' then FlDraft else if s = blit ''Recent'' then FlRecent
      else if s = blit ''*'' then FlMayCreate else FlCustom s)"

definition wire_address :: "(str \<times> str \<times> str) option \<Rightarrow> imap_address list option" where
  "wire_address a = map_option (\<lambda>(n, m, h). [\<lparr>ia_name = Some (utf8 n), ia_mailbox = Some (utf8 m), ia_host = Some (utf8 h)\<rparr>]) a"

definition wire_item :: "stored_message \<Rightarrow> fetch_item" where
  "wire_item m =
     \<lparr>fi_uid = Some (sm_uid m),
      fi_envelope = Some \<lparr>ie_subject = Some (utf8 (env_subject (sm_envelope m))),
        ie_from = wire_address (env_from (sm_envelope m)), ie_to = wire_address (env_to (sm_envelope m)),
        ie_date = Some (utf8 (env_date (sm_envelope m))),
        ie_message_id = Some (utf8 (env_message_id (sm_envelope m)))\<rparr>,
      fi_flags = map flag_of (sm_flags m), fi_body = Some (sm_raw m)\<rparr>"

definition served :: "store \<Rightarrow> str \<rightharpoonup> fetch_item list" where
  "served st m = map_option (\<lambda>mb. map wire_item (mb_messages mb)) (store_mailbox m st)"

text \<open>The calls as the handlers of \<open>ImapServer\<close> carry them out, without the bytes in between.\<close>

type_synonym 'r mock_call = "str option \<Rightarrow> store \<Rightarrow> (str + 'r) \<times> str option \<times> store"

definition mock_select :: "str \<Rightarrow> selected mock_call" where
  "mock_select name c st =
     (case store_mailbox name st of
        None \<Rightarrow> (Inl (lit ''mailbox does not exist''), c, st)
      | Some mb \<Rightarrow> (Inr \<lparr>sl_exists = of_nat (length (mb_messages mb)), sl_uid_validity = Some (mb_uid_validity mb),
           sl_uid_next = Some (mb_uid_next mb)\<rparr>, Some name, st))"

definition in_selected :: "(str \<Rightarrow> mailbox \<Rightarrow> store \<Rightarrow> (str + 'r) \<times> store) \<Rightarrow> 'r mock_call" where
  "in_selected f c st =
     (case c of
        None \<Rightarrow> (Inl (lit ''no mailbox selected''), c, st)
      | Some name \<Rightarrow>
          (case store_mailbox name st of
             None \<Rightarrow> (Inl (lit ''mailbox gone''), c, st)
           | Some mb \<Rightarrow> (case f name mb st of (r, st) \<Rightarrow> (r, c, st))))"

definition mock_fetch :: "str \<Rightarrow> str \<Rightarrow> (str + fetch_item) list mock_call" where
  "mock_fetch seq_set items =
     in_selected (\<lambda>name mb st.
       let (start, stop) = parse_range seq_set;
           bound = min stop (of_nat (length (mb_messages mb)))
       in (Inr (map (\<lambda>i. Inr (head_only (wire_item (mb_messages mb ! (i - 1)))))
             (filter (\<lambda>i. i - 1 < length (mb_messages mb)) [unat (max start 1) ..< Suc (unat bound)])), st))"

definition mock_uid_fetch :: "str \<Rightarrow> str \<Rightarrow> (str + fetch_item) list mock_call" where
  "mock_uid_fetch spec items =
     in_selected (\<lambda>name mb st.
       case uid_range spec of
         None \<Rightarrow> (Inl (lit ''invalid UID''), st)
       | Some (start, stop) \<Rightarrow>
           (Inr (map (\<lambda>(_, m). Inr (if contains (lit ''ENVELOPE'') (to_ascii_uppercase items)
                then head_only (wire_item m) else wire_item m)) (uid_matches start stop name st)), st))"

definition mock_uid_store :: "str \<Rightarrow> str \<Rightarrow> (str + fetch_item) list mock_call" where
  "mock_uid_store uid_set query =
     in_selected (\<lambda>name mb st.
       let tokens = imap_tokenize query;
           mode = to_ascii_uppercase (hd tokens);
           flags = parse_flags (tl tokens);
           (start, stop) = parse_range uid_set;
           (add, remove) = flag_changes mode flags;
           silent = ends_with (lit ''.SILENT'') mode;
           candidates = store_candidates (Some start) start stop mb;
           (_, mb') = store_each add remove silent candidates mb
       in (Inr (if silent then []
             else map Inr (filter_map (\<lambda>(_, uid). map_option wire_item (find (\<lambda>m. sm_uid m = uid) (mb_messages mb'))) candidates)),
           put_mailbox name mb' st))"

definition mock_uid_copy :: "str \<Rightarrow> str \<Rightarrow> unit mock_call" where
  "mock_uid_copy uid_set dest =
     in_selected (\<lambda>name mb st.
       case copy_message name (fst (parse_range uid_set)) dest st of
         (Some _, st) \<Rightarrow> (Inr (), st)
       | (None, st) \<Rightarrow> (Inl (lit ''no such message''), st))"

definition mock_expunge :: "unit mock_call" where
  "mock_expunge = in_selected (\<lambda>name mb st. (Inr (), put_mailbox name (snd (mb_expunge mb)) st))"

definition mock_status :: "str \<Rightarrow> str \<Rightarrow> u32 option mock_call" where
  "mock_status name items c st =
     (case store_mailbox name st of
        None \<Rightarrow> (Inl (lit ''mailbox does not exist''), c, st)
      | Some mb \<Rightarrow> (Inr (Some (unseen_count mb)), c, st))"

definition mock_api :: "(byte list \<Rightarrow> envelope) \<Rightarrow> (str option, store) imap_api" where
  "mock_api penv =
     \<lparr>api_tls = (\<lambda>_ _ st. (Inr None, st)),
      api_login = (\<lambda>u p c st. (if check_login u p st then Inr None else Inl (lit ''login failed''), st)),
      api_authenticate = (\<lambda>a c st. (if check_xoauth2 (utf8 (fst (xoauth2_process a))) st \<noteq> None then Inr None
         else Inl (lit ''authentication failed''), st)),
      api_logout = (\<lambda>_ st. st),
      api_list = (\<lambda>c st. (Inr (map (\<lambda>n. Inr \<lparr>ln_name = n, ln_delimiter = Some (lit ''/''), ln_attributes = []\<rparr>)
         (mailbox_names st)), c, st)),
      api_examine = mock_select, api_select = mock_select, api_fetch = mock_fetch, api_uid_fetch = mock_uid_fetch,
      api_uid_store = mock_uid_store,
      api_uid_mv = (\<lambda>_ _ c st. (Inl (lit ''BAD unknown or unsupported command''), c, st)),
      api_uid_copy = mock_uid_copy, api_expunge = mock_expunge,
      api_append = (\<lambda>name raw c st. (Inr (), c, snd (deliver penv name raw st))),
      api_status = mock_status\<rparr>"

section \<open>The test server answers\<close>

definition canonical :: "store \<Rightarrow> bool" where
  "canonical st \<longleftrightarrow>
     (\<forall>n mb msg f. store_mailbox n st = Some mb \<longrightarrow> msg \<in> set (mb_messages mb) \<longrightarrow> f \<in> set (sm_flags msg) \<longrightarrow>
        eq_ignore_ascii_case f (blit ''Deleted'') \<longrightarrow> f = blit ''Deleted'')"

definition mock_room :: "nat \<Rightarrow> store \<Rightarrow> bool" where
  "mock_room k st \<longleftrightarrow> store_ok k st \<and> canonical st"

lemma served_Some: "served st m = Some ms \<longleftrightarrow> (\<exists>mb. store_mailbox m st = Some mb \<and> ms = map wire_item (mb_messages mb))"
  by (auto simp: served_def)

lemma served_put: "served (put_mailbox n mb st) = (served st)(n \<mapsto> map wire_item (mb_messages mb))"
  by (auto simp: served_def fun_eq_iff)

lemma dec_no_colon: "58 \<notin> set (dec_u32 n)"
proof -
  have "list_all is_digit (dec_u32 n)" by (simp add: dec_u32_def dec_digits_is_digit)
  then show ?thesis by (auto simp: list_all_iff is_digit_def)
qed

lemma split_once_dec: "split_once 58 (dec_u32 i @ lit '':'' @ dec_u32 j) = Some (dec_u32 i, dec_u32 j)"
  by (simp add: split_once_Some dec_no_colon lit_def)

lemma parse_range_pair: "parse_range (dec_u32 i @ lit '':'' @ dec_u32 j) = (i, j)"
  by (simp add: parse_range_def split_once_dec)

lemma parse_range_single: "parse_range (dec_u32 i) = (i, i)"
  using split_once_None [of 58 "dec_u32 i"] by (simp add: parse_range_def dec_no_colon)

lemma flag_of_deleted: "flag_of s = FlDeleted \<longleftrightarrow> s = blit ''Deleted''"
  by (auto simp: flag_of_def)

lemma wire_marked: "is_marked (wire_item msg) \<longleftrightarrow> is_deleted msg"
  by (auto simp: is_marked_def is_deleted_def wire_item_def list_ex_iff image_iff flag_of_deleted eq_commute [of FlDeleted])

lemma map_nth_slice:
  assumes "1 \<le> i" "i \<le> j" "j \<le> length xs"
  shows "map (\<lambda>q. xs ! (q - 1)) (filter (\<lambda>q. q - 1 < length xs) [i..<Suc j]) = take (Suc j - i) (drop (i - 1) xs)"
proof -
  have "filter (\<lambda>q. q - 1 < length xs) [i..<Suc j] = [i..<Suc j]"
    using assms by (intro filter_True) auto
  moreover have "map (\<lambda>q. xs ! (q - 1)) [i..<Suc j] = take (Suc j - i) (drop (i - 1) xs)"
    using assms by (intro nth_equalityI) (auto simp: nth_append simp del: upt_Suc)
  ultimately show ?thesis by simp
qed

lemma mock_fetch_slice:
  assumes "store_mailbox m st = Some mb" and "length (mb_messages mb) < 2 ^ 32" and "1 \<le> i" "i \<le> j" "j \<le> length (mb_messages mb)"
  shows "mock_fetch (dec_u32 (of_nat i) @ lit '':'' @ dec_u32 (of_nat j)) items (Some m) st =
    (Inr (map (\<lambda>it. Inr (head_only it)) (take (Suc j - i) (drop (i - 1) (map wire_item (mb_messages mb))))), Some m, st)"
proof -
  let ?ms = "mb_messages mb"
  have u: "unat (of_nat i :: u32) = i" "unat (of_nat j :: u32) = j" "unat (of_nat (length ?ms) :: u32) = length ?ms"
    using assms(2-5) by (simp_all add: small_u32)
  have "(1 :: u32) \<le> of_nat i" "(of_nat j :: u32) \<le> of_nat (length ?ms)"
    using assms(3,5) u by (simp_all add: word_le_nat_alt)
  then have b: "unat (max (of_nat i) 1 :: u32) = i" "unat (min (of_nat j) (of_nat (length ?ms)) :: u32) = j"
    using u by (simp_all add: max_absorb1 min_absorb1)
  have "map (\<lambda>q. Inr (head_only (wire_item (?ms ! (q - 1)))) :: str + fetch_item) (filter (\<lambda>q. q - 1 < length ?ms) [i..<Suc j]) =
      map (\<lambda>it. Inr (head_only it)) (map wire_item (map (\<lambda>q. ?ms ! (q - 1)) (filter (\<lambda>q. q - 1 < length ?ms) [i..<Suc j])))"
    by simp
  also have "\<dots> = map (\<lambda>it. Inr (head_only it)) (take (Suc j - i) (drop (i - 1) (map wire_item ?ms)))"
    using map_nth_slice [OF assms(3-5)] by (simp only: take_map drop_map)
  finally show ?thesis
    by (simp only: mock_fetch_def in_selected_def parse_range_pair assms(1) option.case prod.case Let_def b)
qed

interpretation mock: mail_service "mock_api penv" served "\<lambda>c. c" for penv
proof
  fix n m ms c
  assume "served n m = Some ms"
  then show "\<exists>s c'. api_examine (mock_api penv) m c n = (Inr s, c', n) \<and> sl_exists s = of_nat (length ms) \<and> c' = Some m"
    by (auto simp: mock_api_def mock_select_def served_Some)
next
  fix c m n ms and i j :: nat
  assume "c = Some m" and "served n m = Some ms" and "length ms < 2 ^ 32" "1 \<le> i" "i \<le> j" "j \<le> length ms"
  then show "api_fetch (mock_api penv) (dec_u32 (of_nat i) @ lit '':'' @ dec_u32 (of_nat j)) (lit ''(UID ENVELOPE FLAGS)'') c n =
      (Inr (map (\<lambda>it. Inr (head_only it)) (take (Suc j - i) (drop (i - 1) ms))), c, n)"
    using mock_fetch_slice by (auto simp: mock_api_def served_Some)
qed

lemma wire_item_uid [simp]: "fi_uid (wire_item msg) = Some (sm_uid msg)"
  by (simp add: wire_item_def)

lemma room_distinct: "mock_room k st \<Longrightarrow> store_mailbox m st = Some mb \<Longrightarrow> distinct (map sm_uid (mb_messages mb))"
  by (auto simp: mock_room_def store_ok_def mailbox_ok_def strict_sorted_iff)

lemma find_uid:
  assumes "distinct (map sm_uid ms)" and "msg \<in> set ms"
  shows "find (\<lambda>m. sm_uid m = sm_uid msg) ms = Some msg"
  using assms by (induction ms) auto

lemma canonical_put:
  assumes "canonical st"
    and "\<And>msg f. msg \<in> set (mb_messages mb) \<Longrightarrow> f \<in> set (sm_flags msg) \<Longrightarrow>
      eq_ignore_ascii_case f (blit ''Deleted'') \<Longrightarrow> f = blit ''Deleted''"
  shows "canonical (put_mailbox n mb st)"
  using assms unfolding canonical_def by (auto split: if_splits)

lemma canonicalD:
  "canonical st \<Longrightarrow> store_mailbox n st = Some mb \<Longrightarrow> msg \<in> set (mb_messages mb) \<Longrightarrow> f \<in> set (sm_flags msg) \<Longrightarrow>
   eq_ignore_ascii_case f (blit ''Deleted'') \<Longrightarrow> f = blit ''Deleted''"
  unfolding canonical_def by blast

lemma canonical_entry:
  "canonical st \<Longrightarrow> msg \<in> set (mb_messages (mailbox_entry n st)) \<Longrightarrow> f \<in> set (sm_flags msg) \<Longrightarrow>
   eq_ignore_ascii_case f (blit ''Deleted'') \<Longrightarrow> f = blit ''Deleted''"
  by (auto simp: mailbox_entry_def mailbox_new_def dest: canonicalD split: option.splits)

lemma mock_copy:
  assumes "mock_room (Suc k) st" and "served st m = Some ms" and "it \<in> set ms" and "fi_uid it = Some uid"
  shows "\<exists>st' new. mock_uid_copy (dec_u32 uid) dest (Some m) st = (Inr (), Some m, st') \<and> mock_room k st' \<and>
    served st' = (served st)(dest \<mapsto> (case served st dest of Some ds \<Rightarrow> ds | None \<Rightarrow> []) @ [it\<lparr>fi_uid := Some new\<rparr>])"
proof -
  from assms(2) obtain mb where mb: "store_mailbox m st = Some mb" "ms = map wire_item (mb_messages mb)"
    by (auto simp: served_Some)
  with assms(3,4) obtain msg where msg: "msg \<in> set (mb_messages mb)" "it = wire_item msg" "sm_uid msg = uid" by auto
  have f: "find (\<lambda>x. sm_uid x = uid) (mb_messages mb) = Some msg"
    using find_uid [OF room_distinct [OF assms(1) mb(1)] msg(1)] msg(3) by simp
  let ?d = "mailbox_entry dest st"
  let ?new = "mb_uid_next ?d"
  let ?d' = "?d\<lparr>mb_uid_next := mb_uid_next ?d + 1, mb_messages := mb_messages ?d @ [msg\<lparr>sm_uid := ?new\<rparr>]\<rparr>"
  let ?st = "(put_mailbox dest ?d' st)\<lparr>st_notify := st_notify (put_mailbox dest ?d' st) @ [dest]\<rparr>"
  have c: "copy_message m uid dest st = (Some ?new, ?st)"
    using f by (simp add: copy_message_def mb(1) Let_def)
  have can: "canonical st" using assms(1) by (simp add: mock_room_def)
  have "canonical (put_mailbox dest ?d' st)"
    using canonicalD [OF can mb(1) msg(1)] canonical_entry [OF can] by (intro canonical_put [OF can]) auto
  then have "canonical ?st" by (simp add: canonical_def)
  moreover have "store_ok k ?st"
    using store_ok_copy [of k st m uid dest] assms(1) c by (simp add: mock_room_def)
  ultimately have room: "mock_room k ?st" by (simp add: mock_room_def)
  have "served ?st = (served st)(dest \<mapsto> map wire_item (mb_messages ?d @ [msg\<lparr>sm_uid := ?new\<rparr>]))"
    using served_put [of dest ?d' st] by (simp add: served_def fun_eq_iff)
  moreover have "map wire_item (mb_messages ?d) = (case served st dest of Some ds \<Rightarrow> ds | None \<Rightarrow> [])"
    by (simp add: served_def mailbox_entry_def mailbox_new_def split: option.split)
  moreover have "wire_item (msg\<lparr>sm_uid := ?new\<rparr>) = it\<lparr>fi_uid := Some ?new\<rparr>" by (simp add: msg(2) wire_item_def)
  ultimately have s: "served ?st = (served st)(dest \<mapsto> (case served st dest of Some ds \<Rightarrow> ds | None \<Rightarrow> []) @ [it\<lparr>fi_uid := Some ?new\<rparr>])"
    by simp
  have "mock_uid_copy (dec_u32 uid) dest (Some m) st = (Inr (), Some m, ?st)"
    using c by (simp add: mock_uid_copy_def in_selected_def mb(1) parse_range_single)
  with room s show ?thesis by blast
qed

lemma silent_deleted_query:
  "imap_tokenize (lit ''+FLAGS.SILENT ('' @ blit ''Deleted'' @ lit '')'') = [lit ''+FLAGS.SILENT'', lit ''('' @ blit ''Deleted'' @ lit '')'']"
  "parse_flags [lit ''('' @ blit ''Deleted'' @ lit '')''] = [blit ''Deleted'']"
proof -
  have q: "lit ''+FLAGS.SILENT ('' @ blit ''Deleted'' @ lit '')'' =
      lit ''+FLAGS.SILENT'' @ 32 # (lit ''('' @ blit ''Deleted'' @ lit '')'')"
    by (simp add: lit_def)
  show "imap_tokenize (lit ''+FLAGS.SILENT ('' @ blit ''Deleted'' @ lit '')'') = [lit ''+FLAGS.SILENT'', lit ''('' @ blit ''Deleted'' @ lit '')'']"
    unfolding q by (subst imap_tokenize_eval(5); simp add: lit_def blit_def imap_tokenize_eval)
  show "parse_flags [lit ''('' @ blit ''Deleted'' @ lit '')''] = [blit ''Deleted'']"
    by (simp add: parse_flags_def lit_def blit_def trim_start_def trim_end_def split_whitespace_def is_whitespace_def)
qed

lemma apply_deleted:
  assumes "\<And>f. f \<in> set flags \<Longrightarrow> eq_ignore_ascii_case f (blit ''Deleted'') \<Longrightarrow> f = blit ''Deleted''"
  shows "apply_flags [blit ''Deleted''] [] flags =
    (if blit ''Deleted'' \<in> set flags then flags else flags @ [blit ''Deleted''])"
proof -
  have "list_ex (\<lambda>f. eq_ignore_ascii_case f (blit ''Deleted'')) flags \<longleftrightarrow> blit ''Deleted'' \<in> set flags"
    using assms by (auto simp: list_ex_iff intro: bexI [of _ "blit ''Deleted''"])
  moreover have "filter (\<lambda>f. True) flags = flags" by simp
  ultimately show ?thesis by (simp add: apply_flags_def Let_def)
qed

lemma wire_mark:
  assumes "\<And>f. f \<in> set (sm_flags msg) \<Longrightarrow> eq_ignore_ascii_case f (blit ''Deleted'') \<Longrightarrow> f = blit ''Deleted''"
  shows "wire_item (msg\<lparr>sm_flags := apply_flags [blit ''Deleted''] [] (sm_flags msg)\<rparr>) = mark_deleted (sm_uid msg) (wire_item msg)"
proof -
  have "FlDeleted \<in> set (map flag_of (sm_flags msg)) \<longleftrightarrow> blit ''Deleted'' \<in> set (sm_flags msg)"
    by (auto simp: flag_of_deleted eq_commute [of FlDeleted] image_iff)
  then show ?thesis
    by (simp add: apply_deleted [OF assms] mark_deleted_def wire_item_def flag_of_def)
qed

lemma map_update_uid:
  assumes "distinct (map sm_uid ms)" and "\<And>msg. msg \<in> set ms \<Longrightarrow> sm_uid msg = uid \<Longrightarrow> h (f msg) = g (h msg)"
    and "\<And>msg. msg \<in> set ms \<Longrightarrow> sm_uid msg \<noteq> uid \<Longrightarrow> g (h msg) = h msg"
  shows "map h (update_first (\<lambda>m. sm_uid m = uid) f ms) = map g (map h ms)"
  using assms
proof (induction ms)
  case (Cons msg ms)
  show ?case
  proof (cases "sm_uid msg = uid")
    case True
    with Cons.prems(1) have "sm_uid x \<noteq> uid" if "x \<in> set ms" for x
      using that by (metis distinct.simps(2) image_eqI list.set_map list.simps(9))
    with Cons.prems True show ?thesis by simp
  qed (use Cons in auto)
qed simp

lemma map_snd_enum: "map snd (list_enum xs) = xs"
  by (simp add: list_enum_def)

lemma length_filter_uid: "distinct (map sm_uid ms) \<Longrightarrow> length (filter (\<lambda>m. sm_uid m = uid) ms) \<le> 1"
proof (induction ms)
  case (Cons msg ms)
  show ?case
  proof (cases "sm_uid msg = uid")
    case True
    with Cons.prems have "filter (\<lambda>m. sm_uid m = uid) ms = []" by (auto simp: filter_empty_conv image_iff)
    with True show ?thesis by simp
  qed (use Cons in simp)
qed simp

lemma candidates_uid:
  assumes "distinct (map sm_uid (mb_messages mb))"
  shows "store_candidates (Some uid) a b mb = [] \<and> (\<forall>msg\<in>set (mb_messages mb). sm_uid msg \<noteq> uid) \<or>
    (\<exists>s. store_candidates (Some uid) a b mb = [(s, uid)] \<and> (\<exists>msg\<in>set (mb_messages mb). sm_uid msg = uid))"
proof -
  let ?f = "filter (\<lambda>(i, m). sm_uid m = uid) (list_enum (mb_messages mb))"
  have c: "store_candidates (Some uid) a b mb = map (\<lambda>(i, m). (of_nat (i + 1), sm_uid m)) ?f"
    by (simp add: store_candidates_def)
  have s: "map snd ?f = filter (\<lambda>m. sm_uid m = uid) (mb_messages mb)"
  proof -
    have "map snd (filter (P \<circ> snd) xs) = filter P (map snd xs)" for P :: "stored_message \<Rightarrow> bool" and xs :: "(nat \<times> stored_message) list"
      by (simp add: filter_map)
    from this [of "\<lambda>m. sm_uid m = uid" "list_enum (mb_messages mb)"] show ?thesis
      by (simp add: map_snd_enum comp_def case_prod_beta')
  qed
  from arg_cong [OF s, of length] length_filter_uid [OF assms, of uid] have len: "length ?f \<le> 1" by simp
  show ?thesis
  proof (cases ?f)
    case Nil
    with s have "filter (\<lambda>m. sm_uid m = uid) (mb_messages mb) = []" by simp
    with Nil c show ?thesis by (simp add: filter_empty_conv)
  next
    case (Cons p ps)
    with len have "?f = [p]" by simp
    moreover from this s have "filter (\<lambda>m. sm_uid m = uid) (mb_messages mb) = [snd p]" by simp
    then have "snd p \<in> set (filter (\<lambda>m. sm_uid m = uid) (mb_messages mb))" by simp
    then have "snd p \<in> set (mb_messages mb)" "sm_uid (snd p) = uid" by simp_all
    ultimately show ?thesis using c by (auto simp: case_prod_beta')
  qed
qed

lemma mock_mark:
  assumes "mock_room k st" and "served st m = Some ms"
  shows "\<exists>st'. mock_uid_store (dec_u32 uid) (lit ''+FLAGS.SILENT ('' @ blit ''Deleted'' @ lit '')'') (Some m) st = (Inr [], Some m, st') \<and>
    mock_room k st' \<and> served st' = (served st)(m \<mapsto> map (mark_deleted uid) ms)"
proof -
  from assms(2) obtain mb where mb: "store_mailbox m st = Some mb" "ms = map wire_item (mb_messages mb)"
    by (auto simp: served_Some)
  note dist = room_distinct [OF assms(1) mb(1)]
  have can: "canonical st" using assms(1) by (simp add: mock_room_def)
  let ?f = "\<lambda>msg. msg\<lparr>sm_flags := apply_flags [blit ''Deleted''] [] (sm_flags msg)\<rparr>"
  let ?mb = "mb\<lparr>mb_messages := update_first (\<lambda>x. sm_uid x = uid) ?f (mb_messages mb)\<rparr>"
  define mb' where "mb' = snd (store_each [blit ''Deleted''] [] True (store_candidates (Some uid) uid uid mb) mb)"
  have mb'_eq: "mb' = ?mb"
    using candidates_uid [OF dist, of uid uid uid]
  proof (elim disjE conjE exE)
    assume "store_candidates (Some uid) uid uid mb = []" and none: "\<forall>msg\<in>set (mb_messages mb). sm_uid msg \<noteq> uid"
    moreover have "update_first (\<lambda>x. sm_uid x = uid) ?f xs = xs" if "\<forall>msg\<in>set xs. sm_uid msg \<noteq> uid"
      for xs :: "stored_message list" using that by (induction xs) auto
    ultimately show ?thesis using none by (simp add: mb'_def del: One_nat_def)
  next
    fix s assume c: "store_candidates (Some uid) uid uid mb = [(s, uid)]" and "\<exists>msg\<in>set (mb_messages mb). sm_uid msg = uid"
    then obtain msg where "find (\<lambda>x. sm_uid x = uid) (mb_messages mb) = Some msg"
      using find_uid [OF dist] by blast
    then show ?thesis by (simp add: mb'_def c mb_store_flags_def split_beta Let_def)
  qed
  have flags: "flag_changes (to_ascii_uppercase (lit ''+FLAGS.SILENT'')) [blit ''Deleted''] = ([blit ''Deleted''], [])"
    "ends_with (lit ''.SILENT'') (to_ascii_uppercase (lit ''+FLAGS.SILENT''))"
    by (simp_all add: flag_changes_def to_ascii_uppercase_def upper_char_def lit_def ends_with_def strip_suffix_def)
  have st': "mock_uid_store (dec_u32 uid) (lit ''+FLAGS.SILENT ('' @ blit ''Deleted'' @ lit '')'') (Some m) st =
      (Inr [], Some m, put_mailbox m ?mb st)"
    by (simp only: mock_uid_store_def in_selected_def mb(1) option.case silent_deleted_query list.sel parse_range_single
        flags prod.case Let_def if_True split_beta fst_conv snd_conv mb'_def [symmetric] mb'_eq)
  have canon: "msg \<in> set (mb_messages mb) \<Longrightarrow> f \<in> set (sm_flags msg) \<Longrightarrow> eq_ignore_ascii_case f (blit ''Deleted'') \<Longrightarrow> f = blit ''Deleted''" for msg f
    using canonicalD [OF can mb(1)] by blast
  have "map wire_item (mb_messages ?mb) = map (mark_deleted uid) ms"
    unfolding mb(2) mailbox.select_convs
    using wire_mark canon
    by (simp, intro map_update_uid [OF dist, simplified]) (auto simp: mark_deleted_def)
  then have served: "served (put_mailbox m ?mb st) = (served st)(m \<mapsto> map (mark_deleted uid) ms)"
    by (simp only: served_put)
  have "canonical (put_mailbox m ?mb st)"
  proof (rule canonical_put [OF can])
    fix msg f
    assume "msg \<in> set (mb_messages ?mb)" "f \<in> set (sm_flags msg)" and eq: "eq_ignore_ascii_case f (blit ''Deleted'')"
    then consider "msg \<in> set (mb_messages mb)" | x where "x \<in> set (mb_messages mb)" "msg = ?f x"
      using set_update_first [of msg "\<lambda>x. sm_uid x = uid" ?f "mb_messages mb"] by auto
    then show "f = blit ''Deleted''"
    proof cases
      case 1
      with canon \<open>f \<in> set (sm_flags msg)\<close> eq show ?thesis by blast
    next
      case 2
      then have "f \<in> set (sm_flags x) \<or> f = blit ''Deleted''"
        using \<open>f \<in> set (sm_flags msg)\<close> apply_deleted [OF canon [OF 2(1)]] by (auto split: if_splits)
      with canon [OF 2(1)] eq show ?thesis by blast
    qed
  qed
  moreover have "store_ok k (put_mailbox m ?mb st)"
    using assms(1) mb(1)
    by (intro store_ok_update [OF _ mb(1)] mailbox_ok_same_uids) (auto simp: mock_room_def map_update_first)
  ultimately show ?thesis using st' served by (auto simp: mock_room_def)
qed

interpretation mock: mail_mover "mock_api penv" served "\<lambda>c. c" mock_room for penv
proof
  fix k n m ms
  assume "mock_room k n" "served n m = Some ms"
  then obtain mb where mb: "store_mailbox m n = Some mb" "ms = map wire_item (mb_messages mb)"
    by (auto simp: served_Some)
  have "map fi_uid ms = map Some (map sm_uid (mb_messages mb))" by (simp add: mb(2))
  then show "distinct (map fi_uid ms)"
    using room_distinct [OF \<open>mock_room k n\<close> mb(1)] by (simp add: distinct_map inj_on_def)
next
  fix n m ms c
  assume "served n m = Some ms"
  then show "\<exists>s c'. api_select (mock_api penv) m c n = (Inr s, c', n) \<and> c' = Some m"
    by (auto simp: mock_api_def mock_select_def served_Some)
next
  fix k n c m ms it uid dest
  assume "mock_room (Suc k) n" "c = Some m" "served n m = Some ms" "it \<in> set ms" "fi_uid it = Some uid"
  with mock_copy [of k n m ms it uid dest]
  show "\<exists>n' new. api_uid_copy (mock_api penv) (dec_u32 uid) dest c n = (Inr (), c, n') \<and> mock_room k n' \<and>
      served n' = (served n)(dest \<mapsto> (case served n dest of Some ds \<Rightarrow> ds | None \<Rightarrow> []) @ [it\<lparr>fi_uid := Some new\<rparr>])"
    by (simp add: mock_api_def)
next
  fix k n c m ms uid
  assume "mock_room k n" "c = Some m" "served n m = Some ms"
  with mock_mark [of k n m ms uid]
  show "\<exists>n'. api_uid_store (mock_api penv) (dec_u32 uid) (lit ''+FLAGS.SILENT ('' @ blit ''Deleted'' @ lit '')'') c n = (Inr [], c, n') \<and>
      mock_room k n' \<and> served n' = (served n)(m \<mapsto> map (mark_deleted uid) ms)"
    by (simp add: mock_api_def)
next
  fix k n c m ms
  assume "mock_room k n" "c = Some m" "served n m = Some ms"
  then obtain mb where mb: "store_mailbox m n = Some mb" "ms = map wire_item (mb_messages mb)" "c = Some m"
    by (auto simp: served_Some)
  have "map wire_item (filter (\<lambda>m. \<not> is_deleted m) xs) = filter (\<lambda>j. \<not> is_marked j) (map wire_item xs)" for xs
    by (induction xs) (auto simp: wire_marked)
  with mb show "\<exists>n'. api_expunge (mock_api penv) c n = (Inr (), c, n') \<and>
      served n' = (served n)(m \<mapsto> filter (\<lambda>j. \<not> is_marked j) ms)"
    by (auto simp: mock_api_def mock_expunge_def in_selected_def served_put mb_expunge_def)
qed

section \<open>The theorems on the test server\<close>

text \<open>Two messages, the first of which another client has marked as deleted.\<close>

definition demo_stored :: "u32 \<Rightarrow> str list \<Rightarrow> stored_message" where
  "demo_stored uid flags = \<lparr>sm_uid = uid, sm_raw = [65], sm_envelope = envelope_default, sm_flags = flags\<rparr>"

definition demo_box :: mailbox where
  "demo_box = \<lparr>mb_name = lit ''INBOX'', mb_messages = [demo_stored 1 [blit ''Deleted''], demo_stored 2 []],
     mb_uid_validity = 1, mb_uid_next = 3\<rparr>"

definition demo_server :: store where
  "demo_server = put_mailbox (lit ''INBOX'') demo_box store_new"

definition mock_env :: "(str option, store) actor_env" where
  "mock_env = \<lparr>ae_api = mock_api (\<lambda>_. envelope_default), ae_tokens = \<lparr>te_post = (\<lambda>_ _ w. (Unreachable, w)),
     te_now = (\<lambda>_. 0), te_json = (\<lambda>_. None)\<rparr>, ae_header = (\<lambda>_. None), ae_render = from_utf8_lossy,
     ae_attachments = (\<lambda>_. []), ae_write = (\<lambda>_ _ w. (Inr (), w))\<rparr>"

definition mock_world :: "store imap_world" where
  "mock_world = \<lparr>iw_sources = [], iw_net = demo_server, iw_trace = []\<rparr>"

lemma demo_server_box: "store_mailbox n demo_server = (if n = lit ''INBOX'' then Some demo_box else None)"
  by (simp add: demo_server_def) (simp add: store_new_def store_mailbox_def)

lemma demo_served: "served demo_server (lit ''INBOX'') = Some (map wire_item [demo_stored 1 [blit ''Deleted''], demo_stored 2 []])"
  by (simp add: served_def demo_server_box demo_box_def)

lemma demo_room: "mock_room (Suc 0) demo_server"
  by (auto simp: mock_room_def store_ok_def canonical_def demo_server_box demo_box_def demo_stored_def mailbox_ok_def)

theorem pages_are_blocks_witness:
  "\<exists>st c'. fetch_page_headers mock_env (lit ''INBOX'') 1 None mock_world =
     (Inr (map (item_header mock_env \<circ> wire_item) [demo_stored 2 [], demo_stored 1 [blit ''Deleted'']], 1, st), c', mock_world)"
proof -
  let ?ms = "map wire_item [demo_stored 1 [blit ''Deleted''], demo_stored 2 []]"
  have "served (iw_net mock_world) (lit ''INBOX'') = Some ?ms" by (simp only: mock_world_def imap_world.select_convs demo_served)
  moreover have "list_all complete_item ?ms" by (simp add: complete_item_def wire_item_def)
  ultimately show ?thesis
    using pages_are_blocks [OF mock.mail_service_axioms, of mock_env "\<lambda>_. envelope_default" mock_world "lit ''INBOX''" ?ms 1 None]
    by (simp add: mock_env_def pages_of_def PAGE_SIZE_def del: fun_upd_apply)
qed

theorem move_fallback_refines_move_witness:
  "\<exists>c' n' new. move_message mock_env (lit ''INBOX'') 2 (lit ''Trash'') None mock_world = (Inr (), c', mock_world\<lparr>iw_net := n'\<rparr>) \<and>
     served n' \<noteq> moved_boxes (lit ''INBOX'') (wire_item (demo_stored 2 [])) (lit ''Trash'') new (served demo_server)"
proof -
  let ?ms = "map wire_item [demo_stored 1 [blit ''Deleted''], demo_stored 2 []]" and ?it = "wire_item (demo_stored 2 [])"
  have s: "served (iw_net mock_world) (lit ''INBOX'') = Some ?ms" by (simp only: mock_world_def imap_world.select_convs demo_served)
  have r: "mock_room (Suc 0) (iw_net mock_world)" by (simp add: mock_world_def demo_room)
  have a: "ae_api mock_env = mock_api (\<lambda>_. envelope_default)" by (simp add: mock_env_def)
  have i: "?it \<in> set ?ms" "fi_uid ?it = Some 2" by (simp_all add: demo_stored_def)
  have n: "lit ''INBOX'' \<noteq> lit ''Trash''" by simp
  have mv: "\<And>c. \<exists>e. api_uid_mv (mock_api (\<lambda>_. envelope_default)) (dec_u32 2) (lit ''Trash'') c (iw_net mock_world) =
      (Inl e, c, iw_net mock_world)"
    by (simp add: mock_api_def)
  have "filter (\<lambda>j. is_marked j \<and> fi_uid j \<noteq> Some 2) ?ms \<noteq> []"
    by (simp add: wire_marked is_deleted_def demo_stored_def)
  with move_fallback_refines_move [OF mock.mail_mover_axioms a r s i n mv, of None] show ?thesis
    by (auto simp: mock_world_def)
qed

end
