(* ===== verification/Session.thy ===== *)
theory Session
  imports ImapActorFacts Notify "HOL-Library.AList"
begin

text \<open>
  One connected account and the watch over it: the forwarder of
  \<open>crates/esmail/src/session.rs\<close>, the \<open>IDLE\<close> watch of \<open>idle_watch.rs\<close> and the headless watcher of
  \<open>watcher.rs\<close>.  The channels are queues, \<open>try_send\<close> drops a command when its queue is full, and
  every task is a function of one input.  The last part composes forwarder, watcher and actor and
  shows what becomes of an account whose poll has failed.
\<close>

section \<open>Channels\<close>

text \<open>\<open>try_send\<close> on a channel of a given capacity.\<close>

definition try_send :: "nat \<Rightarrow> 'a \<Rightarrow> 'a list \<Rightarrow> 'a list" where
  "try_send capacity x q = (if length q < capacity then q @ [x] else q)"

definition IMAP_CHANNEL :: nat where "IMAP_CHANNEL = 32"

lemma set_try_send: "set (try_send n x q) \<subseteq> insert x (set q)"
  by (auto simp: try_send_def)

section \<open>The IDLE watch\<close>

definition IDLE_ROUND_TRIP :: nat where "IDLE_ROUND_TRIP = from_secs (29 * 60)"
definition IDLE_MAX_RECONNECT_DELAY :: nat where "IDLE_MAX_RECONNECT_DELAY = from_secs 30"
definition CONNECTED_LONG_ENOUGH_TO_RESET_BACKOFF :: nat where
  "CONNECTED_LONG_ENOUGH_TO_RESET_BACKOFF = from_secs 60"

text \<open>What the session of the watch is asked: to idle for at most a time.\<close>

datatype idle_response = NewData | IdleTimeout | ManualInterrupt

text \<open>One connection of the watch: what each round of \<open>IDLE\<close> gives, and how many times the receiver
  still takes a wake-up.  The result is the error that ended it, if any, and the wake-ups sent.\<close>

fun idle_rounds :: "(str + idle_response) list \<Rightarrow> nat option \<Rightarrow> str option \<times> nat" where
  "idle_rounds [] receiver = (None, 0)"
| "idle_rounds (Inl e # rest) receiver = (Some e, 0)"
| "idle_rounds (Inr NewData # rest) receiver =
     (case receiver of
        Some 0 \<Rightarrow> (None, 0)
      | _ \<Rightarrow> (case idle_rounds rest (map_option (\<lambda>n. n - 1) receiver) of (e, k) \<Rightarrow> (e, Suc k)))"
| "idle_rounds (Inr IdleTimeout # rest) receiver = idle_rounds rest receiver"
| "idle_rounds (Inr ManualInterrupt # rest) receiver = idle_rounds rest receiver"

text \<open>How a connection of the watch ended: how long it lasted, whether the error was a revoked
  sign-in, and whether the receiver of the wake-ups is gone.\<close>

record idle_end =
  ie_elapsed :: nat
  ie_revoked :: bool
  ie_closed :: bool

text \<open>The delays the watch sleeps for, one connection after another, and whether it has stopped.\<close>

fun idle_watch :: "nat \<Rightarrow> idle_end list \<Rightarrow> nat list \<times> bool" where
  "idle_watch delay [] = ([], False)"
| "idle_watch delay (e # es) =
     (if ie_closed e then ([], True)
      else if ie_revoked e then ([], True)
      else (let delay = (if ie_elapsed e \<ge> CONNECTED_LONG_ENOUGH_TO_RESET_BACKOFF then from_secs 1 else delay);
                (ds, stopped) = idle_watch (min (delay * 2) IDLE_MAX_RECONNECT_DELAY) es
            in (delay # ds, stopped)))"

text \<open>The watch never sleeps for less than a second or more than half a minute.\<close>

lemma idle_delays_bounded:
  "from_secs 1 \<le> delay \<Longrightarrow> delay \<le> IDLE_MAX_RECONNECT_DELAY \<Longrightarrow> d \<in> set (fst (idle_watch delay es)) \<Longrightarrow>
   from_secs 1 \<le> d \<and> d \<le> IDLE_MAX_RECONNECT_DELAY"
proof (induction es arbitrary: delay)
  case (Cons e es)
  let ?delay = "if ie_elapsed e \<ge> CONNECTED_LONG_ENOUGH_TO_RESET_BACKOFF then from_secs 1 else delay"
  let ?next = "min (?delay * 2) IDLE_MAX_RECONNECT_DELAY"
  have d: "from_secs 1 \<le> ?delay" "?delay \<le> IDLE_MAX_RECONNECT_DELAY"
    using Cons.prems(1,2) by (auto simp: from_secs_def IDLE_MAX_RECONNECT_DELAY_def)
  then have n: "from_secs 1 \<le> ?next" "?next \<le> IDLE_MAX_RECONNECT_DELAY"
    by (auto simp: from_secs_def IDLE_MAX_RECONNECT_DELAY_def)
  from Cons.prems(3) consider "d = ?delay" | "d \<in> set (fst (idle_watch ?next es))"
    by (auto simp: Let_def split_beta split: if_splits)
  then show ?case
    by cases (use d Cons.IH [OF n] in auto)
qed simp

section \<open>The forwarder\<close>

record forwarder =
  fw_label :: str
  fw_watch_mailbox :: str
  fw_idle_started :: bool
  fw_connected :: bool
  fw_watermark :: "mail_watermark option"
  fw_idle_wake_open :: bool

definition DEFAULT_WATCH_MAILBOX :: str where "DEFAULT_WATCH_MAILBOX = lit ''INBOX''"

definition forwarder_new :: "str \<Rightarrow> str \<Rightarrow> forwarder" where
  "forwarder_new label watch_mailbox =
     \<lparr>fw_label = label, fw_watch_mailbox = watch_mailbox, fw_idle_started = False, fw_connected = False,
      fw_watermark = None, fw_idle_wake_open = True\<rparr>"

text \<open>What the forwarder does with an event besides passing it on: its state, the command it sends to
  the actor, and the toast it shows.\<close>

definition forward_event ::
  "imap_event \<Rightarrow> forwarder \<Rightarrow> forwarder \<times> auth imap_command option \<times> (str \<times> str) option" where
  "forward_event evt f =
     (case evt of
        EvConnected \<Rightarrow> (f\<lparr>fw_connected := True, fw_idle_started := True, fw_watermark := None\<rparr>, None, None)
      | EvDisconnected \<Rightarrow> (f\<lparr>fw_connected := False\<rparr>, None, None)
      | EvMailboxPolled mailbox state \<Rightarrow>
          (if mailbox = fw_watch_mailbox f then
             (let (next, update) = update_watermark (fw_watermark f)
                    \<lparr>mw_uid_validity = mst_uid_validity state, mw_uid_next = mst_uid_next state\<rparr>
              in (f\<lparr>fw_watermark := Some next\<rparr>,
                  (case update of NewMail first_uid _ \<Rightarrow> Some (FetchNewHeaders (fw_watch_mailbox f) first_uid) | _ \<Rightarrow> None),
                  None))
           else (f, None, None))
      | EvNewHeaders mailbox headers \<Rightarrow>
          (if mailbox = fw_watch_mailbox f then (f, None, build_account_notification (fw_label f) headers)
           else (f, None, None))
      | _ \<Rightarrow> (f, None, None))"

text \<open>A tick of the poll timer, and a wake-up of the \<open>IDLE\<close> watch (\<open>False\<close>: its channel closed).\<close>

definition forward_tick :: "forwarder \<Rightarrow> auth imap_command option" where
  "forward_tick f = (if fw_connected f then Some (PollMailbox (fw_watch_mailbox f)) else None)"

definition forward_wake :: "bool \<Rightarrow> forwarder \<Rightarrow> forwarder \<times> auth imap_command option" where
  "forward_wake woke f =
     (if \<not> fw_idle_wake_open f then (f, None)
      else if woke then (f, if fw_connected f then Some (PollMailbox (fw_watch_mailbox f)) else None)
      else (f\<lparr>fw_idle_wake_open := False\<rparr>, None))"

record account_session =
  as_id :: str
  as_label :: str
  as_commands :: "auth imap_command list"
  as_forwarder :: forwarder

record session_params =
  sp_id :: str
  sp_label :: str
  sp_credentials :: credentials
  sp_watch_mailbox :: str

definition session_spawn :: "session_params \<Rightarrow> account_session" where
  "session_spawn p =
     \<lparr>as_id = sp_id p, as_label = sp_label p,
      as_commands = [Connect (cr_host (sp_credentials p)) (cr_port (sp_credentials p)) (cr_username (sp_credentials p))
        (cr_auth (sp_credentials p))],
      as_forwarder = forwarder_new (sp_label p) (sp_watch_mailbox p)\<rparr>"

section \<open>The watcher\<close>

datatype account_state = WsConnecting | WsConnected | WsWatching | WsFailed str

definition is_up :: "account_state \<Rightarrow> bool" where
  "is_up s \<longleftrightarrow> s = WsConnected \<or> s = WsWatching"

datatype watch_change = StateChange str account_state | UnreadChange str u32 u32

record watched =
  wt_config :: account_config
  wt_watch_mailbox :: str
  wt_session :: account_session
  wt_state :: account_state
  wt_unread :: u32

text \<open>The accounts by id; the code's map is sorted, which only \<open>account_ids\<close> shows.\<close>

type_synonym watcher = "(str \<times> watched) list"

definition watcher_account_ids :: "watcher \<Rightarrow> str list" where
  "watcher_account_ids w = sort (map fst w)"

definition watcher_state :: "str \<Rightarrow> watcher \<Rightarrow> account_state option" where
  "watcher_state account w = map_option wt_state (map_of w account)"

definition watcher_total_unread :: "watcher \<Rightarrow> u32" where
  "watcher_total_unread w = sum_list (map (wt_unread \<circ> snd) w)"

definition restart_account :: "account_config \<Rightarrow> auth \<Rightarrow> watcher \<Rightarrow> watcher" where
  "restart_account config auth w =
     (let w = AList.delete (ac_id config) w;
          watch_mailbox = (case ac_watch_mailbox config of Some m \<Rightarrow> m | None \<Rightarrow> DEFAULT_WATCH_MAILBOX);
          session = session_spawn \<lparr>sp_id = ac_id config, sp_label = ac_display_name config,
            sp_credentials = \<lparr>cr_host = ac_imap_host config, cr_port = ac_imap_port config,
              cr_username = ac_username config, cr_auth = auth\<rparr>,
            sp_watch_mailbox = watch_mailbox\<rparr>
      in AList.update (ac_id config) \<lparr>wt_config = config, wt_watch_mailbox = watch_mailbox, wt_session = session,
           wt_state = WsConnecting, wt_unread = 0\<rparr> w)"

definition apply_account :: "account_config \<times> auth \<Rightarrow> watcher \<Rightarrow> watcher" where
  "apply_account = (\<lambda>(config, auth) w.
     if (case map_of w (ac_id config) of Some t \<Rightarrow> wt_config t = config | None \<Rightarrow> False) then w
     else restart_account config auth w)"

definition apply_accounts :: "(account_config \<times> auth) list \<Rightarrow> watcher \<Rightarrow> watcher" where
  "apply_accounts desired w =
     (let wanted = map (ac_id \<circ> fst) desired
      in foldl (\<lambda>w d. apply_account d w) (filter (\<lambda>(i, _). i \<in> set wanted) w) desired)"

definition request_unread :: "watched \<Rightarrow> watched" where
  "request_unread t =
     t\<lparr>wt_session := (wt_session t)\<lparr>as_commands :=
        try_send IMAP_CHANNEL (FetchUnreadCounts [wt_watch_mailbox t]) (as_commands (wt_session t))\<rparr>\<rparr>"

definition handle_watched :: "str \<Rightarrow> imap_event \<Rightarrow> watched \<Rightarrow> watched \<times> account_state option" where
  "handle_watched account event t =
     (case event of
        EvConnected \<Rightarrow> (request_unread (t\<lparr>wt_state := WsConnected\<rparr>), Some WsConnected)
      | EvDisconnected \<Rightarrow> (t\<lparr>wt_state := WsConnecting\<rparr>, Some WsConnecting)
      | EvError reason \<Rightarrow>
          (if \<not> is_up (wt_state t) then (t\<lparr>wt_state := WsFailed reason\<rparr>, Some (WsFailed reason)) else (t, None))
      | EvMailboxPolled mailbox _ \<Rightarrow>
          (if mailbox = wt_watch_mailbox t then
             (let t = request_unread t in
              if wt_state t = WsConnected then (t\<lparr>wt_state := WsWatching\<rparr>, Some WsWatching) else (t, None))
           else (t, None))
      | _ \<Rightarrow> (t, None))"

definition watcher_handle :: "str \<Rightarrow> imap_event \<Rightarrow> watcher \<Rightarrow> watcher \<times> watch_change option" where
  "watcher_handle account event w =
     (case map_of w account of
        None \<Rightarrow> (w, None)
      | Some t \<Rightarrow>
          (case event of
             EvUnreadCounts counts \<Rightarrow>
               (case counts (wt_watch_mailbox t) of
                  None \<Rightarrow> (w, None)
                | Some unread \<Rightarrow>
                    if unread = wt_unread t then (w, None)
                    else (let w = AList.update account (t\<lparr>wt_unread := unread\<rparr>) w
                          in (w, Some (UnreadChange account unread (watcher_total_unread w)))))
           | _ \<Rightarrow>
               (case handle_watched account event t of
                  (t, s) \<Rightarrow> (AList.update account t w, map_option (StateChange account) s))))"

definition load_accounts ::
  "sign_in_env \<Rightarrow> config \<Rightarrow> keyring \<Rightarrow> sources \<Rightarrow>
   (account_config \<times> auth) list \<times> (str \<times> str) list \<times> sources" where
  "load_accounts env config kr sources =
     foldl (\<lambda>(accounts, problems, sources) account.
         case saved_auth env config account kr sources of
           (Inr a, sources) \<Rightarrow> (accounts @ [(account, a)], problems, sources)
         | (Inl reason, sources) \<Rightarrow> (accounts, problems @ [(ac_display_name account, reason)], sources))
       ([], [], sources) (cfg_accounts config)"

section \<open>One account of the listener\<close>

text \<open>The actor's commands, its events on their way to the forwarder, and those the forwarder has
  passed on, each in its channel; \<open>ls_toasts\<close> is what the user was shown.\<close>

record ('c, 'w) listener =
  ls_account :: str
  ls_commands :: "auth imap_command list"
  ls_events :: "imap_event list"
  ls_ui :: "imap_event list"
  ls_forwarder :: forwarder
  ls_watched :: watched
  ls_actor :: "'c imap_actor"
  ls_world :: "'w imap_world"
  ls_toasts :: "(str \<times> str) list"

datatype listener_input = LTick | LWake bool | LActor | LForward | LWatch

definition push_command :: "auth imap_command option \<Rightarrow> ('c, 'w) listener \<Rightarrow> ('c, 'w) listener" where
  "push_command cmd l =
     (case cmd of None \<Rightarrow> l | Some c \<Rightarrow> l\<lparr>ls_commands := try_send IMAP_CHANNEL c (ls_commands l)\<rparr>)"

definition listener_step :: "('c, 'w) actor_env \<Rightarrow> listener_input \<Rightarrow> ('c, 'w) listener \<Rightarrow> ('c, 'w) listener" where
  "listener_step env inp l =
     (case inp of
        LTick \<Rightarrow> push_command (forward_tick (ls_forwarder l)) l
      | LWake woke \<Rightarrow>
          (case forward_wake woke (ls_forwarder l) of (f, cmd) \<Rightarrow> push_command cmd (l\<lparr>ls_forwarder := f\<rparr>))
      | LActor \<Rightarrow>
          (case ls_commands l of
             [] \<Rightarrow> l
           | cmd # rest \<Rightarrow>
               (case actor_command env cmd (ls_actor l) (ls_world l) of
                  (a, w) \<Rightarrow> l\<lparr>ls_commands := rest, ls_actor := a, ls_world := w,
                    ls_events := ls_events l @ sents (drop (length (iw_trace (ls_world l))) (iw_trace w))\<rparr>))
      | LForward \<Rightarrow>
          (case ls_events l of
             [] \<Rightarrow> l
           | e # rest \<Rightarrow>
               (case forward_event e (ls_forwarder l) of
                  (f, cmd, toast) \<Rightarrow>
                    push_command cmd (l\<lparr>ls_events := rest, ls_ui := ls_ui l @ [e], ls_forwarder := f,
                      ls_toasts := ls_toasts l @ (case toast of Some t \<Rightarrow> [t] | None \<Rightarrow> [])\<rparr>)))
      | LWatch \<Rightarrow>
          (case ls_ui l of
             [] \<Rightarrow> l
           | e # rest \<Rightarrow>
               (let t = (ls_watched l)\<lparr>wt_session := (wt_session (ls_watched l))\<lparr>as_commands := ls_commands l\<rparr>\<rparr>;
                    t = the (map_of (fst (watcher_handle (ls_account l) e [(ls_account l, t)])) (ls_account l))
                in l\<lparr>ls_ui := rest, ls_watched := t, ls_commands := as_commands (wt_session t)\<rparr>)))"

definition listener_run :: "('c, 'w) actor_env \<Rightarrow> listener_input list \<Rightarrow> ('c, 'w) listener \<Rightarrow> ('c, 'w) listener" where
  "listener_run env inputs l = foldl (\<lambda>l inp. listener_step env inp l) l inputs"

section \<open>What the watcher keeps\<close>

lemma apply_account_distinct: "distinct (map fst w) \<Longrightarrow> distinct (map fst (apply_account d w))"
  by (auto simp: apply_account_def restart_account_def Let_def split_beta distinct_update distinct_delete)

lemma apply_account_config:
  "map_option wt_config (map_of (apply_account d w) i) =
     (if i = ac_id (fst d) then Some (fst d) else map_option wt_config (map_of w i))"
  by (auto simp: apply_account_def restart_account_def Let_def split_beta update_conv' delete_conv' split: option.splits)

text \<open>After \<open>apply_accounts\<close> exactly the desired accounts are watched, each with its configuration,
  and an account whose configuration did not change keeps its session and its state.\<close>

lemma apply_accounts_exact:
  assumes "distinct (map fst w)" and "distinct (map (ac_id \<circ> fst) desired)"
  shows "distinct (map fst (apply_accounts desired w))"
    and "map_option wt_config (map_of (apply_accounts desired w) i) = map_of (map (\<lambda>d. (ac_id (fst d), fst d)) desired) i"
proof -
  let ?w = "filter (\<lambda>(i, _). i \<in> set (map (ac_id \<circ> fst) desired)) w"
  have "distinct (map fst v) \<Longrightarrow> distinct (map fst (foldl (\<lambda>w d. apply_account d w) v ds))" for ds v
    by (induction ds arbitrary: v) (simp_all add: apply_account_distinct)
  moreover have "distinct (map fst ?w)" using assms(1) by (simp add: distinct_map_filter)
  ultimately show "distinct (map fst (apply_accounts desired w))" by (simp add: apply_accounts_def)
  have *: "map_option wt_config (map_of (foldl (\<lambda>w d. apply_account d w) v ds) i) =
      (case map_of (map (\<lambda>d. (ac_id (fst d), fst d)) ds) i of Some c \<Rightarrow> Some c | None \<Rightarrow> map_option wt_config (map_of v i))"
    if "distinct (map (ac_id \<circ> fst) ds)" for ds v
    using that
  proof (induction ds arbitrary: v)
    case (Cons d ds)
    have "map_of (map (\<lambda>d. (ac_id (fst d), fst d)) ds) (ac_id (fst d)) = None"
      using Cons.prems by (simp add: map_of_eq_None_iff image_image)
    with Cons show ?case by (auto simp: apply_account_config split: option.split)
  qed simp
  have "map_of ?w i = None" if "map_of (map (\<lambda>d. (ac_id (fst d), fst d)) desired) i = None"
    using that by (auto simp: map_of_eq_None_iff image_image) (metis (no_types, lifting) fst_conv imageI image_image)
  with * [OF assms(2), of ?w]
  show "map_option wt_config (map_of (apply_accounts desired w) i) = map_of (map (\<lambda>d. (ac_id (fst d), fst d)) desired) i"
    by (auto simp: apply_accounts_def split: option.splits)
qed

section \<open>A session that was lost\<close>

definition is_poll :: "auth imap_command \<Rightarrow> bool" where
  "is_poll c \<longleftrightarrow> (\<exists>m. c = PollMailbox m) \<or> (\<exists>m u. c = FetchNewHeaders m u)"

definition wakes_watcher :: "imap_event \<Rightarrow> bool" where
  "wakes_watcher e \<longleftrightarrow> e = EvConnected \<or> (\<exists>m st. e = EvMailboxPolled m st)"

definition lost :: "('c, 'w) listener \<Rightarrow> bool" where
  "lost l \<longleftrightarrow> ia_session (ls_actor l) = None \<and> (\<forall>c\<in>set (ls_commands l). is_poll c) \<and>
     (\<forall>e\<in>set (ls_events l) \<union> set (ls_ui l). \<not> wakes_watcher e)"

lemma poll_without_session:
  "is_poll c \<Longrightarrow> ia_session a = None \<Longrightarrow> actor_command env c a w = (a, w)"
  by (auto simp: is_poll_def actor_command_def poll_session_def)

lemma lost_push: "lost l \<Longrightarrow> (\<And>c. cmd = Some c \<Longrightarrow> is_poll c) \<Longrightarrow> lost (push_command cmd l)"
  using set_try_send by (fastforce simp: lost_def push_command_def split: option.split)

lemma push_command_simps [simp]:
  "ls_world (push_command cmd l) = ls_world l" "ls_actor (push_command cmd l) = ls_actor l"
  by (simp_all add: push_command_def split: option.split)

lemma forward_event_poll: "forward_event e f = (f', Some c, toast) \<Longrightarrow> is_poll c"
  by (cases e) (auto simp: forward_event_def is_poll_def Let_def split_beta split: if_splits watermark_update.splits)

lemma quiet_watch:
  assumes "\<not> wakes_watcher e" and "map_of w i = Some t"
  shows "as_commands (wt_session (the (map_of (fst (watcher_handle i e w)) i))) = as_commands (wt_session t)"
  using assms
  by (cases e) (auto simp: watcher_handle_def handle_watched_def wakes_watcher_def update_conv' Let_def split: option.split)

lemma lost_step: "lost l \<Longrightarrow> lost (listener_step env inp l) \<and> ls_world (listener_step env inp l) = ls_world l"
proof (cases inp)
  case LTick
  assume "lost l"
  then show ?thesis
    by (auto simp: listener_step_def LTick forward_tick_def is_poll_def intro!: lost_push split: if_splits)
next
  case (LWake woke)
  assume "lost l"
  obtain f cmd where f: "forward_wake woke (ls_forwarder l) = (f, cmd)" by fastforce
  have "cmd = Some c \<Longrightarrow> is_poll c" for c
    using f by (auto simp: forward_wake_def is_poll_def split: if_splits)
  moreover from \<open>lost l\<close> have "lost (l\<lparr>ls_forwarder := f\<rparr>)" by (simp add: lost_def)
  ultimately show ?thesis using f by (simp add: listener_step_def LWake lost_push)
next
  case LActor
  assume "lost l"
  show ?thesis
  proof (cases "ls_commands l")
    case (Cons c rest)
    with \<open>lost l\<close> have "actor_command env c (ls_actor l) (ls_world l) = (ls_actor l, ls_world l)"
      by (intro poll_without_session) (auto simp: lost_def)
    with \<open>lost l\<close> Cons show ?thesis by (auto simp: listener_step_def LActor lost_def)
  qed (use \<open>lost l\<close> in \<open>simp add: listener_step_def LActor\<close>)
next
  case LForward
  assume "lost l"
  show ?thesis
  proof (cases "ls_events l")
    case (Cons e rest)
    obtain f cmd toast where f: "forward_event e (ls_forwarder l) = (f, cmd, toast)"
      by (cases "forward_event e (ls_forwarder l)") auto
    let ?l = "l\<lparr>ls_events := rest, ls_ui := ls_ui l @ [e], ls_forwarder := f,
      ls_toasts := ls_toasts l @ (case toast of Some t \<Rightarrow> [t] | None \<Rightarrow> [])\<rparr>"
    have "lost ?l" using \<open>lost l\<close> Cons by (auto simp: lost_def)
    moreover have "cmd = Some c \<Longrightarrow> is_poll c" for c using f forward_event_poll by blast
    ultimately have "lost (push_command cmd ?l)" by (rule lost_push)
    then show ?thesis using Cons f by (simp add: listener_step_def LForward)
  qed (use \<open>lost l\<close> in \<open>simp add: listener_step_def LForward\<close>)
next
  case LWatch
  assume "lost l"
  show ?thesis
  proof (cases "ls_ui l")
    case (Cons e rest)
    let ?t = "(ls_watched l)\<lparr>wt_session := (wt_session (ls_watched l))\<lparr>as_commands := ls_commands l\<rparr>\<rparr>"
    have "\<not> wakes_watcher e" using \<open>lost l\<close> Cons by (simp add: lost_def)
    from quiet_watch [OF this, of "[(ls_account l, ?t)]" "ls_account l" ?t] \<open>lost l\<close> Cons show ?thesis
      by (auto simp: listener_step_def LWatch lost_def Let_def)
  qed (use \<open>lost l\<close> in \<open>simp add: listener_step_def LWatch\<close>)
qed

text \<open>C26. Once a poll has failed and its session is gone, the listener is deaf for good: whatever ticks
  of the timer, wake-ups of the \<open>IDLE\<close> watch and turns of its tasks follow, no command but polls is
  queued, each poll is dropped for want of a session, and nothing is asked of the network again.\<close>

theorem lost_session_stays_lost:
  assumes "ia_session (ls_actor l) = None" and "\<forall>c\<in>set (ls_commands l). is_poll c"
    and "\<forall>e\<in>set (ls_events l) \<union> set (ls_ui l). \<not> wakes_watcher e"
  shows "ls_world (listener_run env inputs l) = ls_world l \<and> ia_session (ls_actor (listener_run env inputs l)) = None"
proof -
  have "lost l \<Longrightarrow> lost (listener_run env inputs l) \<and> ls_world (listener_run env inputs l) = ls_world l" for l
  proof (induction inputs arbitrary: l)
    case (Cons inp inputs)
    from lost_step [OF Cons.prems, of env inp] have s: "lost (listener_step env inp l)"
      "ls_world (listener_step env inp l) = ls_world l" by blast+
    from Cons.IH [OF s(1)] s(2) show ?case by (simp add: listener_run_def)
  qed (simp add: listener_run_def)
  moreover have "lost l" unfolding lost_def using assms by blast
  ultimately show ?thesis unfolding lost_def by blast
qed

text \<open>A server that breaks the connection once, at the second \<open>EXAMINE\<close>.\<close>

definition flaky_env :: "(unit, nat) actor_env" where
  "flaky_env = dead_env\<lparr>ae_api := dead_api\<lparr>
     api_tls := (\<lambda>_ _ n. (Inr (), n)),
     api_examine := (\<lambda>_ c n. if n = 0 then (Inr \<lparr>sl_exists = 0, sl_uid_validity = Some 1, sl_uid_next = Some 1\<rparr>, c, 1)
       else (Inl (lit ''connection reset''), c, n))\<rparr>\<rparr>"

definition demo_config :: account_config where
  "demo_config = account_config_new (lit ''Me'') (lit ''h'') 993 (lit ''me'')"

definition listener_start :: "(unit, nat) listener" where
  "listener_start =
     (let t = the (map_of (restart_account demo_config (AuthPassword (lit ''pw'')) []) (ac_id demo_config))
      in \<lparr>ls_account = ac_id demo_config, ls_commands = as_commands (wt_session t), ls_events = [], ls_ui = [],
          ls_forwarder = as_forwarder (wt_session t), ls_watched = t, ls_actor = actor_new, ls_world = start_world,
          ls_toasts = []\<rparr>)"

definition first_minutes :: "listener_input list" where
  "first_minutes = [LActor, LForward, LWatch, LTick, LActor, LForward, LWatch, LActor, LForward, LWatch,
     LActor, LForward, LWatch, LTick, LActor, LForward, LWatch]"

lemmas listener_eval =
  listener_step_def push_command_def forward_tick_def forward_event_def watcher_handle_def handle_watched_def
  request_unread_def try_send_def IMAP_CHANNEL_def is_up_def update_watermark_def state_of_selected_def
  actor_command_def on_connect_def connect_session_def ensure_connected_def poll_session_def call_def send_event_def
  auth_secret_def flaky_env_def dead_env_def dead_api_def Let_def

lemma after_first_minutes:
  "(let l = listener_run flaky_env first_minutes listener_start in
     ia_session (ls_actor l) = None \<and> ls_commands l = [] \<and> ls_events l = [] \<and> ls_ui l = [] \<and>
     fw_connected (ls_forwarder l) \<and> wt_state (ls_watched l) = WsWatching)"
  by (simp add: listener_run_def first_minutes_def listener_start_def restart_account_def session_spawn_def
      demo_config_def account_config_new_def listener_eval actor_new_def start_world_def forwarder_new_def)

theorem lost_session_stays_lost_witness:
  "(\<forall>inputs. ls_world (listener_run flaky_env inputs (listener_run flaky_env first_minutes listener_start)) =
      ls_world (listener_run flaky_env first_minutes listener_start)) \<and>
   wt_state (ls_watched (listener_run flaky_env first_minutes listener_start)) = WsWatching \<and>
   (\<exists>w'. connect_session flaky_env dead_credentials (ls_world (listener_run flaky_env first_minutes listener_start)) = (Inr (), w'))"
proof (intro conjI allI)
  let ?l = "listener_run flaky_env first_minutes listener_start"
  note after = after_first_minutes [unfolded Let_def]
  show "ls_world (listener_run flaky_env inputs ?l) = ls_world ?l" for inputs
    using lost_session_stays_lost [of ?l flaky_env inputs] after by simp
  show "wt_state (ls_watched ?l) = WsWatching" using after by blast
  show "\<exists>w'. connect_session flaky_env dead_credentials (ls_world ?l) = (Inr (), w')"
    by (simp add: connect_session_def auth_secret_def dead_credentials_def flaky_env_def dead_env_def dead_api_def Let_def)
qed

text \<open>A new-mail fetch that comes too late announces old mail: a \<open>UID FETCH n:*\<close> whose messages are
  gone again is answered with the last message there is (RFC 3501), and nothing filters it.\<close>

lemma vanished_mail_announces_old:
  assumes "api_examine (ae_api env) m c n = (Inr s, c', n)"
    and "api_uid_fetch (ae_api env) (dec_u32 first_uid @ lit '':*'') (lit ''(UID ENVELOPE FLAGS)'') c' n = (Inr [Inr it], c'', n)"
    and "fi_uid it = Some uid" and "fi_envelope it = Some envelope" and "uid < first_uid"
  shows "\<exists>w'. fetch_new_headers env m first_uid c (w\<lparr>iw_net := n\<rparr>) =
    (Inr [parse_envelope_header env uid envelope (fetch_flags it)], c'', w')"
  using assms
  by (simp add: fetch_new_headers_def and_then_def call_def from_result_def header_of_item_def)

end
