(* ===== verification/Folders.thy ===== *)
theory Folders
  imports OpenFolder MailboxTree "HOL-Library.AList"
begin

unbundle bit_operations_syntax

text \<open>
  The account and folder tree of the left pane, \<open>crates/esmail-win32/src/core_glue/folders.rs\<close>:
  the rows of every account as \<open>flatten_tree\<close> gives them, the 64-bit ids that name a node to the
  native tree widget (account index above, FNV-1a hash of the folder's path below), and the
  lookups from an id back to a folder.  A \<open>HashMap\<close> of unread counts is an association list with
  distinct keys.  The lemmas show that ids round-trip, that the flat rows read through ids are
  the folder tree (\<open>tree_expands\<close>), and what a hash collision does.
\<close>

section \<open>Data\<close>

type_synonym node_id = "64 word"

record node =
  nd_text :: str
  nd_id :: node_id
  nd_has_children :: bool

record account_folders =
  af_label :: str
  af_rows :: "mailbox_row list"
  af_unread :: "(str \<times> u32) list"

type_synonym folder_tree = "account_folders list"

definition folder_tree_new :: "str list \<Rightarrow> folder_tree" where
  "folder_tree_new labels = map (\<lambda>l. \<lparr>af_label = l, af_rows = [], af_unread = []\<rparr>) labels"

definition tree_get :: "folder_tree \<Rightarrow> nat \<Rightarrow> account_folders option" where
  "tree_get t account = (if account < length t then Some (t ! account) else None)"

section \<open>Ids\<close>

text \<open>\<open>account as i64\<close> truncates to 64 bits; the shift back is arithmetic and \<open>as usize\<close> reads the
  bits as unsigned.\<close>

definition FOLDER_BITS :: nat where "FOLDER_BITS = 32"

definition make_id :: "nat \<Rightarrow> u32 \<Rightarrow> node_id" where
  "make_id account folder = push_bit FOLDER_BITS (of_nat account) OR ucast folder"

definition split_id :: "node_id \<Rightarrow> nat \<times> u32" where
  "split_id i = (unat (signed_drop_bit FOLDER_BITS i), ucast (i AND (push_bit FOLDER_BITS 1 - 1)))"

definition fnv_step :: "u32 \<Rightarrow> byte \<Rightarrow> u32" where
  "fnv_step hash b = (hash XOR of_nat b) * 0x01000193"

definition folder_hash :: "str \<Rightarrow> u32" where
  "folder_hash key = max (foldl fnv_step 0x811c9dc5 (utf8 key)) 1"

section \<open>Updates\<close>

definition modify_account :: "nat \<Rightarrow> (account_folders \<Rightarrow> account_folders) \<Rightarrow> folder_tree \<Rightarrow> folder_tree" where
  "modify_account account f t = (if account < length t then t[account := f (t ! account)] else t)"

definition has_folders :: "nat \<Rightarrow> folder_tree \<Rightarrow> bool" where
  "has_folders account t = (case tree_get t account of Some a \<Rightarrow> af_rows a \<noteq> [] | None \<Rightarrow> False)"

definition set_mailboxes :: "nat \<Rightarrow> mailbox_info list \<Rightarrow> folder_tree \<Rightarrow> folder_tree" where
  "set_mailboxes account mailboxes =
     modify_account account (\<lambda>entry. entry\<lparr>af_rows := flatten_tree (mailbox_tree mailboxes)\<rparr>)"

definition cached_mailbox :: "str \<Rightarrow> mailbox_info" where
  "cached_mailbox name =
     \<lparr>mi_name = name, mi_delimiter = None,
      mi_special_use = (if eq_ignore_ascii_case name (lit ''INBOX'') then Some SuInbox else None),
      mi_noselect = False\<rparr>"

definition set_cached_mailboxes :: "nat \<Rightarrow> str list \<Rightarrow> folder_tree \<Rightarrow> folder_tree" where
  "set_cached_mailboxes account names t =
     (if has_folders account t then t else set_mailboxes account (map cached_mailbox names) t)"

definition set_unread :: "nat \<Rightarrow> (str \<times> u32) list \<Rightarrow> folder_tree \<Rightarrow> folder_tree" where
  "set_unread account counts =
     modify_account account (\<lambda>entry. entry\<lparr>af_unread := AList.merge (af_unread entry) counts\<rparr>)"

section \<open>Reading the tree\<close>

definition folder_text :: "account_folders \<Rightarrow> mailbox_row \<Rightarrow> str" where
  "folder_text entry row =
     (case Option.bind (mr_full_name row) (map_of (af_unread entry)) of
        Some n \<Rightarrow>
          if n > 0 then mr_label row @ lit '' ('' @ dec_u32 n @ lit '')'' else mr_label row
      | None \<Rightarrow> mr_label row)"

definition account_node :: "folder_tree \<Rightarrow> nat \<Rightarrow> node" where
  "account_node t account =
     \<lparr>nd_text = af_label (t ! account), nd_id = make_id account 0, nd_has_children = True\<rparr>"

definition folder_node :: "nat \<Rightarrow> account_folders \<Rightarrow> mailbox_row \<Rightarrow> node" where
  "folder_node account entry row =
     \<lparr>nd_text = folder_text entry row, nd_id = make_id account (folder_hash (mr_key row)),
      nd_has_children = mr_has_children row\<rparr>"

definition row_at_depth :: "mailbox_row list \<Rightarrow> nat \<Rightarrow> nat \<Rightarrow> mailbox_row list" where
  "row_at_depth rows start depth =
     filter (\<lambda>row. mr_depth row = depth) (takeWhile (\<lambda>row. depth \<le> mr_depth row) (drop start rows))"

definition children :: "folder_tree \<Rightarrow> node_id option \<Rightarrow> node list" where
  "children t parent =
     (case parent of
        None \<Rightarrow> map (account_node t) [0..<length t]
      | Some p \<Rightarrow>
          (let (account, folder) = split_id p in
           case tree_get t account of
             None \<Rightarrow> []
           | Some entry \<Rightarrow>
               (case (if folder = 0 then Some (0, 0)
                      else map_option (\<lambda>index. (index + 1, mr_depth (af_rows entry ! index) + 1))
                             (position (\<lambda>row. folder_hash (mr_key row) = folder) (af_rows entry))) of
                  None \<Rightarrow> []
                | Some (start, depth) \<Rightarrow>
                    map (folder_node account entry) (row_at_depth (af_rows entry) start depth))))"

text \<open>The row an id names: the first one with its hash.\<close>

definition row_of_id :: "folder_tree \<Rightarrow> node_id \<Rightarrow> (nat \<times> mailbox_row) option" where
  "row_of_id t i =
     (let (account, folder) = split_id i in
      if folder = 0 then None
      else Option.bind (tree_get t account) (\<lambda>entry.
        map_option (Pair account) (find (\<lambda>row. folder_hash (mr_key row) = folder) (af_rows entry))))"

definition tree_selection :: "folder_tree \<Rightarrow> node_id \<Rightarrow> folder_ref option" where
  "tree_selection t i =
     Option.bind (row_of_id t i) (\<lambda>(account, row).
       map_option (\<lambda>name. \<lparr>fr_account = account, fr_mailbox = name\<rparr>) (mr_full_name row))"

definition row_key :: "folder_tree \<Rightarrow> node_id \<Rightarrow> (nat \<times> str) option" where
  "row_key t i = map_option (\<lambda>(account, row). (account, mr_key row)) (row_of_id t i)"

definition rows_with_ids :: "folder_tree \<Rightarrow> nat \<Rightarrow> (node_id \<times> str \<times> bool \<times> nat) list" where
  "rows_with_ids t account =
     (case tree_get t account of
        Some entry \<Rightarrow>
          map (\<lambda>row. (make_id account (folder_hash (mr_key row)), mr_key row, mr_has_children row, mr_depth row))
            (af_rows entry)
      | None \<Rightarrow> [])"

definition special_folder :: "folder_tree \<Rightarrow> nat \<Rightarrow> special_use \<Rightarrow> str \<Rightarrow> str" where
  "special_folder t account wanted fallback =
     (case tree_get t account of
        Some a \<Rightarrow> find_special_use_mailbox (af_rows a) wanted fallback
      | None \<Rightarrow> fallback)"

definition inbox_unread :: "folder_tree \<Rightarrow> u32" where
  "inbox_unread t =
     sum_list (map snd (filter (\<lambda>(name, _). eq_ignore_ascii_case name (lit ''INBOX''))
       (concat (map af_unread t))))"

definition tree_unread :: "folder_tree \<Rightarrow> folder_ref \<Rightarrow> u32 option" where
  "tree_unread t folder =
     Option.bind (tree_get t (fr_account folder)) (\<lambda>a. map_of (af_unread a) (fr_mailbox folder))"

definition tree_mailbox_names :: "folder_tree \<Rightarrow> nat \<Rightarrow> str list" where
  "tree_mailbox_names t account =
     (case tree_get t account of Some a \<Rightarrow> filter_map mr_full_name (af_rows a) | None \<Rightarrow> [])"

section \<open>Ids round-trip\<close>

lemma folder_hash_nonzero [simp]: "folder_hash key \<noteq> 0"
  by (auto simp: folder_hash_def max_def)

lemma bit_small_nat: "(a::nat) < 2 ^ n \<Longrightarrow> bit a m \<Longrightarrow> m < n"
  by (metis bit_take_bit_iff take_bit_nat_eq_self)

theorem split_make_id:
  assumes "account < 2 ^ 31"
  shows "split_id (make_id account folder) = (account, folder)"
proof -
  have small: "\<not> bit account m" if "31 \<le> m" for m
    using bit_small_nat [OF assms, of m] that by auto
  have f: "\<not> bit folder m" if "32 \<le> m" for m
    using bit_imp_le_length [of folder m] that by auto
  have "signed_drop_bit 32 (push_bit 32 (of_nat account) OR ucast folder :: 64 word) = of_nat account"
    by (rule bit_word_eqI)
      (auto simp: bit_signed_drop_bit_iff bit_or_iff bit_push_bit_iff bit_ucast_iff bit_of_nat_iff small f)
  moreover have "unat (of_nat account :: 64 word) = account"
    using assms by (simp add: unsigned_of_nat take_bit_nat_eq_self)
  moreover have "ucast ((push_bit 32 (of_nat account) OR ucast folder :: 64 word) AND mask 32) = folder"
    by (rule bit_word_eqI)
      (auto simp: bit_and_iff bit_or_iff bit_push_bit_iff bit_ucast_iff bit_mask_iff)
  ultimately show ?thesis
    by (simp add: split_id_def make_id_def FOLDER_BITS_def mask_eq_decr_exp)
qed

text \<open>The folder and account an id names do not depend on the order or number of the other
  folders; an id for an account that does not exist names nothing.\<close>

lemma account_id [simp]: "account < 2 ^ 31 \<Longrightarrow> row_of_id t (make_id account 0) = None"
  by (simp add: row_of_id_def split_make_id)

section \<open>The flat rows read through ids\<close>

definition row_hashes :: "mailbox_row list \<Rightarrow> u32 list" where
  "row_hashes rows = map (\<lambda>row. folder_hash (mr_key row)) rows"

lemma find_position:
  "find P xs = map_option ((!) xs) (position P xs)"
  by (induction xs) (auto simp: option.map_comp comp_def)

lemma position_distinct:
  assumes "distinct (map f xs)" and "i < length xs"
  shows "position (\<lambda>x. f x = f (xs ! i)) xs = Some i"
proof -
  have "f (xs ! j) \<noteq> f (xs ! i)" if "j < i" for j
    using nth_eq_iff_index_eq [OF assms(1), of j i] assms(2) that by simp
  with assms(2) show ?thesis by (simp add: position_Some)
qed

text \<open>The row of a node: its label under the key of its parent.\<close>

definition top_row :: "nat \<Rightarrow> str \<Rightarrow> mailbox_node \<Rightarrow> mailbox_row" where
  "top_row depth parent_key n =
     \<lparr>mr_depth = depth, mr_label = node_label n, mr_full_name = node_full_name n,
      mr_special_use = node_special_use n, mr_key = child_key parent_key (node_label n),
      mr_has_children = (node_children n \<noteq> [])\<rparr>"

lemma flatten_Cons:
  "flatten_into (n # nodes) d k =
     top_row d k n # flatten_into (node_children n) (Suc d) (child_key k (node_label n)) @ flatten_into nodes d k"
  by (cases n) (simp add: top_row_def)

lemma flatten_append: "flatten_into (xs @ ys) d k = flatten_into xs d k @ flatten_into ys d k"
  by (induction xs) (simp_all add: flatten_Cons)

lemma hd_flatten: "rows = [] \<or> mr_depth (hd rows) \<le> d \<Longrightarrow>
    flatten_into nodes d k @ rows = [] \<or> mr_depth (hd (flatten_into nodes d k @ rows)) \<le> d"
  by (cases nodes) (simp_all add: flatten_Cons top_row_def)

lemma flatten_at_depth:
  "filter (\<lambda>row. mr_depth row = d) (flatten_into nodes d k) = map (top_row d k) nodes"
proof (induction nodes)
  case (Cons n nodes)
  have "filter (\<lambda>row. mr_depth row = d)
      (flatten_into (node_children n) (Suc d) (child_key k (node_label n))) = []"
    using flatten_depth by (fastforce simp: filter_empty_conv)
  with Cons show ?case by (simp add: flatten_Cons) (simp add: top_row_def)
qed simp

text \<open>Where a path leads, its rows are contiguous, and what follows them is no deeper.\<close>

definition path_key :: "str \<Rightarrow> str list \<Rightarrow> str" where
  "path_key = foldl child_key"

lemma flatten_at_path:
  assumes "node_at path nodes = Some n"
  shows "\<exists>pre row post. flatten_into nodes d k =
      pre @ row # flatten_into (node_children n) (d + length path) (path_key k path) @ post \<and>
      mr_key row = path_key k path \<and> mr_depth row + 1 = d + length path \<and>
      (post = [] \<or> mr_depth (hd post) < d + length path)"
  using assms
proof (induction path arbitrary: nodes d k)
  case (Cons label path)
  then obtain m where m: "find (\<lambda>n. node_label n = label) nodes = Some m"
    by (auto split: option.splits)
  then obtain xs ys where nodes: "nodes = xs @ m # ys"
    by (meson find_SomeD split_list)
  have l: "node_label m = label" using find_SomeD [OF m] by simp
  let ?k = "child_key k label"
  let ?ys = "flatten_into ys d k"
  have f: "flatten_into nodes d k =
      flatten_into xs d k @ top_row d k m # flatten_into (node_children m) (Suc d) ?k @ ?ys"
    by (simp add: nodes flatten_append flatten_Cons l)
  have ys: "?ys = [] \<or> mr_depth (hd ?ys) \<le> d" using hd_flatten [of "[]" d ys k] by simp
  show ?case
  proof (cases "path = []")
    case True
    then have "n = m" using Cons.prems m by simp
    with True ys show ?thesis
      by (intro exI [of _ "flatten_into xs d k"] exI [of _ "top_row d k m"] exI [of _ ?ys])
        (auto simp: f path_key_def top_row_def l)
  next
    case False
    then have "node_at path (node_children m) = Some n" using Cons.prems m by simp
    from Cons.IH [OF this, of "Suc d" ?k] obtain pre row post where
      "flatten_into (node_children m) (Suc d) ?k =
        pre @ row # flatten_into (node_children n) (Suc d + length path) (path_key ?k path) @ post"
      and r: "mr_key row = path_key ?k path" "mr_depth row + 1 = Suc d + length path"
      and post: "post = [] \<or> mr_depth (hd post) < Suc d + length path"
      by blast
    with False ys show ?thesis
      by (intro exI [of _ "flatten_into xs d k @ top_row d k m # pre"] exI [of _ row]
          exI [of _ "post @ ?ys"])
        (cases post; auto simp: f path_key_def)
  qed
qed simp

text \<open>Below a row whose subtree is contiguous, the children are the nodes one level down.\<close>

lemma row_at_depth_flatten:
  assumes "post = [] \<or> mr_depth (hd post) < d"
  shows "row_at_depth (pre @ row # flatten_into nodes d k @ post) (length pre + 1) d =
    map (top_row d k) nodes"
proof -
  have "takeWhile (\<lambda>row. d \<le> mr_depth row) (flatten_into nodes d k @ post) = flatten_into nodes d k"
    using assms flatten_depth by (subst takeWhile_append2) (auto simp: takeWhile_eq_Nil_iff)
  then show ?thesis by (simp add: row_at_depth_def flatten_at_depth)
qed

lemma tree_get_set_mailboxes:
  "account < length t \<Longrightarrow> tree_get (set_mailboxes account mailboxes t) account =
     Some ((t ! account)\<lparr>af_rows := flatten_tree (mailbox_tree mailboxes)\<rparr>)"
  by (simp add: set_mailboxes_def modify_account_def tree_get_def)

text \<open>The children of a node, read through its id.\<close>

definition child_nodes :: "nat \<Rightarrow> account_folders \<Rightarrow> str list \<Rightarrow> mailbox_node list \<Rightarrow> node list" where
  "child_nodes account entry path nodes =
     map (\<lambda>n. folder_node account entry (top_row (length path) (path_key [] path) n)) nodes"

lemma children_of_row:
  assumes "tree_get t account = Some entry" and "account < 2 ^ 31"
    and "af_rows entry = pre @ row # rest" and "distinct (row_hashes (af_rows entry))"
  shows "children t (Some (make_id account (folder_hash (mr_key row)))) =
    map (folder_node account entry) (row_at_depth (af_rows entry) (length pre + 1) (mr_depth row + 1))"
proof -
  have "position (\<lambda>r. folder_hash (mr_key r) = folder_hash (mr_key row)) (af_rows entry) = Some (length pre)"
    using position_distinct [of "\<lambda>r. folder_hash (mr_key r)" "af_rows entry" "length pre"] assms(3,4)
    by (simp add: row_hashes_def)
  then show ?thesis using assms by (simp add: children_def split_make_id)
qed

text \<open>The nodes below a path, the empty path naming the account, and the id of its node.\<close>

definition nodes_below :: "str list \<Rightarrow> mailbox_node list \<Rightarrow> mailbox_node list option" where
  "nodes_below path nodes =
     (if path = [] then Some nodes else map_option node_children (node_at path nodes))"

definition path_id :: "nat \<Rightarrow> str list \<Rightarrow> node_id" where
  "path_id account path = make_id account (if path = [] then 0 else folder_hash (path_key [] path))"

lemma takeWhile_True: "takeWhile (\<lambda>x. True) xs = xs"
  by (simp add: takeWhile_eq_all_conv)

lemma children_below_account:
  assumes "tree_get t account = Some entry" and "account < 2 ^ 31" and "af_rows entry = flatten_tree nodes"
  shows "children t (Some (make_id account 0)) = child_nodes account entry [] nodes"
  using assms
  by (simp add: children_def split_make_id child_nodes_def path_key_def row_at_depth_def
      flatten_tree_def flatten_at_depth takeWhile_True)

lemma children_below_folder:
  assumes "tree_get t account = Some entry" and "account < 2 ^ 31" and "af_rows entry = flatten_tree nodes"
    and "distinct (row_hashes (af_rows entry))" and "node_at path nodes = Some n"
  shows "children t (Some (make_id account (folder_hash (path_key [] path)))) =
    child_nodes account entry path (node_children n)"
proof -
  from flatten_at_path [OF assms(5), of 0 "[]"] obtain pre row post where
    split: "af_rows entry =
      pre @ row # flatten_into (node_children n) (length path) (path_key [] path) @ post"
    and row: "mr_key row = path_key [] path" "mr_depth row + 1 = length path"
    and post: "post = [] \<or> mr_depth (hd post) < length path"
    by (auto simp: assms(3) flatten_tree_def)
  have "children t (Some (make_id account (folder_hash (mr_key row)))) =
      map (folder_node account entry) (row_at_depth (af_rows entry) (length pre + 1) (length path))"
    using children_of_row [OF assms(1,2) split assms(4)] row(2) by simp
  also have "row_at_depth (af_rows entry) (length pre + 1) (length path) =
      map (top_row (length path) (path_key [] path)) (node_children n)"
    unfolding split by (rule row_at_depth_flatten [OF post])
  finally show ?thesis by (simp add: row(1) child_nodes_def)
qed

text \<open>The native tree shows the folder tree: when no two folders of an account share a
  hash, the nodes under the id of a path (the account itself, or the folder the path leads to)
  are exactly the folders below it in the tree \<open>LIST\<close> describes, in its order, each with its
  own id, text and expander.\<close>

theorem tree_expands:
  assumes "account < length t" and "account < 2 ^ 31"
    and "t' = set_mailboxes account mailboxes t"
    and "distinct (row_hashes (af_rows (t' ! account)))"
    and "nodes_below path (mailbox_tree mailboxes) = Some below"
  shows "children t' (Some (path_id account path)) = child_nodes account (t' ! account) path below"
proof -
  have get: "tree_get t' account = Some (t' ! account)"
    and rows: "af_rows (t' ! account) = flatten_tree (mailbox_tree mailboxes)"
    using assms(1,3) by (simp_all add: tree_get_def set_mailboxes_def modify_account_def)
  show ?thesis
  proof (cases "path = []")
    case True
    with children_below_account [OF get assms(2) rows] assms(5) show ?thesis
      by (simp add: path_id_def nodes_below_def)
  next
    case False
    with children_below_folder [OF get assms(2) rows assms(4)] assms(5) show ?thesis
      by (auto simp: path_id_def nodes_below_def)
  qed
qed

text \<open>The id of a row gives back its folder, its key, and nothing for a container.\<close>

theorem selecting_a_row:
  assumes "tree_get t account = Some entry" and "account < 2 ^ 31"
    and "row \<in> set (af_rows entry)" and "distinct (row_hashes (af_rows entry))"
  shows "row_of_id t (make_id account (folder_hash (mr_key row))) = Some (account, row)"
proof -
  obtain i where i: "i < length (af_rows entry)" "row = af_rows entry ! i"
    using assms(3) by (metis in_set_conv_nth)
  have "position (\<lambda>r. folder_hash (mr_key r) = folder_hash (mr_key row)) (af_rows entry) = Some i"
    using position_distinct [of "\<lambda>r. folder_hash (mr_key r)" "af_rows entry" i] assms(4) i
    by (simp add: row_hashes_def)
  then show ?thesis
    using assms(1,2) i by (simp add: row_of_id_def split_make_id find_position)
qed

lemma tree_selection_row:
  assumes "tree_get t account = Some entry" and "account < 2 ^ 31"
    and "row \<in> set (af_rows entry)" and "distinct (row_hashes (af_rows entry))"
  shows "tree_selection t (make_id account (folder_hash (mr_key row))) =
      map_option (\<lambda>name. \<lparr>fr_account = account, fr_mailbox = name\<rparr>) (mr_full_name row)"
    and "row_key t (make_id account (folder_hash (mr_key row))) = Some (account, mr_key row)"
  using selecting_a_row [OF assms] by (simp_all add: tree_selection_def row_key_def)

text \<open>A witness of the hypotheses: a folder with a folder inside.\<close>

definition demo_boxes :: "mailbox_info list" where
  "demo_boxes = map (\<lambda>n. \<lparr>mi_name = n, mi_delimiter = Some (lit ''/''), mi_special_use = None,
     mi_noselect = False\<rparr>) [lit ''P'', lit ''P/A'']"

lemmas tree_eval =
  mailbox_tree_def insert_mailbox_def mailbox_segments_def lit_def split_str.simps insert_path.simps
  ensure_node_def set_leaf_def set_children_def sort_tree_eval node_sort_key_def use_rank_def
  flatten_tree_def child_key_def to_ascii_lowercase_def lower_char_def

lemmas hash_eval = folder_hash_def fnv_step_def utf8_def utf8_char_def lit_def

lemma demo_tree:
  "mailbox_tree demo_boxes = [MailboxNode (lit ''P'') (Some (lit ''P'')) None
     [MailboxNode (lit ''A'') (Some (lit ''P/A'')) None []]]"
  by (simp add: demo_boxes_def tree_eval)

lemma demo_hashes: "folder_hash (lit ''P'') \<noteq> folder_hash (lit ''P/A'')"
  by (simp add: hash_eval)

theorem tree_expands_witness:
  "map nd_text (children (set_mailboxes 0 demo_boxes (folder_tree_new [lit ''Work'']))
     (Some (path_id 0 [lit ''P'']))) = [lit ''A'']"
proof -
  let ?t = "set_mailboxes 0 demo_boxes (folder_tree_new [lit ''Work''])"
  have rows: "af_rows (?t ! 0) = flatten_tree (mailbox_tree demo_boxes)" and "af_unread (?t ! 0) = []"
    by (simp_all add: set_mailboxes_def modify_account_def folder_tree_new_def)
  have "distinct (row_hashes (af_rows (?t ! 0)))"
    unfolding rows demo_tree using demo_hashes
    by (simp add: row_hashes_def flatten_tree_def child_key_def lit_def)
  from tree_expands [OF _ _ refl this, of "[lit ''P'']"] show ?thesis
    using \<open>af_unread (?t ! 0) = []\<close>
    by (simp add: folder_tree_new_def demo_tree nodes_below_def child_nodes_def folder_node_def
        folder_text_def top_row_def path_key_def)
qed

text \<open>Two folders whose paths have the same hash share an id: the second one can be listed but
  never opened, because its node opens the first.\<close>

lemma hashes_collide: "folder_hash (lit ''costarring'') = folder_hash (lit ''liquid'')"
  by (simp add: hash_eval)

lemma node_shadowed:
  assumes "find (\<lambda>r. folder_hash (mr_key r) = folder_hash (mr_key row)) rows = Some other"
    and "tree_get t account = Some entry" and "af_rows entry = rows" and "account < 2 ^ 31"
  shows "row_of_id t (make_id account (folder_hash (mr_key row))) = Some (account, other)"
  using assms by (simp add: row_of_id_def split_make_id)

definition colliding_boxes :: "mailbox_info list" where
  "colliding_boxes = map cached_mailbox [lit ''costarring'', lit ''liquid'']"

lemma colliding_rows:
  "map (\<lambda>r. (mr_key r, mr_full_name r)) (flatten_tree (mailbox_tree colliding_boxes)) =
     [(lit ''costarring'', Some (lit ''costarring'')), (lit ''liquid'', Some (lit ''liquid''))]"
  by (simp add: colliding_boxes_def cached_mailbox_def eq_ignore_ascii_case_def tree_eval)

theorem colliding_folder_opens_the_other:
  "tree_selection (set_mailboxes 0 colliding_boxes (folder_tree_new [lit ''Work'']))
     (path_id 0 [lit ''liquid'']) = Some \<lparr>fr_account = 0, fr_mailbox = lit ''costarring''\<rparr>"
proof -
  let ?t = "set_mailboxes 0 colliding_boxes (folder_tree_new [lit ''Work''])"
  have get: "tree_get ?t 0 = Some (?t ! 0)" 
    by (simp add: tree_get_def set_mailboxes_def modify_account_def folder_tree_new_def)
  have rows: "af_rows (?t ! 0) = flatten_tree (mailbox_tree colliding_boxes)"
    by (simp add: set_mailboxes_def modify_account_def folder_tree_new_def)
  obtain r rs where r: "flatten_tree (mailbox_tree colliding_boxes) = r # rs"
    "mr_key r = lit ''costarring''" "mr_full_name r = Some (lit ''costarring'')"
    using colliding_rows by (cases "flatten_tree (mailbox_tree colliding_boxes)") auto
  have "path_key [] [lit ''liquid''] = lit ''liquid''" by (simp add: path_key_def child_key_def)
  then show ?thesis
    using get rows r hashes_collide
    by (simp add: tree_selection_def row_of_id_def path_id_def split_make_id)
qed

section \<open>Updates\<close>

lemma tree_get_modify:
  "tree_get (modify_account a f t) b = (if a = b then map_option f (tree_get t b) else tree_get t b)"
  by (auto simp: modify_account_def tree_get_def)

text \<open>Folders from the cache only stand in: they never replace a listing.\<close>

lemma cached_never_replaces:
  "has_folders account t \<Longrightarrow> set_cached_mailboxes account names t = t"
  by (simp add: set_cached_mailboxes_def)

text \<open>A batch of counts replaces the counts it mentions and keeps the others; a label shows its
  count only when that is positive.\<close>

lemma unread_after_batch:
  "tree_unread (set_unread account counts t) folder =
     (if fr_account folder = account
      then Option.bind (tree_get t account) (\<lambda>_.
        case map_of counts (fr_mailbox folder) of Some n \<Rightarrow> Some n | None \<Rightarrow> tree_unread t folder)
      else tree_unread t folder)"
  by (cases "tree_get t account"; cases "map_of counts (fr_mailbox folder)")
    (auto simp: tree_unread_def set_unread_def tree_get_modify merge_conv' map_add_def)

lemma label_shows_count:
  "folder_text entry row = mr_label row \<or>
     (\<exists>name n. mr_full_name row = Some name \<and> map_of (af_unread entry) name = Some n \<and> 0 < n \<and>
       folder_text entry row = mr_label row @ lit '' ('' @ dec_u32 n @ lit '')'')"
  by (cases "mr_full_name row") (auto simp: folder_text_def split: option.splits)

text \<open>Counts reported for other folders than an inbox do not reach the tray's total.\<close>

lemma inbox_unread_Cons:
  "inbox_unread (a # t) = sum_list (map snd (filter (\<lambda>(name, _). eq_ignore_ascii_case name (lit ''INBOX''))
     (af_unread a))) + inbox_unread t"
  by (simp add: inbox_unread_def)

end
