(* ===== verification/Results.thy ===== *)
theory Results
  imports OpenFolder Protocol
begin

text \<open>
  What a search found, \<open>crates/esmail-win32/src/core_glue/results.rs\<close>: the hits with the
  folder each is in, the rows of the list beside them, and the two updates that reach a list of
  hits while it is shown.  \<open>Vec::remove\<close> and indexing panic out of range; the invariant of this
  file keeps them in range.  The date formatter of a row is the parameter \<open>fmt\<close>.
\<close>

section \<open>Data and operations\<close>

type_synonym hit = "folder_ref \<times> mail_header"

record search_results =
  sr_hits :: "hit list"
  sr_rows :: "row_model list"

definition located :: "str list \<Rightarrow> search_hit \<Rightarrow> hit option" where
  "located account_ids hit =
     map_option (\<lambda>account. (\<lparr>fr_account = account, fr_mailbox = sh_mailbox hit\<rparr>, sh_header hit))
       (position (\<lambda>i. i = sh_account_id hit) account_ids)"

definition search_results_new :: "date_fmt \<Rightarrow> search_hit list \<Rightarrow> str list \<Rightarrow> search_results" where
  "search_results_new fmt hits account_ids =
     (let found = filter_map (located account_ids) hits
      in \<lparr>sr_hits = found, sr_rows = map (\<lambda>(_, header). row_model_of fmt header) found\<rparr>)"

definition sr_get :: "search_results \<Rightarrow> nat \<Rightarrow> hit option" where
  "sr_get r row = (if row < length (sr_hits r) then Some (sr_hits r ! row) else None)"

definition is_hit :: "nat \<Rightarrow> str \<Rightarrow> u32 \<Rightarrow> hit \<Rightarrow> bool" where
  "is_hit account mailbox uid h \<longleftrightarrow>
     fr_account (fst h) = account \<and> fr_mailbox (fst h) = mailbox \<and> mh_uid (snd h) = uid"

definition sr_position :: "nat \<Rightarrow> str \<Rightarrow> u32 \<Rightarrow> search_results \<Rightarrow> nat option" where
  "sr_position account mailbox uid r = position (is_hit account mailbox uid) (sr_hits r)"

definition sr_seen :: "nat \<Rightarrow> str \<Rightarrow> u32 \<Rightarrow> search_results \<Rightarrow> bool option" where
  "sr_seen account mailbox uid r =
     map_option (\<lambda>i. is_seen (snd (sr_hits r ! i))) (sr_position account mailbox uid r)"

definition sr_remove :: "nat \<Rightarrow> str \<Rightarrow> u32 \<Rightarrow> search_results \<Rightarrow> nat option \<times> search_results" where
  "sr_remove account mailbox uid r =
     (case sr_position account mailbox uid r of
        None \<Rightarrow> (None, r)
      | Some i \<Rightarrow> (Some i, \<lparr>sr_hits = list_remove_at i (sr_hits r), sr_rows = list_remove_at i (sr_rows r)\<rparr>))"

definition sr_set_flags ::
  "date_fmt \<Rightarrow> nat \<Rightarrow> str \<Rightarrow> u32 \<Rightarrow> str list \<Rightarrow> search_results \<Rightarrow> bool \<times> search_results" where
  "sr_set_flags fmt account mailbox uid flags r =
     (case sr_position account mailbox uid r of
        None \<Rightarrow> (False, r)
      | Some i \<Rightarrow>
          (let (folder, header) = sr_hits r ! i;
               header = header\<lparr>mh_flags := flags\<rparr>
           in (True, \<lparr>sr_hits = (sr_hits r)[i := (folder, header)],
                      sr_rows = (sr_rows r)[i := row_model_of fmt header]\<rparr>)))"

section \<open>The list and its hits stay in step\<close>

datatype results_input = SrRemove nat str u32 | SrFlags nat str u32 "str list"

fun results_step :: "date_fmt \<Rightarrow> search_results \<Rightarrow> results_input \<Rightarrow> search_results" where
  "results_step fmt r (SrRemove account mailbox uid) = snd (sr_remove account mailbox uid r)"
| "results_step fmt r (SrFlags account mailbox uid flags) = snd (sr_set_flags fmt account mailbox uid flags r)"

definition results_ok :: "date_fmt \<Rightarrow> nat \<Rightarrow> search_results \<Rightarrow> bool" where
  "results_ok fmt accounts r \<longleftrightarrow>
     sr_rows r = map (\<lambda>(_, header). row_model_of fmt header) (sr_hits r) \<and>
     (\<forall>h\<in>set (sr_hits r). fr_account (fst h) < accounts)"

lemma located_Some:
  "located account_ids h = Some k \<Longrightarrow>
     fr_account (fst k) < length account_ids \<and> account_ids ! fr_account (fst k) = sh_account_id h \<and>
     fr_mailbox (fst k) = sh_mailbox h \<and> snd k = sh_header h"
  by (auto simp: located_def position_Some)

lemma sr_position_Some:
  "sr_position account mailbox uid r = Some i \<Longrightarrow>
     i < length (sr_hits r) \<and> is_hit account mailbox uid (sr_hits r ! i)"
  by (simp add: sr_position_def position_Some)

lemma set_list_remove_at_subset: "set (list_remove_at i xs) \<subseteq> set xs"
  by (auto simp: list_remove_at_def dest: in_set_takeD in_set_dropD)

lemma results_ok_new: "results_ok fmt (length account_ids) (search_results_new fmt hits account_ids)"
  by (auto simp: results_ok_def search_results_new_def Let_def set_filter_map dest!: located_Some)

lemma results_ok_remove:
  "results_ok fmt n r \<Longrightarrow> results_ok fmt n (snd (sr_remove account mailbox uid r))"
  using set_list_remove_at_subset by (fastforce simp: results_ok_def sr_remove_def map_list_remove_at split: option.splits)

lemma results_ok_set_flags:
  assumes "results_ok fmt n r"
  shows "results_ok fmt n (snd (sr_set_flags fmt account mailbox uid flags r))"
proof (cases "sr_position account mailbox uid r")
  case (Some i)
  then have i: "i < length (sr_hits r)" using sr_position_Some by blast
  obtain folder header where h: "sr_hits r ! i = (folder, header)" by fastforce
  then have "fr_account folder < n"
    using assms i by (metis fst_conv nth_mem results_ok_def)
  with assms Some h show ?thesis
    by (auto simp: results_ok_def sr_set_flags_def Let_def map_update dest!: set_update_subset_insert [THEN subsetD])
qed (use assms in \<open>simp add: sr_set_flags_def\<close>)

text \<open>Whatever happens to the messages of a search while its results are shown, row \<open>i\<close> of
  the list is always the row of hit \<open>i\<close>, and every hit names an account that exists; a search
  result is well-formed from the start and stays so.\<close>

theorem results_stay_in_step:
  "results_ok fmt (length account_ids)
     (foldl (results_step fmt) (search_results_new fmt hits account_ids) inputs)"
proof (induction inputs rule: rev_induct)
  case Nil
  show ?case by (simp add: results_ok_new)
next
  case (snoc input inputs)
  then show ?case by (cases input) (simp_all add: results_ok_remove results_ok_set_flags)
qed

section \<open>What an update does\<close>

lemma nth_list_remove_at:
  "i < length xs \<Longrightarrow> list_remove_at i xs ! j = (if j < i then xs ! j else xs ! Suc j)"
  by (auto simp: list_remove_at_def nth_append min_def)

text \<open>A removed message's row is reported and the rows after it move up by one; nothing else
  changes.\<close>

lemma sr_get_remove:
  assumes "sr_remove account mailbox uid r = (Some i, r')"
  shows "sr_get r' j = sr_get r (if j < i then j else Suc j)"
    and "\<exists>h. sr_get r i = Some h \<and> is_hit account mailbox uid h"
proof -
  have i: "i < length (sr_hits r)" "is_hit account mailbox uid (sr_hits r ! i)"
    and r': "sr_hits r' = list_remove_at i (sr_hits r)"
    using assms sr_position_Some by (auto simp: sr_remove_def split: option.splits)
  then show "sr_get r' j = sr_get r (if j < i then j else Suc j)"
    by (auto simp: sr_get_def nth_list_remove_at length_list_remove_at)
  show "\<exists>h. sr_get r i = Some h \<and> is_hit account mailbox uid h" using i by (simp add: sr_get_def)
qed

text \<open>The flags reach the message of that account, folder and uid; a message of another folder
  with the same uid keeps its own.\<close>

lemma sr_seen_set_flags:
  "sr_seen account mailbox uid (snd (sr_set_flags fmt account mailbox uid flags r)) =
     map_option (\<lambda>_. has_flag FLAG_SEEN flags) (sr_position account mailbox uid r)"
proof (cases "sr_position account mailbox uid r")
  case None
  then show ?thesis by (simp add: sr_set_flags_def sr_seen_def)
next
  case (Some i)
  obtain folder header where h: "sr_hits r ! i = (folder, header)" by fastforce
  let ?r = "snd (sr_set_flags fmt account mailbox uid flags r)"
  have hits: "sr_hits ?r = (sr_hits r)[i := (folder, header\<lparr>mh_flags := flags\<rparr>)]"
    using Some h by (simp add: sr_set_flags_def Let_def)
  have i: "i < length (sr_hits r)" "\<forall>j<i. \<not> is_hit account mailbox uid (sr_hits r ! j)"
    "is_hit account mailbox uid (folder, header)"
    using Some h by (auto simp: sr_position_def position_Some)
  then have "sr_position account mailbox uid ?r = Some i"
    by (auto simp: sr_position_def position_Some hits is_hit_def)
  with Some hits i(1) show ?thesis by (simp add: sr_seen_def is_seen_def)
qed

lemma sr_set_flags_elsewhere:
  assumes "\<not> is_hit account mailbox uid h" and "sr_get r j = Some h"
  shows "sr_get (snd (sr_set_flags fmt account mailbox uid flags r)) j = Some h"
  using assms sr_position_Some [of account mailbox uid r]
  by (auto simp: sr_set_flags_def Let_def sr_get_def nth_list_update split: option.splits if_splits prod.splits)

end
