(* ===== verification/Links.thy ===== *)
theory Links
  imports Auth
begin

text \<open>
  Links of the reading pane, \<open>crates/esmail-win32/src/core_glue/links.rs\<close>: what a click on a
  link of a message does.  A message is untrusted, so the lemmas say what a link can reach: only
  well-formed web addresses leave for the browser, and the links the header block writes itself
  come back as the actions they stand for.
\<close>

section \<open>Definitions\<close>

definition ATTACHMENT_SCHEME :: str where "ATTACHMENT_SCHEME = lit ''esmail-attachment''"
definition RECONNECT_SCHEME :: str where "RECONNECT_SCHEME = lit ''esmail-reconnect''"
definition MAX_LINK_BYTES :: nat where "MAX_LINK_BYTES = 8192"

datatype link_action =
    Browser str
  | MailTo str "str option"
  | SaveAttachment nat
  | OpenAttachment nat
  | SaveAllAttachments
  | Reconnect nat
  | Refuse str

definition save_href :: "nat \<Rightarrow> str" where
  "save_href n = ATTACHMENT_SCHEME @ lit '':save/'' @ dec_digits n"

definition open_href :: "nat \<Rightarrow> str" where
  "open_href n = ATTACHMENT_SCHEME @ lit '':open/'' @ dec_digits n"

definition save_all_href :: str where
  "save_all_href = ATTACHMENT_SCHEME @ lit '':save-all''"

definition reconnect_href :: "nat \<Rightarrow> str" where
  "reconnect_href account = RECONNECT_SCHEME @ lit '':'' @ dec_digits account"

text \<open>\<open>u8::from_str_radix(_, 16)\<close>: an optional \<open>+\<close>, then at least one hexadecimal digit.\<close>

definition hex_value :: "byte \<Rightarrow> nat option" where
  "hex_value b =
     (if 48 \<le> b \<and> b \<le> 57 then Some (b - 48)
      else if 65 \<le> b \<and> b \<le> 70 then Some (b - 55)
      else if 97 \<le> b \<and> b \<le> 102 then Some (b - 87) else None)"

definition u8_from_hex2 :: "byte \<Rightarrow> byte \<Rightarrow> byte option" where
  "u8_from_hex2 a b =
     (if a = 43 then hex_value b
      else Option.bind (hex_value a) (\<lambda>x. map_option (\<lambda>y. 16 * x + y) (hex_value b)))"

fun percent_bytes :: "byte list \<Rightarrow> byte list" where
  "percent_bytes [] = []"
| "percent_bytes (c # bs) =
     (case bs of
        a # b # rest \<Rightarrow>
          (case (if c = 37 then u8_from_hex2 a b else None) of
             Some x \<Rightarrow> x # percent_bytes rest
           | None \<Rightarrow> c # percent_bytes bs)
      | _ \<Rightarrow> c # percent_bytes bs)"

definition percent_decode :: "str \<Rightarrow> str" where
  "percent_decode t = from_utf8_lossy (percent_bytes (utf8 t))"

definition refuse :: "string \<Rightarrow> link_action" where
  "refuse s = Refuse (lit s)"

definition subject_pair :: "str \<Rightarrow> str option" where
  "subject_pair pair =
     (case split_once 61 pair of
        Some (name, v) \<Rightarrow> if eq_ignore_ascii_case name (lit ''subject'') then Some v else None
      | None \<Rightarrow> None)"

definition mail_link :: "str \<Rightarrow> link_action" where
  "mail_link rest =
     (let (addr, query) = (case split_once 63 rest of Some p \<Rightarrow> p | None \<Rightarrow> (rest, []));
          to = percent_decode addr
      in if 64 \<notin> set to then refuse ''Blocked a mail link with no address.''
         else MailTo to (map_option percent_decode
           (case filter_map subject_pair (split_on (\<lambda>c. c = 38) query) of v # _ \<Rightarrow> Some v | [] \<Rightarrow> None)))"

definition parse_usize :: "str \<Rightarrow> nat option" where
  "parse_usize s = parse_nat (2 ^ 64) s"

definition attachment_link :: "str \<Rightarrow> link_action" where
  "attachment_link rest =
     (let parsed = (case split_once 47 rest of
           Some (verb, n) \<Rightarrow>
             if verb = lit ''save'' then map_option SaveAttachment (parse_usize n)
             else if verb = lit ''open'' then map_option OpenAttachment (parse_usize n)
             else None
         | None \<Rightarrow> if rest = lit ''save-all'' then Some SaveAllAttachments else None)
      in case parsed of Some a \<Rightarrow> a | None \<Rightarrow> refuse ''Blocked a malformed attachment link.'')"

definition classify :: "str \<Rightarrow> link_action" where
  "classify href =
     (let href = trim href in
      if MAX_LINK_BYTES < length (utf8 href) \<or> list_ex (\<lambda>c. is_control c \<or> is_whitespace c) href
      then refuse ''Blocked a link that is malformed.''
      else (case split_once 58 href of
        None \<Rightarrow> refuse ''Blocked a link with no scheme.''
      | Some (scheme, rest) \<Rightarrow>
          (let s = to_ascii_lowercase scheme in
           if (s = lit ''http'' \<or> s = lit ''https'') \<and> starts_with (lit ''//'') rest \<and> 2 < length (utf8 rest)
           then Browser href
           else if s = lit ''mailto'' then mail_link rest
           else if s = ATTACHMENT_SCHEME then attachment_link rest
           else if s = RECONNECT_SCHEME then
             (case parse_usize rest of Some n \<Rightarrow> Reconnect n
              | None \<Rightarrow> refuse ''Blocked a malformed reconnect link.'')
           else Refuse (lit ''Blocked a link that opens '' @ [34] @ s @ lit '':'' @ [34] @
             lit ''; only web and mail links are opened.''))))"

section \<open>What leaves for the browser\<close>

lemma mail_link_not_browser: "mail_link rest \<noteq> Browser u"
  by (simp add: mail_link_def refuse_def Let_def split: prod.splits)

lemma attachment_link_not_browser: "attachment_link rest \<noteq> Browser u"
  by (auto simp: attachment_link_def refuse_def Let_def split: option.splits prod.splits)

text \<open>Only a well-formed web link leaves the application: what is handed to the browser is
  the clicked text without outer blanks, at most 8192 bytes, free of control characters and
  blanks, and starts with \<open>http://\<close> or \<open>https://\<close> in any case with something after it.\<close>

theorem browser_opens_only_web:
  assumes "classify href = Browser u"
  shows "u = trim href \<and> length (utf8 u) \<le> 8192 \<and> (\<forall>c\<in>set u. \<not> is_control c \<and> \<not> is_whitespace c) \<and>
    (\<exists>scheme rest. u = scheme @ lit ''://'' @ rest \<and> rest \<noteq> [] \<and>
       to_ascii_lowercase scheme \<in> {lit ''http'', lit ''https''})"
proof -
  obtain scheme rest where s: "split_once 58 (trim href) = Some (scheme, rest)"
    and ok: "length (utf8 (trim href)) \<le> 8192" "\<not> list_ex (\<lambda>c. is_control c \<or> is_whitespace c) (trim href)"
    using assms by (auto simp: classify_def refuse_def Let_def MAX_LINK_BYTES_def
        split: if_splits option.splits)
  have "u = trim href" and sch: "to_ascii_lowercase scheme \<in> {lit ''http'', lit ''https''}"
    and r: "starts_with (lit ''//'') rest" "2 < length (utf8 rest)"
    using assms s ok mail_link_not_browser attachment_link_not_browser
    by (auto simp: classify_def refuse_def Let_def MAX_LINK_BYTES_def split: if_splits option.splits)
  from r obtain rest' where rest: "rest = lit ''//'' @ rest'" by (auto simp: starts_with_iff)
  with r have "rest' \<noteq> []" by (auto simp: lit_def utf8_def utf8_char_def)
  moreover have "trim href = scheme @ lit ''://'' @ rest'"
    using s by (simp add: split_once_Some rest lit_def)
  ultimately show ?thesis
    using \<open>u = trim href\<close> ok sch by (fastforce simp: list_ex_iff)
qed

theorem browser_opens_only_web_witness:
  "classify (lit ''HTTP://e.com'') = Browser (lit ''HTTP://e.com'') \<and> length (utf8 (lit ''HTTP://e.com'')) \<le> 8192"
proof -
  have "classify (lit ''HTTP://e.com'') = Browser (lit ''HTTP://e.com'')"
    by (simp add: classify_def lit_def trim_def trim_matches_def trim_end_def trim_start_def
        is_whitespace_def is_control_def MAX_LINK_BYTES_def utf8_def utf8_char_def
        to_ascii_lowercase_def lower_char_def starts_with_def)
  with browser_opens_only_web [OF this] show ?thesis by simp
qed

section \<open>The links the header block writes\<close>

lemma length_dec_digits: "n < 10 ^ Suc k \<Longrightarrow> length (dec_digits n) \<le> Suc k"
proof (induction k arbitrary: n)
  case 0
  then show ?case by (subst dec_digits.simps) simp
next
  case (Suc k)
  then have "n div 10 < 10 ^ Suc k" by (simp add: less_mult_imp_div_less)
  with Suc.IH show ?case by (subst dec_digits.simps) simp
qed

lemma digit_chars: "c \<in> set (dec_digits n) \<Longrightarrow> 48 \<le> c \<and> c \<le> 57"
  using dec_digits_is_digit [of n] by (auto simp: list_all_iff is_digit_def)

text \<open>A short text of printable ASCII passes the first test and reaches the scheme.\<close>

lemma classify_plain:
  assumes "\<And>c. c \<in> set s \<Longrightarrow> 33 \<le> c \<and> c < 127" and "length s \<le> 8192"
  shows "trim s = s" and "length (utf8 s) \<le> 8192"
    and "\<not> list_ex (\<lambda>c. is_control c \<or> is_whitespace c) s"
  using assms trim_no_blank [of s] utf8_ascii [of s, unfolded list_all_iff]
  by (fastforce simp: is_whitespace_def is_control_def list_ex_iff)+

lemma printable_href:
  assumes "\<And>c. c \<in> set p \<Longrightarrow> 33 \<le> c \<and> c < 127" and "length p \<le> 40" and "n < 2 ^ 64"
  shows "\<And>c. c \<in> set (p @ dec_digits n) \<Longrightarrow> 33 \<le> c \<and> c < 127" and "length (p @ dec_digits n) \<le> 8192"
  using assms digit_chars [of _ n] length_dec_digits [of n 19] by (fastforce+)

lemma parse_usize_dec: "n < 2 ^ 64 \<Longrightarrow> parse_usize (dec_digits n) = Some n"
  by (simp add: parse_usize_def parse_nat_dec)

lemmas link_names = ATTACHMENT_SCHEME_def RECONNECT_SCHEME_def MAX_LINK_BYTES_def

lemma classify_scheme:
  assumes "\<And>c. c \<in> set (p @ dec_digits n) \<Longrightarrow> 33 \<le> c \<and> c < 127" and "length (p @ dec_digits n) \<le> 8192"
    and "p @ dec_digits n = sch @ 58 # rest" and "58 \<notin> set sch"
  shows "sch = ATTACHMENT_SCHEME \<Longrightarrow> classify (p @ dec_digits n) = attachment_link rest"
    and "sch = RECONNECT_SCHEME \<Longrightarrow> classify (p @ dec_digits n) =
      (case parse_usize rest of Some k \<Rightarrow> Reconnect k | None \<Rightarrow> refuse ''Blocked a malformed reconnect link.'')"
proof -
  have "split_once 58 (p @ dec_digits n) = Some (sch, rest)" by (simp add: split_once_Some assms(3,4))
  note facts = this classify_plain [OF assms(1,2)]
  show "sch = ATTACHMENT_SCHEME \<Longrightarrow> classify (p @ dec_digits n) = attachment_link rest"
    using facts by (simp add: classify_def link_names to_ascii_lowercase_def lower_char_def lit_def)
  show "sch = RECONNECT_SCHEME \<Longrightarrow> classify (p @ dec_digits n) =
      (case parse_usize rest of Some k \<Rightarrow> Reconnect k | None \<Rightarrow> refuse ''Blocked a malformed reconnect link.'')"
    using facts by (simp add: classify_def link_names to_ascii_lowercase_def lower_char_def lit_def)
qed

lemma classify_save:
  assumes "n < 2 ^ 64" shows "classify (save_href n) = SaveAttachment n"
proof -
  let ?p = "ATTACHMENT_SCHEME @ lit '':save/''"
  have p: "\<And>c. c \<in> set ?p \<Longrightarrow> 33 \<le> c \<and> c < 127" "length ?p \<le> 40" by (auto simp: link_names lit_def)
  have "classify (?p @ dec_digits n) = attachment_link (lit ''save/'' @ dec_digits n)"
    by (rule classify_scheme(1) [OF printable_href [OF p assms]]) (auto simp: link_names lit_def)
  also have "\<dots> = SaveAttachment n"
    using parse_usize_dec [OF assms] by (simp add: attachment_link_def lit_def)
  finally show ?thesis by (simp add: save_href_def)
qed

lemma classify_open:
  assumes "n < 2 ^ 64" shows "classify (open_href n) = OpenAttachment n"
proof -
  let ?p = "ATTACHMENT_SCHEME @ lit '':open/''"
  have p: "\<And>c. c \<in> set ?p \<Longrightarrow> 33 \<le> c \<and> c < 127" "length ?p \<le> 40" by (auto simp: link_names lit_def)
  have "classify (?p @ dec_digits n) = attachment_link (lit ''open/'' @ dec_digits n)"
    by (rule classify_scheme(1) [OF printable_href [OF p assms]]) (auto simp: link_names lit_def)
  also have "\<dots> = OpenAttachment n"
    using parse_usize_dec [OF assms] by (simp add: attachment_link_def lit_def)
  finally show ?thesis by (simp add: open_href_def)
qed

lemma classify_reconnect:
  assumes "n < 2 ^ 64" shows "classify (reconnect_href n) = Reconnect n"
proof -
  let ?p = "RECONNECT_SCHEME @ lit '':''"
  have p: "\<And>c. c \<in> set ?p \<Longrightarrow> 33 \<le> c \<and> c < 127" "length ?p \<le> 40" by (auto simp: link_names lit_def)
  have "classify (?p @ dec_digits n) =
      (case parse_usize (dec_digits n) of Some k \<Rightarrow> Reconnect k
       | None \<Rightarrow> refuse ''Blocked a malformed reconnect link.'')"
    by (rule classify_scheme(2) [OF printable_href [OF p assms]]) (auto simp: link_names lit_def)
  with parse_usize_dec [OF assms] show ?thesis by (simp add: reconnect_href_def)
qed

lemma classify_save_all: "classify save_all_href = SaveAllAttachments"
  by (simp add: save_all_href_def classify_def lit_def trim_def trim_matches_def trim_end_def trim_start_def
      is_whitespace_def is_control_def link_names utf8_def utf8_char_def
      to_ascii_lowercase_def lower_char_def attachment_link_def)

text \<open>The links the reading pane writes come back as the actions they stand for: the Save and
  Open link of every attachment, Save all, and the Reconnect link of every account.\<close>

theorem own_links_round_trip:
  assumes "n < 2 ^ 64"
  shows "map classify [save_href n, open_href n, save_all_href, reconnect_href n] =
    [SaveAttachment n, OpenAttachment n, SaveAllAttachments, Reconnect n]"
  using classify_save classify_open classify_reconnect classify_save_all assms by simp

theorem own_links_round_trip_witness: "classify (save_href 12) = SaveAttachment 12"
  using own_links_round_trip [of 12] by simp

section \<open>Percent escapes\<close>

text \<open>The decoder leaves a text without a percent sign as it is, and takes the escape of a byte
  for the byte.\<close>

lemma percent_bytes_plain: "37 \<notin> set bs \<Longrightarrow> percent_bytes bs = bs"
proof (induction bs)
  case (Cons c bs)
  then show ?case by (cases bs; cases "tl bs") simp_all
qed simp

lemma percent_decode_plain: "37 \<notin> set s \<Longrightarrow> list_all (\<lambda>c. c < 128) s \<Longrightarrow> percent_decode s = s"
  using utf8_ascii [of s, unfolded list_all_iff] by (simp add: percent_decode_def percent_bytes_plain from_utf8_lossy_ascii list_all_iff)

definition hex_digit :: "nat \<Rightarrow> byte" where
  "hex_digit n = (if n < 10 then 48 + n else 55 + n)"

definition percent_escape :: "byte \<Rightarrow> byte list" where
  "percent_escape b = [37, hex_digit (b div 16), hex_digit (b mod 16)]"

lemma hex_value_digit: "n < 16 \<Longrightarrow> hex_value (hex_digit n) = Some n"
  by (auto simp: hex_value_def hex_digit_def)

lemma percent_bytes_escape: "b < 256 \<Longrightarrow> percent_bytes (percent_escape b @ bs) = b # percent_bytes bs"
  by (simp add: percent_escape_def u8_from_hex2_def hex_value_digit less_mult_imp_div_less)
     (simp add: hex_digit_def)

theorem percent_decode_escaped:
  assumes "list_all is_scalar s"
  shows "from_utf8_lossy (percent_bytes (concat (map percent_escape (utf8 s)))) = s"
proof -
  have byte: "b < 256" if "b \<in> set (utf8 s)" for b
    using that assms by (auto simp: utf8_def utf8_char_def list_all_iff is_scalar_def split: if_splits)
  have "percent_bytes (concat (map percent_escape bs)) = bs" if "\<And>b. b \<in> set bs \<Longrightarrow> b < 256" for bs
    using that by (induction bs) (simp_all add: percent_bytes_escape)
  with byte from_utf8_lossy_utf8 [OF assms] show ?thesis by simp
qed

text \<open>Rust's integer parser takes a leading plus sign, so \<open>%+A\<close> is read as an escape of the byte
  10, not left as three characters.\<close>

lemma plus_in_escape: "percent_decode (lit ''a%+Ab'') = [97, 10, 98]"
proof -
  have "percent_bytes (utf8 (lit ''a%+Ab'')) = [97, 10, 98]"
    by (simp add: lit_def utf8_def utf8_char_def u8_from_hex2_def hex_value_def)
  then show ?thesis using from_utf8_lossy_ascii [of "[97, 10, 98]"] by (simp add: percent_decode_def)
qed

end
