(* ===== verification/Reading.thy ===== *)
theory Reading
  imports Links Notify Protocol
begin

text \<open>
  The document of the reading pane, \<open>crates/esmail-win32/src/core_glue/reading.rs\<close>: the header
  block of a message, escaped and put in front of its rendered body, and the short notices.  The
  date formatter \<open>fmt\<close> and \<open>fsize\<close> (\<open>format_size\<close>, whose floating point is not modelled) are
  parameters.  The lemmas show that what a message puts into its headers and attachment names
  cannot add markup to the block.
\<close>

section \<open>Colours\<close>

record palette =
  pal_dark :: bool
  pal_background :: u32
  pal_text :: u32
  pal_muted :: u32
  pal_header_background :: u32
  pal_header_border :: u32
  pal_link :: u32

definition LIGHT :: palette where
  "LIGHT = \<lparr>pal_dark = False, pal_background = 0xffffff, pal_text = 0x1a1a1a, pal_muted = 0x555555,
     pal_header_background = 0xf3f3f3, pal_header_border = 0xd8d8d8, pal_link = 0x0b57d0\<rparr>"

definition DARK :: palette where
  "DARK = \<lparr>pal_dark = True, pal_background = 0x202020, pal_text = 0xe6e6e6, pal_muted = 0xb0b0b0,
     pal_header_background = 0x2b2b2b, pal_header_border = 0x3c3c3c, pal_link = 0x8ab4f8\<rparr>"

record appearance =
  ap_palette :: palette
  ap_original_colours :: bool

fun windows :: "nat \<Rightarrow> 'a list \<Rightarrow> 'a list list" where
  "windows n [] = []"
| "windows n (x # xs) = (if n \<le> Suc (length xs) then take n (x # xs) # windows n xs else [])"

definition contains_ignore_case :: "byte list \<Rightarrow> byte list \<Rightarrow> bool" where
  "contains_ignore_case haystack needle =
     list_ex (\<lambda>w. eq_ignore_ascii_case w needle) (windows (length needle) haystack)"

definition sets_own_backgrounds :: "str \<Rightarrow> bool" where
  "sets_own_backgrounds body =
     list_ex (\<lambda>needle. contains_ignore_case (utf8 body) (utf8 needle)) [lit ''background'', lit ''bgcolor'']"

definition themes_body :: "appearance \<Rightarrow> str \<Rightarrow> bool" where
  "themes_body a body \<longleftrightarrow>
     pal_dark (ap_palette a) \<and> \<not> ap_original_colours a \<and> \<not> sets_own_backgrounds body"

definition page_background :: "appearance \<Rightarrow> bool \<Rightarrow> u32" where
  "page_background a themed_body =
     (if themed_body \<or> \<not> pal_dark (ap_palette a) then pal_background (ap_palette a)
      else pal_background LIGHT)"

text \<open>\<open>format!("{:06x}")\<close>.\<close>

definition hex_lower :: "nat \<Rightarrow> uchar" where
  "hex_lower n = (if n < 10 then 48 + n else 87 + n)"

fun hex_digits :: "nat \<Rightarrow> str" where
  "hex_digits n = (if n < 16 then [hex_lower n] else hex_digits (n div 16) @ [hex_lower (n mod 16)])"

declare hex_digits.simps [simp del]

definition hex06 :: "u32 \<Rightarrow> str" where
  "hex06 w = (let d = hex_digits (unat w) in replicate (6 - length d) 48 @ d)"

section \<open>The header block\<close>

definition quoted :: "str \<Rightarrow> str" where
  "quoted s = [34] @ s @ [34]"

definition html_escape_char :: "uchar \<Rightarrow> str" where
  "html_escape_char c =
     (if c = 38 then lit ''&amp;'' else if c = 60 then lit ''&lt;''
      else if c = 62 then lit ''&gt;'' else if c = 34 then lit ''&quot;'' else [c])"

definition html_escape :: "str \<Rightarrow> str" where
  "html_escape s = concat (map html_escape_char s)"

definition html_field :: "string \<Rightarrow> str \<Rightarrow> str" where
  "html_field name v =
     (if v = [] then []
      else lit ''<div class='' @ quoted (lit ''field'') @ lit ''><b>'' @ lit name @ lit '':</b> '' @
        html_escape v @ lit ''</div>'')"

definition attachment_line :: "(nat \<Rightarrow> str) \<Rightarrow> nat \<times> attachment \<Rightarrow> str" where
  "attachment_line fsize = (\<lambda>(n, a).
     lit ''<div class='' @ quoted (lit ''attachment'') @ lit ''><b>'' @ html_escape (at_filename a) @
     lit ''</b> ('' @ fsize (length (at_data a)) @ lit '') <a href='' @ quoted (save_href n) @
     lit ''>Save</a> <a href='' @ quoted (open_href n) @ lit ''>Open</a></div>'')"

definition save_all_line :: str where
  "save_all_line = lit ''<div class='' @ quoted (lit ''attachment'') @ lit ''><a href='' @
     quoted save_all_href @ lit ''>Save all</a></div>''"

definition attachment_list :: "(nat \<Rightarrow> str) \<Rightarrow> attachment list \<Rightarrow> str" where
  "attachment_list fsize attachments =
     (if attachments = [] then []
      else lit ''<div class='' @ quoted (lit ''attachments'') @ lit ''>'' @
        concat (map (attachment_line fsize) (list_enum attachments)) @
        (if length attachments > 1 then save_all_line else []) @ lit ''</div>'')"

definition date_text :: "(str \<Rightarrow> (str \<times> str) option) \<Rightarrow> mail_header \<Rightarrow> str" where
  "date_text fmt header =
     (case fmt (mh_date header) of Some (day, time) \<Rightarrow> day @ lit '' '' @ time | None \<Rightarrow> mh_date header)"

definition header_block ::
  "(str \<Rightarrow> (str \<times> str) option) \<Rightarrow> (nat \<Rightarrow> str) \<Rightarrow> mail_header \<Rightarrow> attachment list \<Rightarrow> str" where
  "header_block fmt fsize header attachments =
     lit ''<div class='' @ quoted (lit ''esmail-head'') @ lit ''><div class='' @ quoted (lit ''subject'') @
     lit ''>'' @ html_escape (if mh_subject header = [] then lit ''(no subject)'' else mh_subject header) @
     lit ''</div>'' @ html_field ''From'' (mh_from header) @ html_field ''To'' (mh_to header) @
     html_field ''Date'' (date_text fmt header) @ attachment_list fsize attachments @ lit ''</div>''"

section \<open>The document\<close>

definition header_style :: "palette \<Rightarrow> str" where
  "header_style p =
     lit ''<style>.esmail-head{background:#'' @ hex06 (pal_header_background p) @
     lit '';border-bottom:1px solid #'' @ hex06 (pal_header_border p) @
     lit '';margin:-12px -12px 12px -12px;padding:12px}.esmail-head .subject{font-size:18px;font-weight:bold;margin-bottom:6px;color:#'' @
     hex06 (pal_text p) @ lit ''}.esmail-head .field{color:#'' @ hex06 (pal_muted p) @
     lit '';font-size:13px}.esmail-head .field b{color:#'' @ hex06 (pal_text p) @
     lit ''}.esmail-head .attachment{font-size:13px;margin-top:4px;color:#'' @ hex06 (pal_muted p) @
     lit ''}.esmail-head a{color:#'' @ hex06 (pal_link p) @ lit ''}</style>''"

definition body_style :: "palette \<Rightarrow> str" where
  "body_style p = lit ''<style>body{background:#'' @ hex06 (pal_background p) @ lit '';color:#'' @
     hex06 (pal_text p) @ lit ''}a{color:#'' @ hex06 (pal_link p) @ lit ''}</style>''"

text \<open>\<open>str::find\<close> of a string, as an index into the chars.\<close>

fun find_str :: "str \<Rightarrow> str \<Rightarrow> nat option" where
  "find_str p [] = (if p = [] then Some 0 else None)"
| "find_str p (c # cs) = (if starts_with p (c # cs) then Some 0 else map_option Suc (find_str p cs))"

definition document ::
  "(str \<Rightarrow> (str \<times> str) option) \<Rightarrow> (nat \<Rightarrow> str) \<Rightarrow> mail_header \<Rightarrow> str \<Rightarrow> attachment list \<Rightarrow>
   palette \<Rightarrow> bool \<Rightarrow> str" where
  "document fmt fsize header body attachments p themed_body =
     (let styles = header_style p @ (if themed_body then body_style p else []);
          block = header_block fmt fsize header attachments
      in case find_str (lit ''</style>'') body of
           Some i \<Rightarrow> (let i = i + length (lit ''</style>'')
                     in take i body @ styles @ block @ drop i body)
         | None \<Rightarrow> styles @ block @ body)"

definition reading_notice :: "str \<Rightarrow> (str \<times> str) option \<Rightarrow> palette \<Rightarrow> str" where
  "reading_notice t action p =
     (let link = (case action of None \<Rightarrow> []
          | Some (label, href) \<Rightarrow>
              lit ''<p><a style='' @ quoted (lit ''color:#'' @ hex06 (pal_link p)) @ lit '' href='' @
              quoted (html_escape href) @ lit ''>'' @ html_escape label @ lit ''</a></p>'')
      in lit ''<!doctype html><meta charset='' @ quoted (lit ''utf-8'') @ lit ''><body style='' @
         quoted (lit ''font-family:'' @ [39] @ lit ''Segoe UI'' @ [39] @ lit '',sans-serif;font-size:14px;color:#'' @
           hex06 (pal_muted p) @ lit '';margin:24px'') @
         lit ''>'' @ html_escape t @ link @ lit ''</body>'')"

section \<open>Escaping\<close>

lemma html_escape_Cons: "html_escape (c # s) = html_escape_char c @ html_escape s"
  by (simp add: html_escape_def)

lemma html_escape_Nil [simp]: "html_escape [] = []"
  by (simp add: html_escape_def)

lemma html_escape_like_xml: "c \<noteq> 39 \<Longrightarrow> html_escape_char c = xml_escape_char c"
  by (simp add: html_escape_char_def xml_escape_char_def)

lemma unescape_plain: "c \<noteq> 38 \<Longrightarrow> xml_unescape (c # s) = c # xml_unescape s"
  by (subst xml_unescape.simps(2)) (simp add: lit_def del: strip_prefix_Some)

lemma unescape_html_escape: "xml_unescape (html_escape s) = s"
proof (induction s)
  case (Cons c s)
  then show ?case
    by (cases "c = 39") (simp_all add: html_escape_Cons html_escape_like_xml xml_unescape_escape_char,
        simp add: html_escape_char_def unescape_plain)
qed simp

lemma html_escape_no_markup: "c \<in> set (html_escape s) \<Longrightarrow> c \<noteq> 60 \<and> c \<noteq> 62 \<and> c \<noteq> 34"
proof (induction s)
  case (Cons d s)
  have "list_all (\<lambda>c. c \<noteq> 60 \<and> c \<noteq> 62 \<and> c \<noteq> 34) (html_escape_char d)"
    by (simp add: html_escape_char_def lit_def)
  with Cons show ?case by (auto simp: html_escape_Cons list_all_iff)
qed simp

section \<open>The markup of a text\<close>

text \<open>The tags of an HTML text, in order: what stands between a \<open><\<close> and the next \<open>></\<close>.\<close>

fun tag_step :: "str option \<times> str list \<Rightarrow> uchar \<Rightarrow> str option \<times> str list" where
  "tag_step (None, out) c = (if c = 60 then (Some [], out) else (None, out))"
| "tag_step (Some t, out) c = (if c = 62 then (None, out @ [t]) else (Some (t @ [c]), out))"

definition scan_tags :: "str \<Rightarrow> str option \<times> str list" where
  "scan_tags s = foldl tag_step (None, []) s"

definition tags :: "str \<Rightarrow> str list" where
  "tags s = snd (scan_tags s)"

definition closed :: "str \<Rightarrow> bool" where
  "closed s \<longleftrightarrow> fst (scan_tags s) = None"

lemma scan_out: "foldl tag_step (st, out) s = (fst (foldl tag_step (st, []) s), out @ snd (foldl tag_step (st, []) s))"
proof (induction s arbitrary: st out)
  case (Cons c s)
  obtain st' o' where step: "tag_step (st, []) c = (st', o')" by fastforce
  then have "tag_step (st, out) c = (st', out @ o')" by (cases st) (auto split: if_splits)
  with step Cons.IH [of st' "out @ o'"] Cons.IH [of st' o'] show ?case by simp
qed simp

lemma closed_append: "closed p \<Longrightarrow> closed (p @ q) = closed q"
  and tags_append: "closed p \<Longrightarrow> tags (p @ q) = tags p @ tags q"
proof -
  assume p: "closed p"
  have "scan_tags (p @ q) = foldl tag_step (None, snd (scan_tags p)) q"
    using p by (simp add: scan_tags_def closed_def) (metis prod.collapse)
  also have "\<dots> = (fst (scan_tags q), snd (scan_tags p) @ snd (scan_tags q))"
    by (subst scan_out) (simp add: scan_tags_def)
  finally show "closed (p @ q) = closed q" "tags (p @ q) = tags p @ tags q"
    by (simp_all add: closed_def tags_def)
qed

text \<open>How the scanner passes the pieces the block is made of.\<close>

lemma scan_text: "(\<And>c. c \<in> set s \<Longrightarrow> c \<noteq> 60) \<Longrightarrow> foldl tag_step (None, out) s = (None, out)"
  by (induction s) auto

lemma scan_inside: "(\<And>c. c \<in> set s \<Longrightarrow> c \<noteq> 62) \<Longrightarrow> foldl tag_step (Some t, out) s = (Some (t @ s), out)"
  by (induction s arbitrary: t) auto

lemma scan_escape [simp]: "foldl tag_step (None, out) (html_escape s) = (None, out)"
  using html_escape_no_markup [of _ s] by (intro scan_text) auto

lemma href_chars: "c \<in> set (save_href n) \<union> set (open_href n) \<union> set save_all_href \<Longrightarrow> c \<noteq> 60 \<and> c \<noteq> 62 \<and> c \<noteq> 34"
  using digit_chars [of c n]
  by (auto simp: save_href_def open_href_def save_all_href_def ATTACHMENT_SCHEME_def lit_def)

lemma scan_href [simp]:
  "foldl tag_step (Some t, out) (save_href n) = (Some (t @ save_href n), out)"
  "foldl tag_step (Some t, out) (open_href n) = (Some (t @ open_href n), out)"
  "foldl tag_step (Some t, out) save_all_href = (Some (t @ save_all_href), out)"
  using href_chars [of _ n] by (auto intro!: scan_inside)

definition div_tag :: "string \<Rightarrow> str" where
  "div_tag c = lit ''div class='' @ quoted (lit c)"

definition link_tag :: "str \<Rightarrow> str" where
  "link_tag href = lit ''a href='' @ quoted href"

definition field_tags :: "str \<Rightarrow> str list" where
  "field_tags v = (if v = [] then [] else [div_tag ''field'', lit ''b'', lit ''/b'', lit ''/div''])"

lemma scan_field:
  assumes "\<And>c. c \<in> set (lit name) \<Longrightarrow> c \<noteq> 60"
  shows "foldl tag_step (None, out) (html_field name v) = (None, out @ field_tags v)"
proof -
  have "foldl tag_step (None, o') (map of_char name) = (None, o')" for o'
    using scan_text [of "lit name"] assms by (simp add: lit_def)
  then show ?thesis
    by (simp add: html_field_def field_tags_def div_tag_def quoted_def lit_def)
qed

definition line_tags :: "nat \<Rightarrow> str list" where
  "line_tags n = [div_tag ''attachment'', lit ''b'', lit ''/b'', link_tag (save_href n), lit ''/a'',
     link_tag (open_href n), lit ''/a'', lit ''/div'']"

definition plain_sizes :: "(nat \<Rightarrow> str) \<Rightarrow> bool" where
  "plain_sizes fsize \<longleftrightarrow> (\<forall>n. 60 \<notin> set (fsize n))"

lemma scan_line:
  assumes "plain_sizes fsize"
  shows "foldl tag_step (None, out) (attachment_line fsize (n, a)) = (None, out @ line_tags n)"
proof -
  have "foldl tag_step (None, o') (fsize k) = (None, o')" for o' k
    using assms by (intro scan_text) (auto simp: plain_sizes_def)
  then show ?thesis
    by (simp add: attachment_line_def line_tags_def div_tag_def link_tag_def quoted_def)
      (simp add: lit_def)
qed

lemma scan_lines:
  assumes "plain_sizes fsize"
  shows "foldl tag_step (None, out) (concat (map (attachment_line fsize) xs)) =
    (None, out @ concat (map (line_tags \<circ> fst) xs))"
  by (induction xs arbitrary: out) (auto simp: scan_line [OF assms])

definition list_tags :: "nat \<Rightarrow> str list" where
  "list_tags n =
     (if n = 0 then []
      else div_tag ''attachments'' # concat (map line_tags [0..<n]) @
        (if n > 1 then [div_tag ''attachment'', link_tag save_all_href, lit ''/a'', lit ''/div''] else []) @
        [lit ''/div''])"

lemma map_fst_list_enum: "map (f \<circ> fst) (list_enum xs) = map f [0..<length xs]"
  by (simp add: list_enum_def map_map [symmetric] del: map_map)

lemma scan_save_all:
  "foldl tag_step (None, out) save_all_line =
     (None, out @ [div_tag ''attachment'', link_tag save_all_href, lit ''/a'', lit ''/div''])"
  by (simp add: save_all_line_def div_tag_def link_tag_def quoted_def) (simp add: lit_def)

lemma scan_list:
  assumes "plain_sizes fsize"
  shows "foldl tag_step (None, out) (attachment_list fsize attachments) =
    (None, out @ list_tags (length attachments))"
proof -
  have open_div: "foldl tag_step (None, o') (lit ''<div class='' @ quoted (lit ''attachments'') @ lit ''>'') =
      (None, o' @ [div_tag ''attachments''])" for o'
    by (simp add: div_tag_def quoted_def lit_def)
  have close_div: "foldl tag_step (None, o') (lit ''</div>'') = (None, o' @ [lit ''/div''])" for o'
    by (simp add: lit_def)
  show ?thesis
    using open_div [of out] close_div
    by (simp add: attachment_list_def list_tags_def scan_lines [OF assms] map_fst_list_enum scan_save_all)
qed

text \<open>Nothing a message puts into its subject, addresses, date or attachment names becomes
  markup of the pane: the tags of the header block are the ones the code writes, determined by
  which fields are empty and how many attachments there are, and none is left open.\<close>

theorem header_block_markup:
  assumes "plain_sizes fsize"
  shows "scan_tags (header_block fmt fsize header attachments) =
    (None, [div_tag ''esmail-head'', div_tag ''subject'', lit ''/div''] @ field_tags (mh_from header) @
       field_tags (mh_to header) @ field_tags (date_text fmt header) @ list_tags (length attachments) @
       [lit ''/div''])"
proof -
  have head: "foldl tag_step (None, []) (lit ''<div class='' @ quoted (lit ''esmail-head'') @
      lit ''><div class='' @ quoted (lit ''subject'') @ lit ''>'') =
      (None, [div_tag ''esmail-head'', div_tag ''subject''])"
    by (simp add: div_tag_def quoted_def lit_def)
  have close_div: "foldl tag_step (None, o') (lit ''</div>'') = (None, o' @ [lit ''/div''])" for o'
    by (simp add: lit_def)
  have names: "c \<noteq> 60" if "c \<in> set (lit ''From'') \<union> set (lit ''To'') \<union> set (lit ''Date'')" for c
    using that by (auto simp: lit_def)
  show ?thesis
    using head names
    by (simp add: header_block_def scan_tags_def close_div scan_field scan_list [OF assms])
qed

definition hostile_header :: mail_header where
  "hostile_header = \<lparr>mh_uid = 1, mh_subject = lit ''<b>'', mh_from = lit ''</div>'', mh_to = [], mh_date = [],
     mh_message_id = [], mh_flags = []\<rparr>"

theorem header_block_markup_witness:
  "length (snd (scan_tags (header_block (\<lambda>_. None) (\<lambda>n. dec_digits n) hostile_header []))) = 8"
proof -
  have "plain_sizes (\<lambda>n. dec_digits n)" using digit_chars by (fastforce simp: plain_sizes_def)
  from header_block_markup [OF this, of "\<lambda>_. None" hostile_header "[]"] show ?thesis
    by (simp add: hostile_header_def field_tags_def date_text_def list_tags_def)
qed

section \<open>Where the block goes\<close>

lemma find_str_Some: "find_str p s = Some i \<Longrightarrow> i + length p \<le> length s \<and> take (length p) (drop i s) = p"
proof (induction p s arbitrary: i rule: find_str.induct)
  case (2 p c cs)
  show ?case
  proof (cases "starts_with p (c # cs)")
    case True
    with 2 show ?thesis by (auto simp: starts_with_iff) (metis append_eq_conv_conj length_append le_add1 length_Cons)
  next
    case False
    with 2 show ?thesis by auto
  qed
qed (auto split: if_splits)

text \<open>The body is kept whole: the styles and the block go in as one piece, after the body's first
  style sheet or before everything.\<close>

theorem document_keeps_body:
  "\<exists>pre post. body = pre @ post \<and>
     document fmt fsize header body attachments p themed = pre @ header_style p @
       (if themed then body_style p else []) @ header_block fmt fsize header attachments @ post \<and>
     (pre = [] \<or> (\<exists>before. pre = before @ lit ''</style>''))"
proof (cases "find_str (lit ''</style>'') body")
  case None
  then show ?thesis by (intro exI [of _ "[]"] exI [of _ body]) (simp add: document_def)
next
  case (Some i)
  let ?i = "i + length (lit ''</style>'')"
  have "take ?i body = take i body @ lit ''</style>''"
    using find_str_Some [OF Some] by (simp add: take_add)
  then have "\<exists>before. take ?i body = before @ lit ''</style>''" by blast
  then show ?thesis
    using Some by (intro exI [of _ "take ?i body"] exI [of _ "drop ?i body"]) (simp add: document_def Let_def)
qed

text \<open>A light palette never recolours a message, and neither does the choice of original colours.\<close>

lemma original_colours_kept:
  "\<not> pal_dark (ap_palette a) \<or> ap_original_colours a \<Longrightarrow> \<not> themes_body a body"
  by (auto simp: themes_body_def)

end
