(* ===== verification/Panes.thy ===== *)
theory Panes
  imports Auth Config Notify Protocol
begin

unbundle bit_operations_syntax

text \<open>
  The small decisions the window's panes rest on, from \<open>crates/esmail-win32/src/core_glue/\<close>:
  which remote images are fetched (\<open>images.rs\<close>), which senders are trusted with them
  (\<open>trust.rs\<close>), which account needs attention (\<open>attention.rs\<close>), the rows of the Drafts and
  Outbox windows (\<open>queues.rs\<close>), the tray (\<open>resident.rs\<close>), the View choices (\<open>settings.rs\<close>) and
  the saved window placement (\<open>window_state.rs\<close>).  Time zones and the network are parameters.
\<close>

section \<open>Remote images\<close>

text \<open>\<open>&url[..n]\<close> of a byte index: a panic (\<open>None\<close>) unless it lies on a char boundary.\<close>

definition char_boundary :: "byte list \<Rightarrow> nat \<Rightarrow> bool" where
  "char_boundary bs n \<longleftrightarrow> n \<le> length bs \<and> (n < length bs \<longrightarrow> \<not> is_cont (bs ! n))"

definition byte_prefix :: "byte list \<Rightarrow> nat \<Rightarrow> byte list option" where
  "byte_prefix bs n = (if char_boundary bs n then Some (take n bs) else None)"

definition has_scheme :: "str \<Rightarrow> str \<Rightarrow> bool option" where
  "has_scheme url scheme =
     (if length (utf8 scheme) < length (utf8 url)
      then map_option (\<lambda>p. eq_ignore_ascii_case p (utf8 scheme)) (byte_prefix (utf8 url) (length (utf8 scheme)))
      else Some False)"

fun any_scheme :: "str \<Rightarrow> str list \<Rightarrow> bool option" where
  "any_scheme url [] = Some False"
| "any_scheme url (s # ss) =
     (case has_scheme url s of None \<Rightarrow> None
      | Some True \<Rightarrow> Some True
      | Some False \<Rightarrow> any_scheme url ss)"

text \<open>\<open>fetch\<close>: the outer \<open>None\<close> is a panic, the inner one no image; the network is \<open>get\<close>.\<close>

definition fetch_image :: "(str \<Rightarrow> byte list option) \<Rightarrow> str \<Rightarrow> byte list option option" where
  "fetch_image get url =
     (case any_scheme url [lit ''http://'', lit ''https://''] of
        None \<Rightarrow> None
      | Some False \<Rightarrow> Some None
      | Some True \<Rightarrow> Some (get url))"

section \<open>Trusted senders\<close>

definition sender_trusted :: "config \<Rightarrow> mail_header \<Rightarrow> bool" where
  "sender_trusted cfg header =
     (case sender_address header of Some addr \<Rightarrow> is_image_trusted addr cfg | None \<Rightarrow> False)"

definition set_sender_trusted :: "mail_header \<Rightarrow> bool \<Rightarrow> config \<Rightarrow> bool \<times> config" where
  "set_sender_trusted header trusted cfg =
     (case sender_address header of Some addr \<Rightarrow> set_image_trusted addr trusted cfg | None \<Rightarrow> (False, cfg))"

definition MAX_BUTTON_NAME :: nat where "MAX_BUTTON_NAME = 24"
definition MAX_REASON :: nat where "MAX_REASON = 60"

definition cut_to :: "nat \<Rightarrow> str \<Rightarrow> str" where
  "cut_to n s = (if length s \<le> n then s else take (n - 1) s @ [ellipsis])"

definition button_name :: "str \<Rightarrow> str" where
  "button_name name = cut_to MAX_BUTTON_NAME name"

definition shorten :: "str \<Rightarrow> str" where
  "shorten reason = cut_to MAX_REASON reason"

section \<open>Which account needs attention\<close>

record attention_notice =
  an_account :: nat
  an_text :: str
  an_action :: str
  an_others :: nat

definition failure_of :: "str option list \<Rightarrow> nat \<Rightarrow> str option" where
  "failure_of failures i = (if i < length failures then failures ! i else None)"

definition account_attention :: "str option list \<Rightarrow> int \<Rightarrow> nat \<times> account_config \<Rightarrow> (nat \<times> str \<times> str) option" where
  "account_attention failures now = (\<lambda>(index, account).
     (let google = (ac_auth account = GoogleOAuth) in
      case failure_of failures index of
        Some error \<Rightarrow>
          (let first_line = shorten (case str_lines error of l # _ \<Rightarrow> l | [] \<Rightarrow> [])
           in Some (index, ac_display_name account @ lit '': could not sign in: '' @ first_line,
                if google then lit ''Sign in again...'' else lit ''Reconnect...''))
      | None \<Rightarrow>
          if google \<and> refresh_token_expiring_soon (ac_oauth_token_issued_at account) now
          then Some (index, ac_display_name account @ lit '': Google sign-in expires soon.'', lit ''Sign in again...'')
          else None))"

definition attention :: "account_config list \<Rightarrow> str option list \<Rightarrow> int \<Rightarrow> attention_notice option" where
  "attention accounts failures now =
     (let found = filter_map (account_attention failures now) (list_enum accounts);
          first = (case position (\<lambda>(index, _). failure_of failures index \<noteq> None) found of Some i \<Rightarrow> i | None \<Rightarrow> 0)
      in if found = [] then None
         else (let (account, t, action) = found ! first
               in Some \<lparr>an_account = account, an_text = t, an_action = action, an_others = length found - 1\<rparr>))"

section \<open>The Drafts and Outbox windows\<close>

record queue_row =
  qr_id :: int
  qr_subject :: str
  qr_to :: str
  qr_detail :: str
  qr_status :: str
  qr_failed :: bool

definition or_placeholder :: "str \<Rightarrow> string \<Rightarrow> str" where
  "or_placeholder t placeholder = (if trim t = [] then lit placeholder else t)"

definition dec_int :: "int \<Rightarrow> str" where
  "dec_int i = (if i < 0 then 45 # dec_digits (nat (- i)) else dec_digits (nat i))"

definition draft_rows :: "(int \<Rightarrow> str) \<Rightarrow> draft_summary list \<Rightarrow> queue_row list" where
  "draft_rows saved_at drafts =
     map (\<lambda>draft. \<lparr>qr_id = ds_id draft, qr_subject = or_placeholder (ds_subject draft) ''(no subject)'',
        qr_to = or_placeholder (ds_to draft) ''(no recipient)'', qr_detail = saved_at (ds_updated_at draft),
        qr_status = [], qr_failed = False\<rparr>) drafts"

definition outbox_status :: "outbox_item \<Rightarrow> str" where
  "outbox_status item =
     (if oi_attempts item = 0 then lit ''Waiting to send''
      else (case oi_last_error item of
        Some error \<Rightarrow> lit ''Retried '' @ dec_int (oi_attempts item) @ lit '' time(s): '' @ error
      | None \<Rightarrow> lit ''Retried '' @ dec_int (oi_attempts item) @ lit '' time(s)''))"

definition outbox_window_rows :: "outbox_item list \<Rightarrow> account_config list \<Rightarrow> queue_row list" where
  "outbox_window_rows items accounts =
     map (\<lambda>item. \<lparr>qr_id = oi_id item, qr_subject = or_placeholder (cs_subject (oi_compose item)) ''(no subject)'',
        qr_to = or_placeholder (cs_to (oi_compose item)) ''(no recipient)'',
        qr_detail = (case find (\<lambda>a. ac_id a = oi_account_id item) accounts of
            Some a \<Rightarrow> ac_display_name a | None \<Rightarrow> oi_account_id item),
        qr_status = outbox_status item, qr_failed = (oi_attempts item > 0)\<rparr>) items"

section \<open>The tray\<close>

definition tray_tooltip :: "u32 \<Rightarrow> str" where
  "tray_tooltip unread =
     (if unread = 0 then lit ''esMail''
      else lit ''esMail '' @ [8212] @ lit '' '' @ dec_u32 unread @ lit '' unread'')"

definition account_index :: "account_config list \<Rightarrow> str \<Rightarrow> nat option" where
  "account_index accounts i = position (\<lambda>a. ac_id a = i) accounts"

text \<open>The request file a second launch leaves, in the set of file names of the directory.\<close>

definition COMPOSE_REQUEST :: str where "COMPOSE_REQUEST = lit ''compose.request''"

definition send_compose_request :: "str set \<Rightarrow> str set" where
  "send_compose_request dir = insert COMPOSE_REQUEST dir"

definition take_compose_request :: "str set \<Rightarrow> bool \<times> str set" where
  "take_compose_request dir = (COMPOSE_REQUEST \<in> dir, dir - {COMPOSE_REQUEST})"

definition discard_compose_request :: "str set \<Rightarrow> str set" where
  "discard_compose_request dir = dir - {COMPOSE_REQUEST}"

section \<open>Choices kept between runs\<close>

datatype theme_choice = ThemeLight | ThemeDark | ThemeSystem

fun choice_label :: "theme_choice \<Rightarrow> str" where
  "choice_label ThemeLight = lit ''Light''"
| "choice_label ThemeDark = lit ''Dark''"
| "choice_label ThemeSystem = lit ''System''"

fun choice_next :: "theme_choice \<Rightarrow> theme_choice" where
  "choice_next ThemeLight = ThemeDark"
| "choice_next ThemeDark = ThemeSystem"
| "choice_next ThemeSystem = ThemeLight"

record win_settings =
  ws_theme :: theme_choice
  ws_remote_images :: bool
  ws_close_to_tray :: bool
  ws_original_colours :: bool
  ws_collapsed_folders :: "str set"

definition win_settings_default :: win_settings where
  "win_settings_default = \<lparr>ws_theme = ThemeSystem, ws_remote_images = False, ws_close_to_tray = True,
     ws_original_colours = False, ws_collapsed_folders = {}\<rparr>"

definition win_set_folder_collapsed :: "str \<Rightarrow> str \<Rightarrow> bool \<Rightarrow> win_settings \<Rightarrow> bool \<times> win_settings" where
  "win_set_folder_collapsed account_id key collapsed s =
     (let entry = collapsed_folder_key account_id key in
      if collapsed then (entry \<notin> ws_collapsed_folders s,
        s\<lparr>ws_collapsed_folders := insert entry (ws_collapsed_folders s)\<rparr>)
      else (entry \<in> ws_collapsed_folders s,
        s\<lparr>ws_collapsed_folders := ws_collapsed_folders s - {entry}\<rparr>))"

text \<open>The two widths are \<open>f32\<close>, by their bits: finite when the exponent is not all ones, positive
  when the sign is clear and the value is not zero.\<close>

record window_state =
  wst_bounds :: "(int \<times> int \<times> int \<times> int) option"
  wst_maximized :: bool
  wst_folders_width :: "u32 option"
  wst_list_width :: "u32 option"

definition f32_is_finite :: "u32 \<Rightarrow> bool" where
  "f32_is_finite w \<longleftrightarrow> w AND 0x7f800000 \<noteq> 0x7f800000"

definition f32_is_positive :: "u32 \<Rightarrow> bool" where
  "f32_is_positive w \<longleftrightarrow> w AND 0x80000000 = 0 \<and> w \<noteq> 0"

definition usable_width :: "u32 option \<Rightarrow> bool" where
  "usable_width width = (case width of None \<Rightarrow> True | Some w \<Rightarrow> f32_is_finite w \<and> f32_is_positive w)"

definition sanitized :: "window_state \<Rightarrow> window_state" where
  "sanitized s =
     (let s = (case wst_bounds s of
          Some (x1, y1, x2, y2) \<Rightarrow> if x2 \<le> x1 \<or> y2 \<le> y1 then s\<lparr>wst_bounds := None\<rparr> else s
        | None \<Rightarrow> s);
          s = (if usable_width (wst_folders_width s) then s else s\<lparr>wst_folders_width := None\<rparr>)
      in if usable_width (wst_list_width s) then s else s\<lparr>wst_list_width := None\<rparr>)"

section \<open>What is fetched\<close>

lemma has_scheme_True:
  assumes "has_scheme url scheme = Some True" and "list_all (\<lambda>c. c < 128) scheme"
  shows "eq_ignore_ascii_case (take (length scheme) (utf8 url)) scheme"
proof -
  have "utf8 scheme = scheme" using assms(2) by (induction scheme) (simp_all add: utf8_Cons utf8_char_def)
  with assms(1) show ?thesis by (auto simp: has_scheme_def byte_prefix_def split: if_splits)
qed

text \<open>Only a web address is ever fetched: when an image comes back, its address began with
  \<open>http://\<close> or \<open>https://\<close>, in any case.\<close>

theorem only_web_images:
  assumes "fetch_image get url = Some (Some bytes)"
  shows "\<exists>scheme \<in> {lit ''http://'', lit ''https://''}.
    eq_ignore_ascii_case (take (length scheme) (utf8 url)) scheme"
proof -
  have "any_scheme url [lit ''http://'', lit ''https://''] = Some True"
    using assms by (auto simp: fetch_image_def split: option.splits bool.splits)
  then have "has_scheme url (lit ''http://'') = Some True \<or> has_scheme url (lit ''https://'') = Some True"
    by (auto split: option.splits bool.splits)
  then show ?thesis
    using has_scheme_True [of url "lit ''http://''"] has_scheme_True [of url "lit ''https://''"]
    by (auto simp: lit_def)
qed

theorem only_web_images_witness:
  "eq_ignore_ascii_case (take 7 (utf8 (lit ''HTTP://a''))) (lit ''http://'')"
proof -
  have "fetch_image (\<lambda>_. Some [1]) (lit ''HTTP://a'') = Some (Some [1])"
    by (simp add: fetch_image_def has_scheme_def byte_prefix_def char_boundary_def is_cont_def utf8_def
        utf8_char_def lit_def eq_ignore_ascii_case_def to_ascii_lowercase_def lower_char_def)
  from only_web_images [OF this] show ?thesis
    by (auto simp: lit_def utf8_def utf8_char_def eq_ignore_ascii_case_def to_ascii_lowercase_def lower_char_def)
qed

text \<open>An address whose seventh byte is in the middle of a char panics instead of being left
  alone: the test slices the text at the length of a scheme without asking for a char boundary,
  and a relative image address of a message may hold any char.\<close>

theorem image_address_panics:
  "fetch_image get (lit ''images'' @ [233] @ lit ''.png'') = None"
  by (simp add: fetch_image_def has_scheme_def byte_prefix_def char_boundary_def is_cont_def utf8_def
      utf8_char_def lit_def)

text \<open>ASCII addresses never panic.\<close>

lemma ascii_never_panics:
  assumes "list_all (\<lambda>c. c < 128) url"
  shows "fetch_image get url \<noteq> None"
proof -
  have "utf8 url = url" using assms by (induction url) (simp_all add: utf8_Cons utf8_char_def)
  with assms have "has_scheme url s \<noteq> None" for s
    by (auto simp: has_scheme_def byte_prefix_def char_boundary_def is_cont_def list_all_length)
  then have "any_scheme url ss \<noteq> None" for ss
    by (induction ss) (auto split: option.splits bool.splits)
  then obtain b where "any_scheme url [lit ''http://'', lit ''https://''] = Some b" by blast
  then show ?thesis unfolding fetch_image_def by (cases b) simp_all
qed

section \<open>Attention\<close>

definition needs_attention :: "str option list \<Rightarrow> int \<Rightarrow> account_config \<Rightarrow> nat \<Rightarrow> bool" where
  "needs_attention failures now account i \<longleftrightarrow>
     failure_of failures i \<noteq> None \<or>
     ac_auth account = GoogleOAuth \<and> refresh_token_expiring_soon (ac_oauth_token_issued_at account) now"

lemma account_attention_Some:
  "account_attention failures now (i, a) \<noteq> None \<longleftrightarrow> needs_attention failures now a i"
  by (auto simp: account_attention_def needs_attention_def split: option.splits if_splits)

lemma account_attention_index:
  "account_attention failures now (i, a) = Some (j, t, b) \<Longrightarrow> j = i"
  by (auto simp: account_attention_def Let_def split: option.splits if_splits)

lemma found_indices:
  "map fst (filter_map (account_attention failures now) xs) =
     map fst (filter (\<lambda>(i, a). needs_attention failures now a i) xs)"
proof (induction xs)
  case (Cons x xs)
  obtain i a where "x = (i, a)" by fastforce
  with Cons account_attention_Some [of failures now i a] account_attention_index [of failures now i a]
  show ?case by (cases "account_attention failures now (i, a)") auto
qed simp

definition needing :: "account_config list \<Rightarrow> str option list \<Rightarrow> int \<Rightarrow> nat list" where
  "needing accounts failures now =
     filter (\<lambda>i. needs_attention failures now (accounts ! i) i) [0..<length accounts]"

lemma found_needing:
  "map fst (filter_map (account_attention failures now) (list_enum accounts)) = needing accounts failures now"
proof -
  have "filter (\<lambda>(i, a). needs_attention failures now a i) (list_enum accounts) =
      filter (\<lambda>(i, a). needs_attention failures now (accounts ! i) i) (list_enum accounts)"
    by (rule filter_cong) (auto simp: list_enum_def set_zip)
  also have "map fst \<dots> = filter (\<lambda>i. needs_attention failures now (accounts ! i) i) (map fst (list_enum accounts))"
    by (simp add: filter_map comp_def case_prod_beta')
  finally show ?thesis by (simp add: found_indices needing_def list_enum_def)
qed

lemma nth_found:
  assumes "found = filter_map (account_attention failures now) (list_enum accounts)" and "i < length found"
  shows "fst (found ! i) = needing accounts failures now ! i"
  using assms found_needing [of failures now accounts] by (metis nth_map)

lemma position_hd_filter: "position P xs = Some i \<Longrightarrow> filter P xs \<noteq> [] \<and> hd (filter P xs) = xs ! i"
  by (induction xs arbitrary: i) (auto split: if_splits)

lemma first_or_head:
  assumes "xs \<noteq> []"
  shows "xs ! (case position P xs of Some i \<Rightarrow> i | None \<Rightarrow> 0) = hd (filter P xs @ xs)"
proof (cases "position P xs")
  case None
  then have "filter P xs = []" by (simp add: position_None filter_empty_conv)
  with None assms show ?thesis by (simp add: hd_conv_nth)
next
  case (Some i)
  then show ?thesis using position_hd_filter [OF Some] by simp
qed

lemma position_map_fst: "position (\<lambda>(i, _). P i) xs = position P (map fst xs)"
  by (induction xs) auto

text \<open>The notice bar names an account exactly when one needs attention, and one that cannot
  sign in before one whose token is about to expire: the named account is the first failure, or
  without failures the first expiring one, and the count is that of all the others.\<close>

theorem attention_priority:
  "map_option (\<lambda>n. (an_account n, an_others n)) (attention accounts failures now) =
     (let ns = needing accounts failures now;
          failing = filter (\<lambda>i. failure_of failures i \<noteq> None) ns
      in if ns = [] then None
         else Some (hd (failing @ ns), length ns - 1))"
proof -
  define found where "found = filter_map (account_attention failures now) (list_enum accounts)"
  let ?ns = "needing accounts failures now"
  let ?P = "\<lambda>i. failure_of failures i \<noteq> None"
  let ?first = "case position ?P ?ns of Some i \<Rightarrow> i | None \<Rightarrow> 0"
  have map: "map fst found = ?ns" unfolding found_def by (rule found_needing)
  have len: "length found = length ?ns" and nil: "found = [] \<longleftrightarrow> ?ns = []"
    using arg_cong [OF map, of length] by auto
  have at: "attention accounts failures now =
      (if found = [] then None
       else (let (account, t, action) = found ! ?first
             in Some \<lparr>an_account = account, an_text = t, an_action = action, an_others = length found - 1\<rparr>))"
    by (simp add: attention_def Let_def position_map_fst map [symmetric] flip: found_def)
  have "?first < length ?ns" if "?ns \<noteq> []"
    using that by (auto simp: position_Some split: option.splits)
  then have "fst (found ! ?first) = hd (filter ?P ?ns @ ?ns)" if "?ns \<noteq> []"
    using that first_or_head [OF that, of ?P] nth_found [OF found_def] len by simp
  with at len nil show ?thesis by (cases "found ! ?first") (auto simp: Let_def)
qed

section \<open>The tray and the saved choices\<close>

text \<open>A request is answered once.\<close>

lemma compose_request_once:
  "fst (take_compose_request (send_compose_request dir))"
  "\<not> fst (take_compose_request (snd (take_compose_request dir)))"
  "\<not> fst (take_compose_request (discard_compose_request dir))"
  by (simp_all add: take_compose_request_def send_compose_request_def discard_compose_request_def)

lemma account_index_exact:
  "account_index accounts i = Some k \<Longrightarrow> k < length accounts \<and> ac_id (accounts ! k) = i"
  by (simp add: account_index_def position_Some)

text \<open>Trusting the sender of a message trusts every message of that address, in whatever case.\<close>

lemma trusted_after:
  assumes "sender_address h = Some a" and "sender_address h' = Some b"
  shows "sender_trusted (snd (set_sender_trusted h t cfg)) h' =
    (if eq_ignore_ascii_case a b then t else sender_trusted cfg h')"
  using assms set_image_trusted_iff [of b a t cfg] by (simp add: sender_trusted_def set_sender_trusted_def)

lemma no_address_never_trusted:
  "sender_address h = None \<Longrightarrow> \<not> sender_trusted cfg h \<and> set_sender_trusted h t cfg = (False, cfg)"
  by (simp add: sender_trusted_def set_sender_trusted_def)

text \<open>A restored window state is one a window can have.\<close>

definition window_ok :: "window_state \<Rightarrow> bool" where
  "window_ok s \<longleftrightarrow>
     (case wst_bounds s of Some (x1, y1, x2, y2) \<Rightarrow> x1 < x2 \<and> y1 < y2 | None \<Rightarrow> True) \<and>
     usable_width (wst_folders_width s) \<and> usable_width (wst_list_width s)"

theorem sanitized_spec:
  "window_ok (sanitized s) \<and> (window_ok s \<longrightarrow> sanitized s = s) \<and>
   wst_maximized (sanitized s) = wst_maximized s"
  by (cases s rule: window_state.cases)
    (simp add: window_ok_def sanitized_def Let_def usable_width_def split: option.splits prod.splits)

lemma choice_cycle: "choice_next (choice_next (choice_next c)) = c"
  by (cases c) simp_all

end
