(* ===== verification/Files.thy ===== *)
theory Files
  imports ViewModel Protocol
begin

text \<open>
  Attachment files, \<open>crates/esmail-win32/src/core_glue/files.rs\<close>: reading one to send, and
  writing received ones.  The disk is a map from the names the file system distinguishes (the
  parameter \<open>key\<close>: Windows does not tell upper from lower case) to contents; which writes it
  refuses is part of it, and the text of an operating-system error is the parameter \<open>os_error\<close>.
  The lemmas show that saving terminates and never overwrites a file.
\<close>

section \<open>Paths and the disk\<close>

text \<open>\<open>Path::join\<close> of a name without separators: a name with a drive prefix replaces the
  directory.\<close>

definition is_sep :: "uchar \<Rightarrow> bool" where
  "is_sep c \<longleftrightarrow> c = 47 \<or> c = 92"

definition has_drive :: "str \<Rightarrow> bool" where
  "has_drive p = (case p of d # c # _ \<Rightarrow> c = 58 \<and> ((65 \<le> d \<and> d \<le> 90) \<or> (97 \<le> d \<and> d \<le> 122)) | _ \<Rightarrow> False)"

definition path_join :: "str \<Rightarrow> str \<Rightarrow> str" where
  "path_join dir name =
     (if has_drive name then name
      else if dir = [] \<or> is_sep (last dir) then dir @ name else dir @ [92] @ name)"

text \<open>\<open>Path::file_name\<close>: the last component, unless the path ends in a root, a prefix or
  \<open>..\<close>.\<close>

definition path_file_name :: "str \<Rightarrow> str option" where
  "path_file_name p =
     (let p = (if has_drive p then drop 2 p else p);
          parts = filter (\<lambda>c. c \<noteq> [] \<and> c \<noteq> lit ''.'') (split_on is_sep p)
      in if parts = [] \<or> last parts = lit ''..'' then None else Some (last parts))"

record disk =
  dk_files :: "str \<rightharpoonup> byte list"
  dk_dirs :: "str set"
  dk_refused :: "str set"

type_synonym folding = "str \<Rightarrow> str"

definition path_exists :: "folding \<Rightarrow> disk \<Rightarrow> str \<Rightarrow> bool" where
  "path_exists key d p \<longleftrightarrow> dk_files d (key p) \<noteq> None \<or> key p \<in> dk_dirs d"

section \<open>Operations\<close>

definition MAX_ATTACHMENT_BYTES :: nat where "MAX_ATTACHMENT_BYTES = 18 * 1024 * 1024"

definition mebibytes :: "nat \<Rightarrow> str" where
  "mebibytes n = dec_digits (n div 2 ^ 20)"

definition read_attachment :: "folding \<Rightarrow> str \<Rightarrow> str \<Rightarrow> disk \<Rightarrow> str + str \<times> byte list" where
  "read_attachment key os_error path d =
     (case path_file_name path of
        None \<Rightarrow> Inl (path @ lit '' is not a file'')
      | Some name \<Rightarrow>
          (case dk_files d (key path) of
             None \<Rightarrow> Inl (lit ''Cannot read '' @ name @ lit '': '' @ os_error)
           | Some data \<Rightarrow>
               if length data > MAX_ATTACHMENT_BYTES
               then Inl (name @ lit '' is too large to attach ('' @ mebibytes (length data) @
                 lit '' MB; the limit is '' @ mebibytes MAX_ATTACHMENT_BYTES @ lit '' MB).'')
               else Inr (name, data)))"

definition save_attachment :: "folding \<Rightarrow> str \<Rightarrow> str \<Rightarrow> attachment \<Rightarrow> disk \<Rightarrow> (str + unit) \<times> disk" where
  "save_attachment key os_error path a d =
     (if key path \<in> dk_refused d \<or> key path \<in> dk_dirs d
      then (Inl (lit ''Cannot write '' @ path @ lit '': '' @ os_error), d)
      else (Inr (), d\<lparr>dk_files := (dk_files d)(key path \<mapsto> at_data a)\<rparr>))"

definition rsplit_dot :: "str \<Rightarrow> (str \<times> str) option" where
  "rsplit_dot s = map_option (\<lambda>i. (take i s, drop (Suc i) s)) (rfind_char 46 s)"

definition name_parts :: "str \<Rightarrow> str \<times> str" where
  "name_parts name =
     (case rsplit_dot name of
        Some (stem, extension) \<Rightarrow> if stem \<noteq> [] then (stem, 46 # extension) else (name, [])
      | None \<Rightarrow> (name, []))"

definition numbered :: "str \<Rightarrow> str \<Rightarrow> nat \<Rightarrow> str" where
  "numbered dir name n =
     path_join dir (fst (name_parts name) @ lit '' ('' @ dec_digits n @ lit '')'' @ snd (name_parts name))"

text \<open>The search over the unbounded range: \<open>None\<close> would be never to end.\<close>

partial_function (option) free_from :: "(str \<Rightarrow> bool) \<Rightarrow> (nat \<Rightarrow> str) \<Rightarrow> nat \<Rightarrow> str option" where
  "free_from taken path n = (if taken (path n) then free_from taken path (Suc n) else Some (path n))"

definition free_name :: "folding \<Rightarrow> disk \<Rightarrow> str \<Rightarrow> str \<Rightarrow> str option" where
  "free_name key d dir name =
     (let first = path_join dir name in
      if \<not> path_exists key d first then Some first
      else free_from (path_exists key d) (numbered dir name) 2)"

fun save_all :: "folding \<Rightarrow> str \<Rightarrow> str \<Rightarrow> attachment list \<Rightarrow> disk \<Rightarrow> ((str + str list) \<times> disk) option" where
  "save_all key os_error dir [] d = Some (Inr [], d)"
| "save_all key os_error dir (a # as) d =
     (case free_name key d dir (safe_attachment_filename (at_filename a)) of
        None \<Rightarrow> None
      | Some path \<Rightarrow>
          (case save_attachment key os_error path a d of
             (Inl e, d) \<Rightarrow> Some (Inl e, d)
           | (Inr _, d) \<Rightarrow>
               map_option (\<lambda>(r, d). (map_sum id (\<lambda>written. path # written) r, d))
                 (save_all key os_error dir as d)))"

text \<open>\<open>write_temp\<close>: \<open>temp_dir\<close>, the process id and the clock are arguments; whether the
  directory can be made is \<open>made\<close>.\<close>

definition write_temp ::
  "folding \<Rightarrow> str \<Rightarrow> str \<Rightarrow> nat \<Rightarrow> nat \<Rightarrow> (str \<Rightarrow> bool) \<Rightarrow> attachment \<Rightarrow> disk \<Rightarrow> (str + str) \<times> disk" where
  "write_temp key os_error temp_dir pid now made a d =
     (let dir = path_join temp_dir (lit ''esmail-open-'' @ dec_digits pid @ lit ''-'' @ dec_digits now) in
      if \<not> made dir then (Inl (lit ''Cannot create '' @ dir @ lit '': '' @ os_error), d)
      else (let d = d\<lparr>dk_dirs := insert (key dir) (dk_dirs d)\<rparr>;
                path = path_join dir (safe_attachment_filename (at_filename a))
            in case save_attachment key os_error path a d of
                 (Inl e, d) \<Rightarrow> (Inl e, d) | (Inr _, d) \<Rightarrow> (Inr path, d)))"

section \<open>The search for a free name ends\<close>

text \<open>The disk holds finitely many names, and the file system tells the numbered names apart.\<close>

definition disk_finite :: "disk \<Rightarrow> bool" where
  "disk_finite d \<longleftrightarrow> finite (dom (dk_files d)) \<and> finite (dk_dirs d)"

lemma free_from_Some:
  assumes "free_from taken path n = Some p"
  shows "\<not> taken p"
  by (rule free_from.raw_induct [where P = "\<lambda>taken path n p. \<not> taken p", OF _ assms])
    (simp split: if_splits)

lemma free_from_returns:
  assumes "\<not> taken (path (n + k))"
  shows "\<exists>p. free_from taken path n = Some p"
  using assms
proof (induction k arbitrary: n)
  case 0
  then show ?case by (subst free_from.simps) simp
next
  case (Suc k)
  then have "\<exists>p. free_from taken path (Suc n) = Some p" by simp
  then show ?case by (subst free_from.simps) simp
qed

lemma dec_digits_inject: "dec_digits m = dec_digits n \<Longrightarrow> m = n"
  by (metis digits_value_dec)

lemma path_join_inject:
  assumes "path_join dir (p @ a @ s) = path_join dir (p @ b @ s)" and "has_drive (p @ a @ s) = has_drive (p @ b @ s)"
  shows "a = b"
  using assms by (auto simp: path_join_def split: if_splits)

lemma numbered_inject:
  assumes "numbered dir name m = numbered dir name n"
  shows "m = n"
proof -
  obtain stem ext where parts: "name_parts name = (stem, ext)" by fastforce
  have drive: "has_drive (stem @ lit '' ('' @ x) = has_drive (stem @ lit '' ('')" for x
    by (auto simp: has_drive_def lit_def split: list.splits)
      (cases stem; cases "tl stem"; auto)+
  have "dec_digits m = dec_digits n"
  proof (rule path_join_inject [of dir "stem @ lit '' (''" "dec_digits m" "lit '')'' @ ext" "dec_digits n"])
    show "path_join dir ((stem @ lit '' ('') @ dec_digits m @ lit '')'' @ ext) =
        path_join dir ((stem @ lit '' ('') @ dec_digits n @ lit '')'' @ ext)"
      using assms by (simp add: numbered_def parts)
    show "has_drive ((stem @ lit '' ('') @ dec_digits m @ lit '')'' @ ext) =
        has_drive ((stem @ lit '' ('') @ dec_digits n @ lit '')'' @ ext)"
      using drive by simp
  qed
  then show ?thesis by (rule dec_digits_inject)
qed

text \<open>Choosing a name for a received file always ends, with a name that is free: however many
  numbered copies exist, the disk holds finitely many.  The file system may fold the case of
  names, as long as it tells the numbered names apart.\<close>

theorem free_name_ends:
  assumes "disk_finite d" and "inj_on key (range (numbered dir name))"
  shows "\<exists>p. free_name key d dir name = Some p \<and> \<not> path_exists key d p"
proof (cases "path_exists key d (path_join dir name)")
  case False
  then show ?thesis by (simp add: free_name_def)
next
  case True
  let ?used = "dom (dk_files d) \<union> dk_dirs d"
  let ?f = "\<lambda>k. key (numbered dir name (2 + k))"
  have "inj ?f"
    using assms(2) by (auto simp: inj_on_def dest!: numbered_inject)
  then have "infinite (range ?f)" using finite_imageD infinite_UNIV_nat by blast
  moreover have "finite ?used" using assms(1) by (simp add: disk_finite_def)
  ultimately obtain k where "?f k \<notin> ?used" by (meson finite_subset image_subset_iff subsetI)
  then have "\<not> path_exists key d (numbered dir name (2 + k))" by (auto simp: path_exists_def)
  with True show ?thesis
    using free_from_returns [of "path_exists key d" "numbered dir name" 2 k] free_from_Some
    by (fastforce simp: free_name_def)
qed

definition taken_disk :: disk where
  "taken_disk = \<lparr>dk_files = [lit ''D'' @ [92] @ lit ''a.txt'' \<mapsto> []], dk_dirs = {lit ''D''}, dk_refused = {}\<rparr>"

theorem free_name_ends_witness:
  "\<exists>p. free_name id taken_disk (lit ''D'') (lit ''a.txt'') = Some p"
  using free_name_ends [of taken_disk id "lit ''D''" "lit ''a.txt''"]
  by (auto simp: taken_disk_def disk_finite_def)

section \<open>Saving never overwrites\<close>

lemma save_attachment_cases:
  assumes "save_attachment key os_error path a d = (r, d')"
  shows "d' = d \<or> d' = d\<lparr>dk_files := (dk_files d)(key path \<mapsto> at_data a)\<rparr>"
    and "r = Inr () \<Longrightarrow> dk_files d' (key path) = Some (at_data a)"
  using assms by (auto simp: save_attachment_def split: if_splits)

lemma free_name_free: "free_name key d dir name = Some p \<Longrightarrow> \<not> path_exists key d p"
  by (auto simp: free_name_def Let_def dest: free_from_Some split: if_splits)

lemma save_all_keeps:
  assumes "save_all key os_error dir as d = Some (r, d')" and "dk_files d p = Some data"
  shows "dk_files d' p = Some data"
  using assms
proof (induction key os_error dir as d arbitrary: r d' rule: save_all.induct)
  case (2 key os_error dir a as d)
  from "2.prems"(1) obtain path where path: "free_name key d dir (safe_attachment_filename (at_filename a)) = Some path"
    by (auto split: option.splits)
  obtain s d1 where s: "save_attachment key os_error path a d = (s, d1)" by fastforce
  have "key path \<noteq> p"
    using free_name_free [OF path] "2.prems"(2) by (auto simp: path_exists_def)
  then have kept: "dk_files d1 p = Some data"
    using save_attachment_cases(1) [OF s] "2.prems"(2) by auto
  show ?case
  proof (cases s)
    case (Inl e)
    with "2.prems"(1) path s kept show ?thesis by simp
  next
    case (Inr u)
    with "2.prems"(1) path s obtain r' where "save_all key os_error dir as d1 = Some (r', d')"
      by auto
    with "2.IH" [OF path s [symmetric, unfolded Inr] refl] kept Inr show ?thesis by auto
  qed
qed simp

lemma save_all_writes:
  assumes "save_all key os_error dir as d = Some (Inr written, d')"
  shows "map (\<lambda>p. dk_files d' (key p)) written = map (\<lambda>a. Some (at_data a)) as"
  using assms
proof (induction key os_error dir as d arbitrary: written d' rule: save_all.induct)
  case (2 key os_error dir a as d)
  from "2.prems" obtain path where path: "free_name key d dir (safe_attachment_filename (at_filename a)) = Some path"
    by (auto split: option.splits)
  obtain s d1 where s: "save_attachment key os_error path a d = (s, d1)" by fastforce
  with "2.prems" path obtain r' where inr: "s = Inr ()" and r': "map_sum id ((#) path) r' = Inr written"
    and "save_all key os_error dir as d1 = Some (r', d')"
    by (cases s) auto
  then obtain w where w: "written = path # w" and rest: "save_all key os_error dir as d1 = Some (Inr w, d')"
    by (cases r') auto
  have "dk_files d1 (key path) = Some (at_data a)" using save_attachment_cases(2) [OF s inr] .
  then have "dk_files d' (key path) = Some (at_data a)" by (rule save_all_keeps [OF rest])
  with "2.IH" [OF path s [symmetric, unfolded inr] refl rest] w show ?case by simp
qed simp

text \<open>C34. Saving the attachments of a message never overwrites a file, whether it succeeds or
  stops at a refused write: every file of the disk keeps its content, and on success every
  attachment, equal names included, is on the disk under the path reported for it.\<close>

theorem save_all_never_overwrites:
  assumes "save_all key os_error dir as d = Some (r, d')"
  shows "dk_files d \<subseteq>\<^sub>m dk_files d' \<and>
    (case r of Inr written \<Rightarrow> map (\<lambda>p. dk_files d' (key p)) written = map (\<lambda>a. Some (at_data a)) as
     | Inl e \<Rightarrow> True)"
  using save_all_keeps [OF assms] save_all_writes [of key os_error dir as d] assms
  by (cases r) (auto simp: map_le_def)

definition plain_attachment :: "string \<Rightarrow> byte list \<Rightarrow> attachment" where
  "plain_attachment n data = \<lparr>at_filename = lit n, at_mime_type = [], at_data = data\<rparr>"

lemma free_name_taken:
  "free_name id taken_disk (lit ''D'') (lit ''a.txt'') = Some (lit ''D'' @ [92] @ lit ''a (2).txt'')"
  by (simp add: free_name_def path_exists_def taken_disk_def path_join_def has_drive_def is_sep_def lit_def
      numbered_def name_parts_def rsplit_dot_def rfind_char_def free_from.simps dec_digits.simps)

theorem save_all_never_overwrites_witness:
  "\<exists>d'. save_all id [] (lit ''D'') [plain_attachment ''a.txt'' [7]] taken_disk =
     Some (Inr [lit ''D'' @ [92] @ lit ''a (2).txt''], d') \<and>
   dk_files taken_disk \<subseteq>\<^sub>m dk_files d'"
proof -
  have name: "safe_attachment_filename (at_filename (plain_attachment ''a.txt'' [7])) = lit ''a.txt''"
    by (simp add: plain_attachment_def safe_attachment_filename_def lit_def)
  obtain d1 where d1: "save_attachment id [] (lit ''D'' @ [92] @ lit ''a (2).txt'')
      (plain_attachment ''a.txt'' [7]) taken_disk = (Inr (), d1)"
    by (simp add: save_attachment_def) (simp add: taken_disk_def lit_def)
  obtain d' where d': "save_all id [] (lit ''D'') [plain_attachment ''a.txt'' [7]] taken_disk =
      Some (Inr [lit ''D'' @ [92] @ lit ''a (2).txt''], d')"
    using d1 by (simp add: name free_name_taken)
  with save_all_never_overwrites [OF d'] show ?thesis by blast
qed

text \<open>A name with a drive prefix leaves the chosen directory.\<close>

lemma drive_name_leaves_directory:
  "free_name id \<lparr>dk_files = Map.empty, dk_dirs = {}, dk_refused = {}\<rparr> dir
     (safe_attachment_filename (lit ''C:evil.exe'')) = Some (lit ''C:evil.exe'')"
  by (simp add: free_name_def path_exists_def path_join_def has_drive_def safe_attachment_filename_def lit_def)

text \<open>A file that is read back is within the limit and keeps its name and content.\<close>

lemma read_attachment_bounded:
  "read_attachment key os_error path d = Inr (name, data) \<longleftrightarrow>
     path_file_name path = Some name \<and> dk_files d (key path) = Some data \<and> length data \<le> 18874368"
  by (auto simp: read_attachment_def MAX_ATTACHMENT_BYTES_def split: option.splits)

end
