(* ===== verification/Sending.thy ===== *)
theory Sending
  imports Auth Compose
begin

text \<open>
  Sending mail: the SMTP actor (\<open>crates/esmail/src/smtp.rs\<close>) and what the window asks of it
  (\<open>crates/esmail-win32/src/core_glue/sending.rs\<close>, \<open>mod.rs\<close>).  The mail library is a record of
  arguments (\<open>mailer\<close>): its address parser, its message builder with the bytes it makes, and
  the connection; the network and the clock are the world \<open>'w\<close>.  The lemmas show that a send is
  answered once under its own id, that a message that cannot be built never reaches the network,
  and that what the window accepted is what the actor can build.
\<close>

section \<open>Accounts, messages and the mail library\<close>

record smtp_account =
  sm_host :: str
  sm_port :: u16
  sm_tls :: tls_mode
  sm_username :: str
  sm_auth :: auth
  sm_from_address :: str

record 'mb mail_message =
  mm_from :: 'mb
  mm_subject :: str
  mm_to :: "'mb list"
  mm_cc :: "'mb list"
  mm_bcc :: "'mb list"
  mm_in_reply_to :: "str option"
  mm_references :: "str option"
  mm_body :: str
  mm_attachments :: "(str \<times> str \<times> byte list) list"

record smtp_transport =
  tr_host :: str
  tr_port :: u16
  tr_tls :: tls_mode
  tr_username :: str
  tr_secret :: str
  tr_xoauth2 :: bool

record ('mb, 'w) mailer =
  ml_parse :: "str \<Rightarrow> str + 'mb"
  ml_content_type :: "str \<Rightarrow> bool"
  ml_format :: "'mb mail_message \<Rightarrow> str + byte list"
  ml_relay :: "tls_mode \<Rightarrow> str \<Rightarrow> str option"
  ml_deliver :: "smtp_transport \<Rightarrow> byte list \<Rightarrow> 'w \<Rightarrow> (str + unit) \<times> 'w"
  ml_test :: "smtp_transport \<Rightarrow> 'w \<Rightarrow> (str + bool) \<times> 'w"

section \<open>Building a message\<close>

definition file_extension :: "str \<Rightarrow> str" where
  "file_extension filename = last (split_on (\<lambda>c. c = 46) filename)"

definition MIME_TYPES :: "(str \<times> str) list" where
  "MIME_TYPES = map (\<lambda>(e, t). (lit e, lit t))
     [(''pdf'', ''application/pdf''), (''png'', ''image/png''), (''jpg'', ''image/jpeg''), (''jpeg'', ''image/jpeg''),
      (''gif'', ''image/gif''), (''txt'', ''text/plain''), (''csv'', ''text/csv''), (''html'', ''text/html''),
      (''htm'', ''text/html''), (''zip'', ''application/zip''), (''doc'', ''application/msword''),
      (''docx'', ''application/vnd.openxmlformats-officedocument.wordprocessingml.document''),
      (''xls'', ''application/vnd.ms-excel''),
      (''xlsx'', ''application/vnd.openxmlformats-officedocument.spreadsheetml.sheet'')]"

definition OCTET_STREAM :: str where "OCTET_STREAM = lit ''application/octet-stream''"

definition guess_mime_type :: "str \<Rightarrow> str" where
  "guess_mime_type filename =
     (case map_of MIME_TYPES (to_ascii_lowercase (file_extension filename)) of
        Some t \<Rightarrow> t | None \<Rightarrow> OCTET_STREAM)"

fun parse_addresses :: "(str \<Rightarrow> str + 'mb) \<Rightarrow> str list \<Rightarrow> str + 'mb list" where
  "parse_addresses parse [] = Inr []"
| "parse_addresses parse (a # as) =
     (case parse a of
        Inl e \<Rightarrow> Inl e
      | Inr m \<Rightarrow> (case parse_addresses parse as of Inl e \<Rightarrow> Inl e | Inr ms \<Rightarrow> Inr (m # ms)))"

definition content_type_of :: "('mb, 'w) mailer \<Rightarrow> str \<Rightarrow> str" where
  "content_type_of ml filename =
     (if ml_content_type ml (guess_mime_type filename) then guess_mime_type filename else OCTET_STREAM)"

definition message_of :: "('mb, 'w) mailer \<Rightarrow> smtp_account \<Rightarrow> compose_state \<Rightarrow> str + 'mb mail_message" where
  "message_of ml account compose =
     (case ml_parse ml (sm_from_address account) of
        Inl e \<Rightarrow> Inl e
      | Inr sender \<Rightarrow>
     (case parse_addresses (ml_parse ml) (split_addresses (cs_to compose)) of
        Inl e \<Rightarrow> Inl e
      | Inr to \<Rightarrow>
     (case parse_addresses (ml_parse ml) (split_addresses (cs_cc compose)) of
        Inl e \<Rightarrow> Inl e
      | Inr cc \<Rightarrow>
     (case parse_addresses (ml_parse ml) (split_addresses (cs_bcc compose)) of
        Inl e \<Rightarrow> Inl e
      | Inr bcc \<Rightarrow>
          Inr \<lparr>mm_from = sender, mm_subject = cs_subject compose, mm_to = to, mm_cc = cc, mm_bcc = bcc,
            mm_in_reply_to = cs_in_reply_to compose, mm_references = cs_references compose,
            mm_body = cs_body compose,
            mm_attachments = map (\<lambda>(filename, data). (filename, content_type_of ml filename, data))
              (cs_attachments compose)\<rparr>))))"

text \<open>\<open>build_message\<close> and the bytes of the message it builds.\<close>

definition build_message :: "('mb, 'w) mailer \<Rightarrow> smtp_account \<Rightarrow> compose_state \<Rightarrow> str + byte list" where
  "build_message ml account compose =
     (case message_of ml account compose of Inl e \<Rightarrow> Inl e | Inr m \<Rightarrow> ml_format ml m)"

section \<open>The connection and the actor\<close>

definition build_transport ::
  "('mb, 'w) mailer \<Rightarrow> 'w token_env \<Rightarrow> smtp_account \<Rightarrow> sources \<Rightarrow> 'w \<Rightarrow> (str + smtp_transport) \<times> sources \<times> 'w" where
  "build_transport ml env account sources w =
     (case auth_secret env (sm_auth account) sources w of
        (Inl e, sources, w) \<Rightarrow> (Inl (err_text e), sources, w)
      | (Inr secret, sources, w) \<Rightarrow>
          (case (if sm_tls account = NoTls then None else ml_relay ml (sm_tls account) (sm_host account)) of
             Some e \<Rightarrow> (Inl e, sources, w)
           | None \<Rightarrow>
               (Inr \<lparr>tr_host = sm_host account, tr_port = sm_port account, tr_tls = sm_tls account,
                  tr_username = sm_username account, tr_secret = secret,
                  tr_xoauth2 = is_oauth (sm_auth account)\<rparr>, sources, w)))"

definition smtp_check_login ::
  "('mb, 'w) mailer \<Rightarrow> 'w token_env \<Rightarrow> smtp_account \<Rightarrow> sources \<Rightarrow> 'w \<Rightarrow> (str + unit) \<times> sources \<times> 'w" where
  "smtp_check_login ml env account sources w =
     (case build_transport ml env account sources w of
        (Inl e, sources, w) \<Rightarrow> (Inl e, sources, w)
      | (Inr t, sources, w) \<Rightarrow>
          (case ml_test ml t w of
             (Inl e, w) \<Rightarrow> (Inl e, sources, w)
           | (Inr True, w) \<Rightarrow> (Inr (), sources, w)
           | (Inr False, w) \<Rightarrow> (Inl (lit ''the SMTP server closed the connection''), sources, w)))"

definition smtp_send ::
  "('mb, 'w) mailer \<Rightarrow> 'w token_env \<Rightarrow> smtp_account \<Rightarrow> compose_state \<Rightarrow> sources \<Rightarrow> 'w \<Rightarrow>
   (str + byte list) \<times> sources \<times> 'w" where
  "smtp_send ml env account compose sources w =
     (case build_message ml account compose of
        Inl e \<Rightarrow> (Inl e, sources, w)
      | Inr raw \<Rightarrow>
          (case build_transport ml env account sources w of
             (Inl e, sources, w) \<Rightarrow> (Inl e, sources, w)
           | (Inr t, sources, w) \<Rightarrow>
               (case ml_deliver ml t raw w of
                  (Inl e, w) \<Rightarrow> (Inl e, sources, w)
                | (Inr _, w) \<Rightarrow> (Inr raw, sources, w))))"

datatype smtp_command = SmtpSend u64 smtp_account compose_state

datatype smtp_event = SmtpSent u64 "byte list" | SmtpError u64 str

fun smtp_actor ::
  "('mb, 'w) mailer \<Rightarrow> 'w token_env \<Rightarrow> smtp_command list \<Rightarrow> sources \<Rightarrow> 'w \<Rightarrow> smtp_event list \<times> sources \<times> 'w" where
  "smtp_actor ml env [] sources w = ([], sources, w)"
| "smtp_actor ml env (SmtpSend i account compose # cmds) sources w =
     (case smtp_send ml env account compose sources w of
        (r, sources, w) \<Rightarrow>
          (case smtp_actor ml env cmds sources w of
             (evs, s) \<Rightarrow> ((case r of Inr raw \<Rightarrow> SmtpSent i raw | Inl e \<Rightarrow> SmtpError i e) # evs, s)))"

section \<open>What the window asks\<close>

definition fallback_password :: "str option \<Rightarrow> str option" where
  "fallback_password var = (case var of Some p \<Rightarrow> if p \<noteq> [] then Some p else None | None \<Rightarrow> None)"

definition account_credentials ::
  "str option \<Rightarrow> sign_in_env \<Rightarrow> config \<Rightarrow> account_config \<Rightarrow> keyring \<Rightarrow> sources \<Rightarrow> (str + auth) \<times> sources" where
  "account_credentials var env config account kr sources =
     (case saved_auth env config account kr sources of
        (Inr a, sources) \<Rightarrow> (Inr a, sources)
      | (Inl missing, sources) \<Rightarrow>
          (case fallback_password var of
             Some p \<Rightarrow> (Inr (AuthPassword p), sources)
           | None \<Rightarrow> (Inl missing, sources)))"

definition smtp_account_of ::
  "str option \<Rightarrow> sign_in_env \<Rightarrow> keyring \<Rightarrow> account_config \<Rightarrow> auth option \<Rightarrow> str + smtp_account" where
  "smtp_account_of var env kr account imap_auth =
     (let auth = (case imap_auth of
          Some (AuthOAuth s) \<Rightarrow> Some (AuthOAuth s)
        | _ \<Rightarrow> (case get_password (si_service_var env) (ac_id account) (lit ''smtp'') kr of
              Some p \<Rightarrow> Some (AuthPassword p)
            | None \<Rightarrow> map_option AuthPassword (fallback_password var)))
      in case auth of
           None \<Rightarrow> Inl (ac_display_name account @
             lit '' has no saved SMTP password; reconnect it under File > Accounts.'')
         | Some a \<Rightarrow>
             Inr \<lparr>sm_host = ac_smtp_host account, sm_port = ac_smtp_port account, sm_tls = ac_smtp_tls account,
                  sm_username = ac_username account, sm_auth = a, sm_from_address = ac_username account\<rparr>)"

definition check_sendable :: "('mb, 'w) mailer \<Rightarrow> smtp_account \<Rightarrow> compose_state \<Rightarrow> str + unit" where
  "check_sendable ml account state =
     (if trim (cs_to state) = [] \<and> trim (cs_cc state) = [] \<and> trim (cs_bcc state) = []
      then Inl (lit ''Add at least one recipient.'')
      else (case build_message ml account (state\<lparr>cs_attachments := []\<rparr>) of
        Inr _ \<Rightarrow> Inr ()
      | Inl e \<Rightarrow> Inl (lit ''This message cannot be sent: '' @ e)))"

definition SEND_QUEUE :: nat where "SEND_QUEUE = 16"

text \<open>\<open>Core::send_mail\<close>: the queue to the actor refuses a command when it is full.\<close>

definition send_mail ::
  "('mb, 'w) mailer \<Rightarrow> str option \<Rightarrow> sign_in_env \<Rightarrow> keyring \<Rightarrow> account_config list \<Rightarrow> auth option list \<Rightarrow>
   u64 \<Rightarrow> nat \<Rightarrow> compose_state \<Rightarrow> smtp_command list \<Rightarrow> (str + unit) \<times> smtp_command list" where
  "send_mail ml var env kr accounts auths i account state queue =
     (if account \<ge> length accounts then (Inl (lit ''Choose an account to send from.''), queue)
      else (case smtp_account_of var env kr (accounts ! account)
               (if account < length auths then auths ! account else None) of
        Inl e \<Rightarrow> (Inl e, queue)
      | Inr smtp \<Rightarrow>
          (case check_sendable ml smtp state of
             Inl e \<Rightarrow> (Inl e, queue)
           | Inr _ \<Rightarrow>
               if length queue < SEND_QUEUE then (Inr (), queue @ [SmtpSend i smtp state])
               else (Inl (lit ''Could not queue the message for sending.''), queue))))"

section \<open>Every send is answered\<close>

fun event_id :: "smtp_event \<Rightarrow> u64" where
  "event_id (SmtpSent i raw) = i"
| "event_id (SmtpError i e) = i"

fun command_id :: "smtp_command \<Rightarrow> u64" where
  "command_id (SmtpSend i account compose) = i"

text \<open>C33. Every queued message is answered exactly once, in the order of the queue and under its own
  id: sent, or failed with a reason.\<close>

theorem sends_are_answered:
  "map event_id (fst (smtp_actor ml env cmds sources w)) = map command_id cmds"
proof (induction ml env cmds sources w rule: smtp_actor.induct)
  case (2 ml env i account compose cmds sources w)
  obtain r s1 w1 where send: "smtp_send ml env account compose sources w = (r, s1, w1)"
    by (metis prod_cases3)
  obtain evs s where act: "smtp_actor ml env cmds s1 w1 = (evs, s)" by (metis surj_pair)
  have "map event_id evs = map command_id cmds"
    using "2.IH" [OF send [symmetric] refl] act by simp
  then show ?case using send act by (cases r) simp_all
qed simp

text \<open>What was reported as sent is the message the compose window described, delivered with the
  account's own credentials.\<close>

theorem sent_is_the_message:
  assumes "smtp_send ml env account compose sources w = (Inr raw, sources', w')"
  shows "\<exists>t w1 s1. build_message ml account compose = Inr raw \<and>
    build_transport ml env account sources w = (Inr t, s1, w1) \<and> ml_deliver ml t raw w1 = (Inr (), w')"
  using assms by (auto simp: smtp_send_def split: sum.splits prod.splits)

text \<open>A message that cannot be built reaches neither the network nor the token endpoint.\<close>

lemma unbuildable_stays_home:
  "build_message ml account compose = Inl e \<Longrightarrow>
   smtp_send ml env account compose sources w = (Inl e, sources, w)"
  by (simp add: smtp_send_def)

lemma transport_fields:
  "build_transport ml env account sources w = (Inr t, s, w') \<Longrightarrow>
   tr_host t = sm_host account \<and> tr_port t = sm_port account \<and> tr_tls t = sm_tls account \<and>
   tr_username t = sm_username account \<and> (tr_xoauth2 t \<longleftrightarrow> is_oauth (sm_auth account))"
  by (auto simp: build_transport_def split: sum.splits prod.splits option.splits if_splits)

section \<open>No recipient is lost\<close>

lemma parse_addresses_Inr:
  "parse_addresses parse as = Inr ms \<longleftrightarrow> map parse as = map Inr ms"
proof (induction as arbitrary: ms)
  case (Cons a as)
  show ?case
  proof (cases "parse a")
    case (Inr m)
    then show ?thesis
    proof (cases "parse_addresses parse as")
      case (Inl e)
      have "map parse as \<noteq> map Inr ms'" for ms' using Cons.IH [of ms'] Inl by simp
      with Inl \<open>parse a = Inr m\<close> show ?thesis by (cases ms) simp_all
    next
      case (Inr ms1)
      have "map parse as = map Inr ms1" using Cons.IH [of ms1] Inr by simp
      with Inr \<open>parse a = Inr m\<close> show ?thesis by (cases ms) (simp_all add: inj_map_eq_map)
    qed
  qed (cases ms; simp)
qed (simp add: eq_commute)

lemma parse_addresses_Inl:
  "parse_addresses parse as = Inl e \<Longrightarrow> \<exists>a\<in>set as. parse a = Inl e"
  by (induction as) (auto split: sum.splits)

text \<open>The message that is built goes to exactly the addresses the user typed: each field's
  recipients are the parsed pieces of that field, in order, none dropped and none added; the
  sender is the account's address and every attachment is in it with its bytes.\<close>

theorem message_has_every_recipient:
  assumes "message_of ml account compose = Inr m"
  shows "ml_parse ml (sm_from_address account) = Inr (mm_from m) \<and>
    map (ml_parse ml) (split_addresses (cs_to compose)) = map Inr (mm_to m) \<and>
    map (ml_parse ml) (split_addresses (cs_cc compose)) = map Inr (mm_cc m) \<and>
    map (ml_parse ml) (split_addresses (cs_bcc compose)) = map Inr (mm_bcc m) \<and>
    mm_subject m = cs_subject compose \<and> mm_body m = cs_body compose \<and>
    map (\<lambda>(f, t, d). (f, d)) (mm_attachments m) = cs_attachments compose"
  using assms
  by (auto simp: message_of_def parse_addresses_Inr comp_def case_prod_beta' split: sum.splits)

definition demo_mailer :: "(str, nat) mailer" where
  "demo_mailer = \<lparr>ml_parse = (\<lambda>a. if 64 \<in> set a then Inr a else Inl (lit ''Missing domain or user'')),
     ml_content_type = (\<lambda>_. True), ml_format = (\<lambda>m. Inr (utf8 (mm_body m))), ml_relay = (\<lambda>_ _. None),
     ml_deliver = (\<lambda>_ _ w. (Inr (), w + 1)), ml_test = (\<lambda>_ w. (Inr True, w))\<rparr>"

definition demo_smtp :: smtp_account where
  "demo_smtp = \<lparr>sm_host = lit ''h'', sm_port = 465, sm_tls = Ssl, sm_username = lit ''me@h'',
     sm_auth = AuthPassword (lit ''p''), sm_from_address = lit ''me@h''\<rparr>"

definition demo_smtp_mail :: compose_state where
  "demo_smtp_mail = compose_default\<lparr>cs_to := lit ''a@x,b@y''\<rparr>"

lemmas mail_eval =
  message_of_def demo_mailer_def demo_smtp_def demo_smtp_mail_def compose_default_def split_addresses_def
  trim_def trim_matches_def trim_start_def trim_end_def is_whitespace_def lit_def

theorem message_has_every_recipient_witness:
  "\<exists>m. message_of demo_mailer demo_smtp demo_smtp_mail = Inr m \<and> mm_to m = [lit ''a@x'', lit ''b@y'']"
proof -
  obtain m where m: "message_of demo_mailer demo_smtp demo_smtp_mail = Inr m" by (simp add: mail_eval)
  from message_has_every_recipient [OF m]
  have "map (ml_parse demo_mailer) (split_addresses (cs_to demo_smtp_mail)) = map Inr (mm_to m)" by blast
  then have "mm_to m = [lit ''a@x'', lit ''b@y'']" by (simp add: mail_eval) (auto simp: map_eq_Cons_conv Cons_eq_map_conv)
  with m show ?thesis by blast
qed

section \<open>What the window accepts can be built\<close>

lemma message_of_attachments:
  "message_of ml account (compose\<lparr>cs_attachments := as\<rparr>) =
     map_sum id (\<lambda>m. m\<lparr>mm_attachments := map (\<lambda>(f, d). (f, content_type_of ml f, d)) as\<rparr>)
       (message_of ml account compose)"
  by (simp add: message_of_def split: sum.splits)

text \<open>An accepted message has a recipient field that is not blank and addresses that all parse, so
  the actor can fail on it only over the attachments or the network.\<close>

lemma accepted_is_buildable:
  assumes "check_sendable ml account state = Inr ()"
  shows "\<exists>m. message_of ml account state = Inr m"
    and "list_ex (\<lambda>f. trim f \<noteq> []) [cs_to state, cs_cc state, cs_bcc state]"
    and "cs_attachments state = [] \<Longrightarrow> \<exists>raw. build_message ml account state = Inr raw"
proof -
  obtain raw where raw: "build_message ml account (state\<lparr>cs_attachments := []\<rparr>) = Inr raw"
    using assms by (auto simp: check_sendable_def split: if_splits sum.splits)
  then obtain m where "message_of ml account (state\<lparr>cs_attachments := []\<rparr>) = Inr m"
    by (auto simp: build_message_def split: sum.splits)
  then show "\<exists>m. message_of ml account state = Inr m"
    by (cases "message_of ml account state") (simp_all add: message_of_attachments)
  show "list_ex (\<lambda>f. trim f \<noteq> []) [cs_to state, cs_cc state, cs_bcc state]"
    using assms by (auto simp: check_sendable_def split: if_splits)
  assume "cs_attachments state = []"
  then have "state\<lparr>cs_attachments := []\<rparr> = state" by (cases state) simp
  with raw show "\<exists>raw. build_message ml account state = Inr raw" by auto
qed

text \<open>A message is queued only when it was accepted, and never beyond the queue's room.\<close>

theorem queued_is_sendable:
  assumes "send_mail ml var env kr accounts auths i account state queue = (r, queue')"
    and "length queue \<le> SEND_QUEUE"
  shows "length queue' \<le> SEND_QUEUE \<and>
    (case r of Inl e \<Rightarrow> queue' = queue
     | Inr _ \<Rightarrow> \<exists>smtp. queue' = queue @ [SmtpSend i smtp state] \<and> check_sendable ml smtp state = Inr () \<and>
         account < length accounts \<and> sm_from_address smtp = ac_username (accounts ! account))"
  using assms
  by (auto simp: send_mail_def smtp_account_of_def Let_def split: if_splits sum.splits option.splits)

text \<open>A sender whose quoted name holds a comma cannot be answered: the field is cut at the comma,
  and the piece with the open quote is no address.\<close>

lemma quoted_comma_refused:
  assumes "ml_parse ml ([34] @ lit ''Doe'') = Inl e" and "ml_parse ml (sm_from_address account) = Inr m"
    and "cs_to state = [34] @ lit ''Doe, Jane'' @ [34] @ lit '' <j@x>''"
  shows "check_sendable ml account state = Inl (lit ''This message cannot be sent: '' @ e)"
proof -
  have split: "split_addresses (cs_to state) = [[34] @ lit ''Doe'', lit ''Jane'' @ [34] @ lit '' <j@x>'']"
    by (simp add: assms(3) split_addresses_def trim_def trim_matches_def trim_start_def trim_end_def
        is_whitespace_def lit_def)
  have "message_of ml account (state\<lparr>cs_attachments := []\<rparr>) = Inl e"
    using assms(1,2) split by (simp add: message_of_def)
  moreover have "trim (cs_to state) \<noteq> []"
    by (simp add: assms(3) trim_def trim_matches_def trim_start_def trim_end_def is_whitespace_def lit_def)
  ultimately show ?thesis by (simp add: check_sendable_def build_message_def)
qed

lemma guess_mime_type_eval:
  "guess_mime_type (lit ''photo.JPG'') = lit ''image/jpeg''" "guess_mime_type (lit ''a.b.zip'') = lit ''application/zip''"
  "guess_mime_type (lit ''README'') = OCTET_STREAM"
  by (simp_all add: guess_mime_type_def MIME_TYPES_def file_extension_def to_ascii_lowercase_def
      lower_char_def lit_def)

end
