(* ===== verification/AccountForm.thy ===== *)
theory AccountForm
  imports Config
begin

text \<open>
  The account form as data, \<open>crates/esmail-win32/src/core_glue/account_form.rs\<close>: the settings
  guessed from an address and the check that turns what was typed into an account.  The lemmas
  show what every accepted account satisfies, which field a refusal points at, and that a saved
  account survives being opened and saved again.
\<close>

section \<open>The form\<close>

definition GMAIL_IMAP_HOST :: str where "GMAIL_IMAP_HOST = lit ''imap.gmail.com''"

record account_form =
  fo_display_name :: str
  fo_email :: str
  fo_auth :: auth_kind
  fo_password :: str
  fo_imap_host :: str
  fo_imap_port :: str
  fo_smtp_host :: str
  fo_smtp_port :: str
  fo_smtp_tls :: tls_mode

datatype form_field = FieldEmail | FieldPassword | FieldImapHost | FieldImapPort | FieldSmtpHost | FieldSmtpPort

record form_error =
  fe_field :: form_field
  fe_message :: str

record preset =
  ps_imap :: str
  ps_imap_number :: u16
  ps_smtp :: str
  ps_smtp_number :: u16
  ps_smtp_tls :: tls_mode
  ps_auth :: auth_kind

record detection =
  de_preset :: preset
  de_known :: bool

definition smtp_security_for :: "u16 \<Rightarrow> tls_mode" where
  "smtp_security_for port = (if port = 587 then StartTls else Ssl)"

definition security_for_smtp_port :: "u16 \<Rightarrow> tls_mode option" where
  "security_for_smtp_port port =
     (if port = 465 then Some Ssl else if port = 587 then Some StartTls else None)"

definition rsplit_at :: "str \<Rightarrow> (str \<times> str) option" where
  "rsplit_at s = map_option (\<lambda>i. (take i s, drop (Suc i) s)) (rfind_char 64 s)"

definition usable_domain :: "str \<Rightarrow> bool" where
  "usable_domain domain \<longleftrightarrow>
     46 \<in> set domain \<and> \<not> list_ex is_whitespace domain \<and> hd domain \<noteq> 46 \<and> last domain \<noteq> 46"

definition detect :: "str \<Rightarrow> detection option" where
  "detect email =
     (case rsplit_at email of
        None \<Rightarrow> None
      | Some (_, d) \<Rightarrow>
          (let domain = to_ascii_lowercase (trim d) in
           if \<not> usable_domain domain then None
           else Some (case provider_for_email email of
               Some p \<Rightarrow>
                 \<lparr>de_preset = \<lparr>ps_imap = ps_imap_host p, ps_imap_number = ps_imap_port p,
                    ps_smtp = ps_smtp_host p, ps_smtp_number = ps_smtp_port p,
                    ps_smtp_tls = smtp_security_for (ps_smtp_port p),
                    ps_auth = (if ps_imap_host p = GMAIL_IMAP_HOST then GoogleOAuth else PasswordAuth)\<rparr>,
                  de_known = True\<rparr>
             | None \<Rightarrow>
                 \<lparr>de_preset = \<lparr>ps_imap = lit ''imap.'' @ domain, ps_imap_number = 993,
                    ps_smtp = lit ''smtp.'' @ domain, ps_smtp_number = 465, ps_smtp_tls = Ssl,
                    ps_auth = PasswordAuth\<rparr>,
                  de_known = False\<rparr>)))"

definition port_text :: "u16 \<Rightarrow> str" where
  "port_text port = dec_digits (unat port)"

definition form_default :: account_form where
  "form_default =
     \<lparr>fo_display_name = [], fo_email = [], fo_auth = PasswordAuth, fo_password = [], fo_imap_host = [],
      fo_imap_port = lit ''993'', fo_smtp_host = [], fo_smtp_port = lit ''465'', fo_smtp_tls = Ssl\<rparr>"

definition from_account :: "account_config \<Rightarrow> str \<Rightarrow> account_form" where
  "from_account a password =
     \<lparr>fo_display_name = ac_display_name a, fo_email = ac_username a, fo_auth = ac_auth a,
      fo_password = password, fo_imap_host = ac_imap_host a, fo_imap_port = port_text (ac_imap_port a),
      fo_smtp_host = ac_smtp_host a, fo_smtp_port = port_text (ac_smtp_port a), fo_smtp_tls = ac_smtp_tls a\<rparr>"

definition apply_preset :: "preset \<Rightarrow> account_form \<Rightarrow> account_form" where
  "apply_preset p f =
     f\<lparr>fo_imap_host := ps_imap p, fo_imap_port := port_text (ps_imap_number p), fo_smtp_host := ps_smtp p,
       fo_smtp_port := port_text (ps_smtp_number p), fo_smtp_tls := ps_smtp_tls p, fo_auth := ps_auth p\<rparr>"

definition form_id :: "account_form \<Rightarrow> str" where
  "form_id f = trim (fo_email f) @ [64] @ trim (fo_imap_host f)"

definition parse_port :: "str \<Rightarrow> u16 option" where
  "parse_port t =
     (case parse_nat (2 ^ 16) (trim t) of
        Some n \<Rightarrow> if n \<noteq> 0 then Some (of_nat n) else None
      | None \<Rightarrow> None)"

definition is_host :: "str \<Rightarrow> bool" where
  "is_host t \<longleftrightarrow> t \<noteq> [] \<and> \<not> list_ex is_whitespace t \<and> 47 \<notin> set t"

definition form_fail :: "form_field \<Rightarrow> string \<Rightarrow> form_error + 'a" where
  "form_fail field message = Inl \<lparr>fe_field = field, fe_message = lit message\<rparr>"

definition is_email :: "str \<Rightarrow> bool" where
  "is_email email \<longleftrightarrow>
     (let (local, domain) = (case rsplit_at email of Some p \<Rightarrow> p | None \<Rightarrow> ([], []))
      in local \<noteq> [] \<and> 46 \<in> set domain \<and> \<not> list_ex is_whitespace email)"

definition to_account :: "account_form \<Rightarrow> account_config option \<Rightarrow> form_error + account_config" where
  "to_account f base =
     (let email = trim (fo_email f);
          imap_host = trim (fo_imap_host f);
          smtp_host = trim (fo_smtp_host f)
      in if \<not> is_email email
         then form_fail FieldEmail ''Enter your full email address, such as you@example.com.''
         else if \<not> is_host imap_host
         then form_fail FieldImapHost ''Enter the IMAP server's host name, such as imap.example.com.''
         else (case parse_port (fo_imap_port f) of
           None \<Rightarrow> form_fail FieldImapPort ''The IMAP port must be a number from 1 to 65535.''
         | Some imap_port \<Rightarrow>
             if \<not> is_host smtp_host
             then form_fail FieldSmtpHost ''Enter the SMTP server's host name, such as smtp.example.com.''
             else (case parse_port (fo_smtp_port f) of
               None \<Rightarrow> form_fail FieldSmtpPort ''The SMTP port must be a number from 1 to 65535.''
             | Some smtp_port \<Rightarrow>
                 if fo_auth f = PasswordAuth \<and> fo_password f = []
                 then form_fail FieldPassword ''Enter the account's password.''
                 else if fo_auth f = GoogleOAuth \<and> imap_host \<noteq> GMAIL_IMAP_HOST
                 then form_fail FieldImapHost ''Sign in with Google only works for Gmail (imap.gmail.com). Choose Password for other servers.''
                 else
                   (let display_name = (if trim (fo_display_name f) = [] then email else trim (fo_display_name f));
                        account = (case base of Some b \<Rightarrow> b
                          | None \<Rightarrow> account_config_new display_name imap_host imap_port email)
                    in Inr (account\<lparr>ac_display_name := display_name, ac_username := email,
                         ac_imap_host := imap_host, ac_imap_port := imap_port, ac_imap_tls := Ssl,
                         ac_smtp_host := smtp_host, ac_smtp_port := smtp_port, ac_smtp_tls := fo_smtp_tls f,
                         ac_auth := fo_auth f\<rparr>)))))"

section \<open>What the form accepts\<close>

text \<open>The account a form may produce: addresses without blanks, hosts that are host names, real
  ports, implicit TLS for IMAP, and Google sign-in only at Gmail.\<close>

definition account_ok :: "account_config \<Rightarrow> bool" where
  "account_ok a \<longleftrightarrow>
     is_email (ac_username a) \<and> is_host (ac_imap_host a) \<and> is_host (ac_smtp_host a) \<and>
     ac_imap_port a \<noteq> 0 \<and> ac_smtp_port a \<noteq> 0 \<and> ac_imap_tls a = Ssl \<and> ac_display_name a \<noteq> [] \<and>
     (ac_auth a = GoogleOAuth \<longrightarrow> ac_imap_host a = GMAIL_IMAP_HOST)"

lemma parse_port_Some:
  assumes "parse_port t = Some p"
  shows "p \<noteq> 0" and "0 < unat p" and "unat p < 65536"
proof -
  obtain n where n: "parse_nat (2 ^ 16) (trim t) = Some n" "n \<noteq> 0" "p = of_nat n"
    using assms by (auto simp: parse_port_def split: option.splits if_splits)
  have "n < 65536" using n(1) by (auto simp: parse_nat_def Let_def split: if_splits)
  then have "unat p = n" by (simp add: n(3) unsigned_of_nat take_bit_nat_eq_self)
  with n(2) \<open>n < 65536\<close> show "p \<noteq> 0" "0 < unat p" "unat p < 65536" by auto
qed

lemma gmail_host [simp]: "is_host GMAIL_IMAP_HOST"
  by (simp add: is_host_def GMAIL_IMAP_HOST_def lit_def is_whitespace_def)

lemma is_email_not_Nil: "is_email e \<Longrightarrow> e \<noteq> []"
  by (auto simp: is_email_def rsplit_at_def rfind_char_def)

text \<open>The account an accepted form gives.\<close>

definition form_account :: "account_form \<Rightarrow> account_config option \<Rightarrow> u16 \<Rightarrow> u16 \<Rightarrow> account_config" where
  "form_account f base imap_port smtp_port =
     (let email = trim (fo_email f);
          display_name = (if trim (fo_display_name f) = [] then email else trim (fo_display_name f));
          account = (case base of Some b \<Rightarrow> b
            | None \<Rightarrow> account_config_new display_name (trim (fo_imap_host f)) imap_port email)
      in account\<lparr>ac_display_name := display_name, ac_username := email,
           ac_imap_host := trim (fo_imap_host f), ac_imap_port := imap_port, ac_imap_tls := Ssl,
           ac_smtp_host := trim (fo_smtp_host f), ac_smtp_port := smtp_port, ac_smtp_tls := fo_smtp_tls f,
           ac_auth := fo_auth f\<rparr>)"

definition form_ok :: "account_form \<Rightarrow> bool" where
  "form_ok f \<longleftrightarrow>
     is_email (trim (fo_email f)) \<and> is_host (trim (fo_imap_host f)) \<and> is_host (trim (fo_smtp_host f)) \<and>
     parse_port (fo_imap_port f) \<noteq> None \<and> parse_port (fo_smtp_port f) \<noteq> None \<and>
     (if fo_auth f = PasswordAuth then fo_password f \<noteq> [] else trim (fo_imap_host f) = GMAIL_IMAP_HOST)"

lemma auth_kind_cases: "k \<noteq> PasswordAuth \<longleftrightarrow> k = GoogleOAuth"
  by (cases k) simp_all

lemma to_account_accepted:
  assumes "form_ok f"
  shows "to_account f base =
    Inr (form_account f base (the (parse_port (fo_imap_port f))) (the (parse_port (fo_smtp_port f))))"
proof -
  obtain p q where "parse_port (fo_imap_port f) = Some p" "parse_port (fo_smtp_port f) = Some q"
    using assms by (auto simp: form_ok_def)
  with assms show ?thesis
    by (cases "fo_auth f"; cases base) (simp_all add: form_ok_def to_account_def form_account_def Let_def)
qed

lemma to_account_refused: "\<not> form_ok f \<Longrightarrow> \<exists>e. to_account f base = Inl e"
  by (cases "fo_auth f"; cases "parse_port (fo_imap_port f)"; cases "parse_port (fo_smtp_port f)")
    (simp_all add: form_ok_def to_account_def form_fail_def Let_def split: if_splits)

lemma to_account_Inr:
  assumes "to_account f base = Inr a"
  obtains p q where "form_ok f" and "parse_port (fo_imap_port f) = Some p"
    and "parse_port (fo_smtp_port f) = Some q" and "a = form_account f base p q"
proof -
  have ok: "form_ok f" using to_account_refused [of f base] assms by auto
  then obtain p q where "parse_port (fo_imap_port f) = Some p" "parse_port (fo_smtp_port f) = Some q"
    by (auto simp: form_ok_def)
  with ok to_account_accepted [OF ok, of base] assms that show thesis by simp
qed

text \<open>Whatever is typed, an account the form accepts is well-formed: a full address, host names
  without blanks or slashes, ports from 1 to 65535, implicit TLS for IMAP, a name to show, Google
  sign-in only at Gmail; and it keeps the id of the account it edits.\<close>

theorem accepted_accounts_ok:
  assumes "to_account f base = Inr a"
  shows "account_ok a \<and> ac_id a = (case base of Some b \<Rightarrow> ac_id b | None \<Rightarrow> form_id f)"
proof -
  obtain p q where ok: "form_ok f" and p: "parse_port (fo_imap_port f) = Some p"
    and q: "parse_port (fo_smtp_port f) = Some q" and a: "a = form_account f base p q"
    using assms by (rule to_account_Inr)
  have "account_ok a"
    using ok parse_port_Some(1) [OF p] parse_port_Some(1) [OF q] is_email_not_Nil [of "trim (fo_email f)"]
    by (cases "fo_auth f") (simp_all add: a account_ok_def form_account_def form_ok_def Let_def)
  moreover have "ac_id a = (case base of Some b \<Rightarrow> ac_id b | None \<Rightarrow> form_id f)"
    by (cases base) (simp_all add: a form_account_def form_id_def account_config_new_def Let_def)
  ultimately show ?thesis by simp
qed

definition filled_form :: account_form where
  "filled_form = \<lparr>fo_display_name = [], fo_email = lit '' me@x.org'', fo_auth = PasswordAuth,
     fo_password = lit ''pw'', fo_imap_host = lit ''imap.x.org'', fo_imap_port = lit ''993'',
     fo_smtp_host = lit ''smtp.x.org'', fo_smtp_port = lit '' 587'', fo_smtp_tls = StartTls\<rparr>"

lemmas form_eval =
  filled_form_def lit_def trim_def trim_matches_def trim_end_def trim_start_def is_whitespace_def
  is_email_def rsplit_at_def rfind_char_def is_host_def parse_port_def parse_nat_def is_digit_def
  digits_value_def

lemma filled_form_ok: "form_ok filled_form"
  by (simp add: form_ok_def form_eval)

theorem accepted_accounts_ok_witness:
  "\<exists>a. to_account filled_form None = Inr a \<and> account_ok a"
  using to_account_accepted [OF filled_form_ok, of None] accepted_accounts_ok [of filled_form None] by auto

section \<open>Opening and saving an account\<close>

lemma parse_port_text: "p \<noteq> 0 \<Longrightarrow> parse_port (port_text p) = Some p"
proof -
  assume p: "p \<noteq> 0"
  have "trim (dec_digits (unat p)) = dec_digits (unat p)"
    using dec_digits_is_digit [of "unat p"]
    by (intro trim_no_blank) (auto simp: list_all_iff is_digit_def is_whitespace_def)
  moreover have "unat p < 65536" using unsigned_less [of p] by simp
  moreover have "unat p \<noteq> 0" using p by (simp add: unsigned_eq_0_iff)
  ultimately show ?thesis by (simp add: parse_port_def port_text_def parse_nat_dec)
qed

lemma trim_typed:
  "is_email e \<Longrightarrow> trim e = e" "is_host h \<Longrightarrow> trim h = h"
  by (auto intro!: trim_no_blank simp: is_email_def is_host_def list_ex_iff split: prod.splits)

text \<open>A well-formed account that is opened in the form and saved again unchanged is accepted and
  comes back as it was, with its id, its watched folder and the age of its token.\<close>

theorem edit_round_trip:
  assumes "account_ok a" and "trim (ac_display_name a) = ac_display_name a" and "password \<noteq> []"
  shows "to_account (from_account a password) (Some a) = Inr a"
proof -
  let ?f = "from_account a password"
  have t: "trim (ac_username a) = ac_username a" "trim (ac_imap_host a) = ac_imap_host a"
    "trim (ac_smtp_host a) = ac_smtp_host a"
    using assms(1) trim_typed by (auto simp: account_ok_def)
  have p: "parse_port (fo_imap_port ?f) = Some (ac_imap_port a)" "parse_port (fo_smtp_port ?f) = Some (ac_smtp_port a)"
    using assms(1) by (simp_all add: from_account_def account_ok_def parse_port_text)
  have ok: "form_ok ?f"
    using assms p t by (cases "ac_auth a") (simp_all add: form_ok_def from_account_def account_ok_def)
  have "form_account ?f (Some a) (ac_imap_port a) (ac_smtp_port a) = a"
    using assms t by (simp add: form_account_def from_account_def account_ok_def Let_def)
  with to_account_accepted [OF ok, of "Some a"] p show ?thesis by simp
qed

theorem edit_round_trip_witness:
  "\<exists>a. to_account (from_account a (lit ''pw'')) (Some a) = Inr a \<and> ac_username a = lit ''me@x.org''"
proof -
  let ?a = "form_account filled_form None 993 587"
  have "to_account filled_form None = Inr ?a"
    using to_account_accepted [OF filled_form_ok, of None]
    by (simp add: form_eval)
  then have "account_ok ?a" using accepted_accounts_ok by blast
  moreover have "ac_display_name ?a = lit ''me@x.org''" "ac_username ?a = lit ''me@x.org''"
    by (simp_all add: form_account_def account_config_new_def Let_def form_eval)
  moreover have "trim (lit ''me@x.org'') = lit ''me@x.org''" by (simp add: form_eval)
  ultimately have "to_account (from_account ?a (lit ''pw'')) (Some ?a) = Inr ?a"
    by (intro edit_round_trip) simp_all
  with \<open>ac_username ?a = lit ''me@x.org''\<close> show ?thesis by blast
qed

section \<open>Guessed settings\<close>

text \<open>A provider is guessed with Google sign-in exactly when its server is Gmail's, so the form
  accepts the guess.\<close>

lemma detect_google:
  "detect email = Some d \<Longrightarrow> ps_auth (de_preset d) = GoogleOAuth \<Longrightarrow> ps_imap (de_preset d) = GMAIL_IMAP_HOST"
  by (auto simp: detect_def Let_def split: option.splits if_splits prod.splits)

lemma detect_unknown:
  assumes "detect email = Some d" and "\<not> de_known d"
  shows "\<exists>domain. ps_imap (de_preset d) = lit ''imap.'' @ domain \<and> ps_smtp (de_preset d) = lit ''smtp.'' @ domain \<and>
    usable_domain domain \<and> ps_auth (de_preset d) = PasswordAuth"
  using assms by (auto simp: detect_def Let_def split: option.splits if_splits prod.splits)

lemma smtp_security_agrees:
  "security_for_smtp_port port = Some tls \<Longrightarrow> smtp_security_for port = tls"
  by (auto simp: security_for_smtp_port_def smtp_security_for_def split: if_splits)

end
