(* ===== verification/Accounts.thy ===== *)
theory Accounts
  imports Sending AccountForm
begin

text \<open>
  Trying an account and saving what worked,
  \<open>crates/esmail-win32/src/core_glue/account_setup.rs\<close>: the Google sign-in, the connection test
  with its explanations, and the two stores a credential and an account are saved in.  The two
  logins of the test are arguments (\<open>None\<close>: no answer in time); a keyring entry the system does not
  store is in \<open>st_refused\<close>, one it does not delete in \<open>st_kept\<close>, and \<open>st_write_error\<close> says why \<open>config.toml\<close> cannot be written.
  The lemmas show that what is saved signs in again, that removing forgets every secret, and
  what a failure between the two stores leaves.
\<close>

section \<open>Google sign-in\<close>

definition SERVER_TIMEOUT_SECS :: nat where "SERVER_TIMEOUT_SECS = 20"

definition SECRET_KINDS :: "str list" where
  "SECRET_KINDS = [lit ''imap'', lit ''smtp'', lit ''oauth'']"

definition google_client_or_explain :: "sign_in_env \<Rightarrow> config \<Rightarrow> str + oauth_client" where
  "google_client_or_explain env config =
     (case resolve_google_client (si_environment env) (cfg_google_oauth config) (si_build env) of
        Some (client, _) \<Rightarrow> Inr client
      | None \<Rightarrow> Inl (lit ''Google sign-in needs an OAuth client id. Set ESMAIL_GOOGLE_CLIENT_ID and ESMAIL_GOOGLE_CLIENT_SECRET, or enter them under File > Settings.... See the esMail README.''))"

definition google_client_config :: "str \<Rightarrow> str \<Rightarrow> oauth_client_config option" where
  "google_client_config client_id client_secret =
     (let i = trim client_id; secret = trim client_secret in
      if i = [] then None
      else Some \<lparr>oc_client_id = i, oc_client_secret = (if secret \<noteq> [] then Some secret else None)\<rparr>)"

text \<open>\<open>google_auth\<close>: \<open>began\<close> is what preparing the sign-in gave, \<open>url\<close> parses a redirect and
  \<open>incoming\<close> are the connections to the redirect listener; the calls of \<open>awaiting_browser\<close> and
  \<open>browser_failed\<close> are the two components after the result.\<close>

definition google_auth ::
  "'w token_env \<Rightarrow> sign_in_env \<Rightarrow> (str \<Rightarrow> (str \<times> (str \<times> str) list) option) \<Rightarrow> oauth_client \<Rightarrow>
   account_config \<Rightarrow> bool \<Rightarrow> keyring \<Rightarrow> anyhow + pending_authorization \<Rightarrow> (str \<times> str option) \<Rightarrow>
   (str + connection) list \<Rightarrow> int \<Rightarrow> sources \<Rightarrow> 'w \<Rightarrow>
   (str + auth) \<times> bool \<times> str option \<times> sources \<times> 'w" where
  "google_auth env sie url client account sign_in_again kr began page incoming now_unix sources w =
     (case (if sign_in_again then None
            else get_password (si_service_var sie) (ac_id account) (lit ''oauth'') kr) of
        Some refresh_token \<Rightarrow>
          (Inr (AuthOAuth (length sources)), False, None, sources @ [from_refresh_token client refresh_token], w)
      | None \<Rightarrow>
          (let failed = (\<lambda>e. Inl (lit ''Google sign-in did not finish: '' @ err_text e)) in
           case began of
             Inl e \<Rightarrow> (failed e, True, None, sources, w)
           | Inr pending \<Rightarrow>
               (let by_hand = (case snd page of Some _ \<Rightarrow> Some (fst page) | None \<Rightarrow> None) in
                case finish_authorization env url client pending incoming w of
                  (Inl e, w) \<Rightarrow> (failed e, True, by_hand, sources, w)
                | (Inr grant, w) \<Rightarrow>
                    (case from_grant client grant now_unix of
                       Inl e \<Rightarrow> (failed e, True, by_hand, sources, w)
                     | Inr source \<Rightarrow>
                         (Inr (AuthOAuth (length sources)), True, by_hand, sources @ [source], w)))))"

section \<open>The connection test\<close>

datatype server = Imap | Smtp

definition server_name :: "server \<Rightarrow> str" where
  "server_name s = (case s of Imap \<Rightarrow> lit ''IMAP'' | Smtp \<Rightarrow> lit ''SMTP'')"

definition host_port :: "server \<Rightarrow> account_config \<Rightarrow> str \<times> u16" where
  "host_port s a =
     (case s of Imap \<Rightarrow> (ac_imap_host a, ac_imap_port a) | Smtp \<Rightarrow> (ac_smtp_host a, ac_smtp_port a))"

definition explain_timeout :: "server \<Rightarrow> account_config \<Rightarrow> str" where
  "explain_timeout server account =
     (let (host, port) = host_port server account in
      lit ''The '' @ server_name server @ lit '' server '' @ host @ lit '':'' @ dec_digits (unat port) @
      lit '' did not answer within '' @ dec_digits SERVER_TIMEOUT_SECS @
      lit '' seconds. Check the host and port, and your network.'')"

definition says :: "str \<Rightarrow> string list \<Rightarrow> bool" where
  "says lower needles = list_ex (\<lambda>n. contains (lit n) lower) needles"

definition headline :: "server \<Rightarrow> account_config \<Rightarrow> str \<Rightarrow> str" where
  "headline server account detail =
     (let (host, port) = host_port server account;
          port = dec_digits (unat port);
          name = server_name server;
          lower = to_ascii_lowercase detail
      in if says lower [''certificate'', ''cert_'', ''sec_e_'', ''untrusted'', ''self signed'', ''self-signed'', ''handshake'']
         then lit ''Could not make a secure connection to '' @ host @ lit '': the server's certificate is not trusted, or the port does not speak TLS. Check the host name and the security setting.''
         else if says lower [''no such host'', ''failed to lookup'', ''11001'', ''name or service not known'', ''nodename nor servname'', ''dns'', ''no address associated'']
         then lit ''Could not find the '' @ name @ lit '' server '' @ host @ lit ''. Check the spelling of the host name.''
         else if says lower [''refused'', ''10061'']
         then lit ''The '' @ name @ lit '' server '' @ host @ lit '' refused the connection on port '' @ port @ lit ''. Check the port, and that the server is running.''
         else if says lower [''timed out'', ''10060'', ''unreachable'', ''10065'', ''10051'']
         then lit ''The '' @ name @ lit '' server '' @ host @ lit '':'' @ port @ lit '' could not be reached. Check the host and port, and your network.''
         else if says lower [''authenticationfailed'', ''authentication failed'', ''invalid credentials'', ''login failed'', ''auth'', ''password'', ''credentials'', ''no response'']
         then (case ac_auth account of
             PasswordAuth \<Rightarrow> lit ''The '' @ name @ lit '' server rejected the email address or password. Check both; Gmail, Outlook and iCloud need an app password.''
           | GoogleOAuth \<Rightarrow> lit ''The '' @ name @ lit '' server rejected the Google sign-in. Choose Sign in again.'')
         else lit ''Could not connect to the '' @ name @ lit '' server '' @ host @ lit '':'' @ port @ lit ''.'')"

definition explain :: "server \<Rightarrow> account_config \<Rightarrow> anyhow \<Rightarrow> str" where
  "explain server account error =
     (if is_sign_in_expired error
      then lit ''Google sign-in has expired: '' @ err_text error @ lit ''. Choose Sign in again.''
      else headline server account (err_text error) @ [10] @ lit ''Server said: '' @ err_text error)"

type_synonym 'w login = "'w \<Rightarrow> (anyhow + unit) option \<times> 'w"

definition login_error :: "server \<Rightarrow> account_config \<Rightarrow> (anyhow + unit) option \<Rightarrow> str option" where
  "login_error server account r =
     (case r of
        Some (Inr _) \<Rightarrow> None
      | Some (Inl e) \<Rightarrow> Some (explain server account e)
      | None \<Rightarrow> Some (explain_timeout server account))"

definition test_account :: "account_config \<Rightarrow> auth \<Rightarrow> smtp_account" where
  "test_account account a =
     \<lparr>sm_host = ac_smtp_host account, sm_port = ac_smtp_port account, sm_tls = ac_smtp_tls account,
      sm_username = ac_username account, sm_auth = a, sm_from_address = ac_username account\<rparr>"

definition test_connection ::
  "'w login \<Rightarrow> (smtp_account \<Rightarrow> 'w login) \<Rightarrow> account_config \<Rightarrow> auth \<Rightarrow> 'w \<Rightarrow> (str + unit) \<times> 'w" where
  "test_connection imap_login smtp_login account a w =
     (case imap_login w of
        (r, w) \<Rightarrow>
          (case login_error Imap account r of
             Some e \<Rightarrow> (Inl e, w)
           | None \<Rightarrow>
               (case smtp_login (test_account account a) w of
                  (r, w) \<Rightarrow> ((case login_error Smtp account r of Some e \<Rightarrow> Inl e | None \<Rightarrow> Inr ()), w))))"

section \<open>Saving and removing\<close>

record stores =
  st_keyring :: keyring
  st_refused :: "(str \<times> str) set"
  st_kept :: "(str \<times> str) set"
  st_config :: config
  st_write_error :: "str option"

definition keyring_failed :: "str \<Rightarrow> str" where
  "keyring_failed e = lit ''Could not save the credentials to the OS keyring: '' @ e"

text \<open>\<open>secrets::set_password(..).map_err(keyring_failed)?\<close>; \<open>os\<close> is the system's message.\<close>

definition store_secret ::
  "str \<Rightarrow> str option \<Rightarrow> str \<Rightarrow> str \<Rightarrow> str \<Rightarrow> stores \<Rightarrow> (str + unit) \<times> stores" where
  "store_secret os sv account_id kind secret st =
     (if keyring_entry sv account_id kind \<in> st_refused st then (Inl (keyring_failed os), st)
      else (Inr (), st\<lparr>st_keyring := set_password sv account_id kind secret (st_keyring st)\<rparr>))"

definition forget_secret :: "str option \<Rightarrow> str \<Rightarrow> str \<Rightarrow> stores \<Rightarrow> stores" where
  "forget_secret sv account_id kind st =
     st\<lparr>st_keyring := delete_password (st_kept st) sv account_id kind (st_keyring st)\<rparr>"

definition write_config :: "config \<Rightarrow> stores \<Rightarrow> (str + config) \<times> stores" where
  "write_config saved st =
     (case st_write_error st of
        Some e \<Rightarrow> (Inl (lit ''Could not write config.toml: '' @ e), st)
      | None \<Rightarrow> (Inr saved, st\<lparr>st_config := saved\<rparr>))"

text \<open>Google's seven days start at a fresh sign-in; a token from the keyring reports no new time.\<close>

definition google_account :: "token_source \<Rightarrow> account_config \<Rightarrow> account_config" where
  "google_account source account =
     (let account = account\<lparr>ac_auth := GoogleOAuth\<rparr>
      in case ts_issued_at source of
           Some t \<Rightarrow> account\<lparr>ac_oauth_token_issued_at := Some t\<rparr> | None \<Rightarrow> account)"

definition save_account ::
  "str \<Rightarrow> str option \<Rightarrow> config \<Rightarrow> account_config \<Rightarrow> auth \<Rightarrow> sources \<Rightarrow> stores \<Rightarrow> (str + config) \<times> stores" where
  "save_account os sv config account a sources st =
     (case a of
        AuthOAuth i \<Rightarrow>
          (let source = sources ! i;
               account = google_account source account
           in case store_secret os sv (ac_id account) (lit ''oauth'') (ts_refresh_token source) st of
                (Inl e, st) \<Rightarrow> (Inl e, st)
              | (Inr _, st) \<Rightarrow>
                  write_config (upsert_account account config)
                    (forget_secret sv (ac_id account) (lit ''smtp'')
                      (forget_secret sv (ac_id account) (lit ''imap'') st)))
      | AuthPassword password \<Rightarrow>
          (let account = account\<lparr>ac_auth := PasswordAuth, ac_oauth_token_issued_at := None\<rparr>
           in case store_secret os sv (ac_id account) (lit ''imap'') password st of
                (Inl e, st) \<Rightarrow> (Inl e, st)
              | (Inr _, st) \<Rightarrow>
                  (case store_secret os sv (ac_id account) (lit ''smtp'') password st of
                     (Inl e, st) \<Rightarrow> (Inl e, st)
                   | (Inr _, st) \<Rightarrow>
                       write_config (upsert_account account config)
                         (forget_secret sv (ac_id account) (lit ''oauth'') st))))"

definition remove_saved_account ::
  "str option \<Rightarrow> config \<Rightarrow> str \<Rightarrow> stores \<Rightarrow> (str + config) \<times> stores" where
  "remove_saved_account sv config i st =
     (case write_config (remove_account i config) st of
        (Inl e, st) \<Rightarrow> (Inl e, st)
      | (Inr saved, st) \<Rightarrow> (Inr saved, fold (forget_secret sv i) SECRET_KINDS st))"

section \<open>What is saved signs in again\<close>

lemma upserted:
  "\<exists>w. account_of (ac_id a) (upsert_account a cfg) = Some (a\<lparr>ac_watch_mailbox := w\<rparr>)"
proof (cases "list_ex (\<lambda>x. ac_id x = ac_id a) (cfg_accounts cfg)")
  case True
  then obtain old where "find (\<lambda>x. ac_id x = ac_id a) (cfg_accounts cfg) = Some old"
    by (cases "find (\<lambda>x. ac_id x = ac_id a) (cfg_accounts cfg)") (auto simp: find_None_iff list_ex_iff)
  with True show ?thesis
    by (cases "ac_watch_mailbox a")
      (auto simp: account_of_def upsert_account_def find_update_first intro: exI [of _ "ac_watch_mailbox a"])
next
  case False
  then have "find (\<lambda>x. ac_id x = ac_id a) (cfg_accounts cfg) = None"
    by (auto simp: find_None_iff list_ex_iff)
  with False show ?thesis
    by (auto simp: account_of_def upsert_account_def find_append intro: exI [of _ "ac_watch_mailbox a"])
qed

lemma kinds [simp]:
  "58 \<notin> set (lit ''imap'')" "58 \<notin> set (lit ''smtp'')" "58 \<notin> set (lit ''oauth'')"
  "lit ''imap'' \<noteq> lit ''smtp''" "lit ''imap'' \<noteq> lit ''oauth''" "lit ''smtp'' \<noteq> lit ''oauth''"
  by (simp_all add: lit_def)

lemma get_delete_password:
  assumes "58 \<notin> set kind" and "58 \<notin> set kind'"
  shows "get_password sv a' kind' (delete_password kept sv a kind kr) =
    (if a = a' \<and> kind = kind' \<and> keyring_entry sv a kind \<notin> kept then None else get_password sv a' kind' kr)"
proof (cases "a = a' \<and> kind = kind'")
  case True
  then show ?thesis by (simp add: get_password_def delete_password_def)
next
  case False
  with keyring_entry_inject [OF assms, of sv a a'] have "keyring_entry sv a' kind' \<noteq> keyring_entry sv a kind" by metis
  with False show ?thesis by (auto simp: get_password_def delete_password_def)
qed

lemma store_secret_Inr:
  "store_secret os sv i kind secret st = (Inr u, st') \<Longrightarrow>
   st' = st\<lparr>st_keyring := set_password sv i kind secret (st_keyring st)\<rparr>"
  by (auto simp: store_secret_def split: if_splits)

lemma write_config_Inr:
  "write_config saved st = (Inr c, st') \<Longrightarrow> c = saved \<and> st' = st\<lparr>st_config := saved\<rparr>"
  by (auto simp: write_config_def split: option.splits)

lemma save_password_account:
  assumes "save_account os sv config account (AuthPassword p) sources st = (Inr saved, st')"
  defines "a \<equiv> account\<lparr>ac_auth := PasswordAuth, ac_oauth_token_issued_at := None\<rparr>"
  shows "saved = upsert_account a config" and "st_config st' = saved"
    and "st_keyring st' = delete_password (st_kept st) sv (ac_id a) (lit ''oauth'')
      (set_password sv (ac_id a) (lit ''smtp'') p (set_password sv (ac_id a) (lit ''imap'') p (st_keyring st)))"
  using assms
  by (auto simp: save_account_def Let_def forget_secret_def split: sum.splits prod.splits
      dest!: store_secret_Inr write_config_Inr)

text \<open>An account saved with a password signs in with it at the next start, for reading and for
  sending: both lookups of the keyring give back the password that was tried, and a refresh token
  of an earlier Google sign-in is gone unless the keyring keeps it.\<close>

theorem saved_password_signs_in:
  assumes "save_account os sv config account (AuthPassword p) sources st = (Inr saved, st')"
    and "si_service_var env = sv"
  shows "st_config st' = saved \<and>
    (keyring_entry sv (ac_id account) (lit ''oauth'') \<notin> st_kept st \<longrightarrow>
      get_password sv (ac_id account) (lit ''oauth'') (st_keyring st') = None) \<and>
    (\<exists>a smtp. account_of (ac_id account) saved = Some a \<and>
      saved_auth env saved a (st_keyring st') srcs = (Inr (AuthPassword p), srcs) \<and>
      smtp_account_of var env (st_keyring st') a (Some (AuthPassword p)) = Inr smtp \<and>
      sm_auth smtp = AuthPassword p)"
proof -
  let ?a = "account\<lparr>ac_auth := PasswordAuth, ac_oauth_token_issued_at := None\<rparr>"
  note saved = save_password_account [OF assms(1)]
  have pw: "get_password sv (ac_id account) (lit ''imap'') (st_keyring st') = Some p"
    "get_password sv (ac_id account) (lit ''smtp'') (st_keyring st') = Some p"
    "keyring_entry sv (ac_id account) (lit ''oauth'') \<notin> st_kept st \<longrightarrow>
      get_password sv (ac_id account) (lit ''oauth'') (st_keyring st') = None"
    unfolding saved(3) by (simp_all add: get_delete_password get_set_password)
  obtain w where w: "account_of (ac_id account) saved = Some (?a\<lparr>ac_watch_mailbox := w\<rparr>)"
    using upserted [of ?a config] saved(1) by auto
  moreover have "saved_auth env saved (?a\<lparr>ac_watch_mailbox := w\<rparr>) (st_keyring st') srcs = (Inr (AuthPassword p), srcs)"
    using pw assms(2) by (simp add: saved_auth_def)
  moreover have "\<exists>smtp. smtp_account_of var env (st_keyring st') (?a\<lparr>ac_watch_mailbox := w\<rparr>) (Some (AuthPassword p)) =
      Inr smtp \<and> sm_auth smtp = AuthPassword p"
    using pw assms(2) by (simp add: smtp_account_of_def)
  ultimately show ?thesis using saved(2) pw(3) by blast
qed

definition fresh_stores :: stores where
  "fresh_stores = \<lparr>st_keyring = Map.empty, st_refused = {}, st_kept = {}, st_config = config_default, st_write_error = None\<rparr>"

definition plain_env :: sign_in_env where
  "plain_env = \<lparr>si_environment = (None, None), si_build = (None, None), si_service_var = None\<rparr>"

theorem saved_password_signs_in_witness:
  "\<exists>saved st'. save_account [] None config_default (account_config_new [] [] 993 []) (AuthPassword (lit ''pw'')) []
     fresh_stores = (Inr saved, st') \<and> st_config st' = saved"
proof -
  obtain saved st' where s: "save_account [] None config_default (account_config_new [] [] 993 [])
      (AuthPassword (lit ''pw'')) [] fresh_stores = (Inr saved, st')"
    by (simp add: save_account_def store_secret_def write_config_def forget_secret_def fresh_stores_def Let_def)
  have "si_service_var plain_env = None" by (simp add: plain_env_def)
  from saved_password_signs_in [OF s this] s show ?thesis by blast
qed

text \<open>The same for Google: the refresh token of the tried source is what the next start signs in
  with, and a password that can be deleted is gone.\<close>

lemma saved_google_signs_in:
  assumes "save_account os sv config account (AuthOAuth i) sources st = (Inr saved, st')"
    and "si_service_var env = sv"
    and "resolve_google_client (si_environment env) (cfg_google_oauth saved) (si_build env) = Some (client, source)"
  shows "\<exists>a. account_of (ac_id account) saved = Some a \<and>
    saved_auth env saved a (st_keyring st') srcs =
      (Inr (AuthOAuth (length srcs)), srcs @ [from_refresh_token client (ts_refresh_token (sources ! i))])"
    and "keyring_entry sv (ac_id account) (lit ''imap'') \<notin> st_kept st \<Longrightarrow>
      get_password sv (ac_id account) (lit ''imap'') (st_keyring st') = None"
proof -
  let ?a = "google_account (sources ! i) account"
  have id: "ac_id ?a = ac_id account" and auth: "ac_auth ?a = GoogleOAuth"
    by (simp_all add: google_account_def Let_def split: option.splits)
  have saved: "saved = upsert_account ?a config"
    and kr: "st_keyring st' = delete_password (st_kept st) sv (ac_id account) (lit ''smtp'')
      (delete_password (st_kept st) sv (ac_id account) (lit ''imap'')
        (set_password sv (ac_id account) (lit ''oauth'') (ts_refresh_token (sources ! i)) (st_keyring st)))"
    using assms(1)
    by (auto simp: save_account_def Let_def forget_secret_def id split: sum.splits prod.splits
        dest!: store_secret_Inr write_config_Inr)
  have pw: "get_password sv (ac_id account) (lit ''oauth'') (st_keyring st') = Some (ts_refresh_token (sources ! i))"
    unfolding kr by (simp add: get_delete_password get_set_password)
  show "get_password sv (ac_id account) (lit ''imap'') (st_keyring st') = None"
    if "keyring_entry sv (ac_id account) (lit ''imap'') \<notin> st_kept st"
    using that unfolding kr by (simp add: get_delete_password get_set_password)
  obtain w where "account_of (ac_id account) saved = Some (?a\<lparr>ac_watch_mailbox := w\<rparr>)"
    using upserted [of ?a config] saved id by auto
  moreover have "saved_auth env saved (?a\<lparr>ac_watch_mailbox := w\<rparr>) (st_keyring st') srcs =
      (Inr (AuthOAuth (length srcs)), srcs @ [from_refresh_token client (ts_refresh_token (sources ! i))])"
    using pw assms(2,3) id auth by (simp add: saved_auth_def)
  ultimately show "\<exists>a. account_of (ac_id account) saved = Some a \<and>
    saved_auth env saved a (st_keyring st') srcs =
      (Inr (AuthOAuth (length srcs)), srcs @ [from_refresh_token client (ts_refresh_token (sources ! i))])"
    by blast
qed

section \<open>Failures and removal\<close>

text \<open>A keyring that refuses the first secret leaves both stores as they were; the configuration is
  written only when every secret was stored.\<close>

lemma refused_keyring_keeps_config:
  assumes "save_account os sv config account a sources st = (Inl e, st')"
  shows "st_config st' = st_config st"
  using assms
  by (cases a) (auto simp: save_account_def store_secret_def write_config_def forget_secret_def Let_def
      split: if_splits option.splits)

text \<open>When the configuration cannot be written after the keyring was changed, the saved account
  still asks for the password the sign-in with Google has just deleted: a password account that
  was switched to Google cannot sign in any more.\<close>

theorem failed_write_loses_password:
  assumes "st_write_error st = Some e" and "st_refused st = {}" and "st_kept st = {}" and "si_service_var env = sv"
    and "ac_auth account = PasswordAuth"
  shows "\<exists>st'. save_account os sv (st_config st) account (AuthOAuth i) sources st =
      (Inl (lit ''Could not write config.toml: '' @ e), st') \<and>
    st_config st' = st_config st \<and>
    saved_auth env (st_config st') account (st_keyring st') srcs = (Inl (lit ''no saved password''), srcs)"
proof -
  have id: "ac_id (google_account (sources ! i) account) = ac_id account"
    by (simp add: google_account_def Let_def split: option.splits)
  show ?thesis
    using assms id
    by (simp add: save_account_def store_secret_def write_config_def forget_secret_def Let_def saved_auth_def
        get_delete_password)
qed

text \<open>Removing an account: it is in the configuration no more, the other accounts are as they were, and
  of its three secrets the keyring holds only what the system would not delete, of which nobody is told;
  when the configuration cannot be written nothing is forgotten.\<close>

theorem removed_account_secrets:
  assumes "remove_saved_account sv config i st = (r, st')"
  shows "case r of
      Inl e \<Rightarrow> st' = st
    | Inr saved \<Rightarrow>
        st_config st' = saved \<and> account_of i saved = None \<and>
        cfg_accounts saved = filter (\<lambda>a. ac_id a \<noteq> i) (cfg_accounts config) \<and>
        list_all (\<lambda>kind. get_password sv i kind (st_keyring st') =
          (if keyring_entry sv i kind \<in> st_kept st then get_password sv i kind (st_keyring st) else None)) SECRET_KINDS"
proof (cases r)
  case (Inl e)
  with assms show ?thesis
    by (auto simp: remove_saved_account_def write_config_def split: option.splits)
next
  case (Inr saved)
  then have saved: "saved = remove_account i config"
    and st': "st' = fold (forget_secret sv i) SECRET_KINDS (st\<lparr>st_config := saved\<rparr>)"
    using assms by (auto simp: remove_saved_account_def write_config_def split: option.splits)
  have "account_of i saved = None"
    by (auto simp: saved account_of_def remove_account_def find_None_iff)
  moreover have "list_all (\<lambda>kind. get_password sv i kind (st_keyring st') =
      (if keyring_entry sv i kind \<in> st_kept st then get_password sv i kind (st_keyring st) else None)) SECRET_KINDS"
    unfolding st' by (simp add: SECRET_KINDS_def forget_secret_def get_delete_password)
  moreover have "st_config st' = saved" by (simp add: st' SECRET_KINDS_def forget_secret_def)
  ultimately show ?thesis using Inr saved by (simp add: remove_account_def)
qed

theorem removed_account_secrets_witness:
  "get_password None (lit ''x'') (lit ''imap'') (st_keyring (snd (remove_saved_account None config_default (lit ''x'')
     fresh_stores))) = None"
proof -
  obtain saved st' where r: "remove_saved_account None config_default (lit ''x'') fresh_stores = (Inr saved, st')"
    by (simp add: remove_saved_account_def write_config_def fresh_stores_def)
  from removed_account_secrets [OF r] show ?thesis unfolding r by (simp add: SECRET_KINDS_def) (simp add: fresh_stores_def)
qed

text \<open>The test passes exactly when both logins answer in time and succeed, and SMTP is not tried
  before IMAP has.\<close>

lemma test_connection_ok:
  "test_connection imap_login smtp_login account a w = (Inr (), w') \<longleftrightarrow>
     (\<exists>w1. imap_login w = (Some (Inr ()), w1) \<and> smtp_login (test_account account a) w1 = (Some (Inr ()), w'))"
  by (auto simp: test_connection_def login_error_def split: prod.splits option.splits sum.splits)

lemma imap_failure_stops:
  "imap_login w = (Some (Inl e), w1) \<Longrightarrow>
   test_connection imap_login smtp_login account a w = (Inl (explain Imap account e), w1)"
  by (simp add: test_connection_def login_error_def)

text \<open>The server's own words are always part of the explanation.\<close>

lemma explain_keeps_detail:
  "\<exists>pre post. explain server account error = pre @ err_text error @ post"
  by (auto simp: explain_def intro: exI [of _ "lit ''Google sign-in has expired: ''"]
      exI [of _ "headline server account (err_text error) @ [10] @ lit ''Server said: ''"]
      exI [of _ "[]"])

lemma google_client_config_trims:
  "google_client_config i s = Some c \<Longrightarrow> oc_client_id c \<noteq> [] \<and> oc_client_secret c \<noteq> Some []"
  by (auto simp: google_client_config_def Let_def split: if_splits)

end
