(* ===== verification/Contacts.thy ===== *)
theory Contacts
  imports Compose
begin

text \<open>
  Recipient suggestions: the contacts of \<open>crates/esmail/src/contacts.rs\<close>, gathered from message
  headers, what a half-typed recipient matches, the text edit accepting one makes, and the
  compose window's side of it in \<open>crates/esmail-win32/src/app/compose/recipients.rs\<close>, which
  counts in UTF-16.  The lemmas show that contacts have distinct addresses, that suggestions are
  new and ordered, and that accepting one replaces exactly the recipient being typed.
\<close>

section \<open>Contacts\<close>

record contact =
  co_address :: str
  co_display :: str

definition recipient_address :: "str \<Rightarrow> str option" where
  "recipient_address field =
     (let field = trim field;
          addr = (case (rfind_char lt_char field, rfind_char gt_char field) of
              (Some o1, Some c1) \<Rightarrow> if o1 < c1 then take (c1 - Suc o1) (drop (Suc o1) field) else field
            | _ \<Rightarrow> field);
          addr = trim addr
      in case split_once at_char addr of
           None \<Rightarrow> None
         | Some (local, domain) \<Rightarrow>
             if local \<noteq> [] \<and> domain \<noteq> [] then Some (to_ascii_lowercase addr) else None)"

definition contact_from_field :: "str \<Rightarrow> contact option" where
  "contact_from_field field =
     map_option (\<lambda>a. \<lparr>co_address = a, co_display = trim field\<rparr>) (recipient_address (trim field))"

definition add_contact :: "contact list \<Rightarrow> contact \<Rightarrow> contact list" where
  "add_contact cs c =
     (if list_ex (\<lambda>e. co_address e = co_address c) cs
      then update_first (\<lambda>e. co_address e = co_address c)
             (\<lambda>e. if eq_ignore_ascii_case (co_display e) (co_address e) then e\<lparr>co_display := co_display c\<rparr> else e) cs
      else cs @ [c])"

definition header_entries :: "mail_header \<Rightarrow> str list" where
  "header_entries h = split_addresses (mh_from h) @ split_addresses (mh_to h)"

definition contacts_from_headers :: "mail_header list \<Rightarrow> str list \<Rightarrow> contact list" where
  "contacts_from_headers headers own =
     foldl add_contact [] (filter_map contact_from_field (own @ concat (map header_entries headers)))"

definition addresses_in :: "str \<Rightarrow> str list" where
  "addresses_in field = map co_address (filter_map contact_from_field (split_addresses field))"

text \<open>\<open>sort_by_key\<close> on a flag is stable: the entries that start with the query, then the rest.\<close>

definition matching :: "contact list \<Rightarrow> str \<Rightarrow> str \<Rightarrow> nat \<Rightarrow> contact list" where
  "matching cs query field limit =
     (let query = to_ascii_lowercase (trim query) in
      if query = [] then []
      else (let found = filter (\<lambda>c. co_address c \<notin> set (addresses_in field) \<and>
                  (contains query (co_address c) \<or> contains query (to_ascii_lowercase (co_display c)))) cs
            in take limit (sort_key (\<lambda>c. \<not> starts_with query (co_address c)) found)))"

section \<open>Editing a recipient field\<close>

definition token_bounds :: "str \<Rightarrow> nat \<Rightarrow> nat \<times> nat" where
  "token_bounds chars cursor =
     (let cursor = min cursor (length chars)
      in ((case rfind_char 44 (take cursor chars) of Some i \<Rightarrow> Suc i | None \<Rightarrow> 0),
          (case find_char 44 (drop cursor chars) of Some i \<Rightarrow> cursor + i | None \<Rightarrow> length chars)))"

definition recipient_token :: "str \<Rightarrow> nat \<Rightarrow> str" where
  "recipient_token t cursor =
     (let (start, stop) = token_bounds t cursor in trim (take (stop - start) (drop start t)))"

definition complete_recipient :: "str \<Rightarrow> nat \<Rightarrow> str \<Rightarrow> str \<times> nat" where
  "complete_recipient t cursor insertion =
     (let (start, stop) = token_bounds t cursor;
          out = take start t @ (if 0 < start then [32] else []) @ insertion @ lit '', '' @
            (if stop < length t then trim_start is_whitespace (drop (Suc stop) t) else [])
      in (out, start + (if 0 < start then 1 else 0) + length insertion + 2))"

section \<open>The compose window\<close>

definition len_utf16 :: "uchar \<Rightarrow> nat" where
  "len_utf16 c = (if c < 65536 then 1 else 2)"

definition utf16_len :: "str \<Rightarrow> nat" where
  "utf16_len s = sum_list (map len_utf16 s)"

fun char_index_from :: "nat \<Rightarrow> nat \<Rightarrow> str \<Rightarrow> nat \<Rightarrow> nat" where
  "char_index_from index seen [] units = index"
| "char_index_from index seen (c # cs) units =
     (if units \<le> seen then index else char_index_from (Suc index) (seen + len_utf16 c) cs units)"

definition char_index :: "str \<Rightarrow> nat \<Rightarrow> nat" where
  "char_index t units = char_index_from 0 0 t units"

record suggester =
  sg_contacts :: "contact list"
  sg_shown :: "str list"

definition MAX_SUGGESTIONS :: nat where "MAX_SUGGESTIONS = 4"

definition suggester_update :: "str \<Rightarrow> nat \<Rightarrow> suggester \<Rightarrow> suggester" where
  "suggester_update t caret s =
     (let token = recipient_token t (char_index t caret)
      in s\<lparr>sg_shown := map co_display (matching (sg_contacts s) token t MAX_SUGGESTIONS)\<rparr>)"

definition suggester_clear :: "suggester \<Rightarrow> suggester" where
  "suggester_clear s = s\<lparr>sg_shown := []\<rparr>"

definition suggester_get :: "suggester \<Rightarrow> nat \<Rightarrow> str option" where
  "suggester_get s i = (if i < length (sg_shown s) then Some (sg_shown s ! i) else None)"

definition accept_suggestion :: "str \<Rightarrow> nat \<Rightarrow> str \<Rightarrow> str \<times> nat" where
  "accept_suggestion t caret suggestion =
     (let (t', c) = complete_recipient t (char_index t caret) suggestion
      in (t', utf16_len (take c t')))"

section \<open>Gathering\<close>

lemma add_contact_addresses:
  "map co_address (add_contact cs c) =
     (if co_address c \<in> co_address ` set cs then map co_address cs else map co_address cs @ [co_address c])"
proof (cases "list_ex (\<lambda>e. co_address e = co_address c) cs")
  case True
  then have "co_address c \<in> co_address ` set cs" by (auto simp: list_ex_iff intro: rev_image_eqI)
  with True show ?thesis by (simp add: add_contact_def map_update_first)
next
  case False
  then have "co_address c \<notin> co_address ` set cs" by (auto simp: list_ex_iff)
  with False show ?thesis by (simp add: add_contact_def)
qed

lemma foldl_add_contact:
  "distinct (map co_address cs) \<Longrightarrow> distinct (map co_address (foldl add_contact cs xs)) \<and>
     co_address ` set (foldl add_contact cs xs) = co_address ` set cs \<union> co_address ` set xs"
proof (induction xs arbitrary: cs)
  case (Cons x xs)
  have "distinct (map co_address (add_contact cs x))"
    and "co_address ` set (add_contact cs x) = insert (co_address x) (co_address ` set cs)"
    using Cons.prems arg_cong [OF add_contact_addresses [of cs x], of set]
    by (auto simp: add_contact_addresses simp flip: set_map split: if_splits)
  with Cons.IH [of "add_contact cs x"] show ?case by auto
qed simp

text \<open>The suggestions know every address once: no two contacts share an address, and an address
  is known exactly when an account has it or a header names it in From or To.\<close>

theorem contacts_cover_headers:
  "distinct (map co_address (contacts_from_headers headers own)) \<and>
   co_address ` set (contacts_from_headers headers own) =
     set (filter_map recipient_address (map trim (own @ concat (map header_entries headers))))"
proof -
  have "co_address ` set (filter_map contact_from_field xs) = set (filter_map recipient_address (map trim xs))" for xs
    by (induction xs) (auto simp: contact_from_field_def split: option.splits)
  then show ?thesis
    using foldl_add_contact [of "[]"] unfolding contacts_from_headers_def
    by (metis (no_types, lifting) Un_empty_left distinct.simps(1) image_empty list.simps(8) set_empty)
qed

lemma recipient_address_lower: "recipient_address f = Some a \<Longrightarrow> to_ascii_lowercase a = a"
  by (auto simp: recipient_address_def Let_def to_ascii_lowercase_def comp_def split: option.splits if_splits prod.splits)

text \<open>A suggestion is one of the contacts, not yet in the field, and matches the query; there are at
  most \<open>limit\<close>.\<close>

lemma matching_sound:
  assumes "c \<in> set (matching cs query field limit)"
  shows "c \<in> set cs \<and> co_address c \<notin> set (addresses_in field) \<and> trim query \<noteq> []"
  using assms by (auto simp: matching_def Let_def to_ascii_lowercase_def split: if_splits dest!: in_set_takeD)

lemma matching_length: "length (matching cs query field limit) \<le> limit"
  by (simp add: matching_def Let_def)

lemma matching_prefix_first:
  "sorted (map (\<lambda>c. \<not> starts_with (to_ascii_lowercase (trim query)) (co_address c)) (matching cs query field limit))"
  by (simp add: matching_def Let_def sorted_wrt_take take_map [symmetric])

section \<open>UTF-16 positions\<close>

lemma len_utf16_pos: "0 < len_utf16 c"
  by (simp add: len_utf16_def)

lemma char_index_from_prefix:
  "char_index_from index seen (p @ q) (seen + utf16_len p) =
     index + length p"
proof (induction p arbitrary: index seen)
  case Nil
  then show ?case by (cases q) (simp_all add: utf16_len_def)
next
  case (Cons c p)
  have "\<not> seen + utf16_len (c # p) \<le> seen" using len_utf16_pos [of c] by (simp add: utf16_len_def)
  moreover have "seen + utf16_len (c # p) = (seen + len_utf16 c) + utf16_len p" by (simp add: utf16_len_def)
  ultimately show ?case
    using Cons.IH [of "Suc index" "seen + len_utf16 c"] by (simp del: add.assoc add: add.assoc [symmetric])
qed

lemma char_index_utf16: "k \<le> length t \<Longrightarrow> char_index t (utf16_len (take k t)) = k"
  using char_index_from_prefix [of 0 0 "take k t" "drop k t"] by (simp add: char_index_def min_def)

lemma char_index_le: "char_index t units \<le> length t"
proof -
  have "char_index_from index seen t units \<le> index + length t" for index seen
  proof (induction t arbitrary: index seen)
    case (Cons c t)
    then show ?case using Cons.IH [of "Suc index" "seen + len_utf16 c"] by simp
  qed simp
  then show ?thesis by (simp add: char_index_def) (metis add_0)
qed

section \<open>Accepting a suggestion\<close>

lemma split_on_delim: "P c \<Longrightarrow> split_on P (x @ c # y) = split_on P x @ split_on P y"
proof (induction x)
  case (Cons d x)
  then show ?case by (cases "split_on P x") auto
qed simp

lemma split_addresses_comma: "split_addresses (x @ 44 # y) = split_addresses x @ split_addresses y"
  by (simp add: split_addresses_def split_on_delim)

lemma trim_blank_Cons: "is_whitespace c \<Longrightarrow> trim (c # s) = trim s"
  by (simp add: trim_def trim_matches_def trim_start_def)

lemma split_addresses_blank:
  assumes "is_whitespace c"
  shows "split_addresses (c # s) = split_addresses s"
proof -
  have "c \<noteq> 44" using assms by (auto simp: is_whitespace_def)
  then show ?thesis
    by (cases "split_on (\<lambda>c. c = 44) s") (simp_all add: split_addresses_def trim_blank_Cons [OF assms])
qed

lemma split_addresses_trim_start: "split_addresses (trim_start is_whitespace s) = split_addresses s"
  by (induction s) (simp_all add: trim_start_def split_addresses_blank)

lemma split_addresses_one: "44 \<notin> set s \<Longrightarrow> split_addresses s = (if trim s = [] then [] else [trim s])"
proof -
  assume "44 \<notin> set s"
  then have "split_on (\<lambda>c. c = 44) s = [s]" by (intro split_on_id) auto
  then show ?thesis by (simp add: split_addresses_def)
qed

lemma token_bounds_split:
  assumes "token_bounds t cursor = (start, stop)"
  shows "start \<le> stop" and "stop \<le> length t"
    and "44 \<notin> set (take (stop - start) (drop start t))"
    and "take start t = [] \<or> (\<exists>x. take start t = x @ [44])"
    and "stop < length t \<Longrightarrow> t ! stop = 44"
proof -
  define c where "c = min cursor (length t)"
  have start: "start = (case rfind_char 44 (take c t) of Some i \<Rightarrow> Suc i | None \<Rightarrow> 0)"
    and stop: "stop = (case find_char 44 (drop c t) of Some i \<Rightarrow> c + i | None \<Rightarrow> length t)"
    using assms by (auto simp: token_bounds_def Let_def simp flip: c_def)
  have c: "c \<le> length t" by (simp add: c_def)
  obtain p where p: "44 \<notin> set p" "take c t = take start t @ p"
    and s4: "take start t = [] \<or> (\<exists>x. take start t = x @ [44])" and le: "start \<le> length t"
  proof (cases "rfind_char 44 (take c t)")
    case None
    have "start = 0" unfolding start None by simp
    with None show thesis using that [of "take c t"] by simp
  next
    case (Some i)
    then obtain a b where ab: "take c t = a @ 44 # b" "44 \<notin> set b" "i = length a"
      by (auto simp: rfind_char_Some)
    have "length (take c t) = c" using c by simp
    then have "Suc i \<le> c" by (simp add: ab)
    then have "take (Suc i) t = take (Suc i) (take c t)" by (simp add: min_def)
    also have "\<dots> = a @ [44]" using ab by simp
    finally show thesis using that [of b] ab Some start \<open>Suc i \<le> c\<close> c by simp
  qed
  have len: "length (take c t) = c" using c by simp
  have "length (take start t @ p) = c" unfolding p(2) [symmetric] by (rule len)
  then have sp: "start + length p = c" using le by simp
  obtain q r where q: "44 \<notin> set q" "drop c t = q @ r" "stop = c + length q" and r: "r = [] \<or> hd r = 44"
  proof (cases "find_char 44 (drop c t)")
    case None
    have "stop = length t" unfolding stop None by simp
    with None c show thesis using that [of "drop c t" "[]"] by simp
  next
    case (Some i)
    then obtain a b where "drop c t = a @ 44 # b" "44 \<notin> set a" "i = length a"
      by (auto simp: find_char_Some)
    then show thesis using that [of a "44 # b"] Some stop by simp
  qed
  have t: "t = take start t @ p @ q @ r"
    using append_take_drop_id [of c t] p(2) q(2) by simp
  have st: "length (take start t) = start" using sp c by simp
  show "start \<le> stop" using sp q(3) by simp
  show "stop \<le> length t" using arg_cong [OF q(2), of length] q(3) c by simp
  have "drop start t = p @ q @ r"
    using append_eq_conv_conj [of "take start t" "p @ q @ r" t] t st by simp
  moreover have "stop - start = length (p @ q)" using sp q(3) by simp
  ultimately have "take (stop - start) (drop start t) = p @ q" by simp
  then show "44 \<notin> set (take (stop - start) (drop start t))" using p(1) q(1) by simp
  show "take start t = [] \<or> (\<exists>x. take start t = x @ [44])" by (rule s4)
  show "t ! stop = 44" if "stop < length t"
  proof -
    have "r \<noteq> []" using that arg_cong [OF q(2), of length] q(3) c by auto
    have "t ! stop = drop c t ! length q" using q(3) c that by simp
    also have "\<dots> = 44" using r \<open>r \<noteq> []\<close> by (simp add: q(2) nth_append hd_conv_nth)
    finally show ?thesis .
  qed
qed

lemma split_addresses_after_comma: "split_addresses [44] = []" "split_addresses [] = []"
  by (simp_all add: split_addresses_def trim_def trim_matches_def trim_start_def trim_end_def)

text \<open>Accepting a suggestion replaces exactly the recipient that was being typed: the field held
  the recipients before the caret's token, at most one in it, and those after it; it then holds
  the same ones before and after, with the suggestion between, and the caret stands just behind
  it.\<close>

theorem accepted_suggestion_replaces_token:
  assumes "44 \<notin> set insertion" and "trim insertion = insertion" and "insertion \<noteq> []"
    and "complete_recipient t cursor insertion = (t', caret)"
  shows "\<exists>before after. split_addresses t =
      before @ (if recipient_token t cursor = [] then [] else [recipient_token t cursor]) @ after \<and>
    split_addresses t' = before @ [insertion] @ after \<and>
    split_addresses (take caret t') = before @ [insertion]"
proof -
  obtain start stop where tb: "token_bounds t cursor = (start, stop)" by fastforce
  note b = token_bounds_split [OF tb]
  let ?pre = "take start t" and ?tok = "take (stop - start) (drop start t)"
  let ?rest = "if stop < length t then trim_start is_whitespace (drop (Suc stop) t) else []"
  let ?after = "split_addresses (drop (Suc stop) t)"
  have t: "t = ?pre @ ?tok @ drop stop t"
    using b(1) by (metis append_assoc append_take_drop_id drop_drop le_add_diff_inverse2 take_add
        ordered_cancel_comm_monoid_diff_class.add_diff_inverse)
  have pre: "split_addresses (?pre @ y) = split_addresses ?pre @ split_addresses y" for y
    using b(4) split_addresses_comma [of _ y] split_addresses_comma [of _ "[]"] split_addresses_after_comma
    by fastforce
  have tail: "split_addresses (?tok @ drop stop t) = split_addresses ?tok @ ?after"
  proof (cases "stop < length t")
    case True
    then have "drop stop t = 44 # drop (Suc stop) t" using b(5) by (simp add: Cons_nth_drop_Suc [symmetric])
    then show ?thesis by (simp add: split_addresses_comma)
  next
    case False
    then show ?thesis by (simp add: split_addresses_after_comma)
  qed
  have tok: "split_addresses ?tok = (if recipient_token t cursor = [] then [] else [recipient_token t cursor])"
    using split_addresses_one [OF b(3)] by (simp add: recipient_token_def tb)
  have old: "split_addresses t = split_addresses ?pre @ split_addresses ?tok @ ?after"
    by (subst t) (simp add: pre tail)
  let ?sp = "if 0 < start then [32] else [] :: str"
  have sp: "split_addresses (?sp @ y) = split_addresses y" for y
    by (simp add: split_addresses_blank is_whitespace_def)
  have ins: "split_addresses insertion = [insertion]" using assms(1-3) by (simp add: split_addresses_one)
  have new: "t' = ?pre @ ?sp @ insertion @ 44 # 32 # ?rest"
    and caret: "caret = start + length ?sp + length insertion + 2"
    using assms(4) tb by (auto simp: complete_recipient_def lit_def)
  have rest: "split_addresses (32 # ?rest) = ?after"
    by (simp add: split_addresses_blank is_whitespace_def split_addresses_trim_start split_addresses_after_comma)
  have "split_addresses t' = split_addresses ?pre @ [insertion] @ ?after"
    unfolding new by (simp only: pre sp split_addresses_comma rest ins)
  moreover have "length (?pre @ ?sp @ insertion @ [44, 32]) = caret"
    using b(1,2) by (simp add: caret)
  then have "take caret ((?pre @ ?sp @ insertion @ [44, 32]) @ ?rest) = ?pre @ ?sp @ insertion @ [44, 32]"
    by (metis append_eq_conv_conj)
  then have "take caret t' = ?pre @ ?sp @ insertion @ 44 # [32]" by (simp add: new)
  then have "split_addresses (take caret t') = split_addresses ?pre @ [insertion]"
    using split_addresses_blank [of 32 "[]"] split_addresses_after_comma
    by (simp only: pre sp split_addresses_comma ins) (simp add: is_whitespace_def)
  ultimately show ?thesis using old tok by auto
qed

theorem accepted_suggestion_replaces_token_witness:
  "\<exists>t' caret. complete_recipient (lit ''a@x, bo'') 7 (lit ''bob@y'') = (t', caret) \<and>
     split_addresses t' = [lit ''a@x'', lit ''bob@y'']"
proof -
  obtain t' caret where c: "complete_recipient (lit ''a@x, bo'') 7 (lit ''bob@y'') = (t', caret)" by fastforce
  have "recipient_token (lit ''a@x, bo'') 7 = lit ''bo''"
    by (simp add: recipient_token_def token_bounds_def rfind_char_def lit_def trim_def trim_matches_def
        trim_start_def trim_end_def is_whitespace_def)
  moreover have "split_addresses (lit ''a@x, bo'') = [lit ''a@x'', lit ''bo'']"
    by (simp add: split_addresses_def lit_def trim_def trim_matches_def trim_start_def trim_end_def is_whitespace_def)
  moreover have "44 \<notin> set (lit ''bob@y'')" "trim (lit ''bob@y'') = lit ''bob@y''" "lit ''bob@y'' \<noteq> []"
    by (simp_all add: lit_def trim_def trim_matches_def trim_start_def trim_end_def is_whitespace_def)
  ultimately obtain before after where "[lit ''a@x'', lit ''bo''] = before @ [lit ''bo''] @ after"
    and new: "split_addresses t' = before @ [lit ''bob@y''] @ after"
    using accepted_suggestion_replaces_token [OF _ _ _ c] by auto
  then have "before = [lit ''a@x''] \<and> after = []" by (auto simp: Cons_eq_append_conv lit_def)
  then have "split_addresses t' = [lit ''a@x'', lit ''bob@y'']"
    using new by simp
  with c show ?thesis by blast
qed

end
