(* ===== verification/Ipc.thy ===== *)
theory Ipc
  imports Prelude
begin

unbundle bit_operations_syntax

text \<open>
  The channel between the window and the background listener, \<open>crates/esmail/src/ipc/\<close>: the
  messages, the bounded JSON lines and the handshake (\<open>connection.rs\<close>), the session token
  (\<open>token.rs\<close>), the endpoint name and the in-process transport (\<open>mod.rs\<close>, \<open>memory.rs\<close>).  The
  JSON encoder and decoder are the parameters \<open>enc\<close> and \<open>dec\<close>; a stream is what its peer sends
  before the timeout.  The lemmas show that nobody without the token reads a byte, that the two
  ends agree, and that a name has one listener.
\<close>

section \<open>Messages\<close>

definition PROTOCOL_VERSION :: u32 where "PROTOCOL_VERSION = 1"

datatype to_listener = Hello str u32 | ConfigChanged

datatype to_gui = Welcome u32 | ShowWindow | OpenAccount str | QuitWindow

section \<open>The token\<close>

definition hex_nibble :: "nat \<Rightarrow> uchar" where
  "hex_nibble n = (if n < 10 then 48 + n else 87 + n)"

definition hex_byte :: "byte \<Rightarrow> str" where
  "hex_byte b = [hex_nibble (b div 16), hex_nibble (b mod 16)]"

definition token_of_bytes :: "byte list \<Rightarrow> str" where
  "token_of_bytes random32 = concat (map hex_byte random32)"

definition token_write :: "str \<Rightarrow> byte list" where
  "token_write token = utf8 token"

definition token_read :: "byte list \<Rightarrow> str option" where
  "token_read content = map_option trim (from_utf8 content)"

definition difference :: "8 word \<Rightarrow> byte \<times> byte \<Rightarrow> 8 word" where
  "difference d = (\<lambda>(x, y). d OR (of_nat x XOR of_nat y))"

definition token_matches :: "str \<Rightarrow> str \<Rightarrow> bool" where
  "token_matches a b \<longleftrightarrow>
     length (utf8 a) = length (utf8 b) \<and> foldl difference 0 (zip (utf8 a) (utf8 b)) = 0"

definition endpoint_for_data_dir :: "(byte list \<Rightarrow> byte list) \<Rightarrow> str \<Rightarrow> str" where
  "endpoint_for_data_dir sha256 dir = lit ''esmail-'' @ concat (map hex_byte (take 8 (sha256 (utf8 dir))))"

section \<open>Lines over a stream\<close>

text \<open>A stream, seen from one end: the bytes the peer has sent in time and the reader has not
  taken, whether the peer closed it, whether writing to it fails, and what was written.\<close>

record stream =
  sx_incoming :: "byte list"
  sx_closed :: bool
  sx_broken :: bool
  sx_written :: "byte list"

definition MAX_LINE :: nat where "MAX_LINE = 16 * 1024"

text \<open>\<open>take(n).read_until(b'\n')\<close>: up to and with the newline, at most \<open>n\<close> bytes.\<close>

fun take_line :: "nat \<Rightarrow> byte list \<Rightarrow> byte list" where
  "take_line 0 bs = []"
| "take_line (Suc n) [] = []"
| "take_line (Suc n) (b # bs) = (if b = 10 then [10] else b # take_line n bs)"

datatype 'm received = Waiting | Closed | Invalid | Got 'm

definition conn_recv :: "(byte list \<Rightarrow> 'm option) \<Rightarrow> stream \<Rightarrow> 'm received \<times> stream" where
  "conn_recv dec s =
     (let line = take_line (MAX_LINE + 1) (sx_incoming s);
          s' = s\<lparr>sx_incoming := drop (length line) (sx_incoming s)\<rparr>;
          newline = (line \<noteq> [] \<and> last line = 10)
      in if \<not> newline \<and> length line \<le> MAX_LINE \<and> \<not> sx_closed s then (Waiting, s)
         else if line = [] then (Closed, s')
         else if \<not> newline \<and> length line > MAX_LINE then (Invalid, s')
         else (case dec line of Some m \<Rightarrow> (Got m, s') | None \<Rightarrow> (Invalid, s')))"

definition conn_send :: "('m \<Rightarrow> byte list) \<Rightarrow> 'm \<Rightarrow> stream \<Rightarrow> bool \<times> stream" where
  "conn_send enc m s =
     (if sx_broken s then (False, s) else (True, s\<lparr>sx_written := sx_written s @ enc m @ [10]\<rparr>))"

section \<open>The handshake\<close>

definition handshake ::
  "(to_gui \<Rightarrow> byte list) \<Rightarrow> (byte list \<Rightarrow> to_listener option) \<Rightarrow> str \<Rightarrow> stream \<Rightarrow> bool \<times> stream" where
  "handshake enc dec token s =
     (case conn_recv dec s of
        (Got (Hello t version), s) \<Rightarrow>
          if version = PROTOCOL_VERSION \<and> token_matches t token
          then conn_send enc (Welcome PROTOCOL_VERSION) s else (False, s)
      | (_, s) \<Rightarrow> (False, s))"

text \<open>\<open>accept\<close> over the connections that arrive: the ones that were refused, and the first that was
  let in, or the error of the transport; \<open>None\<close>: still waiting.\<close>

fun server_accept ::
  "(to_gui \<Rightarrow> byte list) \<Rightarrow> (byte list \<Rightarrow> to_listener option) \<Rightarrow> str \<Rightarrow> (str + stream) list \<Rightarrow>
   stream list \<times> (str + stream) option" where
  "server_accept enc dec token [] = ([], None)"
| "server_accept enc dec token (Inl e # arriving) = ([], Some (Inl e))"
| "server_accept enc dec token (Inr s # arriving) =
     (case handshake enc dec token s of
        (True, s) \<Rightarrow> ([], Some (Inr s))
      | (False, s) \<Rightarrow>
          (case server_accept enc dec token arriving of (refused, r) \<Rightarrow> (s # refused, r)))"

datatype connect_error = CannotReach | PermissionDenied | TimedOut

definition connect_hello ::
  "(to_listener \<Rightarrow> byte list) \<Rightarrow> str \<Rightarrow> stream \<Rightarrow> bool \<times> stream" where
  "connect_hello enc token s = conn_send enc (Hello token PROTOCOL_VERSION) s"

definition connect_welcome :: "(byte list \<Rightarrow> to_gui option) \<Rightarrow> stream \<Rightarrow> connect_error + stream" where
  "connect_welcome dec s =
     (case conn_recv dec s of
        (Got (Welcome version), s) \<Rightarrow> if version = PROTOCOL_VERSION then Inr s else Inl PermissionDenied
      | (Waiting, s) \<Rightarrow> Inl TimedOut
      | (_, s) \<Rightarrow> Inl PermissionDenied)"

section \<open>The in-process transport\<close>

text \<open>The table of names, the connections waiting at each listener, and the next addresses.\<close>

record memory =
  my_endpoints :: "str \<rightharpoonup> nat"
  my_incoming :: "nat \<Rightarrow> nat list"
  my_names :: "nat \<Rightarrow> str"
  my_next :: nat

definition memory_bind :: "str \<Rightarrow> memory \<Rightarrow> (nat \<times> memory) option" where
  "memory_bind name m =
     (if my_endpoints m name \<noteq> None then None
      else Some (my_next m, m\<lparr>my_endpoints := (my_endpoints m)(name \<mapsto> my_next m),
             my_incoming := (my_incoming m)(my_next m := []), my_names := (my_names m)(my_next m := name),
             my_next := Suc (my_next m)\<rparr>))"

definition memory_connect :: "str \<Rightarrow> memory \<Rightarrow> (nat \<times> memory) option" where
  "memory_connect name m =
     (case my_endpoints m name of
        None \<Rightarrow> None
      | Some l \<Rightarrow> Some (my_next m, m\<lparr>my_incoming := (my_incoming m)(l := my_incoming m l @ [my_next m]),
             my_next := Suc (my_next m)\<rparr>))"

definition memory_accept :: "nat \<Rightarrow> memory \<Rightarrow> (nat \<times> memory) option" where
  "memory_accept l m =
     (case my_incoming m l of
        [] \<Rightarrow> None
      | c # cs \<Rightarrow> Some (c, m\<lparr>my_incoming := (my_incoming m)(l := cs)\<rparr>))"

definition memory_drop :: "nat \<Rightarrow> memory \<Rightarrow> memory" where
  "memory_drop l m = m\<lparr>my_endpoints := (my_endpoints m)(my_names m l := None)\<rparr>"

section \<open>Comparing tokens\<close>

lemma utf8_byte: "list_all is_scalar s \<Longrightarrow> b \<in> set (utf8 s) \<Longrightarrow> b < 256"
  by (auto simp: utf8_def utf8_char_def list_all_iff is_scalar_def split: if_splits)

lemma or_zero: "(a :: 8 word) OR b = 0 \<longleftrightarrow> a = 0 \<and> b = 0"
  by (auto simp: bit_eq_iff bit_or_iff)

lemma xor_zero: "(a :: 8 word) XOR b = 0 \<longleftrightarrow> a = b"
  by (auto simp: bit_eq_iff bit_xor_iff)

lemma foldl_difference:
  "foldl difference d (zip xs ys) = 0 \<longleftrightarrow>
     d = 0 \<and> (\<forall>(x, y) \<in> set (zip xs ys). (of_nat x :: 8 word) = of_nat y)"
  by (induction xs ys arbitrary: d rule: list_induct2') (auto simp: difference_def or_zero xor_zero)

lemma byte_word_inject: "x < 256 \<Longrightarrow> y < 256 \<Longrightarrow> (of_nat x :: 8 word) = of_nat y \<longleftrightarrow> x = y"
  by (auto simp: word_of_nat_eq_iff take_bit_eq_mod)

text \<open>Comparing every byte of two tokens, as the listener does so that the time taken tells
  nothing, decides exactly whether the tokens are equal.\<close>

theorem token_matches_iff:
  assumes "list_all is_scalar a" and "list_all is_scalar b"
  shows "token_matches a b \<longleftrightarrow> a = b"
proof
  assume m: "token_matches a b"
  then have len: "length (utf8 a) = length (utf8 b)" by (simp add: token_matches_def)
  have "utf8 a = utf8 b"
  proof (rule nth_equalityI [OF len])
    fix i assume i: "i < length (utf8 a)"
    then have "(utf8 a ! i, utf8 b ! i) \<in> set (zip (utf8 a) (utf8 b))"
      using len by (auto simp: set_zip)
    then have "(of_nat (utf8 a ! i) :: 8 word) = of_nat (utf8 b ! i)"
      using m by (auto simp: token_matches_def foldl_difference)
    moreover have "utf8 a ! i < 256" "utf8 b ! i < 256"
      using utf8_byte [OF assms(1)] utf8_byte [OF assms(2)] i len by simp_all
    ultimately show "utf8 a ! i = utf8 b ! i" by (simp add: byte_word_inject)
  qed
  then show "a = b" by (metis assms from_utf8_utf8 option.inject)
next
  assume "a = b"
  then show "token_matches a b" by (auto simp: token_matches_def foldl_difference set_zip)
qed

theorem token_matches_iff_witness: "token_matches (lit ''1f'') (lit ''1e'') \<longleftrightarrow> lit ''1f'' = lit ''1e''"
  by (rule token_matches_iff) (simp_all add: lit_def is_scalar_def)

text \<open>A token that was written to its file is read back.\<close>

lemma hex_nibble_chars: "n < 16 \<Longrightarrow> 48 \<le> hex_nibble n \<and> hex_nibble n < 103"
  by (auto simp: hex_nibble_def)

lemma token_round_trip:
  assumes "list_all (\<lambda>b. b < 256) bytes"
  shows "token_read (token_write (token_of_bytes bytes)) = Some (token_of_bytes bytes)"
proof -
  have "48 \<le> c \<and> c < 103" if "c \<in> set (token_of_bytes bytes)" for c
    using that assms hex_nibble_chars
    by (fastforce simp: token_of_bytes_def hex_byte_def list_all_iff less_mult_imp_div_less)
  then have "list_all is_scalar (token_of_bytes bytes)" and "trim (token_of_bytes bytes) = token_of_bytes bytes"
    by (fastforce simp: list_all_iff is_scalar_def, intro trim_no_blank) (fastforce simp: is_whitespace_def)
  then show ?thesis by (simp add: token_read_def token_write_def from_utf8_utf8)
qed

section \<open>Lines\<close>

lemma take_line_length: "length (take_line n bs) \<le> n"
  by (induction n bs rule: take_line.induct) auto

lemma take_line_message: "10 \<notin> set p \<Longrightarrow> length p < n \<Longrightarrow> take_line n (p @ 10 # r) = p @ [10]"
proof (induction p arbitrary: n)
  case Nil
  then show ?case by (cases n) auto
next
  case (Cons b p)
  then show ?case by (cases n) auto
qed

text \<open>A message travels when its encoding is one line within the bound that decodes to it.\<close>

definition carries :: "('m \<Rightarrow> byte list) \<Rightarrow> (byte list \<Rightarrow> 'm option) \<Rightarrow> 'm \<Rightarrow> bool" where
  "carries enc dec m \<longleftrightarrow> 10 \<notin> set (enc m) \<and> length (enc m) \<le> MAX_LINE \<and> dec (enc m @ [10]) = Some m"

lemma conn_recv_sent:
  assumes "carries enc dec m" and "sx_incoming s = enc m @ 10 # r"
  shows "conn_recv dec s = (Got m, s\<lparr>sx_incoming := r\<rparr>)"
proof -
  have "take_line (MAX_LINE + 1) (sx_incoming s) = enc m @ [10]"
    using assms by (simp add: carries_def take_line_message)
  with assms show ?thesis by (simp add: conn_recv_def Let_def carries_def)
qed

fun recv_count :: "(byte list \<Rightarrow> 'm option) \<Rightarrow> nat \<Rightarrow> stream \<Rightarrow> 'm received list" where
  "recv_count dec 0 s = []"
| "recv_count dec (Suc n) s = (case conn_recv dec s of (r, s) \<Rightarrow> r # recv_count dec n s)"

lemma recv_lines:
  assumes "list_all (carries enc dec) ms"
    and "sx_incoming s = concat (map (\<lambda>m. enc m @ [10]) ms) @ rest"
  shows "recv_count dec (length ms) s = map Got ms"
  using assms
proof (induction ms arbitrary: s)
  case (Cons m ms)
  then have "conn_recv dec s = (Got m, s\<lparr>sx_incoming := concat (map (\<lambda>m. enc m @ [10]) ms) @ rest\<rparr>)"
    by (intro conn_recv_sent) auto
  with Cons show ?case by simp
qed simp

lemma send_lines:
  "\<not> sx_broken s \<Longrightarrow> sx_written (snd (fold (\<lambda>m (ok, s). conn_send enc m s) ms (True, s))) =
     sx_written s @ concat (map (\<lambda>m. enc m @ [10]) ms)"
proof (induction ms arbitrary: s)
  case (Cons m ms)
  then have "conn_send enc m s = (True, s\<lparr>sx_written := sx_written s @ enc m @ [10]\<rparr>)"
    by (simp add: conn_send_def)
  with Cons.IH [of "s\<lparr>sx_written := sx_written s @ enc m @ [10]\<rparr>"] Cons.prems show ?case by simp
qed simp

text \<open>Messages arrive as they were sent, one per line and in order, whatever else follows.\<close>

theorem messages_round_trip:
  assumes "list_all (carries enc dec) ms" and "\<not> sx_broken sender" and "sx_written sender = []"
    and "sx_incoming receiver =
      sx_written (snd (fold (\<lambda>m (ok, s). conn_send enc m s) ms (True, sender))) @ rest"
  shows "recv_count dec (length ms) receiver = map Got ms"
  using recv_lines [OF assms(1)] send_lines [OF assms(2), of enc ms] assms(3,4) by simp

definition quiet_stream :: stream where
  "quiet_stream = \<lparr>sx_incoming = [], sx_closed = False, sx_broken = False, sx_written = []\<rparr>"

theorem messages_round_trip_witness:
  "recv_count (\<lambda>l. Some (hd l)) 2 (quiet_stream\<lparr>sx_incoming := [65, 10, 66, 10]\<rparr>) = [Got 65, Got (66::nat)]"
proof -
  have "list_all (carries (\<lambda>m. [m]) (\<lambda>l. Some (hd l))) [65, 66]"
    by (simp add: carries_def MAX_LINE_def)
  from messages_round_trip [OF this, of quiet_stream "quiet_stream\<lparr>sx_incoming := [65, 10, 66, 10]\<rparr>" "[]"]
  show ?thesis by (simp add: quiet_stream_def conn_send_def numeral_2_eq_2)
qed

text \<open>However long a line the peer sends, one read takes at most one byte more than the bound.\<close>

lemma conn_recv_bounded:
  assumes "conn_recv dec s = (r, s')"
  shows "length (sx_incoming s) \<le> length (sx_incoming s') + 16385"
  using assms take_line_length [of "MAX_LINE + 1" "sx_incoming s"]
  by (auto simp: conn_recv_def Let_def MAX_LINE_def split: if_splits option.splits)

lemma conn_recv_keeps:
  "conn_recv dec s = (r, s') \<Longrightarrow> sx_written s' = sx_written s \<and> sx_broken s' = sx_broken s \<and> sx_closed s' = sx_closed s"
  by (auto simp: conn_recv_def Let_def split: if_splits option.splits)

section \<open>Who is let in\<close>

lemma handshake_cases:
  assumes "handshake enc dec token s = (ok, s')"
  shows "(\<not> ok \<and> sx_written s' = sx_written s) \<or>
    (ok \<and> (\<exists>t s1. conn_recv dec s = (Got (Hello t PROTOCOL_VERSION), s1) \<and> token_matches t token))"
proof -
  obtain r s1 where r: "conn_recv dec s = (r, s1)" by fastforce
  with assms conn_recv_keeps [OF r] show ?thesis
    by (cases r) (auto simp: handshake_def conn_send_def split: to_listener.splits if_splits)
qed

text \<open>C35. Nobody without the token learns anything: every connection that is refused was sent not a
  single byte, and one that is let in said hello with the listener's token and the current
  protocol version.\<close>

theorem strangers_learn_nothing:
  assumes "server_accept enc dec token arriving = (refused, r)"
    and "list_all (\<lambda>x. case x of Inr s \<Rightarrow> sx_written s = [] | Inl e \<Rightarrow> True) arriving"
  shows "list_all (\<lambda>s. sx_written s = []) refused \<and>
    (case r of
       Some (Inr s) \<Rightarrow> \<exists>s0 t s1. Inr s0 \<in> set arriving \<and> handshake enc dec token s0 = (True, s) \<and>
         conn_recv dec s0 = (Got (Hello t PROTOCOL_VERSION), s1) \<and> token_matches t token
     | _ \<Rightarrow> True)"
  using assms
proof (induction enc dec token arriving arbitrary: refused r rule: server_accept.induct)
  case (3 enc dec token s arriving)
  obtain ok s' where h: "handshake enc dec token s = (ok, s')" by fastforce
  show ?case
  proof (cases ok)
    case True
    with 3 h handshake_cases [OF h] show ?thesis by (auto intro!: exI [of _ s])
  next
    case False
    obtain refused' where rest: "server_accept enc dec token arriving = (refused', r)"
      and refused: "refused = s' # refused'"
      using "3.prems"(1) h False by (auto split: prod.splits)
    have "sx_written s' = []" using handshake_cases [OF h] False "3.prems"(2) by auto
    moreover have "list_all (\<lambda>s. sx_written s = []) refused' \<and>
      (case r of
         Some (Inr s) \<Rightarrow> \<exists>s0 t s1. Inr s0 \<in> set arriving \<and> handshake enc dec token s0 = (True, s) \<and>
           conn_recv dec s0 = (Got (Hello t PROTOCOL_VERSION), s1) \<and> token_matches t token
       | _ \<Rightarrow> True)"
      using "3.IH" [OF h [symmetric] _ rest] False "3.prems"(2) by simp
    ultimately show ?thesis
      unfolding refused by (auto split: option.splits sum.splits)
  qed
qed auto

theorem strangers_learn_nothing_witness:
  "list_all (\<lambda>s. sx_written s = []) (fst (server_accept (\<lambda>_. [2]) (\<lambda>_. None) (lit ''ab'')
     [Inr (quiet_stream\<lparr>sx_incoming := [1, 10]\<rparr>)]))"
proof -
  let ?arriving = "[Inr (quiet_stream\<lparr>sx_incoming := [1, 10]\<rparr>)]"
  obtain refused r where run: "server_accept (\<lambda>_. [2]) (\<lambda>_. None) (lit ''ab'') ?arriving = (refused, r)"
    by fastforce
  have "list_all (\<lambda>x. case x of Inr s \<Rightarrow> sx_written s = [] | Inl e \<Rightarrow> True) ?arriving"
    by (simp add: quiet_stream_def)
  from strangers_learn_nothing [OF run this] have "list_all (\<lambda>s. sx_written s = []) refused" by blast
  then show ?thesis unfolding run by simp
qed

text \<open>What the listener sees of a client, and the client of the listener's answer: refusing is
  closing.\<close>

definition seen_by_listener :: "stream \<Rightarrow> stream" where
  "seen_by_listener client = quiet_stream\<lparr>sx_incoming := sx_written client\<rparr>"

definition seen_by_client :: "bool \<times> stream \<Rightarrow> stream \<Rightarrow> stream" where
  "seen_by_client answer client =
     client\<lparr>sx_incoming := sx_written (snd answer), sx_closed := (\<not> fst answer)\<rparr>"

definition whole_handshake ::
  "(to_listener \<Rightarrow> byte list) \<Rightarrow> (byte list \<Rightarrow> to_listener option) \<Rightarrow> (to_gui \<Rightarrow> byte list) \<Rightarrow>
   (byte list \<Rightarrow> to_gui option) \<Rightarrow> str \<Rightarrow> str \<Rightarrow> bool \<times> (connect_error + stream)" where
  "whole_handshake encL decL encG decG known given =
     (let (sent, client) = connect_hello encL given quiet_stream;
          answer = handshake encG decL known (seen_by_listener client)
      in (fst answer, connect_welcome decG (seen_by_client answer client)))"

text \<open>The two ends agree: the listener lets a client in exactly when the tokens are equal; the
  client then has a connection, and otherwise an error that says it was refused.\<close>

theorem ends_agree:
  assumes "list_all is_scalar known" and "list_all is_scalar given"
    and "carries encL decL (Hello given PROTOCOL_VERSION)" and "carries encG decG (Welcome PROTOCOL_VERSION)"
  shows "fst (whole_handshake encL decL encG decG known given) = (known = given) \<and>
    (case snd (whole_handshake encL decL encG decG known given) of
       Inr s \<Rightarrow> known = given \<and> sx_incoming s = []
     | Inl e \<Rightarrow> known \<noteq> given \<and> e = PermissionDenied)"
proof -
  define client where "client = snd (connect_hello encL given quiet_stream)"
  have client: "connect_hello encL given quiet_stream = (True, client)"
    and written: "sx_written client = encL (Hello given PROTOCOL_VERSION) @ [10]"
    by (simp_all add: client_def connect_hello_def conn_send_def quiet_stream_def)
  let ?s = "seen_by_listener client"
  have "conn_recv decL ?s = (Got (Hello given PROTOCOL_VERSION), ?s\<lparr>sx_incoming := []\<rparr>)"
    by (rule conn_recv_sent [OF assms(3)]) (simp add: seen_by_listener_def written)
  then have hs: "handshake encG decL known ?s =
      (if known = given then (True, ?s\<lparr>sx_incoming := [], sx_written := encG (Welcome PROTOCOL_VERSION) @ [10]\<rparr>)
       else (False, ?s\<lparr>sx_incoming := []\<rparr>))"
    using token_matches_iff [OF assms(2,1)]
    by (auto simp: handshake_def conn_send_def seen_by_listener_def quiet_stream_def)
  have answer: "fst (handshake encG decL known ?s) = (known = given)"
    "sx_written (snd (handshake encG decL known ?s)) =
      (if known = given then encG (Welcome PROTOCOL_VERSION) @ [10] else [])"
    unfolding hs by (simp_all add: seen_by_listener_def quiet_stream_def)
  let ?c = "seen_by_client (handshake encG decL known ?s) client"
  show ?thesis
  proof (cases "known = given")
    case True
    then have "conn_recv decG ?c = (Got (Welcome PROTOCOL_VERSION), ?c\<lparr>sx_incoming := []\<rparr>)"
      using hs by (intro conn_recv_sent [OF assms(4)]) (simp add: seen_by_client_def)
    then show ?thesis using True hs by (simp add: whole_handshake_def client connect_welcome_def)
  next
    case False
    then have "sx_incoming ?c = []" "sx_closed ?c"
      using answer by (simp_all add: seen_by_client_def)
    then have "conn_recv decG ?c = (Closed, ?c)" by (simp add: conn_recv_def)
    then show ?thesis using False answer by (simp add: whole_handshake_def client connect_welcome_def)
  qed
qed

theorem ends_agree_witness:
  "fst (whole_handshake (\<lambda>_. [1]) (\<lambda>_. Some (Hello (lit ''ab'') PROTOCOL_VERSION)) (\<lambda>_. [2])
     (\<lambda>_. Some (Welcome PROTOCOL_VERSION)) (lit ''ab'') (lit ''ab''))"
proof -
  have "list_all is_scalar (lit ''ab'')" by (simp add: lit_def is_scalar_def)
  moreover have "carries (\<lambda>_. [1]) (\<lambda>_. Some (Hello (lit ''ab'') PROTOCOL_VERSION)) (Hello (lit ''ab'') PROTOCOL_VERSION)"
    "carries (\<lambda>_. [2]) (\<lambda>_. Some (Welcome PROTOCOL_VERSION)) (Welcome PROTOCOL_VERSION)"
    by (simp_all add: carries_def MAX_LINE_def)
  ultimately show ?thesis using ends_agree by blast
qed

section \<open>One listener for a name\<close>

text \<open>What the channel relies on of a transport: \<open>holds\<close> is who listens on a name and \<open>waiting\<close> the
  connections a listener has not accepted.\<close>

locale transport =
  fixes bind_name :: "'e \<Rightarrow> 's \<Rightarrow> ('l \<times> 's) option"
    and connect_to :: "'e \<Rightarrow> 's \<Rightarrow> ('c \<times> 's) option"
    and accept_from :: "'l \<Rightarrow> 's \<Rightarrow> ('c \<times> 's) option"
    and drop_listener :: "'l \<Rightarrow> 's \<Rightarrow> 's"
    and holds :: "'s \<Rightarrow> 'e \<Rightarrow> 'l option"
    and waiting :: "'s \<Rightarrow> 'l \<Rightarrow> 'c list"
    and ok :: "'s \<Rightarrow> bool"
  assumes bind_taken: "holds s e = Some l \<Longrightarrow> bind_name e s = None"
    and bind_free: "ok s \<Longrightarrow> holds s e = None \<Longrightarrow>
      \<exists>l s'. bind_name e s = Some (l, s') \<and> ok s' \<and> holds s' = (holds s)(e := Some l) \<and> waiting s' l = []"
    and connect_nobody: "holds s e = None \<Longrightarrow> connect_to e s = None"
    and connect_held: "ok s \<Longrightarrow> holds s e = Some l \<Longrightarrow>
      \<exists>c s'. connect_to e s = Some (c, s') \<and> ok s' \<and> holds s' = holds s \<and>
        waiting s' = (waiting s)(l := waiting s l @ [c])"
    and accept_next: "ok s \<Longrightarrow> waiting s l = c # cs \<Longrightarrow>
      \<exists>s'. accept_from l s = Some (c, s') \<and> ok s' \<and> holds s' = holds s \<and> waiting s' = (waiting s)(l := cs)"
    and drop_frees: "ok s \<Longrightarrow> holds s e = Some l \<Longrightarrow>
      ok (drop_listener l s) \<and> holds (drop_listener l s) = (holds s)(e := None)"
begin

text \<open>A client that connects is handed to the listener that holds the name.\<close>

lemma connected_to_holder:
  assumes "ok s" and "holds s e = Some l" and "waiting s l = []" and "connect_to e s = Some (c, s1)"
  shows "\<exists>s2. accept_from l s1 = Some (c, s2) \<and> holds s2 e = Some l"
proof -
  have s1: "ok s1" "holds s1 = holds s" "waiting s1 l = [c]"
    using connect_held [OF assms(1,2)] assms(3,4) by auto
  then obtain s2 where "accept_from l s1 = Some (c, s2)" "holds s2 = holds s1"
    using accept_next [OF s1(1) s1(3)] by blast
  then show ?thesis using s1 assms(2) by simp
qed

text \<open>Nobody can take a name that is held; it is free again when its listener is gone.\<close>

lemma no_squatting:
  assumes "ok s" and "bind_name e s = Some (l, s1)"
  shows "bind_name e s1 = None" and "\<exists>l' s2. bind_name e (drop_listener l s1) = Some (l', s2)"
proof -
  have free: "holds s e = None" using bind_taken [of s e] assms(2) by (cases "holds s e") auto
  then have s1: "ok s1" "holds s1 e = Some l" using bind_free [OF assms(1) free] assms(2) by auto
  then show "bind_name e s1 = None" by (intro bind_taken)
  have "ok (drop_listener l s1)" "holds (drop_listener l s1) e = None" using drop_frees [OF s1] by auto
  then show "\<exists>l' s2. bind_name e (drop_listener l s1) = Some (l', s2)" using bind_free by blast
qed

end

text \<open>The table names only listeners made before, each under its own name, so two names never share
  one.\<close>

definition memory_ok :: "memory \<Rightarrow> bool" where
  "memory_ok m \<longleftrightarrow>
     (\<forall>name l. my_endpoints m name = Some l \<longrightarrow> l < my_next m \<and> my_names m l = name)"

interpretation memory: transport memory_bind memory_connect memory_accept memory_drop
  my_endpoints my_incoming memory_ok
proof (unfold_locales, goal_cases)
  case (1 s e l) then show ?case by (simp add: memory_bind_def)
next
  case (2 s e) then show ?case by (auto simp: memory_bind_def memory_ok_def less_Suc_eq)
next
  case (3 s e) then show ?case by (simp add: memory_connect_def)
next
  case (4 s e l) then show ?case by (auto simp: memory_connect_def memory_ok_def less_Suc_eq)
next
  case (5 s l c cs) then show ?case by (auto simp: memory_accept_def memory_ok_def)
next
  case (6 s e l) then show ?case by (auto simp: memory_drop_def memory_ok_def)
qed

text \<open>A name has one listener at a time: binding a bound name fails until its listener is
  dropped, and a client that connects in between reaches that listener and no other.\<close>

theorem one_listener_per_name:
  assumes "memory_ok m" and "memory_bind name m = Some (l, m1)"
  shows "memory_bind name m1 = None \<and> memory_bind name (memory_drop l m1) \<noteq> None \<and>
    (\<exists>c m2 m3. memory_connect name m1 = Some (c, m2) \<and> memory_accept l m2 = Some (c, m3))"
proof -
  have free: "my_endpoints m name = None" using assms(2) by (auto simp: memory_bind_def split: if_splits)
  have m1: "memory_ok m1" "my_endpoints m1 name = Some l" "my_incoming m1 l = []"
    using memory.bind_free [OF assms(1) free] assms(2) by auto
  then obtain c m2 where "memory_connect name m1 = Some (c, m2)"
    using memory.connect_held by blast
  with memory.connected_to_holder [OF m1 this] memory.no_squatting [OF assms] show ?thesis by auto
qed

definition empty_memory :: memory where
  "empty_memory = \<lparr>my_endpoints = Map.empty, my_incoming = (\<lambda>_. []), my_names = (\<lambda>_. []), my_next = 0\<rparr>"

theorem one_listener_per_name_witness:
  "\<exists>l m1. memory_bind (lit ''x'') empty_memory = Some (l, m1) \<and> memory_bind (lit ''x'') m1 = None"
proof -
  obtain l m1 where b: "memory_bind (lit ''x'') empty_memory = Some (l, m1)"
    by (simp add: memory_bind_def empty_memory_def)
  have "memory_ok empty_memory" by (simp add: memory_ok_def empty_memory_def)
  from one_listener_per_name [OF this b] b show ?thesis by blast
qed

end
