(* ===== verification/ListView.thy ===== *)
theory ListView
  imports OpenFolder Composes
begin

text \<open>
  The list widget's model, \<open>crates/esmail-win32/src/state.rs\<close> (\<open>ViewState\<close>),
  \<open>message_list/rows.rs\<close>, \<open>message_list/dirty.rs\<close> and the handlers of
  \<open>message_list/widget.rs\<close>: rows, row count and selection, what replacing and editing the
  rows does to them, and what the mouse and the keyboard do.  Scroll offsets and pixels are
  32-bit floats and are left out; the row under the pointer (and whether it is on the star) and
  the number of rows of a page are arguments.  Handlers return the events they emit and the
  rows they repaint.
\<close>

section \<open>The model and its rows\<close>

record list_view =
  lv_rows :: "row_model list"
  lv_len :: nat
  lv_sel :: selection
  lv_ctrl :: bool
  lv_shift :: bool

definition list_view_new :: list_view where
  "list_view_new = \<lparr>lv_rows = [], lv_len = 0, lv_sel = sel_new, lv_ctrl = False, lv_shift = False\<rparr>"

definition list_set_rows :: "row_model list \<Rightarrow> list_view \<Rightarrow> list_view" where
  "list_set_rows rows v = v\<lparr>lv_rows := rows, lv_len := length rows, lv_sel := sel_clear (lv_sel v)\<rparr>"

definition list_extend_rows :: "row_model list \<Rightarrow> list_view \<Rightarrow> list_view" where
  "list_extend_rows rows v = v\<lparr>lv_rows := rows, lv_len := length rows\<rparr>"

definition list_update_rows :: "row_model list \<Rightarrow> list_view \<Rightarrow> list_view" where
  "list_update_rows rows v = v\<lparr>lv_rows := rows\<rparr>"

definition list_insert_rows :: "row_model list \<Rightarrow> nat \<Rightarrow> nat \<Rightarrow> list_view \<Rightarrow> list_view" where
  "list_insert_rows rows at n v =
     v\<lparr>lv_rows := rows, lv_len := lv_len v + n, lv_sel := sel_insert at n (lv_sel v)\<rparr>"

definition list_remove_rows :: "row_model list \<Rightarrow> nat \<Rightarrow> nat \<Rightarrow> list_view \<Rightarrow> list_view" where
  "list_remove_rows rows at n v =
     v\<lparr>lv_rows := rows, lv_len := lv_len v - n, lv_sel := sel_remove at n (lv_sel v)\<rparr>"

text \<open>\<open>set_selection\<close> reports the new selection when it changed.\<close>

definition list_set_selection :: "nat list \<Rightarrow> list_view \<Rightarrow> nat list option \<times> list_view" where
  "list_set_selection rows v =
     (let before = sel_rows (lv_sel v);
          v = v\<lparr>lv_sel := sel_replace rows (lv_len v) (lv_sel v)\<rparr>;
          after = sel_rows (lv_sel v)
      in (if before \<noteq> after then Some after else None, v))"

section \<open>Input\<close>

datatype list_event =
    LSelected "nat list"
  | LOpen nat
  | LDelete "nat list"
  | LToggleFlag nat
  | LCompose compose_kind
  | LContext nat
  | LFocus nat

text \<open>The keys the widget itself knows; the others do nothing.\<close>

datatype list_key = KeyControl | KeyShift | KeyA | KeyDelete | KeyR | KeySpace | KeyF | KeyUnused nat

text \<open>The rows to repaint: those that entered or left the selection, and the focus before and
  after.\<close>

definition changed_rows :: "selection \<Rightarrow> selection \<Rightarrow> nat list" where
  "changed_rows before after =
     remdups_adj (sort
       (filter (\<lambda>row. row \<notin> set (sel_rows after)) (sel_rows before) @
        filter (\<lambda>row. row \<notin> set (sel_rows before)) (sel_rows after) @
        (case sel_focus before of None \<Rightarrow> [] | Some f \<Rightarrow> [f]) @
        (case sel_focus after of None \<Rightarrow> [] | Some f \<Rightarrow> [f])))"

definition list_mouse_down :: "(nat \<times> bool) option \<Rightarrow> list_view \<Rightarrow> (list_event list \<times> nat list) \<times> list_view" where
  "list_mouse_down hit v =
     (case hit of
        None \<Rightarrow> (([], []), v)
      | Some (index, on_star) \<Rightarrow>
          if on_star then (([LToggleFlag index], []), v)
          else
            let before = lv_sel v;
                after = (if lv_ctrl v then ctrl_click index before
                         else if lv_shift v then shift_click index before
                         else click index before)
            in (([LSelected (sel_rows after)], changed_rows before after), v\<lparr>lv_sel := after\<rparr>))"

definition list_context_menu :: "(nat \<times> bool) option \<Rightarrow> list_view \<Rightarrow> list_event list \<times> list_view" where
  "list_context_menu hit v =
     (case hit of
        None \<Rightarrow> ([], v)
      | Some (index, _) \<Rightarrow>
          if sel_contains index (lv_sel v) then ([LContext index], v)
          else let after = click index (lv_sel v)
            in ([LSelected (sel_rows after), LContext index], v\<lparr>lv_sel := after\<rparr>))"

definition list_double_click :: "(nat \<times> bool) option \<Rightarrow> list_event list" where
  "list_double_click hit = (case hit of Some (index, False) \<Rightarrow> [LOpen index] | _ \<Rightarrow> [])"

definition list_key_down :: "list_key \<Rightarrow> bool \<Rightarrow> bool \<Rightarrow> list_view \<Rightarrow> list_event list \<times> list_view" where
  "list_key_down key ctrl shift v =
     (let v = (if key = KeyControl then v\<lparr>lv_ctrl := True\<rparr> else v);
          v = (if key = KeyShift then v\<lparr>lv_shift := True\<rparr> else v)
      in if ctrl \<and> key = KeyA then
           (let after = select_all (lv_len v) (lv_sel v)
            in ([LSelected (sel_rows after)], v\<lparr>lv_sel := after\<rparr>))
         else if key = KeyDelete then
           (if sel_rows (lv_sel v) \<noteq> [] then ([LDelete (sel_rows (lv_sel v))], v) else ([], v))
         else if key = KeyR \<and> \<not> ctrl then ([LCompose (if shift then KindReplyAll else KindReply)], v)
         else if key = KeySpace then
           (case sel_focus (lv_sel v) of Some index \<Rightarrow> ([LToggleFlag index], v) | None \<Rightarrow> ([], v))
         else if key = KeyF \<and> \<not> ctrl then ([LCompose KindForward], v)
         else ([], v))"

definition list_key_up :: "list_key \<Rightarrow> list_view \<Rightarrow> list_view" where
  "list_key_up key v =
     (let v = (if key = KeyControl then v\<lparr>lv_ctrl := False\<rparr> else v)
      in if key = KeyShift then v\<lparr>lv_shift := False\<rparr> else v)"

text \<open>The navigation keys: \<open>None\<close> when the widget ignores the key.\<close>

definition list_nav :: "nat \<Rightarrow> nav_key \<Rightarrow> bool \<Rightarrow> bool \<Rightarrow> list_view \<Rightarrow> (list_event list \<times> nat list) option \<times> list_view" where
  "list_nav page key ctrl shift v =
     (let before = lv_sel v
      in case navigate key ctrl shift (lv_len v) (max page 1) before of
           (None, _) \<Rightarrow> (None, v)
         | (Some m, after) \<Rightarrow>
             (Some ((if mv_selection_changed m then [LSelected (sel_rows after)] else []) @ [LFocus (mv_focus m)],
                    changed_rows before after),
              v\<lparr>lv_sel := after\<rparr>))"

section \<open>Every input keeps the list in range\<close>

text \<open>The row a point falls on, as \<open>row_at\<close> ends: the index computed from the point counts only
  when the list has such a row.\<close>

definition list_hit :: "(nat \<times> bool) option \<Rightarrow> list_view \<Rightarrow> (nat \<times> bool) option" where
  "list_hit point v =
     (case point of Some (index, on_star) \<Rightarrow> if index < lv_len v then Some (index, on_star) else None | None \<Rightarrow> None)"

datatype list_input =
    LiMouse "(nat \<times> bool) option"
  | LiContext "(nat \<times> bool) option"
  | LiDouble "(nat \<times> bool) option"
  | LiKeyDown list_key bool bool
  | LiKeyUp list_key
  | LiNav nat nav_key bool bool

fun list_handle :: "list_input \<Rightarrow> list_view \<Rightarrow> list_event list \<times> list_view" where
  "list_handle (LiMouse hit) v = (case list_mouse_down (list_hit hit v) v of ((evs, _), v) \<Rightarrow> (evs, v))"
| "list_handle (LiContext hit) v = list_context_menu (list_hit hit v) v"
| "list_handle (LiDouble hit) v = (list_double_click (list_hit hit v), v)"
| "list_handle (LiKeyDown key ctrl shift) v = list_key_down key ctrl shift v"
| "list_handle (LiKeyUp key) v = ([], list_key_up key v)"
| "list_handle (LiNav page key ctrl shift) v =
     (case list_nav page key ctrl shift v of (Some (evs, _), v) \<Rightarrow> (evs, v) | (None, v) \<Rightarrow> ([], v))"

lemma list_hit_within: "pred_option (\<lambda>(i, _). i < lv_len v) (list_hit point v)"
  by (auto simp: list_hit_def split: option.splits)

text \<open>Selected rows are rows of the list; the anchor and the focus are too, except that selecting
  everything in an empty list leaves both on row 0.\<close>

definition list_ok :: "list_view \<Rightarrow> bool" where
  "list_ok v \<longleftrightarrow> lv_len v = length (lv_rows v) \<and> sel_ok (lv_sel v) \<and>
     (\<forall>row\<in>set (sel_rows (lv_sel v)). row < lv_len v) \<and> sel_within (max (Suc 0) (lv_len v)) (lv_sel v)"

fun event_rows :: "list_event \<Rightarrow> nat list" where
  "event_rows (LSelected rows) = rows"
| "event_rows (LOpen row) = [row]"
| "event_rows (LDelete rows) = rows"
| "event_rows (LToggleFlag row) = [row]"
| "event_rows (LCompose _) = []"
| "event_rows (LContext row) = [row]"
| "event_rows (LFocus row) = [row]"

lemma select_all_empty: "sel_rows (select_all len s) = [0..<len]"
  by (simp add: select_all_def)

lemma list_ok_new [simp]: "list_ok list_view_new"
  by (auto simp: list_ok_def list_view_new_def sel_within_ops sel_new_def sel_within_def sel_ok_def ascending_def)

lemma list_ok_set [simp]: "list_ok (list_set_rows rows v)"
  by (simp add: list_ok_def list_set_rows_def sel_within_def sel_ok_def sel_clear_def ascending_def)

lemma sel_within_mono: "sel_within a s \<Longrightarrow> a \<le> b \<Longrightarrow> sel_within b s"
  by (auto simp: sel_within_def pred_option_def dest: order.strict_trans2)

lemma list_ok_extend [simp]:
  assumes "list_ok v" and "length (lv_rows v) \<le> length rows"
  shows "list_ok (list_extend_rows rows v)"
proof -
  have "max (Suc 0) (length (lv_rows v)) \<le> max (Suc 0) (length rows)" using assms(2) by simp
  from assms sel_within_mono [OF _ this, of "lv_sel v"] show ?thesis
    by (auto simp: list_ok_def list_extend_rows_def dest: order.strict_trans2)
qed

lemma list_ok_update [simp]:
  "list_ok v \<Longrightarrow> length rows = length (lv_rows v) \<Longrightarrow> list_ok (list_update_rows rows v)"
  by (auto simp: list_ok_def list_update_rows_def)

lemma sel_within_max: "sel_within len s \<Longrightarrow> sel_within (max (Suc 0) len) s"
  by (auto simp: sel_within_def pred_option_def)

lemma sel_within_rows: "sel_within len s \<Longrightarrow> \<forall>row\<in>set (sel_rows s). row < len"
  by (simp add: sel_within_def)

lemma list_ok_set_selection:
  "list_ok v \<Longrightarrow> list_ok (snd (list_set_selection rows v))"
  using sel_within_replace [of "lv_len v" rows "lv_sel v"]
  by (auto simp: list_ok_def list_set_selection_def Let_def sel_within_max sel_within_rows)

lemma list_ok_within:
  "lv_len v = length (lv_rows v) \<Longrightarrow> sel_ok s \<Longrightarrow> sel_within (lv_len v) s \<Longrightarrow> list_ok (v\<lparr>lv_sel := s\<rparr>)"
  by (auto simp: list_ok_def dest: sel_within_max sel_within_rows)

text \<open>A row that exists makes the weaker range the strict one.\<close>

lemma list_ok_nonempty: "list_ok v \<Longrightarrow> i < lv_len v \<Longrightarrow> sel_within (lv_len v) (lv_sel v)"
  by (auto simp: list_ok_def max_def split: if_splits)

lemma list_mouse_ok:
  assumes "list_ok v" and "pred_option (\<lambda>(i, _). i < lv_len v) hit" and "list_mouse_down hit v = ((evs, painted), v')"
  shows "list_ok v' \<and> (\<forall>e\<in>set evs. \<forall>row\<in>set (event_rows e). row < lv_len v)"
proof (cases hit)
  case (Some h)
  obtain i star where h: "h = (i, star)" by fastforce
  with assms(2) Some have i: "i < lv_len v" by simp
  note w = list_ok_nonempty [OF assms(1) i]
  let ?s = "if lv_ctrl v then ctrl_click i (lv_sel v) else if lv_shift v then shift_click i (lv_sel v) else click i (lv_sel v)"
  have ok: "sel_ok (lv_sel v)" using assms(1) by (simp add: list_ok_def)
  then have "sel_ok ?s" "sel_within (lv_len v) ?s"
    using i w ctrl_click_rows(1) [of "lv_sel v" i] by (auto simp: sel_within_ops sel_within_ctrl_click)
  note s = this
  have upd: "list_ok (v\<lparr>lv_sel := ?s\<rparr>)"
    by (rule list_ok_within [OF _ s]) (use assms(1) in \<open>simp add: list_ok_def\<close>)
  show ?thesis
  proof (cases star)
    case True
    with assms Some h i show ?thesis by (auto simp: list_mouse_down_def)
  next
    case False
    then have "evs = [LSelected (sel_rows ?s)]" "v' = v\<lparr>lv_sel := ?s\<rparr>"
      using assms(3) Some h by (simp_all add: list_mouse_down_def Let_def)
    with upd sel_within_rows [OF s(2)] show ?thesis by simp
  qed
qed (use assms in \<open>auto simp: list_mouse_down_def\<close>)


lemma list_context_ok:
  assumes "list_ok v" and "pred_option (\<lambda>(i, _). i < lv_len v) hit" and "list_context_menu hit v = (evs, v')"
  shows "list_ok v' \<and> (\<forall>e\<in>set evs. \<forall>row\<in>set (event_rows e). row < lv_len v)"
proof (cases hit)
  case (Some h)
  obtain i star where h: "h = (i, star)" by fastforce
  with assms(2) Some have i: "i < lv_len v" by simp
  have "list_ok (v\<lparr>lv_sel := click i (lv_sel v)\<rparr>)"
    using assms(1) i by (intro list_ok_within) (simp_all add: list_ok_def sel_within_ops)
  with assms Some h i show ?thesis
    by (auto simp: list_context_menu_def Let_def click_def split: if_splits)
qed (use assms in \<open>auto simp: list_context_menu_def\<close>)

lemma list_key_down_ok:
  assumes "list_ok v" and "list_key_down key ctrl shift v = (evs, v')"
  shows "list_ok v' \<and> (\<forall>e\<in>set evs. \<forall>row\<in>set (event_rows e). row < max 1 (lv_len v))"
proof -
  have f: "row < max 1 (lv_len v)" if "sel_focus (lv_sel v) = Some row \<or> row \<in> set (sel_rows (lv_sel v))" for row
    using assms(1) that by (auto simp: list_ok_def sel_within_def pred_option_def)
  have all: "sel_within (max 1 (lv_len v)) (select_all (lv_len v) s)" for s
    by (auto simp: sel_within_def select_all_def)
  have "sel_ok (select_all (lv_len v) s)" for s by simp
  with assms f all show ?thesis
    by (auto simp: list_key_down_def Let_def list_ok_def select_all_empty split: if_splits option.splits)
qed

lemma list_nav_ok:
  assumes "list_ok v" and "list_nav page key ctrl shift v = (r, v')"
  shows "list_ok v' \<and> (\<forall>evs painted. r = Some (evs, painted) \<longrightarrow>
    (\<forall>e\<in>set evs. \<forall>row\<in>set (event_rows e). row < lv_len v))"
proof (cases "nav_target key (sel_focus (lv_sel v)) (lv_len v) (max page 1)")
  case (Some i)
  then have i: "i < lv_len v" by (rule nav_target_less)
  let ?s = "move_focus i ctrl shift (lv_sel v)"
  have s: "sel_ok ?s" "sel_within (lv_len v) ?s"
    using assms(1) i list_ok_nonempty [OF assms(1) i] by (simp_all add: list_ok_def sel_within_ops)
  then have "list_ok (v\<lparr>lv_sel := ?s\<rparr>)" using assms(1) by (intro list_ok_within) (simp_all add: list_ok_def)
  with assms(2) Some i sel_within_rows [OF s(2)] show ?thesis
    by (auto simp: list_nav_def navigate_def Let_def split: if_splits)
qed (use assms in \<open>simp add: list_nav_def navigate_def\<close>)

text \<open>Whatever the mouse and the keyboard do, the selection stays in range and every row an event
  names, so every row the window acts on, is a row of the list; only an empty list can name row 0.\<close>

lemma list_handle_ok:
  assumes "list_ok v" and "list_handle inp v = (evs, v')"
  shows "list_ok v' \<and> lv_len v' = lv_len v \<and> (\<forall>e\<in>set evs. \<forall>row\<in>set (event_rows e). row < max 1 (lv_len v))"
proof -
  have len: "lv_len v' = lv_len v"
    using assms(2)
    by (cases inp) (auto simp: list_mouse_down_def list_context_menu_def list_key_down_def list_key_up_def
        list_nav_def Let_def split: option.splits prod.splits if_splits)
  have up: "list_ok (list_key_up key v)" for key
    using assms(1) by (auto simp: list_ok_def list_key_up_def Let_def)
  have double: "\<forall>e\<in>set (list_double_click hit). \<forall>row\<in>set (event_rows e). row < lv_len v"
    if "hit = list_hit point v" for hit point
    using that by (auto simp: list_double_click_def list_hit_def split: option.splits bool.splits if_splits)
  have weak: "\<forall>e\<in>set es. \<forall>row\<in>set (event_rows e). row < max 1 n"
    if "\<forall>e\<in>set es. \<forall>row\<in>set (event_rows e). row < n" for es n
    using that by (meson less_max_iff_disj)
  show ?thesis
  proof (cases inp)
    case (LiMouse hit)
    obtain painted where "list_mouse_down (list_hit hit v) v = ((evs, painted), v')"
      using assms(2) LiMouse by (auto split: prod.splits)
    from list_mouse_ok [OF assms(1) list_hit_within this] len weak show ?thesis by blast
  next
    case (LiContext hit)
    with assms(2) have "list_context_menu (list_hit hit v) v = (evs, v')" by simp
    from list_context_ok [OF assms(1) list_hit_within this] len weak show ?thesis by blast
  next
    case (LiDouble hit)
    with assms double [OF refl, of hit] have "list_ok v'" "\<forall>e\<in>set evs. \<forall>row\<in>set (event_rows e). row < lv_len v"
      by auto
    with len weak show ?thesis by blast
  next
    case (LiKeyDown key ctrl shift)
    with assms list_key_down_ok [OF assms(1), of key ctrl shift evs v'] len show ?thesis by simp
  next
    case (LiKeyUp key)
    with assms(2) up show ?thesis by (auto simp: list_key_up_def Let_def)
  next
    case (LiNav page key ctrl shift)
    obtain r v'' where r: "list_nav page key ctrl shift v = (r, v'')" by fastforce
    with assms(2) LiNav have "v' = v''" "evs = (case r of Some (evs, _) \<Rightarrow> evs | None \<Rightarrow> [])"
      by (auto split: option.splits prod.splits)
    with list_nav_ok [OF assms(1) r] have "list_ok v'" "\<forall>e\<in>set evs. \<forall>row\<in>set (event_rows e). row < lv_len v"
      by (auto split: option.splits)
    with len weak show ?thesis by blast
  qed
qed

section \<open>Painting only what changed\<close>

lemma set_changed_rows:
  "set (changed_rows before after) =
     (set (sel_rows before) - set (sel_rows after)) \<union> (set (sel_rows after) - set (sel_rows before)) \<union>
     set_option (sel_focus before) \<union> set_option (sel_focus after)"
  by (auto simp: changed_rows_def split: option.splits)

text \<open>A row that is not repainted after a click or a key looks the same before and after: it is
  selected in both or in neither; and each row is repainted once.\<close>

theorem repaint_covers_changes:
  "{row. sel_contains row before \<noteq> sel_contains row after} \<subseteq> set (changed_rows before after) \<and>
   ascending (changed_rows before after)"
  by (auto simp: sel_contains_iff set_changed_rows)
     (simp add: changed_rows_def ascending_remdups_adj)

end
