(* ===== verification/AccountStatus.thy ===== *)
theory AccountStatus
  imports Panes
begin

text \<open>
  What each account's session is doing, as the main window shows it,
  \<open>crates/esmail-win32/src/app/accounts/status.rs\<close>: the status after each event of the
  session, its label, and the rows of the Accounts window.
\<close>

datatype status = StConnecting | StConnected | StReconnecting | StFailed str

fun status_failure :: "status \<Rightarrow> str option" where
  "status_failure (StFailed e) = Some e"
| "status_failure _ = None"

definition SIGN_IN_ERRORS :: "str list" where
  "SIGN_IN_ERRORS = [lit ''authenticationfailed'', lit ''authentication failed'', lit ''invalid credentials'',
     lit ''login failed'', lit ''sign in with google again'', lit ''no longer accepts the saved sign-in'']"

definition is_sign_in_error :: "str \<Rightarrow> bool" where
  "is_sign_in_error e = list_ex (contains (to_ascii_lowercase e)) SIGN_IN_ERRORS"

definition status_after :: "status \<Rightarrow> imap_event \<Rightarrow> status option" where
  "status_after s evt =
     (case evt of
        EvConnected \<Rightarrow> Some StConnected
      | EvDisconnected \<Rightarrow> Some StReconnecting
      | EvError e \<Rightarrow>
          if starts_with (lit ''not connected'') e then None
          else if \<not> (s = StConnected \<or> s = StReconnecting) \<or> (s = StReconnecting \<and> is_sign_in_error e)
            then Some (StFailed e)
          else None
      | _ \<Rightarrow> None)"

definition status_label :: "status \<Rightarrow> str" where
  "status_label s =
     (case s of
        StConnecting \<Rightarrow> lit ''Connecting...''
      | StConnected \<Rightarrow> lit ''Connected''
      | StReconnecting \<Rightarrow> lit ''Disconnected, reconnecting...''
      | StFailed e \<Rightarrow> lit ''Not signed in: '' @ (case str_lines e of [] \<Rightarrow> [] | l # _ \<Rightarrow> l))"

record account_row =
  ar_id :: str
  ar_name :: str
  ar_address :: str
  ar_google :: bool
  ar_status :: str
  ar_failed :: bool

definition status_rows :: "account_config list \<Rightarrow> status list \<Rightarrow> account_row list" where
  "status_rows accounts statuses =
     map (\<lambda>(a, s). \<lparr>ar_id = ac_id a, ar_name = ac_display_name a, ar_address = ac_username a,
       ar_google = (ac_auth a = GoogleOAuth), ar_status = status_label s,
       ar_failed = (status_failure s \<noteq> None)\<rparr>) (zip accounts statuses)"

definition status_run :: "imap_event list \<Rightarrow> status \<Rightarrow> status" where
  "status_run evts s = foldl (\<lambda>s e. case status_after s e of Some t \<Rightarrow> t | None \<Rightarrow> s) s evts"

lemma status_run_snoc:
  "status_run (evts @ [e]) s = (case status_after (status_run evts s) e of Some t \<Rightarrow> t | None \<Rightarrow> status_run evts s)"
  unfolding status_run_def by simp

text \<open>Whether the last event that says so told of a connection or of its loss.\<close>

fun link_of :: "imap_event \<Rightarrow> bool option" where
  "link_of EvConnected = Some True"
| "link_of EvDisconnected = Some False"
| "link_of _ = None"

definition last_link :: "imap_event list \<Rightarrow> bool option" where
  "last_link evts = last_opt (filter_map link_of evts)"

text \<open>An account is shown as failed only for an error that no later connection or loss of one
  has overtaken, and that came either while no connection was up and none had been lost, or as a
  refused sign-in after a loss; while the session is connected, errors of single requests leave the
  account alone.\<close>

definition failed_for :: "imap_event list \<Rightarrow> str \<Rightarrow> bool" where
  "failed_for evts e \<longleftrightarrow>
     (\<exists>before after. evts = before @ EvError e # after \<and> list_all (\<lambda>x. link_of x = None) after \<and>
        \<not> starts_with (lit ''not connected'') e \<and> last_link before \<noteq> Some True \<and>
        (last_link before = Some False \<longrightarrow> is_sign_in_error e \<or>
          (\<exists>e'. status_run before StConnecting = StFailed e')))"

lemma last_link_snoc: "last_link (evts @ [e]) = (case link_of e of Some b \<Rightarrow> Some b | None \<Rightarrow> last_link evts)"
  by (simp add: last_link_def split: option.split)

lemma status_link:
  "case status_run evts StConnecting of
     StConnecting \<Rightarrow> last_link evts = None
   | StConnected \<Rightarrow> last_link evts = Some True
   | StReconnecting \<Rightarrow> last_link evts = Some False
   | StFailed e \<Rightarrow> last_link evts \<noteq> Some True"
proof (induction evts rule: rev_induct)
  case Nil
  show ?case by (simp add: status_run_def last_link_def)
next
  case (snoc x evts)
  then show ?case
    by (cases x) (auto simp: status_run_snoc last_link_snoc status_after_def split: status.splits if_splits)
qed

theorem status_failed_for:
  assumes "status_run evts StConnecting = StFailed e"
  shows "failed_for evts e"
  using assms
proof (induction evts arbitrary: e rule: rev_induct)
  case Nil
  then show ?case by (simp add: status_run_def)
next
  case (snoc x evts)
  let ?s = "status_run evts StConnecting"
  show ?case
  proof (cases "status_after ?s x")
    case None
    with snoc.prems have "?s = StFailed e" by (simp add: status_run_snoc)
    from snoc.IH [OF this] obtain before after where f: "evts = before @ EvError e # after"
        "list_all (\<lambda>x. link_of x = None) after" "\<not> starts_with (lit ''not connected'') e"
        "last_link before \<noteq> Some True" "last_link before = Some False \<longrightarrow> is_sign_in_error e \<or>
          (\<exists>e'. status_run before StConnecting = StFailed e')"
      by (auto simp: failed_for_def)
    have "link_of x = None" using None by (cases x) (auto simp: status_after_def)
    with f show ?thesis unfolding failed_for_def
      by (intro exI [of _ before] exI [of _ "after @ [x]"]) simp
  next
    case (Some t)
    with snoc.prems have "t = StFailed e" by (simp add: status_run_snoc)
    with Some have x: "x = EvError e" "\<not> starts_with (lit ''not connected'') e"
        "\<not> (?s = StConnected \<or> ?s = StReconnecting) \<or> (?s = StReconnecting \<and> is_sign_in_error e)"
      by (cases x; auto simp: status_after_def split: if_splits)+
    have "last_link evts \<noteq> Some True" "last_link evts = Some False \<longrightarrow> is_sign_in_error e \<or> (\<exists>e'. ?s = StFailed e')"
      using status_link [of evts] x(3) by (auto split: status.splits)
    with x show ?thesis unfolding failed_for_def
      by (intro exI [of _ evts] exI [of _ "[]"]) simp
  qed
qed

lemma status_failed_for_witness:
  "failed_for [EvConnected, EvError (lit ''no such folder''), EvDisconnected, EvError (lit ''LOGIN failed'')] (lit ''LOGIN failed'')"
  by (rule status_failed_for) code_simp

lemma status_rows_length: "length (status_rows accounts statuses) = min (length accounts) (length statuses)"
  by (simp add: status_rows_def)

end
