(* ===== verification/Window.thy ===== *)
theory Window
  imports ListView Results Folders AccountStatus Reading
begin

text \<open>
  The main window, \<open>crates/esmail-win32/src/app\<close>: the open folder (\<open>folder.rs\<close>), the search
  box (\<open>search.rs\<close>), the selected message and its body (\<open>message.rs\<close>), the mail actions
  (\<open>actions.rs\<close>), the reading pane (\<open>reader.rs\<close>, \<open>preferences.rs\<close>), the accounts' part of
  the window (\<open>accounts/mod.rs\<close>) and what the events of the sessions and of the cache change
  (\<open>events.rs\<close>).  One record holds the fields of \<open>App\<close> these handlers use; everything they hand
  to another part (a command to a session or to the cache, a message the window posts to itself)
  is appended to \<open>wn_out\<close>.  What the environment decides is in \<open>win_env\<close>: whether a session takes a
  command, whether a timer can be set, the time, the order of a hash map.  Scrolling, menus,
  the title, compose windows, the tray and the theme are not modelled here.
\<close>

section \<open>State\<close>

type_synonym body_key = "nat \<times> str \<times> u32"

datatype content = Notice str "(str \<times> str) option" | Message mail_header str "attachment list"

text \<open>The reading pane; \<open>rd_loads\<close> lists the pages the HTML view was given, each with whether the image
  fetcher was installed then.\<close>

record reader =
  rd_content :: content
  rd_remote :: bool
  rd_loads :: "(content \<times> bool) list"

datatype effect =
    ToActor nat "auth imap_command"
  | ToCache db_command
  | ReadMailboxes nat str
  | ReadFolder nat str str nat
  | PostSelected "nat list"

record window =
  wn_config :: config
  wn_accounts :: "account_config list"
  wn_statuses :: "status list"
  wn_folders :: folder_tree
  wn_list :: list_view
  wn_search_text :: str
  wn_search_timer :: bool
  wn_search_focused :: bool
  wn_results :: "search_results option"
  wn_open :: "open_folder option"
  wn_bodies :: "body_key body_loads"
  wn_selected :: "mail_header option"
  wn_selected_in :: "folder_ref option"
  wn_seen_pending :: "(u32 \<times> nat) option"
  wn_seen_timer :: bool
  wn_action_ids :: latest
  wn_pending_actions :: nat
  wn_message_shown :: bool
  wn_select_after_load :: "nat option"
  wn_remote_images :: bool
  wn_reader :: reader
  wn_progress :: "progress_kind option"
  wn_status :: str
  wn_out :: "effect list"

record win_env =
  we_fmt :: date_fmt
  we_accepts :: "nat \<Rightarrow> auth imap_command \<Rightarrow> bool"
  we_timers :: bool
  we_now :: nat
  we_entries :: "(str \<rightharpoonup> u32) \<Rightarrow> (str \<times> u32) list"

definition CACHED_ROWS :: nat where "CACHED_ROWS = 1000"
definition MARK_SEEN_DELAY :: nat where "MARK_SEEN_DELAY = 1200"
definition TRASH_MAILBOX :: str where "TRASH_MAILBOX = lit ''Trash''"
definition ARCHIVE_MAILBOX :: str where "ARCHIVE_MAILBOX = lit ''Archive''"

definition window_new :: "config \<Rightarrow> window" where
  "window_new cfg =
     \<lparr>wn_config = cfg, wn_accounts = cfg_accounts cfg, wn_statuses = replicate (length (cfg_accounts cfg)) StConnecting,
      wn_folders = folder_tree_new (map ac_display_name (cfg_accounts cfg)), wn_list = list_view_new,
      wn_search_text = [], wn_search_timer = False, wn_search_focused = False, wn_results = None, wn_open = None,
      wn_bodies = body_loads_default, wn_selected = None, wn_selected_in = None, wn_seen_pending = None,
      wn_seen_timer = False, wn_action_ids = latest_default, wn_pending_actions = 0, wn_message_shown = False,
      wn_select_after_load = None, wn_remote_images = False,
      wn_reader = \<lparr>rd_content = Notice [] None, rd_remote = False, rd_loads = [(Notice [] None, False)]\<rparr>,
      wn_progress = None, wn_status = [], wn_out = []\<rparr>"

section \<open>The reading pane\<close>

definition rd_render :: "reader \<Rightarrow> reader" where
  "rd_render r = r\<lparr>rd_loads := rd_loads r @ [(rd_content r, rd_remote r)]\<rparr>"

definition rd_show :: "content \<Rightarrow> reader \<Rightarrow> reader" where
  "rd_show c r = rd_render (r\<lparr>rd_content := c\<rparr>)"

definition rd_set_remote :: "bool \<Rightarrow> reader \<Rightarrow> reader" where
  "rd_set_remote allow r = (if rd_remote r = allow then r else rd_render (r\<lparr>rd_remote := allow\<rparr>))"

definition current_message :: "reader \<Rightarrow> (mail_header \<times> str) option" where
  "current_message r = (case rd_content r of Message h body _ \<Rightarrow> Some (h, body) | Notice _ _ \<Rightarrow> None)"

definition current_attachments :: "reader \<Rightarrow> attachment list" where
  "current_attachments r = (case rd_content r of Message _ _ atts \<Rightarrow> atts | Notice _ _ \<Rightarrow> [])"

definition on_reader :: "(reader \<Rightarrow> reader) \<Rightarrow> window \<Rightarrow> window" where
  "on_reader f w = w\<lparr>wn_reader := f (wn_reader w)\<rparr>"

definition show_notice :: "str \<Rightarrow> window \<Rightarrow> window" where
  "show_notice t = on_reader (rd_show (Notice t None))"

definition SELECT_NOTICE :: str where "SELECT_NOTICE = lit ''Select a message to read it.''"

definition set_status :: "str \<Rightarrow> window \<Rightarrow> window" where
  "set_status t w = w\<lparr>wn_status := t\<rparr>"

definition win_banner :: "str \<Rightarrow> window \<Rightarrow> window" where
  "win_banner t w =
     (let w = set_status (lit ''Error: '' @ t) w in if wn_selected w = None then show_notice t w else w)"

definition allow_images_for :: "mail_header \<Rightarrow> window \<Rightarrow> window" where
  "allow_images_for h w = on_reader (rd_set_remote (wn_remote_images w \<or> sender_trusted (wn_config w) h)) w"

definition current_sender_trusted :: "window \<Rightarrow> bool" where
  "current_sender_trusted w =
     (case current_message (wn_reader w) of Some (h, _) \<Rightarrow> sender_trusted (wn_config w) h | None \<Rightarrow> False)"

definition trust_sender :: "bool \<Rightarrow> window \<Rightarrow> window" where
  "trust_sender trusted w =
     (case current_message (wn_reader w) of
        None \<Rightarrow> w
      | Some (h, _) \<Rightarrow>
          let (_, cfg) = set_sender_trusted h trusted (wn_config w)
          in allow_images_for h (w\<lparr>wn_config := cfg\<rparr>))"

definition set_remote_images :: "bool \<Rightarrow> window \<Rightarrow> window" where
  "set_remote_images allow w =
     (let w = w\<lparr>wn_remote_images := allow\<rparr>
      in on_reader (rd_set_remote (allow \<or> current_sender_trusted w)) w)"

definition stop_remote_images :: "window \<Rightarrow> window" where
  "stop_remote_images w =
     (if current_sender_trusted w then trust_sender False w else set_remote_images False w)"

section \<open>Sessions and cache\<close>

definition nth_opt :: "'a list \<Rightarrow> nat \<Rightarrow> 'a option" where
  "nth_opt xs i = (if i < length xs then Some (xs ! i) else None)"

definition win_emit :: "effect \<Rightarrow> window \<Rightarrow> window" where
  "win_emit e w = w\<lparr>wn_out := wn_out w @ [e]\<rparr>"

definition core_send :: "win_env \<Rightarrow> nat \<Rightarrow> auth imap_command \<Rightarrow> window \<Rightarrow> bool \<times> window" where
  "core_send env account cmd w =
     (if account < length (wn_accounts w) \<and> we_accepts env account cmd
      then (True, win_emit (ToActor account cmd) w) else (False, w))"

text \<open>The commands of \<open>core_glue/cache.rs\<close>; they name the account by its id.\<close>

definition to_cache :: "nat \<Rightarrow> (str \<Rightarrow> effect) \<Rightarrow> window \<Rightarrow> window" where
  "to_cache account f w =
     (case nth_opt (wn_accounts w) account of Some a \<Rightarrow> win_emit (f (ac_id a)) w | None \<Rightarrow> w)"

definition cache_index_headers :: "nat \<Rightarrow> str \<Rightarrow> mail_header list \<Rightarrow> window \<Rightarrow> window" where
  "cache_index_headers account mailbox hs =
     to_cache account (\<lambda>i. ToCache (IndexHeadersSearchable i mailbox hs))"

definition cache_index_mail ::
  "nat \<Rightarrow> str \<Rightarrow> mail_header \<Rightarrow> str \<Rightarrow> attachment list \<Rightarrow> window \<Rightarrow> window" where
  "cache_index_mail account mailbox h body atts =
     to_cache account (\<lambda>i. ToCache (IndexMail i mailbox h body atts))"

definition cache_update_flags :: "nat \<Rightarrow> str \<Rightarrow> u32 \<Rightarrow> str list \<Rightarrow> window \<Rightarrow> window" where
  "cache_update_flags account mailbox uid flags =
     to_cache account (\<lambda>i. ToCache (UpdateFlags i mailbox uid flags))"

definition cache_remove_message :: "nat \<Rightarrow> str \<Rightarrow> u32 \<Rightarrow> window \<Rightarrow> window" where
  "cache_remove_message account mailbox uid = to_cache account (\<lambda>i. ToCache (RemoveMessage i mailbox uid))"

definition cache_load_folder :: "nat \<Rightarrow> str \<Rightarrow> nat \<Rightarrow> window \<Rightarrow> window" where
  "cache_load_folder account mailbox limit = to_cache account (\<lambda>i. ReadFolder account i mailbox limit)"

definition cache_load_mailboxes :: "nat \<Rightarrow> window \<Rightarrow> window" where
  "cache_load_mailboxes account = to_cache account (\<lambda>i. ReadMailboxes account i)"

definition cache_search :: "parsed_query \<Rightarrow> window \<Rightarrow> window" where
  "cache_search q = win_emit (ToCache (Search None q None))"

definition account_failed :: "nat \<Rightarrow> str \<Rightarrow> window \<Rightarrow> window" where
  "account_failed account e w =
     (case nth_opt (cfg_accounts (wn_config w)) account of
        None \<Rightarrow> w
      | Some a \<Rightarrow>
          let t = ac_display_name a @ lit '': '' @ e;
              w = set_status (lit ''Error: '' @ t @ lit '' (File > Accounts... to reconnect)'') w;
              w = (if wn_selected w = None
                   then on_reader (rd_show (Notice t (Some (lit ''Reconnect...'', reconnect_href account)))) w else w)
          in if account < length (wn_statuses w) then w\<lparr>wn_statuses := (wn_statuses w)[account := StFailed e]\<rparr> else w)"

definition account_unavailable :: "nat \<Rightarrow> window \<Rightarrow> window" where
  "account_unavailable account w =
     (case nth_opt (wn_statuses w) account of
        Some (StFailed e) \<Rightarrow> account_failed account e w
      | _ \<Rightarrow> win_banner (lit ''this account is not connected'') w)"

definition track_status :: "nat \<Rightarrow> imap_event \<Rightarrow> window \<Rightarrow> window" where
  "track_status account evt w =
     (case nth_opt (wn_statuses w) account of
        None \<Rightarrow> w
      | Some current \<Rightarrow>
          (case status_after current evt of
             None \<Rightarrow> w
           | Some (StFailed e) \<Rightarrow> account_failed account e w
           | Some next \<Rightarrow> w\<lparr>wn_statuses := (wn_statuses w)[account := next]\<rparr>))"

definition send_or_report :: "win_env \<Rightarrow> nat \<Rightarrow> auth imap_command \<Rightarrow> window \<Rightarrow> window" where
  "send_or_report env account cmd w =
     (let (sent, w) = core_send env account cmd w in if sent then w else account_unavailable account w)"

definition request_unread_counts :: "win_env \<Rightarrow> nat \<Rightarrow> str list option \<Rightarrow> window \<Rightarrow> window" where
  "request_unread_counts env account only w =
     (let mailboxes = (case only of Some names \<Rightarrow> names | None \<Rightarrow> tree_mailbox_names (wn_folders w) account)
      in if mailboxes = [] then w else snd (core_send env account (FetchUnreadCounts mailboxes) w))"

section \<open>The open folder\<close>

definition on_list :: "(list_view \<Rightarrow> list_view) \<Rightarrow> window \<Rightarrow> window" where
  "on_list f w = w\<lparr>wn_list := f (wn_list w)\<rparr>"

definition list_select :: "nat list \<Rightarrow> window \<Rightarrow> window" where
  "list_select rows w =
     (let (posted, v) = list_set_selection rows (wn_list w);
          w = w\<lparr>wn_list := v\<rparr>
      in (case posted of Some rows \<Rightarrow> win_emit (PostSelected rows) w | None \<Rightarrow> w))"

definition search_active :: "window \<Rightarrow> bool" where
  "search_active w \<longleftrightarrow> wn_results w \<noteq> None"

definition search_reset :: "window \<Rightarrow> window" where
  "search_reset w = w\<lparr>wn_search_timer := False, wn_search_text := [], wn_results := None\<rparr>"

definition cancel_bodies :: "window \<Rightarrow> window" where
  "cancel_bodies w = w\<lparr>wn_bodies := cancel (wn_bodies w)\<rparr>"

definition seen_cancel :: "window \<Rightarrow> window" where
  "seen_cancel w = w\<lparr>wn_seen_pending := None, wn_seen_timer := False\<rparr>"

definition seen_schedule :: "win_env \<Rightarrow> u32 \<Rightarrow> window \<Rightarrow> window" where
  "seen_schedule env uid w =
     w\<lparr>wn_seen_pending := Some (uid, we_now env), wn_seen_timer := wn_seen_timer w \<or> we_timers env\<rparr>"

definition request_page :: "win_env \<Rightarrow> window \<Rightarrow> window" where
  "request_page env w =
     (case wn_open w of
        None \<Rightarrow> w
      | Some o1 \<Rightarrow>
          (case next_request o1 of
             (None, _) \<Rightarrow> w
           | (Some r, o1) \<Rightarrow>
               let w = w\<lparr>wn_open := Some o1\<rparr>;
                   folder = of_folder o1;
                   (sent, w) = core_send env (fr_account folder) (FetchHeaders (fr_mailbox folder) (pr_page r) (pr_id r)) w
               in if sent then w
                  else account_unavailable (fr_account folder) (w\<lparr>wn_open := Some (page_failed o1)\<rparr>)))"

definition open_the_folder :: "win_env \<Rightarrow> folder_ref \<Rightarrow> window \<Rightarrow> window" where
  "open_the_folder env folder w =
     (let w = cancel_bodies w;
          w = seen_cancel (w\<lparr>wn_selected := None\<rparr>);
          w = search_reset w;
          w = set_status (lit ''Loading '' @ fr_mailbox folder @ lit ''...'') w;
          w = on_list (list_set_rows []) w;
          w = show_notice SELECT_NOTICE w;
          w = cache_load_folder (fr_account folder) (fr_mailbox folder) CACHED_ROWS w;
          w = w\<lparr>wn_open := Some (open_folder_new folder)\<rparr>
      in request_page env w)"

definition folder_status :: "window \<Rightarrow> window" where
  "folder_status w =
     (case wn_open w of
        None \<Rightarrow> w
      | Some o1 \<Rightarrow>
          let loaded = dec_digits (length (of_headers o1)); mailbox = fr_mailbox (of_folder o1)
          in set_status
               (if is_cached_only o1 then mailbox @ lit '': '' @ loaded @ lit '' cached messages, checking the server...''
                else mailbox @ lit '': '' @ loaded @ lit '' messages'' @
                  (if is_complete o1 then [] else lit '' (scroll for older)'')) w)"

definition select_first_requested :: "window \<Rightarrow> window" where
  "select_first_requested w =
     (case wn_select_after_load w of
        None \<Rightarrow> w
      | Some row \<Rightarrow> list_select [row] (w\<lparr>wn_select_after_load := None\<rparr>))"

definition is_open_at :: "nat \<Rightarrow> str \<Rightarrow> open_folder \<Rightarrow> bool" where
  "is_open_at account mailbox o1 \<longleftrightarrow>
     fr_account (of_folder o1) = account \<and> fr_mailbox (of_folder o1) = mailbox"

definition open_at :: "nat \<Rightarrow> str \<Rightarrow> window \<Rightarrow> open_folder option" where
  "open_at account mailbox w =
     (case wn_open w of Some o1 \<Rightarrow> if is_open_at account mailbox o1 then Some o1 else None | None \<Rightarrow> None)"

definition seed_from_cache :: "win_env \<Rightarrow> nat \<Rightarrow> str \<Rightarrow> mail_header list \<Rightarrow> window \<Rightarrow> window" where
  "seed_from_cache env account mailbox hs w =
     (case open_at account mailbox w of
        None \<Rightarrow> w
      | Some o1 \<Rightarrow>
          (case seed (we_fmt env) hs o1 of
             (False, _) \<Rightarrow> w
           | (True, o1) \<Rightarrow>
               let w = w\<lparr>wn_open := Some o1\<rparr>;
                   w = (if search_active w then w else on_list (list_set_rows (of_rows o1)) w)
               in select_first_requested (folder_status w)))"

definition request_refresh :: "win_env \<Rightarrow> window \<Rightarrow> bool \<times> window" where
  "request_refresh env w =
     (case wn_open w of
        None \<Rightarrow> (False, w)
      | Some o1 \<Rightarrow>
          (case refresh_request o1 of
             (None, _) \<Rightarrow> (False, w)
           | (Some i, o1) \<Rightarrow>
               (True, send_or_report env (fr_account (of_folder o1)) (FetchHeaders (fr_mailbox (of_folder o1)) 1 i)
                  (w\<lparr>wn_open := Some o1\<rparr>))))"

definition win_refresh :: "win_env \<Rightarrow> window \<Rightarrow> window" where
  "win_refresh env w =
     (case wn_open w of
        None \<Rightarrow> w
      | Some o1 \<Rightarrow>
          let w = request_unread_counts env (fr_account (of_folder o1)) None w;
              (merging, w) = request_refresh env w
          in if merging then w else open_the_folder env (of_folder o1) w)"

definition win_download_all :: "win_env \<Rightarrow> window \<Rightarrow> window" where
  "win_download_all env w =
     (case wn_open w of
        None \<Rightarrow> set_status (lit ''Open a folder before downloading it.'') w
      | Some o1 \<Rightarrow>
          let folder = of_folder o1;
              (sent, w) = core_send env (fr_account folder) (BulkDownload (fr_mailbox folder)) w
          in if sent then set_status (lit ''Downloading '' @ fr_mailbox folder @ lit ''...'') w
             else account_unavailable (fr_account folder) w)"

text \<open>\<open>show_applied\<close>: a reply in the list.\<close>

definition list_edit :: "row_model list \<Rightarrow> list_view \<Rightarrow> edit \<Rightarrow> list_view" where
  "list_edit rows v e =
     (case e of Removed at \<Rightarrow> list_remove_rows rows at 1 v | Inserted at \<Rightarrow> list_insert_rows rows at 1 v)"

definition show_applied :: "applied \<Rightarrow> row_model list \<Rightarrow> u32 \<Rightarrow> window \<Rightarrow> window" where
  "show_applied applied rows page w =
     (case applied of
        Page added \<Rightarrow>
          if page = 1 then
            (let w = on_list (list_set_rows rows) w in if added > 0 then select_first_requested w else w)
          else on_list (list_extend_rows rows) w
      | Refreshed edits \<Rightarrow>
          if edits = [] then on_list (list_update_rows rows) w
          else on_list (\<lambda>v. foldl (list_edit rows) v edits) w)"

text \<open>Whether the open message left the open folder: the folder no longer lists it.\<close>

definition message_gone :: "open_folder \<Rightarrow> window \<Rightarrow> bool" where
  "message_gone o1 w =
     (case wn_selected w of
        None \<Rightarrow> False
      | Some h \<Rightarrow> wn_selected_in w = Some (of_folder o1) \<and> row_of (mh_uid h) (of_headers o1) = None)"

definition close_gone :: "open_folder \<Rightarrow> window \<Rightarrow> window" where
  "close_gone o1 w =
     (if message_gone o1 w
      then show_notice (lit ''This message is no longer in the folder.'') (cancel_bodies (w\<lparr>wn_selected := None\<rparr>))
      else w)"

definition apply_headers ::
  "win_env \<Rightarrow> nat \<Rightarrow> str \<Rightarrow> u64 \<Rightarrow> u32 \<Rightarrow> u32 \<Rightarrow> mail_header list \<Rightarrow> window \<Rightarrow> window" where
  "apply_headers env account mailbox i page total_pages hs w =
     (let w = cache_index_headers account mailbox hs w
      in (case open_at account mailbox w of
            None \<Rightarrow> w
          | Some o1 \<Rightarrow>
              (case apply_reply (we_fmt env) i page total_pages hs o1 of
                 (None, _) \<Rightarrow> w
               | (Some applied, o1) \<Rightarrow>
                   let keep_paging = (applied = Page 0 \<and> \<not> is_complete o1);
                       w = w\<lparr>wn_open := Some o1\<rparr>;
                       w = (if search_active w then w else show_applied applied (of_rows o1) page w);
                       w = folder_status w;
                       w = close_gone o1 w
                   in if keep_paging then request_page env w else w)))"


section \<open>The search box\<close>

definition message_at :: "nat \<Rightarrow> window \<Rightarrow> (folder_ref \<times> mail_header) option" where
  "message_at row w =
     (case wn_results w of
        Some r \<Rightarrow> sr_get r row
      | None \<Rightarrow>
          (case wn_open w of
             None \<Rightarrow> None
           | Some o1 \<Rightarrow> map_option (Pair (of_folder o1)) (nth_opt (of_headers o1) row)))"

definition reset_reading_pane :: "window \<Rightarrow> window" where
  "reset_reading_pane w =
     show_notice SELECT_NOTICE (cancel_bodies (w\<lparr>wn_selected := None, wn_message_shown := False\<rparr>))"

definition show_folder_again :: "window \<Rightarrow> window" where
  "show_folder_again w =
     (if wn_results w = None then w
      else
        let w = w\<lparr>wn_results := None\<rparr>;
            w = (case wn_open w of Some o1 \<Rightarrow> on_list (list_set_rows (of_rows o1)) w | None \<Rightarrow> w)
        in folder_status (reset_reading_pane w))"

definition search_changed :: "win_env \<Rightarrow> str \<Rightarrow> window \<Rightarrow> window" where
  "search_changed env t w =
     (if t = wn_search_text w then w
      else
        let w = w\<lparr>wn_search_text := t, wn_search_timer := False\<rparr>
        in if trim t = [] then show_folder_again w else w\<lparr>wn_search_timer := we_timers env\<rparr>)"

definition run_search :: "window \<Rightarrow> window" where
  "run_search w =
     (let w = w\<lparr>wn_search_timer := False\<rparr>; q = parse_query (wn_search_text w)
      in if query_is_empty q then set_status (lit ''Nothing to search for in that query'') w
         else cache_search q (set_status (lit ''Searching...'') w))"

definition search_count :: "nat \<Rightarrow> str \<Rightarrow> str" where
  "search_count n t =
     (if n = 0 then lit ''No cached message matches \"'' @ t @ lit ''\"''
      else if n = 1 then lit ''1 cached message matches \"'' @ t @ lit ''\" (Esc to clear)''
      else dec_digits n @ lit '' cached messages match \"'' @ t @ lit ''\" (Esc to clear)'')"

definition search_arrived :: "win_env \<Rightarrow> search_hit list \<Rightarrow> window \<Rightarrow> window" where
  "search_arrived env hits w =
     (if trim (wn_search_text w) = [] then w
      else
        let r = search_results_new (we_fmt env) hits (map ac_id (wn_accounts w));
            w = on_list (list_set_rows (sr_rows r)) w;
            w = reset_reading_pane w;
            w = w\<lparr>wn_results := Some r\<rparr>
        in set_status (search_count (length (sr_hits r)) (trim (wn_search_text w))) w)"

definition clear_search :: "window \<Rightarrow> window" where
  "clear_search w =
     (if wn_search_text w = [] \<and> \<not> search_active w then w
      else show_folder_again (w\<lparr>wn_search_text := [], wn_search_timer := False\<rparr>))"

section \<open>The selected message\<close>

definition win_fetch_body :: "win_env \<Rightarrow> body_key \<times> u64 \<Rightarrow> window \<Rightarrow> window" where
  "win_fetch_body env = (\<lambda>((account, mailbox, uid), i). send_or_report env account (FetchBody mailbox uid i))"

definition win_select :: "win_env \<Rightarrow> nat list \<Rightarrow> window \<Rightarrow> window" where
  "win_select env rows w =
     (case rows of
        [row] \<Rightarrow>
          (case message_at row w of
             None \<Rightarrow> w
           | Some (folder, header) \<Rightarrow>
               let w = w\<lparr>wn_selected_in := Some folder\<rparr>;
                   w = set_status (lit ''Loading message...'') w;
                   w = seen_cancel w;
                   w = (if is_seen header then w else seen_schedule env (mh_uid header) w);
                   w = w\<lparr>wn_selected := Some header, wn_message_shown := False\<rparr>;
                   (request, bodies) = want (fr_account folder, fr_mailbox folder, mh_uid header) (wn_bodies w);
                   w = w\<lparr>wn_bodies := bodies\<rparr>
               in (case request of Some r \<Rightarrow> win_fetch_body env r w | None \<Rightarrow> w))
      | _ \<Rightarrow> seen_cancel (cancel_bodies w))"

definition selected_is :: "nat \<Rightarrow> str \<Rightarrow> u32 \<Rightarrow> window \<Rightarrow> bool" where
  "selected_is account mailbox uid w \<longleftrightarrow>
     (case (wn_selected w, wn_selected_in w) of
        (Some h, Some folder) \<Rightarrow> mh_uid h = uid \<and> fr_account folder = account \<and> fr_mailbox folder = mailbox
      | _ \<Rightarrow> False)"

definition show_body ::
  "nat \<Rightarrow> str \<Rightarrow> str + str \<times> attachment list \<Rightarrow> mail_header \<Rightarrow> window \<Rightarrow> window" where
  "show_body account mailbox outcome header w =
     (case outcome of
        Inr (html, atts) \<Rightarrow>
          let w = cache_index_mail account mailbox header html atts w;
              w = allow_images_for header w;
              w = on_reader (rd_show (Message header html atts)) w
          in set_status (lit ''Ready'') w
      | Inl e \<Rightarrow>
          let t = lit ''Could not load this message: '' @ e
          in set_status (lit ''Error: '' @ t) (show_notice t w))\<lparr>wn_message_shown := True\<rparr>"

text \<open>The reply to a body fetch names its message only by uid and request id; the folder is taken
  from the selection.\<close>

definition body_arrived ::
  "win_env \<Rightarrow> nat \<Rightarrow> u32 \<Rightarrow> u64 \<Rightarrow> str + str \<times> attachment list \<Rightarrow> window \<Rightarrow> window" where
  "body_arrived env account uid i outcome w =
     (case wn_selected_in w of
        None \<Rightarrow> w
      | Some folder \<Rightarrow>
          let mailbox = fr_mailbox folder;
              (f, bodies) = body_finished (account, mailbox, uid) i (wn_bodies w);
              w = w\<lparr>wn_bodies := bodies\<rparr>;
              w = (case (fin_show f, wn_selected w) of
                     (True, Some header) \<Rightarrow> show_body account mailbox outcome header w
                   | _ \<Rightarrow> w)
          in (case fin_next f of Some r \<Rightarrow> win_fetch_body env r w | None \<Rightarrow> w))"

section \<open>Mail actions\<close>

definition counted_send :: "win_env \<Rightarrow> nat \<Rightarrow> auth imap_command \<Rightarrow> window \<Rightarrow> bool \<times> window" where
  "counted_send env account cmd w =
     (let (sent, w) = core_send env account cmd w
      in if sent then (True, w\<lparr>wn_pending_actions := wn_pending_actions w + 1\<rparr>)
         else (False, account_unavailable account w))"

definition begin_action :: "window \<Rightarrow> u64 \<times> window" where
  "begin_action w = (let (i, ids) = latest_begin (wn_action_ids w) in (i, w\<lparr>wn_action_ids := ids\<rparr>))"

definition win_store_flags ::
  "win_env \<Rightarrow> folder_ref \<Rightarrow> u32 \<Rightarrow> str list \<Rightarrow> str list \<Rightarrow> window \<Rightarrow> window" where
  "win_store_flags env folder uid add remove w =
     (let (i, w) = begin_action w
      in snd (counted_send env (fr_account folder) (StoreFlags (fr_mailbox folder) uid add remove i) w))"

definition win_set_flag :: "win_env \<Rightarrow> str \<Rightarrow> bool \<Rightarrow> folder_ref \<times> mail_header \<Rightarrow> window \<Rightarrow> window" where
  "win_set_flag env flag on = (\<lambda>(folder, h).
     if on then win_store_flags env folder (mh_uid h) [flag] [] else win_store_flags env folder (mh_uid h) [] [flag])"

definition targets :: "window \<Rightarrow> (folder_ref \<times> mail_header) list" where
  "targets w = filter_map (\<lambda>row. message_at row w) (sel_rows (lv_sel (wn_list w)))"

definition toggle_flag_of :: "win_env \<Rightarrow> (folder_ref \<times> mail_header) list \<Rightarrow> window \<Rightarrow> window" where
  "toggle_flag_of env ts w =
     (let flag = \<not> list_all (\<lambda>(_, h). is_flagged h) ts
      in foldl (\<lambda>w t. win_set_flag env FLAG_FLAGGED flag t w) w (filter (\<lambda>(_, h). is_flagged h \<noteq> flag) ts))"

definition toggle_flag :: "win_env \<Rightarrow> window \<Rightarrow> window" where
  "toggle_flag env w = toggle_flag_of env (targets w) w"

definition toggle_flag_at :: "win_env \<Rightarrow> nat \<Rightarrow> window \<Rightarrow> window" where
  "toggle_flag_at env row w =
     (if row \<in> set (sel_rows (lv_sel (wn_list w))) then toggle_flag env w
      else toggle_flag_of env (case message_at row w of Some t \<Rightarrow> [t] | None \<Rightarrow> []) w)"

definition set_seen :: "win_env \<Rightarrow> bool \<Rightarrow> window \<Rightarrow> window" where
  "set_seen env seen w =
     foldl (\<lambda>w t. win_set_flag env FLAG_SEEN seen t w) w (filter (\<lambda>(_, h). is_seen h \<noteq> seen) (targets w))"

text \<open>The loop of \<open>move_selected\<close>: it stops at the first message whose session takes no command.\<close>

fun move_targets ::
  "win_env \<Rightarrow> special_use \<Rightarrow> str \<Rightarrow> (folder_ref \<times> mail_header) list \<Rightarrow> str option \<Rightarrow> window \<Rightarrow> window" where
  "move_targets env kind fallback [] there w =
     (case there of
        Some dest \<Rightarrow> set_status (lit ''Some of these messages are already in '' @ dest) w
      | None \<Rightarrow> w)"
| "move_targets env kind fallback ((folder, h) # ts) there w =
     (let dest = special_folder (wn_folders w) (fr_account folder) kind fallback
      in if dest = fr_mailbox folder then move_targets env kind fallback ts (Some dest) w
         else
           let (i, w) = begin_action w;
               (sent, w) = counted_send env (fr_account folder) (MoveMessage (fr_mailbox folder) (mh_uid h) dest i) w
           in if sent then move_targets env kind fallback ts there w else w)"

definition move_selected :: "win_env \<Rightarrow> special_use \<Rightarrow> str \<Rightarrow> window \<Rightarrow> window" where
  "move_selected env kind fallback w = move_targets env kind fallback (targets w) None w"

definition win_archive :: "win_env \<Rightarrow> window \<Rightarrow> window" where
  "win_archive env = move_selected env SuArchive ARCHIVE_MAILBOX"

definition win_delete :: "win_env \<Rightarrow> window \<Rightarrow> window" where
  "win_delete env = move_selected env SuTrash TRASH_MAILBOX"

definition action_finished :: "window \<Rightarrow> window" where
  "action_finished w = w\<lparr>wn_pending_actions := wn_pending_actions w - 1\<rparr>"

text \<open>The path is the one the user chose, \<open>None\<close> when the dialog was closed; a path is its text.\<close>

definition export_selected :: "win_env \<Rightarrow> str option \<Rightarrow> window \<Rightarrow> window" where
  "export_selected env path w =
     (case (wn_selected_in w, wn_selected w) of
        (Some folder, Some h) \<Rightarrow>
          (case path of
             None \<Rightarrow> w
           | Some path \<Rightarrow>
               snd (counted_send env (fr_account folder) (ExportMessage (fr_mailbox folder) (mh_uid h) path)
                 (set_status (lit ''Exporting '' @ path @ lit ''...'') w)))
      | _ \<Rightarrow> set_status (lit ''Select a message to export first'') w)"

definition export_done :: "str \<Rightarrow> window \<Rightarrow> window" where
  "export_done path w = set_status (lit ''Saved '' @ path) (action_finished w)"

definition export_failed :: "str \<Rightarrow> window \<Rightarrow> window" where
  "export_failed e w = win_banner (lit ''Could not export the message: '' @ e) (action_finished w)"

definition folder_flags ::
  "win_env \<Rightarrow> nat \<Rightarrow> str \<Rightarrow> u32 \<Rightarrow> str list \<Rightarrow> window \<Rightarrow> (bool \<times> bool) option \<times> window" where
  "folder_flags env account mailbox uid flags w =
     (case open_at account mailbox w of
        None \<Rightarrow> (None, w)
      | Some o1 \<Rightarrow>
          (case (map_option (\<lambda>row. is_seen (of_headers o1 ! row)) (row_of uid (of_headers o1)),
                 folder_set_flags (we_fmt env) uid flags o1) of
             (Some was, (Some row, o1)) \<Rightarrow>
               (Some (was, is_seen (of_headers o1 ! row)),
                let w = w\<lparr>wn_open := Some o1\<rparr>
                in if search_active w then w else on_list (list_update_rows (of_rows o1)) w)
           | (_, (_, o1)) \<Rightarrow> (None, w\<lparr>wn_open := Some o1\<rparr>)))"

definition result_flags ::
  "win_env \<Rightarrow> nat \<Rightarrow> str \<Rightarrow> u32 \<Rightarrow> str list \<Rightarrow> (bool \<times> bool) option \<Rightarrow> window \<Rightarrow> (bool \<times> bool) option \<times> window" where
  "result_flags env account mailbox uid flags seen w =
     (case wn_results w of
        None \<Rightarrow> (seen, w)
      | Some r \<Rightarrow>
          let was = sr_seen account mailbox uid r;
              (changed, r) = sr_set_flags (we_fmt env) account mailbox uid flags r
          in if \<not> changed then (seen, w)
             else (case seen of Some s \<Rightarrow> Some s | None \<Rightarrow> map_option (\<lambda>was. (was, FLAG_SEEN \<in> set flags)) was,
                   on_list (list_update_rows (sr_rows r)) (w\<lparr>wn_results := Some r\<rparr>)))"

definition set_flags_everywhere ::
  "win_env \<Rightarrow> nat \<Rightarrow> str \<Rightarrow> u32 \<Rightarrow> str list \<Rightarrow> window \<Rightarrow> (bool \<times> bool) option \<times> window" where
  "set_flags_everywhere env account mailbox uid flags w =
     (let (seen, w) = folder_flags env account mailbox uid flags w;
          (seen, w) = result_flags env account mailbox uid flags seen w
      in (seen, if selected_is account mailbox uid w
                then w\<lparr>wn_selected := map_option (mh_flags_update (\<lambda>_. flags)) (wn_selected w)\<rparr> else w))"

definition flags_updated :: "win_env \<Rightarrow> nat \<Rightarrow> str \<Rightarrow> u32 \<Rightarrow> str list \<Rightarrow> window \<Rightarrow> window" where
  "flags_updated env account mailbox uid flags w =
     (let w = cache_update_flags account mailbox uid flags w;
          (seen, w) = set_flags_everywhere env account mailbox uid flags w
      in (case seen of
            None \<Rightarrow> w
          | Some (was_seen, now_seen) \<Rightarrow>
              if was_seen \<noteq> now_seen then request_unread_counts env account (Some [mailbox]) w else w))"

text \<open>A message that left its folder: out of the open folder, out of the results, and its row out of
  the list; when it was the open message, its neighbour is selected.\<close>

definition drop_from_folder :: "nat \<Rightarrow> str \<Rightarrow> u32 \<Rightarrow> window \<Rightarrow> nat option \<times> window" where
  "drop_from_folder account mailbox uid w =
     (case open_at account mailbox w of
        None \<Rightarrow> (None, w)
      | Some o1 \<Rightarrow> (let (row, o1) = folder_remove uid o1 in (row, w\<lparr>wn_open := Some o1\<rparr>)))"

definition drop_from_results :: "nat \<Rightarrow> str \<Rightarrow> u32 \<Rightarrow> window \<Rightarrow> nat option \<times> window" where
  "drop_from_results account mailbox uid w =
     (case wn_results w of
        None \<Rightarrow> (None, w)
      | Some r \<Rightarrow> (let (row, r) = sr_remove account mailbox uid r in (row, w\<lparr>wn_results := Some r\<rparr>)))"

definition dropped_row :: "nat option \<Rightarrow> nat option \<Rightarrow> window \<Rightarrow> (nat \<times> row_model list \<times> nat) option" where
  "dropped_row folder_row result_row w =
     (case (wn_results w, folder_row, result_row) of
        (Some r, _, Some row) \<Rightarrow> Some (row, sr_rows r, length (sr_hits r))
      | (None, Some row, _) \<Rightarrow> map_option (\<lambda>o1. (row, of_rows o1, length (of_headers o1))) (wn_open w)
      | _ \<Rightarrow> None)"

definition drop_row :: "bool \<Rightarrow> nat \<Rightarrow> row_model list \<Rightarrow> nat \<Rightarrow> window \<Rightarrow> window" where
  "drop_row was_selected row rows len w =
     (let w = on_list (list_remove_rows rows row 1) w
      in if \<not> was_selected then w
         else
           let w = cancel_bodies (w\<lparr>wn_selected := None\<rparr>)
           in if len = 0 then show_notice SELECT_NOTICE w else list_select [min row (len - 1)] w)"

definition moved_out :: "win_env \<Rightarrow> nat \<Rightarrow> str \<Rightarrow> u32 \<Rightarrow> str \<Rightarrow> window \<Rightarrow> window" where
  "moved_out env account mailbox uid dest w =
     (let w = set_status (lit ''Moved to '' @ dest) w;
          w = request_unread_counts env account (Some [mailbox, dest]) w;
          w = cache_remove_message account mailbox uid w;
          was_selected = selected_is account mailbox uid w;
          (folder_row, w) = drop_from_folder account mailbox uid w;
          (result_row, w) = drop_from_results account mailbox uid w
      in (case dropped_row folder_row result_row w of
            None \<Rightarrow> w
          | Some (row, rows, len) \<Rightarrow> drop_row was_selected row rows len w))"

definition mark_seen_when_due :: "win_env \<Rightarrow> window \<Rightarrow> window" where
  "mark_seen_when_due env w =
     (case wn_seen_pending w of
        None \<Rightarrow> seen_cancel w
      | Some (uid, since) \<Rightarrow>
          if map_option mh_uid (wn_selected w) \<noteq> Some uid then seen_cancel w
          else if we_now env - since \<ge> MARK_SEEN_DELAY then
            (let w = seen_cancel w
             in (case wn_selected_in w of
                   Some folder \<Rightarrow> win_store_flags env folder uid [FLAG_SEEN] [] w
                 | None \<Rightarrow> w))
          else w)"

section \<open>What the bars show\<close>

record action_state =
  acts_selected :: bool
  acts_busy :: bool
  acts_flagged :: bool
  acts_message :: bool

definition action_state_of :: "window \<Rightarrow> action_state" where
  "action_state_of w =
     \<lparr>acts_selected = (sel_rows (lv_sel (wn_list w)) \<noteq> []), acts_busy = (wn_pending_actions w > 0),
      acts_flagged = (case wn_selected w of Some h \<Rightarrow> is_flagged h | None \<Rightarrow> False),
      acts_message = (current_message (wn_reader w) \<noteq> None)\<rparr>"

definition bulk_enabled :: "action_state \<Rightarrow> bool" where
  "bulk_enabled s \<longleftrightarrow> acts_selected s \<and> \<not> acts_busy s"

definition message_enabled :: "action_state \<Rightarrow> bool" where
  "message_enabled s \<longleftrightarrow> acts_message s \<and> \<not> acts_busy s"

datatype remote_state = RemoteAbsent | RemoteBlocked str bool | RemoteAllowed | RemoteTrusted

definition remote_state_of :: "window \<Rightarrow> remote_state" where
  "remote_state_of w =
     (case current_message (wn_reader w) of
        None \<Rightarrow> RemoteAbsent
      | Some (h, _) \<Rightarrow>
          if current_sender_trusted w then RemoteTrusted
          else if wn_remote_images w then RemoteAllowed
          else RemoteBlocked (button_name (sender_name h)) (sender_address h \<noteq> None))"


section \<open>What the sessions and the cache report\<close>

datatype cache_event =
    CeFolders nat "str list"
  | CeHeaders nat str "mail_header list"
  | CeSearch "search_hit list"
  | CeFailed str

text \<open>The events about drafts and the outbox go to the compose windows.\<close>

definition handle_cache :: "win_env \<Rightarrow> cache_event \<Rightarrow> window \<Rightarrow> window" where
  "handle_cache env evt w =
     (case evt of
        CeFolders account mailboxes \<Rightarrow> w\<lparr>wn_folders := set_cached_mailboxes account mailboxes (wn_folders w)\<rparr>
      | CeHeaders account mailbox hs \<Rightarrow> seed_from_cache env account mailbox hs w
      | CeSearch hits \<Rightarrow> search_arrived env hits w
      | CeFailed message \<Rightarrow> win_banner (lit ''Cache: '' @ message) w)"

definition index_finished :: "progress_kind \<Rightarrow> progress \<Rightarrow> bool" where
  "index_finished kind p \<longleftrightarrow> kind = PIndex \<and> (case p of Counted current n \<Rightarrow> current = n | Indeterminate \<Rightarrow> False)"

definition win_set_progress :: "progress_kind \<Rightarrow> window \<Rightarrow> window" where
  "win_set_progress kind w =
     set_status (progress_label kind (case wn_open w of Some o1 \<Rightarrow> fr_mailbox (of_folder o1) | None \<Rightarrow> []))
       (w\<lparr>wn_progress := Some kind\<rparr>)"

definition win_clear_progress :: "window \<Rightarrow> window" where
  "win_clear_progress w = w\<lparr>wn_progress := None\<rparr>"

definition apply_progress :: "progress_kind \<Rightarrow> progress \<Rightarrow> window \<Rightarrow> window" where
  "apply_progress kind p w =
     (if index_finished kind p then set_status (lit ''Download complete'') (win_clear_progress w) else win_set_progress kind w)"

definition handle_event :: "win_env \<Rightarrow> nat \<Rightarrow> imap_event \<Rightarrow> window \<Rightarrow> window" where
  "handle_event env account evt w =
     (let w = track_status account evt w
      in (case evt of
            EvConnected \<Rightarrow>
              let w = set_status (lit ''Connected'') w;
                  w = snd (core_send env account FetchMailboxes w)
              in (case wn_open w of
                    Some o1 \<Rightarrow> if fr_account (of_folder o1) = account then snd (request_refresh env w) else w
                  | None \<Rightarrow> w)
          | EvDisconnected \<Rightarrow> set_status (lit ''Disconnected, reconnecting...'') w
          | EvError e \<Rightarrow>
              let w = w\<lparr>wn_open := map_option page_failed (wn_open w)\<rparr>;
                  w = (if wn_progress w = Some PIndex then win_clear_progress w else w)
              in win_banner e w
          | EvMailboxes mailboxes \<Rightarrow>
              request_unread_counts env account None (w\<lparr>wn_folders := set_mailboxes account mailboxes (wn_folders w)\<rparr>)
          | EvUnreadCounts counts \<Rightarrow> w\<lparr>wn_folders := set_unread account (we_entries env counts) (wn_folders w)\<rparr>
          | EvNewHeaders mailbox _ \<Rightarrow>
              let w = request_unread_counts env account None w
              in (if open_at account mailbox w \<noteq> None then snd (request_refresh env w) else w)
          | EvHeaders mailbox hs page total_pages i _ \<Rightarrow> apply_headers env account mailbox i page total_pages hs w
          | EvBody uid html atts i \<Rightarrow> body_arrived env account uid i (Inr (html, atts)) w
          | EvBodyFailed uid i e \<Rightarrow> body_arrived env account uid i (Inl e) w
          | EvFlagsUpdated mailbox uid flags _ \<Rightarrow> flags_updated env account mailbox uid flags (action_finished w)
          | EvFlagsUpdateFailed _ uid e _ \<Rightarrow>
              win_banner (lit ''Could not update message '' @ dec_u32 uid @ lit '': '' @ e) (action_finished w)
          | EvMoved mailbox uid dest _ \<Rightarrow> moved_out env account mailbox uid dest (action_finished w)
          | EvMoveFailed _ uid e _ \<Rightarrow>
              win_banner (lit ''Could not move message '' @ dec_u32 uid @ lit '': '' @ e) (action_finished w)
          | EvExported path \<Rightarrow> export_done path w
          | EvExportFailed e \<Rightarrow> export_failed e w
          | EvProgress kind p \<Rightarrow> apply_progress kind p w
          | EvMailData mailbox header body atts \<Rightarrow> cache_index_mail account mailbox header body atts w
          | _ \<Rightarrow> w))"

text \<open>\<open>Core::pump\<close>: at most \<open>PUMP_BATCH\<close> events of known accounts; what is left waits for the next
  wake, which the last component says is asked for.\<close>

definition PUMP_BATCH :: nat where "PUMP_BATCH = 256"

fun core_pump ::
  "nat \<Rightarrow> str list \<Rightarrow> (str \<times> imap_event) list \<Rightarrow> (nat \<times> imap_event) list \<times> (str \<times> imap_event) list \<times> bool" where
  "core_pump 0 ids queue = ([], queue, True)"
| "core_pump (Suc room) ids [] = ([], [], False)"
| "core_pump (Suc room) ids ((i, evt) # queue) =
     (case position (\<lambda>a. a = i) ids of
        Some account \<Rightarrow> (let (evts, rest, woken) = core_pump room ids queue in ((account, evt) # evts, rest, woken))
      | None \<Rightarrow> core_pump (Suc room) ids queue)"

definition win_drain :: "win_env \<Rightarrow> cache_event list \<Rightarrow> (str \<times> imap_event) list \<Rightarrow> window \<Rightarrow> window" where
  "win_drain env cached queue w =
     (let w = foldl (\<lambda>w e. handle_cache env e w) w cached;
          (evts, _, _) = core_pump PUMP_BATCH (map ac_id (wn_accounts w)) queue
      in foldl (\<lambda>w (account, e). handle_event env account e w) w evts)"

section \<open>Changed accounts\<close>

definition clear_view :: "window \<Rightarrow> window" where
  "clear_view w =
     (let w = cancel_bodies w;
          w = seen_cancel (w\<lparr>wn_selected := None, wn_selected_in := None\<rparr>);
          w = search_reset w;
          w = on_list (list_set_rows []) w;
          w = show_notice SELECT_NOTICE w
      in w\<lparr>wn_open := None, wn_message_shown := False\<rparr>)"

text \<open>The issues are those the new core reports; \<open>None\<close> when it could not be started.\<close>

definition reload_accounts :: "config \<Rightarrow> (nat \<times> str) list option \<Rightarrow> str \<Rightarrow> window \<Rightarrow> window" where
  "reload_accounts cfg issues e w =
     (let w = w\<lparr>wn_config := cfg\<rparr>
      in (case issues of
            None \<Rightarrow> win_banner (lit ''Could not restart the mail core: '' @ e) w
          | Some issues \<Rightarrow>
              let w = w\<lparr>wn_accounts := cfg_accounts cfg,
                        wn_statuses := replicate (length (cfg_accounts cfg)) StConnecting,
                        wn_folders := folder_tree_new (map ac_display_name (cfg_accounts cfg))\<rparr>;
                  w = clear_view w;
                  w = foldl (\<lambda>w (account, message). account_failed account message w) w issues;
                  w = foldl (\<lambda>w account. cache_load_mailboxes account w) w [0..<length (wn_accounts w)]
              in if wn_accounts w = []
                 then show_notice (lit ''No accounts are set up. Use File > Add account... to add one.'') w else w))"

definition open_from_cache :: "win_env \<Rightarrow> str option \<Rightarrow> nat \<Rightarrow> window \<Rightarrow> window" where
  "open_from_cache env wanted_folder wanted_account w =
     (let w = foldl (\<lambda>w account. cache_load_mailboxes account w) w [0..<length (wn_accounts w)]
      in if wn_accounts w = [] then w
         else open_the_folder env
           \<lparr>fr_account = min wanted_account (length (wn_accounts w) - 1),
            fr_mailbox = (case wanted_folder of Some m \<Rightarrow> m | None \<Rightarrow> lit ''INBOX'')\<rparr> w)"

definition account_saved :: "win_env \<Rightarrow> config \<Rightarrow> (nat \<times> str) list option \<Rightarrow> str \<Rightarrow> str \<Rightarrow> window \<Rightarrow> window" where
  "account_saved env cfg issues e i w =
     (let w = reload_accounts cfg issues e w
      in (case position (\<lambda>a. ac_id a = i) (cfg_accounts (wn_config w)) of
            None \<Rightarrow> w
          | Some index \<Rightarrow>
              set_status (lit ''Signing in '' @ ac_display_name (cfg_accounts (wn_config w) ! index) @ lit ''...'')
                (open_from_cache env None index w)))"

definition account_removed :: "config \<Rightarrow> (nat \<times> str) list option \<Rightarrow> str \<Rightarrow> str \<Rightarrow> window \<Rightarrow> window" where
  "account_removed cfg issues e i w =
     set_status (lit ''Account removed'') (win_emit (ToCache (RemoveAccount i)) (reload_accounts cfg issues e w))"

section \<open>The messages of the window\<close>

datatype win_msg =
    MsgWake "cache_event list" "(str \<times> imap_event) list"
  | MsgFolder node_id
  | MsgSelected "nat list"
  | MsgOpen nat
  | MsgNearEnd
  | MsgStopRemoteImages
  | MsgTrustSender
  | MsgRemoteImages bool
  | MsgRefresh
  | MsgToggleFlag
  | MsgToggleFlagAt nat
  | MsgSetSeen bool
  | MsgArchive
  | MsgDelete
  | MsgSearchChanged str
  | MsgEnter bool
  | MsgSearchFocused bool
  | MsgSearchClear
  | MsgExport "str option"
  | MsgDownloadAll
  | MsgSeenTick
  | MsgSearchTick
  | MsgAccountSaved config "(nat \<times> str) list option" str str
  | MsgAccountRemoved config "(nat \<times> str) list option" str str
  | MsgList list_input

text \<open>\<open>MsgList\<close> is input the list widget handles itself; the events it emits come back as messages.
  \<open>MsgEnter\<close> says whether the list has the focus; opening the focused row comes back as \<open>MsgOpen\<close>.
  \<open>MsgTrustSender\<close> is the banner's button while no account needs attention.\<close>

fun event_effect :: "list_event \<Rightarrow> effect list" where
  "event_effect (LSelected rows) = [PostSelected rows]"
| "event_effect _ = []"

definition win_update :: "win_env \<Rightarrow> win_msg \<Rightarrow> window \<Rightarrow> window" where
  "win_update env msg w =
     (case msg of
        MsgWake cached queue \<Rightarrow> win_drain env cached queue w
      | MsgFolder i \<Rightarrow>
          (case tree_selection (wn_folders w) i of Some folder \<Rightarrow> open_the_folder env folder w | None \<Rightarrow> w)
      | MsgSelected rows \<Rightarrow> win_select env rows w
      | MsgOpen row \<Rightarrow> win_select env [row] w
      | MsgNearEnd \<Rightarrow> if search_active w then w else request_page env w
      | MsgStopRemoteImages \<Rightarrow> stop_remote_images w
      | MsgTrustSender \<Rightarrow> trust_sender True w
      | MsgRemoteImages allow \<Rightarrow> set_remote_images allow w
      | MsgRefresh \<Rightarrow> win_refresh env w
      | MsgToggleFlag \<Rightarrow> toggle_flag env w
      | MsgToggleFlagAt row \<Rightarrow> toggle_flag_at env row w
      | MsgSetSeen seen \<Rightarrow> set_seen env seen w
      | MsgArchive \<Rightarrow> win_archive env w
      | MsgDelete \<Rightarrow> win_delete env w
      | MsgSearchChanged t \<Rightarrow> search_changed env t w
      | MsgEnter _ \<Rightarrow> if wn_search_focused w then run_search w else w
      | MsgSearchFocused focused \<Rightarrow> w\<lparr>wn_search_focused := focused\<rparr>
      | MsgSearchClear \<Rightarrow> clear_search w
      | MsgExport path \<Rightarrow> export_selected env path w
      | MsgDownloadAll \<Rightarrow> win_download_all env w
      | MsgSeenTick \<Rightarrow> if wn_seen_timer w then mark_seen_when_due env w else w
      | MsgSearchTick \<Rightarrow> if wn_search_timer w then run_search w else w
      | MsgAccountSaved cfg issues e i \<Rightarrow> account_saved env cfg issues e i w
      | MsgAccountRemoved cfg issues e i \<Rightarrow> account_removed cfg issues e i w
      | MsgList inp \<Rightarrow>
          let (evts, v) = list_handle inp (wn_list w)
          in w\<lparr>wn_list := v, wn_out := wn_out w @ concat (map event_effect evts)\<rparr>)"

definition win_run :: "(win_env \<times> win_msg) list \<Rightarrow> window \<Rightarrow> window" where
  "win_run steps w = foldl (\<lambda>w (env, msg). win_update env msg w) w steps"

section \<open>Folded folders\<close>

text \<open>\<open>restore_folds\<close>: which nodes are expanded or folded when an account's folders are first known,
  from the saved keys; nodes below a folded one are left alone.\<close>

fun restore_folds_from :: "(str \<Rightarrow> bool) \<Rightarrow> nat option \<Rightarrow> (node_id \<times> str \<times> bool \<times> nat) list \<Rightarrow> (node_id \<times> bool) list" where
  "restore_folds_from collapsed blocked [] = []"
| "restore_folds_from collapsed blocked ((i, key, has_children, depth) # rows) =
     (if (case blocked of Some b \<Rightarrow> depth > b | None \<Rightarrow> False) then restore_folds_from collapsed blocked rows
      else if \<not> has_children then restore_folds_from collapsed None rows
      else let expand = \<not> collapsed key
        in (i, expand) # restore_folds_from collapsed (if expand then None else Some depth) rows)"

definition restore_folds :: "str \<Rightarrow> str set \<Rightarrow> folder_tree \<Rightarrow> nat \<Rightarrow> (node_id \<times> bool) list" where
  "restore_folds account_id collapsed_folders t account =
     restore_folds_from (\<lambda>key. account_id @ 9 # key \<in> collapsed_folders) None (rows_with_ids t account)"

end
