(* ===== verification/WindowView.thy ===== *)
theory WindowView
  imports Window
begin

text \<open>
  What holds of the main window of \<open>Window\<close> in every state it reaches: the list shows exactly the
  messages the actions work on, whatever the sessions, the cache and the user do.
\<close>

section \<open>What a handler leaves alone\<close>

text \<open>The part of the window the list and the body fetches depend on.\<close>

abbreviation same_view :: "window \<Rightarrow> window \<Rightarrow> bool" where
  "same_view w' w \<equiv>
     wn_list w' = wn_list w \<and> wn_results w' = wn_results w \<and> wn_open w' = wn_open w \<and>
     wn_bodies w' = wn_bodies w \<and> wn_selected w' = wn_selected w \<and> wn_selected_in w' = wn_selected_in w"

lemma same_view_basic [simp]:
  "same_view (on_reader f w) w" "same_view (show_notice t w) w" "same_view (set_status t w) w"
  "same_view (win_emit e w) w" "same_view (win_banner t w) w" "same_view (to_cache a g w) w"
  "same_view (allow_images_for h w) w" "same_view (trust_sender b w) w" "same_view (set_remote_images b w) w"
  "same_view (stop_remote_images w) w" "same_view (seen_cancel w) w" "same_view (seen_schedule env uid w) w"
  "same_view (folder_status w) w"
  by (simp_all add: on_reader_def show_notice_def set_status_def win_emit_def win_banner_def to_cache_def
      allow_images_for_def trust_sender_def set_remote_images_def stop_remote_images_def seen_cancel_def
      seen_schedule_def folder_status_def Let_def split: option.split prod.split)

lemma same_view_cache [simp]:
  "same_view (cache_index_headers a m hs w) w" "same_view (cache_index_mail a m h body atts w) w"
  "same_view (cache_update_flags a m uid flags w) w" "same_view (cache_remove_message a m uid w) w"
  "same_view (cache_load_folder a m n w) w" "same_view (cache_load_mailboxes a w) w" "same_view (cache_search q w) w"
  by (simp_all add: cache_index_headers_def cache_index_mail_def cache_update_flags_def cache_remove_message_def
      cache_load_folder_def cache_load_mailboxes_def cache_search_def)

lemma same_view_core_send [simp]: "same_view (snd (core_send env a cmd w)) w"
  by (simp add: core_send_def)

lemma same_view_account [simp]:
  "same_view (account_failed a e w) w" "same_view (account_unavailable a w) w"
  by (simp_all add: account_failed_def account_unavailable_def Let_def split: option.split status.split)

lemma same_view_track [simp]: "same_view (track_status a evt w) w"
  by (simp add: track_status_def split: option.split status.split)

lemma same_view_send [simp]:
  "same_view (send_or_report env a cmd w) w" "same_view (request_unread_counts env a names w) w"
  "same_view (win_fetch_body env r w) w" "same_view (snd (counted_send env a cmd w)) w"
  by (simp_all add: send_or_report_def request_unread_counts_def win_fetch_body_def counted_send_def Let_def
      case_prod_beta)

lemma same_view_store [simp]:
  "same_view (snd (begin_action w)) w" "same_view (win_store_flags env f uid add remove w) w"
  "same_view (win_set_flag env flag on t w) w"
  by (simp_all add: begin_action_def win_store_flags_def win_set_flag_def case_prod_beta)

lemma same_view_foldl:
  assumes "\<And>t w. same_view (f t w) w"
  shows "same_view (foldl (\<lambda>w t. f t w) w ts) w"
proof (induction ts arbitrary: w)
  case (Cons t ts)
  from Cons.IH [of "f t w"] show ?case by (simp add: assms)
qed simp

lemma same_view_flags [simp]:
  "same_view (toggle_flag_of env ts w) w" "same_view (toggle_flag env w) w" "same_view (toggle_flag_at env row w) w"
  "same_view (set_seen env seen w) w"
  by (simp_all add: toggle_flag_of_def toggle_flag_def toggle_flag_at_def set_seen_def Let_def same_view_foldl)

lemma same_view_move [simp]: "same_view (move_targets env kind fallback ts there w) w"
proof (induction ts arbitrary: there w)
  case (Cons t ts)
  then show ?case by (cases t) (simp add: Let_def case_prod_beta)
qed (simp split: option.split)

lemma same_view_actions [simp]:
  "same_view (move_selected env kind fallback w) w" "same_view (win_archive env w) w" "same_view (win_delete env w) w"
  "same_view (action_finished w) w" "same_view (export_selected env path w) w"
  "same_view (export_done p w) w" "same_view (export_failed e w) w" "same_view (mark_seen_when_due env w) w"
  by (simp_all add: move_selected_def win_archive_def win_delete_def action_finished_def export_selected_def
      export_done_def export_failed_def mark_seen_when_due_def Let_def split: option.split)

lemma same_view_progress [simp]:
  "same_view (win_set_progress kind w) w" "same_view (win_clear_progress w) w" "same_view (apply_progress kind p w) w"
  by (simp_all add: win_set_progress_def win_clear_progress_def apply_progress_def)

section \<open>The list shows the messages the actions work on\<close>

definition shown_rows :: "search_results option \<Rightarrow> open_folder option \<Rightarrow> row_model list" where
  "shown_rows res opened =
     (case res of Some r \<Rightarrow> sr_rows r
      | None \<Rightarrow> (case opened of Some o1 \<Rightarrow> of_rows o1 | None \<Rightarrow> []))"

definition mirrors :: "date_fmt \<Rightarrow> open_folder \<Rightarrow> bool" where
  "mirrors fmt o1 \<longleftrightarrow> of_rows o1 = map (row_model_of fmt) (of_headers o1)"

definition hits_mirror :: "date_fmt \<Rightarrow> search_results \<Rightarrow> bool" where
  "hits_mirror fmt r \<longleftrightarrow> sr_rows r = map (\<lambda>(_, h). row_model_of fmt h) (sr_hits r)"

text \<open>With neither results nor a folder the list may still draw the hits of a search that was just
  cleared; no action finds a message behind them.\<close>

definition view_ok :: "date_fmt \<Rightarrow> list_view \<Rightarrow> search_results option \<Rightarrow> open_folder option \<Rightarrow> bool" where
  "view_ok fmt v res opened \<longleftrightarrow>
     lv_len v = length (lv_rows v) \<and> sel_ok (lv_sel v) \<and>
     (lv_rows v = shown_rows res opened \<or> res = None \<and> opened = None) \<and>
     pred_option (mirrors fmt) opened \<and> pred_option (hits_mirror fmt) res"

abbreviation in_step :: "date_fmt \<Rightarrow> window \<Rightarrow> bool" where
  "in_step fmt w \<equiv> view_ok fmt (wn_list w) (wn_results w) (wn_open w)"

text \<open>The folder's operations keep its rows in step with its headers.\<close>

lemma mirrors_fields [simp]:
  "mirrors fmt (o1\<lparr>of_ids := i, of_page_request := p\<rparr>) = mirrors fmt o1"
  "mirrors fmt (o1\<lparr>of_ids := i, of_refresh_request := p\<rparr>) = mirrors fmt o1"
  "mirrors fmt (page_failed o1) = mirrors fmt o1"
  "mirrors fmt (open_folder_new f)"
  "of_rows (page_failed o1) = of_rows o1" "of_rows (open_folder_new f) = []"
  by (simp_all add: mirrors_def page_failed_def open_folder_new_def)

lemma next_request_fields [simp]:
  "mirrors fmt (snd (next_request o1)) = mirrors fmt o1" "of_rows (snd (next_request o1)) = of_rows o1"
  "mirrors fmt (snd (refresh_request o1)) = mirrors fmt o1" "of_rows (snd (refresh_request o1)) = of_rows o1"
  by (simp_all add: next_request_def refresh_request_def latest_begin_def Let_def)

lemma mirrors_append: "mirrors fmt o1 \<Longrightarrow> mirrors fmt (snd (append_page fmt hs o1))"
  by (simp add: mirrors_def append_page_def Let_def)

lemma length_retain_rows:
  "length (retain_rows (filter (\<lambda>i. P (xs ! i)) [0..<length xs]) xs) +
     length (filter (\<lambda>i. P (xs ! i)) [0..<length xs]) = length xs"
proof -
  have "filter P xs = map (nth xs) (filter (\<lambda>i. P (xs ! i)) [0..<length xs])"
    using filter_map [of P "nth xs" "[0..<length xs]"] by (simp add: map_nth comp_def)
  then have "length (filter (\<lambda>i. P (xs ! i)) [0..<length xs]) = length (filter P xs)" by simp
  with retain_rows_filter [of P xs id] sum_length_filter_compl [of P xs] show ?thesis by simp
qed

lemma merge_header_edits:
  assumes "rows = map (row_model_of fmt) hs" and "foldl (merge_header fmt) (hs, rows, edits) fresh = (hs', rows', edits')"
  shows "rows' = map (row_model_of fmt) hs' \<and>
    (\<exists>new. edits' = edits @ map Inserted new \<and> length hs' = length hs + length new)"
  using assms
proof (induction fresh arbitrary: hs rows edits)
  case Nil
  then show ?case by auto
next
  case (Cons h fresh)
  obtain hs1 rows1 edits1 where m: "merge_header fmt (hs, rows, edits) h = (hs1, rows1, edits1)"
    by (metis prod_cases3)
  have "rows1 = map (row_model_of fmt) hs1" by (rule merge_header_rows [OF Cons.prems(1) m])
  moreover have "\<exists>new. edits1 = edits @ map Inserted new \<and> length hs1 = length hs + length new"
  proof (cases "row_of (mh_uid h) hs")
    case None
    have at: "at \<le> length hs"
      if "at = (case position (\<lambda>old. mh_uid old < mh_uid h) hs of Some i \<Rightarrow> i | None \<Rightarrow> length hs)" for at
      using that by (auto simp: position_Some split: option.splits)
    with m None show ?thesis
      by (auto simp: merge_header_def Let_def list_insert_at_def intro!: exI [of _ "[_]"] split: option.splits)
  next
    case (Some at)
    with m show ?thesis by (auto simp: merge_header_def intro: exI [of _ "[]"])
  qed
  moreover have "foldl (merge_header fmt) (hs1, rows1, edits1) fresh = (hs', rows', edits')"
    using Cons.prems(2) m by simp
  ultimately show ?case
    using Cons.IH [of rows1 hs1 edits1] by (metis append.assoc length_append add.assoc map_append)
qed

lemma merge_newest_edits:
  assumes "mirrors fmt o1" and "merge_newest fmt fresh o1 = (edits, o2)"
  shows "mirrors fmt o2 \<and>
    (\<exists>gone new. edits = map Removed gone @ map Inserted new \<and> length gone \<le> length (of_headers o1) \<and>
       length (of_headers o2) = length (of_headers o1) - length gone + length new)"
proof -
  let ?floor = "case last_opt fresh of None \<Rightarrow> 0 | Some h \<Rightarrow> mh_uid h"
  let ?gone = "gone_rows ?floor (mh_uid ` set fresh) (of_headers o1)"
  let ?P = "\<lambda>x. mh_uid x \<ge> ?floor \<and> mh_uid x \<notin> mh_uid ` set fresh"
  have g: "?gone = filter (\<lambda>i. ?P (of_headers o1 ! i)) [0..<length (of_headers o1)]" by (simp add: gone_rows_def)
  define hs where "hs = (if ?gone = [] then of_headers o1 else retain_rows ?gone (of_headers o1))"
  define rows where "rows = (if ?gone = [] then of_rows o1 else retain_rows ?gone (of_rows o1))"
  have len: "length hs + length ?gone = length (of_headers o1)"
    using length_retain_rows [of ?P "of_headers o1"] unfolding g [symmetric] by (simp add: hs_def)
  have rows: "rows = map (row_model_of fmt) hs"
    using assms(1) retain_rows_filter [where P = ?P and f = "row_model_of fmt" and xs = "of_headers o1"]
      retain_rows_filter [where P = ?P and f = id and xs = "of_headers o1"]
    unfolding g [symmetric] by (simp add: hs_def rows_def mirrors_def)
  obtain hs' rows' edits' where f:
      "foldl (merge_header fmt) (hs, rows, map Removed (rev ?gone)) fresh = (hs', rows', edits')"
    by (metis prod_cases3)
  have "edits = edits'" "o2 = o1\<lparr>of_headers := hs', of_rows := rows'\<rparr>"
    using assms(2) f by (auto simp: merge_newest_def Let_def hs_def rows_def split: if_splits prod.splits)
  moreover from merge_header_edits [OF rows f] obtain new where
    "rows' = map (row_model_of fmt) hs'" "edits' = map Removed (rev ?gone) @ map Inserted new"
    "length hs' = length hs + length new" by blast
  ultimately show ?thesis
    using len by (intro conjI exI [of _ "rev ?gone"] exI [of _ new]) (simp_all add: mirrors_def)
qed

text \<open>The edits of a refresh bring the list's row count to the new one.\<close>

lemma list_edit_fields:
  "sel_ok (lv_sel v) \<Longrightarrow> sel_ok (lv_sel (list_edit rows v e))" "lv_rows (list_edit rows v e) = rows"
  "lv_len (list_edit rows v (Removed i)) = lv_len v - 1" "lv_len (list_edit rows v (Inserted i)) = lv_len v + 1"
  by (cases e; simp add: list_edit_def list_remove_rows_def list_insert_rows_def)+

lemma list_edits:
  "sel_ok (lv_sel v) \<Longrightarrow> sel_ok (lv_sel (foldl (list_edit rows) v es))"
  "lv_rows (foldl (list_edit rows) v es) = (if es = [] then lv_rows v else rows)"
  "lv_len (foldl (list_edit rows) v (map Removed gone)) = lv_len v - length gone"
  "lv_len (foldl (list_edit rows) v (map Inserted new)) = lv_len v + length new"
proof -
  show "sel_ok (lv_sel v) \<Longrightarrow> sel_ok (lv_sel (foldl (list_edit rows) v es))"
    by (induction es arbitrary: v) (simp_all add: list_edit_fields)
  show "lv_rows (foldl (list_edit rows) v es) = (if es = [] then lv_rows v else rows)"
    by (induction es arbitrary: v) (simp_all add: list_edit_fields)
  show "lv_len (foldl (list_edit rows) v (map Removed gone)) = lv_len v - length gone"
    by (induction gone arbitrary: v) (simp_all add: list_edit_fields)
  show "lv_len (foldl (list_edit rows) v (map Inserted new)) = lv_len v + length new"
    by (induction new arbitrary: v) (simp_all add: list_edit_fields)
qed

definition list_follows :: "list_view \<Rightarrow> row_model list \<Rightarrow> bool" where
  "list_follows v rows \<longleftrightarrow> lv_len v = length (lv_rows v) \<and> sel_ok (lv_sel v) \<and> lv_rows v = rows"

lemma view_ok_follows:
  "view_ok fmt v res opened \<longleftrightarrow>
     (list_follows v (shown_rows res opened) \<or> list_follows v (lv_rows v) \<and> res = None \<and> opened = None) \<and>
     pred_option (mirrors fmt) opened \<and> pred_option (hits_mirror fmt) res"
  by (auto simp: view_ok_def list_follows_def)

lemma list_follows_ops [simp]:
  "list_follows (list_set_rows rows v) rows"
  "list_follows v old \<Longrightarrow> list_follows (list_extend_rows rows v) rows"
  "list_follows v old \<Longrightarrow> length rows = length old \<Longrightarrow> list_follows (list_update_rows rows v) rows"
  "list_follows v old \<Longrightarrow> list_follows (snd (list_set_selection s v)) old"
  "list_follows list_view_new []"
  "list_follows v (lv_rows v) \<Longrightarrow> list_follows (snd (list_set_selection s v)) (lv_rows (snd (list_set_selection s v)))"
  by (auto simp: list_follows_def list_set_rows_def list_extend_rows_def list_update_rows_def
      list_set_selection_def list_view_new_def Let_def)

lemma list_follows_steady: "list_follows v rows \<Longrightarrow> list_follows v (lv_rows v)"
  by (simp add: list_follows_def)

lemma list_follows_remove:
  "list_follows v old \<Longrightarrow> row < length old \<Longrightarrow> rows = list_remove_at row old \<Longrightarrow>
   list_follows (list_remove_rows rows row 1 v) rows"
  by (auto simp: list_follows_def list_remove_rows_def length_list_remove_at)

lemma list_follows_edits:
  assumes "mirrors fmt o1" and "merge_newest fmt fresh o1 = (edits, o2)" and "list_follows v (of_rows o1)" and "edits \<noteq> []"
  shows "list_follows (foldl (list_edit (of_rows o2)) v edits) (of_rows o2)"
proof -
  from merge_newest_edits [OF assms(1,2)] obtain gone new where e: "edits = map Removed gone @ map Inserted new"
      "length gone \<le> length (of_headers o1)" "length (of_headers o2) = length (of_headers o1) - length gone + length new"
    and m: "mirrors fmt o2" by blast
  have "lv_len v = length (of_headers o1)" using assms(1,3) by (simp add: list_follows_def mirrors_def)
  then have "lv_len (foldl (list_edit (of_rows o2)) v edits) = length (of_rows o2)"
    using e m by (simp add: list_edits mirrors_def)
  with assms(3,4) show ?thesis by (simp add: list_follows_def list_edits)
qed

lemma merge_newest_unedited:
  assumes "mirrors fmt o1" and "merge_newest fmt fresh o1 = ([], o2)"
  shows "length (of_rows o2) = length (of_rows o1)"
  using merge_newest_edits [OF assms] assms(1) by (auto simp: mirrors_def)

text \<open>Showing a reply in the list.\<close>

definition applied_by :: "date_fmt \<Rightarrow> open_folder \<Rightarrow> applied \<Rightarrow> open_folder \<Rightarrow> bool" where
  "applied_by fmt o1 applied o2 \<longleftrightarrow>
     (case applied of
        Page _ \<Rightarrow> True
      | Refreshed edits \<Rightarrow>
          (\<exists>o0 o3 hs. of_rows o0 = of_rows o1 \<and> mirrors fmt o0 \<and> merge_newest fmt hs o0 = (edits, o3) \<and> of_rows o3 = of_rows o2))"

lemma merge_newest_folder [simp]: "of_folder (snd (merge_newest fmt hs o1)) = of_folder o1"
  by (simp add: merge_newest_def Let_def case_prod_beta)

lemma merged_applied:
  assumes "mirrors fmt o0" and "of_rows o0 = of_rows o1" and "of_folder o0 = of_folder o1"
    and "(applied, o2) = (let (edits, o2) = merge_newest fmt hs o0 in (Refreshed edits, o2))"
  shows "mirrors fmt o2 \<and> applied_by fmt o1 applied o2 \<and> of_folder o2 = of_folder o1"
proof -
  obtain edits where m: "merge_newest fmt hs o0 = (edits, o2)" "applied = Refreshed edits"
    using assms(4) by (cases "merge_newest fmt hs o0") auto
  with merge_newest_edits [OF assms(1) m(1)] assms(1-3) merge_newest_folder [of fmt hs o0] show ?thesis
    by (auto simp: applied_by_def)
qed

lemma apply_reply_applied:
  assumes "mirrors fmt o1" and "apply_reply fmt i page n hs o1 = (Some applied, o2)"
  shows "mirrors fmt o2 \<and> applied_by fmt o1 applied o2 \<and> of_folder o2 = of_folder o1"
proof (cases "of_page_request o1 = Some i")
  case True
  let ?x = "o1\<lparr>of_page_request := None, of_total_pages := Some n, of_first_page_arrived := True\<rparr>"
  let ?s = "?x\<lparr>of_next_page := max (of_next_page o1) (page + 1)\<rparr>"
  show ?thesis
  proof (cases "is_cached_only (o1\<lparr>of_page_request := None, of_total_pages := Some n\<rparr>)")
    case seeded: True
    have "mirrors fmt ?s" "of_rows ?s = of_rows o1" "of_folder ?s = of_folder o1"
      using assms(1) by (simp_all add: mirrors_def)
    moreover have "(applied, o2) = (let (edits, o2) = merge_newest fmt hs ?s in (Refreshed edits, o2))"
      using assms(2) True seeded by (auto simp: apply_reply_def Let_def case_prod_beta)
    ultimately show ?thesis by (rule merged_applied)
  next
    case False
    have "mirrors fmt (?x\<lparr>of_next_page := page + 1\<rparr>)" using assms(1) by (simp add: mirrors_def)
    from mirrors_append [OF this, of hs] assms(2) True False show ?thesis
      by (auto simp: apply_reply_def Let_def case_prod_beta applied_by_def append_page_def)
  qed
next
  case False
  let ?x = "o1\<lparr>of_refresh_request := None, of_total_pages := Some n\<rparr>"
  have "mirrors fmt ?x" "of_rows ?x = of_rows o1" "of_folder ?x = of_folder o1"
    using assms(1) by (simp_all add: mirrors_def)
  moreover have "(applied, o2) = (let (edits, o2) = merge_newest fmt hs ?x in (Refreshed edits, o2))"
    using assms(2) False by (auto simp: apply_reply_def Let_def case_prod_beta split: if_splits)
  ultimately show ?thesis by (rule merged_applied)
qed

section \<open>Every message keeps the list in step\<close>

lemma view_ok_same: "same_view w' w \<Longrightarrow> in_step fmt w' = in_step fmt w" by simp

lemma in_step_list_select: "in_step fmt w \<Longrightarrow> in_step fmt (list_select rows w)"
  by (auto simp: list_select_def view_ok_follows Let_def case_prod_beta split: option.split)

lemma in_step_select_first: "in_step fmt w \<Longrightarrow> in_step fmt (select_first_requested w)"
  by (simp add: select_first_requested_def in_step_list_select split: option.split)

lemma request_page_view:
  "wn_list (request_page env w) = wn_list w" "wn_results (request_page env w) = wn_results w"
  "wn_open (request_page env w) = None \<longleftrightarrow> wn_open w = None"
  "shown_rows res (wn_open (request_page env w)) = shown_rows res (wn_open w)"
  "pred_option (mirrors fmt) (wn_open w) \<Longrightarrow> pred_option (mirrors fmt) (wn_open (request_page env w))"
proof -
  show "wn_list (request_page env w) = wn_list w" "wn_results (request_page env w) = wn_results w"
    "wn_open (request_page env w) = None \<longleftrightarrow> wn_open w = None"
    by (simp_all add: request_page_def Let_def case_prod_beta split: option.split)
  show "shown_rows res (wn_open (request_page env w)) = shown_rows res (wn_open w)"
    by (auto simp: request_page_def shown_rows_def Let_def case_prod_beta split: option.split)
  show "pred_option (mirrors fmt) (wn_open w) \<Longrightarrow> pred_option (mirrors fmt) (wn_open (request_page env w))"
    by (auto simp: request_page_def Let_def case_prod_beta split: option.split)
qed

lemma in_step_request_page: "in_step fmt w \<Longrightarrow> in_step fmt (request_page env w)"
  by (simp add: view_ok_def request_page_view)

lemma request_refresh_view:
  "wn_list (snd (request_refresh env w)) = wn_list w" "wn_results (snd (request_refresh env w)) = wn_results w"
  "wn_open (snd (request_refresh env w)) = None \<longleftrightarrow> wn_open w = None"
  "shown_rows res (wn_open (snd (request_refresh env w))) = shown_rows res (wn_open w)"
  "pred_option (mirrors fmt) (wn_open w) \<Longrightarrow> pred_option (mirrors fmt) (wn_open (snd (request_refresh env w)))"
  by (auto simp: request_refresh_def shown_rows_def Let_def case_prod_beta split: option.split)

lemma in_step_request_refresh: "in_step fmt w \<Longrightarrow> in_step fmt (snd (request_refresh env w))"
  by (simp add: view_ok_def request_refresh_view)

lemma in_step_open: "in_step fmt (open_the_folder env f w)"
proof -
  let ?w = "cache_load_folder (fr_account f) (fr_mailbox f) CACHED_ROWS (show_notice SELECT_NOTICE (on_list (list_set_rows [])
     (set_status (lit ''Loading '' @ fr_mailbox f @ lit ''...'')
       (search_reset (seen_cancel ((cancel_bodies w)\<lparr>wn_selected := None\<rparr>))))))\<lparr>wn_open := Some (open_folder_new f)\<rparr>"
  have "in_step fmt ?w"
    by (simp add: view_ok_follows shown_rows_def search_reset_def on_list_def)
  then show ?thesis by (simp add: open_the_folder_def Let_def in_step_request_page)
qed

lemma open_at_Some: "open_at a m w = Some o1 \<Longrightarrow> wn_open w = Some o1 \<and> is_open_at a m o1"
  by (auto simp: open_at_def split: option.splits if_splits)

lemma in_step_seed:
  assumes "in_step fmt w" and "we_fmt env = fmt"
  shows "in_step fmt (seed_from_cache env a m hs w)"
proof (cases "open_at a m w")
  case (Some o1)
  obtain seeded o2 where s: "seed fmt hs o1 = (seeded, o2)" by fastforce
  show ?thesis
  proof (cases seeded)
    case True
    with s have m: "mirrors fmt o2" by (auto simp: seed_def mirrors_def split: if_splits)
    have o1: "wn_open w = Some o1" using open_at_Some [OF Some] by simp
    let ?w = "w\<lparr>wn_open := Some o2\<rparr>"
    have "in_step fmt (if search_active ?w then ?w else on_list (list_set_rows (of_rows o2)) ?w)"
      using assms(1) m o1 by (auto simp: view_ok_follows shown_rows_def on_list_def search_active_def split: option.splits)
    then have "in_step fmt (folder_status (if search_active ?w then ?w else on_list (list_set_rows (of_rows o2)) ?w))"
      by simp
    from in_step_select_first [OF this] assms(2) Some s True show ?thesis
      by (simp add: seed_from_cache_def Let_def)
  qed (use assms Some s in \<open>simp add: seed_from_cache_def\<close>)
qed (use assms in \<open>simp add: seed_from_cache_def\<close>)

lemma in_step_show_applied:
  assumes "in_step fmt (w\<lparr>wn_open := Some o1\<rparr>)" and "wn_results w = None" and "mirrors fmt o2"
    and "applied_by fmt o1 applied o2" and "wn_open w = Some o2"
  shows "in_step fmt (show_applied applied (of_rows o2) page w)"
proof (cases applied)
  case (Page n)
  have "in_step fmt (on_list (list_set_rows (of_rows o2)) w)" "in_step fmt (on_list (list_extend_rows (of_rows o2)) w)"
    using assms by (auto simp: view_ok_follows shown_rows_def on_list_def)
  with Page show ?thesis by (simp add: show_applied_def Let_def in_step_select_first)
next
  case (Refreshed edits)
  with assms(4) obtain o0 o3 hs where r: "of_rows o0 = of_rows o1" "mirrors fmt o0"
      "merge_newest fmt hs o0 = (edits, o3)" "of_rows o3 = of_rows o2"
    by (auto simp: applied_by_def)
  have v: "list_follows (wn_list w) (of_rows o0)"
    using assms(1,2) r(1) by (simp add: view_ok_follows shown_rows_def)
  show ?thesis
  proof (cases "edits = []")
    case True
    with merge_newest_unedited [OF r(2)] r v have "list_follows (list_update_rows (of_rows o2) (wn_list w)) (of_rows o2)"
      by (metis list_follows_ops(3))
    with True Refreshed assms(2,3,5) show ?thesis
      by (simp add: show_applied_def view_ok_follows shown_rows_def on_list_def)
  next
    case False
    with list_follows_edits [OF r(2,3) v False] r(4) Refreshed assms(2,3,5) show ?thesis
      by (simp add: show_applied_def view_ok_follows shown_rows_def on_list_def)
  qed
qed

lemma close_gone_view [simp]:
  "wn_list (close_gone o1 w) = wn_list w" "wn_results (close_gone o1 w) = wn_results w"
  "wn_open (close_gone o1 w) = wn_open w"
  by (simp_all add: close_gone_def cancel_bodies_def)

lemma in_step_apply_headers:
  assumes "in_step fmt w" and "we_fmt env = fmt"
  shows "in_step fmt (apply_headers env a m i page n hs w)"
proof (cases "open_at a m (cache_index_headers a m hs w)")
  case (Some o1)
  let ?w1 = "cache_index_headers a m hs w"
  obtain applied o2 where r: "apply_reply fmt i page n hs o1 = (applied, o2)" by fastforce
  show ?thesis
  proof (cases applied)
    case (Some ap)
    have o1: "wn_open w = Some o1" using open_at_Some [OF \<open>open_at a m ?w1 = Some o1\<close>] by simp
    then have "mirrors fmt o1" using assms(1) by (simp add: view_ok_def)
    note a = apply_reply_applied [OF this, of i page n hs ap o2] r Some
    let ?w2 = "?w1\<lparr>wn_open := Some o2\<rparr>"
    let ?w3 = "if search_active ?w2 then ?w2 else show_applied ap (of_rows o2) page ?w2"
    have "in_step fmt ?w3"
    proof (cases "search_active ?w2")
      case True
      with assms(1) a show ?thesis by (auto simp: view_ok_def shown_rows_def search_active_def)
    next
      case False
      have "in_step fmt (?w2\<lparr>wn_open := Some o1\<rparr>)" using assms(1) o1 by simp
      with False a show ?thesis
        by (simp add: in_step_show_applied search_active_def)
    qed
    with Some r assms(2) \<open>open_at a m ?w1 = Some o1\<close> show ?thesis
      by (simp add: apply_headers_def Let_def in_step_request_page)
  qed (use assms r \<open>open_at a m ?w1 = Some o1\<close> in \<open>simp add: apply_headers_def\<close>)
qed (use assms in \<open>simp add: apply_headers_def\<close>)

lemma reset_pane_view [simp]:
  "wn_list (reset_reading_pane w) = wn_list w" "wn_results (reset_reading_pane w) = wn_results w"
  "wn_open (reset_reading_pane w) = wn_open w" "wn_search_text (reset_reading_pane w) = wn_search_text w"
  by (simp_all add: reset_reading_pane_def cancel_bodies_def show_notice_def on_reader_def)

lemma in_step_show_folder_again:
  assumes "in_step fmt w"
  shows "in_step fmt (show_folder_again w)"
  using assms by (auto simp: show_folder_again_def Let_def view_ok_follows shown_rows_def on_list_def
      dest: list_follows_steady split: option.split)

lemma in_step_search_changed: "in_step fmt w \<Longrightarrow> in_step fmt (search_changed env t w)"
  by (simp add: search_changed_def Let_def in_step_show_folder_again)

lemma in_step_run_search: "in_step fmt w \<Longrightarrow> in_step fmt (run_search w)"
  by (simp add: run_search_def Let_def)

lemma hits_mirror_new: "hits_mirror fmt (search_results_new fmt hits ids)"
  by (simp add: hits_mirror_def search_results_new_def Let_def)

lemma in_step_search_arrived: "in_step fmt w \<Longrightarrow> we_fmt env = fmt \<Longrightarrow> in_step fmt (search_arrived env hits w)"
  by (auto simp: search_arrived_def Let_def view_ok_follows shown_rows_def on_list_def hits_mirror_new)

lemma in_step_clear_search: "in_step fmt w \<Longrightarrow> in_step fmt (clear_search w)"
  by (simp add: clear_search_def in_step_show_folder_again)

lemma win_select_view [simp]:
  "wn_list (win_select env rows w) = wn_list w" "wn_results (win_select env rows w) = wn_results w"
  "wn_open (win_select env rows w) = wn_open w"
  by (auto simp: win_select_def Let_def case_prod_beta cancel_bodies_def split: list.split option.split)

lemma body_arrived_view [simp]:
  "wn_list (body_arrived env a uid i outcome w) = wn_list w" "wn_results (body_arrived env a uid i outcome w) = wn_results w"
  "wn_open (body_arrived env a uid i outcome w) = wn_open w"
  by (auto simp: body_arrived_def show_body_def Let_def case_prod_beta split: option.split sum.split bool.split)

lemma mirrors_set_flags: "mirrors fmt o1 \<Longrightarrow> mirrors fmt (snd (folder_set_flags fmt uid flags o1))"
  by (auto simp: mirrors_def folder_set_flags_def Let_def map_update split: option.split)

lemma length_set_flags: "length (of_rows (snd (folder_set_flags fmt uid flags o1))) = length (of_rows o1)"
  by (simp add: folder_set_flags_def Let_def split: option.split)

lemma in_step_folder_flags:
  assumes "in_step fmt w" and "we_fmt env = fmt"
  shows "in_step fmt (snd (folder_flags env a m uid flags w))"
proof (cases "open_at a m w")
  case (Some o1)
  then have o1: "wn_open w = Some o1" using open_at_Some by blast
  obtain r o2 where s: "folder_set_flags fmt uid flags o1 = (r, o2)" by fastforce
  have m: "mirrors fmt o2" "length (of_rows o2) = length (of_rows o1)"
    using mirrors_set_flags [of fmt o1 uid flags] length_set_flags [of fmt uid flags o1] assms(1) o1 s
    by (simp_all add: view_ok_def)
  have row: "row_of uid (of_headers o1) = r"
    using s by (auto simp: folder_set_flags_def Let_def split: option.splits)
  show ?thesis
  proof (cases r)
    case None
    then have "o2 = o1" using s row by (auto simp: folder_set_flags_def)
    with assms Some o1 s row None show ?thesis by (simp add: folder_flags_def)
  next
    case (Some k)
    with assms \<open>open_at a m w = Some o1\<close> o1 s row m show ?thesis
      by (auto simp: folder_flags_def Let_def view_ok_follows shown_rows_def on_list_def search_active_def
          split: option.splits)
  qed
qed (use assms in \<open>simp add: folder_flags_def\<close>)

lemma hits_mirror_set_flags:
  assumes "hits_mirror fmt r"
  shows "hits_mirror fmt (snd (sr_set_flags fmt a m uid flags r)) \<and>
    length (sr_rows (snd (sr_set_flags fmt a m uid flags r))) = length (sr_rows r)"
proof (cases "sr_position a m uid r")
  case (Some i)
  obtain f h where "sr_hits r ! i = (f, h)" by fastforce
  with assms Some show ?thesis by (simp add: sr_set_flags_def hits_mirror_def Let_def map_update)
qed (use assms in \<open>simp add: sr_set_flags_def\<close>)

lemma in_step_result_flags:
  assumes "in_step fmt w" and "we_fmt env = fmt"
  shows "in_step fmt (snd (result_flags env a m uid flags seen w))"
proof (cases "wn_results w")
  case (Some r)
  with assms(1) have "hits_mirror fmt r" by (simp add: view_ok_def)
  from hits_mirror_set_flags [OF this] assms Some show ?thesis
    by (auto simp: result_flags_def Let_def case_prod_beta view_ok_follows shown_rows_def on_list_def)
qed (use assms in \<open>simp add: result_flags_def\<close>)

lemma in_step_flags_updated:
  assumes "in_step fmt w" and "we_fmt env = fmt"
  shows "in_step fmt (flags_updated env a m uid flags w)"
proof -
  have "in_step fmt (snd (set_flags_everywhere env a m uid flags (cache_update_flags a m uid flags w)))"
    unfolding set_flags_everywhere_def Let_def case_prod_beta
    using in_step_result_flags [OF in_step_folder_flags [OF _ assms(2)] assms(2),
        of "cache_update_flags a m uid flags w"] assms(1) by simp
  then show ?thesis
    by (simp add: flags_updated_def Let_def case_prod_beta split: option.split)
qed

lemma folder_remove_Some:
  assumes "folder_remove uid o1 = (Some row, o2)" and "mirrors fmt o1"
  shows "row < length (of_rows o1) \<and> of_rows o2 = list_remove_at row (of_rows o1) \<and> mirrors fmt o2"
  using assms
  by (simp add: folder_remove_def row_of_def position_Some mirrors_def map_list_remove_at split: option.splits)
     (auto simp: map_list_remove_at)

lemma folder_remove_None: "folder_remove uid o1 = (None, o2) \<Longrightarrow> o2 = o1"
  by (simp add: folder_remove_def split: option.splits)

lemma sr_remove_Some:
  assumes "sr_remove a m uid r = (Some i, r')" and "hits_mirror fmt r"
  shows "i < length (sr_rows r) \<and> sr_rows r' = list_remove_at i (sr_rows r) \<and> hits_mirror fmt r'"
proof -
  from assms(1) have p: "sr_position a m uid r = Some i"
    and r': "r' = \<lparr>sr_hits = list_remove_at i (sr_hits r), sr_rows = list_remove_at i (sr_rows r)\<rparr>"
    by (auto simp: sr_remove_def split: option.splits)
  from sr_position_Some [OF p] assms(2) r' show ?thesis by (simp add: hits_mirror_def map_list_remove_at)
qed

lemma sr_remove_None: "sr_remove a m uid r = (None, r') \<Longrightarrow> r' = r"
  by (simp add: sr_remove_def split: option.splits)

text \<open>What is left of a move once the message is out of the models.\<close>

lemma in_step_drop_row:
  assumes "list_follows (list_remove_rows rows row 1 (wn_list w)) rows"
    and "shown_rows (wn_results w) (wn_open w) = rows"
    and "pred_option (mirrors fmt) (wn_open w)" "pred_option (hits_mirror fmt) (wn_results w)"
  shows "in_step fmt (drop_row was_selected row rows len w)"
proof -
  have "in_step fmt (on_list (list_remove_rows rows row 1) w)"
    using assms by (simp add: view_ok_follows on_list_def)
  then show ?thesis by (simp add: drop_row_def Let_def cancel_bodies_def in_step_list_select)
qed

lemma drop_nothing:
  assumes "drop_from_folder a m uid w = (None, w1)"
  shows "w1 = w"
proof (cases "open_at a m w")
  case (Some o1)
  then have "wn_open w = Some o1" using open_at_Some by blast
  then have "w\<lparr>wn_open := Some o1\<rparr> = w" by (cases w) simp
  with assms Some show ?thesis
    by (auto simp: drop_from_folder_def dest: folder_remove_None split: prod.splits)
qed (use assms in \<open>simp add: drop_from_folder_def\<close>)

text \<open>Dropping a message from the folder and from the results, and then its row.\<close>

lemma in_step_drop:
  assumes "in_step fmt w" and "drop_from_folder a m uid w = (folder_row, w1)"
    and "drop_from_results a m uid w1 = (result_row, w2)"
  shows "case dropped_row folder_row result_row w2 of
      None \<Rightarrow> in_step fmt w2 | Some (row, rows, len) \<Rightarrow> in_step fmt (drop_row sel row rows len w2)"
proof (cases "wn_results w")
  case None
  have w1: "wn_list w1 = wn_list w" "wn_results w1 = None"
    using assms(2) None by (auto simp: drop_from_folder_def split: option.splits prod.splits)
  then have w2: "result_row = None" "w2 = w1" using assms(3) by (simp_all add: drop_from_results_def)
  show ?thesis
  proof (cases folder_row)
    case no_row: None
    then have "w1 = w" using assms(2) drop_nothing by simp
    with assms(1) w2 no_row w1 None show ?thesis by (simp add: dropped_row_def)
  next
    case (Some row)
    then obtain o1 o2 where o1: "open_at a m w = Some o1" and r: "folder_remove uid o1 = (Some row, o2)"
        and w1o: "w1 = w\<lparr>wn_open := Some o2\<rparr>"
      using assms(2) by (auto simp: drop_from_folder_def split: option.splits prod.splits)
    have o: "wn_open w = Some o1" using open_at_Some [OF o1] by simp
    then have m: "mirrors fmt o1" "list_follows (wn_list w) (of_rows o1)"
      using assms(1) None by (simp_all add: view_ok_follows shown_rows_def)
    note f = folder_remove_Some [OF r m(1)]
    have "list_follows (list_remove_rows (of_rows o2) row 1 (wn_list w2)) (of_rows o2)"
      using list_follows_remove [OF m(2)] f w1 w2 by simp
    from in_step_drop_row [OF this] f w1 w2 w1o Some show ?thesis
      by (simp add: dropped_row_def shown_rows_def)
  qed
next
  case (Some r)
  have w1: "wn_list w1 = wn_list w" "wn_results w1 = Some r" "pred_option (mirrors fmt) (wn_open w1)"
    using assms(1,2) Some folder_remove_None folder_remove_Some
    by (auto simp: drop_from_folder_def view_ok_def dest!: open_at_Some split: option.splits prod.splits)
       (metis not_None_eq)
  have r: "hits_mirror fmt r" "list_follows (wn_list w) (sr_rows r)"
    using assms(1) Some by (auto simp: view_ok_follows shown_rows_def)
  obtain k r' where s: "sr_remove a m uid r = (k, r')" by fastforce
  then have w2: "w2 = w1\<lparr>wn_results := Some r'\<rparr>" "result_row = k"
    using assms(3) w1(2) by (simp_all add: drop_from_results_def)
  show ?thesis
  proof (cases k)
    case None
    with s sr_remove_None have "r' = r" by blast
    with None w1 w2 r show ?thesis by (simp add: dropped_row_def view_ok_follows shown_rows_def)
  next
    case (Some i)
    note f = sr_remove_Some [OF s [unfolded Some] r(1)]
    have "list_follows (list_remove_rows (sr_rows r') i 1 (wn_list w2)) (sr_rows r')"
      using list_follows_remove [OF r(2)] f w1 w2 by simp
    from in_step_drop_row [OF this] f w1 w2 Some show ?thesis
      by (simp add: dropped_row_def shown_rows_def)
  qed
qed

lemma in_step_moved:
  assumes "in_step fmt w"
  shows "in_step fmt (moved_out env a m uid dest w)"
proof -
  let ?w0 = "cache_remove_message a m uid
     (request_unread_counts env a (Some [m, dest]) (set_status (lit ''Moved to '' @ dest) w))"
  obtain folder_row w1 where f: "drop_from_folder a m uid ?w0 = (folder_row, w1)" by fastforce
  obtain result_row w2 where s: "drop_from_results a m uid w1 = (result_row, w2)" by fastforce
  have "in_step fmt ?w0" using assms by simp
  from in_step_drop [OF this f s] f s show ?thesis
    by (auto simp: moved_out_def Let_def split: option.splits prod.splits)
qed

section \<open>The whole window\<close>

lemma in_step_foldl: "(\<And>e w. in_step fmt w \<Longrightarrow> in_step fmt (f w e)) \<Longrightarrow> in_step fmt w \<Longrightarrow> in_step fmt (foldl f w es)"
  by (induction es arbitrary: w) simp_all

lemma in_step_handle_cache: "in_step fmt w \<Longrightarrow> we_fmt env = fmt \<Longrightarrow> in_step fmt (handle_cache env e w)"
  by (simp add: handle_cache_def in_step_seed in_step_search_arrived split: cache_event.split)

lemma pred_option_failed: "pred_option (mirrors fmt) (map_option page_failed o1) = pred_option (mirrors fmt) o1"
  by (cases o1) simp_all

lemma shown_failed: "shown_rows res (map_option page_failed o1) = shown_rows res o1"
  by (cases o1; cases res) (simp_all add: shown_rows_def)

lemma in_step_handle_event:
  assumes "in_step fmt w" and "we_fmt env = fmt"
  shows "in_step fmt (handle_event env account evt w)"
proof -
  let ?w = "track_status account evt w"
  have ok: "in_step fmt ?w" using assms(1) by simp
  have same: "in_step fmt w'" if "same_view w' ?w" for w'
    using ok that by simp
  show ?thesis
  proof (cases evt)
    case EvConnected
    let ?c = "snd (core_send env account FetchMailboxes (set_status (lit ''Connected'') ?w))"
    have "in_step fmt ?c" by (rule same) simp
    then show ?thesis
      using EvConnected in_step_request_refresh [of fmt ?c env]
      using ok by (auto simp: handle_event_def Let_def split: option.split)
  next
    case (EvError e)
    have "view_ok fmt (wn_list ?w) (wn_results ?w) (map_option page_failed (wn_open ?w))"
      using ok by (auto simp: view_ok_def pred_option_failed shown_failed)
    with EvError show ?thesis by (simp add: handle_event_def Let_def)
  next
    case (EvNewHeaders mailbox hs)
    let ?c = "request_unread_counts env account None ?w"
    have "in_step fmt ?c" by (rule same) simp
    with EvNewHeaders in_step_request_refresh [of fmt ?c env] show ?thesis
      by (simp add: handle_event_def Let_def)
  next
    case (EvHeaders m hs page n i k)
    with in_step_apply_headers [OF ok assms(2)] show ?thesis by (simp add: handle_event_def)
  next
    case (EvFlagsUpdated m uid flags k)
    have "in_step fmt (action_finished ?w)" by (rule same) simp
    from in_step_flags_updated [OF this assms(2)] EvFlagsUpdated show ?thesis
      by (simp add: handle_event_def Let_def)
  next
    case (EvMoved m uid dest k)
    have "in_step fmt (action_finished ?w)" by (rule same) simp
    from in_step_moved [OF this] EvMoved show ?thesis by (simp add: handle_event_def Let_def)
  qed (use ok in \<open>simp_all add: handle_event_def Let_def\<close>)
qed

lemma in_step_drain: "in_step fmt w \<Longrightarrow> we_fmt env = fmt \<Longrightarrow> in_step fmt (win_drain env cached queue w)"
  by (auto simp: win_drain_def Let_def case_prod_beta in_step_handle_cache in_step_handle_event intro!: in_step_foldl)

lemma in_step_clear_view: "in_step fmt (clear_view w)"
  by (simp add: clear_view_def Let_def view_ok_def on_list_def list_set_rows_def cancel_bodies_def search_reset_def)

lemma in_step_reload: "in_step fmt w \<Longrightarrow> in_step fmt (reload_accounts cfg issues e w)"
  by (auto simp: reload_accounts_def Let_def in_step_clear_view split: option.split intro!: in_step_foldl)

lemma in_step_open_from_cache: "in_step fmt w \<Longrightarrow> in_step fmt (open_from_cache env f account w)"
  by (auto simp: open_from_cache_def Let_def in_step_open intro!: in_step_foldl)

lemma in_step_account_saved: "in_step fmt w \<Longrightarrow> in_step fmt (account_saved env cfg issues e i w)"
  by (simp add: account_saved_def Let_def in_step_reload in_step_open_from_cache split: option.split)

lemma in_step_account_removed: "in_step fmt w \<Longrightarrow> in_step fmt (account_removed cfg issues e i w)"
  by (simp add: account_removed_def in_step_reload)

lemma in_step_win_refresh: "in_step fmt w \<Longrightarrow> in_step fmt (win_refresh env w)"
  using in_step_request_refresh
  by (auto simp: win_refresh_def Let_def case_prod_beta in_step_open split: option.split)

lemma same_view_download [simp]: "same_view (win_download_all env w) w"
  by (simp add: win_download_all_def Let_def case_prod_beta split: option.split)

text \<open>Input of the list widget moves the selection, never the rows.\<close>

lemma list_handle_follows:
  assumes "list_follows v rows"
  shows "list_follows (snd (list_handle inp v)) rows"
proof -
  have nav: "sel_ok (snd (navigate key ctrl shift len page (lv_sel v)))" for key ctrl shift len page
    using assms navigate_ok by (simp add: list_follows_def)
  have down: "list_follows (snd (list_mouse_down hit v)) rows" for hit
    using assms by (auto simp: list_mouse_down_def list_follows_def Let_def ctrl_click_rows(1) split: option.split)
  show ?thesis
  proof (cases inp)
    case (LiMouse hit)
    with down [of "list_hit hit v"] show ?thesis by (simp add: case_prod_beta)
  next
    case (LiNav page key ctrl shift)
    then show ?thesis using assms nav [of key ctrl shift "lv_len v" "max page 1"]
      by (auto simp: list_nav_def list_follows_def Let_def split: option.split prod.split)
  qed (use assms in \<open>auto simp: list_follows_def list_context_menu_def list_key_down_def list_key_up_def Let_def
      split: option.split\<close>)
qed

lemma in_step_update:
  assumes "in_step fmt w" and "we_fmt env = fmt"
  shows "in_step fmt (win_update env msg w)"
proof (cases msg)
  case (MsgList inp)
  with assms(1) show ?thesis
    by (auto simp: win_update_def Let_def case_prod_beta view_ok_follows
        intro: list_handle_follows list_follows_steady)
qed (use assms in \<open>auto simp: win_update_def in_step_drain in_step_open in_step_request_page
    in_step_search_changed in_step_run_search in_step_clear_search in_step_account_saved
    in_step_account_removed in_step_win_refresh split: option.split\<close>)

lemma in_step_run:
  "list_all (\<lambda>(env, _). we_fmt env = fmt) steps \<Longrightarrow> in_step fmt w \<Longrightarrow> in_step fmt (win_run steps w)"
  unfolding win_run_def by (induction steps arbitrary: w) (auto simp: in_step_update)

lemma in_step_new: "in_step fmt (window_new cfg)"
  by (simp add: window_new_def view_ok_def list_view_new_def)

lemma message_at_drawn:
  assumes "in_step fmt w"
  shows "case message_at row w of
      Some (_, h) \<Rightarrow> row < lv_len (wn_list w) \<and> lv_rows (wn_list w) ! row = row_model_of fmt h
    | None \<Rightarrow> (search_active w \<or> wn_open w \<noteq> None) \<longrightarrow> lv_len (wn_list w) \<le> row"
proof (cases "wn_results w")
  case None
  with assms show ?thesis
    by (auto simp: message_at_def view_ok_def shown_rows_def mirrors_def nth_opt_def search_active_def split: option.split)
next
  case (Some r)
  with assms show ?thesis
    by (auto simp: message_at_def view_ok_def shown_rows_def hits_mirror_def sr_get_def split: prod.split)
qed

text \<open>C2. Whatever the user, the sessions and the cache do, in any order, the main window's list has
  a row for exactly the messages its actions work on: the message an action finds in a row is the
  one drawn there, with its current subject, sender and flags, and while a folder or search results
  are open every row of the list has a message behind it.\<close>

theorem rows_are_the_messages:
  assumes "list_all (\<lambda>(env, _). we_fmt env = fmt) steps"
  shows "case message_at row (win_run steps (window_new cfg)) of
      Some (_, h) \<Rightarrow>
        row < lv_len (wn_list (win_run steps (window_new cfg))) \<and>
        lv_rows (wn_list (win_run steps (window_new cfg))) ! row = row_model_of fmt h
    | None \<Rightarrow>
        search_active (win_run steps (window_new cfg)) \<or> wn_open (win_run steps (window_new cfg)) \<noteq> None \<longrightarrow>
        lv_len (wn_list (win_run steps (window_new cfg))) \<le> row"
  using message_at_drawn [OF in_step_run [OF assms in_step_new]] .

definition demo_win_env :: win_env where
  "demo_win_env = \<lparr>we_fmt = (\<lambda>_. None), we_accepts = (\<lambda>_ _. True), we_timers = True, we_now = 5000, we_entries = (\<lambda>_. [])\<rparr>"

definition demo_win_config :: config where
  "demo_win_config = config_default\<lparr>cfg_accounts := [demo_account]\<rparr>"

definition demo_hit :: "str \<Rightarrow> u32 \<Rightarrow> search_hit" where
  "demo_hit mailbox uid = \<lparr>sh_account_id = ac_id demo_account, sh_mailbox = mailbox, sh_header = demo_mail uid\<rparr>"

text \<open>A search that finds a message in each of two folders.\<close>

definition demo_steps :: "(win_env \<times> win_msg) list" where
  "demo_steps = map (Pair demo_win_env)
     [MsgSearchChanged [97], MsgWake [CeSearch [demo_hit [98] 5, demo_hit [100] 7]] []]"

lemma demo_trim [simp]: "trim [97] = [97]"
  by (rule trim_no_blank) (simp add: is_whitespace_def)

lemma core_pump_short [simp]:
  "core_pump PUMP_BATCH ids [] = ([], [], False)" "core_pump PUMP_BATCH [i] [(i, e)] = ([(0, e)], [], False)"
  by (simp_all add: PUMP_BATCH_def numeral_eq_Suc)

lemmas window_eval =
  win_run_def win_update_def search_changed_def win_drain_def handle_cache_def search_arrived_def
  search_results_new_def located_def reset_reading_pane_def on_list_def list_set_rows_def cancel_bodies_def
  show_notice_def on_reader_def set_status_def win_select_def message_at_def sr_get_def seen_cancel_def
  seen_schedule_def want_def start_wanted_def latest_begin_def body_loads_default_def latest_default_def
  win_fetch_body_def send_or_report_def core_send_def win_emit_def set_remote_images_def
  current_sender_trusted_def current_message_def rd_set_remote_def rd_show_def rd_render_def window_new_def
  demo_win_config_def demo_win_env_def config_default_def demo_account_def search_active_def cancel_def
  handle_event_def track_status_def nth_opt_def body_arrived_def body_finished_def show_body_def
  cache_index_mail_def to_cache_def allow_images_for_def account_config_new_def demo_mail_def demo_hit_def
  demo_steps_def status_after_def is_seen_def has_flag_def

theorem rows_are_the_messages_witness:
  "message_at 1 (win_run demo_steps (window_new demo_win_config)) =
     Some (\<lparr>fr_account = 0, fr_mailbox = [100]\<rparr>, demo_mail 7) \<and>
   lv_rows (wn_list (win_run demo_steps (window_new demo_win_config))) ! 1 = row_model_of (\<lambda>_. None) (demo_mail 7)"
proof -
  have m: "message_at 1 (win_run demo_steps (window_new demo_win_config)) =
      Some (\<lparr>fr_account = 0, fr_mailbox = [100]\<rparr>, demo_mail 7)"
    by (simp add: window_eval Let_def)
  have "list_all (\<lambda>(env, _). we_fmt env = (\<lambda>_. None)) demo_steps"
    by (simp add: demo_steps_def demo_win_env_def)
  from rows_are_the_messages [OF this, where row = 1 and cfg = demo_win_config] m show ?thesis by simp
qed

end
