(* ===== verification/WindowPane.thy ===== *)
theory WindowPane
  imports WindowView
begin

text \<open>
  What the reading pane of the main window shows: the body of the selected message and no other,
  remote images only where they are allowed, and nothing any more once the reply to the fetch in
  flight is lost.  The locale \<open>pane_invariant\<close> holds the argument the two invariants share: a
  property that survives the selection, a body and the changes of the images survives every
  message of the window.
\<close>

section \<open>Properties of the pane that every message keeps\<close>

text \<open>A fetch of a body.\<close>

fun is_fetch :: "effect \<Rightarrow> bool" where
  "is_fetch (ToActor _ (FetchBody _ _ _)) = True"
| "is_fetch _ = False"

abbreviation fetches :: "window \<Rightarrow> effect list" where
  "fetches w \<equiv> filter is_fetch (wn_out w)"

definition same_pane :: "window \<Rightarrow> window \<Rightarrow> bool" where
  "same_pane w' w \<longleftrightarrow>
     wn_bodies w' = wn_bodies w \<and> wn_selected w' = wn_selected w \<and> wn_selected_in w' = wn_selected_in w \<and>
     wn_message_shown w' = wn_message_shown w \<and> wn_config w' = wn_config w \<and>
     wn_remote_images w' = wn_remote_images w \<and> wn_reader w' = wn_reader w \<and> fetches w' = fetches w"

text \<open>The messages after which only expected replies to body fetches have come; \<open>lossy\<close> also takes a
  core that could not be restarted with the changed accounts.\<close>

fun expected_reply :: "(u32 \<Rightarrow> u64 \<Rightarrow> bool) \<Rightarrow> imap_event \<Rightarrow> bool" where
  "expected_reply answers (EvBody uid _ _ i) = answers uid i"
| "expected_reply answers (EvBodyFailed uid i _) = answers uid i"
| "expected_reply answers _ = True"

fun expected_msg :: "(u32 \<Rightarrow> u64 \<Rightarrow> bool) \<Rightarrow> bool \<Rightarrow> win_msg \<Rightarrow> bool" where
  "expected_msg answers lossy (MsgWake _ queue) = list_all (\<lambda>(_, evt). expected_reply answers evt) queue"
| "expected_msg answers lossy (MsgAccountSaved _ issues _ _) = (lossy \<or> issues \<noteq> None)"
| "expected_msg answers lossy (MsgAccountRemoved _ issues _ _) = (lossy \<or> issues \<noteq> None)"
| "expected_msg answers lossy _ = True"

lemma core_pump_events:
  "list_all (\<lambda>(_, evt). P evt) queue \<Longrightarrow> list_all (\<lambda>(_, evt). P evt) (fst (core_pump room ids queue))"
  by (induction room ids queue rule: core_pump.induct) (auto simp: case_prod_beta split: option.split)

locale pane_frame =
  fixes I :: "window \<Rightarrow> bool"
  assumes frame: "I w \<Longrightarrow> same_pane w' w \<Longrightarrow> I w'"
    and notice: "I w \<Longrightarrow> I (on_reader (rd_show (Notice t l)) w)"
begin

lemma I_fields [simp]:
  "I w \<Longrightarrow> I (w\<lparr>wn_accounts := x1\<rparr>)" "I w \<Longrightarrow> I (w\<lparr>wn_statuses := x2\<rparr>)" "I w \<Longrightarrow> I (w\<lparr>wn_folders := x3\<rparr>)"
  "I w \<Longrightarrow> I (w\<lparr>wn_list := x4\<rparr>)" "I w \<Longrightarrow> I (w\<lparr>wn_search_text := x5\<rparr>)" "I w \<Longrightarrow> I (w\<lparr>wn_search_timer := x6\<rparr>)"
  "I w \<Longrightarrow> I (w\<lparr>wn_search_focused := x7\<rparr>)" "I w \<Longrightarrow> I (w\<lparr>wn_results := x8\<rparr>)" "I w \<Longrightarrow> I (w\<lparr>wn_open := x9\<rparr>)"
  "I w \<Longrightarrow> I (w\<lparr>wn_seen_pending := y1\<rparr>)" "I w \<Longrightarrow> I (w\<lparr>wn_seen_timer := y2\<rparr>)" "I w \<Longrightarrow> I (w\<lparr>wn_action_ids := y3\<rparr>)"
  "I w \<Longrightarrow> I (w\<lparr>wn_pending_actions := y4\<rparr>)" "I w \<Longrightarrow> I (w\<lparr>wn_select_after_load := y5\<rparr>)"
  "I w \<Longrightarrow> I (w\<lparr>wn_progress := y6\<rparr>)" "I w \<Longrightarrow> I (w\<lparr>wn_status := y7\<rparr>)"
  by (erule frame, simp add: same_pane_def)+

lemma I_emit [simp]: "I w \<Longrightarrow> \<not> is_fetch e \<Longrightarrow> I (win_emit e w)"
  by (erule frame) (simp add: same_pane_def win_emit_def)

lemma I_notices [simp]:
  "I w \<Longrightarrow> I (show_notice t w)" "I w \<Longrightarrow> I (set_status t w)" "I w \<Longrightarrow> I (win_banner t w)"
  by (simp_all add: show_notice_def set_status_def win_banner_def Let_def notice)

lemma I_account [simp]: "I w \<Longrightarrow> I (account_failed a e w)" "I w \<Longrightarrow> I (account_unavailable a w)"
proof -
  show f: "I w \<Longrightarrow> I (account_failed a e w)" for a e
    by (simp add: account_failed_def Let_def notice split: option.split)
  show "I w \<Longrightarrow> I (account_unavailable a w)"
    by (simp add: account_unavailable_def f split: option.split status.split)
qed

lemma I_send [simp]:
  "I w \<Longrightarrow> \<not> is_fetch (ToActor a cmd) \<Longrightarrow> I (snd (core_send env a cmd w))"
  "I w \<Longrightarrow> \<not> is_fetch (ToActor a cmd) \<Longrightarrow> I (send_or_report env a cmd w)"
  "I w \<Longrightarrow> \<not> is_fetch (ToActor a cmd) \<Longrightarrow> I (snd (counted_send env a cmd w))"
  by (simp_all add: core_send_def send_or_report_def counted_send_def Let_def case_prod_beta)

lemma I_cache [simp]:
  "I w \<Longrightarrow> I (cache_index_headers a m hs w)" "I w \<Longrightarrow> I (cache_index_mail a m h body atts w)"
  "I w \<Longrightarrow> I (cache_update_flags a m uid flags w)" "I w \<Longrightarrow> I (cache_remove_message a m uid w)"
  "I w \<Longrightarrow> I (cache_load_folder a m n w)" "I w \<Longrightarrow> I (cache_load_mailboxes a w)" "I w \<Longrightarrow> I (cache_search q w)"
  by (simp_all add: cache_index_headers_def cache_index_mail_def cache_update_flags_def cache_remove_message_def
      cache_load_folder_def cache_load_mailboxes_def cache_search_def to_cache_def split: option.split)

lemma I_fetch: "(\<And>e w. I w \<Longrightarrow> I (win_emit e w)) \<Longrightarrow> I w \<Longrightarrow> I (win_fetch_body env r w)"
  by (simp add: win_fetch_body_def send_or_report_def core_send_def case_prod_beta)

end

locale pane_invariant = pane_frame I for I :: "window \<Rightarrow> bool" +
  fixes answers :: "u32 \<Rightarrow> u64 \<Rightarrow> bool" and lossy :: bool
  assumes cancels: "I w \<Longrightarrow> I (cancel_bodies w)"
    and deselects: "I w \<Longrightarrow> I (cancel_bodies (w\<lparr>wn_selected := None\<rparr>))"
    and hides: "I w \<Longrightarrow> I (w\<lparr>wn_message_shown := False\<rparr>)"
    and reflags: "I w \<Longrightarrow> I (w\<lparr>wn_selected := map_option (mh_flags_update (\<lambda>_. flags)) (wn_selected w)\<rparr>)"
    and selects: "I w \<Longrightarrow> I (win_select env rows w)"
    and answered: "I w \<Longrightarrow> answers uid i \<Longrightarrow> I (body_arrived env account uid i outcome w)"
    and trusts: "I w \<Longrightarrow> I (trust_sender b w)"
    and remotes: "I w \<Longrightarrow> I (set_remote_images b w)"
    and restarts: "I w \<Longrightarrow>
      I (clear_view (w\<lparr>wn_config := cfg, wn_accounts := accounts, wn_statuses := statuses, wn_folders := folders\<rparr>))"
    and loses: "I w \<Longrightarrow> lossy \<Longrightarrow> I (w\<lparr>wn_config := cfg\<rparr>)"
begin

lemma I_folder [simp]:
  "I w \<Longrightarrow> I (track_status a evt w)" "I w \<Longrightarrow> I (request_unread_counts env a names w)" "I w \<Longrightarrow> I (on_list f w)"
  "I w \<Longrightarrow> I (list_select rows w)" "I w \<Longrightarrow> I (search_reset w)" "I w \<Longrightarrow> I (seen_cancel w)"
  "I w \<Longrightarrow> I (seen_schedule env uid w)" "I w \<Longrightarrow> I (folder_status w)"
  by (simp_all add: track_status_def request_unread_counts_def on_list_def list_select_def search_reset_def
      seen_cancel_def seen_schedule_def folder_status_def Let_def case_prod_beta split: option.split status.split)

lemma I_pages [simp]:
  "I w \<Longrightarrow> I (request_page env w)" "I w \<Longrightarrow> I (snd (request_refresh env w))"
  "I w \<Longrightarrow> I (select_first_requested w)" "I w \<Longrightarrow> I (win_download_all env w)"
  by (simp_all add: request_page_def request_refresh_def select_first_requested_def win_download_all_def
      Let_def case_prod_beta split: option.split)

lemma I_deselect [simp]:
  "I w \<Longrightarrow> I ((cancel_bodies w)\<lparr>wn_selected := None\<rparr>)"
  "I w \<Longrightarrow> I (cancel_bodies (w\<lparr>wn_selected := None, wn_message_shown := False\<rparr>))"
proof -
  have "(cancel_bodies w)\<lparr>wn_selected := None\<rparr> = cancel_bodies (w\<lparr>wn_selected := None\<rparr>)"
    by (simp add: cancel_bodies_def)
  then show "I w \<Longrightarrow> I ((cancel_bodies w)\<lparr>wn_selected := None\<rparr>)" by (simp add: deselects)
  have "cancel_bodies (w\<lparr>wn_selected := None, wn_message_shown := False\<rparr>) =
      (cancel_bodies (w\<lparr>wn_selected := None\<rparr>))\<lparr>wn_message_shown := False\<rparr>"
    by (simp add: cancel_bodies_def)
  then show "I w \<Longrightarrow> I (cancel_bodies (w\<lparr>wn_selected := None, wn_message_shown := False\<rparr>))"
    by (simp add: deselects hides)
qed

lemma I_open [simp]: "I w \<Longrightarrow> I (open_the_folder env f w)"
  by (simp add: open_the_folder_def Let_def)

lemma I_open_folder [simp]:
  "I w \<Longrightarrow> I (seed_from_cache env a m hs w)" "I w \<Longrightarrow> I (win_refresh env w)"
  "I w \<Longrightarrow> I (show_applied applied rows page w)" "I w \<Longrightarrow> I (close_gone o1 w)"
  by (simp_all add: seed_from_cache_def win_refresh_def show_applied_def close_gone_def deselects Let_def case_prod_beta
      split: option.split applied.split prod.split bool.split)

lemma I_headers [simp]: "I w \<Longrightarrow> I (apply_headers env a m i page n hs w)"
  by (simp add: apply_headers_def Let_def split: option.split prod.split)

lemma I_reset [simp]: "I w \<Longrightarrow> I (reset_reading_pane w)"
  by (simp add: reset_reading_pane_def)

lemma I_search [simp]:
  "I w \<Longrightarrow> I (show_folder_again w)" "I w \<Longrightarrow> I (search_changed env t w)" "I w \<Longrightarrow> I (run_search w)"
  "I w \<Longrightarrow> I (search_arrived env hits w)" "I w \<Longrightarrow> I (clear_search w)"
  by (simp_all add: show_folder_again_def search_changed_def run_search_def search_arrived_def clear_search_def Let_def
      split: option.split)

lemma I_foldl: "(\<And>e w. I w \<Longrightarrow> I (f w e)) \<Longrightarrow> I w \<Longrightarrow> I (foldl f w es)"
  by (induction es arbitrary: w) simp_all

lemma I_flag [simp]:
  "I w \<Longrightarrow> I (snd (begin_action w))" "I w \<Longrightarrow> I (win_store_flags env f uid add remove w)"
  "I w \<Longrightarrow> I (win_set_flag env flag on t w)"
  by (simp_all add: begin_action_def win_store_flags_def win_set_flag_def case_prod_beta)

lemma I_flagging [simp]:
  "I w \<Longrightarrow> I (toggle_flag_of env ts w)" "I w \<Longrightarrow> I (toggle_flag env w)" "I w \<Longrightarrow> I (toggle_flag_at env row w)"
  "I w \<Longrightarrow> I (set_seen env seen w)"
  by (simp_all add: toggle_flag_of_def toggle_flag_def toggle_flag_at_def set_seen_def Let_def I_foldl)

lemma I_move_targets [simp]: "I w \<Longrightarrow> I (move_targets env kind fallback ts there w)"
proof (induction ts arbitrary: there w)
  case (Cons t ts)
  then show ?case by (cases t) (simp add: Let_def case_prod_beta)
qed (simp split: option.split)

lemma I_actions [simp]:
  "I w \<Longrightarrow> I (move_selected env kind fallback w)" "I w \<Longrightarrow> I (win_archive env w)" "I w \<Longrightarrow> I (win_delete env w)"
  "I w \<Longrightarrow> I (action_finished w)" "I w \<Longrightarrow> I (export_selected env path w)"
  "I w \<Longrightarrow> I (export_done p w)" "I w \<Longrightarrow> I (export_failed e w)" "I w \<Longrightarrow> I (mark_seen_when_due env w)"
  by (simp_all add: move_selected_def win_archive_def win_delete_def action_finished_def export_selected_def
      export_done_def export_failed_def mark_seen_when_due_def Let_def split: option.split)

lemma I_flags [simp]:
  "I w \<Longrightarrow> I (snd (folder_flags env a m uid flags w))" "I w \<Longrightarrow> I (snd (result_flags env a m uid flags seen w))"
  by (simp_all add: folder_flags_def result_flags_def Let_def case_prod_beta split: option.split prod.split)

lemma I_flags_updated [simp]: "I w \<Longrightarrow> I (flags_updated env a m uid flags w)"
  by (simp add: flags_updated_def set_flags_everywhere_def reflags Let_def case_prod_beta split: option.split)

lemma I_drop [simp]:
  "I w \<Longrightarrow> I (snd (drop_from_folder a m uid w))" "I w \<Longrightarrow> I (snd (drop_from_results a m uid w))"
  "I w \<Longrightarrow> I (drop_row was_selected row rows len w)"
  by (simp_all add: drop_from_folder_def drop_from_results_def drop_row_def deselects Let_def case_prod_beta
      split: option.split)

lemma I_moved [simp]: "I w \<Longrightarrow> I (moved_out env a m uid dest w)"
  by (simp add: moved_out_def Let_def case_prod_beta split: option.split)

lemma I_progress [simp]: "I w \<Longrightarrow> I (apply_progress kind p w)" "I w \<Longrightarrow> I (win_clear_progress w)"
  by (simp_all add: apply_progress_def win_set_progress_def win_clear_progress_def)

lemma I_handle_cache: "I w \<Longrightarrow> I (handle_cache env e w)"
  by (simp add: handle_cache_def split: cache_event.split)

lemma I_handle_event: "I w \<Longrightarrow> expected_reply answers evt \<Longrightarrow> I (handle_event env account evt w)"
  by (cases evt) (simp_all add: handle_event_def answered Let_def split: option.split)

lemma I_events:
  "I w \<Longrightarrow> list_all (\<lambda>(_, evt). expected_reply answers evt) evts \<Longrightarrow>
   I (foldl (\<lambda>w (account, e). handle_event env account e w) w evts)"
  by (induction evts arbitrary: w) (auto simp: I_handle_event)

lemma I_drain:
  "I w \<Longrightarrow> list_all (\<lambda>(_, evt). expected_reply answers evt) queue \<Longrightarrow> I (win_drain env cached queue w)"
  by (simp add: win_drain_def Let_def case_prod_beta I_events core_pump_events I_foldl I_handle_cache
      del: case_prod_unfold)

lemma I_reload: "I w \<Longrightarrow> lossy \<or> issues \<noteq> None \<Longrightarrow> I (reload_accounts cfg issues e w)"
  by (cases issues) (simp_all add: reload_accounts_def Let_def loses restarts I_foldl case_prod_beta)

lemma I_saved: "I w \<Longrightarrow> lossy \<or> issues \<noteq> None \<Longrightarrow> I (account_saved env cfg issues e i w)"
  by (simp add: account_saved_def open_from_cache_def Let_def I_reload I_foldl split: option.split)

lemma I_update:
  assumes "I w" and "expected_msg answers lossy msg"
  shows "I (win_update env msg w)"
proof (cases msg)
  case (MsgList inp)
  have f: "filter is_fetch (concat (map event_effect evts)) = []" for evts
  proof (induction evts)
    case (Cons e evts)
    then show ?case by (cases e) simp_all
  qed simp
  show ?thesis
    by (rule frame [OF assms(1)]) (simp add: MsgList win_update_def same_pane_def Let_def case_prod_beta f)
qed (use assms in \<open>auto simp: win_update_def I_drain I_saved account_removed_def I_reload selects trusts remotes
    stop_remote_images_def split: option.split\<close>)

lemma I_run:
  "I w \<Longrightarrow> list_all (\<lambda>(_, msg). expected_msg answers lossy msg) steps \<Longrightarrow> I (win_run steps w)"
  unfolding win_run_def by (induction steps arbitrary: w) (auto simp: I_update)

end

section \<open>A body stands under its own header\<close>

text \<open>The body wanted is that of the selected message, and a body that is shown belongs to the message
  that is still selected, whatever its flags are by now.\<close>

definition wanted_at :: "body_key body_loads \<Rightarrow> mail_header option \<Rightarrow> folder_ref option \<Rightarrow> bool" where
  "wanted_at bodies selected selected_in \<longleftrightarrow>
     (case bl_wanted bodies of
        None \<Rightarrow> True
      | Some key \<Rightarrow> (\<exists>h f. selected = Some h \<and> selected_in = Some f \<and> key = (fr_account f, fr_mailbox f, mh_uid h)))"

definition shown_at :: "content \<Rightarrow> mail_header option \<Rightarrow> bool \<Rightarrow> bool" where
  "shown_at c selected shown \<longleftrightarrow>
     (case (c, selected) of
        (Message h _ _, Some h') \<Rightarrow> shown \<longrightarrow> h'\<lparr>mh_flags := mh_flags h\<rparr> = h
      | _ \<Rightarrow> True)"

definition body_ok :: "window \<Rightarrow> bool" where
  "body_ok w \<longleftrightarrow> wanted_at (wn_bodies w) (wn_selected w) (wn_selected_in w) \<and>
     shown_at (rd_content (wn_reader w)) (wn_selected w) (wn_message_shown w)"

lemma start_wanted_wanted [simp]: "bl_wanted (snd (start_wanted b)) = bl_wanted b"
  by (simp add: start_wanted_def Let_def case_prod_beta split: option.split)

lemma want_wanted [simp]: "bl_wanted (snd (want key b)) = Some key"
  by (simp add: want_def)

lemma body_finished_wanted [simp]: "bl_wanted (snd (body_finished key i b)) = bl_wanted b"
  by (simp add: body_finished_def Let_def case_prod_beta)

lemma wanted_at_simps [simp]:
  "wanted_at (cancel b) s f"
  "wanted_at (snd (want key b)) (Some h) (Some f0) \<longleftrightarrow> key = (fr_account f0, fr_mailbox f0, mh_uid h)"
  "wanted_at (snd (body_finished key i b)) s f = wanted_at b s f"
  "wanted_at b (map_option (mh_flags_update u) s) f = wanted_at b s f"
  by (auto simp: wanted_at_def cancel_def split: option.split)

lemma shown_at_simps [simp]:
  "shown_at (Notice t l) s b" "shown_at c None b" "shown_at c s False" "shown_at (Message h body atts) (Some h) b"
  "shown_at c s b \<Longrightarrow> shown_at c (map_option (mh_flags_update (\<lambda>_. flags)) s) b"
  by (auto simp: shown_at_def split: content.split option.split)

lemma rd_show_fields [simp]:
  "rd_content (rd_show c r) = c" "rd_remote (rd_show c r) = rd_remote r" "rd_loads (rd_show c r) = rd_loads r @ [(c, rd_remote r)]"
  by (simp_all add: rd_show_def rd_render_def)

lemma on_reader_fields [simp]:
  "wn_reader (on_reader f w) = f (wn_reader w)" "wn_bodies (on_reader f w) = wn_bodies w"
  "wn_selected (on_reader f w) = wn_selected w" "wn_selected_in (on_reader f w) = wn_selected_in w"
  "wn_message_shown (on_reader f w) = wn_message_shown w" "wn_config (on_reader f w) = wn_config w"
  "wn_remote_images (on_reader f w) = wn_remote_images w" "wn_out (on_reader f w) = wn_out w"
  by (simp_all add: on_reader_def)

lemma rd_set_remote_fields [simp]:
  "rd_content (rd_set_remote b r) = rd_content r" "rd_remote (rd_set_remote b r) = b"
  by (simp_all add: rd_set_remote_def rd_render_def)

lemma body_ok_frame: "pane_frame body_ok"
  by unfold_locales (simp_all add: body_ok_def same_pane_def)

interpretation body_frame: pane_frame body_ok
  by (rule body_ok_frame)

lemma body_ok_fetch: "body_ok w \<Longrightarrow> body_ok (win_fetch_body env r w)"
  by (rule body_frame.I_fetch) (simp_all add: body_ok_def win_emit_def)

text \<open>A selection of one message, as the request it makes.\<close>

definition select_message :: "win_env \<Rightarrow> folder_ref \<Rightarrow> mail_header \<Rightarrow> window \<Rightarrow> (body_key \<times> u64) option \<times> window" where
  "select_message env folder header w =
     (let w = set_status (lit ''Loading message...'') (w\<lparr>wn_selected_in := Some folder\<rparr>);
          w = seen_cancel w;
          w = (if is_seen header then w else seen_schedule env (mh_uid header) w);
          w = w\<lparr>wn_selected := Some header, wn_message_shown := False\<rparr>;
          (request, bodies) = want (fr_account folder, fr_mailbox folder, mh_uid header) (wn_bodies w)
      in (request, w\<lparr>wn_bodies := bodies\<rparr>))"

lemma win_select_eq:
  "win_select env rows w =
     (if length rows = 1 then
        (case message_at (hd rows) w of
           None \<Rightarrow> w
         | Some (folder, header) \<Rightarrow>
             (case fst (select_message env folder header w) of
                Some r \<Rightarrow> win_fetch_body env r (snd (select_message env folder header w))
              | None \<Rightarrow> snd (select_message env folder header w)))
      else seen_cancel (cancel_bodies w))"
proof (cases rows)
  case (Cons row more)
  then show ?thesis
    by (cases more) (simp_all add: win_select_def select_message_def Let_def case_prod_beta split: option.split)
qed (simp add: win_select_def)

lemma select_message_fields [simp]:
  "wn_bodies (snd (select_message env f h w)) = snd (want (fr_account f, fr_mailbox f, mh_uid h) (wn_bodies w))"
  "fst (select_message env f h w) = fst (want (fr_account f, fr_mailbox f, mh_uid h) (wn_bodies w))"
  "wn_selected (snd (select_message env f h w)) = Some h" "wn_selected_in (snd (select_message env f h w)) = Some f"
  "wn_reader (snd (select_message env f h w)) = wn_reader w" "\<not> wn_message_shown (snd (select_message env f h w))"
  "wn_config (snd (select_message env f h w)) = wn_config w" "wn_out (snd (select_message env f h w)) = wn_out w"
  "wn_remote_images (snd (select_message env f h w)) = wn_remote_images w"
  by (simp_all add: select_message_def Let_def case_prod_beta seen_cancel_def seen_schedule_def set_status_def)

lemma body_ok_select: "body_ok w \<Longrightarrow> body_ok (win_select env rows w)"
proof -
  assume w: "body_ok w"
  have "body_ok (snd (select_message env f h w))" for f h using w by (simp add: body_ok_def)
  moreover have "body_ok (seen_cancel (cancel_bodies w))" using w by (simp add: body_ok_def seen_cancel_def cancel_bodies_def)
  ultimately show ?thesis using w by (simp add: win_select_eq body_ok_fetch split: option.split)
qed

lemma cache_index_mail_fields [simp]:
  "wn_reader (cache_index_mail a m h body atts w) = wn_reader w" "wn_config (cache_index_mail a m h body atts w) = wn_config w"
  "wn_remote_images (cache_index_mail a m h body atts w) = wn_remote_images w"
  by (simp_all add: cache_index_mail_def to_cache_def win_emit_def split: option.split)

lemma show_body_fields [simp]:
  "wn_bodies (show_body a m outcome h w) = wn_bodies w" "wn_selected (show_body a m outcome h w) = wn_selected w"
  "wn_selected_in (show_body a m outcome h w) = wn_selected_in w" "wn_message_shown (show_body a m outcome h w)"
  by (simp_all add: show_body_def Let_def case_prod_beta split: sum.split)

lemma show_body_content:
  "rd_content (wn_reader (show_body a m (Inr (html, atts)) h w)) = Message h html atts"
  "\<exists>t l. rd_content (wn_reader (show_body a m (Inl e) h w)) = Notice t l"
  by (auto simp: show_body_def Let_def set_status_def show_notice_def)

lemma shown_at_body:
  "shown_at (rd_content (wn_reader (show_body a m outcome h w))) (Some h) b"
  using show_body_content by (cases outcome) (auto, metis shown_at_simps(1))

text \<open>A reply, as the window before the next fetch.\<close>

definition take_body ::
  "nat \<Rightarrow> folder_ref \<Rightarrow> u32 \<Rightarrow> u64 \<Rightarrow> str + str \<times> attachment list \<Rightarrow> window \<Rightarrow> window" where
  "take_body account folder uid i outcome w =
     (let (f, bodies) = body_finished (account, fr_mailbox folder, uid) i (wn_bodies w);
          w = w\<lparr>wn_bodies := bodies\<rparr>
      in (case (fin_show f, wn_selected w) of
            (True, Some header) \<Rightarrow> show_body account (fr_mailbox folder) outcome header w
          | _ \<Rightarrow> w))"

lemma body_arrived_eq:
  "body_arrived env account uid i outcome w =
     (case wn_selected_in w of
        None \<Rightarrow> w
      | Some folder \<Rightarrow>
          (case fin_next (fst (body_finished (account, fr_mailbox folder, uid) i (wn_bodies w))) of
             Some r \<Rightarrow> win_fetch_body env r (take_body account folder uid i outcome w)
           | None \<Rightarrow> take_body account folder uid i outcome w))"
  by (simp add: body_arrived_def take_body_def Let_def case_prod_beta split: option.split)

lemma take_body_fields [simp]:
  "wn_bodies (take_body account f uid i outcome w) = snd (body_finished (account, fr_mailbox f, uid) i (wn_bodies w))"
  "wn_selected (take_body account f uid i outcome w) = wn_selected w"
  "wn_selected_in (take_body account f uid i outcome w) = wn_selected_in w"
  by (simp_all add: take_body_def Let_def case_prod_beta split: option.split bool.split)

lemma body_ok_take: "body_ok w \<Longrightarrow> body_ok (take_body account f uid i outcome w)"
  by (auto simp: take_body_def body_ok_def Let_def case_prod_beta shown_at_body split: option.split bool.split)

lemma body_ok_answered: "body_ok w \<Longrightarrow> body_ok (body_arrived env a uid i outcome w)"
  by (simp add: body_arrived_eq body_ok_take body_ok_fetch split: option.split)

interpretation body: pane_invariant body_ok "\<lambda>_ _. True" True
proof unfold_locales
  show "body_ok (trust_sender b w)" if "body_ok w" for b w
    using that by (simp add: body_ok_def trust_sender_def allow_images_for_def case_prod_beta Let_def split: option.split)
  show "body_ok (set_remote_images b w)" if "body_ok w" for b w
    using that by (simp add: body_ok_def set_remote_images_def Let_def)
qed (simp_all add: body_ok_select body_ok_answered, simp_all add: body_ok_def cancel_bodies_def clear_view_def Let_def
    seen_cancel_def search_reset_def on_list_def show_notice_def)

lemma body_ok_run: "body_ok (win_run steps (window_new cfg))"
proof -
  have "body_ok (window_new cfg)"
    by (simp add: body_ok_def window_new_def wanted_at_def body_loads_default_def)
  moreover have "expected_msg (\<lambda>_ _. True) True msg" for msg
  proof (cases msg)
    case (MsgWake cached queue)
    have "expected_reply (\<lambda>_ _. True) evt" for evt by (cases evt) simp_all
    with MsgWake show ?thesis by (simp add: list_all_iff split_def)
  qed simp_all
  ultimately show ?thesis using body.I_run by (simp add: list_all_iff split_def)
qed

text \<open>A reply shows its body only if it answers the fetch in flight for the selected message.\<close>

lemma win_fetch_body_content:
  "wn_selected w \<noteq> None \<Longrightarrow> wn_reader (win_fetch_body env r w) = wn_reader w"
proof -
  assume w: "wn_selected w \<noteq> None"
  have f: "wn_reader (account_failed a e w) = wn_reader w" for a e
    using w by (auto simp: account_failed_def set_status_def Let_def split: option.split)
  have "wn_reader (win_banner t w) = wn_reader w" for t
    using w by (auto simp: win_banner_def set_status_def Let_def)
  with f have "wn_reader (account_unavailable a w) = wn_reader w" for a
    by (simp add: account_unavailable_def split: option.split status.split)
  then show ?thesis
    by (simp add: win_fetch_body_def send_or_report_def core_send_def win_emit_def case_prod_beta)
qed

lemma body_finished_show:
  "fin_show (fst (body_finished key i b)) \<longleftrightarrow> bl_in_flight b = Some (key, i) \<and> bl_wanted b = Some key"
  by (simp add: body_finished_def Let_def case_prod_beta)

lemma body_finished_next:
  "fin_next (fst (body_finished key i b)) = Some r \<Longrightarrow> bl_wanted b \<noteq> None"
  by (auto simp: body_finished_def start_wanted_def Let_def case_prod_beta split: if_splits option.splits)

lemma take_body_shown:
  assumes "wanted_at (wn_bodies w) (wn_selected w) (wn_selected_in w)" and "wn_selected_in w = Some f"
    and "rd_content (wn_reader (take_body account f uid i outcome w)) \<noteq> rd_content (wn_reader w)"
  shows "\<exists>h. wn_selected w = Some h \<and> mh_uid h = uid \<and> fr_account f = account \<and>
    bl_in_flight (wn_bodies w) = Some ((account, fr_mailbox f, uid), i) \<and>
    wn_reader (take_body account f uid i outcome w) = wn_reader (show_body account (fr_mailbox f) outcome h
      (w\<lparr>wn_bodies := snd (body_finished (account, fr_mailbox f, uid) i (wn_bodies w))\<rparr>))"
  using assms
  by (auto simp: take_body_def wanted_at_def Let_def case_prod_beta body_finished_show split: option.splits bool.splits)

text \<open>C3. In whatever order messages are selected, folders opened, accounts changed and replies
  delivered, late and stray ones included: when a reply puts a message in the reading pane, it is
  the answer to the fetch in flight, the header above it is that of the selected message, and the
  reply carries this message's uid and comes from the account of its folder.\<close>

theorem body_under_its_header:
  assumes "rd_content (wn_reader (body_arrived env account uid i (Inr (html, atts)) (win_run steps (window_new cfg)))) \<noteq>
      rd_content (wn_reader (win_run steps (window_new cfg)))"
  shows "\<exists>h f. wn_selected (win_run steps (window_new cfg)) = Some h \<and>
    wn_selected_in (win_run steps (window_new cfg)) = Some f \<and> mh_uid h = uid \<and> fr_account f = account \<and>
    bl_in_flight (wn_bodies (win_run steps (window_new cfg))) = Some ((account, fr_mailbox f, uid), i) \<and>
    rd_content (wn_reader (body_arrived env account uid i (Inr (html, atts)) (win_run steps (window_new cfg)))) =
      Message h html atts"
proof -
  let ?w = "win_run steps (window_new cfg)"
  have ok: "wanted_at (wn_bodies ?w) (wn_selected ?w) (wn_selected_in ?w)"
    using body_ok_run [of steps cfg] by (simp add: body_ok_def)
  obtain f where f: "wn_selected_in ?w = Some f"
    using assms by (cases "wn_selected_in ?w") (auto simp: body_arrived_eq)
  let ?t = "take_body account f uid i (Inr (html, atts)) ?w"
  have "wn_selected ?w \<noteq> None"
    if "fin_next (fst (body_finished (account, fr_mailbox f, uid) i (wn_bodies ?w))) = Some r" for r
    using ok body_finished_next [OF that] by (auto simp: wanted_at_def split: option.splits)
  then have arrived: "wn_reader (body_arrived env account uid i (Inr (html, atts)) ?w) = wn_reader ?t"
    using f by (auto simp: body_arrived_eq win_fetch_body_content split: option.split)
  have "rd_content (wn_reader ?t) \<noteq> rd_content (wn_reader ?w)" using assms arrived by simp
  from take_body_shown [OF ok f this] obtain h where h: "wn_selected ?w = Some h" "mh_uid h = uid"
      "fr_account f = account" "bl_in_flight (wn_bodies ?w) = Some ((account, fr_mailbox f, uid), i)"
    and r: "wn_reader ?t = wn_reader (show_body account (fr_mailbox f) (Inr (html, atts)) h
      (?w\<lparr>wn_bodies := snd (body_finished (account, fr_mailbox f, uid) i (wn_bodies ?w))\<rparr>))"
    by auto
  from f h show ?thesis by (intro exI [of _ h] exI [of _ f]) (simp add: arrived r show_body_content)
qed

text \<open>A message is opened and its body arrives.\<close>

definition opened_steps :: "(win_env \<times> win_msg) list" where
  "opened_steps = demo_steps @ [(demo_win_env, MsgOpen 0)]"

theorem body_under_its_header_witness:
  "rd_content (wn_reader (body_arrived demo_win_env 0 5 1 (Inr ([98], [])) (win_run opened_steps (window_new demo_win_config)))) =
     Message (demo_mail 5) [98] []"
proof -
  let ?w = "win_run opened_steps (window_new demo_win_config)"
  have sel: "wn_selected ?w = Some (demo_mail 5)"
    by (simp add: opened_steps_def window_eval Let_def)
  have "rd_content (wn_reader (body_arrived demo_win_env 0 5 1 (Inr ([98], [])) ?w)) \<noteq> rd_content (wn_reader ?w)"
    by (simp add: opened_steps_def window_eval Let_def)
  from body_under_its_header [OF this] sel show ?thesis by auto
qed

end
