(* ===== verification/PaneSafety.thy ===== *)
theory PaneSafety
  imports WindowPane
begin

text \<open>
  Two more invariants of the reading pane: the page it is left with was given the image fetcher only
  where the user allowed it, and once the reply to the fetch in flight is lost no body is fetched or
  shown any more.
\<close>

section \<open>Remote images\<close>

definition images_at :: "reader \<Rightarrow> config \<Rightarrow> bool \<Rightarrow> bool" where
  "images_at r cfg allowed \<longleftrightarrow>
     rd_loads r \<noteq> [] \<and> last (rd_loads r) = (rd_content r, rd_remote r) \<and>
     (case rd_content r of
        Message h _ _ \<Rightarrow> rd_remote r \<longrightarrow> allowed \<or> sender_trusted cfg h
      | Notice _ _ \<Rightarrow> True)"

definition images_ok :: "window \<Rightarrow> bool" where
  "images_ok w \<longleftrightarrow> images_at (wn_reader w) (wn_config w) (wn_remote_images w)"

text \<open>The same from a point on at which the loads were \<open>loads\<close>: either the view has been given no page
  since, or its page is allowed now.\<close>

definition view_current :: "reader \<Rightarrow> bool" where
  "view_current r \<longleftrightarrow> rd_loads r \<noteq> [] \<and> last (rd_loads r) = (rd_content r, rd_remote r)"

definition images_since :: "(content \<times> bool) list \<Rightarrow> window \<Rightarrow> bool" where
  "images_since loads w \<longleftrightarrow> view_current (wn_reader w) \<and> (rd_loads (wn_reader w) = loads \<or> images_ok w)"

lemma images_since_Nil: "images_since [] w \<longleftrightarrow> images_ok w"
  by (auto simp: images_since_def view_current_def images_ok_def images_at_def)

lemma images_ok_since: "images_ok w \<Longrightarrow> images_since loads w"
  by (auto simp: images_since_def view_current_def images_ok_def images_at_def)

lemma images_since_here: "view_current (wn_reader w) \<Longrightarrow> images_since (rd_loads (wn_reader w)) w"
  by (simp add: images_since_def)

lemma images_since_current: "images_since loads w \<Longrightarrow> view_current (wn_reader w)"
  by (simp add: images_since_def)

lemma images_since_cong:
  "images_since loads w \<Longrightarrow> wn_reader w' = wn_reader w \<Longrightarrow> wn_config w' = wn_config w \<Longrightarrow>
   wn_remote_images w' = wn_remote_images w \<Longrightarrow> images_since loads w'"
  by (auto simp: images_since_def images_ok_def)

lemma images_at_notice [simp]: "images_at (rd_show (Notice t l) r) cfg b"
  by (simp add: images_at_def)

lemma images_at_set:
  "view_current r \<Longrightarrow> (\<And>h body atts. rd_content r = Message h body atts \<Longrightarrow> on \<Longrightarrow> b \<or> sender_trusted cfg h) \<Longrightarrow>
   images_at (rd_set_remote on r) cfg b"
  by (auto simp: images_at_def view_current_def rd_set_remote_def rd_render_def split: content.split)

lemma images_since_frame: "pane_frame (images_since loads)"
proof unfold_locales
  show "images_since loads (on_reader (rd_show (Notice t l)) w)" for w t l
    by (rule images_ok_since) (simp add: images_ok_def)
qed (erule images_since_cong, simp_all add: same_pane_def)

interpretation images_frame: pane_frame "images_since loads" for loads
  by (rule images_since_frame)

lemma images_since_fetch: "images_since loads w \<Longrightarrow> images_since loads (win_fetch_body env r w)"
  by (rule images_frame.I_fetch) (erule images_since_cong, simp_all add: win_emit_def)

lemma images_since_cancel [simp]: "images_since loads w \<Longrightarrow> images_since loads (cancel_bodies w)"
  by (erule images_since_cong) (simp_all add: cancel_bodies_def)

lemma images_since_select: "images_since loads w \<Longrightarrow> images_since loads (win_select env rows w)"
proof -
  assume w: "images_since loads w"
  have "images_since loads (snd (select_message env f h w))" for f h
    by (rule images_since_cong [OF w]) simp_all
  moreover have "images_since loads (seen_cancel (cancel_bodies w))"
    by (rule images_since_cong [OF w]) (simp_all add: seen_cancel_def cancel_bodies_def)
  ultimately show ?thesis using w by (simp add: win_select_eq images_since_fetch split: option.split)
qed

lemma images_since_show_body: "images_since loads w \<Longrightarrow> images_since loads (show_body a m outcome h w)"
proof -
  have "images_ok (show_body a m outcome h w)"
    by (auto simp: show_body_def images_ok_def Let_def set_status_def allow_images_for_def images_at_def show_notice_def
        split: sum.split)
  then show ?thesis by (rule images_ok_since)
qed

lemma images_since_answered: "images_since loads w \<Longrightarrow> images_since loads (body_arrived env a uid i outcome w)"
proof -
  assume w: "images_since loads w"
  have "images_since loads (take_body a f uid i outcome w)" for f
  proof -
    have "images_since loads (w\<lparr>wn_bodies := b\<rparr>)" for b by (rule images_since_cong [OF w]) simp_all
    then show ?thesis
      by (simp add: take_body_def Let_def case_prod_beta images_since_show_body split: option.split bool.split)
  qed
  with w show ?thesis by (simp add: body_arrived_eq images_since_fetch split: option.split)
qed

lemma images_since_trusts: "images_since loads w \<Longrightarrow> images_since loads (trust_sender b w)"
proof -
  assume w: "images_since loads w"
  show ?thesis
  proof (cases "current_message (wn_reader w)")
    case (Some hb)
    then obtain h body where "current_message (wn_reader w) = Some (h, body)" by (cases hb) simp
    with images_since_current [OF w] have "images_ok (trust_sender b w)"
      by (auto simp: images_ok_def trust_sender_def allow_images_for_def current_message_def case_prod_beta Let_def
          intro!: images_at_set split: content.splits)
    then show ?thesis by (rule images_ok_since)
  qed (use w in \<open>simp add: trust_sender_def\<close>)
qed

lemma images_since_remotes: "images_since loads w \<Longrightarrow> images_since loads (set_remote_images b w)"
proof -
  assume "images_since loads w"
  from images_since_current [OF this] have "images_ok (set_remote_images b w)"
    by (auto simp: images_ok_def set_remote_images_def current_sender_trusted_def current_message_def Let_def
        intro!: images_at_set split: content.splits)
  then show ?thesis by (rule images_ok_since)
qed

interpretation images: pane_invariant "images_since loads" "\<lambda>_ _. True" False for loads
proof unfold_locales
  show "images_since loads
      (clear_view (w\<lparr>wn_config := cfg, wn_accounts := accounts, wn_statuses := statuses, wn_folders := folders\<rparr>))"
    for w cfg accounts statuses folders
    by (rule images_ok_since) (simp add: images_ok_def clear_view_def show_notice_def Let_def)
qed (simp_all add: images_since_select images_since_answered images_since_trusts images_since_remotes,
    (erule images_since_cong, simp_all add: cancel_bodies_def)+)

lemma expected_any: "expected_reply (\<lambda>_ _. True) evt"
  by (cases evt) simp_all

lemma images_ok_new: "images_ok (window_new cfg)"
  by (simp add: images_ok_def images_at_def window_new_def)

fun core_restarted :: "win_msg \<Rightarrow> bool" where
  "core_restarted (MsgAccountSaved _ issues _ _) = (issues \<noteq> None)"
| "core_restarted (MsgAccountRemoved _ issues _ _) = (issues \<noteq> None)"
| "core_restarted _ = True"

lemma core_restarted_expected: "core_restarted msg \<Longrightarrow> expected_msg (\<lambda>_ _. True) False msg"
  by (cases msg) (simp_all add: list_all_iff split_def expected_any)

text \<open>A core that does not restart leaves the page alone under a configuration that may trust fewer
  senders, or shows a notice.\<close>

lemma images_since_update:
  assumes "view_current (wn_reader w)"
  shows "images_since (rd_loads (wn_reader w)) (win_update env msg w)"
proof (cases "core_restarted msg")
  case True
  from images.I_update [OF images_since_here [OF assms] core_restarted_expected [OF True]] show ?thesis .
next
  case False
  let ?I = "images_since (rd_loads (wn_reader w))"
  have reload: "?I (reload_accounts cfg None e w)" for cfg e
  proof -
    have "?I (w\<lparr>wn_config := cfg\<rparr>)" using assms by (simp add: images_since_def)
    then show ?thesis by (simp add: reload_accounts_def Let_def)
  qed
  have "?I (account_saved env cfg None e i w)" for cfg e i
    by (simp add: account_saved_def open_from_cache_def Let_def reload images.I_foldl split: option.split)
  moreover have "?I (account_removed cfg None e i w)" for cfg e i
    by (simp add: account_removed_def reload)
  ultimately show ?thesis using False by (cases msg) (simp_all add: win_update_def)
qed

text \<open>Some earlier point of the run at which the page of now was loaded and allowed.\<close>

lemma images_since_run:
  "view_current (wn_reader (win_run steps (window_new cfg))) \<and>
   (\<exists>k \<le> length steps.
     rd_loads (wn_reader (win_run (take k steps) (window_new cfg))) = rd_loads (wn_reader (win_run steps (window_new cfg))) \<and>
     images_ok (win_run (take k steps) (window_new cfg)))"
proof (induction steps rule: rev_induct)
  case Nil
  from images_ok_new [of cfg] images_since_current [OF images_ok_since] show ?case by (auto simp: win_run_def)
next
  case (snoc step steps)
  let ?w = "win_run steps (window_new cfg)"
  obtain env msg where step: "step = (env, msg)" by fastforce
  have run: "win_run (steps @ [step]) (window_new cfg) = win_update env msg ?w" by (simp add: win_run_def step)
  from snoc have "view_current (wn_reader ?w)" by blast
  from images_since_update [OF this] have since: "images_since (rd_loads (wn_reader ?w)) (win_update env msg ?w)" .
  show ?case
  proof (cases "images_ok (win_update env msg ?w)")
    case True
    with since run show ?thesis
      by (intro conjI exI [of _ "Suc (length steps)"]) (simp_all add: images_since_def)
  next
    case False
    with since have "rd_loads (wn_reader (win_update env msg ?w)) = rd_loads (wn_reader ?w)" by (simp add: images_since_def)
    moreover from snoc obtain k where "k \<le> length steps"
      "rd_loads (wn_reader (win_run (take k steps) (window_new cfg))) = rd_loads (wn_reader ?w)"
      "images_ok (win_run (take k steps) (window_new cfg))" by blast
    ultimately show ?thesis
      using since run by (intro conjI exI [of _ k]) (simp_all add: images_since_def)
  qed
qed

text \<open>C4. After any messages, the page the view is left with is the content shown, and it was given the image
  fetcher only when the user had allowed the images of this message or trusted its sender at a point of
  the run since which the view was given no other page; as long as the core starts again after every
  change of the accounts, one of the two still holds now.  This is about the page the view is left with:
  pages that are replaced within one message, and renders that are under way, are not constrained.\<close>

theorem images_only_when_allowed:
  assumes "last (rd_loads (wn_reader (win_run steps (window_new cfg)))) = (Message h html atts, fetching)"
  shows "rd_content (wn_reader (win_run steps (window_new cfg))) = Message h html atts \<and>
    (fetching \<longrightarrow> (\<exists>k \<le> length steps. let w = win_run (take k steps) (window_new cfg) in
       rd_loads (wn_reader w) = rd_loads (wn_reader (win_run steps (window_new cfg))) \<and>
       (wn_remote_images w \<or> sender_trusted (wn_config w) h))) \<and>
    (fetching \<longrightarrow> list_all (\<lambda>(_, msg). core_restarted msg) steps \<longrightarrow>
       wn_remote_images (win_run steps (window_new cfg)) \<or>
       sender_trusted (wn_config (win_run steps (window_new cfg))) h)"
proof -
  let ?w = "win_run steps (window_new cfg)"
  from images_since_run [of steps cfg] obtain k where current: "view_current (wn_reader ?w)" and k: "k \<le> length steps"
      "rd_loads (wn_reader (win_run (take k steps) (window_new cfg))) = rd_loads (wn_reader ?w)"
      "images_ok (win_run (take k steps) (window_new cfg))" by blast
  have allowed: "wn_remote_images v \<or> sender_trusted (wn_config v) h"
    if "images_ok v" "rd_loads (wn_reader v) = rd_loads (wn_reader ?w)" "fetching" for v
    using that assms by (cases "rd_content (wn_reader v)") (auto simp: images_ok_def images_at_def)
  have "images_ok ?w" if "list_all (\<lambda>(_, msg). core_restarted msg) steps"
  proof -
    from that have "list_all (\<lambda>(_, msg). expected_msg (\<lambda>_ _. True) False msg) steps"
      by (auto simp: list_all_iff core_restarted_expected)
    from images.I_run [OF _ this, of "[]"] images_ok_new show ?thesis by (simp add: images_since_Nil)
  qed
  moreover have "rd_content (wn_reader ?w) = Message h html atts"
    using current assms by (simp add: view_current_def)
  ultimately show ?thesis using k allowed by (auto simp: Let_def)
qed

lemma demo_sender: "sender_address (demo_mail uid) = None"
proof -
  have "address_of [] = None" by code_simp
  then show ?thesis by (simp add: sender_address_def demo_mail_def)
qed

text \<open>A message is opened, its body arrives, and the user asks for its images.\<close>

definition image_steps :: "(win_env \<times> win_msg) list" where
  "image_steps = opened_steps @ map (Pair demo_win_env)
     [MsgWake [] [(ac_id demo_account, EvBody 5 ([98]) [] 1)], MsgRemoteImages True]"

theorem images_only_when_allowed_witness:
  "rd_content (wn_reader (win_run image_steps (window_new demo_win_config))) = Message (demo_mail 5) ([98]) [] \<and>
   last (rd_loads (wn_reader (win_run image_steps (window_new demo_win_config)))) = (Message (demo_mail 5) ([98]) [], True)"
proof -
  let ?w = "win_run image_steps (window_new demo_win_config)"
  have l: "last (rd_loads (wn_reader ?w)) = (Message (demo_mail 5) ([98]) [], True)"
    by (simp add: image_steps_def opened_steps_def window_eval sender_trusted_def demo_sender Let_def)
  from images_only_when_allowed [OF l] l show ?thesis by simp
qed

text \<open>In between it is not so: the fetcher is switched before the new message replaces the old one, and
  switching it hands the view the old one again.  A view that is not painted in between never renders
  that page; what a render that is already running does with the new fetcher is in \<open>RenderWorker\<close>.\<close>

lemma old_page_is_loaded_again:
  assumes "rd_content (wn_reader w) = Message h0 body0 atts0" and "\<not> rd_remote (wn_reader w)"
    and "sender_trusted (wn_config w) h"
  shows "rd_loads (wn_reader (show_body account mailbox (Inr (html, atts)) h w)) =
    rd_loads (wn_reader w) @ [(Message h0 body0 atts0, True), (Message h html atts, True)]"
  using assms by (simp add: show_body_def allow_images_for_def set_status_def rd_set_remote_def rd_show_def rd_render_def
      on_reader_def Let_def)

section \<open>A lost reply\<close>

text \<open>While a fetch is in flight: nothing else is fetched, and the pane shows what it showed or a
  notice.\<close>

definition stalled_at :: "body_key \<times> u64 \<Rightarrow> content \<Rightarrow> body_key body_loads \<Rightarrow> content \<Rightarrow> bool" where
  "stalled_at request shown bodies c \<longleftrightarrow>
     bl_in_flight bodies = Some request \<and> (c = shown \<or> (\<exists>t l. c = Notice t l))"

definition stalled :: "body_key \<times> u64 \<Rightarrow> content \<Rightarrow> effect list \<Rightarrow> window \<Rightarrow> bool" where
  "stalled request shown sent w \<longleftrightarrow>
     stalled_at request shown (wn_bodies w) (rd_content (wn_reader w)) \<and> fetches w = sent"

lemma stalled_at_simps [simp]:
  "stalled_at r shown (cancel b) c = stalled_at r shown b c"
  "stalled_at r shown b c \<Longrightarrow> stalled_at r shown (snd (want key b)) c"
  by (auto simp: stalled_at_def cancel_def want_def start_wanted_def)

lemma stalled_at_notice [intro]: "stalled_at r shown b c \<Longrightarrow> stalled_at r shown b (Notice t l)"
  by (simp add: stalled_at_def)

lemma stalled_at_want: "stalled_at r shown b c \<Longrightarrow> fst (want key b) = None"
  by (simp add: stalled_at_def want_def start_wanted_def)

lemma stalled_at_finished:
  "stalled_at (k, j) shown b c \<Longrightarrow> (key, i) \<noteq> (k, j) \<Longrightarrow>
   body_finished key i b = (\<lparr>fin_show = False, fin_next = None\<rparr>, b)"
  by (auto simp: stalled_at_def body_finished_def)

lemma stalled_frame: "pane_frame (stalled r shown sent)"
  by unfold_locales (auto simp: stalled_def same_pane_def)

interpretation stalled_frame: pane_frame "stalled r shown sent" for r shown sent
  by (rule stalled_frame)

lemma stalled_cancel: "stalled r shown sent w \<Longrightarrow> stalled r shown sent (cancel_bodies w)"
  by (simp add: stalled_def cancel_bodies_def)

lemma stalled_select: "stalled r shown sent w \<Longrightarrow> stalled r shown sent (win_select env rows w)"
proof -
  assume w: "stalled r shown sent w"
  then have "fst (want key (wn_bodies w)) = None" for key by (auto simp: stalled_def intro: stalled_at_want)
  moreover have "stalled r shown sent (snd (select_message env f h w))" for f h using w by (simp add: stalled_def)
  moreover have "stalled r shown sent (seen_cancel (cancel_bodies w))"
    using stalled_cancel [OF w] by (simp add: stalled_def seen_cancel_def)
  ultimately show ?thesis using w by (simp add: win_select_eq split: option.split)
qed

lemma stalled_answered:
  assumes "stalled ((a, m, uid), i) shown sent w" and "\<not> (uid' = uid \<and> i' = i)"
  shows "stalled ((a, m, uid), i) shown sent (body_arrived env account uid' i' outcome w)"
proof -
  have f: "body_finished (account, m', uid') i' (wn_bodies w) = (\<lparr>fin_show = False, fin_next = None\<rparr>, wn_bodies w)" for m'
    using assms by (intro stalled_at_finished [of "(a, m, uid)" i shown]) (auto simp: stalled_def)
  then have "take_body account f uid' i' outcome w = w" for f
    by (simp add: take_body_def split: option.split)
  with f assms(1) show ?thesis by (simp add: body_arrived_eq split: option.split)
qed

interpretation stalled: pane_invariant "stalled ((a, m, uid), i) shown sent" "\<lambda>uid' i'. \<not> (uid' = uid \<and> i' = i)" True
  for a m uid i shown sent
proof unfold_locales
  show "stalled ((a, m, uid), i) shown sent (trust_sender b w)" if "stalled ((a, m, uid), i) shown sent w" for b w
    using that by (simp add: stalled_def trust_sender_def allow_images_for_def case_prod_beta Let_def split: option.split)
  show "stalled ((a, m, uid), i) shown sent (set_remote_images b w)" if "stalled ((a, m, uid), i) shown sent w" for b w
    using that by (simp add: stalled_def set_remote_images_def Let_def)
qed (simp_all add: stalled_select stalled_answered stalled_cancel, auto simp: stalled_def cancel_bodies_def
    clear_view_def show_notice_def seen_cancel_def search_reset_def on_list_def Let_def)

text \<open>C28. While a body fetch is in flight and the reply to it does not come, the reading pane shows no
  other message: whatever is selected, opened, searched or set up, accounts removed and added
  included, no further body is asked for and the pane keeps its content or shows a notice.\<close>

theorem lost_reply_stops_reading:
  assumes "bl_in_flight (wn_bodies w) = Some ((account, mailbox, uid), i)"
    and "list_all (\<lambda>(_, msg). expected_msg (\<lambda>uid' i'. \<not> (uid' = uid \<and> i' = i)) True msg) steps"
  shows "filter is_fetch (wn_out (win_run steps w)) = filter is_fetch (wn_out w) \<and>
    bl_in_flight (wn_bodies (win_run steps w)) = Some ((account, mailbox, uid), i) \<and>
    (rd_content (wn_reader (win_run steps w)) = rd_content (wn_reader w) \<or>
     (\<exists>t l. rd_content (wn_reader (win_run steps w)) = Notice t l))"
proof -
  have "stalled ((account, mailbox, uid), i) (rd_content (wn_reader w)) (fetches w) w"
    using assms(1) by (simp add: stalled_def stalled_at_def)
  from stalled.I_run [OF this assms(2)] show ?thesis by (simp add: stalled_def stalled_at_def)
qed

text \<open>The reply is lost when it arrives after a message of another folder was selected: the folder
  it is matched with is the one of the selection.\<close>

lemma crossed_reply_is_lost:
  assumes "bl_in_flight (wn_bodies w) = Some ((account, mailbox, uid), i)"
    and "wn_selected_in w = Some f" and "fr_mailbox f \<noteq> mailbox"
  shows "bl_in_flight (wn_bodies (body_arrived env account uid i outcome w)) = Some ((account, mailbox, uid), i)"
proof -
  have f: "body_finished (account, fr_mailbox f, uid) i (wn_bodies w) = (\<lparr>fin_show = False, fin_next = None\<rparr>, wn_bodies w)"
    using assms by (simp add: body_finished_def)
  then have "take_body account f uid i outcome w = w" by (simp add: take_body_def split: option.split)
  with f assms show ?thesis by (simp add: body_arrived_eq)
qed

definition crossed_steps :: "(win_env \<times> win_msg) list" where
  "crossed_steps = opened_steps @ map (Pair demo_win_env)
     [MsgOpen 1, MsgWake [] [(ac_id demo_account, EvBody 5 [98] [] 1)]]"

theorem lost_reply_stops_reading_witness:
  "filter is_fetch (wn_out (win_run [(demo_win_env, MsgOpen 0), (demo_win_env, MsgOpen 1)]
      (win_run crossed_steps (window_new demo_win_config)))) = [ToActor 0 (FetchBody [98] 5 1)]"
proof -
  let ?w = "win_run crossed_steps (window_new demo_win_config)"
  have w: "bl_in_flight (wn_bodies ?w) = Some ((0, [98], 5), 1)"
      "filter is_fetch (wn_out ?w) = [ToActor 0 (FetchBody [98] 5 1)]"
    by (simp_all add: crossed_steps_def opened_steps_def window_eval Let_def)
  have "list_all (\<lambda>(_, msg). expected_msg (\<lambda>uid' i'. \<not> (uid' = 5 \<and> i' = 1)) True msg)
      [(demo_win_env, MsgOpen 0), (demo_win_env, MsgOpen 1)]"
    by simp
  from lost_reply_stops_reading [OF w(1) this] w(2) show ?thesis by simp
qed

end
