(* ===== verification/Moving.thy ===== *)
theory Moving
  imports PaneSafety
begin

text \<open>
  What archiving and deleting the selected messages asks of the sessions, and what is left of the
  count of actions under way when the accounts change.
\<close>

section \<open>The commands of a move\<close>

definition target_dest :: "folder_tree \<Rightarrow> special_use \<Rightarrow> str \<Rightarrow> folder_ref \<times> mail_header \<Rightarrow> str" where
  "target_dest tree kind fallback t = special_folder tree (fr_account (fst t)) kind fallback"

text \<open>The messages that are not in their account's folder already, and the command for each.\<close>

definition to_move :: "folder_tree \<Rightarrow> special_use \<Rightarrow> str \<Rightarrow> (folder_ref \<times> mail_header) list \<Rightarrow> (folder_ref \<times> mail_header) list" where
  "to_move tree kind fallback = filter (\<lambda>t. target_dest tree kind fallback t \<noteq> fr_mailbox (fst t))"

definition move_command :: "folder_tree \<Rightarrow> special_use \<Rightarrow> str \<Rightarrow> u64 \<Rightarrow> folder_ref \<times> mail_header \<Rightarrow> auth imap_command" where
  "move_command tree kind fallback i t =
     MoveMessage (fr_mailbox (fst t)) (mh_uid (snd t)) (target_dest tree kind fallback t) i"

definition move_ids :: "u64 \<Rightarrow> 'a list \<Rightarrow> (u64 \<times> 'a) list" where
  "move_ids i ts = zip (map (\<lambda>k. i + of_nat (Suc k)) [0..<length ts]) ts"

lemma move_ids_simps [simp]:
  "move_ids i [] = []" "move_ids i (t # ts) = (i + 1, t) # move_ids (i + 1) ts" "length (move_ids i ts) = length ts"
proof -
  have "map (\<lambda>k. i + of_nat (Suc k)) [0..<Suc (length ts)] =
      (i + 1) # map (\<lambda>k. i + 1 + of_nat (Suc k)) [0..<length ts]"
    by (rule nth_equalityI) (auto simp: nth_Cons add_ac simp del: upt_Suc split: nat.split)
  then show "move_ids i (t # ts) = (i + 1, t) # move_ids (i + 1) ts"
    unfolding move_ids_def by (simp del: upt_Suc)
qed (simp_all add: move_ids_def)

definition session_takes :: "win_env \<Rightarrow> nat \<Rightarrow> folder_tree \<Rightarrow> special_use \<Rightarrow> str \<Rightarrow> u64 \<times> folder_ref \<times> mail_header \<Rightarrow> bool" where
  "session_takes env accounts tree kind fallback = (\<lambda>(i, t).
     fr_account (fst t) < accounts \<and> we_accepts env (fr_account (fst t)) (move_command tree kind fallback i t))"

lemma account_failed_out [simp]:
  "wn_out (account_failed a e w) = wn_out w" "wn_pending_actions (account_failed a e w) = wn_pending_actions w"
  "wn_accounts (account_failed a e w) = wn_accounts w" "wn_folders (account_failed a e w) = wn_folders w"
  "wn_action_ids (account_failed a e w) = wn_action_ids w"
  by (simp_all add: account_failed_def set_status_def on_reader_def Let_def split: option.split)

lemma account_unavailable_out [simp]:
  "wn_out (account_unavailable a w) = wn_out w" "wn_pending_actions (account_unavailable a w) = wn_pending_actions w"
  "wn_accounts (account_unavailable a w) = wn_accounts w" "wn_folders (account_unavailable a w) = wn_folders w"
  by (simp_all add: account_unavailable_def win_banner_def set_status_def show_notice_def on_reader_def Let_def
      split: option.split status.split)

lemma counted_send_eq:
  "counted_send env a cmd w =
     (if a < length (wn_accounts w) \<and> we_accepts env a cmd
      then (True, (win_emit (ToActor a cmd) w)\<lparr>wn_pending_actions := wn_pending_actions w + 1\<rparr>)
      else (False, account_unavailable a w))"
  by (simp add: counted_send_def core_send_def win_emit_def)

text \<open>The loop sends the commands of a prefix of the messages to move, all of them unless a session
  refuses one.\<close>

lemma move_targets_prefix:
  "\<exists>n \<le> length (to_move (wn_folders w) kind fallback ts).
     wn_out (move_targets env kind fallback ts there w) =
       wn_out w @ map (\<lambda>(i, t). ToActor (fr_account (fst t)) (move_command (wn_folders w) kind fallback i t))
         (take n (move_ids (lt_current (wn_action_ids w)) (to_move (wn_folders w) kind fallback ts))) \<and>
     wn_pending_actions (move_targets env kind fallback ts there w) = wn_pending_actions w + n \<and>
     (n = length (to_move (wn_folders w) kind fallback ts) \<or>
      n < length (to_move (wn_folders w) kind fallback ts) \<and>
      \<not> session_takes env (length (wn_accounts w)) (wn_folders w) kind fallback
          (move_ids (lt_current (wn_action_ids w)) (to_move (wn_folders w) kind fallback ts) ! n))"
proof (induction ts arbitrary: there w)
  case Nil
  show ?case by (simp add: to_move_def set_status_def split: option.split)
next
  case (Cons t ts)
  obtain folder h where t: "t = (folder, h)" by fastforce
  let ?dest = "special_folder (wn_folders w) (fr_account folder) kind fallback"
  show ?case
  proof (cases "?dest = fr_mailbox folder")
    case True
    with Cons.IH [of w "Some ?dest"] t show ?thesis by (simp add: to_move_def target_dest_def)
  next
    case False
    obtain i ids where b: "latest_begin (wn_action_ids w) = (i, ids)" by fastforce
    then have i: "i = lt_current (wn_action_ids w) + 1" "lt_current ids = lt_current (wn_action_ids w) + 1"
      by (auto simp: latest_begin_def Let_def)
    let ?cmd = "MoveMessage (fr_mailbox folder) (mh_uid h) ?dest i"
    let ?w = "w\<lparr>wn_action_ids := ids\<rparr>"
    have cmd: "?cmd = move_command (wn_folders w) kind fallback i t"
      by (simp add: move_command_def target_dest_def t)
    have m: "to_move (wn_folders w) kind fallback (t # ts) = t # to_move (wn_folders w) kind fallback ts"
      using False t by (simp add: to_move_def target_dest_def)
    show ?thesis
    proof (cases "fr_account folder < length (wn_accounts w) \<and> we_accepts env (fr_account folder) ?cmd")
      case sent: True
      let ?w' = "(win_emit (ToActor (fr_account folder) ?cmd) ?w)\<lparr>wn_pending_actions := wn_pending_actions w + 1\<rparr>"
      have step: "move_targets env kind fallback (t # ts) there w = move_targets env kind fallback ts there ?w'"
        using False sent b t by (simp add: begin_action_def counted_send_eq Let_def)
      have w': "wn_folders ?w' = wn_folders w" "wn_accounts ?w' = wn_accounts w" "wn_action_ids ?w' = ids"
          "wn_out ?w' = wn_out w @ [ToActor (fr_account folder) ?cmd]" "wn_pending_actions ?w' = wn_pending_actions w + 1"
        by (simp_all add: win_emit_def)
      from Cons.IH [of ?w' there] obtain n where n: "n \<le> length (to_move (wn_folders w) kind fallback ts)"
          "wn_out (move_targets env kind fallback ts there ?w') = wn_out ?w' @
             map (\<lambda>(i, t). ToActor (fr_account (fst t)) (move_command (wn_folders w) kind fallback i t))
               (take n (move_ids i (to_move (wn_folders w) kind fallback ts)))"
          "wn_pending_actions (move_targets env kind fallback ts there ?w') = wn_pending_actions w + 1 + n"
          "n = length (to_move (wn_folders w) kind fallback ts) \<or> n < length (to_move (wn_folders w) kind fallback ts) \<and>
             \<not> session_takes env (length (wn_accounts w)) (wn_folders w) kind fallback
               (move_ids i (to_move (wn_folders w) kind fallback ts) ! n)"
        unfolding w' using i by auto
      with m step w' cmd i t show ?thesis by (intro exI [of _ "Suc n"]) auto
    next
      case refused: False
      then have "move_targets env kind fallback (t # ts) there w = account_unavailable (fr_account folder) ?w"
        using False b t by (auto simp: begin_action_def counted_send_eq Let_def)
      moreover have "\<not> session_takes env (length (wn_accounts w)) (wn_folders w) kind fallback (i, t)"
        using refused cmd t by (auto simp: session_takes_def)
      ultimately show ?thesis using m i by (intro exI [of _ 0]) simp
    qed
  qed
qed

text \<open>C29. Deleting moves the selected messages that are not in the trash already, each in its own
  folder of its own account and to that account's trash, under fresh request ids in the order of the
  rows, and counts each as under way; only when a session refuses a command are it and those after it
  left out.\<close>

theorem delete_moves_the_selection:
  "\<exists>n. wn_out (win_delete env w) =
       wn_out w @ map (\<lambda>(i, t). ToActor (fr_account (fst t)) (move_command (wn_folders w) SuTrash TRASH_MAILBOX i t))
         (take n (move_ids (lt_current (wn_action_ids w)) (to_move (wn_folders w) SuTrash TRASH_MAILBOX (targets w)))) \<and>
     wn_pending_actions (win_delete env w) = wn_pending_actions w + n \<and>
     (n = length (to_move (wn_folders w) SuTrash TRASH_MAILBOX (targets w)) \<or>
      n < length (to_move (wn_folders w) SuTrash TRASH_MAILBOX (targets w)) \<and>
      \<not> session_takes env (length (wn_accounts w)) (wn_folders w) SuTrash TRASH_MAILBOX
          (move_ids (lt_current (wn_action_ids w)) (to_move (wn_folders w) SuTrash TRASH_MAILBOX (targets w)) ! n))"
  using move_targets_prefix [of w SuTrash TRASH_MAILBOX "targets w" env None]
  unfolding win_delete_def move_selected_def by blast

section \<open>Changed accounts\<close>

text \<open>Changing the accounts drops the sessions but neither the count of actions under way nor the fetch
  in flight: the actions whose replies went with the old sessions keep the bars disabled.\<close>

lemma reload_keeps_counts:
  "wn_pending_actions (reload_accounts cfg (Some issues) e w) = wn_pending_actions w"
  "bl_in_flight (wn_bodies (reload_accounts cfg (Some issues) e w)) = bl_in_flight (wn_bodies w)"
proof -
  have c: "wn_pending_actions (cache_load_mailboxes a w) = wn_pending_actions w"
      "wn_bodies (cache_load_mailboxes a w) = wn_bodies w" for a w
    by (simp_all add: cache_load_mailboxes_def to_cache_def win_emit_def split: option.split)
  have f: "wn_pending_actions (foldl (\<lambda>w a. cache_load_mailboxes a w) w xs) = wn_pending_actions w"
      "wn_bodies (foldl (\<lambda>w a. cache_load_mailboxes a w) w xs) = wn_bodies w"
      "wn_pending_actions (foldl (\<lambda>w (a, m). account_failed a m w) w ys) = wn_pending_actions w"
      "wn_bodies (foldl (\<lambda>w (a, m). account_failed a m w) w ys) = wn_bodies w" for w xs ys
  proof -
    show "wn_pending_actions (foldl (\<lambda>w a. cache_load_mailboxes a w) w xs) = wn_pending_actions w"
      "wn_bodies (foldl (\<lambda>w a. cache_load_mailboxes a w) w xs) = wn_bodies w"
      by (induction xs arbitrary: w) (simp_all add: c)
    show "wn_pending_actions (foldl (\<lambda>w (a, m). account_failed a m w) w ys) = wn_pending_actions w"
      "wn_bodies (foldl (\<lambda>w (a, m). account_failed a m w) w ys) = wn_bodies w"
      by (induction ys arbitrary: w) (simp_all add: case_prod_beta)
  qed
  have cv: "wn_pending_actions (clear_view w) = wn_pending_actions w" "wn_bodies (clear_view w) = cancel (wn_bodies w)" for w
    by (simp_all add: clear_view_def cancel_bodies_def seen_cancel_def search_reset_def on_list_def show_notice_def
        on_reader_def Let_def)
  show "wn_pending_actions (reload_accounts cfg (Some issues) e w) = wn_pending_actions w"
    "bl_in_flight (wn_bodies (reload_accounts cfg (Some issues) e w)) = bl_in_flight (wn_bodies w)"
    by (simp_all add: reload_accounts_def Let_def f cv show_notice_def on_reader_def cancel_def)
qed

end
