(* ===== verification/RenderWorker.thy ===== *)
theory RenderWorker
  imports Prelude
begin

text \<open>
  The HTML view's render thread and the widget that feeds it, \<open>crates/litehtml-view-d2d/src\<close>:
  \<open>worker.rs\<close>, the submitting and polling half of \<open>widget.rs\<close>, \<open>set_image_fetcher\<close> of
  \<open>view.rs\<close>, the passes of \<open>engine.rs\<close> and the image cache of \<open>container.rs\<close>.  The two
  threads are interleaved step by step; a step of the render thread ends where it takes a lock,
  reads the latest id or fetches an image.  litehtml (which images a page asks for, or that it
  cannot be parsed), the image decoder and the decoder of \<open>data:\<close> addresses are arguments.
  A frame is modelled by what it was drawn from.  Request ids are natural numbers: the counter of
  64 bits does not wrap in a session.
\<close>

section \<open>Images\<close>

text \<open>\<open>D2dContainer\<close>'s images: the key of each address, the decoded images by key, the addresses
  layout asked for since the last look, and all it ever asked for.\<close>

record 'i image_cache =
  ic_keys :: "str \<rightharpoonup> nat"
  ic_data :: "'i list"
  ic_pending :: "(str \<times> bool) list"
  ic_requested :: "str set"

definition image_cache_new :: "'i image_cache" where
  "image_cache_new = \<lparr>ic_keys = Map.empty, ic_data = [], ic_pending = [], ic_requested = {}\<rparr>"

definition load_image :: "str \<times> bool \<Rightarrow> 'i image_cache \<Rightarrow> 'i image_cache" where
  "load_image = (\<lambda>(src, redraw) c.
     if src = [] \<or> ic_keys c src \<noteq> None \<or> src \<in> ic_requested c then c
     else c\<lparr>ic_requested := insert src (ic_requested c), ic_pending := ic_pending c @ [(src, redraw)]\<rparr>)"

definition load_image_data :: "('b \<Rightarrow> 'i option) \<Rightarrow> str \<Rightarrow> 'b \<Rightarrow> 'i image_cache \<Rightarrow> 'i image_cache" where
  "load_image_data decode url bytes c =
     (if ic_keys c url \<noteq> None then c
      else case decode bytes of
        None \<Rightarrow> c
      | Some img \<Rightarrow> c\<lparr>ic_keys := (ic_keys c)(url \<mapsto> length (ic_data c)), ic_data := ic_data c @ [img]\<rparr>)"

definition clear_pending_images :: "'i image_cache \<Rightarrow> 'i image_cache" where
  "clear_pending_images c = c\<lparr>ic_pending := [], ic_requested := {}\<rparr>"

definition take_pending_images :: "'i image_cache \<Rightarrow> (str \<times> bool) list \<times> 'i image_cache" where
  "take_pending_images c = (ic_pending c, c\<lparr>ic_pending := []\<rparr>)"

definition image_of :: "'i image_cache \<Rightarrow> str \<Rightarrow> 'i option" where
  "image_of c url =
     (case ic_keys c url of
        None \<Rightarrow> None
      | Some k \<Rightarrow> if k < length (ic_data c) then Some (ic_data c ! k) else None)"

section \<open>Jobs and frames\<close>

record 'w render_job =
  rj_id :: nat
  rj_html :: str
  rj_width :: 'w
  rj_reset :: bool

record ('w, 'i) frame =
  fr_id :: nat
  fr_html :: str
  fr_width :: 'w
  fr_images :: "str \<Rightarrow> 'i option"

datatype ('w, 'i) worker_output = OutFrame "('w, 'i) frame" | OutFailed nat

text \<open>\<open>re_page\<close> is the list of images litehtml asks for when it lays the page out at a width with the
  images known so far; \<open>None\<close> when the page cannot be parsed.  \<open>re_signature\<close> is the hash of a
  page's text.\<close>

record ('w, 'b, 'i) render_env =
  re_page :: "str \<Rightarrow> 'w \<Rightarrow> (str \<Rightarrow> 'i option) \<Rightarrow> (str \<times> bool) list option"
  re_decode :: "'b \<Rightarrow> 'i option"
  re_data_uri :: "str \<Rightarrow> 'b option"
  re_signature :: "('w, 'i) frame \<Rightarrow> u64"

definition newest_job :: "'w render_job list \<Rightarrow> 'w render_job option" where
  "newest_job jobs =
     map_option (\<lambda>job. job\<lparr>rj_reset := list_ex rj_reset jobs\<rparr>) (last_opt jobs)"

definition draw_pass :: "('w, 'b, 'i) render_env \<Rightarrow> str \<Rightarrow> 'w \<Rightarrow> 'i image_cache \<Rightarrow> bool \<times> 'i image_cache" where
  "draw_pass env html width c =
     (case re_page env html width (image_of c) of
        None \<Rightarrow> (False, c)
      | Some asked \<Rightarrow> (True, fold load_image asked c))"

section \<open>The two threads\<close>

definition MAX_PASSES :: nat where "MAX_PASSES = 2"

type_synonym 'b fetcher = "str \<Rightarrow> 'b option"

text \<open>A selection is two carets, each a run of text and a character of it.

  Where the render thread stands: waiting for a job, before a pass, before it reads the fetcher,
  and fetching.  Passes are counted as in the code.\<close>

datatype ('w, 'b) phase =
    Waiting
  | Passing "'w render_job" nat
  | Reading "'w render_job" nat "(str \<times> bool) list"
  | Fetching "'w render_job" nat "'b fetcher option" "(str \<times> bool) list" bool

record ('w, 'b, 'i) html_view =
  hv_html :: str
  hv_dirty :: bool
  hv_reset :: bool
  hv_width :: "'w option"
  hv_submitted :: nat
  hv_frame :: "('w, 'i) frame option"
  hv_failed :: bool
  hv_selection :: "((nat \<times> nat) \<times> (nat \<times> nat)) option"
  hv_fetcher :: "'b fetcher option"
  hv_latest :: nat
  hv_jobs :: "'w render_job list"
  hv_outputs :: "('w, 'i) worker_output list"
  hv_phase :: "('w, 'b) phase"
  hv_cache :: "'i image_cache"
  hv_reset_next :: bool
  hv_fetched :: "(str \<times> str) list"

text \<open>\<open>hv_fetched\<close> records which page made the fetcher ask for which address.\<close>

definition html_view_new :: "str \<Rightarrow> ('w, 'b, 'i) html_view" where
  "html_view_new html =
     \<lparr>hv_html = html, hv_dirty = True, hv_reset = False, hv_width = None, hv_submitted = 0, hv_frame = None,
      hv_failed = False, hv_selection = None, hv_fetcher = None, hv_latest = 0, hv_jobs = [], hv_outputs = [],
      hv_phase = Waiting, hv_cache = image_cache_new, hv_reset_next = False, hv_fetched = []\<rparr>"

text \<open>The user interface's thread.\<close>

definition view_load :: "str \<Rightarrow> ('w, 'b, 'i) html_view \<Rightarrow> ('w, 'b, 'i) html_view" where
  "view_load html v =
     v\<lparr>hv_html := html, hv_frame := None, hv_selection := None, hv_failed := False, hv_reset := True, hv_dirty := True\<rparr>"

definition view_submit :: "'w \<Rightarrow> ('w, 'b, 'i) html_view \<Rightarrow> ('w, 'b, 'i) html_view" where
  "view_submit width v =
     (let n = hv_submitted v + 1;
          job = \<lparr>rj_id = n, rj_html = hv_html v, rj_width = width, rj_reset = hv_reset v\<rparr>
      in v\<lparr>hv_submitted := n, hv_latest := n, hv_reset := False, hv_jobs := hv_jobs v @ [job],
           hv_width := Some width, hv_dirty := False\<rparr>)"

definition view_receive ::
  "('w, 'b, 'i) render_env \<Rightarrow> ('w, 'b, 'i) html_view \<Rightarrow> ('w, 'i) worker_output \<Rightarrow> ('w, 'b, 'i) html_view" where
  "view_receive env v out =
     (case out of
        OutFrame f \<Rightarrow>
          if fr_id f = hv_submitted v then
            (let changed = (case hv_frame v of Some prev \<Rightarrow> re_signature env prev \<noteq> re_signature env f | None \<Rightarrow> True);
                 v = (if changed then v\<lparr>hv_selection := None\<rparr> else v)
             in v\<lparr>hv_frame := Some f\<rparr>)
          else v
      | OutFailed i \<Rightarrow> if i = hv_submitted v then v\<lparr>hv_failed := True\<rparr> else v)"

definition view_poll :: "('w, 'b, 'i) render_env \<Rightarrow> ('w, 'b, 'i) html_view \<Rightarrow> ('w, 'b, 'i) html_view" where
  "view_poll env v = foldl (view_receive env) (v\<lparr>hv_outputs := []\<rparr>) (hv_outputs v)"

text \<open>\<open>moved\<close> says whether the width differs by more than half a point from the requested one.\<close>

definition view_paint ::
  "('w, 'b, 'i) render_env \<Rightarrow> 'w \<Rightarrow> bool \<Rightarrow> ('w, 'b, 'i) html_view \<Rightarrow> ('w, 'b, 'i) html_view" where
  "view_paint env width moved v = view_poll env (if hv_dirty v \<or> moved then view_submit width v else v)"

definition view_ready :: "('w, 'b, 'i) html_view \<Rightarrow> bool" where
  "view_ready v \<longleftrightarrow> map_option fr_id (hv_frame v) = Some (hv_submitted v)"

definition view_set_fetcher :: "'b fetcher option \<Rightarrow> ('w, 'b, 'i) html_view \<Rightarrow> ('w, 'b, 'i) html_view" where
  "view_set_fetcher f v = v\<lparr>hv_fetcher := f\<rparr>"

text \<open>The render thread.\<close>

definition superseded :: "nat \<Rightarrow> ('w, 'b, 'i) html_view \<Rightarrow> bool" where
  "superseded i v \<longleftrightarrow> hv_latest v \<noteq> i"

definition emit_frame :: "'w render_job \<Rightarrow> ('w, 'b, 'i) html_view \<Rightarrow> ('w, 'b, 'i) html_view" where
  "emit_frame job v =
     v\<lparr>hv_outputs := hv_outputs v @
        [OutFrame \<lparr>fr_id = rj_id job, fr_html = rj_html job, fr_width = rj_width job, fr_images = image_of (hv_cache v)\<rparr>],
       hv_phase := Waiting\<rparr>"

definition worker_take :: "('w, 'b, 'i) html_view \<Rightarrow> ('w, 'b, 'i) html_view" where
  "worker_take v =
     (case newest_job (hv_jobs v) of
        None \<Rightarrow> v
      | Some job \<Rightarrow>
          v\<lparr>hv_jobs := [],
            hv_cache := (if rj_reset job \<or> hv_reset_next v then clear_pending_images (hv_cache v) else hv_cache v),
            hv_reset_next := (if rj_reset job then hv_reset_next v else False),
            hv_phase := Passing job 0\<rparr>)"

definition worker_pass ::
  "('w, 'b, 'i) render_env \<Rightarrow> 'w render_job \<Rightarrow> nat \<Rightarrow> ('w, 'b, 'i) html_view \<Rightarrow> ('w, 'b, 'i) html_view" where
  "worker_pass env job passes v =
     (if superseded (rj_id job) v then v\<lparr>hv_reset_next := True, hv_phase := Waiting\<rparr>
      else
        (case draw_pass env (rj_html job) (rj_width job) (hv_cache v) of
           (False, c) \<Rightarrow> v\<lparr>hv_cache := c, hv_outputs := hv_outputs v @ [OutFailed (rj_id job)], hv_phase := Waiting\<rparr>
         | (True, c) \<Rightarrow>
             let (pending, c) = take_pending_images c;
                 v = v\<lparr>hv_cache := c\<rparr>
             in if pending = [] \<or> passes + 1 = MAX_PASSES then emit_frame job v
                else v\<lparr>hv_phase := Reading job (passes + 1) pending\<rparr>))"

definition worker_fetch ::
  "('w, 'b, 'i) render_env \<Rightarrow> 'w render_job \<Rightarrow> 'b fetcher option \<Rightarrow> str \<Rightarrow> ('w, 'b, 'i) html_view \<Rightarrow>
   bool \<times> ('w, 'b, 'i) html_view" where
  "worker_fetch env job fetch url v =
     (let (bytes, v) =
        (case (re_data_uri env url, fetch) of
           (Some b, _) \<Rightarrow> (Some b, v)
         | (None, Some f) \<Rightarrow> (f url, v\<lparr>hv_fetched := hv_fetched v @ [(rj_html job, url)]\<rparr>)
         | (None, None) \<Rightarrow> (None, v))
      in (case bytes of
            Some b \<Rightarrow> (True, v\<lparr>hv_cache := load_image_data (re_decode env) url b (hv_cache v)\<rparr>)
          | None \<Rightarrow> (False, v)))"

definition render_step :: "('w, 'b, 'i) render_env \<Rightarrow> ('w, 'b, 'i) html_view \<Rightarrow> ('w, 'b, 'i) html_view" where
  "render_step env v =
     (case hv_phase v of
        Waiting \<Rightarrow> worker_take v
      | Passing job passes \<Rightarrow> worker_pass env job passes v
      | Reading job passes pending \<Rightarrow> v\<lparr>hv_phase := Fetching job passes (hv_fetcher v) pending False\<rparr>
      | Fetching job passes fetch [] loaded \<Rightarrow>
          if loaded then v\<lparr>hv_phase := Passing job passes\<rparr> else emit_frame job v
      | Fetching job passes fetch ((url, _) # rest) loaded \<Rightarrow>
          let (got, v) = worker_fetch env job fetch url v
          in v\<lparr>hv_phase := Fetching job passes fetch rest (loaded \<or> got)\<rparr>)"

datatype ('w, 'b) view_action =
    DoLoad str
  | DoFetcher "'b fetcher option"
  | DoPaint 'w bool
  | DoWork

fun view_step :: "('w, 'b, 'i) render_env \<Rightarrow> ('w, 'b, 'i) html_view \<Rightarrow> ('w, 'b) view_action \<Rightarrow> ('w, 'b, 'i) html_view" where
  "view_step env v (DoLoad html) = view_load html v"
| "view_step env v (DoFetcher f) = view_set_fetcher f v"
| "view_step env v (DoPaint width moved) = view_paint env width moved v"
| "view_step env v DoWork = render_step env v"

definition view_run :: "('w, 'b, 'i) render_env \<Rightarrow> ('w, 'b) view_action list \<Rightarrow> ('w, 'b, 'i) html_view \<Rightarrow> ('w, 'b, 'i) html_view" where
  "view_run env acts v = foldl (view_step env) v acts"

section \<open>The frame on screen belongs to the page that was loaded\<close>

fun phase_jobs :: "('w, 'b) phase \<Rightarrow> 'w render_job list" where
  "phase_jobs Waiting = []"
| "phase_jobs (Passing job _) = [job]"
| "phase_jobs (Reading job _ _) = [job]"
| "phase_jobs (Fetching job _ _ _ _) = [job]"

fun out_pages :: "('w, 'i) worker_output \<Rightarrow> (nat \<times> str) list" where
  "out_pages (OutFrame f) = [(fr_id f, fr_html f)]"
| "out_pages (OutFailed _) = []"

text \<open>The ids under way, each with the page it stands for.\<close>

definition pages_in_play :: "('w, 'b, 'i) html_view \<Rightarrow> (nat \<times> str) list" where
  "pages_in_play v =
     map (\<lambda>j. (rj_id j, rj_html j)) (hv_jobs v @ phase_jobs (hv_phase v)) @ concat (map out_pages (hv_outputs v))"

definition pages_ok :: "('w, 'b, 'i) html_view \<Rightarrow> bool" where
  "pages_ok v \<longleftrightarrow>
     hv_latest v = hv_submitted v \<and>
     (\<forall>(i, html)\<in>set (pages_in_play v). i \<le> hv_submitted v \<and> (i = hv_submitted v \<longrightarrow> hv_dirty v \<or> html = hv_html v)) \<and>
     (\<forall>f. hv_frame v = Some f \<longrightarrow> fr_html f = hv_html v \<and> fr_id f \<le> hv_submitted v)"

lemma newest_job_Some:
  assumes "newest_job jobs = Some job"
  shows "jobs \<noteq> [] \<and> rj_id job = rj_id (last jobs) \<and> rj_html job = rj_html (last jobs) \<and> rj_width job = rj_width (last jobs) \<and>
    rj_reset job = list_ex rj_reset jobs"
  using assms by (auto simp: newest_job_def last_opt_def split: if_splits)

lemma newest_job_None [simp]: "newest_job jobs = None \<longleftrightarrow> jobs = []" "newest_job [] = None"
  by (simp_all add: newest_job_def last_opt_def)

lemma pages_ok_mono:
  assumes "pages_ok v" and "set (pages_in_play v') \<subseteq> set (pages_in_play v)"
    and "hv_latest v' = hv_latest v" "hv_submitted v' = hv_submitted v" "hv_dirty v' = hv_dirty v"
      "hv_html v' = hv_html v" "hv_frame v' = hv_frame v"
  shows "pages_ok v'"
  unfolding pages_ok_def assms(3-7) using assms(1,2) by (auto simp: pages_ok_def)

lemma pages_ok_load: "pages_ok v \<Longrightarrow> pages_ok (view_load html v)"
  by (auto simp: pages_ok_def view_load_def pages_in_play_def)

lemma pages_ok_submit:
  assumes "pages_ok v"
  shows "pages_ok (view_submit width v)" and "\<not> hv_dirty (view_submit width v)"
proof -
  let ?v = "view_submit width v"
  have "set (pages_in_play ?v) = insert (Suc (hv_submitted v), hv_html v) (set (pages_in_play v))"
    by (auto simp: pages_in_play_def view_submit_def Let_def)
  moreover have "\<forall>(i, html)\<in>set (pages_in_play v). i \<le> hv_submitted v" using assms by (auto simp: pages_ok_def)
  moreover have "\<forall>f. hv_frame v = Some f \<longrightarrow> fr_html f = hv_html v \<and> fr_id f \<le> hv_submitted v"
    using assms by (simp add: pages_ok_def)
  ultimately show "pages_ok ?v"
    by (auto simp: pages_ok_def view_submit_def Let_def simp del: not_less_eq_eq dest: le_SucI)
  show "\<not> hv_dirty ?v" by (simp add: view_submit_def Let_def)
qed

lemma view_receive_fields [simp]:
  "hv_submitted (view_receive env v out) = hv_submitted v" "hv_latest (view_receive env v out) = hv_latest v"
  "hv_dirty (view_receive env v out) = hv_dirty v" "hv_html (view_receive env v out) = hv_html v"
  "hv_jobs (view_receive env v out) = hv_jobs v" "hv_phase (view_receive env v out) = hv_phase v"
  "hv_outputs (view_receive env v out) = hv_outputs v"
  by (simp_all add: view_receive_def Let_def split: worker_output.split)

lemma pages_ok_receive:
  assumes "pages_ok v" and "\<And>i html. (i, html) \<in> set (out_pages out) \<Longrightarrow> i = hv_submitted v \<Longrightarrow> html = hv_html v"
  shows "pages_ok (view_receive env v out)"
proof -
  have p: "pages_in_play (view_receive env v out) = pages_in_play v" by (simp add: pages_in_play_def)
  have "fr_html f = hv_html v \<and> fr_id f \<le> hv_submitted v" if "hv_frame (view_receive env v out) = Some f" for f
    using that assms by (cases out) (auto simp: view_receive_def pages_ok_def Let_def split: if_splits)
  with assms(1) p show ?thesis by (simp add: pages_ok_def)
qed

lemma pages_ok_receives:
  assumes "pages_ok v" and "\<And>i html. (i, html) \<in> set (concat (map out_pages outs)) \<Longrightarrow> i = hv_submitted v \<Longrightarrow> html = hv_html v"
  shows "pages_ok (foldl (view_receive env) v outs)"
  using assms
proof (induction outs arbitrary: v)
  case (Cons out outs)
  have "pages_ok (view_receive env v out)" using Cons.prems by (intro pages_ok_receive) auto
  moreover have "html = hv_html v" if "(i, html) \<in> set (concat (map out_pages outs))" "i = hv_submitted v" for i html
    using Cons.prems(2) that by simp
  ultimately show ?case using Cons.IH [of "view_receive env v out"] by simp
qed simp

lemma pages_ok_poll:
  assumes "pages_ok v" and "\<not> hv_dirty v"
  shows "pages_ok (view_poll env v)"
  unfolding view_poll_def
proof (rule pages_ok_receives)
  show "pages_ok (v\<lparr>hv_outputs := []\<rparr>)"
    by (rule pages_ok_mono [OF assms(1)]) (auto simp: pages_in_play_def)
  fix i html
  assume "(i, html) \<in> set (concat (map out_pages (hv_outputs v)))" and "i = hv_submitted (v\<lparr>hv_outputs := []\<rparr>)"
  moreover from this(1) have "(i, html) \<in> set (pages_in_play v)" by (simp add: pages_in_play_def)
  ultimately show "html = hv_html (v\<lparr>hv_outputs := []\<rparr>)" using assms by (auto simp: pages_ok_def)
qed

lemma emit_frame_fields [simp]:
  "hv_latest (emit_frame job v) = hv_latest v" "hv_submitted (emit_frame job v) = hv_submitted v"
  "hv_dirty (emit_frame job v) = hv_dirty v" "hv_html (emit_frame job v) = hv_html v"
  "hv_frame (emit_frame job v) = hv_frame v" "hv_failed (emit_frame job v) = hv_failed v"
  "hv_jobs (emit_frame job v) = hv_jobs v" "hv_phase (emit_frame job v) = Waiting"
  "hv_reset_next (emit_frame job v) = hv_reset_next v" "hv_cache (emit_frame job v) = hv_cache v"
  by (simp_all add: emit_frame_def)

lemma pages_in_play_emit:
  "phase_jobs (hv_phase v) = [job] \<Longrightarrow> set (pages_in_play (emit_frame job v)) = set (pages_in_play v)"
  by (auto simp: pages_in_play_def emit_frame_def)

lemma pages_ok_emit: "pages_ok v \<Longrightarrow> phase_jobs (hv_phase v) = [job] \<Longrightarrow> pages_ok (emit_frame job v)"
  by (erule pages_ok_mono) (simp_all add: pages_in_play_emit)

lemma pages_ok_take: "pages_ok v \<Longrightarrow> hv_phase v = Waiting \<Longrightarrow> pages_ok (worker_take v)"
proof (cases "newest_job (hv_jobs v)")
  case (Some job)
  assume v: "pages_ok v" "hv_phase v = Waiting"
  note job = newest_job_Some [OF Some]
  then have "(rj_id job, rj_html job) \<in> set (pages_in_play v)" by (simp add: pages_in_play_def)
  then have "set (pages_in_play (worker_take v)) \<subseteq> set (pages_in_play v)"
    using Some by (auto simp: worker_take_def pages_in_play_def)
  from pages_ok_mono [OF v(1) this] Some show ?thesis by (simp add: worker_take_def)
qed (simp add: worker_take_def)

lemma pages_ok_pass:
  assumes "pages_ok v" and "phase_jobs (hv_phase v) = [job]"
  shows "pages_ok (worker_pass env job passes v)"
proof -
  have "pages_ok (v\<lparr>hv_cache := c\<rparr>)" for c by (rule pages_ok_mono [OF assms(1)]) (simp_all add: pages_in_play_def)
  then have "pages_ok (emit_frame job (v\<lparr>hv_cache := c\<rparr>))" for c
    using assms(2) by (simp add: pages_ok_emit)
  moreover have "pages_ok (v\<lparr>hv_cache := c, hv_phase := Reading job n p\<rparr>)"
    "pages_ok (v\<lparr>hv_reset_next := r, hv_phase := Waiting\<rparr>)"
    "pages_ok (v\<lparr>hv_cache := c, hv_outputs := hv_outputs v @ [OutFailed k], hv_phase := Waiting\<rparr>)" for c n p r k
    using assms(2) by (auto intro!: pages_ok_mono [OF assms(1)] simp: pages_in_play_def)
  ultimately show ?thesis
    by (cases "draw_pass env (rj_html job) (rj_width job) (hv_cache v)")
       (auto simp: worker_pass_def take_pending_images_def Let_def split: bool.split)
qed

lemma worker_fetch_fields [simp]:
  "hv_jobs (snd (worker_fetch env job f url v)) = hv_jobs v" "hv_outputs (snd (worker_fetch env job f url v)) = hv_outputs v"
  "hv_submitted (snd (worker_fetch env job f url v)) = hv_submitted v" "hv_latest (snd (worker_fetch env job f url v)) = hv_latest v"
  "hv_dirty (snd (worker_fetch env job f url v)) = hv_dirty v" "hv_html (snd (worker_fetch env job f url v)) = hv_html v"
  "hv_frame (snd (worker_fetch env job f url v)) = hv_frame v" "hv_failed (snd (worker_fetch env job f url v)) = hv_failed v"
  "hv_phase (snd (worker_fetch env job f url v)) = hv_phase v" "hv_reset_next (snd (worker_fetch env job f url v)) = hv_reset_next v"
  by (simp_all add: worker_fetch_def Let_def case_prod_beta split: option.split)

lemma pages_ok_work: "pages_ok v \<Longrightarrow> pages_ok (render_step env v)"
proof (cases "hv_phase v")
  case (Fetching job passes f pending loaded)
  assume v: "pages_ok v"
  show ?thesis
  proof (cases pending)
    case Nil
    have "pages_ok (v\<lparr>hv_phase := Passing job passes\<rparr>)"
      by (rule pages_ok_mono [OF v]) (simp_all add: Fetching pages_in_play_def)
    with Nil Fetching v show ?thesis by (simp add: render_step_def pages_ok_emit)
  next
    case (Cons p rest)
    show ?thesis
      by (rule pages_ok_mono [OF v])
        (simp_all add: Fetching Cons render_step_def pages_in_play_def case_prod_beta Let_def split: prod.split)
  qed
next
  case (Reading job passes pending)
  assume v: "pages_ok v"
  show ?thesis by (rule pages_ok_mono [OF v]) (simp_all add: Reading render_step_def pages_in_play_def)
qed (simp_all add: render_step_def pages_ok_take pages_ok_pass)

lemma pages_ok_step: "pages_ok v \<Longrightarrow> pages_ok (view_step env v a)"
proof (cases a)
  case (DoPaint width moved)
  assume v: "pages_ok v"
  show ?thesis
  proof (cases "hv_dirty v \<or> moved")
    case True
    with DoPaint pages_ok_poll [OF pages_ok_submit(1) [OF v] pages_ok_submit(2) [OF v]] show ?thesis
      by (simp add: view_paint_def)
  next
    case False
    with DoPaint pages_ok_poll [OF v] show ?thesis by (simp add: view_paint_def)
  qed
next
  case (DoFetcher f)
  assume "pages_ok v"
  with DoFetcher show ?thesis by (simp add: view_set_fetcher_def pages_ok_def pages_in_play_def)
qed (simp_all add: pages_ok_load pages_ok_work)

lemma pages_ok_run: "pages_ok v \<Longrightarrow> pages_ok (view_run env acts v)"
  unfolding view_run_def by (induction acts arbitrary: v) (simp_all add: pages_ok_step)

lemma pages_ok_new: "pages_ok (html_view_new html)"
  by (simp add: pages_ok_def html_view_new_def pages_in_play_def)

text \<open>However page loads, resizes, paints and the render thread interleave, a frame on screen was
  drawn from the page that was loaded last, never from an older one that was still being rendered.\<close>

theorem frame_is_of_the_loaded_page:
  assumes "hv_frame (view_run env acts (html_view_new html)) = Some f"
  shows "fr_html f = hv_html (view_run env acts (html_view_new html))"
  using pages_ok_run [OF pages_ok_new, of env acts html] assms by (simp add: pages_ok_def)

section \<open>The page loaded last is rendered\<close>

fun answers_job :: "nat \<Rightarrow> ('w, 'i) worker_output \<Rightarrow> bool" where
  "answers_job i (OutFrame f) = (fr_id f = i)"
| "answers_job i (OutFailed j) = (j = i)"

text \<open>What the render thread leaves alone.\<close>

definition same_ui :: "('w, 'b, 'i) html_view \<Rightarrow> ('w, 'b, 'i) html_view \<Rightarrow> bool" where
  "same_ui v' v \<longleftrightarrow>
     hv_latest v' = hv_latest v \<and> hv_submitted v' = hv_submitted v \<and> hv_dirty v' = hv_dirty v \<and>
     hv_html v' = hv_html v \<and> hv_frame v' = hv_frame v \<and> hv_failed v' = hv_failed v \<and>
     (\<exists>outs. hv_outputs v' = hv_outputs v @ outs)"

lemma same_ui_refl [simp]: "same_ui v v" by (simp add: same_ui_def)

lemma same_ui_trans [trans]: "same_ui v2 v1 \<Longrightarrow> same_ui v1 v \<Longrightarrow> same_ui v2 v"
  by (auto simp: same_ui_def)

lemma render_step_Passing:
  assumes "hv_phase v = Passing job p"
  shows "hv_jobs (render_step env v) = hv_jobs v \<and> same_ui (render_step env v) v \<and>
    (hv_phase (render_step env v) = Waiting \<and>
       (rj_id job = hv_latest v \<longrightarrow> list_ex (answers_job (rj_id job)) (hv_outputs (render_step env v))) \<or>
     p + 1 < MAX_PASSES \<and> (\<exists>pending. hv_phase (render_step env v) = Reading job (p + 1) pending) \<or>
     p + 1 > MAX_PASSES)"
  using assms
  by (cases "draw_pass env (rj_html job) (rj_width job) (hv_cache v)")
     (auto simp: render_step_def worker_pass_def take_pending_images_def superseded_def same_ui_def emit_frame_def Let_def
       split: bool.split)

lemma fetching_ends:
  assumes "hv_phase v = Fetching job p f pending loaded"
  shows "\<exists>k. let v' = (render_step env ^^ k) v in
    hv_jobs v' = hv_jobs v \<and> same_ui v' v \<and>
    (hv_phase v' = Waiting \<and> list_ex (answers_job (rj_id job)) (hv_outputs v') \<or> hv_phase v' = Passing job p)"
  using assms
proof (induction pending arbitrary: v loaded)
  case Nil
  show ?case
    by (rule exI [of _ 1]) (auto simp: Nil render_step_def same_ui_def emit_frame_def)
next
  case (Cons q pending)
  obtain url b where q: "q = (url, b)" by fastforce
  obtain got w where g: "worker_fetch env job f url v = (got, w)" by fastforce
  let ?v = "render_step env v"
  have v: "?v = w\<lparr>hv_phase := Fetching job p f pending (loaded \<or> got)\<rparr>"
    using Cons.prems q g by (simp add: render_step_def)
  have w: "hv_jobs w = hv_jobs v" "same_ui w v"
    using worker_fetch_fields [of env job f url v] g by (simp_all add: same_ui_def)
  from Cons.IH [of ?v "loaded \<or> got"] v obtain k where k: "let v' = (render_step env ^^ k) ?v in
    hv_jobs v' = hv_jobs ?v \<and> same_ui v' ?v \<and>
    (hv_phase v' = Waiting \<and> list_ex (answers_job (rj_id job)) (hv_outputs v') \<or> hv_phase v' = Passing job p)" by auto
  have "same_ui ?v v" "hv_jobs ?v = hv_jobs v" using v w by (simp_all add: same_ui_def)
  with k same_ui_trans show ?case
    by (intro exI [of _ "Suc k"]) (auto simp: Let_def funpow_swap1)
qed

definition settled :: "nat \<Rightarrow> ('w, 'b, 'i) html_view \<Rightarrow> ('w, 'b, 'i) html_view \<Rightarrow> bool" where
  "settled i v v' \<longleftrightarrow> hv_jobs v' = hv_jobs v \<and> same_ui v' v \<and> hv_phase v' = Waiting \<and>
     (i = hv_latest v \<longrightarrow> list_ex (answers_job i) (hv_outputs v'))"

lemma settled_later:
  assumes "\<exists>k. settled i w ((render_step env ^^ k) w)" and "(render_step env ^^ n) v = w"
    and "hv_jobs w = hv_jobs v" and "same_ui w v"
  shows "\<exists>k. settled i v ((render_step env ^^ k) v)"
proof -
  from assms(1) obtain k where k: "settled i w ((render_step env ^^ k) w)" ..
  have "settled i v ((render_step env ^^ (k + n)) v)"
    using k assms(2-4) by (auto simp: settled_def funpow_add same_ui_def)
  then show ?thesis ..
qed

lemma second_pass_settles:
  assumes "hv_phase v = Passing job 1"
  shows "\<exists>k. settled (rj_id job) v ((render_step env ^^ k) v)"
  using render_step_Passing [OF assms, of env]
  by (intro exI [of _ 1]) (auto simp: settled_def MAX_PASSES_def same_ui_def)

lemma fetching_settles:
  assumes "hv_phase v = Fetching job 1 f pending loaded"
  shows "\<exists>k. settled (rj_id job) v ((render_step env ^^ k) v)"
proof -
  from fetching_ends [OF assms, of env] obtain n where n:
    "hv_jobs ((render_step env ^^ n) v) = hv_jobs v" "same_ui ((render_step env ^^ n) v) v"
    "hv_phase ((render_step env ^^ n) v) = Waiting \<and> list_ex (answers_job (rj_id job)) (hv_outputs ((render_step env ^^ n) v)) \<or>
     hv_phase ((render_step env ^^ n) v) = Passing job 1"
    by (auto simp: Let_def)
  show ?thesis
  proof (cases "hv_phase ((render_step env ^^ n) v) = Passing job 1")
    case True
    from settled_later [OF second_pass_settles [OF True] refl n(1,2)] show ?thesis .
  next
    case False
    with n show ?thesis by (intro exI [of _ n]) (auto simp: settled_def)
  qed
qed

lemma reading_settles:
  assumes "hv_phase v = Reading job 1 pending"
  shows "\<exists>k. settled (rj_id job) v ((render_step env ^^ k) v)"
proof -
  let ?w = "render_step env v"
  have "hv_phase ?w = Fetching job 1 (hv_fetcher v) pending False" "hv_jobs ?w = hv_jobs v" "same_ui ?w v"
    using assms by (simp_all add: render_step_def same_ui_def)
  from settled_later [OF fetching_settles [OF this(1)], of 1, OF _ this(2,3)] show ?thesis by simp
qed

text \<open>A job under way counts its passes from 0, and the next pass is the last.\<close>

definition phase_ok :: "('w, 'b) phase \<Rightarrow> bool" where
  "phase_ok p \<longleftrightarrow>
     (case p of Waiting \<Rightarrow> True | Passing _ n \<Rightarrow> n < MAX_PASSES | Reading _ n _ \<Rightarrow> n = 1 | Fetching _ n _ _ _ \<Rightarrow> n = 1)"

lemma job_settles:
  assumes "phase_ok (hv_phase v)" and "phase_jobs (hv_phase v) = [job]"
  shows "\<exists>k. settled (rj_id job) v ((render_step env ^^ k) v)"
proof (cases "hv_phase v")
  case (Passing j n)
  with assms have n: "n = 0 \<or> n = 1" and j: "j = job" by (auto simp: phase_ok_def MAX_PASSES_def)
  show ?thesis
  proof (cases "n = 1")
    case True
    with Passing j second_pass_settles show ?thesis by blast
  next
    case False
    with n Passing j have p: "hv_phase v = Passing job 0" by simp
    note w = render_step_Passing [OF p, of env]
    show ?thesis
    proof (cases "hv_phase (render_step env v) = Waiting")
      case True
      with w show ?thesis by (intro exI [of _ 1]) (auto simp: settled_def MAX_PASSES_def same_ui_def)
    next
      case False
      with w obtain pending where "hv_phase (render_step env v) = Reading job 1 pending"
        by (auto simp: MAX_PASSES_def)
      from settled_later [OF reading_settles [OF this], of 1] w show ?thesis by simp
    qed
  qed
next
  case (Reading j n pending)
  with assms reading_settles [of v j] show ?thesis by (simp add: phase_ok_def)
next
  case (Fetching j n f pending loaded)
  with assms fetching_settles [of v j] show ?thesis by (simp add: phase_ok_def)
qed (use assms in simp)

text \<open>What is still owed for the page submitted last.\<close>

definition answered_ui :: "('w, 'b, 'i) html_view \<Rightarrow> bool" where
  "answered_ui v \<longleftrightarrow> view_ready v \<or> hv_failed v"

definition owed :: "('w, 'b, 'i) html_view \<Rightarrow> bool" where
  "owed v \<longleftrightarrow>
     hv_latest v = hv_submitted v \<and> phase_ok (hv_phase v) \<and>
     (hv_jobs v \<noteq> [] \<longrightarrow> rj_id (last (hv_jobs v)) = hv_submitted v) \<and>
     (hv_dirty v \<or> hv_jobs v \<noteq> [] \<or> hv_submitted v \<in> set (map rj_id (phase_jobs (hv_phase v))) \<or>
      list_ex (answers_job (hv_submitted v)) (hv_outputs v) \<or> answered_ui v)"

lemma answered_receive:
  "answers_job (hv_submitted v) out \<or> answered_ui v \<Longrightarrow> answered_ui (view_receive env v out)"
  by (cases out) (auto simp: answered_ui_def view_ready_def view_receive_def Let_def)

lemma answered_receives:
  "list_ex (answers_job (hv_submitted v)) outs \<or> answered_ui v \<Longrightarrow> answered_ui (foldl (view_receive env) v outs)"
proof (induction outs arbitrary: v)
  case (Cons out outs)
  have "list_ex (answers_job (hv_submitted (view_receive env v out))) outs \<or> answered_ui (view_receive env v out)"
    using Cons.prems answered_receive [of v out env] by auto
  from Cons.IH [OF this] show ?case by simp
qed simp

lemma receives_fields [simp]:
  "hv_submitted (foldl (view_receive env) v outs) = hv_submitted v" "hv_latest (foldl (view_receive env) v outs) = hv_latest v"
  "hv_dirty (foldl (view_receive env) v outs) = hv_dirty v" "hv_jobs (foldl (view_receive env) v outs) = hv_jobs v"
  "hv_phase (foldl (view_receive env) v outs) = hv_phase v" "hv_outputs (foldl (view_receive env) v outs) = hv_outputs v"
  by (induction outs arbitrary: v) simp_all

lemma answered_poll:
  "list_ex (answers_job (hv_submitted v)) (hv_outputs v) \<or> answered_ui v \<Longrightarrow> answered_ui (view_poll env v)"
  unfolding view_poll_def by (rule answered_receives) (simp add: answered_ui_def view_ready_def)

lemma view_poll_fields [simp]:
  "hv_submitted (view_poll env v) = hv_submitted v" "hv_latest (view_poll env v) = hv_latest v"
  "hv_dirty (view_poll env v) = hv_dirty v" "hv_jobs (view_poll env v) = hv_jobs v"
  "hv_phase (view_poll env v) = hv_phase v"
  by (simp_all add: view_poll_def)

lemma owed_poll: "owed v \<Longrightarrow> owed (view_poll env v)"
  using answered_poll [of v env] by (auto simp: owed_def)

lemma owed_submit: "owed v \<Longrightarrow> owed (view_submit width v)"
  by (simp add: owed_def view_submit_def Let_def)

lemma same_ui_answered:
  assumes "same_ui v' v"
  shows "answered_ui v' = answered_ui v"
    and "list_ex (answers_job i) (hv_outputs v) \<Longrightarrow> list_ex (answers_job i) (hv_outputs v')"
  using assms by (auto simp: same_ui_def answered_ui_def view_ready_def)

lemma render_step_same_ui: "same_ui (render_step env v) v"
proof (cases "hv_phase v")
  case Waiting
  then show ?thesis by (simp add: render_step_def worker_take_def same_ui_def split: option.split)
next
  case (Passing job p)
  from render_step_Passing [OF this, of env] show ?thesis by simp
next
  case (Fetching job p f pending loaded)
  then show ?thesis
    using worker_fetch_fields [of env job f "fst (hd pending)" v]
    by (cases pending) (auto simp: render_step_def same_ui_def emit_frame_def case_prod_beta Let_def split: prod.split)
qed (simp add: render_step_def same_ui_def)

lemma render_step_jobs:
  assumes "hv_phase v \<noteq> Waiting"
  shows "hv_jobs (render_step env v) = hv_jobs v"
proof (cases "hv_phase v")
  case (Passing job p)
  from render_step_Passing [OF this, of env] show ?thesis by simp
next
  case (Fetching job p f pending loaded)
  then show ?thesis by (cases pending) (auto simp: render_step_def case_prod_beta Let_def split: prod.split)
qed (use assms in \<open>simp_all add: render_step_def\<close>)

text \<open>A step of a job keeps the job or answers it, if it was not superseded.\<close>

lemma render_step_job:
  assumes "phase_ok (hv_phase v)" and "phase_jobs (hv_phase v) = [job]"
  shows "phase_ok (hv_phase (render_step env v)) \<and>
    (rj_id job = hv_latest v \<longrightarrow>
       phase_jobs (hv_phase (render_step env v)) = [job] \<or> list_ex (answers_job (rj_id job)) (hv_outputs (render_step env v)))"
proof (cases "hv_phase v")
  case (Passing j p)
  with assms render_step_Passing [OF this, of env] show ?thesis by (auto simp: phase_ok_def MAX_PASSES_def)
next
  case (Fetching j p f pending loaded)
  with assms show ?thesis
    by (cases pending) (auto simp: render_step_def phase_ok_def emit_frame_def MAX_PASSES_def case_prod_beta Let_def split: prod.split)
qed (use assms in \<open>simp_all add: render_step_def phase_ok_def\<close>)

lemma owed_work:
  assumes "owed v"
  shows "owed (render_step env v)"
proof (cases "hv_phase v = Waiting")
  case True
  show ?thesis
  proof (cases "newest_job (hv_jobs v)")
    case None
    with True assms show ?thesis by (simp add: render_step_def worker_take_def)
  next
    case (Some job)
    with True assms newest_job_Some [OF Some] show ?thesis
      by (simp add: render_step_def worker_take_def owed_def phase_ok_def MAX_PASSES_def)
  qed
next
  case False
  then obtain job where job: "phase_jobs (hv_phase v) = [job]" by (cases "hv_phase v") auto
  let ?v = "render_step env v"
  note ui = render_step_same_ui [of env v]
  have same: "hv_latest ?v = hv_latest v" "hv_submitted ?v = hv_submitted v" "hv_dirty ?v = hv_dirty v" "hv_jobs ?v = hv_jobs v"
    using ui render_step_jobs [OF False] by (simp_all add: same_ui_def)
  have "phase_ok (hv_phase v)" "hv_latest v = hv_submitted v" using assms by (simp_all add: owed_def)
  with render_step_job [OF _ job, of env] have
    step: "phase_ok (hv_phase ?v)" "hv_submitted v = rj_id job \<longrightarrow>
      hv_submitted v \<in> set (map rj_id (phase_jobs (hv_phase ?v))) \<or> list_ex (answers_job (hv_submitted v)) (hv_outputs ?v)"
    by auto
  show ?thesis
    using assms step job unfolding owed_def same same_ui_answered(1) [OF ui]
    by (auto dest: same_ui_answered(2) [OF ui, where i = "hv_submitted v"])
qed

lemma owed_run: "owed v \<Longrightarrow> owed (view_run env acts v)"
proof -
  have "owed (view_step env v a)" if "owed v" for v a
  proof (cases a)
    case (DoPaint width moved)
    with that owed_poll [OF that] owed_poll [OF owed_submit [OF that]] show ?thesis by (simp add: view_paint_def)
  next
    case (DoLoad html)
    with that show ?thesis by (simp add: owed_def view_load_def)
  next
    case (DoFetcher f)
    with that show ?thesis by (simp add: owed_def view_set_fetcher_def answered_ui_def view_ready_def)
  qed (simp add: owed_work that)
  then show "owed v \<Longrightarrow> owed (view_run env acts v)"
    unfolding view_run_def by (induction acts arbitrary: v) simp_all
qed

lemma worker_idles:
  assumes "owed v"
  shows "\<exists>k. hv_phase ((render_step env ^^ k) v) = Waiting \<and> hv_jobs ((render_step env ^^ k) v) = hv_jobs v"
proof (cases "hv_phase v = Waiting")
  case True
  then show ?thesis by (intro exI [of _ 0]) simp
next
  case False
  then obtain job where job: "phase_jobs (hv_phase v) = [job]" by (cases "hv_phase v") auto
  from assms have "phase_ok (hv_phase v)" by (simp add: owed_def)
  from job_settles [OF this job, of env] show ?thesis by (auto simp: settled_def)
qed

lemma owed_worked: "owed v \<Longrightarrow> owed ((render_step env ^^ k) v) \<and> hv_dirty ((render_step env ^^ k) v) = hv_dirty v"
proof (induction k)
  case (Suc k)
  then show ?case using owed_work render_step_same_ui [of env "(render_step env ^^ k) v"] by (auto simp: same_ui_def)
qed simp

lemma worker_answers:
  assumes "owed v" and "\<not> hv_dirty v"
  shows "\<exists>k. let v' = (render_step env ^^ k) v in
    list_ex (answers_job (hv_submitted v')) (hv_outputs v') \<or> answered_ui v'"
proof -
  obtain n where n: "hv_phase ((render_step env ^^ n) v) = Waiting" "hv_jobs ((render_step env ^^ n) v) = hv_jobs v"
    using worker_idles [OF assms(1), of env] by blast
  let ?w = "(render_step env ^^ n) v"
  have w: "owed ?w" "\<not> hv_dirty ?w" using owed_worked [OF assms(1)] assms(2) by auto
  show ?thesis
  proof (cases "hv_jobs ?w = []")
    case True
    with w n(1) show ?thesis by (intro exI [of _ n]) (auto simp: owed_def Let_def)
  next
    case False
    then obtain job where job: "newest_job (hv_jobs ?w) = Some job" by (cases "newest_job (hv_jobs ?w)") auto
    let ?x = "render_step env ?w"
    have x: "hv_phase ?x = Passing job 0" using n(1) job by (simp add: render_step_def worker_take_def)
    have i: "rj_id job = hv_latest ?x" "hv_latest ?x = hv_submitted ?x"
      using w(1) newest_job_Some [OF job] render_step_same_ui [of env ?w] by (simp_all add: owed_def same_ui_def)
    from job_settles [of ?x job env] x obtain k where "settled (rj_id job) ?x ((render_step env ^^ k) ?x)"
      by (auto simp: phase_ok_def MAX_PASSES_def)
    moreover have "(render_step env ^^ (k + Suc n)) v = (render_step env ^^ k) ?x"
      by (simp add: funpow_add funpow_swap1)
    ultimately show ?thesis
      using i by (intro exI [of _ "k + Suc n"]) (auto simp: settled_def same_ui_def Let_def simp del: funpow.simps)
  qed
qed

lemma view_run_work: "view_run env (replicate k DoWork) v = (render_step env ^^ k) v"
  unfolding view_run_def by (induction k arbitrary: v) (simp_all add: funpow_swap1)

lemma owed_new: "owed (html_view_new html)"
  by (simp add: owed_def html_view_new_def phase_ok_def)

text \<open>C36. Once the page that was loaded last has been painted for the first time, the render thread is at
  most a finite number of its own steps away from it: the next paint after them shows it, or the view
  knows that it cannot be rendered, however many older renders it first has to give up.\<close>

theorem loaded_page_gets_rendered:
  assumes "\<not> hv_dirty (view_run env acts (html_view_new html))"
  shows "\<exists>k. view_ready (view_run env (acts @ replicate k DoWork @ [DoPaint width False]) (html_view_new html)) \<or>
    hv_failed (view_run env (acts @ replicate k DoWork @ [DoPaint width False]) (html_view_new html))"
proof -
  let ?v = "view_run env acts (html_view_new html)"
  have "owed ?v" by (rule owed_run [OF owed_new])
  from worker_answers [OF this assms, of env] obtain k where
    k: "list_ex (answers_job (hv_submitted ((render_step env ^^ k) ?v))) (hv_outputs ((render_step env ^^ k) ?v)) \<or>
      answered_ui ((render_step env ^^ k) ?v)" by (auto simp: Let_def)
  have d: "\<not> hv_dirty ((render_step env ^^ k) ?v)" using owed_worked [OF \<open>owed ?v\<close>] assms by auto
  have "view_run env (acts @ replicate k DoWork @ [DoPaint width False]) (html_view_new html) =
      view_paint env width False ((render_step env ^^ k) ?v)"
    using view_run_work [of env k ?v] by (simp add: view_run_def)
  with answered_poll [OF k, of env] d show ?thesis
    by (intro exI [of _ k]) (auto simp: view_paint_def answered_ui_def)
qed

section \<open>Pages with one image each\<close>

definition demo_page :: "str \<Rightarrow> unit \<Rightarrow> (str \<Rightarrow> str option) \<Rightarrow> (str \<times> bool) list option" where
  "demo_page html width known = Some (if html = [1] then [([104, 49], False)] else [([104, 50], False)])"

definition demo_render :: "(unit, str, str) render_env" where
  "demo_render = \<lparr>re_page = demo_page, re_decode = Some, re_data_uri = (\<lambda>_. None), re_signature = (\<lambda>_. 0)\<rparr>"

lemmas render_eval =
  view_run_def view_paint_def view_submit_def view_poll_def view_receive_def view_load_def view_set_fetcher_def
  render_step_def worker_take_def worker_pass_def worker_fetch_def draw_pass_def superseded_def emit_frame_def
  newest_job_def last_opt_def take_pending_images_def clear_pending_images_def load_image_def load_image_data_def
  html_view_new_def image_cache_new_def demo_render_def demo_page_def MAX_PASSES_def

theorem frame_is_of_the_loaded_page_witness:
  "\<exists>f. hv_frame (view_run demo_render
       [DoPaint () False, DoWork, DoLoad [2], DoPaint () False, DoWork, DoWork, DoWork, DoWork, DoWork, DoWork, DoPaint () False]
       (html_view_new [1])) = Some f \<and> fr_html f = [2]"
proof -
  let ?acts = "[DoPaint () False, DoWork, DoLoad [2], DoPaint () False, DoWork, DoWork, DoWork, DoWork, DoWork, DoWork, DoPaint () False]
    :: (unit, str) view_action list"
  have "hv_frame (view_run demo_render ?acts (html_view_new [1])) \<noteq> None"
    and h: "hv_html (view_run demo_render ?acts (html_view_new [1])) = [2]"
    by (simp_all add: render_eval Let_def)
  then obtain f where f: "hv_frame (view_run demo_render ?acts (html_view_new [1])) = Some f" by auto
  from f frame_is_of_the_loaded_page [OF f] h show ?thesis by (intro exI [of _ f]) simp
qed

theorem loaded_page_gets_rendered_witness:
  "\<exists>k. view_ready (view_run demo_render ([DoPaint () False] @ replicate k DoWork @ [DoPaint () False]) (html_view_new [1])) \<or>
    hv_failed (view_run demo_render ([DoPaint () False] @ replicate k DoWork @ [DoPaint () False]) (html_view_new [1]))"
  by (rule loaded_page_gets_rendered) (simp add: render_eval Let_def)

end
