(* ===== verification/RenderImages.thy ===== *)
theory RenderImages
  imports RenderWorker
begin

text \<open>
  The images of the pages the render thread draws: while the fetcher stays the same every frame has
  all the images that can be had, whichever renders were given up before it; and what happens when
  the fetcher changes while a page is being rendered, and to images fetched earlier.
\<close>

section \<open>Every frame has the images that can be had\<close>

definition image_source :: "('w, 'b, 'i) render_env \<Rightarrow> 'b fetcher option \<Rightarrow> str \<Rightarrow> 'i option" where
  "image_source env f url =
     Option.bind
       (case re_data_uri env url of
          Some b \<Rightarrow> Some b
        | None \<Rightarrow> (case f of Some g \<Rightarrow> g url | None \<Rightarrow> None))
       (re_decode env)"

text \<open>The addresses a page asks for; \<open>load_image\<close> ignores an empty one.\<close>

definition asked_urls :: "('w, 'b, 'i) render_env \<Rightarrow> str \<Rightarrow> 'w \<Rightarrow> str set" where
  "asked_urls env html width = (case re_page env html width (\<lambda>_. None) of Some asked \<Rightarrow> fst ` set asked - {[]} | None \<Rightarrow> {})"

definition steady_page :: "('w, 'b, 'i) render_env \<Rightarrow> bool" where
  "steady_page env \<longleftrightarrow> (\<forall>html width known. re_page env html width known = re_page env html width (\<lambda>_. None))"

definition known_urls :: "'i image_cache \<Rightarrow> str set" where
  "known_urls c = dom (ic_keys c) \<union> ic_requested c"

text \<open>Every cached image is what its source gives, and every address asked for but those still to be
  fetched has its image, if there is one.\<close>

definition cache_good :: "(str \<Rightarrow> 'i option) \<Rightarrow> str set \<Rightarrow> 'i image_cache \<Rightarrow> bool" where
  "cache_good source todo c \<longleftrightarrow>
     (\<forall>url k. ic_keys c url = Some k \<longrightarrow> k < length (ic_data c) \<and> source url = Some (ic_data c ! k)) \<and>
     (\<forall>url\<in>ic_requested c - todo. source url \<noteq> None \<longrightarrow> ic_keys c url \<noteq> None)"

lemma cache_good_image:
  assumes "cache_good source {} c" and "url \<in> known_urls c" and "source url = Some img"
  shows "image_of c url = Some img"
  using assms by (fastforce simp: cache_good_def known_urls_def image_of_def split: option.splits)

lemma load_image_known:
  "known_urls (load_image q c) = known_urls c \<union> ({fst q} - {[]})"
  by (cases q) (auto simp: load_image_def known_urls_def)

lemma load_images_known: "known_urls (fold load_image asked c) = known_urls c \<union> (fst ` set asked - {[]})"
  by (induction asked arbitrary: c) (auto simp: load_image_known)

lemma load_images_keys [simp]:
  "ic_keys (fold load_image asked c) = ic_keys c" "ic_data (fold load_image asked c) = ic_data c"
  by (induction asked arbitrary: c) (simp_all add: load_image_def case_prod_beta)

text \<open>What layout newly asks for is pending.\<close>

lemma load_images_pending:
  "ic_requested (fold load_image asked c) \<subseteq> ic_requested c \<union> fst ` set (ic_pending (fold load_image asked c)) \<and>
   (\<exists>more. ic_pending (fold load_image asked c) = ic_pending c @ more)"
proof (induction asked arbitrary: c)
  case (Cons q asked)
  have 1: "ic_requested (load_image q c) \<subseteq> ic_requested c \<union> fst ` set (ic_pending (load_image q c))"
    "\<exists>more. ic_pending (load_image q c) = ic_pending c @ more"
    by (auto simp: load_image_def split: prod.split)
  from Cons.IH [of "load_image q c"] 1 show ?case by fastforce
qed simp

lemma load_images_idle:
  assumes "fst ` set asked - {[]} \<subseteq> known_urls c"
  shows "fold load_image asked c = c"
  using assms
proof (induction asked)
  case (Cons q asked)
  have "load_image q c = c" using Cons.prems by (cases q) (auto simp: load_image_def known_urls_def)
  moreover have "fst ` set asked - {[]} \<subseteq> known_urls c" using Cons.prems by auto
  ultimately show ?case using Cons.IH by simp
qed simp

lemma cache_good_load_images:
  assumes "cache_good source {} c" and "ic_pending c = []"
  shows "cache_good source (fst ` set (ic_pending (fold load_image asked c))) (fold load_image asked c)"
proof -
  have "ic_requested (fold load_image asked c) - fst ` set (ic_pending (fold load_image asked c)) \<subseteq> ic_requested c"
    using load_images_pending [of asked c] by blast
  with assms(1) show ?thesis by (auto simp: cache_good_def)
qed

lemma cache_good_pending [simp]: "cache_good source todo (c\<lparr>ic_pending := p\<rparr>) = cache_good source todo c"
  by (simp add: cache_good_def)

lemma known_urls_pending [simp]: "known_urls (c\<lparr>ic_pending := p\<rparr>) = known_urls c"
  by (simp add: known_urls_def)

lemma cache_good_clear: "cache_good source {} c \<Longrightarrow> cache_good source {} (clear_pending_images c)"
  by (simp add: cache_good_def clear_pending_images_def)

text \<open>Fetching one image.\<close>

lemma cache_good_fetch:
  assumes "cache_good (image_source env f) (insert url todo) (hv_cache v)" and "worker_fetch env job f url v = (got, v')"
  shows "cache_good (image_source env f) todo (hv_cache v') \<and> known_urls (hv_cache v) \<subseteq> known_urls (hv_cache v') \<and>
    ic_pending (hv_cache v') = ic_pending (hv_cache v)"
proof -
  let ?src = "case re_data_uri env url of Some b \<Rightarrow> Some b | None \<Rightarrow> (case f of Some g \<Rightarrow> g url | None \<Rightarrow> None)"
  have c: "hv_cache v' = (case ?src of Some b \<Rightarrow> load_image_data (re_decode env) url b (hv_cache v) | None \<Rightarrow> hv_cache v)"
    using assms(2) by (auto simp: worker_fetch_def Let_def split: option.splits prod.splits)
  show ?thesis
  proof (cases ?src)
    case None
    then have "image_source env f url = None" by (simp add: image_source_def)
    with None c assms(1) show ?thesis by (auto simp: cache_good_def)
  next
    case (Some b)
    then have s: "image_source env f url = re_decode env b" by (simp add: image_source_def)
    show ?thesis
      using Some c assms(1) s
      by (auto simp: cache_good_def load_image_data_def known_urls_def nth_append less_Suc_eq split: option.splits if_splits)
  qed
qed

definition frame_complete :: "('w, 'b, 'i) render_env \<Rightarrow> 'b fetcher option \<Rightarrow> ('w, 'i) frame \<Rightarrow> bool" where
  "frame_complete env f fr \<longleftrightarrow>
     (\<forall>url\<in>asked_urls env (fr_html fr) (fr_width fr). \<forall>img. image_source env f url = Some img \<longrightarrow> fr_images fr url = Some img)"

definition asked_known :: "('w, 'b, 'i) render_env \<Rightarrow> 'w render_job \<Rightarrow> 'i image_cache \<Rightarrow> bool" where
  "asked_known env job c \<longleftrightarrow> asked_urls env (rj_html job) (rj_width job) \<subseteq> known_urls c"

definition phase_good ::
  "('w, 'b, 'i) render_env \<Rightarrow> 'b fetcher option \<Rightarrow> ('w, 'b) phase \<Rightarrow> 'i image_cache \<Rightarrow> bool \<Rightarrow> bool" where
  "phase_good env f p c reset_next \<longleftrightarrow>
     (case p of
        Waiting \<Rightarrow>
          (\<forall>url k. ic_keys c url = Some k \<longrightarrow> k < length (ic_data c) \<and> image_source env f url = Some (ic_data c ! k)) \<and>
          (reset_next \<or> cache_good (image_source env f) {} c \<and> ic_pending c = [])
      | Passing job n \<Rightarrow>
          cache_good (image_source env f) {} c \<and> ic_pending c = [] \<and> (n = 0 \<or> n = 1 \<and> asked_known env job c)
      | Reading job n pending \<Rightarrow>
          cache_good (image_source env f) (fst ` set pending) c \<and> ic_pending c = [] \<and> n = 1 \<and> asked_known env job c
      | Fetching job n g pending loaded \<Rightarrow>
          g = f \<and> cache_good (image_source env f) (fst ` set pending) c \<and> ic_pending c = [] \<and> n = 1 \<and>
          asked_known env job c)"

definition images_good :: "('w, 'b, 'i) render_env \<Rightarrow> 'b fetcher option \<Rightarrow> ('w, 'b, 'i) html_view \<Rightarrow> bool" where
  "images_good env f v \<longleftrightarrow>
     hv_fetcher v = f \<and> phase_good env f (hv_phase v) (hv_cache v) (hv_reset_next v) \<and>
     (\<forall>fr. OutFrame fr \<in> set (hv_outputs v) \<longrightarrow> frame_complete env f fr) \<and>
     (\<forall>fr. hv_frame v = Some fr \<longrightarrow> frame_complete env f fr)"

lemma cache_good_keys:
  "cache_good source todo c \<Longrightarrow> ic_keys c url = Some k \<Longrightarrow> k < length (ic_data c) \<and> source url = Some (ic_data c ! k)"
  by (simp add: cache_good_def)

lemma images_good_emit:
  assumes "images_good env f v" and "cache_good (image_source env f) {} (hv_cache v)" and "ic_pending (hv_cache v) = []"
    and "asked_known env job (hv_cache v)"
  shows "images_good env f (emit_frame job v)"
proof -
  let ?fr = "\<lparr>fr_id = rj_id job, fr_html = rj_html job, fr_width = rj_width job, fr_images = image_of (hv_cache v)\<rparr>"
  have "frame_complete env f ?fr"
    using assms(4) cache_good_image [OF assms(2)] by (auto simp: frame_complete_def asked_known_def)
  with assms show ?thesis
    by (auto simp: images_good_def phase_good_def emit_frame_def dest: cache_good_keys)
qed

lemma images_good_take:
  assumes "images_good env f v" and "hv_phase v = Waiting"
  shows "images_good env f (worker_take v)"
proof (cases "newest_job (hv_jobs v)")
  case (Some job)
  have k: "\<And>url k. ic_keys (hv_cache v) url = Some k \<Longrightarrow>
      k < length (ic_data (hv_cache v)) \<and> image_source env f url = Some (ic_data (hv_cache v) ! k)"
    and w: "hv_reset_next v \<or> cache_good (image_source env f) {} (hv_cache v) \<and> ic_pending (hv_cache v) = []"
    using assms by (auto simp: images_good_def phase_good_def)
  let ?c = "if rj_reset job \<or> hv_reset_next v then clear_pending_images (hv_cache v) else hv_cache v"
  have "cache_good (image_source env f) {} (clear_pending_images (hv_cache v))"
    using k by (simp add: cache_good_def clear_pending_images_def)
  with w have "cache_good (image_source env f) {} ?c \<and> ic_pending ?c = []"
    by (auto simp: clear_pending_images_def)
  with assms Some show ?thesis by (simp add: worker_take_def images_good_def phase_good_def)
qed (use assms in \<open>simp add: worker_take_def\<close>)

lemma images_good_pass:
  assumes "images_good env f v" and "hv_phase v = Passing job n" and "steady_page env"
  shows "images_good env f (worker_pass env job n v)"
proof -
  let ?c = "hv_cache v"
  have c: "cache_good (image_source env f) {} ?c" "ic_pending ?c = []" and n: "n = 0 \<or> n = 1 \<and> asked_known env job ?c"
    using assms(1,2) by (auto simp: images_good_def phase_good_def)
  show ?thesis
  proof (cases "superseded (rj_id job) v")
    case True
    with assms(1) c show ?thesis
      by (auto simp: worker_pass_def images_good_def phase_good_def dest: cache_good_keys)
  next
    case current: False
    show ?thesis
    proof (cases "re_page env (rj_html job) (rj_width job) (image_of ?c)")
      case None
      with current assms(1) c show ?thesis
        by (auto simp: worker_pass_def draw_pass_def images_good_def phase_good_def dest: cache_good_keys)
    next
      case (Some asked)
      let ?d = "fold load_image asked ?c"
      let ?e = "?d\<lparr>ic_pending := []\<rparr>"
      have "re_page env (rj_html job) (rj_width job) (\<lambda>_. None) = Some asked"
        using Some assms(3) unfolding steady_page_def by metis
      then have urls: "asked_urls env (rj_html job) (rj_width job) = fst ` set asked - {[]}"
        by (simp add: asked_urls_def)
      then have known: "asked_known env job ?e" by (simp add: asked_known_def load_images_known)
      have good: "cache_good (image_source env f) (fst ` set (ic_pending ?d)) ?e"
        using cache_good_load_images [OF c] by simp
      show ?thesis
      proof (cases "ic_pending ?d = [] \<or> n + 1 = MAX_PASSES")
        case True
        have "ic_pending ?d = []"
        proof (cases "n = 0")
          case first: True
          with True show ?thesis by (simp add: MAX_PASSES_def)
        next
          case False
          with n urls have "fst ` set asked - {[]} \<subseteq> known_urls ?c" by (simp add: asked_known_def)
          with c(2) show ?thesis by (simp add: load_images_idle)
        qed
        with good have good: "cache_good (image_source env f) {} ?e" by simp
        let ?v = "v\<lparr>hv_cache := ?e\<rparr>"
        have "images_good env f ?v"
          using assms(1,2) good known n by (auto simp: images_good_def phase_good_def)
        from images_good_emit [OF this] good known True Some current show ?thesis
          by (simp add: worker_pass_def draw_pass_def take_pending_images_def Let_def)
      next
        case False
        with n have "n = 0" by (auto simp: MAX_PASSES_def)
        with False assms(1) good known Some current show ?thesis
          by (simp add: worker_pass_def draw_pass_def take_pending_images_def Let_def images_good_def phase_good_def)
      qed
    qed
  qed
qed

lemma images_good_work:
  assumes "images_good env f v" and "steady_page env"
  shows "images_good env f (render_step env v)"
proof (cases "hv_phase v")
  case (Passing job n)
  with images_good_pass [OF assms(1) this assms(2)] show ?thesis by (simp add: render_step_def)
next
  case (Reading job n pending)
  with assms(1) show ?thesis by (simp add: render_step_def images_good_def phase_good_def)
next
  case (Fetching job n g pending loaded)
  then have g: "g = f" "cache_good (image_source env f) (fst ` set pending) (hv_cache v)" "ic_pending (hv_cache v) = []"
      "n = 1" "asked_known env job (hv_cache v)"
    using assms(1) by (auto simp: images_good_def phase_good_def)
  show ?thesis
  proof (cases pending)
    case Nil
    with g have good: "cache_good (image_source env f) {} (hv_cache v)" by simp
    from images_good_emit [OF assms(1) good g(3,5)] Nil Fetching assms(1) g good show ?thesis
      by (simp add: render_step_def) (simp add: images_good_def phase_good_def)
  next
    case (Cons q rest)
    obtain url b where q: "q = (url, b)" by fastforce
    obtain got w where w: "worker_fetch env job g url v = (got, w)" by fastforce
    from g(2) Cons q have "cache_good (image_source env f) (insert url (fst ` set rest)) (hv_cache v)" by simp
    from cache_good_fetch [OF this, of job got w] w g(1,3,5)
    have "cache_good (image_source env f) (fst ` set rest) (hv_cache w)" "asked_known env job (hv_cache w)"
        "ic_pending (hv_cache w) = []" by (auto simp: asked_known_def)
    moreover have "hv_outputs w = hv_outputs v" "hv_frame w = hv_frame v" "hv_fetcher w = hv_fetcher v"
      using worker_fetch_fields [of env job g url v] w
      by (auto simp: worker_fetch_def Let_def split: option.splits prod.splits)
    ultimately show ?thesis
      using Fetching Cons q w g(1,4) assms(1) by (simp add: render_step_def images_good_def phase_good_def)
  qed
qed (use assms images_good_take in \<open>simp add: render_step_def\<close>)

lemma images_good_receive:
  "images_good env f v \<Longrightarrow> (\<And>fr. out = OutFrame fr \<Longrightarrow> frame_complete env f fr) \<Longrightarrow> images_good env f (view_receive env v out)"
  by (cases out) (auto simp: images_good_def view_receive_def Let_def)

lemma images_good_poll:
  assumes "images_good env f v"
  shows "images_good env f (view_poll env v)"
proof -
  have "images_good env f (foldl (view_receive env) w outs)"
    if "images_good env f w" "\<forall>fr. OutFrame fr \<in> set outs \<longrightarrow> frame_complete env f fr" for w outs
    using that
  proof (induction outs arbitrary: w)
    case (Cons out outs)
    from Cons.prems have "images_good env f (view_receive env w out)" by (intro images_good_receive) auto
    with Cons show ?case by simp
  qed simp
  moreover have "images_good env f (v\<lparr>hv_outputs := []\<rparr>)"
    using assms by (simp add: images_good_def)
  moreover have "\<forall>fr. OutFrame fr \<in> set (hv_outputs v) \<longrightarrow> frame_complete env f fr"
    using assms by (simp add: images_good_def)
  ultimately show ?thesis unfolding view_poll_def by blast
qed

lemma images_good_step:
  assumes "images_good env f v" and "steady_page env" and "\<And>g. a \<noteq> DoFetcher g"
  shows "images_good env f (view_step env v a)"
proof (cases a)
  case (DoPaint width moved)
  have "images_good env f (view_submit width v)"
    using assms(1) by (simp add: images_good_def view_submit_def Let_def)
  from images_good_poll [OF this] images_good_poll [OF assms(1)] DoPaint show ?thesis
    by (simp add: view_paint_def)
next
  case (DoLoad html)
  with assms(1) show ?thesis by (simp add: images_good_def view_load_def)
next
  case DoWork
  with images_good_work [OF assms(1,2)] show ?thesis by simp
qed (use assms in simp)

fun keeps_fetcher :: "('w, 'b) view_action \<Rightarrow> bool" where
  "keeps_fetcher (DoFetcher _) = False"
| "keeps_fetcher _ = True"

lemma images_good_run:
  "list_all keeps_fetcher acts \<Longrightarrow> steady_page env \<Longrightarrow> images_good env f v \<Longrightarrow> images_good env f (view_run env acts v)"
  unfolding view_run_def
proof (induction acts arbitrary: v)
  case (Cons a acts)
  have "a \<noteq> DoFetcher g" for g using Cons.prems(1) by auto
  with images_good_step [OF Cons.prems(3,2)] have "images_good env f (view_step env v a)" by blast
  with Cons show ?case by simp
qed simp

text \<open>While the image fetcher stays the same, every frame the view shows has each image of its page
  that can be fetched or decoded, although the render thread asks for an address only once and gives up
  superseded renders in the middle; litehtml is assumed to ask for the same images whichever of them are
  already known.\<close>

theorem frames_have_their_images:
  assumes "steady_page env" and "list_all keeps_fetcher acts"
    and "hv_frame (view_run env acts ((html_view_new html)\<lparr>hv_fetcher := f\<rparr>)) = Some fr"
    and "url \<in> asked_urls env (fr_html fr) (fr_width fr)" and "image_source env f url = Some img"
  shows "fr_images fr url = Some img"
proof -
  have "images_good env f ((html_view_new html)\<lparr>hv_fetcher := f\<rparr>)"
    by (simp add: images_good_def phase_good_def html_view_new_def cache_good_def image_cache_new_def)
  from images_good_run [OF assms(2,1) this] assms(3-5) show ?thesis
    by (auto simp: images_good_def frame_complete_def)
qed

section \<open>A fetcher that changes under a render\<close>

text \<open>The render thread reads the fetcher after the pass, not when the page is loaded.  A page that was
  loaded with no fetcher, because its images are blocked, is still being rendered when the next page
  is loaded with one: its images are fetched.\<close>

definition racing_steps :: "(unit, str) view_action list" where
  "racing_steps =
     [DoPaint () False, DoWork, DoWork, DoFetcher (Some Some), DoLoad [2], DoWork, DoWork, DoPaint () False]"

lemma blocked_images_are_fetched:
  "hv_fetched (view_run demo_render racing_steps (html_view_new [1])) = [([1], [104, 49])]"
  by (simp add: racing_steps_def render_eval Let_def)

section \<open>No fetcher\<close>

definition fetches_nothing :: "('w, 'b, 'i) html_view \<Rightarrow> bool" where
  "fetches_nothing v \<longleftrightarrow>
     hv_fetcher v = None \<and> hv_fetched v = [] \<and> (case hv_phase v of Fetching _ _ f _ _ \<Rightarrow> f = None | _ \<Rightarrow> True)"

lemma receives_fetched [simp]:
  "hv_fetcher (foldl (view_receive env) v outs) = hv_fetcher v" "hv_fetched (foldl (view_receive env) v outs) = hv_fetched v"
  by (induction outs arbitrary: v) (simp_all add: view_receive_def Let_def split: worker_output.split)

lemma fetches_nothing_step:
  "fetches_nothing v \<Longrightarrow> keeps_fetcher a \<Longrightarrow> fetches_nothing (view_step env v a)"
proof (cases a)
  case DoWork
  assume v: "fetches_nothing v"
  show ?thesis
  proof (cases "hv_phase v")
    case (Passing job n)
    with v DoWork show ?thesis
      by (cases "draw_pass env (rj_html job) (rj_width job) (hv_cache v)")
         (auto simp: render_step_def worker_pass_def fetches_nothing_def take_pending_images_def emit_frame_def Let_def
           split: bool.split)
  next
    case (Fetching job n f pending loaded)
    with v DoWork show ?thesis
      by (cases pending) (auto simp: render_step_def fetches_nothing_def emit_frame_def worker_fetch_def Let_def
        split: option.split prod.split)
  qed (use v DoWork in \<open>simp_all add: render_step_def worker_take_def fetches_nothing_def split: option.split\<close>)
qed (simp_all add: fetches_nothing_def view_load_def view_paint_def view_poll_def view_submit_def Let_def)

text \<open>A view that was never given an image fetcher fetches nothing from the web, whatever pages it is
  given and however its threads interleave.\<close>

theorem no_fetcher_no_requests:
  assumes "list_all keeps_fetcher acts"
  shows "hv_fetched (view_run env acts (html_view_new html)) = []"
proof -
  have run: "fetches_nothing (view_run env acts v)" if "fetches_nothing v" for v
    using assms that unfolding view_run_def by (induction acts arbitrary: v) (simp_all add: fetches_nothing_step)
  have "fetches_nothing (html_view_new html)" by (simp add: fetches_nothing_def html_view_new_def)
  from run [OF this] show ?thesis by (simp add: fetches_nothing_def)
qed

text \<open>An image that was fetched once stays in the cache, so a page rendered after the fetcher was taken
  away, because the images are blocked again, still shows it.\<close>

lemma images_stay:
  fixes env :: "('w, 'b, 'i) render_env" and v :: "('w, 'b, 'i) html_view"
  assumes "ic_keys (hv_cache v) url = Some k" and "k < length (ic_data (hv_cache v))"
  shows "image_of (hv_cache (render_step env v)) url = image_of (hv_cache v) url"
proof -
  have data: "image_of (load_image_data d u b c) url = image_of c url" if "ic_keys c url = Some k" "k < length (ic_data c)"
    for c :: "'i image_cache" and d u and b :: 'b
    using that by (auto simp: load_image_data_def image_of_def nth_append split: option.split)
  have "image_of (fold load_image asked c) url = image_of c url" "image_of (c\<lparr>ic_pending := p\<rparr>) url = image_of c url"
    "image_of (clear_pending_images c) url = image_of c url" for asked p and c :: "'i image_cache"
    by (simp_all add: image_of_def clear_pending_images_def split: option.split)
  moreover have "image_of (hv_cache (worker_pass env job n v)) url = image_of (hv_cache v) url" for job n
    by (cases "re_page env (rj_html job) (rj_width job) (image_of (hv_cache v))")
       (simp_all add: worker_pass_def draw_pass_def take_pending_images_def Let_def calculation)
  moreover have "image_of (hv_cache (snd (worker_fetch env job f u v))) url = image_of (hv_cache v) url" for job f u
    using data [OF assms] by (simp add: worker_fetch_def Let_def case_prod_beta split: option.split)
  ultimately show ?thesis
    by (cases "hv_phase v")
       (auto simp: render_step_def worker_take_def case_prod_beta Let_def split: option.split list.split prod.split)
qed

theorem frames_have_their_images_witness:
  "\<exists>fr. hv_frame (view_run demo_render [DoPaint () False, DoWork, DoWork, DoWork, DoWork, DoWork, DoWork, DoPaint () False]
       ((html_view_new [1])\<lparr>hv_fetcher := Some Some\<rparr>)) = Some fr \<and> fr_images fr [104, 49] = Some [104, 49]"
proof -
  let ?acts = "[DoPaint () False, DoWork, DoWork, DoWork, DoWork, DoWork, DoWork, DoPaint () False] :: (unit, str) view_action list"
  let ?v = "view_run demo_render ?acts ((html_view_new [1])\<lparr>hv_fetcher := Some Some\<rparr>)"
  have f: "map_option (\<lambda>f. (fr_html f, fr_width f)) (hv_frame ?v) = Some ([1], ())"
    by (simp add: render_eval Let_def)
  then obtain fr where fr: "hv_frame ?v = Some fr" "fr_html fr = [1]" by auto
  have "steady_page demo_render" by (simp add: steady_page_def demo_render_def demo_page_def)
  moreover have "list_all keeps_fetcher ?acts" by simp
  moreover have "[104, 49] \<in> asked_urls demo_render (fr_html fr) (fr_width fr)"
    using fr(2) by (simp add: asked_urls_def demo_render_def demo_page_def)
  moreover have "image_source demo_render (Some Some) [104, 49] = Some [104, 49]"
    by (simp add: image_source_def demo_render_def)
  ultimately show ?thesis using frames_have_their_images [OF _ _ fr(1)] fr(1) by blast
qed

theorem no_fetcher_no_requests_witness:
  "hv_fetched (view_run demo_render [DoPaint () False, DoWork, DoWork, DoWork, DoWork] (html_view_new [1])) = []"
  by (rule no_fetcher_no_requests) simp

end
