(* ===== verification/TextSelection.thy ===== *)
theory TextSelection
  imports Prelude
begin

text \<open>
  Selecting and copying text of a rendered page, \<open>crates/litehtml-view-d2d/src/selection.rs\<close> over
  the run table of \<open>text_runs.rs\<close>.  Rectangles are 32-bit floats: the comparisons the code makes on
  them (same line, a visible gap, a paragraph's margin, the distance of a point) are arguments, and
  so is Unicode's alphanumeric property.  The highlight rectangles are not modelled.
\<close>

section \<open>Runs and carets\<close>

record 'r text_run =
  tr_rect :: 'r
  tr_text :: str
  tr_char_count :: nat
  tr_block :: 'r
  tr_breaks_before :: nat

datatype text_pos = Pos (tp_run: nat) (tp_ch: nat)

text \<open>Document order, the derived order of the fields in turn.\<close>

instantiation text_pos :: linorder
begin

definition less_eq_text_pos :: "text_pos \<Rightarrow> text_pos \<Rightarrow> bool" where
  "a \<le> b \<longleftrightarrow> tp_run a < tp_run b \<or> tp_run a = tp_run b \<and> tp_ch a \<le> tp_ch b"

definition less_text_pos :: "text_pos \<Rightarrow> text_pos \<Rightarrow> bool" where
  "a < b \<longleftrightarrow> tp_run a < tp_run b \<or> tp_run a = tp_run b \<and> tp_ch a < tp_ch b"

instance
  by standard (auto simp: less_eq_text_pos_def less_text_pos_def intro: text_pos.expand)

end

record text_selection =
  ts_anchor :: text_pos
  ts_head :: text_pos

record ('r, 'p, 'd) geometry =
  ge_same_line :: "'r \<Rightarrow> 'r \<Rightarrow> bool"
  ge_gap :: "'r \<Rightarrow> 'r \<Rightarrow> bool"
  ge_margin :: "'r \<Rightarrow> 'r \<Rightarrow> bool"
  ge_distance :: "'r \<Rightarrow> 'p \<Rightarrow> 'd"
  ge_less :: "'d \<Rightarrow> 'd \<Rightarrow> bool"
  ge_inside :: "'d \<Rightarrow> bool"
  ge_char_at :: "'r text_run \<Rightarrow> 'p \<Rightarrow> nat"

definition ordered :: "text_selection \<Rightarrow> text_pos \<times> text_pos" where
  "ordered s = (if ts_anchor s \<le> ts_head s then (ts_anchor s, ts_head s) else (ts_head s, ts_anchor s))"

definition selection_is_empty :: "text_selection \<Rightarrow> bool" where
  "selection_is_empty s \<longleftrightarrow> ts_anchor s = ts_head s"

definition caret :: "text_pos \<Rightarrow> text_selection" where
  "caret p = \<lparr>ts_anchor = p, ts_head = p\<rparr>"

definition is_blank :: "'r text_run \<Rightarrow> bool" where
  "is_blank r \<longleftrightarrow> trim (tr_text r) = []"

definition char_class :: "(uchar \<Rightarrow> bool) \<Rightarrow> uchar \<Rightarrow> nat" where
  "char_class alnum c = (if alnum c \<or> c = 95 then 0 else if is_whitespace c then 1 else 2)"

section \<open>Where a point and a click fall\<close>

fun nearest_from :: "('r, 'p, 'd) geometry \<Rightarrow> 'p \<Rightarrow> nat \<Rightarrow> 'r text_run list \<Rightarrow> (nat \<times> 'd) option \<Rightarrow> (nat \<times> 'd) option" where
  "nearest_from g p i [] best = best"
| "nearest_from g p i (r # rs) best =
     (if is_blank r then nearest_from g p (Suc i) rs best
      else
        let d = ge_distance g (tr_rect r) p;
            better = (case best of None \<Rightarrow> True | Some (_, b) \<Rightarrow> ge_less g d b)
        in if better
           then (if ge_inside g d then Some (i, d) else nearest_from g p (Suc i) rs (Some (i, d)))
           else nearest_from g p (Suc i) rs best)"

definition nearest_run :: "('r, 'p, 'd) geometry \<Rightarrow> 'p \<Rightarrow> 'r text_run list \<Rightarrow> nat option" where
  "nearest_run g p runs = map_option fst (nearest_from g p 0 runs None)"

definition pos_at :: "('r, 'p, 'd) geometry \<Rightarrow> 'p \<Rightarrow> 'r text_run list \<Rightarrow> text_pos option" where
  "pos_at g p runs = map_option (\<lambda>i. Pos i (ge_char_at g (runs ! i) p)) (nearest_run g p runs)"

text \<open>The two scans of the loops: back while the element before satisfies \<open>P\<close>, forward while the
  element does.\<close>

fun scan_back :: "('a \<Rightarrow> bool) \<Rightarrow> 'a list \<Rightarrow> nat \<Rightarrow> nat" where
  "scan_back P xs 0 = 0"
| "scan_back P xs (Suc i) = (if P (xs ! i) then scan_back P xs i else Suc i)"

function scan_forward :: "('a \<Rightarrow> bool) \<Rightarrow> 'a list \<Rightarrow> nat \<Rightarrow> nat" where
  "scan_forward P xs i = (if i < length xs \<and> P (xs ! i) then scan_forward P xs (Suc i) else i)"
  by auto
termination by (relation "measure (\<lambda>(P, xs, i). length xs - i)") auto

declare scan_forward.simps [simp del]

text \<open>\<open>None\<close> outside is the panic on a run without text; \<open>None\<close> inside is the code's.\<close>

definition word_at_pos :: "(uchar \<Rightarrow> bool) \<Rightarrow> 'r text_run list \<Rightarrow> text_pos \<Rightarrow> text_selection option option" where
  "word_at_pos alnum runs = (\<lambda>pos. case pos of Pos run ch \<Rightarrow>
     if run < length runs then
       let chars = tr_text (runs ! run); i = min ch (length chars - 1)
       in if chars = [] then None
          else
            let class = char_class alnum (chars ! i);
                start = scan_back (\<lambda>c. char_class alnum c = class) chars i;
                stop = scan_forward (\<lambda>c. char_class alnum c = class) chars (i + 1)
            in Some (Some \<lparr>ts_anchor = Pos run start, ts_head = Pos run stop\<rparr>)
     else Some None)"

definition block_at_pos :: "'r text_run list \<Rightarrow> text_pos \<Rightarrow> text_selection option" where
  "block_at_pos runs = (\<lambda>pos. case pos of Pos run ch \<Rightarrow>
     if run < length runs then
       let block = tr_block (runs ! run);
           first = scan_back (\<lambda>r. tr_block r = block) runs run;
           last_run = scan_forward (\<lambda>r. tr_block r = block) runs (run + 1) - 1
       in Some \<lparr>ts_anchor = Pos first 0, ts_head = Pos last_run (tr_char_count (runs ! last_run))\<rparr>
     else None)"

definition select_all_text :: "'r text_run list \<Rightarrow> text_selection option" where
  "select_all_text runs =
     (case (position (\<lambda>r. \<not> is_blank r) runs, position (\<lambda>r. \<not> is_blank r) (rev runs)) of
        (Some first, Some k) \<Rightarrow>
          let last_run = length runs - 1 - k
          in Some \<lparr>ts_anchor = Pos first 0, ts_head = Pos last_run (tr_char_count (runs ! last_run))\<rparr>
      | _ \<Rightarrow> None)"

section \<open>Copying\<close>

definition separator :: "('r, 'p, 'd) geometry \<Rightarrow> 'r text_run \<Rightarrow> 'r text_run \<Rightarrow> bool \<Rightarrow> str" where
  "separator g prev next saw_space =
     (if ge_same_line g (tr_rect prev) (tr_rect next) then
        (if saw_space \<or> ge_gap g (tr_rect prev) (tr_rect next) then [32] else [])
      else if tr_block next \<noteq> tr_block prev then
        (if ge_margin g (tr_rect prev) (tr_rect next) \<or> tr_breaks_before next \<ge> 2 then [10, 10] else [10])
      else if tr_breaks_before next = 0 then [32]
      else if tr_breaks_before next = 1 then [10]
      else [10, 10])"

definition piece_of :: "'r text_run list \<Rightarrow> text_pos \<Rightarrow> text_pos \<Rightarrow> nat \<Rightarrow> str" where
  "piece_of runs start stop i =
     (let run = runs ! i;
          a = (if i = tp_run start then tp_ch start else 0);
          b = (if i = tp_run stop then tp_ch stop else tr_char_count run)
      in if a \<ge> b then [] else take (b - a) (drop a (tr_text run)))"

text \<open>A run the selection covers nothing of is skipped before its text is looked at; a piece that is
  empty for another reason counts as a space.\<close>

definition copy_step ::
  "('r, 'p, 'd) geometry \<Rightarrow> 'r text_run list \<Rightarrow> text_pos \<Rightarrow> text_pos \<Rightarrow>
   str \<times> 'r text_run option \<times> bool \<Rightarrow> nat \<Rightarrow> str \<times> 'r text_run option \<times> bool" where
  "copy_step g runs start stop = (\<lambda>(out, prev, saw_space) i.
     let run = runs ! i;
         a = (if i = tp_run start then tp_ch start else 0);
         b = (if i = tp_run stop then tp_ch stop else tr_char_count run);
         piece = piece_of runs start stop i
     in if a \<ge> b then (out, prev, saw_space)
        else if trim piece = [] then (out, prev, True)
        else (out @ (case prev of Some p \<Rightarrow> separator g p run saw_space | None \<Rightarrow> []) @ trim piece,
              Some run, ends_with [32] piece))"

definition copied_runs :: "'r text_run list \<Rightarrow> text_pos \<Rightarrow> text_pos \<Rightarrow> nat list" where
  "copied_runs runs start stop =
     (if runs = [] then [] else [tp_run start..<Suc (min (tp_run stop) (length runs - 1))])"

definition selection_text :: "('r, 'p, 'd) geometry \<Rightarrow> 'r text_run list \<Rightarrow> text_selection \<Rightarrow> str" where
  "selection_text g runs s =
     (let (start, stop) = ordered s
      in fst (foldl (copy_step g runs start stop) ([], None, False) (copied_runs runs start stop)))"

section \<open>A copy loses nothing but white space\<close>

abbreviation ink :: "str \<Rightarrow> str" where
  "ink s \<equiv> filter (\<lambda>c. \<not> is_whitespace c) s"

lemma ink_dropWhile: "ink (dropWhile is_whitespace s) = ink s"
  by (induction s) simp_all

lemma ink_trim [simp]: "ink (trim s) = ink s"
proof -
  have "ink (rev (dropWhile is_whitespace (rev t))) = ink t" for t
    using ink_dropWhile [of "rev t"] by (simp add: rev_filter [symmetric])
  then show ?thesis by (simp add: trim_def trim_matches_def trim_end_def trim_start_def ink_dropWhile)
qed

lemma trim_Nil_ink: "trim s = [] \<Longrightarrow> ink s = []"
  using ink_trim [of s] by simp

lemma ink_separator [simp]: "ink (separator g p n b) = []"
  by (simp add: separator_def is_whitespace_def)

lemma ink_copy_step:
  "ink (fst (copy_step g runs start stop st i)) = ink (fst st) @ ink (piece_of runs start stop i)"
  by (cases st) (auto simp: copy_step_def Let_def piece_of_def trim_Nil_ink split: option.split dest: trim_Nil_ink)

lemma ink_copy:
  "ink (fst (foldl (copy_step g runs start stop) st is)) = ink (fst st) @ concat (map (\<lambda>i. ink (piece_of runs start stop i)) is)"
  by (induction "is" arbitrary: st) (simp_all add: ink_copy_step)

text \<open>Copying loses and adds nothing but white space: the characters of the copied text that are not
  white space are those of the selected part of each run, in document order; and selecting backwards
  copies the same text.\<close>

theorem copy_keeps_every_character:
  "ink (selection_text g runs s) =
     concat (map (\<lambda>i. ink (piece_of runs (fst (ordered s)) (snd (ordered s)) i))
       (copied_runs runs (fst (ordered s)) (snd (ordered s)))) \<and>
   selection_text g runs \<lparr>ts_anchor = ts_head s, ts_head = ts_anchor s\<rparr> = selection_text g runs s"
proof -
  have "ordered \<lparr>ts_anchor = ts_head s, ts_head = ts_anchor s\<rparr> = ordered s"
    by (auto simp: ordered_def)
  then show ?thesis by (simp add: selection_text_def ink_copy case_prod_beta)
qed

section \<open>Words and blocks\<close>

lemma scan_back_spec:
  "scan_back P xs i \<le> i \<and> (\<forall>k. scan_back P xs i \<le> k \<and> k < i \<longrightarrow> P (xs ! k)) \<and>
   (scan_back P xs i = 0 \<or> \<not> P (xs ! (scan_back P xs i - 1)))"
  by (induction P xs i rule: scan_back.induct) (auto simp: less_Suc_eq)

lemma scan_forward_eq:
  "i < length xs \<Longrightarrow> P (xs ! i) \<Longrightarrow> scan_forward P xs i = scan_forward P xs (Suc i)"
  "\<not> (i < length xs \<and> P (xs ! i)) \<Longrightarrow> scan_forward P xs i = i"
  by (subst scan_forward.simps, simp)+

lemma scan_forward_spec:
  assumes "i \<le> length xs"
  shows "i \<le> scan_forward P xs i" and "scan_forward P xs i \<le> length xs"
    and "\<And>k. i \<le> k \<Longrightarrow> k < scan_forward P xs i \<Longrightarrow> P (xs ! k)"
    and "scan_forward P xs i = length xs \<or> \<not> P (xs ! scan_forward P xs i)"
proof -
  have "i \<le> scan_forward P xs i \<and> scan_forward P xs i \<le> length xs \<and>
      (\<forall>k. i \<le> k \<and> k < scan_forward P xs i \<longrightarrow> P (xs ! k)) \<and>
      (scan_forward P xs i = length xs \<or> \<not> P (xs ! scan_forward P xs i))"
    using assms
  proof (induction P xs i rule: scan_forward.induct)
    case (1 P xs i)
    show ?case
    proof (cases "i < length xs \<and> P (xs ! i)")
      case True
      then have "Suc i \<le> length xs" by simp
      note IH = 1(1) [OF True this]
      have "P (xs ! k)" if "i \<le> k" "k < scan_forward P xs (Suc i)" for k
        using IH True that by (metis Suc_leI le_neq_implies_less)
      with IH show ?thesis using scan_forward_eq(1) [of i xs P] True by (metis Suc_leD)
    next
      case False
      with 1(2) show ?thesis by (auto simp: scan_forward_eq(2))
    qed
  qed
  then show "i \<le> scan_forward P xs i" "scan_forward P xs i \<le> length xs"
    "\<And>k. i \<le> k \<Longrightarrow> k < scan_forward P xs i \<Longrightarrow> P (xs ! k)"
    "scan_forward P xs i = length xs \<or> \<not> P (xs ! scan_forward P xs i)" by blast+
qed

text \<open>Both scans from an element give the longest stretch around it.\<close>

lemma stretch_spec:
  assumes "i < length xs" and "P (xs ! i)"
  shows "scan_back P xs i \<le> i" and "i < scan_forward P xs (Suc i)" and "scan_forward P xs (Suc i) \<le> length xs"
    and "\<forall>k. scan_back P xs i \<le> k \<and> k < scan_forward P xs (Suc i) \<longrightarrow> P (xs ! k)"
    and "scan_back P xs i = 0 \<or> \<not> P (xs ! (scan_back P xs i - 1))"
    and "scan_forward P xs (Suc i) = length xs \<or> \<not> P (xs ! scan_forward P xs (Suc i))"
proof -
  have i: "Suc i \<le> length xs" using assms(1) by simp
  note fw = scan_forward_spec [where P = P, OF i]
  show "scan_back P xs i \<le> i" "scan_back P xs i = 0 \<or> \<not> P (xs ! (scan_back P xs i - 1))"
    using scan_back_spec [of P xs i] by blast+
  show "i < scan_forward P xs (Suc i)" "scan_forward P xs (Suc i) \<le> length xs"
    "scan_forward P xs (Suc i) = length xs \<or> \<not> P (xs ! scan_forward P xs (Suc i))"
    using fw(1,2,4) by simp_all
  show "\<forall>k. scan_back P xs i \<le> k \<and> k < scan_forward P xs (Suc i) \<longrightarrow> P (xs ! k)"
  proof (intro allI impI)
    fix k
    assume k: "scan_back P xs i \<le> k \<and> k < scan_forward P xs (Suc i)"
    show "P (xs ! k)"
    proof (cases k i rule: linorder_cases)
      case less
      with k scan_back_spec [of P xs i] show ?thesis by blast
    next
      case greater
      with k fw(3) [of k] show ?thesis by simp
    qed (use assms(2) in simp)
  qed
qed

text \<open>A double-click selects the longest stretch around the clicked character whose characters are of
  one class, letters and digits, white space or punctuation; a click behind the last character counts
  for the last one.\<close>

theorem double_click_selects_the_word:
  assumes "run < length runs" and "tr_text (runs ! run) \<noteq> []"
    and "i = min ch (length (tr_text (runs ! run)) - 1)"
  shows "\<exists>start stop. word_at_pos alnum runs (Pos run ch) = Some (Some \<lparr>ts_anchor = Pos run start, ts_head = Pos run stop\<rparr>) \<and>
    start \<le> i \<and> i < stop \<and> stop \<le> length (tr_text (runs ! run)) \<and>
    (\<forall>k. start \<le> k \<and> k < stop \<longrightarrow>
       char_class alnum (tr_text (runs ! run) ! k) = char_class alnum (tr_text (runs ! run) ! i)) \<and>
    (start = 0 \<or> char_class alnum (tr_text (runs ! run) ! (start - 1)) \<noteq> char_class alnum (tr_text (runs ! run) ! i)) \<and>
    (stop = length (tr_text (runs ! run)) \<or>
     char_class alnum (tr_text (runs ! run) ! stop) \<noteq> char_class alnum (tr_text (runs ! run) ! i))"
proof -
  let ?cs = "tr_text (runs ! run)"
  let ?P = "\<lambda>c. char_class alnum c = char_class alnum (?cs ! i)"
  have i: "i < length ?cs" using assms(2,3) by (cases ?cs) auto
  note st = stretch_spec [of i ?cs ?P, OF i refl]
  have "word_at_pos alnum runs (Pos run ch) =
      Some (Some \<lparr>ts_anchor = Pos run (scan_back ?P ?cs i), ts_head = Pos run (scan_forward ?P ?cs (Suc i))\<rparr>)"
    using assms by (simp add: word_at_pos_def Let_def)
  with st show ?thesis by blast
qed

definition demo_run :: "str \<Rightarrow> nat text_run" where
  "demo_run t = \<lparr>tr_rect = 0, tr_text = t, tr_char_count = length t, tr_block = 0, tr_breaks_before = 0\<rparr>"

theorem double_click_selects_the_word_witness:
  "\<exists>start stop. word_at_pos (\<lambda>c. c \<noteq> 44) [demo_run [97, 98, 44]] (Pos 0 9) =
     Some (Some \<lparr>ts_anchor = Pos 0 start, ts_head = Pos 0 stop\<rparr>) \<and> start \<le> 2 \<and> 2 < stop"
  using double_click_selects_the_word [of 0 "[demo_run [97, 98, 44]]" 2 9 "\<lambda>c. c \<noteq> 44"]
  by (auto simp: demo_run_def)

text \<open>The block of a run: the longest stretch of runs of the same block around it.\<close>

lemma triple_click_selects_the_block:
  assumes "run < length runs"
  shows "\<exists>first final. block_at_pos runs (Pos run ch) = Some \<lparr>ts_anchor = Pos first 0, ts_head = Pos final (tr_char_count (runs ! final))\<rparr> \<and>
    first \<le> run \<and> run \<le> final \<and> final < length runs \<and>
    (\<forall>k. first \<le> k \<and> k \<le> final \<longrightarrow> tr_block (runs ! k) = tr_block (runs ! run)) \<and>
    (first = 0 \<or> tr_block (runs ! (first - 1)) \<noteq> tr_block (runs ! run)) \<and>
    (Suc final = length runs \<or> tr_block (runs ! Suc final) \<noteq> tr_block (runs ! run))"
proof -
  let ?P = "\<lambda>r. tr_block r = tr_block (runs ! run)"
  let ?e = "scan_forward ?P runs (Suc run)"
  note st = stretch_spec [of run runs ?P, OF assms refl]
  have "block_at_pos runs (Pos run ch) =
      Some \<lparr>ts_anchor = Pos (scan_back ?P runs run) 0, ts_head = Pos (?e - 1) (tr_char_count (runs ! (?e - 1)))\<rparr>"
    using assms by (simp add: block_at_pos_def Let_def)
  moreover have "run \<le> ?e - 1" "?e - 1 < length runs" and e: "Suc (?e - 1) = ?e" using st(2,3) by simp_all
  moreover have "\<forall>k. scan_back ?P runs run \<le> k \<and> k \<le> ?e - 1 \<longrightarrow> ?P (runs ! k)"
  proof (intro allI impI)
    fix k
    assume "scan_back ?P runs run \<le> k \<and> k \<le> ?e - 1"
    with st(2) have "scan_back ?P runs run \<le> k \<and> k < ?e" by linarith
    with st(4) show "?P (runs ! k)" by blast
  qed
  moreover have "Suc (?e - 1) = length runs \<or> tr_block (runs ! Suc (?e - 1)) \<noteq> tr_block (runs ! run)"
    unfolding e by (rule st(6))
  ultimately show ?thesis using st(1,5) by blast
qed

text \<open>The run a point snaps to is one that is not blank, and none before it that is not blank is nearer.\<close>

lemma nearest_from_spec:
  assumes "nearest_from g p i rs best = Some (j, d)"
  shows "best = Some (j, d) \<or> i \<le> j \<and> j < i + length rs \<and> \<not> is_blank (rs ! (j - i)) \<and> d = ge_distance g (tr_rect (rs ! (j - i))) p"
  using assms
proof (induction g p i rs best rule: nearest_from.induct)
  case (2 g p i r rs best)
  then show ?case
    by (fastforce simp: Let_def nth_Cons' split: if_splits option.splits)
qed simp

end
