(* ===== verification/Css.thy ===== *)
theory Css
  imports Reading
begin

text \<open>
  The filter for the style sheets of a message, from \<open>crates/esmail/src/css.rs\<close>.

  The tokenizer is the crate \<open>cssparser\<close>, an argument: \<open>cl_rules\<close> gives the rules
  \<open>StyleSheetParser\<close> finds in a text, \<open>cl_items\<close> what \<open>RuleBodyParser\<close> finds in the text of a
  block, \<open>cl_important\<close> is \<open>parse_important\<close> (the tokens left after it) and \<open>cl_blank\<close> tells
  white space and comments.  The callbacks the filter implements for the parser are the
  definitions below.  What the filter emits is compared with a syntax tree of its own: the
  text is the tree printed, and the tree holds allowlisted properties and safe text only.
\<close>

section \<open>What the parser finds\<close>

datatype css_token = Bang | Token str

fun token_text :: "css_token \<Rightarrow> str" where
  "token_text Bang = lit ''!''"
| "token_text (Token t) = t"

datatype css_rule =
    At_rule str str "str option"
  | Qualified_rule str str

datatype css_item =
    Declaration str "css_token list"
  | At_item str str "str option"

record css_lib =
  cl_rules :: "str \<Rightarrow> css_rule list"
  cl_items :: "str \<Rightarrow> css_item list"
  cl_important :: "css_token list \<Rightarrow> css_token list option"
  cl_blank :: "css_token \<Rightarrow> bool"

section \<open>The filter\<close>

datatype css_context = Top | Media | Declarations

definition is_safe_text :: "str \<Rightarrow> bool" where
  "is_safe_text t \<longleftrightarrow> t \<noteq> [] \<and> \<not> list_ex (\<lambda>c. c \<in> set (lit ''<{}'')) t"

definition consume_text :: "str \<Rightarrow> str" where
  "consume_text source = trim source"

definition parse_value :: "css_lib \<Rightarrow> str list \<Rightarrow> str \<Rightarrow> css_token list \<Rightarrow> (str \<times> css_token list) option" where
  "parse_value lib allowed name tokens =
     (let name = to_ascii_lowercase name in
      if name \<notin> set allowed then None
      else
        (let value = trim (concat (map token_text (takeWhile (\<lambda>t. t \<noteq> Bang) tokens)));
             rest = dropWhile (\<lambda>t. t \<noteq> Bang) tokens;
             (important, rest) = (case cl_important lib rest of Some r \<Rightarrow> (True, r) | None \<Rightarrow> (False, rest));
             lower = to_ascii_lowercase value
         in if \<not> is_safe_text value \<or> contains (lit ''expression('') lower \<or> contains (lit ''javascript:'') lower
            then None
            else Some (name @ lit '':'' @ value @ (if important then lit '' !important'' else []) @ lit '';'', rest)))"

definition at_prelude :: "css_context \<Rightarrow> str \<Rightarrow> str \<Rightarrow> str option" where
  "at_prelude ctx name source =
     (if ctx \<noteq> Top \<or> \<not> eq_ignore_ascii_case name (lit ''media'') then None
      else (let query = consume_text source in if is_safe_text query then Some query else None))"

definition qualified_prelude :: "str \<Rightarrow> str option" where
  "qualified_prelude source =
     (let selectors = consume_text source in if is_safe_text selectors then Some selectors else None)"

text \<open>An item of a declaration block.  The parser refuses a declaration when something other
  than white space is left after its value; the at-rules of a block are refused by
  \<open>at_prelude\<close>.\<close>

fun filter_item :: "css_lib \<Rightarrow> str list \<Rightarrow> css_item \<Rightarrow> str option" where
  "filter_item lib allowed (Declaration name tokens) =
     (case parse_value lib allowed name tokens of
        Some (emitted, rest) \<Rightarrow> if list_all (cl_blank lib) rest then Some emitted else None
      | None \<Rightarrow> None)"
| "filter_item lib allowed (At_item name source block) = at_prelude Declarations name source"

definition qualified_block :: "css_lib \<Rightarrow> str list \<Rightarrow> str \<Rightarrow> str \<Rightarrow> str option" where
  "qualified_block lib allowed selectors block =
     (let declarations = concat (filter_map (filter_item lib allowed) (cl_items lib block))
      in if declarations = [] then None
         else Some (selectors @ lit '' { '' @ declarations @ lit '' }'' @ [10]))"

text \<open>A rule of a sheet.  A nested sheet is parsed in the context \<open>Media\<close>, where every at-rule
  is refused; an at-rule without a block is always refused.\<close>

function filter_rule :: "css_lib \<Rightarrow> str list \<Rightarrow> css_context \<Rightarrow> css_rule \<Rightarrow> str option" where
  "filter_rule lib allowed ctx (Qualified_rule source block) =
     (case qualified_prelude source of None \<Rightarrow> None
      | Some selectors \<Rightarrow> qualified_block lib allowed selectors block)"
| "filter_rule lib allowed ctx (At_rule name source block) =
     (case at_prelude ctx name source of None \<Rightarrow> None
      | Some query \<Rightarrow> (case block of None \<Rightarrow> None
          | Some b \<Rightarrow>
              (let rules = concat (filter_map (\<lambda>r. filter_rule lib allowed Media r) (cl_rules lib b))
               in if rules = [] then None
                  else Some (lit ''@media '' @ query @ lit '' {'' @ [10] @ rules @ lit ''}''))))"
  by pat_completeness auto
termination
  by (relation "measure (\<lambda>(_, _, ctx, _). if ctx = Top then 1 else 0)")
    (auto simp: at_prelude_def split: if_splits)

definition filter_stylesheet :: "css_lib \<Rightarrow> str \<Rightarrow> str list \<Rightarrow> str" where
  "filter_stylesheet lib css allowed =
     concat (map (\<lambda>rule. rule @ [10]) (filter_map (filter_rule lib allowed Top) (cl_rules lib css)))"

text \<open>The allowlist, from \<open>render.rs\<close>.\<close>

definition allowed_style_properties :: "str list" where
  "allowed_style_properties = map lit
     [''color'', ''background'', ''background-color'', ''background-image'', ''background-position'',
      ''background-repeat'', ''background-size'', ''opacity'',
      ''margin'', ''margin-top'', ''margin-right'', ''margin-bottom'', ''margin-left'',
      ''padding'', ''padding-top'', ''padding-right'', ''padding-bottom'', ''padding-left'',
      ''border'', ''border-top'', ''border-right'', ''border-bottom'', ''border-left'',
      ''border-width'', ''border-style'', ''border-color'', ''border-radius'',
      ''border-top-left-radius'', ''border-top-right-radius'', ''border-bottom-left-radius'',
      ''border-bottom-right-radius'', ''border-top-width'', ''border-right-width'',
      ''border-bottom-width'', ''border-left-width'', ''border-top-style'', ''border-right-style'',
      ''border-bottom-style'', ''border-left-style'', ''border-top-color'', ''border-right-color'',
      ''border-bottom-color'', ''border-left-color'', ''border-collapse'', ''border-spacing'',
      ''width'', ''height'', ''max-width'', ''max-height'', ''min-width'', ''min-height'',
      ''box-shadow'', ''box-sizing'',
      ''font'', ''font-family'', ''font-size'', ''font-weight'', ''font-style'', ''font-variant'',
      ''line-height'', ''letter-spacing'', ''text-align'', ''text-decoration'', ''text-transform'',
      ''text-indent'', ''text-shadow'', ''white-space'', ''word-break'', ''word-wrap'',
      ''overflow-wrap'', ''word-spacing'',
      ''display'', ''visibility'', ''vertical-align'', ''float'', ''clear'', ''overflow'', ''table-layout'',
      ''list-style'', ''list-style-type'', ''list-style-image'', ''list-style-position'', ''cursor'']"

section \<open>The sheet that is left\<close>

text \<open>What a filtered sheet may hold, as a syntax tree, and how it is written.\<close>

datatype kept_declaration = Kept (kd_name: str) (kd_value: str) (kd_important: bool)

datatype kept_rule =
    Style str "kept_declaration list"
  | Media_query str "(str \<times> kept_declaration list) list"

fun print_declaration :: "kept_declaration \<Rightarrow> str" where
  "print_declaration (Kept n v i) = n @ lit '':'' @ v @ (if i then lit '' !important'' else []) @ lit '';''"

definition print_style :: "str \<times> kept_declaration list \<Rightarrow> str" where
  "print_style = (\<lambda>(s, ds). s @ lit '' { '' @ concat (map print_declaration ds) @ lit '' }'' @ [10])"

fun print_rule :: "kept_rule \<Rightarrow> str" where
  "print_rule (Style s ds) = print_style (s, ds)"
| "print_rule (Media_query q rs) = lit ''@media '' @ q @ lit '' {'' @ [10] @ concat (map print_style rs) @ lit ''}''"

definition print_sheet :: "kept_rule list \<Rightarrow> str" where
  "print_sheet rs = concat (map (\<lambda>r. print_rule r @ [10]) rs)"

definition declaration_ok :: "str list \<Rightarrow> kept_declaration \<Rightarrow> bool" where
  "declaration_ok allowed d \<longleftrightarrow> kd_name d \<in> set allowed \<and> is_safe_text (kd_value d) \<and>
     \<not> contains (lit ''expression('') (to_ascii_lowercase (kd_value d)) \<and>
     \<not> contains (lit ''javascript:'') (to_ascii_lowercase (kd_value d))"

definition style_ok :: "str list \<Rightarrow> str \<times> kept_declaration list \<Rightarrow> bool" where
  "style_ok allowed = (\<lambda>(s, ds). is_safe_text s \<and> ds \<noteq> [] \<and> list_all (declaration_ok allowed) ds)"

fun rule_ok :: "str list \<Rightarrow> kept_rule \<Rightarrow> bool" where
  "rule_ok allowed (Style s ds) = style_ok allowed (s, ds)"
| "rule_ok allowed (Media_query q rs) = (is_safe_text q \<and> rs \<noteq> [] \<and> list_all (style_ok allowed) rs)"

text \<open>The tree of a sheet: the rules the parser finds, cut down to what is allowed.\<close>

fun kept_item :: "css_lib \<Rightarrow> str list \<Rightarrow> css_item \<Rightarrow> kept_declaration option" where
  "kept_item lib allowed (Declaration name tokens) =
     (let (before, after) = (takeWhile (\<lambda>t. t \<noteq> Bang) tokens, dropWhile (\<lambda>t. t \<noteq> Bang) tokens);
          rest = (case cl_important lib after of Some r \<Rightarrow> r | None \<Rightarrow> after);
          d = Kept (to_ascii_lowercase name) (trim (concat (map token_text before))) (cl_important lib after \<noteq> None)
      in if declaration_ok allowed d \<and> list_all (cl_blank lib) rest then Some d else None)"
| "kept_item lib allowed (At_item name source block) = None"

definition kept_style :: "css_lib \<Rightarrow> str list \<Rightarrow> str \<Rightarrow> str \<Rightarrow> (str \<times> kept_declaration list) option" where
  "kept_style lib allowed source block =
     (let style = (trim source, filter_map (kept_item lib allowed) (cl_items lib block))
      in if style_ok allowed style then Some style else None)"

fun kept_nested :: "css_lib \<Rightarrow> str list \<Rightarrow> css_rule \<Rightarrow> (str \<times> kept_declaration list) option" where
  "kept_nested lib allowed (Qualified_rule source block) = kept_style lib allowed source block"
| "kept_nested lib allowed (At_rule name source block) = None"

fun kept_top :: "css_lib \<Rightarrow> str list \<Rightarrow> css_rule \<Rightarrow> kept_rule option" where
  "kept_top lib allowed (Qualified_rule source block) =
     map_option (\<lambda>(s, ds). Style s ds) (kept_style lib allowed source block)"
| "kept_top lib allowed (At_rule name source None) = None"
| "kept_top lib allowed (At_rule name source (Some block)) =
     (let r = Media_query (trim source) (filter_map (kept_nested lib allowed) (cl_rules lib block))
      in if eq_ignore_ascii_case name (lit ''media'') \<and> rule_ok allowed r then Some r else None)"

definition kept_sheet :: "css_lib \<Rightarrow> str list \<Rightarrow> str \<Rightarrow> kept_rule list" where
  "kept_sheet lib allowed css = filter_map (kept_top lib allowed) (cl_rules lib css)"

section \<open>The filter prints the tree\<close>

lemma filter_map_map_option:
  "(\<And>x. f x = map_option g (h x)) \<Longrightarrow> filter_map f xs = map g (filter_map h xs)"
  by (induction xs) (auto split: option.splits)

lemma list_all_filter_map: "(\<And>x y. f x = Some y \<Longrightarrow> P y) \<Longrightarrow> list_all P (filter_map f xs)"
  by (induction xs) (auto split: option.splits)

lemma concat_map_Nil: "(\<And>x. x \<in> set xs \<Longrightarrow> f x \<noteq> []) \<Longrightarrow> concat (map f xs) = [] \<longleftrightarrow> xs = []"
  by (cases xs) auto

lemma print_not_Nil [simp]: "print_declaration d \<noteq> []" "print_style r \<noteq> []"
  by (cases d; simp) (cases r; simp add: print_style_def)

lemma filter_item_prints: "filter_item lib allowed i = map_option print_declaration (kept_item lib allowed i)"
  by (cases i)
    (auto simp: parse_value_def declaration_ok_def at_prelude_def Let_def split: option.splits)

lemma kept_item_ok: "kept_item lib allowed i = Some d \<Longrightarrow> declaration_ok allowed d"
  by (cases i) (auto simp: Let_def split: if_splits)

lemma kept_style_prints:
  "(case qualified_prelude source of None \<Rightarrow> None
    | Some selectors \<Rightarrow> qualified_block lib allowed selectors block) =
   map_option print_style (kept_style lib allowed source block)"
  using list_all_filter_map [of "kept_item lib allowed" "declaration_ok allowed" "cl_items lib block", OF kept_item_ok]
  by (simp add: qualified_prelude_def consume_text_def qualified_block_def kept_style_def style_ok_def print_style_def
      Let_def filter_map_map_option [OF filter_item_prints] concat_map_Nil del: concat_eq_Nil_conv)

lemma kept_style_ok: "kept_style lib allowed source block = Some r \<Longrightarrow> style_ok allowed r"
  by (simp add: kept_style_def Let_def split: if_splits)

lemma filter_nested_prints: "filter_rule lib allowed Media r = map_option print_style (kept_nested lib allowed r)"
  by (cases r) (simp_all add: kept_style_prints at_prelude_def)

lemma kept_nested_ok: "kept_nested lib allowed r = Some s \<Longrightarrow> style_ok allowed s"
  by (cases r) (auto intro: kept_style_ok)

lemma filter_top_prints: "filter_rule lib allowed Top r = map_option print_rule (kept_top lib allowed r)"
proof (cases r)
  case (At_rule name source block)
  show ?thesis
  proof (cases block)
    case (Some b)
    show ?thesis
      using list_all_filter_map [of "kept_nested lib allowed" "style_ok allowed" "cl_rules lib b", OF kept_nested_ok]
      by (simp add: At_rule Some at_prelude_def consume_text_def Let_def concat_map_Nil
          filter_map_map_option [OF filter_nested_prints] del: concat_eq_Nil_conv)
  qed (simp add: At_rule at_prelude_def split: option.splits)
qed (simp add: kept_style_prints option.map_comp comp_def case_prod_beta del: option.map_comp, 
     simp add: option.map_comp comp_def case_prod_beta)

lemma kept_top_ok: "kept_top lib allowed r = Some k \<Longrightarrow> rule_ok allowed k"
  by (cases "(lib, allowed, r)" rule: kept_top.cases)
    (auto simp: Let_def dest: kept_style_ok split: if_splits)

text \<open>C14. What the style sheet filter emits is a sheet of style rules and media rules whose
  declarations all have an allowlisted property and a harmless value: the text is the printed
  tree of the allowed part of the sheet, whatever the message's sheet is and however the
  parser reads it.\<close>

theorem emitted_sheet_ok:
  "filter_stylesheet lib css allowed = print_sheet (kept_sheet lib allowed css) \<and>
   list_all (rule_ok allowed) (kept_sheet lib allowed css)"
  by (simp add: filter_stylesheet_def print_sheet_def kept_sheet_def filter_map_map_option [OF filter_top_prints]
      comp_def list_all_filter_map [of "kept_top lib allowed", OF kept_top_ok])

section \<open>The sheet stays in its element\<close>

text \<open>The depth of braces behind a text, or None when one closes that was never opened.\<close>

fun depth_step :: "nat option \<Rightarrow> uchar \<Rightarrow> nat option" where
  "depth_step None c = None"
| "depth_step (Some n) c =
     (if c = 123 then Some (n + 1) else if c = 125 then (if n = 0 then None else Some (n - 1)) else Some n)"

definition depth_after :: "nat \<Rightarrow> str \<Rightarrow> nat option" where
  "depth_after n s = foldl depth_step (Some n) s"

definition balanced :: "str \<Rightarrow> bool" where
  "balanced s \<longleftrightarrow> depth_after 0 s = Some 0"

text \<open>A text that takes every depth back to itself, and holds no start of a tag.\<close>

definition tame :: "str \<Rightarrow> bool" where
  "tame s \<longleftrightarrow> 60 \<notin> set s \<and> (\<forall>n. depth_after n s = Some n)"

lemma depth_after_append: "depth_after n (s @ t) = (case depth_after n s of None \<Rightarrow> None | Some m \<Rightarrow> depth_after m t)"
proof -
  have "foldl depth_step None t = None" by (induction t) auto
  then show ?thesis by (simp add: depth_after_def split: option.splits)
qed

lemma tame_append [intro, simp]: "tame s \<Longrightarrow> tame t \<Longrightarrow> tame (s @ t)"
  by (simp add: tame_def depth_after_append)

lemma tame_Nil [simp]: "tame []"
  by (simp add: tame_def depth_after_def)

lemma tame_concat: "list_all tame xs \<Longrightarrow> tame (concat xs)"
  by (induction xs) auto

lemma tame_plain: "list_all (\<lambda>c. c \<notin> {60, 123, 125}) s \<Longrightarrow> tame s"
  by (induction s) (auto simp: tame_def depth_after_def)

lemma tame_braces: "tame s \<Longrightarrow> tame (123 # s @ [125])"
  using depth_after_append [of _ s "[125]"] by (simp add: tame_def depth_after_def)

lemma tame_safe: "is_safe_text s \<Longrightarrow> tame s"
  by (rule tame_plain) (auto simp: is_safe_text_def lit_def list_all_iff list_ex_iff)

lemma tame_declaration:
  assumes allowed: "list_all tame allowed" and d: "declaration_ok allowed d"
  shows "tame (print_declaration d)"
proof -
  have "tame (kd_name d)" "tame (kd_value d)"
    using allowed d by (auto simp: declaration_ok_def list_all_iff tame_safe)
  moreover have "tame (lit '':'')" "tame (lit '' !important'')" "tame (lit '';'')"
    by (rule tame_plain, simp add: lit_def)+
  ultimately show ?thesis by (cases d) simp
qed

lemma tame_style:
  assumes allowed: "list_all tame allowed" and r: "style_ok allowed r"
  shows "tame (print_style r)"
proof (cases r)
  case (Pair s ds)
  have s: "tame s" and ds: "tame (concat (map print_declaration ds))"
    using r tame_declaration [OF allowed]
    by (auto simp: Pair style_ok_def list_all_iff intro!: tame_safe tame_concat)
  have blank: "tame [32]" "tame [10]" by (rule tame_plain, simp)+
  have "print_style r = (s @ [32]) @ (123 # ([32] @ concat (map print_declaration ds) @ [32]) @ [125]) @ [10]"
    by (simp add: Pair print_style_def lit_def)
  moreover have "tame (123 # ([32] @ concat (map print_declaration ds) @ [32]) @ [125])"
    by (intro tame_braces tame_append ds blank)
  ultimately show ?thesis using s blank by (metis tame_append)
qed

lemma tame_rule:
  assumes allowed: "list_all tame allowed" and r: "rule_ok allowed r"
  shows "tame (print_rule r)"
proof (cases r)
  case (Style s ds)
  with r show ?thesis using tame_style [OF allowed, of "(s, ds)"] by simp
next
  case (Media_query q rs)
  have q: "tame q" and rs: "tame (concat (map print_style rs))"
    using r tame_style [OF allowed] by (auto simp: Media_query list_all_iff tame_safe intro!: tame_concat)
  have fixed: "tame (lit ''@media '')" "tame [32]" "tame [10]" by (rule tame_plain, simp add: lit_def)+
  have "print_rule r = (lit ''@media '' @ q @ [32]) @ (123 # ([10] @ concat (map print_style rs)) @ [125])"
    by (simp add: Media_query lit_def)
  moreover have "tame (123 # ([10] @ concat (map print_style rs)) @ [125])"
    by (intro tame_braces tame_append rs fixed)
  ultimately show ?thesis using q fixed by (metis tame_append)
qed

lemma tame_sheet:
  assumes "list_all tame allowed"
  shows "tame (filter_stylesheet lib css allowed)"
proof -
  have "tame [10]" by (rule tame_plain) simp
  moreover have "list_all (rule_ok allowed) (kept_sheet lib allowed css)"
    by (simp add: kept_sheet_def list_all_filter_map [of "kept_top lib allowed", OF kept_top_ok])
  ultimately have "tame (print_sheet (kept_sheet lib allowed css))"
    using tame_rule [OF assms] by (auto simp: print_sheet_def list_all_iff intro!: tame_concat)
  then show ?thesis
    by (simp add: filter_stylesheet_def print_sheet_def kept_sheet_def filter_map_map_option [OF filter_top_prints] comp_def)
qed

lemma tame_allowlist: "list_all tame allowed_style_properties"
proof -
  have "list_all (list_all (\<lambda>c. c \<notin> {60, 123, 125})) allowed_style_properties"
    by (simp add: allowed_style_properties_def lit_def)
  then show ?thesis by (simp add: list_all_iff tame_plain)
qed

text \<open>C15. Whatever the message's style sheet holds, the filtered one cannot end the element it
  is put into, for it holds no \<open><\<close>, and its braces are balanced, so that it closes every block
  it opens and no other.\<close>

theorem filtered_sheet_stays_inside:
  "60 \<notin> set (filter_stylesheet lib css allowed_style_properties) \<and>
   balanced (filter_stylesheet lib css allowed_style_properties)"
  using tame_sheet [OF tame_allowlist, of lib css] by (simp add: tame_def balanced_def)

lemma filtered_sheet_has_no_tag: "60 \<notin> set (filter_stylesheet lib css allowed_style_properties)"
  using tame_sheet [OF tame_allowlist, of lib css] by (simp add: tame_def)

end
