(* ===== verification/Render.thy ===== *)
theory Render
  imports Css
begin

text \<open>
  Rendering a message, from \<open>crates/esmail/src/render.rs\<close>: the part that is shown, the inline
  images, the sanitizing of the HTML, the filtering of its style blocks and the attachments.

  The crates \<open>mailparse\<close>, \<open>ammonia\<close> and \<open>base64\<close> are arguments: \<open>re_parse\<close> is
  \<open>parse_mail\<close> and gives the tree of parts with what \<open>mailparse\<close> says of each, \<open>re_clean\<close>
  runs \<open>ammonia\<close> with the settings of the builder, \<open>re_clean_text\<close> is its escaping.
\<close>

section \<open>Messages\<close>

text \<open>A part as \<open>mailparse\<close> gives it: \<open>get_body\<close> and \<open>get_body_raw\<close> may fail.\<close>

record part_info =
  pi_mimetype :: str
  pi_type_name :: "str option"
  pi_content_id :: "str option"
  pi_is_attachment :: bool
  pi_filename :: "str option"
  pi_body :: "str option"
  pi_raw :: "byte list option"

datatype mail_part = Part (part_info: part_info) (subparts: "mail_part list")

text \<open>The settings of \<open>ammonia\<close>'s builder that differ from its defaults.\<close>

record sanitizer =
  sz_url_schemes :: "str list"
  sz_generic_attributes :: "str list"
  sz_tag_attributes :: "(str \<times> str list) list"
  sz_clean_content_tags :: "str list"
  sz_tags :: "str list"
  sz_kept_content_tags :: "str list"
  sz_style_properties :: "str list"

record mail_env =
  re_parse :: "byte list \<Rightarrow> str + mail_part"
  re_clean :: "sanitizer \<Rightarrow> str \<Rightarrow> str"
  re_clean_text :: "str \<Rightarrow> str"
  re_base64 :: "byte list \<Rightarrow> str"
  re_css :: css_lib

section \<open>Parts\<close>

fun all_parts :: "mail_part \<Rightarrow> mail_part list" where
  "all_parts (Part i subs) = Part i subs # concat (map all_parts subs)"

definition content_id :: "mail_part \<Rightarrow> str option" where
  "content_id part =
     map_option (\<lambda>raw. trim_end (\<lambda>c. c = 62) (trim_start (\<lambda>c. c = 60) (trim raw))) (pi_content_id (part_info part))"

text \<open>\<open>Iterator::find_map\<close>.\<close>

fun find_map :: "('a \<Rightarrow> 'b option) \<Rightarrow> 'a list \<Rightarrow> 'b option" where
  "find_map f [] = None"
| "find_map f (x # xs) = (case f x of Some y \<Rightarrow> Some y | None \<Rightarrow> find_map f xs)"

lemma find_map_cong [fundef_cong]:
  "xs = ys \<Longrightarrow> (\<And>x. x \<in> set ys \<Longrightarrow> f x = g x) \<Longrightarrow> find_map f xs = find_map g ys"
  by (induction ys arbitrary: xs) (auto split: option.splits)

fun find_html :: "mail_part \<Rightarrow> str option" where
  "find_html (Part i subs) =
     (if pi_mimetype i = lit ''text/html'' then pi_body i else find_map find_html subs)"

fun find_text :: "mail_part \<Rightarrow> str option" where
  "find_text (Part i subs) =
     (if pi_mimetype i = lit ''text/plain'' then pi_body i else find_map find_text subs)"

definition attachment_of :: "mail_part \<Rightarrow> attachment option" where
  "attachment_of part =
     (let i = part_info part in
      if subparts part \<noteq> [] then None
      else if pi_mimetype i = lit ''text/plain'' \<or> pi_mimetype i = lit ''text/html'' then None
      else if \<not> (pi_is_attachment i \<or> content_id part = None) then None
      else
        (let filename = (case pi_filename i of Some f \<Rightarrow> f
              | None \<Rightarrow> (case pi_type_name i of Some f \<Rightarrow> f | None \<Rightarrow> lit ''attachment''))
         in map_option (\<lambda>data. \<lparr>at_filename = filename, at_mime_type = pi_mimetype i, at_data = data\<rparr>) (pi_raw i)))"

definition extract_attachments :: "mail_env \<Rightarrow> byte list \<Rightarrow> attachment list" where
  "extract_attachments env raw =
     (case re_parse env raw of Inl e \<Rightarrow> [] | Inr parsed \<Rightarrow> filter_map attachment_of (all_parts parsed))"

section \<open>Inline images\<close>

text \<open>\<open>str::replace\<close> of a pattern that is not empty.\<close>

definition str_replace :: "str \<Rightarrow> str \<Rightarrow> str \<Rightarrow> str" where
  "str_replace old new s = join new (split_str old s)"

definition resolve_part :: "mail_env \<Rightarrow> str \<Rightarrow> mail_part \<Rightarrow> str" where
  "resolve_part env html part =
     (case content_id part of None \<Rightarrow> html
      | Some cid \<Rightarrow> (case pi_raw (part_info part) of None \<Rightarrow> html
          | Some data \<Rightarrow>
              str_replace (lit ''cid:'' @ cid)
                (lit ''data:'' @ pi_mimetype (part_info part) @ lit '';base64,'' @ re_base64 env data) html))"

definition resolve_cid_parts :: "mail_env \<Rightarrow> str \<Rightarrow> mail_part \<Rightarrow> str" where
  "resolve_cid_parts env html root = foldl (resolve_part env) html (all_parts root)"

section \<open>Sanitizing\<close>

definition OPEN :: str where "OPEN = lit ''<style>''"
definition CLOSE :: str where "CLOSE = lit ''</style>''"

definition TABLE_ATTRIBUTES :: "str list" where
  "TABLE_ATTRIBUTES = map lit [''width'', ''height'', ''bgcolor'', ''background'', ''border'', ''cellpadding'', ''cellspacing'']"

definition CELL_ATTRIBUTES :: "str list" where
  "CELL_ATTRIBUTES = map lit [''width'', ''height'', ''bgcolor'', ''background'', ''valign'', ''nowrap'']"

definition message_sanitizer :: sanitizer where
  "message_sanitizer =
     \<lparr>sz_url_schemes = map lit [''data'', ''cid''],
      sz_generic_attributes = map lit [''style'', ''class'', ''id''],
      sz_tag_attributes =
        [(lit ''table'', TABLE_ATTRIBUTES), (lit ''tbody'', [lit ''valign'']), (lit ''thead'', [lit ''valign'']),
         (lit ''tfoot'', [lit ''valign'']), (lit ''tr'', [lit ''valign'', lit ''bgcolor'']),
         (lit ''td'', CELL_ATTRIBUTES), (lit ''th'', CELL_ATTRIBUTES)],
      sz_clean_content_tags = [lit ''title''],
      sz_tags = [lit ''style''],
      sz_kept_content_tags = [lit ''style''],
      sz_style_properties = allowed_style_properties\<rparr>"

lemma find_str_le: "find_str p s = Some i \<Longrightarrow> i + length p \<le> length s"
  using find_str_Some by blast

text \<open>The loop over the style elements; \<open>out\<close> is the output so far.\<close>

function filter_loop :: "css_lib \<Rightarrow> str \<Rightarrow> str \<Rightarrow> str" where
  "filter_loop lib out rest =
     (case find_str OPEN rest of None \<Rightarrow> out @ rest
      | Some start \<Rightarrow>
          (let out = out @ take start rest;
               after = drop (start + length OPEN) rest
           in case find_str CLOSE after of None \<Rightarrow> out
              | Some fin \<Rightarrow>
                  (let css = filter_stylesheet lib (take fin after) allowed_style_properties;
                       out = (if css \<noteq> [] \<and> \<not> list_ex (\<lambda>c. c = 60) css then out @ OPEN @ css @ CLOSE else out)
                   in filter_loop lib out (drop (fin + length CLOSE) after))))"
  by pat_completeness auto
termination
  by (relation "measure (\<lambda>(_, _, rest). length rest)") (auto simp: OPEN_def CLOSE_def lit_def dest!: find_str_le)

declare filter_loop.simps [simp del]

definition filter_style_blocks :: "css_lib \<Rightarrow> str \<Rightarrow> str" where
  "filter_style_blocks lib html = filter_loop lib [] html"

definition sanitize :: "mail_env \<Rightarrow> str \<Rightarrow> str" where
  "sanitize env html = filter_style_blocks (re_css env) (re_clean env message_sanitizer html)"

section \<open>The page\<close>

definition wrap_document :: "str \<Rightarrow> str" where
  "wrap_document body =
     lit ''<!doctype html>'' @ [10] @
     lit ''<meta charset='' @ quoted (lit ''utf-8'') @ lit ''>'' @ [10] @
     lit ''<style>'' @ [10] @
     lit ''  body {'' @ [10] @
     lit ''    font-family: -apple-system, '' @ quoted (lit ''Segoe UI'') @ lit '', Roboto, Helvetica, Arial, sans-serif;'' @ [10] @
     lit ''    font-size: 14px;'' @ [10] @
     lit ''    line-height: 1.4;'' @ [10] @
     lit ''    color: #1a1a1a;'' @ [10] @
     lit ''    margin: 12px;'' @ [10] @
     lit ''    max-width: 100%;'' @ [10] @
     lit ''    overflow-wrap: break-word;'' @ [10] @
     lit ''  }'' @ [10] @
     lit ''  img { max-width: 100%; height: auto; }'' @ [10] @
     lit ''  pre { white-space: pre-wrap; font-family: inherit; }'' @ [10] @
     CLOSE @ [10] @
     body"

definition render_parsed :: "mail_env \<Rightarrow> mail_part \<Rightarrow> str" where
  "render_parsed env parsed =
     (case find_html parsed of
        Some html \<Rightarrow> sanitize env (resolve_cid_parts env html parsed)
      | None \<Rightarrow> (case find_text parsed of
          Some t \<Rightarrow> lit ''<pre>'' @ re_clean_text env t @ lit ''</pre>''
        | None \<Rightarrow> lit ''<p><em>(this message has no readable body)</em></p>''))"

definition render_message :: "mail_env \<Rightarrow> byte list \<Rightarrow> str" where
  "render_message env raw =
     wrap_document (case re_parse env raw of
         Inr parsed \<Rightarrow> render_parsed env parsed
       | Inl e \<Rightarrow> lit ''<p>Could not parse this message: '' @ re_clean_text env e @ lit ''</p>'')"

section \<open>Style elements\<close>

lemma find_str_first:
  assumes "p = c # q" "c \<notin> set q" "find_str p t = None"
  shows "find_str p (t @ p @ s) = Some (length t)"
  using assms(3)
proof (induction t)
  case Nil
  show ?case by (simp add: assms(1) starts_with_iff)
next
  case (Cons d t)
  have "\<not> starts_with p ((d # t) @ p @ s)"
  proof
    assume "starts_with p ((d # t) @ p @ s)"
    then obtain r where r: "(d # t) @ p @ s = p @ r" by (auto simp: starts_with_iff)
    then have "take (length p) (d # t @ p @ s) = p" by (simp add: append_eq_conv_conj)
    moreover have "\<not> starts_with p (d # t)" using Cons.prems by (auto split: if_splits)
    ultimately have short: "length (d # t) < length p"
      by (metis append_Cons append_take_drop_id not_le starts_with_iff take_append take_all_iff
          diff_is_0_eq self_append_conv take0)
    with r have "p ! length (d # t) = p ! 0"
      using assms(1) by (metis (no_types) add.right_neutral length_greater_0_conv list.distinct(1) nth_append nth_append_length_plus)
    with short assms(1,2) show False by (auto simp: nth_Cons' split: if_splits)
  qed
  with Cons show ?case by (auto split: if_splits)
qed

lemma open_first: "find_str OPEN t = None \<Longrightarrow> find_str OPEN (t @ OPEN @ s) = Some (length t)"
  by (rule find_str_first [of _ 60 "lit ''style>''"]) (simp_all add: OPEN_def lit_def)

lemma close_first: "find_str CLOSE t = None \<Longrightarrow> find_str CLOSE (t @ CLOSE @ s) = Some (length t)"
  by (rule find_str_first [of _ 60 "lit ''/style>''"]) (simp_all add: CLOSE_def lit_def)

text \<open>A sanitized page as its style elements divide it, before and after the filter.\<close>

definition style_page :: "str \<Rightarrow> (str \<times> str) list \<Rightarrow> str" where
  "style_page t elements = t @ concat (map (\<lambda>(css, t). OPEN @ css @ CLOSE @ t) elements)"

definition filtered_element :: "css_lib \<Rightarrow> str \<Rightarrow> str" where
  "filtered_element lib css =
     (let f = filter_stylesheet lib css allowed_style_properties in if f = [] then [] else OPEN @ f @ CLOSE)"

lemma filter_loop_element:
  assumes "find_str OPEN t = None" "find_str CLOSE css = None"
  shows "filter_loop lib out (t @ OPEN @ css @ CLOSE @ rest) =
         filter_loop lib (out @ t @ filtered_element lib css) rest"
  using filtered_sheet_has_no_tag [of lib css]
  by (subst filter_loop.simps)
    (simp add: open_first assms close_first filtered_element_def Let_def list_ex_iff)

lemma filter_loop_page:
  assumes "list_all (\<lambda>(css, t). find_str CLOSE css = None \<and> find_str OPEN t = None) elements"
    "find_str OPEN t = None"
  shows "filter_loop lib out (style_page t elements) =
         out @ t @ concat (map (\<lambda>(css, t). filtered_element lib css @ t) elements)"
  using assms
proof (induction elements arbitrary: out t)
  case Nil
  then show ?case by (subst filter_loop.simps) (simp add: style_page_def)
next
  case (Cons e elements)
  obtain css u where e: "e = (css, u)" by fastforce
  have "filter_loop lib out (style_page t (e # elements)) =
        filter_loop lib (out @ t @ filtered_element lib css) (style_page u elements)"
    using Cons.prems filter_loop_element [of t css lib out "style_page u elements"]
    by (simp add: e style_page_def)
  with Cons show ?case by (simp add: e)
qed

text \<open>C16. In a sanitized page every style element is replaced by one with the filtered sheet, or
  dropped when nothing of its sheet is left, and the text between them is kept.\<close>

theorem every_style_is_filtered:
  assumes "list_all (\<lambda>(css, t). find_str CLOSE css = None \<and> find_str OPEN t = None) elements"
    and "find_str OPEN t = None"
  shows "filter_style_blocks lib (style_page t elements) =
         t @ concat (map (\<lambda>(css, t). filtered_element lib css @ t) elements)"
  by (simp add: filter_style_blocks_def filter_loop_page [OF assms])

text \<open>A style element that does not end takes the rest of the page with it.\<close>

lemma unterminated_style_drops_the_rest:
  "find_str OPEN t = None \<Longrightarrow> find_str CLOSE rest = None \<Longrightarrow> filter_style_blocks lib (t @ OPEN @ rest) = t"
  by (simp add: filter_style_blocks_def, subst filter_loop.simps) (simp add: open_first)

text \<open>A parser that finds one rule in every sheet, for the examples.\<close>

definition demo_css :: css_lib where
  "demo_css = \<lparr>cl_rules = (\<lambda>s. if s = [] then [] else [Qualified_rule (lit ''p '') s]),
     cl_items = (\<lambda>s. [Declaration (lit ''color'') [Token s], Declaration (lit ''position'') [Token (lit ''fixed'')]]),
     cl_important = (\<lambda>_. None), cl_blank = (\<lambda>t. t = Token (lit '' ''))\<rparr>"

theorem every_style_is_filtered_witness:
  "filter_style_blocks demo_css (lit ''<p>a</p><style>red</style><b>'') =
   lit ''<p>a</p><style>p { color:red; }'' @ [10, 10] @ lit ''</style><b>''"
proof -
  have page: "lit ''<p>a</p><style>red</style><b>'' = style_page (lit ''<p>a</p>'') [(lit ''red'', lit ''<b>'')]"
    by (simp add: style_page_def OPEN_def CLOSE_def lit_def)
  have sheet: "filtered_element demo_css (lit ''red'') = lit ''<style>p { color:red; }'' @ [10, 10] @ lit ''</style>''"
    by (simp add: filtered_element_def filter_stylesheet_def demo_css_def qualified_prelude_def consume_text_def
        qualified_block_def parse_value_def is_safe_text_def trim_def trim_matches_def trim_start_def trim_end_def
        is_whitespace_def allowed_style_properties_def to_ascii_lowercase_def lower_char_def starts_with_def
        OPEN_def CLOSE_def Let_def lit_def)
  have "find_str CLOSE (lit ''red'') = None" "find_str OPEN (lit ''<b>'') = None" "find_str OPEN (lit ''<p>a</p>'') = None"
    by code_simp+
  then show ?thesis
    unfolding page using sheet every_style_is_filtered [of "[(lit ''red'', lit ''<b>'')]" "lit ''<p>a</p>''" demo_css]
    by (simp add: lit_def)
qed

section \<open>Attachments and inline images\<close>

lemma in_all_parts_refl: "p \<in> set (all_parts p)"
  by (cases p) simp

text \<open>Every file of a message is offered: a leaf part that decodes and is neither text nor an
  inline image is one of the attachments, with its bytes and its type.\<close>

lemma every_file_is_offered:
  assumes "re_parse env raw = Inr root" "p \<in> set (all_parts root)" "subparts p = []"
    "pi_mimetype (part_info p) \<notin> {lit ''text/plain'', lit ''text/html''}"
    "pi_is_attachment (part_info p) \<or> content_id p = None"
    "pi_raw (part_info p) = Some data"
  shows "\<exists>a \<in> set (extract_attachments env raw). at_data a = data \<and> at_mime_type a = pi_mimetype (part_info p)"
proof -
  from assms(3-6) obtain a where "attachment_of p = Some a" "at_data a = data" "at_mime_type a = pi_mimetype (part_info p)"
    by (auto simp: attachment_of_def Let_def)
  with assms(1,2) have "a \<in> set (extract_attachments env raw)"
    by (auto simp: extract_attachments_def set_filter_map simp del: filter_map.simps)
  with \<open>at_data a = data\<close> \<open>at_mime_type a = _\<close> show ?thesis by blast
qed

text \<open>And nothing but the leaf parts of the message is offered, each at most once, in the order of
  the message.\<close>

lemma filter_map_filter: "(\<And>x. \<not> P x \<Longrightarrow> f x = None) \<Longrightarrow> filter_map f (filter P xs) = filter_map f xs"
  by (induction xs) (auto split: option.splits)

lemma attachments_are_leaves:
  "re_parse env raw = Inr root \<Longrightarrow>
   extract_attachments env raw = filter_map attachment_of (filter (\<lambda>p. subparts p = []) (all_parts root))"
  by (subst filter_map_filter) (simp_all add: extract_attachments_def attachment_of_def Let_def)

text \<open>The examples' message: what the parser gives is fixed, cleaning changes nothing.\<close>

definition demo_part :: "string \<Rightarrow> part_info" where
  "demo_part mime = \<lparr>pi_mimetype = lit mime, pi_type_name = None, pi_content_id = None, pi_is_attachment = False,
     pi_filename = None, pi_body = None, pi_raw = None\<rparr>"

definition demo_mail_env :: "mail_part \<Rightarrow> mail_env" where
  "demo_mail_env root = \<lparr>re_parse = (\<lambda>_. Inr root), re_clean = (\<lambda>_ s. s), re_clean_text = html_escape,
     re_base64 = (\<lambda>b. b), re_css = demo_css\<rparr>"

lemmas mail_eval = demo_mail_env_def demo_part_def content_id_def attachment_of_def trim_def trim_matches_def
  trim_start_def trim_end_def is_whitespace_def Let_def lit_def

text \<open>A text file that is attached to a message with a body is neither shown nor offered: every
  text part counts as a candidate for the body.\<close>

definition text_file_mail :: mail_part where
  "text_file_mail = Part (demo_part ''multipart/mixed'')
     [Part ((demo_part ''text/plain'')\<lparr>pi_body := Some (lit ''see attached'')\<rparr>) [],
      Part ((demo_part ''text/plain'')\<lparr>pi_is_attachment := True, pi_filename := Some (lit ''notes.txt''),
        pi_body := Some (lit ''secret''), pi_raw := Some (lit ''secret'')\<rparr>) []]"

lemma text_attachment_is_lost:
  "extract_attachments (demo_mail_env text_file_mail) [] = [] \<and>
   render_message (demo_mail_env text_file_mail) [] = wrap_document (lit ''<pre>see attached</pre>'')"
proof
  show "extract_attachments (demo_mail_env text_file_mail) [] = []"
    by (simp add: extract_attachments_def text_file_mail_def mail_eval)
  have "render_parsed (demo_mail_env text_file_mail) text_file_mail = lit ''<pre>see attached</pre>''"
    by (simp add: render_parsed_def text_file_mail_def html_escape_def html_escape_char_def mail_eval)
  then show "render_message (demo_mail_env text_file_mail) [] = wrap_document (lit ''<pre>see attached</pre>'')"
    by (simp add: render_message_def) (simp add: demo_mail_env_def)
qed

text \<open>An HTML file attached before a plain text body takes the body's place.\<close>

definition html_file_mail :: mail_part where
  "html_file_mail = Part (demo_part ''multipart/mixed'')
     [Part ((demo_part ''text/plain'')\<lparr>pi_body := Some (lit ''see attached'')\<rparr>) [],
      Part ((demo_part ''text/html'')\<lparr>pi_is_attachment := True, pi_body := Some (lit ''<p>report</p>'')\<rparr>) []]"

lemma html_attachment_replaces_body:
  "render_parsed (demo_mail_env html_file_mail) html_file_mail = lit ''<p>report</p>''"
  by (simp add: render_parsed_def html_file_mail_def resolve_cid_parts_def resolve_part_def sanitize_def
      filter_style_blocks_def filter_loop.simps OPEN_def starts_with_def mail_eval)

text \<open>An image whose id starts with the id of an earlier image is not resolved: the earlier
  replacement matches inside its reference and leaves the rest of the id behind the URL.\<close>

definition two_images :: mail_part where
  "two_images = Part (demo_part ''multipart/related'')
     [Part ((demo_part ''text/html'')\<lparr>pi_body := Some (lit ''<img src=cid:a1>'')\<rparr>) [],
      Part ((demo_part ''image/png'')\<lparr>pi_content_id := Some (lit ''<a>''), pi_raw := Some (lit ''A'')\<rparr>) [],
      Part ((demo_part ''image/png'')\<lparr>pi_content_id := Some (lit ''<a1>''), pi_raw := Some (lit ''B'')\<rparr>) []]"

lemma longer_content_id_is_broken:
  "resolve_cid_parts (demo_mail_env two_images) (lit ''<img src=cid:a1>'') two_images =
   lit ''<img src=data:image/png;base64,A1>''"
  by (simp add: resolve_cid_parts_def resolve_part_def two_images_def str_replace_def split_str.simps mail_eval)

end
