(* ===== verification/Launch.thy ===== *)
theory Launch
  imports Panes
begin

text \<open>
  Launches of the program: the single-instance lock, the request files and the wake-up event,
  from \<open>crates/esmail/src/shell.rs\<close> (\<open>acquire_single_instance\<close>, \<open>send_request\<close>,
  \<open>take_request\<close>) and \<open>crates/esmail-win32/src/app/instance.rs\<close> (\<open>claim\<close>, \<open>request_quit\<close>,
  \<open>forward\<close>, \<open>drain\<close>), called from \<open>main\<close> of \<open>app/setup.rs\<close>.

  Every process is a program counter, one value per operation on what the processes share: the
  data directory, the lock and the event.  A schedule says which process runs next, or which
  one dies, so that a statement about all schedules is one about every interleaving.  The
  directory works: it exists and its files can be written (where it does not, \<open>acquire_in\<close>
  takes every process for the first).
\<close>

section \<open>Requests\<close>

datatype launch = Show | Open_account str | Compose | Quit

definition QUIT_FILE :: str where "QUIT_FILE = lit ''quit.request''"
definition SHOW_FILE :: str where "SHOW_FILE = lit ''show.request''"
definition OPEN_FILE :: str where "OPEN_FILE = lit ''open-account.request''"

definition REQUEST_FILES :: "str list" where
  "REQUEST_FILES = [QUIT_FILE, SHOW_FILE, OPEN_FILE]"

definition request_of :: "str \<Rightarrow> str \<Rightarrow> launch" where
  "request_of file payload =
     (if file = QUIT_FILE then Quit
      else if file = OPEN_FILE then Open_account (trim payload)
      else Show)"

text \<open>Whether a process is the first one, with the outcomes of the file operations.\<close>

datatype claimed = First | Already_running

definition acquire_in :: "bool \<Rightarrow> bool \<Rightarrow> bool option \<Rightarrow> claimed" where
  "acquire_in created opened locked =
     (if \<not> created then First
      else if \<not> opened then First
      else (case locked of None \<Rightarrow> First | Some free \<Rightarrow> if free then First else Already_running))"

section \<open>Processes\<close>

text \<open>What a process was started for: \<open>--quit\<close>, or a window, with \<open>--compose\<close> or not.\<close>

datatype launch_kind = Quit_only | Window bool

datatype launch_pc =
    Begin launch_kind
  | Discard launch_kind "str list"
  | Discard_compose
  | Create_event
  | Scan "str list" "launch list"
  | Consume str str "str list" "launch list"
  | Take_compose "launch list"
  | Forward "launch list"
  | Blocked
  | Write_compose
  | Write_show
  | Signal
  | Handed_over
  | Failed
  | Write_quit
  | Signal_quit
  | Finished
  | Crashed

text \<open>The event is None while nobody has created it, else whether it is signalled; \<open>ls_log\<close>
  are the launches every first instance has forwarded to its window.\<close>

record launch_sys =
  ls_files :: "str \<rightharpoonup> str"
  ls_lock :: "nat option"
  ls_event :: "bool option"
  ls_log :: "(nat \<times> launch) list"
  ls_pc :: "nat \<Rightarrow> launch_pc"

definition goto :: "nat \<Rightarrow> launch_pc \<Rightarrow> launch_sys \<Rightarrow> launch_sys" where
  "goto p c s = s\<lparr>ls_pc := (ls_pc s)(p := c)\<rparr>"

definition write_file :: "str \<Rightarrow> launch_sys \<Rightarrow> launch_sys" where
  "write_file f s = s\<lparr>ls_files := (ls_files s)(f \<mapsto> [])\<rparr>"

definition remove_request :: "str \<Rightarrow> launch_sys \<Rightarrow> launch_sys" where
  "remove_request f s = s\<lparr>ls_files := (ls_files s)(f := None)\<rparr>"

text \<open>A process that ends gives up the lock and closes its event.\<close>

definition exit_as :: "launch_pc \<Rightarrow> nat \<Rightarrow> launch_sys \<Rightarrow> launch_sys" where
  "exit_as c p s =
     goto p c (if ls_lock s = Some p then s\<lparr>ls_lock := None, ls_event := None\<rparr> else s)"

definition begin_step :: "nat \<Rightarrow> launch_kind \<Rightarrow> launch_sys \<Rightarrow> launch_sys" where
  "begin_step p k s =
     (case acquire_in True True (Some (ls_lock s = None)) of
        First \<Rightarrow> goto p (Discard k REQUEST_FILES) (s\<lparr>ls_lock := Some p\<rparr>)
      | Already_running \<Rightarrow>
          goto p (case k of Quit_only \<Rightarrow> Write_quit
            | Window compose \<Rightarrow> if compose then Write_compose else Write_show) s)"

fun run_pc :: "nat \<Rightarrow> launch_pc \<Rightarrow> launch_sys \<Rightarrow> launch_sys" where
  "run_pc p (Begin k) s = begin_step p k s"
| "run_pc p (Discard k (f # fs)) s = goto p (Discard k fs) (remove_request f s)"
| "run_pc p (Discard k []) s = (if k = Quit_only then exit_as Finished p s else goto p Discard_compose s)"
| "run_pc p Discard_compose s = goto p Create_event (s\<lparr>ls_files := (ls_files s)(COMPOSE_REQUEST := None)\<rparr>)"
| "run_pc p Create_event s = goto p (Scan REQUEST_FILES []) (s\<lparr>ls_event := Some False\<rparr>)"
| "run_pc p (Scan (f # fs) out) s =
     (case ls_files s f of None \<Rightarrow> goto p (Scan fs out) s
      | Some payload \<Rightarrow> goto p (Consume f payload fs out) s)"
| "run_pc p (Consume f payload fs out) s =
     (if ls_files s f = None then goto p (Scan fs out) s
      else goto p (Scan REQUEST_FILES (out @ [request_of f payload])) (remove_request f s))"
| "run_pc p (Scan [] out) s = goto p (Take_compose out) s"
| "run_pc p (Take_compose out) s =
     (if ls_files s COMPOSE_REQUEST \<noteq> None then goto p (Forward (out @ [Compose])) (remove_request COMPOSE_REQUEST s)
      else goto p (Forward out) s)"
| "run_pc p (Forward out) s = goto p Blocked (s\<lparr>ls_log := ls_log s @ map (Pair p) out\<rparr>)"
| "run_pc p Blocked s =
     (if ls_event s = Some True then goto p (Scan REQUEST_FILES []) (s\<lparr>ls_event := Some False\<rparr>) else s)"
| "run_pc p Write_compose s = goto p Write_show (write_file COMPOSE_REQUEST s)"
| "run_pc p Write_show s = goto p Signal (write_file SHOW_FILE s)"
| "run_pc p Signal s =
     (if ls_event s = None then goto p Failed s else goto p Handed_over (s\<lparr>ls_event := Some True\<rparr>))"
| "run_pc p Write_quit s = goto p Signal_quit (write_file QUIT_FILE s)"
| "run_pc p Signal_quit s = goto p Finished (s\<lparr>ls_event := map_option (\<lambda>_. True) (ls_event s)\<rparr>)"
| "run_pc p Handed_over s = s"
| "run_pc p Failed s = s"
| "run_pc p Finished s = s"
| "run_pc p Crashed s = s"

text \<open>What a process has yet to tell the first instance of.\<close>

fun handing_over :: "launch_pc \<Rightarrow> bool" where
  "handing_over Write_show = True"
| "handing_over Signal = True"
| "handing_over Signal_quit = True"
| "handing_over Crashed = True"
| "handing_over _ = False"

datatype turn = Run nat | Die nat

fun launch_turn :: "launch_sys \<Rightarrow> turn \<Rightarrow> launch_sys" where
  "launch_turn s (Run p) = run_pc p (ls_pc s p) s"
| "launch_turn s (Die p) = exit_as (if handing_over (ls_pc s p) then Crashed else Finished) p s"

definition launch_run :: "launch_sys \<Rightarrow> turn list \<Rightarrow> launch_sys" where
  "launch_run s turns = foldl launch_turn s turns"

text \<open>Before any process has run: the directory may hold requests of instances that died.\<close>

definition launch_start :: "(str \<rightharpoonup> str) \<Rightarrow> (nat \<Rightarrow> launch_kind) \<Rightarrow> launch_sys" where
  "launch_start files kinds =
     \<lparr>ls_files = files, ls_lock = None, ls_event = None, ls_log = [], ls_pc = (\<lambda>p. Begin (kinds p))\<rparr>"

section \<open>What every schedule keeps\<close>

fun waits :: "launch_pc \<Rightarrow> bool" where
  "waits (Scan _ _) = True"
| "waits (Consume _ _ _ _) = True"
| "waits (Take_compose _) = True"
| "waits (Forward _) = True"
| "waits Blocked = True"
| "waits _ = False"

fun starts :: "launch_pc \<Rightarrow> bool" where
  "starts (Discard _ _) = True"
| "starts Discard_compose = True"
| "starts Create_event = True"
| "starts _ = False"

definition is_first :: "launch_pc \<Rightarrow> bool" where
  "is_first c \<longleftrightarrow> starts c \<or> waits c"

text \<open>Whether the first instance looks at a file again before it blocks.\<close>

fun will_look :: "launch_pc \<Rightarrow> str \<Rightarrow> bool" where
  "will_look (Scan fs _) f = (f \<in> set fs \<or> f = COMPOSE_REQUEST)"
| "will_look (Take_compose _) f = (f = COMPOSE_REQUEST)"
| "will_look (Forward _) f = False"
| "will_look Blocked f = False"
| "will_look _ f = True"

fun consuming :: "launch_pc \<Rightarrow> str option" where
  "consuming (Consume f _ _ _) = Some f"
| "consuming _ = None"

definition a_request :: "str \<Rightarrow> bool" where
  "a_request f \<longleftrightarrow> f \<in> set REQUEST_FILES \<or> f = COMPOSE_REQUEST"

definition known :: "launch_sys \<Rightarrow> str \<Rightarrow> bool" where
  "known s f \<longleftrightarrow> (\<forall>p. ls_lock s = Some p \<longrightarrow> will_look (ls_pc s p) f) \<or> ls_event s = Some True \<or>
     (\<exists>q. handing_over (ls_pc s q))"

lemmas launch_simps = goto_def write_file_def remove_request_def exit_as_def begin_step_def acquire_in_def
  is_first_def

lemma request_names [simp]:
  "a_request QUIT_FILE" "a_request SHOW_FILE" "a_request COMPOSE_REQUEST" "a_request OPEN_FILE"
  "COMPOSE_REQUEST \<notin> set REQUEST_FILES"
  "COMPOSE_REQUEST \<noteq> QUIT_FILE" "COMPOSE_REQUEST \<noteq> OPEN_FILE" "COMPOSE_REQUEST \<noteq> SHOW_FILE"
  by (simp_all add: a_request_def REQUEST_FILES_def QUIT_FILE_def SHOW_FILE_def OPEN_FILE_def COMPOSE_REQUEST_def)

definition first_holds :: "launch_sys \<Rightarrow> bool" where
  "first_holds s \<longleftrightarrow> (\<forall>p. is_first (ls_pc s p) \<longleftrightarrow> ls_lock s = Some p)"

lemma first_upd [simp]:
  "first_holds (s\<lparr>ls_files := f\<rparr>) = first_holds s" "first_holds (s\<lparr>ls_event := e\<rparr>) = first_holds s"
  "first_holds (s\<lparr>ls_log := l\<rparr>) = first_holds s"
  by (simp_all add: first_holds_def)

lemma first_goto: "first_holds s \<Longrightarrow> is_first c = is_first (ls_pc s p) \<Longrightarrow> first_holds (goto p c s)"
  by (simp add: first_holds_def goto_def)

lemma first_lock: "first_holds s \<Longrightarrow> ls_lock s = None \<Longrightarrow> is_first c \<Longrightarrow> first_holds (goto p c (s\<lparr>ls_lock := Some p\<rparr>))"
  by (auto simp: first_holds_def goto_def)

lemma first_exit: "first_holds s \<Longrightarrow> \<not> is_first c \<Longrightarrow> first_holds (exit_as c p s)"
  by (auto simp: first_holds_def goto_def exit_as_def)

lemma first_begin: "first_holds s \<Longrightarrow> ls_pc s p = Begin k \<Longrightarrow> first_holds (begin_step p k s)"
  by (cases "ls_lock s = None")
    (simp_all add: begin_step_def acquire_in_def first_lock is_first_def first_goto split: launch_kind.splits)

lemma run_first: "first_holds s \<Longrightarrow> first_holds (run_pc p (ls_pc s p) s)"
  by (cases "(p, ls_pc s p, s)" rule: run_pc.cases)
    (auto simp: first_begin write_file_def remove_request_def is_first_def split: option.splits
      intro!: first_goto first_exit)

text \<open>The event exists exactly while the holder of the lock waits on it.\<close>

definition event_ok :: "launch_sys \<Rightarrow> bool" where
  "event_ok s \<longleftrightarrow> (case ls_lock s of None \<Rightarrow> ls_event s = None | Some p \<Rightarrow> ls_event s \<noteq> None \<longleftrightarrow> waits (ls_pc s p))"

definition consuming_ok :: "launch_sys \<Rightarrow> bool" where
  "consuming_ok s \<longleftrightarrow> (case ls_lock s of None \<Rightarrow> True
     | Some p \<Rightarrow> list_all (\<lambda>f. ls_files s f \<noteq> None) (case consuming (ls_pc s p) of None \<Rightarrow> [] | Some f \<Rightarrow> [f]))"

definition requests_known :: "launch_sys \<Rightarrow> bool" where
  "requests_known s \<longleftrightarrow> (\<forall>f. a_request f \<longrightarrow> ls_files s f \<noteq> None \<longrightarrow> known s f)"

lemma holder:
  assumes "first_holds s" "is_first (ls_pc s p)"
  shows "ls_lock s = Some p"
  using assms by (simp add: first_holds_def)

lemma not_holder:
  assumes "first_holds s" "\<not> is_first (ls_pc s p)"
  shows "ls_lock s \<noteq> Some p"
  using assms by (auto simp: first_holds_def)

lemma run_event:
  assumes s: "first_holds s" "event_ok s"
  shows "event_ok (run_pc p (ls_pc s p) s)"
proof (cases "is_first (ls_pc s p)")
  case True
  with s(2) holder [OF s(1) True] show ?thesis
    by (cases "(p, ls_pc s p, s)" rule: run_pc.cases)
      (simp_all add: event_ok_def launch_simps split: option.splits)
next
  case False
  with s(2) not_holder [OF s(1) False] show ?thesis
    by (cases "(p, ls_pc s p, s)" rule: run_pc.cases)
      (auto simp: event_ok_def launch_simps split: option.splits launch_kind.splits)
qed

lemma run_consuming:
  assumes s: "first_holds s" "consuming_ok s"
  shows "consuming_ok (run_pc p (ls_pc s p) s)"
proof (cases "is_first (ls_pc s p)")
  case True
  with s(2) holder [OF s(1) True] show ?thesis
    by (cases "(p, ls_pc s p, s)" rule: run_pc.cases)
      (simp_all add: consuming_ok_def launch_simps split: option.splits)
next
  case False
  with s(2) not_holder [OF s(1) False] show ?thesis
    by (cases "(p, ls_pc s p, s)" rule: run_pc.cases)
      (auto simp: consuming_ok_def launch_simps split: option.splits launch_kind.splits)
qed

lemma starts_looks: "starts c \<Longrightarrow> will_look c f"
  by (cases c) auto

lemma not_waiting_looks:
  assumes "first_holds s" "event_ok s" "ls_event s = None" "ls_lock s = Some p"
  shows "will_look (ls_pc s p) f"
proof (rule starts_looks)
  have "is_first (ls_pc s p)" using assms by (simp add: first_holds_def)
  moreover have "\<not> waits (ls_pc s p)" using assms by (simp add: event_ok_def)
  ultimately show "starts (ls_pc s p)" by (simp add: is_first_def)
qed

lemma run_others: "q \<noteq> p \<Longrightarrow> ls_pc (run_pc p c s) q = ls_pc s q"
  by (cases "(p, c, s)" rule: run_pc.cases)
    (simp_all add: launch_simps split: option.splits launch_kind.splits)

lemma known_others: "handing_over (ls_pc s q) \<Longrightarrow> q \<noteq> p \<Longrightarrow> known (run_pc p c s) f"
  by (auto simp: known_def run_others intro!: exI [of _ q])

lemma run_known_first:
  assumes s: "first_holds s" "consuming_ok s" "requests_known s" and first: "is_first (ls_pc s p)"
    and f: "a_request f" "ls_files (run_pc p (ls_pc s p) s) f \<noteq> None"
  shows "known (run_pc p (ls_pc s p) s) f"
proof (cases "\<exists>q. q \<noteq> p \<and> handing_over (ls_pc s q)")
  case True
  then show ?thesis by (blast intro: known_others)
next
  case False
  have "\<not> handing_over (ls_pc s p)" using first by (cases "ls_pc s p") (simp_all add: is_first_def)
  with False have none: "\<not> (\<exists>q. handing_over (ls_pc s q))" by metis
  note lock = holder [OF s(1) first]
  have "ls_files s f \<noteq> None \<Longrightarrow> will_look (ls_pc s p) f \<or> ls_event s = Some True"
    using s(3) f(1) none lock by (auto simp: requests_known_def known_def)
  then show ?thesis
    using first f lock s(2)
    by (cases "(p, ls_pc s p, s)" rule: run_pc.cases)
      (auto simp: launch_simps known_def consuming_ok_def a_request_def split: option.splits if_splits)
qed

lemma run_known_other:
  assumes s: "first_holds s" "event_ok s" "requests_known s" and other: "\<not> is_first (ls_pc s p)"
    and f: "a_request f" "ls_files (run_pc p (ls_pc s p) s) f \<noteq> None"
  shows "known (run_pc p (ls_pc s p) s) f"
proof (cases "\<exists>q. q \<noteq> p \<and> handing_over (ls_pc s q)")
  case True
  then show ?thesis by (blast intro: known_others)
next
  case False
  note lock = not_holder [OF s(1) other]
  have "ls_files s f \<noteq> None \<Longrightarrow> (\<forall>r. ls_lock s = Some r \<longrightarrow> will_look (ls_pc s r) f) \<or> ls_event s = Some True \<or>
      handing_over (ls_pc s p)"
    using s(3) f(1) False by (auto simp: requests_known_def known_def)
  with not_waiting_looks [OF s(1,2)] show ?thesis
    using other f lock
    by (cases "(p, ls_pc s p, s)" rule: run_pc.cases)
      (auto simp: launch_simps known_def split: option.splits if_splits launch_kind.splits, metis handing_over.simps(4))
qed

definition launch_ok :: "launch_sys \<Rightarrow> bool" where
  "launch_ok s \<longleftrightarrow> first_holds s \<and> event_ok s \<and> consuming_ok s \<and> requests_known s"

lemma run_ok:
  assumes "launch_ok s"
  shows "launch_ok (run_pc p (ls_pc s p) s)"
proof -
  have "requests_known (run_pc p (ls_pc s p) s)"
    using assms run_known_first [of s p] run_known_other [of s p]
    by (auto simp: launch_ok_def requests_known_def)
  with assms run_first run_event run_consuming show ?thesis by (simp add: launch_ok_def)
qed

lemma die_ok:
  assumes "launch_ok s"
  shows "launch_ok (launch_turn s (Die p))"
proof -
  let ?c = "if handing_over (ls_pc s p) then Crashed else Finished"
  have s: "first_holds s" "event_ok s" "consuming_ok s" "requests_known s" using assms by (simp_all add: launch_ok_def)
  have "first_holds (exit_as ?c p s)" by (rule first_exit [OF s(1)]) (simp add: is_first_def)
  moreover have "event_ok (exit_as ?c p s)" "consuming_ok (exit_as ?c p s)"
    using s(2,3) by (auto simp: event_ok_def consuming_ok_def exit_as_def goto_def split: option.splits)
  moreover have "known (exit_as ?c p s) f" if k: "known s f" for f
  proof (cases "ls_lock s = Some p")
    case False
    have "handing_over (ls_pc (exit_as ?c p s) q) = handing_over (ls_pc s q)" for q
      by (simp add: exit_as_def goto_def)
    with False k show ?thesis by (auto simp: known_def) (auto simp: exit_as_def goto_def)
  qed (simp add: known_def exit_as_def goto_def)
  ultimately show ?thesis
    using s(4) by (auto simp: launch_ok_def requests_known_def exit_as_def goto_def)
qed

lemma start_ok: "launch_ok (launch_start files kinds)"
  by (simp add: launch_ok_def launch_start_def first_holds_def event_ok_def consuming_ok_def requests_known_def
      known_def is_first_def)

lemma launch_run_append: "launch_run s (a @ b) = launch_run (launch_run s a) b"
  by (simp add: launch_run_def)

lemma launch_run_ok: "launch_ok s \<Longrightarrow> launch_ok (launch_run s turns)"
proof (induction turns rule: rev_induct)
  case (snoc t turns)
  then show ?case by (cases t) (simp_all add: launch_run_append launch_run_def run_ok die_ok del: launch_turn.simps(2))
qed (simp add: launch_run_def)

text \<open>Whatever the schedule and whoever dies, at most one process at a time is the first
  instance, the one whose window owns the data directory, and it holds the lock.\<close>

theorem one_window_per_directory:
  "is_first (ls_pc (launch_run (launch_start files kinds) turns) p) \<longleftrightarrow>
   ls_lock (launch_run (launch_start files kinds) turns) = Some p"
  using launch_run_ok [OF start_ok, of files kinds turns] by (simp add: launch_ok_def first_holds_def)

section \<open>No lost wake-up\<close>

text \<open>What a request file asks for, whatever it holds.\<close>

fun same_request :: "str \<Rightarrow> launch \<Rightarrow> bool" where
  "same_request f Show = (f = SHOW_FILE)"
| "same_request f (Open_account _) = (f = OPEN_FILE)"
| "same_request f Compose = (f = COMPOSE_REQUEST)"
| "same_request f Quit = (f = QUIT_FILE)"

fun collected :: "launch_pc \<Rightarrow> launch list" where
  "collected (Scan _ out) = out"
| "collected (Consume _ _ _ out) = out"
| "collected (Take_compose out) = out"
| "collected (Forward out) = out"
| "collected _ = []"

text \<open>The launches an instance has forwarded or is about to.\<close>

definition taken :: "nat \<Rightarrow> launch_sys \<Rightarrow> launch list" where
  "taken p s = map snd (filter (\<lambda>(q, _). q = p) (ls_log s)) @ collected (ls_pc s p)"

text \<open>A request is pending or an instance has taken it after the launches \<open>base\<close>.\<close>

definition heard :: "nat \<Rightarrow> str \<Rightarrow> launch list \<Rightarrow> launch_sys \<Rightarrow> bool" where
  "heard p f base s \<longleftrightarrow> waits (ls_pc s p) \<and> take (length base) (taken p s) = base \<and>
     (ls_files s f \<noteq> None \<or> list_ex (same_request f) (drop (length base) (taken p s)))"

lemma same_request_of: "f \<in> set REQUEST_FILES \<Longrightarrow> same_request f (request_of f payload)"
  by (auto simp: REQUEST_FILES_def request_of_def QUIT_FILE_def OPEN_FILE_def SHOW_FILE_def)

lemma heard_more:
  assumes "heard p f base s" "waits (ls_pc s' p)" "taken p s' = taken p s @ new"
    and "ls_files s f \<noteq> None \<Longrightarrow> ls_files s' f \<noteq> None \<or> list_ex (same_request f) new"
  shows "heard p f base s'"
proof -
  have "length base \<le> length (taken p s)"
    using assms(1) by (metis heard_def length_take min.absorb_iff1 min.commute)
  with assms show ?thesis by (auto simp: heard_def)
qed

text \<open>A consumed file is one of the request files.\<close>

fun scan_ok :: "launch_pc \<Rightarrow> bool" where
  "scan_ok (Scan fs _) = (set fs \<subseteq> set REQUEST_FILES \<and> length fs \<le> 3)"
| "scan_ok (Consume f _ fs _) = (f \<in> set REQUEST_FILES \<and> set fs \<subseteq> set REQUEST_FILES \<and> length fs \<le> 3)"
| "scan_ok _ = True"

lemma length_REQUEST_FILES: "length REQUEST_FILES = 3" "distinct REQUEST_FILES"
  by (simp_all add: REQUEST_FILES_def QUIT_FILE_def OPEN_FILE_def SHOW_FILE_def)

lemma run_scan_ok: "scan_ok (ls_pc s q) \<Longrightarrow> scan_ok (ls_pc (run_pc p (ls_pc s p) s) q)"
  by (cases "q = p"; cases "(p, ls_pc s p, s)" rule: run_pc.cases)
    (auto simp: launch_simps run_others length_REQUEST_FILES split: option.splits launch_kind.splits if_splits)

lemma launch_run_scan_ok: "scan_ok (ls_pc s q) \<Longrightarrow> scan_ok (ls_pc (launch_run s turns) q)"
proof (induction turns rule: rev_induct)
  case (snoc t turns)
  then have "scan_ok (ls_pc (launch_run s turns) q)" by blast
  then show ?case
    by (cases t) (auto simp: launch_run_append launch_run_def run_scan_ok exit_as_def goto_def)
qed (simp add: launch_run_def)

lemma heard_own_step:
  assumes "heard p f base s" "a_request f" "scan_ok (ls_pc s p)"
  shows "heard p f base (run_pc p (ls_pc s p) s)"
proof -
  have w: "waits (ls_pc s p)" using assms(1) by (simp add: heard_def)
  show ?thesis
  proof (cases "ls_pc s p")
    case (Scan fs out)
    show ?thesis
      by (rule heard_more [OF assms(1), of _ "[]"]; cases fs) 
        (auto simp: Scan taken_def launch_simps split: option.splits)
  next
    case (Consume g payload fs out)
    show ?thesis
    proof (cases "ls_files s g = None")
      case True
      show ?thesis
        by (rule heard_more [OF assms(1), of _ "[]"]) (simp_all add: Consume True taken_def launch_simps)
    next
      case False
      have "g \<in> set REQUEST_FILES" using assms(3) Consume by simp
      then show ?thesis
        by (intro heard_more [OF assms(1), of _ "[request_of g payload]"])
          (auto simp: Consume False taken_def launch_simps same_request_of)
    qed
  next
    case (Take_compose out)
    show ?thesis
    proof (cases "ls_files s COMPOSE_REQUEST = None")
      case True
      show ?thesis
        by (rule heard_more [OF assms(1), of _ "[]"]) (simp_all add: Take_compose True taken_def launch_simps)
    next
      case False
      show ?thesis
        by (rule heard_more [OF assms(1), of _ "[Compose]"])
          (use False in \<open>auto simp: Take_compose taken_def launch_simps\<close>)
    qed
  next
    case (Forward out)
    show ?thesis
      by (rule heard_more [OF assms(1), of _ "[]"])
        (simp_all add: Forward taken_def launch_simps filter_map comp_def)
  next
    case Blocked
    show ?thesis
      by (rule heard_more [OF assms(1), of _ "[]"]) (simp_all add: Blocked taken_def launch_simps)
  qed (use w in simp_all)
qed

lemma heard_other_step:
  assumes "heard p f base s" "launch_ok s" "q \<noteq> p"
  shows "heard p f base (run_pc q (ls_pc s q) s)"
proof -
  have p: "is_first (ls_pc s p)" using assms(1) by (simp add: heard_def is_first_def)
  have q: "\<not> is_first (ls_pc s q)"
    using assms(2,3) p by (auto simp: launch_ok_def first_holds_def)
  have lock: "ls_lock s = Some p" using assms(2) p holder by (simp add: launch_ok_def)
  have "ls_log (run_pc q (ls_pc s q) s) = ls_log s" "ls_files s f \<noteq> None \<Longrightarrow> ls_files (run_pc q (ls_pc s q) s) f \<noteq> None"
    using q lock by (cases "(q, ls_pc s q, s)" rule: run_pc.cases;
        auto simp: launch_simps split: launch_kind.splits)+
  with assms(1,3) show ?thesis by (auto simp: heard_def taken_def run_others)
qed

lemma heard_run:
  assumes "heard p f base s" "launch_ok s" "a_request f" "scan_ok (ls_pc s p)" "Die p \<notin> set turns"
  shows "heard p f base (launch_run s turns)"
  using assms(5)
proof (induction turns rule: rev_induct)
  case Nil
  then show ?case using assms(1) by (simp add: launch_run_def)
next
  case (snoc t turns)
  let ?s = "launch_run s turns"
  have s: "heard p f base ?s" "launch_ok ?s" "scan_ok (ls_pc ?s p)"
    using snoc assms(2,4) by (auto simp: launch_run_ok launch_run_scan_ok)
  have "launch_run s (turns @ [t]) = launch_turn ?s t" by (simp add: launch_run_append, simp add: launch_run_def)
  moreover have "heard p f base (launch_turn ?s t)"
  proof (cases t)
    case (Run q)
    with s assms(3) show ?thesis by (cases "q = p") (simp_all add: heard_own_step heard_other_step)
  next
    case (Die q)
    with snoc.prems have "q \<noteq> p" by auto
    with s(1) show ?thesis by (simp add: Die heard_def taken_def exit_as_def goto_def)
  qed
  ultimately show ?case by simp
qed

text \<open>Left alone, the first instance blocks: every turn brings it nearer.\<close>

definition pending :: "launch_sys \<Rightarrow> nat" where
  "pending s = length (filter (\<lambda>f. ls_files s f \<noteq> None) (COMPOSE_REQUEST # REQUEST_FILES))"

fun turns_left :: "launch_pc \<Rightarrow> nat" where
  "turns_left (Scan fs _) = 2 * length fs + 3"
| "turns_left (Consume _ _ fs _) = 2 * length fs + 4"
| "turns_left (Take_compose _) = 2"
| "turns_left (Forward _) = 1"
| "turns_left _ = 0"

definition weight :: "nat \<Rightarrow> launch_sys \<Rightarrow> nat" where
  "weight p s = 8 * pending s + turns_left (ls_pc s p) + (if ls_event s = Some True then 10 else 0)"

definition idle :: "nat \<Rightarrow> launch_sys \<Rightarrow> bool" where
  "idle p s \<longleftrightarrow> ls_pc s p = Blocked \<and> ls_event s \<noteq> Some True"

lemma length_filter_without:
  "f \<in> set xs \<Longrightarrow> P f \<Longrightarrow> length (filter (\<lambda>g. g \<noteq> f \<and> P g) xs) < length (filter P xs)"
proof (induction xs)
  case (Cons x xs)
  have "length (filter (\<lambda>g. g \<noteq> f \<and> P g) xs) \<le> length (filter P xs)" by (induction xs) auto
  with Cons show ?case by auto
qed simp

lemma pending_remove:
  assumes "a_request f" "ls_files s f \<noteq> None"
  shows "pending (s\<lparr>ls_files := (ls_files s)(f := None)\<rparr>) < pending s"
proof -
  let ?all = "COMPOSE_REQUEST # REQUEST_FILES"
  have "filter (\<lambda>g. ls_files (s\<lparr>ls_files := (ls_files s)(f := None)\<rparr>) g \<noteq> None) ?all =
        filter (\<lambda>g. g \<noteq> f \<and> ls_files s g \<noteq> None) ?all"
    by (rule filter_cong) auto
  moreover have "f \<in> set ?all" using assms(1) by (auto simp: a_request_def)
  then have "length (filter (\<lambda>g. g \<noteq> f \<and> ls_files s g \<noteq> None) ?all) < length (filter (\<lambda>g. ls_files s g \<noteq> None) ?all)"
    using assms(2) by (rule length_filter_without)
  ultimately show ?thesis by (simp only: pending_def)
qed

lemma pending_upd [simp]:
  "pending (s\<lparr>ls_log := l\<rparr>) = pending s" "pending (s\<lparr>ls_event := e\<rparr>) = pending s"
  "pending (s\<lparr>ls_pc := c\<rparr>) = pending s"
  by (simp_all add: pending_def)

lemma weight_decreases:
  assumes "waits (ls_pc s p)" "scan_ok (ls_pc s p)" "\<not> idle p s"
  shows "weight p (run_pc p (ls_pc s p) s) < weight p s"
proof (cases "ls_pc s p")
  case (Scan fs out)
  then show ?thesis by (cases fs) (auto simp: weight_def launch_simps split: option.splits)
next
  case (Consume g payload fs out)
  then have "a_request g" using assms(2) by (simp add: a_request_def)
  with Consume pending_remove [of g s] show ?thesis
    by (auto simp: weight_def launch_simps length_REQUEST_FILES)
next
  case (Take_compose out)
  with pending_remove [of COMPOSE_REQUEST s] show ?thesis by (auto simp: weight_def launch_simps)
next
  case (Forward out)
  then show ?thesis by (simp add: weight_def launch_simps)
next
  case Blocked
  with assms(3) show ?thesis by (simp add: weight_def launch_simps idle_def length_REQUEST_FILES)
qed (use assms(1) in simp_all)

lemma waits_stays: "waits (ls_pc s p) \<Longrightarrow> waits (ls_pc (run_pc p (ls_pc s p) s) p)"
  by (cases "(p, ls_pc s p, s)" rule: run_pc.cases) (simp_all add: launch_simps split: option.splits)

lemma idle_stays: "idle p s \<Longrightarrow> launch_run s (replicate n (Run p)) = s"
  by (induction n) (simp_all add: launch_run_def idle_def)

lemma alone_others: "q \<noteq> p \<Longrightarrow> ls_pc (launch_run s (replicate n (Run p))) q = ls_pc s q"
proof (induction n arbitrary: s)
  case (Suc n)
  then show ?case by (simp add: launch_run_def run_others)
qed (simp add: launch_run_def)

lemma idle_after:
  assumes "waits (ls_pc s p)" "scan_ok (ls_pc s p)" "weight p s \<le> n"
  shows "idle p (launch_run s (replicate n (Run p)))"
  using assms
proof (induction n arbitrary: s)
  case 0
  then show ?case using weight_decreases [of s p] by (auto simp: launch_run_def)
next
  case (Suc n)
  show ?case
  proof (cases "idle p s")
    case True
    with idle_stays [OF True, of "Suc n"] show ?thesis by simp
  next
    case False
    with Suc.prems weight_decreases [of s p] have "weight p (run_pc p (ls_pc s p) s) \<le> n" by simp
    with Suc.prems show ?thesis
      using Suc.IH [of "run_pc p (ls_pc s p) s"] by (simp add: launch_run_def waits_stays run_scan_ok)
  qed
qed

lemma weight_bound: "scan_ok (ls_pc s p) \<Longrightarrow> weight p s \<le> 52"
proof -
  assume "scan_ok (ls_pc s p)"
  then have "turns_left (ls_pc s p) \<le> 10" by (cases "ls_pc s p") auto
  moreover have "pending s \<le> 4"
    using length_filter_le [of "\<lambda>f. ls_files s f \<noteq> None" "COMPOSE_REQUEST # REQUEST_FILES"]
    by (simp add: pending_def length_REQUEST_FILES)
  ultimately show ?thesis by (simp add: weight_def)
qed

text \<open>C13. Once the first instance waits for launches, a request left in the directory is never
  lost: however the processes interleave, unless the instance dies, it has forwarded the
  request to its window and sleeps again after at most 52 turns of its own behind the moment
  when nobody is in the middle of handing over.\<close>

theorem request_reaches_the_window:
  fixes files kinds earlier turns p f
  defines "s \<equiv> launch_run (launch_start files kinds) earlier"
  defines "s' \<equiv> launch_run s (turns @ replicate 52 (Run p))"
  assumes waiting: "waits (ls_pc s p)"
    and left_behind: "a_request f" "ls_files s f \<noteq> None"
    and alive: "Die p \<notin> set turns"
    and quiet: "\<And>q. \<not> handing_over (ls_pc (launch_run s turns) q)"
  shows "ls_pc s' p = Blocked \<and> ls_files s' f = None \<and>
    list_ex (same_request f) (drop (length (taken p s)) (map snd (filter (\<lambda>(q, _). q = p) (ls_log s'))))"
proof -
  let ?m = "launch_run s turns"
  have ok: "launch_ok s" by (simp add: s_def launch_run_ok start_ok)
  have scan: "scan_ok (ls_pc s p)"
    by (simp add: s_def launch_run_scan_ok launch_start_def)
  have heard: "heard p f (taken p s) s" using waiting left_behind by (simp add: heard_def)
  have "heard p f (taken p s) ?m" by (rule heard_run [OF heard ok left_behind(1) scan alive])
  then have m: "waits (ls_pc ?m p)" by (simp add: heard_def)
  have s': "s' = launch_run ?m (replicate 52 (Run p))" by (simp add: s'_def launch_run_append)
  have idle: "idle p s'"
    unfolding s' using m launch_run_scan_ok [OF scan] weight_bound by (intro idle_after) auto
  have heard': "heard p f (taken p s) s'"
    unfolding s'_def using alive by (intro heard_run [OF heard ok left_behind(1) scan]) auto
  have others: "\<not> handing_over (ls_pc s' q)" for q
  proof (cases "q = p")
    case True
    then show ?thesis using idle by (simp add: idle_def)
  next
    case False
    with quiet show ?thesis by (simp add: s' alone_others)
  qed
  have "launch_ok s'" by (simp add: s'_def ok launch_run_ok)
  then have "ls_lock s' = Some p" "requests_known s'"
    using heard' holder [of s' p] by (auto simp: launch_ok_def heard_def is_first_def)
  then have "ls_files s' f = None"
    using idle others left_behind(1) by (auto simp: requests_known_def known_def idle_def)
  with heard' idle show ?thesis by (simp add: heard_def idle_def taken_def)
qed

text \<open>Two launches for the examples: process 0 opens the window, process 1 asks for a new
  message, every other one only shows the window.\<close>

definition demo_kinds :: "nat \<Rightarrow> launch_kind" where
  "demo_kinds p = Window (p = 1)"

definition demo_launches :: launch_sys where
  "demo_launches = launch_start (\<lambda>_. None) demo_kinds"

lemmas launch_eval = demo_launches_def launch_start_def demo_kinds_def launch_run_def launch_simps
  REQUEST_FILES_def QUIT_FILE_def SHOW_FILE_def OPEN_FILE_def COMPOSE_REQUEST_def eval_nat_numeral

lemma demo_waiting:
  "launch_run demo_launches (replicate 7 (Run 0) @ replicate 2 (Run 1)) =
   demo_launches\<lparr>ls_files := [COMPOSE_REQUEST \<mapsto> []], ls_lock := Some 0, ls_event := Some False,
     ls_pc := (ls_pc demo_launches)(0 := Scan REQUEST_FILES [], 1 := Write_show)\<rparr>"
  by (simp add: launch_eval fun_eq_iff)

theorem request_reaches_the_window_witness:
  "list_ex (same_request COMPOSE_REQUEST) (map snd (filter (\<lambda>(q, _). q = 0)
     (ls_log (launch_run (launch_run (launch_start (\<lambda>_. None) demo_kinds) (replicate 7 (Run 0) @ replicate 2 (Run 1)))
        (replicate 2 (Run 1) @ replicate 52 (Run 0))))))"
proof -
  let ?s = "launch_run (launch_start (\<lambda>_. None) demo_kinds) (replicate 7 (Run 0) @ replicate 2 (Run 1))"
  note s = demo_waiting [unfolded demo_launches_def]
  have "waits (ls_pc ?s 0)" "ls_files ?s COMPOSE_REQUEST \<noteq> None" "taken 0 ?s = []"
    unfolding s by (simp_all add: taken_def launch_start_def)
  moreover have "\<not> handing_over (ls_pc (launch_run ?s (replicate 2 (Run 1))) q)" for q
    unfolding s by (simp add: launch_run_def launch_simps launch_start_def eval_nat_numeral)
  ultimately show ?thesis
    using request_reaches_the_window [of "\<lambda>_. None" demo_kinds "replicate 7 (Run 0) @ replicate 2 (Run 1)" 0
        COMPOSE_REQUEST "replicate 2 (Run 1)"] by simp
qed

text \<open>Between taking the lock and creating the event the first instance can miss a launch.  One
  that hands over before the old requests are discarded has its request thrown away with them,
  yet ends as handed over: no new message is opened.\<close>

lemma early_request_is_discarded:
  "let s = launch_run demo_launches ([Run 0] @ replicate 3 (Run 1) @ replicate 6 (Run 0) @ [Run 1] @ replicate 60 (Run 0)) in
   ls_pc s 1 = Handed_over \<and> idle 0 s \<and> ls_log s = []"
  by (simp add: launch_eval idle_def Let_def)

text \<open>One that comes to signal before the event exists ends with an error.\<close>

lemma early_signal_fails:
  "ls_pc (launch_run demo_launches ([Run 0] @ replicate 4 (Run 1))) 1 = Failed"
  by (simp add: launch_eval)

end
