(* ===== verification/Startup.thy ===== *)
theory Startup
  imports Launch Composes
begin

text \<open>
  The command line, \<open>crates/esmail-win32/src/app/args.rs\<close>: every flag with its value, the defaults and
  the usage error.  The debug rendering of a string in an error message is the argument \<open>dbg\<close>.  The
  lemma at the end writes a command line for any combination of arguments and shows that it is read
  back as that combination.
\<close>

section \<open>The command line\<close>

record args =
  ag_theme :: "theme_choice option"
  ag_profile :: "str option"
  ag_screenshot :: "str option"
  ag_folder :: "str option"
  ag_account :: nat
  ag_select :: "nat option"
  ag_compose :: "compose_kind option"
  ag_acrylic :: bool
  ag_remote_images :: bool
  ag_accounts :: bool
  ag_settings :: bool
  ag_quit :: bool
  ag_purge_data :: bool
  ag_show :: "queue_kind option"

definition no_args :: args where
  "no_args = \<lparr>ag_theme = None, ag_profile = None, ag_screenshot = None, ag_folder = None, ag_account = 0,
     ag_select = None, ag_compose = None, ag_acrylic = False, ag_remote_images = False, ag_accounts = False,
     ag_settings = False, ag_quit = False, ag_purge_data = False, ag_show = None\<rparr>"

definition USAGE :: str where
  "USAGE = lit ''usage: esmail-win32 [--theme light|dark|system] [--profile NAME] [--screenshot OUT.png] [--select ROW] [--folder NAME] '' @ [10] @
     lit ''[--compose new|reply|reply-all|forward] [--acrylic] [--account N] [--remote-images] [--accounts] [--settings] [--show drafts|outbox] [--quit] [--purge-data]''"

definition usage_error :: "str \<Rightarrow> str + 'a" where
  "usage_error message = Inl (message @ [10] @ USAGE)"

definition take_value :: "str \<Rightarrow> str list \<Rightarrow> str + str \<times> str list" where
  "take_value flag rest =
     (case rest of [] \<Rightarrow> usage_error (flag @ lit '' needs a value'') | v # vs \<Rightarrow> Inr (v, vs))"

definition bind_result :: "'e + 'a \<Rightarrow> ('a \<Rightarrow> 'e + 'b) \<Rightarrow> 'e + 'b" where
  "bind_result r f = (case r of Inl e \<Rightarrow> Inl e | Inr a \<Rightarrow> f a)"

definition choice_of :: "(string \<times> 'a) list \<Rightarrow> (str \<Rightarrow> str) \<Rightarrow> string \<Rightarrow> str \<Rightarrow> str + 'a" where
  "choice_of choices dbg what v =
     (case find (\<lambda>(name, _). lit name = v) choices of
        Some (_, c) \<Rightarrow> Inr c
      | None \<Rightarrow> usage_error (lit ''unknown '' @ lit what @ lit '' '' @ dbg v))"

definition THEMES :: "(string \<times> theme_choice) list" where
  "THEMES = [(''light'', ThemeLight), (''dark'', ThemeDark), (''system'', ThemeSystem)]"

definition WINDOWS :: "(string \<times> queue_kind) list" where
  "WINDOWS = [(''drafts'', QueueDrafts), (''outbox'', QueueOutbox)]"

definition KINDS :: "(string \<times> compose_kind) list" where
  "KINDS = [(''new'', KindNew), (''reply'', KindReply), (''reply-all'', KindReplyAll), (''forward'', KindForward)]"

definition parse_number :: "string \<Rightarrow> str \<Rightarrow> str + nat" where
  "parse_number complaint v =
     (case parse_nat (2 ^ 64) v of Some n \<Rightarrow> Inr n | None \<Rightarrow> usage_error (lit complaint))"

text \<open>One turn of the loop: what one flag sets, and the words left.\<close>

definition parse_flag :: "(str \<Rightarrow> str) \<Rightarrow> str \<Rightarrow> str list \<Rightarrow> args \<Rightarrow> str + args \<times> str list" where
  "parse_flag dbg flag rest a =
     (let value = take_value flag rest in
      if flag = lit ''--theme'' then
        bind_result value (\<lambda>(v, rest). map_sum id (\<lambda>t. (a\<lparr>ag_theme := Some t\<rparr>, rest)) (choice_of THEMES dbg ''theme'' v))
      else if flag = lit ''--profile'' then map_sum id (\<lambda>(v, rest). (a\<lparr>ag_profile := Some v\<rparr>, rest)) value
      else if flag = lit ''--screenshot'' then map_sum id (\<lambda>(v, rest). (a\<lparr>ag_screenshot := Some v\<rparr>, rest)) value
      else if flag = lit ''--folder'' then map_sum id (\<lambda>(v, rest). (a\<lparr>ag_folder := Some v\<rparr>, rest)) value
      else if flag = lit ''--account'' then
        bind_result value (\<lambda>(v, rest). map_sum id (\<lambda>n. (a\<lparr>ag_account := n\<rparr>, rest))
          (parse_number ''--account needs an account number'' v))
      else if flag = lit ''--select'' then
        bind_result value (\<lambda>(v, rest). map_sum id (\<lambda>n. (a\<lparr>ag_select := Some n\<rparr>, rest))
          (parse_number ''--select needs a row number'' v))
      else if flag = lit ''--acrylic'' then Inr (a\<lparr>ag_acrylic := True\<rparr>, rest)
      else if flag = lit ''--remote-images'' then Inr (a\<lparr>ag_remote_images := True\<rparr>, rest)
      else if flag = lit ''--accounts'' then Inr (a\<lparr>ag_accounts := True\<rparr>, rest)
      else if flag = lit ''--settings'' then Inr (a\<lparr>ag_settings := True\<rparr>, rest)
      else if flag = lit ''--quit'' then Inr (a\<lparr>ag_quit := True\<rparr>, rest)
      else if flag = lit ''--purge-data'' then Inr (a\<lparr>ag_purge_data := True\<rparr>, rest)
      else if flag = lit ''--show'' then
        bind_result value (\<lambda>(v, rest). map_sum id (\<lambda>w. (a\<lparr>ag_show := Some w\<rparr>, rest)) (choice_of WINDOWS dbg ''window'' v))
      else if flag = lit ''--compose'' then
        bind_result value (\<lambda>(v, rest). map_sum id (\<lambda>k. (a\<lparr>ag_compose := Some k\<rparr>, rest)) (choice_of KINDS dbg ''compose kind'' v))
      else usage_error (lit ''unknown flag '' @ flag))"

lemma take_value_rest: "take_value flag rest = Inr (v, rest') \<Longrightarrow> length rest' \<le> length rest"
  by (auto simp: take_value_def usage_error_def split: list.splits)

lemma parse_flag_rest: "parse_flag dbg flag rest a = Inr (a', rest') \<Longrightarrow> length rest' \<le> length rest"
  by (cases "take_value flag rest")
    (auto simp: parse_flag_def Let_def bind_result_def usage_error_def map_sum_def
      dest!: take_value_rest split: if_splits sum.splits)

function parse_from :: "(str \<Rightarrow> str) \<Rightarrow> str list \<Rightarrow> args \<Rightarrow> str + args" where
  "parse_from dbg [] a = Inr a"
| "parse_from dbg (flag # rest) a =
     (case parse_flag dbg flag rest a of Inl e \<Rightarrow> Inl e | Inr (a, rest) \<Rightarrow> parse_from dbg rest a)"
  by pat_completeness auto
termination
  by (relation "measure (\<lambda>(_, words, _). length words)") (auto dest!: parse_flag_rest)

section \<open>Round trip\<close>

text \<open>The words that ask for some arguments.\<close>

definition value_words :: "string \<Rightarrow> str option \<Rightarrow> str list" where
  "value_words flag v = (case v of None \<Rightarrow> [] | Some v \<Rightarrow> [lit flag, v])"

definition switch_words :: "string \<Rightarrow> bool \<Rightarrow> str list" where
  "switch_words flag on = (if on then [lit flag] else [])"

definition name_in :: "(string \<times> 'a) list \<Rightarrow> 'a \<Rightarrow> str" where
  "name_in choices c = (case find (\<lambda>(_, d). d = c) choices of Some (name, _) \<Rightarrow> lit name | None \<Rightarrow> [])"

definition words_of :: "args \<Rightarrow> str list" where
  "words_of a =
     value_words ''--theme'' (map_option (name_in THEMES) (ag_theme a)) @
     value_words ''--profile'' (ag_profile a) @
     value_words ''--screenshot'' (ag_screenshot a) @
     value_words ''--folder'' (ag_folder a) @
     [lit ''--account'', dec_digits (ag_account a)] @
     value_words ''--select'' (map_option dec_digits (ag_select a)) @
     value_words ''--compose'' (map_option (name_in KINDS) (ag_compose a)) @
     switch_words ''--acrylic'' (ag_acrylic a) @
     switch_words ''--remote-images'' (ag_remote_images a) @
     switch_words ''--accounts'' (ag_accounts a) @
     switch_words ''--settings'' (ag_settings a) @
     switch_words ''--quit'' (ag_quit a) @
     switch_words ''--purge-data'' (ag_purge_data a) @
     value_words ''--show'' (map_option (name_in WINDOWS) (ag_show a))"

lemma choice_name:
  "choice_of THEMES dbg what (name_in THEMES t) = Inr t"
  "choice_of WINDOWS dbg what (name_in WINDOWS w) = Inr w"
  "choice_of KINDS dbg what (name_in KINDS k) = Inr k"
proof -
  show "choice_of THEMES dbg what (name_in THEMES t) = Inr t"
    by (cases t) (simp_all add: choice_of_def name_in_def THEMES_def)
  show "choice_of WINDOWS dbg what (name_in WINDOWS w) = Inr w"
    by (cases w) (simp_all add: choice_of_def name_in_def WINDOWS_def)
  show "choice_of KINDS dbg what (name_in KINDS k) = Inr k"
    by (cases k) (simp_all add: choice_of_def name_in_def KINDS_def)
qed

lemma parse_number_dec: "n < 2 ^ 64 \<Longrightarrow> parse_number c (dec_digits n) = Inr n"
  by (simp add: parse_number_def parse_nat_dec)

lemmas parse_word = parse_flag_def take_value_def bind_result_def value_words_def switch_words_def Let_def
  choice_name parse_number_dec

lemma parse_theme: "parse_from dbg (value_words ''--theme'' (map_option (name_in THEMES) v) @ ws) a =
    parse_from dbg ws (a\<lparr>ag_theme := if v = None then ag_theme a else v\<rparr>)"
  by (cases v) (simp_all add: parse_word)

lemma parse_profile: "parse_from dbg (value_words ''--profile'' v @ ws) a =
    parse_from dbg ws (a\<lparr>ag_profile := if v = None then ag_profile a else v\<rparr>)"
  by (cases v) (simp_all add: parse_word)

lemma parse_screenshot: "parse_from dbg (value_words ''--screenshot'' v @ ws) a =
    parse_from dbg ws (a\<lparr>ag_screenshot := if v = None then ag_screenshot a else v\<rparr>)"
  by (cases v) (simp_all add: parse_word)

lemma parse_folder: "parse_from dbg (value_words ''--folder'' v @ ws) a =
    parse_from dbg ws (a\<lparr>ag_folder := if v = None then ag_folder a else v\<rparr>)"
  by (cases v) (simp_all add: parse_word)

lemma parse_compose: "parse_from dbg (value_words ''--compose'' (map_option (name_in KINDS) v) @ ws) a =
    parse_from dbg ws (a\<lparr>ag_compose := if v = None then ag_compose a else v\<rparr>)"
  by (cases v) (simp_all add: parse_word)

lemma parse_show: "parse_from dbg (value_words ''--show'' (map_option (name_in WINDOWS) v) @ ws) a =
    parse_from dbg ws (a\<lparr>ag_show := if v = None then ag_show a else v\<rparr>)"
  by (cases v) (simp_all add: parse_word)

lemma parse_select: "pred_option (\<lambda>n. n < 2 ^ 64) v \<Longrightarrow> parse_from dbg (value_words ''--select'' (map_option dec_digits v) @ ws) a =
    parse_from dbg ws (a\<lparr>ag_select := if v = None then ag_select a else v\<rparr>)"
  by (cases v) (simp_all add: parse_word)

lemma parse_account: "n < 2 ^ 64 \<Longrightarrow> parse_from dbg ([lit ''--account'', dec_digits n] @ ws) a =
    parse_from dbg ws (a\<lparr>ag_account := n\<rparr>)"
  by (simp add: parse_word)

lemma parse_switches:
  "parse_from dbg (switch_words ''--acrylic'' b @ ws) a = parse_from dbg ws (a\<lparr>ag_acrylic := ag_acrylic a \<or> b\<rparr>)"
  "parse_from dbg (switch_words ''--remote-images'' b @ ws) a = parse_from dbg ws (a\<lparr>ag_remote_images := ag_remote_images a \<or> b\<rparr>)"
  "parse_from dbg (switch_words ''--accounts'' b @ ws) a = parse_from dbg ws (a\<lparr>ag_accounts := ag_accounts a \<or> b\<rparr>)"
  "parse_from dbg (switch_words ''--settings'' b @ ws) a = parse_from dbg ws (a\<lparr>ag_settings := ag_settings a \<or> b\<rparr>)"
  "parse_from dbg (switch_words ''--quit'' b @ ws) a = parse_from dbg ws (a\<lparr>ag_quit := ag_quit a \<or> b\<rparr>)"
  "parse_from dbg (switch_words ''--purge-data'' b @ ws) a = parse_from dbg ws (a\<lparr>ag_purge_data := ag_purge_data a \<or> b\<rparr>)"
  by (cases b; simp add: parse_word)+

text \<open>Every combination of arguments can be asked for on the command line: parsing the words
  that ask for it gives exactly it, whatever the names in it look like.\<close>

theorem arguments_round_trip:
  assumes "ag_account a < 2 ^ 64" "pred_option (\<lambda>n. n < 2 ^ 64) (ag_select a)"
  shows "parse_from dbg (words_of a) no_args = Inr a"
proof -
  have last_word: "parse_from dbg (value_words ''--show'' (map_option (name_in WINDOWS) w)) b =
      Inr (b\<lparr>ag_show := if w = None then ag_show b else w\<rparr>)" for w b
    using parse_show [of dbg w "[]" b] by simp
  show ?thesis
    unfolding words_of_def
    by (simp only: parse_theme parse_profile parse_screenshot parse_folder parse_account [OF assms(1)]
        parse_select [OF assms(2)] parse_compose parse_switches last_word)
      (simp add: no_args_def)
qed

theorem arguments_round_trip_witness:
  "parse_from id (words_of (no_args\<lparr>ag_profile := Some (lit ''--quit''), ag_account := 1, ag_select := Some 2\<rparr>)) no_args =
   Inr (no_args\<lparr>ag_profile := Some (lit ''--quit''), ag_account := 1, ag_select := Some 2\<rparr>)"
  by (rule arguments_round_trip) simp_all

end
