(* ===== verification/Purge.thy ===== *)
theory Purge
  imports Panes
begin

text \<open>
  \<open>--purge-data\<close>, the removal of everything the program has stored for a user:
  \<open>crates/esmail/src/uninstall.rs\<close> and the names of \<open>paths.rs\<close>.

  A path is the list of its components from the root; the file system is its set of files and
  its set of directories.  \<open>pg_refused\<close> are the entries the system does not let go (a file
  that is open), and \<open>pg_partial\<close> is what a failed removal of a directory leaves.  The keyring
  is the one of \<open>Auth\<close>, and \<open>pg_kept\<close> are its entries that cannot be deleted.
\<close>

section \<open>The file system\<close>

type_synonym path = "str list"

record tree_fs =
  fs_files :: "path set"
  fs_dirs :: "path set"

record purge_env =
  pg_refused :: "path set"
  pg_kept :: "(str \<times> str) set"
  pg_partial :: "tree_fs \<Rightarrow> path \<Rightarrow> tree_fs"
  pg_error :: str
  pg_display :: "path \<Rightarrow> str"

definition below :: "path \<Rightarrow> path \<Rightarrow> bool" where
  "below dir p \<longleftrightarrow> take (length dir) p = dir"

datatype removal = Removed_it | Not_found | Refused

text \<open>\<open>fs::remove_file\<close>, \<open>fs::remove_dir\<close> (which removes only an empty directory) and
  \<open>fs::remove_dir_all\<close>.\<close>

definition remove_file :: "purge_env \<Rightarrow> path \<Rightarrow> tree_fs \<Rightarrow> removal \<times> tree_fs" where
  "remove_file env p fs =
     (if p \<in> fs_dirs fs then (Refused, fs)
      else if p \<notin> fs_files fs then (Not_found, fs)
      else if p \<in> pg_refused env then (Refused, fs)
      else (Removed_it, fs\<lparr>fs_files := fs_files fs - {p}\<rparr>))"

definition empty_dir :: "tree_fs \<Rightarrow> path \<Rightarrow> bool" where
  "empty_dir fs d \<longleftrightarrow> (\<forall>p \<in> fs_files fs \<union> fs_dirs fs. below d p \<longrightarrow> p = d)"

definition remove_dir :: "purge_env \<Rightarrow> path \<Rightarrow> tree_fs \<Rightarrow> tree_fs" where
  "remove_dir env d fs =
     (if d \<in> fs_dirs fs \<and> empty_dir fs d \<and> d \<notin> pg_refused env then fs\<lparr>fs_dirs := fs_dirs fs - {d}\<rparr> else fs)"

definition remove_dir_all :: "purge_env \<Rightarrow> path \<Rightarrow> tree_fs \<Rightarrow> removal \<times> tree_fs" where
  "remove_dir_all env d fs =
     (if d \<notin> fs_dirs fs \<and> d \<notin> fs_files fs then (Not_found, fs)
      else if d \<in> fs_files fs \<or> (\<exists>p \<in> pg_refused env. below d p \<and> p \<in> fs_files fs \<union> fs_dirs fs)
      then (Refused, pg_partial env fs d)
      else (Removed_it, \<lparr>fs_files = {p \<in> fs_files fs. \<not> below d p}, fs_dirs = {p \<in> fs_dirs fs. \<not> below d p}\<rparr>))"

section \<open>Removal\<close>

definition CONFIG_FILE_NAME :: str where "CONFIG_FILE_NAME = lit ''config.toml''"
definition TOAST_ICON_FILE_NAME :: str where "TOAST_ICON_FILE_NAME = lit ''toast-icon.png''"

definition PURGED_KINDS :: "str list" where
  "PURGED_KINDS = [lit ''imap'', lit ''smtp'', lit ''oauth'']"

definition DATA_FILES :: "str list" where
  "DATA_FILES = map lit
     [''mails.db'', ''mails.db-wal'', ''mails.db-shm'', ''mails.db-journal'', ''esmail.lock'', ''show.request'',
      ''quit.request'', ''ipc.token'']"

record purge_layout =
  ly_config_dir :: "path option"
  ly_config_exclusive :: bool
  ly_data_dir :: "path option"
  ly_data_exclusive :: bool
  ly_scratch_dir :: path

text \<open>Where things are: an environment variable that is set and not empty names a directory of its
  own, which is then not the program's alone; else the directories are those the platform
  gives (the crate \<open>directories\<close>: the configuration's and the data's).\<close>

definition override_dir :: "(str \<Rightarrow> path) \<Rightarrow> str option \<Rightarrow> path option" where
  "override_dir path_of var = (case var of None \<Rightarrow> None | Some v \<Rightarrow> if v = [] then None else Some (path_of v))"

definition config_dir :: "(str \<Rightarrow> path) \<Rightarrow> str option \<Rightarrow> (path \<times> path) option \<Rightarrow> path option" where
  "config_dir path_of var project =
     (case override_dir path_of var of Some d \<Rightarrow> Some d | None \<Rightarrow> map_option fst project)"

definition data_dir :: "(str \<Rightarrow> path) \<Rightarrow> str option \<Rightarrow> (path \<times> path) option \<Rightarrow> path option" where
  "data_dir path_of var project =
     (case override_dir path_of var of Some d \<Rightarrow> Some d | None \<Rightarrow> map_option snd project)"

definition attachments_dir :: "path \<Rightarrow> path" where
  "attachments_dir temp_dir = temp_dir @ [lit ''esmail-attachments'']"

definition layout_current ::
  "(str \<Rightarrow> path) \<Rightarrow> str option \<Rightarrow> str option \<Rightarrow> (path \<times> path) option \<Rightarrow> path \<Rightarrow> purge_layout" where
  "layout_current path_of config_var data_var project temp_dir =
     \<lparr>ly_config_dir = config_dir path_of config_var project,
      ly_config_exclusive = (override_dir path_of config_var = None),
      ly_data_dir = data_dir path_of data_var project,
      ly_data_exclusive = (override_dir path_of data_var = None),
      ly_scratch_dir = attachments_dir temp_dir\<rparr>"

text \<open>A directory that is deleted wholesale is the platform's.\<close>

lemma exclusive_is_the_platforms:
  "ly_config_exclusive (layout_current path_of cv dv project t) \<Longrightarrow>
   ly_config_dir (layout_current path_of cv dv project t) = map_option fst project"
  "ly_data_exclusive (layout_current path_of cv dv project t) \<Longrightarrow>
   ly_data_dir (layout_current path_of cv dv project t) = map_option snd project"
  by (simp_all add: layout_current_def config_dir_def data_dir_def)

type_synonym purging = "str list \<times> tree_fs"

definition problem :: "purge_env \<Rightarrow> path \<Rightarrow> removal \<Rightarrow> str list" where
  "problem env p r =
     (case r of Removed_it \<Rightarrow> [] | Not_found \<Rightarrow> [] | Refused \<Rightarrow> [pg_display env p @ lit '': '' @ pg_error env])"

definition remove_dir_all_if_present :: "purge_env \<Rightarrow> path \<Rightarrow> purging \<Rightarrow> purging" where
  "remove_dir_all_if_present env d = (\<lambda>(problems, fs).
     let (r, fs) = remove_dir_all env d fs in (problems @ problem env d r, fs))"

definition remove_owned_dir :: "purge_env \<Rightarrow> path \<Rightarrow> purging \<Rightarrow> purging" where
  "remove_owned_dir env d g =
     (let (problems, fs) = remove_dir_all_if_present env d g in
      if d = [] then (problems, fs)
      else (let parent = butlast d in
        if parent \<noteq> [] \<and> eq_ignore_ascii_case (last parent) (lit ''esmail'')
        then (problems, remove_dir env parent fs) else (problems, fs)))"

fun remove_named :: "purge_env \<Rightarrow> path \<Rightarrow> str list \<Rightarrow> purging \<Rightarrow> purging" where
  "remove_named env d [] g = g"
| "remove_named env d (name # names) (problems, fs) =
     (let (r, fs) = remove_file env (d @ [name]) fs
      in remove_named env d names (problems @ problem env (d @ [name]) r, fs))"

definition remove_files :: "purge_env \<Rightarrow> path \<Rightarrow> str list \<Rightarrow> purging \<Rightarrow> purging" where
  "remove_files env d names g = (let (problems, fs) = remove_named env d names g in (problems, remove_dir env d fs))"

definition purge_dir :: "purge_env \<Rightarrow> path option \<Rightarrow> bool \<Rightarrow> str list \<Rightarrow> purging \<Rightarrow> purging" where
  "purge_dir env d exclusive names g =
     (case d of None \<Rightarrow> g
      | Some d \<Rightarrow> if exclusive then remove_owned_dir env d g else remove_files env d names g)"

definition purge_secrets :: "purge_env \<Rightarrow> str option \<Rightarrow> account_config list \<Rightarrow> keyring \<Rightarrow> keyring" where
  "purge_secrets env sv accounts kr =
     fold (\<lambda>account kr. fold (\<lambda>kind kr. delete_password (pg_kept env) sv (ac_id account) kind kr) PURGED_KINDS kr) accounts kr"

definition purge ::
  "purge_env \<Rightarrow> str option \<Rightarrow> purge_layout \<Rightarrow> account_config list \<Rightarrow> keyring \<Rightarrow> tree_fs \<Rightarrow> str list \<times> keyring \<times> tree_fs" where
  "purge env sv layout accounts kr fs =
     (let kr = purge_secrets env sv accounts kr;
          g = purge_dir env (ly_config_dir layout) (ly_config_exclusive layout) [CONFIG_FILE_NAME] ([], fs);
          g = purge_dir env (ly_data_dir layout) (ly_data_exclusive layout) (DATA_FILES @ [TOAST_ICON_FILE_NAME]) g;
          (problems, fs) = remove_dir_all_if_present env (ly_scratch_dir layout) g
      in (problems, kr, fs))"

text \<open>\<open>purge_user_data\<close>: \<open>unregistered\<close> is the outcome of removing the registry entry.\<close>

definition purge_user_data ::
  "purge_env \<Rightarrow> str option \<Rightarrow> purge_layout \<Rightarrow> account_config list \<Rightarrow> str + unit \<Rightarrow> keyring \<Rightarrow> tree_fs \<Rightarrow>
   str list \<times> keyring \<times> tree_fs" where
  "purge_user_data env sv layout accounts unregistered kr fs =
     (let (problems, kr, fs) = purge env sv layout accounts kr fs
      in (problems @ (case unregistered of Inl e \<Rightarrow> [lit ''notification registration: '' @ e] | Inr _ \<Rightarrow> []), kr, fs))"

section \<open>What is left\<close>

definition entries :: "tree_fs \<Rightarrow> path set" where
  "entries fs = fs_files fs \<union> fs_dirs fs"

lemma below_refl [simp]: "below d d" "below d (d @ p)"
  by (simp_all add: below_def)

text \<open>The entries of the keyring a removal is for.\<close>

definition purged_entries :: "str option \<Rightarrow> account_config list \<Rightarrow> (str \<times> str) set" where
  "purged_entries sv accounts = (\<Union>a \<in> set accounts. keyring_entry sv (ac_id a) ` set PURGED_KINDS)"

lemma purge_secrets_entry:
  "purge_secrets env sv accounts kr e = (if e \<in> purged_entries sv accounts - pg_kept env then None else kr e)"
proof (induction accounts arbitrary: kr)
  case (Cons a accounts)
  have one: "fold (\<lambda>kind kr. delete_password (pg_kept env) sv (ac_id a) kind kr) kinds kr e =
      (if e \<in> keyring_entry sv (ac_id a) ` set kinds - pg_kept env then None else kr e)" for kinds kr
    by (induction kinds arbitrary: kr) (auto simp: delete_password_def)
  let ?kr = "fold (\<lambda>kind kr. delete_password (pg_kept env) sv (ac_id a) kind kr) PURGED_KINDS kr"
  have "purge_secrets env sv (a # accounts) kr e = purge_secrets env sv accounts ?kr e"
    by (simp add: purge_secrets_def)
  with Cons [of ?kr] one [of PURGED_KINDS kr] show ?case by (simp add: purged_entries_def)
qed (simp add: purge_secrets_def purged_entries_def)

text \<open>What the removal of one directory may touch: what is below it, its \<open>esmail\<close> folder, and
  the named files of a directory that is not the program's own.\<close>

definition ours :: "path option \<Rightarrow> bool \<Rightarrow> str list \<Rightarrow> path set" where
  "ours d exclusive names =
     (case d of None \<Rightarrow> {}
      | Some d \<Rightarrow> if exclusive then {p. below d p} \<union> {p. p = butlast d \<and> p \<noteq> [] \<and> eq_ignore_ascii_case (last p) (lit ''esmail'')}
          else {d} \<union> (\<lambda>name. d @ [name]) ` set names)"

text \<open>A failed removal takes nothing from outside the directory and adds nothing.\<close>

definition contained :: "purge_env \<Rightarrow> bool" where
  "contained env \<longleftrightarrow> (\<forall>fs d. entries (pg_partial env fs d) \<subseteq> entries fs \<and>
     (\<forall>p \<in> entries fs. \<not> below d p \<longrightarrow> p \<in> entries (pg_partial env fs d)))"

lemma remove_dir_entries: "entries fs - {d} \<subseteq> entries (remove_dir env d fs)" "entries (remove_dir env d fs) \<subseteq> entries fs"
  by (auto simp: remove_dir_def entries_def)

lemma remove_file_entries:
  "entries fs - {p} \<subseteq> entries (snd (remove_file env p fs))" "entries (snd (remove_file env p fs)) \<subseteq> entries fs"
  by (auto simp: remove_file_def entries_def)

lemma remove_dir_all_entries:
  assumes "contained env"
  shows "entries fs - {p. below d p} \<subseteq> entries (snd (remove_dir_all env d fs))"
    and "entries (snd (remove_dir_all env d fs)) \<subseteq> entries fs"
  using assms by (auto simp: remove_dir_all_def contained_def) (auto simp: entries_def)

lemma remove_named_entries:
  "entries (snd g) - (\<lambda>name. d @ [name]) ` set names \<subseteq> entries (snd (remove_named env d names g)) \<and>
   entries (snd (remove_named env d names g)) \<subseteq> entries (snd g)"
proof (induction names arbitrary: g)
  case (Cons name names)
  obtain problems fs where g: "g = (problems, fs)" by fastforce
  obtain r fs' where r: "remove_file env (d @ [name]) fs = (r, fs')" by fastforce
  have "entries fs - {d @ [name]} \<subseteq> entries fs'" "entries fs' \<subseteq> entries fs"
    using remove_file_entries [where fs = fs and p = "d @ [name]" and env = env] by (simp_all add: r)
  moreover note Cons [where g = "(problems @ problem env (d @ [name]) r, fs')"]
  ultimately show ?case by (auto simp: g r)
qed auto

lemma purge_dir_entries:
  assumes "contained env"
  shows "entries (snd g) - ours d exclusive names \<subseteq> entries (snd (purge_dir env d exclusive names g))"
    and "entries (snd (purge_dir env d exclusive names g)) \<subseteq> entries (snd g)"
proof -
  obtain problems fs where g: "g = (problems, fs)" by fastforce
  have "entries fs - ours d exclusive names \<subseteq> entries (snd (purge_dir env d exclusive names g)) \<and>
        entries (snd (purge_dir env d exclusive names g)) \<subseteq> entries fs"
  proof (cases d)
    case None
    then show ?thesis by (auto simp: purge_dir_def g)
  next
    case (Some d)
    note some = this
    show ?thesis
    proof (cases exclusive)
      case True
      note all = remove_dir_all_entries [OF assms, where fs = fs and d = d]
      obtain r fs' where r: "remove_dir_all env d fs = (r, fs')" by fastforce
      from all r remove_dir_entries [where fs = fs' and d = "butlast d" and env = env] show ?thesis
        by (auto simp: purge_dir_def some True g remove_owned_dir_def remove_dir_all_if_present_def ours_def Let_def)
    next
      case False
      obtain problems' fs' where named: "remove_named env d names (problems, fs) = (problems', fs')" by fastforce
      from remove_named_entries [where g = g and d = d and names = names and env = env] remove_dir_entries [where fs = fs' and d = d and env = env] show ?thesis
        by (auto simp: purge_dir_def some False g named remove_files_def ours_def Let_def)
    qed
  qed
  then show "entries (snd g) - ours d exclusive names \<subseteq> entries (snd (purge_dir env d exclusive names g))"
    and "entries (snd (purge_dir env d exclusive names g)) \<subseteq> entries (snd g)"
    by (simp_all add: g)
qed

lemma purge_spares:
  assumes "contained env" "purge env sv layout accounts kr fs = (problems, kr', fs')"
  shows "entries fs - (ours (ly_config_dir layout) (ly_config_exclusive layout) [CONFIG_FILE_NAME] \<union>
        ours (ly_data_dir layout) (ly_data_exclusive layout) (DATA_FILES @ [TOAST_ICON_FILE_NAME]) \<union>
        {p. below (ly_scratch_dir layout) p}) \<subseteq> entries fs' \<and> entries fs' \<subseteq> entries fs"
proof -
  let ?g1 = "purge_dir env (ly_config_dir layout) (ly_config_exclusive layout) [CONFIG_FILE_NAME] ([], fs)"
  let ?g2 = "purge_dir env (ly_data_dir layout) (ly_data_exclusive layout) (DATA_FILES @ [TOAST_ICON_FILE_NAME]) ?g1"
  have "fs' = snd (remove_dir_all env (ly_scratch_dir layout) (snd ?g2))"
    using assms(2) by (auto simp: purge_def remove_dir_all_if_present_def Let_def case_prod_beta)
  with purge_dir_entries [OF assms(1), where g = "([], fs)" and d = "ly_config_dir layout" and
      exclusive = "ly_config_exclusive layout" and names = "[CONFIG_FILE_NAME]"]
    purge_dir_entries [OF assms(1), where g = ?g1 and d = "ly_data_dir layout" and
      exclusive = "ly_data_exclusive layout" and names = "DATA_FILES @ [TOAST_ICON_FILE_NAME]"]
    remove_dir_all_entries [OF assms(1), where fs = "snd ?g2" and d = "ly_scratch_dir layout"]
  show ?thesis by auto
qed

text \<open>A system for the examples: nothing is refused.\<close>

definition open_system :: purge_env where
  "open_system = \<lparr>pg_refused = {}, pg_kept = {}, pg_partial = (\<lambda>fs _. fs), pg_error = [], pg_display = concat\<rparr>"

lemma open_system_contained: "contained open_system"
  by (simp add: contained_def open_system_def)

definition home :: "string \<Rightarrow> path" where
  "home name = [lit ''home'', lit name]"

definition demo_tree :: tree_fs where
  "demo_tree = \<lparr>fs_files = {home ''cfg'' @ [lit ''config.toml''], home ''cfg'' @ [lit ''notes.txt'']},
     fs_dirs = {[], [lit ''home''], home ''cfg'', home ''data''}\<rparr>"

text \<open>Removing the data of a user touches nothing of anybody else: whatever the system refuses
  to let go, everything outside the program's own directories stays, of a relocated directory only
  the named files go, and nothing is created.\<close>

theorem purge_spares_other_files:
  assumes "contained env" "purge env sv layout accounts kr fs = (problems, kr', fs')"
  shows "entries fs - (ours (ly_config_dir layout) (ly_config_exclusive layout) [CONFIG_FILE_NAME] \<union>
        ours (ly_data_dir layout) (ly_data_exclusive layout) (DATA_FILES @ [TOAST_ICON_FILE_NAME]) \<union>
        {p. below (ly_scratch_dir layout) p}) \<subseteq> entries fs' \<and> entries fs' \<subseteq> entries fs"
  by (rule purge_spares [OF assms])

theorem purge_spares_other_files_witness:
  "home ''cfg'' @ [lit ''notes.txt''] \<in> entries (snd (snd (purge open_system None
     \<lparr>ly_config_dir = Some (home ''cfg''), ly_config_exclusive = False, ly_data_dir = None, ly_data_exclusive = True,
      ly_scratch_dir = home ''tmp''\<rparr> [] (\<lambda>_. None) demo_tree)))"
proof -
  let ?l = "\<lparr>ly_config_dir = Some (home ''cfg''), ly_config_exclusive = False, ly_data_dir = None, ly_data_exclusive = True,
      ly_scratch_dir = home ''tmp''\<rparr>"
  obtain problems kr' fs' where run: "purge open_system None ?l [] (\<lambda>_. None) demo_tree = (problems, kr', fs')"
    by (metis prod.collapse)
  let ?p = "home ''cfg'' @ [lit ''notes.txt'']"
  have "?p \<in> entries demo_tree" "\<not> below (home ''tmp'') ?p" "?p \<notin> ours (Some (home ''cfg'')) False [CONFIG_FILE_NAME]"
    by (simp_all add: ours_def below_def demo_tree_def home_def entries_def CONFIG_FILE_NAME_def)
  moreover have "ours None True names = {}" for names by (simp add: ours_def)
  ultimately have "?p \<in> entries fs'"
    using purge_spares_other_files [OF open_system_contained run] by (simp add: subset_iff)
  then show ?thesis by (simp add: run)
qed

text \<open>A tree: no path is both a file and a directory, and what an entry is in is a directory.\<close>

definition tree_ok :: "tree_fs \<Rightarrow> bool" where
  "tree_ok fs \<longleftrightarrow> fs_files fs \<inter> fs_dirs fs = {} \<and> (\<forall>p \<in> entries fs. \<forall>n < length p. take n p \<in> fs_dirs fs)"

definition without :: "path \<Rightarrow> tree_fs \<Rightarrow> tree_fs" where
  "without d fs = \<lparr>fs_files = {p \<in> fs_files fs. \<not> below d p}, fs_dirs = {p \<in> fs_dirs fs. \<not> below d p}\<rparr>"

lemma below_take: "below d (take n p) \<Longrightarrow> below d p"
  by (simp add: below_def) (metis append_take_drop_id append_eq_conv_conj length_take min.absorb_iff1 min.left_commute min_def take_append take_take)

lemma without_ok: "tree_ok fs \<Longrightarrow> tree_ok (without d fs)"
  by (auto simp: tree_ok_def without_def entries_def dest: below_take)

lemma entries_without: "entries (without d fs) = {p \<in> entries fs. \<not> below d p}"
  by (auto simp: entries_def without_def)

lemma remove_dir_ok:
  assumes "tree_ok fs"
  shows "tree_ok (remove_dir env d fs)"
proof (cases "d \<in> fs_dirs fs \<and> empty_dir fs d \<and> d \<notin> pg_refused env")
  case True
  have "take n p \<noteq> d" if p: "p \<in> entries fs" "n < length p" for p n
  proof
    assume d: "take n p = d"
    then have "below d p" using p(2) by (auto simp: below_def)
    with True p(1) have "p = d" by (simp add: empty_dir_def entries_def)
    with d p(2) show False by (metis length_take less_irrefl min.absorb4)
  qed
  with assms True show ?thesis
    by (auto simp: tree_ok_def remove_dir_def entries_def)
next
  case False
  then show ?thesis using assms by (auto simp: remove_dir_def)
qed

lemma remove_dir_all_clean:
  assumes "tree_ok fs"
  shows "problem env d (fst (remove_dir_all env d fs)) = [] \<Longrightarrow> snd (remove_dir_all env d fs) = without d fs"
    and "pg_refused env = {} \<Longrightarrow> d \<notin> fs_files fs \<Longrightarrow> problem env d (fst (remove_dir_all env d fs)) = []"
proof -
  have "\<not> below d p" if "d \<notin> fs_dirs fs" "d \<notin> fs_files fs" "p \<in> entries fs" for p
  proof
    assume b: "below d p"
    with that have "p \<noteq> d" by (auto simp: entries_def)
    with b have "length d < length p" "take (length d) p = d"
      by (auto simp: below_def) (metis append_self_conv append_take_drop_id drop_all leI)
    with assms that show False unfolding tree_ok_def by metis
  qed
  then have "d \<notin> fs_dirs fs \<Longrightarrow> d \<notin> fs_files fs \<Longrightarrow> without d fs = fs"
    by (cases fs) (auto simp: without_def entries_def)
  then show "problem env d (fst (remove_dir_all env d fs)) = [] \<Longrightarrow> snd (remove_dir_all env d fs) = without d fs"
    by (auto simp: remove_dir_all_def problem_def without_def split: if_splits)
  show "pg_refused env = {} \<Longrightarrow> d \<notin> fs_files fs \<Longrightarrow> problem env d (fst (remove_dir_all env d fs)) = []"
    by (auto simp: remove_dir_all_def problem_def)
qed

text \<open>What a removal adds to the problems, \<open>new\<close>, tells whether the directory is gone.\<close>

lemma owned_dir_clean:
  assumes "tree_ok fs" and "remove_owned_dir env d (problems, fs) = (problems', fs')"
  obtains new where "problems' = problems @ new"
    and "new = [] \<Longrightarrow> tree_ok fs' \<and> entries fs' \<subseteq> {p \<in> entries fs. \<not> below d p} \<and> fs_files fs' \<subseteq> fs_files fs"
    and "pg_refused env = {} \<Longrightarrow> d \<notin> fs_files fs \<Longrightarrow> new = []"
proof -
  note clean = remove_dir_all_clean [OF assms(1), of env d]
  let ?w = "snd (remove_dir_all env d fs)" and ?new = "problem env d (fst (remove_dir_all env d fs))"
  have fs': "fs' = (if d \<noteq> [] \<and> butlast d \<noteq> [] \<and> eq_ignore_ascii_case (last (butlast d)) (lit ''esmail'')
      then remove_dir env (butlast d) ?w else ?w)" and new: "problems' = problems @ ?new"
    using assms(2) by (auto simp: remove_owned_dir_def remove_dir_all_if_present_def Let_def case_prod_beta split: if_splits)
  have kept: "tree_ok fs' \<and> entries fs' \<subseteq> {p \<in> entries fs. \<not> below d p} \<and> fs_files fs' \<subseteq> fs_files fs" if "?new = []"
  proof -
    have w: "?w = without d fs" using clean(1) that by simp
    have "tree_ok fs'" using assms(1) by (simp add: fs' w without_ok remove_dir_ok)
    moreover have "entries fs' \<subseteq> {p \<in> entries fs. \<not> below d p}"
      using remove_dir_entries(2) [where fs = ?w and d = "butlast d" and env = env]
      by (auto simp: fs' w entries_without)
    moreover have "fs_files fs' \<subseteq> fs_files fs" by (auto simp: fs' w remove_dir_def without_def)
    ultimately show ?thesis by simp
  qed
  show thesis by (rule that [OF new kept clean(2)])
qed

text \<open>C40. Removing the data of a user from the default places clears exactly the keyring's entries of
  the user's accounts that the system deletes; when it reports no problem, no entry is left at or below
  the configuration, data and attachment directories; and it reports none when the file system refuses
  nothing.  An entry of the keyring that stays is not reported.\<close>

theorem purge_leaves_nothing:
  assumes tree: "tree_ok fs"
    and places: "layout = \<lparr>ly_config_dir = Some c, ly_config_exclusive = True, ly_data_dir = Some d,
      ly_data_exclusive = True, ly_scratch_dir = t\<rparr>"
    and run: "purge env sv layout accounts kr fs = (problems, kr', fs')"
  shows "kr' = (\<lambda>e. if e \<in> purged_entries sv accounts - pg_kept env then None else kr e) \<and>
    (problems = [] \<longrightarrow> entries fs' \<inter> ({p. below c p} \<union> {p. below d p} \<union> {p. below t p}) = {}) \<and>
    (pg_refused env = {} \<longrightarrow> {c, d, t} \<inter> fs_files fs = {} \<longrightarrow> problems = [])"
proof -
  obtain ps1 fs1 where 1: "remove_owned_dir env c ([], fs) = (ps1, fs1)" by fastforce
  obtain ps2 fs2 where 2: "remove_owned_dir env d (ps1, fs1) = (ps2, fs2)" by fastforce
  let ?p3 = "problem env t (fst (remove_dir_all env t fs2))"
  from run have kr': "kr' = purge_secrets env sv accounts kr" and problems: "problems = ps2 @ ?p3"
    and fs': "fs' = snd (remove_dir_all env t fs2)"
    by (auto simp: purge_def places purge_dir_def 1 2 remove_dir_all_if_present_def Let_def case_prod_beta)
  obtain n1 where n1: "ps1 = n1" "n1 = [] \<Longrightarrow> tree_ok fs1 \<and> entries fs1 \<subseteq> {p \<in> entries fs. \<not> below c p} \<and> fs_files fs1 \<subseteq> fs_files fs"
      "pg_refused env = {} \<Longrightarrow> c \<notin> fs_files fs \<Longrightarrow> n1 = []"
    by (rule owned_dir_clean [OF tree 1]) simp
  have n2: "\<exists>n2. ps2 = n2 \<and> (n2 = [] \<longrightarrow> tree_ok fs2 \<and> entries fs2 \<subseteq> {p \<in> entries fs1. \<not> below d p} \<and> fs_files fs2 \<subseteq> fs_files fs1) \<and>
      (pg_refused env = {} \<longrightarrow> d \<notin> fs_files fs1 \<longrightarrow> n2 = [])" if "ps1 = []"
  proof -
    have "tree_ok fs1" using n1(1,2) that by blast
    from owned_dir_clean [OF this 2] show ?thesis using that by (metis append_Nil)
  qed
  have longer: "ps2 = [] \<Longrightarrow> ps1 = []"
    using 2 by (auto simp: remove_owned_dir_def remove_dir_all_if_present_def Let_def case_prod_beta split: if_splits)
  have gone: "entries fs' \<inter> ({p. below c p} \<union> {p. below d p} \<union> {p. below t p}) = {}" if "problems = []"
  proof -
    from that problems longer have ps: "ps2 = []" "?p3 = []" "ps1 = []" by simp_all
    with n1 have f1: "entries fs1 \<subseteq> {p \<in> entries fs. \<not> below c p}" by blast
    from n2 ps have f2: "tree_ok fs2" "entries fs2 \<subseteq> {p \<in> entries fs1. \<not> below d p}" by blast+
    from remove_dir_all_clean(1) [OF f2(1) ps(2)] have "fs' = without t fs2" by (simp add: fs')
    with f1 f2 show ?thesis by (auto simp: entries_without)
  qed
  have none: "problems = []" if "pg_refused env = {}" "{c, d, t} \<inter> fs_files fs = {}"
  proof -
    from that n1 have 1: "ps1 = []" "fs_files fs1 \<subseteq> fs_files fs" by blast+
    with that n2 have 2: "ps2 = []" "tree_ok fs2" "fs_files fs2 \<subseteq> fs_files fs1" by blast+
    with remove_dir_all_clean(2) [OF 2(2) that(1), of t] 1 that(2) show ?thesis by (auto simp: problems)
  qed
  from kr' gone none show ?thesis by (auto simp: purge_secrets_entry)
qed

text \<open>An account with a saved password.\<close>

theorem purge_leaves_nothing_witness:
  "(let (problems, kr, fs) = purge open_system None \<lparr>ly_config_dir = Some (home ''cfg''), ly_config_exclusive = True,
       ly_data_dir = Some (home ''data''), ly_data_exclusive = True, ly_scratch_dir = home ''tmp''\<rparr>
       [(account_config_new [] [] 993 [])\<lparr>ac_id := lit ''me''\<rparr>] [keyring_entry None (lit ''me'') (lit ''imap'') \<mapsto> lit ''pw''] demo_tree
    in problems = [] \<and> get_password None (lit ''me'') (lit ''imap'') kr = None \<and> entries fs \<inter> {p. below (home ''cfg'') p} = {})"
proof -
  let ?l = "\<lparr>ly_config_dir = Some (home ''cfg''), ly_config_exclusive = True,
     ly_data_dir = Some (home ''data''), ly_data_exclusive = True, ly_scratch_dir = home ''tmp''\<rparr>"
  let ?a = "(account_config_new [] [] 993 [])\<lparr>ac_id := lit ''me''\<rparr>" and ?e = "keyring_entry None (lit ''me'') (lit ''imap'')"
  obtain problems kr' fs' where run: "purge open_system None ?l [?a] [?e \<mapsto> lit ''pw''] demo_tree = (problems, kr', fs')"
    by (metis prod.collapse)
  have tree: "tree_ok demo_tree"
    by (auto simp: tree_ok_def demo_tree_def home_def entries_def less_Suc_eq)
  have "{home ''cfg'', home ''data'', home ''tmp''} \<inter> fs_files demo_tree = {}"
    by (simp add: demo_tree_def home_def)
  moreover have "pg_refused open_system = {}" "pg_kept open_system = {}" by (simp_all add: open_system_def)
  moreover have "?e \<in> purged_entries None [?a]" by (simp add: purged_entries_def PURGED_KINDS_def)
  ultimately show ?thesis
    using purge_leaves_nothing [OF tree refl run] by (auto simp: run get_password_def)
qed

text \<open>The keyring's refusal is dropped: the secret is still there, and the report is the one of a removal that
  deleted it.\<close>

lemma remove_named_kept: "remove_named (env\<lparr>pg_kept := k\<rparr>) d names g = remove_named env d names g"
  by (induction names arbitrary: g) (auto simp: remove_file_def problem_def Let_def split_beta)

lemma kept_secret_is_not_reported:
  assumes "purge env sv layout accounts kr fs = (problems, kr', fs')" and "e \<in> pg_kept env"
  shows "kr' e = kr e \<and> (\<exists>kr''. purge (env\<lparr>pg_kept := {}\<rparr>) sv layout accounts kr fs = (problems, kr'', fs'))"
proof -
  have all: "remove_dir_all_if_present (env\<lparr>pg_kept := {}\<rparr>) d g = remove_dir_all_if_present env d g" for d g
    by (auto simp: remove_dir_all_if_present_def remove_dir_all_def problem_def split_beta)
  have one: "remove_dir (env\<lparr>pg_kept := {}\<rparr>) d fs = remove_dir env d fs" for d fs by (simp add: remove_dir_def)
  have owned: "remove_owned_dir (env\<lparr>pg_kept := {}\<rparr>) d g = remove_owned_dir env d g" for d g
    by (simp add: remove_owned_dir_def all one case_prod_beta Let_def)
  have "purge_dir (env\<lparr>pg_kept := {}\<rparr>) d ex names g = purge_dir env d ex names g" for d ex names g
    by (simp add: purge_dir_def owned remove_files_def remove_named_kept one case_prod_beta split: option.split)
  with assms all show ?thesis by (auto simp: purge_def purge_secrets_entry Let_def split_beta)
qed

text \<open>Of a relocated directory more stays behind than other people's files: the settings of the
  window and the requests for an account and for a new message are not among the names.\<close>

lemma relocated_leftovers:
  assumes "contained env" "purge env sv \<lparr>ly_config_dir = Some dir, ly_config_exclusive = False, ly_data_dir = Some dir,
      ly_data_exclusive = False, ly_scratch_dir = t\<rparr> accounts kr fs = (problems, kr', fs')"
    and "\<not> below t (dir @ [name])" "name \<in> {lit ''win32-settings.toml'', lit ''open-account.request'', COMPOSE_REQUEST}"
    and "dir @ [name] \<in> entries fs"
  shows "dir @ [name] \<in> entries fs'"
proof -
  have "name \<notin> set (CONFIG_FILE_NAME # DATA_FILES @ [TOAST_ICON_FILE_NAME])"
    using assms(4) by (auto simp: CONFIG_FILE_NAME_def DATA_FILES_def TOAST_ICON_FILE_NAME_def COMPOSE_REQUEST_def)
  with purge_spares [OF assms(1,2)] assms(3,5) show ?thesis by (auto simp: ours_def)
qed

text \<open>Attachments that were opened stay readable: they are written to directories of their own
  beside the one that is removed.\<close>

lemma opened_attachments_stay:
  assumes "contained env" "purge env sv \<lparr>ly_config_dir = None, ly_config_exclusive = True, ly_data_dir = None,
      ly_data_exclusive = True, ly_scratch_dir = temp @ [lit ''esmail-attachments'']\<rparr> accounts kr fs = (problems, kr', fs')"
    and "temp @ [lit ''esmail-open-'' @ dec_digits pid @ lit ''-'' @ dec_digits now, name] \<in> entries fs"
  shows "temp @ [lit ''esmail-open-'' @ dec_digits pid @ lit ''-'' @ dec_digits now, name] \<in> entries fs'"
  using purge_spares [OF assms(1,2)] assms(3) by (auto simp: ours_def below_def lit_def)

end
