(* ===== verification/ComposeWindow.thy ===== *)
theory ComposeWindow
  imports Composes Contacts Files
begin

text \<open>
  A compose window, \<open>crates/esmail-win32/src/app/compose/mod.rs\<close>: what the form holds, when a
  draft is saved, what is asked of the main window and when the window closes.

  The widgets are their values.  What the user does to a widget (typing, choosing the sender)
  is an input of its own; the message the widget then raises is handled later, and what its
  handler reads of the widget beyond the text, the caret, comes with the message, as do the
  answers of the dialogs.  A read-only field takes no typing.  \<open>cw_asked\<close> are the requests sent
  to the main window, which handles them by \<open>handle_compose_request\<close>.
\<close>

section \<open>State\<close>

datatype field = To | Cc | Bcc | Subject | Body

definition is_recipient :: "field \<Rightarrow> bool" where
  "is_recipient f \<longleftrightarrow> f \<in> {To, Cc, Bcc}"

fun next_field :: "field \<Rightarrow> field" where
  "next_field To = Cc"
| "next_field Cc = Bcc"
| "next_field Bcc = Subject"
| "next_field Subject = Body"
| "next_field Body = Body"

record typed =
  ty_from :: "nat option"
  ty_to :: str
  ty_cc :: str
  ty_bcc :: str
  ty_subject :: str
  ty_body :: str
  ty_attachments :: nat

record compose_window =
  cw_from :: "nat option"
  cw_texts :: "field \<Rightarrow> str"
  cw_accounts :: "str list"
  cw_state :: compose_state
  cw_attachments :: "(str \<times> byte list) list"
  cw_suggester :: suggester
  cw_active :: "field option"
  cw_saved :: typed
  cw_suggestions_open :: bool
  cw_attachments_open :: bool
  cw_sending :: bool
  cw_locked :: bool
  cw_focus :: field
  cw_status :: str
  cw_title :: str
  cw_asked :: "compose_request list"
  cw_closed :: bool

definition window_title :: "str \<Rightarrow> str" where
  "window_title subject =
     (let s = trim subject in if s = [] then lit ''New message - esMail'' else s @ lit '' - esMail'')"

definition typed_of :: "compose_window \<Rightarrow> typed" where
  "typed_of w =
     \<lparr>ty_from = cw_from w, ty_to = cw_texts w To, ty_cc = cw_texts w Cc, ty_bcc = cw_texts w Bcc,
      ty_subject = cw_texts w Subject, ty_body = cw_texts w Body, ty_attachments = length (cw_attachments w)\<rparr>"

definition edited :: "compose_window \<Rightarrow> bool" where
  "edited w \<longleftrightarrow> typed_of w \<noteq> cw_saved w"

definition snapshot :: "compose_window \<Rightarrow> compose_state" where
  "snapshot w = (cw_state w)
     \<lparr>cs_to := cw_texts w To, cs_cc := cw_texts w Cc, cs_bcc := cw_texts w Bcc, cs_subject := cw_texts w Subject,
      cs_body := cw_texts w Body, cs_attachments := cw_attachments w,
      cs_account_id := Option.bind (cw_from w) (\<lambda>i. if i < length (cw_accounts w) then Some (cw_accounts w ! i) else None)\<rparr>"

text \<open>Opening: \<open>accounts\<close> are the ids and labels of the accounts, \<open>body_first\<close> starts in the text.
  Choosing a row the list of senders does not have leaves none chosen.\<close>

definition compose_window_new ::
  "compose_state \<Rightarrow> (str \<times> str) list \<Rightarrow> contact list \<Rightarrow> bool \<Rightarrow> compose_window" where
  "compose_window_new state accounts contacts body_first =
     (let account = Option.bind (cs_account_id state) (\<lambda>i. position (\<lambda>(a, _). a = i) accounts);
          row = (case account of Some n \<Rightarrow> n | None \<Rightarrow> 0);
          w = \<lparr>cw_from = (if row < length accounts then Some row else None),
               cw_texts = (\<lambda>f. case f of To \<Rightarrow> cs_to state | Cc \<Rightarrow> cs_cc state | Bcc \<Rightarrow> cs_bcc state
                 | Subject \<Rightarrow> cs_subject state | Body \<Rightarrow> cs_body state),
               cw_accounts = map fst accounts, cw_state = state\<lparr>cs_attachments := []\<rparr>,
               cw_attachments = cs_attachments state, cw_suggester = \<lparr>sg_contacts = contacts, sg_shown = []\<rparr>,
               cw_active = None,
               cw_saved = \<lparr>ty_from = None, ty_to = [], ty_cc = [], ty_bcc = [], ty_subject = [], ty_body = [], ty_attachments = 0\<rparr>,
               cw_suggestions_open = False, cw_attachments_open = (cs_attachments state \<noteq> []),
               cw_sending = False, cw_locked = False, cw_focus = (if body_first then Body else To),
               cw_status = [], cw_title = window_title (cs_subject state), cw_asked = [], cw_closed = False\<rparr>
      in w\<lparr>cw_saved := typed_of w\<rparr>)"

section \<open>Operations\<close>

definition ask :: "compose_request \<Rightarrow> compose_window \<Rightarrow> compose_window" where
  "ask r w = w\<lparr>cw_asked := cw_asked w @ [r]\<rparr>"

definition show_status :: "str \<Rightarrow> compose_window \<Rightarrow> compose_window" where
  "show_status t w = w\<lparr>cw_status := t\<rparr>"

text \<open>Closing drops the window, which says so.\<close>

definition close_window :: "compose_window \<Rightarrow> compose_window" where
  "close_window w = ask RequestClosed (w\<lparr>cw_closed := True\<rparr>)"

definition set_locked :: "bool \<Rightarrow> compose_window \<Rightarrow> compose_window" where
  "set_locked b w = w\<lparr>cw_locked := b\<rparr>"

definition cw_save_draft :: "bool \<Rightarrow> compose_window \<Rightarrow> compose_window" where
  "cw_save_draft explicit w =
     (let w = ask (RequestSaveDraft (snapshot w) explicit) w in w\<lparr>cw_saved := typed_of w\<rparr>)"

definition cw_send :: "compose_window \<Rightarrow> compose_window" where
  "cw_send w = (if cw_sending w then w else ask (RequestSend (snapshot w)) w)"

definition cw_discard :: "bool \<Rightarrow> compose_window \<Rightarrow> compose_window" where
  "cw_discard confirmed w =
     (if has_content (snapshot w) \<and> \<not> confirmed then w else close_window (ask RequestDiscard w))"

datatype close_choice = CloseSave | CloseCancel | CloseDiscard

definition close_requested :: "close_choice \<Rightarrow> compose_window \<Rightarrow> compose_window" where
  "close_requested choice w =
     (if cw_sending w \<or> \<not> edited w then close_window w
      else (case choice of
          CloseSave \<Rightarrow> close_window (cw_save_draft True w)
        | CloseDiscard \<Rightarrow> close_window (ask RequestDiscard w)
        | CloseCancel \<Rightarrow> w))"

definition show_suggestions :: "str list \<Rightarrow> compose_window \<Rightarrow> compose_window" where
  "show_suggestions shown w = w\<lparr>cw_suggestions_open := (shown \<noteq> [])\<rparr>"

definition suggest :: "nat \<Rightarrow> compose_window \<Rightarrow> compose_window" where
  "suggest caret w =
     (case cw_active w of None \<Rightarrow> w
      | Some f \<Rightarrow>
          (let s = suggester_update (cw_texts w f) caret (cw_suggester w)
           in show_suggestions (sg_shown s) (w\<lparr>cw_suggester := s\<rparr>)))"

definition field_changed :: "field \<Rightarrow> nat \<Rightarrow> compose_window \<Rightarrow> compose_window" where
  "field_changed f caret w =
     (let w = (if f = Subject then w\<lparr>cw_title := window_title (cw_texts w Subject)\<rparr> else w)
      in if is_recipient f then suggest caret (w\<lparr>cw_active := Some f\<rparr>) else w)"

definition cw_accept :: "nat \<Rightarrow> nat \<Rightarrow> compose_window \<Rightarrow> compose_window" where
  "cw_accept caret index w =
     (case (cw_active w, suggester_get (cw_suggester w) index) of
        (Some f, Some suggestion) \<Rightarrow>
          (let (completed, _) = accept_suggestion (cw_texts w f) caret suggestion;
               w = show_suggestions [] (w\<lparr>cw_suggester := suggester_clear (cw_suggester w)\<rparr>)
           in w\<lparr>cw_texts := (cw_texts w)(f := completed), cw_focus := f\<rparr>)
      | _ \<Rightarrow> w)"

definition show_attachments :: "compose_window \<Rightarrow> compose_window" where
  "show_attachments w = w\<lparr>cw_attachments_open := (cw_attachments w \<noteq> [])\<rparr>"

definition attachments_read :: "(str + str \<times> byte list) list \<Rightarrow> compose_window \<Rightarrow> compose_window" where
  "attachments_read files w =
     (let problems = filter_map (\<lambda>r. case r of Inl p \<Rightarrow> Some p | Inr _ \<Rightarrow> None) files;
          read = filter_map (\<lambda>r. case r of Inl _ \<Rightarrow> None | Inr a \<Rightarrow> Some a) files;
          w = show_attachments (w\<lparr>cw_attachments := cw_attachments w @ read\<rparr>)
      in show_status (join [10] problems) w)"

text \<open>\<open>row\<close> is the row selected in the attachment list.\<close>

definition remove_attachment :: "nat option \<Rightarrow> compose_window \<Rightarrow> compose_window" where
  "remove_attachment row w =
     (case row of None \<Rightarrow> w
      | Some r \<Rightarrow>
          if r < length (cw_attachments w)
          then show_attachments (w\<lparr>cw_attachments := take r (cw_attachments w) @ drop (Suc r) (cw_attachments w)\<rparr>)
          else w)"

definition autosave :: "compose_window \<Rightarrow> compose_window" where
  "autosave w =
     (if \<not> cw_sending w \<and> edited w \<and> has_content (snapshot w) then cw_save_draft False w else w)"

section \<open>Messages\<close>

datatype compose_input =
    Typing field str
  | Pick_from nat
  | Changed field nat
  | Focused field bool nat
  | Submit field nat
  | Suggestion nat nat
  | Accept_first nat
  | Remove_attachment "nat option"
  | Attachments_read "(str + str \<times> byte list) list"
  | Send_it
  | Save_it
  | Discard_it bool
  | Close_requested close_choice
  | Timer
  | From_host compose_msg

text \<open>The answers of the main window: \<open>TellSending\<close> and its like are \<open>ComposeMsg::Sending\<close>,
  \<open>Failed\<close>, \<open>Sent\<close> and \<open>DraftSaved\<close>.\<close>

fun from_host :: "compose_msg \<Rightarrow> compose_window \<Rightarrow> compose_window" where
  "from_host TellSending w = set_locked True ((show_status (lit ''Sending...'') w)\<lparr>cw_sending := True\<rparr>)"
| "from_host (TellFailed e) w =
     show_status (lit ''Send failed: '' @ e @ [10] @ lit ''The message is kept, so you can send it again.'')
       (set_locked False (w\<lparr>cw_sending := False\<rparr>))"
| "from_host TellSent w = close_window w"
| "from_host TellDraftSaved w = show_status (lit ''Draft saved.'') w"

fun handle_input :: "compose_input \<Rightarrow> compose_window \<Rightarrow> compose_window" where
  "handle_input (Typing f t) w = (if cw_locked w then w else w\<lparr>cw_texts := (cw_texts w)(f := t)\<rparr>)"
| "handle_input (Pick_from n) w = (if cw_locked w then w else w\<lparr>cw_from := Some n\<rparr>)"
| "handle_input (Changed f caret) w = field_changed f caret w"
| "handle_input (Focused f focused caret) w =
     (if focused then
        (let w = suggest caret (w\<lparr>cw_active := (if is_recipient f then Some f else None)\<rparr>)
         in if cw_active w = None then show_suggestions [] w else w)
      else w)"
| "handle_input (Submit f caret) w =
     (if sg_shown (cw_suggester w) = [] \<or> \<not> is_recipient f then w\<lparr>cw_focus := next_field f\<rparr> else cw_accept caret 0 w)"
| "handle_input (Suggestion i caret) w = cw_accept caret i w"
| "handle_input (Accept_first caret) w = cw_accept caret 0 w"
| "handle_input (Remove_attachment row) w = remove_attachment row w"
| "handle_input (Attachments_read files) w = attachments_read files w"
| "handle_input Send_it w = cw_send w"
| "handle_input Save_it w = cw_save_draft True w"
| "handle_input (Discard_it confirmed) w = cw_discard confirmed w"
| "handle_input (Close_requested choice) w = close_requested choice w"
| "handle_input Timer w = autosave w"
| "handle_input (From_host msg) w = from_host msg w"

text \<open>A window that is closed gets nothing more.\<close>

definition compose_input_step :: "compose_window \<Rightarrow> compose_input \<Rightarrow> compose_window" where
  "compose_input_step w i = (if cw_closed w then w else handle_input i w)"

definition compose_run :: "compose_input list \<Rightarrow> compose_window \<Rightarrow> compose_window" where
  "compose_run inputs w = foldl compose_input_step w inputs"

section \<open>What is kept\<close>

text \<open>The message that is safe when the window goes: the last draft asked for, or else the message
  the window was opened with.\<close>

fun last_draft :: "compose_state \<Rightarrow> compose_request list \<Rightarrow> compose_state" where
  "last_draft s [] = s"
| "last_draft s (r # rs) = last_draft (case r of RequestSaveDraft d _ \<Rightarrow> d | _ \<Rightarrow> s) rs"

lemma last_draft_append [simp]: "last_draft s (a @ b) = last_draft (last_draft s a) b"
  by (induction a arbitrary: s) simp_all

definition saved_text :: "typed \<Rightarrow> compose_state \<Rightarrow> bool" where
  "saved_text t s \<longleftrightarrow> ty_to t = cs_to s \<and> ty_cc t = cs_cc s \<and> ty_bcc t = cs_bcc s \<and>
     ty_subject t = cs_subject s \<and> ty_body t = cs_body s \<and> ty_attachments t = length (cs_attachments s)"

definition has_draft :: "compose_request list \<Rightarrow> bool" where
  "has_draft rs \<longleftrightarrow> list_ex (\<lambda>r. case r of RequestSaveDraft _ _ \<Rightarrow> True | _ \<Rightarrow> False) rs"

lemma has_draft_simps [simp]:
  "has_draft [] = False" "has_draft (a @ b) = (has_draft a \<or> has_draft b)" "has_draft [RequestSaveDraft s e]"
  "\<not> has_draft [RequestSend s]" "\<not> has_draft [RequestDiscard]" "\<not> has_draft [RequestClosed]"
  by (auto simp: has_draft_def)

text \<open>The id of the account in a row of the list of senders.\<close>

definition sender_at :: "str list \<Rightarrow> nat option \<Rightarrow> str option" where
  "sender_at accounts row = Option.bind row (\<lambda>i. if i < length accounts then Some (accounts ! i) else None)"

definition saved_sender :: "compose_state \<Rightarrow> compose_window \<Rightarrow> bool" where
  "saved_sender init w \<longleftrightarrow>
     (has_draft (cw_asked w) \<longrightarrow> cs_account_id (last_draft init (cw_asked w)) = sender_at (cw_accounts w) (ty_from (cw_saved w)))"

text \<open>What the reply belongs to, and which draft it came from, is never touched.\<close>

definition thread_of :: "compose_state \<Rightarrow> str option \<times> str option \<times> int option" where
  "thread_of s = (cs_in_reply_to s, cs_references s, cs_draft_id s)"

fun request_ok :: "compose_state \<Rightarrow> compose_request \<Rightarrow> bool" where
  "request_ok init (RequestSend s) = (thread_of s = thread_of init)"
| "request_ok init (RequestSaveDraft s _) = (thread_of s = thread_of init)"
| "request_ok init _ = True"

definition compose_ok :: "compose_state \<Rightarrow> compose_window \<Rightarrow> bool" where
  "compose_ok init w \<longleftrightarrow>
     saved_text (cw_saved w) (last_draft init (cw_asked w)) \<and> saved_sender init w \<and>
     thread_of (cw_state w) = thread_of init \<and> list_all (request_ok init) (cw_asked w) \<and>
     cw_locked w = cw_sending w"

lemma thread_snapshot [simp]: "thread_of (snapshot w) = thread_of (cw_state w)"
  by (simp add: thread_of_def snapshot_def)

lemma saved_snapshot: "saved_text (typed_of w) (snapshot w)"
  by (simp add: saved_text_def typed_of_def snapshot_def)

lemma snapshot_sender: "cs_account_id (snapshot w) = sender_at (cw_accounts w) (cw_from w)"
  by (simp add: snapshot_def sender_at_def)

text \<open>Inputs that change only what is shown or typed keep the invariant.\<close>

definition same_core :: "compose_window \<Rightarrow> compose_window \<Rightarrow> bool" where
  "same_core w' w \<longleftrightarrow> cw_saved w' = cw_saved w \<and> cw_asked w' = cw_asked w \<and> cw_state w' = cw_state w \<and>
     cw_locked w' = cw_locked w \<and> cw_sending w' = cw_sending w \<and> cw_accounts w' = cw_accounts w"

lemma same_core_ok: "same_core w' w \<Longrightarrow> compose_ok init w \<Longrightarrow> compose_ok init w'"
  by (simp add: same_core_def compose_ok_def saved_sender_def)

lemma same_core_suggest [simp]: "same_core (suggest caret w) w"
  by (simp add: suggest_def same_core_def show_suggestions_def Let_def split: option.split)

lemma same_core_accept: "same_core (cw_accept caret i w) w"
  by (simp add: cw_accept_def same_core_def show_suggestions_def Let_def case_prod_beta split: option.split)

lemma same_core_changed: "same_core (field_changed f caret w) w"
  using same_core_suggest [of caret] by (simp add: field_changed_def same_core_def Let_def)

lemma same_core_attachments: "same_core (attachments_read files w) w" "same_core (remove_attachment row w) w"
  by (simp_all add: attachments_read_def remove_attachment_def show_attachments_def show_status_def same_core_def Let_def
      split: option.split)

lemma same_core_input:
  "same_core (handle_input (Typing f t) w) w" "same_core (handle_input (Pick_from n) w) w"
  "same_core (handle_input (Focused f b caret) w) w"
  using same_core_suggest [of caret] by (simp_all add: same_core_def show_suggestions_def Let_def)

lemmas same_cores = same_core_accept same_core_changed same_core_attachments same_core_input

lemma compose_ok_ask:
  "compose_ok init w \<Longrightarrow> request_ok init r \<Longrightarrow> (case r of RequestSaveDraft _ _ \<Rightarrow> False | _ \<Rightarrow> True) \<Longrightarrow> compose_ok init (ask r w)"
  by (cases r) (simp_all add: compose_ok_def ask_def saved_sender_def)

lemma compose_ok_close: "compose_ok init w \<Longrightarrow> compose_ok init (close_window w)"
  unfolding close_window_def by (rule compose_ok_ask) (simp_all add: compose_ok_def saved_sender_def)

lemma compose_ok_save: "compose_ok init w \<Longrightarrow> compose_ok init (cw_save_draft e w)"
  using saved_snapshot [of w] snapshot_sender [of w]
  by (simp add: compose_ok_def cw_save_draft_def ask_def Let_def saved_text_def typed_of_def saved_sender_def)

lemma compose_ok_input: "compose_ok init w \<Longrightarrow> compose_ok init (handle_input i w)"
proof (induction i w rule: handle_input.induct)
  case (5 f caret w)
  moreover have "compose_ok init (w\<lparr>cw_focus := g\<rparr>) = compose_ok init w" for g
    by (simp add: compose_ok_def saved_sender_def)
  ultimately show ?case using same_core_ok [OF same_core_accept] by simp
next
  case (10 w)
  then have "request_ok init (RequestSend (snapshot w))" by (simp add: compose_ok_def)
  with 10 show ?case by (simp add: cw_send_def compose_ok_ask)
next
  case (12 c w)
  then show ?case by (auto simp: cw_discard_def intro!: compose_ok_close compose_ok_ask)
next
  case (13 choice w)
  then show ?case
    by (cases choice) (auto simp: close_requested_def intro!: compose_ok_close compose_ok_ask compose_ok_save)
next
  case (14 w)
  then show ?case by (simp add: autosave_def compose_ok_save)
next
  case (15 msg w)
  then show ?case
    by (cases msg) (auto simp: compose_ok_close, auto simp: compose_ok_def set_locked_def show_status_def saved_sender_def)
qed (auto intro: same_core_ok [OF same_core_accept] same_core_ok [OF same_core_changed] compose_ok_save
    same_core_ok [OF same_core_attachments(1)] same_core_ok [OF same_core_attachments(2)]
    same_core_ok [OF same_core_input(1)] same_core_ok [OF same_core_input(2)] same_core_ok [OF same_core_input(3)]
    simp del: handle_input.simps(1,2,4))

lemma compose_ok_new: "compose_ok state (compose_window_new state accounts contacts body_first)"
  by (simp add: compose_ok_def compose_window_new_def saved_text_def typed_of_def thread_of_def saved_sender_def Let_def)

lemma compose_ok_run: "compose_ok init w \<Longrightarrow> compose_ok init (compose_run inputs w)"
  unfolding compose_run_def
  by (induction inputs arbitrary: w) (simp_all add: compose_input_step_def compose_ok_input)

text \<open>C37. Whatever the user types, chooses and answers, and whatever the main window reports: when
  the close box closes the window without the user having chosen to discard, and no send is under
  way, the addresses, the subject and the text on screen, the number of attachments, and, once a draft
  was asked for, the sender are those of the last draft the window asked for, or of the message it was
  opened with when it asked for none; and every message it asks to send or to save still answers the
  message it was opened as an answer to.  Which files are attached is not kept.\<close>

theorem closing_keeps_the_text:
  assumes "w = compose_run inputs (compose_window_new state accounts contacts body_first)"
    and "\<not> cw_closed w" "\<not> cw_sending w" "choice \<noteq> CloseDiscard"
    and "w' = compose_run [Close_requested choice] w" "cw_closed w'"
  shows "cw_texts w To = cs_to (last_draft state (cw_asked w')) \<and>
    cw_texts w Cc = cs_cc (last_draft state (cw_asked w')) \<and>
    cw_texts w Bcc = cs_bcc (last_draft state (cw_asked w')) \<and>
    cw_texts w Subject = cs_subject (last_draft state (cw_asked w')) \<and>
    cw_texts w Body = cs_body (last_draft state (cw_asked w')) \<and>
    length (cw_attachments w) = length (cs_attachments (last_draft state (cw_asked w'))) \<and>
    (has_draft (cw_asked w') \<longrightarrow> sender_at (cw_accounts w) (cw_from w) = cs_account_id (last_draft state (cw_asked w'))) \<and>
    list_all (request_ok state) (cw_asked w')"
proof -
  have ok: "compose_ok state w" "compose_ok state w'"
    using assms(1,5) by (auto intro!: compose_ok_run compose_ok_new)
  have w': "w' = close_requested choice w" using assms(2,5) by (simp add: compose_run_def compose_input_step_def)
  have "saved_text (typed_of w) (last_draft state (cw_asked w')) \<and>
    (has_draft (cw_asked w') \<longrightarrow> sender_at (cw_accounts w) (cw_from w) = cs_account_id (last_draft state (cw_asked w')))"
  proof (cases "edited w")
    case True
    with assms(2-4,6) show ?thesis
      using saved_snapshot [of w] snapshot_sender [of w]
      by (cases choice) (simp_all add: w' close_requested_def close_window_def cw_save_draft_def ask_def Let_def)
  next
    case False
    then have "cw_saved w = typed_of w" by (simp add: edited_def)
    then have "ty_from (cw_saved w) = cw_from w" by (simp add: typed_of_def)
    with False ok(1) show ?thesis
      by (simp add: w' close_requested_def close_window_def ask_def edited_def compose_ok_def saved_sender_def)
  qed
  moreover have "list_all (request_ok state) (cw_asked w')" using ok(2) by (simp add: compose_ok_def)
  ultimately show ?thesis by (simp add: saved_text_def typed_of_def)
qed

text \<open>A blank message to Ann for the examples.\<close>

definition demo_compose :: compose_window where
  "demo_compose = compose_window_new (compose_default\<lparr>cs_to := lit ''ann@x.org'', cs_account_id := Some (lit ''me'')\<rparr>)
     [(lit ''me'', lit ''Me'')] [] True"

lemmas compose_eval = compose_run_def compose_input_step_def compose_window_new_def compose_default_def
  typed_of_def edited_def snapshot_def ask_def close_window_def close_requested_def cw_save_draft_def Let_def

theorem closing_keeps_the_text_witness:
  "cs_body (last_draft compose_default (cw_asked (compose_run [Close_requested CloseSave]
     (compose_run [Typing Body (lit ''hi'')] (compose_window_new compose_default [] [] True))))) = lit ''hi''"
proof -
  let ?w = "compose_run [Typing Body (lit ''hi'')] (compose_window_new compose_default [] [] True)"
  have "\<not> cw_closed ?w" "\<not> cw_sending ?w" "cw_texts ?w Body = lit ''hi''"
    by (simp_all add: compose_run_def compose_input_step_def compose_window_new_def Let_def)
  moreover have "cw_closed (compose_run [Close_requested CloseSave] ?w)"
    using \<open>\<not> cw_closed ?w\<close>
    by (simp add: compose_run_def compose_input_step_def close_requested_def close_window_def ask_def)
  ultimately show ?thesis
    using closing_keeps_the_text [OF refl, of "[Typing Body (lit ''hi'')]" compose_default "[]" "[]" True CloseSave, OF _ _ _ refl]
    by simp
qed

text \<open>The attachments are only counted.  When one is replaced by another the window takes itself
  for unchanged: it closes without a question and the new attachment is in no draft.\<close>

lemma replaced_attachment_is_lost:
  "let w = compose_run [Attachments_read [Inr (lit ''a'', [1])], Save_it, Remove_attachment (Some 0),
       Attachments_read [Inr (lit ''b'', [2])], Timer, Close_requested CloseSave] demo_compose in
   cw_closed w \<and> cw_attachments w = [(lit ''b'', [2])] \<and>
   cs_attachments (last_draft compose_default (cw_asked w)) = [(lit ''a'', [1])]"
  by (simp add: demo_compose_def compose_eval attachments_read_def remove_attachment_def show_attachments_def
      show_status_def autosave_def)

text \<open>The window takes a message for under way only when the main window has answered: pressing
  the keys a second time before that asks for a second send, and the message goes out twice.\<close>

lemma second_press_sends_again:
  "cw_asked (compose_run [Send_it, Send_it] demo_compose) =
   [RequestSend (snapshot demo_compose), RequestSend (snapshot demo_compose)]"
  by (simp add: demo_compose_def compose_eval cw_send_def)

lemma asked_twice_is_sent_twice:
  assumes "Option.bind (cs_account_id s) (account_position (oe_accounts env)) = Some account"
    and "oe_send_mail env i account s = None"
  shows "og_smtp (foldl (\<lambda>g r. handle_compose_request env i r g) g [RequestSend s, RequestSend s]) =
    og_smtp g @ [(i, account, s), (i, account, s)]"
proof -
  have "og_smtp (send_message env i s g) = og_smtp g @ [(i, account, s)]" for g
    using assms by (simp add: send_message_def tell_def Let_def split: option.split)
  then show ?thesis by (simp add: handle_compose_request_def)
qed

end
