(* ===== verification/AccountWindow.thy ===== *)
theory AccountWindow
  imports Accounts
begin

text \<open>
  Adding or editing an account: the form window (\<open>crates/esmail-win32/src/app/accounts/window.rs\<close>),
  the attempt behind its Connect button (\<open>accounts/connect.rs\<close>) and what the main window does for
  the form (\<open>accounts/mod.rs\<close>), with the queues between the three.

  The widgets are their values; a locked one takes no input.  A step is one input to the form
  window, one message taken from a queue, or an attempt running up to where it next waits, and a
  list of steps is an interleaving of the form's thread, the main window's and the runtime's.
  Cancelling an attempt ends it where it waits; the task that writes the account cannot be
  cancelled, only its report is lost.  One form window is followed from its opening on.
\<close>

section \<open>The form window\<close>

datatype form_mode = NewAccount bool | EditAccount str

record form_view =
  vw_intro :: bool
  vw_password :: bool
  vw_revealed :: bool
  vw_servers :: bool
  vw_waiting_for_browser :: bool
  vw_can_sign_in_again :: bool

record filled =
  fi_imap_host :: str
  fi_imap_port :: str
  fi_smtp_host :: str
  fi_smtp_port :: str
  fi_security :: "tls_mode option"

datatype form_request =
    RequestConnect account_form "str option" bool
  | RequestAbort
  | RequestFormClosed

datatype form_focus = FocusField form_field | FocusRevealed

record form_window =
  fm_name :: str
  fm_email :: str
  fm_auth :: "auth_kind option"
  fm_password :: str
  fm_revealed :: str
  fm_imap_host :: str
  fm_imap_port :: str
  fm_smtp_host :: str
  fm_smtp_port :: str
  fm_security :: "tls_mode option"
  fm_mode :: form_mode
  fm_view :: form_view
  fm_filled :: filled
  fm_servers_edited :: bool
  fm_busy :: bool
  fm_locked :: bool
  fm_note :: str
  fm_status :: str
  fm_focus :: form_focus
  fm_asked :: "form_request list"
  fm_closed :: bool

definition server_fields :: "form_window \<Rightarrow> filled" where
  "server_fields w =
     \<lparr>fi_imap_host = fm_imap_host w, fi_imap_port = fm_imap_port w, fi_smtp_host = fm_smtp_host w,
      fi_smtp_port = fm_smtp_port w, fi_security = fm_security w\<rparr>"

definition form_of :: "form_window \<Rightarrow> account_form" where
  "form_of w =
     (let fields = server_fields w in
      \<lparr>fo_display_name = fm_name w, fo_email = fm_email w,
       fo_auth = (case fm_auth w of Some a \<Rightarrow> a | None \<Rightarrow> PasswordAuth), fo_password = fm_password w,
       fo_imap_host = fi_imap_host fields, fo_imap_port = fi_imap_port fields,
       fo_smtp_host = fi_smtp_host fields, fo_smtp_port = fi_smtp_port fields,
       fo_smtp_tls = (case fi_security fields of Some t \<Rightarrow> t | None \<Rightarrow> Ssl)\<rparr>)"

definition form_ask :: "form_request \<Rightarrow> form_window \<Rightarrow> form_window" where
  "form_ask r w = w\<lparr>fm_asked := fm_asked w @ [r]\<rparr>"

definition form_status :: "str \<Rightarrow> form_window \<Rightarrow> form_window" where
  "form_status t w = w\<lparr>fm_status := t\<rparr>"

definition close_form :: "form_window \<Rightarrow> form_window" where
  "close_form w = form_ask RequestFormClosed (w\<lparr>fm_closed := True\<rparr>)"

definition update_note :: "form_window \<Rightarrow> form_window" where
  "update_note w =
     (let form = form_of w in
      w\<lparr>fm_note :=
        (if fo_auth form = GoogleOAuth then
           (if trim (fo_imap_host form) = GMAIL_IMAP_HOST
            then lit ''Your browser opens so you can approve access; no app password is needed.''
            else lit ''Sign in with Google only works for Gmail (imap.gmail.com).'')
         else
           (case detect (fo_email form) of
              Some d \<Rightarrow>
                if fm_servers_edited w then []
                else if de_known d then lit ''Server settings filled in for this provider.''
                else lit ''This provider is not known: check the server settings below.''
            | None \<Rightarrow> []))\<rparr>)"

definition form_window_new :: "form_mode \<Rightarrow> account_form \<Rightarrow> bool \<Rightarrow> form_window" where
  "form_window_new mode form again =
     (let editing = (case mode of EditAccount _ \<Rightarrow> True | _ \<Rightarrow> False);
          w = \<lparr>fm_name = fo_display_name form, fm_email = fo_email form, fm_auth = Some (fo_auth form),
               fm_password = fo_password form, fm_revealed = fo_password form,
               fm_imap_host = fo_imap_host form, fm_imap_port = fo_imap_port form,
               fm_smtp_host = fo_smtp_host form, fm_smtp_port = fo_smtp_port form,
               fm_security = Some (fo_smtp_tls form), fm_mode = mode,
               fm_view = \<lparr>vw_intro = (mode = NewAccount True), vw_password = (fo_auth form = PasswordAuth),
                 vw_revealed = False, vw_servers = editing, vw_waiting_for_browser = False,
                 vw_can_sign_in_again = again\<rparr>,
               fm_filled = \<lparr>fi_imap_host = [], fi_imap_port = [], fi_smtp_host = [], fi_smtp_port = [], fi_security = None\<rparr>,
               fm_servers_edited = editing, fm_busy = False, fm_locked = False, fm_note = [], fm_status = [],
               fm_focus = FocusField (if editing \<and> fo_auth form = PasswordAuth then FieldPassword else FieldEmail),
               fm_asked = [], fm_closed = False\<rparr>
      in update_note (w\<lparr>fm_filled := server_fields w\<rparr>))"

definition apply_detection :: "detection \<Rightarrow> form_window \<Rightarrow> form_window" where
  "apply_detection d w =
     (let p = de_preset d;
          w = w\<lparr>fm_imap_host := ps_imap p, fm_imap_port := port_text (ps_imap_number p),
                fm_smtp_host := ps_smtp p, fm_smtp_port := port_text (ps_smtp_number p),
                fm_security := Some (ps_smtp_tls p), fm_auth := Some (ps_auth p)\<rparr>;
          w = w\<lparr>fm_filled := server_fields w, fm_view := (fm_view w)\<lparr>vw_password := (ps_auth p = PasswordAuth)\<rparr>\<rparr>;
          w = (if de_known d then w else w\<lparr>fm_view := (fm_view w)\<lparr>vw_servers := True\<rparr>\<rparr>)
      in update_note w)"

definition email_changed :: "str \<Rightarrow> bool \<Rightarrow> form_window \<Rightarrow> form_window" where
  "email_changed email settled w =
     (if fm_servers_edited w then w
      else (case detect email of
          Some d \<Rightarrow> if de_known d \<or> settled then apply_detection d w else w
        | None \<Rightarrow> w))"

definition servers_edited :: "form_window \<Rightarrow> form_window" where
  "servers_edited w =
     (let now = server_fields w in
      if now = fm_filled w then w
      else
        let w = w\<lparr>fm_servers_edited := True\<rparr>;
            w = (if fi_smtp_port now \<noteq> fi_smtp_port (fm_filled w) then
                   (case Option.bind (map_option of_nat (parse_nat (2 ^ 16) (trim (fi_smtp_port now)))) security_for_smtp_port of
                      Some s \<Rightarrow> w\<lparr>fm_security := Some s\<rparr> | None \<Rightarrow> w)
                 else w)
        in update_note (w\<lparr>fm_filled := now\<rparr>))"

definition set_busy :: "bool \<Rightarrow> form_window \<Rightarrow> form_window" where
  "set_busy b w =
     (let w = w\<lparr>fm_busy := b, fm_locked := b\<rparr>
      in if b then w else w\<lparr>fm_view := (fm_view w)\<lparr>vw_waiting_for_browser := False\<rparr>\<rparr>)"

definition focus_field :: "form_field \<Rightarrow> form_window \<Rightarrow> form_window" where
  "focus_field f w =
     w\<lparr>fm_focus := (if f = FieldPassword \<and> vw_revealed (fm_view w) then FocusRevealed else FocusField f)\<rparr>"

definition form_connect :: "bool \<Rightarrow> form_window \<Rightarrow> form_window" where
  "form_connect sign_in_again w =
     (if fm_busy w then w
      else
        let w = (if trim (fm_imap_host w) = [] then
                   (case detect (fm_email w) of Some d \<Rightarrow> apply_detection d w | None \<Rightarrow> w)
                 else w);
            form = form_of w
        in (case to_account form None of
              Inl problem \<Rightarrow> focus_field (fe_field problem) (form_status (lit ''Error: '' @ fe_message problem) w)
            | Inr _ \<Rightarrow>
                (let editing = (case fm_mode w of EditAccount i \<Rightarrow> Some i | NewAccount _ \<Rightarrow> None)
                 in form_ask (RequestConnect form editing sign_in_again)
                      (form_status (lit ''Connecting...'') (set_busy True w)))))"

definition cancel_form :: "form_window \<Rightarrow> form_window" where
  "cancel_form w = close_form (if fm_busy w then form_ask RequestAbort w else w)"

definition show_password :: "bool \<Rightarrow> form_window \<Rightarrow> form_window" where
  "show_password shown w =
     w\<lparr>fm_view := (fm_view w)\<lparr>vw_revealed := shown\<rparr>, fm_focus := (if shown then FocusRevealed else FocusField FieldPassword)\<rparr>"

definition password_changed :: "str \<Rightarrow> form_window \<Rightarrow> form_window" where
  "password_changed text w = w\<lparr>fm_password := text, fm_revealed := text\<rparr>"

definition auth_changed :: "auth_kind \<Rightarrow> form_window \<Rightarrow> form_window" where
  "auth_changed kind w = update_note (w\<lparr>fm_view := (fm_view w)\<lparr>vw_password := (kind = PasswordAuth)\<rparr>\<rparr>)"

text \<open>What the user does to the widgets, and the messages they raise.\<close>

datatype form_part = PartName | PartEmail | PartPassword | PartRevealed | PartImapHost | PartImapPort | PartSmtpHost | PartSmtpPort

datatype form_input =
    TypeIn form_part str
  | ChooseAuth auth_kind
  | ChooseSecurity tls_mode
  | EmailChanged str
  | EmailFocus bool
  | PasswordChanged str
  | AuthChanged auth_kind
  | ShowPassword bool
  | ShowServers bool
  | ServersEdited
  | PressConnect
  | PressSignInAgain
  | PressCancelSignIn
  | PressCancel

fun type_in :: "form_part \<Rightarrow> str \<Rightarrow> form_window \<Rightarrow> form_window" where
  "type_in PartName t w = w\<lparr>fm_name := t\<rparr>"
| "type_in PartEmail t w = w\<lparr>fm_email := t\<rparr>"
| "type_in PartPassword t w = w\<lparr>fm_password := t\<rparr>"
| "type_in PartRevealed t w = w\<lparr>fm_revealed := t\<rparr>"
| "type_in PartImapHost t w = w\<lparr>fm_imap_host := t\<rparr>"
| "type_in PartImapPort t w = w\<lparr>fm_imap_port := t\<rparr>"
| "type_in PartSmtpHost t w = w\<lparr>fm_smtp_host := t\<rparr>"
| "type_in PartSmtpPort t w = w\<lparr>fm_smtp_port := t\<rparr>"

fun form_update :: "form_input \<Rightarrow> form_window \<Rightarrow> form_window" where
  "form_update (TypeIn p t) w = (if fm_locked w then w else type_in p t w)"
| "form_update (ChooseAuth k) w = (if fm_locked w then w else w\<lparr>fm_auth := Some k\<rparr>)"
| "form_update (ChooseSecurity t) w = (if fm_locked w then w else w\<lparr>fm_security := Some t\<rparr>)"
| "form_update (EmailChanged email) w = email_changed email False w"
| "form_update (EmailFocus focused) w = (if focused then w else email_changed (fm_email w) True w)"
| "form_update (PasswordChanged text) w = password_changed text w"
| "form_update (AuthChanged kind) w = auth_changed kind w"
| "form_update (ShowPassword shown) w = show_password shown w"
| "form_update (ShowServers shown) w = w\<lparr>fm_view := (fm_view w)\<lparr>vw_servers := shown\<rparr>\<rparr>"
| "form_update ServersEdited w = servers_edited w"
| "form_update PressConnect w = form_connect False w"
| "form_update PressSignInAgain w = form_connect True w"
| "form_update PressCancelSignIn w =
     form_status (lit ''Sign-in cancelled.'') (set_busy False (form_ask RequestAbort w))"
| "form_update PressCancel w = cancel_form w"

text \<open>What the main window tells the form; \<open>NoteClose\<close> is its \<open>close\<close>.  The flag of
  \<open>BrowserUnavailable\<close> says whether the address could be copied to the clipboard.\<close>

datatype form_note =
    NoteWorking str
  | NoteAwaitingBrowser
  | NoteBrowserUnavailable str bool
  | NoteFailed str
  | NoteClose

fun form_told :: "form_note \<Rightarrow> form_window \<Rightarrow> form_window" where
  "form_told (NoteWorking text) w = form_status text w"
| "form_told NoteAwaitingBrowser w =
     form_status (lit ''Finish signing in with Google in your browser...'')
       (w\<lparr>fm_view := (fm_view w)\<lparr>vw_waiting_for_browser := True\<rparr>\<rparr>)"
| "form_told (NoteBrowserUnavailable url copied) w =
     form_status (lit ''Could not open your browser. '' @
       (if copied then lit ''The address is on the clipboard: paste it into a browser.'' else url)) w"
| "form_told (NoteFailed error) w = form_status (lit ''Error: '' @ error) (set_busy False w)"
| "form_told NoteClose w = close_form w"

section \<open>An attempt\<close>

datatype attempt_phase = Starting | Browser | Testing auth | Saving auth | Ended

record attempt =
  at_form :: account_form
  at_config :: config
  at_account :: account_config
  at_again :: bool
  at_phase :: attempt_phase
  at_unheard :: bool

datatype outcome =
    OutWorking str
  | OutAwaitingBrowser
  | OutBrowserUnavailable str
  | OutFailed str
  | OutSaved config str
  | OutRemoved config str

text \<open>The surroundings of attempt \<open>n\<close>: the network, the browser and the keyring.\<close>

record 'w connect_env =
  ce_tokens :: "'w token_env"
  ce_sign_in :: sign_in_env
  ce_url :: "str \<Rightarrow> (str \<times> (str \<times> str) list) option"
  ce_began :: "nat \<Rightarrow> anyhow + pending_authorization"
  ce_page :: "nat \<Rightarrow> str \<times> str option"
  ce_incoming :: "nat \<Rightarrow> (str + connection) list"
  ce_now :: "nat \<Rightarrow> int"
  ce_imap :: "account_config \<Rightarrow> auth \<Rightarrow> 'w login"
  ce_smtp :: "smtp_account \<Rightarrow> 'w login"
  ce_keyring_error :: str
  ce_copied :: bool

definition abort_attempt :: "attempt \<Rightarrow> attempt" where
  "abort_attempt a =
     (case at_phase a of Saving _ \<Rightarrow> a\<lparr>at_unheard := True\<rparr> | _ \<Rightarrow> a\<lparr>at_phase := Ended\<rparr>)"

definition attempt_new :: "account_form \<Rightarrow> config \<Rightarrow> account_config \<Rightarrow> bool \<Rightarrow> attempt" where
  "attempt_new form config account again =
     \<lparr>at_form = form, at_config = config, at_account = account, at_again = again, at_phase = Starting, at_unheard = False\<rparr>"

text \<open>One stretch of the task between two waits, with what it reports, and what it does to the stores,
  the token sources and the network.\<close>

definition signed_in :: "str + auth \<Rightarrow> attempt \<Rightarrow> attempt \<times> outcome list" where
  "signed_in r a =
     (case r of
        Inl e \<Rightarrow> (a\<lparr>at_phase := Ended\<rparr>, [OutFailed e])
      | Inr auth \<Rightarrow> (a\<lparr>at_phase := Testing auth\<rparr>, [OutWorking (lit ''Signed in with Google. Checking the connection...'')]))"

definition run_attempt ::
  "'w connect_env \<Rightarrow> nat \<Rightarrow> attempt \<Rightarrow> stores \<Rightarrow> sources \<Rightarrow> 'w \<Rightarrow> attempt \<times> outcome list \<times> stores \<times> sources \<times> 'w" where
  "run_attempt env n a st srcs w =
     (let google = (\<lambda>client again.
            google_auth (ce_tokens env) (ce_sign_in env) (ce_url env) client (at_account a) again (st_keyring st)
              (ce_began env n) (ce_page env n) (ce_incoming env n) (ce_now env n) srcs w)
      in case at_phase a of
        Starting \<Rightarrow>
          (case ac_auth (at_account a) of
             PasswordAuth \<Rightarrow> (a\<lparr>at_phase := Testing (AuthPassword (fo_password (at_form a)))\<rparr>, [], st, srcs, w)
           | GoogleOAuth \<Rightarrow>
               (case google_client_or_explain (ce_sign_in env) (at_config a) of
                  Inl e \<Rightarrow> (a\<lparr>at_phase := Ended\<rparr>, [OutFailed e], st, srcs, w)
                | Inr client \<Rightarrow>
                    if \<not> at_again a \<and>
                       get_password (si_service_var (ce_sign_in env)) (ac_id (at_account a)) (lit ''oauth'') (st_keyring st) \<noteq> None
                    then (case google client False of (r, _, _, srcs, w) \<Rightarrow>
                        (case signed_in r a of (a, out) \<Rightarrow> (a, out, st, srcs, w)))
                    else
                      (case google client True of (_, _, by_hand, _) \<Rightarrow>
                        (a\<lparr>at_phase := Browser\<rparr>,
                         OutAwaitingBrowser # (case by_hand of Some url \<Rightarrow> [OutBrowserUnavailable url] | None \<Rightarrow> []),
                         st, srcs, w))))
      | Browser \<Rightarrow>
          (case google_client_or_explain (ce_sign_in env) (at_config a) of
             Inl e \<Rightarrow> (a\<lparr>at_phase := Ended\<rparr>, [OutFailed e], st, srcs, w)
           | Inr client \<Rightarrow>
               (case google client True of (r, _, _, srcs, w) \<Rightarrow>
                  (case signed_in r a of (a, out) \<Rightarrow> (a, out, st, srcs, w))))
      | Testing auth \<Rightarrow>
          (case test_connection (ce_imap env (at_account a) auth) (ce_smtp env) (at_account a) auth w of
             (Inl e, w) \<Rightarrow> (a\<lparr>at_phase := Ended\<rparr>, [OutFailed e], st, srcs, w)
           | (Inr _, w) \<Rightarrow> (a\<lparr>at_phase := Saving auth\<rparr>, [OutWorking (lit ''Saving...'')], st, srcs, w))
      | Saving auth \<Rightarrow>
          (case save_account (ce_keyring_error env) (si_service_var (ce_sign_in env)) (at_config a) (at_account a) auth srcs st of
             (r, st) \<Rightarrow>
               (a\<lparr>at_phase := Ended\<rparr>,
                if at_unheard a then []
                else [case r of Inl e \<Rightarrow> OutFailed e | Inr config \<Rightarrow> OutSaved config (ac_id (at_account a))],
                st, srcs, w))
      | Ended \<Rightarrow> (a, [], st, srcs, w))"

section \<open>The main window's part\<close>

datatype host_note = FromForm form_request | FromAttempt outcome

record 'w account_setup =
  as_window :: form_window
  as_to_form :: "form_note list"
  as_to_host :: "host_note list"
  as_config :: config
  as_has_form :: bool
  as_task :: "nat option"
  as_attempts :: "attempt list"
  as_removals :: "(config \<times> str) option list"
  as_stores :: stores
  as_sources :: sources
  as_world :: 'w
  as_banners :: "str list"

definition tell_form :: "form_note \<Rightarrow> 'w account_setup \<Rightarrow> 'w account_setup" where
  "tell_form m s = (if as_has_form s then s\<lparr>as_to_form := as_to_form s @ [m]\<rparr> else s)"

text \<open>\<open>account_outcome\<close> of a failure.\<close>

definition attempt_failed :: "str \<Rightarrow> 'w account_setup \<Rightarrow> 'w account_setup" where
  "attempt_failed error s =
     (let s = s\<lparr>as_task := None\<rparr>
      in if as_has_form s then tell_form (NoteFailed error) s else s\<lparr>as_banners := as_banners s @ [error]\<rparr>)"

text \<open>\<open>App::connect\<close>; starting the runtime is taken to work.\<close>

definition host_connect :: "account_form \<Rightarrow> str option \<Rightarrow> bool \<Rightarrow> 'w account_setup \<Rightarrow> 'w account_setup" where
  "host_connect form editing again s =
     (let i = (case editing of Some i \<Rightarrow> i | None \<Rightarrow> form_id form)
      in case to_account form (find (\<lambda>a. ac_id a = i) (cfg_accounts (as_config s))) of
           Inl problem \<Rightarrow> attempt_failed (fe_message problem) s
         | Inr account \<Rightarrow>
             s\<lparr>as_attempts := as_attempts s @ [attempt_new form (as_config s) account again],
               as_task := Some (length (as_attempts s))\<rparr>)"

definition host_abort :: "'w account_setup \<Rightarrow> 'w account_setup" where
  "host_abort s =
     (case as_task s of
        Some n \<Rightarrow> s\<lparr>as_attempts := (as_attempts s)[n := abort_attempt (as_attempts s ! n)], as_task := None\<rparr>
      | None \<Rightarrow> s)"

text \<open>\<open>form_request\<close> and \<open>account_outcome\<close>; what a saved account changes in the rest of the window is
  \<open>account_saved\<close>.\<close>

fun host_takes :: "bool \<Rightarrow> host_note \<Rightarrow> 'w account_setup \<Rightarrow> 'w account_setup" where
  "host_takes copied (FromForm (RequestConnect form editing again)) s = host_connect form editing again s"
| "host_takes copied (FromForm RequestAbort) s = host_abort s"
| "host_takes copied (FromForm RequestFormClosed) s = s\<lparr>as_has_form := False\<rparr>"
| "host_takes copied (FromAttempt (OutWorking text)) s = tell_form (NoteWorking text) s"
| "host_takes copied (FromAttempt OutAwaitingBrowser) s = tell_form NoteAwaitingBrowser s"
| "host_takes copied (FromAttempt (OutBrowserUnavailable url)) s = tell_form (NoteBrowserUnavailable url copied) s"
| "host_takes copied (FromAttempt (OutFailed error)) s = attempt_failed error s"
| "host_takes copied (FromAttempt (OutSaved config i)) s =
     (tell_form NoteClose (s\<lparr>as_task := None\<rparr>))\<lparr>as_has_form := False, as_config := config\<rparr>"
| "host_takes copied (FromAttempt (OutRemoved config i)) s = s\<lparr>as_config := config\<rparr>"

section \<open>All together\<close>

datatype setup_event =
    FormInput form_input
  | FormTakes
  | HostTakes
  | AttemptRuns nat
  | AskRemoval str
  | RemovalRuns nat

definition on_form :: "(form_window \<Rightarrow> form_window) \<Rightarrow> 'w account_setup \<Rightarrow> 'w account_setup" where
  "on_form f s =
     (if fm_closed (as_window s) then s
      else
        let w = f (as_window s)
        in s\<lparr>as_window := w\<lparr>fm_asked := []\<rparr>, as_to_host := as_to_host s @ map FromForm (fm_asked w)\<rparr>)"

fun setup_step :: "'w connect_env \<Rightarrow> setup_event \<Rightarrow> 'w account_setup \<Rightarrow> 'w account_setup" where
  "setup_step env (FormInput i) s = on_form (form_update i) s"
| "setup_step env FormTakes s =
     (case as_to_form s of [] \<Rightarrow> s | m # ms \<Rightarrow> on_form (form_told m) (s\<lparr>as_to_form := ms\<rparr>))"
| "setup_step env HostTakes s =
     (case as_to_host s of [] \<Rightarrow> s | m # ms \<Rightarrow> host_takes (ce_copied env) m (s\<lparr>as_to_host := ms\<rparr>))"
| "setup_step env (AttemptRuns n) s =
     (if n < length (as_attempts s) then
        (case run_attempt env n (as_attempts s ! n) (as_stores s) (as_sources s) (as_world s) of
           (a, out, st, srcs, w) \<Rightarrow>
             s\<lparr>as_attempts := (as_attempts s)[n := a], as_to_host := as_to_host s @ map FromAttempt out,
               as_stores := st, as_sources := srcs, as_world := w\<rparr>)
      else s)"
| "setup_step env (AskRemoval i) s = s\<lparr>as_removals := as_removals s @ [Some (as_config s, i)]\<rparr>"
| "setup_step env (RemovalRuns n) s =
     (if n < length (as_removals s) then
        (case as_removals s ! n of
           None \<Rightarrow> s
         | Some (config, i) \<Rightarrow>
             (case remove_saved_account (si_service_var (ce_sign_in env)) config i (as_stores s) of
                (r, st) \<Rightarrow>
                  s\<lparr>as_removals := (as_removals s)[n := None], as_stores := st,
                    as_to_host := as_to_host s @
                      [FromAttempt (case r of Inl e \<Rightarrow> OutFailed e | Inr config \<Rightarrow> OutRemoved config i)]\<rparr>))
      else s)"

definition setup_run :: "'w connect_env \<Rightarrow> setup_event list \<Rightarrow> 'w account_setup \<Rightarrow> 'w account_setup" where
  "setup_run env steps s = foldl (\<lambda>s t. setup_step env t s) s steps"

definition setup_new :: "form_window \<Rightarrow> config \<Rightarrow> stores \<Rightarrow> sources \<Rightarrow> 'w \<Rightarrow> 'w account_setup" where
  "setup_new w config st srcs world =
     \<lparr>as_window = w, as_to_form = [], as_to_host = [], as_config = config, as_has_form = True, as_task = None,
      as_attempts = [], as_removals = [], as_stores = st, as_sources = srcs, as_world = world, as_banners = []\<rparr>"

section \<open>The form is always released\<close>

text \<open>Messages of the form that matter for who is waiting for whom.\<close>

abbreviation aborts :: "host_note \<Rightarrow> bool" where
  "aborts m \<equiv> m = FromForm RequestAbort"

definition ends_wait :: "host_note \<Rightarrow> bool" where
  "ends_wait m \<longleftrightarrow> (\<exists>e. m = FromAttempt (OutFailed e)) \<or> (\<exists>c i. m = FromAttempt (OutSaved c i))"

definition releases :: "form_note \<Rightarrow> bool" where
  "releases m \<longleftrightarrow> m = NoteClose \<or> (\<exists>e. m = NoteFailed e)"

definition will_report :: "attempt \<Rightarrow> bool" where
  "will_report a \<longleftrightarrow> at_phase a \<noteq> Ended \<and> \<not> at_unheard a"

text \<open>A form that waits is waiting for something that comes: its request is queued with no cancelling
  behind it, or an attempt will report, or a report is on its way.\<close>

definition awaited :: "'w account_setup \<Rightarrow> bool" where
  "awaited s \<longleftrightarrow>
     (\<exists>pre form editing again post. as_to_host s = pre @ FromForm (RequestConnect form editing again) # post \<and> \<not> list_ex aborts post) \<or>
     \<not> list_ex aborts (as_to_host s) \<and> list_ex will_report (as_attempts s) \<or>
     list_ex ends_wait (as_to_host s) \<or> list_ex releases (as_to_form s)"

definition setup_ok :: "'w account_setup \<Rightarrow> bool" where
  "setup_ok s \<longleftrightarrow> fm_closed (as_window s) \<or>
     fm_asked (as_window s) = [] \<and> (fm_busy (as_window s) \<longrightarrow> awaited s) \<and>
     (as_has_form s \<or> NoteClose \<in> set (as_to_form s)) \<and>
     FromForm RequestFormClosed \<notin> set (as_to_host s)"

text \<open>Waiting survives everything that is only added behind it.\<close>

lemma awaited_more:
  assumes "awaited s" and "as_to_host s' = as_to_host s @ out" and "\<not> list_ex aborts out"
    and "as_to_form s' = as_to_form s @ told"
    and "list_ex will_report (as_attempts s) \<Longrightarrow> list_ex will_report (as_attempts s') \<or> list_ex ends_wait out"
  shows "awaited s'"
  using assms unfolding awaited_def by (simp add: list_ex_append) (metis append.assoc append_Cons list_ex_append)

lemma form_fields [simp]:
  "fm_asked (update_note w) = fm_asked w" "fm_busy (update_note w) = fm_busy w" "fm_closed (update_note w) = fm_closed w"
  "fm_asked (apply_detection d w) = fm_asked w" "fm_busy (apply_detection d w) = fm_busy w"
  "fm_closed (apply_detection d w) = fm_closed w"
  "fm_asked (set_busy b w) = fm_asked w" "fm_busy (set_busy b w) = b" "fm_closed (set_busy b w) = fm_closed w"
  "fm_asked (form_status t w) = fm_asked w" "fm_busy (form_status t w) = fm_busy w" "fm_closed (form_status t w) = fm_closed w"
  "fm_asked (focus_field f w) = fm_asked w" "fm_busy (focus_field f w) = fm_busy w" "fm_closed (focus_field f w) = fm_closed w"
  "fm_asked (form_ask r w) = fm_asked w @ [r]" "fm_busy (form_ask r w) = fm_busy w" "fm_closed (form_ask r w) = fm_closed w"
  "fm_closed (close_form w)"
  by (simp_all add: update_note_def apply_detection_def set_busy_def form_status_def focus_field_def form_ask_def close_form_def Let_def)

lemma email_changed_fields [simp]:
  "fm_asked (email_changed e b w) = fm_asked w" "fm_busy (email_changed e b w) = fm_busy w"
  "fm_closed (email_changed e b w) = fm_closed w"
  by (simp_all add: email_changed_def split: option.split)

lemma servers_edited_fields [simp]:
  "fm_asked (servers_edited w) = fm_asked w" "fm_busy (servers_edited w) = fm_busy w"
  "fm_closed (servers_edited w) = fm_closed w"
  by (simp_all add: servers_edited_def Let_def split: option.split)

lemma type_in_fields [simp]:
  "fm_asked (type_in p t w) = fm_asked w" "fm_busy (type_in p t w) = fm_busy w" "fm_closed (type_in p t w) = fm_closed w"
  by (cases p; simp)+

text \<open>What the form asks for: an account it has checked when it starts to wait, and to stop when it
  gives up waiting.\<close>

definition asks_ok :: "form_window \<Rightarrow> form_window \<Rightarrow> bool" where
  "asks_ok w w' \<longleftrightarrow> fm_closed w' \<or>
     fm_asked w' = [] \<and> fm_busy w' = fm_busy w \<or>
     fm_asked w' = [RequestAbort] \<and> \<not> fm_busy w' \<or>
     (\<exists>form editing again account. fm_asked w' = [RequestConnect form editing again] \<and> fm_busy w' \<and> \<not> fm_busy w \<and>
        to_account form None = Inr account)"

lemma form_connect_asks: "fm_asked w = [] \<Longrightarrow> \<not> fm_closed w \<Longrightarrow> asks_ok w (form_connect b w)"
  by (simp add: form_connect_def asks_ok_def Let_def split: option.split sum.split)

lemma form_update_asks: "fm_asked w = [] \<Longrightarrow> \<not> fm_closed w \<Longrightarrow> asks_ok w (form_update i w)"
proof (cases i)
  case PressConnect
  assume "fm_asked w = []" "\<not> fm_closed w"
  with PressConnect show ?thesis by (simp add: form_connect_asks)
next
  case PressSignInAgain
  assume "fm_asked w = []" "\<not> fm_closed w"
  with PressSignInAgain show ?thesis by (simp add: form_connect_asks)
qed (simp_all add: asks_ok_def cancel_form_def password_changed_def auth_changed_def show_password_def)

lemma form_told_asks:
  "fm_asked w = [] \<Longrightarrow> fm_closed (form_told m w) \<or>
   fm_asked (form_told m w) = [] \<and> fm_busy (form_told m w) = (fm_busy w \<and> \<not> releases m)"
  by (cases m) (simp_all add: releases_def)

lemma run_attempt_reports:
  assumes "run_attempt env n a st srcs w = (a', out, st', srcs', w')"
  shows "will_report a \<Longrightarrow> will_report a' \<or> list_ex ends_wait (map FromAttempt out)"
    and "\<not> list_ex aborts (map FromAttempt out)"
    and "FromForm RequestFormClosed \<notin> set (map FromAttempt out)"
proof -
  show "\<not> list_ex aborts (map FromAttempt out)" "FromForm RequestFormClosed \<notin> set (map FromAttempt out)"
    by (auto simp: list_ex_iff)
  show "will_report a' \<or> list_ex ends_wait (map FromAttempt out)" if "will_report a"
    using assms that
    by (auto simp: run_attempt_def will_report_def signed_in_def ends_wait_def Let_def
        split: attempt_phase.splits auth_kind.splits sum.splits prod.splits if_splits option.splits)
qed

lemma tell_form_fields [simp]:
  "as_window (tell_form m s) = as_window s" "as_to_host (tell_form m s) = as_to_host s"
  "as_attempts (tell_form m s) = as_attempts s" "as_has_form (tell_form m s) = as_has_form s"
  "as_to_form (tell_form m s) = as_to_form s @ (if as_has_form s then [m] else [])"
  by (simp_all add: tell_form_def)

lemma awaited_connect: "as_to_host s = pre @ [FromForm (RequestConnect form editing again)] \<Longrightarrow> awaited s"
  unfolding awaited_def by (rule disjI1) fastforce

lemma setup_ok_input: "setup_ok s \<Longrightarrow> setup_ok (setup_step env (FormInput i) s)"
proof (cases "fm_closed (as_window s)")
  case False
  assume ok: "setup_ok s"
  let ?w = "form_update i (as_window s)"
  have "asks_ok (as_window s) ?w" using ok False by (intro form_update_asks) (simp_all add: setup_ok_def)
  then consider "fm_closed ?w" | "fm_asked ?w = []" "fm_busy ?w = fm_busy (as_window s)"
    | "fm_asked ?w = [RequestAbort]" "\<not> fm_busy ?w"
    | form editing again where "fm_asked ?w = [RequestConnect form editing again]"
    unfolding asks_ok_def by blast
  then show ?thesis
  proof cases
    case (4 form editing again)
    then have "awaited (setup_step env (FormInput i) s)"
      using False by (intro awaited_connect) (simp add: on_form_def Let_def)
    with 4 ok False show ?thesis by (simp add: setup_ok_def on_form_def Let_def)
  qed (use ok False in \<open>auto simp: setup_ok_def on_form_def awaited_def Let_def\<close>)
qed (simp add: on_form_def)

lemma attempt_failed_fields [simp]:
  "as_window (attempt_failed e s) = as_window s" "as_to_host (attempt_failed e s) = as_to_host s"
  "as_attempts (attempt_failed e s) = as_attempts s" "as_has_form (attempt_failed e s) = as_has_form s"
  "as_removals (attempt_failed e s) = as_removals s" "as_stores (attempt_failed e s) = as_stores s"
  "as_to_form (attempt_failed e s) = as_to_form s @ (if as_has_form s then [NoteFailed e] else [])"
  by (simp_all add: attempt_failed_def tell_form_def Let_def)

lemma setup_ok_told: "setup_ok s \<Longrightarrow> setup_ok (setup_step env FormTakes s)"
proof (cases "as_to_form s")
  case (Cons m ms)
  assume ok: "setup_ok s"
  let ?w = "form_told m (as_window s)"
  show ?thesis
  proof (cases "fm_closed (as_window s)")
    case False
    then have "fm_asked (as_window s) = []" using ok by (simp add: setup_ok_def)
    from form_told_asks [OF this, of m] show ?thesis
    proof
      assume "fm_asked ?w = [] \<and> fm_busy ?w = (fm_busy (as_window s) \<and> \<not> releases m)"
      moreover have "m \<noteq> NoteClose \<or> fm_closed ?w" by (cases m) simp_all
      ultimately show ?thesis
        using ok False Cons by (auto simp: setup_ok_def on_form_def awaited_def Let_def)
    qed (use False Cons in \<open>simp add: setup_ok_def on_form_def Let_def\<close>)
  qed (use Cons in \<open>simp add: setup_ok_def on_form_def\<close>)
qed simp

lemma awaited_head:
  assumes "awaited s" and "as_to_host s = m # ms" and "\<not> aborts m" and "\<not> ends_wait m"
    and "\<And>form editing again. m \<noteq> FromForm (RequestConnect form editing again)"
    and "as_to_host s' = ms" and "as_attempts s' = as_attempts s" and "set (as_to_form s) \<subseteq> set (as_to_form s')"
  shows "awaited s'"
proof -
  have told: "list_ex releases (as_to_form s) \<Longrightarrow> list_ex releases (as_to_form s')"
    using assms(8) unfolding list_ex_iff by blast
  from assms(1) show ?thesis
    unfolding awaited_def [of s]
  proof (elim disjE exE conjE)
    fix pre form editing again post
    assume split: "as_to_host s = pre @ FromForm (RequestConnect form editing again) # post" and post: "\<not> list_ex aborts post"
    with assms(2) assms(5) [of form editing again] obtain pre' where "pre = m # pre'" by (cases pre) auto
    with split assms(2,6) have "as_to_host s' = pre' @ FromForm (RequestConnect form editing again) # post" by simp
    with post show ?thesis unfolding awaited_def by blast
  qed (use assms told in \<open>simp_all add: awaited_def\<close>)
qed

lemma host_abort_fields [simp]:
  "as_window (host_abort s) = as_window s" "as_to_host (host_abort s) = as_to_host s"
  "as_to_form (host_abort s) = as_to_form s" "as_has_form (host_abort s) = as_has_form s"
  by (simp_all add: host_abort_def split: option.split)

lemma host_connect_fields [simp]:
  "as_window (host_connect form editing again s) = as_window s" "as_to_host (host_connect form editing again s) = as_to_host s"
  "as_has_form (host_connect form editing again s) = as_has_form s"
  by (simp_all add: host_connect_def Let_def split: sum.split)

lemma host_connect_awaited:
  assumes "as_has_form s \<or> NoteClose \<in> set (as_to_form s)"
  shows "list_ex releases (as_to_form (host_connect form editing again s)) \<or>
    list_ex will_report (as_attempts (host_connect form editing again s))"
  using assms
  by (auto simp: host_connect_def releases_def will_report_def attempt_new_def list_ex_iff Let_def split: sum.split)

lemma awaited_form: "list_ex releases (as_to_form s) \<Longrightarrow> awaited s"
  by (simp add: awaited_def)

lemma releases_simps [simp]: "releases NoteClose" "releases (NoteFailed e)"
  by (simp_all add: releases_def)

lemma close_releases: "NoteClose \<in> set ms \<Longrightarrow> list_ex releases ms"
  unfolding list_ex_iff using releases_simps(1) by blast

lemma host_takes_awaited:
  assumes ok: "as_has_form s \<or> NoteClose \<in> set (as_to_form s)" and q: "as_to_host s = m # ms" and "awaited s"
    and "m \<noteq> FromForm RequestFormClosed"
  shows "awaited (host_takes copied m (s\<lparr>as_to_host := ms\<rparr>))"
proof (cases m)
  case (FromForm r)
  let ?s = "s\<lparr>as_to_host := ms\<rparr>"
  show ?thesis
  proof (cases r)
    case (RequestConnect form editing again)
    let ?c = "host_connect form editing again ?s"
    have c: "list_ex releases (as_to_form ?c) \<or> list_ex will_report (as_attempts ?c)"
      using ok by (intro host_connect_awaited) simp
    have mono: "list_ex releases (as_to_form s) \<Longrightarrow> list_ex releases (as_to_form ?c)"
      "list_ex will_report (as_attempts s) \<Longrightarrow> list_ex will_report (as_attempts ?c)"
      by (auto simp: host_connect_def Let_def split: sum.split)
    have "awaited ?c"
      using \<open>awaited s\<close> unfolding awaited_def [of s]
    proof (elim disjE exE conjE)
      fix pre form' editing' again' post
      assume split: "as_to_host s = pre @ FromForm (RequestConnect form' editing' again') # post" and post: "\<not> list_ex aborts post"
      show ?thesis
      proof (cases pre)
        case Nil
        with split q c post show ?thesis by (auto simp: awaited_def)
      next
        case (Cons a list)
        with split q post show ?thesis by (auto simp: awaited_def)
      qed
    next
      assume "list_ex ends_wait (as_to_host s)"
      with q FromForm show ?thesis by (auto simp: awaited_def ends_wait_def)
    qed (use mono q in \<open>auto simp: awaited_def\<close>)
    with FromForm RequestConnect show ?thesis by simp
  next
    case RequestAbort
    with FromForm q \<open>awaited s\<close> show ?thesis
      by (auto simp: awaited_def Cons_eq_append_conv ends_wait_def)
  next
    case RequestFormClosed
    with assms(4) FromForm show ?thesis by simp
  qed
next
  case (FromAttempt out)
  show ?thesis
  proof (cases "ends_wait m")
    case True
    then have "list_ex releases (as_to_form (host_takes copied m (s\<lparr>as_to_host := ms\<rparr>)))"
      using ok by (auto simp: ends_wait_def Let_def close_releases)
    then show ?thesis by (rule awaited_form)
  next
    case False
    have keeps: "as_to_host (host_takes copied m (s\<lparr>as_to_host := ms\<rparr>)) = ms"
      "as_attempts (host_takes copied m (s\<lparr>as_to_host := ms\<rparr>)) = as_attempts s"
      "set (as_to_form s) \<subseteq> set (as_to_form (host_takes copied m (s\<lparr>as_to_host := ms\<rparr>)))"
      using FromAttempt False by (cases out; auto simp: ends_wait_def)+
    show ?thesis by (rule awaited_head [OF \<open>awaited s\<close> q _ False _ keeps]) (simp_all add: FromAttempt)
  qed
qed

lemma host_takes_fields:
  "as_window (host_takes copied m s) = as_window s" "as_to_host (host_takes copied m s) = as_to_host s"
  by (induction copied m s rule: host_takes.induct) (simp_all add: Let_def)

lemma host_takes_has_form:
  "as_has_form s \<or> NoteClose \<in> set (as_to_form s) \<Longrightarrow> m \<noteq> FromForm RequestFormClosed \<Longrightarrow>
   as_has_form (host_takes copied m s) \<or> NoteClose \<in> set (as_to_form (host_takes copied m s))"
  by (induction copied m s rule: host_takes.induct) (auto simp: Let_def host_connect_def split: sum.split)

lemma setup_ok_host: "setup_ok s \<Longrightarrow> setup_ok (setup_step env HostTakes s)"
proof (cases "as_to_host s")
  case (Cons m ms)
  assume ok: "setup_ok s"
  show ?thesis
  proof (cases "fm_closed (as_window s)")
    case True
    with Cons show ?thesis by (simp add: setup_ok_def host_takes_fields)
  next
    case False
    with ok Cons have "m \<noteq> FromForm RequestFormClosed" by (auto simp: setup_ok_def)
    with ok False Cons show ?thesis
      using host_takes_awaited [OF _ Cons, of "ce_copied env"] host_takes_has_form [of "s\<lparr>as_to_host := ms\<rparr>" m "ce_copied env"]
      by (auto simp: setup_ok_def host_takes_fields)
  qed
qed simp

lemma setup_ok_attempt: "setup_ok s \<Longrightarrow> setup_ok (setup_step env (AttemptRuns n) s)"
proof (cases "n < length (as_attempts s)")
  case True
  assume ok: "setup_ok s"
  obtain a out st srcs w where run: "run_attempt env n (as_attempts s ! n) (as_stores s) (as_sources s) (as_world s) = (a, out, st, srcs, w)"
    by (metis prod.exhaust)
  note r = run_attempt_reports [OF run]
  let ?s = "setup_step env (AttemptRuns n) s"
  have s': "?s = s\<lparr>as_attempts := (as_attempts s)[n := a], as_to_host := as_to_host s @ map FromAttempt out,
      as_stores := st, as_sources := srcs, as_world := w\<rparr>"
    using True run by simp
  have atts: "as_attempts ?s = (as_attempts s)[n := a]" unfolding s' by simp
  have "awaited ?s" if "awaited s"
  proof (rule awaited_more [OF that, of _ "map FromAttempt out" "[]"])
    assume "list_ex will_report (as_attempts s)"
    then obtain k where k: "k < length (as_attempts s)" "will_report (as_attempts s ! k)" by (auto simp: list_ex_length)
    show "list_ex will_report (as_attempts ?s) \<or> list_ex ends_wait (map FromAttempt out)"
    proof (cases "k = n")
      case True
      with r(1) k have "will_report a \<or> list_ex ends_wait (map FromAttempt out)" by simp
      moreover have "a \<in> set ((as_attempts s)[n := a])" using \<open>n < length (as_attempts s)\<close> by (rule set_update_memI)
      ultimately show ?thesis unfolding atts list_ex_iff by blast
    next
      case False
      with k have "(as_attempts s)[n := a] ! k = as_attempts s ! k" by simp
      with k show ?thesis unfolding atts list_ex_length by (metis length_list_update)
    qed
  qed (use r(2) in \<open>simp_all only: s', simp_all\<close>)
  with ok r(3) show ?thesis by (auto simp: setup_ok_def s' simp del: setup_step.simps)
qed simp

lemma setup_ok_step: "setup_ok s \<Longrightarrow> setup_ok (setup_step env t s)"
proof (cases t)
  case (AskRemoval i)
  assume ok: "setup_ok s"
  have "awaited (setup_step env t s)" if "awaited s"
    by (rule awaited_more [OF that, of _ "[]" "[]"]) (simp_all add: AskRemoval)
  with ok show ?thesis by (auto simp: setup_ok_def AskRemoval)
next
  case (RemovalRuns n)
  assume ok: "setup_ok s"
  show ?thesis
  proof (cases "n < length (as_removals s) \<and> as_removals s ! n \<noteq> None")
    case True
    then obtain config i where c: "as_removals s ! n = Some (config, i)" by auto
    obtain r st where r: "remove_saved_account (si_service_var (ce_sign_in env)) config i (as_stores s) = (r, st)" by force
    let ?out = "FromAttempt (case r of Inl e \<Rightarrow> OutFailed e | Inr config \<Rightarrow> OutRemoved config i)"
    have s': "setup_step env t s = s\<lparr>as_removals := (as_removals s)[n := None], as_stores := st, as_to_host := as_to_host s @ [?out]\<rparr>"
      using True by (simp add: RemovalRuns c r)
    have "awaited (setup_step env t s)" if "awaited s"
      by (rule awaited_more [OF that, of _ "[?out]" "[]"]) (simp_all add: s')
    with ok show ?thesis by (auto simp: setup_ok_def s')
  qed (use ok in \<open>auto simp: RemovalRuns split: option.split\<close>)
qed (use setup_ok_input setup_ok_told setup_ok_host setup_ok_attempt in \<open>simp_all del: setup_step.simps\<close>)

lemma setup_ok_run: "setup_ok s \<Longrightarrow> setup_ok (setup_run env steps s)"
  unfolding setup_run_def by (induction steps arbitrary: s) (simp_all add: setup_ok_step del: setup_step.simps)

lemma setup_ok_new: "setup_ok (setup_new (form_window_new mode form again) config st srcs w)"
  by (simp add: setup_ok_def setup_new_def form_window_new_def Let_def)

text \<open>What is left to do without the user, and a number that every such step decreases.\<close>

definition works_on :: "setup_event \<Rightarrow> 'w account_setup \<Rightarrow> bool" where
  "works_on t s \<longleftrightarrow>
     (case t of
        FormTakes \<Rightarrow> as_to_form s \<noteq> []
      | HostTakes \<Rightarrow> as_to_host s \<noteq> []
      | AttemptRuns n \<Rightarrow> n < length (as_attempts s) \<and> at_phase (as_attempts s ! n) \<noteq> Ended
      | RemovalRuns n \<Rightarrow> n < length (as_removals s) \<and> as_removals s ! n \<noteq> None
      | _ \<Rightarrow> False)"

fun works :: "'w connect_env \<Rightarrow> setup_event list \<Rightarrow> 'w account_setup \<Rightarrow> bool" where
  "works env [] s = True"
| "works env (t # ts) s = (works_on t s \<and> works env ts (setup_step env t s))"

definition setup_idle :: "'w account_setup \<Rightarrow> bool" where
  "setup_idle s \<longleftrightarrow> as_to_form s = [] \<and> as_to_host s = [] \<and> list_all (\<lambda>a. at_phase a = Ended) (as_attempts s) \<and>
     list_all (\<lambda>r. r = None) (as_removals s)"

fun told_weight :: "form_note \<Rightarrow> nat" where
  "told_weight NoteClose = 2"
| "told_weight _ = 1"

fun host_weight :: "host_note \<Rightarrow> nat" where
  "host_weight (FromForm (RequestConnect _ _ _)) = 40"
| "host_weight (FromForm _) = 1"
| "host_weight (FromAttempt (OutFailed _)) = 3"
| "host_weight (FromAttempt (OutSaved _ _)) = 3"
| "host_weight (FromAttempt _) = 2"

definition attempt_weight :: "attempt \<Rightarrow> nat" where
  "attempt_weight a =
     (case at_phase a of Starting \<Rightarrow> 30 | Browser \<Rightarrow> 20 | Testing _ \<Rightarrow> 10 | Saving _ \<Rightarrow> 5 | Ended \<Rightarrow> 0)"

definition setup_weight :: "'w account_setup \<Rightarrow> nat" where
  "setup_weight s =
     sum_list (map told_weight (as_to_form s)) + sum_list (map host_weight (as_to_host s)) +
     sum_list (map attempt_weight (as_attempts s)) +
     sum_list (map (\<lambda>r. case r of None \<Rightarrow> 0 | Some _ \<Rightarrow> 4) (as_removals s))"

lemma sum_list_change:
  "n < length xs \<Longrightarrow> sum_list (map (f :: 'a \<Rightarrow> nat) (xs[n := x])) + f (xs ! n) = sum_list (map f xs) + f x"
  by (induction xs arbitrary: n) (auto simp: nth_Cons split: nat.split)

lemma abort_weight: "attempt_weight (abort_attempt a) \<le> attempt_weight a"
  by (auto simp: abort_attempt_def attempt_weight_def split: attempt_phase.split)

lemma run_attempt_weight:
  assumes "run_attempt env n a st srcs w = (a', out, st', srcs', w')" and "at_phase a \<noteq> Ended"
  shows "attempt_weight a' + sum_list (map host_weight (map FromAttempt out)) < attempt_weight a"
  using assms
  by (auto simp: run_attempt_def attempt_weight_def signed_in_def Let_def
      split: attempt_phase.splits auth_kind.splits sum.splits prod.splits if_splits option.splits)

lemma told_weight_asks:
  assumes "fm_asked w = []" and "\<not> fm_closed w"
  shows "sum_list (map host_weight (map FromForm (fm_asked (form_told m w)))) < told_weight m"
  using assms by (cases m) (simp_all add: close_form_def form_ask_def)

lemma host_weight_pos: "0 < host_weight m"
  by (induction m rule: host_weight.induct) simp_all

lemma host_abort_weight: "setup_weight (host_abort s) \<le> setup_weight s"
proof (cases "as_task s")
  case (Some n)
  show ?thesis
  proof (cases "n < length (as_attempts s)")
    case True
    from sum_list_change [OF this, of attempt_weight "abort_attempt (as_attempts s ! n)"] abort_weight [of "as_attempts s ! n"]
    show ?thesis using Some by (simp add: host_abort_def setup_weight_def)
  qed (use Some in \<open>simp add: host_abort_def setup_weight_def not_less list_update_beyond\<close>)
qed (simp add: host_abort_def)

lemma tell_form_weight: "setup_weight (tell_form m s) \<le> setup_weight s + told_weight m"
  by (simp add: tell_form_def setup_weight_def)

lemma setup_weight_same [simp]:
  "setup_weight (s\<lparr>as_task := t\<rparr>) = setup_weight s" "setup_weight (s\<lparr>as_has_form := b\<rparr>) = setup_weight s"
  "setup_weight (s\<lparr>as_config := c\<rparr>) = setup_weight s" "setup_weight (s\<lparr>as_banners := bs\<rparr>) = setup_weight s"
  by (simp_all add: setup_weight_def)

lemma host_connect_weight: "setup_weight (host_connect form editing again s) < setup_weight s + 40"
  using tell_form_weight [of "NoteFailed e" "s\<lparr>as_task := None\<rparr>" for e]
  by (auto simp: host_connect_def attempt_failed_def Let_def setup_weight_def attempt_weight_def attempt_new_def tell_form_def split: sum.split)

lemma host_takes_weight: "setup_weight (host_takes copied m s) < setup_weight s + host_weight m"
proof (induction copied m s rule: host_takes.induct)
  case (1 copied form editing again s)
  then show ?case by (simp add: host_connect_weight)
next
  case (2 copied s)
  then show ?case using host_abort_weight [of s] by simp
next
  case (8 copied config i s)
  then show ?case using tell_form_weight [of NoteClose "s\<lparr>as_task := None\<rparr>"] by simp
qed (simp_all add: Let_def tell_form_def setup_weight_def)

lemma works_on_weight:
  assumes ok: "setup_ok s" and "works_on t s"
  shows "setup_weight (setup_step env t s) < setup_weight s"
proof (cases t)
  case FormTakes
  then obtain m ms where q: "as_to_form s = m # ms" using assms(2) by (auto simp: works_on_def neq_Nil_conv)
  show ?thesis
  proof (cases "fm_closed (as_window s)")
    case True
    have "0 < told_weight m" by (cases m) simp_all
    with True q FormTakes show ?thesis by (simp add: on_form_def setup_weight_def)
  next
    case False
    with ok have "fm_asked (as_window s) = []" by (simp add: setup_ok_def)
    from told_weight_asks [OF this False, of m] show ?thesis
      using False q FormTakes by (simp add: on_form_def setup_weight_def Let_def)
  qed
next
  case HostTakes
  then obtain m ms where q: "as_to_host s = m # ms" using assms(2) by (auto simp: works_on_def neq_Nil_conv)
  have "setup_weight s = setup_weight (s\<lparr>as_to_host := ms\<rparr>) + host_weight m" by (simp add: setup_weight_def q)
  with host_takes_weight [of "ce_copied env" m "s\<lparr>as_to_host := ms\<rparr>"] HostTakes q show ?thesis by simp
next
  case (AttemptRuns n)
  with assms(2) have n: "n < length (as_attempts s)" "at_phase (as_attempts s ! n) \<noteq> Ended" by (simp_all add: works_on_def)
  obtain a out st srcs w where run: "run_attempt env n (as_attempts s ! n) (as_stores s) (as_sources s) (as_world s) = (a, out, st, srcs, w)"
    by (metis prod.exhaust)
  from run_attempt_weight [OF run n(2)] sum_list_change [OF n(1), of attempt_weight a]
  show ?thesis using AttemptRuns n(1) run by (simp add: setup_weight_def)
next
  case (RemovalRuns n)
  with assms(2) obtain config i where n: "n < length (as_removals s)" "as_removals s ! n = Some (config, i)"
    by (auto simp: works_on_def)
  from sum_list_change [OF n(1), of "\<lambda>r. case r of None \<Rightarrow> 0 | Some _ \<Rightarrow> 4" None]
  show ?thesis using RemovalRuns n by (simp add: setup_weight_def split: prod.split sum.split)
qed (use assms(2) in \<open>simp_all add: works_on_def\<close>)

lemma works_bounded:
  "setup_ok s \<Longrightarrow> works env ts s \<Longrightarrow> length ts + setup_weight (setup_run env ts s) \<le> setup_weight s"
proof (induction ts arbitrary: s)
  case (Cons t ts)
  then have "setup_weight (setup_step env t s) < setup_weight s" by (intro works_on_weight) simp_all
  with Cons.IH [of "setup_step env t s"] Cons.prems show ?case
    by (simp add: setup_run_def setup_ok_step del: setup_step.simps)
qed (simp add: setup_run_def)

lemma not_idle_works: "\<not> setup_idle s \<Longrightarrow> \<exists>t. works_on t s"
proof -
  assume "\<not> setup_idle s"
  then consider "as_to_form s \<noteq> []" | "as_to_host s \<noteq> []"
    | n where "n < length (as_attempts s)" "at_phase (as_attempts s ! n) \<noteq> Ended"
    | n where "n < length (as_removals s)" "as_removals s ! n \<noteq> None"
    unfolding setup_idle_def list_all_length by blast
  then show ?thesis
  proof cases
    case 1
    then have "works_on FormTakes s" by (simp add: works_on_def)
    then show ?thesis ..
  next
    case 2
    then have "works_on HostTakes s" by (simp add: works_on_def)
    then show ?thesis ..
  next
    case (3 n)
    then have "works_on (AttemptRuns n) s" by (simp add: works_on_def)
    then show ?thesis ..
  next
    case (4 n)
    then have "works_on (RemovalRuns n) s" by (simp add: works_on_def)
    then show ?thesis ..
  qed
qed

lemma works_to_idle: "setup_ok s \<Longrightarrow> \<exists>ts. works env ts s \<and> setup_idle (setup_run env ts s)"
proof (induction "setup_weight s" arbitrary: s rule: less_induct)
  case less
  show ?case
  proof (cases "setup_idle s")
    case True
    then have "works env [] s \<and> setup_idle (setup_run env [] s)" by (simp add: setup_run_def)
    then show ?thesis ..
  next
    case False
    then obtain t where t: "works_on t s" using not_idle_works by blast
    from less.hyps [OF works_on_weight [OF less.prems t] setup_ok_step [OF less.prems]]
    obtain ts where "works env ts (setup_step env t s)" "setup_idle (setup_run env ts (setup_step env t s))" by blast
    with t have "works env (t # ts) s \<and> setup_idle (setup_run env (t # ts) s)" by (simp add: setup_run_def)
    then show ?thesis ..
  qed
qed

lemma idle_not_awaited: "setup_idle s \<Longrightarrow> \<not> awaited s"
  by (auto simp: setup_idle_def awaited_def will_report_def list_all_iff list_ex_iff)

text \<open>C38. Whatever the user does and in whatever order the form, the main window, the attempts and the
  failures of removals get to run: once the user waits, everything under way ends after boundedly
  many steps, whichever step is taken next, and then the form takes input again or is closed.  It is
  never left locked.\<close>

theorem form_is_released:
  assumes "s = setup_run env steps (setup_new (form_window_new mode form again) config st srcs world)"
  shows "(\<forall>ts. works env ts s \<longrightarrow> length ts \<le> setup_weight s \<and>
      (setup_idle (setup_run env ts s) \<longrightarrow>
       fm_closed (as_window (setup_run env ts s)) \<or> \<not> fm_busy (as_window (setup_run env ts s)))) \<and>
    (\<exists>ts. works env ts s \<and> setup_idle (setup_run env ts s))"
proof -
  have ok: "setup_ok s" unfolding assms by (intro setup_ok_run setup_ok_new)
  have "fm_closed (as_window (setup_run env ts s)) \<or> \<not> fm_busy (as_window (setup_run env ts s))"
    if "setup_idle (setup_run env ts s)" for ts
    using setup_ok_run [OF ok, of env ts] idle_not_awaited [OF that] by (auto simp: setup_ok_def)
  moreover have "length ts \<le> setup_weight s" if "works env ts s" for ts
    using works_bounded [OF ok that] by simp
  ultimately show ?thesis using works_to_idle [OF ok] by blast
qed

text \<open>A form that is filled in for the examples, and surroundings in which every login works.\<close>

definition demo_form :: account_form where
  "demo_form = \<lparr>fo_display_name = lit ''Me'', fo_email = lit ''me@x.org'', fo_auth = PasswordAuth, fo_password = lit ''pw'',
     fo_imap_host = lit ''imap.x.org'', fo_imap_port = lit ''993'', fo_smtp_host = lit ''smtp.x.org'',
     fo_smtp_port = lit ''465'', fo_smtp_tls = Ssl\<rparr>"

definition demo_connect :: "unit connect_env" where
  "demo_connect = \<lparr>ce_tokens = \<lparr>te_post = (\<lambda>_ _ w. (Unreachable, w)), te_now = (\<lambda>_. 0), te_json = (\<lambda>_. None)\<rparr>,
     ce_sign_in = plain_env, ce_url = (\<lambda>_. None), ce_began = (\<lambda>_. Inl (Anyhow [])), ce_page = (\<lambda>_. ([], None)),
     ce_incoming = (\<lambda>_. []), ce_now = (\<lambda>_. 0), ce_imap = (\<lambda>_ _ w. (Some (Inr ()), w)),
     ce_smtp = (\<lambda>_ w. (Some (Inr ()), w)), ce_keyring_error = [], ce_copied = True\<rparr>"

definition demo_setup :: "unit account_setup" where
  "demo_setup = setup_new (form_window_new (NewAccount False) demo_form False) config_default fresh_stores [] ()"

lemma form_of_same [simp]:
  "form_of (w\<lparr>fm_busy := b\<rparr>) = form_of w" "form_of (w\<lparr>fm_locked := b\<rparr>) = form_of w" "form_of (w\<lparr>fm_view := v\<rparr>) = form_of w"
  "form_of (w\<lparr>fm_status := t\<rparr>) = form_of w" "form_of (w\<lparr>fm_asked := rs\<rparr>) = form_of w"
  by (simp_all add: form_of_def server_fields_def)

lemma demo_form_typed [simp]:
  "form_of (update_note w) = form_of w"
  "form_of (form_window_new (NewAccount False) demo_form b) = demo_form"
  "trim (fm_imap_host (form_window_new (NewAccount False) demo_form b)) \<noteq> []"
  "\<not> fm_busy (form_window_new mode f b)" "\<not> fm_closed (form_window_new mode f b)" "fm_asked (form_window_new mode f b) = []"
  "fm_mode (form_window_new mode f b) = mode"
  by (simp_all add: form_window_new_def form_of_def server_fields_def update_note_def demo_form_def Let_def
      trim_def trim_matches_def trim_start_def trim_end_def is_whitespace_def lit_def)

lemma demo_form_account:
  "\<exists>a. to_account demo_form base = Inr a \<and> ac_auth a = PasswordAuth"
  by (simp add: to_account_def demo_form_def is_email_def rsplit_at_def rfind_char_def is_host_def is_whitespace_def
      parse_port_def parse_nat_def is_digit_def digits_value_def lit_def trim_def trim_matches_def trim_start_def trim_end_def Let_def)

theorem form_is_released_witness:
  "let s = setup_run demo_connect [FormInput PressConnect] demo_setup in
   fm_busy (as_window s) \<and> works demo_connect [HostTakes, AttemptRuns 0] s \<and> 2 \<le> setup_weight s"
proof -
  obtain a where a: "to_account demo_form None = Inr a" using demo_form_account by blast
  obtain b where b: "to_account demo_form (find (\<lambda>x. ac_id x = form_id demo_form) []) = Inr b" "ac_auth b = PasswordAuth"
    using demo_form_account by blast
  let ?s = "setup_run demo_connect [FormInput PressConnect] demo_setup"
  have s: "as_window ?s = (set_busy True (form_window_new (NewAccount False) demo_form False))\<lparr>fm_status := lit ''Connecting...''\<rparr>"
    "as_to_host ?s = [FromForm (RequestConnect demo_form None False)]" "as_attempts ?s = []" "as_config ?s = config_default"
    using a by (simp_all add: setup_run_def demo_setup_def setup_new_def on_form_def form_connect_def form_ask_def
        form_status_def set_busy_def Let_def)
  have "works demo_connect [HostTakes, AttemptRuns 0] ?s"
    using b by (simp add: works_on_def s host_connect_def config_default_def attempt_new_def Let_def)
  moreover have "?s = setup_run demo_connect [FormInput PressConnect]
      (setup_new (form_window_new (NewAccount False) demo_form False) config_default fresh_stores [] ())"
    by (simp add: demo_setup_def)
  from form_is_released [OF this] have "works demo_connect ts ?s \<Longrightarrow> length ts \<le> setup_weight ?s" for ts by blast
  ultimately have "length [HostTakes, AttemptRuns 0] \<le> setup_weight ?s" by blast
  with \<open>works demo_connect [HostTakes, AttemptRuns 0] ?s\<close> show ?thesis
    unfolding Let_def by (simp only: s) simp
qed

section \<open>What is saved\<close>

text \<open>The test of attempt \<open>a\<close> with the credentials \<open>auth\<close> has passed.\<close>

definition tested :: "'w connect_env \<Rightarrow> attempt \<Rightarrow> auth \<Rightarrow> bool" where
  "tested env a auth \<longleftrightarrow>
     (\<exists>w w'. test_connection (ce_imap env (at_account a) auth) (ce_smtp env) (at_account a) auth w = (Inr (), w'))"

definition attempt_ok :: "'w connect_env \<Rightarrow> attempt \<Rightarrow> bool" where
  "attempt_ok env a \<longleftrightarrow>
     (\<exists>base. to_account (at_form a) base = Inr (at_account a)) \<and> (\<forall>auth. at_phase a = Saving auth \<longrightarrow> tested env a auth)"

lemma testedI: "test_connection (ce_imap env (at_account a) auth) (ce_smtp env) (at_account a) auth w = (Inr u, w') \<Longrightarrow> tested env a auth"
  by (cases u) (auto simp: tested_def intro: exI)

lemma tested_same [simp]:
  "tested env (a\<lparr>at_phase := p\<rparr>) auth = tested env a auth" "tested env (a\<lparr>at_unheard := b\<rparr>) auth = tested env a auth"
  by (simp_all add: tested_def)

lemma attempt_ok_run:
  assumes "run_attempt env n a st srcs w = (a', out, st', srcs', w')" and "attempt_ok env a"
  shows "attempt_ok env a'"
  using assms
  by (auto simp: run_attempt_def attempt_ok_def signed_in_def Let_def intro: testedI
      split: attempt_phase.splits auth_kind.splits sum.splits prod.splits if_splits option.splits)

lemma attempt_ok_abort: "attempt_ok env a \<Longrightarrow> attempt_ok env (abort_attempt a)"
  by (auto simp: abort_attempt_def attempt_ok_def split: attempt_phase.split)

lemma list_all_update: "list_all P xs \<Longrightarrow> (n < length xs \<Longrightarrow> P x) \<Longrightarrow> list_all P (xs[n := x])"
  by (cases "n < length xs") (auto simp: list_all_length nth_list_update)

lemma list_all_nth: "list_all P xs \<Longrightarrow> n < length xs \<Longrightarrow> P (xs ! n)"
  by (simp add: list_all_length)

lemma attempts_ok_host:
  "list_all (attempt_ok env) (as_attempts s) \<Longrightarrow> list_all (attempt_ok env) (as_attempts (host_takes copied m s))"
proof (induction copied m s rule: host_takes.induct)
  case (1 copied form editing again s)
  then show ?case by (auto simp: host_connect_def attempt_ok_def attempt_new_def Let_def split: sum.split)
next
  case (2 copied s)
  then show ?case
    by (auto simp: host_abort_def split: option.split intro!: list_all_update attempt_ok_abort dest: list_all_nth)
qed (simp_all add: Let_def)

lemma attempts_ok_step: "list_all (attempt_ok env) (as_attempts s) \<Longrightarrow> list_all (attempt_ok env) (as_attempts (setup_step env t s))"
proof (cases t)
  case (AttemptRuns n)
  assume ok: "list_all (attempt_ok env) (as_attempts s)"
  obtain a out st srcs w where run: "run_attempt env n (as_attempts s ! n) (as_stores s) (as_sources s) (as_world s) = (a, out, st, srcs, w)"
    by (metis prod.exhaust)
  have "n < length (as_attempts s) \<Longrightarrow> attempt_ok env a" using ok attempt_ok_run [OF run] by (simp add: list_all_length)
  with ok show ?thesis by (simp add: AttemptRuns run list_all_update)
qed (auto simp: on_form_def Let_def attempts_ok_host split: list.split option.split prod.split)

lemma attempts_ok_run_all: "list_all (attempt_ok env) (as_attempts s) \<Longrightarrow> list_all (attempt_ok env) (as_attempts (setup_run env steps s))"
  unfolding setup_run_def by (induction steps arbitrary: s) (simp_all add: attempts_ok_step del: setup_step.simps)

lemma host_takes_stores [simp]: "as_stores (host_takes copied m s) = as_stores s"
  by (induction copied m s rule: host_takes.induct)
    (auto simp: Let_def host_connect_def host_abort_def tell_form_def split: sum.split option.split)

text \<open>C39. The keyring and \<open>config.toml\<close> change only when an attempt writes its account, and it does so only
  after both servers have taken the credentials it writes: an account that the form has checked, and
  a password that signs in.\<close>

theorem nothing_saved_untested:
  assumes "s = setup_run env steps (setup_new (form_window_new mode form again) config st srcs world)"
    and "as_stores (setup_step env t s) \<noteq> as_stores s" and "\<forall>n. t \<noteq> RemovalRuns n"
  shows "\<exists>n auth. t = AttemptRuns n \<and> n < length (as_attempts s) \<and> at_phase (as_attempts s ! n) = Saving auth \<and>
    tested env (as_attempts s ! n) auth \<and>
    account_ok (at_account (as_attempts s ! n)) \<and>
    as_stores (setup_step env t s) =
      snd (save_account (ce_keyring_error env) (si_service_var (ce_sign_in env)) (at_config (as_attempts s ! n))
        (at_account (as_attempts s ! n)) auth (as_sources s) (as_stores s))"
proof -
  have all: "list_all (attempt_ok env) (as_attempts s)"
    unfolding assms(1) by (rule attempts_ok_run_all) (simp add: setup_new_def)
  obtain n where t: "t = AttemptRuns n" and n: "n < length (as_attempts s)"
    using assms(2,3) by (cases t) (auto simp: on_form_def Let_def split: list.splits if_splits)
  let ?a = "as_attempts s ! n"
  have ok: "attempt_ok env ?a" using all n by (simp add: list_all_length)
  obtain auth where phase: "at_phase ?a = Saving auth"
    using assms(2) n
    by (cases "at_phase ?a") (auto simp: t run_attempt_def signed_in_def Let_def split: auth_kind.splits sum.splits prod.splits if_splits)
  have "as_stores (setup_step env t s) =
      snd (save_account (ce_keyring_error env) (si_service_var (ce_sign_in env)) (at_config ?a) (at_account ?a) auth (as_sources s) (as_stores s))"
    using n by (simp add: t run_attempt_def phase Let_def split: prod.split)
  moreover have "tested env ?a auth" using ok phase by (simp add: attempt_ok_def)
  moreover obtain base where "to_account (at_form ?a) base = Inr (at_account ?a)" using ok by (auto simp: attempt_ok_def)
  ultimately show ?thesis using t n phase accepted_accounts_ok by blast
qed

lemma demo_saving:
  obtains b w where "setup_run demo_connect [FormInput PressConnect, HostTakes, AttemptRuns 0, AttemptRuns 0] demo_setup =
      \<lparr>as_window = w, as_to_form = [], as_to_host = [FromAttempt (OutWorking (lit ''Saving...''))], as_config = config_default,
       as_has_form = True, as_task = Some 0,
       as_attempts = [\<lparr>at_form = demo_form, at_config = config_default, at_account = b, at_again = False,
         at_phase = Saving (AuthPassword (lit ''pw'')), at_unheard = False\<rparr>],
       as_removals = [], as_stores = fresh_stores, as_sources = [], as_world = (), as_banners = []\<rparr>"
    and "fm_busy w" and "\<not> fm_closed w" and "fm_asked w = []"
proof -
  obtain a where a: "to_account demo_form None = Inr a" using demo_form_account by blast
  obtain b where b: "to_account demo_form (find (\<lambda>x. ac_id x = form_id demo_form) []) = Inr b" "ac_auth b = PasswordAuth"
    using demo_form_account by blast
  let ?w = "(set_busy True (form_window_new (NewAccount False) demo_form False))\<lparr>fm_status := lit ''Connecting...''\<rparr>"
  have "fo_password demo_form = lit ''pw''" by (simp add: demo_form_def)
  then have "setup_run demo_connect [FormInput PressConnect, HostTakes, AttemptRuns 0, AttemptRuns 0] demo_setup =
      \<lparr>as_window = ?w, as_to_form = [], as_to_host = [FromAttempt (OutWorking (lit ''Saving...''))], as_config = config_default,
       as_has_form = True, as_task = Some 0,
       as_attempts = [\<lparr>at_form = demo_form, at_config = config_default, at_account = b, at_again = False,
         at_phase = Saving (AuthPassword (lit ''pw'')), at_unheard = False\<rparr>],
       as_removals = [], as_stores = fresh_stores, as_sources = [], as_world = (), as_banners = []\<rparr>"
    using a b
    by (simp add: setup_run_def demo_setup_def setup_new_def on_form_def form_connect_def form_ask_def form_status_def set_busy_def
        host_connect_def attempt_new_def run_attempt_def test_connection_def login_error_def demo_connect_def config_default_def Let_def)
  then show thesis by (rule that) (simp_all add: set_busy_def Let_def)
qed

lemma demo_save:
  "\<exists>k. save_account [] None config_default b (AuthPassword p) [] fresh_stores =
     (Inr (config_default\<lparr>cfg_accounts := [b\<lparr>ac_auth := PasswordAuth, ac_oauth_token_issued_at := None\<rparr>]\<rparr>),
      fresh_stores\<lparr>st_keyring := k,
        st_config := config_default\<lparr>cfg_accounts := [b\<lparr>ac_auth := PasswordAuth, ac_oauth_token_issued_at := None\<rparr>]\<rparr>\<rparr>)"
  by (simp add: save_account_def store_secret_def write_config_def forget_secret_def fresh_stores_def upsert_account_def
      config_default_def Let_def)

theorem nothing_saved_untested_witness:
  "let s = setup_run demo_connect [FormInput PressConnect, HostTakes, AttemptRuns 0, AttemptRuns 0] demo_setup in
   \<exists>auth. tested demo_connect (as_attempts s ! 0) auth \<and>
     as_stores (setup_step demo_connect (AttemptRuns 0) s) \<noteq> as_stores s"
proof -
  let ?s = "setup_run demo_connect [FormInput PressConnect, HostTakes, AttemptRuns 0, AttemptRuns 0] demo_setup"
  have changed: "as_stores (setup_step demo_connect (AttemptRuns 0) ?s) \<noteq> as_stores ?s"
  proof -
    obtain b w where s: "?s = \<lparr>as_window = w, as_to_form = [], as_to_host = [FromAttempt (OutWorking (lit ''Saving...''))],
       as_config = config_default, as_has_form = True, as_task = Some 0,
       as_attempts = [\<lparr>at_form = demo_form, at_config = config_default, at_account = b, at_again = False,
         at_phase = Saving (AuthPassword (lit ''pw'')), at_unheard = False\<rparr>],
       as_removals = [], as_stores = fresh_stores, as_sources = [], as_world = (), as_banners = []\<rparr>" by (rule demo_saving)
    obtain k where k: "save_account [] None config_default b (AuthPassword (lit ''pw'')) [] fresh_stores =
       (Inr (config_default\<lparr>cfg_accounts := [b\<lparr>ac_auth := PasswordAuth, ac_oauth_token_issued_at := None\<rparr>]\<rparr>),
        fresh_stores\<lparr>st_keyring := k,
          st_config := config_default\<lparr>cfg_accounts := [b\<lparr>ac_auth := PasswordAuth, ac_oauth_token_issued_at := None\<rparr>]\<rparr>\<rparr>)"
      using demo_save by blast
    show ?thesis
      unfolding s by (simp add: run_attempt_def k demo_connect_def plain_env_def) (simp add: fresh_stores_def config_default_def)
  qed
  have "?s = setup_run demo_connect [FormInput PressConnect, HostTakes, AttemptRuns 0, AttemptRuns 0]
      (setup_new (form_window_new (NewAccount False) demo_form False) config_default fresh_stores [] ())"
    by (simp only: demo_setup_def)
  from nothing_saved_untested [OF this changed, simplified] obtain n auth
    where "AttemptRuns 0 = AttemptRuns n" and "tested demo_connect (as_attempts ?s ! n) auth" by blast
  then have "tested demo_connect (as_attempts ?s ! 0) auth" by simp
  with changed show ?thesis unfolding Let_def by blast
qed

section \<open>Races\<close>

text \<open>Closing the form while the account is being written cancels only the report: the account is in
  \<open>config.toml\<close> and its password in the keyring, and the main window goes on with a configuration
  without it, which its next save of the configuration writes over the account.\<close>

lemma cancelled_save_is_written:
  "let s = setup_run demo_connect [FormInput PressConnect, HostTakes, AttemptRuns 0, AttemptRuns 0, FormInput PressCancel,
       HostTakes, HostTakes, HostTakes, AttemptRuns 0] demo_setup in
   setup_idle (s\<lparr>as_to_form := []\<rparr>) \<and> fm_closed (as_window s) \<and>
   cfg_accounts (as_config s) = [] \<and> cfg_accounts (st_config (as_stores s)) \<noteq> []"
proof -
  obtain b w where s: "setup_run demo_connect [FormInput PressConnect, HostTakes, AttemptRuns 0, AttemptRuns 0] demo_setup =
      \<lparr>as_window = w, as_to_form = [], as_to_host = [FromAttempt (OutWorking (lit ''Saving...''))],
       as_config = config_default, as_has_form = True, as_task = Some 0,
       as_attempts = [\<lparr>at_form = demo_form, at_config = config_default, at_account = b, at_again = False,
         at_phase = Saving (AuthPassword (lit ''pw'')), at_unheard = False\<rparr>],
       as_removals = [], as_stores = fresh_stores, as_sources = [], as_world = (), as_banners = []\<rparr>"
    and w: "fm_busy w" "\<not> fm_closed w" "fm_asked w = []" by (rule demo_saving)
  obtain k where k: "save_account [] None config_default b (AuthPassword (lit ''pw'')) [] fresh_stores =
       (Inr (config_default\<lparr>cfg_accounts := [b\<lparr>ac_auth := PasswordAuth, ac_oauth_token_issued_at := None\<rparr>]\<rparr>),
        fresh_stores\<lparr>st_keyring := k,
          st_config := config_default\<lparr>cfg_accounts := [b\<lparr>ac_auth := PasswordAuth, ac_oauth_token_issued_at := None\<rparr>]\<rparr>\<rparr>)"
    using demo_save by blast
  define c where "c = config_default\<lparr>cfg_accounts := [b\<lparr>ac_auth := PasswordAuth, ac_oauth_token_issued_at := None\<rparr>]\<rparr>"
  define w' where "w' = (close_form (form_ask RequestAbort w))\<lparr>fm_asked := []\<rparr>"
  let ?a = "\<lambda>phase unheard. \<lparr>at_form = demo_form, at_config = config_default, at_account = b, at_again = False,
         at_phase = phase, at_unheard = unheard\<rparr>"
  let ?s = "\<lambda>w q form host task a st. \<lparr>as_window = w, as_to_form = q, as_to_host = host, as_config = config_default,
       as_has_form = form, as_task = task, as_attempts = [a], as_removals = [], as_stores = st, as_sources = [], as_world = (), as_banners = []\<rparr>"
  let ?work = "FromAttempt (OutWorking (lit ''Saving...''))" and ?told = "[NoteWorking (lit ''Saving...'')]"
  let ?saving = "Saving (AuthPassword (lit ''pw''))"
  have 1: "setup_step demo_connect (FormInput PressCancel) (?s w [] True [?work] (Some 0) (?a ?saving False) fresh_stores) =
      ?s w' [] True [?work, FromForm RequestAbort, FromForm RequestFormClosed] (Some 0) (?a ?saving False) fresh_stores"
    using w by (simp add: on_form_def cancel_form_def w'_def close_form_def form_ask_def Let_def)
  have 2: "setup_step demo_connect HostTakes (?s w' [] True [?work, FromForm RequestAbort, FromForm RequestFormClosed] (Some 0)
        (?a ?saving False) fresh_stores) =
      ?s w' ?told True [FromForm RequestAbort, FromForm RequestFormClosed] (Some 0) (?a ?saving False) fresh_stores"
    by (simp add: tell_form_def)
  have 3: "setup_step demo_connect HostTakes (?s w' ?told True [FromForm RequestAbort, FromForm RequestFormClosed] (Some 0)
        (?a ?saving False) fresh_stores) =
      ?s w' ?told True [FromForm RequestFormClosed] None (?a ?saving True) fresh_stores"
    by (simp add: host_abort_def abort_attempt_def)
  have 4: "setup_step demo_connect HostTakes (?s w' ?told True [FromForm RequestFormClosed] None (?a ?saving True) fresh_stores) =
      ?s w' ?told False [] None (?a ?saving True) fresh_stores" by simp
  have env: "ce_keyring_error demo_connect = []" "si_service_var (ce_sign_in demo_connect) = None"
    by (simp_all add: demo_connect_def plain_env_def)
  have 5: "setup_step demo_connect (AttemptRuns 0) (?s w' ?told False [] None (?a ?saving True) fresh_stores) =
      ?s w' ?told False [] None (?a Ended True) (fresh_stores\<lparr>st_keyring := k, st_config := c\<rparr>)"
    by (simp add: run_attempt_def env k [folded c_def])
  have "setup_run demo_connect [FormInput PressConnect, HostTakes, AttemptRuns 0, AttemptRuns 0, FormInput PressCancel,
       HostTakes, HostTakes, HostTakes, AttemptRuns 0] demo_setup =
     foldl (\<lambda>s t. setup_step demo_connect t s)
       (setup_run demo_connect [FormInput PressConnect, HostTakes, AttemptRuns 0, AttemptRuns 0] demo_setup)
       [FormInput PressCancel, HostTakes, HostTakes, HostTakes, AttemptRuns 0]"
    by (simp add: setup_run_def del: setup_step.simps)
  then have "setup_run demo_connect [FormInput PressConnect, HostTakes, AttemptRuns 0, AttemptRuns 0, FormInput PressCancel,
       HostTakes, HostTakes, HostTakes, AttemptRuns 0] demo_setup =
     ?s w' ?told False [] None (?a Ended True) (fresh_stores\<lparr>st_keyring := k, st_config := c\<rparr>)"
    by (simp only: s foldl.simps 1 2 3 4 5)
  then show ?thesis by (simp add: setup_idle_def config_default_def c_def w'_def)
qed

text \<open>A removal that fails is reported to the form as if its own attempt had failed: it unlocks, its
  attempt goes on and can no longer be cancelled, and Connect starts a second one.\<close>

lemma failed_removal_allows_a_second_attempt:
  "let s = setup_run demo_connect [FormInput PressConnect, HostTakes, AskRemoval i, RemovalRuns 0, HostTakes, FormTakes,
       FormInput PressConnect, HostTakes]
       (setup_new (form_window_new (NewAccount False) demo_form False) config_default (fresh_stores\<lparr>st_write_error := Some e\<rparr>) [] ()) in
   length (filter will_report (as_attempts s)) = 2 \<and> as_task s = Some 1"
proof -
  obtain a where a: "to_account demo_form None = Inr a" using demo_form_account by blast
  obtain b where b: "to_account demo_form (find (\<lambda>x. ac_id x = form_id demo_form) []) = Inr b" "ac_auth b = PasswordAuth"
    using demo_form_account by blast
  show ?thesis
    using a b
    by (simp add: setup_run_def setup_new_def on_form_def form_connect_def form_ask_def form_status_def set_busy_def
        host_connect_def attempt_failed_def attempt_new_def tell_form_def will_report_def config_default_def
        remove_saved_account_def write_config_def remove_account_def fresh_stores_def Let_def)
qed

lemma set_update_first_other: "y \<in> set xs \<Longrightarrow> \<not> P y \<Longrightarrow> y \<in> set (update_first P f xs)"
  by (induction xs) auto

text \<open>An attempt and a removal each write the whole configuration as it was when they were asked for.
  When an account is removed while another one is being added, the one that writes last brings back
  the removed account, whose password is gone.\<close>

lemma removed_account_comes_back:
  assumes "save_account os sv config account auth srcs st = (Inr saved, st')" and "old \<in> set (cfg_accounts config)"
    and "ac_id old \<noteq> ac_id account"
    and "remove_saved_account sv config (ac_id old) st0 = (Inr removed, st)"
  shows "ac_id old \<notin> ac_id ` set (cfg_accounts (st_config st)) \<and> old \<in> set (cfg_accounts (st_config st'))"
proof -
  have "st_config st = remove_account (ac_id old) config"
    using assms(4) by (auto simp: remove_saved_account_def write_config_def SECRET_KINDS_def forget_secret_def split: option.splits)
  moreover have "\<exists>a. st_config st' = upsert_account a config \<and> ac_id a = ac_id account"
    using assms(1)
    by (auto simp: save_account_def google_account_def Let_def forget_secret_def split: auth.splits sum.splits prod.splits option.splits
        dest!: store_secret_Inr write_config_Inr)
  then obtain a where "st_config st' = upsert_account a config" "ac_id a = ac_id account" by blast
  moreover have "old \<in> set (cfg_accounts (upsert_account a config))"
    using assms(2,3) \<open>ac_id a = ac_id account\<close>
    by (auto simp: upsert_account_def set_update_first_other)
  ultimately show ?thesis by (auto simp: remove_account_def)
qed

section \<open>The user's own server settings\<close>

text \<open>Once the user has changed a server setting, nothing but the user changes the servers: no address
  typed or chosen later fills them in, as long as the IMAP server is not left blank.\<close>

definition server_texts :: "form_window \<Rightarrow> str \<times> str \<times> str \<times> str" where
  "server_texts w = (fm_imap_host w, fm_imap_port w, fm_smtp_host w, fm_smtp_port w)"

lemma own_servers_kept:
  assumes "fm_servers_edited w" and "trim (fm_imap_host w) \<noteq> []"
    and "\<And>p t. i = TypeIn p t \<Longrightarrow> p \<in> {PartName, PartEmail, PartPassword, PartRevealed}"
  shows "server_texts (form_update i w) = server_texts w \<and> fm_servers_edited (form_update i w)"
proof (cases i)
  case (TypeIn p t)
  with assms(3) have "p \<in> {PartName, PartEmail, PartPassword, PartRevealed}" by blast
  with assms(1) TypeIn show ?thesis by (auto simp: server_texts_def)
qed (use assms(1,2) in \<open>simp_all add: server_texts_def email_changed_def password_changed_def auth_changed_def update_note_def
    show_password_def servers_edited_def form_connect_def form_ask_def form_status_def set_busy_def focus_field_def
    cancel_form_def close_form_def Let_def split: sum.split option.split\<close>)

end
