(* ===== verification/ListWindows.thy ===== *)
theory ListWindows
  imports AccountStatus Composes Accounts
begin

text \<open>
  The secondary windows that list things and ask the main window to act on them: Drafts and Outbox
  (\<open>crates/esmail-win32/src/app/queue/window.rs\<close>) and Accounts (\<open>app/accounts/manage.rs\<close>); the Settings
  window (\<open>app/settings.rs\<close>) and the thread that writes \<open>config.toml\<close>
  (\<open>core_glue/config_saver.rs\<close>).  A list widget is its rows and the selected index; setting new rows
  selects none of them.  The answer of a dialog comes with the message that opens it.  The two
  windows show new rows under one contract, the locale \<open>list_window\<close>: the selected row stays
  selected as long as it is there.
\<close>

section \<open>A list that keeps its selection\<close>

definition row_at :: "'r list \<Rightarrow> nat option \<Rightarrow> 'r option" where
  "row_at rows sel = Option.bind sel (\<lambda>i. if i < length rows then Some (rows ! i) else None)"

locale list_window =
  fixes rows_of :: "'w \<Rightarrow> 'r list"
    and selected_of :: "'w \<Rightarrow> nat option"
    and key :: "'r \<Rightarrow> 'k"
    and show_rows :: "'r list \<Rightarrow> 'w \<Rightarrow> 'w"
  assumes shown: "rows_of (show_rows rs w) = rs"
    and keeps: "selected_of (show_rows rs w) =
      (case Option.bind (row_at (rows_of w) (selected_of w)) (\<lambda>r. position (\<lambda>x. key x = key r) rs) of
         Some i \<Rightarrow> Some i
       | None \<Rightarrow> if rs = [] then None else Some 0)"
begin

definition current :: "'w \<Rightarrow> 'r option" where
  "current w = row_at (rows_of w) (selected_of w)"

lemma selection_survives:
  assumes "current w = Some r" and "\<exists>x\<in>set rs. key x = key r"
  obtains x where "current (show_rows rs w) = Some x" and "x \<in> set rs" and "key x = key r"
proof -
  obtain i where i: "position (\<lambda>x. key x = key r) rs = Some i"
    using assms(2) by (cases "position (\<lambda>x. key x = key r) rs") (auto simp: position_None)
  then have "i < length rs" "key (rs ! i) = key r" by (simp_all add: position_Some)
  with i assms(1) that [of "rs ! i"] show thesis by (auto simp: current_def row_at_def shown keeps)
qed

lemma something_selected:
  assumes "rs \<noteq> []"
  obtains x where "current (show_rows rs w) = Some x" and "x \<in> set rs"
proof (cases "Option.bind (row_at (rows_of w) (selected_of w)) (\<lambda>r. position (\<lambda>x. key x = key r) rs)")
  case None
  with assms that [of "rs ! 0"] show thesis by (simp add: current_def row_at_def shown keeps)
next
  case (Some i)
  then have "i < length rs" by (auto simp: bind_eq_Some_conv position_Some)
  with Some that [of "rs ! i"] show thesis by (simp add: current_def row_at_def shown keeps)
qed

end

section \<open>Drafts and Outbox\<close>

record queue_window =
  qw_kind :: queue_kind
  qw_rows :: "queue_row list"
  qw_selected :: "nat option"
  qw_enabled :: bool
  qw_summary :: str
  qw_asked :: "queue_request list"
  qw_closed :: bool

definition queue_selected :: "queue_window \<Rightarrow> queue_row option" where
  "queue_selected w = row_at (qw_rows w) (qw_selected w)"

definition queue_selection_changed :: "queue_window \<Rightarrow> queue_window" where
  "queue_selection_changed w = w\<lparr>qw_enabled := (queue_selected w \<noteq> None)\<rparr>"

definition queue_window_new :: "queue_kind \<Rightarrow> queue_window" where
  "queue_window_new kind = queue_selection_changed
     \<lparr>qw_kind = kind, qw_rows = [], qw_selected = None, qw_enabled = False, qw_summary = [], qw_asked = [], qw_closed = False\<rparr>"

definition queue_ask :: "queue_request \<Rightarrow> queue_window \<Rightarrow> queue_window" where
  "queue_ask r w = w\<lparr>qw_asked := qw_asked w @ [r]\<rparr>"

definition queue_show :: "queue_row list \<Rightarrow> queue_window \<Rightarrow> queue_window" where
  "queue_show rows w =
     (let selected = map_option qr_id (queue_selected w);
          index = (case Option.bind selected (\<lambda>i. position (\<lambda>r. qr_id r = i) rows) of
              Some i \<Rightarrow> Some i | None \<Rightarrow> if rows = [] then None else Some 0);
          w = w\<lparr>qw_rows := rows, qw_selected := index,
            qw_summary := (if rows = [] then
                (case qw_kind w of QueueDrafts \<Rightarrow> lit ''No saved drafts.'' | QueueOutbox \<Rightarrow> lit ''Nothing queued to send.'')
              else dec_digits (length rows) @ lit '' message(s)'')\<rparr>
      in queue_selection_changed w)"

definition queue_delete :: "bool \<Rightarrow> queue_window \<Rightarrow> queue_window" where
  "queue_delete confirmed w =
     (case queue_selected w of
        None \<Rightarrow> w
      | Some row \<Rightarrow> if confirmed then queue_ask (QDelete (qr_id row)) w else w)"

datatype queue_msg =
    QmShow "queue_row list"
  | QmSelect nat
  | QmOpen
  | QmRetry
  | QmDelete bool
  | QmClose

fun queue_update :: "queue_msg \<Rightarrow> queue_window \<Rightarrow> queue_window" where
  "queue_update (QmShow rows) w = queue_show rows w"
| "queue_update (QmSelect i) w =
     queue_selection_changed (w\<lparr>qw_selected := (if i < length (qw_rows w) then Some i else None)\<rparr>)"
| "queue_update QmOpen w = (case queue_selected w of Some row \<Rightarrow> queue_ask (QOpen (qr_id row)) w | None \<Rightarrow> w)"
| "queue_update QmRetry w = (case queue_selected w of Some row \<Rightarrow> queue_ask (QRetry (qr_id row)) w | None \<Rightarrow> w)"
| "queue_update (QmDelete confirmed) w = queue_delete confirmed w"
| "queue_update QmClose w = queue_ask QClosed (w\<lparr>qw_closed := True\<rparr>)"

interpretation queue: list_window qw_rows qw_selected qr_id queue_show
  by unfold_locales
    (auto simp: queue_show_def queue_selection_changed_def queue_selected_def Let_def map_option_case split: option.split)

lemma queue_current [simp]: "queue.current w = queue_selected w"
  by (simp add: queue.current_def queue_selected_def)

text \<open>A refresh between choosing a message and pressing a button does not redirect the button: while the
  message is still listed, the request names it.\<close>

theorem refresh_keeps_the_target:
  assumes "queue_selected w = Some row" and "\<exists>r\<in>set rows. qr_id r = qr_id row"
  shows "qw_asked (queue_update (QmDelete True) (queue_show rows w)) = qw_asked w @ [QDelete (qr_id row)] \<and>
    qw_asked (queue_update QmOpen (queue_show rows w)) = qw_asked w @ [QOpen (qr_id row)] \<and>
    qw_asked (queue_update QmRetry (queue_show rows w)) = qw_asked w @ [QRetry (qr_id row)] \<and>
    qw_enabled (queue_show rows w)"
proof -
  obtain x where x: "queue_selected (queue_show rows w) = Some x" "qr_id x = qr_id row"
    using queue.selection_survives [of w row rows] assms by auto
  have "qw_asked (queue_show rows w) = qw_asked w" "qw_enabled (queue_show rows w) = (queue_selected (queue_show rows w) \<noteq> None)"
    by (simp_all add: queue_show_def queue_selection_changed_def queue_selected_def Let_def)
  with x show ?thesis by (simp add: queue_delete_def queue_ask_def)
qed

text \<open>When it is gone, the first message of the new list is selected in its place and takes the press.\<close>

lemma gone_message_redirects:
  assumes "\<forall>r\<in>set rows. \<forall>row. queue_selected w = Some row \<longrightarrow> qr_id r \<noteq> qr_id row" and "rows = first # rest"
  shows "qw_asked (queue_update QmRetry (queue_show rows w)) = qw_asked w @ [QRetry (qr_id first)]"
proof -
  have "Option.bind (map_option qr_id (queue_selected w)) (\<lambda>i. position (\<lambda>r. qr_id r = i) rows) = None"
    using assms(1) by (cases "queue_selected w") (auto simp: position_None)
  with assms(2) show ?thesis
    by (simp add: queue_show_def queue_selection_changed_def queue_selected_def row_at_def queue_ask_def Let_def)
qed

section \<open>Accounts\<close>

datatype manage_request = MrAdd | MrEdit str | MrRemove str | MrClosed

record manage_window =
  mw_rows :: "account_row list"
  mw_selected :: "nat option"
  mw_enabled :: bool
  mw_edit_label :: str
  mw_asked :: "manage_request list"
  mw_closed :: bool

definition manage_selected :: "manage_window \<Rightarrow> account_row option" where
  "manage_selected w = row_at (mw_rows w) (mw_selected w)"

definition manage_selection_changed :: "manage_window \<Rightarrow> manage_window" where
  "manage_selection_changed w =
     w\<lparr>mw_enabled := (manage_selected w \<noteq> None),
       mw_edit_label := (case manage_selected w of
          Some row \<Rightarrow> if ar_failed row then (if ar_google row then lit ''Sign in again...'' else lit ''Reconnect...'') else lit ''Edit...''
        | None \<Rightarrow> lit ''Edit...'')\<rparr>"

definition manage_ask :: "manage_request \<Rightarrow> manage_window \<Rightarrow> manage_window" where
  "manage_ask r w = w\<lparr>mw_asked := mw_asked w @ [r]\<rparr>"

definition manage_show :: "account_row list \<Rightarrow> manage_window \<Rightarrow> manage_window" where
  "manage_show rows w =
     (let selected = map_option ar_id (manage_selected w);
          index = (case Option.bind selected (\<lambda>i. position (\<lambda>r. ar_id r = i) rows) of
              Some i \<Rightarrow> Some i | None \<Rightarrow> if rows = [] then None else Some 0)
      in manage_selection_changed (w\<lparr>mw_rows := rows, mw_selected := index\<rparr>))"

definition manage_window_new :: "account_row list \<Rightarrow> manage_window" where
  "manage_window_new rows = manage_show rows
     \<lparr>mw_rows = [], mw_selected = None, mw_enabled = False, mw_edit_label = [], mw_asked = [], mw_closed = False\<rparr>"

definition manage_remove :: "bool \<Rightarrow> manage_window \<Rightarrow> manage_window" where
  "manage_remove confirmed w =
     (case manage_selected w of
        None \<Rightarrow> w
      | Some row \<Rightarrow> if confirmed then manage_ask (MrRemove (ar_id row)) w else w)"

datatype manage_msg =
    MmShow "account_row list"
  | MmSelect nat
  | MmAdd
  | MmEdit
  | MmRemove bool
  | MmClose

fun manage_update :: "manage_msg \<Rightarrow> manage_window \<Rightarrow> manage_window" where
  "manage_update (MmShow rows) w = manage_show rows w"
| "manage_update (MmSelect i) w =
     manage_selection_changed (w\<lparr>mw_selected := (if i < length (mw_rows w) then Some i else None)\<rparr>)"
| "manage_update MmAdd w = manage_ask MrAdd w"
| "manage_update MmEdit w = (case manage_selected w of Some row \<Rightarrow> manage_ask (MrEdit (ar_id row)) w | None \<Rightarrow> w)"
| "manage_update (MmRemove confirmed) w = manage_remove confirmed w"
| "manage_update MmClose w = manage_ask MrClosed (w\<lparr>mw_closed := True\<rparr>)"

interpretation manage: list_window mw_rows mw_selected ar_id manage_show
  by unfold_locales
    (auto simp: manage_show_def manage_selection_changed_def manage_selected_def Let_def map_option_case split: option.split)

lemma manage_current [simp]: "manage.current w = manage_selected w"
  by (simp add: manage.current_def manage_selected_def)

lemma removal_names_the_chosen_account:
  assumes "manage_selected w = Some row" and "\<exists>r\<in>set rows. ar_id r = ar_id row"
  shows "mw_asked (manage_update (MmRemove True) (manage_show rows w)) = mw_asked w @ [MrRemove (ar_id row)]"
proof -
  obtain x where x: "manage_selected (manage_show rows w) = Some x" "ar_id x = ar_id row"
    using manage.selection_survives [of w row rows] assms by auto
  have "mw_asked (manage_show rows w) = mw_asked w"
    by (simp add: manage_show_def manage_selection_changed_def Let_def)
  with x show ?thesis by (simp add: manage_remove_def manage_ask_def)
qed

section \<open>Writing the configuration\<close>

text \<open>The worker takes the oldest configuration off its queue and then all that are there; a write that
  fails is logged.  \<open>cs_disk\<close> is \<open>config.toml\<close>.\<close>

record config_saver =
  cs_queue :: "config list"
  cs_disk :: config

definition saver_save :: "config \<Rightarrow> config_saver \<Rightarrow> config_saver" where
  "saver_save c s = s\<lparr>cs_queue := cs_queue s @ [c]\<rparr>"

fun newest_of :: "config \<Rightarrow> config list \<Rightarrow> config" where
  "newest_of c [] = c"
| "newest_of c (newer # rest) = newest_of newer rest"

definition saver_work :: "bool \<Rightarrow> config_saver \<Rightarrow> config_saver" where
  "saver_work writes s =
     (case cs_queue s of
        [] \<Rightarrow> s
      | c # rest \<Rightarrow> s\<lparr>cs_queue := [], cs_disk := (if writes then newest_of c rest else cs_disk s)\<rparr>)"

datatype saver_event = SaverSave config | SaverWork

fun saver_step :: "saver_event \<Rightarrow> config_saver \<Rightarrow> config_saver" where
  "saver_step (SaverSave c) s = saver_save c s"
| "saver_step SaverWork s = saver_work True s"

lemma newest_of_last: "newest_of c rest = last (c # rest)"
  by (induction rest arbitrary: c) simp_all

text \<open>Saves are coalesced, never lost and never reordered: once the queue is empty the file holds the
  configuration saved last.\<close>

lemma last_save_lands:
  assumes "cs_queue (fold saver_step steps s) = []" and "cs_queue s = []"
  shows "cs_disk (fold saver_step steps s) = last (cs_disk s # filter_map (\<lambda>t. case t of SaverSave c \<Rightarrow> Some c | SaverWork \<Rightarrow> None) steps)"
proof -
  have "last (cs_disk (fold saver_step steps s) # cs_queue (fold saver_step steps s)) =
      last (last (cs_disk s # cs_queue s) # filter_map (\<lambda>t. case t of SaverSave c \<Rightarrow> Some c | SaverWork \<Rightarrow> None) steps)" for s
  proof (induction steps arbitrary: s)
    case (Cons t steps)
    have "last (cs_disk (saver_step t s) # cs_queue (saver_step t s)) =
        last (last (cs_disk s # cs_queue s) # filter_map (\<lambda>t. case t of SaverSave c \<Rightarrow> Some c | SaverWork \<Rightarrow> None) [t])"
      by (cases t) (auto simp: saver_save_def saver_work_def newest_of_last split: list.split)
    with Cons.IH [of "saver_step t s"] show ?case by (cases t) (auto split: if_splits)
  qed simp
  from this [of s] assms show ?thesis by simp
qed

text \<open>But the file has a second writer: \<open>save_account\<close> and \<open>remove_account\<close> write it themselves.  What they
  wrote is gone when a save that was queued before is carried out after them.\<close>

lemma queued_save_overwrites:
  assumes "cs_queue s = [c]" and "save_account os sv config account a srcs st = (Inr saved, st')"
  shows "cs_disk (saver_work True (s\<lparr>cs_disk := st_config st'\<rparr>)) = c"
  using assms(1) by (simp add: saver_work_def)

section \<open>Settings\<close>

datatype settings_ask = SaveClient str str | SettingsClosed

record settings_window =
  sw_client_id :: str
  sw_client_secret :: str
  sw_source :: "client_source option"
  sw_editable :: bool
  sw_note :: str
  sw_status :: str
  sw_asked :: "settings_ask list"

definition settings_note :: "settings_window \<Rightarrow> settings_window" where
  "settings_note w = w\<lparr>sw_note := (case sw_source w of
       Some Environment \<Rightarrow> lit ''The ESMAIL_GOOGLE_CLIENT_ID environment variable is set and takes precedence over these fields.''
     | Some ConfigFile \<Rightarrow> lit ''Using the saved client.''
     | Some Build \<Rightarrow> lit ''Using the client built into this program.''
     | None \<Rightarrow> lit ''No Google OAuth client is configured, so Sign in with Google is unavailable.'')\<rparr>"

definition settings_save :: "settings_window \<Rightarrow> settings_window" where
  "settings_save w =
     (if \<not> sw_editable w then w\<lparr>sw_status := lit ''Settings cannot be saved while a --profile is open.''\<rparr>
      else w\<lparr>sw_asked := sw_asked w @ [SaveClient (trim (sw_client_id w)) (trim (sw_client_secret w))]\<rparr>)"

definition settings_saved :: "bool \<Rightarrow> client_source option \<Rightarrow> settings_window \<Rightarrow> settings_window" where
  "settings_saved configured source w =
     (settings_note (w\<lparr>sw_source := source\<rparr>))\<lparr>sw_status :=
        (if configured then lit ''Saved. Google sign-in is available.''
         else lit ''Saved. No client id, so Google sign-in is off.'')\<rparr>"

text \<open>\<open>settings_request\<close> of the main window: the new configuration, what is queued to be written and the
  answer to the window.\<close>

definition settings_request ::
  "sign_in_env \<Rightarrow> bool \<Rightarrow> str \<Rightarrow> str \<Rightarrow> config \<times> config_saver \<Rightarrow> (config \<times> config_saver) \<times> bool \<times> client_source option" where
  "settings_request env editable client_id client_secret = (\<lambda>(config, saver).
     (let config = config\<lparr>cfg_google_oauth := google_client_config client_id client_secret\<rparr>;
          saver = (if editable then saver_save config saver else saver);
          client = resolve_google_client (si_environment env) (cfg_google_oauth config) (si_build env)
      in ((config, saver), client \<noteq> None, map_option snd client)))"

text \<open>A client typed into the window is the one that signs in from then on, unless the environment names
  one; clearing the field falls back to the client of the build.\<close>

lemma trimmed_not_Nil: "trim s \<noteq> [] \<Longrightarrow> trim (trim s) \<noteq> []"
proof -
  assume *: "trim s \<noteq> []"
  have trim: "trim t = rev (dropWhile is_whitespace (rev (dropWhile is_whitespace t)))" for t
    by (simp add: trim_def trim_matches_def trim_end_def trim_start_def)
  define d where "d = dropWhile is_whitespace (rev (dropWhile is_whitespace s))"
  have "trim s = rev d" "d \<noteq> []" using * by (simp_all add: trim d_def)
  then have "hd d \<in> set (trim s)" "\<not> is_whitespace (hd d)" by (simp, metis d_def hd_dropWhile)
  then have "dropWhile is_whitespace (trim s) \<noteq> []" by (auto simp: dropWhile_eq_Nil_conv)
  then have "\<not> is_whitespace (hd (dropWhile is_whitespace (trim s)))" by (rule hd_dropWhile)
  with \<open>dropWhile is_whitespace (trim s) \<noteq> []\<close> have "\<exists>c\<in>set (rev (dropWhile is_whitespace (trim s))). \<not> is_whitespace c"
    by (metis hd_in_set set_rev)
  then show "trim (trim s) \<noteq> []" by (simp add: trim [of "trim s"] dropWhile_eq_Nil_conv)
qed

lemma saved_client_is_used:
  assumes "non_empty (fst (si_environment env)) = None" and "trim i \<noteq> []"
  shows "snd (snd (settings_request env editable i s (config, saver))) = Some ConfigFile"
  using assms trimmed_not_Nil [of i]
  by (simp add: settings_request_def google_client_config_def resolve_google_client_def client_candidates_def non_empty_def Let_def)

end
