(* ===== verification/PageLinks.thy ===== *)
theory PageLinks
  imports Prelude
begin

text \<open>
  The links of a laid-out page, \<open>crates/litehtml-view-d2d/src/links.rs\<close>: which anchors are recorded
  with which areas, and which one a point hits.  What litehtml says of an element (is it text, its
  tag, its \<open>href\<close>, its line boxes and its own box) makes up the tree; boxes are an argument, with
  \<open>rect_of\<close> (\<open>None\<close> for an empty one) and whether a rectangle contains a point.  The lemmas show
  that the walk with an explicit stack is the recursive one and what is found at a point.
\<close>

datatype 'b element =
  Element (el_is_text: bool) (el_tag: str) (el_href: "str option") (el_text: str) (el_inline_boxes: "'b list") (el_placement: 'b)
    (el_children: "'b element list")

record 'r link =
  ln_href :: str
  ln_rects :: "'r list"

record ('b, 'r, 'p) boxes =
  bx_rect_of :: "'b \<Rightarrow> 'r option"
  bx_contains :: "'r \<Rightarrow> 'p \<Rightarrow> bool"

definition MAX_DEPTH :: nat where "MAX_DEPTH = 512"

text \<open>Both walks take the last pushed element first: the head of the list is the top of the stack.\<close>

definition push_children :: "'b element \<Rightarrow> nat \<Rightarrow> ('b element \<times> nat) list \<Rightarrow> ('b element \<times> nat) list" where
  "push_children el depth stack = rev (map (\<lambda>c. (c, depth)) (el_children el)) @ stack"

definition option_list :: "'a option \<Rightarrow> 'a list" where
  "option_list r = (case r of Some x \<Rightarrow> [x] | None \<Rightarrow> [])"

lemma child_size: "c \<in> set (el_children el) \<Longrightarrow> size c < size el"
  by (cases el) (auto simp: less_Suc_eq_le intro: trans_le_add2 size_list_estimation')

lemma children_size: "sum_list (map (\<lambda>c. Suc (size c)) (el_children el)) \<le> size el"
proof -
  have "sum_list (map (\<lambda>c. Suc (size c)) cs) = size_list size cs" for cs :: "'a element list"
    by (induction cs) simp_all
  then show ?thesis by (cases el) simp
qed

abbreviation stack_size :: "('b element \<times> nat) list \<Rightarrow> nat" where
  "stack_size stack \<equiv> sum_list (map (\<lambda>(el, d). Suc (size el)) stack)"

lemma push_size: "stack_size (push_children el d stack) \<le> size el + stack_size stack"
  using children_size [of el] by (simp add: push_children_def rev_map [symmetric] o_def)

lemma expand_size: "stack_size (map (\<lambda>c. (c, d)) (el_children el) @ stack) \<le> size el + stack_size stack"
  using children_size [of el] by (simp add: o_def)

function rects_loop :: "('b, 'r, 'p) boxes \<Rightarrow> ('b element \<times> nat) list \<Rightarrow> 'r list \<Rightarrow> 'r list" where
  "rects_loop bx [] rects = rects"
| "rects_loop bx ((el, depth) # stack) rects =
     (if el_is_text el then rects_loop bx stack rects
      else
        let rects = (if el_inline_boxes el = [] then rects @ option_list (bx_rect_of bx (el_placement el)) else rects);
            stack = (if depth < MAX_DEPTH then push_children el (depth + 1) stack else stack)
        in rects_loop bx stack rects)"
  by pat_completeness auto
termination
  by (relation "measure (\<lambda>(bx, stack, rects). stack_size stack)")
    (use push_size in \<open>auto intro: le_imp_less_Suc\<close>)

definition link_rects :: "('b, 'r, 'p) boxes \<Rightarrow> 'b element \<Rightarrow> 'r list" where
  "link_rects bx anchor =
     (let rects = filter_map (bx_rect_of bx) (el_inline_boxes anchor);
          rects = (if rects = [] then option_list (bx_rect_of bx (el_placement anchor)) else rects)
      in rects_loop bx (push_children anchor 1 []) rects)"

function collect_loop :: "('b, 'r, 'p) boxes \<Rightarrow> ('b element \<times> nat) list \<Rightarrow> 'r link list \<Rightarrow> 'r link list" where
  "collect_loop bx [] links = links"
| "collect_loop bx ((el, depth) # stack) links =
     (if el_is_text el then collect_loop bx stack links
      else
        case (if el_tag el = lit ''a'' then el_href el else None) of
          Some href \<Rightarrow>
            (let rects = link_rects bx el
             in collect_loop bx stack (if rects \<noteq> [] then links @ [\<lparr>ln_href = href, ln_rects = rects\<rparr>] else links))
        | None \<Rightarrow>
            if depth \<ge> MAX_DEPTH then collect_loop bx stack links
            else collect_loop bx (map (\<lambda>c. (c, depth + 1)) (el_children el) @ stack) links)"
  by pat_completeness auto
termination
  by (relation "measure (\<lambda>(bx, stack, links). stack_size stack)")
    (use expand_size in \<open>auto intro: le_imp_less_Suc\<close>)

definition collect_links :: "('b, 'r, 'p) boxes \<Rightarrow> 'b element option \<Rightarrow> 'r link list" where
  "collect_links bx root = (case root of Some el \<Rightarrow> collect_loop bx [(el, 0)] [] | None \<Rightarrow> [])"

definition href_at :: "('b, 'r, 'p) boxes \<Rightarrow> 'r link list \<Rightarrow> 'p \<Rightarrow> str option" where
  "href_at bx links p = map_option ln_href (find (\<lambda>l. list_ex (\<lambda>r. bx_contains bx r p) (ln_rects l)) (rev links))"

section \<open>The walks, recursively\<close>

text \<open>The links below an element, in document order: an anchor with an area hides what is inside it.\<close>

function links_in :: "('b, 'r, 'p) boxes \<Rightarrow> nat \<Rightarrow> 'b element \<Rightarrow> 'r link list" where
  "links_in bx depth el =
     (if el_is_text el then []
      else
        case (if el_tag el = lit ''a'' then el_href el else None) of
          Some href \<Rightarrow> (if link_rects bx el = [] then [] else [\<lparr>ln_href = href, ln_rects = link_rects bx el\<rparr>])
        | None \<Rightarrow> if depth \<ge> MAX_DEPTH then [] else concat (map (links_in bx (depth + 1)) (el_children el)))"
  by pat_completeness auto
termination
  by (relation "measure (\<lambda>(bx, depth, el). size el)") (auto simp: child_size)

declare links_in.simps [simp del]

lemma collect_loop_eq: "collect_loop bx stack links = links @ concat (map (\<lambda>(el, d). links_in bx d el) stack)"
proof (induction bx stack links rule: collect_loop.induct)
  case (2 bx el depth stack links)
  show ?case
  proof (cases "if el_tag el = lit ''a'' then el_href el else None")
    case None
    with 2 show ?thesis by (simp add: links_in.simps [of bx depth el] o_def)
  next
    case (Some href)
    with 2 show ?thesis by (simp add: links_in.simps [of bx depth el] Let_def)
  qed
qed simp

text \<open>The boxes below an anchor that are not line boxes of the anchor.\<close>

function boxes_in :: "('b, 'r, 'p) boxes \<Rightarrow> nat \<Rightarrow> 'b element \<Rightarrow> 'r list" where
  "boxes_in bx depth el =
     (if el_is_text el then []
      else (if el_inline_boxes el = [] then option_list (bx_rect_of bx (el_placement el)) else []) @
        (if depth < MAX_DEPTH then concat (map (boxes_in bx (depth + 1)) (rev (el_children el))) else []))"
  by pat_completeness auto
termination
  by (relation "measure (\<lambda>(bx, depth, el). size el)") (auto simp: child_size)

declare boxes_in.simps [simp del]

lemma rects_loop_eq: "rects_loop bx stack rects = rects @ concat (map (\<lambda>(el, d). boxes_in bx d el) stack)"
proof (induction bx stack rects rule: rects_loop.induct)
  case (2 bx el depth stack rects)
  then show ?case
    by (simp add: boxes_in.simps [of bx depth el] push_children_def rev_map o_def Let_def)
qed simp

text \<open>The walk records exactly the links of the page in document order: every anchor with an address and
  an area that is not inside another anchor, down to the depth the walk goes to; its areas are its
  line boxes, or its own box, and those of every block, image or table inside it; and of the links
  under a point the last one answers.\<close>

theorem links_are_the_anchors:
  "collect_links bx (Some root) = links_in bx 0 root \<and>
   link_rects bx a = (let own = filter_map (bx_rect_of bx) (el_inline_boxes a) in
       if own = [] then option_list (bx_rect_of bx (el_placement a)) else own) @
     concat (map (boxes_in bx 1) (rev (el_children a))) \<and>
   (href_at bx links p = Some href \<longleftrightarrow>
     (\<exists>before l after. links = before @ l # after \<and> ln_href l = href \<and>
       (\<exists>r\<in>set (ln_rects l). bx_contains bx r p) \<and>
       (\<forall>l'\<in>set after. \<forall>r\<in>set (ln_rects l'). \<not> bx_contains bx r p)))"
proof -
  let ?hit = "\<lambda>l. list_ex (\<lambda>r. bx_contains bx r p) (ln_rects l)"
  have last_hit: "find ?hit (rev ls) = Some l \<longleftrightarrow> (\<exists>b a. ls = b @ l # a \<and> ?hit l \<and> (\<forall>l'\<in>set a. \<not> ?hit l'))" for ls l
  proof (induction ls rule: rev_induct)
    case (snoc x xs)
    show ?case
    proof (cases "?hit x")
      case True
      then have "(xs @ [x] = b @ l # a \<and> ?hit l \<and> (\<forall>l'\<in>set a. \<not> ?hit l')) = (a = [] \<and> l = x \<and> b = xs)" for b a
        by (cases a rule: rev_cases) auto
      with True show ?thesis by auto
    next
      case False
      then have "(xs @ [x] = b @ l # a \<and> ?hit l \<and> (\<forall>l'\<in>set a. \<not> ?hit l')) =
          (\<exists>a'. a = a' @ [x] \<and> xs = b @ l # a' \<and> ?hit l \<and> (\<forall>l'\<in>set a'. \<not> ?hit l'))" for b a
        by (cases a rule: rev_cases) auto
      with False snoc show ?thesis by auto
    qed
  qed simp
  have "href_at bx links p = Some href \<longleftrightarrow> (\<exists>l. find ?hit (rev links) = Some l \<and> ln_href l = href)"
    by (auto simp: href_at_def)
  then have at: "href_at bx links p = Some href \<longleftrightarrow>
      (\<exists>before l after. links = before @ l # after \<and> ln_href l = href \<and>
       (\<exists>r\<in>set (ln_rects l). bx_contains bx r p) \<and>
       (\<forall>l'\<in>set after. \<forall>r\<in>set (ln_rects l'). \<not> bx_contains bx r p))"
    unfolding last_hit unfolding list_ex_iff by blast
  have "collect_links bx (Some root) = links_in bx 0 root" by (simp add: collect_links_def collect_loop_eq)
  moreover have "link_rects bx a = (let own = filter_map (bx_rect_of bx) (el_inline_boxes a) in
       if own = [] then option_list (bx_rect_of bx (el_placement a)) else own) @
     concat (map (boxes_in bx 1) (rev (el_children a)))"
    by (simp add: link_rects_def rects_loop_eq push_children_def rev_map o_def Let_def)
  ultimately show ?thesis using at by blast
qed

end
