(* ===== verification/PageText.thy ===== *)
theory PageText
  imports PageLinks TextSelection
begin

text \<open>
  The text of a laid-out page, \<open>collect\<close> of \<open>crates/litehtml-view-d2d/src/text_runs.rs\<close>: which pieces
  of text become runs of the table that \<open>TextSelection\<close> works on, with their block and the line breaks
  before them.  The tests the code makes on a box (too small to be read, no width, no size) and the
  rectangle of a box are arguments.  The offsets of the characters are pixels: only their number is
  kept.  \<open>block_rect\<close> climbs to the nearest ancestor without line boxes; here the walk carries it down.
\<close>

record ('b, 'r) text_boxes =
  tb_unreadable :: "'b \<Rightarrow> bool"
  tb_no_width :: "'b \<Rightarrow> bool"
  tb_no_size :: "'b \<Rightarrow> bool"
  tb_rect :: "'b \<Rightarrow> 'r"

definition run_for :: "('b, 'r) text_boxes \<Rightarrow> 'b option \<Rightarrow> 'b element \<Rightarrow> 'r text_run option" where
  "run_for tb block el =
     (let text = map (\<lambda>c. if is_whitespace c then 32 else c) (el_text el) in
      if text = [] then None
      else if tb_unreadable tb (el_placement el) then None
      else Some \<lparr>tr_rect = tb_rect tb (el_placement el), tr_text = text, tr_char_count = length text,
        tr_block = tb_rect tb (case block of Some b \<Rightarrow> b | None \<Rightarrow> el_placement el), tr_breaks_before = 0\<rparr>)"

text \<open>A counter of 8 bits that stops at its largest value.\<close>

definition one_more :: "nat \<Rightarrow> nat" where
  "one_more breaks = min 255 (Suc breaks)"

definition text_leaf ::
  "('b, 'r) text_boxes \<Rightarrow> 'b option \<Rightarrow> 'b element \<Rightarrow> nat \<times> 'r text_run list \<Rightarrow> nat \<times> 'r text_run list" where
  "text_leaf tb block el = (\<lambda>(breaks, runs).
     case run_for tb block el of
       Some run \<Rightarrow>
         if trim (tr_text run) \<noteq> []
         then (0, runs @ [run\<lparr>tr_breaks_before := (if runs = [] then 0 else breaks)\<rparr>])
         else (breaks, runs @ [run])
     | None \<Rightarrow> (if 10 \<in> set (el_text el) \<and> tb_no_width tb (el_placement el) then one_more breaks else breaks, runs))"

definition break_at :: "('b, 'r) text_boxes \<Rightarrow> 'b element \<Rightarrow> nat \<Rightarrow> nat" where
  "break_at tb el breaks =
     (if el_children el = [] \<and> el_inline_boxes el = [] \<and> tb_no_size tb (el_placement el) then one_more breaks else breaks)"

definition block_below :: "'b element \<Rightarrow> 'b option \<Rightarrow> 'b option" where
  "block_below el block = (if el_inline_boxes el = [] then Some (el_placement el) else block)"

lemma expand_with_block:
  "sum_list (map ((\<lambda>(el, d, b). Suc (size el)) \<circ> (\<lambda>c. (c, k, b'))) (el_children el)) < Suc (size el)"
  using children_size [of el] by (simp add: o_def less_Suc_eq_le)

function runs_loop ::
  "('b, 'r) text_boxes \<Rightarrow> ('b element \<times> nat \<times> 'b option) list \<Rightarrow> nat \<times> 'r text_run list \<Rightarrow> nat \<times> 'r text_run list" where
  "runs_loop tb [] st = st"
| "runs_loop tb ((el, depth, block) # stack) st =
     (if el_is_text el then runs_loop tb stack (text_leaf tb block el st)
      else
        let st = (break_at tb el (fst st), snd st)
        in if depth \<ge> MAX_DEPTH then runs_loop tb stack st
           else runs_loop tb (map (\<lambda>c. (c, depth + 1, block_below el block)) (el_children el) @ stack) st)"
  by pat_completeness auto
termination
  by (relation "measure (\<lambda>(tb, stack, st). sum_list (map (\<lambda>(el, d, b). Suc (size el)) stack))")
    (auto simp: expand_with_block)

declare runs_loop.simps(2) [simp del]

definition collect_runs :: "('b, 'r) text_boxes \<Rightarrow> 'b element option \<Rightarrow> 'r text_run list" where
  "collect_runs tb root = (case root of Some el \<Rightarrow> snd (runs_loop tb [(el, 0, None)] (0, [])) | None \<Rightarrow> [])"

section \<open>What the table holds\<close>

text \<open>The readable texts below an element in document order.\<close>

function texts_in :: "('b, 'r) text_boxes \<Rightarrow> nat \<Rightarrow> 'b element \<Rightarrow> str list" where
  "texts_in tb depth el =
     (if el_is_text el then
        (if el_text el = [] \<or> tb_unreadable tb (el_placement el) then []
         else [map (\<lambda>c. if is_whitespace c then 32 else c) (el_text el)])
      else if depth \<ge> MAX_DEPTH then [] else concat (map (texts_in tb (depth + 1)) (el_children el)))"
  by pat_completeness auto
termination
  by (relation "measure (\<lambda>(tb, depth, el). size el)") (auto simp: child_size)

declare texts_in.simps [simp del]

definition run_good :: "'r text_run \<Rightarrow> bool" where
  "run_good r \<longleftrightarrow> tr_text r \<noteq> [] \<and> tr_char_count r = length (tr_text r) \<and> tr_breaks_before r \<le> 255"

lemma text_leaf_texts:
  "el_is_text el \<Longrightarrow> map tr_text (snd (text_leaf tb block el st)) = map tr_text (snd st) @ texts_in tb depth el"
  by (cases st) (simp add: text_leaf_def run_for_def texts_in.simps [of tb depth el] Let_def)

lemma runs_loop_texts:
  "map tr_text (snd (runs_loop tb stack st)) = map tr_text (snd st) @ concat (map (\<lambda>(el, d, b). texts_in tb d el) stack)"
proof (induction tb stack st rule: runs_loop.induct)
  case (2 tb el depth block stack st)
  show ?case
  proof (cases "el_is_text el")
    case True
    with 2 show ?thesis by (simp add: runs_loop.simps text_leaf_texts [where depth = depth])
  next
    case False
    with 2 show ?thesis by (simp add: runs_loop.simps texts_in.simps [of tb depth el] Let_def o_def)
  qed
qed simp

lemma text_leaf_good:
  "list_all run_good (snd st) \<and> fst st \<le> 255 \<Longrightarrow>
   list_all run_good (snd (text_leaf tb block el st)) \<and> fst (text_leaf tb block el st) \<le> 255"
  by (cases st) (auto simp: text_leaf_def run_for_def run_good_def one_more_def Let_def split: option.split)

lemma runs_loop_good:
  "list_all run_good (snd st) \<and> fst st \<le> 255 \<Longrightarrow>
   list_all run_good (snd (runs_loop tb stack st)) \<and> fst (runs_loop tb stack st) \<le> 255"
proof (induction tb stack st rule: runs_loop.induct)
  case (2 tb el depth block stack st)
  have "break_at tb el (fst st) \<le> 255" using 2(4) by (simp add: break_at_def one_more_def)
  with 2 show ?case by (simp add: runs_loop.simps text_leaf_good Let_def)
qed simp

text \<open>The table holds the readable text of the page in document order and nothing else, every run with as
  many places for the caret as it has characters, and none of them empty; so a double-click never
  panics, wherever it falls.\<close>

theorem collected_page:
  "map tr_text (collect_runs tb (Some root)) = texts_in tb 0 root \<and>
   list_all run_good (collect_runs tb (Some root)) \<and>
   word_at_pos alnum (collect_runs tb (Some root)) pos \<noteq> None"
proof -
  have good: "list_all run_good (collect_runs tb (Some root))"
    using runs_loop_good [of "(0, [])" tb "[(root, 0, None)]"] by (simp add: collect_runs_def)
  then have "word_at_pos alnum (collect_runs tb (Some root)) pos \<noteq> None"
    by (cases pos) (auto simp: word_at_pos_def run_good_def list_all_length Let_def)
  with good show ?thesis by (simp add: collect_runs_def runs_loop_texts)
qed

end
