(* ===== verification/PageMouse.thy ===== *)
theory PageMouse
  imports PageText
begin

text \<open>
  The mouse and the keyboard over a rendered page: selecting, copying and following links in
  \<open>crates/litehtml-view-d2d/src/widget.rs\<close>.  Every mouse input carries the point in the window and the
  point of the page below it (the scroll position is not modelled) and, where it is read, the time.
  The caret at a point, the comparisons of two points (within a click, past the slop) and the
  hash of a page's text are arguments.  A page is
  replaced by \<open>frame_arrives\<close>, the part of \<open>poll\<close> that touches the selection.  The lemmas show that
  the selection always lies in the table of the page shown, when a link is followed, and what a third
  click does.
\<close>

record ('b, 'r, 'p, 'd, 'x) mouse_env =
  me_caret_at :: "'r text_run list \<Rightarrow> 'd \<Rightarrow> text_pos option"
  me_boxes :: "('b, 'r, 'd) boxes"
  me_alnum :: "uchar \<Rightarrow> bool"
  me_near :: "'p \<Rightarrow> 'p \<Rightarrow> bool"
  me_past_slop :: "'p \<Rightarrow> 'p \<Rightarrow> bool"
  me_multi_click :: nat
  me_signature :: "str list \<Rightarrow> nat"
  me_geometry :: "('r, 'd, 'x) geometry"

datatype page_event = LinkClicked str | Copied str

record ('r, 'p) page_mouse =
  pm_frame :: "('r text_run list \<times> 'r link list) option"
  pm_selection :: "text_selection option"
  pm_dragging :: bool
  pm_moved :: bool
  pm_press :: "'p option"
  pm_click_count :: nat
  pm_last_click :: "(nat \<times> 'p) option"
  pm_shift_held :: bool
  pm_events :: "page_event list"

definition page_mouse_new :: "('r, 'p) page_mouse" where
  "page_mouse_new =
     \<lparr>pm_frame = None, pm_selection = None, pm_dragging = False, pm_moved = False, pm_press = None,
      pm_click_count = 0, pm_last_click = None, pm_shift_held = False, pm_events = []\<rparr>"

definition selected_text :: "('b, 'r, 'p, 'd, 'x) mouse_env \<Rightarrow> ('r, 'p) page_mouse \<Rightarrow> str option" where
  "selected_text env m =
     (case pm_frame m of None \<Rightarrow> None
      | Some (runs, links) \<Rightarrow>
          (case pm_selection m of None \<Rightarrow> None
           | Some s \<Rightarrow> if selection_is_empty s then None
               else if selection_text (me_geometry env) runs s = [] then None else Some (selection_text (me_geometry env) runs s)))"

definition page_select_all :: "('r, 'p) page_mouse \<Rightarrow> ('r, 'p) page_mouse" where
  "page_select_all m =
     (case pm_frame m of Some (runs, links) \<Rightarrow> m\<lparr>pm_selection := select_all_text runs\<rparr> | None \<Rightarrow> m)"

definition caret_here :: "('b, 'r, 'p, 'd, 'x) mouse_env \<Rightarrow> 'd \<Rightarrow> ('r, 'p) page_mouse \<Rightarrow> text_pos option" where
  "caret_here env d m = Option.bind (pm_frame m) (\<lambda>(runs, links). me_caret_at env runs d)"

definition href_here :: "('b, 'r, 'p, 'd, 'x) mouse_env \<Rightarrow> 'd \<Rightarrow> ('r, 'p) page_mouse \<Rightarrow> str option" where
  "href_here env d m = Option.bind (pm_frame m) (\<lambda>(runs, links). href_at (me_boxes env) links d)"

definition register_click :: "('b, 'r, 'p, 'd, 'x) mouse_env \<Rightarrow> 'p \<Rightarrow> nat \<Rightarrow> ('r, 'p) page_mouse \<Rightarrow> nat \<times> ('r, 'p) page_mouse" where
  "register_click env p now m =
     (let same = (case pm_last_click m of Some (t, q) \<Rightarrow> now - t < me_multi_click env \<and> me_near env q p | None \<Rightarrow> False);
          count = (if same then pm_click_count m mod 3 + 1 else 1)
      in (count, m\<lparr>pm_click_count := count, pm_last_click := Some (now, p)\<rparr>))"

datatype ('r, 'p, 'd) page_msg =
    MouseDown 'p 'd nat
  | MouseMove 'p 'd
  | MouseDoubleClick 'p 'd nat
  | MouseUp 'd
  | CaptureChanged
  | ShiftDown
  | ShiftUp
  | CtrlC
  | CtrlA
  | FrameArrives "'r text_run list" "'r link list"
  | LoadPage

definition copy_selection :: "('b, 'r, 'p, 'd, 'x) mouse_env \<Rightarrow> ('r, 'p) page_mouse \<Rightarrow> ('r, 'p) page_mouse" where
  "copy_selection env m =
     (case selected_text env m of Some t \<Rightarrow> m\<lparr>pm_events := pm_events m @ [Copied t]\<rparr> | None \<Rightarrow> m)"

definition mouse_down :: "('b, 'r, 'p, 'd, 'x) mouse_env \<Rightarrow> 'p \<Rightarrow> 'd \<Rightarrow> nat \<Rightarrow> ('r, 'p) page_mouse \<Rightarrow> ('r, 'p) page_mouse" where
  "mouse_down env p d now m =
     (let m = (snd (register_click env p now m))\<lparr>pm_press := Some p, pm_dragging := True, pm_moved := False\<rparr>
      in case caret_here env d m of
           None \<Rightarrow> m
         | Some at \<Rightarrow>
             m\<lparr>pm_selection := Some (if pm_shift_held m
                then (case pm_selection m of Some s \<Rightarrow> \<lparr>ts_anchor = ts_anchor s, ts_head = at\<rparr> | None \<Rightarrow> caret at)
                else caret at)\<rparr>)"

definition mouse_move :: "('b, 'r, 'p, 'd, 'x) mouse_env \<Rightarrow> 'p \<Rightarrow> 'd \<Rightarrow> ('r, 'p) page_mouse \<Rightarrow> ('r, 'p) page_mouse" where
  "mouse_move env p d m =
     (if \<not> pm_dragging m then m
      else
        let m = (case pm_press m of Some press \<Rightarrow> if me_past_slop env press p then m\<lparr>pm_moved := True\<rparr> else m | None \<Rightarrow> m)
        in case (pm_moved m, pm_selection m, caret_here env d m) of
             (True, Some s, Some at) \<Rightarrow> m\<lparr>pm_selection := Some \<lparr>ts_anchor = ts_anchor s, ts_head = at\<rparr>\<rparr>
           | _ \<Rightarrow> m)"

text \<open>The inner \<open>None\<close> of \<open>word_at_pos\<close> leaves the selection; its outer one, a panic, does not occur on a
  collected page.\<close>

definition mouse_double_click :: "('b, 'r, 'p, 'd, 'x) mouse_env \<Rightarrow> 'p \<Rightarrow> 'd \<Rightarrow> nat \<Rightarrow> ('r, 'p) page_mouse \<Rightarrow> ('r, 'p) page_mouse" where
  "mouse_double_click env p d now m =
     (let (count, m) = register_click env p now m; m = m\<lparr>pm_dragging := False\<rparr>
      in case (caret_here env d m, pm_frame m) of
           (Some at, Some (runs, links)) \<Rightarrow>
             (case (if count \<ge> 3 then block_at_pos runs at else Option.bind (word_at_pos (me_alnum env) runs at) (\<lambda>s. s)) of
                Some s \<Rightarrow> m\<lparr>pm_selection := Some s\<rparr>
              | None \<Rightarrow> m)
         | _ \<Rightarrow> m)"

definition mouse_up :: "('b, 'r, 'p, 'd, 'x) mouse_env \<Rightarrow> 'd \<Rightarrow> ('r, 'p) page_mouse \<Rightarrow> ('r, 'p) page_mouse" where
  "mouse_up env d m =
     (let m = m\<lparr>pm_dragging := False\<rparr>;
          m = (if \<not> pm_moved m \<and> pm_click_count m = 1 then
                 (case href_here env d m of
                    Some href \<Rightarrow> m\<lparr>pm_selection := None, pm_events := pm_events m @ [LinkClicked href]\<rparr>
                  | None \<Rightarrow> m)
               else m)
      in m\<lparr>pm_moved := False\<rparr>)"

definition frame_arrives ::
  "('b, 'r, 'p, 'd, 'x) mouse_env \<Rightarrow> 'r text_run list \<Rightarrow> 'r link list \<Rightarrow> ('r, 'p) page_mouse \<Rightarrow> ('r, 'p) page_mouse" where
  "frame_arrives env runs links m =
     (let changed = (case pm_frame m of
            Some (old, _) \<Rightarrow> me_signature env (map tr_text old) \<noteq> me_signature env (map tr_text runs) | None \<Rightarrow> True);
          m = (if changed then m\<lparr>pm_selection := None\<rparr> else m)
      in m\<lparr>pm_frame := Some (runs, links)\<rparr>)"

fun page_input :: "('b, 'r, 'p, 'd, 'x) mouse_env \<Rightarrow> ('r, 'p, 'd) page_msg \<Rightarrow> ('r, 'p) page_mouse \<Rightarrow> ('r, 'p) page_mouse" where
  "page_input env (MouseDown p d now) m = mouse_down env p d now m"
| "page_input env (MouseMove p d) m = mouse_move env p d m"
| "page_input env (MouseDoubleClick p d now) m = mouse_double_click env p d now m"
| "page_input env (MouseUp d) m = mouse_up env d m"
| "page_input env CaptureChanged m = m\<lparr>pm_dragging := False\<rparr>"
| "page_input env ShiftDown m = m\<lparr>pm_shift_held := True\<rparr>"
| "page_input env ShiftUp m = m\<lparr>pm_shift_held := False\<rparr>"
| "page_input env CtrlC m = copy_selection env m"
| "page_input env CtrlA m = page_select_all m"
| "page_input env (FrameArrives runs links) m = frame_arrives env runs links m"
| "page_input env LoadPage m = m\<lparr>pm_frame := None, pm_selection := None\<rparr>"

definition mouse_run :: "('b, 'r, 'p, 'd, 'x) mouse_env \<Rightarrow> ('r, 'p, 'd) page_msg list \<Rightarrow> ('r, 'p) page_mouse \<Rightarrow> ('r, 'p) page_mouse" where
  "mouse_run env inputs m = foldl (\<lambda>m i. page_input env i m) m inputs"

lemma register_click_kept [simp]:
  "pm_frame (snd (register_click env p now m)) = pm_frame m" "pm_selection (snd (register_click env p now m)) = pm_selection m"
  "pm_events (snd (register_click env p now m)) = pm_events m"
  by (simp_all add: register_click_def Let_def)

lemma mouse_down_kept [simp]:
  "pm_frame (mouse_down env p d now m) = pm_frame m" "pm_events (mouse_down env p d now m) = pm_events m"
  by (simp_all add: mouse_down_def Let_def split: option.split)

lemma mouse_move_kept [simp]:
  "pm_frame (mouse_move env p d m) = pm_frame m" "pm_events (mouse_move env p d m) = pm_events m"
  by (auto simp: mouse_move_def Let_def split: option.split bool.split)

lemma mouse_double_click_kept [simp]:
  "pm_frame (mouse_double_click env p d now m) = pm_frame m" "pm_events (mouse_double_click env p d now m) = pm_events m"
  by (auto simp: mouse_double_click_def Let_def split_beta split: option.split)

section \<open>The selection lies in the page\<close>

definition pos_in :: "'r text_run list \<Rightarrow> text_pos \<Rightarrow> bool" where
  "pos_in runs p \<longleftrightarrow> tp_run p < length runs \<and> tp_ch p \<le> tr_char_count (runs ! tp_run p)"

definition selection_in :: "'r text_run list \<Rightarrow> text_selection \<Rightarrow> bool" where
  "selection_in runs s \<longleftrightarrow> pos_in runs (ts_anchor s) \<and> pos_in runs (ts_head s)"

definition page_ok :: "('r, 'p) page_mouse \<Rightarrow> bool" where
  "page_ok m \<longleftrightarrow>
     (case pm_frame m of
        None \<Rightarrow> pm_selection m = None
      | Some (runs, links) \<Rightarrow> list_all run_good runs \<and> (\<forall>s. pm_selection m = Some s \<longrightarrow> selection_in runs s))"

text \<open>What is asked of the arguments: carets fall on the page, and texts that differ have different
  hashes.\<close>

definition mouse_env_ok :: "('b, 'r, 'p, 'd, 'x) mouse_env \<Rightarrow> bool" where
  "mouse_env_ok env \<longleftrightarrow> (\<forall>runs d p. me_caret_at env runs d = Some p \<longrightarrow> pos_in runs p) \<and> inj (me_signature env)"

lemma word_in:
  assumes "list_all run_good runs" and "word_at_pos alnum runs p = Some (Some s)"
  shows "selection_in runs s"
proof -
  obtain run ch where p: "p = Pos run ch" by (cases p)
  have run: "run < length runs" using assms(2) by (simp add: p word_at_pos_def split: if_splits)
  have good: "tr_text (runs ! run) \<noteq> []" "tr_char_count (runs ! run) = length (tr_text (runs ! run))"
    using assms(1) run by (simp_all add: list_all_length run_good_def)
  from double_click_selects_the_word [OF run good(1) refl, of alnum ch] obtain a b
    where "word_at_pos alnum runs (Pos run ch) = Some (Some \<lparr>ts_anchor = Pos run a, ts_head = Pos run b\<rparr>)"
      and "a \<le> min ch (length (tr_text (runs ! run)) - 1)" and "b \<le> length (tr_text (runs ! run))"
    by blast
  with assms(2) run good(2) show ?thesis by (auto simp: p selection_in_def pos_in_def)
qed

lemma block_in:
  assumes "block_at_pos runs p = Some s"
  shows "selection_in runs s"
proof -
  obtain run ch where p: "p = Pos run ch" by (cases p)
  have run: "run < length runs" using assms by (simp add: p block_at_pos_def split: if_splits)
  from triple_click_selects_the_block [OF run, of ch] assms obtain a b
    where "s = \<lparr>ts_anchor = Pos a 0, ts_head = Pos b (tr_char_count (runs ! b))\<rparr>" and "a \<le> run" "b < length runs"
    by (auto simp: p)
  with run show ?thesis by (simp add: selection_in_def pos_in_def)
qed

lemma all_in: "select_all_text runs = Some s \<Longrightarrow> selection_in runs s"
proof -
  assume "select_all_text runs = Some s"
  then obtain first k where "position (\<lambda>r. \<not> is_blank r) runs = Some first" "position (\<lambda>r. \<not> is_blank r) (rev runs) = Some k"
    and s: "s = \<lparr>ts_anchor = Pos first 0, ts_head = Pos (length runs - 1 - k) (tr_char_count (runs ! (length runs - 1 - k)))\<rparr>"
    by (auto simp: select_all_text_def Let_def split: option.splits)
  then have "first < length runs" "k < length runs" by (auto simp: position_Some)
  then show ?thesis by (auto simp: s selection_in_def pos_in_def)
qed

lemma same_texts_in:
  assumes "map tr_text old = map tr_text new" and "list_all run_good old" and "list_all run_good new" and "selection_in old s"
  shows "selection_in new s"
proof -
  have len: "length old = length new" using assms(1) by (rule map_eq_imp_length_eq)
  have "tr_char_count (old ! i) = tr_char_count (new ! i)" if "i < length old" for i
    using that assms(1-3) len by (auto simp: list_all_length run_good_def) (metis nth_map)
  with assms(4) len show ?thesis by (auto simp: selection_in_def pos_in_def)
qed

definition input_good :: "('r, 'p, 'd) page_msg \<Rightarrow> bool" where
  "input_good i \<longleftrightarrow> (case i of FrameArrives runs _ \<Rightarrow> list_all run_good runs | _ \<Rightarrow> True)"

lemma caret_here_in:
  "mouse_env_ok env \<Longrightarrow> pm_frame m = Some (runs, links) \<Longrightarrow> caret_here env d m = Some at \<Longrightarrow> pos_in runs at"
  by (auto simp: mouse_env_ok_def caret_here_def)

lemma caret_here_frame: "caret_here env d m = Some at \<Longrightarrow> \<exists>runs links. pm_frame m = Some (runs, links)"
  by (cases "pm_frame m") (auto simp: caret_here_def)

lemma caret_here_same [simp]:
  "pm_frame m' = pm_frame m \<Longrightarrow> caret_here env d m' = caret_here env d m"
  by (simp add: caret_here_def)

lemma page_ok_step:
  assumes env: "mouse_env_ok env" and ok: "page_ok m" and "input_good i"
  shows "page_ok (page_input env i m)"
proof (cases "pm_frame m")
  case None
  with ok have no: "pm_selection m = None" by (simp add: page_ok_def)
  have "\<And>d. caret_here env d m = None" "\<And>d. href_here env d m = None" using None by (simp_all add: caret_here_def href_here_def)
  with None no assms(3) show ?thesis
    by (cases i)
      (auto simp: page_ok_def mouse_down_def register_click_def mouse_move_def mouse_double_click_def mouse_up_def
        copy_selection_def selected_text_def page_select_all_def frame_arrives_def input_good_def caret_here_def href_here_def Let_def
        split: option.split bool.split)
next
  case (Some f)
  obtain runs links where f: "f = (runs, links)" by (cases f)
  have good: "list_all run_good runs" and sel: "\<And>s. pm_selection m = Some s \<Longrightarrow> selection_in runs s"
    using ok Some f by (auto simp: page_ok_def)
  have at: "\<And>d p. me_caret_at env runs d = Some p \<Longrightarrow> pos_in runs p" using env by (auto simp: mouse_env_ok_def)
  show ?thesis
  proof (cases i)
    case (MouseDown p d now)
    then show ?thesis
      using Some f good sel at
      by (auto simp: page_ok_def mouse_down_def register_click_def caret_here_def selection_in_def caret_def Let_def split: option.splits)
  next
    case (MouseMove p d)
    then show ?thesis
      using Some f good sel at
      by (auto simp: page_ok_def mouse_move_def caret_here_def selection_in_def Let_def split: option.splits bool.splits)
  next
    case (MouseDoubleClick p d now)
    then show ?thesis
      using Some f good sel at
      by (auto simp: page_ok_def mouse_double_click_def register_click_def caret_here_def bind_eq_Some_conv Let_def
          dest: word_in block_in split: option.splits if_splits)
  next
    case (FrameArrives new links')
    then show ?thesis
      using Some f good sel assms(3) env same_texts_in [of runs new]
      by (auto simp: page_ok_def frame_arrives_def input_good_def mouse_env_ok_def Let_def dest: injD split: if_splits)
  qed (use Some f good sel all_in in \<open>auto simp: page_ok_def mouse_up_def copy_selection_def page_select_all_def href_here_def Let_def
      split: option.split\<close>)
qed

text \<open>Whatever the user does and whatever pages are loaded and laid out again, the selection begins and
  ends inside the text of the page that is shown.\<close>

theorem selection_stays_in_the_page:
  assumes "mouse_env_ok env" and "list_all input_good inputs"
  shows "page_ok (mouse_run env inputs page_mouse_new)"
proof -
  have "page_ok m \<Longrightarrow> page_ok (mouse_run env inputs m)" for m
    using assms(2)
  proof (induction inputs arbitrary: m)
    case (Cons i inputs)
    then have "page_ok (page_input env i m)" by (intro page_ok_step assms(1)) simp_all
    with Cons show ?case by (simp add: mouse_run_def)
  qed (simp add: mouse_run_def)
  then show ?thesis by (simp add: page_ok_def page_mouse_new_def)
qed

text \<open>The hash only makes it likely: where the texts of two pages have the same one, the selection of the
  first points behind the end of the second.\<close>

lemma same_hash_keeps_the_selection:
  assumes "me_signature env (map tr_text old) = me_signature env []" and "pm_frame m = Some (old, links)"
    and "pm_selection m = Some s"
  shows "pm_selection (page_input env (FrameArrives [] []) m) = Some s \<and> \<not> page_ok (page_input env (FrameArrives [] []) m)"
  using assms by (simp add: frame_arrives_def page_ok_def selection_in_def pos_in_def Let_def)

section \<open>Links and clicks\<close>

text \<open>Since the button went down the mouse has not been dragged past the slop.\<close>

lemma link_needs_a_clean_click:
  assumes "pm_events (page_input env i m) = pm_events m @ [LinkClicked href]"
  shows "\<exists>d. i = MouseUp d \<and> href_here env d m = Some href \<and> \<not> pm_moved m \<and> pm_click_count m = 1"
  using assms
  by (cases i)
    (auto simp: mouse_up_def copy_selection_def href_here_def page_select_all_def frame_arrives_def Let_def
      split: option.splits if_splits)

text \<open>Windows reports every second press of a fast series as a double click.  The third press of three is
  a plain one again: it puts the caret, and the word selected by the second is no longer.\<close>

definition presses :: "'p \<Rightarrow> 'd \<Rightarrow> nat \<Rightarrow> ('r, 'p, 'd) page_msg list" where
  "presses p d n = concat (map (\<lambda>k. [if even k then MouseDown p d k else MouseDoubleClick p d k, MouseUp d]) [0..<n])"

lemma third_press_drops_the_word:
  assumes "me_near env p p" and "2 < me_multi_click env" and "me_caret_at env runs d = Some at"
    and "pm_frame m = Some (runs, links)" and "href_at (me_boxes env) links d = None" and "\<not> pm_shift_held m"
    and "pm_last_click m = None"
  shows "pm_selection (mouse_run env (presses p d 3) m) = Some (caret at) \<and>
    selected_text env (mouse_run env (presses p d 3) m) = None"
proof -
  have "[0..<3] = [0, 1, 2 :: nat]" by (simp add: upt_rec)
  then have presses: "presses p d 3 = [MouseDown p d 0, MouseUp d, MouseDoubleClick p d 1, MouseUp d, MouseDown p d 2, MouseUp d]"
    by (simp add: presses_def)
  have "pm_selection (mouse_run env (presses p d 3) m) = Some (caret at)"
    using assms unfolding presses
    by (auto simp: mouse_run_def mouse_down_def mouse_up_def mouse_double_click_def register_click_def caret_here_def href_here_def Let_def
        split: option.split)
  then show ?thesis by (simp add: selected_text_def selection_is_empty_def caret_def split: option.split)
qed

end
