(* ===== verification/FrontEnd.thy ===== *)
theory FrontEnd
  imports Prelude
begin

text \<open>
  What the core offers a front end beside the mail: the shortcut table of
  \<open>crates/esmail/src/shortcuts.rs\<close> and the emoji placeholders of \<open>crates/esmail/src/emoji.rs\<close>.  The
  splitting into grapheme clusters and the artwork set (\<open>from_emoji\<close>) are arguments.  The lemmas show
  that a key means one command, which commands a frame runs, and that putting the emoji back in the
  place of their placeholders gives the text.
\<close>

section \<open>Shortcuts\<close>

datatype shortcut_key = KeyA | KeyF | KeyJ | KeyK | KeyN | KeyR | KeyEnter | KeyDelete | KeyBackspace

record mods =
  md_ctrl :: bool

definition mods_NONE :: mods where
  "mods_NONE = \<lparr>md_ctrl = False\<rparr>"

definition mods_CTRL :: mods where
  "mods_CTRL = \<lparr>md_ctrl = True\<rparr>"

record shortcut =
  sc_key :: shortcut_key
  sc_mods :: mods

datatype key_command =
  FocusSearch | ComposeNew | NextMessage | PreviousMessage | OpenMessage | ReplyTo | ArchiveIt | ToggleStar | DeleteIt

record key_context =
  kc_search_focused :: bool

definition bind_key :: "shortcut_key \<Rightarrow> mods \<Rightarrow> key_command \<Rightarrow> shortcut \<times> key_command" where
  "bind_key k m c = (\<lparr>sc_key = k, sc_mods = m\<rparr>, c)"

definition BINDINGS :: "(shortcut \<times> key_command) list" where
  "BINDINGS =
     [bind_key KeyF mods_CTRL FocusSearch,
      bind_key KeyN mods_CTRL ComposeNew,
      bind_key KeyJ mods_NONE NextMessage,
      bind_key KeyK mods_NONE PreviousMessage,
      bind_key KeyEnter mods_NONE OpenMessage,
      bind_key KeyR mods_NONE ReplyTo,
      bind_key KeyA mods_NONE ArchiveIt,
      bind_key KeyDelete mods_NONE DeleteIt,
      bind_key KeyBackspace mods_NONE DeleteIt,
      bind_key KeyF mods_NONE ToggleStar]"

definition lookup_shortcut :: "shortcut \<Rightarrow> key_context \<Rightarrow> key_command option" where
  "lookup_shortcut s ctx =
     (if kc_search_focused ctx then None
      else map_option snd (find (\<lambda>b. fst b = s) BINDINGS))"

definition press_step ::
  "mods \<Rightarrow> key_context \<Rightarrow> (shortcut_key \<Rightarrow> bool) \<Rightarrow> key_command list \<Rightarrow> shortcut \<times> key_command \<Rightarrow> key_command list" where
  "press_step m ctx is_pressed commands b =
     (if sc_mods (fst b) \<noteq> m \<or> \<not> is_pressed (sc_key (fst b)) then commands
      else (case lookup_shortcut (fst b) ctx of
          Some c \<Rightarrow> if c \<in> set commands then commands else commands @ [c]
        | None \<Rightarrow> commands))"

definition pressed_commands :: "mods \<Rightarrow> key_context \<Rightarrow> (shortcut_key \<Rightarrow> bool) \<Rightarrow> key_command list" where
  "pressed_commands m ctx is_pressed = foldl (press_step m ctx is_pressed) [] BINDINGS"

lemma bindings_distinct: "distinct (map fst BINDINGS)"
  by (simp add: BINDINGS_def bind_key_def mods_NONE_def mods_CTRL_def)

lemma find_distinct_key:
  "distinct (map fst xs) \<Longrightarrow> map_option snd (find (\<lambda>b. fst b = k) xs) = Some c \<longleftrightarrow> (k, c) \<in> set xs"
  by (induction xs) (auto simp: image_iff)

text \<open>A shortcut means exactly the command it is bound to, and none while the search box is typed in.\<close>

theorem lookup_is_the_binding:
  "lookup_shortcut s ctx = Some c \<longleftrightarrow> \<not> kc_search_focused ctx \<and> (s, c) \<in> set BINDINGS"
  using find_distinct_key [OF bindings_distinct, of s c] by (simp add: lookup_shortcut_def)

lemma press_fold:
  assumes "\<not> kc_search_focused ctx" and "set bs \<subseteq> set BINDINGS" and "distinct commands"
  shows "distinct (foldl (press_step m ctx p) commands bs) \<and>
    set (foldl (press_step m ctx p) commands bs) =
      set commands \<union> {c. \<exists>s. (s, c) \<in> set bs \<and> sc_mods s = m \<and> p (sc_key s)}"
  using assms(2,3)
proof (induction bs arbitrary: commands)
  case (Cons b bs)
  obtain s c where b: "b = (s, c)" by force
  have "lookup_shortcut s ctx = Some c" using Cons.prems(1) assms(1) by (simp add: lookup_is_the_binding b)
  then have step: "press_step m ctx p commands b =
      (if sc_mods s = m \<and> p (sc_key s) \<and> c \<notin> set commands then commands @ [c] else commands)"
    by (simp add: press_step_def b)
  have "distinct (press_step m ctx p commands b)" using Cons.prems(2) by (simp add: step)
  from Cons.IH [OF _ this] Cons.prems(1) show ?case by (auto simp: step [unfolded b] b)
qed simp

text \<open>The keys of a frame run each command once, those bound to a pressed key under these modifiers.\<close>

lemma pressed_commands_exact:
  "distinct (pressed_commands m ctx p) \<and>
   set (pressed_commands m ctx p) =
     (if kc_search_focused ctx then {} else {c. \<exists>s. (s, c) \<in> set BINDINGS \<and> sc_mods s = m \<and> p (sc_key s)})"
proof (cases "kc_search_focused ctx")
  case True
  then have "foldl (press_step m ctx p) [] bs = []" for bs
    by (induction bs) (simp_all add: press_step_def lookup_shortcut_def)
  with True show ?thesis by (simp add: pressed_commands_def)
next
  case False
  then show ?thesis using press_fold [of ctx BINDINGS "[]" m p] by (simp add: pressed_commands_def)
qed

section \<open>Emoji\<close>

definition PLACEHOLDER :: uchar where
  "PLACEHOLDER = 0x2003"

definition VARIATION_SELECTOR_16 :: uchar where
  "VARIATION_SELECTOR_16 = 0xFE0F"

definition COMBINING_KEYCAP :: uchar where
  "COMBINING_KEYCAP = 0x20E3"

record prepared =
  pr_text :: str
  pr_emoji :: "(nat \<times> str) list"

definition in_ranges :: "(nat \<times> nat) list \<Rightarrow> uchar \<Rightarrow> bool" where
  "in_ranges rs c \<longleftrightarrow> list_ex (\<lambda>(a, b). a \<le> c \<and> c \<le> b) rs"

definition is_default_emoji :: "uchar \<Rightarrow> bool" where
  "is_default_emoji = in_ranges
     [(0x1F000, 0x1FAFF),
      (0x231A, 0x231B), (0x23E9, 0x23EC), (0x23F0, 0x23F0), (0x23F3, 0x23F3),
      (0x25FD, 0x25FE), (0x2614, 0x2615), (0x2648, 0x2653),
      (0x267F, 0x267F), (0x2693, 0x2693), (0x26A1, 0x26A1), (0x26AA, 0x26AB),
      (0x26BD, 0x26BE), (0x26C4, 0x26C5), (0x26CE, 0x26CE), (0x26D4, 0x26D4),
      (0x26EA, 0x26EA), (0x26F2, 0x26F3), (0x26F5, 0x26F5), (0x26FA, 0x26FA), (0x26FD, 0x26FD),
      (0x2705, 0x2705), (0x270A, 0x270B), (0x2728, 0x2728), (0x274C, 0x274C), (0x274E, 0x274E),
      (0x2753, 0x2755), (0x2757, 0x2757), (0x2795, 0x2797), (0x27B0, 0x27B0),
      (0x27BF, 0x27BF), (0x2B1B, 0x2B1C), (0x2B50, 0x2B50), (0x2B55, 0x2B55)]"

definition has_emoji_presentation :: "str \<Rightarrow> bool" where
  "has_emoji_presentation cluster \<longleftrightarrow>
     VARIATION_SELECTOR_16 \<in> set cluster \<or> COMBINING_KEYCAP \<in> set cluster \<or>
     (case cluster of [] \<Rightarrow> False | c # _ \<Rightarrow> is_default_emoji c)"

definition artwork :: "(str \<Rightarrow> 'a option) \<Rightarrow> str \<Rightarrow> 'a option" where
  "artwork from_emoji cluster =
     (case from_emoji cluster of
        Some a \<Rightarrow> Some a
      | None \<Rightarrow> from_emoji (filter (\<lambda>c. c \<noteq> VARIATION_SELECTOR_16) cluster))"

definition all_ascii :: "str \<Rightarrow> bool" where
  "all_ascii s \<longleftrightarrow> list_all (\<lambda>c. c < 128) s"

definition is_emoji :: "(str \<Rightarrow> 'a option) \<Rightarrow> str \<Rightarrow> bool" where
  "is_emoji from_emoji cluster \<longleftrightarrow>
     \<not> all_ascii cluster \<and> artwork from_emoji cluster \<noteq> None \<and> has_emoji_presentation cluster"

definition prepare_step :: "(str \<Rightarrow> 'a option) \<Rightarrow> prepared \<times> nat \<Rightarrow> str \<Rightarrow> prepared \<times> nat" where
  "prepare_step from_emoji = (\<lambda>(p, chars) cluster.
     if is_emoji from_emoji cluster
     then (\<lparr>pr_text = pr_text p @ [PLACEHOLDER], pr_emoji = pr_emoji p @ [(chars, cluster)]\<rparr>, chars + 1)
     else (p\<lparr>pr_text := pr_text p @ cluster\<rparr>, chars + length cluster))"

definition prepare :: "(str \<Rightarrow> 'a option) \<Rightarrow> (str \<Rightarrow> str list) \<Rightarrow> str \<Rightarrow> prepared" where
  "prepare from_emoji graphemes original =
     (if all_ascii original then \<lparr>pr_text = original, pr_emoji = []\<rparr>
      else fst (foldl (prepare_step from_emoji) (\<lparr>pr_text = [], pr_emoji = []\<rparr>, 0) (graphemes original)))"

text \<open>Putting the emoji back, each at its index.\<close>

fun restore :: "(nat \<times> str) list \<Rightarrow> nat \<Rightarrow> str \<Rightarrow> str" where
  "restore es i [] = []"
| "restore es i (c # cs) = (case map_of es i of Some e \<Rightarrow> e | None \<Rightarrow> [c]) @ restore es (Suc i) cs"

lemma restore_append: "restore es i (xs @ ys) = restore es i xs @ restore es (i + length xs) ys"
  by (induction xs arbitrary: i) simp_all

lemma map_of_snoc: "map_of (es @ [(k, e)]) j = (case map_of es j of Some x \<Rightarrow> Some x | None \<Rightarrow> if j = k then Some e else None)"
  by (induction es) auto

lemma restore_later: "i + length xs \<le> k \<Longrightarrow> restore (es @ [(k, e)]) i xs = restore es i xs"
  by (induction xs arbitrary: i) (auto simp: map_of_snoc split: option.split)

lemma restore_plain: "\<forall>(k, e) \<in> set es. k < i \<Longrightarrow> restore es i xs = xs"
proof (induction xs arbitrary: i)
  case (Cons x xs)
  have "map_of es i = None" using Cons.prems by (auto simp: map_of_eq_None_iff)
  moreover have "restore es (Suc i) xs = xs" using Cons.prems by (intro Cons.IH) auto
  ultimately show ?case by simp
qed simp

definition prepared_ok :: "str \<Rightarrow> prepared \<times> nat \<Rightarrow> bool" where
  "prepared_ok s pc \<longleftrightarrow> snd pc = length (pr_text (fst pc)) \<and> restore (pr_emoji (fst pc)) 0 (pr_text (fst pc)) = s \<and>
     (\<forall>(i, e) \<in> set (pr_emoji (fst pc)). i < length (pr_text (fst pc)) \<and> pr_text (fst pc) ! i = PLACEHOLDER)"

lemma prepared_ok_step:
  assumes "prepared_ok s pc"
  shows "prepared_ok (s @ cluster) (prepare_step from_emoji pc cluster)"
proof -
  obtain p where pc: "pc = (p, length (pr_text p))" using assms by (cases pc) (simp add: prepared_ok_def)
  note ok = assms [unfolded prepared_ok_def pc, simplified]
  have less: "\<forall>(k, e) \<in> set (pr_emoji p). k < length (pr_text p)" using ok by auto
  then have "map_of (pr_emoji p) (length (pr_text p)) = None" by (auto simp: map_of_eq_None_iff)
  with ok less show ?thesis
    by (auto simp: prepared_ok_def prepare_step_def pc restore_append restore_later restore_plain map_add_def nth_append)
qed

lemma prepared_ok_fold: "prepared_ok s pc \<Longrightarrow> prepared_ok (s @ concat cs) (foldl (prepare_step f) pc cs)"
proof (induction cs arbitrary: s pc)
  case (Cons c cs)
  from Cons.IH [OF prepared_ok_step [OF Cons.prems], of c f] show ?case by simp
qed simp

text \<open>Where the clusters of a text make up the text, the emoji put back in their places give it again,
  and every recorded place holds the placeholder: the front end paints over nothing else.\<close>

theorem prepare_restores:
  assumes "concat (graphemes s) = s"
  shows "restore (pr_emoji (prepare f graphemes s)) 0 (pr_text (prepare f graphemes s)) = s \<and>
    (\<forall>(i, e) \<in> set (pr_emoji (prepare f graphemes s)).
       i < length (pr_text (prepare f graphemes s)) \<and> pr_text (prepare f graphemes s) ! i = PLACEHOLDER)"
proof (cases "all_ascii s")
  case True
  then show ?thesis by (simp add: prepare_def restore_plain)
next
  case False
  have "prepared_ok [] (\<lparr>pr_text = [], pr_emoji = []\<rparr>, 0)" by (simp add: prepared_ok_def)
  from prepared_ok_fold [OF this, of "graphemes s" f] assms False show ?thesis
    by (simp add: prepared_ok_def prepare_def)
qed

text \<open>A sign that is usually text stays text unless its writer asked for the picture.\<close>

lemma copyright_sign_stays_text:
  "\<not> is_emoji (\<lambda>_. Some ()) [0xA9]" "is_emoji (\<lambda>_. Some ()) [0xA9, 0xFE0F]" "is_emoji (\<lambda>_. Some ()) [0x2705]"
  by (simp_all add: is_emoji_def all_ascii_def artwork_def has_emoji_presentation_def is_default_emoji_def in_ranges_def
      VARIATION_SELECTOR_16_def COMBINING_KEYCAP_def)

end
