(* ===== verification/Spec2Isabelle.thy ===== *)
theory Spec2Isabelle
  imports SearchQuery RowSelection MailboxTree SmtpServer Notify AppPump OpenFolder OutboxFlow ImapClient Session
    Folders Results Reading Panes Files Accounts Contacts Ipc Moving RenderImages TextSelection Render Startup Purge ComposeWindow AccountWindow ListWindows PageText PageMouse FrontEnd
begin

text \<open>
  A model of esmail, a mail client in Rust: the core (\<open>crates/esmail\<close>), its Windows user interface
  (\<open>crates/esmail-win32\<close>), the HTML view (\<open>crates/litehtml-view-d2d\<close>) and the IMAP and SMTP
  server its tests run against (\<open>crates/mail-mock-server\<close>).

  \<^bold>\<open>The program.\<close> An account has a session: an actor that owns the IMAP connection, with a body
  worker on a second one, a watch that waits in \<open>IDLE\<close>, and a forwarder that passes on what they
  report.  A cache actor owns an SQLite file with headers, bodies, a search index, drafts and the
  outbox; an SMTP actor sends.  These tasks share nothing and talk through queues of commands and
  events.  The user interface is one loop over messages: it sends commands, and takes the events
  in to keep the folder pane, the message list and the reading pane.  Every compose window is a
  loop of its own that asks the main window to send, save or drop its message.  The HTML view hands
  pages to a render thread.  A second launch of the program hands its request to the first one.

  \<^bold>\<open>How it is modelled.\<close> A Rust struct is a record, an enum a datatype, a fixed-width integer a
  word of that width, a \<open>String\<close> the list of its code points (\<open>Prelude\<close>).  A function that fails
  returns a sum, its errors on the left; one that can panic returns an option.  A task is a function
  of its state and one input, or a fold over a list of inputs; what it sends is appended to a list
  in its state or in the world, in order.  An input list therefore is an interleaving, and a
  theorem about all input lists one about all interleavings of whole messages.  Where two tasks
  share memory or files (\<open>RenderWorker\<close>, \<open>Launch\<close>) the steps are the single accesses and a schedule
  chooses who runs.  What lies outside the repository is an argument: the \<open>async_imap\<close> session,
  \<open>lettre\<close>, \<open>mailparse\<close>, \<open>ammonia\<close>, \<open>cssparser\<close>, litehtml, SQLite's text search, date, JSON,
  URL and base64 libraries, the keyring, the file system, the clock and Unicode tables beyond
  white space.  What the lemmas need of such an argument are their hypotheses.

  \<^bold>\<open>Shared vocabulary.\<close> \<open>Prelude\<close>: integers, strings, UTF-8, decimal numbers, list search and
  update, saturating subtraction, with their simplification rules.

  \<^bold>\<open>The core.\<close>
  \<^item> \<open>SearchQuery\<close> (\<open>search_query.rs\<close>): the query language.  The parser equals a specification field
    by field; quoting and tokenizing are inverse.
  \<^item> \<open>MailHeaders\<close>, \<open>MailboxTree\<close> (\<open>imap.rs\<close>): addresses; the folder tree as a map from paths to
    mailboxes, sorted, flattened and folded.
  \<^item> \<open>Config\<close> (\<open>config.rs\<close>), \<open>ViewModel\<close> (\<open>view_model.rs\<close>, \<open>progress.rs\<close>), \<open>Compose\<close>
    (\<open>compose.rs\<close>), \<open>Contacts\<close> (\<open>contacts.rs\<close>), \<open>Notify\<close> (\<open>notify.rs\<close>): accounts and settings, labels
    and file names, replies and forwards, recipient suggestions, new-mail notices.
  \<^item> \<open>Auth\<close> (\<open>auth.rs\<close>, \<open>oauth.rs\<close>, \<open>secrets.rs\<close>): signing in.  A code is taken only with the state of
    this sign-in.
  \<^item> \<open>Protocol\<close>: the commands and events.  \<open>ImapActor\<close>, \<open>ImapActorFacts\<close>, \<open>ImapClient\<close>
    (\<open>imap.rs\<close>): the actor and its worker over any session, answers and reconnecting, and the actor
    against a server that keeps the contract of the locales \<open>mail_service\<close> and \<open>mail_mover\<close>, which
    the test server does.  \<open>Session\<close> (\<open>session.rs\<close>, \<open>idle_watch.rs\<close>, \<open>watcher.rs\<close>).
  \<^item> \<open>Db\<close>, \<open>DbFacts\<close> (\<open>db.rs\<close>, \<open>db/cached.rs\<close>): the cache, one definition per command; its invariant,
    round trips, search and the sync plans.
  \<^item> \<open>Sending\<close> (\<open>smtp.rs\<close>, \<open>sending.rs\<close>): the SMTP actor.
  \<^item> \<open>AppCore\<close>, \<open>AppPump\<close> (\<open>app/mod.rs\<close>, \<open>app/state.rs\<close>, \<open>app/progress.rs\<close>, \<open>app/pump.rs\<close>): the state
    behind a front end and every event.
  \<^item> \<open>Css\<close>, \<open>Render\<close> (\<open>css.rs\<close>, \<open>render.rs\<close>): the page of a message.  The emitted style sheet is the
    printing of a well-formed tree and cannot leave its element.
  \<^item> \<open>FrontEnd\<close> (\<open>shortcuts.rs\<close>, \<open>emoji.rs\<close>): the shortcut table and emoji placeholders.
  \<^item> \<open>Ipc\<close> (\<open>ipc/\<close>), \<open>Launch\<close> (\<open>shell.rs\<close>, \<open>instance.rs\<close>), \<open>Purge\<close> (\<open>uninstall.rs\<close>, \<open>paths.rs\<close>).

  \<^bold>\<open>The test server.\<close> \<open>MailStore\<close>, \<open>ImapServer\<close>, \<open>SmtpServer\<close> (\<open>store.rs\<close>, \<open>imap_server.rs\<close>,
  \<open>smtp_server.rs\<close>).

  \<^bold>\<open>The window.\<close>
  \<^item> \<open>RowSelection\<close>, \<open>Loads\<close>, \<open>OpenFolder\<close>, \<open>Results\<close>, \<open>ListView\<close> (\<open>selection.rs\<close>, \<open>loads.rs\<close>,
    \<open>mailbox.rs\<close>, \<open>results.rs\<close>, \<open>state.rs\<close>, \<open>message_list/\<close>): the list and what it shows.
  \<^item> \<open>Folders\<close>, \<open>Links\<close>, \<open>Reading\<close>, \<open>Panes\<close>, \<open>Files\<close>, \<open>AccountForm\<close>, \<open>Accounts\<close>, \<open>AccountStatus\<close>
    (\<open>core_glue/\<close>, \<open>app/accounts/\<close>): the panes and their decisions, attachment files, the accounts.
  \<^item> \<open>AccountWindow\<close> (\<open>accounts/window.rs\<close>, \<open>connect.rs\<close>, \<open>mod.rs\<close>): the account form, its attempts and
    the main window over their queues; the form is never left locked, and nothing untested is saved.
  \<^item> \<open>Deliveries\<close>, \<open>Composes\<close>, \<open>OutboxFlow\<close>, \<open>ComposeWindow\<close> (\<open>deliveries.rs\<close>, \<open>composes.rs\<close>,
    \<open>queue/mod.rs\<close>, \<open>compose/\<close>): writing, sending and keeping mail.
  \<^item> \<open>Window\<close> (\<open>app/\<close>) composes all this: \<open>win_update\<close> takes one message.  \<open>WindowView\<close> shows that
    actions hit the message drawn in the row, \<open>WindowPane\<close> and \<open>PaneSafety\<close> what the reading pane shows
    and loads, \<open>Moving\<close> what a move asks for.
  \<^item> \<open>Startup\<close> (\<open>args.rs\<close>): the command line.
  \<^item> \<open>ListWindows\<close> (\<open>queue/window.rs\<close>, \<open>manage.rs\<close>, \<open>settings.rs\<close>, \<open>config_saver.rs\<close>): the windows that
    list drafts, queued mail and accounts, the settings, and the writer of the configuration.
  \<^item> \<open>RenderWorker\<close>, \<open>RenderImages\<close>, \<open>PageLinks\<close>, \<open>PageText\<close>, \<open>TextSelection\<close>,
    \<open>PageMouse\<close> (\<open>litehtml-view-d2d\<close>): the render thread and its images, the links and the text of a
    page, selecting text, and the mouse over it.

  \<^bold>\<open>Interfaces.\<close> \<open>row_set\<close> (a selection as a set of rows), \<open>owner_table\<close> (who owns an outbox row),
  \<open>mail_service\<close> and \<open>mail_mover\<close> (an IMAP session), \<open>transport\<close> (named streams), \<open>list_window\<close>
  (a list that keeps its selection), \<open>pane_frame\<close> and \<open>pane_invariant\<close> (what a property of the reading pane has to survive) are locales, each interpreted
  on the definitions of the model.

  \<^bold>\<open>Bounds.\<close> No definition takes fuel.  Loops that end have termination proofs; a sign-in and a
  server's session recurse over their input; the search for a free file name is a partial function,
  shown to return.  Liveness is stated with its number of steps: a request of a launch is forwarded
  within 52 turns of the first instance, a body is shown at most two replies after the last
  selection, the account form is free after at most \<open>setup_weight\<close> steps, a reconnect makes at
  most five attempts with fifteen seconds of waiting in all.  Counters of 64 bits (request and message
  ids) are words where an id is compared with an older one, and natural numbers in \<open>RenderWorker\<close>.
  The cache's queue holds \<open>COMMAND_QUEUE\<close> = 256 commands in \<open>Composes\<close> and drops the next one; elsewhere
  (\<open>AppCore\<close>, \<open>Window\<close>) the commands handed to a queue are recorded whether or not it takes them.  Entries
  of the keyring may refuse to be stored (\<open>st_refused\<close>) and to be deleted (\<open>st_kept\<close>, \<open>pg_kept\<close>).

  \<^bold>\<open>Not modelled.\<close> Creating and laying out widgets, painting, scrolling and hit tests (floating
  point and the win32ui library); the display lists and clipping of
  \<open>litehtml-view-d2d\<close> (\<open>list.rs\<close>, \<open>paint.rs\<close>, \<open>geom.rs\<close>, the drawing half of
  \<open>container.rs\<close>), which are calls between litehtml and Direct2D; toasts, tray, registry, named pipes and
  icons (\<open>platform/\<close>, \<open>ipc/local.rs\<close>, \<open>tray.rs\<close>); reading and writing TOML; opening the SQLite file,
  its column migrations and disk errors; memory limits and the real passage of time.
\<close>

end
